(* ===== verification/Prelude.thy ===== *)
theory Prelude
  imports Main "HOL-Library.Multiset" "HOL-Library.Sublist" "HOL-Library.Char_ord" "HOL-Library.List_Lexorder"
begin

text \<open>
  Shared vocabulary of the development: the collections of simplification rules, the
  type synonyms for the values of Go programs, the outcome type for code that can stop the
  process or panic, and generic lemmas on lists and association lists.

  A Go \<open>string\<close> is a sequence of bytes and is modelled as a \<open>string\<close>
  (a list of \<open>char\<close>, which has exactly 256 elements). A Go map whose iteration order
  matters is an association list with distinct keys, the list order being the iteration order
  of one run; a Go map that is only read by key is a partial function.
\<close>

named_theorems str_simps "rules on the byte-string operations"
named_theorems path_simps "rules on slash-separated paths"
named_theorems cfg_simps "rules on configuration records"

section \<open>Outcomes\<close>

text \<open>
  How a Go computation can end other than by returning: a run-time panic (slice out of range,
  nil dereference), a fatal log call, which ends the process, or \<open>os.Exit\<close>. \<open>OutOfFuel\<close> is no
  behaviour of the program: a bounded definition was given too little fuel.
\<close>

datatype stop = Panic string | Fatal string | OsExit | OutOfFuel

type_synonym 'a outcome = "stop + 'a"

definition is_ok :: "('e + 'a) \<Rightarrow> bool" where
  "is_ok r = (case r of Inl _ \<Rightarrow> False | Inr _ \<Rightarrow> True)"

lemma is_ok_simps [simp]: "is_ok (Inr x)" "\<not> is_ok (Inl e)"
  by (simp_all add: is_ok_def)

lemma is_ok_iff: "is_ok r \<longleftrightarrow> (\<exists>x. r = Inr x)"
  by (cases r) simp_all

section \<open>Association lists as Go maps\<close>

type_synonym ('k, 'v) gomap = "('k \<times> 'v) list"

text \<open>Assignment \<open>m[k] = v\<close>: replaces the value of a present key, else appends it.\<close>

fun al_put :: "('k \<times> 'v) list \<Rightarrow> 'k \<Rightarrow> 'v \<Rightarrow> ('k \<times> 'v) list" where
  "al_put [] k v = [(k, v)]"
| "al_put ((k', v') # m) k v = (if k' = k then (k, v) # m else (k', v') # al_put m k v)"

definition al_wf :: "('k \<times> 'v) list \<Rightarrow> bool" where
  "al_wf m \<longleftrightarrow> distinct (map fst m)"

lemma al_put_new: "k \<notin> fst ` set m \<Longrightarrow> al_put m k v = m @ [(k, v)]"
  by (induction m k v rule: al_put.induct) auto

lemma map_of_al_put [simp]: "map_of (al_put m k v) = (map_of m)(k \<mapsto> v)"
  by (induction m k v rule: al_put.induct) auto

lemma fst_set_al_put: "fst ` set (al_put m k v) = insert k (fst ` set m)"
  by (induction m k v rule: al_put.induct) auto

lemma set_al_put: "set (al_put m k v) \<subseteq> insert (k, v) (set m)"
  by (induction m k v rule: al_put.induct) auto

lemma al_wf_put [simp]: "al_wf m \<Longrightarrow> al_wf (al_put m k v)"
  unfolding al_wf_def
proof (induction m k v rule: al_put.induct)
  case (2 k' v' m k v)
  then show ?case using fst_set_al_put [of m k v] by auto
qed simp

lemma al_wf_Nil [simp]: "al_wf []"
  by (simp add: al_wf_def)

lemma al_wf_map_of: "al_wf m \<Longrightarrow> (k, v) \<in> set m \<Longrightarrow> map_of m k = Some v"
  by (simp add: al_wf_def)

text \<open>\<open>m[k] = append(m[k], v)\<close>.\<close>

definition al_append :: "('k, 'v list) gomap \<Rightarrow> 'k \<Rightarrow> 'v \<Rightarrow> ('k, 'v list) gomap" where
  "al_append m k v = al_put m k ((case map_of m k of None \<Rightarrow> [] | Some vs \<Rightarrow> vs) @ [v])"

text \<open>Two iteration orders of one map.\<close>

definition same_map :: "('k \<times> 'v) list \<Rightarrow> ('k \<times> 'v) list \<Rightarrow> bool" where
  "same_map m m' \<longleftrightarrow> al_wf m \<and> al_wf m' \<and> set m = set m'"

lemma same_map_map_of: "same_map m m' \<Longrightarrow> map_of m = map_of m'"
  by (simp add: same_map_def al_wf_def map_of_inject_set)

section \<open>Searching lists\<close>

text \<open>The first \<open>Some\<close> of a list of lookups.\<close>

fun first_some :: "('a \<Rightarrow> 'b option) \<Rightarrow> 'a list \<Rightarrow> 'b option" where
  "first_some f [] = None"
| "first_some f (x # xs) = (case f x of None \<Rightarrow> first_some f xs | Some y \<Rightarrow> Some y)"

lemma find_append: "find P (xs @ ys) = (case find P xs of None \<Rightarrow> find P ys | Some x \<Rightarrow> Some x)"
  by (induction xs) auto

lemma first_some_None_iff: "first_some f xs = None \<longleftrightarrow> (\<forall>x \<in> set xs. f x = None)"
  by (induction xs) (auto split: option.splits)

lemma first_some_Some_iff:
  "first_some f xs = Some y \<longleftrightarrow>
     (\<exists>us x vs. xs = us @ x # vs \<and> (\<forall>u \<in> set us. f u = None) \<and> f x = Some y)"
proof (induction xs)
  case Nil
  then show ?case by simp
next
  case (Cons a xs)
  show ?case
  proof (cases "f a")
    case None
    show ?thesis
    proof
      assume "first_some f (a # xs) = Some y"
      with None Cons.IH obtain us x vs where
        "xs = us @ x # vs" "\<forall>u \<in> set us. f u = None" "f x = Some y" by auto
      with None show "\<exists>us x vs. a # xs = us @ x # vs \<and> (\<forall>u \<in> set us. f u = None) \<and> f x = Some y"
        by (intro exI [of _ "a # us"]) auto
    next
      assume "\<exists>us x vs. a # xs = us @ x # vs \<and> (\<forall>u \<in> set us. f u = None) \<and> f x = Some y"
      then obtain us x vs where h: "a # xs = us @ x # vs" "\<forall>u \<in> set us. f u = None" "f x = Some y"
        by blast
      with None obtain us' where "us = a # us'" by (cases us) auto
      with h None Cons.IH show "first_some f (a # xs) = Some y" by auto
    qed
  next
    case (Some b)
    show ?thesis
    proof
      assume "first_some f (a # xs) = Some y"
      with Some show "\<exists>us x vs. a # xs = us @ x # vs \<and> (\<forall>u \<in> set us. f u = None) \<and> f x = Some y"
        by (intro exI [of _ "[]"]) auto
    next
      assume "\<exists>us x vs. a # xs = us @ x # vs \<and> (\<forall>u \<in> set us. f u = None) \<and> f x = Some y"
      then obtain us x vs where h: "a # xs = us @ x # vs" "\<forall>u \<in> set us. f u = None" "f x = Some y"
        by blast
      with Some have "us = []" by (cases us) auto
      with h Some show "first_some f (a # xs) = Some y" by auto
    qed
  qed
qed

lemma first_some_append:
  "first_some f (xs @ ys) = (case first_some f xs of None \<Rightarrow> first_some f ys | Some y \<Rightarrow> Some y)"
  by (induction xs) (auto split: option.splits)

lemma first_some_cong [fundef_cong]:
  "xs = ys \<Longrightarrow> (\<And>x. x \<in> set ys \<Longrightarrow> f x = g x) \<Longrightarrow> first_some f xs = first_some g ys"
proof -
  assume "xs = ys" and "\<And>x. x \<in> set ys \<Longrightarrow> f x = g x"
  moreover have "(\<And>x. x \<in> set zs \<Longrightarrow> f x = g x) \<Longrightarrow> first_some f zs = first_some g zs" for zs
    by (induction zs) (auto split: option.splits)
  ultimately show ?thesis by simp
qed

end
