(* ===== verification/Go_Strings.thy ===== *)
theory Go_Strings
  imports Prelude
begin

text \<open>
  The operations of Go's standard packages \<open>strings\<close> and \<open>slices\<close> that the program
  uses, on byte strings. Separators are single bytes everywhere in the program, so
  \<open>Cut\<close> and \<open>Split\<close> take a byte.
\<close>

section \<open>Prefixes and suffixes\<close>

abbreviation HasPrefix :: "string \<Rightarrow> string \<Rightarrow> bool" where
  "HasPrefix s p \<equiv> prefix p s"

abbreviation HasSuffix :: "string \<Rightarrow> string \<Rightarrow> bool" where
  "HasSuffix s p \<equiv> suffix p s"

definition TrimPrefix :: "string \<Rightarrow> string \<Rightarrow> string" where
  "TrimPrefix s p = (if HasPrefix s p then drop (length p) s else s)"

definition TrimSuffix :: "string \<Rightarrow> string \<Rightarrow> string" where
  "TrimSuffix s p = (if HasSuffix s p then take (length s - length p) s else s)"

definition CutPrefix :: "string \<Rightarrow> string \<Rightarrow> string \<times> bool" where
  "CutPrefix s p = (if HasPrefix s p then (drop (length p) s, True) else (s, False))"

lemma TrimSuffix_append [simp]: "TrimSuffix (s @ p) p = s"
  by (simp add: TrimSuffix_def suffix_def)

lemma TrimPrefix_append [simp]: "TrimPrefix (p @ s) p = s"
  by (simp add: TrimPrefix_def)

lemma TrimSuffix_cases:
  obtains (cut) t where "s = t @ p" "TrimSuffix s p = t" | (keep) "\<not> HasSuffix s p" "TrimSuffix s p = s"
  by (cases "HasSuffix s p") (auto simp: TrimSuffix_def suffix_def)

lemma length_TrimSuffix [simp]: "length (TrimSuffix s p) \<le> length s"
  by (simp add: TrimSuffix_def)

section \<open>Searching\<close>

fun IndexByte :: "string \<Rightarrow> char \<Rightarrow> nat option" where
  "IndexByte [] c = None"
| "IndexByte (x # xs) c = (if x = c then Some 0 else map_option Suc (IndexByte xs c))"

text \<open>\<open>Contains(s, sub)\<close>.\<close>

fun str_contains :: "string \<Rightarrow> string \<Rightarrow> bool" where
  "str_contains [] sub = (sub = [])"
| "str_contains (x # xs) sub = (HasPrefix (x # xs) sub \<or> str_contains xs sub)"

definition ContainsAny :: "string \<Rightarrow> string \<Rightarrow> bool" where
  "ContainsAny s chars = list_ex (\<lambda>c. c \<in> set chars) s"

text \<open>\<open>Cut(s, sep)\<close>: before, after, found.\<close>

fun CutByte :: "string \<Rightarrow> char \<Rightarrow> string \<times> string \<times> bool" where
  "CutByte [] c = ([], [], False)"
| "CutByte (x # xs) c =
     (if x = c then ([], xs, True)
      else (let (b, a, f) = CutByte xs c in (x # b, a, f)))"

lemma CutByte_found: "c \<in> set s \<Longrightarrow> \<exists>b a. CutByte s c = (b, a, True) \<and> s = b @ c # a \<and> c \<notin> set b"
  by (induction s) auto

lemma CutByte_not_found: "c \<notin> set s \<Longrightarrow> CutByte s c = (s, [], False)"
  by (induction s) auto

lemma CutByte_append: "c \<notin> set b \<Longrightarrow> CutByte (b @ c # a) c = (b, a, True)"
  by (induction b) auto

lemma CutByte_TrueD: "CutByte s c = (b, a, True) \<Longrightarrow> s = b @ c # a \<and> c \<notin> set b"
  using CutByte_found CutByte_not_found by (metis Pair_inject)

lemma CutByte_FalseD: "CutByte s c = (b, a, False) \<Longrightarrow> c \<notin> set s \<and> b = s \<and> a = []"
  using CutByte_found CutByte_not_found by (metis Pair_inject)

text \<open>\<open>s[:LastIndex(s, sep)+1]\<close> and the rest after it: split after the last separator.\<close>

definition after_last :: "char \<Rightarrow> string \<Rightarrow> string" where
  "after_last c s = rev (takeWhile (\<lambda>x. x \<noteq> c) (rev s))"

definition upto_last :: "char \<Rightarrow> string \<Rightarrow> string" where
  "upto_last c s = rev (dropWhile (\<lambda>x. x \<noteq> c) (rev s))"

lemma upto_after_last [simp]: "upto_last c s @ after_last c s = s"
  by (metis after_last_def upto_last_def rev_append rev_rev_ident takeWhile_dropWhile_id)

lemma after_last_notin [simp]: "c \<notin> set (after_last c s)"
  by (auto simp: after_last_def dest: set_takeWhileD)

lemma upto_last_cases: "upto_last c s = [] \<or> (\<exists>t. upto_last c s = t @ [c])"
proof (cases "dropWhile (\<lambda>x. x \<noteq> c) (rev s)")
  case Nil
  then show ?thesis by (simp add: upto_last_def)
next
  case (Cons x xs)
  then have "x = c" by (metis (mono_tags, lifting) hd_dropWhile list.distinct(1) list.sel(1))
  with Cons show ?thesis by (simp add: upto_last_def)
qed

lemma length_upto_last [simp]: "length (upto_last c s) \<le> length s"
  by (metis length_append le_add1 upto_after_last)

lemma last_split_eq: "c \<notin> set f \<Longrightarrow> upto_last c (d @ c # f) = d @ [c] \<and> after_last c (d @ c # f) = f"
  by (simp add: upto_last_def after_last_def dropWhile_append3 takeWhile_append)

lemma last_split_none: "c \<notin> set s \<Longrightarrow> upto_last c s = [] \<and> after_last c s = s"
proof -
  assume "c \<notin> set s"
  then have "takeWhile (\<lambda>x. x \<noteq> c) (rev s) = rev s"
    by (intro takeWhile_eq_all_conv [THEN iffD2]) auto
  moreover from \<open>c \<notin> set s\<close> have "dropWhile (\<lambda>x. x \<noteq> c) (rev s) = []"
    by (auto simp: dropWhile_eq_Nil_conv)
  ultimately show ?thesis by (simp only: upto_last_def after_last_def rev.simps rev_rev_ident simp_thms)
qed

section \<open>Splitting and joining\<close>

fun Split :: "char \<Rightarrow> string \<Rightarrow> string list" where
  "Split c [] = [[]]"
| "Split c (x # xs) =
     (if x = c then [] # Split c xs
      else (case Split c xs of [] \<Rightarrow> [[x]] | w # ws \<Rightarrow> (x # w) # ws))"

fun Join :: "string \<Rightarrow> string list \<Rightarrow> string" where
  "Join sep [] = []"
| "Join sep [w] = w"
| "Join sep (w # v # ws) = w @ sep @ Join sep (v # ws)"

lemma Split_not_Nil [simp]: "Split c s \<noteq> []"
  by (induction s) (auto split: list.splits)

lemma Split_no_sep: "w \<in> set (Split c s) \<Longrightarrow> c \<notin> set w"
  by (induction s arbitrary: w) (auto split: list.splits if_splits)

lemma Join_Cons: "ws \<noteq> [] \<Longrightarrow> Join sep (w # ws) = w @ sep @ Join sep ws"
  by (cases ws) auto

lemma Join_Split [simp]: "Join [c] (Split c s) = s"
proof (induction s)
  case (Cons x xs)
  then show ?case
    by (cases "Split c xs") (auto simp: Join_Cons split: list.splits,
        (metis Join.simps(2) Join.simps(3) append_Cons list.exhaust)+)
qed simp

lemma Split_word [simp]: "c \<notin> set w \<Longrightarrow> Split c w = [w]"
  by (induction w) auto

lemma Split_append: "c \<notin> set w \<Longrightarrow> Split c (w @ c # s) = w # Split c s"
  by (induction w) auto

lemma Split_append_sep: "Split c (s @ c # t) = Split c s @ Split c t"
proof (induction s)
  case (Cons x s)
  then show ?case by (cases "Split c s") (auto split: list.splits)
qed simp

lemma Split_Join: "ws \<noteq> [] \<Longrightarrow> (\<And>w. w \<in> set ws \<Longrightarrow> c \<notin> set w) \<Longrightarrow> Split c (Join [c] ws) = ws"
proof (induction "[c]" ws rule: Join.induct)
  case (3 w v ws)
  then show ?case by (simp add: Split_append)
qed auto

lemma Join_append: "xs \<noteq> [] \<Longrightarrow> ys \<noteq> [] \<Longrightarrow> Join sep (xs @ ys) = Join sep xs @ sep @ Join sep ys"
  by (induction sep xs rule: Join.induct) (auto simp: Join_Cons)

section \<open>Replacing\<close>

text \<open>\<open>ReplaceAll(s, old, new)\<close> for a non-empty \<open>old\<close> (an empty one leaves \<open>s\<close>;
  the program only uses non-empty constants).\<close>

function ReplaceAll :: "string \<Rightarrow> string \<Rightarrow> string \<Rightarrow> string" where
  "ReplaceAll s old new =
     (if old = [] \<or> s = [] then s
      else if HasPrefix s old then new @ ReplaceAll (drop (length old) s) old new
      else hd s # ReplaceAll (tl s) old new)"
  by pat_completeness auto
termination
  by (relation "measure (\<lambda>(s, old, new). length s)") auto

declare ReplaceAll.simps [simp del]

text \<open>\<open>Replace(s, old, new, 1)\<close>.\<close>

fun ReplaceFirst :: "string \<Rightarrow> string \<Rightarrow> string \<Rightarrow> string" where
  "ReplaceFirst [] old new = []"
| "ReplaceFirst (x # xs) old new =
     (if HasPrefix (x # xs) old then new @ drop (length old) (x # xs)
      else x # ReplaceFirst xs old new)"

lemma ReplaceAll_absent: "\<not> str_contains s old \<Longrightarrow> ReplaceAll s old new = s"
proof (induction s)
  case (Cons x s)
  then show ?case by (subst ReplaceAll.simps) auto
qed (subst ReplaceAll.simps, simp)

lemma ReplaceAll_Nil [simp]: "ReplaceAll [] old new = []"
  by (subst ReplaceAll.simps) simp

lemma ReplaceAll_head:
  "old \<noteq> [] \<Longrightarrow> ReplaceAll (old @ s) old new = new @ ReplaceAll s old new"
  by (subst ReplaceAll.simps) auto

section \<open>Trimming\<close>

definition TrimLeft :: "string \<Rightarrow> string \<Rightarrow> string" where
  "TrimLeft s cutset = dropWhile (\<lambda>c. c \<in> set cutset) s"

definition TrimRight :: "string \<Rightarrow> string \<Rightarrow> string" where
  "TrimRight s cutset = rev (dropWhile (\<lambda>c. c \<in> set cutset) (rev s))"

definition Trim :: "string \<Rightarrow> string \<Rightarrow> string" where
  "Trim s cutset = TrimRight (TrimLeft s cutset) cutset"

text \<open>
  \<open>TrimSpace\<close> removes Unicode white space: the ASCII characters and the UTF-8 encodings of
  U+0085, U+00A0, U+1680, U+2000 to U+200A, U+2028, U+2029, U+202F, U+205F and U+3000.
\<close>

definition white_space :: "string list" where
  "white_space =
     map (\<lambda>n. [char_of (n :: nat)]) [9, 10, 11, 12, 13, 32]
     @ map (map (char_of :: nat \<Rightarrow> char)) [[0xC2, 0x85], [0xC2, 0xA0], [0xE1, 0x9A, 0x80]]
     @ map (\<lambda>n. map (char_of :: nat \<Rightarrow> char) [0xE2, 0x80, n])
         [0x80, 0x81, 0x82, 0x83, 0x84, 0x85, 0x86, 0x87, 0x88, 0x89, 0x8A, 0xA8, 0xA9, 0xAF]
     @ map (map (char_of :: nat \<Rightarrow> char)) [[0xE2, 0x81, 0x9F], [0xE3, 0x80, 0x80]]"

definition space_len :: "string list \<Rightarrow> string \<Rightarrow> nat" where
  "space_len enc s = (case find (\<lambda>e. HasPrefix s e) enc of None \<Rightarrow> 0 | Some e \<Rightarrow> length e)"

function trim_front :: "string list \<Rightarrow> string \<Rightarrow> string" where
  "trim_front enc s =
     (if s = [] \<or> space_len enc s = 0 then s else trim_front enc (drop (space_len enc s) s))"
  by pat_completeness auto
termination
  by (relation "measure (\<lambda>(enc, s). length s)") auto

declare trim_front.simps [simp del]

definition TrimSpace :: "string \<Rightarrow> string" where
  "TrimSpace s = rev (trim_front (map rev white_space) (rev (trim_front white_space s)))"

text \<open>Text that neither begins nor ends with a byte of white space is left as it is.\<close>

definition space_firsts :: "char list" where
  "space_firsts = [CHR 0x09, CHR 0x0A, CHR 0x0B, CHR 0x0C, CHR 0x0D, CHR 0x20, CHR 0xC2, CHR 0xE1,
     CHR 0xE2, CHR 0xE3]"

definition space_lasts :: "char list" where
  "space_lasts = [CHR 0x09, CHR 0x0A, CHR 0x0B, CHR 0x0C, CHR 0x0D, CHR 0x20, CHR 0x80, CHR 0x81,
     CHR 0x82, CHR 0x83, CHR 0x84, CHR 0x85, CHR 0x86, CHR 0x87, CHR 0x88, CHR 0x89, CHR 0x8A,
     CHR 0x9F, CHR 0xA0, CHR 0xA8, CHR 0xA9, CHR 0xAF]"

lemma white_space_ends:
  "list_all (\<lambda>e. e \<noteq> [] \<and> hd e \<in> set space_firsts \<and> last e \<in> set space_lasts) white_space"
  by code_simp

lemma space_len_0:
  assumes "list_all (\<lambda>e. e \<noteq> [] \<and> hd e \<in> set cs) enc" "s \<noteq> []" "hd s \<notin> set cs"
  shows "space_len enc s = 0"
proof -
  have "\<not> HasPrefix s e" if "e \<in> set enc" for e
    using assms that by (cases e; cases s) (auto simp: list_all_iff)
  then have "find (\<lambda>e. HasPrefix s e) enc = None" by (auto simp: find_None_iff)
  then show ?thesis by (simp add: space_len_def)
qed

lemma trim_front_plain: "space_len enc s = 0 \<Longrightarrow> trim_front enc s = s"
  by (subst trim_front.simps) simp

lemma TrimSpace_plain:
  assumes "s \<noteq> []" "hd s \<notin> set space_firsts" "last s \<notin> set space_lasts"
  shows "TrimSpace s = s"
proof -
  have "space_len white_space s = 0"
    using white_space_ends assms(1,2) by (intro space_len_0) (auto simp: list_all_iff)
  moreover have "list_all (\<lambda>e. e \<noteq> [] \<and> hd e \<in> set space_lasts) (map rev white_space)"
    using white_space_ends by (auto simp: list_all_iff hd_rev)
  then have "space_len (map rev white_space) (rev s) = 0"
    using assms(1,3) by (intro space_len_0) (auto simp: hd_rev)
  ultimately show ?thesis by (simp add: TrimSpace_def trim_front_plain)
qed

lemma length_trim_front: "length (trim_front enc s) \<le> length s"
proof (induction enc s rule: trim_front.induct)
  case (1 enc s)
  show ?case
  proof (cases "s = [] \<or> space_len enc s = 0")
    case True
    then show ?thesis by (subst trim_front.simps) auto
  next
    case False
    with 1 show ?thesis by (subst trim_front.simps) auto
  qed
qed

text \<open>\<open>Fields\<close>, for ASCII white space and the encodings above.\<close>

function fields_from :: "string \<Rightarrow> string \<Rightarrow> string list" where
  "fields_from acc s =
     (if s = [] then (if acc = [] then [] else [rev acc])
      else if space_len white_space s = 0 then fields_from (hd s # acc) (tl s)
      else (if acc = [] then [] else [rev acc])
             @ fields_from [] (drop (space_len white_space s) s))"
  by pat_completeness auto
termination
  by (relation "measure (\<lambda>(acc, s). length s)") auto

declare fields_from.simps [simp del]

definition Fields :: "string \<Rightarrow> string list" where
  "Fields s = fields_from [] s"

section \<open>Comparison and sorting\<close>

text \<open>\<open>strings.Compare\<close>: bytewise lexicographic order.\<close>

definition Compare :: "string \<Rightarrow> string \<Rightarrow> int" where
  "Compare a b = (if a = b then 0 else if a < b then -1 else 1)"

lemma Compare_0 [simp]: "Compare a b = 0 \<longleftrightarrow> a = b"
  by (simp add: Compare_def)

lemma Compare_less [simp]: "Compare a b < 0 \<longleftrightarrow> a < b"
  by (auto simp: Compare_def)

lemma Compare_greater [simp]: "Compare a b > 0 \<longleftrightarrow> b < a"
  by (auto simp: Compare_def)

text \<open>\<open>slices.Sort\<close> on strings (equal strings are indistinguishable, so its instability
  does not show).\<close>

definition SortStrings :: "string list \<Rightarrow> string list" where
  "SortStrings xs = sort xs"

lemma SortStrings_idem [simp]: "SortStrings (SortStrings xs) = SortStrings xs"
  by (simp add: SortStrings_def sorted_sort_id)

lemma SortStrings_mset: "mset xs = mset ys \<Longrightarrow> SortStrings xs = SortStrings ys"
  by (metis SortStrings_def properties_for_sort sorted_sort mset_sort)

section \<open>Numbers\<close>

text \<open>A number in decimal, as \<open>%d\<close> prints it.\<close>

fun decimal :: "nat \<Rightarrow> string" where
  "decimal n = (if n < 10 then [''0123456789'' ! n] else decimal (n div 10) @ [''0123456789'' ! (n mod 10)])"

declare decimal.simps [simp del]

end
