(* ===== verification/Glob.thy ===== *)
theory Glob
  imports Go_Strings
begin

text \<open>
  Glob expressions (\<open>common/glob.go\<close>). A pattern is classified by five regular
  expressions into shapes that can be matched without the third-party matcher
  \<open>doublestar\<close>; the matcher itself and its validity check are the parameters
  \<open>dsmatch pattern path\<close> and \<open>dsvalid pattern\<close> of the definitions. Parsed expressions
  are kept in the process-wide cache \<open>parsedExpCache\<close>, here an explicit state.
\<close>

type_synonym glob_expr = "string \<Rightarrow> bool"

datatype glob_error = InvalidPattern string | NoPatterns

section \<open>The classifying regular expressions\<close>

definition is_word :: "char \<Rightarrow> bool" where
  "is_word c = ((CHR ''0'' \<le> c \<and> c \<le> CHR ''9'') \<or> (CHR ''A'' \<le> c \<and> c \<le> CHR ''Z'') \<or>
                (CHR ''a'' \<le> c \<and> c \<le> CHR ''z'') \<or> c = CHR ''_'')"

text \<open>The character class \<open>[\w./@-]\<close>.\<close>

definition glob_char :: "char \<Rightarrow> bool" where
  "glob_char c = (is_word c \<or> c \<in> set ''./@-'')"

definition newline :: char where
  "newline = CHR 0x0A"

definition nonGlobRe :: "string \<Rightarrow> bool" where
  "nonGlobRe s = (s \<noteq> [] \<and> list_all glob_char s)"

text \<open>The submatch of \<open>prefixDirRe\<close>.\<close>

definition prefixDirRe :: "string \<Rightarrow> string option" where
  "prefixDirRe s =
     (if HasSuffix s ''/**'' \<and> list_all glob_char (take (length s - 3) s)
      then Some (take (length s - 3) s) else None)"

text \<open>
  The submatches of \<open>prePostGlobRe\<close>. The star is outside the class, so the first group can
  only end at the first character outside the class.
\<close>

definition prePostGlobRe :: "string \<Rightarrow> (string \<times> string \<times> string) option" where
  "prePostGlobRe s =
     (let pre = takeWhile glob_char s; rest = dropWhile glob_char s
      in if (pre = '''' \<or> last pre = CHR ''/'') \<and> HasPrefix rest ''**/'' then
           (let r = drop 3 rest;
                star = (if HasPrefix r ''*'' then ''*'' else '''');
                ext = drop (length star) r
            in if ext \<noteq> '''' \<and> list_all glob_char ext then Some (pre, star, ext) else None)
         else None)"

text \<open>
  The submatch of \<open>preGlobRe\<close>: the longest run of class characters without its trailing
  slashes. A dot of the expression does not match a newline.
\<close>

definition preGlobRe :: "string \<Rightarrow> string option" where
  "preGlobRe s =
     (let g = TrimRight (takeWhile glob_char s) ''/''
      in if g \<noteq> '''' \<and> newline \<notin> set s then Some g else None)"

text \<open>The submatch of \<open>postGlobRe\<close>: the longest run of class characters at the end.\<close>

definition postGlobRe :: "string \<Rightarrow> string option" where
  "postGlobRe s =
     (let g = rev (takeWhile glob_char (rev s))
      in if g \<noteq> '''' \<and> newline \<notin> set s then Some g else None)"

section \<open>One pattern\<close>

definition prefix_dir_match :: "string \<Rightarrow> string \<Rightarrow> bool" where
  "prefix_dir_match dir p =
     (p = dir \<or> (length p > length dir \<and> p ! length dir = CHR ''/'' \<and> HasPrefix p dir))"

definition pre_post_match :: "string \<Rightarrow> string \<Rightarrow> string \<Rightarrow> string \<Rightarrow> bool" where
  "pre_post_match pre star ext p =
     (if length p < length pre + length ext \<or> \<not> HasPrefix p pre then False
      else HasSuffix p ext \<and>
           (star = ''*'' \<or> p = ext \<or> p ! (length p - length ext - 1) = CHR ''/''))"

definition parseGlobExpression :: "(string \<Rightarrow> string \<Rightarrow> bool) \<Rightarrow> string \<Rightarrow> glob_expr" where
  "parseGlobExpression dsmatch exp =
     (if nonGlobRe exp then (\<lambda>p. p = exp)
      else case prefixDirRe exp of
        Some dir \<Rightarrow> prefix_dir_match dir
      | None \<Rightarrow>
        (case prePostGlobRe exp of
           Some (pre, star, ext) \<Rightarrow> pre_post_match pre star ext
         | None \<Rightarrow>
           (case preGlobRe exp of
              Some pre \<Rightarrow> (\<lambda>p. if \<not> HasPrefix p pre then False else dsmatch exp p)
            | None \<Rightarrow>
              (case postGlobRe exp of
                 Some post \<Rightarrow> (\<lambda>p. if \<not> HasSuffix p post then False else dsmatch exp p)
               | None \<Rightarrow> dsmatch exp))))"

section \<open>Many patterns, batched by shape\<close>

record glob_batch =
  exacts :: "string list"
  prePosts :: "(string, (string \<times> string) list) gomap"
  prefixDirs :: "string list"
  preGlobs :: "(string, string list) gomap"
  postGlobs :: "(string, string list) gomap"
  globs :: "string list"

definition empty_batch :: glob_batch where
  "empty_batch = \<lparr>exacts = [], prePosts = [], prefixDirs = [], preGlobs = [], postGlobs = [],
                  globs = []\<rparr>"

text \<open>The body of the loop over the patterns.\<close>

definition batch_add :: "glob_batch \<Rightarrow> string \<Rightarrow> glob_batch" where
  "batch_add b exp =
     (if nonGlobRe exp then b\<lparr>exacts := exp # exacts b\<rparr>
      else case prePostGlobRe exp of
        Some (pre, star, ext) \<Rightarrow> b\<lparr>prePosts := al_append (prePosts b) pre (star, ext)\<rparr>
      | None \<Rightarrow>
        (case prefixDirRe exp of
           Some dir \<Rightarrow> b\<lparr>prefixDirs := prefixDirs b @ [dir]\<rparr>
         | None \<Rightarrow>
           (case preGlobRe exp of
              Some pre \<Rightarrow> b\<lparr>preGlobs := al_append (preGlobs b) pre exp\<rparr>
            | None \<Rightarrow>
              (case postGlobRe exp of
                 Some post \<Rightarrow> b\<lparr>postGlobs := al_append (postGlobs b) post exp\<rparr>
               | None \<Rightarrow> b\<lparr>globs := globs b @ [exp]\<rparr>))))"

fun batch_all :: "(string \<Rightarrow> bool) \<Rightarrow> glob_batch \<Rightarrow> string list \<Rightarrow> glob_error + glob_batch" where
  "batch_all dsvalid b [] = Inr b"
| "batch_all dsvalid b (exp # exps) =
     (if \<not> dsvalid exp then Inl (InvalidPattern exp)
      else batch_all dsvalid (batch_add b exp) exps)"

text \<open>The matchers of a batch; an empty group contributes none.\<close>

definition batch_funcs :: "(string \<Rightarrow> string \<Rightarrow> bool) \<Rightarrow> glob_batch \<Rightarrow> glob_expr list" where
  "batch_funcs dsmatch b =
     (if exacts b = [] then [] else [\<lambda>p. p \<in> set (exacts b)])
     @ (if prePosts b = [] then []
        else [\<lambda>p. list_ex (\<lambda>(pre, exts). HasPrefix p pre \<and>
                    list_ex (\<lambda>(star, ext). length p \<ge> length pre + length ext \<and> HasSuffix p ext \<and>
                       (star = ''*'' \<or> p = ext \<or> p ! (length p - length ext - 1) = CHR ''/'')) exts)
                  (prePosts b)])
     @ (if prefixDirs b = [] then [] else [\<lambda>p. list_ex (\<lambda>dir. prefix_dir_match dir p) (prefixDirs b)])
     @ (if preGlobs b = [] then []
        else [\<lambda>p. list_ex (\<lambda>(pre, gs). HasPrefix p pre \<and> list_ex (\<lambda>g. dsmatch g p) gs) (preGlobs b)])
     @ (if postGlobs b = [] then []
        else [\<lambda>p. list_ex (\<lambda>(post, gs). HasSuffix p post \<and> list_ex (\<lambda>g. dsmatch g p) gs) (postGlobs b)])
     @ (if globs b = [] then [] else [\<lambda>p. list_ex (\<lambda>g. dsmatch g p) (globs b)])"

definition parseGlobExpressions ::
  "(string \<Rightarrow> bool) \<Rightarrow> (string \<Rightarrow> string \<Rightarrow> bool) \<Rightarrow> string list \<Rightarrow> glob_error + glob_expr" where
  "parseGlobExpressions dsvalid dsmatch exps =
     (case batch_all dsvalid empty_batch exps of
        Inl e \<Rightarrow> Inl e
      | Inr b \<Rightarrow> Inr (\<lambda>p. list_ex (\<lambda>f. f p) (batch_funcs dsmatch b)))"

section \<open>The cache of parsed expressions\<close>

type_synonym glob_cache = "string \<rightharpoonup> glob_expr"

definition NUL :: char where
  "NUL = CHR 0x00"

definition ParseGlobExpression ::
  "(string \<Rightarrow> bool) \<Rightarrow> (string \<Rightarrow> string \<Rightarrow> bool) \<Rightarrow> glob_cache \<Rightarrow> string \<Rightarrow>
   (glob_error + glob_expr) \<times> glob_cache" where
  "ParseGlobExpression dsvalid dsmatch cache exp =
     (case cache exp of
        Some g \<Rightarrow> (Inr g, cache)
      | None \<Rightarrow>
        (if \<not> dsvalid exp then (Inl (InvalidPattern exp), cache)
         else let g = parseGlobExpression dsmatch exp in (Inr g, cache(exp \<mapsto> g))))"

definition ParseGlobExpressions ::
  "(string \<Rightarrow> bool) \<Rightarrow> (string \<Rightarrow> string \<Rightarrow> bool) \<Rightarrow> glob_cache \<Rightarrow> string list \<Rightarrow>
   (glob_error + glob_expr) \<times> glob_cache" where
  "ParseGlobExpressions dsvalid dsmatch cache exps =
     (case exps of
        [] \<Rightarrow> (Inl NoPatterns, cache)
      | [exp] \<Rightarrow> ParseGlobExpression dsvalid dsmatch cache exp
      | _ \<Rightarrow>
        (let key = Join [NUL] exps
         in case cache key of
              Some g \<Rightarrow> (Inr g, cache)
            | None \<Rightarrow>
              (case parseGlobExpressions dsvalid dsmatch exps of
                 Inl e \<Rightarrow> (Inl e, cache)
               | Inr g \<Rightarrow> (Inr g, cache(key \<mapsto> g)))))"

definition ParseGlobExpressionsWithExcludes ::
  "(string \<Rightarrow> bool) \<Rightarrow> (string \<Rightarrow> string \<Rightarrow> bool) \<Rightarrow> glob_cache \<Rightarrow> string list \<Rightarrow> string list \<Rightarrow>
   (glob_error + glob_expr) \<times> glob_cache" where
  "ParseGlobExpressionsWithExcludes dsvalid dsmatch cache includes excludes =
     (if excludes = [] then ParseGlobExpressions dsvalid dsmatch cache includes
      else case ParseGlobExpressions dsvalid dsmatch cache excludes of
        (Inl e, cache') \<Rightarrow> (Inl e, cache')
      | (Inr excl, cache') \<Rightarrow>
        (if includes = [] then (Inr (\<lambda>p. \<not> excl p), cache')
         else case ParseGlobExpressions dsvalid dsmatch cache' includes of
           (Inl e, cache'') \<Rightarrow> (Inl e, cache'')
         | (Inr incl, cache'') \<Rightarrow> (Inr (\<lambda>p. incl p \<and> \<not> excl p), cache'')))"

section \<open>Lemmas: the batch and the single patterns\<close>

lemma glob_char_consts [simp]:
  "glob_char (CHR ''/'')" "\<not> glob_char (CHR ''*'')" "\<not> glob_char newline" "\<not> glob_char NUL"
  by (simp_all add: glob_char_def is_word_def newline_def NUL_def)

text \<open>The two classifications that the batch tries in the other order are disjoint.\<close>

lemma prefixDirRe_SomeD:
  "prefixDirRe s = Some d \<Longrightarrow> s = d @ ''/**'' \<and> list_all glob_char d"
  by (auto simp: prefixDirRe_def suffix_def split: if_splits)

lemma prefixDir_not_prePost: "prefixDirRe s = Some d \<Longrightarrow> prePostGlobRe s = None"
proof -
  assume "prefixDirRe s = Some d"
  then have s: "s = d @ ''/**''" and d: "list_all glob_char d"
    by (auto dest: prefixDirRe_SomeD)
  have "dropWhile glob_char s = ''**''"
    using d by (simp add: s dropWhile_append2 list_all_iff)
  then show ?thesis by (simp add: prePostGlobRe_def Let_def)
qed

lemma list_ex_if_Nil:
  "list_ex (\<lambda>f. f p) (if xs = [] then [] else [\<lambda>p. list_ex (Q p) xs]) = list_ex (Q p) xs"
  by simp

lemma list_ex_if_Nil_mem:
  "list_ex (\<lambda>f. f p) (if xs = [] then [] else [\<lambda>p. p \<in> set xs]) = (p \<in> set xs)"
  by simp

lemma batch_funcs_match:
  "list_ex (\<lambda>f. f p) (batch_funcs dsmatch b) \<longleftrightarrow>
     p \<in> set (exacts b) \<or>
     list_ex (\<lambda>(pre, exts). HasPrefix p pre \<and>
        list_ex (\<lambda>(star, ext). length p \<ge> length pre + length ext \<and> HasSuffix p ext \<and>
           (star = ''*'' \<or> p = ext \<or> p ! (length p - length ext - 1) = CHR ''/'')) exts) (prePosts b) \<or>
     list_ex (\<lambda>dir. prefix_dir_match dir p) (prefixDirs b) \<or>
     list_ex (\<lambda>(pre, gs). HasPrefix p pre \<and> list_ex (\<lambda>g. dsmatch g p) gs) (preGlobs b) \<or>
     list_ex (\<lambda>(post, gs). HasSuffix p post \<and> list_ex (\<lambda>g. dsmatch g p) gs) (postGlobs b) \<or>
     list_ex (\<lambda>g. dsmatch g p) (globs b)"
  by (simp only: batch_funcs_def list_ex_append list_ex_if_Nil list_ex_if_Nil_mem)

lemma list_ex_al_append:
  "list_ex (\<lambda>(k', vs). P k' \<and> list_ex (Q k') vs) (al_append m k v) \<longleftrightarrow>
   list_ex (\<lambda>(k', vs). P k' \<and> list_ex (Q k') vs) m \<or> (P k \<and> Q k v)"
  by (induction m) (auto simp: al_append_def)

lemma batch_add_match:
  "list_ex (\<lambda>f. f p) (batch_funcs dsmatch (batch_add b exp)) \<longleftrightarrow>
   list_ex (\<lambda>f. f p) (batch_funcs dsmatch b) \<or> parseGlobExpression dsmatch exp p"
proof (cases "nonGlobRe exp")
  case True
  then show ?thesis
    by (auto simp: batch_funcs_match batch_add_def parseGlobExpression_def)
next
  case ng: False
  show ?thesis
  proof (cases "prefixDirRe exp")
    case (Some dir)
    with ng prefixDir_not_prePost [OF Some] show ?thesis
      by (auto simp: batch_funcs_match batch_add_def parseGlobExpression_def)
  next
    case nd: None
    show ?thesis
    proof (cases "prePostGlobRe exp")
      case (Some t)
      then obtain pre star ext where "prePostGlobRe exp = Some (pre, star, ext)"
        by (cases t) auto
      with ng nd show ?thesis
        by (auto simp: batch_funcs_match batch_add_def parseGlobExpression_def list_ex_al_append
            pre_post_match_def)
    next
      case np: None
      with ng nd show ?thesis
        by (auto simp: batch_funcs_match batch_add_def parseGlobExpression_def list_ex_al_append
            split: option.splits)
    qed
  qed
qed

lemma batch_all_match:
  "batch_all dsvalid b exps = Inr b' \<Longrightarrow>
   list_ex (\<lambda>f. f p) (batch_funcs dsmatch b') \<longleftrightarrow>
   list_ex (\<lambda>f. f p) (batch_funcs dsmatch b) \<or> (\<exists>e \<in> set exps. parseGlobExpression dsmatch e p)"
  by (induction exps arbitrary: b) (auto simp: batch_add_match split: if_splits)

lemma batch_all_result:
  "batch_all dsvalid b exps =
     (case find (\<lambda>e. \<not> dsvalid e) exps of
        Some e \<Rightarrow> Inl (InvalidPattern e) | None \<Rightarrow> Inr (foldl batch_add b exps))"
  by (induction exps arbitrary: b) (auto split: option.splits)

lemma batch_empty_match: "\<not> list_ex (\<lambda>f. f p) (batch_funcs dsmatch empty_batch)"
  by (simp add: batch_funcs_match empty_batch_def)

text \<open>What a list of patterns means, pattern by pattern.\<close>

definition matches_any :: "(string \<Rightarrow> string \<Rightarrow> bool) \<Rightarrow> string list \<Rightarrow> glob_expr" where
  "matches_any dsmatch exps = (\<lambda>p. \<exists>e \<in> set exps. parseGlobExpression dsmatch e p)"

lemma parseGlobExpressions_eq:
  "parseGlobExpressions dsvalid dsmatch exps =
     (case find (\<lambda>e. \<not> dsvalid e) exps of
        Some e \<Rightarrow> Inl (InvalidPattern e) | None \<Rightarrow> Inr (matches_any dsmatch exps))"
proof (cases "find (\<lambda>e. \<not> dsvalid e) exps")
  case None
  then have "batch_all dsvalid empty_batch exps = Inr (foldl batch_add empty_batch exps)"
    by (simp add: batch_all_result)
  from batch_all_match [OF this] None show ?thesis
    by (simp add: parseGlobExpressions_def batch_all_result batch_empty_match matches_any_def)
qed (simp add: parseGlobExpressions_def batch_all_result)

text \<open>
  C22 (equivalence). Batching is only an optimisation: matching a path against the batched
  representation of any list of patterns gives what matching it against the patterns one by
  one gives, and the batch is rejected exactly when some pattern is invalid, naming the first.
\<close>

theorem batched_globs_match_one_by_one:
  "parseGlobExpressions dsvalid dsmatch exps =
     (case find (\<lambda>e. \<not> dsvalid e) exps of
        Some e \<Rightarrow> Inl (InvalidPattern e)
      | None \<Rightarrow> Inr (\<lambda>p. \<exists>e \<in> set exps. parseGlobExpression dsmatch e p))"
  by (simp add: parseGlobExpressions_eq matches_any_def cong: option.case_cong)

section \<open>Lemmas: the cache\<close>

text \<open>Every cached expression is the one its key, read as a joined list, stands for.\<close>

definition cache_coherent ::
  "(string \<Rightarrow> bool) \<Rightarrow> (string \<Rightarrow> string \<Rightarrow> bool) \<Rightarrow> glob_cache \<Rightarrow> bool" where
  "cache_coherent dsvalid dsmatch cache \<longleftrightarrow>
     (\<forall>key g. cache key = Some g \<longrightarrow>
        list_all dsvalid (Split NUL key) \<and> g = matches_any dsmatch (Split NUL key))"

definition nul_free :: "string list \<Rightarrow> bool" where
  "nul_free exps = list_all (\<lambda>e. NUL \<notin> set e) exps"

text \<open>The result of the uncached computation.\<close>

definition fresh_globs ::
  "(string \<Rightarrow> bool) \<Rightarrow> (string \<Rightarrow> string \<Rightarrow> bool) \<Rightarrow> string list \<Rightarrow> glob_error + glob_expr" where
  "fresh_globs dsvalid dsmatch exps =
     (if exps = [] then Inl NoPatterns
      else case find (\<lambda>e. \<not> dsvalid e) exps of
        Some e \<Rightarrow> Inl (InvalidPattern e) | None \<Rightarrow> Inr (matches_any dsmatch exps))"

lemma cache_coherent_empty: "cache_coherent dsvalid dsmatch Map.empty"
  by (simp add: cache_coherent_def)

lemma find_None_list_all: "find (\<lambda>e. \<not> P e) xs = None \<longleftrightarrow> list_all P xs"
  by (auto simp: find_None_iff list_all_iff)

lemma matches_any_single: "matches_any dsmatch [e] = parseGlobExpression dsmatch e"
  by (simp add: matches_any_def)

lemma ParseGlobExpression_coherent:
  assumes "cache_coherent dsvalid dsmatch cache" "NUL \<notin> set exp"
  shows "\<exists>cache'. ParseGlobExpression dsvalid dsmatch cache exp =
           (fresh_globs dsvalid dsmatch [exp], cache') \<and> cache_coherent dsvalid dsmatch cache'"
proof (cases "cache exp")
  case (Some g)
  with assms(1) have "list_all dsvalid (Split NUL exp) \<and> g = matches_any dsmatch (Split NUL exp)"
    by (auto simp: cache_coherent_def)
  then have "list_all dsvalid [exp] \<and> g = matches_any dsmatch [exp]"
    by (simp add: Split_word assms(2))
  with Some assms(1) show ?thesis
    by (simp add: ParseGlobExpression_def fresh_globs_def)
next
  case None
  with assms show ?thesis
    by (auto simp: ParseGlobExpression_def fresh_globs_def cache_coherent_def matches_any_single
        Let_def)
qed

lemma ParseGlobExpressions_coherent:
  assumes "cache_coherent dsvalid dsmatch cache" "nul_free exps"
  shows "\<exists>cache'. ParseGlobExpressions dsvalid dsmatch cache exps =
           (fresh_globs dsvalid dsmatch exps, cache') \<and> cache_coherent dsvalid dsmatch cache'"
proof -
  consider (none) "exps = []" | (one) e where "exps = [e]" | (more) e f es where "exps = e # f # es"
    by (metis list.exhaust)
  then show ?thesis
  proof cases
    case none
    with assms(1) show ?thesis by (simp add: ParseGlobExpressions_def fresh_globs_def)
  next
    case (one e)
    with assms show ?thesis
      using ParseGlobExpression_coherent [of dsvalid dsmatch cache e]
      by (simp add: ParseGlobExpressions_def nul_free_def)
  next
    case (more e f es)
    define key where "key = Join [NUL] exps"
    have split: "Split NUL key = exps"
      unfolding key_def
      by (rule Split_Join) (use assms(2) more in \<open>auto simp: nul_free_def list_all_iff\<close>)
    have unfold: "ParseGlobExpressions dsvalid dsmatch cache exps =
      (case cache key of Some g \<Rightarrow> (Inr g, cache)
       | None \<Rightarrow> (case parseGlobExpressions dsvalid dsmatch exps of
            Inl e \<Rightarrow> (Inl e, cache) | Inr g \<Rightarrow> (Inr g, cache(key \<mapsto> g))))"
      unfolding key_def more ParseGlobExpressions_def Let_def by (simp only: list.case)
    show ?thesis
    proof (cases "cache key")
      case (Some g)
      with assms(1) split have "list_all dsvalid exps \<and> g = matches_any dsmatch exps"
        by (auto simp: cache_coherent_def)
      with Some assms(1) more show ?thesis
        unfolding unfold by (auto simp: fresh_globs_def find_None_list_all [THEN iffD2])
    next
      case None
      with assms(1) split more show ?thesis
        unfolding unfold
        by (auto simp: fresh_globs_def parseGlobExpressions_eq cache_coherent_def
            find_None_list_all split: option.splits)
    qed
  qed
qed

text \<open>The cache after a sequence of parses.\<close>

fun parse_sequence ::
  "(string \<Rightarrow> bool) \<Rightarrow> (string \<Rightarrow> string \<Rightarrow> bool) \<Rightarrow> glob_cache \<Rightarrow> string list list \<Rightarrow> glob_cache" where
  "parse_sequence dsvalid dsmatch cache [] = cache"
| "parse_sequence dsvalid dsmatch cache (exps # calls) =
     parse_sequence dsvalid dsmatch (snd (ParseGlobExpressions dsvalid dsmatch cache exps)) calls"

lemma parse_sequence_coherent:
  "cache_coherent dsvalid dsmatch cache \<Longrightarrow> list_all nul_free calls \<Longrightarrow>
   cache_coherent dsvalid dsmatch (parse_sequence dsvalid dsmatch cache calls)"
proof (induction calls arbitrary: cache)
  case (Cons exps calls)
  then show ?case
    using ParseGlobExpressions_coherent [of dsvalid dsmatch cache exps] by force
qed simp

text \<open>The result of a parse with excludes, computed without a cache.\<close>

definition fresh_with_excludes ::
  "(string \<Rightarrow> bool) \<Rightarrow> (string \<Rightarrow> string \<Rightarrow> bool) \<Rightarrow> string list \<Rightarrow> string list \<Rightarrow>
   glob_error + glob_expr" where
  "fresh_with_excludes dsvalid dsmatch includes excludes =
     (if includes = [] \<and> excludes = [] then Inl NoPatterns
      else case find (\<lambda>e. \<not> dsvalid e) (excludes @ includes) of
        Some e \<Rightarrow> Inl (InvalidPattern e)
      | None \<Rightarrow> Inr (\<lambda>p. (includes = [] \<or> matches_any dsmatch includes p) \<and>
                        \<not> matches_any dsmatch excludes p))"

lemma matches_any_Nil [simp]: "\<not> matches_any dsmatch [] p"
  by (simp add: matches_any_def)

text \<open>
  The process-wide cache of parsed expressions is transparent: starting empty,
  after any sequence of parses of NUL-free pattern lists, the next parse with includes and
  excludes returns exactly the uncached result (an error for no or for the first invalid
  pattern, else "some include matches, or none was given, and no exclude matches"), so joining
  the patterns with NUL never confuses two lists.
\<close>

theorem glob_cache_transparent:
  assumes "list_all nul_free calls" "nul_free includes" "nul_free excludes"
  shows "fst (ParseGlobExpressionsWithExcludes dsvalid dsmatch
                (parse_sequence dsvalid dsmatch Map.empty calls) includes excludes) =
         fresh_with_excludes dsvalid dsmatch includes excludes"
proof -
  define cache where "cache = parse_sequence dsvalid dsmatch Map.empty calls"
  have coh: "cache_coherent dsvalid dsmatch cache"
    unfolding cache_def by (intro parse_sequence_coherent cache_coherent_empty assms(1))
  obtain c1 where c1: "ParseGlobExpressions dsvalid dsmatch cache excludes =
      (fresh_globs dsvalid dsmatch excludes, c1)" "cache_coherent dsvalid dsmatch c1"
    using ParseGlobExpressions_coherent [OF coh assms(3)] by blast
  obtain c2 where c2: "ParseGlobExpressions dsvalid dsmatch c1 includes =
      (fresh_globs dsvalid dsmatch includes, c2)"
    using ParseGlobExpressions_coherent [OF c1(2) assms(2)] by blast
  obtain c3 where c3: "ParseGlobExpressions dsvalid dsmatch cache includes =
      (fresh_globs dsvalid dsmatch includes, c3)"
    using ParseGlobExpressions_coherent [OF coh assms(2)] by blast
  show ?thesis
    unfolding cache_def [symmetric] ParseGlobExpressionsWithExcludes_def c1(1) c3
    by (auto simp: c2 fresh_globs_def fresh_with_excludes_def find_append split: option.splits)
qed

theorem glob_cache_transparent_witness:
  "fst (ParseGlobExpressionsWithExcludes (\<lambda>_. True) (\<lambda>g p. False)
          (parse_sequence (\<lambda>_. True) (\<lambda>g p. False) Map.empty [[''a'', ''b/**''], [''a'']])
          [''a'', ''b/**''] [''b/c''])
   = fresh_with_excludes (\<lambda>_. True) (\<lambda>g p. False) [''a'', ''b/**''] [''b/c'']"
  by (rule glob_cache_transparent) (simp_all add: nul_free_def NUL_def)

end
