(* ===== verification/Comparators.thy ===== *)
theory Comparators
  imports Go_Strings
begin

text \<open>
  Three-way comparison functions, as Go's \<open>slices.SortFunc\<close> and the ordered sets of the
  program take them, and sorting by one. The contract of a comparator is the locale
  \<open>comparator\<close>; \<open>strict_comparator\<close> adds that only equal values compare equal. Each
  comparison function of the program interprets one of them where it is defined.
\<close>

section \<open>Sorting by a comparator\<close>

fun insert_by :: "('a \<Rightarrow> 'a \<Rightarrow> int) \<Rightarrow> 'a \<Rightarrow> 'a list \<Rightarrow> 'a list" where
  "insert_by cmp x [] = [x]"
| "insert_by cmp x (y # ys) = (if cmp x y \<le> 0 then x # y # ys else y # insert_by cmp x ys)"

definition SortFunc :: "('a \<Rightarrow> 'a \<Rightarrow> int) \<Rightarrow> 'a list \<Rightarrow> 'a list" where
  "SortFunc cmp xs = foldr (insert_by cmp) xs []"

lemma mset_insert_by [simp]: "mset (insert_by cmp x ys) = add_mset x (mset ys)"
  by (induction ys) auto

lemma mset_SortFunc [simp]: "mset (SortFunc cmp xs) = mset xs"
  by (induction xs) (auto simp: SortFunc_def)

lemma set_SortFunc [simp]: "set (SortFunc cmp xs) = set xs"
  by (metis mset_SortFunc set_mset_mset)

lemma set_insert_by [simp]: "set (insert_by cmp x ys) = insert x (set ys)"
  by (induction ys) auto

section \<open>The contract\<close>

locale comparator =
  fixes cmp :: "'a \<Rightarrow> 'a \<Rightarrow> int"
  assumes cmp_flip: "cmp a b < 0 \<longleftrightarrow> 0 < cmp b a"
    and cmp_trans: "cmp a b \<le> 0 \<Longrightarrow> cmp b c \<le> 0 \<Longrightarrow> cmp a c \<le> 0"
begin

lemma cmp_refl: "cmp a a = 0"
  using cmp_flip [of a a] by linarith

lemma cmp_total: "cmp a b \<le> 0 \<or> cmp b a \<le> 0"
  using cmp_flip [of b a] by linarith

lemma cmp_zero_sym: "cmp a b = 0 \<Longrightarrow> cmp b a = 0"
  using cmp_flip [of a b] cmp_flip [of b a] by linarith

lemma sorted_insert_by:
  "sorted_wrt (\<lambda>a b. cmp a b \<le> 0) ys \<Longrightarrow> sorted_wrt (\<lambda>a b. cmp a b \<le> 0) (insert_by cmp x ys)"
proof (induction ys)
  case (Cons y ys)
  show ?case
  proof (cases "cmp x y \<le> 0")
    case True
    with Cons.prems show ?thesis by (auto intro: cmp_trans [OF True])
  next
    case False
    with cmp_total have "cmp y x \<le> 0" by blast
    with Cons False show ?thesis by simp
  qed
qed simp

text \<open>Sorted sequences of elements that only compare equal when they are equal.\<close>

lemma sorted_unique_on:
  "sorted_wrt (\<lambda>a b. cmp a b \<le> 0) xs \<Longrightarrow> sorted_wrt (\<lambda>a b. cmp a b \<le> 0) ys \<Longrightarrow>
   mset xs = mset ys \<Longrightarrow> (\<And>a b. a \<in> set xs \<Longrightarrow> b \<in> set xs \<Longrightarrow> cmp a b = 0 \<Longrightarrow> a = b) \<Longrightarrow> xs = ys"
proof (induction xs arbitrary: ys)
  case (Cons x xs)
  then obtain y zs where ys: "ys = y # zs" by (cases ys) auto
  have mem: "x \<in> set (y # zs)" and memy: "y \<in> set (x # xs)"
    using Cons.prems(3) ys by (metis list.set_intros(1) set_mset_mset)+
  then have "x = y \<or> (cmp y x \<le> 0 \<and> cmp x y \<le> 0)"
    using Cons.prems(1,2) ys by auto
  then have "x = y"
  proof
    assume "cmp y x \<le> 0 \<and> cmp x y \<le> 0"
    then have "cmp x y = 0" using cmp_flip [of y x] cmp_flip [of x y] by linarith
    then show "x = y" using Cons.prems(4) [of x y] memy by auto
  qed simp
  with Cons ys show ?case by simp
qed simp

lemma sorted_SortFunc: "sorted_wrt (\<lambda>a b. cmp a b \<le> 0) (SortFunc cmp xs)"
  unfolding SortFunc_def by (induction xs) (auto intro: sorted_insert_by)

lemma SortFunc_mset_on:
  "mset xs = mset ys \<Longrightarrow> (\<And>a b. a \<in> set xs \<Longrightarrow> b \<in> set xs \<Longrightarrow> cmp a b = 0 \<Longrightarrow> a = b) \<Longrightarrow>
   SortFunc cmp xs = SortFunc cmp ys"
  by (rule sorted_unique_on) (simp_all add: sorted_SortFunc)

end

locale strict_comparator = comparator +
  assumes cmp_eq: "cmp a b = 0 \<Longrightarrow> a = b"
begin

text \<open>Sorting forgets the order of its input.\<close>

lemma SortFunc_mset: "mset xs = mset ys \<Longrightarrow> SortFunc cmp xs = SortFunc cmp ys"
  by (rule SortFunc_mset_on) (auto dest: cmp_eq)

end

text \<open>Ways to build comparators: by a key, by numbers, and one after another.\<close>

lemma comparator_key: "comparator cmp \<Longrightarrow> comparator (\<lambda>a b. cmp (f a) (f b))"
  by (simp add: comparator_def)

lemma comparator_desc: "comparator (\<lambda>a b. (f b :: int) - f a)"
  by unfold_locales auto

lemma comparator_then:
  assumes c: "comparator c" and d: "comparator d"
  shows "comparator (\<lambda>a b. if c a b \<noteq> 0 then c a b else d a b)"
proof -
  have flip: "c a b < 0 \<longleftrightarrow> 0 < c b a" "d a b < 0 \<longleftrightarrow> 0 < d b a" for a b
    by (rule comparator.cmp_flip, rule c, rule comparator.cmp_flip, rule d)
  have zero: "c a b = 0 \<longleftrightarrow> c b a = 0" for a b
    using comparator.cmp_zero_sym [OF c] by blast
  have le: "(if c a b \<noteq> 0 then c a b else d a b) \<le> 0 \<longleftrightarrow> c a b \<le> 0 \<and> (0 \<le> c a b \<longrightarrow> d a b \<le> 0)"
    for a b by auto
  have ge: "0 \<le> c a b \<longleftrightarrow> c b a \<le> 0" for a b
    using flip(1) [of a b] by linarith
  show ?thesis
  proof
    fix a b e
    show "(if c a b \<noteq> 0 then c a b else d a b) < 0 \<longleftrightarrow> 0 < (if c b a \<noteq> 0 then c b a else d b a)"
      using flip [of a b] zero [of a b] by auto
    assume "(if c a b \<noteq> 0 then c a b else d a b) \<le> 0" "(if c b e \<noteq> 0 then c b e else d b e) \<le> 0"
    then show "(if c a e \<noteq> 0 then c a e else d a e) \<le> 0"
      unfolding le ge using comparator.cmp_trans [OF c] comparator.cmp_trans [OF d] by blast
  qed
qed

text \<open>The comparison of strings.\<close>

interpretation str_cmp: strict_comparator Compare
  by unfold_locales (auto simp: Compare_def split: if_splits)

section \<open>Ordered sets\<close>

text \<open>
  The third-party \<open>treeset\<close> is seen through the sequence its iterator yields and its
  \<open>Add\<close>, a parameter of the definitions that use it. Its documented behaviour: the iterator
  yields the elements in strictly ascending order, and adding an element keeps the others,
  replacing one that compares equal.
\<close>

type_synonym 'a treeset_add = "'a list \<Rightarrow> 'a \<Rightarrow> 'a list"

definition treeset_law :: "('a \<Rightarrow> 'a \<Rightarrow> int) \<Rightarrow> 'a treeset_add \<Rightarrow> bool" where
  "treeset_law cmp add \<longleftrightarrow>
     (\<forall>xs x. sorted_wrt (\<lambda>a b. cmp a b < 0) xs \<longrightarrow>
        sorted_wrt (\<lambda>a b. cmp a b < 0) (add xs x) \<and>
        set (add xs x) = insert x {y \<in> set xs. cmp x y \<noteq> 0})"

text \<open>A concrete function with this behaviour.\<close>

fun sorted_add :: "('a \<Rightarrow> 'a \<Rightarrow> int) \<Rightarrow> 'a list \<Rightarrow> 'a \<Rightarrow> 'a list" where
  "sorted_add cmp [] x = [x]"
| "sorted_add cmp (y # ys) x =
     (if cmp x y < 0 then x # y # ys
      else if cmp x y = 0 then x # ys
      else y # sorted_add cmp ys x)"

context comparator
begin

lemma cmp_less_trans: "cmp a b < 0 \<Longrightarrow> cmp b c < 0 \<Longrightarrow> cmp a c < 0"
  using cmp_trans [of c a b] cmp_trans [of a b c] cmp_flip [of a c] cmp_flip [of b c] cmp_flip [of a b]
    cmp_trans [of b c a]
  by (meson linorder_not_le order_less_imp_le)

lemma cmp_eq_less: "cmp a b = 0 \<Longrightarrow> cmp b c < 0 \<Longrightarrow> cmp a c < 0"
  using cmp_trans [of c a b] cmp_flip [of a c] cmp_flip [of b c]
  by (metis cmp_trans linorder_not_le order.order_iff_strict)

lemma sorted_add_law: "treeset_law cmp (sorted_add cmp)"
proof -
  have "set (sorted_add cmp xs x) = insert x {y \<in> set xs. cmp x y \<noteq> 0} \<and>
        sorted_wrt (\<lambda>a b. cmp a b < 0) (sorted_add cmp xs x)"
    if "sorted_wrt (\<lambda>a b. cmp a b < 0) xs" for xs x
    using that
  proof (induction xs)
    case (Cons y ys)
    consider (lt) "cmp x y < 0" | (eq) "cmp x y = 0" | (gt) "cmp x y > 0" by linarith
    then show ?case
    proof cases
      case lt
      with Cons.prems have "\<forall>z \<in> set ys. cmp x z < 0" by (auto intro: cmp_less_trans)
      with lt Cons.prems show ?thesis by auto
    next
      case eq
      with Cons.prems have "\<forall>z \<in> set ys. cmp x z < 0" by (auto intro: cmp_eq_less)
      with eq Cons.prems show ?thesis by auto
    next
      case gt
      then have "cmp y x < 0" using cmp_flip by blast
      with gt Cons show ?thesis by auto
    qed
  qed simp
  then show ?thesis by (auto simp: treeset_law_def)
qed

end

end
