(* ===== verification/Labels.thy ===== *)
theory Labels
  imports Comparators
begin

text \<open>
  Labels and label sets (\<open>common/set.go\<close>). The label type and its \<open>Equal\<close> and
  \<open>Rel\<close> belong to the third-party package \<open>label\<close>: the type is modelled by the four
  fields the program reads and writes, the operations are parameters.
\<close>

datatype label = Label (Repo: string) (Pkg: string) (Name: string) (Relative: bool)

text \<open>Relative labels first, then by repository, package and name.\<close>

definition LabelComparator :: "label \<Rightarrow> label \<Rightarrow> int" where
  "LabelComparator al bl =
     (if Relative al \<and> \<not> Relative bl then -1
      else if \<not> Relative al \<and> Relative bl then 1
      else
        let c = Compare (Repo al) (Repo bl) in
        if c \<noteq> 0 then c
        else
          let c = Compare (Pkg al) (Pkg bl) in
          if c \<noteq> 0 then c
          else Compare (Name al) (Name bl))"

interpretation label_cmp: strict_comparator LabelComparator
  by unfold_locales
    (auto simp: LabelComparator_def Let_def Compare_def label.expand split: if_splits)

text \<open>So labels are linearly ordered the way the program sorts them.\<close>

instantiation label :: linorder
begin

definition less_eq_label :: "label \<Rightarrow> label \<Rightarrow> bool" where
  "less_eq_label a b = (LabelComparator a b \<le> 0)"

definition less_label :: "label \<Rightarrow> label \<Rightarrow> bool" where
  "less_label a b = (LabelComparator a b < 0)"

instance
proof
  fix x y z :: label
  show "x < y \<longleftrightarrow> x \<le> y \<and> \<not> y \<le> x"
    using label_cmp.cmp_flip [of x y] by (auto simp: less_eq_label_def less_label_def)
  show "x \<le> x" by (simp add: less_eq_label_def label_cmp.cmp_refl)
  show "x \<le> y \<Longrightarrow> y \<le> z \<Longrightarrow> x \<le> z"
    unfolding less_eq_label_def by (rule label_cmp.cmp_trans)
  show "x \<le> y \<Longrightarrow> y \<le> x \<Longrightarrow> x = y"
    using label_cmp.cmp_flip [of x y] label_cmp.cmp_flip [of y x] label_cmp.cmp_eq [of x y]
    by (auto simp: less_eq_label_def)
  show "x \<le> y \<or> y \<le> x"
    unfolding less_eq_label_def by (rule label_cmp.cmp_total)
qed

end

section \<open>Label sets\<close>

text \<open>The operations of the third-party packages that a label set uses.\<close>

record label_api =
  label_equal :: "label \<Rightarrow> label \<Rightarrow> bool"
  label_rel :: "label \<Rightarrow> string \<Rightarrow> string \<Rightarrow> label"
  label_add :: "label treeset_add"

record label_set =
  ls_from :: label
  ls_labels :: "label list"

definition NewLabelSet :: "label \<Rightarrow> label_set" where
  "NewLabelSet from = \<lparr>ls_from = from, ls_labels = []\<rparr>"

definition LabelSet_Add :: "label_api \<Rightarrow> label_set \<Rightarrow> label \<Rightarrow> label_set" where
  "LabelSet_Add api s l0 =
     (let l = (if Repo l0 = '''' \<and> \<not> Relative l0 \<and> Repo (ls_from s) \<noteq> ''''
               then Label (Repo (ls_from s)) (Pkg l0) (Name l0) (Relative l0) else l0)
      in if label_equal api (ls_from s) l then s
         else s\<lparr>ls_labels :=
                  label_add api (ls_labels s) (label_rel api l (Repo (ls_from s)) (Pkg (ls_from s)))\<rparr>)"

definition LabelSet_Size :: "label_set \<Rightarrow> nat" where
  "LabelSet_Size s = length (ls_labels s)"

definition LabelSet_Empty :: "label_set \<Rightarrow> bool" where
  "LabelSet_Empty s = (ls_labels s = [])"

definition LabelSet_Labels :: "label_set \<Rightarrow> label list" where
  "LabelSet_Labels s = ls_labels s"

definition LabelSet_String :: "(label \<Rightarrow> string) \<Rightarrow> label_set \<Rightarrow> string" where
  "LabelSet_String str s = ''['' @ Join '', '' (map str (ls_labels s)) @ '']''"

section \<open>Lemmas\<close>

text \<open>The label that \<open>Add\<close> compares with the set's owner.\<close>

definition qualify :: "label \<Rightarrow> label \<Rightarrow> label" where
  "qualify from l =
     (if Repo l = '''' \<and> \<not> Relative l \<and> Repo from \<noteq> ''''
      then Label (Repo from) (Pkg l) (Name l) False else l)"

text \<open>What the set holds for a collection of added labels.\<close>

definition labels_of :: "label_api \<Rightarrow> label \<Rightarrow> label set \<Rightarrow> label set" where
  "labels_of api from ls =
     (\<lambda>l. label_rel api (qualify from l) (Repo from) (Pkg from)) `
       {l \<in> ls. \<not> label_equal api from (qualify from l)}"

lemma LabelSet_Add_from [simp]: "ls_from (LabelSet_Add api s l) = ls_from s"
  by (simp add: LabelSet_Add_def Let_def)

lemma LabelSet_Add_labels:
  "ls_labels (LabelSet_Add api s l) =
     (if label_equal api (ls_from s) (qualify (ls_from s) l) then ls_labels s
      else label_add api (ls_labels s)
             (label_rel api (qualify (ls_from s) l) (Repo (ls_from s)) (Pkg (ls_from s))))"
  by (simp add: LabelSet_Add_def Let_def qualify_def)

lemma label_add_set:
  assumes "treeset_law LabelComparator add" "sorted_wrt (<) xs"
  shows "sorted_wrt (<) (add xs x) \<and> set (add xs x) = insert x (set xs)"
proof -
  have "(\<lambda>a b. LabelComparator a b < 0) = (<)"
    by (simp add: less_label_def fun_eq_iff)
  with assms show ?thesis
    by (auto simp: treeset_law_def label_cmp.cmp_refl dest: label_cmp.cmp_eq)
qed

lemma foldl_Add_labels:
  assumes "treeset_law LabelComparator (label_add api)" "sorted_wrt (<) (ls_labels s)"
  shows "sorted_wrt (<) (ls_labels (foldl (LabelSet_Add api) s ls)) \<and>
         set (ls_labels (foldl (LabelSet_Add api) s ls)) =
           set (ls_labels s) \<union> labels_of api (ls_from s) (set ls)"
  using assms(2)
proof (induction ls arbitrary: s)
  case Nil
  then show ?case by (simp add: labels_of_def)
next
  case (Cons l ls)
  have "sorted_wrt (<) (ls_labels (LabelSet_Add api s l))"
    using label_add_set [OF assms(1) Cons.prems] Cons.prems by (simp add: LabelSet_Add_labels)
  from Cons.IH [OF this] show ?case
    using label_add_set [OF assms(1) Cons.prems]
    by (auto simp: LabelSet_Add_labels labels_of_def)
qed

text \<open>
  A label set never holds a dependency on its own target, and the order in
  which labels are added does not matter: with the ordered set behaving as documented, after
  adding any list of labels the set yields, in strictly ascending label order, exactly the
  labels made relative to the owner's package, of those added that are not the owner after
  qualification with its repository.
\<close>

theorem label_set_contents:
  assumes "treeset_law LabelComparator (label_add api)"
  shows "sorted_wrt (<) (LabelSet_Labels (foldl (LabelSet_Add api) (NewLabelSet from) ls)) \<and>
         set (LabelSet_Labels (foldl (LabelSet_Add api) (NewLabelSet from) ls)) =
           (\<lambda>l. label_rel api (qualify from l) (Repo from) (Pkg from)) `
             {l \<in> set ls. \<not> label_equal api from (qualify from l)}"
  using foldl_Add_labels [OF assms, of "NewLabelSet from" ls]
  by (simp add: NewLabelSet_def LabelSet_Labels_def labels_of_def)

text \<open>An instance of the parameters, with labels of the owner's package made relative.\<close>

definition sample_api :: label_api where
  "sample_api = \<lparr>label_equal = (\<lambda>a b. Repo a = Repo b \<and> Pkg a = Pkg b \<and> Name a = Name b),
     label_rel = (\<lambda>l r p. if Repo l = r \<and> Pkg l = p then Label '''' '''' (Name l) True else l),
     label_add = sorted_add LabelComparator\<rparr>"

lemma sample_api_law: "treeset_law LabelComparator (label_add sample_api)"
  by (simp add: sample_api_def label_cmp.sorted_add_law)

theorem label_set_contents_witness:
  "sorted_wrt (<) (LabelSet_Labels (foldl (LabelSet_Add sample_api)
       (NewLabelSet (Label ''r'' ''p'' ''t'' False))
       [Label '''' ''p'' ''t'' False, Label '''' ''q'' ''u'' False]))"
  using label_set_contents [OF sample_api_law, of "Label ''r'' ''p'' ''t'' False"
      "[Label '''' ''p'' ''t'' False, Label '''' ''q'' ''u'' False]"]
  by blast

end
