(* ===== verification/Go_Path.thy ===== *)
theory Go_Path
  imports Go_Strings
begin

text \<open>
  Go's package \<open>path\<close> on slash-separated paths, and \<open>filepath.Rel\<close> on Unix, by the
  documented lexical processing: a path is split at its slashes, empty and \<open>.\<close> elements are
  dropped and an inner \<open>..\<close> removes the element before it.
\<close>

section \<open>Cleaning\<close>

abbreviation slash :: char where "slash \<equiv> CHR 0x2F"

definition IsAbs :: "string \<Rightarrow> bool" where
  "IsAbs p = (case p of [] \<Rightarrow> False | c # _ \<Rightarrow> c = slash)"

text \<open>The elements kept so far are a stack, the last element first.\<close>

definition clean_step :: "bool \<Rightarrow> string list \<Rightarrow> string \<Rightarrow> string list" where
  "clean_step rooted st e =
     (if e = '''' \<or> e = ''.'' then st
      else if e = ''..'' then
        (case st of
           [] \<Rightarrow> if rooted then [] else [''..'']
         | t # ts \<Rightarrow> if t = ''..'' then e # st else ts)
      else e # st)"

definition clean_stack :: "bool \<Rightarrow> string list \<Rightarrow> string list \<Rightarrow> string list" where
  "clean_stack rooted st es = foldl (clean_step rooted) st es"

definition clean_elems :: "string \<Rightarrow> string list" where
  "clean_elems p = rev (clean_stack (IsAbs p) [] (Split slash p))"

definition render :: "bool \<Rightarrow> string list \<Rightarrow> string" where
  "render rooted es =
     (if rooted then slash # Join [slash] es else if es = [] then ''.'' else Join [slash] es)"

definition Clean :: "string \<Rightarrow> string" where
  "Clean p = render (IsAbs p) (clean_elems p)"

definition path_join :: "string list \<Rightarrow> string" where
  "path_join ps =
     (let qs = dropWhile (\<lambda>p. p = '''') ps
      in if qs = [] then '''' else Clean (Join [slash] qs))"

section \<open>Splitting\<close>

definition path_split :: "string \<Rightarrow> string \<times> string" where
  "path_split p = (upto_last slash p, after_last slash p)"

definition path_Dir :: "string \<Rightarrow> string" where
  "path_Dir p = Clean (upto_last slash p)"

definition path_Base :: "string \<Rightarrow> string" where
  "path_Base p =
     (if p = '''' then ''.''
      else let b = after_last slash (TrimRight p ''/'') in if b = '''' then ''/'' else b)"

text \<open>\<open>path.Ext\<close>: from the last dot of the last element, empty if it has none.\<close>

definition path_Ext :: "string \<Rightarrow> string" where
  "path_Ext p =
     (let f = after_last slash p
      in if CHR 0x2E \<in> set f then CHR 0x2E # after_last (CHR 0x2E) f else '''')"

definition path_noext :: "string \<Rightarrow> string" where
  "path_noext p = take (length p - length (path_Ext p)) p"

section \<open>Relative paths\<close>

fun strip_common :: "string list \<Rightarrow> string list \<Rightarrow> string list \<times> string list" where
  "strip_common (x # xs) (y # ys) = (if x = y then strip_common xs ys else (x # xs, y # ys))"
| "strip_common xs ys = (xs, ys)"

text \<open>\<open>None\<close> is the error result.\<close>

definition filepath_Rel :: "string \<Rightarrow> string \<Rightarrow> string option" where
  "filepath_Rel base targ =
     (if Clean base = Clean targ then Some ''.''
      else if IsAbs base \<noteq> IsAbs targ then None
      else case strip_common (clean_elems base) (clean_elems targ) of
        (b, t) \<Rightarrow>
          if ''..'' \<in> set b then None
          else Some (render False (replicate (length b) ''..'' @ t)))"

section \<open>Lemmas\<close>

text \<open>A normal list of elements: proper names, after leading \<open>..\<close> in an unrooted path.\<close>

definition proper :: "string \<Rightarrow> bool" where
  "proper e \<longleftrightarrow> e \<noteq> '''' \<and> e \<noteq> ''.'' \<and> slash \<notin> set e"

fun normal_stack :: "bool \<Rightarrow> string list \<Rightarrow> bool" where
  "normal_stack rooted [] = True"
| "normal_stack rooted (e # st) =
     (proper e \<and> normal_stack rooted st \<and>
      (e = ''..'' \<longrightarrow> \<not> rooted \<and> (\<forall>x \<in> set st. x = ''..'')))"

lemma clean_step_normal:
  "normal_stack r st \<Longrightarrow> slash \<notin> set e \<Longrightarrow> normal_stack r (clean_step r st e)"
  by (cases st) (auto simp: clean_step_def proper_def)

lemma clean_stack_normal:
  "normal_stack r st \<Longrightarrow> (\<And>e. e \<in> set es \<Longrightarrow> slash \<notin> set e) \<Longrightarrow>
   normal_stack r (clean_stack r st es)"
  unfolding clean_stack_def
  by (induction es arbitrary: st) (auto simp: clean_step_normal)

lemma clean_stack_Nil [simp]: "clean_stack r st [] = st"
  by (simp add: clean_stack_def)

lemma clean_stack_Cons [simp]: "clean_stack r st (e # es) = clean_stack r (clean_step r st e) es"
  by (simp add: clean_stack_def)

lemma clean_stack_append: "clean_stack r st (es @ fs) = clean_stack r (clean_stack r st es) fs"
  by (simp add: clean_stack_def)

lemma normal_stack_clean: "normal_stack r (clean_stack r [] (Split slash p))"
  by (rule clean_stack_normal) (auto dest: Split_no_sep)

lemma normal_stack_proper: "normal_stack r st \<Longrightarrow> e \<in> set st \<Longrightarrow> proper e"
  by (induction st) auto

lemma clean_elems_proper: "e \<in> set (clean_elems p) \<Longrightarrow> proper e"
  unfolding clean_elems_def by (auto intro: normal_stack_proper [OF normal_stack_clean])

text \<open>Cleaning a normal list leaves it alone.\<close>

lemma normal_stack_appendD: "normal_stack r (ys @ xs) \<Longrightarrow> normal_stack r xs"
  by (induction ys) simp_all

lemma clean_step_normal_Cons:
  assumes "normal_stack r (e # st)"
  shows "clean_step r st e = e # st"
proof (cases "e = ''..''")
  case True
  with assms have "\<not> r" and t: "\<forall>x \<in> set st. x = ''..''" by auto
  show ?thesis
  proof (cases st)
    case Nil
    with True \<open>\<not> r\<close> show ?thesis by (simp add: clean_step_def)
  next
    case (Cons y ys)
    with t have "y = ''..''" by simp
    with True Cons show ?thesis by (simp add: clean_step_def)
  qed
next
  case False
  with assms show ?thesis by (simp add: clean_step_def proper_def)
qed

lemma clean_stack_normal_id:
  "normal_stack r (rev es @ st) \<Longrightarrow> clean_stack r st es = rev es @ st"
proof (induction es arbitrary: st)
  case (Cons e es)
  have n: "normal_stack r (rev es @ e # st)" using Cons.prems by simp
  then have "clean_step r st e = e # st"
    by (intro clean_step_normal_Cons) (rule normal_stack_appendD)
  with n Cons.IH show ?case by simp
qed simp

lemma normal_stack_tail_dots: "normal_stack r st \<Longrightarrow> r \<Longrightarrow> ''..'' \<notin> set st"
  by (induction st) auto

lemma Split_render_unrooted:
  assumes "es \<noteq> []" "\<And>e. e \<in> set es \<Longrightarrow> proper e"
  shows "Split slash (render False es) = es"
  using assms by (simp add: render_def Split_Join proper_def)

lemma IsAbs_render_unrooted:
  assumes "\<And>e. e \<in> set es \<Longrightarrow> proper e"
  shows "\<not> IsAbs (render False es)"
proof (cases es)
  case Nil
  then show ?thesis by (simp add: render_def IsAbs_def)
next
  case (Cons e fs)
  with assms have "proper e" by simp
  then obtain c cs where "e = c # cs" "c \<noteq> slash" by (cases e) (auto simp: proper_def)
  with Cons show ?thesis by (cases fs) (auto simp: render_def IsAbs_def)
qed

lemma IsAbs_render_rooted [simp]: "IsAbs (render True es)"
  by (simp add: render_def IsAbs_def)

lemma IsAbs_Clean [simp]: "IsAbs (Clean p) = IsAbs p"
  by (cases "IsAbs p") (auto simp: Clean_def IsAbs_render_unrooted clean_elems_proper)

lemma Split_render_rooted:
  assumes "\<And>e. e \<in> set es \<Longrightarrow> proper e"
  shows "Split slash (render True es) = '''' # (if es = [] then [''''] else es)"
  using assms by (auto simp: render_def Split_Join proper_def)

lemma clean_stack_empty [simp]: "clean_stack r st [''''] = st"
  by (simp add: clean_step_def)

lemma clean_elems_render:
  assumes "normal_stack r (rev es)"
  shows "clean_elems (render r es) = es"
proof -
  have p: "\<And>e. e \<in> set es \<Longrightarrow> proper e"
    using assms normal_stack_proper by fastforce
  show ?thesis
  proof (cases r)
    case True
    with p assms show ?thesis
      using clean_stack_normal_id [of True es "[]"]
      by (simp add: clean_elems_def Split_render_rooted clean_step_def)
  next
    case False
    then have na: "\<not> IsAbs (render False es)" using p IsAbs_render_unrooted by blast
    show ?thesis
    proof (cases "es = []")
      case True
      with False show ?thesis
        by (simp add: clean_elems_def render_def IsAbs_def clean_step_def)
    next
      case ne: False
      with False na p assms show ?thesis
        using clean_stack_normal_id [of False es "[]"]
        by (simp add: clean_elems_def Split_render_unrooted)
    qed
  qed
qed

lemma clean_elems_normal: "normal_stack (IsAbs p) (rev (clean_elems p))"
  by (simp add: clean_elems_def normal_stack_clean)

lemma clean_elems_Clean [simp]: "clean_elems (Clean p) = clean_elems p"
  unfolding Clean_def by (rule clean_elems_render) (rule clean_elems_normal)

lemma Clean_eqI: "IsAbs p = IsAbs q \<Longrightarrow> clean_elems p = clean_elems q \<Longrightarrow> Clean p = Clean q"
  by (simp add: Clean_def)

lemma Clean_idem [simp]: "Clean (Clean p) = Clean p"
  by (rule Clean_eqI) simp_all

lemma Join_not_Nil: "es \<noteq> [] \<Longrightarrow> hd es \<noteq> '''' \<Longrightarrow> Join sep es \<noteq> ''''"
  by (cases es rule: list.exhaust) (simp_all, metis Join.simps(2) Join_Cons append_is_Nil_conv)

lemma Clean_not_Nil [simp]: "Clean p \<noteq> ''''"
proof -
  have "Join [slash] (clean_elems p) \<noteq> ''''" if "clean_elems p \<noteq> []"
    using that clean_elems_proper [of "hd (clean_elems p)" p]
    by (intro Join_not_Nil) (auto simp: proper_def)
  then show ?thesis by (auto simp: Clean_def render_def)
qed

text \<open>Cleaning only the front of a path changes nothing, as long as it keeps its root.\<close>

lemma IsAbs_append: "p \<noteq> '''' \<Longrightarrow> IsAbs (p @ q) = IsAbs p"
  by (cases p) (auto simp: IsAbs_def)

lemma clean_stack_Clean:
  "IsAbs p = r \<Longrightarrow> clean_stack r [] (Split slash (Clean p)) = clean_stack r [] (Split slash p)"
proof -
  assume r: "IsAbs p = r"
  have "rev (clean_stack (IsAbs (Clean p)) [] (Split slash (Clean p))) =
        rev (clean_stack (IsAbs p) [] (Split slash p))"
    using clean_elems_Clean [of p] by (simp only: clean_elems_def)
  with r show ?thesis by simp
qed

lemma Clean_append_front:
  assumes "p \<noteq> ''''"
  shows "Clean (Clean p @ slash # q) = Clean (p @ slash # q)"
  using assms
  by (intro Clean_eqI)
    (simp_all add: IsAbs_append clean_elems_def Split_append_sep clean_stack_append
       clean_stack_Clean)

lemma Clean_dot_slash:
  assumes "\<not> IsAbs q"
  shows "Clean (''.'' @ slash # q) = Clean q"
  using assms
  by (intro Clean_eqI) (simp_all add: IsAbs_def clean_elems_def Split_append_sep clean_step_def)

section \<open>Relative paths lead where they should\<close>

lemma strip_common_prefix:
  "strip_common xs ys = (b, t) \<Longrightarrow> \<exists>pre. xs = pre @ b \<and> ys = pre @ t"
proof (induction xs ys rule: strip_common.induct)
  case (1 x xs y ys)
  show ?case
  proof (cases "x = y")
    case True
    with 1 obtain pre where "xs = pre @ b \<and> ys = pre @ t" by auto
    with True show ?thesis by (intro exI [of _ "x # pre"]) simp
  next
    case False
    with 1 show ?thesis by (intro exI [of _ "[]"]) auto
  qed
qed auto

lemma clean_stack_pop:
  "''..'' \<notin> set b \<Longrightarrow> clean_stack r (rev b @ st) (replicate (length b) ''..'') = st"
proof (induction b arbitrary: st rule: rev_induct)
  case (snoc e b)
  then have "e \<noteq> ''..''" by auto
  then have "clean_step r (e # rev b @ st) ''..'' = rev b @ st"
    by (simp add: clean_step_def)
  with snoc show ?case by simp
qed simp

lemma Clean_append_eqI:
  assumes "base \<noteq> ''''" "IsAbs base = IsAbs targ"
    and "clean_stack (IsAbs targ) (rev (clean_elems base)) (Split slash q) = rev (clean_elems targ)"
  shows "Clean (base @ slash # q) = Clean targ"
  using assms
  by (intro Clean_eqI) (simp_all add: IsAbs_append clean_elems_def Split_append_sep clean_stack_append)

lemma filepath_Rel_join:
  assumes "filepath_Rel base targ = Some r" "base \<noteq> ''''"
  shows "path_join [base, r] = Clean targ"
proof (cases "Clean base = Clean targ")
  case True
  with assms have r: "r = ''.''" by (simp add: filepath_Rel_def)
  have "IsAbs base = IsAbs targ" "clean_elems base = clean_elems targ"
    using True by (metis IsAbs_Clean, metis clean_elems_Clean)
  then have "Clean (base @ slash # r) = Clean targ"
    by (intro Clean_append_eqI assms(2)) (simp_all add: r clean_step_def)
  with assms(2) show ?thesis by (simp add: path_join_def)
next
  case False
  obtain b t where bt: "strip_common (clean_elems base) (clean_elems targ) = (b, t)" by fastforce
  with assms False have abs: "IsAbs base = IsAbs targ" and nd: "''..'' \<notin> set b"
    and r: "r = render False (replicate (length b) ''..'' @ t)"
    by (auto simp: filepath_Rel_def split: if_splits)
  obtain pre where pre: "clean_elems base = pre @ b" "clean_elems targ = pre @ t"
    using strip_common_prefix [OF bt] by blast
  have normal: "normal_stack (IsAbs targ) (rev t @ rev pre)"
    using clean_elems_normal [of targ] by (simp add: pre)
  have "clean_stack (IsAbs targ) (rev (clean_elems base)) (replicate (length b) ''..'' @ t) =
      rev (clean_elems targ)"
    using clean_stack_pop [of b "IsAbs targ" "rev pre"] nd clean_stack_normal_id [OF normal]
    by (auto simp: pre clean_stack_append)
  moreover have "clean_stack r' st (Split slash r) = clean_stack r' st (replicate (length b) ''..'' @ t)"
    for r' st
  proof (cases "replicate (length b) ''..'' @ t = []")
    case True
    then show ?thesis by (simp add: r render_def clean_step_def)
  next
    case False
    moreover have "proper e" if "e \<in> set (replicate (length b) ''..'' @ t)" for e
      using that clean_elems_proper [of e targ] by (auto simp: pre proper_def)
    ultimately show ?thesis unfolding r by (subst Split_render_unrooted) auto
  qed
  ultimately have "Clean (base @ slash # r) = Clean targ"
    by (intro Clean_append_eqI assms(2) abs) simp
  with assms(2) show ?thesis by (simp add: path_join_def)
qed

text \<open>Cleaning a relative rest of a path changes nothing either.\<close>

lemma clean_stack_relative:
  assumes "\<And>e. e \<in> set es \<Longrightarrow> slash \<notin> set e"
  shows "clean_stack r st (rev (clean_stack False [] es)) = clean_stack r st es"
  using assms
proof (induction es rule: rev_induct)
  case (snoc e es)
  let ?s = "clean_stack False [] es"
  have IH: "clean_stack r st (rev ?s) = clean_stack r st es" using snoc by simp
  have normal: "normal_stack False ?s" by (rule clean_stack_normal) (use snoc.prems in auto)
  have "clean_stack r st (rev (clean_step False ?s e)) = clean_step r (clean_stack r st (rev ?s)) e"
  proof (cases "e = ''..'' \<and> ?s \<noteq> [] \<and> hd ?s \<noteq> ''..''")
    case True
    then obtain t ts where s: "?s = t # ts" "t \<noteq> ''..''" by (cases ?s) auto
    with normal have "t \<noteq> ''''" "t \<noteq> ''.''" by (auto simp: proper_def)
    with s True show ?thesis by (simp add: clean_step_def clean_stack_append)
  next
    case False
    then show ?thesis
      by (cases ?s) (auto simp: clean_step_def clean_stack_append)
  qed
  then show ?case by (simp add: clean_stack_append IH)
qed simp

lemma Clean_append_rest:
  assumes "p \<noteq> ''''" "\<not> IsAbs q"
  shows "Clean (p @ slash # Clean q) = Clean (p @ slash # q)"
proof (rule Clean_eqI)
  have es: "clean_stack r st (Split slash (Clean q)) = clean_stack r st (clean_elems q)" for r st
  proof (cases "clean_elems q = []")
    case True
    then have "Clean q = ''.''" using assms(2) by (simp add: Clean_def render_def)
    with True show ?thesis by (simp add: clean_step_def)
  next
    case False
    with assms(2) show ?thesis
      using Split_render_unrooted [of "clean_elems q"] clean_elems_proper [of _ q] by (simp add: Clean_def)
  qed
  also have "clean_stack r st (clean_elems q) = clean_stack r st (Split slash q)" for r st
    using assms(2) clean_stack_relative [of "Split slash q" r st]
    by (simp add: clean_elems_def Split_no_sep)
  finally show "clean_elems (p @ slash # Clean q) = clean_elems (p @ slash # q)"
    using assms(1) by (simp add: clean_elems_def IsAbs_append Split_append_sep clean_stack_append)
qed (use assms(1) in \<open>simp add: IsAbs_append\<close>)

lemma path_join_pair: "p \<noteq> '''' \<Longrightarrow> path_join [p, q] = Clean (p @ slash # q)"
  by (simp add: path_join_def)

lemma filepath_Rel_relative: "filepath_Rel base targ = Some r \<Longrightarrow> r \<noteq> '''' \<and> \<not> IsAbs r"
proof -
  assume h: "filepath_Rel base targ = Some r"
  show ?thesis
  proof (cases "Clean base = Clean targ")
    case True
    with h have "r = ''.''" by (simp add: filepath_Rel_def)
    then show ?thesis by (simp add: IsAbs_def)
  next
    case False
    obtain b t where bt: "strip_common (clean_elems base) (clean_elems targ) = (b, t)" by fastforce
    with h False have r: "r = render False (replicate (length b) ''..'' @ t)"
      by (auto simp: filepath_Rel_def split: if_splits)
    have p: "proper e" if "e \<in> set (replicate (length b) ''..'' @ t)" for e
      using that strip_common_prefix [OF bt] clean_elems_proper [of e targ] by (auto simp: proper_def)
    then have "\<not> IsAbs r" unfolding r by (rule IsAbs_render_unrooted)
    moreover have "r \<noteq> ''''"
    proof (cases "replicate (length b) ''..'' @ t = []")
      case ne: False
      then have "hd (replicate (length b) ''..'' @ t) \<noteq> ''''"
        using p [OF list.set_sel(1) [OF ne]] by (simp add: proper_def)
      from Join_not_Nil [OF ne this] ne show ?thesis unfolding r render_def by simp
    qed (simp add: r render_def)
    ultimately show ?thesis by blast
  qed
qed

text \<open>Moving a path from one directory to another keeps the place it means.\<close>

lemma rebase_same_place:
  assumes "filepath_Rel cur dir = Some r" "cur \<noteq> ''''" "dir \<noteq> ''''"
  shows "path_join [cur, path_join [r, x]] = path_join [dir, x]"
proof -
  have r: "r \<noteq> ''''" "\<not> IsAbs r" using filepath_Rel_relative [OF assms(1)] by auto
  have "path_join [cur, path_join [r, x]] = Clean (cur @ slash # Clean (r @ slash # x))"
    using assms(2) r by (simp add: path_join_pair)
  also have "\<dots> = Clean ((cur @ slash # r) @ slash # x)"
    using Clean_append_rest [OF assms(2), of "r @ slash # x"] r by (simp add: IsAbs_append)
  also have "\<dots> = Clean (Clean (cur @ slash # r) @ slash # x)"
    using Clean_append_front [of "cur @ slash # r" x] by simp
  also have "\<dots> = Clean (Clean dir @ slash # x)"
    using filepath_Rel_join [OF assms(1,2)] assms(2) by (simp add: path_join_pair)
  also have "\<dots> = path_join [dir, x]"
    using assms(3) Clean_append_front [of dir x] by (simp add: path_join_pair)
  finally show ?thesis .
qed

end
