(* ===== verification/Node_Paths.thy ===== *)
theory Node_Paths
  imports Go_Path
begin

text \<open>
  Import paths of Node packages (\<open>language/js/node/paths.go\<close>) and the list of Node's own
  modules (\<open>language/js/node/std_modules.go\<close> and the embedded \<open>std_modules.list\<close>).
\<close>

definition ParseImportPath :: "string \<Rightarrow> string \<times> string" where
  "ParseImportPath imp =
     (if imp = '''' \<or> hd imp = slash \<or> hd imp = CHR ''.'' then ('''', imp)
      else if hd imp = CHR ''@'' then
        (case IndexByte imp slash of
           None \<Rightarrow> ('''', imp)
         | Some scopeEnd \<Rightarrow>
             let subPkg = drop (scopeEnd + 1) imp
             in (case IndexByte subPkg slash of
                   None \<Rightarrow> (imp, '''')
                 | Some subPkgEnd \<Rightarrow>
                     (take (scopeEnd + subPkgEnd + 1) imp, drop (scopeEnd + subPkgEnd + 2) imp)))
      else
        (case CutByte imp slash of (before, after, ok) \<Rightarrow>
           if \<not> ok then (imp, '''') else (before, after)))"

definition IsSubpathImport :: "string \<Rightarrow> bool" where
  "IsSubpathImport imp = HasPrefix imp ''#''"

text \<open>Indexing the empty string panics.\<close>

definition ToAtTypesPackage :: "string \<Rightarrow> string outcome" where
  "ToAtTypesPackage pkg =
     (if pkg = '''' then Inl (Panic ''index out of range'')
      else if hd pkg = CHR ''@'' then
        (case IndexByte pkg slash of
           Some i \<Rightarrow> Inr (''@types/'' @ drop 1 (take i pkg) @ ''__'' @ drop (i + 1) pkg)
         | None \<Rightarrow> Inr '''')
      else
        (case IndexByte pkg slash of
           Some i \<Rightarrow> Inr (''@types/'' @ take i pkg)
         | None \<Rightarrow> Inr (''@types/'' @ pkg)))"

section \<open>Native modules\<close>

definition nativeModulesSet :: "string list" where
  "nativeModulesSet =
     [''assert'', ''assert/strict'', ''async_hooks'', ''buffer'', ''child_process'',
      ''cluster'', ''console'', ''constants'', ''crypto'', ''dgram'',
      ''diagnostics_channel'', ''dns'', ''dns/promises'', ''domain'', ''events'', ''fs'',
      ''fs/promises'', ''http'', ''http2'', ''https'', ''inspector'',
      ''inspector/promises'', ''module'', ''net'', ''os'', ''path'', ''path/posix'',
      ''path/win32'', ''perf_hooks'', ''process'', ''punycode'', ''querystring'',
      ''readline'', ''readline/promises'', ''repl'', ''stream'', ''stream/consumers'',
      ''stream/promises'', ''stream/web'', ''string_decoder'', ''sys'', ''timers'',
      ''timers/promises'', ''tls'', ''trace_events'', ''tty'', ''url'', ''util'',
      ''util/types'', ''v8'', ''vm'', ''wasi'', ''worker_threads'', ''zlib'']"

definition IsNodeImport :: "string \<Rightarrow> bool" where
  "IsNodeImport imprt = (HasPrefix imprt ''node:'' \<or> imprt \<in> set nativeModulesSet)"

section \<open>Lemmas\<close>

lemma IndexByte_None_iff: "IndexByte s c = None \<longleftrightarrow> c \<notin> set s"
  by (induction s) auto

lemma IndexByte_SomeD: "IndexByte s c = Some i \<Longrightarrow> \<exists>b a. s = b @ c # a \<and> c \<notin> set b \<and> length b = i"
proof (induction s arbitrary: i)
  case (Cons x s)
  show ?case
  proof (cases "x = c")
    case True
    with Cons.prems show ?thesis by (intro exI [of _ "[]"] exI [of _ s]) auto
  next
    case False
    with Cons.prems obtain j where j: "IndexByte s c = Some j" "i = Suc j" by auto
    with Cons.IH obtain b a where "s = b @ c # a" "c \<notin> set b" "length b = j" by blast
    with False j have "x # s = (x # b) @ c # a \<and> c \<notin> set (x # b) \<and> length (x # b) = i" by simp
    then show ?thesis by blast
  qed
qed simp

lemma IndexByte_append: "c \<notin> set b \<Longrightarrow> IndexByte (b @ c # a) c = Some (length b)"
  by (induction b) auto

text \<open>Package names as the parser splits them off: \<open>name\<close> or \<open>@scope/name\<close>.\<close>

definition package_name :: "string \<Rightarrow> bool" where
  "package_name pkg \<longleftrightarrow>
     pkg \<noteq> '''' \<and> hd pkg \<noteq> slash \<and> hd pkg \<noteq> CHR ''.'' \<and>
     (if hd pkg = CHR ''@'' then (\<exists>s n. pkg = s @ slash # n \<and> slash \<notin> set s \<and> slash \<notin> set n)
      else slash \<notin> set pkg)"

lemma ParseImportPath_unscoped:
  "slash \<notin> set b \<Longrightarrow> b \<noteq> '''' \<Longrightarrow> hd b \<notin> {slash, CHR ''.'', CHR ''@''} \<Longrightarrow>
   ParseImportPath (b @ slash # a) = (b, a) \<and> ParseImportPath b = (b, '''')"
  by (simp add: ParseImportPath_def CutByte_append CutByte_not_found)

lemma ParseImportPath_scoped:
  assumes "slash \<notin> set s" "slash \<notin> set n" "s \<noteq> ''''" "hd s = CHR ''@''"
  shows "ParseImportPath (s @ slash # n) = (s @ slash # n, '''') \<and>
         ParseImportPath (s @ slash # n @ slash # a) = (s @ slash # n, a)"
proof -
  have n: "IndexByte n slash = None" using assms(2) by (simp add: IndexByte_None_iff)
  show ?thesis
    using assms by (simp add: ParseImportPath_def IndexByte_append n Let_def)
qed

lemma ParseImportPath_package:
  assumes "ParseImportPath imp = (pkg, sub)" "pkg \<noteq> ''''"
  shows "package_name pkg \<and> (imp = pkg \<and> sub = '''' \<or> imp = pkg @ slash # sub)"
proof (cases "hd imp = CHR ''@''")
  case False
  have ne: "imp \<noteq> ''''" "hd imp \<noteq> slash" "hd imp \<noteq> CHR ''.''"
    using assms by (auto simp: ParseImportPath_def)
  show ?thesis
  proof (cases "slash \<in> set imp")
    case True
    then obtain b a where s: "imp = b @ slash # a" "slash \<notin> set b"
      using CutByte_found by blast
    with ne False have "b \<noteq> ''''" "hd b \<notin> {slash, CHR ''.'', CHR ''@''}"
      by (cases b; auto)+
    with s assms show ?thesis
      using ParseImportPath_unscoped [of b a] by (auto simp: package_name_def)
  next
    case ns: False
    with assms ne False show ?thesis
      by (auto simp: ParseImportPath_def CutByte_not_found package_name_def)
  qed
next
  case True
  have ne: "imp \<noteq> ''''" using assms by (auto simp: ParseImportPath_def)
  have "slash \<in> set imp"
  proof (rule ccontr)
    assume "slash \<notin> set imp"
    then have "IndexByte imp slash = None" by (simp add: IndexByte_None_iff)
    with assms True ne show False by (simp add: ParseImportPath_def)
  qed
  then obtain s r where s: "imp = s @ slash # r" "slash \<notin> set s"
    using CutByte_found by blast
  with True ne have s2: "s \<noteq> ''''" "hd s = CHR ''@''" by (cases s; auto)+
  show ?thesis
  proof (cases "slash \<in> set r")
    case rt: True
    then obtain n a where "r = n @ slash # a" "slash \<notin> set n"
      using CutByte_found by blast
    with s s2 assms show ?thesis
      using ParseImportPath_scoped [of s n a] by (auto simp: package_name_def)
  next
    case rf: False
    with s s2 assms show ?thesis
      using ParseImportPath_scoped [of s r] by (auto simp: package_name_def)
  qed
qed

lemma ParseImportPath_of_package:
  assumes "package_name pkg"
  shows "ParseImportPath pkg = (pkg, '''') \<and> ParseImportPath (pkg @ slash # sub) = (pkg, sub)"
proof (cases "hd pkg = CHR ''@''")
  case True
  with assms obtain s n where p: "pkg = s @ slash # n" "slash \<notin> set s" "slash \<notin> set n"
    by (auto simp: package_name_def)
  with True have "s \<noteq> ''''" "hd s = CHR ''@''" by (cases s; auto)+
  with p ParseImportPath_scoped [of s n sub] show ?thesis by simp
next
  case False
  with assms ParseImportPath_unscoped [of pkg sub] show ?thesis
    by (auto simp: package_name_def)
qed

text \<open>
  Splitting an import into package and subpath loses nothing and is exact: the
  parser returns a package if and only if the import is a package name (plain, or
  \<open>@scope/name\<close>), alone with an empty subpath or followed by a slash and the subpath returned.
\<close>

theorem ParseImportPath_exact:
  "(ParseImportPath imp = (pkg, sub) \<and> pkg \<noteq> '''') =
   (package_name pkg \<and> (imp = pkg \<and> sub = '''' \<or> imp = pkg @ slash # sub))"
proof
  assume "ParseImportPath imp = (pkg, sub) \<and> pkg \<noteq> ''''"
  then show "package_name pkg \<and> (imp = pkg \<and> sub = '''' \<or> imp = pkg @ slash # sub)"
    using ParseImportPath_package by blast
next
  assume h: "package_name pkg \<and> (imp = pkg \<and> sub = '''' \<or> imp = pkg @ slash # sub)"
  then have "pkg \<noteq> ''''" by (simp add: package_name_def)
  with h show "ParseImportPath imp = (pkg, sub) \<and> pkg \<noteq> ''''"
    using ParseImportPath_of_package [of pkg sub] by blast
qed

end
