(* ===== verification/Node_Package.thy ===== *)
theory Node_Package
  imports Node_Paths Comparators
begin

text \<open>
  The data of a \<open>package.json\<close> relevant to build generation
  (\<open>language/js/node/package.go\<close>): entry points, published files, and the subpath maps of
  the \<open>exports\<close> and \<open>imports\<close> fields with their resolution. Decoding the JSON text is the
  third-party \<open>jsonc.Unmarshal\<close>, a parameter; a decoded object is an association list whose
  order is the (unspecified) iteration order of the Go map.
\<close>

section \<open>Data\<close>

datatype json =
  JNull | JBool bool | JNum string | JStr string | JArr "json list" | JObj "(string \<times> json) list"

record npmPackageJSON =
  j_name :: string
  j_main :: string
  j_exports :: json
  j_imports :: json
  j_types :: string
  j_typings :: string
  j_files :: "string list"

datatype SubpathPattern =
  SubpathPattern (pat_prefix: string) (pat_suffix: string) (pat_targets: "string list")

record PackageJson =
  pj_Name :: string
  pj_Entries :: "string list"
  pj_Files :: "string list"
  pj_Exports :: "string \<rightharpoonup> string list"
  pj_ExportPatterns :: "SubpathPattern list"
  pj_Imports :: "string \<rightharpoonup> string list"
  pj_ImportPatterns :: "SubpathPattern list"

definition empty_package :: PackageJson where
  "empty_package = \<lparr>pj_Name = '''', pj_Entries = [], pj_Files = [], pj_Exports = Map.empty,
     pj_ExportPatterns = [], pj_Imports = Map.empty, pj_ImportPatterns = []\<rparr>"

section \<open>Resolving a subpath\<close>

definition pattern_matches :: "SubpathPattern \<Rightarrow> string \<Rightarrow> bool" where
  "pattern_matches pat specifier =
     (\<not> (length specifier \<le> length (pat_prefix pat) + length (pat_suffix pat) \<or>
         \<not> HasPrefix specifier (pat_prefix pat) \<or> \<not> HasSuffix specifier (pat_suffix pat)))"

definition expand_pattern :: "SubpathPattern \<Rightarrow> string \<Rightarrow> string list" where
  "expand_pattern pat specifier =
     (let matched = drop (length (pat_prefix pat))
                      (take (length specifier - length (pat_suffix pat)) specifier)
      in map (\<lambda>target. ReplaceAll target ''*'' matched) (pat_targets pat))"

definition resolveSubpath ::
  "(string \<rightharpoonup> string list) \<Rightarrow> SubpathPattern list \<Rightarrow> string \<Rightarrow> string list" where
  "resolveSubpath exact patterns specifier =
     (case exact specifier of
        Some targets \<Rightarrow> targets
      | None \<Rightarrow>
        (case find (\<lambda>pat. pattern_matches pat specifier) patterns of
           Some pat \<Rightarrow> expand_pattern pat specifier
         | None \<Rightarrow> []))"

definition ResolveImport :: "PackageJson \<Rightarrow> string \<Rightarrow> string list" where
  "ResolveImport p specifier = resolveSubpath (pj_Imports p) (pj_ImportPatterns p) specifier"

definition ResolveExport :: "PackageJson \<Rightarrow> string \<Rightarrow> string list" where
  "ResolveExport p subpath = resolveSubpath (pj_Exports p) (pj_ExportPatterns p) subpath"

section \<open>Indexing the raw mappings\<close>

definition pattern_cmp :: "SubpathPattern \<Rightarrow> SubpathPattern \<Rightarrow> int" where
  "pattern_cmp a b =
     (let d = int (length (pat_prefix b)) - int (length (pat_prefix a)) in
      if d \<noteq> 0 then d
      else
        let d = int (length (pat_suffix b)) - int (length (pat_suffix a)) in
        if d \<noteq> 0 then d
        else
          let d = Compare (pat_prefix a) (pat_prefix b) in
          if d \<noteq> 0 then d
          else Compare (pat_suffix a) (pat_suffix b))"

text \<open>The body of the loop over the raw mappings; a key with several stars is dropped.\<close>

definition index_step ::
  "(string \<rightharpoonup> string list) \<times> SubpathPattern list \<Rightarrow> string \<times> string list \<Rightarrow>
   (string \<rightharpoonup> string list) \<times> SubpathPattern list" where
  "index_step acc entry =
     (case acc of (exact, patterns) \<Rightarrow>
      case entry of (key, targets0) \<Rightarrow>
        let targets = SortStrings targets0 in
        (case CutByte key (CHR ''*'') of (pre, suf, isPattern) \<Rightarrow>
           if \<not> isPattern then (exact(key \<mapsto> targets), patterns)
           else if str_contains suf ''*'' then (exact, patterns)
           else (exact, patterns @ [SubpathPattern pre suf targets])))"

definition indexSubpaths ::
  "(string, string list) gomap \<Rightarrow> (string \<rightharpoonup> string list) \<times> SubpathPattern list" where
  "indexSubpaths raw =
     (case foldl index_step (Map.empty, []) raw of (exact, patterns) \<Rightarrow>
        (exact, SortFunc pattern_cmp patterns))"

section \<open>Reading the package\<close>

definition addEntry :: "PackageJson \<Rightarrow> string \<Rightarrow> PackageJson" where
  "addEntry p file = p\<lparr>pj_Entries := pj_Entries p @ [Clean file]\<rparr>"

definition exportSubpath :: "string \<Rightarrow> string" where
  "exportSubpath subpath = (let s = Clean subpath in if s = ''.'' then '''' else s)"

text \<open>The closures \<open>addExport\<close> and \<open>addImport\<close>, on the raw map and the package.\<close>

type_synonym raw_state = "(string, string list) gomap \<times> PackageJson"

definition addExport :: "raw_state \<Rightarrow> string \<times> string \<Rightarrow> raw_state" where
  "addExport st call =
     (case st of (raw, pkg) \<Rightarrow> case call of (subpath, file0) \<Rightarrow>
        let file = Clean file0 in (al_append raw (exportSubpath subpath) file, addEntry pkg file))"

definition addImport :: "raw_state \<Rightarrow> string \<times> string \<Rightarrow> raw_state" where
  "addImport st call =
     (case st of (raw, pkg) \<Rightarrow> case call of (specifier, target) \<Rightarrow>
        (al_append raw (Clean specifier) target,
         if HasPrefix target ''./'' then addEntry pkg target else pkg))"

text \<open>
  The calls of these closures, in order: a string is one mapping, an object maps one key per
  condition, anything else contributes nothing (a null excludes, other types are warned about).
\<close>

definition value_calls :: "string \<Rightarrow> json \<Rightarrow> (string \<times> string) list" where
  "value_calls key v =
     (case v of
        JStr s \<Rightarrow> [(key, s)]
      | JObj conds \<Rightarrow> concat (map (\<lambda>(_, sub). case sub of JStr s \<Rightarrow> [(key, s)] | _ \<Rightarrow> []) conds)
      | _ \<Rightarrow> [])"

definition export_calls :: "json \<Rightarrow> (string \<times> string) list" where
  "export_calls exports =
     (case exports of
        JStr s \<Rightarrow> [(''.'', s)]
      | JObj entries \<Rightarrow>
          concat (map (\<lambda>(exportKey, export).
            value_calls (if \<not> HasPrefix exportKey ''.'' then ''.'' else exportKey) export) entries)
      | JArr subs \<Rightarrow> concat (map (\<lambda>sub. case sub of JStr s \<Rightarrow> [(''.'', s)] | _ \<Rightarrow> []) subs)
      | _ \<Rightarrow> [])"

definition import_calls :: "(string \<times> json) list \<Rightarrow> (string \<times> string) list" where
  "import_calls entries = concat (map (\<lambda>(importKey, imprt). value_calls importKey imprt) entries)"

text \<open>The body of the loop over \<open>files\<close>; patterns outside the package are dropped.\<close>

definition add_files_pattern :: "PackageJson \<Rightarrow> string \<Rightarrow> PackageJson" where
  "add_files_pattern pkg f =
     (case CutPrefix f ''!'' of (pattern0, negated) \<Rightarrow>
        let pattern = Clean (TrimLeft pattern0 ''/'') in
        if pattern = ''.'' \<or> pattern = ''..'' \<or> HasPrefix pattern ''../'' then pkg
        else pkg\<lparr>pj_Files := pj_Files pkg @ [if negated then ''!'' @ pattern else pattern]\<rparr>)"

definition add_entry_fields :: "npmPackageJSON \<Rightarrow> PackageJson \<Rightarrow> PackageJson" where
  "add_entry_fields c pkg0 =
     (let pkg1 = (if j_main c \<noteq> '''' then addEntry pkg0 (j_main c) else pkg0);
          pkg2 = (if j_types c \<noteq> '''' then addEntry pkg1 (j_types c) else pkg1);
          pkg3 = (if j_typings c \<noteq> '''' then addEntry pkg2 (j_typings c) else pkg2)
      in pkg3)"

definition add_exports :: "json \<Rightarrow> PackageJson \<Rightarrow> PackageJson" where
  "add_exports exports pkg =
     (if exports = JNull then pkg
      else case foldl addExport ([], pkg) (export_calls exports) of (raw, pkg') \<Rightarrow>
        case indexSubpaths raw of (exact, patterns) \<Rightarrow>
          pkg'\<lparr>pj_Exports := exact, pj_ExportPatterns := patterns\<rparr>)"

definition add_imports :: "json \<Rightarrow> PackageJson \<Rightarrow> PackageJson" where
  "add_imports imports pkg =
     (case imports of
        JObj entries \<Rightarrow>
          (case foldl addImport ([], pkg) (import_calls entries) of (raw, pkg') \<Rightarrow>
             case indexSubpaths raw of (exact, patterns) \<Rightarrow>
               pkg'\<lparr>pj_Imports := exact, pj_ImportPatterns := patterns\<rparr>)
      | _ \<Rightarrow> pkg)"

definition package_of_json :: "npmPackageJSON \<Rightarrow> PackageJson" where
  "package_of_json c =
     add_imports (j_imports c)
       (add_exports (j_exports c)
         (foldl add_files_pattern (add_entry_fields c (empty_package\<lparr>pj_Name := j_name c\<rparr>))
           (j_files c)))"

text \<open>\<open>read\<close> is the content or the error of the reader, \<open>unmarshal\<close> the decoder.\<close>

definition ParsePackageJson ::
  "(string \<Rightarrow> string + npmPackageJSON) \<Rightarrow> string + string \<Rightarrow> string + PackageJson" where
  "ParsePackageJson unmarshal read =
     (case read of
        Inl err \<Rightarrow> Inl err
      | Inr packageJsonData \<Rightarrow>
        (case unmarshal packageJsonData of
           Inl err \<Rightarrow> Inl err
         | Inr c \<Rightarrow> Inr (package_of_json c)))"

section \<open>Lemmas: indexing\<close>

lemma comparator_pattern_cmp: "comparator pattern_cmp"
proof -
  have c: "comparator (\<lambda>a b. int (length (pat_prefix b)) - int (length (pat_prefix a)))"
    "comparator (\<lambda>a b. int (length (pat_suffix b)) - int (length (pat_suffix a)))"
    by (rule comparator_desc [of "\<lambda>a. int (length (pat_prefix a))"],
        rule comparator_desc [of "\<lambda>a. int (length (pat_suffix a))"])
  have k: "comparator (\<lambda>a b. Compare (pat_prefix a) (pat_prefix b))"
    "comparator (\<lambda>a b. Compare (pat_suffix a) (pat_suffix b))"
    by (rule comparator_key [OF str_cmp.comparator_axioms])+
  show ?thesis
    using comparator_then [OF c(1) comparator_then [OF c(2) comparator_then [OF k]]]
    by (simp only: pattern_cmp_def [abs_def] Let_def)
qed

interpretation pat_cmp: comparator pattern_cmp
  by (rule comparator_pattern_cmp)

lemma pattern_cmp_zero:
  "pattern_cmp a b = 0 \<longleftrightarrow> pat_prefix a = pat_prefix b \<and> pat_suffix a = pat_suffix b"
  by (auto simp: pattern_cmp_def Let_def Compare_def split: if_splits)

text \<open>A key of a pattern, and the pattern it stands for.\<close>

definition star_key :: "string \<Rightarrow> string \<Rightarrow> string" where
  "star_key pre suf = pre @ ''*'' @ suf"

definition no_star :: "string \<Rightarrow> bool" where
  "no_star s = (CHR ''*'' \<notin> set s)"

definition pattern_of :: "string \<times> string list \<Rightarrow> SubpathPattern list" where
  "pattern_of entry =
     (case CutByte (fst entry) (CHR ''*'') of (pre, suf, isPattern) \<Rightarrow>
        if \<not> isPattern \<or> str_contains suf ''*'' then []
        else [SubpathPattern pre suf (SortStrings (snd entry))])"

lemma str_contains_single: "str_contains s [c] \<longleftrightarrow> c \<in> set s"
  by (induction s) auto

lemma pattern_of_mem:
  "pat \<in> set (pattern_of entry) \<longleftrightarrow>
     (\<exists>pre suf. fst entry = star_key pre suf \<and> no_star pre \<and> no_star suf \<and>
        pat = SubpathPattern pre suf (SortStrings (snd entry)))"
proof (cases "CHR ''*'' \<in> set (fst entry)")
  case True
  then obtain b a where s: "fst entry = b @ CHR ''*'' # a" "CHR ''*'' \<notin> set b"
    using CutByte_found by blast
  have "b @ CHR ''*'' # a = pre @ CHR ''*'' # suf \<longleftrightarrow> pre = b \<and> suf = a"
    if "no_star pre" for pre suf
    using that s(2) CutByte_append [of "CHR ''*''" pre suf] CutByte_append [of "CHR ''*''" b a]
    by (auto simp: no_star_def)
  with s show ?thesis
    by (auto simp: pattern_of_def CutByte_append str_contains_single star_key_def no_star_def)
next
  case False
  then show ?thesis by (auto simp: pattern_of_def CutByte_not_found star_key_def)
qed

lemma index_step_eq:
  "index_step (exact, ps) entry =
     (if no_star (fst entry) then exact(fst entry \<mapsto> SortStrings (snd entry)) else exact,
      ps @ pattern_of entry)"
proof (cases "CHR ''*'' \<in> set (fst entry)")
  case True
  then obtain b a where s: "fst entry = b @ CHR ''*'' # a" "CHR ''*'' \<notin> set b"
    using CutByte_found by blast
  with True show ?thesis
    by (cases entry) (simp add: index_step_def pattern_of_def CutByte_append no_star_def)
next
  case False
  then show ?thesis
    by (cases entry) (simp add: index_step_def pattern_of_def CutByte_not_found no_star_def)
qed

lemma index_step_fold_patterns:
  "snd (foldl index_step (exact, ps) raw) = ps @ concat (map pattern_of raw)"
  by (induction raw arbitrary: exact ps) (simp_all add: index_step_eq)

lemma index_step_fold_exact:
  "al_wf raw \<Longrightarrow>
   fst (foldl index_step (exact, ps) raw) k =
     (if no_star k \<and> map_of raw k \<noteq> None then map_option SortStrings (map_of raw k) else exact k)"
proof (induction raw arbitrary: exact ps)
  case (Cons entry raw)
  from Cons.prems have "al_wf raw" "map_of raw (fst entry) = None"
    by (auto simp: al_wf_def map_of_eq_None_iff)
  with Cons.IH [OF this(1)] show ?case
    by (cases entry) (auto simp: index_step_eq)
qed simp

lemma indexSubpaths_exact:
  "al_wf raw \<Longrightarrow>
   fst (indexSubpaths raw) k = (if no_star k then map_option SortStrings (map_of raw k) else None)"
  using index_step_fold_exact [of raw Map.empty "[]" k]
  by (auto simp: indexSubpaths_def split: prod.splits)

lemma indexSubpaths_patterns:
  "snd (indexSubpaths raw) = SortFunc pattern_cmp (concat (map pattern_of raw))"
  using index_step_fold_patterns [of Map.empty "[]" raw]
  by (auto simp: indexSubpaths_def split: prod.splits)

text \<open>Patterns that compare equal come from the same key.\<close>

lemma star_key_inject:
  assumes "no_star pre" "no_star pre'"
  shows "star_key pre suf = star_key pre' suf' \<longleftrightarrow> pre = pre' \<and> suf = suf'"
proof
  assume eq: "star_key pre suf = star_key pre' suf'"
  have "CutByte (star_key pre suf) (CHR ''*'') = (pre, suf, True)"
    "CutByte (star_key pre' suf') (CHR ''*'') = (pre', suf', True)"
    using assms by (simp_all add: star_key_def no_star_def CutByte_append)
  then show "pre = pre' \<and> suf = suf'" unfolding eq by simp
qed simp

lemma patterns_mem:
  "pat \<in> set (concat (map pattern_of raw)) \<longleftrightarrow>
     (\<exists>pre suf ts. (star_key pre suf, ts) \<in> set raw \<and> no_star pre \<and> no_star suf \<and>
        pat = SubpathPattern pre suf (SortStrings ts))"
proof -
  have "pat \<in> set (concat (map pattern_of raw)) \<longleftrightarrow>
      (\<exists>k ts. (k, ts) \<in> set raw \<and> pat \<in> set (pattern_of (k, ts)))"
    by auto
  then show ?thesis unfolding pattern_of_mem fst_conv snd_conv by blast
qed

lemma patterns_cmp_inject:
  assumes "al_wf raw" "a \<in> set (concat (map pattern_of raw))" "b \<in> set (concat (map pattern_of raw))"
    "pattern_cmp a b = 0"
  shows "a = b"
proof -
  obtain pre suf ts pre' suf' ts' where
    a: "(star_key pre suf, ts) \<in> set raw" "a = SubpathPattern pre suf (SortStrings ts)" and
    b: "(star_key pre' suf', ts') \<in> set raw" "b = SubpathPattern pre' suf' (SortStrings ts')"
    using assms(2,3) unfolding patterns_mem by blast
  from assms(4) a(2) b(2) have "pre = pre'" "suf = suf'" by (simp_all add: pattern_cmp_zero)
  with a(1) b(1) assms(1) have "ts = ts'"
    by (metis al_wf_map_of option.inject)
  with a(2) b(2) \<open>pre = pre'\<close> \<open>suf = suf'\<close> show ?thesis by simp
qed

section \<open>Resolution picks the best key\<close>

text \<open>
  Node's rule for a specifier and a map of keys: a key without star that is the specifier wins;
  else, of the keys with one star whose prefix and suffix enclose a non-empty match, the one
  with the longest prefix and, for that prefix, the longest suffix, whose targets then have
  their stars replaced by the match; else nothing.
\<close>

definition star_match :: "string \<Rightarrow> string \<Rightarrow> string \<Rightarrow> bool" where
  "star_match pre suf spec \<longleftrightarrow> (\<exists>m. m \<noteq> '''' \<and> spec = pre @ m @ suf)"

definition candidate ::
  "(string, string list) gomap \<Rightarrow> string \<Rightarrow> string \<times> string \<times> string list \<Rightarrow> bool" where
  "candidate raw spec cand =
     (case cand of (pre, suf, ts) \<Rightarrow>
        (star_key pre suf, ts) \<in> set raw \<and> no_star pre \<and> no_star suf \<and> star_match pre suf spec)"

definition better_key :: "string \<Rightarrow> string \<Rightarrow> string \<Rightarrow> string \<Rightarrow> bool" where
  "better_key pre suf pre' suf' \<longleftrightarrow>
     length pre' < length pre \<or> (pre' = pre \<and> length suf' \<le> length suf)"

definition best_resolution ::
  "(string, string list) gomap \<Rightarrow> string \<Rightarrow> string list \<Rightarrow> bool" where
  "best_resolution raw spec res \<longleftrightarrow>
     (if no_star spec \<and> map_of raw spec \<noteq> None then res = SortStrings (the (map_of raw spec))
      else if \<exists>cand. candidate raw spec cand then
        \<exists>pre suf ts m. candidate raw spec (pre, suf, ts) \<and> spec = pre @ m @ suf \<and>
           (\<forall>pre' suf' ts'. candidate raw spec (pre', suf', ts') \<longrightarrow> better_key pre suf pre' suf') \<and>
           res = map (\<lambda>t. ReplaceAll t ''*'' m) (SortStrings ts)
      else res = [])"

lemma pattern_matches_iff:
  "pattern_matches pat spec \<longleftrightarrow> star_match (pat_prefix pat) (pat_suffix pat) spec"
proof
  assume h: "pattern_matches pat spec"
  then obtain a where a: "spec = pat_prefix pat @ a"
    by (auto simp: pattern_matches_def prefix_def)
  from h obtain b where "spec = b @ pat_suffix pat"
    by (auto simp: pattern_matches_def suffix_def)
  note ab = a this
  have len: "length (pat_prefix pat) + length (pat_suffix pat) < length spec"
    using h by (simp add: pattern_matches_def)
  with ab have "length (pat_prefix pat) < length b"
    by (metis add_less_cancel_right length_append)
  moreover have "prefix (pat_prefix pat) b"
    using ab \<open>length (pat_prefix pat) < length b\<close>
    by (metis less_imp_le_nat prefixI prefix_length_prefix)
  ultimately obtain m where "b = pat_prefix pat @ m" "m \<noteq> ''''"
    by (auto simp: prefix_def)
  with ab(2) show "star_match (pat_prefix pat) (pat_suffix pat) spec"
    by (auto simp: star_match_def)
next
  assume "star_match (pat_prefix pat) (pat_suffix pat) spec"
  then show "pattern_matches pat spec"
    by (auto simp: star_match_def pattern_matches_def suffix_def)
qed

lemma expand_pattern_match:
  "spec = pat_prefix pat @ m @ pat_suffix pat \<Longrightarrow>
   expand_pattern pat spec = map (\<lambda>t. ReplaceAll t ''*'' m) (pat_targets pat)"
  by (simp add: expand_pattern_def)

lemma same_length_prefix: "x = p @ a \<Longrightarrow> x = q @ b \<Longrightarrow> length p = length q \<Longrightarrow> p = q"
  by simp

lemma pattern_order_better:
  assumes "pattern_cmp a b \<le> 0"
    and "star_match (pat_prefix a) (pat_suffix a) spec" "star_match (pat_prefix b) (pat_suffix b) spec"
  shows "better_key (pat_prefix a) (pat_suffix a) (pat_prefix b) (pat_suffix b)"
proof (cases "length (pat_prefix a) = length (pat_prefix b)")
  case True
  then have "pat_prefix a = pat_prefix b"
    using assms(2,3) by (auto simp: star_match_def)
  then show ?thesis
    using assms(1) by (auto simp: better_key_def pattern_cmp_def Let_def split: if_splits)
next
  case False
  then show ?thesis
    using assms(1) by (auto simp: better_key_def pattern_cmp_def Let_def split: if_splits)
qed

lemma find_sorted:
  "sorted_wrt R xs \<Longrightarrow> find P xs = Some x \<Longrightarrow> y \<in> set xs \<Longrightarrow> P y \<Longrightarrow> y = x \<or> R x y"
  by (induction xs) (auto split: if_splits)

lemma pattern_candidate:
  "pat \<in> set (snd (indexSubpaths raw)) \<and> pattern_matches pat spec \<longleftrightarrow>
   (\<exists>pre suf ts. candidate raw spec (pre, suf, ts) \<and> pat = SubpathPattern pre suf (SortStrings ts))"
  unfolding indexSubpaths_patterns set_SortFunc patterns_mem candidate_def pattern_matches_iff
  by auto

lemma resolveSubpath_pattern:
  assumes "find (\<lambda>pat. pattern_matches pat spec) (snd (indexSubpaths raw)) = Some pat"
  shows "\<exists>pre suf ts m. candidate raw spec (pre, suf, ts) \<and> spec = pre @ m @ suf \<and>
           (\<forall>pre' suf' ts'. candidate raw spec (pre', suf', ts') \<longrightarrow> better_key pre suf pre' suf') \<and>
           expand_pattern pat spec = map (\<lambda>t. ReplaceAll t ''*'' m) (SortStrings ts)"
proof -
  let ?ps = "snd (indexSubpaths raw)"
  have sorted: "sorted_wrt (\<lambda>a b. pattern_cmp a b \<le> 0) ?ps"
    by (simp add: indexSubpaths_patterns pat_cmp.sorted_SortFunc)
  have "pat \<in> set ?ps \<and> pattern_matches pat spec"
    using assms by (auto simp: find_Some_iff)
  then obtain pre suf ts where c: "candidate raw spec (pre, suf, ts)"
      "pat = SubpathPattern pre suf (SortStrings ts)"
    unfolding pattern_candidate by blast
  then obtain m where m: "spec = pre @ m @ suf"
    by (auto simp: candidate_def star_match_def)
  have "better_key pre suf pre' suf'" if c': "candidate raw spec (pre', suf', ts')" for pre' suf' ts'
  proof -
    define pat' where "pat' = SubpathPattern pre' suf' (SortStrings ts')"
    with c' have "pat' \<in> set ?ps \<and> pattern_matches pat' spec"
      unfolding pattern_candidate by blast
    then have "pattern_cmp pat pat' \<le> 0"
      using find_sorted [OF sorted assms] pat_cmp.cmp_refl by fastforce
    from pattern_order_better [OF this, of spec] c c' show ?thesis
      by (simp add: pat'_def candidate_def)
  qed
  moreover have "expand_pattern pat spec = map (\<lambda>t. ReplaceAll t ''*'' m) (SortStrings ts)"
    using expand_pattern_match [of spec pat m] m c(2) by simp
  ultimately show ?thesis
    using c(1) m by blast
qed

lemma resolveSubpath_best:
  assumes "al_wf raw"
  shows "best_resolution raw spec
           (resolveSubpath (fst (indexSubpaths raw)) (snd (indexSubpaths raw)) spec)"
proof (cases "no_star spec \<and> map_of raw spec \<noteq> None")
  case True
  with assms show ?thesis
    by (auto simp: best_resolution_def resolveSubpath_def indexSubpaths_exact)
next
  case False
  with assms have exact: "fst (indexSubpaths raw) spec = None"
    by (auto simp: indexSubpaths_exact)
  show ?thesis
  proof (cases "find (\<lambda>pat. pattern_matches pat spec) (snd (indexSubpaths raw))")
    case None
    then have "\<not> candidate raw spec cand" for cand
      using pattern_candidate [of _ raw spec] by (cases cand) (auto simp: find_None_iff)
    with None False exact show ?thesis
      by (auto simp: best_resolution_def resolveSubpath_def)
  next
    case (Some pat)
    from resolveSubpath_pattern [OF this] Some False exact show ?thesis
      by (auto simp: best_resolution_def resolveSubpath_def)
  qed
qed

section \<open>Iteration order\<close>

text \<open>The raw map that a sequence of appends builds.\<close>

definition raw_of :: "(string \<times> string) list \<Rightarrow> (string, string list) gomap" where
  "raw_of calls = foldl (\<lambda>m (k, v). al_append m k v) [] calls"

lemma raw_of_snoc: "raw_of (calls @ [(k, v)]) = al_append (raw_of calls) k v"
  by (simp add: raw_of_def)

lemma raw_of_wf: "al_wf (raw_of calls)"
  by (induction calls rule: rev_induct) (auto simp: raw_of_snoc al_append_def, simp add: raw_of_def)

lemma raw_of_lookup:
  "map_of (raw_of calls) k =
     (if k \<in> fst ` set calls then Some (map snd (filter (\<lambda>c. fst c = k) calls)) else None)"
proof (induction calls rule: rev_induct)
  case Nil
  then show ?case by (simp add: raw_of_def)
next
  case (snoc c calls)
  obtain k' v where "c = (k', v)" by (cases c)
  with snoc show ?case
    by (auto simp: raw_of_snoc al_append_def filter_empty_conv rev_image_eqI)
qed

definition norm_entry :: "string \<times> string list \<Rightarrow> string \<times> string list" where
  "norm_entry e = (fst e, SortStrings (snd e))"

lemma pattern_of_norm: "pattern_of (norm_entry e) = pattern_of e"
  unfolding pattern_of_def norm_entry_def fst_conv snd_conv SortStrings_idem ..

lemma norm_entries_mset:
  assumes "mset calls = mset calls'"
  shows "mset (map norm_entry (raw_of calls)) = mset (map norm_entry (raw_of calls'))"
proof -
  have dist: "distinct (map norm_entry (raw_of cs))" for cs
  proof -
    have "map fst (map norm_entry (raw_of cs)) = map fst (raw_of cs)"
      by (simp add: norm_entry_def)
    then show ?thesis
      using raw_of_wf [of cs] unfolding al_wf_def by (metis distinct_map)
  qed
  have mem: "(k, ts) \<in> norm_entry ` set (raw_of cs) \<longleftrightarrow> map_option SortStrings (map_of (raw_of cs) k) = Some ts"
    for cs k ts
    using raw_of_wf [of cs] by (force simp: norm_entry_def al_wf_def)
  have "map_option SortStrings (map_of (raw_of calls) k) = map_option SortStrings (map_of (raw_of calls') k)"
    for k
  proof -
    have "set calls = set calls'" using assms by (metis set_mset_mset)
    moreover have "mset (map snd (filter (\<lambda>c. fst c = k) calls)) =
        mset (map snd (filter (\<lambda>c. fst c = k) calls'))"
      using assms by simp
    ultimately show ?thesis
      unfolding raw_of_lookup by (simp add: SortStrings_mset)
  qed
  then have "e \<in> norm_entry ` set (raw_of calls) \<longleftrightarrow> e \<in> norm_entry ` set (raw_of calls')" for e
    by (cases e) (simp only: mem)
  then have "norm_entry ` set (raw_of calls) = norm_entry ` set (raw_of calls')"
    by blast
  with dist show ?thesis
    by (metis set_eq_iff_mset_eq_distinct set_map)
qed

lemma indexSubpaths_order:
  assumes "mset calls = mset calls'"
  shows "indexSubpaths (raw_of calls) = indexSubpaths (raw_of calls')"
proof -
  have "fst (indexSubpaths (raw_of calls)) k = fst (indexSubpaths (raw_of calls')) k" for k
  proof -
    have "set calls = set calls'" using assms by (metis set_mset_mset)
    moreover have "mset (map snd (filter (\<lambda>c. fst c = k) calls)) =
        mset (map snd (filter (\<lambda>c. fst c = k) calls'))"
      using assms by simp
    ultimately show ?thesis
      by (simp add: indexSubpaths_exact raw_of_wf raw_of_lookup SortStrings_mset)
  qed
  moreover have "mset (concat (map pattern_of (raw_of calls))) = mset (concat (map pattern_of (raw_of calls')))"
  proof -
    have "mset (concat (map pattern_of raw)) =
        (\<Sum>e \<in># mset (map norm_entry raw). mset (pattern_of e))" for raw
      by (simp add: mset_concat image_mset.compositionality comp_def pattern_of_norm
          sum_mset_sum_list flip: mset_map)
    with norm_entries_mset [OF assms] show ?thesis by simp
  qed
  then have "snd (indexSubpaths (raw_of calls)) = snd (indexSubpaths (raw_of calls'))"
    unfolding indexSubpaths_patterns
    by (rule pat_cmp.SortFunc_mset_on) (erule patterns_cmp_inject [OF raw_of_wf], assumption+)
  ultimately show ?thesis by (auto simp: prod_eq_iff)
qed

section \<open>The parsed package\<close>

text \<open>The mappings that the fields of a package contribute.\<close>

definition export_mappings :: "json \<Rightarrow> (string \<times> string) list" where
  "export_mappings exports = map (\<lambda>(s, f). (exportSubpath s, Clean f)) (export_calls exports)"

definition import_mappings :: "json \<Rightarrow> (string \<times> string) list" where
  "import_mappings imports =
     (case imports of JObj entries \<Rightarrow> map (\<lambda>(s, t). (Clean s, t)) (import_calls entries) | _ \<Rightarrow> [])"

lemma foldl_addExport:
  "foldl addExport (raw, pkg) calls =
     (foldl (\<lambda>m (k, v). al_append m k v) raw (map (\<lambda>(s, f). (exportSubpath s, Clean f)) calls),
      pkg\<lparr>pj_Entries := pj_Entries pkg @ map (\<lambda>c. Clean (snd c)) calls\<rparr>)"
  by (induction calls arbitrary: raw pkg) (auto simp: addExport_def addEntry_def Let_def Clean_idem)

lemma foldl_addImport:
  "foldl addImport (raw, pkg) calls =
     (foldl (\<lambda>m (k, v). al_append m k v) raw (map (\<lambda>(s, t). (Clean s, t)) calls),
      pkg\<lparr>pj_Entries := pj_Entries pkg @
            map (\<lambda>c. Clean (snd c)) (filter (\<lambda>c. HasPrefix (snd c) ''./'') calls)\<rparr>)"
  by (induction calls arbitrary: raw pkg) (auto simp: addImport_def addEntry_def)

lemma add_exports_eq:
  "add_exports e pkg =
     (if e = JNull then pkg
      else pkg\<lparr>pj_Entries := pj_Entries pkg @ map (\<lambda>c. Clean (snd c)) (export_calls e),
               pj_Exports := fst (indexSubpaths (raw_of (export_mappings e))),
               pj_ExportPatterns := snd (indexSubpaths (raw_of (export_mappings e)))\<rparr>)"
  by (simp add: add_exports_def foldl_addExport raw_of_def [symmetric] export_mappings_def [symmetric]
      split: prod.splits)

definition import_entries :: "json \<Rightarrow> string list" where
  "import_entries imports =
     (case imports of
        JObj es \<Rightarrow> map (\<lambda>c. Clean (snd c)) (filter (\<lambda>c. HasPrefix (snd c) ''./'') (import_calls es))
      | _ \<Rightarrow> [])"

lemma add_imports_eq:
  "add_imports i pkg =
     (case i of
        JObj es \<Rightarrow> pkg\<lparr>pj_Entries := pj_Entries pkg @ import_entries i,
               pj_Imports := fst (indexSubpaths (raw_of (import_mappings i))),
               pj_ImportPatterns := snd (indexSubpaths (raw_of (import_mappings i)))\<rparr>
      | _ \<Rightarrow> pkg)"
  by (cases i)
     (simp_all add: add_imports_def foldl_addImport raw_of_def [symmetric] import_mappings_def
       import_entries_def split: prod.splits)

lemma indexSubpaths_Nil: "indexSubpaths (raw_of []) = (Map.empty, [])"
  by (simp add: indexSubpaths_def raw_of_def SortFunc_def)

definition base_package :: "npmPackageJSON \<Rightarrow> PackageJson" where
  "base_package c =
     foldl add_files_pattern (add_entry_fields c (empty_package\<lparr>pj_Name := j_name c\<rparr>)) (j_files c)"

lemma base_package_maps:
  "pj_Exports (base_package c) = Map.empty" "pj_ExportPatterns (base_package c) = []"
  "pj_Imports (base_package c) = Map.empty" "pj_ImportPatterns (base_package c) = []"
proof -
  have "pj_Exports (foldl add_files_pattern p fs) = pj_Exports p \<and>
        pj_ExportPatterns (foldl add_files_pattern p fs) = pj_ExportPatterns p \<and>
        pj_Imports (foldl add_files_pattern p fs) = pj_Imports p \<and>
        pj_ImportPatterns (foldl add_files_pattern p fs) = pj_ImportPatterns p" for p fs
    by (induction fs arbitrary: p) (auto simp: add_files_pattern_def Let_def split: prod.splits)
  then show "pj_Exports (base_package c) = Map.empty" "pj_ExportPatterns (base_package c) = []"
    "pj_Imports (base_package c) = Map.empty" "pj_ImportPatterns (base_package c) = []"
    by (simp_all add: base_package_def add_entry_fields_def Let_def addEntry_def empty_package_def)
qed

lemma base_package_fields [simp]:
  "base_package (c\<lparr>j_exports := e\<rparr>) = base_package c"
  "base_package (c\<lparr>j_imports := i\<rparr>) = base_package c"
  by (simp_all add: base_package_def add_entry_fields_def Let_def)

lemma package_of_json_eq:
  "package_of_json c = add_imports (j_imports c) (add_exports (j_exports c) (base_package c))"
  by (simp add: package_of_json_def base_package_def)

lemma export_mappings_null [simp]: "export_mappings JNull = []"
  by (simp add: export_mappings_def export_calls_def)

lemma import_mappings_other: "(\<And>es. i \<noteq> JObj es) \<Longrightarrow> import_mappings i = []"
  by (cases i) (auto simp: import_mappings_def)

lemma add_imports_exports [simp]:
  "pj_Exports (add_imports i p) = pj_Exports p" "pj_ExportPatterns (add_imports i p) = pj_ExportPatterns p"
  "pj_Files (add_imports i p) = pj_Files p" "pj_Name (add_imports i p) = pj_Name p"
  by (cases i; simp add: add_imports_eq)+

lemma add_exports_imports [simp]:
  "pj_Imports (add_exports e p) = pj_Imports p" "pj_ImportPatterns (add_exports e p) = pj_ImportPatterns p"
  "pj_Files (add_exports e p) = pj_Files p" "pj_Name (add_exports e p) = pj_Name p"
  by (simp_all add: add_exports_eq)

lemma package_maps:
  "(pj_Exports (package_of_json c), pj_ExportPatterns (package_of_json c)) =
     indexSubpaths (raw_of (export_mappings (j_exports c)))"
  "(pj_Imports (package_of_json c), pj_ImportPatterns (package_of_json c)) =
     indexSubpaths (raw_of (import_mappings (j_imports c)))"
proof -
  show "(pj_Exports (package_of_json c), pj_ExportPatterns (package_of_json c)) =
     indexSubpaths (raw_of (export_mappings (j_exports c)))"
    by (simp add: package_of_json_eq add_exports_eq base_package_maps indexSubpaths_Nil)
  show "(pj_Imports (package_of_json c), pj_ImportPatterns (package_of_json c)) =
     indexSubpaths (raw_of (import_mappings (j_imports c)))"
  proof (cases "\<exists>es. j_imports c = JObj es")
    case True
    then obtain es where "j_imports c = JObj es" by blast
    then show ?thesis by (simp add: package_of_json_eq add_imports_eq)
  next
    case False
    then have "import_mappings (j_imports c) = []" "add_imports (j_imports c) = (\<lambda>p. p)"
      using import_mappings_other by (blast, cases "j_imports c") (auto simp: add_imports_eq)
    then show ?thesis
      by (simp add: package_of_json_eq base_package_maps indexSubpaths_Nil)
  qed
qed

text \<open>
  A field with a null target, which in Node takes the subpaths of its key out of the broader
  patterns and which the parser passes over, as \<open>null_exports_ignored\<close> shows.
\<close>

definition no_null_targets :: "json \<Rightarrow> bool" where
  "no_null_targets v =
     (case v of
        JObj entries \<Rightarrow>
          (\<forall>(k, t) \<in> set entries. t \<noteq> JNull \<and>
             (case t of JObj conds \<Rightarrow> (\<forall>(k', t') \<in> set conds. t' \<noteq> JNull) | _ \<Rightarrow> True))
      | _ \<Rightarrow> True)"


definition two_pattern_package :: npmPackageJSON where
  "two_pattern_package = \<lparr>j_name = ''p'', j_main = '''',
     j_exports = JObj [(''./*'', JStr ''./src/*.js''), (''./lib/*'', JObj [(''import'', JStr ''./lib/*.mjs'')])],
     j_imports = JNull, j_types = '''', j_typings = '''', j_files = []\<rparr>"


text \<open>Two iteration orders of the decoded objects that the code iterates.\<close>

definition same_conditions :: "json \<Rightarrow> json \<Rightarrow> bool" where
  "same_conditions v v' \<longleftrightarrow> v = v' \<or> (\<exists>cs cs'. v = JObj cs \<and> v' = JObj cs' \<and> mset cs = mset cs')"

definition json_reordered :: "json \<Rightarrow> json \<Rightarrow> bool" where
  "json_reordered v v' \<longleftrightarrow>
     v = v' \<or>
     (\<exists>es fs es'. v = JObj es \<and> v' = JObj es' \<and> mset fs = mset es' \<and>
        list_all2 (\<lambda>e f. fst e = fst f \<and> same_conditions (snd e) (snd f)) es fs)"

lemma mset_concat_map: "mset xs = mset ys \<Longrightarrow> mset (concat (map f xs)) = mset (concat (map f ys))"
  unfolding mset_concat map_map sum_mset_sum_list [symmetric] mset_map by simp

lemma same_conditions_calls: "same_conditions v v' \<Longrightarrow> mset (value_calls k v) = mset (value_calls k v')"
  by (auto simp: same_conditions_def value_calls_def intro: mset_concat_map)

lemma list_all2_concat_mset:
  "list_all2 R xs ys \<Longrightarrow> (\<And>x y. R x y \<Longrightarrow> mset (f x) = mset (f y)) \<Longrightarrow>
   mset (concat (map f xs)) = mset (concat (map f ys))"
  by (induction rule: list_all2_induct) auto

lemma json_reordered_null: "json_reordered v v' \<Longrightarrow> v = JNull \<longleftrightarrow> v' = JNull"
  by (auto simp: json_reordered_def)

lemma export_calls_reordered:
  assumes "json_reordered v v'"
  shows "mset (export_calls v) = mset (export_calls v')"
proof (cases "v = v'")
  case False
  then obtain es fs es' where v: "v = JObj es" "v' = JObj es'" "mset fs = mset es'"
      and r: "list_all2 (\<lambda>e f. fst e = fst f \<and> same_conditions (snd e) (snd f)) es fs"
    using assms by (auto simp: json_reordered_def)
  have "mset (export_calls (JObj es)) = mset (export_calls (JObj fs))"
    unfolding export_calls_def json.case
    by (rule list_all2_concat_mset [OF r]) (auto intro: same_conditions_calls)
  also have "\<dots> = mset (export_calls (JObj es'))"
    unfolding export_calls_def json.case by (rule mset_concat_map [OF v(3)])
  finally show ?thesis by (simp add: v)
qed simp

lemma import_calls_reordered:
  assumes "json_reordered v v'"
  shows "mset (import_mappings v) = mset (import_mappings v') \<and>
         mset (import_entries v) = mset (import_entries v')"
proof (cases "v = v'")
  case False
  then obtain es fs es' where v: "v = JObj es" "v' = JObj es'" "mset fs = mset es'"
      and r: "list_all2 (\<lambda>e f. fst e = fst f \<and> same_conditions (snd e) (snd f)) es fs"
    using assms by (auto simp: json_reordered_def)
  have "mset (import_calls es) = mset (import_calls fs)"
    unfolding import_calls_def
    by (rule list_all2_concat_mset [OF r]) (auto intro: same_conditions_calls)
  also have "\<dots> = mset (import_calls es')"
    unfolding import_calls_def by (rule mset_concat_map [OF v(3)])
  finally have "mset (import_calls es) = mset (import_calls es')" .
  then show ?thesis by (simp add: v import_mappings_def import_entries_def)
qed simp

lemma export_entries:
  "pj_Entries (package_of_json c) =
     pj_Entries (base_package c) @ map (\<lambda>c. Clean (snd c)) (export_calls (j_exports c)) @
     import_entries (j_imports c)"
proof -
  have "export_calls JNull = []" by (simp add: export_calls_def)
  then show ?thesis
    by (cases "j_imports c"; cases "j_exports c = JNull")
       (simp_all add: package_of_json_eq add_imports_eq add_exports_eq import_entries_def)
qed

text \<open>
  Reading a package is deterministic although Go iterates the decoded objects in
  a random order: for any two iteration orders of the \<open>exports\<close> and \<open>imports\<close> objects and of
  the condition objects in them, the name, the files, the exact maps and the priority-ordered
  patterns are the same, and the entry points are the same up to order.
\<close>

theorem package_order_independent:
  assumes "json_reordered (j_exports c) e'" "json_reordered (j_imports c) i'"
  shows "(let p = package_of_json c; p' = package_of_json (c\<lparr>j_exports := e', j_imports := i'\<rparr>)
          in pj_Name p' = pj_Name p \<and> pj_Files p' = pj_Files p \<and>
             pj_Exports p' = pj_Exports p \<and> pj_ExportPatterns p' = pj_ExportPatterns p \<and>
             pj_Imports p' = pj_Imports p \<and> pj_ImportPatterns p' = pj_ImportPatterns p \<and>
             mset (pj_Entries p') = mset (pj_Entries p))"
proof -
  let ?c = "c\<lparr>j_exports := e', j_imports := i'\<rparr>"
  have base: "base_package ?c = base_package c" by simp
  have "mset (export_mappings e') = mset (export_mappings (j_exports c))"
    using export_calls_reordered [OF assms(1)] by (simp add: export_mappings_def)
  then have "indexSubpaths (raw_of (export_mappings e')) = indexSubpaths (raw_of (export_mappings (j_exports c)))"
    by (rule indexSubpaths_order)
  moreover have "indexSubpaths (raw_of (import_mappings i')) = indexSubpaths (raw_of (import_mappings (j_imports c)))"
    using import_calls_reordered [OF assms(2)] by (intro indexSubpaths_order) simp
  moreover have "mset (pj_Entries (package_of_json ?c)) = mset (pj_Entries (package_of_json c))"
    using export_calls_reordered [OF assms(1)] import_calls_reordered [OF assms(2)]
    unfolding export_entries base by simp
  moreover have "pj_Name (package_of_json ?c) = pj_Name (package_of_json c)"
    "pj_Files (package_of_json ?c) = pj_Files (package_of_json c)"
    by (simp_all add: package_of_json_eq base)
  ultimately show ?thesis
    using package_maps [of c] package_maps [of ?c] by (simp add: Let_def) (metis Pair_inject)
qed

text \<open>A package with two subpaths, one of them conditional.\<close>

definition sample_package :: npmPackageJSON where
  "sample_package = \<lparr>j_name = ''p'', j_main = '''',
     j_exports = JObj [(''.'', JStr ''./a.js''),
                       (''./f/*'', JObj [(''node'', JStr ''./n/*.js''), (''default'', JStr ''./d/*.js'')])],
     j_imports = JNull, j_types = '''', j_typings = '''', j_files = []\<rparr>"

theorem package_order_independent_witness:
  "pj_ExportPatterns (package_of_json (sample_package\<lparr>j_exports :=
      JObj [(''./f/*'', JObj [(''default'', JStr ''./d/*.js''), (''node'', JStr ''./n/*.js'')]),
            (''.'', JStr ''./a.js'')], j_imports := JNull\<rparr>)) =
   pj_ExportPatterns (package_of_json sample_package)"
proof -
  have "json_reordered (j_exports sample_package)
      (JObj [(''./f/*'', JObj [(''default'', JStr ''./d/*.js''), (''node'', JStr ''./n/*.js'')]),
             (''.'', JStr ''./a.js'')])"
    unfolding json_reordered_def sample_package_def same_conditions_def
    by (rule disjI2, rule exI, rule exI [of _ "[(''.'', JStr ''./a.js''), (''./f/*'',
          JObj [(''default'', JStr ''./d/*.js''), (''node'', JStr ''./n/*.js'')])]"], rule exI) auto
  moreover have "json_reordered (j_imports sample_package) JNull"
    by (simp add: json_reordered_def sample_package_def)
  ultimately show ?thesis
    using package_order_independent [of sample_package] unfolding Let_def by blast
qed

text \<open>A null target does not exclude its subpath: it is as if the key were absent.\<close>

lemma null_exports_ignored:
  "package_of_json (c\<lparr>j_exports := JObj es\<rparr>) =
   package_of_json (c\<lparr>j_exports := JObj (filter (\<lambda>e. snd e \<noteq> JNull) es)\<rparr>)"
proof -
  have "export_calls (JObj es) = export_calls (JObj (filter (\<lambda>e. snd e \<noteq> JNull) es))"
    by (induction es) (auto simp: export_calls_def value_calls_def)
  then show ?thesis
    by (simp add: package_of_json_eq add_exports_eq export_mappings_def)
qed

end
