(* ===== verification/Errors.thy ===== *)
theory Errors
  imports Go_Strings
begin

text \<open>
  Reporting of errors (\<open>common/error.go\<close>): when a cancellable context was set up, reports are
  accumulated, cancel the run, and are surfaced once by the next check; without one a report
  ends the process. The accumulator is a heap object: what a check answers is a pointer to it, so
  that the text of the answered error grows with later reports. The accumulator's lock makes
  each operation atomic, so concurrent use is a sequence of operations.
\<close>

section \<open>Accumulators and contexts\<close>

text \<open>
  The values kept in \<open>Exts\<close>: none, or the context and the accumulator set up with it, which no
  later operation replaces. \<open>acc_id\<close> is the accumulator's address, the other fields are the
  contents found there.
\<close>

type_synonym acc_ptr = nat

record err_acc =
  ctx_cancelled :: bool
  acc_id :: acc_ptr
  acc_errs :: "string list"
  acc_surfaced :: bool

type_synonym exts = "err_acc option"

text \<open>\<open>p\<close> is the address of the newly allocated accumulator.\<close>

definition SetupCancellableContext :: "bool \<Rightarrow> acc_ptr \<Rightarrow> exts" where
  "SetupCancellableContext parent_cancelled p =
     Some \<lparr>ctx_cancelled = parent_cancelled, acc_id = p, acc_errs = [], acc_surfaced = False\<rparr>"

definition acc_add :: "err_acc \<Rightarrow> string \<Rightarrow> err_acc" where
  "acc_add a err = a\<lparr>acc_errs := acc_errs a @ [err]\<rparr>"

text \<open>The accumulator itself the first time it has something to report, then nil.\<close>

definition surface :: "err_acc \<Rightarrow> acc_ptr option \<times> err_acc" where
  "surface a =
     (if acc_surfaced a \<or> acc_errs a = [] then (None, a)
      else (Some (acc_id a), a\<lparr>acc_surfaced := True\<rparr>))"

text \<open>\<open>errAccumulator.Error\<close>: the messages added so far, one per line.\<close>

definition acc_Error :: "err_acc \<Rightarrow> string" where
  "acc_Error a = (if acc_errs a = [] then '''' else Join [CHR 0x0A] (acc_errs a))"

text \<open>
  What an error answered earlier reads now: \<open>None\<close> for an error that is not the accumulator of
  the context.
\<close>

definition error_text_of :: "acc_ptr \<Rightarrow> exts \<Rightarrow> string option" where
  "error_text_of p c =
     (case c of None \<Rightarrow> None | Some a \<Rightarrow> if acc_id a = p then Some (acc_Error a) else None)"

definition CheckCancellation :: "exts \<Rightarrow> acc_ptr option \<times> exts" where
  "CheckCancellation c =
     (case c of
        None \<Rightarrow> (None, c)
      | Some a \<Rightarrow>
        if \<not> ctx_cancelled a then (None, c)
        else (case surface a of (e, a') \<Rightarrow> (e, Some a')))"

definition cancelOrFatal :: "exts \<Rightarrow> string \<Rightarrow> exts outcome" where
  "cancelOrFatal c msg =
     (case c of
        Some a \<Rightarrow> Inr (Some ((acc_add a msg)\<lparr>ctx_cancelled := True\<rparr>))
      | None \<Rightarrow> Inl (Fatal msg))"

definition MisconfiguredErrorf :: "exts \<Rightarrow> string \<Rightarrow> exts outcome" where
  "MisconfiguredErrorf c msg = cancelOrFatal c msg"

definition GenerationErrorf :: "exts \<Rightarrow> string \<Rightarrow> exts outcome" where
  "GenerationErrorf c msg = cancelOrFatal c msg"

definition ImportErrorf :: "exts \<Rightarrow> string \<Rightarrow> exts outcome" where
  "ImportErrorf c msg = cancelOrFatal c msg"

section \<open>Runs\<close>

text \<open>
  What can happen to the state: a report of one of the three kinds, a check, a cancellation from
  outside.
\<close>

datatype report_kind = RkMisconfigured | RkGeneration | RkImport

datatype err_op = Report report_kind string | Check | CancelOutside

definition report_op :: "report_kind \<Rightarrow> exts \<Rightarrow> string \<Rightarrow> exts outcome" where
  "report_op k =
     (case k of RkMisconfigured \<Rightarrow> MisconfiguredErrorf | RkGeneration \<Rightarrow> GenerationErrorf
      | RkImport \<Rightarrow> ImportErrorf)"

text \<open>The answers of the checks of a sequence of operations, in order, and the final state.\<close>

fun run_ops :: "exts \<Rightarrow> err_op list \<Rightarrow> (acc_ptr option list \<times> exts) outcome" where
  "run_ops c [] = Inr ([], c)"
| "run_ops c (Report k msg # ops) =
     (case report_op k c msg of Inl e \<Rightarrow> Inl e | Inr c' \<Rightarrow> run_ops c' ops)"
| "run_ops c (Check # ops) =
     (case CheckCancellation c of (r, c') \<Rightarrow>
        (case run_ops c' ops of Inl e \<Rightarrow> Inl e | Inr (rs, c'') \<Rightarrow> Inr (r # rs, c'')))"
| "run_ops c (CancelOutside # ops) = run_ops (map_option (\<lambda>a. a\<lparr>ctx_cancelled := True\<rparr>) c) ops"

fun reports :: "err_op list \<Rightarrow> string list" where
  "reports [] = []"
| "reports (Report k msg # ops) = msg # reports ops"
| "reports (_ # ops) = reports ops"

text \<open>
  The specification, with no state of the code's: the operations before the first report and from
  it on, and of the checks only the first one of the second part answers.
\<close>

fun num_checks :: "err_op list \<Rightarrow> nat" where
  "num_checks [] = 0"
| "num_checks (Check # ops) = Suc (num_checks ops)"
| "num_checks (_ # ops) = num_checks ops"

fun first_report :: "err_op list \<Rightarrow> err_op list \<times> err_op list" where
  "first_report [] = ([], [])"
| "first_report (Report k msg # ops) = ([], Report k msg # ops)"
| "first_report (op # ops) = (case first_report ops of (us, vs) \<Rightarrow> (op # us, vs))"

definition check_answers :: "acc_ptr \<Rightarrow> err_op list \<Rightarrow> acc_ptr option list" where
  "check_answers p ops =
     (case first_report ops of (us, vs) \<Rightarrow>
        replicate (num_checks us) None @
        (if num_checks vs = 0 then [] else Some p # replicate (num_checks vs - 1) None))"

lemma report_op_Some [simp]:
  "report_op k (Some a) msg = Inr (Some ((acc_add a msg)\<lparr>ctx_cancelled := True\<rparr>))"
  by (cases k) (simp_all add: report_op_def MisconfiguredErrorf_def GenerationErrorf_def ImportErrorf_def
      cancelOrFatal_def)

lemma report_op_None [simp]: "report_op k None msg = Inl (Fatal msg)"
  by (cases k) (simp_all add: report_op_def MisconfiguredErrorf_def GenerationErrorf_def ImportErrorf_def
      cancelOrFatal_def)

text \<open>With a context no operation fails, and its accumulator stays the same object.\<close>

lemma run_returns:
  "\<exists>rs a'. run_ops (Some a) ops = Inr (rs, Some a') \<and> acc_id a' = acc_id a \<and> acc_errs a' = acc_errs a @ reports ops"
proof (induction ops arbitrary: a)
  case (Cons op ops)
  show ?case
  proof (cases op)
    case (Report k msg)
    then show ?thesis using Cons.IH [of "(acc_add a msg)\<lparr>ctx_cancelled := True\<rparr>"] by (auto simp: acc_add_def)
  next
    case Check
    then show ?thesis using Cons.IH [of a] Cons.IH [of "a\<lparr>acc_surfaced := True\<rparr>"]
      by (auto simp: CheckCancellation_def surface_def)
  next
    case CancelOutside
    then show ?thesis using Cons.IH [of "a\<lparr>ctx_cancelled := True\<rparr>"] by auto
  qed
qed simp

text \<open>After the accumulator was surfaced checks answer nil.\<close>

lemma run_surfaced:
  "run_ops (Some a) ops = Inr (rs, c) \<Longrightarrow> acc_surfaced a \<Longrightarrow> rs = replicate (num_checks ops) None"
  by (induction "Some a" ops arbitrary: a rs rule: run_ops.induct)
     (auto simp: CheckCancellation_def surface_def acc_add_def split: sum.splits if_splits)

text \<open>With reports pending the next check answers the accumulator.\<close>

lemma run_pending:
  "run_ops (Some a) ops = Inr (rs, c) \<Longrightarrow> \<not> acc_surfaced a \<Longrightarrow> acc_errs a \<noteq> [] \<Longrightarrow> ctx_cancelled a \<Longrightarrow>
   rs = (if num_checks ops = 0 then [] else Some (acc_id a) # replicate (num_checks ops - 1) None)"
proof (induction ops arbitrary: a)
  case (Cons op ops)
  show ?case
  proof (cases op)
    case (Report k msg)
    then show ?thesis using Cons.IH [of "(acc_add a msg)\<lparr>ctx_cancelled := True\<rparr>"] Cons.prems
      by (simp add: acc_add_def)
  next
    case Check
    with Cons.prems obtain rs' where
      *: "run_ops (Some (a\<lparr>acc_surfaced := True\<rparr>)) ops = Inr (rs', c)" "rs = Some (acc_id a) # rs'"
      by (auto simp: CheckCancellation_def surface_def split: sum.splits)
    with run_surfaced [OF *(1)] Check show ?thesis by simp
  next
    case CancelOutside
    then show ?thesis using Cons.IH [of "a\<lparr>ctx_cancelled := True\<rparr>"] Cons.prems by simp
  qed
qed simp

lemma run_fresh:
  "run_ops (Some a) ops = Inr (rs, c) \<Longrightarrow> \<not> acc_surfaced a \<Longrightarrow> acc_errs a = [] \<Longrightarrow>
   rs = check_answers (acc_id a) ops"
proof (induction ops arbitrary: a rs)
  case (Cons op ops)
  show ?case
  proof (cases op)
    case (Report k msg)
    with Cons.prems have "run_ops (Some ((acc_add a msg)\<lparr>ctx_cancelled := True\<rparr>)) ops = Inr (rs, c)" by simp
    from run_pending [OF this] Cons.prems Report show ?thesis by (simp add: acc_add_def check_answers_def)
  next
    case Check
    with Cons.prems obtain rs' where *: "run_ops (Some a) ops = Inr (rs', c)" "rs = None # rs'"
      by (auto simp: CheckCancellation_def surface_def split: sum.splits if_splits)
    from Cons.IH [OF *(1) Cons.prems(2,3)] Check *(2) show ?thesis
      by (auto simp: check_answers_def split: prod.splits)
  next
    case CancelOutside
    then show ?thesis using Cons.IH [of "a\<lparr>ctx_cancelled := True\<rparr>"] Cons.prems
      by (auto simp: check_answers_def split: prod.splits)
  qed
qed (auto simp: check_answers_def)

text \<open>
  C29 (safety). Once a cancellable context was set up, over every sequence of reports, checks and
  outside cancellations: no operation ends the process; of the checks exactly the first one that
  follows a report answers the accumulator and all others answer nil (none answers when no check
  follows a report); and the error answered reads, after the whole sequence, as all reports in
  order, one per line, those made after it was answered included.
\<close>

theorem errors_surface_once:
  "\<exists>c. run_ops (SetupCancellableContext b p) ops = Inr (check_answers p ops, c) \<and>
       error_text_of p c = Some (Join [CHR 0x0A] (reports ops))"
proof -
  let ?a = "\<lparr>ctx_cancelled = b, acc_id = p, acc_errs = [], acc_surfaced = False\<rparr>"
  from run_returns [of ?a ops] obtain rs a' where
    r: "run_ops (Some ?a) ops = Inr (rs, Some a')" "acc_id a' = p" "acc_errs a' = reports ops" by auto
  from run_fresh [OF r(1)] have "rs = check_answers p ops" by simp
  with r show ?thesis by (auto simp: SetupCancellableContext_def error_text_of_def acc_Error_def)
qed

text \<open>Without a context the first report ends the process.\<close>

lemma no_context_fatal: "run_ops None (Report k msg # ops) = Inl (Fatal msg)"
  by simp

end
