(* ===== verification/Js_Config.thy ===== *)
theory Js_Config
  imports Labels Glob Go_Path Errors
begin

text \<open>
  The configuration of the JavaScript extension for one directory
  (\<open>language/js/config.go\<close>): target groups, tsconfig settings, ignored and resolved imports,
  naming conventions. In the code a configuration points to its parent; here it is the list of
  the configurations from the directory up to the root, the current one first. The third-party
  functions are the parameters of \<open>js_env\<close>; parsing a glob goes through the cache of
  \<open>Glob\<close>, whose answers do not depend on its contents, so an empty one is used.
\<close>

section \<open>Constants and data\<close>

definition TargetNameDirectoryVar :: string where "TargetNameDirectoryVar = ''{dirname}''"
definition DefaultLibraryName :: string where "DefaultLibraryName = TargetNameDirectoryVar"
definition DefaultTestsName :: string where "DefaultTestsName = TargetNameDirectoryVar @ ''_tests''"
definition ProtoNameVar :: string where "ProtoNameVar = ''{proto_library}''"
definition DefaultProtoLibraryName :: string where "DefaultProtoLibraryName = ProtoNameVar @ ''_ts''"
definition PackageSrcSuffix :: string where "PackageSrcSuffix = ''_lib''"
definition DefaultNpmPackageTargetName :: string where
  "DefaultNpmPackageTargetName = TargetNameDirectoryVar"
definition DefaultNpmLinkAllTargetName :: string where "DefaultNpmLinkAllTargetName = ''node_modules''"
definition rootDirVar :: string where "rootDirVar = ''${rootDir}''"
definition defaultTypescriptFileExtensionsArray :: "string list" where
  "defaultTypescriptFileExtensionsArray = [''ts'', ''tsx'', ''mts'', ''cts'']"

definition tsProjectReflectedConfigAttributes :: "string list" where
  "tsProjectReflectedConfigAttributes =
     [''tsconfig'', ''allow_js'', ''composite'', ''declaration'', ''declaration_dir'',
      ''declaration_map'', ''emit_declaration_only'', ''source_map'', ''incremental'',
      ''ts_build_info_file'', ''no_emit'', ''resolve_json_module'', ''preserve_jsx'',
      ''out_dir'', ''root_dir'']"

datatype NpmPackageMode = NpmPackageEnabledMode | NpmPackageDisabledMode | NpmPackageReferencedMode
datatype ProtoMode = ProtoModeEnabled | ProtoModeDisabled | ProtoModeAspect
datatype ValidationMode = ValidationError | ValidationWarn | ValidationOff
datatype PackageTargetKind = PackageTargetKind_Package | PackageTargetKind_Library
text \<open>\<open>ImportKindNone\<close> is the zero value, of imports that do not come from a source file.\<close>

datatype ImportKind = ImportKindNone | ImportKindImport | ImportKindJsx | ImportKindURL

record TargetGroup =
  tg_name :: string
  tg_customSources :: "string list"
  tg_inheritedSources :: "string list"
  tg_customAssets :: "string list"
  tg_inheritedAssets :: "string list"
  tg_visibility :: "label list"
  tg_testonly :: bool

record jsResolve =
  rv_importGlob :: glob_expr
  rv_label :: label

text \<open>\<open>enabled\<close> is a pointer, nil when the group inherits the default group's setting.\<close>

record targetTsConfig =
  tt_enabled :: "bool option"
  tt_fileName :: string
  tt_ignoredProps :: "string list"

record JsGazelleConfig =
  jc_rel :: string
  jc_generationEnabled :: bool
  jc_packageTargetKind :: PackageTargetKind
  jc_protoMode :: ProtoMode
  jc_packageGenerationEnabled :: NpmPackageMode
  jc_pnpmLockRel :: string
  jc_pnpmLockDir :: string
  jc_pnpmLockPath :: string
  jc_groupTsConfigs :: "(string, targetTsConfig) gomap"
  jc_tsConfigPackageDeps :: bool
  jc_ignoreDependencies :: "glob_expr list"
  jc_resolves :: "jsResolve list"
  jc_validateImportStatements :: ValidationMode
  jc_targets :: "TargetGroup list"
  jc_collectAssetImports :: bool
  jc_collectAssetJsx :: bool
  jc_collectAssetURL :: bool
  jc_npmLinkAllTargetName :: string
  jc_targetNamingOverrides :: "(string, string) gomap"
  jc_npmPackageNamingConvention :: string
  jc_tsProtoLibraryName :: string

type_synonym config_chain = "JsGazelleConfig list"

text \<open>The third-party functions: validity and matching of globs, parsing of labels.\<close>

record js_env =
  je_dsvalid :: "string \<Rightarrow> bool"
  je_dsmatch :: "string \<Rightarrow> string \<Rightarrow> bool"
  je_label_parse :: "string \<Rightarrow> string + label"

text \<open>The errors of the operations, with the arguments of their messages.\<close>

datatype config_error =
    TargetNotFound string string
  | InvalidVisibility string string
  | InvalidTargetGlob string string string glob_error
  | CannotOverride string string string string
  | EmptyAssetGlob string

definition parse_glob :: "js_env \<Rightarrow> string \<Rightarrow> glob_error + glob_expr" where
  "parse_glob env g = fst (ParseGlobExpression (je_dsvalid env) (je_dsmatch env) Map.empty g)"

section \<open>The root configuration\<close>

definition default_ext_glob :: string where
  "default_ext_glob = Join '','' defaultTypescriptFileExtensionsArray"

definition DefaultSourceGlobs :: "TargetGroup list" where
  "DefaultSourceGlobs =
     [\<lparr>tg_name = DefaultLibraryName, tg_customSources = [],
       tg_inheritedSources = [rootDirVar @ ''/**/*.{'' @ default_ext_glob @ ''}''],
       tg_customAssets = [], tg_inheritedAssets = [], tg_visibility = [], tg_testonly = False\<rparr>,
      \<lparr>tg_name = DefaultTestsName, tg_customSources = [],
       tg_inheritedSources = [rootDirVar @ ''/**/*.{spec,test}.{'' @ default_ext_glob @ ''}''],
       tg_customAssets = [], tg_inheritedAssets = [], tg_visibility = [], tg_testonly = True\<rparr>]"

definition newRootConfig :: JsGazelleConfig where
  "newRootConfig =
     \<lparr>jc_rel = '''', jc_generationEnabled = True, jc_packageTargetKind = PackageTargetKind_Package,
      jc_protoMode = ProtoModeEnabled, jc_packageGenerationEnabled = NpmPackageReferencedMode,
      jc_pnpmLockRel = '''', jc_pnpmLockDir = '''', jc_pnpmLockPath = ''pnpm-lock.yaml'',
      jc_groupTsConfigs =
        [('''', \<lparr>tt_enabled = Some True, tt_fileName = ''tsconfig.json'', tt_ignoredProps = []\<rparr>)],
      jc_tsConfigPackageDeps = False, jc_ignoreDependencies = [], jc_resolves = [],
      jc_validateImportStatements = ValidationError, jc_targets = DefaultSourceGlobs,
      jc_collectAssetImports = True, jc_collectAssetJsx = True, jc_collectAssetURL = True,
      jc_npmLinkAllTargetName = DefaultNpmLinkAllTargetName, jc_targetNamingOverrides = [],
      jc_npmPackageNamingConvention = DefaultNpmPackageTargetName,
      jc_tsProtoLibraryName = DefaultProtoLibraryName\<rparr>"

section \<open>Target groups and children\<close>

definition sourceGlobs :: "TargetGroup \<Rightarrow> string list" where
  "sourceGlobs g = (if length (tg_customSources g) > 0 then tg_customSources g else tg_inheritedSources g)"

definition assetGlobs :: "TargetGroup \<Rightarrow> string list" where
  "assetGlobs g = (if length (tg_customAssets g) > 0 then tg_customAssets g else tg_inheritedAssets g)"

definition newChild :: "TargetGroup \<Rightarrow> TargetGroup" where
  "newChild g =
     \<lparr>tg_name = tg_name g, tg_customSources = [], tg_inheritedSources = sourceGlobs g,
      tg_customAssets = [], tg_inheritedAssets = assetGlobs g,
      tg_visibility = tg_visibility g, tg_testonly = tg_testonly g\<rparr>"

text \<open>The fields of the child; the maps are copied entry by entry.\<close>

definition child_of :: "JsGazelleConfig \<Rightarrow> string \<Rightarrow> JsGazelleConfig" where
  "child_of c childPath =
     c\<lparr>jc_rel := childPath, jc_ignoreDependencies := [], jc_resolves := [],
       jc_targets := map newChild (jc_targets c)\<rparr>"

definition NewChild :: "config_chain \<Rightarrow> string \<Rightarrow> config_chain" where
  "NewChild ch childPath = child_of (hd ch) childPath # ch"

definition GetSourceTarget :: "JsGazelleConfig \<Rightarrow> string \<Rightarrow> TargetGroup option" where
  "GetSourceTarget c targetName = find (\<lambda>t. tg_name t = targetName) (jc_targets c)"

text \<open>Mutation of the first group with a name, through its pointer.\<close>

fun update_target :: "string \<Rightarrow> (TargetGroup \<Rightarrow> TargetGroup) \<Rightarrow> TargetGroup list \<Rightarrow> TargetGroup list" where
  "update_target n f [] = []"
| "update_target n f (t # ts) = (if tg_name t = n then f t # ts else t # update_target n f ts)"

definition with_target :: "string \<Rightarrow> (TargetGroup \<Rightarrow> TargetGroup) \<Rightarrow> JsGazelleConfig \<Rightarrow> JsGazelleConfig" where
  "with_target n f c = c\<lparr>jc_targets := update_target n f (jc_targets c)\<rparr>"

text \<open>The labels parsed before the first failure, and the failure.\<close>

fun parse_labels :: "js_env \<Rightarrow> string list \<Rightarrow> label list \<times> config_error option" where
  "parse_labels env [] = ([], None)"
| "parse_labels env (v # vs) =
     (case je_label_parse env (TrimSpace v) of
        Inl e \<Rightarrow> ([], Some (InvalidVisibility v e))
      | Inr l \<Rightarrow> (case parse_labels env vs of (ls, e) \<Rightarrow> (l # ls, e)))"

definition SetVisibility ::
  "js_env \<Rightarrow> string \<Rightarrow> string list \<Rightarrow> JsGazelleConfig \<Rightarrow> JsGazelleConfig \<times> config_error option" where
  "SetVisibility env groupName visLabels c =
     (case GetSourceTarget c groupName of
        None \<Rightarrow> (c, Some (TargetNotFound groupName (jc_rel c)))
      | Some _ \<Rightarrow>
        (case parse_labels env visLabels of
           (ls, e) \<Rightarrow> (with_target groupName (\<lambda>t. t\<lparr>tg_visibility := ls\<rparr>) c, e)))"

text \<open>\<open>normalizeAndValidateGlob\<close>; the adjective only goes into the message.\<close>

definition normalizeAndValidateGlob ::
  "js_env \<Rightarrow> string \<Rightarrow> string \<Rightarrow> string \<Rightarrow> config_error + string" where
  "normalizeAndValidateGlob env targetName adjective glob =
     (let g = TrimPrefix glob ''./''
      in case parse_glob env g of
           Inl e \<Rightarrow> Inl (InvalidTargetGlob targetName adjective g e)
         | Inr _ \<Rightarrow> Inr g)"

definition addTargetGlob ::
  "js_env \<Rightarrow> string \<Rightarrow> string \<Rightarrow> bool \<Rightarrow> JsGazelleConfig \<Rightarrow> JsGazelleConfig \<times> config_error option" where
  "addTargetGlob env targetName glob isTestOnly c =
     (case normalizeAndValidateGlob env targetName '''' glob of
        Inl e \<Rightarrow> (c, Some e)
      | Inr g \<Rightarrow>
        (case GetSourceTarget c targetName of
           Some target \<Rightarrow>
             if tg_testonly target \<noteq> isTestOnly then
               (c, Some (if tg_testonly target
                         then CannotOverride ''test'' (jc_rel c) targetName ''non-test''
                         else CannotOverride ''non-test'' (jc_rel c) targetName ''test''))
             else (with_target targetName
                     (\<lambda>t. t\<lparr>tg_customSources := tg_customSources t @ [g]\<rparr>) c, None)
         | None \<Rightarrow>
             (c\<lparr>jc_targets := jc_targets c @
                [\<lparr>tg_name = targetName, tg_customSources = [g], tg_inheritedSources = [],
                  tg_customAssets = [], tg_inheritedAssets = [], tg_visibility = [],
                  tg_testonly = isTestOnly\<rparr>]\<rparr>, None)))"

definition addTargetAssetGlob ::
  "js_env \<Rightarrow> string \<Rightarrow> string \<Rightarrow> JsGazelleConfig \<Rightarrow> JsGazelleConfig \<times> config_error option" where
  "addTargetAssetGlob env targetName glob c =
     (case normalizeAndValidateGlob env targetName ''asset '' glob of
        Inl e \<Rightarrow> (c, Some e)
      | Inr g \<Rightarrow>
        if g = '''' then (c, Some (EmptyAssetGlob targetName))
        else (case GetSourceTarget c targetName of
           None \<Rightarrow> (c, Some (TargetNotFound targetName (jc_rel c)))
         | Some _ \<Rightarrow>
             (with_target targetName (\<lambda>t. t\<lparr>tg_customAssets := tg_customAssets t @ [g]\<rparr>) c, None)))"

section \<open>Settings\<close>

definition SetGenerationEnabled :: "bool \<Rightarrow> JsGazelleConfig \<Rightarrow> JsGazelleConfig" where
  "SetGenerationEnabled enabled c = c\<lparr>jc_generationEnabled := enabled\<rparr>"

text \<open>\<open>getOrCreateGroupTsConfig\<close> followed by a write through the returned pointer.\<close>

definition getOrCreateGroupTsConfig :: "JsGazelleConfig \<Rightarrow> string \<Rightarrow> targetTsConfig" where
  "getOrCreateGroupTsConfig c groupName =
     (case map_of (jc_groupTsConfigs c) groupName of
        Some tc \<Rightarrow> tc
      | None \<Rightarrow> \<lparr>tt_enabled = None, tt_fileName = '''', tt_ignoredProps = []\<rparr>)"

definition with_group_ts ::
  "string \<Rightarrow> (targetTsConfig \<Rightarrow> targetTsConfig) \<Rightarrow> JsGazelleConfig \<Rightarrow> JsGazelleConfig" where
  "with_group_ts groupName f c =
     c\<lparr>jc_groupTsConfigs :=
         al_put (jc_groupTsConfigs c) groupName (f (getOrCreateGroupTsConfig c groupName))\<rparr>"

definition SetTsConfigGenerationEnabled :: "string \<Rightarrow> bool \<Rightarrow> JsGazelleConfig \<Rightarrow> JsGazelleConfig" where
  "SetTsConfigGenerationEnabled groupName enabled =
     with_group_ts groupName (\<lambda>tc. tc\<lparr>tt_enabled := Some enabled\<rparr>)"

definition GetTsConfigGenerationEnabled :: "JsGazelleConfig \<Rightarrow> string \<Rightarrow> bool" where
  "GetTsConfigGenerationEnabled c groupName =
     (let default = (case map_of (jc_groupTsConfigs c) '''' of
            Some def \<Rightarrow> (case tt_enabled def of Some b \<Rightarrow> b | None \<Rightarrow> True)
          | None \<Rightarrow> True)
      in case map_of (jc_groupTsConfigs c) groupName of
           Some tc \<Rightarrow> (case tt_enabled tc of Some b \<Rightarrow> b | None \<Rightarrow> default)
         | None \<Rightarrow> default)"

definition TsConfigGroupNames :: "JsGazelleConfig \<Rightarrow> string list" where
  "TsConfigGroupNames c = SortStrings (map fst (jc_groupTsConfigs c))"

definition ProtoTsTargetGenerationEnabled :: "JsGazelleConfig \<Rightarrow> bool" where
  "ProtoTsTargetGenerationEnabled c = (jc_generationEnabled c \<and> jc_protoMode c = ProtoModeEnabled)"

definition ProtoAspectEnabled :: "JsGazelleConfig \<Rightarrow> bool" where
  "ProtoAspectEnabled c = (jc_generationEnabled c \<and> jc_protoMode c = ProtoModeAspect)"

definition SetPnpmLockfile :: "string \<Rightarrow> JsGazelleConfig \<Rightarrow> JsGazelleConfig" where
  "SetPnpmLockfile pnpmLockPath c =
     c\<lparr>jc_pnpmLockRel := jc_rel c,
       jc_pnpmLockPath := Clean pnpmLockPath,
       jc_pnpmLockDir := Trim (fst (path_split (path_join [jc_rel c, Clean pnpmLockPath]))) ''/''\<rparr>"

definition SetTsconfigFile :: "string \<Rightarrow> string \<Rightarrow> JsGazelleConfig \<Rightarrow> JsGazelleConfig" where
  "SetTsconfigFile groupName fileName =
     with_group_ts groupName (\<lambda>tc. tc\<lparr>tt_fileName := Clean fileName\<rparr>)"

definition AddIgnoredTsConfig :: "string \<Rightarrow> string \<Rightarrow> JsGazelleConfig \<Rightarrow> JsGazelleConfig" where
  "AddIgnoredTsConfig groupName propName c =
     (if propName \<in> set tsProjectReflectedConfigAttributes
      then with_group_ts groupName (\<lambda>tc. tc\<lparr>tt_ignoredProps := tt_ignoredProps tc @ [propName]\<rparr>) c
      else c)"

definition IsTsConfigIgnored :: "JsGazelleConfig \<Rightarrow> string \<Rightarrow> string \<Rightarrow> bool" where
  "IsTsConfigIgnored c groupName propName =
     list_ex (\<lambda>key. case map_of (jc_groupTsConfigs c) key of
                       Some tc \<Rightarrow> propName \<in> set (tt_ignoredProps tc) | None \<Rightarrow> False)
       ['''', groupName]"

section \<open>Imports\<close>

definition AddIgnoredImport :: "js_env \<Rightarrow> string \<Rightarrow> JsGazelleConfig \<Rightarrow> JsGazelleConfig" where
  "AddIgnoredImport env impGlob c =
     (case parse_glob env impGlob of
        Inl _ \<Rightarrow> c
      | Inr ge \<Rightarrow> c\<lparr>jc_ignoreDependencies := jc_ignoreDependencies c @ [ge]\<rparr>)"

fun IsImportIgnored :: "config_chain \<Rightarrow> string \<Rightarrow> bool" where
  "IsImportIgnored [] impt = False"
| "IsImportIgnored (c # cs) impt =
     (if list_ex (\<lambda>glob. glob impt) (jc_ignoreDependencies c) then True else IsImportIgnored cs impt)"

definition AddResolve :: "js_env \<Rightarrow> string \<Rightarrow> label \<Rightarrow> JsGazelleConfig \<Rightarrow> JsGazelleConfig" where
  "AddResolve env imprt lbl c =
     (case parse_glob env imprt of
        Inl _ \<Rightarrow> c
      | Inr expr \<Rightarrow> c\<lparr>jc_resolves := jc_resolves c @ [\<lparr>rv_importGlob = expr, rv_label = lbl\<rparr>]\<rparr>)"

fun GetResolution :: "config_chain \<Rightarrow> string \<Rightarrow> label option" where
  "GetResolution [] imprt = None"
| "GetResolution (c # cs) imprt =
     (case find (\<lambda>r. rv_importGlob r imprt) (jc_resolves c) of
        Some r \<Rightarrow> Some (rv_label r)
      | None \<Rightarrow> GetResolution cs imprt)"

definition SetCollectAssetsFrom :: "ImportKind list \<Rightarrow> JsGazelleConfig \<Rightarrow> JsGazelleConfig" where
  "SetCollectAssetsFrom kinds c =
     foldl (\<lambda>c kind. case kind of
              ImportKindNone \<Rightarrow> c
            | ImportKindImport \<Rightarrow> c\<lparr>jc_collectAssetImports := True\<rparr>
            | ImportKindJsx \<Rightarrow> c\<lparr>jc_collectAssetJsx := True\<rparr>
            | ImportKindURL \<Rightarrow> c\<lparr>jc_collectAssetURL := True\<rparr>)
       (c\<lparr>jc_collectAssetImports := False, jc_collectAssetJsx := False, jc_collectAssetURL := False\<rparr>)
       kinds"

definition CollectAssetsFrom :: "JsGazelleConfig \<Rightarrow> ImportKind \<Rightarrow> bool" where
  "CollectAssetsFrom c kind =
     (case kind of
        ImportKindImport \<Rightarrow> jc_collectAssetImports c
      | ImportKindJsx \<Rightarrow> jc_collectAssetJsx c
      | ImportKindURL \<Rightarrow> jc_collectAssetURL c
      | ImportKindNone \<Rightarrow> True)"

section \<open>Names\<close>

definition renderTargetName :: "string \<Rightarrow> string \<Rightarrow> string" where
  "renderTargetName baseName packageName = ReplaceAll baseName TargetNameDirectoryVar packageName"

definition SetLibraryNamingConvention :: "string \<Rightarrow> JsGazelleConfig \<Rightarrow> JsGazelleConfig" where
  "SetLibraryNamingConvention n c =
     c\<lparr>jc_targetNamingOverrides := al_put (jc_targetNamingOverrides c) DefaultLibraryName n\<rparr>"

definition SetTestsNamingLibraryConvention :: "string \<Rightarrow> JsGazelleConfig \<Rightarrow> JsGazelleConfig" where
  "SetTestsNamingLibraryConvention n c =
     c\<lparr>jc_targetNamingOverrides := al_put (jc_targetNamingOverrides c) DefaultTestsName n\<rparr>"

text \<open>The first override found, in the iteration order of the map.\<close>

definition ReverseMapTargetName :: "JsGazelleConfig \<Rightarrow> string \<Rightarrow> string" where
  "ReverseMapTargetName c mappedName =
     (case find (\<lambda>(name, override). override = mappedName) (jc_targetNamingOverrides c) of
        Some (name, _) \<Rightarrow> name
      | None \<Rightarrow> mappedName)"

definition parseGroupGlob :: "JsGazelleConfig \<Rightarrow> string \<Rightarrow> string \<Rightarrow> string \<times> string" where
  "parseGroupGlob c v defaultGroup =
     (case CutByte v (CHR '' '') of
        (before, after, found) \<Rightarrow>
          if found then (ReverseMapTargetName c before, TrimSpace after) else (defaultGroup, v))"

definition MapTargetName :: "JsGazelleConfig \<Rightarrow> string \<Rightarrow> string" where
  "MapTargetName c name =
     (case map_of (jc_targetNamingOverrides c) name of
        Some n \<Rightarrow> if n \<noteq> '''' then n else name
      | None \<Rightarrow> name)"

definition RenderNpmPackageTargetName :: "JsGazelleConfig \<Rightarrow> string \<Rightarrow> string" where
  "RenderNpmPackageTargetName c packageName =
     renderTargetName (jc_npmPackageNamingConvention c) packageName"

definition RenderTsProtoLibraryName :: "JsGazelleConfig \<Rightarrow> string \<Rightarrow> string" where
  "RenderTsProtoLibraryName c protoLibraryName =
     ReplaceAll (jc_tsProtoLibraryName c) ProtoNameVar protoLibraryName"

definition RenderTsConfigName :: "string \<Rightarrow> string" where
  "RenderTsConfigName tsconfigName =
     ReplaceAll (TrimSuffix (path_Base tsconfigName) ''.json'') ''.'' ''_''"

definition RenderSourceTargetName :: "JsGazelleConfig \<Rightarrow> string \<Rightarrow> string \<Rightarrow> bool \<Rightarrow> string" where
  "RenderSourceTargetName c groupName packageName hasPackageTarget =
     (let mappedGroupName = MapTargetName c groupName;
          ruleName = renderTargetName mappedGroupName packageName
      in if hasPackageTarget \<and> groupName = DefaultLibraryName \<and> mappedGroupName = DefaultLibraryName
         then (if ruleName = RenderNpmPackageTargetName c packageName
               then ruleName @ PackageSrcSuffix else ruleName)
         else ruleName)"

section \<open>Lemmas\<close>

lemma find_update_target:
  assumes "\<And>t. tg_name (f t) = tg_name t"
  shows "find (\<lambda>t. tg_name t = m) (update_target n f ts) =
    (if m = n then map_option f (find (\<lambda>t. tg_name t = m) ts) else find (\<lambda>t. tg_name t = m) ts)"
  by (induction ts) (auto simp: assms)

lemma names_update_target:
  assumes "\<And>t. tg_name (f t) = tg_name t"
  shows "map tg_name (update_target n f ts) = map tg_name ts"
  by (induction ts) (auto simp: assms)

lemma GetSourceTarget_with_target:
  assumes "\<And>t. tg_name (f t) = tg_name t"
  shows "GetSourceTarget (with_target n f c) m =
    (if m = n then map_option f (GetSourceTarget c m) else GetSourceTarget c m)"
  by (simp add: GetSourceTarget_def with_target_def find_update_target [OF assms])

lemma GetSourceTarget_name: "GetSourceTarget c n = Some t \<Longrightarrow> tg_name t = n"
  by (auto simp: GetSourceTarget_def find_Some_iff)

lemma GetSourceTarget_mem: "GetSourceTarget c n \<noteq> None \<longleftrightarrow> n \<in> tg_name ` set (jc_targets c)"
  by (auto simp: GetSourceTarget_def find_None_iff)

lemma newChild_simps [simp]:
  "tg_name (newChild g) = tg_name g" "tg_testonly (newChild g) = tg_testonly g"
  "tg_visibility (newChild g) = tg_visibility g"
  "sourceGlobs (newChild g) = sourceGlobs g" "assetGlobs (newChild g) = assetGlobs g"
  by (simp_all add: newChild_def sourceGlobs_def assetGlobs_def)

lemma find_map_newChild:
  "find (\<lambda>t. tg_name t = n) (map newChild ts) = map_option newChild (find (\<lambda>t. tg_name t = n) ts)"
  by (induction ts) auto

lemma GetSourceTarget_child [simp]:
  "GetSourceTarget (child_of c p) n = map_option newChild (GetSourceTarget c n)"
  by (simp add: GetSourceTarget_def child_of_def find_map_newChild)

lemma child_settings:
  "jc_generationEnabled (child_of c p) = jc_generationEnabled c"
  "jc_protoMode (child_of c p) = jc_protoMode c"
  "jc_groupTsConfigs (child_of c p) = jc_groupTsConfigs c"
  "jc_collectAssetImports (child_of c p) = jc_collectAssetImports c"
  "jc_collectAssetJsx (child_of c p) = jc_collectAssetJsx c"
  "jc_collectAssetURL (child_of c p) = jc_collectAssetURL c"
  "jc_targetNamingOverrides (child_of c p) = jc_targetNamingOverrides c"
  "jc_npmPackageNamingConvention (child_of c p) = jc_npmPackageNamingConvention c"
  by (simp_all add: child_of_def)

text \<open>What the settings of a configuration answer for a group, a property and a package.\<close>

definition same_answers :: "JsGazelleConfig \<Rightarrow> JsGazelleConfig \<Rightarrow> bool" where
  "same_answers c c' \<longleftrightarrow>
     (\<forall>g. GetTsConfigGenerationEnabled c g = GetTsConfigGenerationEnabled c' g) \<and>
     (\<forall>g p. IsTsConfigIgnored c g p = IsTsConfigIgnored c' g p) \<and>
     (\<forall>g pkg b. RenderSourceTargetName c g pkg b = RenderSourceTargetName c' g pkg b) \<and>
     (\<forall>pkg. RenderNpmPackageTargetName c pkg = RenderNpmPackageTargetName c' pkg) \<and>
     (\<forall>n. ReverseMapTargetName c n = ReverseMapTargetName c' n) \<and>
     (\<forall>k. CollectAssetsFrom c k = CollectAssetsFrom c' k) \<and>
     TsConfigGroupNames c = TsConfigGroupNames c' \<and>
     ProtoTsTargetGenerationEnabled c = ProtoTsTargetGenerationEnabled c' \<and>
     ProtoAspectEnabled c = ProtoAspectEnabled c'"

definition group_answers :: "TargetGroup \<Rightarrow> string list \<times> string list \<times> label list \<times> bool" where
  "group_answers g = (sourceGlobs g, assetGlobs g, tg_visibility g, tg_testonly g)"

text \<open>
  A sub-directory without directives is configured like its parent: every group
  has the same effective source globs, asset globs, visibility and testonly mark, all settings
  answer the same, and the same imports are ignored and resolved to the same labels, although
  the child starts with empty lists of its own.
\<close>

theorem child_inherits:
  "IsImportIgnored (NewChild (c # cs) p) i = IsImportIgnored (c # cs) i \<and>
   GetResolution (NewChild (c # cs) p) i = GetResolution (c # cs) i \<and>
   same_answers (hd (NewChild (c # cs) p)) c \<and>
   map tg_name (jc_targets (hd (NewChild (c # cs) p))) = map tg_name (jc_targets c) \<and>
   map_option group_answers (GetSourceTarget (hd (NewChild (c # cs) p)) g) =
     map_option group_answers (GetSourceTarget c g)"
proof -
  have "same_answers (child_of c p) c"
    unfolding same_answers_def GetTsConfigGenerationEnabled_def IsTsConfigIgnored_def
      RenderSourceTargetName_def RenderNpmPackageTargetName_def MapTargetName_def
      ReverseMapTargetName_def CollectAssetsFrom_def TsConfigGroupNames_def
      ProtoTsTargetGenerationEnabled_def ProtoAspectEnabled_def child_settings
    by simp
  moreover have "jc_ignoreDependencies (child_of c p) = []" "jc_resolves (child_of c p) = []"
    by (simp_all add: child_of_def)
  moreover have "map tg_name (jc_targets (child_of c p)) = map tg_name (jc_targets c)"
    by (simp add: child_of_def)
  moreover have "map_option group_answers (GetSourceTarget (child_of c p) g) =
      map_option group_answers (GetSourceTarget c g)"
    by (cases "GetSourceTarget c g") (simp_all add: group_answers_def)
  ultimately show ?thesis by (simp add: NewChild_def split: option.splits)
qed

section \<open>Target names\<close>

text \<open>
  The default library never takes the name of the npm package target beside it: it
  moves to the name with the package source suffix exactly when the two rendered names agree; a
  library that was renamed keeps its name.
\<close>

theorem library_name_avoids_package:
  "(MapTargetName c DefaultLibraryName = DefaultLibraryName \<longrightarrow>
      RenderSourceTargetName c DefaultLibraryName pkg True \<noteq> RenderNpmPackageTargetName c pkg \<and>
      RenderSourceTargetName c DefaultLibraryName pkg True =
        (if renderTargetName DefaultLibraryName pkg = RenderNpmPackageTargetName c pkg
         then renderTargetName DefaultLibraryName pkg @ PackageSrcSuffix
         else renderTargetName DefaultLibraryName pkg)) \<and>
   (MapTargetName c g \<noteq> DefaultLibraryName \<longrightarrow>
      RenderSourceTargetName c g pkg b = renderTargetName (MapTargetName c g) pkg)"
  by (auto simp: RenderSourceTargetName_def Let_def PackageSrcSuffix_def)

text \<open>The rendered default name is the package name.\<close>

lemma render_default_library: "renderTargetName DefaultLibraryName pkg = pkg"
  using ReplaceAll_head [of TargetNameDirectoryVar "[]" pkg]
  by (simp add: renderTargetName_def DefaultLibraryName_def TargetNameDirectoryVar_def)

theorem library_name_avoids_package_witness:
  "RenderSourceTargetName newRootConfig DefaultLibraryName ''core'' True = ''core_lib''"
  using library_name_avoids_package [of newRootConfig "''core''" DefaultLibraryName True]
    render_default_library [of "''core''"]
  by (simp add: MapTargetName_def newRootConfig_def RenderNpmPackageTargetName_def
      DefaultNpmPackageTargetName_def DefaultLibraryName_def PackageSrcSuffix_def)

text \<open>
  Group names are written in directives as the renamed targets. The overrides are unambiguous
  when no two groups are renamed alike.
\<close>

definition unambiguous :: "(string, string) gomap \<Rightarrow> bool" where
  "unambiguous m \<longleftrightarrow> al_wf m \<and> distinct (map snd m) \<and> [] \<notin> snd ` set m"

lemma find_override:
  assumes "al_wf m" "distinct (map snd m)" "map_of m n = Some v"
  shows "find (\<lambda>(name, override). override = v) m = Some (n, v)"
  using assms unfolding al_wf_def
proof (induction m)
  case (Cons e m)
  then show ?case by (cases e) (auto dest!: map_of_SomeD simp: image_iff split: if_splits)
qed simp

lemma find_no_override: "v \<notin> snd ` set m \<Longrightarrow> find (\<lambda>(name, override). override = v) m = None"
  by (auto simp: find_None_iff image_iff)

lemma overridden_value: "al_wf m \<Longrightarrow> v \<in> snd ` set m \<Longrightarrow> \<exists>n. map_of m n = Some v"
  by (auto simp: al_wf_def intro: map_of_is_SomeI)

text \<open>
  With unambiguous naming overrides a group name is recovered from the name its
  target is renamed to, so directives that address a group by its target name reach that group,
  and a target name from its group; the only names left out are a default name that another
  group was renamed to, and the default name of a renamed group.
\<close>

theorem target_name_roundtrip:
  assumes "unambiguous (jc_targetNamingOverrides c)"
  shows "(n \<notin> snd ` set (jc_targetNamingOverrides c) \<or> map_of (jc_targetNamingOverrides c) n \<noteq> None \<longrightarrow>
            ReverseMapTargetName c (MapTargetName c n) = n) \<and>
         (v \<in> snd ` set (jc_targetNamingOverrides c) \<or> map_of (jc_targetNamingOverrides c) v = None \<longrightarrow>
            MapTargetName c (ReverseMapTargetName c v) = v)"
proof (intro conjI impI)
  let ?m = "jc_targetNamingOverrides c"
  have wf: "al_wf ?m" "distinct (map snd ?m)" "[] \<notin> snd ` set ?m"
    using assms by (auto simp: unambiguous_def)
  note there = find_override [OF wf(1,2)]
  have set: "map_of ?m k = Some w \<Longrightarrow> w \<noteq> [] \<and> w \<in> snd ` set ?m" for k w
    using wf(3) by (force dest: map_of_SomeD)
  show "ReverseMapTargetName c (MapTargetName c n) = n" if "n \<notin> snd ` set ?m \<or> map_of ?m n \<noteq> None"
  proof (cases "map_of ?m n")
    case None
    with that find_no_override [of n ?m] show ?thesis
      by (simp add: ReverseMapTargetName_def MapTargetName_def)
  next
    case (Some w)
    with set [OF Some] there [OF Some] show ?thesis
      by (simp add: ReverseMapTargetName_def MapTargetName_def)
  qed
  show "MapTargetName c (ReverseMapTargetName c v) = v" if "v \<in> snd ` set ?m \<or> map_of ?m v = None"
  proof (cases "v \<in> snd ` set ?m")
    case True
    then obtain k where k: "map_of ?m k = Some v" using overridden_value [OF wf(1)] by blast
    with set [OF k] there [OF k] show ?thesis
      by (simp add: ReverseMapTargetName_def MapTargetName_def)
  next
    case False
    with that find_no_override [of v ?m] show ?thesis
      by (simp add: ReverseMapTargetName_def MapTargetName_def)
  qed
qed

theorem target_name_roundtrip_witness:
  "let c = SetTestsNamingLibraryConvention ''specs'' (SetLibraryNamingConvention ''lib'' newRootConfig) in
     ReverseMapTargetName c (MapTargetName c DefaultTestsName) = DefaultTestsName \<and>
     MapTargetName c (ReverseMapTargetName c ''lib'') = ''lib'' \<and> MapTargetName c DefaultLibraryName = ''lib''"
proof -
  let ?c = "SetTestsNamingLibraryConvention ''specs'' (SetLibraryNamingConvention ''lib'' newRootConfig)"
  have m: "jc_targetNamingOverrides ?c = [(''{dirname}'', ''lib''), (''{dirname}_tests'', ''specs'')]"
    by (simp add: SetTestsNamingLibraryConvention_def SetLibraryNamingConvention_def newRootConfig_def
        DefaultLibraryName_def DefaultTestsName_def TargetNameDirectoryVar_def)
  have "unambiguous (jc_targetNamingOverrides ?c)"
    unfolding m by (simp add: unambiguous_def al_wf_def)
  from target_name_roundtrip [OF this, of DefaultTestsName "''lib''"] m show ?thesis
    by (simp add: Let_def DefaultTestsName_def TargetNameDirectoryVar_def MapTargetName_def
        DefaultLibraryName_def)
qed

text \<open>With two groups renamed alike the group found depends on the iteration order of the map.\<close>

lemma ambiguous_override_order:
  "let m = [(DefaultLibraryName, v), (DefaultTestsName, v)] in
     same_map m (rev m) \<and>
     ReverseMapTargetName (c\<lparr>jc_targetNamingOverrides := m\<rparr>) v = DefaultLibraryName \<and>
     ReverseMapTargetName (c\<lparr>jc_targetNamingOverrides := rev m\<rparr>) v = DefaultTestsName"
  by (simp add: same_map_def al_wf_def ReverseMapTargetName_def DefaultLibraryName_def
      DefaultTestsName_def insert_commute)

end
