(* ===== verification/Directives.thy ===== *)
theory Directives
  imports Go_Strings
begin

text \<open>
  Reading of directives, shared by the language extensions: the switch values of
  \<open>common/directives.go\<close>, and the loop over the directives of a build file, whose body may
  return early or end the process. The locale states what such a loop keeps when every step
  keeps it.
\<close>

record directive =
  d_key :: string
  d_value :: string

definition ReadEnabled :: "directive \<Rightarrow> bool outcome" where
  "ReadEnabled d =
     (if TrimSpace (d_value d) = ''enabled'' then Inr True
      else if TrimSpace (d_value d) = ''disabled'' then Inr False
      else Inl (Fatal (d_value d)))"

text \<open>How the body of the loop ends: with the next state, or by returning from the function.\<close>

datatype 's loop_step = Next 's | Return 's

fun final_state :: "'s loop_step \<Rightarrow> 's" where
  "final_state (Next s) = s"
| "final_state (Return s) = s"

fun read_all :: "('s \<Rightarrow> directive \<Rightarrow> 's loop_step outcome) \<Rightarrow> 's \<Rightarrow> directive list \<Rightarrow> 's loop_step outcome" where
  "read_all step s [] = Inr (Next s)"
| "read_all step s (d # ds) =
     (case step s d of
        Inl e \<Rightarrow> Inl e
      | Inr (Next s') \<Rightarrow> read_all step s' ds
      | Inr (Return s') \<Rightarrow> Inr (Return s'))"

lemma read_all_append:
  "read_all step s (ds @ es) =
     (case read_all step s ds of
        Inl e \<Rightarrow> Inl e
      | Inr (Next s') \<Rightarrow> read_all step s' es
      | Inr (Return s') \<Rightarrow> Inr (Return s'))"
  by (induction step s ds rule: read_all.induct) (auto split: sum.splits loop_step.splits)

text \<open>A loop that did not run to its end stopped at one directive and ignored the later ones.\<close>

lemma read_all_return_iff:
  "read_all step s ds = Inr (Return s') \<longleftrightarrow>
     (\<exists>us d vs s1. ds = us @ d # vs \<and> read_all step s us = Inr (Next s1) \<and> step s1 d = Inr (Return s'))"
proof
  assume "read_all step s ds = Inr (Return s')"
  then show "\<exists>us d vs s1. ds = us @ d # vs \<and> read_all step s us = Inr (Next s1) \<and> step s1 d = Inr (Return s')"
  proof (induction ds arbitrary: s)
    case (Cons d ds)
    from Cons.prems consider (now) "step s d = Inr (Return s')"
      | (later) s1 where "step s d = Inr (Next s1)" "read_all step s1 ds = Inr (Return s')"
      by (auto split: sum.splits loop_step.splits)
    then show ?case
    proof cases
      case now
      then show ?thesis by (intro exI [of _ "[]"] exI [of _ d] exI [of _ ds] exI [of _ s]) simp
    next
      case later
      from Cons.IH [OF later(2)] obtain us d' vs s2 where
        "ds = us @ d' # vs" "read_all step s1 us = Inr (Next s2)" "step s2 d' = Inr (Return s')" by blast
      with later(1) show ?thesis
        by (intro exI [of _ "d # us"] exI [of _ d'] exI [of _ vs] exI [of _ s2]) simp
    qed
  qed simp
qed (auto simp: read_all_append)

lemma read_all_stop_iff:
  "read_all step s ds = Inl e \<longleftrightarrow>
     (\<exists>us d vs s1. ds = us @ d # vs \<and> read_all step s us = Inr (Next s1) \<and> step s1 d = Inl e)"
proof
  assume "read_all step s ds = Inl e"
  then show "\<exists>us d vs s1. ds = us @ d # vs \<and> read_all step s us = Inr (Next s1) \<and> step s1 d = Inl e"
  proof (induction ds arbitrary: s)
    case (Cons d ds)
    from Cons.prems consider (now) "step s d = Inl e"
      | (later) s1 where "step s d = Inr (Next s1)" "read_all step s1 ds = Inl e"
      by (auto split: sum.splits loop_step.splits)
    then show ?case
    proof cases
      case now
      then show ?thesis by (intro exI [of _ "[]"] exI [of _ d] exI [of _ ds] exI [of _ s]) simp
    next
      case later
      from Cons.IH [OF later(2)] obtain us d' vs s2 where
        "ds = us @ d' # vs" "read_all step s1 us = Inr (Next s2)" "step s2 d' = Inl e" by blast
      with later(1) show ?thesis
        by (intro exI [of _ "d # us"] exI [of _ d'] exI [of _ vs] exI [of _ s2]) simp
    qed
  qed simp
qed (auto simp: read_all_append)

locale directive_reader =
  fixes step :: "'s \<Rightarrow> directive \<Rightarrow> 's loop_step outcome"
    and inv :: "'s \<Rightarrow> 's \<Rightarrow> bool"
  assumes inv_refl: "inv s s"
    and inv_trans: "inv s t \<Longrightarrow> inv t u \<Longrightarrow> inv s u"
    and step_inv: "step s d = Inr r \<Longrightarrow> inv s (final_state r)"
begin

lemma read_all_inv: "read_all step s ds = Inr r \<Longrightarrow> inv s (final_state r)"
proof (induction ds arbitrary: s)
  case Nil
  then show ?case by (auto simp: inv_refl)
next
  case (Cons d ds)
  from Cons.prems consider (stop) s1 where "step s d = Inr (Return s1)" "r = Return s1"
    | (go) s1 where "step s d = Inr (Next s1)" "read_all step s1 ds = Inr r"
    by (auto split: sum.splits loop_step.splits)
  then show ?case
  proof cases
    case stop
    with step_inv [OF stop(1)] show ?thesis by simp
  next
    case go
    with step_inv [OF go(1)] Cons.IH [OF go(2)] show ?thesis by (auto intro: inv_trans)
  qed
qed

end

end
