(* ===== verification/Tsconfig.thy ===== *)
theory Tsconfig
  imports Comparators Go_Path
begin

text \<open>
  Typescript configuration files (\<open>language/js/typescript/tsconfig.go\<close>): the decoded file, the
  parsed configuration with what it inherits through \<open>extends\<close>, the loader with its cache of
  parsed files and its guard against recursion, and the expansion of import paths. Opening a
  file and decoding its text are parameters of the loader.
\<close>

section \<open>Data\<close>

record tsCompilerOptionsJSON =
  o_AllowJs :: "bool option"
  o_Composite :: "bool option"
  o_Declaration :: "bool option"
  o_DeclarationDir :: "string option"
  o_DeclarationMap :: "bool option"
  o_DeclarationOnly :: "bool option"
  o_Incremental :: "bool option"
  o_IsolatedDeclarations :: "bool option"
  o_TsBuildInfoFile :: "string option"
  o_SourceMap :: "bool option"
  o_ResolveJsonModule :: "bool option"
  o_NoEmit :: "bool option"
  o_OutDir :: "string option"
  o_RootDir :: "string option"
  o_RootDirs :: "string list option"
  o_BaseUrl :: "string option"
  o_Paths :: "(string, string list) gomap option"
  o_Types :: "string list option"
  o_JSX :: "string option"
  o_ImportHelpers :: "bool option"

record tsConfigJSON =
  c_Extends :: "string list"
  c_CompilerOptions :: tsCompilerOptionsJSON
  c_References :: "string list option"

record TsConfigPaths =
  tp_Rel :: string
  tp_Map :: "(string, string list) gomap"

record tsConfigExplicit =
  set_rootDir :: bool
  set_outDir :: bool
  set_baseUrl :: bool
  set_tsBuildInfoFile :: bool
  set_importHelpers :: bool
  set_paths :: bool

record TsConfig =
  ConfigDir :: string
  ConfigName :: string
  AllowJs :: "bool option"
  ResolveJsonModule :: "bool option"
  Composite :: "bool option"
  Declaration :: "bool option"
  DeclarationDir :: "string option"
  DeclarationMap :: "bool option"
  DeclarationOnly :: "bool option"
  Incremental :: "bool option"
  TsBuildInfoFile :: string
  SourceMap :: "bool option"
  NoEmit :: "bool option"
  OutDir :: string
  RootDir :: string
  BaseUrl :: string
  VirtualRootDirs :: "string list option"
  Paths :: TsConfigPaths
  ImportHelpers :: bool
  IsolatedDeclarations :: "bool option"
  Jsx :: string
  Types :: "string list"
  Extends :: "string list"
  References :: "string list"
  explicit :: tsConfigExplicit

definition JsxNone :: string where
  "JsxNone = ''none''"

definition IsReact :: "string \<Rightarrow> bool" where
  "IsReact s = (s = ''react'' \<or> HasPrefix s ''react-'')"

definition DefaultConfigPaths :: TsConfigPaths where
  "DefaultConfigPaths = \<lparr>tp_Rel = ''.'', tp_Map = []\<rparr>"

definition expandConfigDirPath :: "string \<Rightarrow> string" where
  "expandConfigDirPath value = Clean (ReplaceAll value ''${configDir}'' ''.'')"

definition expandConfigDirFile :: "string \<Rightarrow> string" where
  "expandConfigDirFile value =
     (if value = '''' then value else Clean (ReplaceAll value ''${configDir}'' ''.''))"

definition isRelativePath :: "string \<Rightarrow> bool" where
  "isRelativePath p =
     (if p = '''' \<or> hd p = slash then False
      else hd p = CHR ''.'' \<and>
           (p = ''.'' \<or> p = ''..'' \<or> HasPrefix p ''./'' \<or> HasPrefix p ''../''))"

section \<open>Merging base configurations\<close>

text \<open>A nullable field: the right value, if set, else the left one.\<close>

definition override :: "'a option \<Rightarrow> 'a option \<Rightarrow> 'a option" where
  "override r l = (case r of Some v \<Rightarrow> Some v | None \<Rightarrow> l)"

definition rel_or_dot :: "string \<Rightarrow> string \<Rightarrow> string" where
  "rel_or_dot from_dir to_dir = (case filepath_Rel from_dir to_dir of Some r \<Rightarrow> r | None \<Rightarrow> ''.'')"

definition rebase_paths :: "string \<Rightarrow> TsConfigPaths \<Rightarrow> TsConfigPaths" where
  "rebase_paths rel p = \<lparr>tp_Rel = path_join [rel, tp_Rel p], tp_Map = tp_Map p\<rparr>"

definition mergeBaseConfigs :: "TsConfig \<Rightarrow> TsConfig \<Rightarrow> string \<Rightarrow> TsConfig" where
  "mergeBaseConfigs left right currentConfigDir =
     (let leftRel = rel_or_dot currentConfigDir (ConfigDir left);
          rightRel = rel_or_dot currentConfigDir (ConfigDir right);
          ls = explicit left; rs = explicit right
      in \<lparr>ConfigDir = currentConfigDir,
          ConfigName = ConfigName left,
          AllowJs = override (AllowJs right) (AllowJs left),
          ResolveJsonModule = override (ResolveJsonModule right) (ResolveJsonModule left),
          Composite = override (Composite right) (Composite left),
          Declaration = override (Declaration right) (Declaration left),
          DeclarationDir = override (DeclarationDir right) (DeclarationDir left),
          DeclarationMap = override (DeclarationMap right) (DeclarationMap left),
          DeclarationOnly = override (DeclarationOnly right) (DeclarationOnly left),
          Incremental = override (Incremental right) (Incremental left),
          TsBuildInfoFile =
            (if set_tsBuildInfoFile rs then TsBuildInfoFile right else TsBuildInfoFile left),
          SourceMap = override (SourceMap right) (SourceMap left),
          NoEmit = override (NoEmit right) (NoEmit left),
          OutDir = (if set_outDir rs then OutDir right else OutDir left),
          RootDir = (if set_rootDir rs then RootDir right else RootDir left),
          BaseUrl = (if set_baseUrl rs then BaseUrl right else BaseUrl left),
          VirtualRootDirs =
            (case VirtualRootDirs right of
               Some ds \<Rightarrow> Some (map (\<lambda>d. path_join [rightRel, d]) ds)
             | None \<Rightarrow> map_option (map (\<lambda>d. path_join [leftRel, d])) (VirtualRootDirs left)),
          Paths =
            (if set_paths rs then rebase_paths rightRel (Paths right)
             else if set_paths ls then rebase_paths leftRel (Paths left)
             else DefaultConfigPaths),
          ImportHelpers = (if set_importHelpers rs then ImportHelpers right else ImportHelpers left),
          IsolatedDeclarations = override (IsolatedDeclarations right) (IsolatedDeclarations left),
          Jsx = (if Jsx right = JsxNone then Jsx left else Jsx right),
          Types = [], Extends = [], References = [],
          explicit =
            \<lparr>set_rootDir = (set_rootDir rs \<or> set_rootDir ls),
             set_outDir = (set_outDir rs \<or> set_outDir ls),
             set_baseUrl = (set_baseUrl rs \<or> set_baseUrl ls),
             set_tsBuildInfoFile = (set_tsBuildInfoFile rs \<or> set_tsBuildInfoFile ls),
             set_importHelpers = (set_importHelpers rs \<or> set_importHelpers ls),
             set_paths = (set_paths rs \<or> set_paths ls)\<rparr>\<rparr>)"

text \<open>The bases of one file, merged in order.\<close>

definition merge_bases :: "TsConfig list \<Rightarrow> string \<Rightarrow> TsConfig option" where
  "merge_bases bases configDir =
     (case bases of
        [] \<Rightarrow> None
      | b # bs \<Rightarrow> Some (foldl (\<lambda>acc r. mergeBaseConfigs acc r configDir) b bs))"

section \<open>One file\<close>

text \<open>An option of the file, else what the base has.\<close>

definition inherit :: "'a option \<Rightarrow> TsConfig option \<Rightarrow> (TsConfig \<Rightarrow> 'a option) \<Rightarrow> 'a option" where
  "inherit own baseConfig f =
     (case own of
        Some v \<Rightarrow> Some v
      | None \<Rightarrow> (case baseConfig of None \<Rightarrow> None | Some b \<Rightarrow> f b))"

text \<open>A value with its explicit mark: the file's own, the base's, or the default.\<close>

definition inherit_set ::
  "'a option \<Rightarrow> TsConfig option \<Rightarrow> (TsConfig \<Rightarrow> 'a) \<Rightarrow> (tsConfigExplicit \<Rightarrow> bool) \<Rightarrow> 'a \<Rightarrow> 'a \<times> bool" where
  "inherit_set own baseConfig f isset dflt =
     (case own of
        Some v \<Rightarrow> (v, True)
      | None \<Rightarrow>
        (case baseConfig of None \<Rightarrow> (dflt, False) | Some b \<Rightarrow> (f b, isset (explicit b))))"

definition base_url ::
  "tsCompilerOptionsJSON \<Rightarrow> TsConfig option \<Rightarrow> string \<Rightarrow> string \<times> bool" where
  "base_url opts baseConfig baseConfigRel =
     (case o_BaseUrl opts of
        Some u \<Rightarrow> (expandConfigDirPath u, True)
      | None \<Rightarrow>
        (case baseConfig of
           Some b \<Rightarrow>
             if set_baseUrl (explicit b) then (path_join [baseConfigRel, BaseUrl b], True)
             else (''.'', False)
         | None \<Rightarrow> (''.'', False)))"

definition config_paths ::
  "tsCompilerOptionsJSON \<Rightarrow> TsConfig option \<Rightarrow> string \<Rightarrow> string \<Rightarrow> TsConfigPaths \<times> bool" where
  "config_paths opts baseConfig baseConfigRel baseUrl =
     (case o_Paths opts of
        Some m \<Rightarrow> (\<lparr>tp_Rel = baseUrl, tp_Map = m\<rparr>, True)
      | None \<Rightarrow>
        (case baseConfig of
           Some b \<Rightarrow> (rebase_paths baseConfigRel (Paths b), set_paths (explicit b))
         | None \<Rightarrow> (DefaultConfigPaths, False)))"

definition root_dirs ::
  "tsCompilerOptionsJSON \<Rightarrow> TsConfig option \<Rightarrow> string \<Rightarrow> string list option" where
  "root_dirs opts baseConfig baseConfigRel =
     (case o_RootDirs opts of
        Some ds \<Rightarrow> Some (map Clean ds)
      | None \<Rightarrow>
        (case baseConfig of
           Some b \<Rightarrow> map_option (map (\<lambda>d. path_join [baseConfigRel, d])) (VirtualRootDirs b)
         | None \<Rightarrow> None))"

text \<open>The part of \<open>parseTsConfigJSON\<close> after the bases are loaded.\<close>

definition build_config ::
  "tsConfigJSON \<Rightarrow> string \<Rightarrow> string \<Rightarrow> string list \<Rightarrow> TsConfig option \<Rightarrow> TsConfig" where
  "build_config c configDir configName extends baseConfig =
     (let opts = c_CompilerOptions c;
          types = (case o_Types opts of Some ts \<Rightarrow> ts | None \<Rightarrow> []);
          references = (case c_References c of
              Some rs \<Rightarrow> map (\<lambda>r. path_join [configDir, r]) (filter (\<lambda>r. r \<noteq> '''') rs) | None \<Rightarrow> []);
          baseConfigRel = (case baseConfig of
              None \<Rightarrow> ''.'' | Some b \<Rightarrow> rel_or_dot configDir (ConfigDir b));
          buildInfo = inherit_set (map_option expandConfigDirFile (o_TsBuildInfoFile opts)) baseConfig
              TsBuildInfoFile set_tsBuildInfoFile '''';
          rootDir = inherit_set (map_option expandConfigDirPath (o_RootDir opts)) baseConfig
              RootDir set_rootDir ''.'';
          outDir = inherit_set (map_option expandConfigDirPath (o_OutDir opts)) baseConfig
              OutDir set_outDir ''.'';
          baseUrl = base_url opts baseConfig baseConfigRel;
          paths = config_paths opts baseConfig baseConfigRel (fst baseUrl);
          helpers = inherit_set (o_ImportHelpers opts) baseConfig ImportHelpers set_importHelpers False
      in \<lparr>ConfigDir = configDir, ConfigName = configName,
          AllowJs = inherit (o_AllowJs opts) baseConfig AllowJs,
          ResolveJsonModule = inherit (o_ResolveJsonModule opts) baseConfig ResolveJsonModule,
          Composite = inherit (o_Composite opts) baseConfig Composite,
          Declaration = inherit (o_Declaration opts) baseConfig Declaration,
          DeclarationDir =
            inherit (map_option expandConfigDirPath (o_DeclarationDir opts)) baseConfig DeclarationDir,
          DeclarationMap = inherit (o_DeclarationMap opts) baseConfig DeclarationMap,
          DeclarationOnly = inherit (o_DeclarationOnly opts) baseConfig DeclarationOnly,
          Incremental = inherit (o_Incremental opts) baseConfig Incremental,
          TsBuildInfoFile = fst buildInfo,
          SourceMap = inherit (o_SourceMap opts) baseConfig SourceMap,
          NoEmit = inherit (o_NoEmit opts) baseConfig NoEmit,
          OutDir = fst outDir, RootDir = fst rootDir, BaseUrl = fst baseUrl,
          VirtualRootDirs = root_dirs opts baseConfig baseConfigRel,
          Paths = fst paths,
          ImportHelpers = fst helpers,
          IsolatedDeclarations = inherit (o_IsolatedDeclarations opts) baseConfig IsolatedDeclarations,
          Jsx = (case inherit (o_JSX opts) baseConfig (\<lambda>b. Some (Jsx b)) of
                   Some j \<Rightarrow> j | None \<Rightarrow> JsxNone),
          Types = types, Extends = extends, References = references,
          explicit = \<lparr>set_rootDir = snd rootDir, set_outDir = snd outDir, set_baseUrl = snd baseUrl,
             set_tsBuildInfoFile = snd buildInfo, set_importHelpers = snd helpers,
             set_paths = snd paths\<rparr>\<rparr>)"

section \<open>The loader\<close>

text \<open>A slot of the cache: the invalid sentinel (in progress or failed), or a parsed file.\<close>

datatype slot = InvalidTsconfig | Parsed TsConfig

type_synonym parsed_map = "string \<rightharpoonup> slot"

record ts_env =
  te_open :: "string \<Rightarrow> string + string"
  te_unmarshal :: "string \<Rightarrow> string + tsConfigJSON"
  te_resolver :: "string \<Rightarrow> string \<Rightarrow> string list"
  te_root :: string

type_synonym load_result = "(string + TsConfig option) \<times> parsed_map"

text \<open>Loading the first usable candidate of one \<open>extends\<close> entry.\<close>

fun load_potentials ::
  "(parsed_map \<Rightarrow> string \<Rightarrow> load_result option) \<Rightarrow> parsed_map \<Rightarrow> string list \<Rightarrow>
   (TsConfig option \<times> parsed_map) option" where
  "load_potentials load parsed [] = Some (None, parsed)"
| "load_potentials load parsed (potential # rest) =
     (if parsed potential = Some InvalidTsconfig then load_potentials load parsed rest
      else
        (case load parsed potential of
           None \<Rightarrow> None
         | Some (r, parsed') \<Rightarrow>
             (case r of
                Inl err \<Rightarrow> load_potentials load parsed' rest
              | Inr None \<Rightarrow> load_potentials load parsed' rest
              | Inr (Some base) \<Rightarrow> Some (Some base, parsed'))))"

text \<open>The recorded extends, the loaded bases and the cache.\<close>

fun load_bases ::
  "(parsed_map \<Rightarrow> string \<Rightarrow> load_result option) \<Rightarrow> (string \<Rightarrow> string list) \<Rightarrow> parsed_map \<Rightarrow>
   string list \<Rightarrow> (string list \<times> TsConfig list \<times> parsed_map) option" where
  "load_bases load resolve parsed [] = Some ([], [], parsed)"
| "load_bases load resolve parsed (ext # exts) =
     (if ext = '''' then load_bases load resolve parsed exts
      else
        (case load_potentials load parsed (resolve ext) of
           None \<Rightarrow> None
         | Some (base, parsed') \<Rightarrow>
             (case load_bases load resolve parsed' exts of
                None \<Rightarrow> None
              | Some (extends, bases, parsed'') \<Rightarrow>
                  Some (ext # extends, (case base of None \<Rightarrow> bases | Some b \<Rightarrow> b # bases), parsed''))))"

definition parseTsConfigJSON ::
  "ts_env \<Rightarrow> (parsed_map \<Rightarrow> string \<Rightarrow> load_result option) \<Rightarrow> parsed_map \<Rightarrow> string \<Rightarrow> string \<Rightarrow>
   ((string + TsConfig) \<times> parsed_map) option" where
  "parseTsConfigJSON env load parsed tsconfig tsconfigData =
     (case te_unmarshal env tsconfigData of
        Inl err \<Rightarrow> Some (Inl err, parsed)
      | Inr c \<Rightarrow>
        let configDir = path_Dir tsconfig; configName = path_Base tsconfig
        in (case load_bases load (te_resolver env configDir) parsed (c_Extends c) of
              None \<Rightarrow> None
            | Some (extends, bases, parsed') \<Rightarrow>
                Some (Inr (build_config c configDir configName extends (merge_bases bases configDir)),
                      parsed')))"

text \<open>\<open>None\<close>: the recursion did not end within the fuel.\<close>

primrec parseTsConfigJSONFile :: "nat \<Rightarrow> ts_env \<Rightarrow> parsed_map \<Rightarrow> string \<Rightarrow> load_result option" where
  "parseTsConfigJSONFile 0 = (\<lambda>env parsed tsconfig. None)"
| "parseTsConfigJSONFile (Suc n) = (\<lambda>env parsed tsconfig.
     (case parsed tsconfig of
        Some InvalidTsconfig \<Rightarrow> Some (Inr None, parsed)
      | Some (Parsed existing) \<Rightarrow> Some (Inr (Some existing), parsed)
      | None \<Rightarrow>
        let parsed1 = parsed(tsconfig \<mapsto> InvalidTsconfig)
        in (case te_open env (path_join [te_root env, tsconfig]) of
              Inl err \<Rightarrow> Some (Inl err, parsed1)
            | Inr tsconfigFile \<Rightarrow>
              (case parseTsConfigJSON env (parseTsConfigJSONFile n env) parsed1 tsconfig tsconfigFile of
                 None \<Rightarrow> None
               | Some (Inl err, parsed2) \<Rightarrow> Some (Inl err, parsed2)
               | Some (Inr config, parsed2) \<Rightarrow>
                   Some (Inr (Some config), parsed2(tsconfig \<mapsto> Parsed config))))))"

section \<open>Expanding import paths\<close>

definition cleanJoin3 :: "string \<Rightarrow> string \<Rightarrow> string \<Rightarrow> string" where
  "cleanJoin3 a b c =
     (let aEmpty = (a = '''' \<or> a = ''.''); bEmpty = (b = '''' \<or> b = ''.'')
      in if aEmpty \<and> bEmpty then Clean c
         else if aEmpty then Clean (b @ ''/'' @ c)
         else if bEmpty then Clean (a @ ''/'' @ c)
         else Clean (a @ ''/'' @ b @ ''/'' @ c))"

definition expandBaseUrl :: "TsConfig \<Rightarrow> string \<Rightarrow> string" where
  "expandBaseUrl c importPath =
     (if IsAbs importPath then cleanJoin3 '''' (BaseUrl c) importPath
      else cleanJoin3 (ConfigDir c) (BaseUrl c) importPath)"

definition expandPathsMatch :: "TsConfig \<Rightarrow> string \<Rightarrow> string" where
  "expandPathsMatch c importPath =
     (if IsAbs importPath then cleanJoin3 '''' (tp_Rel (Paths c)) importPath
      else cleanJoin3 (ConfigDir c) (tp_Rel (Paths c)) importPath)"

record path_match =
  m_prefix :: string
  m_suffix :: string
  m_originalPaths :: "string list"

text \<open>\<open>Less\<close> of the sort interface, and the comparison it stands for.\<close>

definition match_Less :: "path_match \<Rightarrow> path_match \<Rightarrow> bool" where
  "match_Less a b =
     (length (m_prefix a) > length (m_prefix b) \<or>
      (length (m_prefix a) = length (m_prefix b) \<and> length (m_suffix a) > length (m_suffix b)))"

definition match_cmp :: "path_match \<Rightarrow> path_match \<Rightarrow> int" where
  "match_cmp a b = (if match_Less a b then -1 else if match_Less b a then 1 else 0)"

definition possible_match :: "string \<Rightarrow> string \<times> string list \<Rightarrow> path_match list" where
  "possible_match p entry =
     (case entry of (key, originalPaths) \<Rightarrow>
      case CutByte key (CHR ''*'') of (pre, suf, ok) \<Rightarrow>
        if ok \<and> HasPrefix p pre \<and> HasSuffix p suf
        then [\<lparr>m_prefix = pre, m_suffix = suf, m_originalPaths = originalPaths\<rparr>] else [])"

text \<open>The expansions of one match; the slice of the matched text can be out of range.\<close>

definition expand_match :: "TsConfig \<Rightarrow> string \<Rightarrow> path_match \<Rightarrow> string list outcome" where
  "expand_match c p m =
     (if m_originalPaths m = [] then Inr []
      else if length p < length (m_suffix m) + length (m_prefix m) then
        Inl (Panic ''slice bounds out of range'')
      else
        let matchedText = drop (length (m_prefix m)) (take (length p - length (m_suffix m)) p)
        in Inr (map (\<lambda>o_path. expandPathsMatch c (ReplaceFirst o_path ''*'' matchedText))
                  (m_originalPaths m)))"

fun expand_matches :: "TsConfig \<Rightarrow> string \<Rightarrow> path_match list \<Rightarrow> string list outcome" where
  "expand_matches c p [] = Inr []"
| "expand_matches c p (m # ms) =
     (case expand_match c p m of
        Inl e \<Rightarrow> Inl e
      | Inr xs \<Rightarrow> (case expand_matches c p ms of Inl e \<Rightarrow> Inl e | Inr ys \<Rightarrow> Inr (xs @ ys)))"

definition ExpandPaths :: "TsConfig \<Rightarrow> string \<Rightarrow> string \<Rightarrow> string list outcome" where
  "ExpandPaths c from_file p =
     (let pathMap = tp_Map (Paths c);
          exact = (case map_of pathMap p of Some xs \<Rightarrow> map (expandPathsMatch c) xs | None \<Rightarrow> []);
          possibleMatches = concat (map (possible_match p) pathMap);
          rest = (if \<not> isRelativePath p then [expandBaseUrl c p] else []) @
                 map (\<lambda>v. cleanJoin3 v '''' p)
                   (case VirtualRootDirs c of Some ds \<Rightarrow> ds | None \<Rightarrow> [])
      in (case expand_matches c p (SortFunc match_cmp possibleMatches) of
            Inl e \<Rightarrow> Inl e
          | Inr ms \<Rightarrow> Inr (exact @ ms @ rest)))"

section \<open>Lemmas: merging\<close>

text \<open>The nullable fields that merge alike.\<close>

definition nullable_fields :: "(TsConfig \<Rightarrow> bool option) list" where
  "nullable_fields = [AllowJs, ResolveJsonModule, Composite, Declaration, DeclarationMap,
     DeclarationOnly, Incremental, SourceMap, NoEmit, IsolatedDeclarations]"

text \<open>Where the \<open>paths\<close> of a configuration point, and the last of some that sets them.\<close>

definition paths_place :: "TsConfig \<Rightarrow> string \<times> (string, string list) gomap" where
  "paths_place c = (path_join [ConfigDir c, tp_Rel (Paths c)], tp_Map (Paths c))"

definition setting_paths :: "TsConfig \<Rightarrow> TsConfig option" where
  "setting_paths b = (if set_paths (explicit b) then Some b else None)"

lemma override_None [simp]: "override None l = l"
  by (simp add: override_def)

lemma merge_fields:
  "AllowJs (mergeBaseConfigs l r d) = override (AllowJs r) (AllowJs l)"
  "ResolveJsonModule (mergeBaseConfigs l r d) = override (ResolveJsonModule r) (ResolveJsonModule l)"
  "Composite (mergeBaseConfigs l r d) = override (Composite r) (Composite l)"
  "Declaration (mergeBaseConfigs l r d) = override (Declaration r) (Declaration l)"
  "DeclarationMap (mergeBaseConfigs l r d) = override (DeclarationMap r) (DeclarationMap l)"
  "DeclarationOnly (mergeBaseConfigs l r d) = override (DeclarationOnly r) (DeclarationOnly l)"
  "Incremental (mergeBaseConfigs l r d) = override (Incremental r) (Incremental l)"
  "SourceMap (mergeBaseConfigs l r d) = override (SourceMap r) (SourceMap l)"
  "NoEmit (mergeBaseConfigs l r d) = override (NoEmit r) (NoEmit l)"
  "IsolatedDeclarations (mergeBaseConfigs l r d) =
     override (IsolatedDeclarations r) (IsolatedDeclarations l)"
  unfolding mergeBaseConfigs_def Let_def by (simp_all only: TsConfig.select_convs)

lemma merge_nullable:
  assumes "f \<in> set nullable_fields"
  shows "f (mergeBaseConfigs l r d) = override (f r) (f l)"
proof -
  have "list_all (\<lambda>f. f (mergeBaseConfigs l r d) = override (f r) (f l)) nullable_fields"
    unfolding nullable_fields_def by (simp only: list.pred_inject merge_fields simp_thms)
  with assms show ?thesis by (simp only: list_all_iff)
qed

lemma merge_ConfigDir [simp]: "ConfigDir (mergeBaseConfigs l r d) = d"
  by (simp add: mergeBaseConfigs_def Let_def)

lemma merge_set_paths [simp]:
  "set_paths (explicit (mergeBaseConfigs l r d)) = (set_paths (explicit r) \<or> set_paths (explicit l))"
  by (simp add: mergeBaseConfigs_def Let_def)

lemma first_some_snoc_rev: "first_some f (rev (xs @ [x])) = override (f x) (first_some f (rev xs))"
  by (simp add: override_def)

lemma merge_bases_nullable:
  "f \<in> set nullable_fields \<Longrightarrow> merge_bases bs d = Some m \<Longrightarrow> f m = first_some f (rev bs)"
proof (induction bs arbitrary: m rule: rev_induct)
  case (snoc x xs)
  show ?case
  proof (cases xs)
    case Nil
    with snoc.prems show ?thesis by (simp add: merge_bases_def split: option.splits)
  next
    case (Cons y ys)
    then obtain m0 where m0: "merge_bases xs d = Some m0" by (simp add: merge_bases_def)
    with Cons snoc.prems(2) have "m = mergeBaseConfigs m0 x d" by (simp add: merge_bases_def)
    with snoc.IH [OF snoc.prems(1) m0] snoc.prems(1) show ?thesis
      unfolding first_some_snoc_rev by (simp add: merge_nullable)
  qed
qed (simp add: merge_bases_def)

text \<open>The directories of the bases can be reached from that of the file.\<close>

definition reachable_dir :: "string \<Rightarrow> TsConfig \<Rightarrow> bool" where
  "reachable_dir d b \<longleftrightarrow> ConfigDir b \<noteq> '''' \<and> filepath_Rel d (ConfigDir b) \<noteq> None"

lemma filepath_Rel_self: "filepath_Rel d d = Some ''.''"
  by (simp add: filepath_Rel_def)

lemma rebase_place:
  assumes "d \<noteq> ''''" "reachable_dir d b"
  shows "path_join [d, tp_Rel (rebase_paths (rel_or_dot d (ConfigDir b)) (Paths b))] =
         path_join [ConfigDir b, tp_Rel (Paths b)]"
proof -
  obtain r where "filepath_Rel d (ConfigDir b) = Some r"
    using assms(2) by (auto simp: reachable_dir_def)
  with rebase_same_place [OF this assms(1)] assms(2) show ?thesis
    by (simp add: rebase_paths_def rel_or_dot_def reachable_dir_def)
qed

lemma merge_paths_place:
  assumes "d \<noteq> ''''" "reachable_dir d l" "reachable_dir d r"
    and "set_paths (explicit r) \<or> set_paths (explicit l)"
  shows "paths_place (mergeBaseConfigs l r d) =
           paths_place (if set_paths (explicit r) then r else l)"
proof (cases "set_paths (explicit r)")
  case True
  with rebase_place [OF assms(1,3)] show ?thesis
    by (simp add: paths_place_def mergeBaseConfigs_def Let_def rebase_paths_def)
next
  case False
  with assms(4) rebase_place [OF assms(1,2)] show ?thesis
    by (simp add: paths_place_def mergeBaseConfigs_def Let_def rebase_paths_def)
qed

lemma merge_bases_paths:
  assumes "d \<noteq> ''''" "\<And>b. b \<in> set bs \<Longrightarrow> reachable_dir d b" "merge_bases bs d = Some m"
  shows "reachable_dir d m \<and>
    (case first_some setting_paths (rev bs) of
       None \<Rightarrow> \<not> set_paths (explicit m)
     | Some b \<Rightarrow> set_paths (explicit m) \<and> paths_place m = paths_place b)"
  using assms(2,3)
proof (induction bs arbitrary: m rule: rev_induct)
  case (snoc x xs)
  show ?case
  proof (cases xs)
    case Nil
    with snoc.prems show ?thesis
      by (auto simp: merge_bases_def setting_paths_def)
  next
    case (Cons y ys)
    then obtain m0 where m0: "merge_bases xs d = Some m0" by (simp add: merge_bases_def)
    with Cons snoc.prems(2) have m: "m = mergeBaseConfigs m0 x d" by (simp add: merge_bases_def)
    have IH: "reachable_dir d m0"
      "case first_some setting_paths (rev xs) of
         None \<Rightarrow> \<not> set_paths (explicit m0)
       | Some b \<Rightarrow> set_paths (explicit m0) \<and> paths_place m0 = paths_place b"
      using snoc.IH [OF _ m0] snoc.prems(1) by auto
    have x: "reachable_dir d x" using snoc.prems(1) by simp
    have "reachable_dir d m"
      using assms(1) by (simp add: m reachable_dir_def filepath_Rel_self)
    with IH(2) merge_paths_place [OF assms(1) IH(1) x] show ?thesis
      unfolding first_some_snoc_rev
      by (auto simp: m override_def setting_paths_def split: option.splits)
  qed
qed (simp add: merge_bases_def)

text \<open>
  When a file extends several bases, the last one that sets an option decides
  it: each nullable option of the merged base is that of the last base having it, and if any
  base sets \<open>paths\<close>, the merged mappings are those of the last such base and still refer to the
  same place, although they are rewritten relative to the extending file.
\<close>

theorem merge_last_wins:
  assumes "d \<noteq> ''''" "\<And>b. b \<in> set bs \<Longrightarrow> reachable_dir d b" "merge_bases bs d = Some m"
  shows "map (\<lambda>f. f m) nullable_fields = map (\<lambda>f. first_some f (rev bs)) nullable_fields \<and>
         (case first_some setting_paths (rev bs) of
            None \<Rightarrow> \<not> set_paths (explicit m)
          | Some b \<Rightarrow> set_paths (explicit m) \<and> paths_place m = paths_place b)"
  using merge_bases_paths [OF assms] merge_bases_nullable [OF _ assms(3)] by auto

text \<open>A configuration of a directory with nothing set.\<close>

definition plain_config :: "string \<Rightarrow> TsConfig" where
  "plain_config d = build_config
     \<lparr>c_Extends = [], c_CompilerOptions = \<lparr>o_AllowJs = None, o_Composite = None, o_Declaration = None,
        o_DeclarationDir = None, o_DeclarationMap = None, o_DeclarationOnly = None, o_Incremental = None,
        o_IsolatedDeclarations = None, o_TsBuildInfoFile = None, o_SourceMap = None,
        o_ResolveJsonModule = None, o_NoEmit = None, o_OutDir = None, o_RootDir = None, o_RootDirs = None,
        o_BaseUrl = None, o_Paths = None, o_Types = None, o_JSX = None, o_ImportHelpers = None\<rparr>,
      c_References = None\<rparr> d ''tsconfig.json'' [] None"

definition paths_config :: "string \<Rightarrow> string \<Rightarrow> TsConfig" where
  "paths_config d rel = (plain_config d)\<lparr>Paths := \<lparr>tp_Rel = rel, tp_Map = [(''x'', [''y''])]\<rparr>,
     AllowJs := Some True, explicit := (explicit (plain_config d))\<lparr>set_paths := True\<rparr>\<rparr>"

lemma build_config_ConfigDir [simp]: "ConfigDir (build_config c d n es b) = d"
  unfolding build_config_def Let_def by (simp only: TsConfig.select_convs)

lemma build_config_set_paths:
  "set_paths (explicit (build_config c d n es b)) =
     (o_Paths (c_CompilerOptions c) \<noteq> None \<or> (\<exists>bc. b = Some bc \<and> set_paths (explicit bc)))"
  unfolding build_config_def Let_def
  by (simp only: TsConfig.select_convs tsConfigExplicit.select_convs)
     (simp add: config_paths_def split: option.splits)

lemma plain_config_ConfigDir [simp]:
  "ConfigDir (plain_config d) = d" "ConfigDir (paths_config d r) = d"
  by (simp_all add: plain_config_def paths_config_def)

theorem merge_last_wins_witness:
  "\<exists>m. merge_bases [paths_config ''a/b'' ''s'', plain_config ''c''] ''a'' = Some m \<and>
       set_paths (explicit m) \<and> paths_place m = paths_place (paths_config ''a/b'' ''s'')"
proof -
  have "filepath_Rel ''a'' ''a/b'' \<noteq> None" "filepath_Rel ''a'' ''c'' \<noteq> None" by code_simp+
  then have r: "reachable_dir ''a'' b" if "b \<in> set [paths_config ''a/b'' ''s'', plain_config ''c'']" for b
    using that by (auto simp: reachable_dir_def)
  obtain m where m: "merge_bases [paths_config ''a/b'' ''s'', plain_config ''c''] ''a'' = Some m"
    by (simp add: merge_bases_def)
  have "set_paths (explicit (paths_config ''a/b'' ''s''))" "\<not> set_paths (explicit (plain_config ''c''))"
    by (simp_all add: paths_config_def plain_config_def build_config_set_paths)
  with merge_last_wins [OF _ r m] m show ?thesis
    by (simp add: setting_paths_def)
qed

section \<open>Lemmas: the loader\<close>

text \<open>
  What a loader of configuration files promises: it only adds to the cache, and if the
  configurations in the cache are good, so are those it returns and adds.
\<close>

definition all_good :: "(TsConfig \<Rightarrow> bool) \<Rightarrow> parsed_map \<Rightarrow> bool" where
  "all_good good m \<longleftrightarrow> (\<forall>k c. m k = Some (Parsed c) \<longrightarrow> good c)"

locale config_loader =
  fixes good :: "TsConfig \<Rightarrow> bool" and load :: "parsed_map \<Rightarrow> string \<Rightarrow> load_result option"
  assumes load_extends: "load m k = Some (r, m') \<Longrightarrow> m \<subseteq>\<^sub>m m'"
    and load_good: "load m k = Some (r, m') \<Longrightarrow> all_good good m \<Longrightarrow> all_good good m'"
    and load_result: "load m k = Some (Inr (Some c), m') \<Longrightarrow> all_good good m \<Longrightarrow> good c"
begin

lemma potentials_keep:
  "load_potentials load m ps = Some (b, m') \<Longrightarrow>
   m \<subseteq>\<^sub>m m' \<and> (all_good good m \<longrightarrow> all_good good m' \<and> (\<forall>c. b = Some c \<longrightarrow> good c))"
proof (induction ps arbitrary: m)
  case (Cons p rest)
  show ?case
  proof (cases "m p = Some InvalidTsconfig")
    case True
    with Cons.prems have "load_potentials load m rest = Some (b, m')" by simp
    then show ?thesis by (rule Cons.IH)
  next
    case False
    with Cons.prems obtain r m1 where l: "load m p = Some (r, m1)" by (auto split: option.splits)
    consider (go) "\<And>c. r \<noteq> Inr (Some c)" | (found) c where "r = Inr (Some c)" by blast
    then show ?thesis
    proof cases
      case go
      have "load_potentials load m1 rest = Some (b, m')"
        using Cons.prems False l go by (auto split: sum.splits option.splits)
      from Cons.IH [OF this] load_extends [OF l] load_good [OF l] show ?thesis
        by (blast intro: map_le_trans)
    next
      case found
      with Cons.prems False l have "b = Some c" "m' = m1" by auto
      with found l load_extends load_good load_result show ?thesis by blast
    qed
  qed
qed simp

lemma bases_keep:
  "load_bases load resolve m exts = Some (es, bs, m') \<Longrightarrow>
   m \<subseteq>\<^sub>m m' \<and> (all_good good m \<longrightarrow> all_good good m' \<and> (\<forall>c \<in> set bs. good c))"
proof (induction exts arbitrary: m es bs)
  case (Cons ext exts)
  show ?case
  proof (cases "ext = []")
    case True
    with Cons show ?thesis by simp
  next
    case False
    with Cons.prems obtain b m1 es1 bs1 where p: "load_potentials load m (resolve ext) = Some (b, m1)"
      and r: "load_bases load resolve m1 exts = Some (es1, bs1, m')"
      and bs: "bs = (case b of None \<Rightarrow> bs1 | Some c \<Rightarrow> c # bs1)"
      by (auto split: option.splits)
    from Cons.IH [OF r] potentials_keep [OF p] show ?thesis
      unfolding bs by (auto intro: map_le_trans split: option.splits)
  qed
qed simp

lemma potentials_total:
  assumes "\<And>m' k. m \<subseteq>\<^sub>m m' \<Longrightarrow> k \<in> K \<Longrightarrow> load m' k \<noteq> None" "set ps \<subseteq> K"
  shows "load_potentials load m ps \<noteq> None"
  using assms
proof (induction ps arbitrary: m)
  case (Cons p rest)
  have p: "p \<in> K" "set rest \<subseteq> K" using Cons.prems(2) by auto
  obtain r m1 where l: "load m p = Some (r, m1)"
    using Cons.prems(1) [OF map_le_refl p(1)] by auto
  have "load_potentials load m rest \<noteq> None"
    by (rule Cons.IH [OF Cons.prems(1) p(2)])
  moreover have "load_potentials load m1 rest \<noteq> None"
    by (rule Cons.IH [OF Cons.prems(1) p(2)]) (blast intro: map_le_trans load_extends [OF l])+
  ultimately show ?case using l by (auto split: sum.splits option.splits)
qed simp

lemma bases_total:
  assumes "\<And>m' k. m \<subseteq>\<^sub>m m' \<Longrightarrow> k \<in> K \<Longrightarrow> load m' k \<noteq> None"
    and "\<And>e. e \<in> set exts \<Longrightarrow> e \<noteq> '''' \<Longrightarrow> set (resolve e) \<subseteq> K"
  shows "load_bases load resolve m exts \<noteq> None"
  using assms
proof (induction exts arbitrary: m)
  case (Cons ext exts)
  have rest: "\<And>e. e \<in> set exts \<Longrightarrow> e \<noteq> '''' \<Longrightarrow> set (resolve e) \<subseteq> K" using Cons.prems(2) by simp
  show ?case
  proof (cases "ext = ''''")
    case True
    with Cons.IH [OF Cons.prems(1) rest] show ?thesis by simp
  next
    case False
    then have sub: "set (resolve ext) \<subseteq> K" using Cons.prems(2) by simp
    have "load_potentials load m (resolve ext) \<noteq> None"
      by (rule potentials_total [OF _ sub]) (rule Cons.prems(1))
    then obtain b m1 where p: "load_potentials load m (resolve ext) = Some (b, m1)" by auto
    have le: "m \<subseteq>\<^sub>m m1" using potentials_keep [OF p] by simp
    have "load_bases load resolve m1 exts \<noteq> None"
    proof (rule Cons.IH [OF _ rest])
      show "load m' k \<noteq> None" if "m1 \<subseteq>\<^sub>m m'" "k \<in> K" for m' k
        by (rule Cons.prems(1) [OF map_le_trans [OF le that(1)] that(2)])
    qed
    with False p show ?thesis by (auto split: option.splits)
  qed
qed simp

end

text \<open>
  A configuration whose explicit marks are truthful: what is not marked has its default.
\<close>

definition marks_truthful :: "TsConfig \<Rightarrow> bool" where
  "marks_truthful c \<longleftrightarrow>
     (set_rootDir (explicit c) \<or> RootDir c = ''.'') \<and> (set_outDir (explicit c) \<or> OutDir c = ''.'') \<and>
     (set_baseUrl (explicit c) \<or> BaseUrl c = ''.'') \<and>
     (set_tsBuildInfoFile (explicit c) \<or> TsBuildInfoFile c = '''') \<and>
     (set_importHelpers (explicit c) \<or> \<not> ImportHelpers c) \<and>
     (set_paths (explicit c) \<or> tp_Map (Paths c) = [])"

lemma merge_marks:
  assumes "marks_truthful l" "marks_truthful r"
  shows "marks_truthful (mergeBaseConfigs l r d)"
  using assms unfolding marks_truthful_def mergeBaseConfigs_def Let_def
  by (simp only: TsConfig.select_convs tsConfigExplicit.select_convs)
     (simp add: DefaultConfigPaths_def)

lemma merge_bases_marks:
  "(\<And>b. b \<in> set bs \<Longrightarrow> marks_truthful b) \<Longrightarrow> merge_bases bs d = Some m \<Longrightarrow> marks_truthful m"
proof (induction bs arbitrary: m rule: rev_induct)
  case (snoc x xs)
  show ?case
  proof (cases xs)
    case Nil
    with snoc.prems show ?thesis by (simp add: merge_bases_def)
  next
    case (Cons y ys)
    then obtain m0 where m0: "merge_bases xs d = Some m0" by (simp add: merge_bases_def)
    with Cons snoc.prems(2) have "m = mergeBaseConfigs m0 x d" by (simp add: merge_bases_def)
    with snoc m0 show ?thesis by (simp add: merge_marks)
  qed
qed (simp add: merge_bases_def)

lemma inherit_set_default:
  "(\<And>b. base = Some b \<Longrightarrow> isset (explicit b) \<or> f b = dflt) \<Longrightarrow>
   snd (inherit_set own base f isset dflt) \<or> fst (inherit_set own base f isset dflt) = dflt"
  by (auto simp: inherit_set_def split: option.splits)

lemma build_marks:
  assumes "\<And>b. base = Some b \<Longrightarrow> marks_truthful b"
  shows "marks_truthful (build_config c d n es base)"
proof -
  have b: "set_rootDir (explicit b) \<or> RootDir b = ''.''" "set_outDir (explicit b) \<or> OutDir b = ''.''"
    "set_tsBuildInfoFile (explicit b) \<or> TsBuildInfoFile b = ''''"
    "set_importHelpers (explicit b) \<or> ImportHelpers b = False"
    "set_paths (explicit b) \<or> tp_Map (Paths b) = []" if "base = Some b" for b
    using assms [OF that] by (auto simp: marks_truthful_def)
  have u: "snd (base_url opts base rel) \<or> fst (base_url opts base rel) = ''.''" for opts rel
    by (auto simp: base_url_def split: option.splits)
  have p: "snd (config_paths opts base rel u) \<or> tp_Map (fst (config_paths opts base rel u)) = []"
    for opts rel u
    using b(5) by (auto simp: config_paths_def rebase_paths_def DefaultConfigPaths_def split: option.splits)
  have h: "snd (inherit_set own base ImportHelpers set_importHelpers False) \<or>
      \<not> fst (inherit_set own base ImportHelpers set_importHelpers False)" for own
    using inherit_set_default [of base set_importHelpers ImportHelpers False own] b(4) by auto
  show ?thesis
    unfolding marks_truthful_def build_config_def Let_def TsConfig.select_convs
      tsConfigExplicit.select_convs
    by (intro conjI inherit_set_default b u p h)
qed

text \<open>The ways a load can go: cached, failed, or parsed.\<close>

definition cached_result :: "slot \<Rightarrow> string + TsConfig option" where
  "cached_result s = Inr (case s of Parsed c \<Rightarrow> Some c | InvalidTsconfig \<Rightarrow> None)"

lemma parse_file_cases:
  assumes "parseTsConfigJSONFile (Suc n) env m k = Some (r, m')"
  obtains (cached) s where "m k = Some s" "m' = m" "r = cached_result s"
  | (failed) e where "m k = None" "m' = m(k \<mapsto> InvalidTsconfig)" "r = Inl e"
  | (parsed) c es bs m2 cfg where "m k = None"
      "load_bases (parseTsConfigJSONFile n env) (te_resolver env (path_Dir k)) (m(k \<mapsto> InvalidTsconfig))
         (c_Extends c) = Some (es, bs, m2)"
      "cfg = build_config c (path_Dir k) (path_Base k) es (merge_bases bs (path_Dir k))"
      "r = Inr (Some cfg)" "m' = m2(k \<mapsto> Parsed cfg)"
proof (cases "m k")
  case (Some s)
  with assms have "m' = m" "r = cached_result s"
    by (auto simp: cached_result_def split: slot.splits)
  with Some that(1) show thesis by blast
next
  case None
  show thesis
  proof (cases "te_open env (path_join [te_root env, k])")
    case (Inl e)
    with assms None that(2) show thesis by (auto simp: Let_def)
  next
    case data: (Inr data)
    show thesis
    proof (cases "te_unmarshal env data")
      case (Inl e)
      with assms None data that(2) show thesis by (auto simp: Let_def parseTsConfigJSON_def)
    next
      case (Inr c)
      with assms None data that(3) show thesis
        by (auto simp: Let_def parseTsConfigJSON_def split: option.splits)
    qed
  qed
qed

lemma all_good_upd:
  "all_good good m \<Longrightarrow> all_good good (m(k \<mapsto> InvalidTsconfig))"
  "all_good good m \<Longrightarrow> good c \<Longrightarrow> all_good good (m(k \<mapsto> Parsed c))"
  by (auto simp: all_good_def)

lemma map_le_upd_new: "m k = None \<Longrightarrow> m(k \<mapsto> v) \<subseteq>\<^sub>m m' \<Longrightarrow> m \<subseteq>\<^sub>m m'(k \<mapsto> w)"
  by (auto simp: map_le_def dom_def split: if_splits)

lemma parse_file_loader: "config_loader marks_truthful (parseTsConfigJSONFile n env)"
proof (induction n)
  case 0
  show ?case by unfold_locales simp_all
next
  case (Suc n)
  note keep = config_loader.bases_keep [OF Suc]
  have step: "m \<subseteq>\<^sub>m m' \<and> (all_good marks_truthful m \<longrightarrow>
      all_good marks_truthful m' \<and> (\<forall>c. r = Inr (Some c) \<longrightarrow> marks_truthful c))"
    if "parseTsConfigJSONFile (Suc n) env m k = Some (r, m')" for m k r m'
    using that
  proof (cases rule: parse_file_cases)
    case (cached s)
    then show ?thesis by (auto simp: cached_result_def all_good_def split: slot.splits)
  next
    case (failed e)
    then show ?thesis by (auto simp: map_le_def all_good_upd)
  next
    case (parsed c es bs m2 cfg)
    note k = keep [OF parsed(2)]
    have "marks_truthful cfg" if "all_good marks_truthful m"
    proof -
      have "\<forall>b \<in> set bs. marks_truthful b" using k that all_good_upd(1) by blast
      then have "marks_truthful b" if "merge_bases bs (path_Dir k) = Some b" for b
        using merge_bases_marks [OF _ that] by blast
      then show ?thesis unfolding parsed(3) by (rule build_marks)
    qed
    moreover have "m \<subseteq>\<^sub>m m'"
      unfolding parsed(5) by (rule map_le_upd_new [OF parsed(1) conjunct1 [OF k]])
    moreover have "all_good marks_truthful m'" if g: "all_good marks_truthful m"
    proof -
      have "all_good marks_truthful m2" using k all_good_upd(1) [OF g] by blast
      then show ?thesis
        unfolding parsed(5) using \<open>all_good marks_truthful m \<Longrightarrow> marks_truthful cfg\<close> g
        by (intro all_good_upd(2)) blast+
    qed
    ultimately show ?thesis using parsed(4) by auto
  qed
  show ?case
  proof
    fix m k r m' c
    assume h: "parseTsConfigJSONFile (Suc n) env m k = Some (r, m')"
    from step [OF h] show "m \<subseteq>\<^sub>m m'" by (rule conjunct1)
    from step [OF h] show "all_good marks_truthful m \<Longrightarrow> all_good marks_truthful m'" by blast
  next
    fix m k m' c
    assume h: "parseTsConfigJSONFile (Suc n) env m k = Some (Inr (Some c), m')"
    from step [OF h] show "all_good marks_truthful m \<Longrightarrow> marks_truthful c" by blast
  qed
qed

interpretation ts_loader: config_loader marks_truthful "parseTsConfigJSONFile n env" for n env
  by (rule parse_file_loader)

text \<open>More fuel never changes a result.\<close>

definition less_fuel ::
  "(parsed_map \<Rightarrow> string \<Rightarrow> load_result option) \<Rightarrow> (parsed_map \<Rightarrow> string \<Rightarrow> load_result option) \<Rightarrow> bool" where
  "less_fuel load load' \<longleftrightarrow> (\<forall>m k x. load m k = Some x \<longrightarrow> load' m k = Some x)"

lemma potentials_fuel:
  "less_fuel load load' \<Longrightarrow> load_potentials load m ps = Some x \<Longrightarrow> load_potentials load' m ps = Some x"
proof (induction ps arbitrary: m)
  case (Cons p ps)
  show ?case
  proof (cases "m p = Some InvalidTsconfig")
    case False
    with Cons.prems(2) obtain r m1 where l: "load m p = Some (r, m1)" by (auto split: option.splits)
    with Cons.prems(1) have "load' m p = Some (r, m1)" by (auto simp: less_fuel_def)
    with l Cons False show ?thesis by (auto split: sum.splits option.splits)
  qed (use Cons in simp)
qed simp

lemma bases_fuel:
  "less_fuel load load' \<Longrightarrow> load_bases load resolve m exts = Some x \<Longrightarrow>
   load_bases load' resolve m exts = Some x"
proof (induction exts arbitrary: m x)
  case (Cons e exts)
  show ?case
  proof (cases "e = ''''")
    case False
    with Cons.prems(2) obtain b m1 es bs m2 where
      "load_potentials load m (resolve e) = Some (b, m1)"
      "load_bases load resolve m1 exts = Some (es, bs, m2)"
      by (auto split: option.splits)
    moreover from this Cons have "load_potentials load' m (resolve e) = Some (b, m1)"
      "load_bases load' resolve m1 exts = Some (es, bs, m2)"
      using potentials_fuel by blast+
    ultimately show ?thesis using False Cons.prems(2) by simp
  qed (use Cons in simp)
qed simp

lemma parse_file_fuel_step: "less_fuel (parseTsConfigJSONFile n env) (parseTsConfigJSONFile (Suc n) env)"
proof (induction n)
  case 0
  show ?case by (simp add: less_fuel_def)
next
  case (Suc n)
  show ?case
    unfolding less_fuel_def
  proof (intro allI impI)
    fix m k x
    assume h: "parseTsConfigJSONFile (Suc n) env m k = Some x"
    have "parseTsConfigJSON env (parseTsConfigJSONFile (Suc n) env) m1 k d = Some y"
      if "parseTsConfigJSON env (parseTsConfigJSONFile n env) m1 k d = Some y" for m1 d y
      using that bases_fuel [OF Suc]
      by (auto simp: parseTsConfigJSON_def Let_def split: sum.splits option.splits)
    with h show "parseTsConfigJSONFile (Suc (Suc n)) env m k = Some x"
      by (simp only: parseTsConfigJSONFile.simps(2)) (auto simp: Let_def split: option.splits slot.splits sum.splits)
  qed
qed

lemma parse_file_fuel:
  "parseTsConfigJSONFile n env m k = Some x \<Longrightarrow> n \<le> n' \<Longrightarrow> parseTsConfigJSONFile n' env m k = Some x"
proof (induction "n' - n" arbitrary: n')
  case (Suc d)
  then obtain j where "n' = Suc j" "n \<le> j" "d = j - n" by (cases n') auto
  from Suc.hyps(1) [OF this(3) Suc.prems(1) this(2)] have "parseTsConfigJSONFile j env m k = Some x" .
  with parse_file_fuel_step [of j env] show ?case
    unfolding \<open>n' = Suc j\<close> less_fuel_def by blast
qed simp

section \<open>The loader ends\<close>

text \<open>The files of \<open>K\<close> that can be opened and have no slot yet.\<close>

definition pending :: "ts_env \<Rightarrow> string set \<Rightarrow> parsed_map \<Rightarrow> string set" where
  "pending env K m =
     {k \<in> K. m k = None \<and> (\<exists>d. te_open env (path_join [te_root env, k]) = Inr d)}"

lemma pending_mono: "m \<subseteq>\<^sub>m m' \<Longrightarrow> pending env K m' \<subseteq> pending env K m"
  unfolding pending_def by (auto simp: map_le_def dom_def)

text \<open>The files that loading a file may ask for, by its \<open>extends\<close> entries.\<close>

definition extends_of :: "ts_env \<Rightarrow> string \<Rightarrow> string \<Rightarrow> bool" where
  "extends_of env k q \<longleftrightarrow>
     (\<exists>d c e. te_open env (path_join [te_root env, k]) = Inr d \<and> te_unmarshal env d = Inr c \<and>
        e \<in> set (c_Extends c) \<and> e \<noteq> '''' \<and> q \<in> set (te_resolver env (path_Dir k) e))"

abbreviation reached :: "ts_env \<Rightarrow> string \<Rightarrow> string set" where
  "reached env k \<equiv> {q. (extends_of env)\<^sup>*\<^sup>* k q}"

definition closed_under_extends :: "ts_env \<Rightarrow> string set \<Rightarrow> bool" where
  "closed_under_extends env K \<longleftrightarrow> (\<forall>k \<in> K. \<forall>q. extends_of env k q \<longrightarrow> q \<in> K)"

lemma reached_closed: "closed_under_extends env (reached env k)"
  by (auto simp: closed_under_extends_def intro: rtranclp.rtrancl_into_rtrancl)

lemma parse_file_total:
  assumes "closed_under_extends env K"
  shows "k \<in> K \<Longrightarrow> finite (pending env K m) \<Longrightarrow> card (pending env K m) < n \<Longrightarrow>
         parseTsConfigJSONFile n env m k \<noteq> None"
proof (induction n arbitrary: m k)
  case (Suc n)
  show ?case
  proof (cases "k \<in> pending env K m")
    case False
    then show ?thesis
      using Suc.prems(1)
      by (cases "te_open env (path_join [te_root env, k])")
         (auto simp: pending_def Let_def split: option.splits slot.splits)
  next
    case True
    let ?m1 = "m(k \<mapsto> InvalidTsconfig)"
    have "pending env K ?m1 \<subseteq> pending env K m - {k}"
      by (auto simp: pending_def split: if_splits)
    with True have sub: "pending env K ?m1 \<subset> pending env K m" by blast
    then have small: "finite (pending env K ?m1)" "card (pending env K ?m1) < n"
      using Suc.prems(2,3) psubset_card_mono [OF Suc.prems(2) sub]
      by (auto intro: finite_subset)
    have loads: "parseTsConfigJSONFile n env m' q \<noteq> None" if "?m1 \<subseteq>\<^sub>m m'" "q \<in> K" for m' q
    proof (rule Suc.IH [OF that(2)])
      show "finite (pending env K m')"
        using pending_mono [OF that(1)] small(1) by (rule finite_subset)
      show "card (pending env K m') < n"
        using card_mono [OF small(1) pending_mono [OF that(1)]] small(2) by simp
    qed
    obtain d where d: "m k = None" "te_open env (path_join [te_root env, k]) = Inr d"
      using True by (auto simp: pending_def)
    show ?thesis
    proof (cases "te_unmarshal env d")
      case (Inl e)
      with d show ?thesis by (simp add: Let_def parseTsConfigJSON_def)
    next
      case (Inr c)
      have "set (te_resolver env (path_Dir k) e) \<subseteq> K" if "e \<in> set (c_Extends c)" "e \<noteq> ''''" for e
        using assms Suc.prems(1) d(2) Inr that unfolding closed_under_extends_def extends_of_def by blast
      then have "load_bases (parseTsConfigJSONFile n env) (te_resolver env (path_Dir k)) ?m1 (c_Extends c) \<noteq> None"
        using loads by (intro ts_loader.bases_total [where K = K])
      with d Inr show ?thesis by (auto simp: Let_def parseTsConfigJSON_def)
    qed
  qed
qed simp

lemma parse_file_enough:
  assumes "closed_under_extends env K" "k \<in> K" "finite (pending env K m)"
  shows "\<exists>res. \<forall>n > card (pending env K m). parseTsConfigJSONFile n env m k = Some res"
proof -
  let ?c = "card (pending env K m)"
  have "parseTsConfigJSONFile (Suc ?c) env m k \<noteq> None"
    by (rule parse_file_total [OF assms]) simp
  then obtain res where res: "parseTsConfigJSONFile (Suc ?c) env m k = Some res" by blast
  show ?thesis using parse_file_fuel [OF res Suc_leI] by blast
qed

text \<open>Two files that extend each other.\<close>

definition cyclic_env :: ts_env where
  "cyclic_env = \<lparr>te_open = (\<lambda>p. if p = ''a'' then Inr ''b'' else if p = ''b'' then Inr ''a'' else Inl ''no file''),
     te_unmarshal = (\<lambda>s. Inr \<lparr>c_Extends = [s], c_CompilerOptions = \<lparr>o_AllowJs = Some True, o_Composite = None,
        o_Declaration = None, o_DeclarationDir = None, o_DeclarationMap = None, o_DeclarationOnly = None,
        o_Incremental = None, o_IsolatedDeclarations = None, o_TsBuildInfoFile = None, o_SourceMap = None,
        o_ResolveJsonModule = None, o_NoEmit = None, o_OutDir = None, o_RootDir = None, o_RootDirs = None,
        o_BaseUrl = None, o_Paths = None, o_Types = None, o_JSX = None, o_ImportHelpers = None\<rparr>,
      c_References = None\<rparr>),
     te_resolver = (\<lambda>d r. if r \<in> {''a'', ''b''} then [r] else []), te_root = ''''\<rparr>"

lemma cyclic_pending:
  "finite (pending cyclic_env {''a'', ''b''} m)" "card (pending cyclic_env {''a'', ''b''} m) < 3"
proof -
  have "pending cyclic_env {''a'', ''b''} m \<subseteq> {''a'', ''b''}" by (auto simp: pending_def)
  then show "finite (pending cyclic_env {''a'', ''b''} m)" "card (pending cyclic_env {''a'', ''b''} m) < 3"
    using card_mono [of "{''a'', ''b''}" "pending cyclic_env {''a'', ''b''} m"] by (auto intro: finite_subset)
qed

lemma parse_file_slot:
  assumes "parseTsConfigJSONFile n env m k = Some (r, m')"
  shows "\<exists>s. m' k = Some s \<and> cached_result s = Inr (case r of Inl e \<Rightarrow> None | Inr c \<Rightarrow> c)"
proof (cases n)
  case (Suc j)
  show ?thesis
    using assms unfolding Suc by (cases rule: parse_file_cases) (auto simp: cached_result_def)
qed (use assms in simp)

text \<open>
  The cache is coherent: loading only adds slots and ends with a slot for the
  file, which any later load, with any fuel, answers without reading or changing anything, with
  the same configuration (nothing for a file that failed); and if the configurations in the
  cache mark their explicit options truthfully, so do all afterwards.
\<close>

theorem tsconfig_cache_coherent:
  assumes "parseTsConfigJSONFile n env m k = Some (r, m')" "m' \<subseteq>\<^sub>m later"
  shows "m \<subseteq>\<^sub>m m' \<and>
         parseTsConfigJSONFile (Suc n') env' later k =
           Some (Inr (case r of Inl e \<Rightarrow> None | Inr c \<Rightarrow> c), later) \<and>
         (all_good marks_truthful m \<longrightarrow> all_good marks_truthful m')"
proof -
  obtain s where s: "m' k = Some s" "cached_result s = Inr (case r of Inl e \<Rightarrow> None | Inr c \<Rightarrow> c)"
    using parse_file_slot [OF assms(1)] by blast
  then have "later k = Some s" using assms(2) by (auto simp: map_le_def dom_def)
  with s have "parseTsConfigJSONFile (Suc n') env' later k =
      Some (Inr (case r of Inl e \<Rightarrow> None | Inr c \<Rightarrow> c), later)"
    by (auto simp: cached_result_def split: slot.splits)
  with ts_loader.load_extends [OF assms(1)] ts_loader.load_good [OF assms(1)] show ?thesis by blast
qed

theorem tsconfig_cache_coherent_witness:
  "\<exists>r m'. parseTsConfigJSONFile 3 cyclic_env Map.empty ''a'' = Some (r, m') \<and>
     parseTsConfigJSONFile 1 cyclic_env m' ''a'' = Some (Inr (case r of Inl e \<Rightarrow> None | Inr c \<Rightarrow> c), m')"
proof -
  have "closed_under_extends cyclic_env {''a'', ''b''}"
    by (auto simp: closed_under_extends_def extends_of_def cyclic_env_def)
  then obtain r m' where run: "parseTsConfigJSONFile 3 cyclic_env Map.empty ''a'' = Some (r, m')"
    using parse_file_total [of cyclic_env "{''a'', ''b''}" "''a''" Map.empty 3] cyclic_pending by auto
  from tsconfig_cache_coherent [OF this map_le_refl, of 0 cyclic_env] run show ?thesis by auto
qed

section \<open>The loader without the cache\<close>

definition bases_of ::
  "(string \<Rightarrow> TsConfig option) \<Rightarrow> (string \<Rightarrow> string list) \<Rightarrow> string list \<Rightarrow> TsConfig list" where
  "bases_of look resolve exts =
     concat (map (\<lambda>e. case first_some look (resolve e) of None \<Rightarrow> [] | Some b \<Rightarrow> [b]) exts)"

text \<open>
  The configuration of a file: itself, merged with the first usable candidate of each \<open>extends\<close>
  entry, without any cache. The fuel is the height of the file above those that extend nothing.
\<close>

primrec uncached :: "nat \<Rightarrow> ts_env \<Rightarrow> string \<Rightarrow> TsConfig option" where
  "uncached 0 env k = None"
| "uncached (Suc n) env k =
     (case te_open env (path_join [te_root env, k]) of
        Inl err \<Rightarrow> None
      | Inr d \<Rightarrow>
        (case te_unmarshal env d of
           Inl err \<Rightarrow> None
         | Inr c \<Rightarrow>
           let dir = path_Dir k; exts = filter (\<lambda>e. e \<noteq> '''') (c_Extends c);
               bases = bases_of (uncached n env) (te_resolver env dir) exts
           in Some (build_config c dir (path_Base k) exts (merge_bases bases dir))))"

definition config_of :: "ts_env \<Rightarrow> (string \<Rightarrow> nat) \<Rightarrow> string \<Rightarrow> TsConfig option" where
  "config_of env height k = uncached (Suc (height k)) env k"

text \<open>The files of \<open>K\<close> extend each other without a cycle.\<close>

definition no_cycles :: "ts_env \<Rightarrow> string set \<Rightarrow> (string \<Rightarrow> nat) \<Rightarrow> bool" where
  "no_cycles env K height \<longleftrightarrow> (\<forall>k \<in> K. \<forall>q. extends_of env k q \<longrightarrow> q \<in> K \<and> height q < height k)"

lemma bases_of_cong:
  assumes "\<And>e q. e \<in> set exts \<Longrightarrow> q \<in> set (resolve e) \<Longrightarrow> f q = g q"
  shows "bases_of f resolve exts = bases_of g resolve exts"
proof -
  have "first_some f (resolve e) = first_some g (resolve e)" if "e \<in> set exts" for e
    by (rule first_some_cong [OF refl]) (rule assms [OF that])
  then show ?thesis unfolding bases_of_def by (intro arg_cong [of _ _ concat] map_cong refl) simp
qed

lemma bases_of_Cons:
  "bases_of f resolve (e # exts) =
     (case first_some f (resolve e) of None \<Rightarrow> [] | Some b \<Rightarrow> [b]) @ bases_of f resolve exts"
  by (simp add: bases_of_def)

lemma uncached_enough:
  assumes "no_cycles env K height"
  shows "k \<in> K \<Longrightarrow> height k < n \<Longrightarrow> height k < n' \<Longrightarrow> uncached n env k = uncached n' env k"
proof (induction n arbitrary: n' k)
  case (Suc i)
  then obtain j where j: "n' = Suc j" by (cases n') simp_all
  have q: "uncached i env q = uncached j env q" if "extends_of env k q" for q
  proof -
    have "q \<in> K" "height q < height k" using assms that Suc.prems(1) unfolding no_cycles_def by blast+
    then show ?thesis using Suc.prems(2,3) unfolding j by (intro Suc.IH) simp_all
  qed
  show ?case
  proof (cases "te_open env (path_join [te_root env, k])")
    case d: (Inr d)
    show ?thesis
    proof (cases "te_unmarshal env d")
      case (Inr c)
      have "bases_of (uncached i env) (te_resolver env (path_Dir k)) (filter (\<lambda>e. e \<noteq> '''') (c_Extends c)) =
          bases_of (uncached j env) (te_resolver env (path_Dir k)) (filter (\<lambda>e. e \<noteq> '''') (c_Extends c))"
        using d Inr by (intro bases_of_cong q) (auto simp: extends_of_def)
      then show ?thesis by (simp add: j d Inr Let_def)
    qed (simp add: j d)
  qed (simp add: j)
qed simp

text \<open>The slot a file should have, and a cache right about the files of height below \<open>h\<close>.\<close>

definition slot_for :: "TsConfig option \<Rightarrow> slot" where
  "slot_for r = (case r of None \<Rightarrow> InvalidTsconfig | Some c \<Rightarrow> Parsed c)"

definition right_below :: "ts_env \<Rightarrow> string set \<Rightarrow> (string \<Rightarrow> nat) \<Rightarrow> nat \<Rightarrow> parsed_map \<Rightarrow> bool" where
  "right_below env K height h m \<longleftrightarrow>
     (\<forall>k \<in> K. \<forall>s. height k < h \<longrightarrow> m k = Some s \<longrightarrow> s = slot_for (config_of env height k))"

definition adds_right :: "ts_env \<Rightarrow> string set \<Rightarrow> (string \<Rightarrow> nat) \<Rightarrow> nat \<Rightarrow> parsed_map \<Rightarrow> parsed_map \<Rightarrow> bool" where
  "adds_right env K height h m m' \<longleftrightarrow>
     (\<forall>q. m' q = m q \<or>
        (q \<in> K \<and> height q < h \<and> m q = None \<and> m' q = Some (slot_for (config_of env height q))))"

lemma adds_right_simps:
  "adds_right env K height h m m"
  "adds_right env K height h m m1 \<Longrightarrow> adds_right env K height h m1 m2 \<Longrightarrow> adds_right env K height h m m2"
  "adds_right env K height h m m1 \<Longrightarrow> h \<le> h' \<Longrightarrow> adds_right env K height h' m m1"
  "adds_right env K height h m m1 \<Longrightarrow> right_below env K height h' m \<Longrightarrow> right_below env K height h' m1"
  unfolding adds_right_def right_below_def by (simp, metis, metis less_le_trans, metis option.inject)

text \<open>What is promised of loading a file of height below \<open>h\<close>.\<close>

definition loaded :: "string + TsConfig option \<Rightarrow> TsConfig option" where
  "loaded r = (case r of Inl err \<Rightarrow> None | Inr c \<Rightarrow> c)"

definition loads_right ::
  "ts_env \<Rightarrow> string set \<Rightarrow> (string \<Rightarrow> nat) \<Rightarrow> nat \<Rightarrow> (parsed_map \<Rightarrow> string \<Rightarrow> load_result option) \<Rightarrow> bool" where
  "loads_right env K height h load \<longleftrightarrow>
     (\<forall>m. \<forall>k \<in> K. height k < h \<longrightarrow> right_below env K height h m \<longrightarrow>
        (\<exists>r m'. load m k = Some (r, m') \<and> loaded r = config_of env height k \<and> adds_right env K height h m m'))"

lemma potentials_right:
  assumes "loads_right env K height h load"
  shows "(\<And>q. q \<in> set ps \<Longrightarrow> q \<in> K \<and> height q < h) \<Longrightarrow> right_below env K height h m \<Longrightarrow>
    \<exists>m'. load_potentials load m ps = Some (first_some (config_of env height) ps, m') \<and>
      adds_right env K height h m m'"
proof (induction ps arbitrary: m)
  case (Cons p ps)
  have p: "p \<in> K" "height p < h" using Cons.prems(1) by simp_all
  show ?case
  proof (cases "m p = Some InvalidTsconfig")
    case True
    then have "config_of env height p = None"
      using Cons.prems(2) p by (auto simp: right_below_def slot_for_def split: option.splits)
    with True Cons show ?thesis by simp
  next
    case False
    obtain r m1 where l: "load m p = Some (r, m1)" "loaded r = config_of env height p"
        "adds_right env K height h m m1"
      using assms p Cons.prems(2) unfolding loads_right_def by blast
    have "right_below env K height h m1" using l(3) Cons.prems(2) by (rule adds_right_simps(4))
    with Cons.IH Cons.prems(1) obtain m' where
      "load_potentials load m1 ps = Some (first_some (config_of env height) ps, m')"
      "adds_right env K height h m1 m'" by (metis list.set_intros(2))
    with False l show ?thesis
      by (auto simp: loaded_def intro: adds_right_simps(2) split: sum.splits option.splits)
  qed
qed (simp add: adds_right_simps(1))

lemma bases_right:
  assumes "loads_right env K height h load"
  shows "(\<And>e q. e \<in> set exts \<Longrightarrow> e \<noteq> '''' \<Longrightarrow> q \<in> set (resolve e) \<Longrightarrow> q \<in> K \<and> height q < h) \<Longrightarrow>
    right_below env K height h m \<Longrightarrow>
    \<exists>m'. load_bases load resolve m exts =
        Some (filter (\<lambda>e. e \<noteq> '''') exts,
          bases_of (config_of env height) resolve (filter (\<lambda>e. e \<noteq> '''') exts), m') \<and>
      adds_right env K height h m m'"
proof (induction exts arbitrary: m)
  case (Cons e exts)
  show ?case
  proof (cases "e = ''''")
    case True
    with Cons show ?thesis by simp
  next
    case False
    have "q \<in> K \<and> height q < h" if "q \<in> set (resolve e)" for q
      using Cons.prems(1) [OF _ False that] by simp
    from potentials_right [OF assms this Cons.prems(2)] obtain m1 where p:
      "load_potentials load m (resolve e) = Some (first_some (config_of env height) (resolve e), m1)"
      "adds_right env K height h m m1" by blast
    have "right_below env K height h m1" using p(2) Cons.prems(2) by (rule adds_right_simps(4))
    with Cons.IH Cons.prems(1) obtain m' where
      "load_bases load resolve m1 exts =
        Some (filter (\<lambda>e. e \<noteq> '''') exts,
          bases_of (config_of env height) resolve (filter (\<lambda>e. e \<noteq> '''') exts), m')"
      "adds_right env K height h m1 m'" by (metis list.set_intros(2))
    with False p show ?thesis by (auto simp: bases_of_Cons intro: adds_right_simps(2) split: option.split)
  qed
qed (simp add: adds_right_simps(1) bases_of_def)

lemma config_of_unfold:
  assumes "no_cycles env K height" "k \<in> K"
  shows "config_of env height k =
    (case te_open env (path_join [te_root env, k]) of
       Inl err \<Rightarrow> None
     | Inr d \<Rightarrow>
       (case te_unmarshal env d of
          Inl err \<Rightarrow> None
        | Inr c \<Rightarrow>
          let dir = path_Dir k; exts = filter (\<lambda>e. e \<noteq> '''') (c_Extends c);
              bases = bases_of (config_of env height) (te_resolver env dir) exts
          in Some (build_config c dir (path_Base k) exts (merge_bases bases dir))))"
proof (cases "te_open env (path_join [te_root env, k])")
  case d: (Inr d)
  show ?thesis
  proof (cases "te_unmarshal env d")
    case (Inr c)
    have "uncached (height k) env q = config_of env height q" if "extends_of env k q" for q
      using assms that unfolding config_of_def no_cycles_def
      by (intro uncached_enough [OF assms(1)]) (blast, blast, simp)
    then have "bases_of (uncached (height k) env) (te_resolver env (path_Dir k)) (filter (\<lambda>e. e \<noteq> '''') (c_Extends c)) =
        bases_of (config_of env height) (te_resolver env (path_Dir k)) (filter (\<lambda>e. e \<noteq> '''') (c_Extends c))"
      using d Inr by (intro bases_of_cong) (auto simp: extends_of_def)
    then show ?thesis by (simp add: config_of_def [of _ _ k] d Inr Let_def)
  qed (simp add: config_of_def [of _ _ k] d)
qed (simp add: config_of_def [of _ _ k])

text \<open>
  Without cycles the loader and its cache give every file the configuration it has without a cache.
\<close>

lemma parse_file_right:
  assumes acyclic: "no_cycles env K height"
  shows "k \<in> K \<Longrightarrow> height k < n \<Longrightarrow> right_below env K height (Suc (height k)) m \<Longrightarrow>
    \<exists>r m'. parseTsConfigJSONFile n env m k = Some (r, m') \<and> loaded r = config_of env height k \<and>
      adds_right env K height (Suc (height k)) m m'"
proof (induction n arbitrary: k m)
  case (Suc n)
  show ?case
  proof (cases "m k")
    case (Some s)
    then have "s = slot_for (config_of env height k)" using Suc.prems by (simp add: right_below_def)
    with Some show ?thesis
      by (auto simp: slot_for_def loaded_def adds_right_simps(1) split: option.split)
  next
    case None
    let ?m1 = "m(k \<mapsto> InvalidTsconfig)"
    have failed: "adds_right env K height (Suc (height k)) m ?m1" if "config_of env height k = None"
      using that None Suc.prems(1) by (auto simp: adds_right_def slot_for_def)
    note unfold = config_of_unfold [OF acyclic Suc.prems(1)]
    show ?thesis
    proof (cases "te_open env (path_join [te_root env, k])")
      case (Inl e)
      then have "config_of env height k = None" by (simp add: unfold)
      with Inl None failed show ?thesis by (simp add: Let_def loaded_def)
    next
      case d: (Inr d)
      show ?thesis
      proof (cases "te_unmarshal env d")
        case (Inl e)
        then have "config_of env height k = None" by (simp add: unfold d)
        with Inl d None failed show ?thesis by (simp add: Let_def loaded_def parseTsConfigJSON_def)
      next
        case (Inr c)
        have loads: "loads_right env K height (height k) (parseTsConfigJSONFile n env)"
          unfolding loads_right_def
        proof (intro allI ballI impI)
          fix m2 q
          assume q: "q \<in> K" "height q < height k" "right_below env K height (height k) m2"
          have "right_below env K height (Suc (height q)) m2"
            using q(2,3) by (auto simp: right_below_def)
          from Suc.IH [OF q(1) _ this] q(2) Suc.prems(2) obtain r m' where
            "parseTsConfigJSONFile n env m2 q = Some (r, m')" "loaded r = config_of env height q"
            "adds_right env K height (Suc (height q)) m2 m'" by auto
          moreover from this(3) have "adds_right env K height (height k) m2 m'"
            by (rule adds_right_simps(3)) (use q(2) in simp)
          ultimately show "\<exists>r m'. parseTsConfigJSONFile n env m2 q = Some (r, m') \<and>
              loaded r = config_of env height q \<and> adds_right env K height (height k) m2 m'" by blast
        qed
        have ext: "q \<in> K \<and> height q < height k"
          if "e \<in> set (c_Extends c)" "e \<noteq> ''''" "q \<in> set (te_resolver env (path_Dir k) e)" for e q
          using acyclic Suc.prems(1) d Inr that unfolding no_cycles_def extends_of_def by blast
        have "right_below env K height (height k) ?m1"
          using Suc.prems(3) by (auto simp: right_below_def)
        from bases_right [OF loads _ this, where exts = "c_Extends c" and resolve = "te_resolver env (path_Dir k)"] ext
        obtain m2 where m2:
          "load_bases (parseTsConfigJSONFile n env) (te_resolver env (path_Dir k)) ?m1 (c_Extends c) =
            Some (filter (\<lambda>e. e \<noteq> '''') (c_Extends c),
              bases_of (config_of env height) (te_resolver env (path_Dir k)) (filter (\<lambda>e. e \<noteq> '''') (c_Extends c)), m2)"
          "adds_right env K height (height k) ?m1 m2" by blast
        obtain cfg where cfg: "config_of env height k = Some cfg" by (simp add: unfold d Inr Let_def)
        have "parseTsConfigJSONFile (Suc n) env m k = Some (Inr (Some cfg), m2(k \<mapsto> Parsed cfg))"
          using cfg by (simp add: None d Inr Let_def parseTsConfigJSON_def m2(1) unfold)
        moreover have "adds_right env K height (Suc (height k)) m (m2(k \<mapsto> Parsed cfg))"
          unfolding adds_right_def
        proof
          fix q
          show "(m2(k \<mapsto> Parsed cfg)) q = m q \<or> (q \<in> K \<and> height q < Suc (height k) \<and> m q = None \<and>
              (m2(k \<mapsto> Parsed cfg)) q = Some (slot_for (config_of env height q)))"
            using m2(2) None Suc.prems(1) cfg unfolding adds_right_def slot_for_def
            by (cases "q = k") (auto simp: less_Suc_eq split: if_splits dest!: spec [of _ q])
        qed
        ultimately show ?thesis by (simp add: cfg loaded_def)
      qed
    qed
  qed
qed simp

section \<open>A recursion the guard does not see\<close>

text \<open>
  The guard compares file names that are relative to the workspace root, without resolving
  them. With the workspace at the file system root, a configuration there that extends itself
  through \<open>../\<close> is seen under a new name at every level.
\<close>

definition dots_name :: "nat \<Rightarrow> string" where
  "dots_name i = render False (replicate i ''..'' @ [''tsconfig.json''])"

definition root_env :: ts_env where
  "root_env = cyclic_env\<lparr>te_open := (\<lambda>p. if p = ''/tsconfig.json'' then Inr ''../tsconfig.json'' else Inl ''''),
     te_resolver := (\<lambda>d r. [path_join [d, r]]), te_root := ''/''\<rparr>"

lemma proper_names: "proper ''..''" "proper ''tsconfig.json''"
  by (simp_all add: proper_def)

lemma dots_name_proper: "e \<in> set (replicate i ''..'' @ [''tsconfig.json'']) \<Longrightarrow> proper e"
  using proper_names by (auto simp del: proper_names)

lemma clean_stack_dots: "clean_stack False [] (replicate i ''..'') = replicate i ''..''"
proof (induction i)
  case (Suc i)
  have "clean_stack False [] (replicate (Suc i) ''..'') =
      clean_step False (clean_stack False [] (replicate i ''..'')) ''..''"
    unfolding replicate_Suc replicate_append_same [symmetric] clean_stack_append by simp
  also have "\<dots> = replicate (Suc i) ''..''"
    unfolding Suc by (cases i) (simp_all add: clean_step_def)
  finally show ?case .
qed simp

lemma dots_name_not_abs: "\<not> IsAbs (dots_name i)"
  unfolding dots_name_def by (rule IsAbs_render_unrooted) (rule dots_name_proper)

lemma Split_dots_name: "Split slash (dots_name i) = replicate i ''..'' @ [''tsconfig.json'']"
  unfolding dots_name_def by (rule Split_render_unrooted) (simp, rule dots_name_proper)

lemma dots_name_elems: "clean_elems (dots_name i) = replicate i ''..'' @ [''tsconfig.json'']"
  by (simp add: clean_elems_def dots_name_not_abs Split_dots_name clean_stack_append clean_stack_dots
      clean_step_def)

lemma dots_name_inject: "dots_name i = dots_name j \<Longrightarrow> i = j"
  using dots_name_elems [of i] dots_name_elems [of j]
  by (metis append_same_eq length_replicate)

lemma dots_name_open: "path_join [''/'', dots_name i] = ''/tsconfig.json''"
proof -
  have "clean_stack True [] (replicate i ''..'') = []"
    by (induction i) (simp_all add: clean_step_def)
  then have "clean_elems (''/'' @ slash # dots_name i) = [''tsconfig.json'']"
    by (simp add: clean_elems_def IsAbs_def Split_dots_name clean_stack_append clean_step_def)
  then have "Clean (''/'' @ slash # dots_name i) = ''/tsconfig.json''"
    by (simp add: Clean_def IsAbs_def render_def)
  then show ?thesis by (simp add: path_join_def)
qed

lemma Split_up: "Split slash ''../tsconfig.json'' = [''..'', ''tsconfig.json'']"
  by simp

lemma dots_name_Suc: "path_join [path_Dir (dots_name i), ''../tsconfig.json''] = dots_name (Suc i)"
proof -
  let ?d = "upto_last slash (dots_name i)"
  have "clean_elems (Clean ?d @ slash # ''../tsconfig.json'') = replicate (Suc i) ''..'' @ [''tsconfig.json''] \<and>
        \<not> IsAbs (Clean ?d @ slash # ''../tsconfig.json'')"
  proof (cases i)
    case 0
    have "?d = ''''" using 0 by (simp add: dots_name_def render_def upto_last_def)
    then show ?thesis
      by (simp add: 0 Clean_def clean_elems_def IsAbs_def render_def clean_step_def)
  next
    case (Suc j)
    have "dots_name i = Join [slash] (replicate i ''..'') @ slash # ''tsconfig.json''"
      using Suc Join_append [of "replicate i ''..''" "[''tsconfig.json'']" "[slash]"]
      by (simp add: dots_name_def render_def)
    then have d: "?d = Join [slash] (replicate i ''..'') @ [slash]"
      by (simp add: last_split_eq)
    have J: "Split slash (Join [slash] (replicate i ''..'')) = replicate i ''..''"
      by (rule Split_Join) (auto simp: Suc)
    have na: "\<not> IsAbs (Join [slash] (replicate i ''..''))"
      using Suc by (cases j) (simp_all add: IsAbs_def)
    have ne: "Join [slash] (replicate i ''..'') \<noteq> ''''"
      using Suc by (cases j) simp_all
    have abs: "\<not> IsAbs ?d" using na ne by (simp add: d IsAbs_append)
    have "clean_elems ?d = replicate i ''..''"
      using abs by (simp add: clean_elems_def d Split_append_sep [where t = "''''", simplified] J
          clean_stack_append clean_stack_dots clean_step_def)
    then have "clean_stack False [] (Split slash (Clean ?d)) = replicate i ''..''"
      using clean_stack_Clean [of ?d False] abs
      by (simp add: clean_elems_def)
         (metis rev_replicate rev_rev_ident)
    with abs show ?thesis
      by (simp add: clean_elems_def IsAbs_append Split_append_sep clean_stack_append Suc clean_step_def
          replicate_append_same)
  qed
  moreover have "Clean q = render (IsAbs q) (clean_elems q)" for q by (rule Clean_def)
  ultimately have "Clean (Clean ?d @ slash # ''../tsconfig.json'') =
      render False (replicate (Suc i) ''..'' @ [''tsconfig.json''])" by metis
  then have "Clean (Clean ?d @ slash # ''../tsconfig.json'') = dots_name (Suc i)"
    unfolding dots_name_def .
  then show ?thesis
    unfolding path_Dir_def path_join_pair [OF Clean_not_Nil] .
qed

text \<open>So loading it never ends: no fuel is enough.\<close>

lemma root_extends_itself_diverges: "parseTsConfigJSONFile n root_env Map.empty ''tsconfig.json'' = None"
proof -
  have "parseTsConfigJSONFile n root_env m (dots_name i) = None"
    if "\<And>j. i \<le> j \<Longrightarrow> m (dots_name j) = None" for m i
    using that
  proof (induction n arbitrary: m i)
    case (Suc n)
    have fresh: "(m(dots_name i \<mapsto> InvalidTsconfig)) (dots_name j) = None" if "Suc i \<le> j" for j
      using Suc.prems [of j] that dots_name_inject [of j i] by auto
    have "parseTsConfigJSONFile n root_env (m(dots_name i \<mapsto> InvalidTsconfig)) (dots_name (Suc i)) = None"
      by (rule Suc.IH) (rule fresh)
    with Suc.prems [of i] fresh [of "Suc i"] show ?case
      by (simp add: root_env_def cyclic_env_def dots_name_open dots_name_Suc Let_def parseTsConfigJSON_def)
  qed simp
  from this [of 0 Map.empty] show ?thesis by (simp add: dots_name_def render_def)
qed

section \<open>Inherited base directories\<close>

text \<open>
  \<open>mergeBaseConfigs\<close> moves the merged configuration to the directory of the extending file
  but copies \<open>baseUrl\<close> as it is, unlike \<open>paths\<close> and \<open>rootDirs\<close>: extending a second file
  changes the place that an inherited \<open>baseUrl\<close> means.
\<close>

definition base_url_config :: "string \<Rightarrow> string \<Rightarrow> TsConfig" where
  "base_url_config d u = (plain_config d)\<lparr>BaseUrl := u,
     explicit := (explicit (plain_config d))\<lparr>set_baseUrl := True\<rparr>\<rparr>"

definition inherited_base_place :: "string \<Rightarrow> TsConfig list \<Rightarrow> string" where
  "inherited_base_place d bases =
     (case merge_bases bases d of
        None \<Rightarrow> ''''
      | Some b \<Rightarrow> path_join [d, path_join [rel_or_dot d (ConfigDir b), BaseUrl b]])"

lemma merged_baseUrl_moves:
  "inherited_base_place ''app'' [base_url_config ''lib'' ''src''] = ''lib/src''"
  "inherited_base_place ''app'' [base_url_config ''lib'' ''src'', plain_config ''lib''] = ''app/src''"
proof -
  have rel: "filepath_Rel ''app'' ''lib'' = Some ''../lib''" "filepath_Rel ''app'' ''app'' = Some ''.''"
    by code_simp+
  have paths: "path_join [''app'', path_join [''../lib'', ''src'']] = ''lib/src''"
    "path_join [''app'', path_join [''.'', ''src'']] = ''app/src''"
    by code_simp+
  have c: "ConfigDir (base_url_config ''lib'' ''src'') = ''lib''"
    "BaseUrl (base_url_config ''lib'' ''src'') = ''src''"
    by (simp_all add: base_url_config_def)
  have "\<not> set_baseUrl (explicit (plain_config ''lib''))"
    unfolding plain_config_def build_config_def Let_def
    by (simp only: TsConfig.select_convs tsConfigExplicit.select_convs)
       (simp add: base_url_def)
  then have m: "BaseUrl (mergeBaseConfigs (base_url_config ''lib'' ''src'') (plain_config ''lib'') ''app'') = ''src''"
    unfolding mergeBaseConfigs_def Let_def by (simp add: c)
  show "inherited_base_place ''app'' [base_url_config ''lib'' ''src''] = ''lib/src''"
    by (simp only: inherited_base_place_def merge_bases_def foldl.simps list.case option.case c
        rel_or_dot_def rel paths)
  show "inherited_base_place ''app'' [base_url_config ''lib'' ''src'', plain_config ''lib''] = ''app/src''"
    by (simp only: inherited_base_place_def merge_bases_def foldl.simps list.case option.case
        rel_or_dot_def merge_ConfigDir m rel paths)
qed

section \<open>Lemmas: joining\<close>

lemma Clean_slash_Nil: "p \<noteq> '''' \<Longrightarrow> Clean (p @ slash # slash # q) = Clean (p @ slash # q)"
  by (rule Clean_eqI)
     (simp_all add: IsAbs_append clean_elems_def Split_append_sep clean_stack_append clean_step_def)

lemma Clean_slash_dot: "p \<noteq> '''' \<Longrightarrow> Clean (p @ slash # CHR ''.'' # slash # q) = Clean (p @ slash # q)"
  by (rule Clean_eqI)
     (simp_all add: IsAbs_append clean_elems_def Split_append_sep clean_stack_append clean_step_def)

text \<open>
  The fast join agrees with \<open>path.Join\<close> except where its shortcut is visible: on three empty
  parts (\<open>path.Join\<close> gives the empty path) and where skipping a leading empty or \<open>.\<close> part lets an
  absolute later part become the front of the path.
\<close>

lemma cleanJoin3_is_path_join:
  assumes "\<not> (a = '''' \<and> b = '''' \<and> c = '''')"
    and "a = ''.'' \<longrightarrow> \<not> IsAbs b \<and> (b \<in> {'''', ''.''} \<longrightarrow> \<not> IsAbs c)"
    and "a = '''' \<and> b = ''.'' \<longrightarrow> \<not> IsAbs c"
  shows "cleanJoin3 a b c = path_join [a, b, c]"
proof (cases "a = '''' \<or> a = ''.''")
  case False
  then show ?thesis
    by (auto simp: cleanJoin3_def Let_def path_join_def Clean_slash_Nil Clean_slash_dot)
next
  case a: True
  have dot: "Clean (CHR ''.'' # slash # q) = Clean q" if "\<not> IsAbs q" for q
    using Clean_dot_slash [OF that] by simp
  show ?thesis
  proof (cases "b = '''' \<or> b = ''.''")
    case True
    have "Clean (CHR ''.'' # slash # slash # q) = Clean (CHR ''.'' # slash # q)"
      "Clean (CHR ''.'' # slash # CHR ''.'' # slash # q) = Clean (CHR ''.'' # slash # q)" for q
      using Clean_slash_Nil [of "''.''" q] Clean_slash_dot [of "''.''" q] by simp_all
    with a True assms dot [of c] show ?thesis
      by (auto simp: cleanJoin3_def Let_def path_join_def)
  next
    case False
    have "\<not> IsAbs (b @ slash # c)" if "a = ''.''"
      using assms(2) that False by (simp add: IsAbs_append)
    with a False dot [of "b @ slash # c"] show ?thesis
      by (auto simp: cleanJoin3_def Let_def path_join_def)
  qed
qed

lemma cleanJoin3_differs: "cleanJoin3 ''.'' ''.'' ''/x'' = ''/x''" "path_join [''.'', ''.'', ''/x''] = ''x''"
  by code_simp+

section \<open>Lemmas: path expansion\<close>

text \<open>The keys whose pattern encloses the import, possibly with an overlap.\<close>

definition encloses :: "string \<Rightarrow> string \<Rightarrow> string \<Rightarrow> bool" where
  "encloses pre suf p \<longleftrightarrow> HasPrefix p pre \<and> HasSuffix p suf"

definition match_of :: "string \<Rightarrow> string \<Rightarrow> string list \<Rightarrow> path_match" where
  "match_of pre suf os = \<lparr>m_prefix = pre, m_suffix = suf, m_originalPaths = os\<rparr>"

lemma possible_match_mem:
  "m \<in> set (possible_match p (key, os)) \<longleftrightarrow>
     (\<exists>pre suf. key = pre @ CHR ''*'' # suf \<and> CHR ''*'' \<notin> set pre \<and> encloses pre suf p \<and>
        m = match_of pre suf os)"
proof (cases "CHR ''*'' \<in> set key")
  case True
  then obtain b a where s: "CutByte key (CHR ''*'') = (b, a, True)" "key = b @ CHR ''*'' # a"
    "CHR ''*'' \<notin> set b"
    using CutByte_found by blast
  have "pre = b \<and> suf = a" if "key = pre @ CHR ''*'' # suf" "CHR ''*'' \<notin> set pre" for pre suf
    using CutByte_append [OF that(2), of suf] s(1) that(1) by simp
  then show ?thesis
    using s by (auto simp: possible_match_def match_of_def encloses_def)
next
  case False
  then show ?thesis by (auto simp: possible_match_def CutByte_not_found)
qed

lemma match_cmp_sign:
  "match_cmp a b < 0 \<longleftrightarrow> match_Less a b" "0 < match_cmp a b \<longleftrightarrow> match_Less b a"
  by (auto simp: match_cmp_def match_Less_def)

lemma comparator_match_cmp: "comparator match_cmp"
proof
  fix a b c :: path_match
  show "match_cmp a b < 0 \<longleftrightarrow> 0 < match_cmp b a" by (simp only: match_cmp_sign)
  assume "match_cmp a b \<le> 0" "match_cmp b c \<le> 0"
  then have "\<not> match_Less b a" "\<not> match_Less c b"
    by (simp_all flip: match_cmp_sign(2))
  then have "\<not> match_Less c a" unfolding match_Less_def by linarith
  then show "match_cmp a c \<le> 0" by (simp flip: match_cmp_sign(2))
qed

interpretation match_order: comparator match_cmp
  by (rule comparator_match_cmp)

lemma match_cmp_zero:
  "match_cmp a b = 0 \<longleftrightarrow>
     length (m_prefix a) = length (m_prefix b) \<and> length (m_suffix a) = length (m_suffix b)"
  by (auto simp: match_cmp_def match_Less_def)

lemma same_length_suffix: "HasSuffix p s \<Longrightarrow> HasSuffix p s' \<Longrightarrow> length s = length s' \<Longrightarrow> s = s'"
  by (auto simp: suffix_def)

lemma same_length_pre: "HasPrefix p s \<Longrightarrow> HasPrefix p s' \<Longrightarrow> length s = length s' \<Longrightarrow> s = s'"
  by (auto simp: prefix_def)

lemma matches_inject:
  assumes "al_wf pathMap" "a \<in> set (concat (map (possible_match p) pathMap))"
    "b \<in> set (concat (map (possible_match p) pathMap))" "match_cmp a b = 0"
  shows "a = b"
proof -
  obtain k os k' os' where m: "(k, os) \<in> set pathMap" "a \<in> set (possible_match p (k, os))"
    "(k', os') \<in> set pathMap" "b \<in> set (possible_match p (k', os'))"
    using assms(2,3) by auto
  then obtain pre suf pre' suf' where
    a: "k = pre @ CHR ''*'' # suf" "encloses pre suf p" "a = match_of pre suf os" and
    b: "k' = pre' @ CHR ''*'' # suf'" "encloses pre' suf' p" "b = match_of pre' suf' os'"
    unfolding possible_match_mem by blast
  from assms(4) a b have "pre = pre'" "suf = suf'"
    by (auto simp: match_cmp_zero match_of_def encloses_def dest: same_length_pre same_length_suffix)
  with a(1) b(1) have "k = k'" by simp
  with m assms(1) have "os = os'" by (metis al_wf_map_of option.inject)
  with a b \<open>pre = pre'\<close> \<open>suf = suf'\<close> show ?thesis by simp
qed

lemma sorted_matches_order:
  assumes "same_map m m'"
  shows "SortFunc match_cmp (concat (map (possible_match p) m)) =
         SortFunc match_cmp (concat (map (possible_match p) m'))"
proof (rule match_order.SortFunc_mset_on)
  have "distinct m" "distinct m'" "set m = set m'"
    using assms by (auto simp: same_map_def al_wf_def distinct_map)
  then have "mset m = mset m'" by (simp add: set_eq_iff_mset_eq_distinct)
  then show "mset (concat (map (possible_match p) m)) = mset (concat (map (possible_match p) m'))"
    unfolding mset_concat map_map sum_mset_sum_list [symmetric] mset_map by simp
  fix a b
  assume "a \<in> set (concat (map (possible_match p) m))" "b \<in> set (concat (map (possible_match p) m))"
    "match_cmp a b = 0"
  moreover have "al_wf m" using assms by (simp add: same_map_def)
  ultimately show "a = b" using matches_inject by blast
qed

text \<open>
  Expanding an import does not depend on the iteration order of the \<open>paths\<close>
  map: two orders of the same map give the same list of candidates in the same order (or both
  panic).
\<close>

theorem ExpandPaths_order_independent:
  assumes "same_map (tp_Map (Paths c)) m'"
  shows "ExpandPaths (c\<lparr>Paths := (Paths c)\<lparr>tp_Map := m'\<rparr>\<rparr>) f p = ExpandPaths c f p"
proof -
  let ?c = "c\<lparr>Paths := (Paths c)\<lparr>tp_Map := m'\<rparr>\<rparr>"
  have e: "expandPathsMatch ?c = expandPathsMatch c" "expandBaseUrl ?c p = expandBaseUrl c p"
    by (simp_all add: expandPathsMatch_def expandBaseUrl_def fun_eq_iff)
  have "expand_match ?c = expand_match c"
    by (simp add: expand_match_def e fun_eq_iff)
  then have "expand_matches ?c p ms = expand_matches c p ms" for ms
    by (induction ms) (simp_all cong: sum.case_cong)
  with sorted_matches_order [OF assms, of p] same_map_map_of [OF assms] show ?thesis
    by (simp add: ExpandPaths_def e Let_def cong: sum.case_cong option.case_cong)
qed

theorem ExpandPaths_order_independent_witness:
  "ExpandPaths ((paths_config ''d'' ''.'')\<lparr>Paths := \<lparr>tp_Rel = ''.'', tp_Map =
       [(''b*'', [''y*'']), (''a*'', [''x*''])]\<rparr>\<rparr>) ''f'' ''aq'' =
   ExpandPaths ((paths_config ''d'' ''.'')\<lparr>Paths := \<lparr>tp_Rel = ''.'', tp_Map =
       [(''a*'', [''x*'']), (''b*'', [''y*''])]\<rparr>\<rparr>) ''f'' ''aq''"
  using ExpandPaths_order_independent [of "(paths_config ''d'' ''.'')\<lparr>Paths := \<lparr>tp_Rel = ''.'', tp_Map =
       [(''a*'', [''x*'']), (''b*'', [''y*''])]\<rparr>\<rparr>" "[(''b*'', [''y*'']), (''a*'', [''x*''])]" "''f''" "''aq''"]
  by (simp add: same_map_def al_wf_def insert_commute)

lemma expand_matches_panic:
  "(\<exists>e. expand_matches c p ms = Inl e) \<longleftrightarrow>
   (\<exists>m \<in> set ms. m_originalPaths m \<noteq> [] \<and> length p < length (m_suffix m) + length (m_prefix m))"
  by (induction ms) (auto simp: expand_match_def Let_def split: sum.splits)

text \<open>
  C34 (error). Expansion panics exactly on an overlap: it does so if and only if some key
  \<open>pre*suf\<close> with a target has a prefix and a suffix that both fit the import but together are
  longer than it; otherwise it returns candidates for every import.
\<close>

theorem ExpandPaths_panics_iff:
  "(\<exists>e. ExpandPaths c f p = Inl e) =
   (\<exists>pre suf os. (pre @ CHR ''*'' # suf, os) \<in> set (tp_Map (Paths c)) \<and> CHR ''*'' \<notin> set pre \<and>
      os \<noteq> [] \<and> HasPrefix p pre \<and> HasSuffix p suf \<and> length p < length pre + length suf)"
proof -
  let ?ms = "SortFunc match_cmp (concat (map (possible_match p) (tp_Map (Paths c))))"
  have "(\<exists>e. ExpandPaths c f p = Inl e) \<longleftrightarrow> (\<exists>e. expand_matches c p ?ms = Inl e)"
    by (simp add: ExpandPaths_def Let_def split: sum.splits)
  also have "\<dots> \<longleftrightarrow> (\<exists>k os m. (k, os) \<in> set (tp_Map (Paths c)) \<and> m \<in> set (possible_match p (k, os)) \<and>
      m_originalPaths m \<noteq> [] \<and> length p < length (m_suffix m) + length (m_prefix m))"
    unfolding expand_matches_panic set_SortFunc by auto
  also have "\<dots> \<longleftrightarrow> (\<exists>pre suf os. (pre @ CHR ''*'' # suf, os) \<in> set (tp_Map (Paths c)) \<and>
      CHR ''*'' \<notin> set pre \<and> os \<noteq> [] \<and> HasPrefix p pre \<and> HasSuffix p suf \<and>
      length p < length pre + length suf)"
    (is "?L \<longleftrightarrow> ?R")
  proof
    assume ?L
    then obtain k os m where "(k, os) \<in> set (tp_Map (Paths c))" "m \<in> set (possible_match p (k, os))"
      "m_originalPaths m \<noteq> []" "length p < length (m_suffix m) + length (m_prefix m)" by blast
    moreover from this(2) obtain pre suf where "k = pre @ CHR ''*'' # suf" "CHR ''*'' \<notin> set pre"
      "encloses pre suf p" "m = match_of pre suf os" unfolding possible_match_mem by blast
    ultimately show ?R
      by (intro exI [of _ pre] exI [of _ suf] exI [of _ os]) (simp add: match_of_def encloses_def)
  next
    assume ?R
    then obtain pre suf os where h: "(pre @ CHR ''*'' # suf, os) \<in> set (tp_Map (Paths c))"
      "CHR ''*'' \<notin> set pre" "os \<noteq> []" "HasPrefix p pre" "HasSuffix p suf"
      "length p < length pre + length suf" by blast
    then have "match_of pre suf os \<in> set (possible_match p (pre @ CHR ''*'' # suf, os))"
      unfolding possible_match_mem by (auto simp: encloses_def)
    with h show ?L
      by (intro exI [of _ "pre @ CHR ''*'' # suf"] exI [of _ os] exI [of _ "match_of pre suf os"])
         (simp add: match_of_def)
  qed
  finally show ?thesis .
qed

lemma ExpandPaths_overlap_panics:
  "\<exists>e. ExpandPaths ((plain_config ''d'')\<lparr>Paths := \<lparr>tp_Rel = ''.'', tp_Map = [(''ab*ba'', [''x'' ])]\<rparr>\<rparr>)
         ''f'' ''aba'' = Inl e"
  unfolding ExpandPaths_panics_iff
  by (intro exI [of _ "''ab''"] exI [of _ "''ba''"] exI [of _ "[''x'']"]) (simp add: suffix_def)

end
