(* ===== verification/Walks.thy ===== *)
theory Walks
  imports Go_Path
begin

text \<open>
  Walking up the directories from a place until something is found: the contract
  \<open>dir_walk\<close> that the program's upward lookups share, with what it gives (the result is the
  nearest one), and the ancestors of a slash-separated path.
\<close>

locale dir_walk =
  fixes up :: "'p \<Rightarrow> 'p" and root :: 'p and size_of :: "'p \<Rightarrow> nat"
    and has :: "'p \<Rightarrow> 'v option" and walk :: "'p \<Rightarrow> 'v option"
  assumes up_less: "p \<noteq> root \<Longrightarrow> size_of (up p) < size_of p"
    and walk_found: "has p = Some v \<Longrightarrow> walk p = Some v"
    and walk_root: "has root = None \<Longrightarrow> walk root = None"
    and walk_up: "has p = None \<Longrightarrow> p \<noteq> root \<Longrightarrow> walk p = walk (up p)"
begin

text \<open>The places a walk visits.\<close>

inductive_set above :: "'p \<Rightarrow> 'p set" for p where
  above_self: "p \<in> above p"
| above_step: "q \<in> above p \<Longrightarrow> q \<noteq> root \<Longrightarrow> up q \<in> above p"

lemma above_up: "q \<in> above (up p) \<Longrightarrow> p \<noteq> root \<Longrightarrow> q \<in> above p"
  by (induction rule: above.induct) (auto intro: above.intros)

lemma above_cases: "q \<in> above p \<Longrightarrow> q = p \<or> (p \<noteq> root \<and> q \<in> above (up p))"
  by (induction rule: above.induct) (auto intro: above.intros)

lemma above_size: "q \<in> above p \<Longrightarrow> q = p \<or> size_of q < size_of p"
proof (induction rule: above.induct)
  case (above_step q)
  then show ?case using up_less [of q] by auto
qed simp

lemma walk_iff:
  "walk p = Some v \<longleftrightarrow>
     (\<exists>q \<in> above p. has q = Some v \<and> (\<forall>r \<in> above p. size_of q < size_of r \<longrightarrow> has r = None))"
proof (induction "size_of p" arbitrary: p rule: less_induct)
  case less
  show ?case
  proof (cases "has p")
    case (Some w)
    have "q = p" if "q \<in> above p" "\<forall>r \<in> above p. size_of q < size_of r \<longrightarrow> has r = None" for q
      using that above_size above_self Some by fastforce
    with Some show ?thesis
      using walk_found [OF Some] above_size above_self
      by (metis option.inject order_less_asym)
  next
    case None
    show ?thesis
    proof (cases "p = root")
      case True
      have "above p = {p}" using above_cases above_self True by blast
      with None True walk_root show ?thesis by simp
    next
      case False
      have "above p = insert p (above (up p))"
        using False above_cases above_self above_up by blast
      with less.hyps [of "up p"] up_less [OF False] walk_up [OF None False] None
      show ?thesis by auto
    qed
  qed
qed

lemma walk_None_iff: "walk p = None \<longleftrightarrow> (\<forall>q \<in> above p. has q = None)"
proof
  assume "walk p = None"
  show "\<forall>q \<in> above p. has q = None"
  proof (rule ccontr)
    assume "\<not> (\<forall>q \<in> above p. has q = None)"
    then obtain q where "q \<in> above p \<and> has q \<noteq> None" by blast
    then have "\<exists>q. q \<in> above p \<and> has q \<noteq> None" by blast
    then obtain q where q: "q \<in> above p" "has q \<noteq> None"
      and max: "\<And>r. r \<in> above p \<and> has r \<noteq> None \<Longrightarrow> size_of r \<le> size_of q"
      using ex_has_greatest_nat [of "\<lambda>q. q \<in> above p \<and> has q \<noteq> None" _ size_of "size_of p"]
        above_size by (metis (no_types, lifting) less_or_eq_imp_le)
    then obtain v where "has q = Some v" by blast
    with q max have "walk p = Some v"
      unfolding walk_iff by (metis linorder_not_le)
    with \<open>walk p = None\<close> show False by simp
  qed
next
  assume "\<forall>q \<in> above p. has q = None"
  then show "walk p = None" by (cases "walk p") (auto simp: walk_iff)
qed

end

section \<open>Ancestors of a path\<close>

text \<open>
  \<open>parent_of\<close> removes the last element; \<open>enclosing q p\<close>: \<open>q\<close> is \<open>p\<close>, a directory above it,
  or the root \<open>''''\<close>.
\<close>

definition parent_of :: "string \<Rightarrow> string" where
  "parent_of p = TrimSuffix (upto_last slash p) [slash]"

definition enclosing :: "string \<Rightarrow> string \<Rightarrow> bool" where
  "enclosing q p \<longleftrightarrow> q = p \<or> q = '''' \<or> prefix (q @ [slash]) p"

lemma parent_of_append: "slash \<notin> set f \<Longrightarrow> parent_of (d @ slash # f) = d"
  using last_split_eq [of slash f d] TrimSuffix_append [of d "[slash]"] by (simp add: parent_of_def)

lemma parent_of_top: "slash \<notin> set p \<Longrightarrow> parent_of p = ''''"
  using last_split_none [of slash p] by (simp add: parent_of_def TrimSuffix_def)

lemma last_slash_cases:
  obtains "slash \<notin> set p" | d f where "p = d @ slash # f" "slash \<notin> set f"
  using split_list_last [of slash p] by blast

lemma length_parent_of: "p \<noteq> '''' \<Longrightarrow> length (parent_of p) < length p"
  by (cases rule: last_slash_cases [of p]) (auto simp: parent_of_append parent_of_top)

lemma enclosing_parent: "p \<noteq> '''' \<Longrightarrow> enclosing q p \<longleftrightarrow> q = p \<or> enclosing q (parent_of p)"
proof (cases rule: last_slash_cases [of p])
  case 1
  then show ?thesis
    by (auto simp: enclosing_def parent_of_top prefix_def)
next
  case (2 d f)
  have "prefix (q @ [slash]) p \<longleftrightarrow> q = d \<or> prefix (q @ [slash]) d"
  proof
    assume "prefix (q @ [slash]) p"
    then obtain r where r: "d @ slash # f = q @ slash # r" using 2(1) by (auto simp: prefix_def)
    then show "q = d \<or> prefix (q @ [slash]) d"
      using 2(2) by (auto simp: append_eq_append_conv2 Cons_eq_append_conv append_eq_Cons_conv)
  next
    assume "q = d \<or> prefix (q @ [slash]) d"
    then show "prefix (q @ [slash]) p" using 2(1) by (auto simp: prefix_def)
  qed
  with 2 show ?thesis by (auto simp: enclosing_def parent_of_append)
qed

lemma enclosing_root: "enclosing q '''' \<longleftrightarrow> q = ''''"
  by (auto simp: enclosing_def)

text \<open>The value at the innermost enclosing directory that has one.\<close>

definition innermost :: "(string \<Rightarrow> 'v option) \<Rightarrow> string \<Rightarrow> 'v \<Rightarrow> bool" where
  "innermost has p v \<longleftrightarrow>
     (\<exists>q. enclosing q p \<and> has q = Some v \<and> (\<forall>r. enclosing r p \<and> length q < length r \<longrightarrow> has r = None))"

locale path_walk = dir_walk parent_of "''''" length has walk
  for has :: "string \<Rightarrow> 'v option" and walk :: "string \<Rightarrow> 'v option"
begin

lemma above_enclosing: "q \<in> above p \<longleftrightarrow> enclosing q p"
proof
  show "q \<in> above p \<Longrightarrow> enclosing q p"
  proof (induction rule: above.induct)
    case above_self
    then show ?case by (simp add: enclosing_def)
  next
    case (above_step q)
    then show ?case
      by (cases rule: last_slash_cases [of q])
         (auto simp: enclosing_def parent_of_append parent_of_top prefix_def)
  qed
  show "enclosing q p \<Longrightarrow> q \<in> above p"
  proof (induction "length p" arbitrary: p rule: less_induct)
    case less
    show ?case
    proof (cases "p = ''''")
      case True
      with less.prems show ?thesis by (simp add: enclosing_root above_self)
    next
      case False
      with less.prems have "q = p \<or> enclosing q (parent_of p)" by (simp add: enclosing_parent)
      with less.hyps [OF length_parent_of [OF False]] False show ?thesis
        by (auto intro: above_self above_up)
    qed
  qed
qed

lemma walk_innermost: "walk p = Some v \<longleftrightarrow> innermost has p v"
  unfolding walk_iff innermost_def by (auto simp: above_enclosing)

lemma walk_none: "walk p = None \<longleftrightarrow> (\<forall>q. enclosing q p \<longrightarrow> has q = None)"
  unfolding walk_None_iff by (auto simp: above_enclosing)

end

end
