(* ===== verification/Pnpm.thy ===== *)
theory Pnpm
  imports Walks Labels Errors
begin

text \<open>
  The pnpm projects of the workspace (\<open>language/js/pnpm/workspace.go\<close>), the reader of pnpm
  lockfiles (\<open>language/js/pnpm/parser.go\<close>, \<open>parser_v5.go\<close>, \<open>parser_v6.go\<close>, \<open>parser_v9.go\<close>)
  and the code of \<open>language/js/generate.go\<close> and \<open>resolve.go\<close> that fills and queries the map.

  A pointer to a project is the path it is registered under (the \<open>project\<close> field), a pointer
  to a workspace its index in the map. The YAML decoder and the version parser are third-party
  and parameters.
\<close>

section \<open>Projects\<close>

record PnpmWorkspace =
  pw_lockfile :: string
  pw_lockdir :: string
  pw_referenced :: "string set"

record PnpmProject =
  pp_workspace :: nat
  pp_references :: "string \<rightharpoonup> string"
  pp_packages :: "string \<rightharpoonup> label"

record PnpmProjectMap =
  pm_workspaces :: "PnpmWorkspace list"
  pm_projects :: "string \<rightharpoonup> PnpmProject"

definition normalizeProject :: "string \<Rightarrow> string" where
  "normalizeProject project = (if project = ''.'' then '''' else TrimSuffix project ''/'')"

definition NewPnpmProjectMap :: PnpmProjectMap where
  "NewPnpmProjectMap = \<lparr>pm_workspaces = [], pm_projects = Map.empty\<rparr>"

text \<open>Returns the index of the new workspace.\<close>

definition NewWorkspace :: "PnpmProjectMap \<Rightarrow> string \<Rightarrow> nat \<times> PnpmProjectMap" where
  "NewWorkspace pm lockfile =
     (length (pm_workspaces pm),
      pm\<lparr>pm_workspaces := pm_workspaces pm @
            [\<lparr>pw_lockfile = lockfile, pw_lockdir = path_Dir lockfile, pw_referenced = {}\<rparr>]\<rparr>)"

definition addProject :: "PnpmProjectMap \<Rightarrow> string \<Rightarrow> PnpmProject \<Rightarrow> PnpmProjectMap outcome" where
  "addProject pm project p =
     (case pm_projects pm project of
        Some existing \<Rightarrow> Inl (Fatal project)
      | None \<Rightarrow> Inr (pm\<lparr>pm_projects := (pm_projects pm)(project \<mapsto> p)\<rparr>))"

definition Root :: "PnpmProjectMap \<Rightarrow> nat \<Rightarrow> string" where
  "Root pm w = pw_lockdir (pm_workspaces pm ! w)"

text \<open>\<open>newPnpmProject\<close>: the path and the fresh project.\<close>

definition newPnpmProject :: "PnpmProjectMap \<Rightarrow> nat \<Rightarrow> string \<Rightarrow> string \<times> PnpmProject" where
  "newPnpmProject pm w project =
     (normalizeProject (path_join [Root pm w, project]),
      \<lparr>pp_workspace = w, pp_references = Map.empty, pp_packages = Map.empty\<rparr>)"

definition AddProject :: "PnpmProjectMap \<Rightarrow> nat \<Rightarrow> string \<Rightarrow> (string \<times> PnpmProjectMap) outcome" where
  "AddProject pm w pkg =
     (case newPnpmProject pm w pkg of (path, project) \<Rightarrow>
        (case addProject pm path project of
           Inl e \<Rightarrow> Inl e
         | Inr pm' \<Rightarrow> Inr (path, pm')))"

text \<open>The next directory that \<open>GetProject\<close> tries.\<close>

definition project_up :: "string \<Rightarrow> string" where
  "project_up project = normalizeProject (fst (path_split project))"

lemma project_up_parent: "project_up p = parent_of p"
proof -
  have "upto_last slash p \<noteq> ''.''"
    using upto_last_cases [of slash p] by (auto simp: append_eq_Cons_conv)
  then show ?thesis
    by (simp add: project_up_def normalizeProject_def path_split_def parent_of_def)
qed

text \<open>The project found, as a pointer.\<close>

function GetProject :: "PnpmProjectMap \<Rightarrow> string \<Rightarrow> string option" where
  "GetProject pm project =
     (if pm_projects pm project = None then
        (if project = '''' then None else GetProject pm (project_up project))
      else Some project)"
  by pat_completeness auto
termination
  by (relation "measure (length \<circ> snd)") (auto simp: project_up_parent length_parent_of)

declare GetProject.simps [simp del]

definition IsProject :: "PnpmProjectMap \<Rightarrow> string \<Rightarrow> bool" where
  "IsProject pm project = (pm_projects pm (normalizeProject project) \<noteq> None)"

definition Workspace_IsReferenced :: "PnpmProjectMap \<Rightarrow> nat \<Rightarrow> string \<Rightarrow> bool" where
  "Workspace_IsReferenced pm w project = (normalizeProject project \<in> pw_referenced (pm_workspaces pm ! w))"

text \<open>Asking for a path that is not a project dereferences nil.\<close>

definition IsReferenced :: "PnpmProjectMap \<Rightarrow> string \<Rightarrow> bool outcome" where
  "IsReferenced pm project =
     (case pm_projects pm (normalizeProject project) of
        None \<Rightarrow> Inl (Panic ''nil dereference'')
      | Some p \<Rightarrow> Inr (Workspace_IsReferenced pm (pp_workspace p) (normalizeProject project)))"

definition with_workspace ::
  "PnpmProjectMap \<Rightarrow> nat \<Rightarrow> (PnpmWorkspace \<Rightarrow> PnpmWorkspace) \<Rightarrow> PnpmProjectMap" where
  "with_workspace pm w f = pm\<lparr>pm_workspaces := (pm_workspaces pm)[w := f (pm_workspaces pm ! w)]\<rparr>"

definition with_project ::
  "PnpmProjectMap \<Rightarrow> string \<Rightarrow> (PnpmProject \<Rightarrow> PnpmProject) \<Rightarrow> PnpmProjectMap" where
  "with_project pm p f = pm\<lparr>pm_projects := (pm_projects pm)(p := map_option f (pm_projects pm p))\<rparr>"

definition project_workspace :: "PnpmProjectMap \<Rightarrow> string \<Rightarrow> nat" where
  "project_workspace pm p = pp_workspace (the (pm_projects pm p))"

definition addLocalReference :: "PnpmProjectMap \<Rightarrow> string \<Rightarrow> string \<Rightarrow> string \<Rightarrow> PnpmProjectMap" where
  "addLocalReference pm p pkg dir =
     with_workspace (with_project pm p (\<lambda>r. r\<lparr>pp_references := (pp_references r)(pkg \<mapsto> dir)\<rparr>))
       (project_workspace pm p)
       (\<lambda>w. w\<lparr>pw_referenced := insert (normalizeProject dir) (pw_referenced w)\<rparr>)"

definition GetLocalReference :: "PnpmProjectMap \<Rightarrow> string \<Rightarrow> string \<Rightarrow> string option" where
  "GetLocalReference pm p pkg = pp_references (the (pm_projects pm p)) pkg"

definition AddPackage ::
  "PnpmProjectMap \<Rightarrow> string \<Rightarrow> string \<Rightarrow> string \<Rightarrow> label \<Rightarrow> PnpmProjectMap" where
  "AddPackage pm p pkg version lbl =
     (let pm' = with_project pm p (\<lambda>r. r\<lparr>pp_packages := (pp_packages r)(pkg \<mapsto> lbl)\<rparr>)
      in if HasPrefix version ''link:'' then
           addLocalReference pm' p pkg (path_join [p, drop 5 version])
         else if HasPrefix version ''file:'' then
           addLocalReference pm' p pkg
             (path_join [Root pm' (project_workspace pm' p), drop 5 version])
         else pm')"

definition Parent :: "PnpmProjectMap \<Rightarrow> string \<Rightarrow> string option" where
  "Parent pm p =
     (case path_split p of (d, _) \<Rightarrow>
        let pp = GetProject pm (normalizeProject d) in if pp = Some p then None else pp)"

lemma GetProject_length: "GetProject pm p = Some q \<Longrightarrow> length q \<le> length p"
proof (induction pm p rule: GetProject.induct)
  case (1 pm p)
  show ?case
  proof (cases "pm_projects pm p = None \<and> p \<noteq> ''''")
    case True
    with 1 have "length q \<le> length (project_up p)" by (simp add: GetProject.simps [of pm p])
    with True show ?thesis using length_parent_of [of p] by (simp add: project_up_parent)
  next
    case False
    with 1(2) show ?thesis by (simp add: GetProject.simps [of pm p] split: if_splits)
  qed
qed

lemma Parent_length: "Parent pm p = Some q \<Longrightarrow> length q < length p"
proof -
  assume h: "Parent pm p = Some q"
  then have q: "GetProject pm (project_up p) = Some q" "q \<noteq> p"
    by (auto simp: Parent_def project_up_def Let_def path_split_def split: if_splits)
  show ?thesis
  proof (cases "p = ''''")
    case True
    with q show ?thesis using GetProject_length [OF q(1)] by (simp add: project_up_parent parent_of_top)
  next
    case False
    with GetProject_length [OF q(1)] length_parent_of [of p] show ?thesis
      by (simp add: project_up_parent)
  qed
qed

function Get :: "PnpmProjectMap \<Rightarrow> string \<Rightarrow> string \<Rightarrow> label option" where
  "Get pm p pkg =
     (case pp_packages (the (pm_projects pm p)) pkg of
        Some found \<Rightarrow> Some found
      | None \<Rightarrow> (case Parent pm p of None \<Rightarrow> None | Some q \<Rightarrow> Get pm q pkg))"
  by pat_completeness auto
termination
  by (relation "measure (\<lambda>(pm, p, pkg). length p)") (auto dest: Parent_length)

declare Get.simps [simp del]

text \<open>\<open>findPackage\<close> of \<open>resolve.go\<close>.\<close>

definition findPackage :: "PnpmProjectMap \<Rightarrow> string \<Rightarrow> string \<Rightarrow> label option" where
  "findPackage pm from_dir impPkg =
     (case GetProject pm from_dir of
        None \<Rightarrow> None
      | Some fromProject \<Rightarrow> Get pm fromProject impPkg)"

section \<open>Lookups find the innermost project\<close>

interpretation project_walk: path_walk
  "\<lambda>p. if pm_projects pm p = None then None else Some p" "GetProject pm" for pm
proof
  fix p v
  show "p \<noteq> '''' \<Longrightarrow> length (parent_of p) < length p" by (rule length_parent_of)
  show "(if pm_projects pm p = None then None else Some p) = Some v \<Longrightarrow> GetProject pm p = Some v"
    unfolding GetProject.simps [of pm p] by (auto split: if_splits)
  show "(if pm_projects pm '''' = None then None else Some '''') = None \<Longrightarrow> GetProject pm '''' = None"
    by (simp add: GetProject.simps [of pm "''''"] split: if_splits)
  show "(if pm_projects pm p = None then None else Some p) = None \<Longrightarrow> p \<noteq> '''' \<Longrightarrow>
      GetProject pm p = GetProject pm (parent_of p)"
    by (simp add: GetProject.simps [of pm p] project_up_parent split: if_splits)
qed

text \<open>What the project at a path declares for a package.\<close>

definition declared :: "PnpmProjectMap \<Rightarrow> string \<Rightarrow> string \<Rightarrow> label option" where
  "declared pm pkg p = (case pm_projects pm p of None \<Rightarrow> None | Some pr \<Rightarrow> pp_packages pr pkg)"

lemma Parent_eq: "p \<noteq> '''' \<Longrightarrow> Parent pm p = GetProject pm (parent_of p)"
  using GetProject_length [of pm "parent_of p" p] length_parent_of [of p]
  by (auto simp: Parent_def project_up_parent [symmetric] project_up_def Let_def path_split_def)

lemma Parent_root: "Parent pm '''' = None"
  using Parent_length [of pm "''''"] by (cases "Parent pm ''''") auto

interpretation package_walk: path_walk "declared pm pkg" "\<lambda>p. findPackage pm p pkg" for pm pkg
proof
  fix p v
  show "p \<noteq> '''' \<Longrightarrow> length (parent_of p) < length p" by (rule length_parent_of)
  show "declared pm pkg p = Some v \<Longrightarrow> findPackage pm p pkg = Some v"
    by (auto simp: declared_def findPackage_def GetProject.simps [of pm p] Get.simps [of pm p]
        split: option.splits)
  show "declared pm pkg '''' = None \<Longrightarrow> findPackage pm '''' pkg = None"
    by (auto simp: declared_def findPackage_def GetProject.simps [of pm "''''"] Get.simps [of pm "''''"]
        Parent_root split: option.splits)
  assume p: "declared pm pkg p = None" "p \<noteq> ''''"
  show "findPackage pm p pkg = findPackage pm (parent_of p) pkg"
  proof (cases "pm_projects pm p")
    case None
    with p show ?thesis by (simp add: findPackage_def GetProject.simps [of pm p] project_up_parent)
  next
    case (Some pr)
    with p show ?thesis
      by (simp add: findPackage_def GetProject.simps [of pm p] declared_def Get.simps [of pm p] Parent_eq)
  qed
qed

text \<open>
  C28 (functional). Looking up the project of a path finds the innermost registered project whose
  directory is the path or encloses it, and finds none exactly when no such project exists. A
  package import resolves from a directory to the label declared for it by the innermost
  enclosing project that declares that package: projects in between that do not declare it are
  transparent, and inner declarations shadow outer ones.
\<close>

theorem findPackage_innermost:
  "((GetProject pm p = Some q) =
     (enclosing q p \<and> pm_projects pm q \<noteq> None \<and>
      {r. enclosing r p \<and> length q < length r \<and> pm_projects pm r \<noteq> None} = {})) \<and>
   ((findPackage pm p pkg = Some l) =
     (\<exists>q. enclosing q p \<and> declared pm pkg q = Some l \<and>
        {r. enclosing r p \<and> length q < length r \<and> declared pm pkg r \<noteq> None} = {}))"
  unfolding project_walk.walk_innermost package_walk.walk_innermost innermost_def
  by (intro conjI) (auto split: if_splits)

section \<open>Adding packages\<close>

lemma with_project_lookup [simp]:
  "pm_projects (with_project pm p f) q = (if q = p then map_option f (pm_projects pm p) else pm_projects pm q)"
  "pm_workspaces (with_project pm p f) = pm_workspaces pm"
  by (simp_all add: with_project_def)

lemma with_workspace_lookup [simp]:
  "pm_projects (with_workspace pm w f) = pm_projects pm"
  "length (pm_workspaces (with_workspace pm w f)) = length (pm_workspaces pm)"
  "w < length (pm_workspaces pm) \<Longrightarrow>
     pm_workspaces (with_workspace pm w f) ! v =
       (if v = w then f (pm_workspaces pm ! w) else pm_workspaces pm ! v)"
  by (simp_all add: with_workspace_def)

text \<open>The directory a dependency version refers to, if it is a local one.\<close>

definition local_target :: "PnpmProjectMap \<Rightarrow> string \<Rightarrow> string \<Rightarrow> string option" where
  "local_target pm p version =
     (if HasPrefix version ''link:'' then Some (path_join [p, drop 5 version])
      else if HasPrefix version ''file:'' then
        Some (path_join [Root pm (project_workspace pm p), drop 5 version])
      else None)"

text \<open>Registered projects live in existing workspaces.\<close>

definition pnpm_wf :: "PnpmProjectMap \<Rightarrow> bool" where
  "pnpm_wf pm \<longleftrightarrow> (\<forall>p pr. pm_projects pm p = Some pr \<longrightarrow> pp_workspace pr < length (pm_workspaces pm))"

lemma AddPackage_eq:
  "AddPackage pm p pkg version lbl =
     (let pm' = with_project pm p (\<lambda>r. r\<lparr>pp_packages := (pp_packages r)(pkg \<mapsto> lbl)\<rparr>)
      in case local_target pm' p version of
           None \<Rightarrow> pm' | Some dir \<Rightarrow> addLocalReference pm' p pkg dir)"
  by (simp add: AddPackage_def local_target_def Let_def)

lemma with_project_root [simp]:
  "Root (with_project pm p f) w = Root pm w"
  by (simp add: Root_def)

lemma local_target_with_project:
  "pm_projects pm p = Some pr \<Longrightarrow> pp_workspace (f pr) = pp_workspace pr \<Longrightarrow>
   local_target (with_project pm p f) p version = local_target pm p version"
  by (simp add: local_target_def project_workspace_def)

lemma AddPackage_state:
  assumes "pm_projects pm p = Some pr" "pnpm_wf pm"
  shows "pm_projects (AddPackage pm p pkg version lbl) =
           (pm_projects pm)(p \<mapsto> pr\<lparr>pp_packages := (pp_packages pr)(pkg \<mapsto> lbl),
              pp_references := (case local_target pm p version of
                  None \<Rightarrow> pp_references pr | Some d \<Rightarrow> (pp_references pr)(pkg \<mapsto> d))\<rparr>)"
    and "pm_workspaces (AddPackage pm p pkg version lbl) =
           (case local_target pm p version of
              None \<Rightarrow> pm_workspaces pm
            | Some d \<Rightarrow> (pm_workspaces pm)[pp_workspace pr := (pm_workspaces pm ! pp_workspace pr)
                \<lparr>pw_referenced := insert (normalizeProject d)
                    (pw_referenced (pm_workspaces pm ! pp_workspace pr))\<rparr>])"
proof -
  let ?pm = "with_project pm p (\<lambda>r. r\<lparr>pp_packages := (pp_packages r)(pkg \<mapsto> lbl)\<rparr>)"
  have t: "local_target ?pm p version = local_target pm p version"
    by (rule local_target_with_project [OF assms(1)]) simp
  show "pm_projects (AddPackage pm p pkg version lbl) =
           (pm_projects pm)(p \<mapsto> pr\<lparr>pp_packages := (pp_packages pr)(pkg \<mapsto> lbl),
              pp_references := (case local_target pm p version of
                  None \<Rightarrow> pp_references pr | Some d \<Rightarrow> (pp_references pr)(pkg \<mapsto> d))\<rparr>)"
    by (cases "local_target pm p version")
       (simp_all add: AddPackage_eq Let_def t addLocalReference_def assms(1) fun_eq_iff)
  show "pm_workspaces (AddPackage pm p pkg version lbl) =
           (case local_target pm p version of
              None \<Rightarrow> pm_workspaces pm
            | Some d \<Rightarrow> (pm_workspaces pm)[pp_workspace pr := (pm_workspaces pm ! pp_workspace pr)
                \<lparr>pw_referenced := insert (normalizeProject d)
                    (pw_referenced (pm_workspaces pm ! pp_workspace pr))\<rparr>])"
    by (cases "local_target pm p version")
       (simp_all add: AddPackage_eq Let_def t addLocalReference_def with_workspace_def
         project_workspace_def assms(1))
qed

lemma AddPackage_wf:
  assumes "pm_projects pm p = Some pr" "pnpm_wf pm"
  shows "pnpm_wf (AddPackage pm p pkg version lbl)"
  using assms unfolding pnpm_wf_def AddPackage_state [OF assms]
  by (auto split: option.splits if_splits)

text \<open>
  Recording a dependency of a registered project changes exactly what it
  should: the label of that package of that project; and for a \<open>link:\<close> or \<open>file:\<close> version
  the local reference of the project and the referenced mark, in the project's own workspace,
  of the directory it resolves to (against the project for a link, against the lockfile's
  directory for a file). Other versions mark nothing.
\<close>

lemma AddPackage_effect:
  assumes "pnpm_wf pm" "pm_projects pm p = Some pr"
  shows "declared (AddPackage pm p pkg version lbl) pk q =
           (if q = p \<and> pk = pkg then Some lbl else declared pm pk q) \<and>
         Workspace_IsReferenced (AddPackage pm p pkg version lbl) w d =
           (Workspace_IsReferenced pm w d \<or>
            (w = pp_workspace pr \<and>
             map_option normalizeProject (local_target pm p version) = Some (normalizeProject d))) \<and>
         GetLocalReference (AddPackage pm p pkg version lbl) p pk =
           (if pk = pkg \<and> local_target pm p version \<noteq> None then local_target pm p version
            else GetLocalReference pm p pk)"
proof -
  have len: "pp_workspace pr < length (pm_workspaces pm)"
    using assms by (auto simp: pnpm_wf_def)
  note st = AddPackage_state [OF assms(2,1)]
  have "declared (AddPackage pm p pkg version lbl) pk q =
           (if q = p \<and> pk = pkg then Some lbl else declared pm pk q)"
    by (simp add: declared_def st assms(2))
  moreover have "Workspace_IsReferenced (AddPackage pm p pkg version lbl) w d =
           (Workspace_IsReferenced pm w d \<or>
            (w = pp_workspace pr \<and>
             map_option normalizeProject (local_target pm p version) = Some (normalizeProject d)))"
    using len by (cases "local_target pm p version")
      (auto simp: Workspace_IsReferenced_def st nth_list_update)
  moreover have "GetLocalReference (AddPackage pm p pkg version lbl) p pk =
           (if pk = pkg \<and> local_target pm p version \<noteq> None then local_target pm p version
            else GetLocalReference pm p pk)"
    by (cases "local_target pm p version") (simp_all add: GetLocalReference_def st assms(2))
  ultimately show ?thesis by blast
qed

section \<open>Lockfiles\<close>

text \<open>The sections of a project; \<open>'v\<close> is the type of an entry in a version of the format.\<close>

record 'v importer =
  im_Dependencies :: "string \<rightharpoonup> 'v"
  im_DevDependencies :: "string \<rightharpoonup> 'v"
  im_PeerDependencies :: "string \<rightharpoonup> 'v"
  im_OptionalDependencies :: "string \<rightharpoonup> 'v"

record 'v PnpmLockfile =
  lf_root :: "'v importer"
  lf_Importers :: "(string \<rightharpoonup> 'v importer) option"

datatype 'a decoded = DecodeEOF | DecodeError string | Decoded 'a

record packageInfoV6 =
  v6_Version :: string

record lock_decoders =
  decode_v5 :: "string \<Rightarrow> string PnpmLockfile decoded"
  decode_v6 :: "string \<Rightarrow> packageInfoV6 PnpmLockfile decoded"
  semver_major :: "string \<Rightarrow> string + nat"

datatype lock_error =
  LineTooLong | NoVersionIn string | BadSemver string string | UnsupportedVersion string
| ParseError string

type_synonym version_map = "string \<rightharpoonup> (string \<rightharpoonup> string)"

definition mergeDependenciesV5 :: "(string \<rightharpoonup> string) list \<Rightarrow> (string \<rightharpoonup> string)" where
  "mergeDependenciesV5 d = foldl (++) Map.empty d"

definition mergeDependenciesV6 :: "(string \<rightharpoonup> packageInfoV6) list \<Rightarrow> (string \<rightharpoonup> string)" where
  "mergeDependenciesV6 d = foldl (\<lambda>result m. result ++ (map_option v6_Version \<circ> m)) Map.empty d"

definition sections :: "'v importer \<Rightarrow> (string \<rightharpoonup> 'v) list" where
  "sections i = [im_Dependencies i, im_DevDependencies i, im_PeerDependencies i, im_OptionalDependencies i]"

text \<open>A nil result map is \<open>None\<close>.\<close>

definition parsePnpmLockDependenciesV5 ::
  "lock_decoders \<Rightarrow> string \<Rightarrow> lock_error + version_map option" where
  "parsePnpmLockDependenciesV5 dec rest =
     (case decode_v5 dec rest of
        DecodeEOF \<Rightarrow> Inr None
      | DecodeError e \<Rightarrow> Inl (ParseError e)
      | Decoded lockfile \<Rightarrow>
        (case lf_Importers lockfile of
           Some importers \<Rightarrow>
             Inr (Some (\<lambda>pkg. map_option (\<lambda>i. mergeDependenciesV5 (sections i)) (importers pkg)))
         | None \<Rightarrow> Inr (Some [''.'' \<mapsto> mergeDependenciesV5 (sections (lf_root lockfile))])))"

definition parsePnpmLockDependenciesV6 ::
  "lock_decoders \<Rightarrow> string \<Rightarrow> lock_error + version_map option" where
  "parsePnpmLockDependenciesV6 dec rest =
     (case decode_v6 dec rest of
        DecodeEOF \<Rightarrow> Inr None
      | DecodeError e \<Rightarrow> Inl (ParseError e)
      | Decoded lockfile \<Rightarrow>
        (case lf_Importers lockfile of
           Some importers \<Rightarrow>
             Inr (Some (\<lambda>pkg. map_option (\<lambda>i. mergeDependenciesV6 (sections i)) (importers pkg)))
         | None \<Rightarrow> Inr (Some [''.'' \<mapsto> mergeDependenciesV6 (sections (lf_root lockfile))])))"

definition parsePnpmLockDependenciesV9 ::
  "lock_decoders \<Rightarrow> string \<Rightarrow> lock_error + version_map option" where
  "parsePnpmLockDependenciesV9 dec rest = parsePnpmLockDependenciesV6 dec rest"

text \<open>
  \<open>bufio.Reader.ReadLine\<close> on a fresh reader over the content: the first line without its end,
  whether it is a prefix of one longer than the buffer, and the unread rest; \<open>None\<close> at the end
  of the input.
\<close>

definition read_line :: "string \<Rightarrow> (string \<times> bool \<times> string) option" where
  "read_line content =
     (if content = '''' then None
      else case CutByte content (CHR 0x0A) of (line, rest, found) \<Rightarrow>
        if length line \<ge> 4096 then Some (take 4096 content, True, drop 4096 content)
        else Some (if found then TrimSuffix line [CHR 0x0D] else line, False, rest))"

definition is_digit :: "char \<Rightarrow> bool" where
  "is_digit c = (CHR ''0'' \<le> c \<and> c \<le> CHR ''9'')"

text \<open>\<open>\s\<close> of the regular expression: tab, newline, form feed, carriage return, space.\<close>

definition re_space :: "char \<Rightarrow> bool" where
  "re_space c = (c \<in> {CHR 0x09, CHR 0x0A, CHR 0x0C, CHR 0x0D, CHR '' ''})"

text \<open>The submatch of \<open>lockVersionRegex\<close>.\<close>

definition lockVersionRegex :: "string \<Rightarrow> string option" where
  "lockVersionRegex line =
     (let s = dropWhile re_space line;
          key = ''lockfileVersion: ''
      in if \<not> HasPrefix s key then None
         else
           let v = TrimPrefix (drop (length key) s) [CHR 0x27];
               major = takeWhile is_digit v;
               r = drop (length major) v
           in if major = '''' \<or> \<not> HasPrefix r ''.'' then None
              else
                let minor = takeWhile is_digit (drop 1 r)
                in if minor = '''' then None else Some (major @ ''.'' @ minor))"

text \<open>The version, empty for an empty file, and the unread rest.\<close>

definition parsePnpmLockVersion :: "string \<Rightarrow> lock_error + (string \<times> string)" where
  "parsePnpmLockVersion content =
     (case read_line content of
        None \<Rightarrow> Inr ('''', '''')
      | Some (line, isShort, rest) \<Rightarrow>
        if isShort then Inl LineTooLong
        else (case lockVersionRegex line of
                None \<Rightarrow> Inl (NoVersionIn line)
              | Some version \<Rightarrow> Inr (version, rest)))"

definition ParsePnpmLockFileDependencies ::
  "lock_decoders \<Rightarrow> string \<Rightarrow> lock_error + version_map option" where
  "ParsePnpmLockFileDependencies dec content =
     (case parsePnpmLockVersion content of
        Inl e \<Rightarrow> Inl e
      | Inr (versionStr, rest) \<Rightarrow>
        if versionStr = '''' then Inr None
        else
          (case semver_major dec versionStr of
             Inl e \<Rightarrow> Inl (BadSemver versionStr e)
           | Inr major \<Rightarrow>
             if major = 5 then parsePnpmLockDependenciesV5 dec rest
             else if major = 6 then parsePnpmLockDependenciesV6 dec rest
             else if major = 9 then parsePnpmLockDependenciesV9 dec rest
             else Inl (UnsupportedVersion versionStr)))"

text \<open>The dependency versions of a section list: the last section that has the name wins.\<close>

lemma mergeV5_lookup: "mergeDependenciesV5 d pkg = first_some (\<lambda>m. m pkg) (rev d)"
  unfolding mergeDependenciesV5_def
  by (induction d rule: rev_induct) (auto simp: map_add_def split: option.splits)

lemma mergeV6_lookup: "mergeDependenciesV6 d pkg = map_option v6_Version (first_some (\<lambda>m. m pkg) (rev d))"
  unfolding mergeDependenciesV6_def
  by (induction d rule: rev_induct) (auto simp: map_add_def split: option.splits)

lemma lockVersionRegex_canonical:
  assumes "major \<noteq> ''''" "minor \<noteq> ''''" "list_all is_digit major" "list_all is_digit minor"
  shows "lockVersionRegex (''lockfileVersion: '' @ major @ ''.'' @ minor) = Some (major @ ''.'' @ minor)"
    and "lockVersionRegex (''lockfileVersion: '' @ [CHR 0x27] @ major @ ''.'' @ minor @ [CHR 0x27])
         = Some (major @ ''.'' @ minor)"
proof -
  have nd: "\<not> is_digit CHR ''.''" "\<not> is_digit (CHR 0x27)" by (simp_all add: is_digit_def)
  have mj: "takeWhile is_digit (major @ CHR ''.'' # t) = major" for t
    using assms(3) nd by (simp add: takeWhile_append2 list_all_iff)
  have mn: "takeWhile is_digit (minor @ [CHR 0x27]) = minor" "takeWhile is_digit minor = minor"
    using assms(4) nd by (simp_all add: takeWhile_append2 list_all_iff takeWhile_eq_all_conv)
  have "hd major \<noteq> CHR 0x27" using assms(1,3) nd by (cases major) auto
  then have tp: "TrimPrefix (major @ t) [CHR 0x27] = major @ t" for t
    using assms(1) by (cases major) (auto simp: TrimPrefix_def)
  show "lockVersionRegex (''lockfileVersion: '' @ major @ ''.'' @ minor) = Some (major @ ''.'' @ minor)"
    using assms(1,2) by (simp add: lockVersionRegex_def re_space_def mj mn tp Let_def)
  show "lockVersionRegex (''lockfileVersion: '' @ [CHR 0x27] @ major @ ''.'' @ minor @ [CHR 0x27])
         = Some (major @ ''.'' @ minor)"
    using assms(1,2) by (simp add: lockVersionRegex_def re_space_def mj mn TrimPrefix_def Let_def)
qed

text \<open>
  Reading a lockfile of format 6 or 9 with the usual quoted version header
  gives for every importer (for the root project \<open>.\<close> alone when the file lists none) exactly
  the version recorded for each dependency, where optional wins over peer, peer over
  development and development over regular dependencies.
\<close>

theorem lockfile_versions:
  assumes "major \<noteq> ''''" "minor \<noteq> ''''" "list_all is_digit major" "list_all is_digit minor"
    and "length major + length minor < 4000"
    and "semver_major dec (major @ ''.'' @ minor) \<in> {Inr 6, Inr 9}" "decode_v6 dec rest = Decoded lf"
  shows "ParsePnpmLockFileDependencies dec
           (''lockfileVersion: '' @ [CHR 0x27] @ major @ ''.'' @ minor @ [CHR 0x27] @ [CHR 0x0A] @ rest) =
         Inr (Some (\<lambda>project. map_option
                (\<lambda>i pkg. map_option v6_Version
                   (first_some (\<lambda>m. m pkg) [im_OptionalDependencies i, im_PeerDependencies i,
                                            im_DevDependencies i, im_Dependencies i]))
                (case lf_Importers lf of
                   Some importers \<Rightarrow> importers project
                 | None \<Rightarrow> if project = ''.'' then Some (lf_root lf) else None)))"
proof -
  let ?line = "''lockfileVersion: '' @ [CHR 0x27] @ major @ ''.'' @ minor @ [CHR 0x27]"
  have "CHR 0x0A \<notin> set ?line"
    using assms(3,4) by (auto simp: list_all_iff is_digit_def)
  then have "CutByte (?line @ CHR 0x0A # rest) (CHR 0x0A) = (?line, rest, True)"
    by (rule CutByte_append)
  moreover have "TrimSuffix ?line [CHR 0x0D] = ?line"
    by (auto simp: TrimSuffix_def suffix_def append_eq_append_conv2 Cons_eq_append_conv)
  ultimately have "read_line (?line @ CHR 0x0A # rest) = Some (?line, False, rest)"
    using assms(5) by (simp add: read_line_def)
  with lockVersionRegex_canonical(2) [OF assms(1-4)]
  have v: "parsePnpmLockVersion (?line @ CHR 0x0A # rest) = Inr (major @ ''.'' @ minor, rest)"
    by (simp add: parsePnpmLockVersion_def)
  have merged: "mergeDependenciesV6 (sections i) = (\<lambda>pkg. map_option v6_Version
        (first_some (\<lambda>m. m pkg) [im_OptionalDependencies i, im_PeerDependencies i,
                                 im_DevDependencies i, im_Dependencies i]))" for i
    by (rule ext) (simp add: mergeV6_lookup sections_def)
  have "parsePnpmLockDependenciesV6 dec rest =
      Inr (Some (\<lambda>project. map_option (\<lambda>i. mergeDependenciesV6 (sections i))
             (case lf_Importers lf of Some importers \<Rightarrow> importers project
              | None \<Rightarrow> if project = ''.'' then Some (lf_root lf) else None)))"
    using assms(7) by (auto simp: parsePnpmLockDependenciesV6_def split: option.splits)
  with assms(1,6) v show ?thesis
    by (auto simp: ParsePnpmLockFileDependencies_def parsePnpmLockDependenciesV9_def merged)
qed

definition sample_importer :: "packageInfoV6 importer" where
  "sample_importer = \<lparr>im_Dependencies = [''a'' \<mapsto> \<lparr>v6_Version = ''1.0''\<rparr>],
     im_DevDependencies = [''a'' \<mapsto> \<lparr>v6_Version = ''2.0''\<rparr>],
     im_PeerDependencies = Map.empty, im_OptionalDependencies = Map.empty\<rparr>"

definition sample_decoders :: lock_decoders where
  "sample_decoders = \<lparr>decode_v5 = (\<lambda>_. DecodeEOF),
     decode_v6 = (\<lambda>_. Decoded \<lparr>lf_root = sample_importer, lf_Importers = None\<rparr>),
     semver_major = (\<lambda>v. if HasPrefix v ''9.'' then Inr 9 else Inl ''bad'')\<rparr>"

theorem lockfile_versions_witness:
  "\<exists>m p. ParsePnpmLockFileDependencies sample_decoders
     (''lockfileVersion: '' @ [CHR 0x27] @ ''9'' @ ''.'' @ ''0'' @ [CHR 0x27] @ [CHR 0x0A] @ ''x'') =
     Inr (Some m) \<and> m ''.'' = Some p \<and> p ''a'' = Some ''2.0''"
  using lockfile_versions [of "''9''" "''0''" sample_decoders "''x''"
      "\<lparr>lf_root = sample_importer, lf_Importers = None\<rparr>"]
  by (simp add: is_digit_def sample_decoders_def sample_importer_def)

section \<open>Filling the map\<close>

text \<open>
  \<open>addPnpmLockfile\<close> of \<open>generate.go\<close>. The parsed lockfile is what reading it through the file
  cache returned, its maps in one iteration order; a nil map has no projects.
\<close>

type_synonym parsed_lockfile = "(string, (string, string) gomap) gomap"

definition package_label :: "string \<Rightarrow> string \<Rightarrow> string \<Rightarrow> string \<Rightarrow> label" where
  "package_label repo linkAll project pkg = Label repo project (linkAll @ ''/'' @ pkg) False"

definition add_packages ::
  "string \<Rightarrow> string \<Rightarrow> string \<Rightarrow> PnpmProjectMap \<Rightarrow> (string, string) gomap \<Rightarrow> PnpmProjectMap" where
  "add_packages repo linkAll p pm packages =
     foldl (\<lambda>pm (pkg, version). AddPackage pm p pkg version (package_label repo linkAll p pkg)) pm packages"

fun add_projects ::
  "string \<Rightarrow> string \<Rightarrow> nat \<Rightarrow> PnpmProjectMap \<Rightarrow> parsed_lockfile \<Rightarrow> PnpmProjectMap outcome" where
  "add_projects repo linkAll w pm [] = Inr pm"
| "add_projects repo linkAll w pm ((project, packages) # rest) =
     (case AddProject pm w project of
        Inl e \<Rightarrow> Inl e
      | Inr (p, pm') \<Rightarrow> add_projects repo linkAll w (add_packages repo linkAll p pm' packages) rest)"

definition addPnpmLockfile ::
  "string \<Rightarrow> string \<Rightarrow> string + parsed_lockfile \<Rightarrow> string \<Rightarrow> exts \<Rightarrow> PnpmProjectMap \<Rightarrow>
   (exts \<times> PnpmProjectMap) outcome" where
  "addPnpmLockfile repo linkAll parsed lockfileRel c pm =
     (case parsed of
        Inl readErr \<Rightarrow>
          (case MisconfiguredErrorf c readErr of Inl e \<Rightarrow> Inl e | Inr c' \<Rightarrow> Inr (c', pm))
      | Inr projects \<Rightarrow>
          (case NewWorkspace pm lockfileRel of (w, pm') \<Rightarrow>
             (case add_projects repo linkAll w pm' projects of
                Inl e \<Rightarrow> Inl e | Inr pm'' \<Rightarrow> Inr (c, pm''))))"

text \<open>What a fold of \<open>AddPackage\<close> does to the projects.\<close>

lemma add_packages_state:
  assumes "pnpm_wf pm" "pm_projects pm p \<noteq> None"
  shows "pnpm_wf (add_packages repo linkAll p pm packages) \<and>
    length (pm_workspaces (add_packages repo linkAll p pm packages)) = length (pm_workspaces pm) \<and>
    pm_projects (add_packages repo linkAll p pm packages) p \<noteq> None \<and>
    (\<forall>q. q \<noteq> p \<longrightarrow> pm_projects (add_packages repo linkAll p pm packages) q = pm_projects pm q) \<and>
    (\<forall>w. pw_lockdir (pm_workspaces (add_packages repo linkAll p pm packages) ! w) =
           pw_lockdir (pm_workspaces pm ! w)) \<and>
    (\<forall>pkg. declared (add_packages repo linkAll p pm packages) pkg p =
       (if pkg \<in> fst ` set packages then Some (package_label repo linkAll p pkg) else declared pm pkg p))"
  using assms
proof (induction packages arbitrary: pm)
  case Nil
  then show ?case by (simp add: add_packages_def)
next
  case (Cons pv packages)
  obtain pkg version where pv: "pv = (pkg, version)" by (cases pv)
  obtain pr where pr: "pm_projects pm p = Some pr" using Cons.prems by auto
  let ?pm = "AddPackage pm p pkg version (package_label repo linkAll p pkg)"
  note st = AddPackage_state [OF pr Cons.prems(1), of pkg version "package_label repo linkAll p pkg"]
  have wf: "pnpm_wf ?pm" by (rule AddPackage_wf [OF pr Cons.prems(1)])
  have reg: "pm_projects ?pm p \<noteq> None" by (simp add: st)
  have step: "add_packages repo linkAll p pm (pv # packages) = add_packages repo linkAll p ?pm packages"
    by (simp add: add_packages_def pv)
  have len: "length (pm_workspaces ?pm) = length (pm_workspaces pm)"
    by (simp add: st split: option.splits)
  have dir: "pw_lockdir (pm_workspaces ?pm ! w) = pw_lockdir (pm_workspaces pm ! w)" for w
  proof -
    have "pp_workspace pr < length (pm_workspaces pm)"
      using pr Cons.prems(1) by (auto simp: pnpm_wf_def)
    then show ?thesis by (auto simp: st nth_list_update split: option.splits)
  qed
  have dec: "declared ?pm pk p = (if pk = pkg then Some (package_label repo linkAll p pkg) else declared pm pk p)" for pk
    by (simp add: declared_def st pr)
  have other: "q \<noteq> p \<Longrightarrow> pm_projects ?pm q = pm_projects pm q" for q by (simp add: st)
  from Cons.IH [OF wf reg] show ?case
    unfolding step by (auto simp: len dir dec other pv)
qed

text \<open>The path under which a workspace registers a project.\<close>

definition project_path :: "string \<Rightarrow> string \<Rightarrow> string" where
  "project_path lockdir project = normalizeProject (path_join [lockdir, project])"

lemma AddProject_eq:
  "AddProject pm w project =
     (let p = project_path (Root pm w) project in
      if pm_projects pm p \<noteq> None then Inl (Fatal p)
      else Inr (p, pm\<lparr>pm_projects := (pm_projects pm)(p \<mapsto>
             \<lparr>pp_workspace = w, pp_references = Map.empty, pp_packages = Map.empty\<rparr>)\<rparr>))"
  by (simp add: AddProject_def newPnpmProject_def addProject_def project_path_def Let_def
      split: option.splits)

lemma add_projects_state:
  assumes "pnpm_wf pm" "w < length (pm_workspaces pm)" "pw_lockdir (pm_workspaces pm ! w) = dir"
    "add_projects repo linkAll w pm projects = Inr pm'"
  shows "pnpm_wf pm' \<and>
    distinct (map (\<lambda>e. project_path dir (fst e)) projects) \<and>
    (\<forall>e \<in> set projects. pm_projects pm (project_path dir (fst e)) = None) \<and>
    (\<forall>q. q \<notin> (\<lambda>e. project_path dir (fst e)) ` set projects \<longrightarrow> pm_projects pm' q = pm_projects pm q) \<and>
    (\<forall>e \<in> set projects. \<forall>pkg. declared pm' pkg (project_path dir (fst e)) =
       (if pkg \<in> fst ` set (snd e) then Some (package_label repo linkAll (project_path dir (fst e)) pkg)
        else None))"
  using assms
proof (induction projects arbitrary: pm)
  case (Cons e projects)
  obtain project packages where e: "e = (project, packages)" by (cases e)
  let ?p = "project_path dir project"
  let ?new = "\<lparr>pp_workspace = w, pp_references = Map.empty, pp_packages = Map.empty\<rparr> :: PnpmProject"
  define pm1 where "pm1 = pm\<lparr>pm_projects := (pm_projects pm)(?p \<mapsto> ?new)\<rparr>"
  define pm2 where "pm2 = add_packages repo linkAll ?p pm1 packages"
  have root: "Root pm w = dir" using Cons.prems(3) by (simp add: Root_def)
  have free: "pm_projects pm ?p = None" and rest: "add_projects repo linkAll w pm2 projects = Inr pm'"
    using Cons.prems(4) by (auto simp: e AddProject_eq root Let_def pm1_def pm2_def split: if_splits)
  have wf1: "pnpm_wf pm1" using Cons.prems(1,2) by (auto simp: pnpm_wf_def pm1_def split: if_splits)
  have reg1: "pm_projects pm1 ?p \<noteq> None" by (simp add: pm1_def)
  have dec1: "declared pm1 pkg ?p = None" for pkg by (simp add: declared_def pm1_def)
  note st = add_packages_state [OF wf1 reg1, of repo linkAll packages, folded pm2_def]
  have wf2: "pnpm_wf pm2" and len2: "w < length (pm_workspaces pm2)"
    and dir2: "pw_lockdir (pm_workspaces pm2 ! w) = dir"
    using st Cons.prems(2,3) by (auto simp: pm1_def)
  note IH = Cons.IH [OF wf2 len2 dir2 rest]
  have reg2: "pm_projects pm2 ?p \<noteq> None" using st by blast
  with IH have notin: "?p \<notin> (\<lambda>e. project_path dir (fst e)) ` set projects" by auto
  with IH have same: "pm_projects pm' ?p = pm_projects pm2 ?p" by blast
  have pm2_other: "q \<noteq> ?p \<Longrightarrow> pm_projects pm2 q = pm_projects pm q" for q
    using st by (simp add: pm1_def)
  have "declared pm' pkg ?p = declared pm2 pkg ?p" for pkg by (simp add: declared_def same)
  then have new: "declared pm' pkg ?p =
      (if pkg \<in> fst ` set packages then Some (package_label repo linkAll ?p pkg) else None)" for pkg
    using st dec1 by simp
  let ?path = "\<lambda>e. project_path dir (fst e)"
  have "distinct (map ?path (e # projects))"
    using IH notin by (simp add: e)
  moreover have "pm_projects pm (?path f) = None" if "f \<in> set (e # projects)" for f
  proof (cases "f = e")
    case False
    with that have f: "f \<in> set projects" by simp
    then have "?path f \<noteq> ?p" using notin by (metis imageI)
    with IH f pm2_other show ?thesis by metis
  qed (simp add: e free)
  moreover have "pm_projects pm' q = pm_projects pm q" if "q \<notin> ?path ` set (e # projects)" for q
  proof -
    have "q \<notin> ?path ` set projects" "q \<noteq> ?p" using that by (auto simp: e)
    with IH pm2_other show ?thesis by metis
  qed
  moreover have "declared pm' pkg (?path f) =
      (if pkg \<in> fst ` set (snd f) then Some (package_label repo linkAll (?path f) pkg) else None)"
    if "f \<in> set (e # projects)" for f pkg
  proof (cases "f \<in> set projects")
    case True
    with IH show ?thesis by blast
  next
    case False
    with that have "f = e" by simp
    with new show ?thesis by (simp add: e)
  qed
  ultimately show ?case using IH by blast
qed simp

text \<open>
  A lockfile that is added successfully registers each of its projects under
  its cleaned path relative to the lockfile's directory, at a path that was free and distinct
  from the others; afterwards such a project declares exactly the packages the lockfile lists
  for it, each as the link target under its own package, and every other project is unchanged.
\<close>

theorem addPnpmLockfile_projects:
  assumes "pnpm_wf pm" "addPnpmLockfile repo linkAll (Inr projects) lockfile c pm = Inr (c', pm')"
  shows "pnpm_wf pm' \<and> c' = c \<and>
    distinct (map (\<lambda>e. project_path (path_Dir lockfile) (fst e)) projects) \<and>
    (\<forall>e \<in> set projects. pm_projects pm (project_path (path_Dir lockfile) (fst e)) = None) \<and>
    (\<forall>q. q \<notin> (\<lambda>e. project_path (path_Dir lockfile) (fst e)) ` set projects \<longrightarrow>
       pm_projects pm' q = pm_projects pm q) \<and>
    (\<forall>e \<in> set projects. \<forall>pkg. declared pm' pkg (project_path (path_Dir lockfile) (fst e)) =
       (if pkg \<in> fst ` set (snd e)
        then Some (package_label repo linkAll (project_path (path_Dir lockfile) (fst e)) pkg) else None))"
proof -
  define w where "w = fst (NewWorkspace pm lockfile)"
  define pm1 where "pm1 = snd (NewWorkspace pm lockfile)"
  have "pnpm_wf pm1" "w < length (pm_workspaces pm1)"
    using assms(1) by (auto simp: pm1_def w_def NewWorkspace_def pnpm_wf_def less_Suc_eq)
  moreover have "pw_lockdir (pm_workspaces pm1 ! w) = path_Dir lockfile"
    "pm_projects pm1 = pm_projects pm"
    by (simp_all add: pm1_def w_def NewWorkspace_def)
  moreover have "add_projects repo linkAll w pm1 projects = Inr pm'" "c' = c"
    using assms(2) by (auto simp: addPnpmLockfile_def w_def pm1_def split: prod.splits sum.splits)
  ultimately show ?thesis
    using add_projects_state [of pm1 w "path_Dir lockfile" repo linkAll projects pm'] by simp
qed

theorem addPnpmLockfile_projects_witness:
  "\<exists>pm'. addPnpmLockfile ''r'' ''node_modules'' (Inr [(''a'', [(''x'', ''1.0'')])]) ''w/l'' None
           NewPnpmProjectMap = Inr (None, pm') \<and>
         declared pm' ''x'' ''w/a'' = Some (Label ''r'' ''w/a'' ''node_modules/x'' False)"
proof -
  have path: "project_path (path_Dir ''w/l'') ''a'' = ''w/a''"
    by code_simp
  obtain pm' where run: "addPnpmLockfile ''r'' ''node_modules'' (Inr [(''a'', [(''x'', ''1.0'')])])
      ''w/l'' None NewPnpmProjectMap = Inr (None, pm')"
    by (simp add: addPnpmLockfile_def NewWorkspace_def NewPnpmProjectMap_def AddProject_eq Root_def Let_def)
  have "pnpm_wf NewPnpmProjectMap" by (simp add: pnpm_wf_def NewPnpmProjectMap_def)
  from addPnpmLockfile_projects [OF this run, THEN conjunct2, THEN conjunct2, THEN conjunct2,
      THEN conjunct2, THEN conjunct2, rule_format, of "(''a'', [(''x'', ''1.0'')])" "''x''"]
  have "declared pm' ''x'' (project_path (path_Dir ''w/l'') ''a'') =
      Some (package_label ''r'' ''node_modules'' (project_path (path_Dir ''w/l'') ''a'') ''x'')"
    by simp
  with run show ?thesis unfolding path by (auto simp: package_label_def)
qed

end
