(* ===== verification/Ts_Workspace.thy ===== *)
theory Ts_Workspace
  imports Tsconfig Pnpm Node_Paths
begin

text \<open>
  The typescript configurations of the workspace (\<open>language/js/typescript/config.go\<close>): the
  files declared per directory and group, their lazy loading through the shared cache, and the
  search for the configuration that governs a directory. The lock around the cache makes each
  load atomic; the cache is passed explicitly.
\<close>

section \<open>State\<close>

record workspacePath =
  wp_root :: string
  wp_rel :: string
  wp_fileName :: string

record TsWorkspace =
  tw_configFiles :: "string \<rightharpoonup> (string \<rightharpoonup> workspacePath)"
  tw_pnpmProjects :: PnpmProjectMap
  tw_hasPackageJson :: "string \<Rightarrow> bool"

text \<open>Opening and decoding of configuration files.\<close>

record ts_io =
  io_open :: "string \<Rightarrow> string + string"
  io_unmarshal :: "string \<Rightarrow> string + tsConfigJSON"

definition NewTsWorkspace :: "PnpmProjectMap \<Rightarrow> (string \<Rightarrow> bool) \<Rightarrow> TsWorkspace \<times> parsed_map" where
  "NewTsWorkspace pnpmProjects hasPackageJson =
     (\<lparr>tw_configFiles = Map.empty, tw_pnpmProjects = pnpmProjects,
       tw_hasPackageJson = hasPackageJson\<rparr>, Map.empty)"

definition config_file :: "TsWorkspace \<Rightarrow> string \<Rightarrow> string \<Rightarrow> workspacePath option" where
  "config_file tc rel groupName =
     (case tw_configFiles tc rel of None \<Rightarrow> None | Some groups \<Rightarrow> groups groupName)"

text \<open>A second file for the same directory and group is ignored.\<close>

definition SetTsConfigFile :: "TsWorkspace \<Rightarrow> string \<Rightarrow> string \<Rightarrow> string \<Rightarrow> string \<Rightarrow> TsWorkspace" where
  "SetTsConfigFile tc root rel groupName fileName =
     (let groups = (case tw_configFiles tc rel of None \<Rightarrow> Map.empty | Some g \<Rightarrow> g)
      in case groups groupName of
           Some c \<Rightarrow> tc
         | None \<Rightarrow> tc\<lparr>tw_configFiles := (tw_configFiles tc)(rel \<mapsto>
             groups(groupName \<mapsto> \<lparr>wp_root = root, wp_rel = rel, wp_fileName = fileName\<rparr>))\<rparr>)"

section \<open>Loading\<close>

definition tsConfigResolver :: "TsWorkspace \<Rightarrow> string \<Rightarrow> string \<Rightarrow> string list" where
  "tsConfigResolver tc dir rel =
     (if isRelativePath rel then [path_join [dir, rel]] else []) @
     (case GetProject (tw_pnpmProjects tc) dir of
        None \<Rightarrow> []
      | Some p \<Rightarrow>
        (case ParseImportPath rel of (pkg, subFile) \<Rightarrow>
           if pkg \<noteq> '''' then
             (case GetLocalReference (tw_pnpmProjects tc) p pkg of
                Some localRef \<Rightarrow> [path_join [localRef, subFile]]
              | None \<Rightarrow> [])
           else []))"

definition ts_env_of :: "ts_io \<Rightarrow> TsWorkspace \<Rightarrow> string \<Rightarrow> ts_env" where
  "ts_env_of io tc root =
     \<lparr>te_open = io_open io, te_unmarshal = io_unmarshal io, te_resolver = tsConfigResolver tc,
      te_root = root\<rparr>"

text \<open>\<open>None\<close>: the loader needed more fuel; otherwise the configuration, if any, and the cache.\<close>

definition getTsConfigFromPath ::
  "nat \<Rightarrow> ts_io \<Rightarrow> TsWorkspace \<Rightarrow> parsed_map \<Rightarrow> workspacePath \<Rightarrow> (TsConfig option \<times> parsed_map) option" where
  "getTsConfigFromPath n io tc configs p =
     (let filePath = path_join [wp_rel p, wp_fileName p]
      in case configs filePath of
           Some InvalidTsconfig \<Rightarrow> Some (None, configs)
         | Some (Parsed c) \<Rightarrow> Some (Some c, configs)
         | None \<Rightarrow>
           (case parseTsConfigJSONFile n (ts_env_of io tc (wp_root p)) configs filePath of
              None \<Rightarrow> None
            | Some (Inl err, configs') \<Rightarrow> Some (None, configs')
            | Some (Inr c, configs') \<Rightarrow> Some (c, configs')))"

definition GetTsConfigFile ::
  "nat \<Rightarrow> ts_io \<Rightarrow> TsWorkspace \<Rightarrow> parsed_map \<Rightarrow> string \<Rightarrow> string \<Rightarrow>
   (TsConfig option \<times> parsed_map) option" where
  "GetTsConfigFile n io tc configs rel groupName =
     (case config_file tc rel groupName of
        None \<Rightarrow> Some (None, configs)
      | Some p \<Rightarrow> getTsConfigFromPath n io tc configs p)"

section \<open>The search\<close>

text \<open>The variables of the loop of \<open>FindConfig\<close>.\<close>

record find_state =
  fs_default :: "(string \<times> TsConfig) option"
  fs_config :: "(string \<times> TsConfig) option"
  fs_packageJsonDir :: "string option"
  fs_configs :: parsed_map

text \<open>One visit of a directory, and whether the loop breaks there.\<close>

definition find_visit ::
  "nat \<Rightarrow> ts_io \<Rightarrow> TsWorkspace \<Rightarrow> string \<Rightarrow> string \<Rightarrow> find_state \<Rightarrow> (find_state \<times> bool) option" where
  "find_visit n io tc groupName dir st =
     (case (if groupName \<noteq> '''' then GetTsConfigFile n io tc (fs_configs st) dir groupName
            else Some (None, fs_configs st)) of
        None \<Rightarrow> None
      | Some (Some c, m1) \<Rightarrow> Some (st\<lparr>fs_config := Some (dir, c), fs_configs := m1\<rparr>, True)
      | Some (None, m1) \<Rightarrow>
        (case (if fs_default st = None then GetTsConfigFile n io tc m1 dir '''' else Some (None, m1)) of
           None \<Rightarrow> None
         | Some (found, m2) \<Rightarrow>
           let st2 = (case found of
                 Some c \<Rightarrow> st\<lparr>fs_default := Some (dir, c), fs_configs := m2\<rparr>
               | None \<Rightarrow> st\<lparr>fs_configs := m2\<rparr>)
           in if found \<noteq> None \<and> groupName = '''' then Some (st2, True)
              else if fs_packageJsonDir st2 = None \<and> tw_hasPackageJson tc dir
              then Some (st2\<lparr>fs_packageJsonDir := Some dir\<rparr>, False)
              else Some (st2, False)))"

function find_loop ::
  "nat \<Rightarrow> ts_io \<Rightarrow> TsWorkspace \<Rightarrow> string \<Rightarrow> string \<Rightarrow> find_state \<Rightarrow> find_state option" where
  "find_loop n io tc groupName dir0 st =
     (let dir = (if dir0 = ''.'' then '''' else dir0)
      in case find_visit n io tc groupName dir st of
           None \<Rightarrow> None
         | Some (st', stop) \<Rightarrow>
           if stop \<or> dir = '''' then Some st' else find_loop n io tc groupName (parent_of dir) st')"
  by pat_completeness auto
termination
  by (relation "measure (\<lambda>(n, io, tc, g, dir, st). length dir)")
     (auto dest: length_parent_of split: if_splits)

declare find_loop.simps [simp del]

definition FindConfig ::
  "nat \<Rightarrow> ts_io \<Rightarrow> TsWorkspace \<Rightarrow> parsed_map \<Rightarrow> string \<Rightarrow> string \<Rightarrow>
   ((string \<times> string \<times> TsConfig option) \<times> parsed_map) option" where
  "FindConfig n io tc configs dir groupName =
     (case find_loop n io tc groupName dir
             \<lparr>fs_default = None, fs_config = None, fs_packageJsonDir = None, fs_configs = configs\<rparr> of
        None \<Rightarrow> None
      | Some st \<Rightarrow>
        (case (case fs_config st of Some x \<Rightarrow> Some x | None \<Rightarrow> fs_default st) of
           None \<Rightarrow> Some (('''', '''', None), fs_configs st)
         | Some (configRel, config) \<Rightarrow>
           let anchorRel =
             (case fs_packageJsonDir st of
                Some d \<Rightarrow>
                  if configRel = '''' \<or> d = configRel \<or> HasPrefix d (configRel @ ''/'') then d
                  else configRel
              | None \<Rightarrow> configRel)
           in Some ((anchorRel, configRel, Some config), fs_configs st)))"

definition Workspace_ExpandPaths ::
  "nat \<Rightarrow> ts_io \<Rightarrow> TsWorkspace \<Rightarrow> parsed_map \<Rightarrow> string \<Rightarrow> string \<Rightarrow> string \<Rightarrow>
   (string list outcome \<times> parsed_map) option" where
  "Workspace_ExpandPaths n io tc configs from_file f groupName =
     (case FindConfig n io tc configs (fst (path_split from_file)) groupName of
        None \<Rightarrow> None
      | Some ((_, _, None), configs') \<Rightarrow> Some (Inr [], configs')
      | Some ((_, _, Some c), configs') \<Rightarrow> Some (ExpandPaths c from_file f, configs'))"

section \<open>Lookups\<close>

text \<open>
  The workspace whose configuration files, all under one root, extend each other without a cycle:
  \<open>K\<close> has the declared files and those they extend, and no height is beyond the loader's fuel.
\<close>

definition configs_loadable ::
  "ts_io \<Rightarrow> TsWorkspace \<Rightarrow> string \<Rightarrow> string set \<Rightarrow> (string \<Rightarrow> nat) \<Rightarrow> nat \<Rightarrow> bool" where
  "configs_loadable io tc root K height n \<longleftrightarrow>
     no_cycles (ts_env_of io tc root) K height \<and> (\<forall>k \<in> K. height k < n) \<and>
     (\<forall>rel g p. config_file tc rel g = Some p \<longrightarrow>
        wp_root p = root \<and> path_join [wp_rel p, wp_fileName p] \<in> K)"

text \<open>The configuration of a declared file, without any cache.\<close>

definition declared_config ::
  "ts_io \<Rightarrow> TsWorkspace \<Rightarrow> string \<Rightarrow> (string \<Rightarrow> nat) \<Rightarrow> string \<Rightarrow> string \<Rightarrow> TsConfig option" where
  "declared_config io tc root height groupName rel =
     (case config_file tc rel groupName of
        None \<Rightarrow> None
      | Some p \<Rightarrow> config_of (ts_env_of io tc root) height (path_join [wp_rel p, wp_fileName p]))"

text \<open>Every slot of the cache has what its file gives without a cache.\<close>

definition cache_holds :: "ts_env \<Rightarrow> string set \<Rightarrow> (string \<Rightarrow> nat) \<Rightarrow> parsed_map \<Rightarrow> bool" where
  "cache_holds env K height m \<longleftrightarrow> (\<forall>k \<in> K. \<forall>s. m k = Some s \<longrightarrow> s = slot_for (config_of env height k))"

lemma cache_holds_below: "cache_holds env K height m \<Longrightarrow> right_below env K height h m"
  by (simp add: cache_holds_def right_below_def)

lemma cache_holds_adds:
  "adds_right env K height h m m' \<Longrightarrow> cache_holds env K height m \<Longrightarrow> cache_holds env K height m'"
  unfolding adds_right_def cache_holds_def by (metis option.inject)

lemma GetTsConfigFile_right:
  assumes "configs_loadable io tc root K height n" "cache_holds (ts_env_of io tc root) K height m"
  shows "\<exists>m1. GetTsConfigFile n io tc m rel g = Some (declared_config io tc root height g rel, m1) \<and>
    cache_holds (ts_env_of io tc root) K height m1"
proof (cases "config_file tc rel g")
  case None
  with assms(2) show ?thesis by (simp add: GetTsConfigFile_def declared_config_def)
next
  case (Some p)
  let ?env = "ts_env_of io tc root" and ?k = "path_join [wp_rel p, wp_fileName p]"
  have p: "wp_root p = root" "?k \<in> K" "height ?k < n" "no_cycles ?env K height"
    using assms(1) Some by (auto simp: configs_loadable_def)
  show ?thesis
  proof (cases "m ?k")
    case None
    obtain r m1 where run: "parseTsConfigJSONFile n ?env m ?k = Some (r, m1)"
        "loaded r = config_of ?env height ?k" "adds_right ?env K height (Suc (height ?k)) m m1"
      using parse_file_right [OF p(4,2,3) cache_holds_below [OF assms(2)]] by blast
    have "cache_holds ?env K height m1" by (rule cache_holds_adds [OF run(3) assms(2)])
    with run(1,2) None Some p(1) show ?thesis
      by (auto simp: GetTsConfigFile_def getTsConfigFromPath_def declared_config_def loaded_def split: sum.splits)
  next
    case (Some s)
    then have "s = slot_for (config_of ?env height ?k)" using assms(2) p(2) by (simp add: cache_holds_def)
    with Some \<open>config_file tc rel g = Some p\<close> assms(2) show ?thesis
      by (auto simp: GetTsConfigFile_def getTsConfigFromPath_def declared_config_def slot_for_def
          split: option.splits)
  qed
qed

section \<open>What the search finds\<close>

text \<open>The directories the search visits, and the first one that has something.\<close>

function search_dirs :: "string \<Rightarrow> string list" where
  "search_dirs dir0 =
     (let dir = (if dir0 = ''.'' then '''' else dir0)
      in if dir = '''' then [dir] else dir # search_dirs (parent_of dir))"
  by pat_completeness auto
termination
  by (relation "measure length") (auto dest: length_parent_of split: if_splits)

declare search_dirs.simps [simp del]

definition nearest :: "(string \<Rightarrow> 'v option) \<Rightarrow> string \<Rightarrow> (string \<times> 'v) option" where
  "nearest f dir = first_some (\<lambda>d. map_option (Pair d) (f d)) (search_dirs dir)"

definition nearest_dir :: "(string \<Rightarrow> bool) \<Rightarrow> string \<Rightarrow> string option" where
  "nearest_dir P dir = find P (search_dirs dir)"

text \<open>
  The specification: the nearest configuration of the group, else the nearest default one; the
  anchor is the nearest \<open>package.json\<close> directory if that is the configuration's directory or
  below it, else the configuration's directory. \<open>ans\<close> has the configurations by group and
  directory.
\<close>

definition governing_config ::
  "(string \<Rightarrow> string \<Rightarrow> TsConfig option) \<Rightarrow> string \<Rightarrow> string \<Rightarrow> (string \<times> TsConfig) option" where
  "governing_config ans groupName dir =
     (case (if groupName = '''' then None else nearest (ans groupName) dir) of
        Some x \<Rightarrow> Some x
      | None \<Rightarrow> nearest (ans '''') dir)"

definition anchor_of :: "TsWorkspace \<Rightarrow> string \<Rightarrow> string \<Rightarrow> string" where
  "anchor_of tc dir configRel =
     (case nearest_dir (tw_hasPackageJson tc) dir of
        Some d \<Rightarrow> if configRel = '''' \<or> d = configRel \<or> HasPrefix d (configRel @ ''/'') then d else configRel
      | None \<Rightarrow> configRel)"

lemma search_dirs_unfold:
  "d = (if dir0 = ''.'' then '''' else dir0) \<Longrightarrow>
   search_dirs dir0 = d # (if d = '''' then [] else search_dirs (parent_of d))"
  by (subst search_dirs.simps) (simp add: Let_def)

lemma nearest_unfold:
  "d = (if dir0 = ''.'' then '''' else dir0) \<Longrightarrow>
   nearest f dir0 = (case f d of Some v \<Rightarrow> Some (d, v)
                     | None \<Rightarrow> if d = '''' then None else nearest f (parent_of d))"
  by (auto simp: nearest_def search_dirs_unfold split: option.splits)

lemma nearest_dir_unfold:
  "d = (if dir0 = ''.'' then '''' else dir0) \<Longrightarrow>
   nearest_dir P dir0 = (if P d then Some d else if d = '''' then None else nearest_dir P (parent_of d))"
  by (auto simp: nearest_dir_def search_dirs_unfold)

text \<open>The \<open>package.json\<close> directory recorded when the search stops at a directory.\<close>

fun until :: "string \<Rightarrow> string list \<Rightarrow> string list" where
  "until e [] = []"
| "until e (d # ds) = (if d = e then [] else d # until e ds)"

definition stop_dir :: "string \<Rightarrow> find_state \<Rightarrow> string option" where
  "stop_dir groupName st =
     (case fs_config st of
        Some (d, _) \<Rightarrow> Some d
      | None \<Rightarrow> if groupName = '''' then map_option fst (fs_default st) else None)"

definition recorded :: "(string \<Rightarrow> bool) \<Rightarrow> string option \<Rightarrow> string list \<Rightarrow> string option" where
  "recorded P stop ds = find P (case stop of None \<Rightarrow> ds | Some e \<Rightarrow> until e ds)"

lemma recorded_Cons:
  "recorded P stop (d # ds) = (if stop = Some d then None else if P d then Some d else recorded P stop ds)"
  by (auto simp: recorded_def split: option.splits)

lemma search_dirs_length: "e \<in> set (search_dirs dir) \<Longrightarrow> length e \<le> length dir"
proof (induction dir rule: search_dirs.induct)
  case (1 dir0)
  define d where "d = (if dir0 = ''.'' then '''' else dir0)"
  have len: "length d \<le> length dir0" by (simp add: d_def)
  from 1(2) search_dirs_unfold [OF d_def] have "e = d \<or> (d \<noteq> '''' \<and> e \<in> set (search_dirs (parent_of d)))"
    by (auto split: if_splits)
  then show ?case
  proof
    assume h: "d \<noteq> '''' \<and> e \<in> set (search_dirs (parent_of d))"
    then have "length e \<le> length (parent_of d)" using 1(1) [OF d_def] by blast
    with h len length_parent_of [of d] show ?thesis by simp
  qed (use len in simp)
qed

text \<open>What one run of the loop does.\<close>

definition loop_result ::
  "TsWorkspace \<Rightarrow> (string \<Rightarrow> string \<Rightarrow> TsConfig option) \<Rightarrow> string \<Rightarrow> string \<Rightarrow> find_state \<Rightarrow> find_state \<Rightarrow> bool" where
  "loop_result tc ans g dir st st' \<longleftrightarrow>
     fs_config st' = (if g = '''' then None else nearest (ans g) dir) \<and>
     (fs_config st' = None \<longrightarrow> fs_default st' =
        (case fs_default st of Some x \<Rightarrow> Some x | None \<Rightarrow> nearest (ans '''') dir)) \<and>
     (fs_default st \<noteq> None \<longrightarrow> fs_default st' = fs_default st) \<and>
     fs_packageJsonDir st' =
       (case fs_packageJsonDir st of
          Some d \<Rightarrow> Some d
        | None \<Rightarrow> recorded (tw_hasPackageJson tc) (stop_dir g st') (search_dirs dir))"

lemma nearest_mem: "nearest f dir = Some (d, v) \<Longrightarrow> d \<in> set (search_dirs dir) \<and> f d = Some v"
  by (auto simp: nearest_def first_some_Some_iff)

lemma loop_not_back:
  assumes "loop_result tc ans g (parent_of d) st st'" "d \<noteq> ''''" "fs_config st = None"
    "g = '''' \<Longrightarrow> fs_default st = None"
  shows "stop_dir g st' \<noteq> Some d"
proof
  assume "stop_dir g st' = Some d"
  then have "d \<in> set (search_dirs (parent_of d))"
    using assms by (auto simp: stop_dir_def loop_result_def dest: nearest_mem split: option.splits if_splits)
  with search_dirs_length length_parent_of [OF assms(2)] show False by fastforce
qed

text \<open>
  What the search asks of the lookups: on a cache that is \<open>ok\<close> each gives the answer, and leaves
  such a cache.
\<close>

locale config_lookup =
  fixes n :: nat and io :: ts_io and tc :: TsWorkspace and ok :: "parsed_map \<Rightarrow> bool"
    and ans :: "string \<Rightarrow> string \<Rightarrow> TsConfig option"
  assumes lookup: "ok m \<Longrightarrow> \<exists>m1. GetTsConfigFile n io tc m rel g = Some (ans g rel, m1) \<and> ok m1"
begin

lemma find_visit_result:
  assumes "ok (fs_configs st)" "fs_config st = None" "g = '''' \<longrightarrow> fs_default st = None"
  shows "\<exists>st' stop. find_visit n io tc g d st = Some (st', stop) \<and> ok (fs_configs st') \<and>
    fs_config st' = (if g = '''' then None else map_option (Pair d) (ans g d)) \<and>
    (fs_config st' = None \<longrightarrow> fs_default st' =
       (case fs_default st of Some x \<Rightarrow> Some x | None \<Rightarrow> map_option (Pair d) (ans '''' d))) \<and>
    (fs_default st \<noteq> None \<longrightarrow> fs_default st' = fs_default st) \<and>
    stop = (fs_config st' \<noteq> None \<or> (g = '''' \<and> fs_default st' \<noteq> None)) \<and>
    fs_packageJsonDir st' =
      (if fs_packageJsonDir st = None \<and> tw_hasPackageJson tc d \<and> \<not> stop then Some d
       else fs_packageJsonDir st)"
proof -
  obtain m1 where look: "(if g \<noteq> '''' then GetTsConfigFile n io tc (fs_configs st) d g
      else Some (None, fs_configs st)) = Some (if g = '''' then None else ans g d, m1)" "ok m1"
    using assms(1) lookup [OF assms(1), of d g] by (cases "g = ''''") auto
  show ?thesis
  proof (cases "if g = '''' then None else ans g d")
    case (Some c)
    then have "find_visit n io tc g d st = Some (st\<lparr>fs_config := Some (d, c), fs_configs := m1\<rparr>, True)"
      unfolding find_visit_def look(1) by simp
    with Some look(2) show ?thesis by (auto split: if_splits)
  next
    case r: None
    obtain m2 where def: "(if fs_default st = None then GetTsConfigFile n io tc m1 d '''' else Some (None, m1)) =
        Some (if fs_default st = None then ans '''' d else None, m2)" "ok m2"
      using look(2) lookup [OF look(2), of d "''''"] by (cases "fs_default st") auto
    define found where "found = (if fs_default st = None then ans '''' d else None)"
    define st2 where "st2 = (case found of Some c \<Rightarrow> st\<lparr>fs_default := Some (d, c), fs_configs := m2\<rparr>
        | None \<Rightarrow> st\<lparr>fs_configs := m2\<rparr>)"
    have st2: "fs_configs st2 = m2" "fs_config st2 = None" "fs_packageJsonDir st2 = fs_packageJsonDir st"
      "fs_default st2 = (case found of Some c \<Rightarrow> Some (d, c) | None \<Rightarrow> fs_default st)"
      using assms(2) by (simp_all add: st2_def split: option.splits)
    have "find_visit n io tc g d st =
        (if found \<noteq> None \<and> g = '''' then Some (st2, True)
         else if fs_packageJsonDir st2 = None \<and> tw_hasPackageJson tc d
         then Some (st2\<lparr>fs_packageJsonDir := Some d\<rparr>, False) else Some (st2, False))"
      unfolding find_visit_def look(1) option.case prod.case r def(1) Let_def st2_def found_def ..
    note visit = this
    define stop where "stop = (found \<noteq> None \<and> g = '''')"
    define st' where "st' = (if fs_packageJsonDir st2 = None \<and> tw_hasPackageJson tc d \<and> \<not> stop
        then st2\<lparr>fs_packageJsonDir := Some d\<rparr> else st2)"
    have st': "find_visit n io tc g d st = Some (st', stop)" "fs_configs st' = m2"
      "fs_config st' = None" "fs_default st' = fs_default st2"
      "fs_packageJsonDir st' = (if fs_packageJsonDir st = None \<and> tw_hasPackageJson tc d \<and> \<not> stop
         then Some d else fs_packageJsonDir st)"
      unfolding visit using st2 by (auto simp: st'_def stop_def)
    have dflt: "fs_default st' = (case fs_default st of Some x \<Rightarrow> Some x | None \<Rightarrow> map_option (Pair d) (ans '''' d))"
      using st'(4) st2(4) by (auto simp: found_def split: option.splits)
    have "stop = (g = '''' \<and> fs_default st' \<noteq> None)"
      using assms(3) dflt by (auto simp: stop_def found_def split: option.splits)
    moreover have "fs_default st \<noteq> None \<longrightarrow> fs_default st' = fs_default st"
      using dflt by auto
    moreover have "fs_config st' = (if g = '''' then None else map_option (Pair d) (ans g d))"
      using st'(3) r by (simp split: if_splits)
    ultimately show ?thesis
      using st' def(2) dflt by (intro exI [of _ st'] exI [of _ stop] conjI) simp_all
  qed
qed

lemma find_loop_result:
  "ok (fs_configs st) \<Longrightarrow> fs_config st = None \<Longrightarrow> (g = '''' \<longrightarrow> fs_default st = None) \<Longrightarrow>
   \<exists>st'. find_loop n io tc g dir0 st = Some st' \<and> ok (fs_configs st') \<and> loop_result tc ans g dir0 st st'"
proof (induction "length dir0" arbitrary: dir0 st rule: less_induct)
  case less
  define d where "d = (if dir0 = ''.'' then '''' else dir0)"
  note sd = search_dirs_unfold [OF d_def] and nu = nearest_unfold [OF d_def]
  have run: "find_loop n io tc g dir0 st = (case find_visit n io tc g d st of
           None \<Rightarrow> None
         | Some (st1, stop) \<Rightarrow>
           if stop \<or> d = '''' then Some st1 else find_loop n io tc g (parent_of d) st1)"
    by (subst find_loop.simps) (simp only: Let_def d_def)
  from find_visit_result [OF less.prems, where d = d] obtain st1 stop where
        v: "find_visit n io tc g d st = Some (st1, stop)"
    and ok1: "ok (fs_configs st1)"
    and c1: "fs_config st1 = (if g = [] then None else map_option (Pair d) (ans g d))"
    and d1: "fs_config st1 = None \<longrightarrow> fs_default st1 =
       (case fs_default st of Some x \<Rightarrow> Some x | None \<Rightarrow> map_option (Pair d) (ans [] d))"
    and vo: "fs_default st \<noteq> None \<longrightarrow> fs_default st1 = fs_default st"
      "stop = (fs_config st1 \<noteq> None \<or> (g = [] \<and> fs_default st1 \<noteq> None))"
      "fs_packageJsonDir st1 = (if fs_packageJsonDir st = None \<and> tw_hasPackageJson tc d \<and> \<not> stop then Some d
         else fs_packageJsonDir st)"
    by (elim exE conjE) (rule that)
  let ?P = "tw_hasPackageJson tc"
  show ?case
  proof (cases "stop \<or> d = ''''")
    case True
    then have "find_loop n io tc g dir0 st = Some st1" using run v by simp
    moreover have "fs_packageJsonDir st1 = (case fs_packageJsonDir st of Some e \<Rightarrow> Some e
        | None \<Rightarrow> recorded ?P (stop_dir g st1) (search_dirs dir0))"
    proof (cases stop)
      case stops: True
      have "stop_dir g st1 = Some d"
        using stops c1 d1 vo(2) less.prems(3) by (auto simp: stop_dir_def split: if_splits option.splits)
      with vo(3) stops show ?thesis by (auto simp: sd recorded_Cons split: option.splits)
    next
      case False
      then have "stop_dir g st1 = None" using vo(2)
        by (cases "fs_config st1"; cases "fs_default st1") (simp_all add: stop_dir_def)
      with vo(3) False True show ?thesis by (auto simp: sd recorded_def split: option.splits)
    qed
    moreover have "fs_config st1 = (if g = [] then None else nearest (ans g) dir0)"
      using c1 vo(2) True by (cases "ans g d") (auto simp: nu)
    moreover have "fs_default st1 = (case fs_default st of Some x \<Rightarrow> Some x | None \<Rightarrow> nearest (ans []) dir0)"
      if "fs_config st1 = None"
      using d1 that True vo(2) by (cases "ans [] d") (auto simp: nu split: option.splits)
    ultimately show ?thesis using ok1 vo(1)
      unfolding loop_result_def by (intro exI [of _ st1] conjI impI) (assumption | blast)+
  next
    case False
    have c: "fs_config st1 = None" "g = [] \<longrightarrow> fs_default st1 = None"
      using vo(2) False by (cases "fs_config st1"; cases "fs_default st1"; simp)+
    have "length (parent_of d) < length dir0"
      using False length_parent_of [of d] by (auto simp: d_def split: if_splits)
    from less.hyps [OF this ok1 c] obtain st' where run': "find_loop n io tc g (parent_of d) st1 = Some st'"
      and ok': "ok (fs_configs st')" and IH: "loop_result tc ans g (parent_of d) st1 st'" by blast
    have ns: "stop_dir g st' \<noteq> Some d"
      using loop_not_back [OF IH _ c(1)] c(2) False by blast
    have here: "g \<noteq> [] \<Longrightarrow> ans g d = None" using c1 c(1) by simp
    have dflt: "fs_default st1 = (case fs_default st of Some x \<Rightarrow> Some x
        | None \<Rightarrow> map_option (Pair d) (ans [] d))"
      using d1 c(1) by blast
    have "find_loop n io tc g dir0 st = Some st'" using run v False run' by simp
    moreover have "fs_config st' = (if g = [] then None else nearest (ans g) dir0)"
      using IH here False by (auto simp: loop_result_def nu)
    moreover have "fs_default st' = (case fs_default st of Some x \<Rightarrow> Some x
        | None \<Rightarrow> nearest (ans []) dir0)" if "fs_config st' = None"
    proof -
      have "fs_default st' = (case fs_default st1 of Some x \<Rightarrow> Some x
          | None \<Rightarrow> nearest (ans []) (parent_of d))"
        using IH that by (simp add: loop_result_def)
      with False dflt show ?thesis
        by (cases "ans [] d") (auto simp: nu split: option.splits)
    qed
    moreover have "fs_default st \<noteq> None \<longrightarrow> fs_default st' = fs_default st"
      using IH vo(1) by (auto simp: loop_result_def)
    moreover have "fs_packageJsonDir st' = (case fs_packageJsonDir st of Some e \<Rightarrow> Some e
        | None \<Rightarrow> recorded ?P (stop_dir g st') (search_dirs dir0))"
      using IH vo(3) False ns by (auto simp: loop_result_def sd recorded_Cons split: option.splits if_splits)
    ultimately show ?thesis using ok'
      unfolding loop_result_def by (intro exI [of _ st'] conjI impI) (assumption | blast)+
  qed
qed

end

lemma find_until_mem: "find P (until e ds) = Some d \<Longrightarrow> find P ds = Some d"
  by (induction ds) (auto split: if_splits)

lemma recorded_find: "recorded P stop ds = Some d \<Longrightarrow> find P ds = Some d"
  unfolding recorded_def by (cases stop) (simp, simp only: option.case, erule find_until_mem)

lemma find_after_until:
  "find P (until e ds) = None \<Longrightarrow> find P ds = Some d \<Longrightarrow> e \<in> set ds \<Longrightarrow>
   sorted_wrt (\<lambda>a b. length b < length a) ds \<Longrightarrow> d = e \<or> length d < length e"
proof (induction ds)
  case (Cons x xs)
  show ?case
  proof (cases "x = e")
    case True
    with Cons.prems(2) have "d = e \<or> d \<in> set xs"
      by (auto simp: find_Some_iff split: if_splits)
    with True Cons.prems(4) show ?thesis by auto
  next
    case False
    with Cons show ?thesis by (auto split: if_splits)
  qed
qed simp

lemma search_dirs_sorted: "sorted_wrt (\<lambda>a b. length b < length a) (search_dirs dir)"
proof (induction dir rule: search_dirs.induct)
  case (1 dir0)
  define d where "d = (if dir0 = ''.'' then '''' else dir0)"
  show ?case
  proof (cases "d = ''''")
    case True
    then show ?thesis by (simp add: search_dirs_unfold [OF d_def])
  next
    case False
    have "length e < length d" if "e \<in> set (search_dirs (parent_of d))" for e
      using search_dirs_length [OF that] length_parent_of [OF False] by simp
    with 1 [OF d_def False] False show ?thesis by (simp add: search_dirs_unfold [OF d_def])
  qed
qed

text \<open>The anchor of a governing configuration, from what the loop recorded.\<close>

lemma anchor_recorded:
  assumes rec: "pj = recorded (tw_hasPackageJson tc) stop (search_dirs dir)"
    and stop: "\<And>e'. stop = Some e' \<Longrightarrow> e' = e" and e: "e \<in> set (search_dirs dir)"
  shows "(case pj of
            Some d \<Rightarrow> if e = '''' \<or> d = e \<or> HasPrefix d (e @ ''/'') then d else e
          | None \<Rightarrow> e) = anchor_of tc dir e"
proof (cases pj)
  case (Some d)
  then have "nearest_dir (tw_hasPackageJson tc) dir = Some d"
    unfolding nearest_dir_def using rec by (intro recorded_find) simp
  with Some show ?thesis by (simp add: anchor_of_def)
next
  case None
  have "d = e \<or> length d < length e" if d: "nearest_dir (tw_hasPackageJson tc) dir = Some d" for d
  proof (cases stop)
    case ns: None
    with rec None d show ?thesis by (simp add: recorded_def nearest_dir_def)
  next
    case (Some e')
    with find_after_until [OF _ _ e search_dirs_sorted] d None rec stop show ?thesis
      by (simp add: recorded_def nearest_dir_def)
  qed
  then show ?thesis using None by (auto simp: anchor_of_def prefix_def split: option.splits)
qed

context config_lookup
begin

lemma FindConfig_right:
  assumes "ok m"
  shows "\<exists>m'. FindConfig n io tc m dir g =
      Some (case governing_config ans g dir of
              None \<Rightarrow> ('''', '''', None)
            | Some (configRel, c) \<Rightarrow> (anchor_of tc dir configRel, configRel, Some c), m') \<and> ok m'"
proof -
  let ?st0 = "\<lparr>fs_default = None, fs_config = None, fs_packageJsonDir = None, fs_configs = m\<rparr>"
  obtain st where run: "find_loop n io tc g dir ?st0 = Some st" and ok: "ok (fs_configs st)"
    and res: "loop_result tc ans g dir ?st0 st"
    using find_loop_result [of ?st0 g dir] assms by auto
  have L: "fs_config st = (if g = '''' then None else nearest (ans g) dir)"
    "fs_config st = None \<Longrightarrow> fs_default st = nearest (ans '''') dir"
    "fs_packageJsonDir st = recorded (tw_hasPackageJson tc) (stop_dir g st) (search_dirs dir)"
    using res by (auto simp: loop_result_def)
  define found where "found = (case fs_config st of Some x \<Rightarrow> Some x | None \<Rightarrow> fs_default st)"
  have gov: "found = governing_config ans g dir"
    using L(1,2) by (auto simp: found_def governing_config_def split: option.splits if_splits)
  show ?thesis
  proof (cases found)
    case None
    then have "FindConfig n io tc m dir g = Some (('''', '''', None), fs_configs st)"
      unfolding FindConfig_def run option.case found_def [symmetric] by simp
    with None gov ok show ?thesis by simp
  next
    case (Some x)
    obtain e c where x: "x = (e, c)" by (cases x)
    have stop: "e' = e" if "stop_dir g st = Some e'" for e'
      using Some that by (auto simp: x stop_dir_def found_def split: option.splits if_splits)
    have e: "e \<in> set (search_dirs dir)"
      using Some L(1,2)
      by (auto simp: x found_def dest: nearest_mem nearest_mem [OF sym] split: option.splits if_splits)
    have anchor: "(case fs_packageJsonDir st of
            Some d \<Rightarrow> if e = '''' \<or> d = e \<or> HasPrefix d (e @ ''/'') then d else e
          | None \<Rightarrow> e) = anchor_of tc dir e"
      by (rule anchor_recorded [OF L(3) _ e]) (rule stop)
    have "FindConfig n io tc m dir g = Some ((anchor_of tc dir e, e, Some c), fs_configs st)"
      unfolding FindConfig_def run option.case found_def [symmetric] Some x prod.case Let_def anchor ..
    with Some x gov ok show ?thesis by simp
  qed
qed

end

text \<open>The lookups through the shared cache keep this contract.\<close>

definition lookups_sound ::
  "nat \<Rightarrow> ts_io \<Rightarrow> TsWorkspace \<Rightarrow> string \<Rightarrow> string set \<Rightarrow> (string \<Rightarrow> nat) \<Rightarrow> parsed_map \<Rightarrow> bool" where
  "lookups_sound n io tc root K height m \<longleftrightarrow>
     configs_loadable io tc root K height n \<and> cache_holds (ts_env_of io tc root) K height m"

interpretation declared: config_lookup n io tc "lookups_sound n io tc root K height"
    "declared_config io tc root height"
  for n io tc root K height
  by unfold_locales (use GetTsConfigFile_right in \<open>auto simp: lookups_sound_def\<close>)

text \<open>
  C24 (refinement). If the configuration files extend each other without a cycle and the fuel exceeds
  their height, the search always returns, and what it returns depends on the files alone: the
  configuration, with everything it inherits, of the nearest directory that has one for the group
  that can be loaded, else of the nearest with a default one; its directory; and as anchor the nearest
  \<open>package.json\<close> directory that lies between that directory and the start, else the configuration's
  own. The cache that all searches share is never seen: it only ever holds what loading a file
  without it gives, starting from the empty one.
\<close>

theorem FindConfig_governing:
  assumes "configs_loadable io tc root K height n" "cache_holds (ts_env_of io tc root) K height m"
  shows "\<exists>m'. FindConfig n io tc m dir g =
      Some (case governing_config (declared_config io tc root height) g dir of
              None \<Rightarrow> ('''', '''', None)
            | Some (configRel, c) \<Rightarrow> (anchor_of tc dir configRel, configRel, Some c), m') \<and>
    cache_holds (ts_env_of io tc root) K height m' \<and> cache_holds (ts_env_of io tc root) K height Map.empty"
  using declared.FindConfig_right [where root = root and K = K and height = height, of n io tc m dir g] assms
  by (auto simp: lookups_sound_def) (simp add: cache_holds_def)

text \<open>A configuration that extends a base next to it, above a directory with a \<open>package.json\<close>.\<close>

definition options_json :: "string list \<Rightarrow> bool option \<Rightarrow> tsConfigJSON" where
  "options_json exts allowJs =
     \<lparr>c_Extends = exts, c_CompilerOptions = \<lparr>o_AllowJs = allowJs, o_Composite = None,
        o_Declaration = None, o_DeclarationDir = None, o_DeclarationMap = None, o_DeclarationOnly = None,
        o_Incremental = None, o_IsolatedDeclarations = None, o_TsBuildInfoFile = None, o_SourceMap = None,
        o_ResolveJsonModule = None, o_NoEmit = None, o_OutDir = None, o_RootDir = None, o_RootDirs = None,
        o_BaseUrl = None, o_Paths = None, o_Types = None, o_JSX = None, o_ImportHelpers = None\<rparr>,
      c_References = None\<rparr>"

definition sample_io :: ts_io where
  "sample_io = \<lparr>io_open = (\<lambda>p. if p \<in> {''/w/a/tsconfig.json'', ''/w/a/base.json'', ''/w/x.json'', ''/w/y.json''}
                             then Inr p else Inl ''no file''),
     io_unmarshal = (\<lambda>p. Inr (if p = ''/w/a/tsconfig.json'' then options_json [''./base.json''] None
        else if p = ''/w/a/base.json'' then options_json [] (Some True)
        else if p = ''/w/x.json'' then options_json [''./y.json''] None
        else options_json [''./x.json''] None))\<rparr>"

definition sample_ws :: TsWorkspace where
  "sample_ws = SetTsConfigFile (fst (NewTsWorkspace NewPnpmProjectMap (\<lambda>d. d = ''a/b''))) ''/w'' ''a'' ''''
     ''tsconfig.json''"

lemma no_project: "GetProject NewPnpmProjectMap d = None"
proof (induction NewPnpmProjectMap d rule: GetProject.induct)
  case (1 project)
  then show ?case by (simp add: GetProject.simps [of _ project]) (simp add: NewPnpmProjectMap_def)
qed

lemma sample_resolver:
  "isRelativePath r \<Longrightarrow> tsConfigResolver sample_ws d r = [path_join [d, r]]"
  by (simp add: tsConfigResolver_def sample_ws_def SetTsConfigFile_def NewTsWorkspace_def no_project)

abbreviation sample_ts_env :: ts_env where
  "sample_ts_env \<equiv> ts_env_of sample_io sample_ws ''/w''"

lemma sample_paths:
  "path_join [''/w'', ''a/tsconfig.json''] = ''/w/a/tsconfig.json''" "path_join [''/w'', ''a/base.json''] = ''/w/a/base.json''"
  "path_join [''/w'', ''x.json''] = ''/w/x.json''" "path_join [''/w'', ''y.json''] = ''/w/y.json''"
  "path_Dir ''a/tsconfig.json'' = ''a''" "path_Dir ''a/base.json'' = ''a''" "path_Dir ''x.json'' = ''.''" "path_Dir ''y.json'' = ''.''"
  "path_join [''a'', ''./base.json''] = ''a/base.json''" "path_join [''.'', ''./y.json''] = ''y.json''"
  "path_join [''.'', ''./x.json''] = ''x.json''" "path_join [''a'', ''tsconfig.json''] = ''a/tsconfig.json''"
  "isRelativePath ''./base.json''" "isRelativePath ''./x.json''" "isRelativePath ''./y.json''"
  by code_simp+

lemma sample_extends:
  "extends_of sample_ts_env ''a/tsconfig.json'' q \<longleftrightarrow> q = ''a/base.json''"
  "\<not> extends_of sample_ts_env ''a/base.json'' q"
  "extends_of sample_ts_env ''x.json'' q \<longleftrightarrow> q = ''y.json''"
  "extends_of sample_ts_env ''y.json'' q \<longleftrightarrow> q = ''x.json''"
  by (simp_all add: extends_of_def ts_env_of_def sample_io_def sample_paths sample_resolver options_json_def)

definition sample_height :: "string \<Rightarrow> nat" where
  "sample_height k = (if k = ''a/tsconfig.json'' then 1 else 0)"

lemma sample_file:
  "config_file sample_ws rel g =
     (if rel = ''a'' \<and> g = '''' then Some \<lparr>wp_root = ''/w'', wp_rel = ''a'', wp_fileName = ''tsconfig.json''\<rparr>
      else None)"
  by (simp add: config_file_def sample_ws_def SetTsConfigFile_def NewTsWorkspace_def)

lemma sample_no_cycles: "no_cycles sample_ts_env {''a/tsconfig.json'', ''a/base.json''} sample_height"
  by (simp add: no_cycles_def sample_extends sample_height_def)

lemma sample_loadable:
  "configs_loadable sample_io sample_ws ''/w'' {''a/tsconfig.json'', ''a/base.json''} sample_height 2"
  using sample_no_cycles by (simp add: configs_loadable_def sample_file sample_paths) (simp add: sample_height_def)

lemma build_config_AllowJs:
  "AllowJs (build_config c d n es b) = inherit (o_AllowJs (c_CompilerOptions c)) b AllowJs"
  unfolding build_config_def Let_def by (simp only: TsConfig.select_convs)

lemma sample_base: "\<exists>b. config_of sample_ts_env sample_height ''a/base.json'' = Some b \<and> AllowJs b = Some True"
  unfolding config_of_unfold [OF sample_no_cycles, of "''a/base.json''", simplified]
  by (simp add: ts_env_of_def sample_io_def sample_paths options_json_def bases_of_def Let_def
      build_config_AllowJs inherit_def)

lemma sample_config:
  "\<exists>c. config_of sample_ts_env sample_height ''a/tsconfig.json'' = Some c \<and> ConfigDir c = ''a'' \<and>
     AllowJs c = Some True"
proof -
  obtain b where b: "config_of sample_ts_env sample_height ''a/base.json'' = Some b" "AllowJs b = Some True"
    using sample_base by blast
  then show ?thesis
    unfolding config_of_unfold [OF sample_no_cycles, of "''a/tsconfig.json''", simplified]
    by (simp add: ts_env_of_def sample_io_def sample_paths sample_resolver options_json_def bases_of_def Let_def
        build_config_AllowJs inherit_def merge_bases_def)
qed

theorem FindConfig_governing_witness:
  "\<exists>c m'. FindConfig 2 sample_io sample_ws Map.empty ''a/b/c'' '''' = Some ((''a/b'', ''a'', Some c), m') \<and>
     AllowJs c = Some True"
proof -
  obtain c where c: "config_of sample_ts_env sample_height ''a/tsconfig.json'' = Some c" "AllowJs c = Some True"
    using sample_config by blast
  have parents: "parent_of ''a/b/c'' = ''a/b''" "parent_of ''a/b'' = ''a''" "parent_of ''a'' = ''''"
    by code_simp+
  have dirs: "search_dirs ''a/b/c'' = [''a/b/c'', ''a/b'', ''a'', '''']"
    by (simp add: search_dirs.simps [of "''a/b/c''"] search_dirs.simps [of "''a/b''"]
        search_dirs.simps [of "''a''"] search_dirs.simps [of "''''"] parents)
  have ans: "declared_config sample_io sample_ws ''/w'' sample_height '''' d = (if d = ''a'' then Some c else None)" for d
    by (simp add: declared_config_def sample_file sample_paths c(1))
  have has: "tw_hasPackageJson sample_ws d = (d = ''a/b'')" for d
    by (simp add: sample_ws_def SetTsConfigFile_def NewTsWorkspace_def)
  have "cache_holds sample_ts_env {''a/tsconfig.json'', ''a/base.json''} sample_height Map.empty"
    by (simp add: cache_holds_def)
  from FindConfig_governing [OF sample_loadable this, of "''a/b/c''" "''''"] c(2) show ?thesis
    by (auto simp: governing_config_def nearest_def dirs ans anchor_of_def nearest_dir_def has)
qed

section \<open>Loading ends\<close>

text \<open>
  C21 (termination). Loading a configuration ends whatever cycles its \<open>extends\<close> entries form, as long as they
  reach only finitely many names that can be opened: one unit of fuel more than there are such names
  without a slot in the cache gives a result, and any more fuel gives the same. (A file that extends
  itself through a path that climbs above the root of the file system reaches infinitely many; lemma
  \<open>root_extends_itself_diverges\<close> shows that loading it does not end.)
\<close>

theorem tsconfig_loading_ends:
  assumes "finite (pending (ts_env_of io tc root) (reached (ts_env_of io tc root) tsconfig) m)"
  shows "\<exists>res. \<forall>n > card (pending (ts_env_of io tc root) (reached (ts_env_of io tc root) tsconfig) m).
    parseTsConfigJSONFile n (ts_env_of io tc root) m tsconfig = Some res"
  by (rule parse_file_enough [OF reached_closed _ assms]) simp

text \<open>Two files that extend each other.\<close>

theorem tsconfig_loading_ends_witness:
  "\<exists>res. parseTsConfigJSONFile 3 sample_ts_env Map.empty ''x.json'' = Some res"
proof -
  let ?P = "pending sample_ts_env (reached sample_ts_env ''x.json'') Map.empty"
  have "q \<in> {''x.json'', ''y.json''}" if "(extends_of sample_ts_env)\<^sup>*\<^sup>* ''x.json'' q" for q
    using that by (induction rule: rtranclp_induct) (auto simp: sample_extends)
  then have sub: "?P \<subseteq> {''x.json'', ''y.json''}" by (auto simp: pending_def)
  then have "card ?P \<le> card {''x.json'', ''y.json''}" by (intro card_mono) simp_all
  then have small: "card ?P < 3" by simp
  have "finite ?P" using sub by (rule finite_subset) simp
  then obtain res where "\<forall>n > card ?P. parseTsConfigJSONFile n sample_ts_env Map.empty ''x.json'' = Some res"
    using tsconfig_loading_ends by blast
  with small have "parseTsConfigJSONFile 3 sample_ts_env Map.empty ''x.json'' = Some res" by blast
  then show ?thesis by blast
qed

end
