(* ===== verification/Js_Configure.thy ===== *)
theory Js_Configure
  imports Js_Config Directives Ts_Workspace
begin

text \<open>
  Configuring a directory (\<open>language/js/configure.go\<close>): the directives of its build file are
  applied to the child configuration, then the lockfile, tsconfig files and package.json of the
  directory are recorded. A refused directive reports an error and ends the reading of the
  directives; the rest of the configuration goes on.
\<close>

section \<open>Directives\<close>

definition KnownDirectives :: "string list" where
  "KnownDirectives =
     [''js'', ''js_proto'', ''js_tsconfig'', ''js_npm_package'', ''js_visibility'',
      ''js_pnpm_lockfile'', ''js_tsconfig_file'', ''js_tsconfig_ignore'',
      ''js_tsconfig_package_deps'', ''js_ignore_imports'', ''js_resolve'',
      ''js_validate_import_statements'', ''js_project_naming_convention'',
      ''js_tests_naming_convention'', ''js_npm_package_target_name'',
      ''js_proto_naming_convention'', ''js_package_rule_kind'', ''js_files'', ''js_test_files'',
      ''js_assets'', ''js_asset_files'',
      ''js_custom_files'', ''js_custom_test_files'', ''js_generation_mode'']"

text \<open>What a refused directive is reported with.\<close>

datatype refusal =
    BadValue string string
  | BadLabel string string
  | Refused string config_error

text \<open>The outcome of one directive before it is reported.\<close>

datatype applied = Applied JsGazelleConfig | Rejected JsGazelleConfig refusal | Ends stop

definition of_error :: "string \<Rightarrow> JsGazelleConfig \<times> config_error option \<Rightarrow> applied" where
  "of_error key r = (case r of (c, None) \<Rightarrow> Applied c | (c, Some e) \<Rightarrow> Rejected c (Refused key e))"

definition with_enabled :: "directive \<Rightarrow> (bool \<Rightarrow> JsGazelleConfig) \<Rightarrow> applied" where
  "with_enabled d f = (case ReadEnabled d of Inl e \<Rightarrow> Ends e | Inr b \<Rightarrow> Applied (f b))"

text \<open>The optional group before the value of the tsconfig directives, \<open>[group] value\<close>.\<close>

definition cut_group :: "JsGazelleConfig \<Rightarrow> string \<Rightarrow> string \<times> string" where
  "cut_group c v =
     (case CutByte v (CHR '' '') of
        (groupName, groupValue, hasGroup) \<Rightarrow>
          if \<not> hasGroup then ('''', groupName) else (ReverseMapTargetName c groupName, groupValue))"

definition read_proto_mode :: "JsGazelleConfig \<Rightarrow> directive \<Rightarrow> string \<Rightarrow> applied" where
  "read_proto_mode c d v =
     (if v = ''enabled'' then Applied (c\<lparr>jc_protoMode := ProtoModeEnabled\<rparr>)
      else if v = ''disabled'' then Applied (c\<lparr>jc_protoMode := ProtoModeDisabled\<rparr>)
      else if v = ''aspect'' then Applied (c\<lparr>jc_protoMode := ProtoModeAspect\<rparr>)
      else Ends (Fatal (d_value d)))"

definition read_npm_package :: "JsGazelleConfig \<Rightarrow> directive \<Rightarrow> applied" where
  "read_npm_package c d =
     (if TrimSpace (d_value d) = ''referenced''
      then Applied (c\<lparr>jc_packageGenerationEnabled := NpmPackageReferencedMode\<rparr>)
      else with_enabled d (\<lambda>b. c\<lparr>jc_packageGenerationEnabled :=
             (if b then NpmPackageEnabledMode else NpmPackageDisabledMode)\<rparr>))"

text \<open>The labels of \<open>js_visibility\<close>, after an optional group.\<close>

definition read_visibility :: "js_env \<Rightarrow> JsGazelleConfig \<Rightarrow> string \<Rightarrow> applied" where
  "read_visibility env c v =
     (let visLabels = filter (\<lambda>l. l \<noteq> '''') (map TrimSpace (Split (CHR '' '') v))
      in of_error ''js_visibility''
           (if length visLabels > 0 \<and>
               \<not> (HasPrefix (hd visLabels) '':'' \<or> HasPrefix (hd visLabels) ''//'')
            then SetVisibility env (ReverseMapTargetName c (hd visLabels)) (tl visLabels) c
            else SetVisibility env DefaultLibraryName visLabels c))"

definition read_resolve :: "js_env \<Rightarrow> JsGazelleConfig \<Rightarrow> directive \<Rightarrow> string \<Rightarrow> applied" where
  "read_resolve env c d v =
     (case Split (CHR '' '') v of
        [glob, target] \<Rightarrow>
          (case je_label_parse env (TrimSpace target) of
             Inl e \<Rightarrow> Rejected c (BadLabel ''js_resolve'' e)
           | Inr l \<Rightarrow> Applied (AddResolve env (TrimSpace glob) l c))
      | _ \<Rightarrow> Rejected c (BadValue ''js_resolve'' (d_value d)))"

definition read_validate :: "JsGazelleConfig \<Rightarrow> directive \<Rightarrow> string \<Rightarrow> applied" where
  "read_validate c d v =
     (if v = ''error'' then Applied (c\<lparr>jc_validateImportStatements := ValidationError\<rparr>)
      else if v = ''warn'' then Applied (c\<lparr>jc_validateImportStatements := ValidationWarn\<rparr>)
      else if v = ''off'' then Applied (c\<lparr>jc_validateImportStatements := ValidationOff\<rparr>)
      else Rejected c (BadValue ''js_validate_import_statements'' (d_value d)))"

definition read_package_kind :: "JsGazelleConfig \<Rightarrow> directive \<Rightarrow> string \<Rightarrow> applied" where
  "read_package_kind c d v =
     (if v = ''js_library'' then Applied (c\<lparr>jc_packageTargetKind := PackageTargetKind_Library\<rparr>)
      else if v = ''npm_package'' then Applied (c\<lparr>jc_packageTargetKind := PackageTargetKind_Package\<rparr>)
      else Rejected c (BadValue ''js_package_rule_kind'' (d_value d)))"

text \<open>The kinds of \<open>js_assets\<close>; \<open>None\<close> when a word is not a kind.\<close>

fun asset_kinds :: "string list \<Rightarrow> ImportKind list option" where
  "asset_kinds [] = Some []"
| "asset_kinds (part # parts) =
     (let assetType = TrimSpace part
      in if assetType = '''' then asset_kinds parts
         else if assetType = ''import'' then map_option ((#) ImportKindImport) (asset_kinds parts)
         else if assetType = ''jsx'' then map_option ((#) ImportKindJsx) (asset_kinds parts)
         else if assetType = ''url'' then map_option ((#) ImportKindURL) (asset_kinds parts)
         else None)"

definition read_assets :: "JsGazelleConfig \<Rightarrow> directive \<Rightarrow> string \<Rightarrow> applied" where
  "read_assets c d v =
     (if v = '''' then Rejected c (BadValue ''js_assets'' (d_value d))
      else case asset_kinds (concat (map (Split (CHR '','')) (Fields v))) of
        None \<Rightarrow> Rejected c (BadValue ''js_assets'' (d_value d))
      | Some kinds \<Rightarrow> Applied (SetCollectAssetsFrom kinds c))"

text \<open>The body of the loop; a key of another extension changes nothing.\<close>

definition apply_directive :: "js_env \<Rightarrow> JsGazelleConfig \<Rightarrow> directive \<Rightarrow> applied" where
  "apply_directive env c d =
     (let v = TrimSpace (d_value d); k = d_key d
      in if k = ''js'' then with_enabled d (\<lambda>b. SetGenerationEnabled b c)
         else if k = ''js_tsconfig'' then
           (case cut_group c v of
              (g, x) \<Rightarrow> Applied (SetTsConfigGenerationEnabled g (TrimSpace x = ''enabled'') c))
         else if k = ''js_proto'' then read_proto_mode c d v
         else if k = ''js_npm_package'' then read_npm_package c d
         else if k = ''js_visibility'' then read_visibility env c v
         else if k = ''js_pnpm_lockfile'' then Applied (SetPnpmLockfile v c)
         else if k = ''js_tsconfig_file'' then
           (case cut_group c v of (g, x) \<Rightarrow> Applied (SetTsconfigFile g (TrimSpace x) c))
         else if k = ''js_tsconfig_ignore'' then
           (case cut_group c v of (g, x) \<Rightarrow> Applied (AddIgnoredTsConfig g (TrimSpace x) c))
         else if k = ''js_tsconfig_package_deps'' then
           with_enabled d (\<lambda>b. c\<lparr>jc_tsConfigPackageDeps := b\<rparr>)
         else if k = ''js_ignore_imports'' then Applied (AddIgnoredImport env (TrimSpace v) c)
         else if k = ''js_resolve'' then read_resolve env c d v
         else if k = ''js_validate_import_statements'' then read_validate c d v
         else if k = ''js_proto_naming_convention'' then Applied (c\<lparr>jc_tsProtoLibraryName := v\<rparr>)
         else if k = ''js_project_naming_convention'' then Applied (SetLibraryNamingConvention v c)
         else if k = ''js_tests_naming_convention'' then Applied (SetTestsNamingLibraryConvention v c)
         else if k = ''js_npm_package_target_name'' then
           Applied (c\<lparr>jc_npmPackageNamingConvention := v\<rparr>)
         else if k = ''js_package_rule_kind'' then read_package_kind c d v
         else if k = ''js_files'' then
           (case parseGroupGlob c v DefaultLibraryName of
              (g, x) \<Rightarrow> of_error ''js_files'' (addTargetGlob env g x False c))
         else if k = ''js_test_files'' then
           (case parseGroupGlob c v DefaultTestsName of
              (g, x) \<Rightarrow> of_error ''js_test_files'' (addTargetGlob env g x True c))
         else if k = ''js_asset_files'' then
           (case parseGroupGlob c v DefaultLibraryName of
              (g, x) \<Rightarrow> of_error ''js_asset_files'' (addTargetAssetGlob env g x c))
         else if k = ''js_assets'' then read_assets c d v
         else if k = ''js_custom_files'' then Ends OsExit
         else if k = ''js_custom_test_files'' then Ends OsExit
         else if k = ''js_generation_mode'' then Ends OsExit
         else Applied c)"

text \<open>A rejected directive is reported and ends the loop; the message is rendered by \<open>fmt\<close>.\<close>

definition read_directive ::
  "js_env \<Rightarrow> (refusal \<Rightarrow> string) \<Rightarrow> exts \<times> JsGazelleConfig \<Rightarrow> directive \<Rightarrow>
   (exts \<times> JsGazelleConfig) loop_step outcome" where
  "read_directive env report s d =
     (case s of (x, c) \<Rightarrow>
        (case apply_directive env c d of
           Applied c' \<Rightarrow> Inr (Next (x, c'))
         | Rejected c' r \<Rightarrow>
             (case MisconfiguredErrorf x (report r) of Inl e \<Rightarrow> Inl e | Inr x' \<Rightarrow> Inr (Return (x', c')))
         | Ends e \<Rightarrow> Inl e))"

definition readDirectives ::
  "js_env \<Rightarrow> (refusal \<Rightarrow> string) \<Rightarrow> exts \<times> JsGazelleConfig \<Rightarrow> directive list \<Rightarrow>
   (exts \<times> JsGazelleConfig) outcome" where
  "readDirectives env report s ds =
     (case read_all (read_directive env report) s ds of
        Inl e \<Rightarrow> Inl e | Inr r \<Rightarrow> Inr (final_state r))"

section \<open>The files of a directory\<close>

text \<open>A directory as the walker lists it; \<open>None\<close> is an error of \<open>walk.GetDirInfo\<close>.\<close>

record dir_info =
  di_Subdirs :: "string list"
  di_RegularFiles :: "string list"
  di_hasFile :: bool

type_synonym dirs = "string \<Rightarrow> (string + dir_info)"

text \<open>\<open>WalkHasPath\<close> (\<open>common/walk.go\<close>), one directory of the path at a time.\<close>

definition below :: "string \<Rightarrow> string \<Rightarrow> string" where
  "below rel s = (if rel = '''' then s else rel @ ''/'' @ s)"

function walk_has :: "dirs \<Rightarrow> string \<Rightarrow> dir_info \<Rightarrow> string \<Rightarrow> bool outcome" where
  "walk_has dirs rel d p =
     (case CutByte p slash of
        (subdir, rest, found) \<Rightarrow>
          if \<not> found then Inr (p \<in> set (di_RegularFiles d))
          else if subdir \<notin> set (di_Subdirs d) then Inr False
          else
            (case dirs (below rel subdir) of
               Inl e \<Rightarrow> Inl (Fatal e)
             | Inr d' \<Rightarrow> walk_has dirs (below rel subdir) d' rest))"
  by pat_completeness auto
termination
  by (relation "measure (\<lambda>(dirs, rel, d, p). length p)")
     (auto dest!: CutByte_TrueD [OF sym])

declare walk_has.simps [simp del]

definition WalkHasPath :: "dirs \<Rightarrow> string \<Rightarrow> string \<Rightarrow> bool outcome" where
  "WalkHasPath dirs rel p =
     (case dirs rel of Inl e \<Rightarrow> Inl (Fatal e) | Inr d \<Rightarrow> walk_has dirs rel d p)"

section \<open>Configuring a directory\<close>

text \<open>
  The repository: its root and name, the walked directories, and reading and parsing a lockfile
  through the parser cache (an error, or the projects with their packages).
\<close>

record repo_env =
  re_root :: string
  re_name :: string
  re_dirs :: dirs
  re_readLock :: "string \<Rightarrow> string + parsed_lockfile"

definition NpmPackageFilename :: string where
  "NpmPackageFilename = ''package.json''"

text \<open>
  The state of the extension that configuring changes: the reported errors, and the typescript
  workspace, which holds the pnpm projects and (as a function) the package.json directories.
\<close>

type_synonym js_state = "exts \<times> TsWorkspace"

definition read_lockfile :: "repo_env \<Rightarrow> JsGazelleConfig \<Rightarrow> js_state \<Rightarrow> js_state outcome" where
  "read_lockfile repo c st =
     (case st of (x, ws) \<Rightarrow>
       (case WalkHasPath (re_dirs repo) (jc_pnpmLockRel c) (jc_pnpmLockPath c) of
          Inl e \<Rightarrow> Inl e
        | Inr False \<Rightarrow> Inr st
        | Inr True \<Rightarrow>
            (let lockfile = path_join [jc_pnpmLockRel c, jc_pnpmLockPath c]
             in case addPnpmLockfile (re_name repo) (jc_npmLinkAllTargetName c)
                       (re_readLock repo lockfile) lockfile x (tw_pnpmProjects ws) of
                  Inl e \<Rightarrow> Inl e
                | Inr (x', pm) \<Rightarrow> Inr (x', ws\<lparr>tw_pnpmProjects := pm\<rparr>))))"

fun read_tsconfigs ::
  "repo_env \<Rightarrow> string \<Rightarrow> (string, targetTsConfig) gomap \<Rightarrow> TsWorkspace \<Rightarrow> TsWorkspace outcome" where
  "read_tsconfigs repo rel [] ws = Inr ws"
| "read_tsconfigs repo rel ((groupName, tc) # m) ws =
     (if tt_fileName tc = '''' then read_tsconfigs repo rel m ws
      else case WalkHasPath (re_dirs repo) rel (tt_fileName tc) of
        Inl e \<Rightarrow> Inl e
      | Inr has \<Rightarrow>
          read_tsconfigs repo rel m
            (if has then SetTsConfigFile ws (re_root repo) rel groupName (tt_fileName tc) else ws))"

definition readConfigurations :: "repo_env \<Rightarrow> JsGazelleConfig \<Rightarrow> string \<Rightarrow> js_state \<Rightarrow> js_state outcome" where
  "readConfigurations repo c rel st =
     (case (if rel = jc_pnpmLockRel c then read_lockfile repo c st else Inr st) of
        Inl e \<Rightarrow> Inl e
      | Inr (x, ws) \<Rightarrow>
        (case read_tsconfigs repo rel (jc_groupTsConfigs c) ws of
           Inl e \<Rightarrow> Inl e
         | Inr ws1 \<Rightarrow>
           (case WalkHasPath (re_dirs repo) rel NpmPackageFilename of
              Inl e \<Rightarrow> Inl e
            | Inr has \<Rightarrow>
                Inr (x, if has then ws1\<lparr>tw_hasPackageJson := (tw_hasPackageJson ws1)(rel := True)\<rparr>
                        else ws1))))"

text \<open>\<open>None\<close> is a directory whose parent has no configuration, or one without a build file.\<close>

definition Configure ::
  "js_env \<Rightarrow> (refusal \<Rightarrow> string) \<Rightarrow> repo_env \<Rightarrow> config_chain option \<Rightarrow> string \<Rightarrow>
   directive list option \<Rightarrow> js_state \<Rightarrow> (config_chain \<times> js_state) outcome" where
  "Configure env report repo parent rel f st =
     (let chain = (case parent of None \<Rightarrow> [newRootConfig] | Some ch \<Rightarrow> NewChild ch rel)
      in case (case f of
                 None \<Rightarrow> Inr (fst st, hd chain)
               | Some ds \<Rightarrow> readDirectives env report (fst st, hd chain) ds) of
           Inl e \<Rightarrow> Inl e
         | Inr (x, c) \<Rightarrow>
           (case readConfigurations repo c rel (x, snd st) of
              Inl e \<Rightarrow> Inl e
            | Inr st' \<Rightarrow> Inr (c # tl chain, st')))"

section \<open>What each directive changes\<close>

text \<open>Two configurations that agree on everything the directives of a topic do not touch.\<close>

definition same_imports :: "JsGazelleConfig \<Rightarrow> JsGazelleConfig \<Rightarrow> bool" where
  "same_imports c c' \<longleftrightarrow>
     jc_ignoreDependencies c' = jc_ignoreDependencies c \<and> jc_resolves c' = jc_resolves c"

definition same_names :: "JsGazelleConfig \<Rightarrow> JsGazelleConfig \<Rightarrow> bool" where
  "same_names c c' \<longleftrightarrow>
     jc_targetNamingOverrides c' = jc_targetNamingOverrides c \<and> jc_rel c' = jc_rel c"

definition same_ts :: "JsGazelleConfig \<Rightarrow> JsGazelleConfig \<Rightarrow> bool" where
  "same_ts c c' \<longleftrightarrow> jc_groupTsConfigs c' = jc_groupTsConfigs c"

lemmas sames = same_imports_def same_names_def same_ts_def

lemma assets_eq:
  "SetCollectAssetsFrom ks c =
     c\<lparr>jc_collectAssetImports := ImportKindImport \<in> set ks,
       jc_collectAssetJsx := ImportKindJsx \<in> set ks,
       jc_collectAssetURL := ImportKindURL \<in> set ks\<rparr>"
proof (induction ks rule: rev_induct)
  case (snoc k ks)
  then show ?case by (cases k) (simp_all add: SetCollectAssetsFrom_def)
qed (simp add: SetCollectAssetsFrom_def)

lemma of_error_Applied: "of_error k r = Applied c' \<longleftrightarrow> r = (c', None)"
  by (cases r) (auto simp: of_error_def split: option.splits)

lemma with_enabled_Applied: "with_enabled d f = Applied c' \<longleftrightarrow> (\<exists>b. ReadEnabled d = Inr b \<and> c' = f b)"
  by (auto simp: with_enabled_def split: sum.splits)

lemma with_group_ts_frame:
  "same_imports c (with_group_ts g h c)" "same_names c (with_group_ts g h c)"
  "jc_targets (with_group_ts g h c) = jc_targets c"
  by (simp_all add: sames with_group_ts_def)

lemma with_target_frame:
  "same_imports c (with_target g h c)" "same_names c (with_target g h c)"
  "same_ts c (with_target g h c)"
  by (simp_all add: sames with_target_def)

lemma ts_setters_frame:
  "same_imports c (SetTsConfigGenerationEnabled g b c)" "same_imports c (SetTsconfigFile g f c)"
  "same_imports c (AddIgnoredTsConfig g p c)"
  "same_names c (SetTsConfigGenerationEnabled g b c)" "same_names c (SetTsconfigFile g f c)"
  "same_names c (AddIgnoredTsConfig g p c)"
  "jc_targets (SetTsConfigGenerationEnabled g b c) = jc_targets c"
  "jc_targets (SetTsconfigFile g f c) = jc_targets c"
  "jc_targets (AddIgnoredTsConfig g p c) = jc_targets c"
  by (simp_all add: SetTsConfigGenerationEnabled_def SetTsconfigFile_def AddIgnoredTsConfig_def
      with_group_ts_frame) (simp_all add: sames)

lemma SetVisibility_frame:
  assumes "SetVisibility env g ls c = (c', r)"
  shows "same_imports c c' \<and> same_names c c' \<and> same_ts c c'"
  using assms by (auto simp: SetVisibility_def with_target_frame split: option.splits prod.splits)
     (auto simp: sames)

lemma addTargetGlob_frame:
  assumes "addTargetGlob env g x b c = (c', r)"
  shows "same_imports c c' \<and> same_names c c' \<and> same_ts c c'"
  using assms by (auto simp: addTargetGlob_def with_target_frame split: option.splits sum.splits if_splits)
     (auto simp: sames)

lemma addTargetAssetGlob_frame:
  assumes "addTargetAssetGlob env g x c = (c', r)"
  shows "same_imports c c' \<and> same_names c c' \<and> same_ts c c'"
  using assms by (auto simp: addTargetAssetGlob_def with_target_frame split: option.splits sum.splits if_splits)
     (auto simp: sames)

text \<open>The directives that only set a flag or a mode.\<close>

definition same_groups :: "JsGazelleConfig \<Rightarrow> JsGazelleConfig \<Rightarrow> bool" where
  "same_groups c c' \<longleftrightarrow> same_imports c c' \<and> same_names c c' \<and> same_ts c c' \<and> jc_targets c' = jc_targets c"

definition mode_keys :: "string list" where
  "mode_keys = [''js'', ''js_proto'', ''js_npm_package'', ''js_pnpm_lockfile'',
     ''js_tsconfig_package_deps'', ''js_validate_import_statements'', ''js_proto_naming_convention'',
     ''js_npm_package_target_name'', ''js_package_rule_kind'', ''js_assets'']"

lemma readers_frame:
  "read_proto_mode c d v = Applied c' \<or> read_proto_mode c d v = Rejected c' r \<Longrightarrow> same_groups c c'"
  "read_npm_package c d = Applied c' \<or> read_npm_package c d = Rejected c' r \<Longrightarrow> same_groups c c'"
  "read_validate c d v = Applied c' \<or> read_validate c d v = Rejected c' r \<Longrightarrow> same_groups c c'"
  "read_package_kind c d v = Applied c' \<or> read_package_kind c d v = Rejected c' r \<Longrightarrow> same_groups c c'"
  "read_assets c d v = Applied c' \<or> read_assets c d v = Rejected c' r \<Longrightarrow> same_groups c c'"
proof -
  show "read_proto_mode c d v = Applied c' \<or> read_proto_mode c d v = Rejected c' r \<Longrightarrow> same_groups c c'"
    by (auto simp: read_proto_mode_def same_groups_def sames split: if_splits)
  show "read_npm_package c d = Applied c' \<or> read_npm_package c d = Rejected c' r \<Longrightarrow> same_groups c c'"
    by (auto simp: read_npm_package_def with_enabled_def same_groups_def sames split: if_splits sum.splits)
  show "read_validate c d v = Applied c' \<or> read_validate c d v = Rejected c' r \<Longrightarrow> same_groups c c'"
    by (auto simp: read_validate_def same_groups_def sames split: if_splits)
  show "read_package_kind c d v = Applied c' \<or> read_package_kind c d v = Rejected c' r \<Longrightarrow> same_groups c c'"
    by (auto simp: read_package_kind_def same_groups_def sames split: if_splits)
  show "read_assets c d v = Applied c' \<or> read_assets c d v = Rejected c' r \<Longrightarrow> same_groups c c'"
    by (auto simp: read_assets_def same_groups_def sames assets_eq split: if_splits option.splits)
qed

abbreviation trimmed :: "directive \<Rightarrow> string" where
  "trimmed d \<equiv> TrimSpace (d_value d)"

text \<open>One equation per key.\<close>

lemma apply_eqs:
  "d_key d = ''js'' \<Longrightarrow> apply_directive env c d = with_enabled d (\<lambda>b. SetGenerationEnabled b c)"
  "d_key d = ''js_tsconfig'' \<Longrightarrow> apply_directive env c d = (case cut_group c (trimmed d) of (g, x) \<Rightarrow> Applied (SetTsConfigGenerationEnabled g (TrimSpace x = ''enabled'') c))"
  "d_key d = ''js_proto'' \<Longrightarrow> apply_directive env c d = read_proto_mode c d (trimmed d)"
  "d_key d = ''js_npm_package'' \<Longrightarrow> apply_directive env c d = read_npm_package c d"
  "d_key d = ''js_visibility'' \<Longrightarrow> apply_directive env c d = read_visibility env c (trimmed d)"
  "d_key d = ''js_pnpm_lockfile'' \<Longrightarrow> apply_directive env c d = Applied (SetPnpmLockfile (trimmed d) c)"
  "d_key d = ''js_tsconfig_file'' \<Longrightarrow> apply_directive env c d = (case cut_group c (trimmed d) of (g, x) \<Rightarrow> Applied (SetTsconfigFile g (TrimSpace x) c))"
  "d_key d = ''js_tsconfig_ignore'' \<Longrightarrow> apply_directive env c d = (case cut_group c (trimmed d) of (g, x) \<Rightarrow> Applied (AddIgnoredTsConfig g (TrimSpace x) c))"
  "d_key d = ''js_tsconfig_package_deps'' \<Longrightarrow> apply_directive env c d = with_enabled d (\<lambda>b. c\<lparr>jc_tsConfigPackageDeps := b\<rparr>)"
  "d_key d = ''js_ignore_imports'' \<Longrightarrow> apply_directive env c d = Applied (AddIgnoredImport env (TrimSpace (trimmed d)) c)"
  "d_key d = ''js_resolve'' \<Longrightarrow> apply_directive env c d = read_resolve env c d (trimmed d)"
  "d_key d = ''js_validate_import_statements'' \<Longrightarrow> apply_directive env c d = read_validate c d (trimmed d)"
  "d_key d = ''js_proto_naming_convention'' \<Longrightarrow> apply_directive env c d = Applied (c\<lparr>jc_tsProtoLibraryName := (trimmed d)\<rparr>)"
  "d_key d = ''js_project_naming_convention'' \<Longrightarrow> apply_directive env c d = Applied (SetLibraryNamingConvention (trimmed d) c)"
  "d_key d = ''js_tests_naming_convention'' \<Longrightarrow> apply_directive env c d = Applied (SetTestsNamingLibraryConvention (trimmed d) c)"
  "d_key d = ''js_npm_package_target_name'' \<Longrightarrow> apply_directive env c d = Applied (c\<lparr>jc_npmPackageNamingConvention := (trimmed d)\<rparr>)"
  "d_key d = ''js_package_rule_kind'' \<Longrightarrow> apply_directive env c d = read_package_kind c d (trimmed d)"
  "d_key d = ''js_files'' \<Longrightarrow> apply_directive env c d = (case parseGroupGlob c (trimmed d) DefaultLibraryName of (g, x) \<Rightarrow> of_error ''js_files'' (addTargetGlob env g x False c))"
  "d_key d = ''js_test_files'' \<Longrightarrow> apply_directive env c d = (case parseGroupGlob c (trimmed d) DefaultTestsName of (g, x) \<Rightarrow> of_error ''js_test_files'' (addTargetGlob env g x True c))"
  "d_key d = ''js_asset_files'' \<Longrightarrow> apply_directive env c d = (case parseGroupGlob c (trimmed d) DefaultLibraryName of (g, x) \<Rightarrow> of_error ''js_asset_files'' (addTargetAssetGlob env g x c))"
  "d_key d = ''js_assets'' \<Longrightarrow> apply_directive env c d = read_assets c d (trimmed d)"
  "d_key d = ''js_custom_files'' \<Longrightarrow> apply_directive env c d = Ends OsExit"
  "d_key d = ''js_custom_test_files'' \<Longrightarrow> apply_directive env c d = Ends OsExit"
  "d_key d = ''js_generation_mode'' \<Longrightarrow> apply_directive env c d = Ends OsExit"
  "d_key d \<notin> set KnownDirectives \<Longrightarrow> apply_directive env c d = Applied c"
  by (simp_all add: apply_directive_def Let_def KnownDirectives_def)

lemma setters_frame:
  "same_groups c (SetGenerationEnabled b c)" "same_groups c (SetPnpmLockfile v c)"
  "same_groups c (c\<lparr>jc_tsConfigPackageDeps := b\<rparr>)" "same_groups c (c\<lparr>jc_tsProtoLibraryName := v\<rparr>)"
  "same_groups c (c\<lparr>jc_npmPackageNamingConvention := v\<rparr>)" "same_groups c c"
  by (simp_all add: SetGenerationEnabled_def SetPnpmLockfile_def same_groups_def sames)

lemma with_enabled_frame:
  assumes "\<And>b. same_groups c (f b)" "with_enabled d f = Applied c' \<or> with_enabled d f = Rejected c' r"
  shows "same_groups c c'"
  using assms by (auto simp: with_enabled_def split: sum.splits)

lemma mode_frame:
  assumes res: "apply_directive env c d = Applied c' \<or> apply_directive env c d = Rejected c' r"
    and key: "d_key d \<in> set mode_keys \<or> d_key d \<notin> set KnownDirectives"
  shows "same_groups c c'"
proof (cases "d_key d \<in> set mode_keys")
  case True
  then consider "d_key d = ''js''" | "d_key d = ''js_proto''" | "d_key d = ''js_npm_package''"
    | "d_key d = ''js_pnpm_lockfile''" | "d_key d = ''js_tsconfig_package_deps''"
    | "d_key d = ''js_validate_import_statements''" | "d_key d = ''js_proto_naming_convention''"
    | "d_key d = ''js_npm_package_target_name''" | "d_key d = ''js_package_rule_kind''"
    | "d_key d = ''js_assets''"
    unfolding mode_keys_def list.set by blast
  then show ?thesis
  proof cases
    case 1
    show ?thesis by (rule with_enabled_frame [OF setters_frame(1) res [unfolded apply_eqs(1) [OF 1]]])
  next
    case 2 with res readers_frame(1) show ?thesis unfolding apply_eqs(3) [OF 2] by blast
  next
    case 3 with res readers_frame(2) show ?thesis unfolding apply_eqs(4) [OF 3] by blast
  next
    case 4 with res setters_frame(2) show ?thesis unfolding apply_eqs(6) [OF 4] by blast
  next
    case 5
    show ?thesis by (rule with_enabled_frame [OF setters_frame(3) res [unfolded apply_eqs(9) [OF 5]]])
  next
    case 6 with res readers_frame(3) show ?thesis unfolding apply_eqs(12) [OF 6] by blast
  next
    case 7 with res setters_frame(4) show ?thesis unfolding apply_eqs(13) [OF 7] by blast
  next
    case 8 with res setters_frame(5) show ?thesis unfolding apply_eqs(16) [OF 8] by blast
  next
    case 9 with res readers_frame(4) show ?thesis unfolding apply_eqs(17) [OF 9] by blast
  next
    case 10 with res readers_frame(5) show ?thesis unfolding apply_eqs(21) [OF 10] by blast
  qed
next
  case False
  with key have "d_key d \<notin> set KnownDirectives" by blast
  from res setters_frame(6) show ?thesis unfolding apply_eqs(25) [OF \<open>d_key d \<notin> set KnownDirectives\<close>] by blast
qed

text \<open>The configuration a directive leaves behind, unless it ends the process.\<close>

definition left_config :: "applied \<Rightarrow> JsGazelleConfig option" where
  "left_config a = (case a of Applied c \<Rightarrow> Some c | Rejected c _ \<Rightarrow> Some c | Ends _ \<Rightarrow> None)"

lemma left_config_iff:
  "left_config a = Some c \<longleftrightarrow> a = Applied c \<or> (\<exists>r. a = Rejected c r)"
  by (cases a) (auto simp: left_config_def)

lemma left_simps [simp]:
  "left_config (Applied c) = Some c" "left_config (Rejected c r) = Some c" "left_config (Ends e) = None"
  by (simp_all add: left_config_def)

lemma left_of_error [simp]: "left_config (of_error k r) = Some (fst r)"
  by (cases r) (auto simp: of_error_def split: option.splits)

lemma directive_cases:
  obtains (mode) "d_key d \<in> set mode_keys \<or> d_key d \<notin> set KnownDirectives"
  | (tsconfig) g x where "d_key d = ''js_tsconfig''"
      "apply_directive env c d = Applied (SetTsConfigGenerationEnabled g x c)"
  | (tsfile) g x where "d_key d = ''js_tsconfig_file''"
      "apply_directive env c d = Applied (SetTsconfigFile g x c)"
  | (tsignore) g x where "d_key d = ''js_tsconfig_ignore''"
      "apply_directive env c d = Applied (AddIgnoredTsConfig g x c)"
  | (ignore) "d_key d = ''js_ignore_imports''"
      "apply_directive env c d = Applied (AddIgnoredImport env (TrimSpace (trimmed d)) c)"
  | (resolve) "d_key d = ''js_resolve''" "apply_directive env c d = read_resolve env c d (trimmed d)"
  | (library) "d_key d = ''js_project_naming_convention''"
      "apply_directive env c d = Applied (SetLibraryNamingConvention (trimmed d) c)"
  | (tests) "d_key d = ''js_tests_naming_convention''"
      "apply_directive env c d = Applied (SetTestsNamingLibraryConvention (trimmed d) c)"
  | (visibility) g ls where "d_key d = ''js_visibility''"
      "apply_directive env c d = of_error ''js_visibility'' (SetVisibility env g ls c)"
  | (sources) g x where "d_key d = ''js_files''" "parseGroupGlob c (trimmed d) DefaultLibraryName = (g, x)"
      "apply_directive env c d = of_error ''js_files'' (addTargetGlob env g x False c)"
  | (test_sources) g x where "d_key d = ''js_test_files''"
      "parseGroupGlob c (trimmed d) DefaultTestsName = (g, x)"
      "apply_directive env c d = of_error ''js_test_files'' (addTargetGlob env g x True c)"
  | (assets) g x where "d_key d = ''js_asset_files''"
      "parseGroupGlob c (trimmed d) DefaultLibraryName = (g, x)"
      "apply_directive env c d = of_error ''js_asset_files'' (addTargetAssetGlob env g x c)"
  | (deprecated) "apply_directive env c d = Ends OsExit"
proof -
  let ?k = "d_key d"
  consider "?k \<in> set mode_keys \<or> ?k \<notin> set KnownDirectives" | "?k = ''js_tsconfig''"
    | "?k = ''js_tsconfig_file''" | "?k = ''js_tsconfig_ignore''" | "?k = ''js_ignore_imports''"
    | "?k = ''js_resolve''" | "?k = ''js_project_naming_convention''"
    | "?k = ''js_tests_naming_convention''" | "?k = ''js_visibility''" | "?k = ''js_files''"
    | "?k = ''js_test_files''" | "?k = ''js_asset_files''"
    | "?k = ''js_custom_files'' \<or> ?k = ''js_custom_test_files'' \<or> ?k = ''js_generation_mode''"
    unfolding mode_keys_def KnownDirectives_def list.set by blast
  moreover obtain g0 x0 where cut: "cut_group c (trimmed d) = (g0, x0)" by (cases "cut_group c (trimmed d)")
  moreover obtain g1 x1 where lib: "parseGroupGlob c (trimmed d) DefaultLibraryName = (g1, x1)"
    by (cases "parseGroupGlob c (trimmed d) DefaultLibraryName")
  moreover obtain g2 x2 where tst: "parseGroupGlob c (trimmed d) DefaultTestsName = (g2, x2)"
    by (cases "parseGroupGlob c (trimmed d) DefaultTestsName")
  ultimately show thesis
  proof cases
    case 1 show thesis by (rule mode [OF 1])
  next
    case 2 show thesis by (rule tsconfig [OF 2]) (simp add: apply_eqs(2) [OF 2] cut)
  next
    case 3 show thesis by (rule tsfile [OF 3]) (simp add: apply_eqs(7) [OF 3] cut)
  next
    case 4 show thesis by (rule tsignore [OF 4]) (simp add: apply_eqs(8) [OF 4] cut)
  next
    case 5 show thesis by (rule ignore [OF 5 apply_eqs(10) [OF 5]])
  next
    case 6 show thesis by (rule resolve [OF 6 apply_eqs(11) [OF 6]])
  next
    case 7 show thesis by (rule library [OF 7 apply_eqs(14) [OF 7]])
  next
    case 8 show thesis by (rule tests [OF 8 apply_eqs(15) [OF 8]])
  next
    case 9
    have "\<exists>g ls. read_visibility env c (trimmed d) = of_error ''js_visibility'' (SetVisibility env g ls c)"
      by (auto simp: read_visibility_def Let_def)
    with apply_eqs(5) [OF 9, of env c] visibility [OF 9] show thesis by metis
  next
    case 10 show thesis by (rule sources [OF 10 lib]) (simp add: apply_eqs(18) [OF 10] lib)
  next
    case 11 show thesis by (rule test_sources [OF 11 tst]) (simp add: apply_eqs(19) [OF 11] tst)
  next
    case 12 show thesis by (rule assets [OF 12 lib]) (simp add: apply_eqs(20) [OF 12] lib)
  next
    case 13 with apply_eqs(22-24) deprecated show thesis by blast
  qed
qed

section \<open>The invariant of configurations\<close>

text \<open>
  Group names are distinct, the two default groups exist with their testonly marks, the maps have
  distinct keys, the default tsconfig settings are explicit, and only attributes that reflect a
  tsconfig are ignored.
\<close>

definition config_wf :: "JsGazelleConfig \<Rightarrow> bool" where
  "config_wf c \<longleftrightarrow>
     distinct (map tg_name (jc_targets c)) \<and>
     map_option tg_testonly (GetSourceTarget c DefaultLibraryName) = Some False \<and>
     map_option tg_testonly (GetSourceTarget c DefaultTestsName) = Some True \<and>
     al_wf (jc_groupTsConfigs c) \<and> al_wf (jc_targetNamingOverrides c) \<and>
     (\<exists>tc. map_of (jc_groupTsConfigs c) '''' = Some tc \<and> tt_enabled tc \<noteq> None \<and> tt_fileName tc \<noteq> '''') \<and>
     (\<forall>tc \<in> snd ` set (jc_groupTsConfigs c). set (tt_ignoredProps tc) \<subseteq> set tsProjectReflectedConfigAttributes)"

text \<open>Groups are never removed and keep their testonly mark; the directory stays.\<close>

definition groups_kept :: "JsGazelleConfig \<Rightarrow> JsGazelleConfig \<Rightarrow> bool" where
  "groups_kept c c' \<longleftrightarrow> jc_rel c' = jc_rel c \<and>
     (\<forall>g t. GetSourceTarget c g = Some t \<longrightarrow>
        (\<exists>t'. GetSourceTarget c' g = Some t' \<and> tg_testonly t' = tg_testonly t))"

definition evolves :: "JsGazelleConfig \<Rightarrow> JsGazelleConfig \<Rightarrow> bool" where
  "evolves c c' \<longleftrightarrow> groups_kept c c' \<and> (config_wf c \<longrightarrow> config_wf c')"

lemma evolves_refl: "evolves c c"
  by (simp add: evolves_def groups_kept_def)

lemma evolves_trans: "evolves c d \<Longrightarrow> evolves d e \<Longrightarrow> evolves c e"
  unfolding evolves_def groups_kept_def by metis

lemma GetSourceTarget_cong: "jc_targets c = jc_targets c' \<Longrightarrow> GetSourceTarget c = GetSourceTarget c'"
  by (simp add: GetSourceTarget_def fun_eq_iff)

lemma evolves_same:
  assumes "same_names c c'" "same_ts c c'" "jc_targets c' = jc_targets c"
  shows "evolves c c'"
  using assms GetSourceTarget_cong [OF assms(3)]
  by (auto simp: evolves_def groups_kept_def config_wf_def sames)


lemma evolves_group_ts:
  assumes "\<And>tc. set (tt_ignoredProps (h tc)) \<subseteq> set (tt_ignoredProps tc) \<union> set tsProjectReflectedConfigAttributes"
    and "\<And>tc. tt_enabled tc \<noteq> None \<Longrightarrow> tt_enabled (h tc) \<noteq> None"
    and "\<And>tc. tt_fileName tc \<noteq> '''' \<Longrightarrow> tt_fileName (h tc) \<noteq> ''''"
  shows "evolves c (with_group_ts g h c)"
proof -
  let ?c = "with_group_ts g h c" and ?tc = "h (getOrCreateGroupTsConfig c g)"
  have gst: "GetSourceTarget ?c = GetSourceTarget c"
    by (rule GetSourceTarget_cong) (simp add: with_group_ts_frame)
  have m: "jc_groupTsConfigs ?c = al_put (jc_groupTsConfigs c) g ?tc" by (simp add: with_group_ts_def)
  have "config_wf ?c" if wf: "config_wf c"
  proof -
    have props: "set (tt_ignoredProps ?tc) \<subseteq> set tsProjectReflectedConfigAttributes"
    proof (cases "map_of (jc_groupTsConfigs c) g")
      case None
      then show ?thesis using assms(1) [of "getOrCreateGroupTsConfig c g"]
        by (simp add: getOrCreateGroupTsConfig_def)
    next
      case (Some tc)
      then have "tc \<in> snd ` set (jc_groupTsConfigs c)" by (force dest: map_of_SomeD)
      then have "set (tt_ignoredProps tc) \<subseteq> set tsProjectReflectedConfigAttributes"
        using wf unfolding config_wf_def by blast
      then show ?thesis using assms(1) [of tc] Some by (auto simp: getOrCreateGroupTsConfig_def)
    qed
    have "al_wf (jc_groupTsConfigs c)" using wf by (simp add: config_wf_def)
    note sub = set_al_put [of "jc_groupTsConfigs c" g ?tc]
    have root: "\<exists>tc. map_of (jc_groupTsConfigs ?c) '''' = Some tc \<and> tt_enabled tc \<noteq> None \<and> tt_fileName tc \<noteq> ''''"
      using wf assms(2,3) unfolding config_wf_def m
      by (auto simp: getOrCreateGroupTsConfig_def)
    have all: "\<forall>tc \<in> snd ` set (jc_groupTsConfigs ?c). set (tt_ignoredProps tc) \<subseteq> set tsProjectReflectedConfigAttributes"
      using wf sub props unfolding config_wf_def m by fastforce
    have frame: "jc_targets ?c = jc_targets c" "jc_targetNamingOverrides ?c = jc_targetNamingOverrides c"
      "al_wf (jc_groupTsConfigs ?c)"
      using wf by (simp_all add: with_group_ts_def config_wf_def)
    show ?thesis
      using wf root all frame unfolding config_wf_def gst by simp
  qed
  then show ?thesis
    by (simp add: evolves_def groups_kept_def gst with_group_ts_frame(2) [unfolded same_names_def])
qed

lemma evolves_with_target:
  assumes "\<And>t. tg_name (f t) = tg_name t" "\<And>t. tg_testonly (f t) = tg_testonly t"
  shows "evolves c (with_target g f c)"
proof -
  have ton: "map_option tg_testonly (GetSourceTarget (with_target g f c) n) =
      map_option tg_testonly (GetSourceTarget c n)" for n
    by (simp add: GetSourceTarget_with_target assms(1) option.map_comp comp_def assms(2))
  have "groups_kept c (with_target g f c)"
    unfolding groups_kept_def
    by (auto simp: GetSourceTarget_with_target assms with_target_frame(2) [unfolded same_names_def])
  then show ?thesis
    unfolding evolves_def config_wf_def ton
    by (simp add: with_target_def names_update_target [OF assms(1)])
qed

lemma evolves_new_target:
  assumes "GetSourceTarget c g = None" "tg_name t = g"
  shows "evolves c (c\<lparr>jc_targets := jc_targets c @ [t]\<rparr>)"
proof -
  let ?c = "c\<lparr>jc_targets := jc_targets c @ [t]\<rparr>"
  have old: "GetSourceTarget c n = Some t' \<Longrightarrow> GetSourceTarget ?c n = Some t'" for n t'
    by (simp add: GetSourceTarget_def find_append)
  have "g \<notin> tg_name ` set (jc_targets c)" using assms(1) GetSourceTarget_mem by blast
  then have "distinct (map tg_name (jc_targets c)) \<Longrightarrow> distinct (map tg_name (jc_targets ?c))"
    using assms(2) by simp
  then show ?thesis
    unfolding evolves_def groups_kept_def config_wf_def by (auto dest!: old)
qed

lemma evolves_addTargetGlob: "evolves c (fst (addTargetGlob env g x b c))"
  by (auto simp: addTargetGlob_def evolves_refl intro!: evolves_with_target evolves_new_target
      split: sum.splits option.splits)

lemma evolves_addTargetAssetGlob: "evolves c (fst (addTargetAssetGlob env g x c))"
  by (auto simp: addTargetAssetGlob_def evolves_refl intro!: evolves_with_target
      split: sum.splits option.splits)

lemma evolves_SetVisibility: "evolves c (fst (SetVisibility env g ls c))"
  by (auto simp: SetVisibility_def evolves_refl intro!: evolves_with_target
      split: option.splits prod.splits)

lemma evolves_overrides:
  "evolves c (SetLibraryNamingConvention n c)" "evolves c (SetTestsNamingLibraryConvention n c)"
  by (auto simp: SetLibraryNamingConvention_def SetTestsNamingLibraryConvention_def evolves_def
      groups_kept_def config_wf_def GetSourceTarget_def)

lemma evolves_imports:
  "evolves c (AddIgnoredImport env g c)" "evolves c (AddResolve env g l c)"
  by (auto simp: AddIgnoredImport_def AddResolve_def evolves_def
      groups_kept_def config_wf_def GetSourceTarget_def split: sum.splits)

lemma evolves_ts:
  "evolves c (SetTsConfigGenerationEnabled g b c)" "evolves c (SetTsconfigFile g f c)"
  "evolves c (AddIgnoredTsConfig g p c)"
  unfolding SetTsConfigGenerationEnabled_def SetTsconfigFile_def AddIgnoredTsConfig_def
  by (auto intro!: evolves_group_ts evolves_refl)

lemma apply_directive_evolves:
  assumes left: "left_config (apply_directive env c d) = Some c'"
  shows "evolves c c'"
proof (cases rule: directive_cases [where d = d and env = env and c = c])
  case mode
  from left have "apply_directive env c d = Applied c' \<or> (\<exists>r. apply_directive env c d = Rejected c' r)"
    by (simp add: left_config_iff)
  then show ?thesis using mode_frame [OF _ mode] by (meson same_groups_def evolves_same)
next
  case resolve
  with left show ?thesis
    by (auto simp: read_resolve_def evolves_refl evolves_imports split: list.splits sum.splits)
next
  case deprecated
  with left show ?thesis by simp
qed (use left evolves_ts evolves_imports evolves_overrides evolves_SetVisibility
    evolves_addTargetGlob evolves_addTargetAssetGlob in auto)

interpretation js_directives:
  directive_reader "read_directive env report" "\<lambda>s t. evolves (snd s) (snd t)" for env report
proof
  fix s t u :: "exts \<times> JsGazelleConfig" and d r
  show "evolves (snd s) (snd s)" by (rule evolves_refl)
  show "evolves (snd s) (snd t) \<Longrightarrow> evolves (snd t) (snd u) \<Longrightarrow> evolves (snd s) (snd u)"
    by (rule evolves_trans)
  assume res: "read_directive env report s d = Inr r"
  then have "left_config (apply_directive env (snd s) d) = Some (snd (final_state r))"
    by (auto simp: read_directive_def split: prod.splits applied.splits sum.splits)
  then show "evolves (snd s) (snd (final_state r))" by (rule apply_directive_evolves)
qed

lemma newRootConfig_wf: "config_wf newRootConfig"
  by (simp add: config_wf_def newRootConfig_def DefaultSourceGlobs_def GetSourceTarget_def al_wf_def
      DefaultLibraryName_def DefaultTestsName_def) (rule exI [of _ True], simp)

lemma child_wf: "config_wf c \<Longrightarrow> config_wf (child_of c p)"
  by (auto simp: config_wf_def child_settings option.map_comp comp_def)
     (simp_all add: child_of_def comp_def)

text \<open>The chains of configurations that configuring a tree of directories produces.\<close>

inductive configured :: "js_env \<Rightarrow> (refusal \<Rightarrow> string) \<Rightarrow> repo_env \<Rightarrow> config_chain \<Rightarrow> bool"
  for env report repo where
  root: "Configure env report repo None rel f st = Inr (ch, st') \<Longrightarrow> configured env report repo ch"
| sub: "configured env report repo ch \<Longrightarrow>
    Configure env report repo (Some ch) rel f st = Inr (ch', st') \<Longrightarrow> configured env report repo ch'"

inductive_cases configured_Cons: "configured env report repo (c # ch)"

lemma Configure_evolves:
  assumes "Configure env report repo parent rel f st = Inr (ch, st')"
  shows "\<exists>c. evolves (case parent of None \<Rightarrow> newRootConfig | Some p \<Rightarrow> child_of (hd p) rel) c \<and>
    ch = c # (case parent of None \<Rightarrow> [] | Some p \<Rightarrow> p)"
proof -
  define start where "start = (case parent of None \<Rightarrow> [newRootConfig] | Some p \<Rightarrow> NewChild p rel)"
  have start: "start = (case parent of None \<Rightarrow> newRootConfig | Some p \<Rightarrow> child_of (hd p) rel) #
      (case parent of None \<Rightarrow> [] | Some p \<Rightarrow> p)"
    by (simp add: start_def NewChild_def split: option.splits)
  from assms obtain x c where
    1: "(case f of None \<Rightarrow> Inr (fst st, hd start)
      | Some ds \<Rightarrow> readDirectives env report (fst st, hd start) ds) = Inr (x, c)"
    and ch: "ch = c # tl start"
    unfolding Configure_def Let_def start_def [symmetric] by (auto split: sum.splits)
  obtain s0 ss where s0: "start = s0 # ss" using start by blast
  from 1 have "evolves s0 c"
    by (auto simp: evolves_refl readDirectives_def s0 split: option.splits sum.splits
        dest!: js_directives.read_all_inv)
  with ch start show ?thesis by (simp add: s0)
qed

text \<open>
  C35 (invariant). In every directory of the tree the configuration is well formed: its groups
  have distinct names, the library and the tests group exist with their testonly marks, the
  default tsconfig settings are explicit, and only attributes reflecting a tsconfig are ignored;
  and every group of the parent directory is still there with the same testonly mark.
\<close>

theorem configured_wf:
  "configured env report repo (c # ch) \<Longrightarrow>
     config_wf c \<and> (ch \<noteq> [] \<longrightarrow> configured env report repo ch \<and>
       (\<forall>g t. GetSourceTarget (hd ch) g = Some t \<longrightarrow>
          (\<exists>t'. GetSourceTarget c g = Some t' \<and> tg_testonly t' = tg_testonly t)))"
proof (induction "c # ch" arbitrary: c ch rule: configured.induct)
  case (root rel f st st')
  from Configure_evolves [OF root] newRootConfig_wf show ?case by (auto simp: evolves_def)
next
  case (sub p rel f st st')
  from Configure_evolves [OF sub(3)] have ev: "evolves (child_of (hd p) rel) c" and ch: "ch = p" by auto
  from sub(1) have "p \<noteq> []" by (auto elim!: configured.cases dest!: Configure_evolves)
  then obtain q qs where p: "p = q # qs" by (cases p) auto
  have "config_wf q" using sub(2) [OF p] by blast
  then have "config_wf c" using ev child_wf by (auto simp: evolves_def p)
  moreover have "\<exists>t'. GetSourceTarget c g = Some t' \<and> tg_testonly t' = tg_testonly t"
    if "GetSourceTarget q g = Some t" for g t
    using ev that unfolding evolves_def groups_kept_def by (force simp: p)
  ultimately show ?case using sub(1) ch p by auto
qed

text \<open>A repository without files, for the witnesses.\<close>

definition empty_env :: js_env where
  "empty_env = \<lparr>je_dsvalid = (\<lambda>_. True), je_dsmatch = (\<lambda>p s. p = s),
     je_label_parse = (\<lambda>s. Inr (Label '''' '''' s True))\<rparr>"

definition empty_repo :: repo_env where
  "empty_repo = \<lparr>re_root = ''/w'', re_name = '''',
     re_dirs = (\<lambda>_. Inr \<lparr>di_Subdirs = [], di_RegularFiles = [], di_hasFile = False\<rparr>),
     re_readLock = (\<lambda>_. Inl '''')\<rparr>"

definition empty_state :: js_state where
  "empty_state = (None, fst (NewTsWorkspace NewPnpmProjectMap (\<lambda>_. False)))"

lemma empty_repo_path: "WalkHasPath (re_dirs empty_repo) rel p = Inr False"
  by (cases "CutByte p slash") (simp add: WalkHasPath_def empty_repo_def walk_has.simps)

lemma empty_repo_configurations:
  "readConfigurations empty_repo c rel st = Inr st"
proof -
  have "read_tsconfigs empty_repo rel m ws = Inr ws" for m ws
    by (induction m) (auto simp: empty_repo_path)
  then show ?thesis
    by (cases "rel = jc_pnpmLockRel c"; cases st)
       (simp_all add: readConfigurations_def read_lockfile_def empty_repo_path)
qed

theorem configured_wf_witness:
  "config_wf (child_of newRootConfig ''a'')"
proof -
  have r: "Configure empty_env (\<lambda>_. '''') empty_repo None '''' None empty_state = Inr ([newRootConfig], empty_state)"
    by (simp add: Configure_def empty_repo_configurations newRootConfig_def empty_state_def)
  have "Configure empty_env (\<lambda>_. '''') empty_repo (Some [newRootConfig]) ''a'' None empty_state =
      Inr ([child_of newRootConfig ''a'', newRootConfig], empty_state)"
    by (simp add: Configure_def empty_repo_configurations NewChild_def newRootConfig_def child_of_def empty_state_def)
  with configured.root [OF r] have "configured empty_env (\<lambda>_. '''') empty_repo
      [child_of newRootConfig ''a'', newRootConfig]" by (blast intro: configured.sub)
  from configured_wf [OF this] show ?thesis by blast
qed

section \<open>Reading the directives of a build file\<close>

text \<open>All directives applied in order; \<open>None\<close> when one is rejected or ends the process.\<close>

fun apply_all :: "js_env \<Rightarrow> JsGazelleConfig \<Rightarrow> directive list \<Rightarrow> JsGazelleConfig option" where
  "apply_all env c [] = Some c"
| "apply_all env c (d # ds) =
     (case apply_directive env c d of Applied c' \<Rightarrow> apply_all env c' ds | _ \<Rightarrow> None)"

lemma read_all_next_iff:
  "read_all (read_directive env report) (x, c) ds = Inr (Next (x', c')) \<longleftrightarrow>
     x' = x \<and> apply_all env c ds = Some c'"
  by (induction ds arbitrary: c)
     (auto simp: read_directive_def split: applied.splits sum.splits)

text \<open>
  The configuration a rejected directive leaves: the one before it, except that a rejected
  \<open>js_visibility\<close> of an existing group has already replaced the visibility of the group by the
  labels before the invalid one.
\<close>

definition visibility_words :: "directive \<Rightarrow> string list" where
  "visibility_words d = filter (\<lambda>l. l \<noteq> '''') (map TrimSpace (Split (CHR '' '') (TrimSpace (d_value d))))"

definition visibility_target :: "JsGazelleConfig \<Rightarrow> directive \<Rightarrow> string \<times> string list" where
  "visibility_target c d =
     (case visibility_words d of
        [] \<Rightarrow> (DefaultLibraryName, [])
      | w # ws \<Rightarrow>
          if HasPrefix w '':'' \<or> HasPrefix w ''//'' then (DefaultLibraryName, w # ws)
          else (ReverseMapTargetName c w, ws))"

fun valid_labels :: "js_env \<Rightarrow> string list \<Rightarrow> label list" where
  "valid_labels env [] = []"
| "valid_labels env (w # ws) =
     (case je_label_parse env (TrimSpace w) of Inl _ \<Rightarrow> [] | Inr l \<Rightarrow> l # valid_labels env ws)"

definition left_by_rejected :: "js_env \<Rightarrow> JsGazelleConfig \<Rightarrow> directive \<Rightarrow> JsGazelleConfig" where
  "left_by_rejected env c d =
     (case visibility_target c d of
        (g, ws) \<Rightarrow>
          if d_key d = ''js_visibility'' \<and> GetSourceTarget c g \<noteq> None
          then with_target g (\<lambda>t. t\<lparr>tg_visibility := valid_labels env ws\<rparr>) c
          else c)"

lemma fst_parse_labels [simp]: "fst (parse_labels env ws) = valid_labels env ws"
  by (induction ws) (auto split: sum.splits prod.splits)

lemma read_visibility_eq:
  "d_key d = ''js_visibility'' \<Longrightarrow>
   apply_directive env c d =
     of_error ''js_visibility'' (case visibility_target c d of (g, ws) \<Rightarrow> SetVisibility env g ws c)"
  by (auto simp: apply_directive_def read_visibility_def visibility_target_def visibility_words_def [symmetric]
      Let_def split: list.splits)

lemma left_after_visibility:
  assumes "d_key d = ''js_visibility''" "apply_directive env c d = Rejected c' r"
  shows "c' = left_by_rejected env c d"
proof -
  obtain g ws where v: "visibility_target c d = (g, ws)" by fastforce
  from assms have "fst (SetVisibility env g ws c) = c'"
    by (auto simp: read_visibility_eq v of_error_def split: prod.splits option.splits)
  moreover have "fst (SetVisibility env g ws c) = left_by_rejected env c d"
    using assms(1) fst_parse_labels [of env ws]
    by (auto simp: SetVisibility_def left_by_rejected_def v split: option.splits prod.splits simp del: fst_parse_labels)
  ultimately show ?thesis by simp
qed

lemma targets_left:
  "of_error k (addTargetGlob env g x b c) = Rejected c' r \<Longrightarrow> c' = c"
  "of_error k (addTargetAssetGlob env g x c) = Rejected c' r \<Longrightarrow> c' = c"
  by (auto simp: of_error_def addTargetGlob_def addTargetAssetGlob_def Let_def
      split: prod.splits option.splits sum.splits if_splits)

lemma readers_left:
  "with_enabled d f = Rejected c' r \<Longrightarrow> c' = c"
  "read_proto_mode c d v = Rejected c' r \<Longrightarrow> c' = c"
  "read_npm_package c d = Rejected c' r \<Longrightarrow> c' = c"
  "read_resolve env c d v = Rejected c' r \<Longrightarrow> c' = c"
  "read_validate c d v = Rejected c' r \<Longrightarrow> c' = c"
  "read_package_kind c d v = Rejected c' r \<Longrightarrow> c' = c"
  "read_assets c d v = Rejected c' r \<Longrightarrow> c' = c"
  by (auto simp: with_enabled_def read_proto_mode_def read_npm_package_def read_resolve_def read_validate_def
      read_package_kind_def read_assets_def split: sum.splits if_splits list.splits option.splits)

lemma left_after_other:
  assumes "d_key d \<noteq> ''js_visibility''" "apply_directive env c d = Rejected c' r"
  shows "c' = c"
  using assms unfolding apply_directive_def Let_def
  by (auto split: if_splits prod.splits dest: targets_left readers_left [where c = c])

lemma rejected_left: "apply_directive env c d = Rejected c' r \<Longrightarrow> c' = left_by_rejected env c d"
  using left_after_visibility [of d env c c' r] left_after_other [of d env c c' r]
  by (cases "d_key d = ''js_visibility''") (auto simp: left_by_rejected_def split: prod.splits)

lemma readDirectives_return_iff:
  "read_all (read_directive env report) (ctx, c) ds = Inr (Return (x, c')) \<longleftrightarrow>
     (\<exists>us d vs c1 r a. ds = us @ d # vs \<and> apply_all env c us = Some c1 \<and> ctx = Some a \<and>
        apply_directive env c1 d = Rejected c' r \<and> c' = left_by_rejected env c1 d \<and>
        x = Some ((acc_add a (report r))\<lparr>ctx_cancelled := True\<rparr>))"
proof -
  have step: "read_directive env report (ctx, c1) d = Inr (Return (x, c')) \<longleftrightarrow>
      (\<exists>r a. ctx = Some a \<and> apply_directive env c1 d = Rejected c' r \<and> c' = left_by_rejected env c1 d \<and>
           x = Some ((acc_add a (report r))\<lparr>ctx_cancelled := True\<rparr>))" for c1 d
    by (auto simp: read_directive_def MisconfiguredErrorf_def cancelOrFatal_def
        split: applied.splits option.splits sum.splits dest: rejected_left)
  show ?thesis
    unfolding read_all_return_iff by (auto simp: read_all_next_iff step)
qed

lemma readDirectives_fatal_iff:
  "read_all (read_directive env report) (ctx, c) ds = Inl e \<longleftrightarrow>
     (\<exists>us d vs c1. ds = us @ d # vs \<and> apply_all env c us = Some c1 \<and>
        (apply_directive env c1 d = Ends e \<or>
         (\<exists>c2 r. ctx = None \<and> apply_directive env c1 d = Rejected c2 r \<and> e = Fatal (report r))))"
proof -
  have step: "read_directive env report (ctx, c1) d = Inl e \<longleftrightarrow>
      apply_directive env c1 d = Ends e \<or>
      (\<exists>c2 r. ctx = None \<and> apply_directive env c1 d = Rejected c2 r \<and> e = Fatal (report r))" for c1 d
    by (auto simp: read_directive_def MisconfiguredErrorf_def cancelOrFatal_def
        split: applied.splits option.splits sum.splits)
  show ?thesis
    unfolding read_all_stop_iff by (auto simp: read_all_next_iff step)
qed

text \<open>
  C36 (error). Reading the directives of a build file has exactly these results. Either all of
  them are applied in order and nothing is reported. Or, with a cancellable context, it stops at
  the first one that is rejected, reports exactly that one, cancels the run and ignores the later
  ones; the configuration is then the one the earlier directives made, except that a rejected
  js_visibility has already replaced the visibility of its group by the labels before the invalid
  one. Or the process ends: at the first deprecated or fatally malformed directive, or, without a
  context, at the first rejected one with its message.
\<close>

theorem directives_stop_at_first_error:
  "(readDirectives env report (ctx, c) ds = Inr (x, c') \<longleftrightarrow>
      (apply_all env c ds = Some c' \<and> x = ctx) \<or>
      (\<exists>us d vs c1 r a. ds = us @ d # vs \<and> apply_all env c us = Some c1 \<and> ctx = Some a \<and>
         apply_directive env c1 d = Rejected c' r \<and> c' = left_by_rejected env c1 d \<and>
         x = Some ((acc_add a (report r))\<lparr>ctx_cancelled := True\<rparr>))) \<and>
   (readDirectives env report (ctx, c) ds = Inl e \<longleftrightarrow>
      (\<exists>us d vs c1. ds = us @ d # vs \<and> apply_all env c us = Some c1 \<and>
         (apply_directive env c1 d = Ends e \<or>
          (\<exists>c2 r. ctx = None \<and> apply_directive env c1 d = Rejected c2 r \<and> e = Fatal (report r)))))"
proof -
  have ok: "readDirectives env report (ctx, c) ds = Inr (x, c') \<longleftrightarrow>
      read_all (read_directive env report) (ctx, c) ds = Inr (Next (x, c')) \<or>
      read_all (read_directive env report) (ctx, c) ds = Inr (Return (x, c'))"
    by (auto simp: readDirectives_def split: sum.splits elim: final_state.elims)
  have "readDirectives env report (ctx, c) ds = Inl e \<longleftrightarrow>
      read_all (read_directive env report) (ctx, c) ds = Inl e"
    by (simp add: readDirectives_def split: sum.splits)
  then show ?thesis
    unfolding ok readDirectives_return_iff readDirectives_fatal_iff read_all_next_iff by blast
qed

section \<open>Ignored and resolved imports\<close>

text \<open>The imports a directive ignores and resolves itself; an invalid glob is skipped.\<close>

definition ignored_by :: "js_env \<Rightarrow> directive \<Rightarrow> glob_expr list" where
  "ignored_by env d =
     (if d_key d = ''js_ignore_imports''
      then (case parse_glob env (TrimSpace (trimmed d)) of Inl _ \<Rightarrow> [] | Inr g \<Rightarrow> [g])
      else [])"

definition resolved_by :: "js_env \<Rightarrow> directive \<Rightarrow> jsResolve list" where
  "resolved_by env d =
     (if d_key d = ''js_resolve'' then
        (case Split (CHR '' '') (trimmed d) of
           [glob, target] \<Rightarrow>
             (case (parse_glob env (TrimSpace glob), je_label_parse env (TrimSpace target)) of
                (Inr g, Inr l) \<Rightarrow> [\<lparr>rv_importGlob = g, rv_label = l\<rparr>] | _ \<Rightarrow> [])
         | _ \<Rightarrow> [])
      else [])"

lemma key_frame:
  assumes "d_key d \<in> set mode_keys \<or> d_key d \<notin> set KnownDirectives"
    and "k \<in> set KnownDirectives" "k \<notin> set mode_keys"
  shows "d_key d \<noteq> k"
  using assms by blast

lemma other_keys [simp]:
  "''js_ignore_imports'' \<in> set KnownDirectives" "''js_ignore_imports'' \<notin> set mode_keys"
  "''js_resolve'' \<in> set KnownDirectives" "''js_resolve'' \<notin> set mode_keys"
  "''js_files'' \<in> set KnownDirectives" "''js_files'' \<notin> set mode_keys"
  "''js_test_files'' \<in> set KnownDirectives" "''js_test_files'' \<notin> set mode_keys"
  "''js_project_naming_convention'' \<in> set KnownDirectives"
  "''js_project_naming_convention'' \<notin> set mode_keys"
  "''js_tests_naming_convention'' \<in> set KnownDirectives"
  "''js_tests_naming_convention'' \<notin> set mode_keys"
  by (simp_all add: KnownDirectives_def mode_keys_def)

lemma resolve_imports:
  assumes "read_resolve env c d (trimmed d) = Applied c'" "d_key d = ''js_resolve''"
  shows "jc_ignoreDependencies c' = jc_ignoreDependencies c \<and> jc_resolves c' = jc_resolves c @ resolved_by env d"
  using assms
  by (auto simp: read_resolve_def resolved_by_def AddResolve_def split: list.splits sum.splits)

lemma of_error_frame:
  assumes "of_error k r = Applied c'" "\<And>e. r = (c', e) \<Longrightarrow> same_imports c c'"
  shows "same_imports c c'"
  using assms by (auto simp: of_error_Applied)

lemma applied_imports:
  assumes app: "apply_directive env c d = Applied c'"
  shows "jc_ignoreDependencies c' = jc_ignoreDependencies c @ ignored_by env d \<and>
         jc_resolves c' = jc_resolves c @ resolved_by env d"
proof (cases rule: directive_cases [where d = d and env = env and c = c])
  case mode
  with mode_frame [OF _ mode] app have "same_imports c c'" by (auto simp: same_groups_def)
  then show ?thesis using key_frame [OF mode]
    by (simp add: ignored_by_def resolved_by_def same_imports_def)
next
  case ignore
  with app show ?thesis
    by (auto simp: ignored_by_def resolved_by_def AddIgnoredImport_def split: sum.splits)
next
  case resolve
  with app have "read_resolve env c d (trimmed d) = Applied c'" by simp
  from resolve_imports [OF this resolve(1)] resolve(1) show ?thesis by (simp add: ignored_by_def)
next
  case (tsconfig g x)
  with app ts_setters_frame(1) show ?thesis by (auto simp: ignored_by_def resolved_by_def same_imports_def)
next
  case (tsfile g x)
  with app ts_setters_frame(2) show ?thesis by (auto simp: ignored_by_def resolved_by_def same_imports_def)
next
  case (tsignore g x)
  with app ts_setters_frame(3) show ?thesis by (auto simp: ignored_by_def resolved_by_def same_imports_def)
next
  case library
  with app show ?thesis by (auto simp: ignored_by_def resolved_by_def SetLibraryNamingConvention_def)
next
  case tests
  with app show ?thesis by (auto simp: ignored_by_def resolved_by_def SetTestsNamingLibraryConvention_def)
next
  case (visibility g ls)
  with app have "SetVisibility env g ls c = (c', None)" by (simp add: of_error_Applied)
  from SetVisibility_frame [OF this] visibility(1) show ?thesis
    by (simp add: ignored_by_def resolved_by_def same_imports_def)
next
  case (sources g x)
  with app have "addTargetGlob env g x False c = (c', None)" by (simp add: of_error_Applied)
  from addTargetGlob_frame [OF this] sources(1) show ?thesis
    by (simp add: ignored_by_def resolved_by_def same_imports_def)
next
  case (test_sources g x)
  with app have "addTargetGlob env g x True c = (c', None)" by (simp add: of_error_Applied)
  from addTargetGlob_frame [OF this] test_sources(1) show ?thesis
    by (simp add: ignored_by_def resolved_by_def same_imports_def)
next
  case (assets g x)
  with app have "addTargetAssetGlob env g x c = (c', None)" by (simp add: of_error_Applied)
  from addTargetAssetGlob_frame [OF this] assets(1) show ?thesis
    by (simp add: ignored_by_def resolved_by_def same_imports_def)
next
  case deprecated
  with app show ?thesis by simp
qed

lemma apply_all_imports:
  "apply_all env c ds = Some c' \<Longrightarrow>
     jc_ignoreDependencies c' = jc_ignoreDependencies c @ concat (map (ignored_by env) ds) \<and>
     jc_resolves c' = jc_resolves c @ concat (map (resolved_by env) ds)"
proof (induction ds arbitrary: c)
  case (Cons d ds)
  then obtain c1 where "apply_directive env c d = Applied c1" "apply_all env c1 ds = Some c'"
    by (auto split: applied.splits)
  with Cons.IH applied_imports show ?case by fastforce
qed simp

text \<open>
  In a directory whose build file was accepted, an import is ignored exactly
  when one of its own \<open>js_ignore_imports\<close> globs matches or the parent directory ignores it, and
  it is resolved by the first of its own matching \<open>js_resolve\<close> directives, else as in the
  parent directory.
\<close>

theorem directory_imports:
  assumes "apply_all env (child_of p rel) ds = Some c"
  shows "IsImportIgnored (c # p # ps) i =
           (list_ex (\<lambda>g. g i) (concat (map (ignored_by env) ds)) \<or> IsImportIgnored (p # ps) i) \<and>
         GetResolution (c # p # ps) i =
           (case find (\<lambda>r. rv_importGlob r i) (concat (map (resolved_by env) ds)) of
              Some r \<Rightarrow> Some (rv_label r)
            | None \<Rightarrow> GetResolution (p # ps) i)"
proof -
  from apply_all_imports [OF assms] have
    "jc_ignoreDependencies c = concat (map (ignored_by env) ds)"
    "jc_resolves c = concat (map (resolved_by env) ds)"
    by (simp_all add: child_of_def)
  then show ?thesis by (simp del: IsImportIgnored.simps(2) GetResolution.simps(2)
      add: IsImportIgnored.simps(2) [of c] GetResolution.simps(2) [of c])
qed

section \<open>Source globs of the groups\<close>

text \<open>What a directive renames, and the source glob it adds to a group.\<close>

definition renaming :: "directive \<Rightarrow> JsGazelleConfig \<Rightarrow> JsGazelleConfig" where
  "renaming d c =
     (if d_key d = ''js_project_naming_convention'' then SetLibraryNamingConvention (trimmed d) c
      else if d_key d = ''js_tests_naming_convention'' then SetTestsNamingLibraryConvention (trimmed d) c
      else c)"

definition glob_of :: "JsGazelleConfig \<Rightarrow> directive \<Rightarrow> (string \<times> string) option" where
  "glob_of c d =
     (if d_key d = ''js_files'' then Some (parseGroupGlob c (trimmed d) DefaultLibraryName)
      else if d_key d = ''js_test_files'' then Some (parseGroupGlob c (trimmed d) DefaultTestsName)
      else None)"

text \<open>
  The globs that the directives give a group, in order, the group being named by its target name
  under the naming conventions read so far.
\<close>

fun declared_globs :: "JsGazelleConfig \<Rightarrow> string \<Rightarrow> directive list \<Rightarrow> string list" where
  "declared_globs c g [] = []"
| "declared_globs c g (d # ds) =
     (case glob_of c d of
        Some (g', x) \<Rightarrow> if g' = g then [TrimPrefix x ''./''] else []
      | None \<Rightarrow> []) @ declared_globs (renaming d c) g ds"

lemma glob_of_names:
  assumes "jc_targetNamingOverrides c = jc_targetNamingOverrides c'"
  shows "glob_of c d = glob_of c' d"
proof -
  have "ReverseMapTargetName c = ReverseMapTargetName c'"
    by (simp add: ReverseMapTargetName_def fun_eq_iff assms)
  then have "parseGroupGlob c v g = parseGroupGlob c' v g" for v g
    by (simp only: parseGroupGlob_def)
  then show ?thesis by (simp add: glob_of_def)
qed

lemma declared_globs_names:
  "jc_targetNamingOverrides c = jc_targetNamingOverrides c' \<Longrightarrow> declared_globs c g ds = declared_globs c' g ds"
proof (induction ds arbitrary: c c')
  case (Cons d ds)
  have "glob_of c d = glob_of c' d"
    by (rule glob_of_names [OF Cons.prems])
  moreover have "declared_globs (renaming d c) g ds = declared_globs (renaming d c') g ds"
    by (rule Cons.IH) (simp add: renaming_def SetLibraryNamingConvention_def
        SetTestsNamingLibraryConvention_def Cons.prems)
  ultimately show ?case by simp
qed simp

text \<open>The custom source globs of a group, none when it does not exist.\<close>

definition custom_of :: "JsGazelleConfig \<Rightarrow> string \<Rightarrow> string list" where
  "custom_of c g = (case GetSourceTarget c g of Some t \<Rightarrow> tg_customSources t | None \<Rightarrow> [])"

definition inherited_of :: "JsGazelleConfig \<Rightarrow> string \<Rightarrow> string list" where
  "inherited_of c g = (case GetSourceTarget c g of Some t \<Rightarrow> tg_inheritedSources t | None \<Rightarrow> [])"

lemma addTargetGlob_custom:
  assumes "addTargetGlob env g x b c = (c', None)"
  shows "custom_of c' h = custom_of c h @ (if g = h then [TrimPrefix x ''./''] else []) \<and>
         inherited_of c' h = inherited_of c h"
proof -
  obtain gl where norm: "normalizeAndValidateGlob env g '''' x = Inr gl"
    using assms by (auto simp: addTargetGlob_def split: sum.splits)
  then have gl: "gl = TrimPrefix x ''./''"
    by (auto simp: normalizeAndValidateGlob_def Let_def split: sum.splits)
  show ?thesis
  proof (cases "GetSourceTarget c g")
    case None
    define t where "t = \<lparr>tg_name = g, tg_customSources = [gl], tg_inheritedSources = [],
      tg_customAssets = [], tg_inheritedAssets = [], tg_visibility = [], tg_testonly = b\<rparr>"
    from None assms norm have c': "c' = c\<lparr>jc_targets := jc_targets c @ [t]\<rparr>"
      by (simp add: addTargetGlob_def t_def)
    have "GetSourceTarget c' h = (if h = g then Some t else GetSourceTarget c h)"
      using None by (auto simp: c' GetSourceTarget_def find_append t_def split: option.splits)
    with None show ?thesis by (simp add: custom_of_def inherited_of_def t_def gl)
  next
    case (Some t)
    with assms norm have "c' = with_target g (\<lambda>t. t\<lparr>tg_customSources := tg_customSources t @ [gl]\<rparr>) c"
      by (simp add: addTargetGlob_def split: if_splits)
    then show ?thesis
      using Some by (auto simp: custom_of_def inherited_of_def GetSourceTarget_with_target gl split: option.splits)
  qed
qed

lemma other_target_custom:
  assumes "\<And>t. tg_name (f t) = tg_name t" "\<And>t. tg_customSources (f t) = tg_customSources t"
    "\<And>t. tg_inheritedSources (f t) = tg_inheritedSources t"
  shows "custom_of (with_target g f c) h = custom_of c h" "inherited_of (with_target g f c) h = inherited_of c h"
  by (auto simp: custom_of_def inherited_of_def GetSourceTarget_with_target assms split: option.splits)

lemma custom_cong:
  "jc_targets c = jc_targets c' \<Longrightarrow> custom_of c = custom_of c' \<and> inherited_of c = inherited_of c'"
  by (simp add: custom_of_def inherited_of_def fun_eq_iff GetSourceTarget_cong [of c c'])

definition own_glob :: "JsGazelleConfig \<Rightarrow> string \<Rightarrow> directive \<Rightarrow> string list" where
  "own_glob c g d =
     (case glob_of c d of Some (g', x) \<Rightarrow> if g' = g then [TrimPrefix x ''./''] else [] | None \<Rightarrow> [])"

lemma glob_of_None: "d_key d \<noteq> ''js_files'' \<Longrightarrow> d_key d \<noteq> ''js_test_files'' \<Longrightarrow> own_glob c g d = []"
  by (simp add: own_glob_def glob_of_def)

lemma renaming_other:
  "d_key d \<noteq> ''js_project_naming_convention'' \<Longrightarrow> d_key d \<noteq> ''js_tests_naming_convention'' \<Longrightarrow> renaming d c = c"
  by (simp add: renaming_def)

lemma SetVisibility_custom:
  assumes "SetVisibility env g ls c = (c', r)"
  shows "custom_of c' h = custom_of c h \<and> inherited_of c' h = inherited_of c h"
  using assms by (auto simp: SetVisibility_def other_target_custom split: option.splits prod.splits)

lemma addTargetAssetGlob_custom:
  assumes "addTargetAssetGlob env g x c = (c', r)"
  shows "custom_of c' h = custom_of c h \<and> inherited_of c' h = inherited_of c h"
  using assms by (auto simp: addTargetAssetGlob_def other_target_custom split: option.splits sum.splits if_splits)

text \<open>One accepted directive: the globs, and the naming conventions for the next one.\<close>

lemma applied_targets:
  assumes app: "apply_directive env c d = Applied c'"
  shows "custom_of c' g = custom_of c g @ own_glob c g d \<and> inherited_of c' g = inherited_of c g \<and>
         jc_targetNamingOverrides c' = jc_targetNamingOverrides (renaming d c)"
proof -
  have plain: ?thesis if "jc_targets c' = jc_targets c" "same_names c c'"
    "d_key d \<noteq> ''js_files''" "d_key d \<noteq> ''js_test_files''"
    "d_key d \<noteq> ''js_project_naming_convention''" "d_key d \<noteq> ''js_tests_naming_convention''"
    using custom_cong [OF that(1)] that(2) glob_of_None [OF that(3,4), of c g]
      renaming_other [OF that(5,6), of c] by (simp add: same_names_def)
  have other: ?thesis if "custom_of c' g = custom_of c g \<and> inherited_of c' g = inherited_of c g"
    "same_names c c'" "d_key d \<noteq> ''js_files''" "d_key d \<noteq> ''js_test_files''"
    "d_key d \<noteq> ''js_project_naming_convention''" "d_key d \<noteq> ''js_tests_naming_convention''"
    using that(1,2) glob_of_None [OF that(3,4), of c g] renaming_other [OF that(5,6), of c]
    by (simp add: same_names_def)
  show ?thesis
  proof (cases rule: directive_cases [where d = d and env = env and c = c])
    case mode
    with mode_frame [OF _ mode] app have "same_groups c c'" by auto
    with key_frame [OF mode] show ?thesis by (intro plain) (auto simp: same_groups_def)
  next
    case (tsconfig b x)
    with app ts_setters_frame(4,7) show ?thesis by (intro plain) auto
  next
    case (tsfile b x)
    with app ts_setters_frame(5,8) show ?thesis by (intro plain) auto
  next
    case (tsignore b x)
    with app ts_setters_frame(6,9) show ?thesis by (intro plain) auto
  next
    case ignore
    with app show ?thesis
      by (intro plain) (auto simp: AddIgnoredImport_def same_names_def split: sum.splits)
  next
    case resolve
    with app show ?thesis
      by (intro plain) (auto simp: read_resolve_def AddResolve_def same_names_def split: sum.splits list.splits)
  next
    case library
    with app have c': "c' = SetLibraryNamingConvention (trimmed d) c" by simp
    have "jc_targets c' = jc_targets c" by (simp add: c' SetLibraryNamingConvention_def)
    from custom_cong [OF this] library(1) c' show ?thesis by (simp add: renaming_def glob_of_None)
  next
    case tests
    with app have c': "c' = SetTestsNamingLibraryConvention (trimmed d) c" by simp
    have "jc_targets c' = jc_targets c" by (simp add: c' SetTestsNamingLibraryConvention_def)
    from custom_cong [OF this] tests(1) c' show ?thesis by (simp add: renaming_def glob_of_None)
  next
    case (visibility b ls)
    with app have "SetVisibility env b ls c = (c', None)" by (simp add: of_error_Applied)
    from SetVisibility_frame [OF this] SetVisibility_custom [OF this] visibility(1) show ?thesis
      by (intro other) auto
  next
    case (assets b x)
    with app have "addTargetAssetGlob env b x c = (c', None)" by (simp add: of_error_Applied)
    from addTargetAssetGlob_frame [OF this] addTargetAssetGlob_custom [OF this] assets(1) show ?thesis
      by (intro other) auto
  next
    case (sources b x)
    with app have "addTargetGlob env b x False c = (c', None)" by (simp add: of_error_Applied)
    from addTargetGlob_frame [OF this] addTargetGlob_custom [OF this, of g] sources show ?thesis
      by (simp add: own_glob_def glob_of_def renaming_def same_names_def)
  next
    case (test_sources b x)
    with app have "addTargetGlob env b x True c = (c', None)" by (simp add: of_error_Applied)
    from addTargetGlob_frame [OF this] addTargetGlob_custom [OF this, of g] test_sources show ?thesis
      by (simp add: own_glob_def glob_of_def renaming_def same_names_def)
  next
    case deprecated
    with app show ?thesis by simp
  qed
qed

lemma apply_all_targets:
  "apply_all env c ds = Some c' \<Longrightarrow>
     custom_of c' g = custom_of c g @ declared_globs c g ds \<and> inherited_of c' g = inherited_of c g"
proof (induction ds arbitrary: c)
  case (Cons d ds)
  then obtain c1 where c1: "apply_directive env c d = Applied c1" "apply_all env c1 ds = Some c'"
    by (auto split: applied.splits)
  from applied_targets [OF c1(1), of g] Cons.IH [OF c1(2)]
    declared_globs_names [of c1 "renaming d c" g ds] show ?case
    by (simp add: own_glob_def)
qed simp

text \<open>
  The effective source globs of a group of an accepted directory are the globs
  its own \<open>js_files\<close> and \<open>js_test_files\<close> directives give that group, in order and without a
  leading dot-slash, the group being named by its renamed target; without any it keeps the globs
  of the parent directory.
\<close>

theorem directory_source_globs:
  assumes "apply_all env (child_of p rel) ds = Some c" "GetSourceTarget c g = Some t"
  shows "sourceGlobs t =
    (let own = declared_globs p g ds in
     if own \<noteq> [] then own
     else case GetSourceTarget p g of Some t' \<Rightarrow> sourceGlobs t' | None \<Rightarrow> [])"
proof -
  have "custom_of c g = tg_customSources t" "inherited_of c g = tg_inheritedSources t"
    using assms(2) by (simp_all add: custom_of_def inherited_of_def)
  moreover have "custom_of (child_of p rel) g = []"
    by (auto simp: custom_of_def newChild_def split: option.splits)
  moreover have "inherited_of (child_of p rel) g =
      (case GetSourceTarget p g of Some t' \<Rightarrow> sourceGlobs t' | None \<Rightarrow> [])"
    by (auto simp: inherited_of_def newChild_def split: option.splits)
  moreover have "declared_globs (child_of p rel) g ds = declared_globs p g ds"
    by (rule declared_globs_names) (simp add: child_settings)
  ultimately show ?thesis
    using apply_all_targets [OF assms(1), of g] by (simp add: sourceGlobs_def Let_def)
qed

text \<open>The second witness directory: a renamed library, its globs, a resolved and an ignored import.\<close>

definition sample_directives :: "directive list" where
  "sample_directives =
     [\<lparr>d_key = ''js_project_naming_convention'', d_value = ''lib''\<rparr>,
      \<lparr>d_key = ''js_files'', d_value = ''lib ./a.ts''\<rparr>,
      \<lparr>d_key = ''js_files'', d_value = ''b.ts''\<rparr>,
      \<lparr>d_key = ''js_resolve'', d_value = ''x :y''\<rparr>,
      \<lparr>d_key = ''js_ignore_imports'', d_value = ''z''\<rparr>]"


lemma TrimSpace_samples [simp]:
  "TrimSpace ''lib'' = ''lib''" "TrimSpace ''lib ./a.ts'' = ''lib ./a.ts''"
  "TrimSpace ''./a.ts'' = ''./a.ts''" "TrimSpace ''b.ts'' = ''b.ts''" "TrimSpace ''x :y'' = ''x :y''"
  "TrimSpace ''x'' = ''x''" "TrimSpace '':y'' = '':y''" "TrimSpace ''z'' = ''z''"
  by (simp_all add: TrimSpace_plain space_firsts_def space_lasts_def)

lemma sample_parse [simp]:
  "parse_glob empty_env ''a.ts'' = Inr (\<lambda>p. p = ''a.ts'')" "parse_glob empty_env ''b.ts'' = Inr (\<lambda>p. p = ''b.ts'')"
  "parse_glob empty_env ''x'' = Inr (\<lambda>p. p = ''x'')" "parse_glob empty_env ''z'' = Inr (\<lambda>p. p = ''z'')"
  by (simp_all add: parse_glob_def ParseGlobExpression_def empty_env_def Let_def parseGlobExpression_def
      nonGlobRe_def glob_char_def is_word_def)

abbreviation add_source :: "string \<Rightarrow> JsGazelleConfig \<Rightarrow> JsGazelleConfig" where
  "add_source g \<equiv>
     with_target DefaultLibraryName (\<lambda>t. t\<lparr>tg_customSources := tg_customSources t @ [g]\<rparr>)"

definition sample_config :: JsGazelleConfig where
  "sample_config =
     AddIgnoredImport empty_env ''z''
       (AddResolve empty_env ''x'' (Label '''' '''' '':y'' True)
         (add_source ''b.ts'' (add_source ''a.ts''
           (SetLibraryNamingConvention ''lib'' (child_of newRootConfig ''a'')))))"

lemma sample_label: "je_label_parse empty_env l = Inr (Label '''' '''' l True)"
  by (simp add: empty_env_def)

lemma sample_library:
  "GetSourceTarget (SetLibraryNamingConvention n (child_of newRootConfig ''a'')) DefaultLibraryName =
     Some (newChild (hd DefaultSourceGlobs))"
  by (simp add: GetSourceTarget_def SetLibraryNamingConvention_def child_of_def newRootConfig_def
      DefaultSourceGlobs_def newChild_def)

lemma sample_reverse:
  "ReverseMapTargetName (SetLibraryNamingConvention ''lib'' (child_of newRootConfig ''a'')) ''lib'' = DefaultLibraryName"
  by (simp add: ReverseMapTargetName_def SetLibraryNamingConvention_def child_of_def newRootConfig_def)

lemma sample_testonly: "tg_testonly (hd DefaultSourceGlobs) = False"
  by (simp add: DefaultSourceGlobs_def)

lemma sample_applied: "apply_all empty_env (child_of newRootConfig ''a'') sample_directives = Some sample_config"
  by (simp add: sample_directives_def apply_eqs of_error_def parseGroupGlob_def addTargetGlob_def
      normalizeAndValidateGlob_def TrimPrefix_def GetSourceTarget_with_target sample_library sample_reverse
      sample_testonly read_resolve_def sample_label sample_config_def)

theorem directory_imports_witness:
  "IsImportIgnored [sample_config, newRootConfig] ''z'' \<and>
   GetResolution [sample_config, newRootConfig] ''x'' = Some (Label '''' '''' '':y'' True)"
proof -
  have own: "list_ex (\<lambda>g. g ''z'') (concat (map (ignored_by empty_env) sample_directives))"
    "find (\<lambda>r. rv_importGlob r ''x'') (concat (map (resolved_by empty_env) sample_directives)) =
      Some \<lparr>rv_importGlob = (\<lambda>p. p = ''x''), rv_label = Label '''' '''' '':y'' True\<rparr>"
    by (simp_all add: sample_directives_def ignored_by_def resolved_by_def sample_label)
  from directory_imports [OF sample_applied, of "[]" "''z''"]
    directory_imports [OF sample_applied, of "[]" "''x''"]
  show ?thesis using own by (simp del: IsImportIgnored.simps GetResolution.simps)
qed

theorem directory_source_globs_witness:
  "\<exists>t. GetSourceTarget sample_config DefaultLibraryName = Some t \<and> sourceGlobs t = [''a.ts'', ''b.ts'']"
proof -
  have "GetSourceTarget sample_config DefaultLibraryName =
      GetSourceTarget (add_source ''b.ts'' (add_source ''a.ts''
           (SetLibraryNamingConvention ''lib'' (child_of newRootConfig ''a'')))) DefaultLibraryName"
    by (simp add: sample_config_def GetSourceTarget_def AddIgnoredImport_def AddResolve_def)
  then obtain t where t: "GetSourceTarget sample_config DefaultLibraryName = Some t"
    by (simp add: GetSourceTarget_with_target sample_library)
  have "declared_globs newRootConfig DefaultLibraryName sample_directives = [''a.ts'', ''b.ts'']"
    by (simp add: sample_directives_def glob_of_def renaming_def parseGroupGlob_def newRootConfig_def
        SetLibraryNamingConvention_def ReverseMapTargetName_def TrimPrefix_def)
  with directory_source_globs [OF sample_applied t] t show ?thesis by (simp add: Let_def)
qed

section \<open>The files of a directory\<close>

text \<open>A path is listed when each directory on the way lists the next and the last lists the file.\<close>

fun listed :: "dirs \<Rightarrow> string \<Rightarrow> string list \<Rightarrow> bool" where
  "listed dirs rel [] = False"
| "listed dirs rel [f] = (case dirs rel of Inl _ \<Rightarrow> False | Inr d \<Rightarrow> f \<in> set (di_RegularFiles d))"
| "listed dirs rel (s # t # ss) =
     (case dirs rel of
        Inl _ \<Rightarrow> False
      | Inr d \<Rightarrow> s \<in> set (di_Subdirs d) \<and> listed dirs (below rel s) (t # ss))"

lemma Split_CutByte:
  "Split c s = (case CutByte s c of (b, a, f) \<Rightarrow> if f then b # Split c a else [s])"
proof (cases "c \<in> set s")
  case True
  then obtain b a where "CutByte s c = (b, a, True)" "s = b @ c # a" "c \<notin> set b"
    using CutByte_found by blast
  then show ?thesis by (simp add: Split_append)
next
  case False
  then show ?thesis by (simp add: CutByte_not_found)
qed

lemma walk_has_step:
  "CutByte p slash = (s, rest, f) \<Longrightarrow>
   walk_has dirs rel d p =
     (if \<not> f then Inr (p \<in> set (di_RegularFiles d))
      else if s \<notin> set (di_Subdirs d) then Inr False
      else case dirs (below rel s) of
        Inl e \<Rightarrow> Inl (Fatal e) | Inr d' \<Rightarrow> walk_has dirs (below rel s) d' rest)"
  by (subst walk_has.simps) simp

lemma CutByte_shorter: "CutByte p c = (s, rest, True) \<Longrightarrow> length rest < length p"
  by (drule CutByte_TrueD) simp

lemma walk_has_listed:
  assumes "dirs rel = Inr d" "walk_has dirs rel d p = Inr b"
  shows "b = listed dirs rel (Split slash p)"
  using assms
proof (induction p arbitrary: rel d rule: measure_induct_rule [of length])
  case (less p)
  obtain s rest f where cut: "CutByte p slash = (s, rest, f)" by (cases "CutByte p slash")
  obtain t ss where sp: "Split slash rest = t # ss" by (cases "Split slash rest") auto
  have split: "Split slash p = (if f then s # t # ss else [p])"
    by (simp add: Split_CutByte [of slash p] cut sp)
  show ?case
  proof (cases "f \<and> s \<in> set (di_Subdirs d)")
    case True
    with less(3) obtain d' where d': "dirs (below rel s) = Inr d'"
      "walk_has dirs (below rel s) d' rest = Inr b"
      by (auto simp: walk_has_step [OF cut] split: sum.splits)
    have "length rest < length p" using cut True CutByte_shorter by auto
    from less(1) [OF this d'] True sp less(2) show ?thesis by (simp add: split)
  next
    case False
    with less(2,3) show ?thesis
      by (auto simp: walk_has_step [OF cut] split split: if_splits)
  qed
qed

lemma walk_has_ok:
  "(\<And>r. is_ok (dirs r)) \<Longrightarrow> is_ok (walk_has dirs rel d p)"
proof (induction p arbitrary: rel d rule: measure_induct_rule [of length])
  case (less p)
  obtain s rest f where cut: "CutByte p slash = (s, rest, f)" by (cases "CutByte p slash")
  obtain d' where d': "dirs (below rel s) = Inr d'" using less(2) by (auto simp: is_ok_iff)
  have "is_ok (walk_has dirs (below rel s) d' rest)" if f
    using that cut by (intro less(1) less(2)) (auto intro: CutByte_shorter)
  with d' show ?case by (simp add: walk_has_step [OF cut])
qed

text \<open>
  \<open>WalkHasPath\<close>, which cuts the path at its slashes one directory at a time,
  answers whether every directory along the path is listed in the one before it and the last one
  lists the file; when the directories can be read it always answers.
\<close>

theorem WalkHasPath_listed:
  "(WalkHasPath dirs rel p = Inr b \<longrightarrow> b = listed dirs rel (Split slash p)) \<and>
   ((\<forall>r. is_ok (dirs r)) \<longrightarrow> WalkHasPath dirs rel p = Inr (listed dirs rel (Split slash p)))"
proof (intro conjI impI)
  show ans: "b = listed dirs rel (Split slash p)" if "WalkHasPath dirs rel p = Inr b" for b
    using that by (auto simp: WalkHasPath_def dest: walk_has_listed split: sum.splits)
  assume ok: "\<forall>r. is_ok (dirs r)"
  then obtain d where d: "dirs rel = Inr d" by (auto simp: is_ok_iff)
  from walk_has_ok [of dirs rel d p] ok obtain b where "walk_has dirs rel d p = Inr b"
    by (auto simp: is_ok_iff)
  with ans [of b] show "WalkHasPath dirs rel p = Inr (listed dirs rel (Split slash p))"
    by (simp add: WalkHasPath_def d)
qed

theorem WalkHasPath_listed_witness:
  "WalkHasPath (re_dirs empty_repo) ''a'' ''b/c.ts'' = Inr False"
proof -
  have ok: "\<forall>r. is_ok (re_dirs empty_repo r)" by (simp add: empty_repo_def)
  have "listed (re_dirs empty_repo) ''a'' (Split slash ''b/c.ts'') = False" by (simp add: empty_repo_def)
  with WalkHasPath_listed [of "re_dirs empty_repo" "''a''" "''b/c.ts''", THEN conjunct2, THEN mp, OF ok]
  show ?thesis by (simp only:)
qed

section \<open>Recorded configuration files\<close>

lemma config_file_Set:
  "config_file (SetTsConfigFile ws root rel g f) rel' g' =
     (if rel' = rel \<and> g' = g \<and> config_file ws rel g = None
      then Some \<lparr>wp_root = root, wp_rel = rel, wp_fileName = f\<rparr> else config_file ws rel' g')"
proof (cases "tw_configFiles ws rel")
  case None
  then show ?thesis by (simp add: SetTsConfigFile_def config_file_def Let_def)
next
  case (Some m)
  then show ?thesis by (cases "m g") (simp_all add: SetTsConfigFile_def config_file_def Let_def)
qed

lemma SetTsConfigFile_other [simp]:
  "tw_hasPackageJson (SetTsConfigFile ws root rel g f) = tw_hasPackageJson ws"
  "tw_pnpmProjects (SetTsConfigFile ws root rel g f) = tw_pnpmProjects ws"
  by (simp_all add: SetTsConfigFile_def Let_def split: option.splits)

text \<open>The file a group of the directory declares, when the directory has it.\<close>

definition declared_tsconfig ::
  "repo_env \<Rightarrow> string \<Rightarrow> (string, targetTsConfig) gomap \<Rightarrow> string \<Rightarrow> workspacePath option" where
  "declared_tsconfig repo rel m g =
     (case map_of m g of
        Some tc \<Rightarrow>
          if tt_fileName tc \<noteq> '''' \<and> WalkHasPath (re_dirs repo) rel (tt_fileName tc) = Inr True
          then Some \<lparr>wp_root = re_root repo, wp_rel = rel, wp_fileName = tt_fileName tc\<rparr> else None
      | None \<Rightarrow> None)"

lemma read_tsconfigs_effect:
  assumes "read_tsconfigs repo rel m ws = Inr ws'" "al_wf m"
  shows "config_file ws' rel' g =
      (if rel' = rel \<and> config_file ws rel g = None then declared_tsconfig repo rel m g
       else config_file ws rel' g) \<and>
    tw_hasPackageJson ws' = tw_hasPackageJson ws \<and> tw_pnpmProjects ws' = tw_pnpmProjects ws"
  using assms
proof (induction m arbitrary: ws)
  case Nil
  then show ?case by (auto simp: declared_tsconfig_def)
next
  case (Cons e m)
  obtain h tc where e: "e = (h, tc)" by (cases e)
  have wf: "al_wf m" "h \<notin> fst ` set m" using Cons.prems(2) by (simp_all add: al_wf_def e)
  then have none: "map_of m h = None" by (simp add: map_of_eq_None_iff)
  show ?case
  proof (cases "tt_fileName tc = ''''")
    case True
    with Cons.prems e have "read_tsconfigs repo rel m ws = Inr ws'" by simp
    from Cons.IH [OF this wf(1)] show ?thesis using True none
      by (auto simp: declared_tsconfig_def e)
  next
    case False
    with Cons.prems e obtain has where has: "WalkHasPath (re_dirs repo) rel (tt_fileName tc) = Inr has"
      and rest: "read_tsconfigs repo rel m
        (if has then SetTsConfigFile ws (re_root repo) rel h (tt_fileName tc) else ws) = Inr ws'"
      by (auto split: sum.splits)
    from Cons.IH [OF rest wf(1)] show ?thesis using False none has
      by (auto simp: declared_tsconfig_def e config_file_Set)
  qed
qed

text \<open>
  Configuring a directory records, for every target group, the tsconfig file the
  group declares when the directory has that file and the group had none there before, whatever
  the iteration order of the groups; it marks the directory when it has a package.json, adds the
  projects of the lockfile exactly in the directory the lockfile is relative to, and changes
  nothing about other directories.
\<close>

theorem readConfigurations_records:
  assumes "readConfigurations repo c rel (x, ws) = Inr (x', ws')" "al_wf (jc_groupTsConfigs c)"
  shows "config_file ws' rel' g =
      (if rel' = rel \<and> config_file ws rel g = None then declared_tsconfig repo rel (jc_groupTsConfigs c) g
       else config_file ws rel' g) \<and>
    (tw_hasPackageJson ws' d \<longleftrightarrow>
       tw_hasPackageJson ws d \<or> (d = rel \<and> WalkHasPath (re_dirs repo) rel ''package.json'' = Inr True)) \<and>
    (if rel = jc_pnpmLockRel c \<and> WalkHasPath (re_dirs repo) rel (jc_pnpmLockPath c) = Inr True
     then addPnpmLockfile (re_name repo) (jc_npmLinkAllTargetName c)
            (re_readLock repo (path_join [rel, jc_pnpmLockPath c])) (path_join [rel, jc_pnpmLockPath c])
            x (tw_pnpmProjects ws) = Inr (x', tw_pnpmProjects ws')
     else x' = x \<and> tw_pnpmProjects ws' = tw_pnpmProjects ws)"
proof -
  from assms(1) obtain ws1 ws2 has where
    lock: "(if rel = jc_pnpmLockRel c then read_lockfile repo c (x, ws) else Inr (x, ws)) = Inr (x', ws1)"
    and ts: "read_tsconfigs repo rel (jc_groupTsConfigs c) ws1 = Inr ws2"
    and pj: "WalkHasPath (re_dirs repo) rel NpmPackageFilename = Inr has"
    and ws': "ws' = (if has then ws2\<lparr>tw_hasPackageJson := (tw_hasPackageJson ws2)(rel := True)\<rparr> else ws2)"
    by (auto simp: readConfigurations_def split: sum.splits)
  have same: "tw_configFiles ws1 = tw_configFiles ws" "tw_hasPackageJson ws1 = tw_hasPackageJson ws"
    using lock by (auto simp: read_lockfile_def Let_def split: if_splits sum.splits bool.splits)
  have cf: "config_file ws1 = config_file ws" "config_file ws' = config_file ws2"
    using same(1) by (auto simp: config_file_def fun_eq_iff ws')
  note eff = read_tsconfigs_effect [OF ts assms(2), of rel' g]
  have A: "config_file ws' rel' g =
      (if rel' = rel \<and> config_file ws rel g = None then declared_tsconfig repo rel (jc_groupTsConfigs c) g
       else config_file ws rel' g)"
    using eff unfolding cf by blast
  have B: "tw_hasPackageJson ws' d \<longleftrightarrow>
       tw_hasPackageJson ws d \<or> (d = rel \<and> WalkHasPath (re_dirs repo) rel ''package.json'' = Inr True)"
    using eff same(2) pj by (auto simp: ws' NpmPackageFilename_def)
  have pm: "tw_pnpmProjects ws' = tw_pnpmProjects ws1" using eff by (simp add: ws')
  have C: "if rel = jc_pnpmLockRel c \<and> WalkHasPath (re_dirs repo) rel (jc_pnpmLockPath c) = Inr True
     then addPnpmLockfile (re_name repo) (jc_npmLinkAllTargetName c)
            (re_readLock repo (path_join [rel, jc_pnpmLockPath c])) (path_join [rel, jc_pnpmLockPath c])
            x (tw_pnpmProjects ws) = Inr (x', tw_pnpmProjects ws')
     else x' = x \<and> tw_pnpmProjects ws' = tw_pnpmProjects ws"
    using lock unfolding pm
    by (auto simp: read_lockfile_def Let_def split: if_splits sum.splits bool.splits)
  from A B C show ?thesis by blast
qed

text \<open>A directory with a tsconfig and a package.json, but no lockfile.\<close>

definition sample_repo :: repo_env where
  "sample_repo = empty_repo\<lparr>re_dirs := (\<lambda>_. Inr \<lparr>di_Subdirs = [],
     di_RegularFiles = [''tsconfig.json'', ''package.json''], di_hasFile = False\<rparr>)\<rparr>"

lemma sample_repo_path: "slash \<notin> set p \<Longrightarrow> WalkHasPath (re_dirs sample_repo) rel p =
    Inr (p \<in> {''tsconfig.json'', ''package.json''})"
  by (simp add: WalkHasPath_def sample_repo_def walk_has_step [OF CutByte_not_found])

theorem readConfigurations_records_witness:
  "\<exists>ws'. readConfigurations sample_repo (child_of newRootConfig ''a'') ''a'' (None, snd empty_state) = Inr (None, ws') \<and>
     config_file ws' ''a'' '''' = Some \<lparr>wp_root = ''/w'', wp_rel = ''a'', wp_fileName = ''tsconfig.json''\<rparr> \<and>
     tw_hasPackageJson ws' ''a''"
proof -
  let ?c = "child_of newRootConfig ''a''"
  have ts: "jc_groupTsConfigs ?c = [('''', \<lparr>tt_enabled = Some True, tt_fileName = ''tsconfig.json'', tt_ignoredProps = []\<rparr>)]"
    "jc_pnpmLockRel ?c = ''''"
    by (simp_all add: child_of_def newRootConfig_def)
  obtain ws' where r: "readConfigurations sample_repo ?c ''a'' (None, snd empty_state) = Inr (None, ws')"
    by (simp add: readConfigurations_def ts sample_repo_path NpmPackageFilename_def)
  have wf: "al_wf (jc_groupTsConfigs ?c)" by (simp add: ts al_wf_def)
  from readConfigurations_records [OF r wf, of "''a''" "''''" "''a''"] show ?thesis
    by (intro exI [of _ ws'] conjI r)
       (simp_all add: ts declared_tsconfig_def sample_repo_path config_file_def empty_state_def
          NewTsWorkspace_def, simp_all add: sample_repo_def empty_repo_def)
qed

end
