(* ===== verification/Js_Imports.thy ===== *)
theory Js_Imports
  imports Labels Go_Path Node_Paths
begin

text \<open>
  What a JavaScript or TypeScript file can be imported as, and which workspace path an import
  statement means (\<open>language/js/generate.go\<close>, \<open>resolve.go\<close>, \<open>target.go\<close>): extensions,
  \<open>toImportPaths\<close>, \<open>toImportSpecPath\<close>, the index of importable files, and the outputs of
  compiled files and of proto libraries.
\<close>

section \<open>Extensions\<close>

definition isTranspiledSourceFileExt :: "string \<Rightarrow> bool" where
  "isTranspiledSourceFileExt ext = (ext \<in> {''.ts'', ''.cts'', ''.mts'', ''.tsx'', ''.jsx''})"

definition isSourceFileExt :: "string \<Rightarrow> bool" where
  "isSourceFileExt ext =
     (ext \<in> {''.ts'', ''.cts'', ''.mts'', ''.tsx'', ''.jsx'', ''.js'', ''.cjs'', ''.mjs''})"

definition isImplicitSourceFileExt :: "string \<Rightarrow> bool" where
  "isImplicitSourceFileExt ext = (ext \<in> {''.ts'', ''.tsx'', ''.js'', ''.jsx''})"

definition isTsxFileExt :: "string \<Rightarrow> bool" where
  "isTsxFileExt e = (e \<in> {''.tsx'', ''.jsx''})"

definition isDeclarationFileType :: "string \<Rightarrow> bool" where
  "isDeclarationFileType f =
     (HasSuffix f ''.d.ts'' \<or> HasSuffix f ''.d.mts'' \<or> HasSuffix f ''.d.cts'')"

definition isTranspiledSourceFileType :: "string \<Rightarrow> bool" where
  "isTranspiledSourceFileType f =
     (isTranspiledSourceFileExt (path_Ext f) \<and> \<not> isDeclarationFileType f)"

definition isDataFileExt :: "string \<Rightarrow> bool" where
  "isDataFileExt e = (e = ''.json'')"

text \<open>The extension and whether the input was known.\<close>

definition jsExt :: "string \<Rightarrow> string \<times> bool" where
  "jsExt e =
     (if e \<in> {''.ts'', ''.tsx'', ''.jsx''} then (''.js'', True)
      else if e = ''.cts'' then (''.cjs'', True)
      else if e = ''.mts'' then (''.mjs'', True)
      else if e \<in> {''.js'', ''.cjs'', ''.mjs'', ''.json''} then (e, True)
      else (''.js'', False))"

definition dtsExt :: "string \<Rightarrow> string \<times> bool" where
  "dtsExt e =
     (if e \<in> {''.ts'', ''.tsx'', ''.jsx''} then (''.d.ts'', True)
      else if e = ''.cts'' then (''.d.cts'', True)
      else if e = ''.mts'' then (''.d.mts'', True)
      else (''.d.ts'', False))"

definition toJsExt :: "string \<Rightarrow> string" where
  "toJsExt e = fst (jsExt e)"

definition toDtsExt :: "string \<Rightarrow> string" where
  "toDtsExt e = fst (dtsExt e)"

section \<open>What a file can be imported as\<close>

definition SlashIndexFileName :: string where
  "SlashIndexFileName = ''/index''"

definition joinPkg :: "string \<Rightarrow> string \<Rightarrow> string" where
  "joinPkg pkg rel = (if pkg = '''' then rel else pkg @ ''/'' @ rel)"

text \<open>The extensionless import of an implicit extension, and the directory of an index file.\<close>

definition implicit_paths :: "string \<Rightarrow> string \<Rightarrow> string list" where
  "implicit_paths pExt pNoExt =
     (if isImplicitSourceFileExt pExt then [pNoExt] else []) @
     (if HasSuffix pNoExt SlashIndexFileName
      then [take (length pNoExt - length SlashIndexFileName) pNoExt] else [])"

text \<open>The values the iterator yields, in order.\<close>

definition toImportPaths :: "string \<Rightarrow> string list" where
  "toImportPaths p =
     (let pExt = path_Ext p; pNoExt = path_noext p
      in if isDeclarationFileType p then
           (let pNoExt' = take (length pNoExt - 2) p
            in p # (pNoExt' @ toJsExt pExt) # implicit_paths pExt pNoExt')
         else if isTranspiledSourceFileExt pExt then
           (pNoExt @ toJsExt pExt) # (pNoExt @ toDtsExt pExt) # implicit_paths pExt pNoExt
         else if isSourceFileExt pExt then p # implicit_paths pExt pNoExt
         else [p])"

section \<open>What an import means\<close>

text \<open>\<open>strings.IndexAny(importPath, "?#")\<close> is the length of the part before them.\<close>

definition stripImportQuery :: "string \<Rightarrow> string" where
  "stripImportQuery importPath =
     (let queryIndex = length (takeWhile (\<lambda>c. c \<notin> set ''?#'') importPath)
      in if queryIndex < length importPath \<and> queryIndex > 0 then take queryIndex importPath
         else importPath)"

definition toImportSpecPath :: "string \<Rightarrow> string \<Rightarrow> string \<Rightarrow> string" where
  "toImportSpecPath absoluteBase importFrom importPath0 =
     (let importPath = stripImportQuery importPath0; importDir = upto_last slash importFrom
      in if importPath = '''' then importPath
         else if str_contains importPath ''://'' then importPath
         else if hd importPath = slash then
           (let trimmed = TrimLeft importPath ''/''
            in if absoluteBase = ''.'' then Clean (importDir @ trimmed)
               else if absoluteBase \<noteq> '''' then path_join [absoluteBase, trimmed]
               else Clean trimmed)
         else if hd importPath = CHR 0x2E \<or> absoluteBase = ''.'' then Clean (importDir @ importPath)
         else Clean importPath)"

section \<open>The index of importable files\<close>

type_synonym file_labels = "string \<rightharpoonup> label"

definition addFileLabel ::
  "(label \<Rightarrow> label \<Rightarrow> bool) \<Rightarrow> file_labels \<Rightarrow> string \<Rightarrow> label \<Rightarrow> file_labels outcome" where
  "addFileLabel equal fl importPath l =
     (case fl importPath of
        Some existing \<Rightarrow>
          if isDeclarationFileType (Name existing) then
            (if isDeclarationFileType (Name l) \<and> \<not> equal existing l then Inl (Fatal importPath)
             else Inr fl)
          else Inr (fl(importPath \<mapsto> l))
      | None \<Rightarrow> Inr (fl(importPath \<mapsto> l)))"

fun add_labels ::
  "(label \<Rightarrow> label \<Rightarrow> bool) \<Rightarrow> file_labels \<Rightarrow> (string \<times> label) list \<Rightarrow> file_labels outcome" where
  "add_labels equal fl [] = Inr fl"
| "add_labels equal fl ((p, l) # ps) =
     (case addFileLabel equal fl p l of Inl e \<Rightarrow> Inl e | Inr fl' \<Rightarrow> add_labels equal fl' ps)"

text \<open>The label of a file of a directory, and the calls made for it.\<close>

definition file_label :: "string \<Rightarrow> string \<Rightarrow> string \<Rightarrow> label" where
  "file_label repo rel f = Label repo rel f False"

definition label_calls :: "string \<Rightarrow> string \<Rightarrow> string list \<Rightarrow> (string \<times> label) list" where
  "label_calls repo rel files =
     concat (map (\<lambda>f. map (\<lambda>i. (i, file_label repo rel f)) (toImportPaths (joinPkg rel f))) files)"

definition collectFileLabels ::
  "(label \<Rightarrow> label \<Rightarrow> bool) \<Rightarrow> string \<Rightarrow> string \<Rightarrow> string list \<Rightarrow> string list \<Rightarrow> file_labels \<Rightarrow>
   file_labels outcome" where
  "collectFileLabels equal repo rel genFiles regularFiles fl =
     add_labels equal fl (label_calls repo rel genFiles @ label_calls repo rel regularFiles)"

definition getImportLabel :: "file_labels \<Rightarrow> string \<Rightarrow> label option" where
  "getImportLabel fl imp = fl imp"

section \<open>Module declarations\<close>

definition addModuleDeclaration ::
  "(string \<Rightarrow> label list) \<Rightarrow> string \<Rightarrow> label \<Rightarrow> (string \<Rightarrow> label list)" where
  "addModuleDeclaration mt module l = mt(module := mt module @ [l])"

section \<open>Outputs of compiled sources\<close>

definition toOutDirPath :: "string \<Rightarrow> string \<Rightarrow> string \<Rightarrow> string" where
  "toOutDirPath rootDir outDir src =
     (let src' = (if rootDir \<noteq> ''.'' \<and> HasPrefix src rootDir \<and> length src > length rootDir \<and>
                     src ! length rootDir = slash
                  then drop (length rootDir + 1) src else src)
      in if outDir \<noteq> ''.'' then joinPkg outDir src' else src')"

text \<open>
  The paths a source is provided under: itself, its output and its declaration output. The
  directories are the rule's attributes, cleaned.
\<close>

definition provided_paths :: "string \<Rightarrow> string \<Rightarrow> string \<Rightarrow> string \<Rightarrow> string \<Rightarrow> string list" where
  "provided_paths pkg outDir declarationDir rootDir src =
     (let outSrc = toOutDirPath rootDir outDir src;
          declarationSrc = toOutDirPath rootDir declarationDir src
      in [joinPkg pkg src] @
         (if (outDir \<noteq> ''.'' \<or> rootDir \<noteq> ''.'') \<and> outSrc \<noteq> src then [joinPkg pkg outSrc] else []) @
         (if (declarationDir \<noteq> ''.'' \<or> rootDir \<noteq> ''.'') \<and> declarationDir \<noteq> outDir \<and> declarationSrc \<noteq> src
          then [joinPkg pkg declarationSrc] else []))"

text \<open>\<open>declaration_dir\<close> is absent or a string; absent, it is the output directory.\<close>

definition source_imports ::
  "string \<Rightarrow> string \<Rightarrow> string option \<Rightarrow> string \<Rightarrow> string list \<Rightarrow> string list" where
  "source_imports pkg out_dir declaration_dir root_dir srcs =
     (let outDir = Clean out_dir;
          declarationDir = (case declaration_dir of None \<Rightarrow> outDir | Some d \<Rightarrow> Clean d);
          rootDir = Clean root_dir
      in concat (map (\<lambda>src. concat (map toImportPaths
           (provided_paths pkg outDir declarationDir rootDir src))) srcs))"

text \<open>\<open>Embeds\<close> of a \<open>ts_project\<close>: the outputs of its transpiled sources, as names in its package.\<close>

definition ts_embeds :: "string list \<Rightarrow> string list" where
  "ts_embeds srcs =
     concat (map (\<lambda>src. [path_noext src @ toJsExt (path_Ext src), path_noext src @ toDtsExt (path_Ext src)])
       (filter isTranspiledSourceFileType srcs))"

definition tsconfigRootDirRelative :: "string \<Rightarrow> string \<Rightarrow> string \<Rightarrow> string" where
  "tsconfigRootDirRelative tsconfigDir rootDir pkgRel =
     (if rootDir = '''' then ''.''
      else
        let wsRelRootDir = path_join [tsconfigDir, rootDir]
        in if pkgRel = '''' then wsRelRootDir
           else if HasPrefix wsRelRootDir (pkgRel @ ''/'') then drop (length pkgRel + 1) wsRelRootDir
           else ''.'')"

section \<open>Protocol buffers\<close>

text \<open>
  The attributes of a \<open>ts_proto_library\<close> that decide its outputs: the connect flags, and the
  services per proto of \<open>gen_connect_query_service_mapping\<close>, entries of another shape dropped.
\<close>

record ts_proto_attrs =
  pa_connect_es :: bool
  pa_connect_query :: bool
  pa_services :: "(string \<times> string list) list"

definition proto_outputs :: "string \<Rightarrow> ts_proto_attrs \<Rightarrow> string \<Rightarrow> string list" where
  "proto_outputs pkg a src =
     (let srcBase = TrimSuffix (path_join [pkg, src]) ''.proto''
      in [srcBase @ ''_pb''] @
         (if pa_connect_es a then [srcBase @ ''_connect''] else []) @
         (if pa_connect_query a
          then concat (map (\<lambda>(protoKey, services). map (\<lambda>service.
                 path_join [pkg, TrimSuffix protoKey ''.proto'' @ ''-'' @ service @ ''_connectquery'']) services)
               (pa_services a))
          else []))"

text \<open>A nil \<open>proto_srcs\<close> is \<open>None\<close>.\<close>

definition protoLibraryImports :: "string \<Rightarrow> ts_proto_attrs \<Rightarrow> string list option \<Rightarrow> string list" where
  "protoLibraryImports pkg a protoSrcs =
     (case protoSrcs of
        None \<Rightarrow> []
      | Some srcs \<Rightarrow>
          concat (map (\<lambda>out. [out, out @ ''.js'', out @ ''.d.ts''])
            (concat (map (proto_outputs pkg a) srcs))))"

definition jsProtoImpToProtoSrc :: "string \<Rightarrow> string option" where
  "jsProtoImpToProtoSrc imp =
     (let base = (if HasSuffix imp ''.d.ts'' then TrimSuffix imp ''.d.ts''
                  else if HasSuffix imp ''.js'' then TrimSuffix imp ''.js'' else imp)
      in if \<not> HasSuffix base ''_pb'' then None
         else Some (TrimSuffix base ''_pb'' @ ''.proto''))"

definition IsRulesTsProtoBuiltin :: "string \<Rightarrow> bool" where
  "IsRulesTsProtoBuiltin imp = HasPrefix imp ''google/protobuf/''"

text \<open>The workspace path of a proto import.\<close>

definition proto_import_path :: "string \<Rightarrow> string \<Rightarrow> string" where
  "proto_import_path sourceFile imp =
     TrimSuffix (toImportSpecPath '''' sourceFile imp) ''.proto'' @ ''_pb''"

text \<open>\<open>toDefaultTargetName\<close>, on the relative and absolute directory and the repository name.\<close>

definition toDefaultTargetName :: "string \<Rightarrow> string \<Rightarrow> string \<Rightarrow> string \<Rightarrow> string" where
  "toDefaultTargetName rel dir repoName defaultRootName =
     (if rel = '''' then (if repoName \<noteq> '''' then repoName else defaultRootName) else path_Base dir)"

section \<open>Which label an import path has\<close>

text \<open>
  The labels added for an import path, in order, and the one that stays: the first declaration
  file, else the last label.
\<close>

definition labels_for :: "(string \<times> label) list \<Rightarrow> string \<Rightarrow> label list" where
  "labels_for calls i = map snd (filter (\<lambda>(p, l). p = i) calls)"

definition chosen_label :: "label list \<Rightarrow> label option" where
  "chosen_label ls =
     (case find (\<lambda>l. isDeclarationFileType (Name l)) ls of
        Some l \<Rightarrow> Some l
      | None \<Rightarrow> if ls = [] then None else Some (last ls))"

definition one_declaration :: "label list \<Rightarrow> bool" where
  "one_declaration ls \<longleftrightarrow>
     (\<forall>a \<in> set ls. \<forall>b \<in> set ls.
        isDeclarationFileType (Name a) \<longrightarrow> isDeclarationFileType (Name b) \<longrightarrow> a = b)"

lemma add_labels_append:
  "add_labels equal fl (xs @ ys) =
     (case add_labels equal fl xs of Inl e \<Rightarrow> Inl e | Inr fl' \<Rightarrow> add_labels equal fl' ys)"
  by (induction equal fl xs rule: add_labels.induct) (auto split: sum.splits)

lemma labels_for_snoc:
  "labels_for (calls @ [(p, l)]) i = labels_for calls i @ (if p = i then [l] else [])"
  by (simp add: labels_for_def)

lemma chosen_snoc:
  "chosen_label (ls @ [l]) =
     (case chosen_label ls of
        Some l' \<Rightarrow> if isDeclarationFileType (Name l') then Some l' else Some l
      | None \<Rightarrow> Some l)"
proof (cases "find (\<lambda>l. isDeclarationFileType (Name l)) ls")
  case None
  then have "\<forall>x \<in> set ls. \<not> isDeclarationFileType (Name x)" by (simp add: find_None_iff)
  with None show ?thesis
    by (auto simp: chosen_label_def find_append)
next
  case (Some l')
  then have "isDeclarationFileType (Name l')" by (auto simp: find_Some_iff)
  with Some show ?thesis by (simp add: chosen_label_def find_append)
qed

lemma chosen_declaration:
  assumes "chosen_label ls = Some l'" "\<not> isDeclarationFileType (Name l')" "l \<in> set ls"
  shows "\<not> isDeclarationFileType (Name l)"
  using assms by (auto simp: chosen_label_def find_None_iff find_Some_iff split: option.splits)

lemma chosen_mem: "chosen_label ls = Some l \<Longrightarrow> l \<in> set ls"
  by (auto simp: chosen_label_def find_Some_iff last_in_set split: option.splits if_splits)

lemma chosen_None: "chosen_label ls = None \<longleftrightarrow> ls = []"
  by (auto simp: chosen_label_def find_None_iff split: option.splits)

lemma one_declaration_snoc:
  "one_declaration (ls @ [l]) \<longleftrightarrow>
     one_declaration ls \<and>
     (isDeclarationFileType (Name l) \<longrightarrow>
        (\<forall>a \<in> set ls. isDeclarationFileType (Name a) \<longrightarrow> a = l))"
  by (auto simp: one_declaration_def)

lemma add_labels_chosen:
  assumes "\<And>a b. equal a b \<longleftrightarrow> a = b"
  shows "(is_ok (add_labels equal Map.empty calls) \<longleftrightarrow> (\<forall>i. one_declaration (labels_for calls i))) \<and>
         (\<forall>fl. add_labels equal Map.empty calls = Inr fl \<longrightarrow>
            (\<forall>i. getImportLabel fl i = chosen_label (labels_for calls i)))"
proof -
  have eq: "equal = (=)" using assms by (intro ext) simp
  show ?thesis unfolding eq
  proof (induction calls rule: rev_induct)
    case Nil
    then show ?case by (simp add: labels_for_def one_declaration_def chosen_label_def getImportLabel_def)
  next
    case (snoc c calls)
    obtain p l where c: "c = (p, l)" by (cases c)
    show ?case
    proof (cases "add_labels (=) Map.empty calls")
      case (Inl e)
      with snoc have "\<not> (\<forall>i. one_declaration (labels_for calls i))" by simp
      then have "\<not> (\<forall>i. one_declaration (labels_for (calls @ [c]) i))"
        by (auto simp: c labels_for_snoc one_declaration_snoc)
      with Inl show ?thesis by (simp add: add_labels_append)
    next
      case (Inr fl)
      with snoc have one: "one_declaration (labels_for calls i)" and fl: "fl i = chosen_label (labels_for calls i)" for i
        by (simp_all add: getImportLabel_def)
      have step: "add_labels (=) Map.empty (calls @ [(p, l)]) = addFileLabel (=) fl p l"
        by (auto simp: add_labels_append Inr split: sum.splits)
      show ?thesis
      proof (cases "chosen_label (labels_for calls p)")
        case None
        then have "labels_for calls p = []" by (simp add: chosen_None)
        with one fl None chosen_snoc [of "[]" l] show ?thesis
          by (auto simp: step addFileLabel_def c labels_for_snoc chosen_snoc one_declaration_snoc getImportLabel_def)
      next
        case (Some l')
        show ?thesis
        proof (cases "isDeclarationFileType (Name l')")
          case True
          have "(\<forall>a \<in> set (labels_for calls p). isDeclarationFileType (Name a) \<longrightarrow> a = l) \<longleftrightarrow> l' = l"
            using one [of p] True chosen_mem [OF Some] by (auto simp: one_declaration_def)
          with one fl Some True show ?thesis
            by (auto simp: step addFileLabel_def c labels_for_snoc chosen_snoc one_declaration_snoc getImportLabel_def)
        next
          case False
          with chosen_declaration [OF Some False] one fl Some show ?thesis
            by (auto simp: step addFileLabel_def c labels_for_snoc chosen_snoc one_declaration_snoc getImportLabel_def)
        qed
      qed
    qed
  qed
qed

text \<open>
  The label an import path finally has is the first declaration file added for
  it, else the last file added; so a declaration file wins over a source file in whatever order
  the two are added. Collecting fails, fatally, exactly when two different declaration files can
  be imported as the same path.
\<close>

theorem file_labels_chosen:
  assumes "\<And>a b. equal a b \<longleftrightarrow> a = b"
  shows "(is_ok (add_labels equal Map.empty calls) \<longleftrightarrow> (\<forall>i. one_declaration (labels_for calls i))) \<and>
         (\<forall>fl. add_labels equal Map.empty calls = Inr fl \<longrightarrow>
            (\<forall>i. getImportLabel fl i = chosen_label (labels_for calls i)))"
  by (rule add_labels_chosen [OF assms])

theorem file_labels_chosen_witness:
  "\<exists>fl. add_labels (=) Map.empty [(''a'', file_label '''' '''' ''a.d.ts''), (''a'', file_label '''' '''' ''a.ts'')] = Inr fl \<and>
     getImportLabel fl ''a'' = Some (file_label '''' '''' ''a.d.ts'')"
proof -
  let ?calls = "[(''a'', file_label '''' '''' ''a.d.ts''), (''a'', file_label '''' '''' ''a.ts'')]"
  have lf: "labels_for ?calls i = (if i = ''a'' then map snd ?calls else [])" for i
    by (simp add: labels_for_def)
  have "\<forall>i. one_declaration (labels_for ?calls i)"
    unfolding lf by (simp add: one_declaration_def file_label_def isDeclarationFileType_def suffix_to_prefix)
  moreover have "chosen_label (labels_for ?calls ''a'') = Some (file_label '''' '''' ''a.d.ts'')"
    unfolding lf by (simp add: chosen_label_def file_label_def isDeclarationFileType_def suffix_to_prefix)
  ultimately show ?thesis
    using file_labels_chosen [of "(=)" ?calls, OF refl] by (auto simp: is_ok_iff)
qed

section \<open>Relative imports reach the files of a directory\<close>

lemma str_contains_dot_slash:
  "str_contains (''./'' @ n) ''://'' \<longleftrightarrow> str_contains n ''://''"
  by simp

lemma stripImportQuery_plain:
  assumes "list_all (\<lambda>c. c \<notin> set ''?#'') p"
  shows "stripImportQuery p = p"
proof -
  have "takeWhile (\<lambda>c. c \<notin> set ''?#'') p = p"
    using assms by (simp add: takeWhile_eq_all_conv list_all_iff)
  then show ?thesis unfolding stripImportQuery_def Let_def by (simp only: less_irrefl simp_thms if_False)
qed

lemma upto_last_join:
  "slash \<notin> set g \<Longrightarrow> upto_last slash (joinPkg d g) = (if d = '''' then '''' else d @ ''/'')"
  using last_split_eq [of slash g d] last_split_none [of slash g] by (simp add: joinPkg_def)

lemma clean_step_dot: "clean_step r st ''.'' = st"
  by (simp add: clean_step_def)

lemma Clean_join_dot:
  "d \<noteq> '''' \<Longrightarrow> Clean (d @ ''/'' @ ''./'' @ n) = Clean (d @ ''/'' @ n)"
  using Split_append_sep [of slash d "''.'' @ slash # n"] Split_append_sep [of slash d n]
  by (intro Clean_eqI) (simp_all add: IsAbs_append clean_elems_def clean_stack_append clean_step_dot)

text \<open>The specification path of a relative import from a file of the directory.\<close>

lemma relative_spec_path:
  assumes "slash \<notin> set g" "list_all (\<lambda>c. c \<notin> set ''?#'') n" "\<not> str_contains n ''://''"
    and "Clean (joinPkg d n) = joinPkg d n" "\<not> IsAbs n"
  shows "toImportSpecPath '''' (joinPkg d g) (''./'' @ n) = joinPkg d n"
proof -
  have strip: "stripImportQuery (''./'' @ n) = ''./'' @ n"
    using assms(2) by (intro stripImportQuery_plain) simp
  have "toImportSpecPath '''' (joinPkg d g) (''./'' @ n) =
      Clean ((if d = '''' then '''' else d @ ''/'') @ ''./'' @ n)"
    using assms(3) unfolding toImportSpecPath_def strip
    by (simp add: upto_last_join [OF assms(1)])
  also have "\<dots> = Clean (joinPkg d n)"
    using Clean_join_dot [of d n] Clean_dot_slash [OF assms(5)] by (simp add: joinPkg_def)
  finally show ?thesis using assms(4) by simp
qed

lemma labels_for_calls:
  "l \<in> set (labels_for (label_calls repo rel fs) i) \<longleftrightarrow>
     (\<exists>f \<in> set fs. l = file_label repo rel f \<and> i \<in> set (toImportPaths (joinPkg rel f)))"
  by (fastforce simp: labels_for_def label_calls_def image_iff)

text \<open>
  When the importable files of a directory have been collected, an import
  \<open>./n\<close> from any file of the directory finds a label of the directory's file whenever some
  file of the directory can be imported as \<open>n\<close>: without its extension, with its compiled
  extension, as a declaration, or as the directory of an index file.
\<close>

theorem relative_import_resolves:
  assumes "\<And>a b. equal a b \<longleftrightarrow> a = b"
    and "collectFileLabels equal repo rel genFiles regularFiles Map.empty = Inr fl"
    and "f \<in> set genFiles \<union> set regularFiles" "joinPkg rel n \<in> set (toImportPaths (joinPkg rel f))"
    and "slash \<notin> set g" "list_all (\<lambda>c. c \<notin> set ''?#'') n" "\<not> str_contains n ''://''"
    and "Clean (joinPkg rel n) = joinPkg rel n" "\<not> IsAbs n"
  shows "\<exists>f'. getImportLabel fl (toImportSpecPath '''' (joinPkg rel g) (''./'' @ n)) =
      Some (file_label repo rel f') \<and>
    f' \<in> set genFiles \<union> set regularFiles \<and> joinPkg rel n \<in> set (toImportPaths (joinPkg rel f'))"
proof -
  let ?calls = "label_calls repo rel (genFiles @ regularFiles)"
  have calls: "label_calls repo rel genFiles @ label_calls repo rel regularFiles = ?calls"
    by (simp add: label_calls_def)
  have "getImportLabel fl (joinPkg rel n) = chosen_label (labels_for ?calls (joinPkg rel n))"
    using add_labels_chosen [OF assms(1), of ?calls] assms(2) by (simp add: collectFileLabels_def calls)
  moreover have "labels_for ?calls (joinPkg rel n) \<noteq> []"
    using labels_for_calls [of _ repo rel "genFiles @ regularFiles" "joinPkg rel n"] assms(3,4) by fastforce
  ultimately obtain l where l: "getImportLabel fl (joinPkg rel n) = Some l"
    "l \<in> set (labels_for ?calls (joinPkg rel n))"
    using chosen_None chosen_mem by (metis option.exhaust)
  from l(2) obtain f' where "f' \<in> set (genFiles @ regularFiles)" "l = file_label repo rel f'"
    "joinPkg rel n \<in> set (toImportPaths (joinPkg rel f'))"
    unfolding labels_for_calls by blast
  with l(1) relative_spec_path [OF assms(5-9)] show ?thesis by auto
qed

text \<open>Two files of the package \<open>a\<close>: \<open>./b\<close> and \<open>./b.js\<close> both find \<open>b.ts\<close>.\<close>

lemma sample_import_paths: "toImportPaths ''a/b.ts'' = [''a/b.js'', ''a/b.d.ts'', ''a/b'']"
  by (simp add: toImportPaths_def path_Ext_def path_noext_def after_last_def isDeclarationFileType_def
      isTranspiledSourceFileExt_def isImplicitSourceFileExt_def implicit_paths_def toJsExt_def jsExt_def
      toDtsExt_def dtsExt_def SlashIndexFileName_def suffix_to_prefix)

theorem relative_import_resolves_witness:
  "\<exists>fl f'. collectFileLabels (=) '''' ''a'' [] [''b.ts''] Map.empty = Inr fl \<and>
     getImportLabel fl (toImportSpecPath '''' (joinPkg ''a'' ''c.ts'') (''./'' @ ''b'')) =
       Some (file_label '''' ''a'' f')"
proof -
  have "joinPkg ''a'' ''b.ts'' = ''a/b.ts''" "joinPkg ''a'' ''b'' = ''a/b''" by (simp_all add: joinPkg_def)
  note paths = this sample_import_paths
  obtain fl where fl: "collectFileLabels (=) '''' ''a'' [] [''b.ts''] Map.empty = Inr fl"
    by (simp add: collectFileLabels_def label_calls_def paths addFileLabel_def)
  have clean: "Clean ''a/b'' = ''a/b''"
    by (simp add: Clean_def clean_elems_def clean_stack_def clean_step_def IsAbs_def render_def)
  have "\<exists>f'. getImportLabel fl (toImportSpecPath '''' (joinPkg ''a'' ''c.ts'') (''./'' @ ''b'')) =
      Some (file_label '''' ''a'' f') \<and>
    f' \<in> set [] \<union> set [''b.ts''] \<and> joinPkg ''a'' ''b'' \<in> set (toImportPaths (joinPkg ''a'' f'))"
    by (rule relative_import_resolves [OF refl fl, where f = "''b.ts''"])
      (simp_all add: paths clean IsAbs_def)
  with fl show ?thesis by blast
qed

section \<open>Imports of generated protocol code\<close>

lemma TrimSuffix_proto: "HasSuffix s ''.proto'' \<Longrightarrow> TrimSuffix s ''.proto'' @ ''.proto'' = s"
  by (auto simp: suffix_def)

lemma jsProto_pb:
  "jsProtoImpToProtoSrc (b @ ''_pb'') = Some (b @ ''.proto'')"
  "jsProtoImpToProtoSrc (b @ ''_pb.js'') = Some (b @ ''.proto'')"
  "jsProtoImpToProtoSrc (b @ ''_pb.d.ts'') = Some (b @ ''.proto'')"
proof -
  have js: "TrimSuffix (b @ ''_pb.js'') ''.js'' = b @ ''_pb''" "TrimSuffix (b @ ''_pb.d.ts'') ''.d.ts'' = b @ ''_pb''"
    "TrimSuffix (b @ ''_pb'') ''_pb'' = b"
    using TrimSuffix_append [of "b @ ''_pb''" "''.js''"] TrimSuffix_append [of "b @ ''_pb''" "''.d.ts''"]
      TrimSuffix_append [of b "''_pb''"] by simp_all
  show "jsProtoImpToProtoSrc (b @ ''_pb'') = Some (b @ ''.proto'')"
    "jsProtoImpToProtoSrc (b @ ''_pb.js'') = Some (b @ ''.proto'')"
    "jsProtoImpToProtoSrc (b @ ''_pb.d.ts'') = Some (b @ ''.proto'')"
    by (simp_all add: jsProtoImpToProtoSrc_def Let_def js suffix_to_prefix)
qed

lemma jsProto_connect:
  "jsProtoImpToProtoSrc (b @ ''_connect'') = None"
  "jsProtoImpToProtoSrc (b @ ''_connect.js'') = None"
  "jsProtoImpToProtoSrc (b @ ''_connect.d.ts'') = None"
proof -
  have "TrimSuffix (b @ ''_connect.js'') ''.js'' = b @ ''_connect''"
    "TrimSuffix (b @ ''_connect.d.ts'') ''.d.ts'' = b @ ''_connect''"
    using TrimSuffix_append [of "b @ ''_connect''" "''.js''"] TrimSuffix_append [of "b @ ''_connect''" "''.d.ts''"]
    by simp_all
  then show "jsProtoImpToProtoSrc (b @ ''_connect'') = None"
    "jsProtoImpToProtoSrc (b @ ''_connect.js'') = None"
    "jsProtoImpToProtoSrc (b @ ''_connect.d.ts'') = None"
    by (simp_all add: jsProtoImpToProtoSrc_def Let_def suffix_to_prefix)
qed

text \<open>
  A message import that a \<open>ts_proto_library\<close> provides, with or without its
  extension, is translated back to exactly the proto file it was generated from; a connect
  service import is never translated.
\<close>

theorem proto_import_roundtrip:
  assumes "HasSuffix (path_join [pkg, src]) ''.proto''" "\<not> pa_connect_query a"
  shows "map jsProtoImpToProtoSrc (protoLibraryImports pkg a (Some [src])) =
    replicate 3 (Some (path_join [pkg, src])) @ (if pa_connect_es a then replicate 3 None else [])"
proof -
  let ?b = "TrimSuffix (path_join [pkg, src]) ''.proto''"
  have "jsProtoImpToProtoSrc (?b @ ''_pb'') = Some (path_join [pkg, src])"
    "jsProtoImpToProtoSrc (?b @ ''_pb.js'') = Some (path_join [pkg, src])"
    "jsProtoImpToProtoSrc (?b @ ''_pb.d.ts'') = Some (path_join [pkg, src])"
    using TrimSuffix_proto [OF assms(1)] by (simp_all add: jsProto_pb)
  then show ?thesis
    using assms(2) by (simp add: protoLibraryImports_def proto_outputs_def Let_def jsProto_connect
        numeral_3_eq_3)
qed

theorem proto_import_roundtrip_witness:
  "map jsProtoImpToProtoSrc (protoLibraryImports ''a'' \<lparr>pa_connect_es = False, pa_connect_query = False,
     pa_services = []\<rparr> (Some [''b.proto''])) = replicate 3 (Some ''a/b.proto'')"
proof -
  have "path_join [''a'', ''b.proto''] = ''a/b.proto''"
    by (simp add: path_join_def Clean_def clean_elems_def clean_stack_def clean_step_def IsAbs_def render_def)
  with proto_import_roundtrip [of "''a''" "''b.proto''"
      "\<lparr>pa_connect_es = False, pa_connect_query = False, pa_services = []\<rparr>"]
  show ?thesis by (simp add: suffix_to_prefix)
qed

end
