(* ===== verification/Rules.thy ===== *)
theory Rules
  imports Labels
begin

text \<open>
  Build rules as the generators see them (\<open>common/rule\<close>): finding a rule of the build file by
  name, mapped kinds, removal and name collisions, expansion of \<open>srcs\<close> expressions, and the
  keep comments of \<open>language/js/generate.go\<close>. The third-party rule and expression types are
  modelled by the parts the program reads and writes; recognising a glob call, matching it and
  \<open>rule.ShouldKeep\<close> are parameters.
\<close>

section \<open>Expressions and rules\<close>

record comments =
  cm_Before :: "string list"
  cm_Suffix :: "string list"

datatype bzl_expr =
    StringExpr comments string
  | ListExpr comments "bzl_expr list"
  | BinaryExpr comments string bzl_expr bzl_expr
  | OtherExpr comments string

text \<open>What an attribute is set to, or the expression it has in a build file.\<close>

datatype attr_value =
    VExpr bzl_expr
  | VString string
  | VStrings "string list"
  | VBool bool
  | VLabel label
  | VLabels "label list"

record rule =
  ru_kind :: string
  ru_name :: string
  ru_attrs :: "string \<rightharpoonup> attr_value"
  ru_attrComments :: "string \<rightharpoonup> comments"

definition NewRule :: "string \<Rightarrow> string \<Rightarrow> rule" where
  "NewRule kind name =
     \<lparr>ru_kind = kind, ru_name = name, ru_attrs = Map.empty, ru_attrComments = Map.empty\<rparr>"

definition SetAttr :: "string \<Rightarrow> attr_value \<Rightarrow> rule \<Rightarrow> rule" where
  "SetAttr k v r = r\<lparr>ru_attrs := (ru_attrs r)(k \<mapsto> v)\<rparr>"

definition DelAttr :: "string \<Rightarrow> rule \<Rightarrow> rule" where
  "DelAttr k r = r\<lparr>ru_attrs := (ru_attrs r)(k := None)\<rparr>"

record bzl_api =
  ba_ShouldKeep :: "bzl_expr \<Rightarrow> bool"
  ba_ParseGlobExpr :: "bzl_expr \<Rightarrow> (string list \<times> string list) option"
  ba_MatchUnvalidated :: "string \<Rightarrow> string \<Rightarrow> bool"

section \<open>Rules of the build file\<close>

text \<open>The rules of \<open>args.File\<close>, and the kind map (empty for an unmapped kind).\<close>

record rule_args =
  ra_Rel :: string
  ra_File :: "rule list option"
  ra_KindMap :: "string \<Rightarrow> string"

definition GetFileRuleByName :: "rule_args \<Rightarrow> string \<Rightarrow> rule option" where
  "GetFileRuleByName args ruleName =
     (case ra_File args of None \<Rightarrow> None | Some rules \<Rightarrow> find (\<lambda>r. ru_name r = ruleName) rules)"

definition MapKind :: "rule_args \<Rightarrow> string \<Rightarrow> string" where
  "MapKind args kind = (if ra_KindMap args kind \<noteq> '''' then ra_KindMap args kind else kind)"

text \<open>The generated kinds are a sorted set of strings, here the sequence it yields.\<close>

definition getMappedKind :: "rule_args \<Rightarrow> string list \<Rightarrow> string \<Rightarrow> string option" where
  "getMappedKind args generatedKinds kind = find (\<lambda>g. MapKind args g = kind) generatedKinds"

definition containsMappedKind :: "rule_args \<Rightarrow> string list \<Rightarrow> string \<Rightarrow> bool" where
  "containsMappedKind args generatedKinds kind = (getMappedKind args generatedKinds kind \<noteq> None)"

text \<open>The empty rules afterwards.\<close>

definition RemoveRule :: "rule_args \<Rightarrow> string \<Rightarrow> string list \<Rightarrow> rule list \<Rightarrow> rule list" where
  "RemoveRule args ruleName generatedKinds empties =
     (case GetFileRuleByName args ruleName of
        None \<Rightarrow> empties
      | Some existing \<Rightarrow>
        (case getMappedKind args generatedKinds (ru_kind existing) of
           None \<Rightarrow> empties
         | Some mappedKind \<Rightarrow> empties @ [NewRule mappedKind ruleName]))"

text \<open>The collision: the target, the kind it should have, and the kind it has.\<close>

datatype collision = Collision string string string string

definition CheckCollisionErrors ::
  "string \<Rightarrow> string \<Rightarrow> string list \<Rightarrow> rule_args \<Rightarrow> collision option" where
  "CheckCollisionErrors targetName expectedKind generatedKinds args =
     (if ra_File args = None then None
      else case GetFileRuleByName args targetName of
        None \<Rightarrow> None
      | Some existing \<Rightarrow>
          (let mappedExpectedKind = MapKind args expectedKind
           in if ru_kind existing = mappedExpectedKind then None
              else if \<not> containsMappedKind args generatedKinds (ru_kind existing)
              then Some (Collision (ra_Rel args) targetName mappedExpectedKind (ru_kind existing))
              else None))"

section \<open>Source expressions\<close>

definition isLabelRef :: "string \<Rightarrow> bool" where
  "isLabelRef s =
     (if length s = 0 then False
      else if s ! 0 = CHR '':'' \<or> HasPrefix s ''//'' then True
      else s ! 0 = CHR ''@'' \<and> str_contains s ''//'')"

fun expandSrcsList :: "bzl_expr list \<Rightarrow> string list" where
  "expandSrcsList [] = []"
| "expandSrcsList (e # es) =
     (case e of
        StringExpr _ v \<Rightarrow> if isLabelRef v then expandSrcsList es else v # expandSrcsList es
      | _ \<Rightarrow> expandSrcsList es)"

definition expandGlob :: "bzl_api \<Rightarrow> string list \<Rightarrow> string list \<times> string list \<Rightarrow> string list" where
  "expandGlob api files g =
     (case g of (patterns, excludes) \<Rightarrow>
        filter (\<lambda>file. list_ex (\<lambda>p. ba_MatchUnvalidated api p file) patterns \<and>
                       \<not> list_ex (\<lambda>p. ba_MatchUnvalidated api p file) excludes) files)"

text \<open>The error is the expression that is neither a list nor a glob.\<close>

definition expand_glob_expr :: "bzl_api \<Rightarrow> string list \<Rightarrow> bzl_expr \<Rightarrow> bzl_expr + string list" where
  "expand_glob_expr api files e =
     (case ba_ParseGlobExpr api e of None \<Rightarrow> Inl e | Some g \<Rightarrow> Inr (expandGlob api files g))"

fun ExpandSrcs :: "bzl_api \<Rightarrow> string list \<Rightarrow> bzl_expr \<Rightarrow> bzl_expr + string list" where
  "ExpandSrcs api files (ListExpr c es) = Inr (expandSrcsList es)"
| "ExpandSrcs api files (BinaryExpr c op x y) =
     (if op = ''+'' then
        (case ExpandSrcs api files x of
           Inl e \<Rightarrow> Inl e
         | Inr left \<Rightarrow>
           (case ExpandSrcs api files y of Inl e \<Rightarrow> Inl e | Inr right \<Rightarrow> Inr (left @ right)))
      else expand_glob_expr api files (BinaryExpr c op x y))"
| "ExpandSrcs api files e = expand_glob_expr api files e"

section \<open>Keep comments\<close>

definition keep_token :: "string \<Rightarrow> bool" where
  "keep_token token =
     (let text = TrimSpace (TrimPrefix token ''#'')
      in text = ''keep'' \<or> HasPrefix text ''keep: '')"

definition hasKeepToken :: "string list \<Rightarrow> bool" where
  "hasKeepToken cs = list_ex keep_token cs"

definition commentsHaveKeep :: "comments option \<Rightarrow> bool" where
  "commentsHaveKeep c =
     (case c of None \<Rightarrow> False | Some c \<Rightarrow> hasKeepToken (cm_Before c) \<or> hasKeepToken (cm_Suffix c))"

definition srcsArePinned :: "rule \<Rightarrow> bool" where
  "srcsArePinned r =
     (case ru_attrs r ''srcs'' of
        None \<Rightarrow> False
      | Some (VExpr (ListExpr _ _)) \<Rightarrow> commentsHaveKeep (ru_attrComments r ''srcs'')
      | Some (VStrings _) \<Rightarrow> commentsHaveKeep (ru_attrComments r ''srcs'')
      | Some (VLabels _) \<Rightarrow> commentsHaveKeep (ru_attrComments r ''srcs'')
      | Some _ \<Rightarrow> True)"

definition keptSrcs :: "bzl_api \<Rightarrow> attr_value option \<Rightarrow> string list" where
  "keptSrcs api expr =
     (case expr of
        Some (VExpr (ListExpr _ es)) \<Rightarrow>
          concat (map (\<lambda>e. case e of
            StringExpr _ v \<Rightarrow> if ba_ShouldKeep api e then [v] else [] | _ \<Rightarrow> []) es)
      | _ \<Rightarrow> [])"

section \<open>Lemmas\<close>

lemma SetAttr_fields [simp]:
  "ru_kind (SetAttr k v r) = ru_kind r" "ru_name (SetAttr k v r) = ru_name r"
  "ru_attrs (SetAttr k v r) = (ru_attrs r)(k \<mapsto> v)"
  by (simp_all add: SetAttr_def)

lemma DelAttr_fields [simp]:
  "ru_kind (DelAttr k r) = ru_kind r" "ru_name (DelAttr k r) = ru_name r"
  "ru_attrs (DelAttr k r) = (ru_attrs r)(k := None)"
  by (simp_all add: DelAttr_def)

lemma NewRule_fields [simp]:
  "ru_kind (NewRule k n) = k" "ru_name (NewRule k n) = n" "ru_attrs (NewRule k n) = Map.empty"
  by (simp_all add: NewRule_def)

lemma getMappedKind_Some:
  "getMappedKind args kinds kind = Some g \<Longrightarrow> g \<in> set kinds \<and> MapKind args g = kind"
  by (auto simp: getMappedKind_def find_Some_iff)

lemma containsMappedKind_iff: "containsMappedKind args kinds kind \<longleftrightarrow> kind \<in> MapKind args ` set kinds"
  by (auto simp: containsMappedKind_def getMappedKind_def find_None_iff)

text \<open>The sources an expression lists: a sum is the concatenation of its lists and globs.\<close>

fun summands :: "bzl_expr \<Rightarrow> bzl_expr list" where
  "summands (BinaryExpr c op x y) = (if op = ''+'' then summands x @ summands y else [BinaryExpr c op x y])"
| "summands e = [e]"

definition leaf_srcs :: "bzl_api \<Rightarrow> string list \<Rightarrow> bzl_expr \<Rightarrow> string list option" where
  "leaf_srcs api files e =
     (case e of
        ListExpr _ es \<Rightarrow> Some (expandSrcsList es)
      | _ \<Rightarrow> map_option (expandGlob api files) (ba_ParseGlobExpr api e))"

lemma ExpandSrcs_summands:
  "ExpandSrcs api files e =
     (case find (\<lambda>s. leaf_srcs api files s = None) (summands e) of
        Some s \<Rightarrow> Inl s
      | None \<Rightarrow> Inr (concat (map (\<lambda>s. the (leaf_srcs api files s)) (summands e))))"
proof (induction api files e rule: ExpandSrcs.induct)
  case (2 api files c op x y)
  then show ?case
    by (cases "op = ''+''")
       (auto simp: find_append leaf_srcs_def expand_glob_expr_def split: option.splits)
qed (auto simp: leaf_srcs_def expand_glob_expr_def split: option.splits)

text \<open>
  A generated target collides exactly when the build file's first rule of that
  name has a kind that is neither the (mapped) expected one nor the mapped form of any kind the
  extension manages; and a rule is offered for removal exactly when it exists and is of a managed
  kind, under a managed kind that maps to its own.
\<close>

theorem collisions_and_removal:
  "(CheckCollisionErrors n k kinds args \<noteq> None \<longleftrightarrow>
      (\<exists>r. GetFileRuleByName args n = Some r \<and> ru_kind r \<noteq> MapKind args k \<and>
           ru_kind r \<notin> MapKind args ` set kinds)) \<and>
   (\<exists>g. RemoveRule args n kinds empties = empties @ g \<and> length g \<le> 1 \<and>
      (g \<noteq> [] \<longleftrightarrow> (\<exists>r. GetFileRuleByName args n = Some r \<and> ru_kind r \<in> MapKind args ` set kinds)) \<and>
      (\<forall>e \<in> set g. ru_name e = n \<and> ru_attrs e = Map.empty \<and> ru_kind e \<in> set kinds \<and>
         (\<exists>r. GetFileRuleByName args n = Some r \<and> MapKind args (ru_kind e) = ru_kind r)))"
proof (intro conjI)
  show "CheckCollisionErrors n k kinds args \<noteq> None \<longleftrightarrow>
      (\<exists>r. GetFileRuleByName args n = Some r \<and> ru_kind r \<noteq> MapKind args k \<and>
           ru_kind r \<notin> MapKind args ` set kinds)"
    by (auto simp: CheckCollisionErrors_def Let_def containsMappedKind_iff GetFileRuleByName_def
        split: option.splits)
  show "\<exists>g. RemoveRule args n kinds empties = empties @ g \<and> length g \<le> 1 \<and>
      (g \<noteq> [] \<longleftrightarrow> (\<exists>r. GetFileRuleByName args n = Some r \<and> ru_kind r \<in> MapKind args ` set kinds)) \<and>
      (\<forall>e \<in> set g. ru_name e = n \<and> ru_attrs e = Map.empty \<and> ru_kind e \<in> set kinds \<and>
         (\<exists>r. GetFileRuleByName args n = Some r \<and> MapKind args (ru_kind e) = ru_kind r))"
  proof (cases "GetFileRuleByName args n")
    case None
    then show ?thesis by (intro exI [of _ "[]"]) (simp add: RemoveRule_def)
  next
    case (Some r)
    show ?thesis
    proof (cases "getMappedKind args kinds (ru_kind r)")
      case None
      then have "ru_kind r \<notin> MapKind args ` set kinds"
        using containsMappedKind_iff [of args kinds "ru_kind r"] by (simp add: containsMappedKind_def)
      with None Some show ?thesis by (intro exI [of _ "[]"]) (simp add: RemoveRule_def)
    next
      fix m
      assume m: "getMappedKind args kinds (ru_kind r) = Some m"
      from getMappedKind_Some [OF m] m Some show ?thesis
        by (intro exI [of _ "[NewRule m n]"]) (auto simp: RemoveRule_def intro: rev_image_eqI)
    qed
  qed
qed

theorem collisions_and_removal_witness:
  "CheckCollisionErrors ''a'' ''ts_project'' [''js_library'']
     \<lparr>ra_Rel = '''', ra_File = Some [NewRule ''genrule'' ''a''], ra_KindMap = (\<lambda>_. '''')\<rparr> \<noteq> None"
proof -
  let ?args = "\<lparr>ra_Rel = '''', ra_File = Some [NewRule ''genrule'' ''a''], ra_KindMap = (\<lambda>_. '''')\<rparr>"
  have "\<exists>r. GetFileRuleByName ?args ''a'' = Some r \<and> ru_kind r \<noteq> MapKind ?args ''ts_project'' \<and>
      ru_kind r \<notin> MapKind ?args ` set [''js_library'']"
    by (simp add: GetFileRuleByName_def MapKind_def)
  with collisions_and_removal [of "''a''" "''ts_project''" "[''js_library'']" ?args "[]"] show ?thesis by blast
qed

end
