(* ===== verification/Js_Sources.thy ===== *)
theory Js_Sources
  imports Js_Config Js_Imports Rules Pnpm Tsconfig
begin

text \<open>
  Sorting the files of a directory into target groups, choosing the sources of a group, and
  collecting what they import (first half of \<open>addSourceRules\<close>, \<open>newTargetGlobClassifier\<close> and
  \<open>collectImports\<close> of \<open>language/js/generate.go\<close>). A Go set of files is the list of its
  elements in the order of one iteration.
\<close>

section \<open>Data\<close>

record ImportStatement =
  is_Lang :: string
  is_Imp :: string
  is_ImportPath :: string
  is_SourcePath :: string
  is_Kind :: ImportKind
  is_Optional :: bool
  is_TypesOnly :: bool

definition LanguageName :: string where
  "LanguageName = ''js''"

definition importStatementComparator :: "ImportStatement \<Rightarrow> ImportStatement \<Rightarrow> int" where
  "importStatementComparator a b = Compare (is_Imp a) (is_Imp b)"

interpretation import_cmp: comparator importStatementComparator
  unfolding importStatementComparator_def
  by (rule comparator_key) (rule str_cmp.comparator_axioms)

text \<open>The configuration and the directory that \<open>FindConfig\<close> found for each group.\<close>

type_synonym group_tsconfigs = "string \<Rightarrow> string \<times> TsConfig option"

section \<open>Classifying files\<close>

text \<open>A glob that does not parse is the nil function.\<close>

definition group_glob :: "js_env \<Rightarrow> JsGazelleConfig \<Rightarrow> group_tsconfigs \<Rightarrow> TargetGroup \<Rightarrow> string \<Rightarrow> glob_expr option" where
  "group_glob env cfg groupTsconfigs target expr =
     (let rootDir = (case snd (groupTsconfigs (tg_name target)) of
              Some tc \<Rightarrow> tsconfigRootDirRelative (ConfigDir tc) (RootDir tc) (jc_rel cfg)
            | None \<Rightarrow> ''.'');
          expr' = (if str_contains expr rootDirVar then Clean (ReplaceFirst expr rootDirVar rootDir) else expr)
      in case parse_glob env expr' of Inl _ \<Rightarrow> None | Inr g \<Rightarrow> Some g)"

definition glob_entries ::
  "js_env \<Rightarrow> JsGazelleConfig \<Rightarrow> group_tsconfigs \<Rightarrow> (TargetGroup \<Rightarrow> string list) \<Rightarrow>
   (TargetGroup \<times> glob_expr option) list" where
  "glob_entries env cfg groupTsconfigs globsOf =
     concat (map (\<lambda>target. map (\<lambda>expr. (target, group_glob env cfg groupTsconfigs target expr)) (globsOf target))
       (rev (jc_targets cfg)))"

fun classify :: "(TargetGroup \<times> glob_expr option) list \<Rightarrow> string \<Rightarrow> TargetGroup option outcome" where
  "classify [] filePath = Inr None"
| "classify ((target, glob) # entries) filePath =
     (case glob of
        None \<Rightarrow> Inl (Panic ''nil glob'')
      | Some g \<Rightarrow> if g filePath then Inr (Some target) else classify entries filePath)"

definition newTargetGlobClassifier ::
  "js_env \<Rightarrow> JsGazelleConfig \<Rightarrow> group_tsconfigs \<Rightarrow> (TargetGroup \<Rightarrow> string list) \<Rightarrow>
   string \<Rightarrow> TargetGroup option outcome" where
  "newTargetGlobClassifier env cfg groupTsconfigs globsOf =
     classify (glob_entries env cfg groupTsconfigs globsOf)"

section \<open>Sorting the files of the directory\<close>

record file_groups =
  fg_sources :: "string \<Rightarrow> string list"
  fg_generated :: "string \<Rightarrow> string list"
  fg_assets :: "string \<Rightarrow> string list"
  fg_data :: "string list"

definition set_put :: "string \<Rightarrow> string list \<Rightarrow> string list" where
  "set_put f fs = (if f \<in> set fs then fs else fs @ [f])"

definition group_put :: "string \<Rightarrow> string \<Rightarrow> (string \<Rightarrow> string list) \<Rightarrow> (string \<Rightarrow> string list)" where
  "group_put g f m = m(g := set_put f (m g))"

text \<open>\<open>processPotentialSourceFile\<close>; \<open>gen\<close> says which of the two maps takes a source.\<close>

definition process_file ::
  "(string \<Rightarrow> TargetGroup option outcome) \<Rightarrow> (string \<Rightarrow> TargetGroup option outcome) \<Rightarrow> bool \<Rightarrow> string \<Rightarrow>
   file_groups \<Rightarrow> file_groups outcome" where
  "process_file classifyFile classifyAsset gen file fg =
     (let other = (case classifyAsset file of
            Inl e \<Rightarrow> Inl e
          | Inr (Some target) \<Rightarrow> Inr (fg\<lparr>fg_assets := group_put (tg_name target) file (fg_assets fg)\<rparr>)
          | Inr None \<Rightarrow> Inr (fg\<lparr>fg_data := fg_data fg @ [file]\<rparr>))
      in if isSourceFileExt (path_Ext file) \<or> isDataFileExt (path_Ext file) then
           (case classifyFile file of
              Inl e \<Rightarrow> Inl e
            | Inr (Some target) \<Rightarrow>
                Inr (if gen
                     then fg\<lparr>fg_generated := group_put (tg_name target) file (fg_generated fg)\<rparr>
                     else fg\<lparr>fg_sources := group_put (tg_name target) file (fg_sources fg)\<rparr>)
            | Inr None \<Rightarrow> other)
         else other)"

fun process_files ::
  "(string \<Rightarrow> TargetGroup option outcome) \<Rightarrow> (string \<Rightarrow> TargetGroup option outcome) \<Rightarrow> bool \<Rightarrow> string list \<Rightarrow>
   file_groups \<Rightarrow> file_groups outcome" where
  "process_files cf ca gen [] fg = Inr fg"
| "process_files cf ca gen (f # fs) fg =
     (case process_file cf ca gen f fg of Inl e \<Rightarrow> Inl e | Inr fg' \<Rightarrow> process_files cf ca gen fs fg')"

text \<open>The regular files first, then the generated ones.\<close>

definition sort_files ::
  "js_env \<Rightarrow> JsGazelleConfig \<Rightarrow> group_tsconfigs \<Rightarrow> string list \<Rightarrow> string list \<Rightarrow> file_groups outcome" where
  "sort_files env cfg groupTsconfigs regular generated =
     (let cf = newTargetGlobClassifier env cfg groupTsconfigs sourceGlobs;
          ca = newTargetGlobClassifier env cfg groupTsconfigs assetGlobs
      in case process_files cf ca False regular
                \<lparr>fg_sources = (\<lambda>_. []), fg_generated = (\<lambda>_. []), fg_assets = (\<lambda>_. []), fg_data = []\<rparr> of
           Inl e \<Rightarrow> Inl e
         | Inr fg \<Rightarrow> process_files cf ca True generated fg)"

section \<open>The sources of a group\<close>

definition sourceRuleKinds :: "string list" where
  "sourceRuleKinds = [''js_library'', ''ts_project'', ''ts_proto_library'']"

text \<open>
  The sources and generated sources of a group, and whether the existing rule pins them: pinned
  sources are those its expression lists, otherwise the group's files and the kept ones, all as
  far as the walk found them.
\<close>

definition group_sources ::
  "bzl_api \<Rightarrow> rule_args \<Rightarrow> string list \<Rightarrow> file_groups \<Rightarrow> string \<Rightarrow> string \<Rightarrow> string list \<times> string list \<times> bool" where
  "group_sources api args regular fg groupName ruleName =
     (let existing = GetFileRuleByName args ruleName;
          managed = (case existing of Some r \<Rightarrow> ru_kind r \<in> set sourceRuleKinds | None \<Rightarrow> False)
      in case existing of
           Some r \<Rightarrow>
             if managed \<and> srcsArePinned r then
               (let customSrcs = (case ru_attrs r ''srcs'' of
                      Some (VExpr e) \<Rightarrow> (case ExpandSrcs api regular e of Inl _ \<Rightarrow> [] | Inr srcs \<Rightarrow> srcs)
                    | _ \<Rightarrow> [])
                in (filter (\<lambda>s. s \<in> set regular) customSrcs, [], True))
             else
               (let srcSet = fg_sources fg groupName; genSet = fg_generated fg groupName;
                    kept = (if managed then keptSrcs api (ru_attrs r ''srcs'') else [])
                in (foldl (\<lambda>s k. if k \<in> set s \<or> k \<in> set genSet \<or> k \<notin> set regular then s else s @ [k]) srcSet kept,
                    genSet, False))
         | None \<Rightarrow> (fg_sources fg groupName, fg_generated fg groupName, False))"

section \<open>Imports of a source file\<close>

text \<open>What the parser finds in a file; \<open>pr_Err\<close> is the error of reading it.\<close>

record parser_result =
  pr_Imports :: "string list"
  pr_JSXImports :: "string list"
  pr_URLImports :: "string list"
  pr_Modules :: "string list"
  pr_Errors :: "string list"
  pr_Err :: "string option"

record parse_result =
  ps_SourcePath :: string
  ps_Imports :: "ImportStatement list"
  ps_Modules :: "string list"
  ps_Error :: "string option"
  ps_SyntaxErrors :: "string list"

definition processImports ::
  "config_chain \<Rightarrow> string \<Rightarrow> string list \<Rightarrow> string \<Rightarrow> ImportKind \<Rightarrow> ImportStatement list" where
  "processImports cfg sourcePath imports absolutePathBase kind =
     map (\<lambda>importPath. \<lparr>is_Lang = LanguageName,
            is_Imp = toImportSpecPath absolutePathBase sourcePath importPath,
            is_ImportPath = importPath, is_SourcePath = sourcePath, is_Kind = kind,
            is_Optional = False, is_TypesOnly = False\<rparr>)
       (filter (\<lambda>i. i \<noteq> '''' \<and> \<not> IsImportIgnored cfg i) (map stripImportQuery imports))"

text \<open>\<open>parse\<close> is the cached parser, from the path of a file to its result.\<close>

definition collectImports ::
  "config_chain \<Rightarrow> PnpmProjectMap \<Rightarrow> (string \<Rightarrow> parser_result) \<Rightarrow> string \<Rightarrow> parse_result" where
  "collectImports cfg pm parse sourcePath =
     (let p = parse sourcePath; c = hd cfg;
          jsxAbsoluteBase = (case GetProject pm sourcePath of Some project \<Rightarrow> project | None \<Rightarrow> '''')
      in \<lparr>ps_SourcePath = sourcePath,
          ps_Imports =
            processImports cfg sourcePath (pr_Imports p) '''' ImportKindImport @
            (if jc_collectAssetJsx c
             then processImports cfg sourcePath (pr_JSXImports p) jsxAbsoluteBase ImportKindJsx else []) @
            (if jc_collectAssetURL c
             then processImports cfg sourcePath (pr_URLImports p) ''.'' ImportKindURL else []),
          ps_Modules = pr_Modules p, ps_Error = pr_Err p, ps_SyntaxErrors = pr_Errors p\<rparr>)"

text \<open>
  The files parsed in parallel, in the order \<open>sched\<close> the results arrive in: the sources only.
\<close>

definition parseFiles ::
  "config_chain \<Rightarrow> PnpmProjectMap \<Rightarrow> (string \<Rightarrow> parser_result) \<Rightarrow> (parse_result list \<Rightarrow> parse_result list) \<Rightarrow>
   string \<Rightarrow> string list \<Rightarrow> parse_result list" where
  "parseFiles cfg pm parse sched rel sourceFiles =
     sched (map (\<lambda>f. collectImports cfg pm parse (joinPkg rel f))
       (filter (\<lambda>f. isSourceFileExt (path_Ext f)) sourceFiles))"

section \<open>Where each file goes\<close>

text \<open>The specification: the last target group one of whose globs matches the file.\<close>

definition glob_matches ::
  "js_env \<Rightarrow> JsGazelleConfig \<Rightarrow> group_tsconfigs \<Rightarrow> TargetGroup \<Rightarrow> string \<Rightarrow> string \<Rightarrow> bool" where
  "glob_matches env cfg tcs target f expr =
     (case group_glob env cfg tcs target expr of Some g \<Rightarrow> g f | None \<Rightarrow> False)"

definition last_group ::
  "js_env \<Rightarrow> JsGazelleConfig \<Rightarrow> group_tsconfigs \<Rightarrow> (TargetGroup \<Rightarrow> string list) \<Rightarrow> string \<Rightarrow> string option" where
  "last_group env cfg tcs globsOf f =
     map_option tg_name
       (find (\<lambda>t. list_ex (glob_matches env cfg tcs t f) (globsOf t)) (rev (jc_targets cfg)))"

lemma classify_entries:
  "classify (map (\<lambda>expr. (t, group_glob env cfg tcs t expr)) exprs @ rest) f = Inr r \<Longrightarrow>
   (if list_ex (glob_matches env cfg tcs t f) exprs then r = Some t else classify rest f = Inr r)"
  by (induction exprs) (auto simp: glob_matches_def split: option.splits if_splits)

lemma classifier_last:
  assumes "newTargetGlobClassifier env cfg tcs globsOf f = Inr r"
  shows "last_group env cfg tcs globsOf f = map_option tg_name r"
proof -
  have "r = find (\<lambda>t. list_ex (glob_matches env cfg tcs t f) (globsOf t)) ts"
    if "classify (concat (map (\<lambda>t. map (\<lambda>e. (t, group_glob env cfg tcs t e)) (globsOf t)) ts)) f = Inr r" for ts
    using that
  proof (induction ts)
    case (Cons t ts)
    from Cons.prems have "classify (map (\<lambda>e. (t, group_glob env cfg tcs t e)) (globsOf t) @
        concat (map (\<lambda>t. map (\<lambda>e. (t, group_glob env cfg tcs t e)) (globsOf t)) ts)) f = Inr r" by simp
    from classify_entries [OF this] Cons.IH show ?case by (auto split: if_splits)
  qed simp
  with assms show ?thesis
    by (simp add: newTargetGlobClassifier_def glob_entries_def last_group_def)
qed

text \<open>Whether a file may be a source of a group at all.\<close>

definition source_or_data :: "string \<Rightarrow> bool" where
  "source_or_data f = (isSourceFileExt (path_Ext f) \<or> isDataFileExt (path_Ext f))"

datatype placement = AsSource string | AsAsset string | AsData

definition placement_of ::
  "js_env \<Rightarrow> JsGazelleConfig \<Rightarrow> group_tsconfigs \<Rightarrow> string \<Rightarrow> placement" where
  "placement_of env cfg tcs f =
     (case (if source_or_data f then last_group env cfg tcs sourceGlobs f else None) of
        Some g \<Rightarrow> AsSource g
      | None \<Rightarrow> (case last_group env cfg tcs assetGlobs f of Some g \<Rightarrow> AsAsset g | None \<Rightarrow> AsData))"

definition put_at :: "bool \<Rightarrow> string \<Rightarrow> placement \<Rightarrow> file_groups \<Rightarrow> file_groups" where
  "put_at gen f p fg =
     (case p of
        AsSource g \<Rightarrow> if gen then fg\<lparr>fg_generated := group_put g f (fg_generated fg)\<rparr>
                      else fg\<lparr>fg_sources := group_put g f (fg_sources fg)\<rparr>
      | AsAsset g \<Rightarrow> fg\<lparr>fg_assets := group_put g f (fg_assets fg)\<rparr>
      | AsData \<Rightarrow> fg\<lparr>fg_data := fg_data fg @ [f]\<rparr>)"

lemma process_file_placement:
  assumes "process_file (newTargetGlobClassifier env cfg tcs sourceGlobs)
    (newTargetGlobClassifier env cfg tcs assetGlobs) gen f fg = Inr fg'"
  shows "fg' = put_at gen f (placement_of env cfg tcs f) fg"
proof (cases "source_or_data f")
  case src: True
  show ?thesis
  proof (cases "newTargetGlobClassifier env cfg tcs sourceGlobs f")
    case (Inl e)
    with src assms show ?thesis by (simp add: process_file_def Let_def source_or_data_def)
  next
    case (Inr r)
    note last = classifier_last [OF Inr]
    show ?thesis
    proof (cases r)
      case None
      with src Inr assms last show ?thesis
        by (auto simp: process_file_def Let_def source_or_data_def placement_of_def put_at_def
            split: sum.splits option.splits dest!: classifier_last)
    next
      case (Some t)
      with src Inr assms last show ?thesis
        by (auto simp: process_file_def Let_def source_or_data_def placement_of_def put_at_def split: if_splits)
    qed
  qed
next
  case False
  with assms show ?thesis
    by (auto simp: process_file_def Let_def source_or_data_def placement_of_def put_at_def
        split: sum.splits option.splits dest!: classifier_last)
qed

lemma process_files_placement:
  "process_files (newTargetGlobClassifier env cfg tcs sourceGlobs)
     (newTargetGlobClassifier env cfg tcs assetGlobs) gen fs fg = Inr fg' \<Longrightarrow>
   fg' = fold (\<lambda>f. put_at gen f (placement_of env cfg tcs f)) fs fg"
  by (induction fs arbitrary: fg) (auto dest: process_file_placement split: sum.splits)

text \<open>What a sequence of placements leaves in each place.\<close>

lemma set_put_set [simp]: "set (set_put f fs) = insert f (set fs)"
  by (auto simp: set_put_def)

lemma fold_put_at:
  "set (fg_sources (fold (\<lambda>f. put_at gen f (pl f)) fs fg) g) =
     set (fg_sources fg g) \<union> (if gen then {} else {f \<in> set fs. pl f = AsSource g})"
  "set (fg_generated (fold (\<lambda>f. put_at gen f (pl f)) fs fg) g) =
     set (fg_generated fg g) \<union> (if gen then {f \<in> set fs. pl f = AsSource g} else {})"
  "set (fg_assets (fold (\<lambda>f. put_at gen f (pl f)) fs fg) g) =
     set (fg_assets fg g) \<union> {f \<in> set fs. pl f = AsAsset g}"
  "fg_data (fold (\<lambda>f. put_at gen f (pl f)) fs fg) = fg_data fg @ filter (\<lambda>f. pl f = AsData) fs"
  by (induction fs arbitrary: fg)
     (auto simp: put_at_def group_put_def split: placement.splits)

text \<open>
  C13 (refinement). Every file of a directory is placed exactly once: as a source of the last
  target group with a matching source glob, if it is a source or JSON file; else as an asset of
  the last group with a matching asset glob; else as a data file, in order. Regular and generated
  sources are kept apart.
\<close>

theorem files_placed_once:
  assumes "sort_files env cfg tcs regular generated = Inr fg"
  shows "(\<forall>g. set (fg_sources fg g) = {f \<in> set regular. placement_of env cfg tcs f = AsSource g}) \<and>
    (\<forall>g. set (fg_generated fg g) = {f \<in> set generated. placement_of env cfg tcs f = AsSource g}) \<and>
    (\<forall>g. set (fg_assets fg g) = {f \<in> set (regular @ generated). placement_of env cfg tcs f = AsAsset g}) \<and>
    fg_data fg = filter (\<lambda>f. placement_of env cfg tcs f = AsData) (regular @ generated)"
proof -
  obtain fg1 where "process_files (newTargetGlobClassifier env cfg tcs sourceGlobs)
      (newTargetGlobClassifier env cfg tcs assetGlobs) False regular
      \<lparr>fg_sources = (\<lambda>_. []), fg_generated = (\<lambda>_. []), fg_assets = (\<lambda>_. []), fg_data = []\<rparr> = Inr fg1"
    "process_files (newTargetGlobClassifier env cfg tcs sourceGlobs)
      (newTargetGlobClassifier env cfg tcs assetGlobs) True generated fg1 = Inr fg"
    using assms by (auto simp: sort_files_def Let_def split: sum.splits)
  from this [THEN process_files_placement] show ?thesis
    by (auto simp: fold_put_at)
qed

definition sample_sort_config :: JsGazelleConfig where
  "sample_sort_config = newRootConfig\<lparr>jc_targets :=
     [\<lparr>tg_name = ''lib'', tg_customSources = [''a.ts''], tg_inheritedSources = [], tg_customAssets = [],
       tg_inheritedAssets = [], tg_visibility = [], tg_testonly = False\<rparr>]\<rparr>"

definition sample_sort_env :: js_env where
  "sample_sort_env = \<lparr>je_dsvalid = (\<lambda>_. True), je_dsmatch = (=), je_label_parse = (\<lambda>v. Inl v)\<rparr>"

lemma sample_sort:
  "is_ok (sort_files sample_sort_env sample_sort_config (\<lambda>_. ('''', None)) [''a.ts'', ''b.txt''] [])"
  by (simp add: sort_files_def Let_def sample_sort_config_def sample_sort_env_def newRootConfig_def
      process_file_def newTargetGlobClassifier_def glob_entries_def group_glob_def rootDirVar_def
      parse_glob_def ParseGlobExpression_def parseGlobExpression_def nonGlobRe_def
      sourceGlobs_def assetGlobs_def path_Ext_def after_last_def isSourceFileExt_def isDataFileExt_def)

theorem files_placed_once_witness:
  "\<exists>fg. sort_files sample_sort_env sample_sort_config (\<lambda>_. ('''', None)) [''a.ts'', ''b.txt''] [] = Inr fg \<and>
     set (fg_generated fg ''lib'') = {}"
proof -
  from sample_sort obtain fg where
    "sort_files sample_sort_env sample_sort_config (\<lambda>_. ('''', None)) [''a.ts'', ''b.txt''] [] = Inr fg"
    unfolding is_ok_iff by blast
  with files_placed_once [OF this] show ?thesis by auto
qed

end
