(* ===== verification/Js_Project.thy ===== *)
theory Js_Project
  imports Js_Sources Js_Configure Ts_Workspace Node_Package
begin

text \<open>
  Generating the rule of one target group (\<open>addProjectRule\<close> and its helpers in
  \<open>language/js/generate.go\<close>, the rule data of \<open>target.go\<close>). The state is what generating the
  rules of a directory changes: the rules of the build file, the language's indexes and caches,
  the reported errors and the result. Third-party operations, the parser of source files and the
  reading of package.json files are the parameters of \<open>gen_env\<close>.
\<close>

section \<open>Data\<close>

record TsProjectInfo =
  pi_groupName :: string
  pi_imports :: "ImportStatement list"
  pi_sources :: "string list"
  pi_staticDeps :: "label list"

record TsPackageInfo = TsProjectInfo +
  pk_source :: "label option"

datatype import_data =
    ProjectInfo TsProjectInfo
  | PackageInfo TsPackageInfo
  | LinkAllPackagesImports

definition newTsProjectInfo :: "string \<Rightarrow> TsProjectInfo" where
  "newTsProjectInfo groupName =
     \<lparr>pi_groupName = groupName, pi_imports = [], pi_sources = [], pi_staticDeps = []\<rparr>"

definition newTsPackageInfo :: "label option \<Rightarrow> TsPackageInfo" where
  "newTsPackageInfo source =
     \<lparr>pi_groupName = '''', pi_imports = [], pi_sources = [], pi_staticDeps = [], pk_source = source\<rparr>"

datatype gen_error =
    NameCollision collision
  | SourceError string
  | AssetsUnsupported string "string list"
  | BadPackageJson string string
  | ProtoError string string

text \<open>
  The parameters: globs and labels, expressions, \<open>label.Rel\<close>, insertion into the two ordered
  sets, opening and decoding of tsconfig files with the loader's fuel, the workspace, the cached
  source parser, the order parallel results arrive in, the cached package.json parser, and the
  text of an error.
\<close>

record gen_env =
  ge_js :: js_env
  ge_bzl :: bzl_api
  ge_rel :: "label \<Rightarrow> string \<Rightarrow> string \<Rightarrow> label"
  ge_addSource :: "string treeset_add"
  ge_addImport :: "ImportStatement treeset_add"
  ge_io :: ts_io
  ge_fuel :: nat
  ge_ws :: TsWorkspace
  ge_parse :: "string \<Rightarrow> parser_result"
  ge_sched :: "parse_result list \<Rightarrow> parse_result list"
  ge_readPackage :: "string \<Rightarrow> string + PackageJson"
  ge_report :: "gen_error \<Rightarrow> string"

text \<open>What a directory's generation is called with, besides its rules.\<close>

record gen_args =
  ga_Repo :: string
  ga_Dir :: string
  ga_RegularFiles :: "string list"
  ga_GenFiles :: "string list"

record gen_state =
  gs_args :: rule_args
  gs_modules :: "string \<Rightarrow> label list"
  gs_packageJsons :: "string \<rightharpoonup> PackageJson"
  gs_configs :: parsed_map
  gs_exts :: exts
  gs_stderr :: "string list"
  gs_gen :: "(rule \<times> import_data) list"
  gs_empty :: "rule list"
  gs_rels :: "string set"

abbreviation gs_rel :: "gen_state \<Rightarrow> string" where
  "gs_rel s \<equiv> ra_Rel (gs_args s)"

abbreviation ge_pnpm :: "gen_env \<Rightarrow> PnpmProjectMap" where
  "ge_pnpm env \<equiv> tw_pnpmProjects (ge_ws env)"

definition AddImport :: "gen_env \<Rightarrow> TsProjectInfo \<Rightarrow> ImportStatement \<Rightarrow> TsProjectInfo" where
  "AddImport env info impt = info\<lparr>pi_imports := ge_addImport env (pi_imports info) impt\<rparr>"

definition AddSource :: "gen_env \<Rightarrow> TsProjectInfo \<Rightarrow> string \<Rightarrow> TsProjectInfo" where
  "AddSource env info f = info\<lparr>pi_sources := ge_addSource env (pi_sources info) f\<rparr>"

definition HasTsx :: "TsProjectInfo \<Rightarrow> bool" where
  "HasTsx info = list_ex (\<lambda>f. isTsxFileExt (path_Ext f)) (pi_sources info)"

definition hasTranspiledSources :: "string list \<Rightarrow> bool" where
  "hasTranspiledSources sourceFiles = list_ex isTranspiledSourceFileType sourceFiles"

section \<open>Package data of a directory\<close>

text \<open>Parsed once; only the directories with a package.json are read.\<close>

definition getPackageJson ::
  "gen_env \<Rightarrow> string \<Rightarrow> gen_state \<Rightarrow> (string + PackageJson option) \<times> gen_state" where
  "getPackageJson env rel s =
     (if \<not> tw_hasPackageJson (ge_ws env) rel then (Inr None, s)
      else case gs_packageJsons s rel of
        Some pkg \<Rightarrow> (Inr (Some pkg), s)
      | None \<Rightarrow>
        (case ge_readPackage env (path_join [rel, NpmPackageFilename]) of
           Inl err \<Rightarrow> (Inl err, s)
         | Inr pkg \<Rightarrow> (Inr (Some pkg), s\<lparr>gs_packageJsons := (gs_packageJsons s)(rel \<mapsto> pkg)\<rparr>)))"

function packageScopeDir :: "TsWorkspace \<Rightarrow> string \<Rightarrow> string option" where
  "packageScopeDir ws rel =
     (if tw_hasPackageJson ws rel then Some rel
      else if rel = '''' then None
      else packageScopeDir ws (TrimSuffix (fst (path_split rel)) ''/''))"
  by pat_completeness auto
termination
  by (relation "measure (length \<circ> snd)")
     (auto simp: parent_of_def [symmetric] path_split_def length_parent_of)

declare packageScopeDir.simps [simp del]

section \<open>Directories to index\<close>

text \<open>The directories one import may need (the body of the loop).\<close>

definition import_rels ::
  "gen_env \<Rightarrow> string option \<Rightarrow> string \<Rightarrow> gen_state \<Rightarrow> ImportStatement \<Rightarrow> gen_state outcome" where
  "import_rels env packageScope groupName s impt =
     (case Workspace_ExpandPaths (ge_fuel env) (ge_io env) (ge_ws env) (gs_configs s)
             (is_SourcePath impt) (is_Imp impt) groupName of
        None \<Rightarrow> Inl OutOfFuel
      | Some (Inl e, _) \<Rightarrow> Inl e
      | Some (Inr paths, configs) \<Rightarrow>
        (let s1 = s\<lparr>gs_configs := configs, gs_rels := gs_rels s \<union> {is_Imp impt} \<union> set paths\<rparr>
         in case packageScope of
              None \<Rightarrow> Inr s1
            | Some scope \<Rightarrow>
              (case getPackageJson env scope s1 of
                 (Inr (Some packageJson), s2) \<Rightarrow>
                   if IsSubpathImport (is_Imp impt) then
                     Inr (s2\<lparr>gs_rels := gs_rels s2 \<union>
                       (\<lambda>t. path_join [scope, t]) `
                         set (filter (\<lambda>t. HasPrefix t ''./'') (ResolveImport packageJson (is_Imp impt)))\<rparr>)
                   else (case ParseImportPath (is_Imp impt) of (impPkg, impSubpath) \<Rightarrow>
                     if impPkg \<noteq> '''' \<and> impPkg = pj_Name packageJson then
                       Inr (s2\<lparr>gs_rels := gs_rels s2 \<union>
                         (\<lambda>t. path_join [scope, t]) ` set (ResolveExport packageJson impSubpath)\<rparr>)
                     else Inr s2)
               | (_, s2) \<Rightarrow> Inr s2)))"

fun imports_rels ::
  "gen_env \<Rightarrow> string option \<Rightarrow> string \<Rightarrow> ImportStatement list \<Rightarrow> gen_state \<Rightarrow> gen_state outcome" where
  "imports_rels env packageScope groupName [] s = Inr s"
| "imports_rels env packageScope groupName (i # is) s =
     (case import_rels env packageScope groupName s i of
        Inl e \<Rightarrow> Inl e | Inr s' \<Rightarrow> imports_rels env packageScope groupName is s')"

text \<open>The directories the pnpm project of a directory refers to.\<close>

definition GetLocalReferences :: "PnpmProjectMap \<Rightarrow> string \<Rightarrow> string set" where
  "GetLocalReferences pm p = ran (pp_references (the (pm_projects pm p)))"

definition tsPackageInfoToRelsToIndex ::
  "gen_env \<Rightarrow> JsGazelleConfig \<Rightarrow> string \<Rightarrow> ImportStatement list \<Rightarrow> gen_state \<Rightarrow> gen_state outcome" where
  "tsPackageInfoToRelsToIndex env c groupName is s =
     (let refs = (case GetProject (ge_pnpm env) (jc_rel c) of
            None \<Rightarrow> {} | Some p \<Rightarrow> GetLocalReferences (ge_pnpm env) p)
      in imports_rels env (packageScopeDir (ge_ws env) (jc_rel c)) groupName is
           (s\<lparr>gs_rels := gs_rels s \<union> refs\<rparr>))"

section \<open>Parsing the sources\<close>

text \<open>
  The parse results in the order they arrive: imports, module declarations and syntax errors, and
  the error of the first file that could not be read, after which nothing more is taken.
\<close>

fun read_results ::
  "gen_env \<Rightarrow> label \<Rightarrow> parse_result list \<Rightarrow> TsProjectInfo \<times> (string \<Rightarrow> label list) \<times> string list \<Rightarrow>
   string option \<times> TsProjectInfo \<times> (string \<Rightarrow> label list) \<times> string list" where
  "read_results env l [] st = (None, st)"
| "read_results env l (r # rs) (info, mods, errs) =
     (case ps_Error r of
        Some e \<Rightarrow> (Some e, info, mods, errs)
      | None \<Rightarrow>
          read_results env l rs
            (foldl (AddImport env) info (ps_Imports r),
             foldl (\<lambda>m d. addModuleDeclaration m d l) mods (ps_Modules r),
             errs @ map (\<lambda>msg. ps_SourcePath r @ '': syntax error: '' @ msg) (ps_SyntaxErrors r)))"

definition reportSyntaxErrors :: "string list \<Rightarrow> gen_state \<Rightarrow> gen_state" where
  "reportSyntaxErrors syntaxErrors s =
     (if syntaxErrors = [] then s else s\<lparr>gs_stderr := gs_stderr s @ SortStrings syntaxErrors\<rparr>)"

definition add_react :: "gen_env \<Rightarrow> TsConfig option \<Rightarrow> TsProjectInfo \<Rightarrow> TsProjectInfo" where
  "add_react env tsconfig info =
     (case tsconfig of
        Some tc \<Rightarrow>
          if IsReact (Jsx tc) \<and> HasTsx info then
            AddImport env info \<lparr>is_Lang = LanguageName, is_Imp = ''react'', is_ImportPath = Jsx tc,
              is_SourcePath = joinPkg (ConfigDir tc) (ConfigName tc), is_Kind = ImportKindNone,
              is_Optional = False, is_TypesOnly = False\<rparr>
          else info
      | None \<Rightarrow> info)"

section \<open>Imported data files\<close>

text \<open>
  The sources and the remaining data files after adding the imported ones; \<open>paths\<close> maps the
  workspace path of a data file to its name.
\<close>

fun claim_data ::
  "gen_env \<Rightarrow> JsGazelleConfig \<Rightarrow> (string \<rightharpoonup> string) \<Rightarrow> ImportStatement list \<Rightarrow>
   TsProjectInfo \<times> string list \<Rightarrow> TsProjectInfo \<times> string list" where
  "claim_data env c paths [] st = st"
| "claim_data env c paths (i # is) (info, dataFiles) =
     claim_data env c paths is
       (case paths (is_Imp i) of
          None \<Rightarrow> (info, dataFiles)
        | Some dataFile \<Rightarrow>
            if isDataFileExt (path_Ext dataFile) \<or> CollectAssetsFrom c (is_Kind i)
            then (AddSource env info dataFile, remove1 dataFile dataFiles)
            else (info, dataFiles))"

definition data_paths :: "string \<Rightarrow> string list \<Rightarrow> (string \<rightharpoonup> string)" where
  "data_paths rel dataFiles = map_of (rev (map (\<lambda>f. (joinPkg rel f, f)) dataFiles))"

text \<open>
  \<open>slices.Delete\<close> shifts the array the caller's slice still sees, and clears its last element:
  what the caller has afterwards.
\<close>

definition callers_data :: "string list \<Rightarrow> string list \<Rightarrow> string list" where
  "callers_data dataFiles remaining =
     remaining @ replicate (length dataFiles - length remaining) ''''"

section \<open>The attributes of the rule\<close>

definition project_kind :: "string list \<Rightarrow> string" where
  "project_kind sources = (if hasTranspiledSources sources then ''ts_project'' else ''js_library'')"

definition is_src :: "string list \<Rightarrow> string \<Rightarrow> bool" where
  "is_src customAssets f =
     (f \<notin> set customAssets \<and> (isSourceFileExt (path_Ext f) \<or> isDataFileExt (path_Ext f)))"

text \<open>\<open>srcs\<close> and \<open>assets\<close>; the error lists the assets a js_library cannot have.\<close>

definition source_attrs ::
  "string \<Rightarrow> string \<Rightarrow> string list \<Rightarrow> string list \<Rightarrow> rule \<Rightarrow> gen_error + rule" where
  "source_attrs ruleKind targetName customAssets sources r =
     (if ruleKind = ''ts_project'' then
        (let assets = filter (\<lambda>f. \<not> is_src customAssets f) sources;
             r1 = SetAttr ''srcs'' (VStrings (filter (is_src customAssets) sources)) r
         in Inr (if assets \<noteq> [] then SetAttr ''assets'' (VStrings assets) r1 else DelAttr ''assets'' r1))
      else if customAssets \<noteq> [] then
        Inl (AssetsUnsupported targetName (SortStrings (remdups customAssets)))
      else Inr (DelAttr ''assets'' (SetAttr ''srcs'' (VStrings sources) r)))"

definition group_attrs :: "string \<Rightarrow> TargetGroup \<Rightarrow> TsConfig option \<Rightarrow> rule \<Rightarrow> rule" where
  "group_attrs ruleKind grp tsconfig r =
     (let r1 = (if tg_testonly grp then SetAttr ''testonly'' (VBool True) r else r);
          r2 = (if tg_visibility grp \<noteq> [] then SetAttr ''visibility'' (VLabels (tg_visibility grp)) r1 else r1)
      in if ruleKind = ''ts_project'' then
           (case Option.bind tsconfig IsolatedDeclarations of
              Some b \<Rightarrow> SetAttr ''isolated_typecheck'' (VBool b) r2 | None \<Rightarrow> r2)
         else DelAttr ''isolated_typecheck'' r2)"

text \<open>The value of each reflected attribute, in the order the code sets them.\<close>

definition JsxPreserve :: string where
  "JsxPreserve = ''preserve''"

definition opt_bool :: "(TsConfig \<Rightarrow> bool option) \<Rightarrow> TsConfig option \<Rightarrow> attr_value option" where
  "opt_bool f tsconfig = map_option VBool (Option.bind tsconfig f)"

definition opt_string :: "(TsConfig \<Rightarrow> string) \<Rightarrow> string list \<Rightarrow> TsConfig option \<Rightarrow> attr_value option" where
  "opt_string f unset tsconfig =
     (case tsconfig of
        Some tc \<Rightarrow> if f tc \<in> set unset then None else Some (VString (f tc))
      | None \<Rightarrow> None)"

definition reflected_attrs ::
  "gen_env \<Rightarrow> string \<Rightarrow> string \<Rightarrow> TsConfig option \<Rightarrow> (string \<times> attr_value option) list" where
  "reflected_attrs env rel tsconfigRel tsconfig =
     [(''tsconfig'', map_option (\<lambda>tc.
         VLabel (ge_rel env (Label '''' tsconfigRel (RenderTsConfigName (ConfigName tc)) False) '''' rel)) tsconfig),
      (''allow_js'', opt_bool AllowJs tsconfig),
      (''composite'', opt_bool Composite tsconfig),
      (''declaration'', opt_bool Declaration tsconfig),
      (''declaration_map'', opt_bool DeclarationMap tsconfig),
      (''emit_declaration_only'', opt_bool DeclarationOnly tsconfig),
      (''source_map'', opt_bool SourceMap tsconfig),
      (''incremental'', opt_bool Incremental tsconfig),
      (''ts_build_info_file'', opt_string TsBuildInfoFile [''''] tsconfig),
      (''no_emit'', opt_bool NoEmit tsconfig),
      (''resolve_json_module'', opt_bool ResolveJsonModule tsconfig),
      (''preserve_jsx'', case tsconfig of
          Some tc \<Rightarrow> if Jsx tc \<noteq> JsxNone then Some (VBool (Jsx tc = JsxPreserve)) else None
        | None \<Rightarrow> None),
      (''out_dir'', opt_string OutDir ['''', ''.''] tsconfig),
      (''declaration_dir'', map_option VString (Option.bind tsconfig DeclarationDir)),
      (''root_dir'', opt_string (\<lambda>tc. tsconfigRootDirRelative (ConfigDir tc) (RootDir tc) rel)
         ['''', ''.''] tsconfig)]"

definition reflect_attr :: "JsGazelleConfig \<Rightarrow> string \<Rightarrow> rule \<Rightarrow> string \<times> attr_value option \<Rightarrow> rule" where
  "reflect_attr c groupName r a =
     (case a of (attr, v) \<Rightarrow>
        if IsTsConfigIgnored c groupName attr then r
        else case v of Some v \<Rightarrow> SetAttr attr v r | None \<Rightarrow> DelAttr attr r)"

definition keep_attr :: "JsGazelleConfig \<Rightarrow> string \<Rightarrow> rule \<Rightarrow> rule \<Rightarrow> string \<Rightarrow> rule" where
  "keep_attr c groupName existing r attr =
     (case ru_attrs existing attr of
        Some v \<Rightarrow> if IsTsConfigIgnored c groupName attr then r else SetAttr attr v r
      | None \<Rightarrow> r)"

text \<open>
  The tsconfig attributes of the generated rule; a rule that is not a ts_project has them deleted,
  from the existing rule if there is one.
\<close>

definition config_attrs ::
  "gen_env \<Rightarrow> JsGazelleConfig \<Rightarrow> string \<Rightarrow> string \<Rightarrow> TsConfig option \<Rightarrow> string \<Rightarrow> string \<Rightarrow> rule option \<Rightarrow>
   rule \<Rightarrow> rule" where
  "config_attrs env c rel tsconfigRel tsconfig groupName ruleKind existing r =
     (if ruleKind \<noteq> ''ts_project'' then
        (case existing of
           None \<Rightarrow> foldl (\<lambda>r a. DelAttr a r) r tsProjectReflectedConfigAttributes
         | Some _ \<Rightarrow> r)
      else if GetTsConfigGenerationEnabled c groupName then
        foldl (reflect_attr c groupName) r (reflected_attrs env rel tsconfigRel tsconfig)
      else (case existing of
              None \<Rightarrow> r
            | Some e \<Rightarrow> foldl (keep_attr c groupName e) r tsProjectReflectedConfigAttributes))"

section \<open>The rule of a group\<close>

text \<open>Mutation of the build file's first rule with a name, through its pointer.\<close>

fun update_rule :: "string \<Rightarrow> (rule \<Rightarrow> rule) \<Rightarrow> rule list \<Rightarrow> rule list" where
  "update_rule n f [] = []"
| "update_rule n f (r # rs) = (if ru_name r = n then f r # rs else r # update_rule n f rs)"

definition update_existing :: "string \<Rightarrow> (rule \<Rightarrow> rule) \<Rightarrow> gen_state \<Rightarrow> gen_state" where
  "update_existing n f s =
     s\<lparr>gs_args := (gs_args s)\<lparr>ra_File := map_option (update_rule n f) (ra_File (gs_args s))\<rparr>\<rparr>"

text \<open>The sources and imports of the rule, before data files are added.\<close>

definition project_info ::
  "gen_env \<Rightarrow> gen_args \<Rightarrow> config_chain \<Rightarrow> string \<Rightarrow> string \<Rightarrow> string list \<Rightarrow> string list \<Rightarrow> string list \<Rightarrow>
   gen_state \<Rightarrow> string option \<times> TsProjectInfo \<times> (string \<Rightarrow> label list) \<times> string list" where
  "project_info env ga cfg groupName targetName sourceFiles genFiles assetFiles s =
     read_results env (Label (ga_Repo ga) (gs_rel s) targetName False)
       (parseFiles cfg (ge_pnpm env) (ge_parse env) (ge_sched env) (gs_rel s) sourceFiles)
       (foldl (AddSource env) (newTsProjectInfo groupName) (sourceFiles @ genFiles @ assetFiles),
        gs_modules s, [])"

text \<open>The result of the call, the caller's data files, and the state.\<close>

definition addProjectRule ::
  "gen_env \<Rightarrow> gen_args \<Rightarrow> config_chain \<Rightarrow> string \<Rightarrow> TsConfig option \<Rightarrow> TargetGroup \<Rightarrow> string \<Rightarrow>
   string list \<Rightarrow> string list \<Rightarrow> string list \<Rightarrow> string list \<Rightarrow> gen_state \<Rightarrow>
   ((gen_error + rule) \<times> string list \<times> gen_state) outcome" where
  "addProjectRule env ga cfg tsconfigRel tsconfig grp targetName sourceFiles genFiles assetFiles
       dataFiles s =
     (let c = hd cfg; rel = gs_rel s; groupName = tg_name grp in
      case CheckCollisionErrors targetName ''ts_project'' sourceRuleKinds (gs_args s) of
        Some col \<Rightarrow> Inr (Inl (NameCollision col), dataFiles, s)
      | None \<Rightarrow>
        (case project_info env ga cfg groupName targetName sourceFiles genFiles assetFiles s of
           (Some e, _, mods, _) \<Rightarrow> Inr (Inl (SourceError e), dataFiles, s\<lparr>gs_modules := mods\<rparr>)
         | (None, info0, mods, errs) \<Rightarrow>
           (let s1 = reportSyntaxErrors errs (s\<lparr>gs_modules := mods\<rparr>);
                info1 = add_react env tsconfig info0;
                (info, remaining) = claim_data env c (data_paths rel dataFiles) (pi_imports info1)
                   (info1, dataFiles);
                callers = callers_data dataFiles remaining;
                existing = GetFileRuleByName (gs_args s1) targetName;
                ruleKind = project_kind (pi_sources info);
                s2 = (case existing of
                        Some e \<Rightarrow> if ru_kind e \<noteq> ruleKind
                                  then update_existing targetName (\<lambda>r. r\<lparr>ru_kind := ruleKind\<rparr>) s1 else s1
                      | None \<Rightarrow> s1)
            in case source_attrs ruleKind targetName assetFiles (pi_sources info) (NewRule ruleKind targetName) of
                 Inl err \<Rightarrow> Inr (Inl err, callers, s2)
               | Inr r1 \<Rightarrow>
                 (let r = config_attrs env c rel tsconfigRel tsconfig groupName ruleKind existing
                            (group_attrs ruleKind grp tsconfig r1);
                      s3 = (if ruleKind \<noteq> ''ts_project'' \<and> existing \<noteq> None
                            then update_existing targetName
                                   (\<lambda>e. foldl (\<lambda>r a. DelAttr a r) e tsProjectReflectedConfigAttributes) s2
                            else s2);
                      s4 = s3\<lparr>gs_gen := gs_gen s3 @ [(r, ProjectInfo info)]\<rparr>
                  in case tsPackageInfoToRelsToIndex env c groupName (pi_imports info) s4 of
                       Inl e \<Rightarrow> Inl e
                     | Inr s5 \<Rightarrow> Inr (Inr r, callers, s5)))))"

section \<open>Lemmas: sources\<close>

lemma AddImport_sources [simp]: "pi_sources (AddImport env info i) = pi_sources info"
  by (simp add: AddImport_def)

lemma AddSource_imports [simp]: "pi_imports (AddSource env info f) = pi_imports info"
  by (simp add: AddSource_def)

lemma foldl_AddImport_sources [simp]: "pi_sources (foldl (AddImport env) info is) = pi_sources info"
  by (induction "is" arbitrary: info) simp_all

lemma foldl_AddSource_imports [simp]: "pi_imports (foldl (AddSource env) info fs) = pi_imports info"
  by (induction fs arbitrary: info) simp_all

lemma read_results_sources:
  "pi_sources (fst (snd (read_results env l rs (info, mods, errs)))) = pi_sources info"
  by (induction env l rs "(info, mods, errs)" arbitrary: info mods errs rule: read_results.induct)
     (simp_all split: option.splits)

lemma read_results_error:
  "fst (read_results env l rs st) = None \<longleftrightarrow> (\<forall>r \<in> set rs. ps_Error r = None)"
  by (induction env l rs st rule: read_results.induct) (auto split: option.splits)

lemma add_react_sources [simp]: "pi_sources (add_react env tsconfig info) = pi_sources info"
  by (simp add: add_react_def split: option.splits)

text \<open>Sources are kept strictly sorted.\<close>

definition sorted_sources :: "string list \<Rightarrow> bool" where
  "sorted_sources fs = sorted_wrt (\<lambda>a b. Compare a b < 0) fs"

lemma add_source:
  assumes "treeset_law Compare (ge_addSource env)" "sorted_sources (pi_sources info)"
  shows "sorted_sources (pi_sources (AddSource env info f))"
    and "set (pi_sources (AddSource env info f)) = insert f (set (pi_sources info))"
  using assms by (auto simp: treeset_law_def sorted_sources_def AddSource_def dest: str_cmp.cmp_eq)

lemma add_sources:
  assumes "treeset_law Compare (ge_addSource env)" "sorted_sources (pi_sources info)"
  shows "sorted_sources (pi_sources (foldl (AddSource env) info fs)) \<and>
         set (pi_sources (foldl (AddSource env) info fs)) = set (pi_sources info) \<union> set fs"
  using assms(2)
  by (induction fs arbitrary: info) (auto simp: add_source [OF assms(1)])

lemma joinPkg_inj: "joinPkg rel f = joinPkg rel g \<longleftrightarrow> f = g"
  by (simp add: joinPkg_def)

lemma data_paths_Some: "data_paths rel fs p = Some f \<longleftrightarrow> f \<in> set fs \<and> joinPkg rel f = p"
proof
  assume "data_paths rel fs p = Some f"
  from map_of_SomeD [OF this [unfolded data_paths_def]] show "f \<in> set fs \<and> joinPkg rel f = p" by auto
next
  assume h: "f \<in> set fs \<and> joinPkg rel f = p"
  then have "p \<in> fst ` set (rev (map (\<lambda>f. (joinPkg rel f, f)) fs))" by (auto simp: image_iff)
  then obtain g where g: "data_paths rel fs p = Some g"
    unfolding data_paths_def by (metis map_of_eq_None_iff not_None_eq)
  from map_of_SomeD [OF this [unfolded data_paths_def]] h have "g = f" by (auto simp: joinPkg_inj)
  with g show "data_paths rel fs p = Some f" by simp
qed

text \<open>The data files that imports claim.\<close>

definition claims :: "JsGazelleConfig \<Rightarrow> string \<Rightarrow> ImportStatement list \<Rightarrow> string \<Rightarrow> bool" where
  "claims c rel is f \<longleftrightarrow>
     (\<exists>i \<in> set is. is_Imp i = joinPkg rel f \<and> (isDataFileExt (path_Ext f) \<or> CollectAssetsFrom c (is_Kind i)))"

lemma claims_simps [simp]:
  "\<not> claims c rel [] f"
  "claims c rel (i # is) f \<longleftrightarrow>
     is_Imp i = joinPkg rel f \<and> (isDataFileExt (path_Ext f) \<or> CollectAssetsFrom c (is_Kind i)) \<or> claims c rel is f"
  by (auto simp: claims_def)

text \<open>Names that are not the blanks left behind by a deletion.\<close>

abbreviation named :: "string list \<Rightarrow> string list" where
  "named fs \<equiv> filter (\<lambda>f. f \<noteq> '''') fs"

lemma named_remove1:
  assumes "distinct (named xs)"
  shows "distinct (named (remove1 x xs)) \<and> (\<forall>f. f \<noteq> '''' \<longrightarrow> (f \<in> set (remove1 x xs) \<longleftrightarrow> f \<in> set xs \<and> f \<noteq> x))"
  using assms
proof (induction xs)
  case (Cons y xs)
  have sub: "f \<in> set (remove1 x xs) \<Longrightarrow> f \<in> set xs" for f
    using set_remove1_subset [of x xs] by blast
  from Cons show ?case by (auto dest: sub)
qed simp

lemma claim_data_claims:
  assumes "treeset_law Compare (ge_addSource env)"
  shows "sorted_sources (pi_sources info) \<Longrightarrow> distinct (named ds) \<Longrightarrow>
    claim_data env c (data_paths rel fs) is (info, ds) = (info', ds') \<Longrightarrow>
    sorted_sources (pi_sources info') \<and> pi_imports info' = pi_imports info \<and>
    set (pi_sources info') = set (pi_sources info) \<union> {f \<in> set fs. claims c rel is f} \<and>
    distinct (named ds') \<and> length ds' \<le> length ds \<and>
    (\<forall>f. f \<noteq> '''' \<longrightarrow> (f \<in> set ds' \<longleftrightarrow> f \<in> set ds \<and> \<not> (f \<in> set fs \<and> claims c rel is f)))"
proof (induction "is" arbitrary: info ds)
  case Nil
  then show ?case by auto
next
  case (Cons i "is")
  show ?case
  proof (cases "\<exists>f. data_paths rel fs (is_Imp i) = Some f \<and>
      (isDataFileExt (path_Ext f) \<or> CollectAssetsFrom c (is_Kind i))")
    case True
    then obtain f where f: "data_paths rel fs (is_Imp i) = Some f"
      "isDataFileExt (path_Ext f) \<or> CollectAssetsFrom c (is_Kind i)" by blast
    then have mem: "f \<in> set fs" "joinPkg rel f = is_Imp i" by (auto simp: data_paths_Some)
    then have eq: "is_Imp i = joinPkg rel g \<longleftrightarrow> g = f" for g using joinPkg_inj [of rel f g] by auto
    have run: "claim_data env c (data_paths rel fs) is (AddSource env info f, remove1 f ds) = (info', ds')"
      using Cons.prems(3) f by simp
    note add = add_source [OF assms Cons.prems(1), of f]
    note rem = named_remove1 [OF Cons.prems(2), of f]
    have "length (remove1 f ds) \<le> length ds" by (simp add: length_remove1)
    with Cons.IH [OF add(1) rem [THEN conjunct1] run] show ?thesis
      using mem(1) f(2) rem by (auto simp: add(2) eq)
  next
    case False
    then have none: "g \<in> set fs \<Longrightarrow> \<not> (is_Imp i = joinPkg rel g \<and>
        (isDataFileExt (path_Ext g) \<or> CollectAssetsFrom c (is_Kind i)))" for g
      by (metis data_paths_Some)
    have "claim_data env c (data_paths rel fs) is (info, ds) = (info', ds')"
      using Cons.prems(3) False by (auto split: option.splits)
    from Cons.IH [OF Cons.prems(1,2) this] none show ?thesis by auto
  qed
qed

section \<open>Lemmas: the generated rule\<close>

text \<open>The sources and imports the rule ends up with, and the data files left.\<close>

definition final_info ::
  "gen_env \<Rightarrow> JsGazelleConfig \<Rightarrow> string \<Rightarrow> TsConfig option \<Rightarrow> TsProjectInfo \<Rightarrow> string list \<Rightarrow>
   TsProjectInfo \<times> string list" where
  "final_info env c rel tsconfig info0 dataFiles =
     (let info1 = add_react env tsconfig info0
      in claim_data env c (data_paths rel dataFiles) (pi_imports info1) (info1, dataFiles))"

text \<open>Computing the directories to index only changes the caches and that set.\<close>

definition only_caches :: "gen_state \<Rightarrow> gen_state \<Rightarrow> bool" where
  "only_caches s s' \<longleftrightarrow>
     s' = s\<lparr>gs_packageJsons := gs_packageJsons s', gs_configs := gs_configs s', gs_rels := gs_rels s'\<rparr>"

lemma only_caches_trans: "only_caches s s1 \<Longrightarrow> only_caches s1 s2 \<Longrightarrow> only_caches s s2"
  unfolding only_caches_def by (cases s; cases s1; cases s2) simp

lemma getPackageJson_caches: "getPackageJson env rel s = (r, s') \<Longrightarrow> only_caches s s'"
  by (auto simp: getPackageJson_def only_caches_def split: if_splits option.splits sum.splits)

lemma import_rels_caches:
  assumes "import_rels env scope g s i = Inr s'"
  shows "only_caches s s'"
proof -
  obtain paths configs where s1:
    "Workspace_ExpandPaths (ge_fuel env) (ge_io env) (ge_ws env) (gs_configs s) (is_SourcePath i) (is_Imp i) g
       = Some (Inr paths, configs)"
    using assms by (auto simp: import_rels_def split: option.splits sum.splits)
  let ?s1 = "s\<lparr>gs_configs := configs, gs_rels := gs_rels s \<union> {is_Imp i} \<union> set paths\<rparr>"
  have one: "only_caches s ?s1" by (simp add: only_caches_def)
  show ?thesis
  proof (cases scope)
    case None
    with assms s1 one show ?thesis by (simp add: import_rels_def Let_def)
  next
    case (Some d)
    obtain r s2 where s2: "getPackageJson env d ?s1 = (r, s2)" by fastforce
    from assms s1 Some s2 have "only_caches s2 s'"
      by (auto simp: import_rels_def Let_def only_caches_def split: sum.splits option.splits if_splits prod.splits)
    with getPackageJson_caches [OF s2] one show ?thesis by (blast intro: only_caches_trans)
  qed
qed

lemma imports_rels_caches: "imports_rels env scope g is s = Inr s' \<Longrightarrow> only_caches s s'"
proof (induction env scope g "is" s rule: imports_rels.induct)
  case (2 env scope g i "is" s)
  then show ?case
    by (auto split: sum.splits intro: only_caches_trans dest: import_rels_caches)
qed (simp add: only_caches_def)

lemma tsPackageInfo_caches:
  "tsPackageInfoToRelsToIndex env c g is s = Inr s' \<Longrightarrow> only_caches s s'"
  unfolding tsPackageInfoToRelsToIndex_def Let_def
  by (drule imports_rels_caches) (erule only_caches_trans [rotated], simp add: only_caches_def)

lemma only_caches_gen: "only_caches s s' \<Longrightarrow> gs_gen s' = gs_gen s \<and> gs_args s' = gs_args s"
  unfolding only_caches_def by (cases s; cases s') simp

lemma update_existing_gen [simp]:
  "gs_gen (update_existing n f s) = gs_gen s" "gs_rel (update_existing n f s) = gs_rel s"
  by (simp_all add: update_existing_def)

lemma reportSyntaxErrors_gen [simp]:
  "gs_gen (reportSyntaxErrors errs s) = gs_gen s" "gs_args (reportSyntaxErrors errs s) = gs_args s"
  by (simp_all add: reportSyntaxErrors_def)

lemma addProjectRule_cases:
  assumes "addProjectRule env ga cfg tsconfigRel tsconfig grp n srcs gens assets ds s = Inr (res, callers, s')"
  obtains (collision) col where
      "CheckCollisionErrors n ''ts_project'' sourceRuleKinds (gs_args s) = Some col"
      "res = Inl (NameCollision col)" "callers = ds" "s' = s"
  | (unreadable) e rest where
      "CheckCollisionErrors n ''ts_project'' sourceRuleKinds (gs_args s) = None"
      "project_info env ga cfg (tg_name grp) n srcs gens assets s = (Some e, rest)"
      "res = Inl (SourceError e)" "callers = ds" "gs_gen s' = gs_gen s"
  | (assets) info0 mods errs info remaining e where
      "CheckCollisionErrors n ''ts_project'' sourceRuleKinds (gs_args s) = None"
      "project_info env ga cfg (tg_name grp) n srcs gens assets s = (None, info0, mods, errs)"
      "final_info env (hd cfg) (gs_rel s) tsconfig info0 ds = (info, remaining)"
      "source_attrs (project_kind (pi_sources info)) n assets (pi_sources info)
         (NewRule (project_kind (pi_sources info)) n) = Inl e"
      "res = Inl e" "callers = callers_data ds remaining" "gs_gen s' = gs_gen s"
  | (generated) info0 mods errs info remaining r1 r where
      "CheckCollisionErrors n ''ts_project'' sourceRuleKinds (gs_args s) = None"
      "project_info env ga cfg (tg_name grp) n srcs gens assets s = (None, info0, mods, errs)"
      "final_info env (hd cfg) (gs_rel s) tsconfig info0 ds = (info, remaining)"
      "source_attrs (project_kind (pi_sources info)) n assets (pi_sources info)
         (NewRule (project_kind (pi_sources info)) n) = Inr r1"
      "r = config_attrs env (hd cfg) (gs_rel s) tsconfigRel tsconfig (tg_name grp)
         (project_kind (pi_sources info)) (GetFileRuleByName (gs_args s) n)
         (group_attrs (project_kind (pi_sources info)) grp tsconfig r1)"
      "res = Inr r" "callers = callers_data ds remaining"
      "gs_gen s' = gs_gen s @ [(r, ProjectInfo info)]" "gs_rel s' = gs_rel s"
proof -
  show ?thesis
  proof (cases "CheckCollisionErrors n ''ts_project'' sourceRuleKinds (gs_args s)")
    case (Some col)
    with assms show ?thesis by (intro collision) (auto simp: addProjectRule_def Let_def)
  next
    case none: None
    obtain e info0 mods errs where pi:
      "project_info env ga cfg (tg_name grp) n srcs gens assets s = (e, info0, mods, errs)"
      by (cases "project_info env ga cfg (tg_name grp) n srcs gens assets s") auto
    show ?thesis
    proof (cases e)
      case (Some err)
      with assms none pi show ?thesis by (intro unreadable) (auto simp: addProjectRule_def Let_def)
    next
      case None
      obtain info remaining where fi:
        "final_info env (hd cfg) (gs_rel s) tsconfig info0 ds = (info, remaining)" by fastforce
      have fi': "claim_data env (hd cfg) (data_paths (gs_rel s) ds) (pi_imports (add_react env tsconfig info0))
          (add_react env tsconfig info0, ds) = (info, remaining)"
        using fi by (simp add: final_info_def Let_def)
      have args: "gs_args (reportSyntaxErrors errs (s\<lparr>gs_modules := mods\<rparr>)) = gs_args s"
        by (simp add: reportSyntaxErrors_def)
      note eq = assms [unfolded addProjectRule_def Let_def none option.case pi None prod.case fi' args]
      show ?thesis
      proof (cases "source_attrs (project_kind (pi_sources info)) n assets (pi_sources info)
          (NewRule (project_kind (pi_sources info)) n)")
        case (Inl x)
        with eq None none pi fi show ?thesis by (intro assets [OF none pi [unfolded None] fi Inl]) (auto split: option.splits)
      next
        case (Inr r1)
        with eq None none pi fi show ?thesis
          by (intro generated [OF none pi [unfolded None] fi Inr refl])
             (auto split: sum.splits option.splits if_splits dest!: tsPackageInfo_caches only_caches_gen)
      qed
    qed
  qed
qed

lemma final_info_sources:
  assumes "treeset_law Compare (ge_addSource env)" "distinct (named ds)"
    and "project_info env ga cfg g n srcs gens assets s = (None, info0, mods, errs)"
    and "final_info env c (gs_rel s) tsconfig info0 ds = (info, remaining)"
  shows "sorted_sources (pi_sources info)"
    and "set (pi_sources info) =
       set (srcs @ gens @ assets) \<union> {f \<in> set ds. claims c (gs_rel s) (pi_imports info) f}"
    and "distinct (named remaining)" "length remaining \<le> length ds"
    and "\<And>f. f \<noteq> '''' \<Longrightarrow>
       f \<in> set remaining \<longleftrightarrow> f \<in> set ds \<and> \<not> claims c (gs_rel s) (pi_imports info) f"
proof -
  let ?info = "add_react env tsconfig info0"
  let ?files = "foldl (AddSource env) (newTsProjectInfo g) (srcs @ gens @ assets)"
  have empty: "sorted_sources (pi_sources (newTsProjectInfo g))" "pi_sources (newTsProjectInfo g) = []"
    by (simp_all add: newTsProjectInfo_def sorted_sources_def)
  have "pi_sources info0 = pi_sources ?files"
    using read_results_sources [of env _ _ ?files "gs_modules s" "[]"] assms(3)
    unfolding project_info_def by (metis fst_conv snd_conv)
  then have files: "sorted_sources (pi_sources ?info)" "set (pi_sources ?info) = set (srcs @ gens @ assets)"
    using add_sources [OF assms(1) empty(1), of "srcs @ gens @ assets"] empty(2) by simp_all
  have run: "claim_data env c (data_paths (gs_rel s) ds) (pi_imports ?info) (?info, ds) = (info, remaining)"
    using assms(4) by (simp add: final_info_def Let_def)
  note claimed = claim_data_claims [OF assms(1) files(1) assms(2) run]
  show "sorted_sources (pi_sources info)"
    "set (pi_sources info) = set (srcs @ gens @ assets) \<union> {f \<in> set ds. claims c (gs_rel s) (pi_imports info) f}"
    "distinct (named remaining)" "length remaining \<le> length ds"
    using claimed files(2) by simp_all
  show "f \<noteq> '''' \<Longrightarrow>
      f \<in> set remaining \<longleftrightarrow> f \<in> set ds \<and> \<not> claims c (gs_rel s) (pi_imports info) f" for f
    using claimed by auto
qed

lemma foldl_untouched:
  assumes "\<And>r a. a \<in> set as \<Longrightarrow> ru_attrs (f r a) k = ru_attrs r k \<and> ru_kind (f r a) = ru_kind r"
  shows "ru_attrs (foldl f r as) k = ru_attrs r k \<and> ru_kind (foldl f r as) = ru_kind r"
  using assms by (induction as arbitrary: r) simp_all

lemma reflected_names:
  "map fst (reflected_attrs env rel tsconfigRel tsconfig) =
     [''tsconfig'', ''allow_js'', ''composite'', ''declaration'', ''declaration_map'',
      ''emit_declaration_only'', ''source_map'', ''incremental'', ''ts_build_info_file'', ''no_emit'',
      ''resolve_json_module'', ''preserve_jsx'', ''out_dir'', ''declaration_dir'', ''root_dir'']"
  by (simp add: reflected_attrs_def)

lemma reflected_set:
  "fst ` set (reflected_attrs env rel tsconfigRel tsconfig) = set tsProjectReflectedConfigAttributes"
proof -
  have "fst ` set (reflected_attrs env rel tsconfigRel tsconfig) =
      set (map fst (reflected_attrs env rel tsconfigRel tsconfig))" by simp
  also have "\<dots> = set tsProjectReflectedConfigAttributes"
    unfolding reflected_names tsProjectReflectedConfigAttributes_def by auto
  finally show ?thesis .
qed

lemma reflect_attr_other:
  "k \<noteq> fst a \<Longrightarrow> ru_attrs (reflect_attr c g r a) k = ru_attrs r k"
  "ru_kind (reflect_attr c g r a) = ru_kind r"
  by (auto simp: reflect_attr_def split: prod.splits option.splits)

lemma keep_attr_other:
  "k \<noteq> a \<Longrightarrow> ru_attrs (keep_attr c g e r a) k = ru_attrs r k" "ru_kind (keep_attr c g e r a) = ru_kind r"
  by (auto simp: keep_attr_def split: option.splits)

lemma config_attrs_other:
  assumes "k \<notin> set tsProjectReflectedConfigAttributes"
  shows "ru_attrs (config_attrs env c rel tr tsconfig g kind existing r) k = ru_attrs r k \<and>
         ru_kind (config_attrs env c rel tr tsconfig g kind existing r) = ru_kind r"
proof -
  have 1: "ru_attrs (foldl (\<lambda>r a. DelAttr a r) r tsProjectReflectedConfigAttributes) k = ru_attrs r k \<and>
      ru_kind (foldl (\<lambda>r a. DelAttr a r) r tsProjectReflectedConfigAttributes) = ru_kind r"
    by (rule foldl_untouched) (use assms in auto)
  have 2: "ru_attrs (foldl (reflect_attr c g) r (reflected_attrs env rel tr tsconfig)) k = ru_attrs r k \<and>
      ru_kind (foldl (reflect_attr c g) r (reflected_attrs env rel tr tsconfig)) = ru_kind r"
  proof (rule foldl_untouched)
    fix r a
    assume "a \<in> set (reflected_attrs env rel tr tsconfig)"
    then have "k \<noteq> fst a" using assms reflected_set [of env rel tr tsconfig] by auto
    then show "ru_attrs (reflect_attr c g r a) k = ru_attrs r k \<and> ru_kind (reflect_attr c g r a) = ru_kind r"
      by (simp add: reflect_attr_other)
  qed
  have 3: "ru_attrs (foldl (keep_attr c g e) r tsProjectReflectedConfigAttributes) k = ru_attrs r k \<and>
      ru_kind (foldl (keep_attr c g e) r tsProjectReflectedConfigAttributes) = ru_kind r" for e
    using assms by (intro foldl_untouched) (metis keep_attr_other)
  from 1 2 3 show ?thesis by (simp add: config_attrs_def split: option.splits)
qed

lemma group_attrs_other:
  "k \<notin> {''testonly'', ''visibility'', ''isolated_typecheck''} \<Longrightarrow>
     ru_attrs (group_attrs kind grp tsconfig r) k = ru_attrs r k"
  "ru_kind (group_attrs kind grp tsconfig r) = ru_kind r"
  by (auto simp: group_attrs_def Let_def split: option.splits)

lemma source_attrs_Inr:
  assumes "source_attrs kind n customAssets sources (NewRule kind n) = Inr r"
  shows "ru_kind r = kind \<and> ru_name r = n \<and>
    (\<exists>srcs assets. ru_attrs r ''srcs'' = Some (VStrings srcs) \<and>
       ru_attrs r ''assets'' = (if assets = [] then None else Some (VStrings assets)) \<and>
       set srcs \<union> set assets = set sources \<and> set srcs \<inter> (set assets \<union> set customAssets) = {} \<and>
       (kind \<noteq> ''ts_project'' \<longrightarrow> assets = [] \<and> srcs = sources))"
proof (cases "kind = ''ts_project''")
  case True
  let ?assets = "filter (\<lambda>f. \<not> is_src customAssets f) sources"
  from assms [symmetric] have "r = (if ?assets \<noteq> [] then SetAttr ''assets'' (VStrings ?assets)
      (SetAttr ''srcs'' (VStrings (filter (is_src customAssets) sources)) (NewRule kind n))
      else DelAttr ''assets'' (SetAttr ''srcs'' (VStrings (filter (is_src customAssets) sources)) (NewRule kind n)))"
    unfolding source_attrs_def Let_def True by (simp only: if_True simp_thms sum.inject)
  then show ?thesis using True
    by (intro conjI exI [of _ "filter (is_src customAssets) sources"] exI [of _ ?assets])
       (auto simp: is_src_def)
next
  case False
  with assms have "customAssets = []" "r = DelAttr ''assets'' (SetAttr ''srcs'' (VStrings sources) (NewRule kind n))"
    by (auto simp: source_attrs_def split: if_splits)
  then show ?thesis using False by simp
qed

lemma untouched_names:
  "''srcs'' \<notin> set tsProjectReflectedConfigAttributes" "''assets'' \<notin> set tsProjectReflectedConfigAttributes"
  by (simp_all add: tsProjectReflectedConfigAttributes_def)

lemma generated_rule_files:
  assumes "treeset_law Compare (ge_addSource env)" "distinct (named ds)"
    and "addProjectRule env ga cfg tsconfigRel tsconfig grp n srcs gens assets ds s = Inr (Inr r, callers, s')"
  shows "\<exists>info rsrcs rassets.
    gs_gen s' = gs_gen s @ [(r, ProjectInfo info)] \<and>
    set (pi_sources info) =
      set (srcs @ gens @ assets) \<union> {f \<in> set ds. claims (hd cfg) (gs_rel s) (pi_imports info) f} \<and>
    sorted_sources (pi_sources info) \<and>
    ru_kind r = (if \<exists>f \<in> set (pi_sources info). isTranspiledSourceFileType f
                 then ''ts_project'' else ''js_library'') \<and>
    ru_attrs r ''srcs'' = Some (VStrings rsrcs) \<and>
    ru_attrs r ''assets'' = (if rassets = [] then None else Some (VStrings rassets)) \<and>
    set rsrcs \<union> set rassets = set (pi_sources info) \<and>
    set rsrcs \<inter> (set rassets \<union> set assets) = {} \<and>
    (ru_kind r = ''js_library'' \<longrightarrow> rassets = []) \<and>
    length callers = length ds \<and>
    set (named callers) = {f \<in> set (named ds). \<not> claims (hd cfg) (gs_rel s) (pi_imports info) f}"
  using assms(3)
proof (cases rule: addProjectRule_cases)
  case (generated info0 mods errs info remaining r1 r')
  let ?kind = "project_kind (pi_sources info)"
  note files = final_info_sources [OF assms(1,2) generated(2,3)]
  from source_attrs_Inr [OF generated(4)] obtain rsrcs rassets where r1:
    "ru_kind r1 = ?kind" "ru_attrs r1 ''srcs'' = Some (VStrings rsrcs)"
    "ru_attrs r1 ''assets'' = (if rassets = [] then None else Some (VStrings rassets))"
    "set rsrcs \<union> set rassets = set (pi_sources info)" "set rsrcs \<inter> (set rassets \<union> set assets) = {}"
    "?kind \<noteq> ''ts_project'' \<longrightarrow> rassets = []" by blast
  have r: "r = config_attrs env (hd cfg) (gs_rel s) tsconfigRel tsconfig (tg_name grp) ?kind
      (GetFileRuleByName (gs_args s) n) (group_attrs ?kind grp tsconfig r1)"
    using generated(5,6) by simp
  have attrs: "ru_attrs r ''srcs'' = ru_attrs r1 ''srcs''" "ru_attrs r ''assets'' = ru_attrs r1 ''assets''"
    "ru_kind r = ?kind"
    unfolding r using r1(1) by (simp_all add: config_attrs_other [OF untouched_names(1)]
        config_attrs_other [OF untouched_names(2)] group_attrs_other)
  have "set (named callers) = {f \<in> set (named ds). \<not> claims (hd cfg) (gs_rel s) (pi_imports info) f}"
    unfolding generated(7) callers_data_def using files(5) by auto
  moreover have "length callers = length ds"
    unfolding generated(7) callers_data_def using files(4) by simp
  moreover have "ru_kind r = (if \<exists>f \<in> set (pi_sources info). isTranspiledSourceFileType f
      then ''ts_project'' else ''js_library'')"
    unfolding attrs(3) project_kind_def hasTranspiledSources_def list_ex_iff ..
  moreover have "ru_kind r = ''js_library'' \<longrightarrow> rassets = []"
    using r1(6) attrs(3) by auto
  moreover have "gs_gen s' = gs_gen s @ [(r, ProjectInfo info)]"
    using generated(6,8) by simp
  ultimately show ?thesis
    using files(1,2) r1(2-5) attrs(1,2)
    by (intro exI [of _ info] exI [of _ rsrcs] exI [of _ rassets] conjI) simp_all
qed simp_all

lemma generated_rule_state:
  assumes "treeset_law Compare (ge_addSource env)" "distinct (named ds)"
    and "addProjectRule env ga cfg tsconfigRel tsconfig grp n srcs gens assets ds s = Inr (Inr r, callers, s')"
  shows "distinct (named callers) \<and> gs_rel s' = gs_rel s"
  using assms(3)
proof (cases rule: addProjectRule_cases)
  case (generated info0 mods errs info remaining r1 r')
  have "named callers = named remaining"
    by (simp add: generated(7) callers_data_def)
  with final_info_sources(3) [OF assms(1,2) generated(2,3)] generated(9) show ?thesis by simp
qed simp_all

text \<open>
  C23 (functional). A generated rule has exactly the sources, generated sources and assets of its
  group plus the data files its imports claim, sorted: a ts_project exactly when one of them is
  transpiled; its \<open>srcs\<close> and \<open>assets\<close> divide them, assets of custom globs never are \<open>srcs\<close>, a
  js_library has no assets; and of the caller's data files exactly the claimed ones are gone,
  blanks taking their place.
\<close>

theorem project_rule_files:
  assumes "treeset_law Compare (ge_addSource env)" "distinct (named ds)"
    and "addProjectRule env ga cfg tsconfigRel tsconfig grp n srcs gens assets ds s = Inr (Inr r, callers, s')"
  shows "\<exists>info rsrcs rassets.
    gs_gen s' = gs_gen s @ [(r, ProjectInfo info)] \<and>
    set (pi_sources info) =
      set (srcs @ gens @ assets) \<union> {f \<in> set ds. claims (hd cfg) (gs_rel s) (pi_imports info) f} \<and>
    sorted_sources (pi_sources info) \<and>
    ru_kind r = (if \<exists>f \<in> set (pi_sources info). isTranspiledSourceFileType f
                 then ''ts_project'' else ''js_library'') \<and>
    ru_attrs r ''srcs'' = Some (VStrings rsrcs) \<and>
    ru_attrs r ''assets'' = (if rassets = [] then None else Some (VStrings rassets)) \<and>
    set rsrcs \<union> set rassets = set (pi_sources info) \<and>
    set rsrcs \<inter> (set rassets \<union> set assets) = {} \<and>
    (ru_kind r = ''js_library'' \<longrightarrow> rassets = []) \<and>
    length callers = length ds \<and>
    set (named callers) = {f \<in> set (named ds). \<not> claims (hd cfg) (gs_rel s) (pi_imports info) f}"
  by (rule generated_rule_files [OF assms])

lemma parse_errors:
  assumes "\<And>xs. set (ge_sched env xs) = set xs"
  shows "(fst (project_info env ga cfg g n srcs gens assets s) = None) =
    (\<forall>f \<in> set srcs. isSourceFileExt (path_Ext f) \<longrightarrow> pr_Err (ge_parse env (joinPkg (gs_rel s) f)) = None)"
  by (auto simp: project_info_def read_results_error parseFiles_def assms collectImports_def Let_def)

lemma read_results_origin:
  "fst (read_results env l rs st) = Some e \<Longrightarrow> \<exists>r \<in> set rs. ps_Error r = Some e"
  by (induction env l rs st rule: read_results.induct) (auto split: option.splits)

lemma parse_error_origin:
  assumes "\<And>xs. set (ge_sched env xs) = set xs"
    and "project_info env ga cfg g n srcs gens assets s = (Some e, rest)"
  shows "\<exists>f \<in> set srcs. isSourceFileExt (path_Ext f) \<and> pr_Err (ge_parse env (joinPkg (gs_rel s) f)) = Some e"
proof -
  from assms(2) have "fst (project_info env ga cfg g n srcs gens assets s) = Some e" by simp
  from read_results_origin [OF this [unfolded project_info_def]] show ?thesis
    by (auto simp: parseFiles_def assms(1) collectImports_def Let_def)
qed

text \<open>
  The imports of the rule: what the parsed sources import, and react where the tsconfig asks for it;
  and its files: those of the group and the data files these imports claim.
\<close>

definition project_imports ::
  "gen_env \<Rightarrow> gen_args \<Rightarrow> config_chain \<Rightarrow> TsConfig option \<Rightarrow> TargetGroup \<Rightarrow> string \<Rightarrow> string list \<Rightarrow>
   string list \<Rightarrow> string list \<Rightarrow> gen_state \<Rightarrow> ImportStatement list" where
  "project_imports env ga cfg tsconfig grp n srcs gens assets s =
     pi_imports (add_react env tsconfig (fst (snd (project_info env ga cfg (tg_name grp) n srcs gens assets s))))"

definition project_files ::
  "gen_env \<Rightarrow> gen_args \<Rightarrow> config_chain \<Rightarrow> TsConfig option \<Rightarrow> TargetGroup \<Rightarrow> string \<Rightarrow> string list \<Rightarrow>
   string list \<Rightarrow> string list \<Rightarrow> string list \<Rightarrow> gen_state \<Rightarrow> string set" where
  "project_files env ga cfg tsconfig grp n srcs gens assets ds s =
     set (srcs @ gens @ assets) \<union>
     {f \<in> set ds. claims (hd cfg) (gs_rel s) (project_imports env ga cfg tsconfig grp n srcs gens assets s) f}"

lemma final_info_files:
  assumes "treeset_law Compare (ge_addSource env)" "distinct (named ds)"
    and "project_info env ga cfg (tg_name grp) n srcs gens assets s = (None, info0, mods, errs)"
    and "final_info env (hd cfg) (gs_rel s) tsconfig info0 ds = (info, remaining)"
  shows "pi_imports info = project_imports env ga cfg tsconfig grp n srcs gens assets s"
    and "set (pi_sources info) = project_files env ga cfg tsconfig grp n srcs gens assets ds s"
proof -
  let ?info = "add_react env tsconfig info0"
  let ?files = "foldl (AddSource env) (newTsProjectInfo (tg_name grp)) (srcs @ gens @ assets)"
  have "pi_sources info0 = pi_sources ?files"
    using read_results_sources [of env _ _ ?files "gs_modules s" "[]"] assms(3)
    unfolding project_info_def by (metis fst_conv snd_conv)
  then have sorted: "sorted_sources (pi_sources ?info)"
    using add_sources [OF assms(1), of "newTsProjectInfo (tg_name grp)" "srcs @ gens @ assets"]
    by (simp add: newTsProjectInfo_def sorted_sources_def)
  have run: "claim_data env (hd cfg) (data_paths (gs_rel s) ds) (pi_imports ?info) (?info, ds) = (info, remaining)"
    using assms(4) by (simp add: final_info_def Let_def)
  show imps: "pi_imports info = project_imports env ga cfg tsconfig grp n srcs gens assets s"
    using claim_data_claims [OF assms(1) sorted assms(2) run] assms(3) by (simp add: project_imports_def)
  show "set (pi_sources info) = project_files env ga cfg tsconfig grp n srcs gens assets ds s"
    using final_info_sources(2) [OF assms] by (simp add: imps project_files_def)
qed

lemma stopped_at:
  assumes "(case tsPackageInfoToRelsToIndex env c g is t of Inl e \<Rightarrow> Inl e | Inr s5 \<Rightarrow> Inr (h s5)) = Inl x" "P t"
  shows "\<exists>t. P t \<and> tsPackageInfoToRelsToIndex env c g is t = Inl x"
  using assms by (auto split: sum.splits)

text \<open>Only computing the directories to index can stop the call.\<close>

lemma addProjectRule_stops:
  assumes "treeset_law Compare (ge_addSource env)" "distinct (named ds)"
    and "addProjectRule env ga cfg tsconfigRel tsconfig grp n srcs gens assets ds s = Inl x"
  obtains info0 mods errs info remaining r1 t where
    "CheckCollisionErrors n ''ts_project'' sourceRuleKinds (gs_args s) = None"
    "project_info env ga cfg (tg_name grp) n srcs gens assets s = (None, info0, mods, errs)"
    "final_info env (hd cfg) (gs_rel s) tsconfig info0 ds = (info, remaining)"
    "source_attrs (project_kind (pi_sources info)) n assets (pi_sources info)
       (NewRule (project_kind (pi_sources info)) n) = Inr r1"
    "gs_configs t = gs_configs s" "gs_packageJsons t = gs_packageJsons s"
    "tsPackageInfoToRelsToIndex env (hd cfg) (tg_name grp)
       (project_imports env ga cfg tsconfig grp n srcs gens assets s) t = Inl x"
proof -
  from assms(3) have none: "CheckCollisionErrors n ''ts_project'' sourceRuleKinds (gs_args s) = None"
    by (auto simp: addProjectRule_def Let_def split: option.splits)
  obtain e info0 mods errs where pi:
    "project_info env ga cfg (tg_name grp) n srcs gens assets s = (e, info0, mods, errs)"
    by (cases "project_info env ga cfg (tg_name grp) n srcs gens assets s") auto
  from assms(3) none pi have "e = None"
    by (cases e) (auto simp: addProjectRule_def Let_def)
  note pi = pi [unfolded this]
  obtain info remaining where fi:
    "final_info env (hd cfg) (gs_rel s) tsconfig info0 ds = (info, remaining)" by fastforce
  have fi': "claim_data env (hd cfg) (data_paths (gs_rel s) ds) (pi_imports (add_react env tsconfig info0))
      (add_react env tsconfig info0, ds) = (info, remaining)"
    using fi by (simp add: final_info_def Let_def)
  note eq = assms(3) [unfolded addProjectRule_def Let_def none option.case pi prod.case fi']
  from eq obtain r1 where sa: "source_attrs (project_kind (pi_sources info)) n assets (pi_sources info)
      (NewRule (project_kind (pi_sources info)) n) = Inr r1"
    by (auto split: sum.splits)
  note eq = eq [unfolded sa sum.case, folded final_info_files(1) [OF assms(1,2) pi fi]]
  have same: "gs_configs (reportSyntaxErrors errs s1) = gs_configs s1"
    "gs_packageJsons (reportSyntaxErrors errs s1) = gs_packageJsons s1"
    "gs_configs (update_existing n f s1) = gs_configs s1"
    "gs_packageJsons (update_existing n f s1) = gs_packageJsons s1" for f s1
    by (simp_all add: reportSyntaxErrors_def update_existing_def)
  have "\<exists>t. (gs_configs t = gs_configs s \<and> gs_packageJsons t = gs_packageJsons s) \<and>
      tsPackageInfoToRelsToIndex env (hd cfg) (tg_name grp) (pi_imports info) t = Inl x"
    by (rule stopped_at [OF eq]) (simp add: same split: option.split)
  then obtain t where "gs_configs t = gs_configs s" "gs_packageJsons t = gs_packageJsons s"
    "tsPackageInfoToRelsToIndex env (hd cfg) (tg_name grp) (pi_imports info) t = Inl x" by blast
  with none pi fi sa that show ?thesis
    by (simp add: final_info_files(1) [OF assms(1,2) pi fi])
qed

lemma source_attrs_Inl:
  "source_attrs (project_kind sources) n assets sources r = Inl e \<longleftrightarrow>
     assets \<noteq> [] \<and> \<not> (\<exists>f \<in> set sources. isTranspiledSourceFileType f) \<and>
     e = AssetsUnsupported n (SortStrings (remdups assets))"
  by (auto simp: source_attrs_def Let_def project_kind_def hasTranspiledSources_def list_ex_iff)

text \<open>
  C37 (error). Generating a rule fails for a foreign rule of its name; else for a source file that
  cannot be read, with the error of such a file; else when the group has asset files and none of
  its files, the data files its imports claim included, is transpiled, naming the assets; and in
  no other case. A failed call adds no rule, and the first two leave the data files alone. The
  rule is generated otherwise, except that loading a tsconfig to compute the directories to index
  may stop the process.
\<close>

theorem project_rule_errors:
  assumes "treeset_law Compare (ge_addSource env)" "\<And>xs. set (ge_sched env xs) = set xs"
    and "distinct (named ds)"
  shows
    "case CheckCollisionErrors n ''ts_project'' sourceRuleKinds (gs_args s) of
       Some col \<Rightarrow>
         addProjectRule env ga cfg tsconfigRel tsconfig grp n srcs gens assets ds s =
           Inr (Inl (NameCollision col), ds, s)
     | None \<Rightarrow>
         if \<exists>f \<in> set srcs. isSourceFileExt (path_Ext f) \<and> pr_Err (ge_parse env (joinPkg (gs_rel s) f)) \<noteq> None
         then \<exists>f \<in> set srcs. \<exists>e s'.
           isSourceFileExt (path_Ext f) \<and> pr_Err (ge_parse env (joinPkg (gs_rel s) f)) = Some e \<and>
           addProjectRule env ga cfg tsconfigRel tsconfig grp n srcs gens assets ds s =
             Inr (Inl (SourceError e), ds, s') \<and> gs_gen s' = gs_gen s
         else if assets \<noteq> [] \<and>
           \<not> (\<exists>f \<in> project_files env ga cfg tsconfig grp n srcs gens assets ds s. isTranspiledSourceFileType f)
         then \<exists>callers s'.
           addProjectRule env ga cfg tsconfigRel tsconfig grp n srcs gens assets ds s =
             Inr (Inl (AssetsUnsupported n (SortStrings (remdups assets))), callers, s') \<and> gs_gen s' = gs_gen s
         else
           (\<exists>r info callers s'.
              addProjectRule env ga cfg tsconfigRel tsconfig grp n srcs gens assets ds s =
                Inr (Inr r, callers, s') \<and> gs_gen s' = gs_gen s @ [(r, ProjectInfo info)]) \<or>
           (\<exists>stop t. gs_configs t = gs_configs s \<and> gs_packageJsons t = gs_packageJsons s \<and>
              tsPackageInfoToRelsToIndex env (hd cfg) (tg_name grp)
                (project_imports env ga cfg tsconfig grp n srcs gens assets s) t = Inl stop \<and>
              addProjectRule env ga cfg tsconfigRel tsconfig grp n srcs gens assets ds s = Inl stop)"
proof (cases "addProjectRule env ga cfg tsconfigRel tsconfig grp n srcs gens assets ds s")
  case (Inl stop)
  from addProjectRule_stops [OF assms(1,3) this] obtain info0 mods errs info remaining r1 t where stops:
    "CheckCollisionErrors n ''ts_project'' sourceRuleKinds (gs_args s) = None"
    "project_info env ga cfg (tg_name grp) n srcs gens assets s = (None, info0, mods, errs)"
    "final_info env (hd cfg) (gs_rel s) tsconfig info0 ds = (info, remaining)"
    "source_attrs (project_kind (pi_sources info)) n assets (pi_sources info)
       (NewRule (project_kind (pi_sources info)) n) = Inr r1"
    "gs_configs t = gs_configs s" "gs_packageJsons t = gs_packageJsons s"
    "tsPackageInfoToRelsToIndex env (hd cfg) (tg_name grp)
       (project_imports env ga cfg tsconfig grp n srcs gens assets s) t = Inl stop" by blast
  have "assets = [] \<or> (\<exists>f \<in> set (pi_sources info). isTranspiledSourceFileType f)"
    using stops(4) source_attrs_Inl [of "pi_sources info" n assets] by (metis Inl_Inr_False)
  with stops Inl parse_errors [OF assms(2), of ga cfg "tg_name grp" n srcs gens assets s]
  show ?thesis by (auto simp: final_info_files(2) [OF assms(1,3) stops(2,3)])
next
  case (Inr out)
  obtain res callers s' where run:
    "addProjectRule env ga cfg tsconfigRel tsconfig grp n srcs gens assets ds s = Inr (res, callers, s')"
    using Inr by (cases out) auto
  then show ?thesis
  proof (cases rule: addProjectRule_cases)
    case (collision col)
    with run show ?thesis by simp
  next
    case (unreadable e rest)
    from parse_error_origin [OF assms(2) unreadable(2)] obtain f where
      "f \<in> set srcs" "isSourceFileExt (path_Ext f)" "pr_Err (ge_parse env (joinPkg (gs_rel s) f)) = Some e"
      by blast
    with unreadable run show ?thesis by auto
  next
    case (assets info0 mods errs info remaining e)
    note files = final_info_files(2) [OF assms(1,3) assets(2,3)]
    from assets parse_errors [OF assms(2), of ga cfg "tg_name grp" n srcs gens assets s]
      assets(4) [unfolded source_attrs_Inl files] run
    show ?thesis by auto
  next
    case (generated info0 mods errs info remaining r1 r)
    note files = final_info_files(2) [OF assms(1,3) generated(2,3)]
    have "assets = [] \<or> (\<exists>f \<in> set (pi_sources info). isTranspiledSourceFileType f)"
      using generated(4) source_attrs_Inl [of "pi_sources info" n assets] by (metis Inl_Inr_False)
    with generated parse_errors [OF assms(2), of ga cfg "tg_name grp" n srcs gens assets s] run
    show ?thesis by (auto simp: files)
  qed
qed

section \<open>A concrete directory\<close>

definition sample_gen_env :: gen_env where
  "sample_gen_env =
     \<lparr>ge_js = empty_env,
      ge_bzl = \<lparr>ba_ShouldKeep = (\<lambda>_. False), ba_ParseGlobExpr = (\<lambda>_. None), ba_MatchUnvalidated = (=)\<rparr>,
      ge_rel = label_rel sample_api,
      ge_addSource = sorted_add Compare, ge_addImport = sorted_add importStatementComparator,
      ge_io = \<lparr>io_open = Inl, io_unmarshal = Inl\<rparr>, ge_fuel = 1,
      ge_ws = fst (NewTsWorkspace NewPnpmProjectMap (\<lambda>_. False)),
      ge_parse = (\<lambda>_. \<lparr>pr_Imports = [], pr_JSXImports = [], pr_URLImports = [], pr_Modules = [],
        pr_Errors = [], pr_Err = None\<rparr>),
      ge_sched = rev, ge_readPackage = Inl, ge_report = (\<lambda>_. ''error'')\<rparr>"

definition sample_gen_args :: gen_args where
  "sample_gen_args = \<lparr>ga_Repo = '''', ga_Dir = ''/w/p'', ga_RegularFiles = [''a.ts'', ''b.txt''], ga_GenFiles = []\<rparr>"

definition sample_gen_state :: gen_state where
  "sample_gen_state =
     \<lparr>gs_args = \<lparr>ra_Rel = ''p'', ra_File = None, ra_KindMap = (\<lambda>_. '''')\<rparr>, gs_modules = (\<lambda>_. []),
      gs_packageJsons = Map.empty, gs_configs = Map.empty, gs_exts = None, gs_stderr = [], gs_gen = [],
      gs_empty = [], gs_rels = {}\<rparr>"

definition sample_group :: TargetGroup where
  "sample_group = hd DefaultSourceGlobs"

lemma sample_env_laws:
  "treeset_law Compare (ge_addSource sample_gen_env)" "set (ge_sched sample_gen_env xs) = set xs"
  by (simp_all add: sample_gen_env_def str_cmp.sorted_add_law)

lemma sample_ext: "path_Ext ''a.ts'' = ''.ts''"
  by (simp add: path_Ext_def after_last_def)

lemma sample_no_project: "GetProject NewPnpmProjectMap ''p'' = None"
  by (simp add: GetProject.simps NewPnpmProjectMap_def project_up_parent parent_of_def upto_last_def TrimSuffix_def)

lemmas sample_run = addProjectRule_def CheckCollisionErrors_def sample_gen_state_def project_info_def
  sample_gen_env_def parseFiles_def sample_ext isSourceFileExt_def collectImports_def NewTsWorkspace_def
  sample_no_project processImports_def newRootConfig_def newTsProjectInfo_def AddSource_def add_react_def
  GetFileRuleByName_def project_kind_def hasTranspiledSources_def isTranspiledSourceFileType_def
  isTranspiledSourceFileExt_def isDeclarationFileType_def source_attrs_def Let_def
  tsPackageInfoToRelsToIndex_def

lemma sample_project:
  "\<exists>r callers s'. addProjectRule sample_gen_env sample_gen_args [newRootConfig] '''' None sample_group
     n [''a.ts''] [] [] [''b.txt''] sample_gen_state = Inr (Inr r, callers, s')"
  by (simp add: sample_run suffix_to_prefix)

theorem project_rule_files_witness:
  "\<exists>r callers s'. addProjectRule sample_gen_env sample_gen_args [newRootConfig] '''' None sample_group
     ''lib'' [''a.ts''] [] [] [''b.txt''] sample_gen_state = Inr (Inr r, callers, s') \<and>
   (\<exists>rsrcs. ru_attrs r ''srcs'' = Some (VStrings rsrcs)) \<and> length callers = 1"
proof -
  from sample_project obtain r callers s' where run:
    "addProjectRule sample_gen_env sample_gen_args [newRootConfig] '''' None sample_group
     ''lib'' [''a.ts''] [] [] [''b.txt''] sample_gen_state = Inr (Inr r, callers, s')" by blast
  have "distinct (named [''b.txt''])" by simp
  from project_rule_files [OF sample_env_laws(1) this run] run show ?thesis by auto
qed

theorem project_rule_errors_witness:
  "\<exists>callers s'. addProjectRule sample_gen_env sample_gen_args [newRootConfig] '''' None sample_group
     ''lib'' [] [] [''b.txt''] [] sample_gen_state =
       Inr (Inl (AssetsUnsupported ''lib'' [''b.txt'']), callers, s') \<and> gs_gen s' = gs_gen sample_gen_state"
proof -
  have "distinct (named [])" by simp
  note errors = project_rule_errors [OF sample_env_laws this, where n = "''lib''" and srcs = "[]" and gens = "[]"
      and assets = "[''b.txt'']" and s = sample_gen_state and ga = sample_gen_args and cfg = "[newRootConfig]"
      and tsconfigRel = "''''" and tsconfig = None and grp = sample_group]
  have "CheckCollisionErrors ''lib'' ''ts_project'' sourceRuleKinds (gs_args sample_gen_state) = None"
    by (simp add: CheckCollisionErrors_def sample_gen_state_def)
  moreover have "project_files sample_gen_env sample_gen_args [newRootConfig] None sample_group ''lib'' [] []
      [''b.txt''] [] sample_gen_state = {''b.txt''}"
    by (simp add: project_files_def)
  moreover have "\<not> isTranspiledSourceFileType ''b.txt''"
    by (simp add: sample_run path_Ext_def after_last_def)
  moreover have "SortStrings (remdups [''b.txt'']) = [''b.txt'']"
    by (simp add: SortStrings_def SortFunc_def)
  ultimately show ?thesis using errors by simp
qed

end
