(* ===== verification/Js_Generate.thy ===== *)
theory Js_Generate
  imports Js_Project
begin

text \<open>
  Generating all rules of a directory (\<open>GenerateRules\<close> and what it calls in
  \<open>language/js/generate.go\<close>): the rules of the target groups, the package target, the
  tsconfig rules and the proto rules. The name and sources of a rule, its info and the state are
  those of \<open>Js_Project\<close>.
\<close>

section \<open>Source rules\<close>

text \<open>The configuration governing each group, with its anchor, found in the order of the groups.\<close>

fun find_configs ::
  "gen_env \<Rightarrow> JsGazelleConfig \<Rightarrow> TargetGroup list \<Rightarrow> group_tsconfigs \<Rightarrow> gen_state \<Rightarrow>
   (group_tsconfigs \<times> gen_state) outcome" where
  "find_configs env c [] m s = Inr (m, s)"
| "find_configs env c (g # gs) m s =
     (case FindConfig (ge_fuel env) (ge_io env) (ge_ws env) (gs_configs s) (gs_rel s) (tg_name g) of
        None \<Rightarrow> Inl OutOfFuel
      | Some ((anchorRel, configRel, tc), configs) \<Rightarrow>
          find_configs env c gs
            (m(tg_name g := (if jc_tsConfigPackageDeps c then anchorRel else configRel, tc)))
            (s\<lparr>gs_configs := configs\<rparr>))"

definition has_package_target :: "gen_env \<Rightarrow> JsGazelleConfig \<Rightarrow> string \<Rightarrow> bool outcome" where
  "has_package_target env c rel =
     (if \<not> IsProject (ge_pnpm env) rel then Inr False
      else case jc_packageGenerationEnabled c of
        NpmPackageEnabledMode \<Rightarrow> Inr True
      | NpmPackageReferencedMode \<Rightarrow> IsReferenced (ge_pnpm env) rel
      | NpmPackageDisabledMode \<Rightarrow> Inr False)"

text \<open>
  The loop over the groups: the data files, the rule of each group, and the error that ends it.
\<close>

fun add_group_rules ::
  "gen_env \<Rightarrow> gen_args \<Rightarrow> config_chain \<Rightarrow> group_tsconfigs \<Rightarrow> file_groups \<Rightarrow> string \<Rightarrow> bool \<Rightarrow>
   TargetGroup list \<Rightarrow> string list \<Rightarrow> (string \<rightharpoonup> rule) \<Rightarrow> gen_state \<Rightarrow>
   (gen_error option \<times> string list \<times> (string \<rightharpoonup> rule) \<times> gen_state) outcome" where
  "add_group_rules env ga cfg tcs fg pkgName hasPkg [] ds rules s = Inr (None, ds, rules, s)"
| "add_group_rules env ga cfg tcs fg pkgName hasPkg (g # gs) ds rules s =
     (let ruleName = RenderSourceTargetName (hd cfg) (tg_name g) pkgName hasPkg
      in case group_sources (ge_bzl env) (gs_args s) (ga_RegularFiles ga) fg (tg_name g) ruleName of
           (ruleSrcs, ruleGenSrcs, pinned) \<Rightarrow>
             if ruleSrcs = [] then
               add_group_rules env ga cfg tcs fg pkgName hasPkg gs ds rules
                 (if pinned then s
                  else s\<lparr>gs_empty := RemoveRule (gs_args s) ruleName sourceRuleKinds (gs_empty s)\<rparr>)
             else
               (case addProjectRule env ga cfg (fst (tcs (tg_name g))) (snd (tcs (tg_name g))) g ruleName
                       ruleSrcs ruleGenSrcs (fg_assets fg (tg_name g)) ds s of
                  Inl e \<Rightarrow> Inl e
                | Inr (Inl err, ds', s') \<Rightarrow> Inr (Some err, ds', rules, s')
                | Inr (Inr r, ds', s') \<Rightarrow>
                    add_group_rules env ga cfg tcs fg pkgName hasPkg gs ds'
                      (rules(tg_name g \<mapsto> r)) s'))"

section \<open>The package target\<close>

definition package_import :: "string \<Rightarrow> string \<Rightarrow> string \<Rightarrow> ImportStatement" where
  "package_import rel packageJsonPath file =
     \<lparr>is_Lang = LanguageName, is_Imp = path_join [rel, file], is_ImportPath = file,
      is_SourcePath = packageJsonPath, is_Kind = ImportKindNone, is_Optional = True, is_TypesOnly = False\<rparr>"

text \<open>One entry of the package.json: a data file, or something to resolve.\<close>

definition add_entry ::
  "gen_env \<Rightarrow> config_chain \<Rightarrow> string \<Rightarrow> string \<Rightarrow> string list \<Rightarrow> TsProjectInfo \<Rightarrow> string \<Rightarrow> TsProjectInfo" where
  "add_entry env cfg rel packageJsonPath dataFiles info impt =
     (if IsImportIgnored cfg impt then info
      else if impt \<in> set dataFiles then AddSource env info impt
      else if CHR ''*'' \<in> set impt then info
      else AddImport env info (package_import rel packageJsonPath impt))"

text \<open>One pattern of \<open>files\<close>; the state is the info, the includes and the excludes.\<close>

definition files_pattern ::
  "gen_env \<Rightarrow> config_chain \<Rightarrow> string \<Rightarrow> string \<Rightarrow> string list \<Rightarrow>
   TsProjectInfo \<times> string list \<times> string list \<Rightarrow> string \<Rightarrow> TsProjectInfo \<times> string list \<times> string list" where
  "files_pattern env cfg rel packageJsonPath dataFiles st pattern0 =
     (case st of (info, includes, excludes) \<Rightarrow>
       (let pattern = TrimPrefix pattern0 ''!''
        in if IsImportIgnored cfg pattern then st
           else if HasPrefix pattern0 ''!'' then (info, includes, excludes @ [pattern, pattern @ ''/**''])
           else
             (let isDataFile = pattern \<in> set dataFiles;
                  includes1 = (if isDataFile then includes else includes @ [pattern @ ''/**''])
              in if \<not> ContainsAny pattern ''*?[{'' \<and> \<not> isDataFile then
                   (AddImport env info (package_import rel packageJsonPath pattern), includes1, excludes)
                 else (info, includes1 @ [pattern], excludes))))"

definition addPackageJsonFiles ::
  "gen_env \<Rightarrow> config_chain \<Rightarrow> string \<Rightarrow> string list \<Rightarrow> string \<Rightarrow> string list \<Rightarrow> string list \<Rightarrow>
   TsProjectInfo \<Rightarrow> TsProjectInfo" where
  "addPackageJsonFiles env cfg rel genFiles packageJsonPath patterns dataFiles info0 =
     (case foldl (files_pattern env cfg rel packageJsonPath dataFiles) (info0, [], []) patterns of
        (info, includes, excludes) \<Rightarrow>
          if includes = [] then info
          else case fst (ParseGlobExpressionsWithExcludes (je_dsvalid (ge_js env)) (je_dsmatch (ge_js env))
                           Map.empty includes excludes) of
            Inl _ \<Rightarrow> info
          | Inr filesMatch \<Rightarrow>
              foldl (\<lambda>i f. AddImport env i (package_import rel packageJsonPath f))
                (foldl (AddSource env) info (filter (\<lambda>f. filesMatch f \<and> \<not> IsImportIgnored cfg f) dataFiles))
                (filter (\<lambda>f. filesMatch f \<and> \<not> IsImportIgnored cfg f) genFiles))"

definition package_kind :: "JsGazelleConfig \<Rightarrow> string" where
  "package_kind c =
     (if jc_packageTargetKind c = PackageTargetKind_Library then ''js_library'' else ''npm_package'')"

text \<open>The sources and imports of the package target; \<open>pkg\<close> is the directory's package.json.\<close>

definition package_info ::
  "gen_env \<Rightarrow> gen_args \<Rightarrow> config_chain \<Rightarrow> string \<Rightarrow> PackageJson option \<Rightarrow> string list \<Rightarrow> TsProjectInfo" where
  "package_info env ga cfg rel pkg dataFiles =
     (let packageJsonPath = path_join [rel, NpmPackageFilename];
          entries = (case pkg of Some p \<Rightarrow> pj_Entries p | None \<Rightarrow> []);
          files = (case pkg of Some p \<Rightarrow> pj_Files p | None \<Rightarrow> []);
          info1 = foldl (add_entry env cfg rel packageJsonPath dataFiles) (newTsProjectInfo '''') entries;
          info2 = addPackageJsonFiles env cfg rel (ga_GenFiles ga) packageJsonPath files dataFiles info1
      in if NpmPackageFilename \<in> set dataFiles then AddSource env info2 NpmPackageFilename else info2)"

definition with_source :: "TsProjectInfo \<Rightarrow> label option \<Rightarrow> TsPackageInfo" where
  "with_source info l =
     (newTsPackageInfo l)\<lparr>pi_imports := pi_imports info, pi_sources := pi_sources info\<rparr>"

definition addPackageRule ::
  "gen_env \<Rightarrow> gen_args \<Rightarrow> config_chain \<Rightarrow> string \<Rightarrow> string list \<Rightarrow> label option \<Rightarrow> gen_state \<Rightarrow>
   gen_state outcome" where
  "addPackageRule env ga cfg packageName dataFiles srcLabel s =
     (let rel = gs_rel s; c = hd cfg
      in case getPackageJson env rel s of
           (Inl err, s1) \<Rightarrow>
             (case MisconfiguredErrorf (gs_exts s1)
                     (ge_report env (BadPackageJson (path_join [rel, NpmPackageFilename]) err)) of
                Inl e \<Rightarrow> Inl e
              | Inr x \<Rightarrow> Inr (s1\<lparr>gs_exts := x\<rparr>))
         | (Inr pkg, s1) \<Rightarrow>
             (let info = package_info env ga cfg rel pkg dataFiles;
                  r = SetAttr ''visibility'' (VStrings [''//'' @ jc_pnpmLockDir c @ '':__pkg__''])
                        (SetAttr ''srcs'' (VStrings (pi_sources info))
                          (NewRule (package_kind c) (RenderNpmPackageTargetName c packageName)))
              in tsPackageInfoToRelsToIndex env c '''' (pi_imports info)
                   (s1\<lparr>gs_gen := gs_gen s1 @ [(r, PackageInfo (with_source info srcLabel))]\<rparr>)))"

definition addSourceRules ::
  "gen_env \<Rightarrow> gen_args \<Rightarrow> config_chain \<Rightarrow> gen_state \<Rightarrow> gen_state outcome" where
  "addSourceRules env ga cfg s =
     (let c = hd cfg; rel = gs_rel s
      in case find_configs env c (jc_targets c) (\<lambda>_. ('''', None)) s of
           Inl e \<Rightarrow> Inl e
         | Inr (tcs, s1) \<Rightarrow>
           (case sort_files (ge_js env) c tcs (ga_RegularFiles ga) (ga_GenFiles ga) of
              Inl e \<Rightarrow> Inl e
            | Inr fg \<Rightarrow>
              (case has_package_target env c rel of
                 Inl e \<Rightarrow> Inl e
               | Inr hasPkg \<Rightarrow>
                 (let packageName = toDefaultTargetName rel (ga_Dir ga) (ga_Repo ga) ''root''
                  in case add_group_rules env ga cfg tcs fg packageName hasPkg (jc_targets c) (fg_data fg)
                            Map.empty s1 of
                       Inl e \<Rightarrow> Inl e
                     | Inr (Some err, _, _, s2) \<Rightarrow>
                         (case GenerationErrorf (gs_exts s2) (ge_report env err) of
                            Inl e \<Rightarrow> Inl e
                          | Inr x \<Rightarrow> Inr (s2\<lparr>gs_exts := x\<rparr>))
                     | Inr (None, ds, rules, s2) \<Rightarrow>
                         if hasPkg then
                           addPackageRule env ga cfg packageName ds
                             (map_option (\<lambda>r. Label (ga_Repo ga) rel (ru_name r) True)
                               (rules DefaultLibraryName)) s2
                         else Inr s2))))"

section \<open>Data files go to the first group that imports them\<close>

text \<open>
  The data files a group claims: those its imports claim and no earlier group's imports do.
  \<open>imps\<close> are the imports of the generated groups, in order.
\<close>

definition first_claims :: "JsGazelleConfig \<Rightarrow> string \<Rightarrow> ImportStatement list list \<Rightarrow> nat \<Rightarrow> string \<Rightarrow> bool" where
  "first_claims c rel imps i f \<longleftrightarrow>
     claims c rel (imps ! i) f \<and> (\<forall>j < i. \<not> claims c rel (imps ! j) f)"

lemma first_claims_Cons:
  "first_claims c rel (is # imps) 0 f \<longleftrightarrow> claims c rel is f"
  "first_claims c rel (is # imps) (Suc i) f \<longleftrightarrow> first_claims c rel imps i f \<and> \<not> claims c rel is f"
  by (auto simp: first_claims_def All_less_Suc2)

text \<open>
  The files of each group that has sources: its sources (pinned and kept ones included), generated
  sources and assets, as the build file stands when the directory is visited.
\<close>

definition group_rule_name :: "config_chain \<Rightarrow> string \<Rightarrow> bool \<Rightarrow> TargetGroup \<Rightarrow> string" where
  "group_rule_name cfg pkgName hasPkg g = RenderSourceTargetName (hd cfg) (tg_name g) pkgName hasPkg"

definition groups_files ::
  "gen_env \<Rightarrow> gen_args \<Rightarrow> config_chain \<Rightarrow> file_groups \<Rightarrow> string \<Rightarrow> bool \<Rightarrow> rule_args \<Rightarrow> TargetGroup list \<Rightarrow>
   string set list" where
  "groups_files env ga cfg fg pkgName hasPkg args gs =
     concat (map (\<lambda>g.
       case group_sources (ge_bzl env) args (ga_RegularFiles ga) fg (tg_name g)
              (group_rule_name cfg pkgName hasPkg g) of
         (srcs, gens, _) \<Rightarrow> if srcs = [] then [] else [set (srcs @ gens @ fg_assets fg (tg_name g))]) gs)"

text \<open>
  The sources of the generated rules: the group's files, and the data files the group is the first
  to import.
\<close>

definition first_owners ::
  "JsGazelleConfig \<Rightarrow> string \<Rightarrow> string list \<Rightarrow> string set list \<Rightarrow> (rule \<times> TsProjectInfo) list \<Rightarrow> bool" where
  "first_owners c rel ds own news \<longleftrightarrow>
     length news = length own \<and>
     (\<forall>i < length news.
        set (named (pi_sources (snd (news ! i)))) =
          (own ! i - {''''}) \<union> {f \<in> set (named ds). first_claims c rel (map (pi_imports \<circ> snd) news) i f})"

lemma first_owners_Cons:
  assumes "set (named (pi_sources (snd new))) = (o1 - {''''}) \<union>
      {f \<in> set (named ds). claims c rel (pi_imports (snd new)) f}"
    and "first_owners c rel ds1 own news"
    and "set (named ds1) = {f \<in> set (named ds). \<not> claims c rel (pi_imports (snd new)) f}"
  shows "first_owners c rel ds (o1 # own) (new # news)"
  unfolding first_owners_def
proof (intro conjI allI impI)
  show "length (new # news) = length (o1 # own)" using assms(2) by (simp add: first_owners_def)
next
  fix i
  assume i: "i < length (new # news)"
  show "set (named (pi_sources (snd ((new # news) ! i)))) = ((o1 # own) ! i - {''''}) \<union>
      {f \<in> set (named ds). first_claims c rel (map (pi_imports \<circ> snd) (new # news)) i f}"
  proof (cases i)
    case 0
    with assms(1) show ?thesis by (simp add: first_claims_Cons)
  next
    case (Suc k)
    with i assms(2) have "set (named (pi_sources (snd (news ! k)))) = (own ! k - {''''}) \<union>
        {f \<in> set (named ds1). first_claims c rel (map (pi_imports \<circ> snd) news) k f}"
      by (simp add: first_owners_def)
    then show ?thesis unfolding assms(3) by (auto simp: Suc first_claims_Cons)
  qed
qed

text \<open>Generating a rule only touches the existing rule of its own name.\<close>

lemma update_existing_other:
  assumes "m \<noteq> n" "\<And>r. ru_name (f r) = ru_name r"
  shows "GetFileRuleByName (gs_args (update_existing n f s)) m = GetFileRuleByName (gs_args s) m"
proof -
  have "find (\<lambda>r. ru_name r = m) (update_rule n f rs) = find (\<lambda>r. ru_name r = m) rs" for rs
    using assms by (induction rs) auto
  then show ?thesis by (simp add: GetFileRuleByName_def update_existing_def split: option.split)
qed

lemma DelAttrs_name: "ru_name (foldl (\<lambda>r a. DelAttr a r) e as) = ru_name e"
  by (induction as arbitrary: e) simp_all

lemma addProjectRule_others:
  assumes "addProjectRule env ga cfg tsconfigRel tsconfig grp n srcs gens assets ds s = Inr (Inr r, callers, s')"
    and "m \<noteq> n"
  shows "GetFileRuleByName (gs_args s') m = GetFileRuleByName (gs_args s) m"
  using assms
  by (auto simp: addProjectRule_def Let_def update_existing_other DelAttrs_name
      split: option.splits prod.splits sum.splits if_splits dest!: tsPackageInfo_caches only_caches_gen)

lemma groups_files_args:
  assumes "\<And>g. g \<in> set gs \<Longrightarrow>
    GetFileRuleByName args' (group_rule_name cfg p h g) = GetFileRuleByName args (group_rule_name cfg p h g)"
  shows "groups_files env ga cfg fg p h args' gs = groups_files env ga cfg fg p h args gs"
  using assms unfolding groups_files_def
  by (intro arg_cong [of _ _ concat] map_cong refl) (simp add: group_sources_def)

lemma add_group_rules_owners:
  assumes law: "treeset_law Compare (ge_addSource env)"
  shows "distinct (named ds) \<Longrightarrow> distinct (map (group_rule_name cfg pkgName hasPkg) gs) \<Longrightarrow>
    add_group_rules env ga cfg tcs fg pkgName hasPkg gs ds rules s = Inr (None, ds', rules', s') \<Longrightarrow>
    \<exists>news. gs_gen s' = gs_gen s @ map (\<lambda>(r, info). (r, ProjectInfo info)) news \<and>
      length ds' = length ds \<and>
      set (named ds') =
        {f \<in> set (named ds). \<forall>(r, info) \<in> set news. \<not> claims (hd cfg) (gs_rel s) (pi_imports info) f} \<and>
      first_owners (hd cfg) (gs_rel s) ds (groups_files env ga cfg fg pkgName hasPkg (gs_args s) gs) news"
proof (induction gs arbitrary: ds rules s)
  case Nil
  then show ?case by (intro exI [of _ "[]"]) (simp add: first_owners_def groups_files_def)
next
  case (Cons g gs)
  let ?n = "group_rule_name cfg pkgName hasPkg g"
  obtain srcs gens pinned where
    gsrc: "group_sources (ge_bzl env) (gs_args s) (ga_RegularFiles ga) fg (tg_name g) ?n = (srcs, gens, pinned)"
    by (metis prod_cases3)
  note gsrc' = gsrc [unfolded group_rule_name_def]
  have others: "h \<in> set gs \<Longrightarrow> group_rule_name cfg pkgName hasPkg h \<noteq> ?n" for h
    using Cons.prems(2) by (auto simp: image_iff)
  show ?case
  proof (cases "srcs = []")
    case True
    define s1 where "s1 = (if pinned then s
      else s\<lparr>gs_empty := RemoveRule (gs_args s) ?n sourceRuleKinds (gs_empty s)\<rparr>)"
    have "add_group_rules env ga cfg tcs fg pkgName hasPkg gs ds rules s1 = Inr (None, ds', rules', s')"
      using Cons.prems(3) True gsrc' by (cases pinned) (simp_all add: s1_def Let_def group_rule_name_def)
    from Cons.IH [OF Cons.prems(1) _ this] Cons.prems(2) obtain news where news:
      "gs_gen s' = gs_gen s1 @ map (\<lambda>(r, info). (r, ProjectInfo info)) news"
      "length ds' = length ds"
      "set (named ds') = {f \<in> set (named ds). \<forall>(r, info) \<in> set news.
         \<not> claims (hd cfg) (gs_rel s1) (pi_imports info) f}"
      "first_owners (hd cfg) (gs_rel s1) ds (groups_files env ga cfg fg pkgName hasPkg (gs_args s1) gs) news"
      by auto
    have s1: "gs_gen s1 = gs_gen s" "gs_rel s1 = gs_rel s" "gs_args s1 = gs_args s" by (simp_all add: s1_def)
    have "groups_files env ga cfg fg pkgName hasPkg (gs_args s) (g # gs) =
        groups_files env ga cfg fg pkgName hasPkg (gs_args s) gs"
      using True by (simp add: groups_files_def gsrc)
    with news show ?thesis
      unfolding s1 by (intro exI [of _ news] conjI) simp_all
  next
    case False
    with Cons.prems(3) gsrc' obtain r ds1 s1 where
      run: "addProjectRule env ga cfg (fst (tcs (tg_name g))) (snd (tcs (tg_name g))) g ?n srcs gens
        (fg_assets fg (tg_name g)) ds s = Inr (Inr r, ds1, s1)"
      and rest: "add_group_rules env ga cfg tcs fg pkgName hasPkg gs ds1 (rules(tg_name g \<mapsto> r)) s1 =
        Inr (None, ds', rules', s')"
      by (auto simp: Let_def group_rule_name_def split: sum.splits)
    from generated_rule_files [OF law Cons.prems(1) run] obtain info where
      gen: "gs_gen s1 = gs_gen s @ [(r, ProjectInfo info)]"
      and srcs': "set (pi_sources info) = set (srcs @ gens @ fg_assets fg (tg_name g)) \<union>
        {f \<in> set ds. claims (hd cfg) (gs_rel s) (pi_imports info) f}"
      and len: "length ds1 = length ds"
      and left: "set (named ds1) = {f \<in> set (named ds). \<not> claims (hd cfg) (gs_rel s) (pi_imports info) f}"
      by blast
    have st: "distinct (named ds1)" "gs_rel s1 = gs_rel s"
      using generated_rule_state [OF law Cons.prems(1) run] by simp_all
    have same: "groups_files env ga cfg fg pkgName hasPkg (gs_args s1) gs =
        groups_files env ga cfg fg pkgName hasPkg (gs_args s) gs"
      by (rule groups_files_args) (rule addProjectRule_others [OF run others])
    from Cons.IH [OF st(1) _ rest] Cons.prems(2) obtain news where news:
      "gs_gen s' = gs_gen s1 @ map (\<lambda>(r, info). (r, ProjectInfo info)) news"
      "length ds' = length ds"
      "set (named ds') = {f \<in> set (named ds1). \<forall>(r, info) \<in> set news.
         \<not> claims (hd cfg) (gs_rel s) (pi_imports info) f}"
      "first_owners (hd cfg) (gs_rel s) ds1 (groups_files env ga cfg fg pkgName hasPkg (gs_args s) gs) news"
      unfolding st(2) len same by auto
    have "groups_files env ga cfg fg pkgName hasPkg (gs_args s) (g # gs) =
        set (srcs @ gens @ fg_assets fg (tg_name g)) #
        groups_files env ga cfg fg pkgName hasPkg (gs_args s) gs"
      using False by (simp add: groups_files_def gsrc)
    moreover have "set (named (pi_sources (snd (r, info)))) =
        (set (srcs @ gens @ fg_assets fg (tg_name g)) - {''''}) \<union>
        {f \<in> set (named ds). claims (hd cfg) (gs_rel s) (pi_imports (snd (r, info))) f}"
      using srcs' by auto
    ultimately have "first_owners (hd cfg) (gs_rel s) ds
        (groups_files env ga cfg fg pkgName hasPkg (gs_args s) (g # gs)) ((r, info) # news)"
      using first_owners_Cons [OF _ news(4)] left by simp
    moreover have "set (named ds') = {f \<in> set (named ds). \<forall>(r, info) \<in> set ((r, info) # news).
        \<not> claims (hd cfg) (gs_rel s) (pi_imports info) f}"
      unfolding news(3) left by auto
    ultimately show ?thesis
      using gen news(1,2) by (intro exI [of _ "(r, info) # news"]) simp
  qed
qed

text \<open>
  C30 (invariant). When the rules of all groups of a directory are generated, under different
  names, the sources recorded for each are the group's own files (pinned, kept, generated and
  asset ones included) and exactly those data files that its imports claim and no earlier group's
  imports do: no data file is claimed by two groups. The list of data files handed on keeps exactly
  those that no group's imports claim, whether or not they are pinned or kept sources of a group,
  with a blank for each claimed one.
\<close>

theorem imported_data_files_first_group:
  assumes "treeset_law Compare (ge_addSource env)" "distinct (named ds)"
    and "distinct (map (group_rule_name cfg pkgName hasPkg) gs)"
    and "add_group_rules env ga cfg tcs fg pkgName hasPkg gs ds rules s = Inr (None, ds', rules', s')"
  shows "\<exists>news. gs_gen s' = gs_gen s @ map (\<lambda>(r, info). (r, ProjectInfo info)) news \<and>
      first_owners (hd cfg) (gs_rel s) ds (groups_files env ga cfg fg pkgName hasPkg (gs_args s) gs) news \<and>
      length ds' = length ds \<and>
      set (named ds') =
        {f \<in> set (named ds). \<forall>(r, info) \<in> set news. \<not> claims (hd cfg) (gs_rel s) (pi_imports info) f}"
  using add_group_rules_owners [OF assms] by blast

definition sample_file_groups :: file_groups where
  "sample_file_groups =
     \<lparr>fg_sources = (\<lambda>_. [''a.ts'']), fg_generated = (\<lambda>_. []), fg_assets = (\<lambda>_. []), fg_data = [''b.txt'']\<rparr>"

lemma sample_groups:
  "\<exists>ds' rules' s'. add_group_rules sample_gen_env sample_gen_args [newRootConfig] (\<lambda>_. ('''', None))
     sample_file_groups ''p'' False [sample_group] [''b.txt''] Map.empty sample_gen_state =
     Inr (None, ds', rules', s')"
proof -
  obtain r callers s' where run: "addProjectRule sample_gen_env sample_gen_args [newRootConfig] '''' None
      sample_group (RenderSourceTargetName newRootConfig (tg_name sample_group) ''p'' False)
      [''a.ts''] [] [] [''b.txt''] sample_gen_state = Inr (Inr r, callers, s')"
    using sample_project by blast
  have "group_sources (ge_bzl sample_gen_env) (gs_args sample_gen_state) (ga_RegularFiles sample_gen_args)
      sample_file_groups (tg_name sample_group)
      (RenderSourceTargetName newRootConfig (tg_name sample_group) ''p'' False) = ([''a.ts''], [], False)"
    by (simp add: group_sources_def sample_gen_state_def GetFileRuleByName_def sample_file_groups_def)
  with run show ?thesis by (simp add: sample_file_groups_def)
qed

theorem imported_data_files_first_group_witness:
  "\<exists>ds' rules' s'. add_group_rules sample_gen_env sample_gen_args [newRootConfig] (\<lambda>_. ('''', None))
     sample_file_groups ''p'' False [sample_group] [''b.txt''] Map.empty sample_gen_state =
     Inr (None, ds', rules', s') \<and> length ds' = 1"
proof -
  obtain ds' rules' s' where run: "add_group_rules sample_gen_env sample_gen_args [newRootConfig]
      (\<lambda>_. ('''', None)) sample_file_groups ''p'' False [sample_group] [''b.txt''] Map.empty sample_gen_state =
      Inr (None, ds', rules', s')" using sample_groups by blast
  have "distinct (named [''b.txt''])" by simp
  moreover have "distinct (map (group_rule_name [newRootConfig] ''p'' False) [sample_group])" by simp
  ultimately show ?thesis using imported_data_files_first_group [OF sample_env_laws(1) _ _ run] run by auto
qed

section \<open>Tsconfig rules\<close>

definition is_package_json :: "string \<Rightarrow> bool" where
  "is_package_json f = (path_Base f = NpmPackageFilename)"

definition collectTsConfigPackageJsonDeps ::
  "gen_env \<Rightarrow> gen_args \<Rightarrow> string \<Rightarrow> label list \<times> bool" where
  "collectTsConfigPackageJsonDeps env ga rel =
     (let local = filter is_package_json (ga_RegularFiles ga);
          deps = map (\<lambda>f. Label (ga_Repo ga) rel f False) local
      in (if NpmPackageFilename \<in> set local then deps
          else case packageScopeDir (ge_ws env) rel of
            Some ancestor \<Rightarrow> deps @ [Label (ga_Repo ga) ancestor NpmPackageFilename False]
          | None \<Rightarrow> deps,
          local \<noteq> []))"

definition ts_import :: "string \<Rightarrow> string \<Rightarrow> string \<Rightarrow> bool \<Rightarrow> ImportStatement" where
  "ts_import imp importPath sourcePath typesOnly =
     \<lparr>is_Lang = LanguageName, is_Imp = imp, is_ImportPath = importPath, is_SourcePath = sourcePath,
      is_Kind = ImportKindNone, is_Optional = False, is_TypesOnly = typesOnly\<rparr>"

definition collectTsConfigImports ::
  "gen_env \<Rightarrow> config_chain \<Rightarrow> TsConfig \<Rightarrow> ImportStatement list" where
  "collectTsConfigImports env cfg tc =
     (let sourcePath = path_join [ConfigDir tc, ConfigName tc]
      in map (\<lambda>ext. ts_import (toImportSpecPath '''' sourcePath ext) ext sourcePath False)
           (filter (\<lambda>ext. \<not> IsImportIgnored cfg ext) (Extends tc)) @
         concat (map (\<lambda>t.
           let isLocalRef = (t \<noteq> '''' \<and> (hd t = CHR ''.'' \<or> hd t = slash));
               imp = (if isLocalRef then toImportSpecPath '''' sourcePath t else t)
           in ts_import imp t sourcePath True #
              (if isLocalRef then ps_Imports (collectImports cfg (ge_pnpm env) (ge_parse env) imp) else []))
           (filter (\<lambda>t. \<not> IsImportIgnored cfg t) (Types tc))) @
         map (\<lambda>reference.
           ts_import (if HasSuffix reference ''.json'' then path_join [''.'', reference]
                      else path_join [reference, ''tsconfig.json'']) reference sourcePath False)
           (References tc))"

text \<open>The configuration a group's rule is made from, and whether its file is in the directory.\<close>

definition tsconfig_for ::
  "gen_env \<Rightarrow> bool \<Rightarrow> string \<Rightarrow> gen_state \<Rightarrow> ((TsConfig \<times> bool) option \<times> gen_state) outcome" where
  "tsconfig_for env hasLocalPackageJson groupName s =
     (case GetTsConfigFile (ge_fuel env) (ge_io env) (ge_ws env) (gs_configs s) (gs_rel s) groupName of
        None \<Rightarrow> Inl OutOfFuel
      | Some (Some tc, configs) \<Rightarrow> Inr (Some (tc, True), s\<lparr>gs_configs := configs\<rparr>)
      | Some (None, configs) \<Rightarrow>
          if \<not> hasLocalPackageJson then Inr (None, s\<lparr>gs_configs := configs\<rparr>)
          else (case FindConfig (ge_fuel env) (ge_io env) (ge_ws env) configs (gs_rel s) groupName of
              None \<Rightarrow> Inl OutOfFuel
            | Some ((_, _, tc), configs') \<Rightarrow>
                Inr (map_option (\<lambda>tc. (tc, False)) tc, s\<lparr>gs_configs := configs'\<rparr>)))"

definition tsconfig_rule ::
  "gen_env \<Rightarrow> config_chain \<Rightarrow> label list \<Rightarrow> string \<Rightarrow> TsConfig \<Rightarrow> bool \<Rightarrow> gen_state \<Rightarrow> gen_state outcome" where
  "tsconfig_rule env cfg packageJsonDeps groupName tc hasLocal s =
     (let rel = gs_rel s; name = RenderTsConfigName (ConfigName tc);
          r0 = SetAttr ''visibility'' (VStrings ['':__subpackages__'']) (NewRule ''ts_config'' name);
          info0 = (newTsProjectInfo groupName)\<lparr>pi_staticDeps := packageJsonDeps\<rparr>
      in if hasLocal then
           (let info = foldl (AddImport env) info0 (collectTsConfigImports env cfg tc);
                src = path_join [ConfigDir tc, ConfigName tc];
                r = SetAttr ''src'' (VString (if rel \<noteq> '''' then TrimPrefix src (rel @ ''/'') else src)) r0
            in tsPackageInfoToRelsToIndex env (hd cfg) groupName (pi_imports info)
                 (s\<lparr>gs_gen := gs_gen s @ [(r, ProjectInfo info)]\<rparr>))
         else
           (case FindConfig (ge_fuel env) (ge_io env) (ge_ws env) (gs_configs s) (path_Dir rel) groupName of
              None \<Rightarrow> Inl OutOfFuel
            | Some ((parentAnchorRel, _, _), configs) \<Rightarrow>
                (let r = SetAttr ''src'' (VLabel (ge_rel env (Label '''' parentAnchorRel name False) '''' rel)) r0
                 in tsPackageInfoToRelsToIndex env (hd cfg) groupName (pi_imports info0)
                      (s\<lparr>gs_configs := configs, gs_gen := gs_gen s @ [(r, ProjectInfo info0)]\<rparr>))))"

fun add_tsconfig_rules ::
  "gen_env \<Rightarrow> config_chain \<Rightarrow> label list \<Rightarrow> bool \<Rightarrow> string list \<Rightarrow> string list \<Rightarrow> gen_state \<Rightarrow>
   gen_state outcome" where
  "add_tsconfig_rules env cfg deps hasLocalPkg [] emitted s = Inr s"
| "add_tsconfig_rules env cfg deps hasLocalPkg (g # gs) emitted s =
     (if \<not> GetTsConfigGenerationEnabled (hd cfg) g then add_tsconfig_rules env cfg deps hasLocalPkg gs emitted s
      else case tsconfig_for env hasLocalPkg g s of
        Inl e \<Rightarrow> Inl e
      | Inr (None, s1) \<Rightarrow> add_tsconfig_rules env cfg deps hasLocalPkg gs emitted s1
      | Inr (Some (tc, hasLocal), s1) \<Rightarrow>
          (let name = RenderTsConfigName (ConfigName tc)
           in if name \<in> set emitted then add_tsconfig_rules env cfg deps hasLocalPkg gs emitted s1
              else case tsconfig_rule env cfg deps g tc hasLocal s1 of
                Inl e \<Rightarrow> Inl e
              | Inr s2 \<Rightarrow> add_tsconfig_rules env cfg deps hasLocalPkg gs (emitted @ [name]) s2))"

definition addTsConfigRules :: "gen_env \<Rightarrow> gen_args \<Rightarrow> config_chain \<Rightarrow> gen_state \<Rightarrow> gen_state outcome" where
  "addTsConfigRules env ga cfg s =
     (case (if jc_tsConfigPackageDeps (hd cfg) then collectTsConfigPackageJsonDeps env ga (gs_rel s)
            else ([], False)) of
        (deps, hasLocalPkg) \<Rightarrow> add_tsconfig_rules env cfg deps hasLocalPkg (TsConfigGroupNames (hd cfg)) [] s)"

section \<open>Proto rules\<close>

text \<open>
  What the proto part is called with: whether the proto extension manages the rules, the rules it
  generated and removed, the strings of an attribute, and the import strings found in a file.
\<close>

record proto_args =
  px_managed :: bool
  px_OtherGen :: "rule list"
  px_OtherEmpty :: "rule list"
  px_AttrStrings :: "rule \<Rightarrow> string \<Rightarrow> string list"
  px_matches :: "string \<Rightarrow> string + string list"

definition GetProtoLibraries :: "proto_args \<Rightarrow> rule_args \<Rightarrow> rule list \<times> rule list" where
  "GetProtoLibraries px args =
     (let rules = (if px_managed px then px_OtherGen px
                   else case ra_File args of Some rs \<Rightarrow> rs | None \<Rightarrow> [])
      in (filter (\<lambda>r. ru_kind r = ''proto_library'') rules,
          filter (\<lambda>r. ru_kind r = ''proto_library'') (px_OtherEmpty px)))"

definition GetProtoImports :: "proto_args \<Rightarrow> string \<Rightarrow> string + string list" where
  "GetProtoImports px filepath =
     (case px_matches px filepath of Inl e \<Rightarrow> Inl e | Inr imports \<Rightarrow> Inr (SortStrings imports))"

fun collectProtoImports ::
  "proto_args \<Rightarrow> gen_args \<Rightarrow> config_chain \<Rightarrow> string list \<Rightarrow> gen_error + ImportStatement list" where
  "collectProtoImports px ga cfg [] = Inr []"
| "collectProtoImports px ga cfg (sourceFile # fs) =
     (case GetProtoImports px (path_join [ga_Dir ga, sourceFile]) of
        Inl e \<Rightarrow> Inl (ProtoError sourceFile e)
      | Inr imports \<Rightarrow>
        (case collectProtoImports px ga cfg fs of
           Inl e \<Rightarrow> Inl e
         | Inr rest \<Rightarrow>
             Inr (map (\<lambda>imp. ts_import (proto_import_path sourceFile imp) imp sourceFile False)
                   (filter (\<lambda>imp. \<not> IsRulesTsProtoBuiltin imp \<and> \<not> IsImportIgnored cfg imp) imports) @ rest)))"

definition addTsProtoRule ::
  "gen_env \<Rightarrow> proto_args \<Rightarrow> gen_args \<Rightarrow> config_chain \<Rightarrow> rule \<Rightarrow> string \<Rightarrow> gen_state \<Rightarrow> gen_state outcome" where
  "addTsProtoRule env px ga cfg protoLibrary ruleName s =
     (let rel = gs_rel s; sourceFiles = px_AttrStrings px protoLibrary ''srcs'';
          r0 = SetAttr ''proto'' (VLabel (ge_rel env (Label '''' rel (ru_name protoLibrary) False) '''' rel))
                 (NewRule ''ts_proto_library'' ruleName);
          r1 = (case GetProject (ge_pnpm env) rel of
                  Some p \<Rightarrow> SetAttr ''node_modules''
                    (VLabel (ge_rel env (Label '''' p (jc_npmLinkAllTargetName (hd cfg)) False) '''' rel)) r0
                | None \<Rightarrow> r0);
          r = SetAttr ''proto_srcs'' (VStrings sourceFiles) r1
      in case collectProtoImports px ga cfg sourceFiles of
           Inl err \<Rightarrow>
             (case GenerationErrorf (gs_exts s) (ge_report env err) of
                Inl e \<Rightarrow> Inl e | Inr x \<Rightarrow> Inr (s\<lparr>gs_exts := x\<rparr>))
         | Inr imports \<Rightarrow>
             (let info = foldl (AddImport env) (newTsProjectInfo '''') imports
              in Inr (s\<lparr>gs_gen := gs_gen s @ [(r, ProjectInfo info)],
                        gs_rels := gs_rels s \<union> is_Imp ` set (pi_imports info)\<rparr>)))"

fun add_proto_rules ::
  "gen_env \<Rightarrow> proto_args \<Rightarrow> gen_args \<Rightarrow> config_chain \<Rightarrow> rule list \<Rightarrow> gen_state \<Rightarrow> gen_state outcome" where
  "add_proto_rules env px ga cfg [] s = Inr s"
| "add_proto_rules env px ga cfg (p # ps) s =
     (case addTsProtoRule env px ga cfg p (RenderTsProtoLibraryName (hd cfg) (ru_name p)) s of
        Inl e \<Rightarrow> Inl e | Inr s' \<Rightarrow> add_proto_rules env px ga cfg ps s')"

definition addTsProtoRules ::
  "gen_env \<Rightarrow> proto_args \<Rightarrow> gen_args \<Rightarrow> config_chain \<Rightarrow> gen_state \<Rightarrow> gen_state outcome" where
  "addTsProtoRules env px ga cfg s =
     (case GetProtoLibraries px (gs_args s) of
        (protoLibraries, emptyLibraries) \<Rightarrow>
          (case add_proto_rules env px ga cfg protoLibraries s of
             Inl e \<Rightarrow> Inl e
           | Inr s1 \<Rightarrow>
               Inr (s1\<lparr>gs_empty := foldl (\<lambda>es r. RemoveRule (gs_args s1)
                  (RenderTsProtoLibraryName (hd cfg) (ru_name r)) sourceRuleKinds es)
                  (gs_empty s1) emptyLibraries\<rparr>)))"

section \<open>The whole directory\<close>

definition addLinkAllPackagesRule :: "gen_env \<Rightarrow> JsGazelleConfig \<Rightarrow> string \<Rightarrow> gen_state \<Rightarrow> gen_state" where
  "addLinkAllPackagesRule env c pnpmProject s =
     s\<lparr>gs_gen := gs_gen s @ [(NewRule ''npm_link_all_packages'' (jc_npmLinkAllTargetName c), LinkAllPackagesImports)],
       gs_rels := gs_rels s \<union> {jc_pnpmLockRel c} \<union> GetLocalReferences (ge_pnpm env) pnpmProject\<rparr>"

text \<open>The project of a project directory is the directory itself or an enclosing one.\<close>

definition addPackageRules :: "gen_env \<Rightarrow> JsGazelleConfig \<Rightarrow> gen_state \<Rightarrow> gen_state outcome" where
  "addPackageRules env c s =
     (if IsProject (ge_pnpm env) (gs_rel s) then
        (case GetProject (ge_pnpm env) (gs_rel s) of
           Some p \<Rightarrow> Inr (addLinkAllPackagesRule env c p s)
         | None \<Rightarrow> Inl (Panic ''nil dereference''))
      else Inr s)"

definition GenerateRules ::
  "gen_env \<Rightarrow> proto_args \<Rightarrow> gen_args \<Rightarrow> (label \<Rightarrow> label \<Rightarrow> bool) \<Rightarrow> config_chain \<Rightarrow> file_labels \<times> gen_state \<Rightarrow>
   (file_labels \<times> gen_state) outcome" where
  "GenerateRules env px ga equal cfg st =
     (case st of (fl, s) \<Rightarrow>
       (case collectFileLabels equal (ga_Repo ga) (gs_rel s) (ga_GenFiles ga) (ga_RegularFiles ga) fl of
          Inl e \<Rightarrow> Inl e
        | Inr fl' \<Rightarrow>
          if \<not> jc_generationEnabled (hd cfg) then Inr (fl', s)
          else (case addPackageRules env (hd cfg) s of
              Inl e \<Rightarrow> Inl e
            | Inr s1 \<Rightarrow>
              (case addSourceRules env ga cfg s1 of
                 Inl e \<Rightarrow> Inl e
               | Inr s2 \<Rightarrow>
                 (case addTsConfigRules env ga cfg s2 of
                    Inl e \<Rightarrow> Inl e
                  | Inr s3 \<Rightarrow>
                      if ProtoTsTargetGenerationEnabled (hd cfg)
                      then (case addTsProtoRules env px ga cfg s3 of Inl e \<Rightarrow> Inl e | Inr s4 \<Rightarrow> Inr (fl', s4))
                      else Inr (fl', s3))))))"

end
