(* ===== verification/Js_Resolve.thy ===== *)
theory Js_Resolve
  imports Js_Generate
begin

text \<open>
  Resolving the imports of generated rules into dependencies (\<open>language/js/resolve.go\<close>). The rule
  index, the configured overrides and \<open>IsSelfImport\<close> are third-party and parameters; the lookup
  that also asks the cross resolvers takes this extension's \<open>CrossResolve\<close> as an argument. The
  memo of parsed package.json files does not change what is found (\<open>getPackageJson_memo\<close>), so
  lookups read through it.
\<close>

section \<open>Parameters\<close>

type_synonym import_spec = "string \<times> string"

record find_result =
  fr_Label :: label
  fr_Embeds :: "label list"

datatype resolution =
    Resolution_None | Resolution_NotFound | Resolution_Label | Resolution_File | Resolution_NativeNode

text \<open>The error of an ambiguous import, and the report of the unknown imports of a target.\<close>

datatype resolve_error =
    Ambiguous string string "label list"
  | UnknownImports label "(string \<times> string) list"

record resolve_env =
  re_gen :: gen_env
  re_find :: "import_spec \<Rightarrow> string \<Rightarrow> find_result list"
  re_lookup :: "(import_spec \<Rightarrow> find_result list) \<Rightarrow> import_spec \<Rightarrow> find_result list"
  re_override :: "import_spec \<Rightarrow> label option"
  re_self :: "find_result \<Rightarrow> label \<Rightarrow> bool"
  re_labels :: label_api
  re_str :: "label \<Rightarrow> string"
  re_report :: "resolve_error \<Rightarrow> string"
  re_modules :: "string \<Rightarrow> label list"
  re_fileLabels :: file_labels

abbreviation re_ws :: "resolve_env \<Rightarrow> TsWorkspace" where
  "re_ws env \<equiv> ge_ws (re_gen env)"

section \<open>Package data, without its memo\<close>

definition packageJsonOf :: "gen_env \<Rightarrow> string \<Rightarrow> PackageJson option" where
  "packageJsonOf env rel =
     (if \<not> tw_hasPackageJson (ge_ws env) rel then None
      else case ge_readPackage env (path_join [rel, NpmPackageFilename]) of
        Inl _ \<Rightarrow> None | Inr p \<Rightarrow> Some p)"

definition memo_ok :: "gen_env \<Rightarrow> gen_state \<Rightarrow> bool" where
  "memo_ok env s \<longleftrightarrow>
     (\<forall>rel p. gs_packageJsons s rel = Some p \<longrightarrow>
        ge_readPackage env (path_join [rel, NpmPackageFilename]) = Inr p)"

lemma getPackageJson_memo:
  assumes "memo_ok env s" "getPackageJson env rel s = (r, s')"
  shows "(case r of Inr p \<Rightarrow> p | Inl _ \<Rightarrow> None) = packageJsonOf env rel \<and> memo_ok env s'"
  using assms unfolding getPackageJson_def packageJsonOf_def memo_ok_def
  by (fastforce split: if_splits option.splits sum.splits)

section \<open>Cross resolution\<close>

definition js_spec :: "string \<Rightarrow> import_spec" where
  "js_spec imp = (LanguageName, imp)"

definition findPackageSelfReference :: "resolve_env \<Rightarrow> string \<Rightarrow> string \<Rightarrow> string \<Rightarrow> find_result list" where
  "findPackageSelfReference env from_dir impPkg impSubpath =
     (case packageScopeDir (re_ws env) from_dir of
        None \<Rightarrow> []
      | Some packageDir \<Rightarrow>
        (case packageJsonOf (re_gen env) packageDir of
           None \<Rightarrow> []
         | Some packageJson \<Rightarrow>
             if pj_Name packageJson \<noteq> impPkg then []
             else concat (map (\<lambda>file. re_find env (js_spec (path_join [packageDir, file])) LanguageName)
                    (ResolveExport packageJson impSubpath))))"

definition findPackageImport :: "resolve_env \<Rightarrow> string \<Rightarrow> string \<Rightarrow> string \<Rightarrow> find_result list" where
  "findPackageImport env from_dir impPkg impSubpath =
     (let selfRefs = findPackageSelfReference env from_dir impPkg impSubpath
      in if selfRefs \<noteq> [] then selfRefs
         else case findPackage (tw_pnpmProjects (re_ws env)) from_dir impPkg of
           Some pkg \<Rightarrow> [\<lparr>fr_Label = pkg, fr_Embeds = []\<rparr>] | None \<Rightarrow> [])"

definition findSubpathImport :: "resolve_env \<Rightarrow> string \<Rightarrow> string \<Rightarrow> find_result list" where
  "findSubpathImport env from_dir imp =
     (case packageScopeDir (re_ws env) from_dir of
        None \<Rightarrow> []
      | Some packageDir \<Rightarrow>
        (case packageJsonOf (re_gen env) packageDir of
           None \<Rightarrow> []
         | Some packageJson \<Rightarrow>
             concat (map (\<lambda>target.
               if HasPrefix target ''./'' then
                 re_find env (js_spec (path_join [packageDir, target])) LanguageName
               else (case ParseImportPath target of (impPkg, impSubpath) \<Rightarrow>
                 if impPkg \<noteq> '''' then findPackageImport env from_dir impPkg impSubpath else []))
               (ResolveImport packageJson imp))))"

definition CrossResolve ::
  "resolve_env \<Rightarrow> JsGazelleConfig \<Rightarrow> string \<Rightarrow> import_spec \<Rightarrow> string \<Rightarrow> find_result list" where
  "CrossResolve env c fromRel spec lang =
     (case spec of (specLang, imp) \<Rightarrow>
        if specLang \<noteq> LanguageName then []
        else
          (if IsSubpathImport imp then findSubpathImport env fromRel imp
           else case ParseImportPath imp of (impPkg, impSubpath) \<Rightarrow>
             if impPkg \<noteq> '''' then findPackageImport env fromRel impPkg impSubpath else []) @
          (if ProtoAspectEnabled c then
             (case jsProtoImpToProtoSrc imp of
                Some protoSrc \<Rightarrow> re_find env (''proto'', protoSrc) ''proto'' | None \<Rightarrow> [])
           else []) @
          (if lang \<noteq> LanguageName then re_find env spec LanguageName else []))"

text \<open>\<open>FindRulesByImportWithConfig\<close> for this language, from a package.\<close>

definition find_rules :: "resolve_env \<Rightarrow> JsGazelleConfig \<Rightarrow> string \<Rightarrow> string \<Rightarrow> find_result list" where
  "find_rules env c fromRel imp =
     re_lookup env (\<lambda>spec. CrossResolve env c fromRel spec LanguageName) (js_spec imp)"

section \<open>One import\<close>

definition resolveExplicitImportFromIndex ::
  "resolve_env \<Rightarrow> JsGazelleConfig \<Rightarrow> string \<Rightarrow> label \<Rightarrow> ImportStatement \<Rightarrow>
   resolve_error + resolution \<times> label list" where
  "resolveExplicitImportFromIndex env c fromRel from_label impStm =
     (let matches = find_rules env c fromRel (is_Imp impStm)
      in if matches = [] then Inr (Resolution_NotFound, [])
         else if list_ex (\<lambda>m. re_self env m from_label) matches then Inr (Resolution_None, [])
         else if length matches > 1 \<and> \<not> IsSubpathImport (is_Imp impStm) then
           Inl (Ambiguous (is_ImportPath impStm) (is_SourcePath impStm) (map fr_Label matches))
         else Inr (Resolution_Label, map fr_Label matches))"

text \<open>The first of the candidate paths that is found, or ambiguous.\<close>

fun try_paths ::
  "resolve_env \<Rightarrow> JsGazelleConfig \<Rightarrow> string \<Rightarrow> label \<Rightarrow> ImportStatement \<Rightarrow> string list \<Rightarrow>
   resolve_error + resolution \<times> label list" where
  "try_paths env c fromRel from_label impStm [] = Inr (Resolution_NotFound, [])"
| "try_paths env c fromRel from_label impStm (p # ps) =
     (let pImp = impStm\<lparr>is_Imp := toImportSpecPath '''' (is_SourcePath impStm) p,
                        is_Kind := ImportKindNone, is_TypesOnly := False\<rparr>
      in case resolveExplicitImportFromIndex env c fromRel from_label pImp of
           Inr (Resolution_NotFound, _) \<Rightarrow> try_paths env c fromRel from_label impStm ps
         | r \<Rightarrow> r)"

definition resolveImport ::
  "resolve_env \<Rightarrow> JsGazelleConfig \<Rightarrow> string \<Rightarrow> label \<Rightarrow> ImportStatement \<Rightarrow> string \<Rightarrow> parsed_map \<Rightarrow>
   ((resolve_error + resolution \<times> label list) \<times> parsed_map) outcome" where
  "resolveImport env c fromRel from_label impStm groupName configs =
     (case resolveExplicitImportFromIndex env c fromRel from_label impStm of
        Inr (Resolution_NotFound, _) \<Rightarrow>
          (case Workspace_ExpandPaths (ge_fuel (re_gen env)) (ge_io (re_gen env)) (re_ws env) configs
                  (is_SourcePath impStm) (is_ImportPath impStm) groupName of
             None \<Rightarrow> Inl OutOfFuel
           | Some (Inl e, _) \<Rightarrow> Inl e
           | Some (Inr tsconfigPaths, configs') \<Rightarrow>
             (case try_paths env c fromRel from_label impStm tsconfigPaths of
                Inr (Resolution_NotFound, _) \<Rightarrow>
                  (case getImportLabel (re_fileLabels env) (is_Imp impStm) of
                     Some importLabel \<Rightarrow> Inr (Inr (Resolution_File, [importLabel]), configs')
                   | None \<Rightarrow>
                       if IsNodeImport (is_Imp impStm) then Inr (Inr (Resolution_NativeNode, []), configs')
                       else Inr (Inr (Resolution_NotFound, []), configs'))
              | r \<Rightarrow> Inr (r, configs')))
      | r \<Rightarrow> Inr (r, configs))"

definition resolveImportTypes ::
  "resolve_env \<Rightarrow> JsGazelleConfig \<Rightarrow> string \<Rightarrow> resolution \<Rightarrow> ImportStatement \<Rightarrow> label list outcome" where
  "resolveImportTypes env c fromRel res imp =
     (let pkg = fst (ParseImportPath (is_Imp imp))
      in if res \<noteq> Resolution_NativeNode \<and> pkg = '''' then Inr []
         else
           (case (if res = Resolution_NativeNode then Inr ''@types/node'' else ToAtTypesPackage pkg) of
              Inl e \<Rightarrow> Inl e
            | Inr typesPkg \<Rightarrow>
              (case find_rules env c fromRel typesPkg of
                 m # _ \<Rightarrow> Inr [fr_Label m]
               | [] \<Rightarrow> Inr (if res = Resolution_NotFound then re_modules env (is_Imp imp) else []))))"

section \<open>All imports of a target\<close>

text \<open>What is decided for one import: a configured label, or a resolution and its types.\<close>

datatype import_result = Configured label | Resolved resolution "label list" "label list"

definition resolve_one ::
  "resolve_env \<Rightarrow> config_chain \<Rightarrow> string \<Rightarrow> label \<Rightarrow> string \<Rightarrow> ImportStatement \<Rightarrow> parsed_map \<Rightarrow>
   ((resolve_error + import_result) \<times> parsed_map) outcome" where
  "resolve_one env cfg fromRel from_label groupName imp configs =
     (case re_override env (is_Lang imp, is_Imp imp) of
        Some l \<Rightarrow> Inr (Inr (Configured l), configs)
      | None \<Rightarrow>
        (case GetResolution cfg (is_Imp imp) of
           Some l \<Rightarrow> Inr (Inr (Configured l), configs)
         | None \<Rightarrow>
           (case resolveImport env (hd cfg) fromRel from_label imp groupName configs of
              Inl e \<Rightarrow> Inl e
            | Inr (Inl err, configs') \<Rightarrow> Inr (Inl err, configs')
            | Inr (Inr (res, labels), configs') \<Rightarrow>
              (case resolveImportTypes env (hd cfg) fromRel res imp of
                 Inl e \<Rightarrow> Inl e
               | Inr types \<Rightarrow> Inr (Inr (Resolved res labels types), configs')))))"

text \<open>The labels an import adds to \<open>deps\<close> and to \<open>fileDeps\<close>, and whether it is unknown.\<close>

definition dep_labels :: "bool \<Rightarrow> ImportStatement \<Rightarrow> import_result \<Rightarrow> label list" where
  "dep_labels split imp r =
     (case r of
        Configured l \<Rightarrow> [l]
      | Resolved res labels types \<Rightarrow>
          types @ (if (\<not> is_TypesOnly imp \<or> types = []) \<and> \<not> (res = Resolution_File \<and> split)
                   then labels else []))"

definition file_dep_labels :: "bool \<Rightarrow> ImportStatement \<Rightarrow> import_result \<Rightarrow> label list" where
  "file_dep_labels split imp r =
     (case r of
        Configured l \<Rightarrow> []
      | Resolved res labels types \<Rightarrow>
          if (\<not> is_TypesOnly imp \<or> types = []) \<and> res = Resolution_File \<and> split then labels else [])"

definition unknown_import :: "JsGazelleConfig \<Rightarrow> ImportStatement \<Rightarrow> import_result \<Rightarrow> bool" where
  "unknown_import c imp r =
     (case r of
        Configured l \<Rightarrow> False
      | Resolved res labels types \<Rightarrow>
          res = Resolution_NotFound \<and> types = [] \<and> \<not> is_Optional imp \<and>
          jc_validateImportStatements c \<noteq> ValidationOff)"

fun resolve_loop ::
  "resolve_env \<Rightarrow> config_chain \<Rightarrow> string \<Rightarrow> label \<Rightarrow> string \<Rightarrow> ImportStatement list \<Rightarrow>
   label_set \<times> label_set option \<times> (string \<times> string) list \<times> parsed_map \<Rightarrow>
   (resolve_error option \<times> label_set \<times> label_set option \<times> (string \<times> string) list \<times> parsed_map) outcome" where
  "resolve_loop env cfg fromRel from_label g [] st = Inr (None, st)"
| "resolve_loop env cfg fromRel from_label g (imp # imps) (deps, fileDeps, errs, configs) =
     (case resolve_one env cfg fromRel from_label g imp configs of
        Inl e \<Rightarrow> Inl e
      | Inr (Inl err, configs') \<Rightarrow> Inr (Some err, deps, fileDeps, errs, configs')
      | Inr (Inr r, configs') \<Rightarrow>
          (let split = (fileDeps \<noteq> None); add = foldl (LabelSet_Add (re_labels env))
           in resolve_loop env cfg fromRel from_label g imps
                (add deps (dep_labels split imp r),
                 map_option (\<lambda>fd. add fd (file_dep_labels split imp r)) fileDeps,
                 if unknown_import (hd cfg) imp r then errs @ [(is_ImportPath imp, is_SourcePath imp)] else errs,
                 configs')))"

record resolve_state =
  rs_exts :: exts
  rs_stderr :: "string list"
  rs_configs :: parsed_map

definition resolveImports ::
  "resolve_env \<Rightarrow> config_chain \<Rightarrow> string \<Rightarrow> label_set \<Rightarrow> label_set option \<Rightarrow> ImportStatement list \<Rightarrow>
   label \<Rightarrow> string \<Rightarrow> resolve_state \<Rightarrow>
   (resolve_error option \<times> label_set \<times> label_set option \<times> resolve_state) outcome" where
  "resolveImports env cfg fromRel deps fileDeps imports from_label groupName s =
     (case resolve_loop env cfg fromRel from_label groupName imports (deps, fileDeps, [], rs_configs s) of
        Inl e \<Rightarrow> Inl e
      | Inr (Some err, deps', fileDeps', _, configs) \<Rightarrow> Inr (Some err, deps', fileDeps', s\<lparr>rs_configs := configs\<rparr>)
      | Inr (None, deps', fileDeps', errs, configs) \<Rightarrow>
          (let s1 = s\<lparr>rs_configs := configs\<rparr>; msg = re_report env (UnknownImports from_label errs)
           in if errs = [] then Inr (None, deps', fileDeps', s1)
              else case jc_validateImportStatements (hd cfg) of
                ValidationError \<Rightarrow>
                  (case ImportErrorf (rs_exts s1) msg of
                     Inl e \<Rightarrow> Inl e | Inr x \<Rightarrow> Inr (None, deps', fileDeps', s1\<lparr>rs_exts := x\<rparr>))
              | ValidationWarn \<Rightarrow> Inr (None, deps', fileDeps', s1\<lparr>rs_stderr := rs_stderr s1 @ [msg]\<rparr>)
              | ValidationOff \<Rightarrow> Inr (None, deps', fileDeps', s1)))"

section \<open>The rule\<close>

definition addTsLib ::
  "resolve_env \<Rightarrow> label_set \<Rightarrow> label \<Rightarrow> string \<Rightarrow> parsed_map \<Rightarrow> (label_set \<times> parsed_map) outcome" where
  "addTsLib env deps from_label groupName configs =
     (case FindConfig (ge_fuel (re_gen env)) (ge_io (re_gen env)) (re_ws env) configs (Pkg from_label) groupName of
        None \<Rightarrow> Inl OutOfFuel
      | Some ((_, _, tsconfig), configs') \<Rightarrow>
          Inr (case tsconfig of
                 Some tc \<Rightarrow>
                   if ImportHelpers tc then
                     (case findPackage (tw_pnpmProjects (re_ws env)) (Pkg from_label) ''tslib'' of
                        Some l \<Rightarrow> LabelSet_Add (re_labels env) deps l | None \<Rightarrow> deps)
                   else deps
               | None \<Rightarrow> deps, configs'))"

definition dep_kinds :: "string list" where
  "dep_kinds = [''ts_project'', ''js_library'', ''ts_config'', ''ts_proto_library'']"

text \<open>The info of the import data, and the source and sources of a package's.\<close>

definition data_info :: "import_data \<Rightarrow> (TsProjectInfo \<times> (label option \<times> string list) option) option" where
  "data_info d =
     (case d of
        PackageInfo p \<Rightarrow>
          Some (\<lparr>pi_groupName = pi_groupName p, pi_imports = pi_imports p, pi_sources = pi_sources p,
                 pi_staticDeps = pi_staticDeps p\<rparr>, Some (pk_source p, pi_sources p))
      | ProjectInfo p \<Rightarrow> Some (p, None)
      | LinkAllPackagesImports \<Rightarrow> None)"

definition set_srcs :: "string list \<Rightarrow> rule \<Rightarrow> rule" where
  "set_srcs srcs r = (if srcs \<noteq> [] then SetAttr ''srcs'' (VStrings srcs) r else r)"

definition resolve_deps ::
  "resolve_env \<Rightarrow> config_chain \<Rightarrow> string \<Rightarrow> rule \<Rightarrow> TsProjectInfo \<Rightarrow> (label option \<times> string list) option \<Rightarrow>
   label \<Rightarrow> resolve_state \<Rightarrow> (rule \<times> resolve_state) outcome" where
  "resolve_deps env cfg fromRel r info pkg from_label s =
     (let add = LabelSet_Add (re_labels env);
          deps0 = (case pkg of Some (Some src, _) \<Rightarrow> add (NewLabelSet from_label) src | _ \<Rightarrow> NewLabelSet from_label);
          fileDeps0 = map_option (\<lambda>_. NewLabelSet from_label) pkg
      in case resolveImports env cfg fromRel deps0 fileDeps0 (pi_imports info) from_label (pi_groupName info) s of
           Inl e \<Rightarrow> Inl e
         | Inr (Some err, _, _, s1) \<Rightarrow>
             (case ImportErrorf (rs_exts s1) (re_report env err) of
                Inl e \<Rightarrow> Inl e | Inr x \<Rightarrow> Inr (r, s1\<lparr>rs_exts := x\<rparr>))
         | Inr (None, deps1, fileDeps, s1) \<Rightarrow>
             (let deps2 = foldl add deps1 (pi_staticDeps info)
              in case (if ru_kind r = ''ts_project''
                       then addTsLib env deps2 from_label (pi_groupName info) (rs_configs s1)
                       else Inr (deps2, rs_configs s1)) of
                   Inl e \<Rightarrow> Inl e
                 | Inr (deps, configs) \<Rightarrow>
                     (let r1 = (case (pkg, fileDeps) of
                            (Some (_, sources), Some fd) \<Rightarrow>
                              set_srcs (sources @ map (re_str env) (LabelSet_Labels fd)) r
                          | _ \<Rightarrow> r)
                      in Inr (if \<not> LabelSet_Empty deps then SetAttr ''deps'' (VLabels (LabelSet_Labels deps)) r1
                              else r1, s1\<lparr>rs_configs := configs\<rparr>))))"

definition resolve_package ::
  "resolve_env \<Rightarrow> config_chain \<Rightarrow> string \<Rightarrow> rule \<Rightarrow> TsProjectInfo \<Rightarrow> label option \<Rightarrow>
   label \<Rightarrow> resolve_state \<Rightarrow> (rule \<times> resolve_state) outcome" where
  "resolve_package env cfg fromRel r info src from_label s =
     (case resolveImports env cfg fromRel (NewLabelSet from_label) None (pi_imports info) from_label
             (pi_groupName info) s of
        Inl e \<Rightarrow> Inl e
      | Inr (Some err, _, _, s1) \<Rightarrow>
          (case ImportErrorf (rs_exts s1) (re_report env err) of
             Inl e \<Rightarrow> Inl e | Inr x \<Rightarrow> Inr (r, s1\<lparr>rs_exts := x\<rparr>))
      | Inr (None, deps, _, s1) \<Rightarrow>
          Inr (set_srcs (pi_sources info @ map (re_str env) (LabelSet_Labels deps) @
                 (case src of Some l \<Rightarrow> [re_str env l] | None \<Rightarrow> [])) r, s1))"

definition Resolve ::
  "resolve_env \<Rightarrow> config_chain \<Rightarrow> string \<Rightarrow> rule \<Rightarrow> import_data \<Rightarrow> label \<Rightarrow> resolve_state \<Rightarrow>
   (rule \<times> resolve_state) outcome" where
  "Resolve env cfg fromRel r importData from_label s =
     (if ru_kind r \<in> set dep_kinds then
        (case data_info importData of
           None \<Rightarrow> Inr (r, s)
         | Some (info, pkg) \<Rightarrow> resolve_deps env cfg fromRel r info pkg from_label s)
      else if ru_kind r = ''npm_package'' then
        (case data_info importData of
           Some (info, Some (src, _)) \<Rightarrow> resolve_package env cfg fromRel r info src from_label s
         | _ \<Rightarrow> Inr (r, s))
      else Inr (r, s))"

section \<open>Lemmas\<close>

text \<open>What the loop accumulates, for the results of the imports in order.\<close>

definition all_labels ::
  "(bool \<Rightarrow> ImportStatement \<Rightarrow> import_result \<Rightarrow> label list) \<Rightarrow> bool \<Rightarrow> (ImportStatement \<times> import_result) list \<Rightarrow>
   label list" where
  "all_labels f split irs = concat (map (\<lambda>(i, r). f split i r) irs)"

definition unknowns :: "JsGazelleConfig \<Rightarrow> (ImportStatement \<times> import_result) list \<Rightarrow> (string \<times> string) list" where
  "unknowns c irs =
     map (\<lambda>(i, r). (is_ImportPath i, is_SourcePath i)) (filter (\<lambda>(i, r). unknown_import c i r) irs)"

definition decided ::
  "resolve_env \<Rightarrow> config_chain \<Rightarrow> string \<Rightarrow> label \<Rightarrow> string \<Rightarrow> ImportStatement \<times> import_result \<Rightarrow> bool" where
  "decided env cfg fromRel from_label g ir \<longleftrightarrow>
     (\<exists>configs configs'. resolve_one env cfg fromRel from_label g (fst ir) configs = Inr (Inr (snd ir), configs'))"

lemma resolve_loop_results:
  "resolve_loop env cfg fromRel from_label g imps (deps, fileDeps, errs, configs) =
     Inr (None, deps', fileDeps', errs', configs') \<Longrightarrow>
   \<exists>rs. length rs = length imps \<and>
     list_all (decided env cfg fromRel from_label g) (zip imps rs) \<and>
     deps' = foldl (LabelSet_Add (re_labels env)) deps (all_labels dep_labels (fileDeps \<noteq> None) (zip imps rs)) \<and>
     fileDeps' = map_option (\<lambda>fd. foldl (LabelSet_Add (re_labels env)) fd
        (all_labels file_dep_labels (fileDeps \<noteq> None) (zip imps rs))) fileDeps \<and>
     errs' = errs @ unknowns (hd cfg) (zip imps rs)"
proof (induction imps arbitrary: deps fileDeps errs configs)
  case Nil
  then show ?case by (simp add: all_labels_def unknowns_def option.map_ident)
next
  case (Cons imp imps)
  from Cons.prems obtain r configs1 where
    one: "resolve_one env cfg fromRel from_label g imp configs = Inr (Inr r, configs1)"
    by (auto split: sum.splits option.splits)
  let ?add = "foldl (LabelSet_Add (re_labels env))"
  let ?fd = "map_option (\<lambda>fd. ?add fd (file_dep_labels (fileDeps \<noteq> None) imp r)) fileDeps"
  have rest: "resolve_loop env cfg fromRel from_label g imps
      (?add deps (dep_labels (fileDeps \<noteq> None) imp r), ?fd,
       if unknown_import (hd cfg) imp r then errs @ [(is_ImportPath imp, is_SourcePath imp)] else errs, configs1) =
     Inr (None, deps', fileDeps', errs', configs')"
    using Cons.prems one by (simp add: Let_def)
  have split: "(?fd \<noteq> None) = (fileDeps \<noteq> None)" by simp
  from Cons.IH [OF rest, unfolded split] obtain rs where rs: "length rs = length imps"
    "list_all (decided env cfg fromRel from_label g) (zip imps rs)"
    "deps' = ?add (?add deps (dep_labels (fileDeps \<noteq> None) imp r)) (all_labels dep_labels (fileDeps \<noteq> None) (zip imps rs))"
    "fileDeps' = map_option (\<lambda>fd. ?add fd (all_labels file_dep_labels (fileDeps \<noteq> None) (zip imps rs))) ?fd"
    "errs' = (if unknown_import (hd cfg) imp r then errs @ [(is_ImportPath imp, is_SourcePath imp)] else errs) @
       unknowns (hd cfg) (zip imps rs)"
    by blast
  have "decided env cfg fromRel from_label g (imp, r)"
    using one by (auto simp: decided_def)
  with rs show ?case
    by (intro exI [of _ "r # rs"])
       (auto simp: all_labels_def unknowns_def option.map_comp comp_def)
qed

text \<open>The report that unknown imports end in.\<close>

definition reported ::
  "resolve_env \<Rightarrow> JsGazelleConfig \<Rightarrow> label \<Rightarrow> (string \<times> string) list \<Rightarrow> resolve_state \<Rightarrow> resolve_state \<Rightarrow> bool" where
  "reported env c from_label errs s s' \<longleftrightarrow>
     (if errs = [] \<or> jc_validateImportStatements c = ValidationOff
      then rs_exts s' = rs_exts s \<and> rs_stderr s' = rs_stderr s
      else if jc_validateImportStatements c = ValidationWarn
      then rs_exts s' = rs_exts s \<and> rs_stderr s' = rs_stderr s @ [re_report env (UnknownImports from_label errs)]
      else ImportErrorf (rs_exts s) (re_report env (UnknownImports from_label errs)) = Inr (rs_exts s') \<and>
           rs_stderr s' = rs_stderr s)"

lemma resolveImports_results:
  assumes "resolveImports env cfg fromRel deps fileDeps imps from_label g s = Inr (None, deps', fileDeps', s')"
  obtains rs where "length rs = length imps"
    "list_all (decided env cfg fromRel from_label g) (zip imps rs)"
    "deps' = foldl (LabelSet_Add (re_labels env)) deps (all_labels dep_labels (fileDeps \<noteq> None) (zip imps rs))"
    "fileDeps' = map_option (\<lambda>fd. foldl (LabelSet_Add (re_labels env)) fd
        (all_labels file_dep_labels (fileDeps \<noteq> None) (zip imps rs))) fileDeps"
    "reported env (hd cfg) from_label (unknowns (hd cfg) (zip imps rs)) s s'"
proof -
  from assms obtain errs configs where loop:
    "resolve_loop env cfg fromRel from_label g imps (deps, fileDeps, [], rs_configs s) =
      Inr (None, deps', fileDeps', errs, configs)"
    and rep: "reported env (hd cfg) from_label errs s s'"
    by (auto simp: resolveImports_def Let_def reported_def split: sum.splits option.splits if_splits
        ValidationMode.splits)
  from resolve_loop_results [OF loop] rep that show ?thesis by auto
qed

definition found :: "resolution \<times> label list \<Rightarrow> bool" where
  "found r \<longleftrightarrow> (fst r \<in> {Resolution_Label, Resolution_File} \<longrightarrow> snd r \<noteq> [])"

lemma explicit_found:
  "resolveExplicitImportFromIndex env c fromRel from_label i = Inr r \<Longrightarrow> found r"
  by (auto simp: resolveExplicitImportFromIndex_def Let_def found_def split: if_splits)

lemma try_paths_found: "try_paths env c fromRel from_label i ps = Inr r \<Longrightarrow> found r"
proof (induction env c fromRel from_label i ps rule: try_paths.induct)
  case (2 env c fromRel from_label i p ps)
  then show ?case
    by (auto simp: Let_def split: sum.splits prod.splits resolution.splits dest: explicit_found)
qed (auto simp: found_def)

lemma resolveImport_found:
  assumes "resolveImport env c fromRel from_label i g configs = Inr (Inr r, configs')"
  shows "found r"
proof (cases "resolveExplicitImportFromIndex env c fromRel from_label i")
  case (Inl e)
  with assms show ?thesis by (simp add: resolveImport_def)
next
  case (Inr x)
  obtain res ls where x: "x = (res, ls)" by (cases x)
  show ?thesis
  proof (cases "res = Resolution_NotFound")
    case False
    with assms Inr x have "r = x" by (cases res) (simp_all add: resolveImport_def)
    with explicit_found [OF Inr] show ?thesis by simp
  next
    case True
    with assms Inr x obtain paths configs1 where
      "Workspace_ExpandPaths (ge_fuel (re_gen env)) (ge_io (re_gen env)) (re_ws env) configs
         (is_SourcePath i) (is_ImportPath i) g = Some (Inr paths, configs1)"
      by (auto simp: resolveImport_def split: option.splits sum.splits)
    note ex = this
    show ?thesis
    proof (cases "try_paths env c fromRel from_label i paths")
      case (Inl e)
      with assms Inr x True ex show ?thesis by (simp add: resolveImport_def)
    next
      case tried: (Inr y)
      obtain res' ls' where y: "y = (res', ls')" by (cases y)
      show ?thesis
      proof (cases "res' = Resolution_NotFound")
        case True
        with assms Inr x \<open>res = Resolution_NotFound\<close> ex tried y show ?thesis
          by (auto simp: resolveImport_def found_def split: option.splits if_splits)
      next
        case False
        with assms Inr x \<open>res = Resolution_NotFound\<close> ex tried y have "r = y"
          by (cases res') (simp_all add: resolveImport_def)
        with try_paths_found [OF tried] show ?thesis by simp
      qed
    qed
  qed
qed

lemma decided_found:
  "decided env cfg fromRel from_label g (i, Resolved res labels types) \<Longrightarrow> found (res, labels)"
  unfolding decided_def resolve_one_def
  by (elim exE) (auto split: option.splits sum.splits, erule resolveImport_found)

text \<open>An import that leaves no trace in the dependencies although it was meant to have one.\<close>

definition untraced :: "JsGazelleConfig \<Rightarrow> bool \<Rightarrow> ImportStatement \<times> import_result \<Rightarrow> bool" where
  "untraced c split ir \<longleftrightarrow>
     (case ir of (i, r) \<Rightarrow>
        dep_labels split i r @ file_dep_labels split i r = [] \<and>
        \<not> (\<exists>labels types. r = Resolved Resolution_None labels types \<or> r = Resolved Resolution_NativeNode labels types) \<and>
        \<not> is_Optional i \<and> jc_validateImportStatements c \<noteq> ValidationOff)"

lemma untraced_unknown:
  assumes "decided env cfg fromRel from_label g (i, r)" "untraced c split (i, r)"
  shows "unknown_import c i r"
proof (cases r)
  case (Configured l)
  with assms(2) show ?thesis by (simp add: untraced_def dep_labels_def)
next
  case (Resolved res labels types)
  from decided_found [OF assms(1) [unfolded Resolved]] assms(2) Resolved show ?thesis
    by (cases res) (auto simp: untraced_def unknown_import_def dep_labels_def file_dep_labels_def found_def
        split: if_splits)
qed

text \<open>
  C7 (safety). No import is lost. When resolving the imports of a target succeeds, each import
  has been decided by \<open>resolve_one\<close>; the dependencies are exactly the previous ones and the
  labels of the decided imports (raw files split off for a package); and every import that left no
  trace, without being a self import, a native module, optional or unvalidated, is in the report
  of unknown imports, which is surfaced as an error or a warning as configured.
\<close>

theorem imports_accounted:
  assumes "treeset_law LabelComparator (label_add (re_labels env))"
    and "resolveImports env cfg fromRel (NewLabelSet from_label) fileDeps imps from_label g s =
       Inr (None, deps', fileDeps', s')"
  shows "\<exists>rs. length rs = length imps \<and>
    list_all (decided env cfg fromRel from_label g) (zip imps rs) \<and>
    set (LabelSet_Labels deps') = labels_of (re_labels env) from_label
      (set (all_labels dep_labels (fileDeps \<noteq> None) (zip imps rs))) \<and>
    (fileDeps = Some (NewLabelSet from_label) \<longrightarrow>
      (\<exists>fd. fileDeps' = Some fd \<and> set (LabelSet_Labels fd) = labels_of (re_labels env) from_label
         (set (all_labels file_dep_labels True (zip imps rs))))) \<and>
    reported env (hd cfg) from_label (unknowns (hd cfg) (zip imps rs)) s s' \<and>
    (\<forall>(i, r) \<in> set (zip imps rs). untraced (hd cfg) (fileDeps \<noteq> None) (i, r) \<longrightarrow>
       (is_ImportPath i, is_SourcePath i) \<in> set (unknowns (hd cfg) (zip imps rs)))"
proof -
  have new: "sorted_wrt (<) (ls_labels (NewLabelSet from_label))" by (simp add: NewLabelSet_def)
  note labels = foldl_Add_labels [OF assms(1) new, THEN conjunct2]
  from resolveImports_results [OF assms(2)] obtain rs where rs: "length rs = length imps"
    "list_all (decided env cfg fromRel from_label g) (zip imps rs)"
    "deps' = foldl (LabelSet_Add (re_labels env)) (NewLabelSet from_label)
       (all_labels dep_labels (fileDeps \<noteq> None) (zip imps rs))"
    "fileDeps' = map_option (\<lambda>fd. foldl (LabelSet_Add (re_labels env)) fd
        (all_labels file_dep_labels (fileDeps \<noteq> None) (zip imps rs))) fileDeps"
    "reported env (hd cfg) from_label (unknowns (hd cfg) (zip imps rs)) s s'" by blast
  have "(is_ImportPath i, is_SourcePath i) \<in> set (unknowns (hd cfg) (zip imps rs))"
    if "(i, r) \<in> set (zip imps rs)" "untraced (hd cfg) (fileDeps \<noteq> None) (i, r)" for i r
  proof -
    have "decided env cfg fromRel from_label g (i, r)" using rs(2) that(1) by (simp add: list_all_iff)
    from untraced_unknown [OF this that(2)] that(1) show ?thesis by (force simp: unknowns_def)
  qed
  moreover have "set (LabelSet_Labels deps') = labels_of (re_labels env) from_label
      (set (all_labels dep_labels (fileDeps \<noteq> None) (zip imps rs)))"
    unfolding rs(3) LabelSet_Labels_def using labels by (simp add: NewLabelSet_def)
  moreover have "fileDeps = Some (NewLabelSet from_label) \<longrightarrow>
      (\<exists>fd. fileDeps' = Some fd \<and> set (LabelSet_Labels fd) = labels_of (re_labels env) from_label
         (set (all_labels file_dep_labels True (zip imps rs))))"
    unfolding rs(4) LabelSet_Labels_def using labels by (simp add: NewLabelSet_def)
  ultimately show ?thesis using rs(1,2,5) by (intro exI [of _ rs]) blast
qed

definition sample_resolve_env :: resolve_env where
  "sample_resolve_env =
     \<lparr>re_gen = sample_gen_env, re_find = (\<lambda>_ _. []),
      re_lookup = (\<lambda>cross spec. if snd spec = ''b'' then [\<lparr>fr_Label = Label '''' ''q'' ''b'' False, fr_Embeds = []\<rparr>]
        else cross spec),
      re_override = (\<lambda>_. None), re_self = (\<lambda>r l. fr_Label r = l), re_labels = sample_api,
      re_str = Name, re_report = (\<lambda>_. ''unknown''), re_modules = (\<lambda>_. []), re_fileLabels = Map.empty\<rparr>"

abbreviation sample_imports :: "ImportStatement list" where
  "sample_imports \<equiv> [ts_import ''b'' ''b'' ''p/a.ts'' False]"

abbreviation sample_resolve_state :: resolve_state where
  "sample_resolve_state \<equiv> \<lparr>rs_exts = None, rs_stderr = [], rs_configs = Map.empty\<rparr>"

lemma sample_resolve:
  "\<exists>deps' s'. resolveImports sample_resolve_env [newRootConfig] ''p'' (NewLabelSet (Label '''' ''p'' ''lib'' False))
     None sample_imports (Label '''' ''p'' ''lib'' False) '''' sample_resolve_state = Inr (None, deps', None, s')"
proof -
  have pkg: "ParseImportPath ''b'' = (''b'', '''')" "ParseImportPath ''@types/b'' = (''@types/b'', '''')"
    by (simp_all add: ParseImportPath_def)
  have types: "ToAtTypesPackage ''b'' = Inr ''@types/b''" by (simp add: ToAtTypesPackage_def)
  have cross: "CrossResolve sample_resolve_env newRootConfig ''p'' (LanguageName, ''@types/b'') LanguageName = []"
    by (simp add: CrossResolve_def IsSubpathImport_def pkg findPackageImport_def findPackageSelfReference_def
        packageScopeDir.simps sample_resolve_env_def sample_gen_env_def NewTsWorkspace_def path_split_def
        upto_last_def TrimSuffix_def findPackage_def sample_no_project ProtoAspectEnabled_def newRootConfig_def)
  have rules: "find_rules sample_resolve_env newRootConfig ''p'' ''b'' =
      [\<lparr>fr_Label = Label '''' ''q'' ''b'' False, fr_Embeds = []\<rparr>]"
    "find_rules sample_resolve_env newRootConfig ''p'' ''@types/b'' = []"
    using cross by (simp_all add: find_rules_def js_spec_def) (simp_all add: sample_resolve_env_def)
  have fields: "re_override sample_resolve_env = (\<lambda>_. None)"
    "re_self sample_resolve_env = (\<lambda>r l. fr_Label r = l)" "re_modules sample_resolve_env = (\<lambda>_. [])"
    by (simp_all add: sample_resolve_env_def)
  have ign: "GetResolution [newRootConfig] ''b'' = None"
    by (simp add: newRootConfig_def)
  have "resolve_one sample_resolve_env [newRootConfig] ''p'' (Label '''' ''p'' ''lib'' False) ''''
      (ts_import ''b'' ''b'' ''p/a.ts'' False) Map.empty =
      Inr (Inr (Resolved Resolution_Label [Label '''' ''q'' ''b'' False] []), Map.empty)"
    by (simp del: GetResolution.simps add: ign rules fields resolve_one_def ts_import_def resolveImport_def
        resolveExplicitImportFromIndex_def resolveImportTypes_def pkg types)
  then show ?thesis
    by (simp add: resolveImports_def Let_def unknown_import_def)
qed

theorem imports_accounted_witness:
  "\<exists>deps' s' rs. resolveImports sample_resolve_env [newRootConfig] ''p''
     (NewLabelSet (Label '''' ''p'' ''lib'' False)) None sample_imports (Label '''' ''p'' ''lib'' False) ''''
     sample_resolve_state = Inr (None, deps', None, s') \<and> length rs = 1 \<and>
   set (LabelSet_Labels deps') = labels_of sample_api (Label '''' ''p'' ''lib'' False)
     (set (all_labels dep_labels False (zip sample_imports rs)))"
proof -
  obtain deps' s' where run: "resolveImports sample_resolve_env [newRootConfig] ''p''
      (NewLabelSet (Label '''' ''p'' ''lib'' False)) None sample_imports (Label '''' ''p'' ''lib'' False) ''''
      sample_resolve_state = Inr (None, deps', None, s')" using sample_resolve by blast
  have law: "treeset_law LabelComparator (label_add (re_labels sample_resolve_env))"
    using sample_api_law by (simp add: sample_resolve_env_def)
  from imports_accounted [OF law run] run show ?thesis by (auto simp: sample_resolve_env_def)
qed

end
