(* ===== verification/Ibp.thy ===== *)
theory Ibp
  imports Prelude Complex_Main "HOL-Library.Word"
begin

text \<open>
  The incremental build protocol between the host and a watching client
  (\<open>runner/pkg/ibp/protocol.go\<close>, \<open>client.go\<close>). A peer is a state machine whose phases are the
  calls of \<open>Recv\<close> it blocks in; receiving a message runs the code up to the next one and gives
  the messages sent. Messages are decoded JSON objects; a JSON number is a rational, converted to
  an integer by truncation (Go leaves the conversion of values beyond 64 bits open).
\<close>

section \<open>Messages\<close>

datatype jv = JNull | JBool bool | JNumber rat | JString string | JArray "jv list" | JObject "(string \<times> jv) list"

type_synonym msg = "string \<rightharpoonup> jv"

definition to_int :: "rat \<Rightarrow> int" where
  "to_int x = (if 0 \<le> x then \<lfloor>x\<rfloor> else \<lceil>x\<rceil>)"

definition HasCapMessage :: "int \<Rightarrow> bool" where "HasCapMessage v = (v > 0)"
definition HasScopeCap :: "int \<Rightarrow> bool" where "HasScopeCap v = (v > 0)"
definition HasResetMessage :: "int \<Rightarrow> bool" where "HasResetMessage v = (v \<ge> 2)"

definition abazelSupportedProtocolVersions :: "int list" where
  "abazelSupportedProtocolVersions = [2, 1, 0]"

definition WatchCapability_WatchScope :: string where "WatchCapability_WatchScope = ''scope''"
definition WatchCapability_OTEL :: string where "WatchCapability_OTEL = ''otel''"
definition WatchScope_Sources :: string where "WatchScope_Sources = ''sources''"
definition WatchScope_Runfiles :: string where "WatchScope_Runfiles = ''runfiles''"

text \<open>The Go value of a capability: a list of scopes, a boolean, or what was decoded.\<close>

datatype cap_value = CapScopes "string list" | CapBool bool | CapRaw jv

type_synonym caps = "(string, cap_value) gomap"

datatype caps_error = CapsNotObject jv | ScopesNotList jv | ScopeNotString jv | UnknownScope string | NoScopes

datatype ibp_error =
    NotReady string
  | ResetUnsupported int
  | ExpectedKind string
  | InvalidVersion
  | UnsupportedVersion rat
  | BadCaps caps_error
  | InvalidCycleId
  | WrongCycle int
  | UnexpectedResponse
  | NoVersions
  | NoCommonVersion
  | CapsUnsupported int
  | BadCycle
  | RecvFailed

section \<open>Capabilities\<close>

fun read_scopes :: "jv list \<Rightarrow> caps_error + string list" where
  "read_scopes [] = Inr []"
| "read_scopes (v # vs) =
     (case v of
        JString s \<Rightarrow>
          if s \<in> {WatchScope_Sources, WatchScope_Runfiles} then
            (case read_scopes vs of Inl e \<Rightarrow> Inl e | Inr ss \<Rightarrow> Inr (s # ss))
          else Inl (UnknownScope s)
      | _ \<Rightarrow> Inl (ScopeNotString v))"

definition readScopeCapList :: "jv \<Rightarrow> caps_error + string list" where
  "readScopeCapList val =
     (case val of
        JArray listVal \<Rightarrow>
          (case read_scopes listVal of
             Inl e \<Rightarrow> Inl e | Inr scopes \<Rightarrow> if scopes = [] then Inl NoScopes else Inr scopes)
      | _ \<Rightarrow> Inl (ScopesNotList val))"

definition readCapBool :: "jv \<Rightarrow> bool" where
  "readCapBool val = (case val of JBool b \<Rightarrow> b | _ \<Rightarrow> False)"

definition read_cap :: "string \<Rightarrow> jv \<Rightarrow> caps_error + cap_value" where
  "read_cap cap val =
     (if cap = WatchCapability_WatchScope then
        (case readScopeCapList val of Inl e \<Rightarrow> Inl e | Inr ss \<Rightarrow> Inr (CapScopes ss))
      else if cap = WatchCapability_OTEL then Inr (CapBool (readCapBool val))
      else Inr (CapRaw val))"

fun read_caps :: "(string \<times> jv) list \<Rightarrow> caps \<Rightarrow> caps_error + caps" where
  "read_caps [] caps = Inr caps"
| "read_caps ((cap, val) # rest) caps =
     (case read_cap cap val of Inl e \<Rightarrow> Inl e | Inr v \<Rightarrow> read_caps rest (al_put caps cap v))"

definition default_caps :: caps where
  "default_caps = [(WatchCapability_WatchScope, CapScopes [WatchScope_Runfiles])]"

definition readCapsRequestMap :: "jv option \<Rightarrow> caps_error + caps" where
  "readCapsRequestMap rawCaps =
     (case rawCaps of
        None \<Rightarrow> Inr default_caps
      | Some JNull \<Rightarrow> Inr default_caps
      | Some (JObject enabled) \<Rightarrow> read_caps enabled default_caps
      | Some v \<Rightarrow> Inl (CapsNotObject v))"

definition readCapsResponseMap :: "jv option \<Rightarrow> caps_error + caps" where
  "readCapsResponseMap rawCaps = readCapsRequestMap rawCaps"

definition cap_json :: "cap_value \<Rightarrow> jv" where
  "cap_json v = (case v of CapScopes ss \<Rightarrow> JArray (map JString ss) | CapBool b \<Rightarrow> JBool b | CapRaw r \<Rightarrow> r)"

definition caps_json :: "caps \<Rightarrow> jv" where
  "caps_json caps = JObject (map (\<lambda>(k, v). (k, cap_json v)) caps)"

section \<open>The server\<close>

datatype server_phase = SAwaitVersion | SAwaitCaps int | SReady | SAwaitCycle int | SFailed ibp_error

record ibp_server =
  sv_phase :: server_phase
  sv_version :: "int option"
  sv_caps :: "caps option"
  sv_cycle :: "32 word"

definition NewServer :: ibp_server where
  "NewServer = \<lparr>sv_phase = SAwaitVersion, sv_version = None, sv_caps = None, sv_cycle = 0\<rparr>"

text \<open>\<open>connectedCh\<close> is closed exactly when the version is known.\<close>

definition IsReady :: "ibp_server \<Rightarrow> bool" where
  "IsReady p = (sv_version p \<noteq> None)"

definition NegotiatedVersion :: "ibp_server \<Rightarrow> int" where
  "NegotiatedVersion p = (case sv_version p of Some v \<Rightarrow> v | None \<Rightarrow> -1)"

definition WatchingScope :: "ibp_server \<Rightarrow> string \<Rightarrow> bool outcome" where
  "WatchingScope p s =
     (case (if IsReady p then Option.bind (sv_caps p) (\<lambda>c. map_of c WatchCapability_WatchScope) else None) of
        None \<Rightarrow> Inr (s = WatchScope_Runfiles)
      | Some (CapScopes scopes) \<Rightarrow> Inr (s \<in> set scopes)
      | Some _ \<Rightarrow> Inl (Panic ''interface conversion''))"

definition isOTELCapEnabled :: "ibp_server \<Rightarrow> bool" where
  "isOTELCapEnabled p =
     (case sv_caps p of None \<Rightarrow> False | Some c \<Rightarrow> map_of c WatchCapability_OTEL = Some (CapBool True))"

text \<open>The trace and span ids of the context, empty when it has none.\<close>

type_synonym trace = "string \<times> string"

definition with_string :: "string \<Rightarrow> string \<Rightarrow> msg \<Rightarrow> msg" where
  "with_string k v m = (if v = '''' then m else m(k \<mapsto> JString v))"

definition otelMessage :: "ibp_server \<Rightarrow> trace \<Rightarrow> string \<Rightarrow> msg" where
  "otelMessage p tr kind =
     (if isOTELCapEnabled p
      then with_string ''span_id'' (snd tr) (with_string ''trace_id'' (fst tr) [''kind'' \<mapsto> JString kind])
      else [''kind'' \<mapsto> JString kind])"

definition negotiate_message :: "ibp_server \<Rightarrow> trace \<Rightarrow> msg" where
  "negotiate_message p tr =
     (otelMessage p tr ''NEGOTIATE'')
       (''versions'' \<mapsto> JArray (map (\<lambda>v. JNumber (of_int v)) abazelSupportedProtocolVersions))"

definition is_kind :: "msg \<Rightarrow> string \<Rightarrow> bool" where
  "is_kind m k = (m ''kind'' = Some (JString k))"

text \<open>The answer to NEGOTIATE.\<close>

definition read_version :: "msg \<Rightarrow> ibp_error + int" where
  "read_version negResp =
     (if \<not> is_kind negResp ''NEGOTIATE_RESPONSE'' then Inl (ExpectedKind ''NEGOTIATE_RESPONSE'')
      else case negResp ''version'' of
        Some (JNumber raw) \<Rightarrow>
          if to_int raw \<in> set abazelSupportedProtocolVersions then Inr (to_int raw)
          else Inl (UnsupportedVersion raw)
      | _ \<Rightarrow> Inl InvalidVersion)"

definition server_ready :: "int \<Rightarrow> ibp_server \<Rightarrow> ibp_server" where
  "server_ready v p = p\<lparr>sv_phase := SReady, sv_version := Some v\<rparr>"

definition negotiateCapabilities ::
  "trace \<Rightarrow> int \<Rightarrow> msg \<Rightarrow> ibp_server \<Rightarrow> ibp_error + ibp_server \<times> msg" where
  "negotiateCapabilities tr version capsResp p =
     (if \<not> is_kind capsResp ''CAPS'' then Inl (ExpectedKind ''CAPS'')
      else case readCapsRequestMap (capsResp ''caps'') of
        Inl e \<Rightarrow> Inl (BadCaps e)
      | Inr caps \<Rightarrow>
          (let p' = p\<lparr>sv_caps := Some caps\<rparr>
           in Inr (p', (otelMessage p' tr ''CAPS_RESPONSE'')(''caps'' \<mapsto> caps_json caps))))"

text \<open>\<open>None\<close>: the cycle is still pending; otherwise the result of the call.\<close>

definition await_response :: "int \<Rightarrow> msg \<Rightarrow> (ibp_error option) option" where
  "await_response cycle_id resp =
     (case resp ''cycle_id'' of
        Some (JNumber received) \<Rightarrow>
          if to_int received \<noteq> cycle_id then Some (Some (WrongCycle cycle_id))
          else if is_kind resp ''CYCLE_STARTED'' then None
          else if is_kind resp ''CYCLE_ABORTED'' \<or> is_kind resp ''CYCLE_FAILED'' \<or> is_kind resp ''CYCLE_COMPLETED''
          then Some None
          else Some (Some UnexpectedResponse)
      | _ \<Rightarrow> Some (Some InvalidCycleId))"

text \<open>
  One received message (\<open>None\<close>: receiving failed): the server, the messages sent, and the result
  of a finished \<open>Cycle\<close> call.
\<close>

definition server_recv ::
  "trace \<Rightarrow> msg option \<Rightarrow> ibp_server \<Rightarrow> ibp_server \<times> msg list \<times> (ibp_error option) option" where
  "server_recv tr r p =
     (case sv_phase p of
        SAwaitVersion \<Rightarrow>
          (case (case r of None \<Rightarrow> Inl RecvFailed | Some m \<Rightarrow> read_version m) of
             Inl e \<Rightarrow> (p\<lparr>sv_phase := SFailed e\<rparr>, [], None)
           | Inr v \<Rightarrow>
               if HasCapMessage v then (p\<lparr>sv_phase := SAwaitCaps v\<rparr>, [], None)
               else (server_ready v p, [], None))
      | SAwaitCaps v \<Rightarrow>
          (case (case r of None \<Rightarrow> Inl RecvFailed | Some m \<Rightarrow> negotiateCapabilities tr v m p) of
             Inl e \<Rightarrow> (p\<lparr>sv_phase := SFailed e\<rparr>, [], None)
           | Inr (p', reply) \<Rightarrow> (server_ready v p', [reply], None))
      | SAwaitCycle cycle_id \<Rightarrow>
          (case r of
             None \<Rightarrow> (p\<lparr>sv_phase := SReady\<rparr>, [], Some (Some RecvFailed))
           | Some m \<Rightarrow>
             (case await_response cycle_id m of
                None \<Rightarrow> (p, [], None)
              | Some result \<Rightarrow> (p\<lparr>sv_phase := SReady\<rparr>, [], Some result)))
      | _ \<Rightarrow> (p, [], None))"

section \<open>Calls of the host\<close>

record source_info =
  si_IsSymlink :: "bool option"
  si_IsSource :: "bool option"

type_synonym sources = "(string \<times> source_info option) list"

definition source_json :: "source_info option \<Rightarrow> jv" where
  "source_json i =
     (case i of
        None \<Rightarrow> JNull
      | Some s \<Rightarrow> JObject
          ((case si_IsSymlink s of Some b \<Rightarrow> [(''is_symlink'', JBool b)] | None \<Rightarrow> []) @
           (case si_IsSource s of Some b \<Rightarrow> [(''is_source'', JBool b)] | None \<Rightarrow> [])))"

text \<open>A nil map is encoded as \<open>null\<close>.\<close>

definition sources_json :: "sources option \<Rightarrow> jv" where
  "sources_json changes =
     (case changes of None \<Rightarrow> JNull | Some srcs \<Rightarrow> JObject (map (\<lambda>(f, i). (f, source_json i)) srcs))"

definition next_cycle :: "ibp_server \<Rightarrow> ibp_server" where
  "next_cycle p = p\<lparr>sv_cycle := sv_cycle p + 1, sv_phase := SAwaitCycle (sint (sv_cycle p + 1))\<rparr>"

definition Cycle :: "trace \<Rightarrow> string \<Rightarrow> sources option \<Rightarrow> ibp_server \<Rightarrow> ibp_error + ibp_server \<times> msg" where
  "Cycle tr scope changes p =
     (case sv_version p of
        None \<Rightarrow> Inl (NotReady ''CYCLE'')
      | Some v \<Rightarrow>
          (let p' = next_cycle p; scope' = (if HasScopeCap v then scope else '''')
           in Inr (p', (with_string ''scope'' scope' (otelMessage p tr ''CYCLE''))
                (''cycle_id'' \<mapsto> JNumber (of_int (sint (sv_cycle p'))), ''sources'' \<mapsto> sources_json changes))))"

definition Init :: "trace \<Rightarrow> string \<Rightarrow> sources option \<Rightarrow> ibp_server \<Rightarrow> ibp_error + ibp_server \<times> msg" where
  "Init tr scope changes p = Cycle tr scope changes p"

definition CycleReset :: "trace \<Rightarrow> ibp_server \<Rightarrow> ibp_error + ibp_server \<times> msg" where
  "CycleReset tr p =
     (case sv_version p of
        None \<Rightarrow> Inl (NotReady ''CYCLE_RESET'')
      | Some v \<Rightarrow>
          if \<not> HasResetMessage v then Inl (ResetUnsupported v)
          else (let p' = next_cycle p
                in Inr (p', (otelMessage p tr ''CYCLE_RESET'')
                     (''cycle_id'' \<mapsto> JNumber (of_int (sint (sv_cycle p')))))))"

definition Exit :: "trace \<Rightarrow> string \<Rightarrow> ibp_server \<Rightarrow> ibp_error + msg" where
  "Exit tr description p =
     (if IsReady p then Inr ((otelMessage p tr ''EXIT'')(''description'' \<mapsto> JString description))
      else Inl (NotReady ''EXIT''))"

section \<open>The client\<close>

record cycle_event =
  ce_kind :: string
  ce_trace :: trace
  ce_id :: int
  ce_scope :: string
  ce_sources :: "sources option"

datatype client_phase =
    CAwaitNegotiate "(string \<times> jv) list" | CAwaitCaps | CConnected | CListening
  | CYielded cycle_event | CFailed ibp_error | CPanic

record ibp_client =
  cl_phase :: client_phase
  cl_version :: int
  cl_caps :: "caps option"

text \<open>\<open>Connect\<close>, after the socket is connected.\<close>

definition NewClient :: "(string \<times> jv) list \<Rightarrow> ibp_client" where
  "NewClient caps = \<lparr>cl_phase = CAwaitNegotiate caps, cl_version = 0, cl_caps = None\<rparr>"

fun negotiateVersion :: "jv list \<Rightarrow> int option" where
  "negotiateVersion [] = None"
| "negotiateVersion (v # vs) =
     (case v of
        JNumber f \<Rightarrow> if to_int f \<in> set abazelSupportedProtocolVersions then Some (to_int f) else negotiateVersion vs
      | _ \<Rightarrow> negotiateVersion vs)"

definition negotiate :: "msg \<Rightarrow> ibp_error + int \<times> msg" where
  "negotiate negReq =
     (if \<not> is_kind negReq ''NEGOTIATE'' then Inl (ExpectedKind ''NEGOTIATE'')
      else case negReq ''versions'' of
        Some (JArray versions) \<Rightarrow>
          (case negotiateVersion versions of
             None \<Rightarrow> Inl NoCommonVersion
           | Some v \<Rightarrow> Inr (v, [''kind'' \<mapsto> JString ''NEGOTIATE_RESPONSE'', ''version'' \<mapsto> JNumber (of_int v)]))
      | _ \<Rightarrow> Inl NoVersions)"

definition caps_request :: "(string \<times> jv) list \<Rightarrow> msg" where
  "caps_request caps = [''kind'' \<mapsto> JString ''CAPS'', ''caps'' \<mapsto> JObject caps]"

definition read_caps_response :: "msg \<Rightarrow> ibp_error + caps" where
  "read_caps_response r =
     (if \<not> is_kind r ''CAPS_RESPONSE'' then Inl (ExpectedKind ''CAPS_RESPONSE'')
      else case readCapsResponseMap (r ''caps'') of Inl e \<Rightarrow> Inl (BadCaps e) | Inr caps \<Rightarrow> Inr caps)"

definition readOptionalBool :: "(string \<times> jv) list \<Rightarrow> string \<Rightarrow> bool option" where
  "readOptionalBool m key = (case map_of m key of Some (JBool b) \<Rightarrow> Some b | _ \<Rightarrow> None)"

fun read_sources :: "(string \<times> jv) list \<Rightarrow> sources outcome" where
  "read_sources [] = Inr []"
| "read_sources ((k, v) # rest) =
     (case (case v of
              JNull \<Rightarrow> Inr None
            | JObject m \<Rightarrow> Inr (Some \<lparr>si_IsSymlink = readOptionalBool m ''is_symlink'',
                                      si_IsSource = readOptionalBool m ''is_source''\<rparr>)
            | _ \<Rightarrow> Inl (Panic ''interface conversion'')) of
        Inl e \<Rightarrow> Inl e
      | Inr i \<Rightarrow> (case read_sources rest of Inl e \<Rightarrow> Inl e | Inr srcs \<Rightarrow> Inr ((k, i) # srcs)))"

definition string_field :: "msg \<Rightarrow> string \<Rightarrow> string" where
  "string_field m k = (case m k of Some (JString s) \<Rightarrow> s | _ \<Rightarrow> '''')"

definition convertWireCycle :: "msg \<Rightarrow> (ibp_error + cycle_event) outcome" where
  "convertWireCycle m =
     (if \<not> is_kind m ''CYCLE'' \<and> \<not> is_kind m ''CYCLE_RESET'' then Inr (Inl (ExpectedKind ''CYCLE''))
      else case m ''cycle_id'' of
        Some (JNumber cycleId) \<Rightarrow>
          (let base = \<lparr>ce_kind = string_field m ''kind'',
                       ce_trace = (string_field m ''trace_id'', string_field m ''span_id''),
                       ce_id = to_int cycleId, ce_scope = '''', ce_sources = None\<rparr>
           in if is_kind m ''CYCLE_RESET'' then Inr (Inr base)
              else case (case m ''sources'' of Some (JObject raw) \<Rightarrow> map_sum id Some (read_sources raw) | _ \<Rightarrow> Inr None) of
                Inl e \<Rightarrow> Inl e
              | Inr sources \<Rightarrow>
                  Inr (Inr (base\<lparr>ce_scope := string_field m ''scope'', ce_sources := sources\<rparr>)))
      | _ \<Rightarrow> Inr (Inl InvalidCycleId))"

definition cycle_message :: "string \<Rightarrow> int \<Rightarrow> msg" where
  "cycle_message kind cycleId = [''kind'' \<mapsto> JString kind, ''cycle_id'' \<mapsto> JNumber (of_int cycleId)]"

definition client_recv :: "msg option \<Rightarrow> ibp_client \<Rightarrow> ibp_client \<times> msg list" where
  "client_recv r c =
     (case cl_phase c of
        CAwaitNegotiate caps \<Rightarrow>
          (case (case r of None \<Rightarrow> Inl RecvFailed | Some m \<Rightarrow> negotiate m) of
             Inl e \<Rightarrow> (c\<lparr>cl_phase := CFailed e\<rparr>, [])
           | Inr (v, reply) \<Rightarrow>
               if HasCapMessage v then (c\<lparr>cl_phase := CAwaitCaps, cl_version := v\<rparr>, [reply, caps_request caps])
               else if caps \<noteq> [] then (c\<lparr>cl_phase := CFailed (CapsUnsupported v), cl_version := v\<rparr>, [reply])
               else (c\<lparr>cl_phase := CConnected, cl_version := v\<rparr>, [reply]))
      | CAwaitCaps \<Rightarrow>
          (case (case r of None \<Rightarrow> Inl RecvFailed | Some m \<Rightarrow> read_caps_response m) of
             Inl e \<Rightarrow> (c\<lparr>cl_phase := CFailed e\<rparr>, [])
           | Inr caps \<Rightarrow> (c\<lparr>cl_phase := CConnected, cl_caps := Some caps\<rparr>, []))
      | CListening \<Rightarrow>
          (case r of
             None \<Rightarrow> (c\<lparr>cl_phase := CFailed RecvFailed\<rparr>, [])
           | Some m \<Rightarrow>
             if is_kind m ''CYCLE'' \<or> is_kind m ''CYCLE_RESET'' then
               (case convertWireCycle m of
                  Inl _ \<Rightarrow> (c\<lparr>cl_phase := CPanic\<rparr>, [])
                | Inr (Inl e) \<Rightarrow> (c\<lparr>cl_phase := CFailed e\<rparr>, [])
                | Inr (Inr event) \<Rightarrow>
                    (c\<lparr>cl_phase := CYielded event\<rparr>, [cycle_message ''CYCLE_STARTED'' (ce_id event)]))
             else (c, []))
      | _ \<Rightarrow> (c, []))"

text \<open>\<open>AwaitCycle\<close> starts listening; the consumer returns from an event, wanting more or not.\<close>

definition AwaitCycle :: "ibp_client \<Rightarrow> ibp_client" where
  "AwaitCycle c = c\<lparr>cl_phase := CListening\<rparr>"

definition client_yielded :: "bool \<Rightarrow> ibp_client \<Rightarrow> ibp_client \<times> msg list" where
  "client_yielded wantsMore c =
     (case cl_phase c of
        CYielded event \<Rightarrow>
          (c\<lparr>cl_phase := (if wantsMore then CListening else CConnected)\<rparr>,
           [cycle_message ''CYCLE_COMPLETED'' (ce_id event)])
      | _ \<Rightarrow> (c, []))"

section \<open>Properties of the messages\<close>

lemma to_int_of_int [simp]: "to_int (of_int i) = i"
  by (simp add: to_int_def)

lemma to_int_signed [simp]: "to_int (signed w) = sint w"
  using to_int_of_int [of "sint w"] by (simp only: of_int_sint)

lemma is_kind_upd [simp]:
  "is_kind (m(''kind'' \<mapsto> JString k)) k' \<longleftrightarrow> k = k'"
  "k0 \<noteq> ''kind'' \<Longrightarrow> is_kind (m(k0 \<mapsto> v)) k' = is_kind m k'"
  by (simp_all add: is_kind_def)

lemma with_string_apply:
  "with_string k v m x = (if x = k \<and> v \<noteq> '''' then Some (JString v) else m x)"
  by (simp add: with_string_def)

lemma is_kind_with_string [simp]: "k0 \<noteq> ''kind'' \<Longrightarrow> is_kind (with_string k0 v m) k' = is_kind m k'"
  by (simp add: is_kind_def with_string_apply)

lemma otelMessage_kind [simp]: "is_kind (otelMessage p tr kind) k' \<longleftrightarrow> kind = k'"
  by (simp add: otelMessage_def is_kind_def with_string_apply)

lemma otelMessage_other [simp]:
  "k \<notin> {''kind'', ''trace_id'', ''span_id''} \<Longrightarrow> otelMessage p tr kind k = None"
  by (simp add: otelMessage_def with_string_apply)

lemma string_field_with_string:
  "string_field (with_string k v m) x = (if x = k \<and> v \<noteq> '''' then v else string_field m x)"
  by (simp add: string_field_def with_string_apply)

section \<open>Capabilities are well formed and survive the handshake\<close>

text \<open>What a value under a capability is after validation.\<close>

definition cap_ok :: "string \<times> cap_value \<Rightarrow> bool" where
  "cap_ok kv \<longleftrightarrow>
     (if fst kv = WatchCapability_WatchScope then
        (\<exists>ss. snd kv = CapScopes ss \<and> ss \<noteq> [] \<and> set ss \<subseteq> {WatchScope_Sources, WatchScope_Runfiles})
      else if fst kv = WatchCapability_OTEL then (\<exists>b. snd kv = CapBool b)
      else (\<exists>r. snd kv = CapRaw r))"

definition caps_ok :: "caps \<Rightarrow> bool" where
  "caps_ok caps \<longleftrightarrow>
     al_wf caps \<and> (\<forall>kv \<in> set caps. cap_ok kv) \<and> (\<exists>v rest. caps = (WatchCapability_WatchScope, v) # rest)"

lemma read_scopes_valid:
  "read_scopes vs = Inr ss \<Longrightarrow> set ss \<subseteq> {WatchScope_Sources, WatchScope_Runfiles} \<and> vs = map JString ss"
  by (induction vs arbitrary: ss) (auto split: jv.splits sum.splits if_splits)

lemma read_scopes_strings:
  "set ss \<subseteq> {WatchScope_Sources, WatchScope_Runfiles} \<Longrightarrow> read_scopes (map JString ss) = Inr ss"
  by (induction ss) auto

lemma read_cap_ok: "read_cap k v = Inr c \<Longrightarrow> cap_ok (k, c)"
  using read_scopes_valid
  by (fastforce simp: read_cap_def cap_ok_def readScopeCapList_def split: if_splits sum.splits jv.splits)

lemma read_cap_json: "cap_ok (k, c) \<Longrightarrow> read_cap k (cap_json c) = Inr c"
  by (auto simp: read_cap_def cap_ok_def cap_json_def readScopeCapList_def readCapBool_def read_scopes_strings
        split: if_splits)

lemma default_caps_ok: "caps_ok default_caps"
  by (auto simp: caps_ok_def default_caps_def cap_ok_def al_wf_def)


lemma al_put_head: "\<exists>v' rest'. al_put ((k0, v0) # rest) k v = (k0, v') # rest'"
  by auto

lemma caps_ok_put:
  assumes "caps_ok caps" and "cap_ok (k, v)"
  shows "caps_ok (al_put caps k v)"
proof -
  obtain v0 rest where "caps = (WatchCapability_WatchScope, v0) # rest"
    using assms(1) unfolding caps_ok_def by blast
  then have "\<exists>v' rest'. al_put caps k v = (WatchCapability_WatchScope, v') # rest'"
    using al_put_head by metis
  with assms set_al_put [of caps k v] show ?thesis
    unfolding caps_ok_def by auto
qed

lemma read_caps_ok: "read_caps enabled caps = Inr c \<Longrightarrow> caps_ok caps \<Longrightarrow> caps_ok c"
proof (induction enabled arbitrary: caps)
  case (Cons kv enabled)
  then show ?case
    using read_cap_ok caps_ok_put by (cases kv) (auto split: sum.splits)
qed simp

lemma readCapsRequestMap_ok: "readCapsRequestMap raw = Inr caps \<Longrightarrow> caps_ok caps"
  by (auto simp: readCapsRequestMap_def default_caps_ok intro: read_caps_ok split: option.splits jv.splits)

lemma al_put_same: "al_wf ((k, v0) # rest) \<Longrightarrow> al_put ((k, v0) # rest) k v = (k, v) # rest"
  by simp

lemma read_caps_append_new:
  assumes "\<forall>kv \<in> set rest. cap_ok kv" "distinct (map fst (acc @ rest))"
  shows "read_caps (map (\<lambda>(k, v). (k, cap_json v)) rest) acc = Inr (acc @ rest)"
  using assms
proof (induction rest arbitrary: acc)
  case (Cons kv rest)
  obtain k v where kv: "kv = (k, v)" by (cases kv)
  have "al_put acc k v = acc @ [(k, v)]"
    using Cons.prems(2) by (intro al_put_new) (auto simp: kv)
  then show ?case using Cons.IH [of "acc @ [(k, v)]"] Cons.prems by (simp add: kv read_cap_json)
qed simp

lemma caps_roundtrip:
  assumes "caps_ok caps"
  shows "readCapsResponseMap (Some (caps_json caps)) = Inr caps"
proof -
  obtain v rest where c: "caps = (WatchCapability_WatchScope, v) # rest"
    using assms unfolding caps_ok_def by blast
  then have v: "read_cap WatchCapability_WatchScope (cap_json v) = Inr v"
    using assms read_cap_json unfolding caps_ok_def by auto
  have "read_caps (map (\<lambda>(k, v). (k, cap_json v)) rest) [(WatchCapability_WatchScope, v)] = Inr caps"
    using read_caps_append_new [of rest "[(WatchCapability_WatchScope, v)]"] assms
    unfolding c caps_ok_def al_wf_def by simp
  then show ?thesis
    by (simp add: readCapsResponseMap_def readCapsRequestMap_def caps_json_def c v default_caps_def)
qed

section \<open>The server on its own\<close>

text \<open>
  Everything that can happen to a server: the messages of any client, and calls of the host, one
  at a time.
\<close>

inductive server_run :: "ibp_server \<Rightarrow> bool" where
  start: "server_run NewServer"
| recv: "server_run p \<Longrightarrow> server_recv tr r p = (p', out, result) \<Longrightarrow> server_run p'"
| cycle: "server_run p \<Longrightarrow> sv_phase p = SReady \<Longrightarrow> Cycle tr scope changes p = Inr (p', m) \<Longrightarrow> server_run p'"
| reset: "server_run p \<Longrightarrow> sv_phase p = SReady \<Longrightarrow> CycleReset tr p = Inr (p', m) \<Longrightarrow> server_run p'"

definition server_ok :: "ibp_server \<Rightarrow> bool" where
  "server_ok p \<longleftrightarrow> (\<forall>c. sv_caps p = Some c \<longrightarrow> caps_ok c)"

lemma Cycle_eq:
  "Cycle tr scope changes p = Inr (p', m) \<Longrightarrow> p' = next_cycle p \<and> IsReady p"
  by (auto simp: Cycle_def IsReady_def Let_def split: option.splits)

lemma CycleReset_eq:
  "CycleReset tr p = Inr (p', m) \<Longrightarrow> p' = next_cycle p \<and> IsReady p"
  by (auto simp: CycleReset_def IsReady_def Let_def split: option.splits if_splits)

lemma server_recv_caps:
  "server_recv tr r p = (p', out, result) \<Longrightarrow>
     sv_caps p' = sv_caps p \<or> (\<exists>raw c. sv_caps p' = Some c \<and> readCapsRequestMap raw = Inr c)"
  by (auto simp: server_recv_def negotiateCapabilities_def server_ready_def Let_def
        split: server_phase.splits sum.splits if_splits option.splits) 

lemma server_run_ok: "server_run p \<Longrightarrow> server_ok p"
proof (induction rule: server_run.induct)
  case start
  then show ?case by (simp add: server_ok_def NewServer_def)
next
  case (recv p tr r p' out result)
  show ?case unfolding server_ok_def
  proof (intro allI impI)
    fix c assume c: "sv_caps p' = Some c"
    from server_recv_caps [OF recv.hyps(2)] show "caps_ok c"
    proof
      assume "sv_caps p' = sv_caps p"
      with recv.IH c show ?thesis by (simp add: server_ok_def)
    next
      assume "\<exists>raw c. sv_caps p' = Some c \<and> readCapsRequestMap raw = Inr c"
      with c show ?thesis using readCapsRequestMap_ok by auto
    qed
  qed
next
  case (cycle p tr scope changes p' m)
  then show ?case using Cycle_eq by (fastforce simp: server_ok_def next_cycle_def)
next
  case (reset p tr p' m)
  then show ?case using CycleReset_eq by (fastforce simp: server_ok_def next_cycle_def)
qed

lemma caps_ok_scope:
  assumes "caps_ok c"
  shows "\<exists>ss. map_of c WatchCapability_WatchScope = Some (CapScopes ss) \<and> ss \<noteq> [] \<and>
    set ss \<subseteq> {WatchScope_Sources, WatchScope_Runfiles}"
  using assms unfolding caps_ok_def cap_ok_def by (metis fst_conv list.set_intros(1) map_of_Cons_code(2) snd_conv)

lemma WatchingScope_ok:
  assumes "server_ok p"
  shows "\<exists>watched. watched \<noteq> {} \<and> watched \<subseteq> {WatchScope_Sources, WatchScope_Runfiles} \<and>
    (\<forall>s. WatchingScope p s = Inr (s \<in> watched))"
proof (cases "IsReady p \<and> sv_caps p \<noteq> None")
  case True
  then obtain c where c: "sv_caps p = Some c" "IsReady p" by auto
  then obtain ss where "map_of c WatchCapability_WatchScope = Some (CapScopes ss)" "ss \<noteq> []"
    "set ss \<subseteq> {WatchScope_Sources, WatchScope_Runfiles}"
    using assms caps_ok_scope unfolding server_ok_def by blast
  with c show ?thesis by (intro exI [of _ "set ss"]) (simp add: WatchingScope_def)
next
  case False
  then have "WatchingScope p s = Inr (s \<in> {WatchScope_Runfiles})" for s
    by (auto simp: WatchingScope_def)
  then show ?thesis by (intro exI [of _ "{WatchScope_Runfiles}"]) simp
qed

section \<open>Cycle ids\<close>

text \<open>One cycle of the host, run to its end: the call, then the client's last answer.\<close>

definition end_cycle :: "ibp_server \<Rightarrow> ibp_server" where
  "end_cycle p = p\<lparr>sv_phase := SReady\<rparr>"

datatype host_call = CallCycle string "sources option" | CallReset

definition host_send :: "trace \<Rightarrow> host_call \<Rightarrow> ibp_server \<Rightarrow> ibp_error + ibp_server \<times> msg" where
  "host_send tr call p = (case call of CallCycle scope changes \<Rightarrow> Cycle tr scope changes p | CallReset \<Rightarrow> CycleReset tr p)"

fun run_calls :: "trace \<Rightarrow> host_call list \<Rightarrow> ibp_server \<Rightarrow> ibp_server \<times> msg list" where
  "run_calls tr [] p = (p, [])"
| "run_calls tr (call # calls) p =
     (case host_send tr call p of
        Inl e \<Rightarrow> run_calls tr calls p
      | Inr (p', m) \<Rightarrow> (case run_calls tr calls (end_cycle p') of (p'', ms) \<Rightarrow> (p'', m # ms)))"

text \<open>The calls a server of a negotiated version sends to its client.\<close>

definition sends :: "int option \<Rightarrow> host_call \<Rightarrow> bool" where
  "sends v call = (case v of None \<Rightarrow> False | Some n \<Rightarrow> (case call of CallCycle _ _ \<Rightarrow> True | CallReset \<Rightarrow> n \<ge> 2))"

lemma host_send_sends:
  assumes "sends (sv_version p) call"
  obtains m where "host_send tr call p = Inr (next_cycle p, m)"
    "m ''cycle_id'' = Some (JNumber (of_int (sint (sv_cycle p + 1))))"
  using assms
  by (cases call; cases "sv_version p")
     (simp_all add: host_send_def sends_def Cycle_def CycleReset_def HasResetMessage_def Let_def next_cycle_def)

lemma host_send_refused: "\<not> sends (sv_version p) call \<Longrightarrow> \<exists>e. host_send tr call p = Inl e"
  by (cases call; cases "sv_version p")
     (simp_all add: host_send_def sends_def Cycle_def CycleReset_def HasResetMessage_def)

lemma run_calls_ids:
  "map (\<lambda>m. m ''cycle_id'') (snd (run_calls tr calls p)) =
    map (\<lambda>k. Some (JNumber (of_int (sint (sv_cycle p + word_of_nat (Suc k))))))
      [0..<length (filter (sends (sv_version p)) calls)]"
proof (induction calls arbitrary: p)
  case (Cons call calls)
  show ?case
  proof (cases "sends (sv_version p) call")
    case True
    obtain m where m: "host_send tr call p = Inr (next_cycle p, m)"
      "m ''cycle_id'' = Some (JNumber (of_int (sint (sv_cycle p + 1))))"
      using host_send_sends [OF True] by metis
    have "map (\<lambda>m. m ''cycle_id'') (snd (run_calls tr calls (end_cycle (next_cycle p)))) =
        map (\<lambda>k. Some (JNumber (of_int (sint (sv_cycle p + word_of_nat (Suc (Suc k)))))))
          [0..<length (filter (sends (sv_version p)) calls)]"
      using Cons.IH [of "end_cycle (next_cycle p)"]
      by (simp add: end_cycle_def next_cycle_def add.assoc add.commute add.left_commute)
    then show ?thesis
      by (simp add: m True map_upt_Suc split_beta del: upt_Suc)
  next
    case False
    then show ?thesis using host_send_refused [OF False, of tr] Cons.IH [of p] by auto
  qed
qed simp

lemma sint_bounds32: "- (2 ^ 31) \<le> sint (w :: 32 word)" "sint (w :: 32 word) < 2 ^ 31"
  using sint_greater_eq [of w] sint_less [of w] by simp_all

lemma word_of_nat_inj32:
  assumes "j < 2 ^ 32" "k < 2 ^ 32" "word_of_nat j = (word_of_nat k :: 32 word)"
  shows "j = k"
proof -
  have "take_bit 32 j = take_bit 32 k"
    using assms(3) by (simp add: word_of_nat_eq_iff)
  with assms(1,2) show ?thesis by (simp only: take_bit_nat_eq_self)
qed

lemma ids_of_run:
  assumes "length (filter (sends (sv_version p)) calls) \<le> 2 ^ 32"
  defines "ids \<equiv> map (\<lambda>k. sint (sv_cycle p + word_of_nat (Suc k))) [0..<length (filter (sends (sv_version p)) calls)]"
  shows "map (\<lambda>m. m ''cycle_id'') (snd (run_calls tr calls p)) = map (\<lambda>i. Some (JNumber (of_int i))) ids"
    and "distinct ids" and "set ids \<subseteq> {- (2 ^ 31)..<2 ^ 31}"
proof -
  let ?n = "length (filter (sends (sv_version p)) calls)"
  show "map (\<lambda>m. m ''cycle_id'') (snd (run_calls tr calls p)) = map (\<lambda>i. Some (JNumber (of_int i))) ids"
    by (simp add: run_calls_ids ids_def)
  have "inj_on (\<lambda>k. sint (sv_cycle p + word_of_nat (Suc k))) (set [0..<?n])"
  proof (rule inj_onI)
    fix j k assume jk: "j \<in> set [0..<?n]" "k \<in> set [0..<?n]"
      and "sint (sv_cycle p + word_of_nat (Suc j)) = sint (sv_cycle p + word_of_nat (Suc k))"
    then have "sv_cycle p + word_of_nat (Suc j) = sv_cycle p + word_of_nat (Suc k)"
      by (simp only: signed_word_eqI)
    then have "word_of_nat j = (word_of_nat k :: 32 word)"
      by simp
    moreover have "j < 2 ^ 32" "k < 2 ^ 32" using jk assms(1) by (simp_all del: power_numeral)
    ultimately show "j = k" using word_of_nat_inj32 by blast
  qed
  then show "distinct ids" by (simp add: ids_def distinct_map)
  show "set ids \<subseteq> {- (2 ^ 31)..<2 ^ 31}" using sint_bounds32 by (auto simp: ids_def)
qed

text \<open>What an answer to cycle \<open>j\<close> does to a server that waits for cycle \<open>i\<close>.\<close>

definition ends_cycle :: "string set" where
  "ends_cycle = {''CYCLE_ABORTED'', ''CYCLE_FAILED'', ''CYCLE_COMPLETED''}"

lemma await_answer:
  assumes "m ''cycle_id'' = Some (JNumber (of_int j))"
  shows "await_response i m =
    (if i \<noteq> j then Some (Some (WrongCycle i))
     else if m ''kind'' = Some (JString ''CYCLE_STARTED'') then None
     else if \<exists>k \<in> ends_cycle. m ''kind'' = Some (JString k) then Some None
     else Some (Some UnexpectedResponse))"
  using assms by (auto simp: await_response_def is_kind_def ends_cycle_def)

lemma await_completed:
  "await_response i (cycle_message ''CYCLE_COMPLETED'' j) = (if i = j then Some None else Some (Some (WrongCycle i)))"
  by (simp add: await_response_def cycle_message_def is_kind_def)

lemma await_started:
  "await_response i (cycle_message ''CYCLE_STARTED'' i) = None"
  by (simp add: await_response_def cycle_message_def is_kind_def)

section \<open>A server and a client connected to it\<close>

text \<open>What the client reads of the messages of the host.\<close>

lemma readOptionalBool_source:
  "readOptionalBool ((case a of Some b \<Rightarrow> [(''is_symlink'', JBool b)] | None \<Rightarrow> []) @
     (case c of Some b \<Rightarrow> [(''is_source'', JBool b)] | None \<Rightarrow> [])) ''is_symlink'' = a"
  "readOptionalBool ((case a of Some b \<Rightarrow> [(''is_symlink'', JBool b)] | None \<Rightarrow> []) @
     (case c of Some b \<Rightarrow> [(''is_source'', JBool b)] | None \<Rightarrow> [])) ''is_source'' = c"
  by (cases a; cases c; simp add: readOptionalBool_def)+

lemma read_sources_json: "read_sources (map (\<lambda>(f, i). (f, source_json i)) srcs) = Inr srcs"
proof (induction srcs)
  case (Cons fi srcs)
  obtain f i where fi: "fi = (f, i)" by (cases fi)
  show ?case
  proof (cases i)
    case None
    with Cons show ?thesis by (simp add: fi source_json_def)
  next
    case (Some s)
    have "\<lparr>si_IsSymlink = si_IsSymlink s, si_IsSource = si_IsSource s\<rparr> = s" by simp
    with Cons Some show ?thesis by (simp add: fi source_json_def readOptionalBool_source)
  qed
qed simp

lemma read_message_sources:
  "(case Some (sources_json changes) of Some (JObject raw) \<Rightarrow> map_sum id Some (read_sources raw) | _ \<Rightarrow> Inr None)
     = Inr changes"
  by (cases changes) (simp_all add: sources_json_def read_sources_json)

lemma is_kind_Cycle:
  assumes "Cycle tr scope changes p = Inr (p', m)"
  shows "is_kind m ''CYCLE''"
  using assms by (auto simp: Cycle_def Let_def split: option.splits)

lemma convert_Cycle:
  assumes "Cycle tr scope changes p = Inr (p', m)"
  shows "\<exists>e. convertWireCycle m = Inr (Inr e) \<and> ce_id e = sint (sv_cycle p') \<and> ce_sources e = changes \<and>
    ce_scope e = (if HasScopeCap (NegotiatedVersion p) then scope else '''') \<and>
    ce_trace e = (if isOTELCapEnabled p then tr else ('''', ''''))"
proof -
  obtain v where v: "sv_version p = Some v" and p': "p' = next_cycle p"
    and m: "m = (with_string ''scope'' (if HasScopeCap v then scope else '''') (otelMessage p tr ''CYCLE''))
                (''cycle_id'' \<mapsto> JNumber (of_int (sint (sv_cycle p'))), ''sources'' \<mapsto> sources_json changes)"
    using assms by (auto simp: Cycle_def Let_def split: option.splits)
  have k: "is_kind m ''CYCLE''" "\<not> is_kind m ''CYCLE_RESET''"
    by (simp_all add: m)
  have f: "string_field m ''scope'' = (if HasScopeCap v then scope else '''')"
    "string_field m ''trace_id'' = (if isOTELCapEnabled p then fst tr else '''')"
    "string_field m ''span_id'' = (if isOTELCapEnabled p then snd tr else '''')"
    by (simp_all add: m string_field_def with_string_apply otelMessage_def)
  have "m ''sources'' = Some (sources_json changes)" "m ''cycle_id'' = Some (JNumber (of_int (sint (sv_cycle p'))))"
    by (simp_all add: m)
  then show ?thesis
    using k f read_message_sources [of changes]
    by (simp add: convertWireCycle_def Let_def NegotiatedVersion_def v)
qed

lemma convert_CycleReset:
  assumes "CycleReset tr p = Inr (p', m)"
  shows "is_kind m ''CYCLE_RESET'' \<and> (\<exists>e. convertWireCycle m = Inr (Inr e) \<and> ce_id e = sint (sv_cycle p') \<and>
    ce_sources e = None \<and> ce_scope e = '''')"
  using assms
  by (auto simp: CycleReset_def convertWireCycle_def Let_def next_cycle_def split: option.splits if_splits)

record session =
  ss_server :: ibp_server
  ss_client :: ibp_client
  ss_down :: "msg list"
  ss_up :: "msg list"

text \<open>
  \<open>Accept\<close> of the server and \<open>Connect\<close> of a client asking for the capabilities \<open>req\<close>: the server
  has sent NEGOTIATE. Both directions deliver in order and lose nothing.
\<close>

definition session_start :: "trace \<Rightarrow> (string \<times> jv) list \<Rightarrow> session" where
  "session_start tr req =
     \<lparr>ss_server = NewServer, ss_client = NewClient req, ss_down = [negotiate_message NewServer tr], ss_up = []\<rparr>"

definition server_blocked :: "ibp_server \<Rightarrow> bool" where
  "server_blocked p =
     (case sv_phase p of SAwaitVersion \<Rightarrow> True | SAwaitCaps _ \<Rightarrow> True | SAwaitCycle _ \<Rightarrow> True | _ \<Rightarrow> False)"

definition client_blocked :: "ibp_client \<Rightarrow> bool" where
  "client_blocked c = (case cl_phase c of CAwaitNegotiate _ \<Rightarrow> True | CAwaitCaps \<Rightarrow> True | CListening \<Rightarrow> True | _ \<Rightarrow> False)"

text \<open>The steps of the protocol itself: deliveries, and the client application going on listening.\<close>

inductive protocol_step :: "session \<Rightarrow> session \<Rightarrow> bool" where
  to_client: "ss_down s = m # ms \<Longrightarrow> client_blocked (ss_client s) \<Longrightarrow> client_recv (Some m) (ss_client s) = (c', out) \<Longrightarrow>
    protocol_step s (s\<lparr>ss_client := c', ss_down := ms, ss_up := ss_up s @ out\<rparr>)"
| to_server: "ss_up s = m # ms \<Longrightarrow> server_blocked (ss_server s) \<Longrightarrow>
    server_recv tr (Some m) (ss_server s) = (p', out, result) \<Longrightarrow>
    protocol_step s (s\<lparr>ss_server := p', ss_up := ms, ss_down := ss_down s @ out\<rparr>)"
| listen: "cl_phase (ss_client s) = CConnected \<Longrightarrow> protocol_step s (s\<lparr>ss_client := AwaitCycle (ss_client s)\<rparr>)"
| handled: "cl_phase (ss_client s) = CYielded e \<Longrightarrow> client_yielded wantsMore (ss_client s) = (c', out) \<Longrightarrow>
    protocol_step s (s\<lparr>ss_client := c', ss_up := ss_up s @ out\<rparr>)"

text \<open>The steps of the host: cycles one at a time, \<open>Exit\<close> at any time.\<close>

inductive host_step :: "session \<Rightarrow> session \<Rightarrow> bool" where
  cycle: "sv_phase (ss_server s) = SReady \<Longrightarrow> host_send tr call (ss_server s) = Inr (p', m) \<Longrightarrow>
    host_step s (s\<lparr>ss_server := p', ss_down := ss_down s @ [m]\<rparr>)"
| exit: "Exit tr description (ss_server s) = Inr m \<Longrightarrow> host_step s (s\<lparr>ss_down := ss_down s @ [m]\<rparr>)"

inductive session_reach :: "(string \<times> jv) list \<Rightarrow> session \<Rightarrow> bool" for req where
  start: "session_reach req (session_start tr req)"
| protocol: "session_reach req s \<Longrightarrow> protocol_step s s' \<Longrightarrow> session_reach req s'"
| host: "session_reach req s \<Longrightarrow> host_step s s' \<Longrightarrow> session_reach req s'"

text \<open>Each protocol step uses up some of a finite amount of work.\<close>

definition server_work :: "ibp_server \<Rightarrow> nat" where
  "server_work p = (case sv_phase p of SAwaitVersion \<Rightarrow> 40 | SAwaitCaps _ \<Rightarrow> 20 | _ \<Rightarrow> 0)"

definition client_work :: "ibp_client \<Rightarrow> nat" where
  "client_work c = (case cl_phase c of CYielded _ \<Rightarrow> 4 | CConnected \<Rightarrow> 1 | _ \<Rightarrow> 0)"

definition session_work :: "session \<Rightarrow> nat" where
  "session_work s =
     10 * length (ss_down s) + length (ss_up s) + server_work (ss_server s) + client_work (ss_client s)"

lemma client_recv_work:
  "client_recv r c = (c', out) \<Longrightarrow> client_blocked c \<Longrightarrow> length out + client_work c' < 10 + client_work c"
  by (auto simp: client_recv_def client_blocked_def client_work_def
        split: client_phase.splits sum.splits if_splits option.splits)

lemma server_recv_work:
  "server_recv tr r p = (p', out, result) \<Longrightarrow> server_blocked p \<Longrightarrow>
     10 * length out + server_work p' \<le> server_work p"
  by (auto simp: server_recv_def server_blocked_def server_work_def server_ready_def
        split: server_phase.splits sum.splits if_splits option.splits)

lemma protocol_step_work: "protocol_step s s' \<Longrightarrow> session_work s' < session_work s"
proof (induction rule: protocol_step.induct)
  case (to_client s m ms c' out)
  then show ?case using client_recv_work [of "Some m" "ss_client s" c' out] by (simp add: session_work_def)
next
  case (to_server s m ms tr p' out result)
  then show ?case using server_recv_work [of tr "Some m" "ss_server s" p' out result] by (simp add: session_work_def)
qed (auto simp: session_work_def client_work_def AwaitCycle_def client_yielded_def)

lemma protocol_steps_end: "wfP (\<lambda>s' s. protocol_step s s')"
  by (rule wfp_if_convertible_to_nat [of _ session_work]) (rule protocol_step_work)

section \<open>The states of a session\<close>

text \<open>The messages of the host that the client has to answer: all but EXIT.\<close>

definition pending :: "msg list \<Rightarrow> msg list" where
  "pending ms = filter (\<lambda>m. \<not> is_kind m ''EXIT'') ms"

definition cycle_request :: "int \<Rightarrow> msg \<Rightarrow> bool" where
  "cycle_request i m \<longleftrightarrow> (is_kind m ''CYCLE'' \<or> is_kind m ''CYCLE_RESET'') \<and>
     (\<exists>e. convertWireCycle m = Inr (Inr e) \<and> ce_id e = i)"

definition requested :: "ibp_server \<Rightarrow> msg list \<Rightarrow> bool" where
  "requested p down \<longleftrightarrow>
     (case sv_phase p of
        SReady \<Rightarrow> pending down = []
      | SAwaitCycle i \<Rightarrow> (\<exists>m. pending down = [m] \<and> cycle_request i m)
      | _ \<Rightarrow> False)"

definition idle_client :: "ibp_client \<Rightarrow> bool" where
  "idle_client c \<longleftrightarrow> cl_phase c = CConnected \<or> cl_phase c = CListening"

inductive session_ok :: "(string \<times> jv) list \<Rightarrow> caps \<Rightarrow> session \<Rightarrow> bool" for req caps where
  version_sent: "\<lbrakk>sv_phase (ss_server s) = SAwaitVersion; sv_version (ss_server s) = None; cl_phase (ss_client s) = CAwaitNegotiate req;
     ss_down s = [negotiate_message p tr]; ss_up s = []\<rbrakk> \<Longrightarrow> session_ok req caps s"
| version_answered: "\<lbrakk>sv_phase (ss_server s) = SAwaitVersion; sv_version (ss_server s) = None;
     cl_phase (ss_client s) = CAwaitCaps; cl_version (ss_client s) = 2; ss_down s = [];
     ss_up s = [[''kind'' \<mapsto> JString ''NEGOTIATE_RESPONSE'', ''version'' \<mapsto> JNumber 2], caps_request req]\<rbrakk>
   \<Longrightarrow> session_ok req caps s"
| caps_sent: "\<lbrakk>sv_phase (ss_server s) = SAwaitCaps 2; sv_version (ss_server s) = None;
     cl_phase (ss_client s) = CAwaitCaps; cl_version (ss_client s) = 2; ss_down s = [];
     ss_up s = [caps_request req]\<rbrakk> \<Longrightarrow> session_ok req caps s"
| caps_answered: "\<lbrakk>sv_version (ss_server s) = Some 2; sv_caps (ss_server s) = Some caps;
     cl_phase (ss_client s) = CAwaitCaps; cl_version (ss_client s) = 2;
     ss_down s = r # rest; read_caps_response r = Inr caps; requested (ss_server s) rest; ss_up s = []\<rbrakk>
   \<Longrightarrow> session_ok req caps s"
| waiting: "\<lbrakk>sv_version (ss_server s) = Some 2; sv_caps (ss_server s) = Some caps;
     cl_version (ss_client s) = 2; cl_caps (ss_client s) = Some caps;
     idle_client (ss_client s); requested (ss_server s) (ss_down s); ss_up s = []\<rbrakk>
   \<Longrightarrow> session_ok req caps s"
| handling: "\<lbrakk>sv_version (ss_server s) = Some 2; sv_caps (ss_server s) = Some caps;
     cl_version (ss_client s) = 2; cl_caps (ss_client s) = Some caps;
     sv_phase (ss_server s) = SAwaitCycle (ce_id e); pending (ss_down s) = []; cl_phase (ss_client s) = CYielded e;
     ss_up s = [cycle_message ''CYCLE_STARTED'' (ce_id e)] \<or> ss_up s = []\<rbrakk>
   \<Longrightarrow> session_ok req caps s"
| completed: "\<lbrakk>sv_version (ss_server s) = Some 2; sv_caps (ss_server s) = Some caps;
     cl_version (ss_client s) = 2; cl_caps (ss_client s) = Some caps; idle_client (ss_client s);
     sv_phase (ss_server s) = SAwaitCycle i; pending (ss_down s) = [];
     ss_up s = [cycle_message ''CYCLE_STARTED'' i, cycle_message ''CYCLE_COMPLETED'' i] \<or>
     ss_up s = [cycle_message ''CYCLE_COMPLETED'' i]\<rbrakk>
   \<Longrightarrow> session_ok req caps s"

lemma pending_simps [simp]:
  "pending [] = []"
  "pending (m # ms) = (if is_kind m ''EXIT'' then pending ms else m # pending ms)"
  "pending (ms @ ms') = pending ms @ pending ms'"
  by (simp_all add: pending_def)

lemma is_kind_unique: "is_kind m k \<Longrightarrow> is_kind m k' \<Longrightarrow> k = k'"
  by (simp add: is_kind_def)

lemma cycle_request_not_exit: "cycle_request i m \<Longrightarrow> \<not> is_kind m ''EXIT''"
  by (auto simp: cycle_request_def is_kind_def)

lemma client_negotiates:
  "cl_phase c = CAwaitNegotiate req \<Longrightarrow>
     client_recv (Some (negotiate_message p tr)) c = (c\<lparr>cl_phase := CAwaitCaps, cl_version := 2\<rparr>,
       [[''kind'' \<mapsto> JString ''NEGOTIATE_RESPONSE'', ''version'' \<mapsto> JNumber 2], caps_request req])"
  by (simp add: client_recv_def negotiate_def negotiate_message_def abazelSupportedProtocolVersions_def
      HasCapMessage_def to_int_def)

lemma server_reads_version:
  "sv_phase p = SAwaitVersion \<Longrightarrow>
     server_recv tr (Some [''kind'' \<mapsto> JString ''NEGOTIATE_RESPONSE'', ''version'' \<mapsto> JNumber 2]) p =
       (p\<lparr>sv_phase := SAwaitCaps 2\<rparr>, [], None)"
  by (simp add: server_recv_def read_version_def is_kind_def abazelSupportedProtocolVersions_def HasCapMessage_def
      to_int_def)

lemma server_reads_caps:
  assumes "sv_phase p = SAwaitCaps v" and "readCapsRequestMap (Some (JObject req)) = Inr caps"
  obtains r where "server_recv tr (Some (caps_request req)) p = (server_ready v (p\<lparr>sv_caps := Some caps\<rparr>), [r], None)"
    and "read_caps_response r = Inr caps"
proof -
  define p' where "p' = p\<lparr>sv_caps := Some caps\<rparr>"
  define r where "r = (otelMessage p' tr ''CAPS_RESPONSE'')(''caps'' \<mapsto> caps_json caps)"
  have "server_recv tr (Some (caps_request req)) p = (server_ready v p', [r], None)"
    using assms by (simp add: server_recv_def negotiateCapabilities_def caps_request_def is_kind_def Let_def r_def p'_def)
  moreover have "read_caps_response r = Inr caps"
    using caps_roundtrip [OF readCapsRequestMap_ok [OF assms(2)]] by (simp add: read_caps_response_def r_def)
  ultimately show ?thesis using that by (simp add: p'_def)
qed

lemma client_reads_caps:
  "cl_phase c = CAwaitCaps \<Longrightarrow> read_caps_response r = Inr caps \<Longrightarrow>
     client_recv (Some r) c = (c\<lparr>cl_phase := CConnected, cl_caps := Some caps\<rparr>, [])"
  by (simp add: client_recv_def)

lemma client_skips_exit:
  "cl_phase c = CListening \<Longrightarrow> is_kind m ''EXIT'' \<Longrightarrow> client_recv (Some m) c = (c, [])"
  by (auto simp: client_recv_def is_kind_def)

lemma client_starts_cycle:
  assumes "cl_phase c = CListening" and "cycle_request i m"
  obtains e where "client_recv (Some m) c = (c\<lparr>cl_phase := CYielded e\<rparr>, [cycle_message ''CYCLE_STARTED'' i])"
    and "ce_id e = i"
  using assms by (auto simp: client_recv_def cycle_request_def)

lemma requested_phase:
  "requested p down \<Longrightarrow> sv_phase p = SReady \<or> (\<exists>i. sv_phase p = SAwaitCycle i)"
  by (auto simp: requested_def split: server_phase.splits)

lemma requested_exit: "is_kind m ''EXIT'' \<Longrightarrow> requested p (m # ms) = requested p ms"
  by (cases "sv_phase p") (simp_all add: requested_def)

lemma requested_cycle:
  assumes "requested p (m # ms)" and "\<not> is_kind m ''EXIT''"
  obtains i where "sv_phase p = SAwaitCycle i" "cycle_request i m" "pending ms = []"
  using assms by (auto simp: requested_def split: server_phase.splits)

lemma to_client_ok:
  assumes req: "readCapsRequestMap (Some (JObject req)) = Inr caps"
    and ok: "session_ok req caps s" and m: "ss_down s = m # ms" and b: "client_blocked (ss_client s)"
    and r: "client_recv (Some m) (ss_client s) = (c', out)"
  shows "session_ok req caps (s\<lparr>ss_client := c', ss_down := ms, ss_up := ss_up s @ out\<rparr>)"
  using ok
proof cases
  case (version_sent p tr)
  then show ?thesis
    using m r client_negotiates [of "ss_client s" req p tr] by (intro session_ok.version_answered) auto
next
  case (caps_answered r' rest)
  then show ?thesis
    using m r client_reads_caps [of "ss_client s" r' caps] by (intro session_ok.waiting) (auto simp: idle_client_def)
next
  case waiting
  then have l: "cl_phase (ss_client s) = CListening"
    using b by (auto simp: idle_client_def client_blocked_def)
  show ?thesis
  proof (cases "is_kind m ''EXIT''")
    case True
    then show ?thesis
      using waiting m r client_skips_exit [OF l True] by (intro session_ok.waiting) (auto simp: requested_exit)
  next
    case False
    obtain i where i: "sv_phase (ss_server s) = SAwaitCycle i" "cycle_request i m" "pending ms = []"
      using requested_cycle [of "ss_server s" m ms] waiting m False by auto
    obtain e where "client_recv (Some m) (ss_client s) =
        (ss_client s\<lparr>cl_phase := CYielded e\<rparr>, [cycle_message ''CYCLE_STARTED'' i])" "ce_id e = i"
      using client_starts_cycle [OF l i(2)] by metis
    then show ?thesis
      using waiting r i by (intro session_ok.handling [where e = e]) auto
  qed
next
  case (handling e)
  then show ?thesis using b by (simp add: client_blocked_def)
next
  case (completed i)
  then have l: "cl_phase (ss_client s) = CListening"
    using b by (auto simp: idle_client_def client_blocked_def)
  have "is_kind m ''EXIT''" "pending ms = []" using completed m by (auto split: if_splits)
  then show ?thesis
    using completed r client_skips_exit [OF l] by (intro session_ok.completed [where i = i]) auto
qed (use m in simp_all)

lemma server_answers:
  "sv_phase p = SAwaitCycle i \<Longrightarrow>
     server_recv tr (Some (cycle_message ''CYCLE_STARTED'' i)) p = (p, [], None)"
  "sv_phase p = SAwaitCycle i \<Longrightarrow>
     server_recv tr (Some (cycle_message ''CYCLE_COMPLETED'' i)) p = (p\<lparr>sv_phase := SReady\<rparr>, [], Some None)"
  by (simp_all add: server_recv_def await_started await_completed)

lemma to_server_ok:
  assumes req: "readCapsRequestMap (Some (JObject req)) = Inr caps"
    and ok: "session_ok req caps s" and m: "ss_up s = m # ms"
    and r: "server_recv tr (Some m) (ss_server s) = (p', out, result)"
  shows "session_ok req caps (s\<lparr>ss_server := p', ss_up := ms, ss_down := ss_down s @ out\<rparr>)"
  using ok
proof cases
  case version_answered
  then show ?thesis
    using m r server_reads_version [of "ss_server s" tr] by (intro session_ok.caps_sent) auto
next
  case caps_sent
  obtain a where a: "server_recv tr (Some (caps_request req)) (ss_server s) =
      (server_ready 2 (ss_server s\<lparr>sv_caps := Some caps\<rparr>), [a], None)" "read_caps_response a = Inr caps"
    using server_reads_caps [OF caps_sent(1) req] by metis
  then show ?thesis
    using caps_sent m r
    by (intro session_ok.caps_answered [where r = a and rest = "[]"]) (auto simp: server_ready_def requested_def)
next
  case (handling e)
  then show ?thesis
    using m r server_answers(1) [OF handling(5), of tr] by (intro session_ok.handling [where e = e]) auto
next
  case (completed i)
  show ?thesis
  proof (cases "m = cycle_message ''CYCLE_COMPLETED'' i")
    case True
    moreover have "ms = []" using completed m True by (auto simp: cycle_message_def dest: fun_cong [of _ _ "''kind''"])
    ultimately show ?thesis
      using completed r server_answers(2) [OF completed(6), of tr]
      by (intro session_ok.waiting) (auto simp: requested_def)
  next
    case False
    then have "m = cycle_message ''CYCLE_STARTED'' i" "ms = [cycle_message ''CYCLE_COMPLETED'' i]"
      using completed m by auto
    then show ?thesis
      using completed r server_answers(1) [OF completed(6), of tr] by (intro session_ok.completed [where i = i]) auto
  qed
qed (use m in simp_all)

lemma listen_ok:
  assumes ok: "session_ok req caps s" and c: "cl_phase (ss_client s) = CConnected"
  shows "session_ok req caps (s\<lparr>ss_client := AwaitCycle (ss_client s)\<rparr>)"
  using ok
proof cases
  case waiting
  then show ?thesis by (intro session_ok.waiting) (auto simp: AwaitCycle_def idle_client_def)
next
  case (completed i)
  then show ?thesis by (intro session_ok.completed [where i = i]) (auto simp: AwaitCycle_def idle_client_def)
qed (use c in simp_all)

lemma handled_ok:
  assumes ok: "session_ok req caps s" and c: "cl_phase (ss_client s) = CYielded e"
    and r: "client_yielded w (ss_client s) = (c', out)"
  shows "session_ok req caps (s\<lparr>ss_client := c', ss_up := ss_up s @ out\<rparr>)"
  using ok
proof cases
  case (handling e')
  then have "e' = e" using c by simp
  with handling c r show ?thesis
    by (intro session_ok.completed [where i = "ce_id e"]) (auto simp: client_yielded_def idle_client_def)
qed (use c in \<open>auto simp: idle_client_def\<close>)

lemma protocol_step_ok:
  assumes "readCapsRequestMap (Some (JObject req)) = Inr caps"
  shows "protocol_step s s' \<Longrightarrow> session_ok req caps s \<Longrightarrow> session_ok req caps s'"
proof (induction rule: protocol_step.induct)
  case (to_client s m ms c' out)
  then show ?case using to_client_ok [OF assms] by simp
next
  case (to_server s m ms tr p' out result)
  then show ?case using to_server_ok [OF assms] by simp
next
  case (listen s)
  then show ?case using listen_ok by simp
next
  case (handled s e w c' out)
  then show ?case using handled_ok by simp
qed

lemma host_send_request:
  assumes "host_send tr call p = Inr (p', m)"
  shows "p' = next_cycle p \<and> IsReady p \<and> cycle_request (sint (sv_cycle p')) m"
proof (cases call)
  case (CallCycle scope changes)
  then have "Cycle tr scope changes p = Inr (p', m)" using assms by (simp add: host_send_def)
  then show ?thesis using Cycle_eq convert_Cycle is_kind_Cycle unfolding cycle_request_def by metis
next
  case CallReset
  then have "CycleReset tr p = Inr (p', m)" using assms by (simp add: host_send_def)
  then show ?thesis using CycleReset_eq convert_CycleReset unfolding cycle_request_def by metis
qed

lemma Exit_kind: "Exit tr d p = Inr m \<Longrightarrow> IsReady p \<and> is_kind m ''EXIT''"
  by (auto simp: Exit_def split: if_splits)

lemma requested_append_exit: "is_kind m ''EXIT'' \<Longrightarrow> requested p (ms @ [m]) = requested p ms"
  by (cases "sv_phase p") (simp_all add: requested_def)

lemma requested_next:
  assumes "requested p ms" "sv_phase p = SReady" "cycle_request (sint (sv_cycle (next_cycle p))) m"
  shows "requested (next_cycle p) (ms @ [m])"
  using assms cycle_request_not_exit by (auto simp: requested_def next_cycle_def)

lemma next_cycle_simps [simp]:
  "sv_version (next_cycle p) = sv_version p" "sv_caps (next_cycle p) = sv_caps p"
  by (simp_all add: next_cycle_def)

lemma host_cycle_ok:
  assumes ok: "session_ok req caps s" and p: "sv_phase (ss_server s) = SReady"
    and h: "host_send tr call (ss_server s) = Inr (p', m)"
  shows "session_ok req caps (s\<lparr>ss_server := p', ss_down := ss_down s @ [m]\<rparr>)"
  using ok
proof cases
  case (caps_answered r rest)
  then show ?thesis
    using p host_send_request [OF h] requested_next
    by (intro session_ok.caps_answered [where r = r and rest = "rest @ [m]"]) auto
next
  case waiting
  then show ?thesis
    using p host_send_request [OF h] requested_next by (intro session_ok.waiting) auto
qed (use p in simp_all)

lemma host_exit_ok:
  assumes ok: "session_ok req caps s" and x: "Exit tr d (ss_server s) = Inr m"
  shows "session_ok req caps (s\<lparr>ss_down := ss_down s @ [m]\<rparr>)"
  using ok
proof cases
  case (caps_answered r rest)
  then show ?thesis
    using Exit_kind [OF x]
    by (intro session_ok.caps_answered [where r = r and rest = "rest @ [m]"]) (auto simp: requested_append_exit)
next
  case waiting
  then show ?thesis using Exit_kind [OF x] by (intro session_ok.waiting) (auto simp: requested_append_exit)
next
  case (handling e)
  then show ?thesis using Exit_kind [OF x] by (intro session_ok.handling [where e = e]) auto
next
  case (completed i)
  then show ?thesis using Exit_kind [OF x] by (intro session_ok.completed [where i = i]) auto
qed (use Exit_kind [OF x] in \<open>auto simp: IsReady_def\<close>)

lemma session_reach_ok:
  assumes "readCapsRequestMap (Some (JObject req)) = Inr caps"
  shows "session_reach req s \<Longrightarrow> session_ok req caps s"
proof (induction rule: session_reach.induct)
  case (start tr)
  show ?case
    by (intro session_ok.version_sent [where p = NewServer and tr = tr])
      (simp_all add: session_start_def NewServer_def NewClient_def)
next
  case (protocol s s')
  then show ?case using protocol_step_ok [OF assms] by blast
next
  case (host s s')
  from host.hyps(2) host.IH show ?case
    by cases (auto intro: host_cycle_ok host_exit_ok)
qed

text \<open>Nothing is left to do: connected on both ends with the same capabilities, no call pending.\<close>

definition settled :: "caps \<Rightarrow> session \<Rightarrow> bool" where
  "settled caps s \<longleftrightarrow>
     sv_phase (ss_server s) = SReady \<and> NegotiatedVersion (ss_server s) = 2 \<and> sv_caps (ss_server s) = Some caps \<and>
     cl_phase (ss_client s) = CListening \<and> cl_version (ss_client s) = 2 \<and> cl_caps (ss_client s) = Some caps \<and>
     ss_down s = [] \<and> ss_up s = []"

lemma to_client_enabled:
  "ss_down s = m # ms \<Longrightarrow> client_blocked (ss_client s) \<Longrightarrow> \<exists>s'. protocol_step s s'"
  by (cases "client_recv (Some m) (ss_client s)") (blast intro: protocol_step.to_client)

lemma to_server_enabled:
  assumes "ss_up s = m # ms" and "server_blocked (ss_server s)"
  shows "\<exists>s'. protocol_step s s'"
proof -
  obtain p' out result where "server_recv (undefined, undefined) (Some m) (ss_server s) = (p', out, result)"
    by (metis prod_cases3)
  with assms show ?thesis by (blast intro: protocol_step.to_server)
qed

lemma handled_enabled: "cl_phase (ss_client s) = CYielded e \<Longrightarrow> \<exists>s'. protocol_step s s'"
  by (cases "client_yielded True (ss_client s)") (blast intro: protocol_step.handled)

lemma not_stuck:
  assumes "session_ok req caps s" and "\<not> settled caps s"
  shows "\<exists>s'. protocol_step s s'"
  using assms(1)
proof cases
  case (version_sent p tr)
  then show ?thesis by (auto intro!: to_client_enabled simp: client_blocked_def)
next
  case version_answered
  then show ?thesis by (auto intro!: to_server_enabled simp: server_blocked_def)
next
  case caps_sent
  then show ?thesis by (auto intro!: to_server_enabled simp: server_blocked_def)
next
  case (caps_answered r rest)
  then show ?thesis by (auto intro!: to_client_enabled simp: client_blocked_def)
next
  case waiting
  show ?thesis
  proof (cases "cl_phase (ss_client s) = CConnected")
    case True
    then show ?thesis using protocol_step.listen by blast
  next
    case False
    then have l: "cl_phase (ss_client s) = CListening" using waiting by (simp add: idle_client_def)
    have "ss_down s \<noteq> []"
    proof
      assume e: "ss_down s = []"
      with waiting have "sv_phase (ss_server s) = SReady"
        by (auto simp: requested_def split: server_phase.splits)
      with waiting e l assms(2) show False by (simp add: settled_def NegotiatedVersion_def)
    qed
    then obtain m ms where "ss_down s = m # ms" by (cases "ss_down s") auto
    then show ?thesis using l by (intro to_client_enabled) (auto simp: client_blocked_def)
  qed
next
  case (handling e)
  then show ?thesis using handled_enabled by blast
next
  case (completed i)
  then show ?thesis by (auto intro: to_server_enabled simp: server_blocked_def)
qed

lemma protocol_steps_ok:
  assumes "readCapsRequestMap (Some (JObject req)) = Inr caps"
  shows "protocol_step\<^sup>*\<^sup>* s t \<Longrightarrow> session_ok req caps s \<Longrightarrow> session_ok req caps t"
  by (induction rule: rtranclp_induct) (auto intro: protocol_step_ok [OF assms])

lemma settles:
  assumes "readCapsRequestMap (Some (JObject req)) = Inr caps" and "session_ok req caps s"
  shows "\<exists>t. protocol_step\<^sup>*\<^sup>* s t \<and> settled caps t"
  using assms(2)
proof (induction "session_work s" arbitrary: s rule: less_induct)
  case less
  show ?case
  proof (cases "settled caps s")
    case False
    then obtain s' where s': "protocol_step s s'" using not_stuck less.prems by blast
    then obtain t where "protocol_step\<^sup>*\<^sup>* s' t" "settled caps t"
      using less.hyps [of s'] protocol_step_work protocol_step_ok [OF assms(1)] less.prems by blast
    with s' show ?thesis by (meson converse_rtranclp_into_rtranclp)
  qed blast
qed

text \<open>
  C3 (liveness). A server and a client that asks for valid capabilities always get on. Whatever
  cycles, resets and exits the host sends and in whatever order messages are delivered, neither
  end fails, panics or waits forever: the protocol cannot go on forever without the host, and it only
  comes to rest with the handshake finished, the same capabilities at both ends, every call of the host
  answered and the client listening again.
\<close>

theorem session_settles:
  assumes "readCapsRequestMap (Some (JObject req)) = Inr caps" and "session_reach req s"
  shows "wfP (\<lambda>s' s. protocol_step s s') \<and>
    (\<exists>t. protocol_step\<^sup>*\<^sup>* s t \<and> settled caps t) \<and>
    (\<forall>t. protocol_step\<^sup>*\<^sup>* s t \<longrightarrow> settled caps t \<or> (\<exists>t'. protocol_step t t'))"
proof (intro conjI allI impI)
  note ok = session_reach_ok [OF assms]
  show "wfP (\<lambda>s' s. protocol_step s s')" by (rule protocol_steps_end)
  show "\<exists>t. protocol_step\<^sup>*\<^sup>* s t \<and> settled caps t" using settles assms(1) ok by blast
  fix t assume "protocol_step\<^sup>*\<^sup>* s t"
  then show "settled caps t \<or> (\<exists>t'. protocol_step t t')"
    using protocol_steps_ok [OF assms(1)] ok not_stuck by blast
qed

theorem session_settles_witness:
  "\<exists>t. protocol_step\<^sup>*\<^sup>* (session_start (''t1'', ''s1'') [(''otel'', JBool True), (''scope'', JArray [JString ''sources''])]) t \<and>
     settled [(''scope'', CapScopes [''sources'']), (''otel'', CapBool True)] t"
  by (rule session_settles [THEN conjunct2, THEN conjunct1,
        of "[(''otel'', JBool True), (''scope'', JArray [JString ''sources''])]"])
    (simp_all add: readCapsRequestMap_def default_caps_def read_cap_def readScopeCapList_def readCapBool_def
      WatchCapability_WatchScope_def WatchCapability_OTEL_def WatchScope_Sources_def WatchScope_Runfiles_def
      session_reach.start)

text \<open>
  C38 (type). The capabilities of a server are always well typed, whatever a client sends: each
  scope capability is a non-empty list of known scopes, so \<open>WatchingScope\<close> answers for some
  non-empty set of watched scopes and its unchecked conversion never panics.
\<close>

theorem watching_scope_total:
  assumes "server_run p"
  shows "(\<forall>c. sv_caps p = Some c \<longrightarrow> caps_ok c) \<and>
    (\<exists>watched. watched \<noteq> {} \<and> watched \<subseteq> {WatchScope_Sources, WatchScope_Runfiles} \<and>
       (\<forall>s. WatchingScope p s = Inr (s \<in> watched)))"
  using server_run_ok [OF assms] WatchingScope_ok by (auto simp: server_ok_def)

theorem watching_scope_total_witness:
  "\<exists>watched. watched \<noteq> {} \<and> watched \<subseteq> {WatchScope_Sources, WatchScope_Runfiles} \<and>
     (\<forall>s. WatchingScope (fst (server_recv (''t'', ''s'') (Some [''kind'' \<mapsto> JString ''EXIT'']) NewServer)) s =
       Inr (s \<in> watched))"
  by (rule watching_scope_total [THEN conjunct2],
      rule server_run.recv [OF server_run.start, where out = "fst (snd (server_recv (''t'', ''s'') (Some [''kind'' \<mapsto> JString ''EXIT'']) NewServer))"
        and result = "snd (snd (server_recv (''t'', ''s'') (Some [''kind'' \<mapsto> JString ''EXIT'']) NewServer))"])
    simp

text \<open>
  C39 (bounds). Of the calls of a host, run one after the other, those are sent that the
  negotiated version has (none before one is negotiated, a reset from version 2 on). The ids of
  up to \<open>2 ^ 32\<close> successive calls sent are distinct integers of 32 bits with sign, counting up
  from the last one and wrapping around. So the answers cannot be confused: while the server
  waits for the cycle with one of these ids, an answer that carries the id of another makes the
  call return an error and never success, the start of this one keeps it waiting, its
  completion, failure or abortion makes it succeed, and any other kind is an error.
\<close>

theorem cycle_ids_distinct:
  assumes "length (filter (sends (sv_version p)) calls) \<le> 2 ^ 32"
  shows "\<exists>ids. map (\<lambda>m. m ''cycle_id'') (snd (run_calls tr calls p)) = map (\<lambda>i. Some (JNumber (of_int i))) ids \<and>
    ids = map (\<lambda>k. sint (sv_cycle p + word_of_nat (Suc k))) [0..<length (filter (sends (sv_version p)) calls)] \<and>
    distinct ids \<and> set ids \<subseteq> {- (2 ^ 31)..<2 ^ 31} \<and>
    (\<forall>i \<in> set ids. \<forall>j \<in> set ids. \<forall>m. m ''cycle_id'' = Some (JNumber (of_int j)) \<longrightarrow>
       await_response i m =
         (if i \<noteq> j then Some (Some (WrongCycle i))
          else if m ''kind'' = Some (JString ''CYCLE_STARTED'') then None
          else if \<exists>k \<in> ends_cycle. m ''kind'' = Some (JString k) then Some None
          else Some (Some UnexpectedResponse)))"
proof (intro exI conjI)
  show "map (\<lambda>m. m ''cycle_id'') (snd (run_calls tr calls p)) =
      map (\<lambda>i. Some (JNumber (of_int i)))
        (map (\<lambda>k. sint (sv_cycle p + word_of_nat (Suc k))) [0..<length (filter (sends (sv_version p)) calls)])"
    by (rule ids_of_run(1) [OF assms])
qed (use ids_of_run(2,3) [OF assms] await_answer in \<open>auto simp del: length_filter_less\<close>)

theorem cycle_ids_distinct_witness:
  "\<exists>ids. map (\<lambda>m. m ''cycle_id'') (snd (run_calls (''t'', ''s'') [CallReset, CallCycle ''sources'' None]
       \<lparr>sv_phase = SReady, sv_version = Some 2, sv_caps = None, sv_cycle = 2147483647\<rparr>)) =
       map (\<lambda>i. Some (JNumber (of_int i))) ids \<and> ids = [- 2147483648, - 2147483647]"
  using cycle_ids_distinct [of "\<lparr>sv_phase = SReady, sv_version = Some 2, sv_caps = None, sv_cycle = 2147483647\<rparr>"
      "[CallReset, CallCycle ''sources'' None]" "(''t'', ''s'')"]
  by (simp add: upt_rec sends_def)

end
