(* ===== verification/File_Cache.thy ===== *)
theory File_Cache
  imports Prelude Go_Path
begin

text \<open>
  The caches of data computed from files (\<open>common/cache\<close>): without cache, by path
  (\<open>filecompute.go\<close>), by path and content hash (\<open>disk.go\<close>) and for watch sessions (\<open>watch.go\<close>),
  with their file on disk, and the choice of the cache (\<open>configurer.go\<close>). A value that is nil is
  \<open>None\<close>; calls on a cache are atomic, except in the last section. The hash, the contents of files
  and the loaders are parameters.
\<close>

section \<open>Files and loaders\<close>

type_synonym content = string

text \<open>Reading a path: an error or the content.\<close>

type_synonym files = "string \<Rightarrow> string + content"

text \<open>A loader gives a value and an error, which may both be there.\<close>

type_synonym 'v loader = "string \<Rightarrow> content \<Rightarrow> 'v option \<times> string option"

text \<open>The three results of \<open>LoadOrStoreFile\<close>.\<close>

type_synonym 'v load_result = "'v option \<times> bool \<times> string option"

definition noop_LoadOrStoreFile ::
  "files \<Rightarrow> string \<Rightarrow> string \<Rightarrow> string \<Rightarrow> 'v loader \<Rightarrow> 'v load_result" where
  "noop_LoadOrStoreFile fs root p key loader =
     (case fs (path_join [root, p]) of
        Inl err \<Rightarrow> (None, False, Some err)
      | Inr content \<Rightarrow> (case loader p content of (result, err) \<Rightarrow> (result, False, err)))"

section \<open>Caching by path\<close>

type_synonym 'v file_entry = "string \<rightharpoonup> 'v option"

type_synonym 'v entries = "string \<rightharpoonup> 'v file_entry"

record 'v file_compute_cache =
  fc_entries :: "'v entries"
  fc_file :: string

definition NewFileComputeCache :: "'v file_compute_cache" where
  "NewFileComputeCache = \<lparr>fc_entries = Map.empty, fc_file = ''''\<rparr>"

fun delete_all :: "string list \<Rightarrow> (string \<rightharpoonup> 'a) \<Rightarrow> (string \<rightharpoonup> 'a)" where
  "delete_all [] m = m"
| "delete_all (p # ps) m = delete_all ps (m(p := None))"

definition fc_Invalidate :: "string list \<Rightarrow> ('v, 'z) file_compute_cache_scheme \<Rightarrow> ('v, 'z) file_compute_cache_scheme" where
  "fc_Invalidate paths c = c\<lparr>fc_entries := delete_all paths (fc_entries c)\<rparr>"

definition fc_InvalidateAll :: "('v, 'z) file_compute_cache_scheme \<Rightarrow> ('v, 'z) file_compute_cache_scheme" where
  "fc_InvalidateAll c = c\<lparr>fc_entries := Map.empty\<rparr>"

definition LoadEntries :: "'v entries \<Rightarrow> ('v, 'z) file_compute_cache_scheme \<Rightarrow> ('v, 'z) file_compute_cache_scheme" where
  "LoadEntries m c = c\<lparr>fc_entries := fc_entries c ++ m\<rparr>"

definition SnapshotEntries :: "('v, 'z) file_compute_cache_scheme \<Rightarrow> 'v entries" where
  "SnapshotEntries c = fc_entries c"

definition entry_loadOrStore :: "string \<Rightarrow> 'v option \<Rightarrow> 'v file_entry \<Rightarrow> 'v option \<times> 'v file_entry" where
  "entry_loadOrStore key v e = (case e key of Some v' \<Rightarrow> (v', e) | None \<Rightarrow> (v, e(key \<mapsto> v)))"

text \<open>The inner lookup, when the content has been read.\<close>

definition loadOrStore ::
  "string \<Rightarrow> string \<Rightarrow> content \<Rightarrow> 'v loader \<Rightarrow> ('v, 'z) file_compute_cache_scheme \<Rightarrow>
   'v load_result \<times> ('v, 'z) file_compute_cache_scheme" where
  "loadOrStore p key content loader c =
     (let entry = (case fc_entries c p of Some e \<Rightarrow> e | None \<Rightarrow> Map.empty)
      in case entry key of
           Some v \<Rightarrow> ((v, True, None), c\<lparr>fc_entries := (fc_entries c)(p \<mapsto> entry)\<rparr>)
         | None \<Rightarrow>
           (case loader p content of
              (v, None) \<Rightarrow>
                (case entry_loadOrStore key v entry of
                   (v', entry') \<Rightarrow> ((v', False, None), c\<lparr>fc_entries := (fc_entries c)(p \<mapsto> entry')\<rparr>))
            | (v, Some err) \<Rightarrow> ((v, False, Some err), c\<lparr>fc_entries := (fc_entries c)(p \<mapsto> entry)\<rparr>)))"

definition cached :: "string \<Rightarrow> string \<Rightarrow> 'v entries \<Rightarrow> 'v option option" where
  "cached p key m = Option.bind (m p) (\<lambda>e. e key)"

definition fc_LoadOrStoreFile ::
  "files \<Rightarrow> string \<Rightarrow> string \<Rightarrow> string \<Rightarrow> 'v loader \<Rightarrow> ('v, 'z) file_compute_cache_scheme \<Rightarrow>
   'v load_result \<times> ('v, 'z) file_compute_cache_scheme" where
  "fc_LoadOrStoreFile fs root p key loader c =
     (case cached p key (fc_entries c) of
        Some v \<Rightarrow> ((v, True, None), c)
      | None \<Rightarrow>
        (case fs (path_join [root, p]) of
           Inl err \<Rightarrow> ((None, False, Some err), c)
         | Inr content \<Rightarrow> loadOrStore p key content loader c))"

section \<open>The file of a cache\<close>

text \<open>The header and the state of a decodable cache file; \<open>None\<close> if there is none or it is corrupt.\<close>

record cache_info =
  ci_Type :: string
  ci_Version :: string

datatype 'v cache_state =
    FileComputeState "'v entries"
  | DiskState "'v entries" "string \<rightharpoonup> string"
  | WatchmanState string "'v entries"

type_synonym 'v cache_file = "(cache_info \<times> 'v cache_state) option"

record build_info =
  bi_GitCommit :: string
  bi_IsStamped :: bool

definition VerifyCacheVersion :: "build_info \<Rightarrow> string \<Rightarrow> cache_info \<Rightarrow> bool" where
  "VerifyCacheVersion b expectedType pi \<longleftrightarrow>
     ci_Type pi = expectedType \<and> \<not> (bi_IsStamped b \<and> ci_Version pi \<noteq> bi_GitCommit b)"

definition WriteCacheFile :: "build_info \<Rightarrow> string \<Rightarrow> 'v cache_state \<Rightarrow> 'v cache_file" where
  "WriteCacheFile b cacheType state = Some (\<lparr>ci_Type = cacheType, ci_Version = bi_GitCommit b\<rparr>, state)"

definition fc_read :: "build_info \<Rightarrow> 'v cache_file \<Rightarrow> 'v file_compute_cache \<Rightarrow> 'v file_compute_cache" where
  "fc_read b f c =
     (case f of
        Some (pi, FileComputeState m) \<Rightarrow> if VerifyCacheVersion b ''filecompute'' pi then LoadEntries m c else c
      | _ \<Rightarrow> c)"

definition fc_write :: "build_info \<Rightarrow> 'v file_compute_cache \<Rightarrow> 'v cache_file" where
  "fc_write b c = WriteCacheFile b ''filecompute'' (FileComputeState (SnapshotEntries c))"

section \<open>Caching by path and content\<close>

record 'v disk_cache = "'v file_compute_cache" +
  dc_contentHashes :: "string \<rightharpoonup> string"

definition disk_read :: "build_info \<Rightarrow> 'v cache_file \<Rightarrow> ('v, 'z) disk_cache_scheme \<Rightarrow> ('v, 'z) disk_cache_scheme" where
  "disk_read b f c =
     (case f of
        Some (pi, DiskState m hashes) \<Rightarrow>
          if VerifyCacheVersion b ''disk'' pi
          then (LoadEntries m c)\<lparr>dc_contentHashes := dc_contentHashes c ++ hashes\<rparr>
          else c
      | _ \<Rightarrow> c)"

definition disk_write :: "build_info \<Rightarrow> ('v, 'z) disk_cache_scheme \<Rightarrow> 'v cache_file" where
  "disk_write b c = WriteCacheFile b ''disk'' (DiskState (SnapshotEntries c) (dc_contentHashes c))"

definition NewDiskCache :: "build_info \<Rightarrow> string \<Rightarrow> 'v cache_file \<Rightarrow> 'v disk_cache" where
  "NewDiskCache b cacheFilePath f =
     disk_read b f \<lparr>fc_entries = Map.empty, fc_file = cacheFilePath, dc_contentHashes = Map.empty\<rparr>"

text \<open>The entry is dropped when the recorded hash is another one.\<close>

definition check_hash :: "string \<Rightarrow> string \<Rightarrow> ('v, 'z) disk_cache_scheme \<Rightarrow> ('v, 'z) disk_cache_scheme" where
  "check_hash p contentHash c =
     (case dc_contentHashes c p of
        Some existingHash \<Rightarrow> if existingHash \<noteq> contentHash then fc_Invalidate [p] c else c
      | None \<Rightarrow> c)"

definition store_hash :: "string \<Rightarrow> string \<Rightarrow> ('v, 'z) disk_cache_scheme \<Rightarrow> ('v, 'z) disk_cache_scheme" where
  "store_hash p contentHash c = c\<lparr>dc_contentHashes := (dc_contentHashes c)(p \<mapsto> contentHash)\<rparr>"

definition disk_LoadOrStoreFile ::
  "(content \<Rightarrow> string) \<Rightarrow> files \<Rightarrow> string \<Rightarrow> string \<Rightarrow> string \<Rightarrow> 'v loader \<Rightarrow> ('v, 'z) disk_cache_scheme \<Rightarrow>
   'v load_result \<times> ('v, 'z) disk_cache_scheme" where
  "disk_LoadOrStoreFile hash fs root p key loader c =
     (case fs (path_join [root, p]) of
        Inl err \<Rightarrow> ((None, False, Some err), c)
      | Inr content \<Rightarrow>
          loadOrStore p key content loader (store_hash p (hash content) (check_hash p (hash content) c)))"

section \<open>Watch sessions\<close>

record 'v watch_cache = "'v disk_cache" +
  wc_verified :: "string set"

definition NewWatchCache :: "'v watch_cache" where
  "NewWatchCache = \<lparr>fc_entries = Map.empty, fc_file = '''', dc_contentHashes = Map.empty, wc_verified = {}\<rparr>"

definition watch_LoadOrStoreFile ::
  "(content \<Rightarrow> string) \<Rightarrow> files \<Rightarrow> string \<Rightarrow> string \<Rightarrow> string \<Rightarrow> 'v loader \<Rightarrow> 'v watch_cache \<Rightarrow>
   'v load_result \<times> 'v watch_cache" where
  "watch_LoadOrStoreFile hash fs root p key loader c =
     (case (if p \<in> wc_verified c then cached p key (fc_entries c) else None) of
        Some v \<Rightarrow> ((v, True, None), c)
      | None \<Rightarrow>
        (case disk_LoadOrStoreFile hash fs root p key loader c of
           ((v, found, err), c') \<Rightarrow>
             ((v, found, err), if err = None then c'\<lparr>wc_verified := insert p (wc_verified c')\<rparr> else c')))"

definition watch_Invalidate :: "string list \<Rightarrow> 'v watch_cache \<Rightarrow> 'v watch_cache" where
  "watch_Invalidate paths c =
     (let c1 = fc_Invalidate paths c
      in c1\<lparr>dc_contentHashes := delete_all paths (dc_contentHashes c1), wc_verified := wc_verified c1 - set paths\<rparr>)"

definition watch_InvalidateAll :: "'v watch_cache \<Rightarrow> 'v watch_cache" where
  "watch_InvalidateAll c = (fc_InvalidateAll c)\<lparr>dc_contentHashes := Map.empty, wc_verified := {}\<rparr>"

section \<open>Choosing the cache\<close>

definition fc_NewCache ::
  "build_info \<Rightarrow> string \<Rightarrow> 'v cache_file \<Rightarrow> bool \<times> 'v file_compute_cache \<Rightarrow> bool \<times> 'v file_compute_cache" where
  "fc_NewCache b filePath f oc =
     (case oc of (initialized, c) \<Rightarrow>
        if initialized then oc else (True, fc_read b f (c\<lparr>fc_file := filePath\<rparr>)))"

definition watch_NewCache ::
  "build_info \<Rightarrow> string \<Rightarrow> 'v cache_file \<Rightarrow> bool \<times> 'v watch_cache \<Rightarrow> bool \<times> 'v watch_cache" where
  "watch_NewCache b filePath f oc =
     (case oc of (initialized, c) \<Rightarrow>
        if initialized then oc else (True, disk_read b f (c\<lparr>fc_file := filePath\<rparr>)))"

text \<open>\<open>FilePath\<close>: the variable, else a name of the repository below the temporary directory.\<close>

definition hex_digit :: "nat \<Rightarrow> char" where
  "hex_digit n = ''0123456789abcdef'' ! n"

definition hex_encode :: "string \<Rightarrow> string" where
  "hex_encode s = concat (map (\<lambda>c. [hex_digit (of_char c div 16), hex_digit (of_char c mod 16)]) s)"

definition FilePath :: "string \<Rightarrow> string \<Rightarrow> (string \<Rightarrow> string) \<Rightarrow> string \<Rightarrow> string \<Rightarrow> string" where
  "FilePath env_cache tempDir sha256 repoRoot repoName =
     (if env_cache \<noteq> '''' then env_cache
      else path_join [tempDir, ''aspect-gazelle-'' @ repoName @ ''-'' @ hex_encode (take 8 (sha256 repoRoot)) @ ''.cache''])"

datatype 'v any_cache =
    NoCache
  | ByPath "'v file_compute_cache"
  | OnDisk "'v disk_cache"
  | Watching "'v watch_cache"

definition LoadOrStoreFile ::
  "(content \<Rightarrow> string) \<Rightarrow> files \<Rightarrow> string \<Rightarrow> string \<Rightarrow> string \<Rightarrow> 'v loader \<Rightarrow> 'v any_cache \<Rightarrow>
   'v load_result \<times> 'v any_cache" where
  "LoadOrStoreFile hash fs root p key loader c =
     (case c of
        NoCache \<Rightarrow> (noop_LoadOrStoreFile fs root p key loader, NoCache)
      | ByPath c \<Rightarrow> map_prod id ByPath (fc_LoadOrStoreFile fs root p key loader c)
      | OnDisk c \<Rightarrow> map_prod id OnDisk (disk_LoadOrStoreFile hash fs root p key loader c)
      | Watching c \<Rightarrow> map_prod id Watching (watch_LoadOrStoreFile hash fs root p key loader c))"

text \<open>The file a cache leaves behind; without cache, what was there.\<close>

definition Persist :: "build_info \<Rightarrow> 'v any_cache \<Rightarrow> 'v cache_file \<Rightarrow> 'v cache_file" where
  "Persist b c f =
     (case c of NoCache \<Rightarrow> f | ByPath c \<Rightarrow> fc_write b c | OnDisk c \<Rightarrow> disk_write b c | Watching c \<Rightarrow> disk_write b c)"

text \<open>\<open>CheckFlags\<close>: the factory, when there is one, makes the cache of the run.\<close>

definition CheckFlags :: "(unit \<Rightarrow> 'v any_cache) option \<Rightarrow> 'v any_cache" where
  "CheckFlags cacheFactory = (case cacheFactory of None \<Rightarrow> NoCache | Some factory \<Rightarrow> factory ())"

definition initial_factory :: "build_info \<Rightarrow> string \<Rightarrow> 'v cache_file \<Rightarrow> (unit \<Rightarrow> 'v any_cache) option" where
  "initial_factory b diskCachePath f =
     (if diskCachePath \<noteq> '''' then Some (\<lambda>_. OnDisk (NewDiskCache b diskCachePath f)) else None)"

text \<open>\<open>Get\<close>: the cache kept in the configuration.\<close>

definition Get_cache :: "'v any_cache option \<Rightarrow> 'v any_cache" where
  "Get_cache ext = (case ext of Some c \<Rightarrow> c | None \<Rightarrow> NoCache)"

section \<open>What a cache promises\<close>

text \<open>
  The steps of a host: loading a file through the cache, changes of files (known by their full
  path), \<open>Invalidate\<close>, \<open>InvalidateAll\<close>, \<open>Persist\<close>, and a new process, of some build, reading the
  cache file that was left.
\<close>

datatype cache_op =
    Load string string
  | Edit string "string + content"
  | Drop "string list"
  | DropAll
  | Save build_info
  | Restart build_info

text \<open>The results that count: the value and the error, not whether the value was cached.\<close>

definition answer_of :: "'v load_result \<Rightarrow> 'v option \<times> string option" where
  "answer_of r = (case r of (v, _, err) \<Rightarrow> (v, err))"

definition direct :: "files \<Rightarrow> string \<Rightarrow> (string \<Rightarrow> 'v loader) \<Rightarrow> string \<Rightarrow> string \<Rightarrow> 'v option \<times> string option" where
  "direct fs root ld p key = answer_of (noop_LoadOrStoreFile fs root p key (ld key))"

fun direct_answers :: "string \<Rightarrow> (string \<Rightarrow> 'v loader) \<Rightarrow> cache_op list \<Rightarrow> files \<Rightarrow> ('v option \<times> string option) list" where
  "direct_answers root ld [] fs = []"
| "direct_answers root ld (op # ops) fs =
     (case op of
        Load p key \<Rightarrow> direct fs root ld p key # direct_answers root ld ops fs
      | Edit q x \<Rightarrow> direct_answers root ld ops (fs(q := x))
      | _ \<Rightarrow> direct_answers root ld ops fs)"

text \<open>
  A host keeps to the contract when it does not load a path that changed since it was loaded
  without having dropped it. \<open>stale\<close> are the paths it may not load; a new process starts with
  \<open>init\<close> of them.
\<close>

fun announced :: "string \<Rightarrow> string set \<Rightarrow> cache_op list \<Rightarrow> string set \<Rightarrow> bool" where
  "announced root init [] stale = True"
| "announced root init (op # ops) stale =
     (case op of
        Load p key \<Rightarrow> p \<notin> stale \<and> announced root init ops stale
      | Edit q x \<Rightarrow> announced root init ops (stale \<union> {p. path_join [root, p] = q})
      | Drop ps \<Rightarrow> announced root init ops (stale - set ps)
      | DropAll \<Rightarrow> announced root init ops {}
      | Save b \<Rightarrow> announced root init ops stale
      | Restart b \<Rightarrow> announced root init ops init)"

text \<open>All contents of files, now and later, are in \<open>C\<close>.\<close>

definition files_in :: "content set \<Rightarrow> files \<Rightarrow> bool" where
  "files_in C fs \<longleftrightarrow> (\<forall>q content. fs q = Inr content \<longrightarrow> content \<in> C)"

definition edits_in :: "content set \<Rightarrow> cache_op list \<Rightarrow> bool" where
  "edits_in C ops \<longleftrightarrow> (\<forall>q content. Edit q (Inr content) \<in> set ops \<longrightarrow> content \<in> C)"

lemma files_in_edit: "files_in C fs \<Longrightarrow> edits_in C (Edit q x # ops) \<Longrightarrow> files_in C (fs(q := x))"
  by (auto simp: files_in_def edits_in_def split: if_splits)

lemma edits_in_Cons: "edits_in C (op # ops) \<Longrightarrow> edits_in C ops"
  by (auto simp: edits_in_def)

text \<open>The answers a host gets of a cache with its operations \<open>load\<close> to \<open>restart\<close>.\<close>

fun cache_answers ::
  "(files \<Rightarrow> string \<Rightarrow> string \<Rightarrow> 'c \<Rightarrow> 'v load_result \<times> 'c) \<Rightarrow> (string list \<Rightarrow> 'c \<Rightarrow> 'c) \<Rightarrow> ('c \<Rightarrow> 'c) \<Rightarrow>
   (build_info \<Rightarrow> 'c \<Rightarrow> 'c) \<Rightarrow> (build_info \<Rightarrow> 'c \<Rightarrow> 'c) \<Rightarrow> cache_op list \<Rightarrow> files \<Rightarrow> 'c \<Rightarrow>
   ('v option \<times> string option) list" where
  "cache_answers load drop_paths drop_all save restart [] fs c = []"
| "cache_answers load drop_paths drop_all save restart (op # ops) fs c =
     (case op of
        Load p key \<Rightarrow>
          (case load fs p key c of
             (r, c') \<Rightarrow> answer_of r # cache_answers load drop_paths drop_all save restart ops fs c')
      | Edit q x \<Rightarrow> cache_answers load drop_paths drop_all save restart ops (fs(q := x)) c
      | Drop ps \<Rightarrow> cache_answers load drop_paths drop_all save restart ops fs (drop_paths ps c)
      | DropAll \<Rightarrow> cache_answers load drop_paths drop_all save restart ops fs (drop_all c)
      | Save b \<Rightarrow> cache_answers load drop_paths drop_all save restart ops fs (save b c)
      | Restart b \<Rightarrow> cache_answers load drop_paths drop_all save restart ops fs (restart b c))"

locale compute_cache =
  fixes root :: string and ld :: "string \<Rightarrow> 'v loader"
    and load :: "files \<Rightarrow> string \<Rightarrow> string \<Rightarrow> 'c \<Rightarrow> 'v load_result \<times> 'c"
    and drop_paths :: "string list \<Rightarrow> 'c \<Rightarrow> 'c" and drop_all :: "'c \<Rightarrow> 'c"
    and save :: "build_info \<Rightarrow> 'c \<Rightarrow> 'c" and restart :: "build_info \<Rightarrow> 'c \<Rightarrow> 'c"
    and inv :: "'c \<Rightarrow> bool" and agrees :: "files \<Rightarrow> string \<Rightarrow> 'c \<Rightarrow> bool"
    and init :: "string set" and C :: "content set"
  assumes load_answer: "inv c \<Longrightarrow> agrees fs p c \<Longrightarrow> files_in C fs \<Longrightarrow>
      answer_of (fst (load fs p k c)) = direct fs root ld p k"
    and load_inv: "inv c \<Longrightarrow> agrees fs p c \<Longrightarrow> files_in C fs \<Longrightarrow> inv (snd (load fs p k c))"
    and load_agrees: "inv c \<Longrightarrow> agrees fs p c \<Longrightarrow> agrees fs q c \<Longrightarrow> files_in C fs \<Longrightarrow>
      agrees fs q (snd (load fs p k c))"
    and edit_agrees: "agrees fs p c \<Longrightarrow> path_join [root, p] \<noteq> q \<Longrightarrow> agrees (fs(q := x)) p c"
    and drop_inv: "inv c \<Longrightarrow> inv (drop_paths ps c)"
    and drop_agrees: "p \<in> set ps \<or> agrees fs p c \<Longrightarrow> agrees fs p (drop_paths ps c)"
    and drop_all_inv: "inv c \<Longrightarrow> inv (drop_all c)"
    and drop_all_agrees: "agrees fs p (drop_all c)"
    and save_inv: "inv c \<Longrightarrow> inv (save b c)"
    and save_agrees: "agrees fs p c \<Longrightarrow> agrees fs p (save b c)"
    and restart_inv: "inv c \<Longrightarrow> inv (restart b c)"
    and restart_agrees: "inv c \<Longrightarrow> p \<notin> init \<Longrightarrow> agrees fs p (restart b c)"
begin

lemma answers_direct:
  "inv c \<Longrightarrow> \<forall>p. p \<notin> stale \<longrightarrow> agrees fs p c \<Longrightarrow> announced root init ops stale \<Longrightarrow>
   files_in C fs \<Longrightarrow> edits_in C ops \<Longrightarrow>
   cache_answers load drop_paths drop_all save restart ops fs c = direct_answers root ld ops fs"
proof (induction ops arbitrary: fs c stale)
  case (Cons op ops)
  note edits = edits_in_Cons [OF Cons.prems(5)]
  show ?case
  proof (cases op)
    case (Load p k)
    with Cons.prems have a: "agrees fs p c" by simp
    have "cache_answers load drop_paths drop_all save restart ops fs (snd (load fs p k c)) =
        direct_answers root ld ops fs"
      using Cons.prems edits load_inv [OF Cons.prems(1) a] load_agrees [OF Cons.prems(1) a] Load
      by (intro Cons.IH [of _ stale]) auto
    with load_answer [OF Cons.prems(1) a Cons.prems(4), of k] Load show ?thesis by (simp add: split_beta)
  next
    case (Edit q x)
    have "cache_answers load drop_paths drop_all save restart ops (fs(q := x)) c =
        direct_answers root ld ops (fs(q := x))"
      using Cons.prems edits Edit
      by (intro Cons.IH [of _ "stale \<union> {p. path_join [root, p] = q}"] allI impI edit_agrees files_in_edit) auto
    with Edit show ?thesis by (simp only: cache_answers.simps direct_answers.simps cache_op.case)
  next
    case (Drop ps)
    with Cons.prems edits drop_inv drop_agrees show ?thesis
      by (simp, intro Cons.IH [of _ "stale - set ps"]) auto
  next
    case DropAll
    with Cons.prems edits drop_all_inv drop_all_agrees show ?thesis
      by (simp, intro Cons.IH [of _ "{}"]) auto
  next
    case (Save b)
    with Cons.prems edits save_inv save_agrees show ?thesis
      by (simp, intro Cons.IH [of _ stale]) auto
  next
    case (Restart b)
    with Cons.prems edits restart_inv restart_agrees show ?thesis
      by (simp, intro Cons.IH [of _ init]) auto
  qed
qed simp

end

text \<open>A cache that checks the content on every load needs no help from the host.\<close>

locale checking_cache = compute_cache +
  assumes always: "inv c \<Longrightarrow> agrees fs p c"
begin

lemma answers_always:
  "inv c \<Longrightarrow> files_in C fs \<Longrightarrow> edits_in C ops \<Longrightarrow>
   cache_answers load drop_paths drop_all save restart ops fs c = direct_answers root ld ops fs"
proof (induction ops arbitrary: fs c)
  case (Cons op ops)
  have "answer_of (fst (load fs p k c)) = direct fs root ld p k" for p k
    using load_answer always Cons.prems by blast
  moreover have "inv (snd (load fs p k c))" for p k
    using load_inv always Cons.prems by blast
  moreover have "files_in C (fs(q := x))" if "op = Edit q x" for q x
    using files_in_edit Cons.prems(2,3) that by blast
  ultimately show ?case
    using Cons.IH Cons.prems(1,2) edits_in_Cons [OF Cons.prems(3)] drop_inv drop_all_inv save_inv restart_inv
    by (cases op) (simp_all only: split_beta cache_answers.simps direct_answers.simps cache_op.case)
qed simp

end

section \<open>The caches keep the promise\<close>

definition entry_ok :: "(string \<Rightarrow> 'v loader) \<Rightarrow> string \<Rightarrow> content \<Rightarrow> 'v file_entry \<Rightarrow> bool" where
  "entry_ok ld p content e \<longleftrightarrow> (\<forall>k v. e k = Some v \<longrightarrow> ld k p content = (v, None))"

text \<open>The entry of a path was computed from a content that has the recorded hash.\<close>

definition consistent ::
  "(content \<Rightarrow> string) \<Rightarrow> content set \<Rightarrow> (string \<Rightarrow> 'v loader) \<Rightarrow> 'v entries \<Rightarrow> (string \<rightharpoonup> string) \<Rightarrow> bool" where
  "consistent hash C ld m hashes \<longleftrightarrow>
     (\<forall>p e. m p = Some e \<longrightarrow> (\<exists>content \<in> C. hashes p = Some (hash content) \<and> entry_ok ld p content e))"

definition file_consistent ::
  "(content \<Rightarrow> string) \<Rightarrow> content set \<Rightarrow> (string \<Rightarrow> 'v loader) \<Rightarrow> 'v cache_file \<Rightarrow> bool" where
  "file_consistent hash C ld f \<longleftrightarrow>
     (\<forall>pi m hashes. f = Some (pi, DiskState m hashes) \<longrightarrow> consistent hash C ld m hashes)"

text \<open>No two contents that occur have the same hash, and what is cached was computed from one of them.\<close>

definition disk_inv ::
  "(content \<Rightarrow> string) \<Rightarrow> content set \<Rightarrow> (string \<Rightarrow> 'v loader) \<Rightarrow> ('v, 'z) disk_cache_scheme \<times> 'v cache_file \<Rightarrow> bool" where
  "disk_inv hash C ld cf \<longleftrightarrow> inj_on hash C \<and>
     consistent hash C ld (fc_entries (fst cf)) (dc_contentHashes (fst cf)) \<and> file_consistent hash C ld (snd cf)"

text \<open>What is cached for a path is what its loaders give for the file as it is.\<close>

definition entries_agree :: "string \<Rightarrow> (string \<Rightarrow> 'v loader) \<Rightarrow> files \<Rightarrow> string \<Rightarrow> 'v entries \<Rightarrow> bool" where
  "entries_agree root ld fs p m \<longleftrightarrow>
     (\<forall>key v. cached p key m = Some v \<longrightarrow>
        (\<exists>content. fs (path_join [root, p]) = Inr content \<and> ld key p content = (v, None)))"

lemma direct_eq:
  "direct fs root ld p key =
     (case fs (path_join [root, p]) of Inl err \<Rightarrow> (None, Some err) | Inr content \<Rightarrow> ld key p content)"
  by (simp add: direct_def noop_LoadOrStoreFile_def answer_of_def split: sum.split prod.split)

lemma entry_ok_empty [simp]: "entry_ok ld p content Map.empty"
  by (simp add: entry_ok_def)

lemma loadOrStore_spec:
  assumes ok: "\<And>e. fc_entries c p = Some e \<Longrightarrow> entry_ok ld p content e"
  obtains e' r where "loadOrStore p key content (ld key) c = (r, c\<lparr>fc_entries := (fc_entries c)(p \<mapsto> e')\<rparr>)"
    and "entry_ok ld p content e'" and "answer_of r = ld key p content"
proof -
  define e where "e = (case fc_entries c p of Some e \<Rightarrow> e | None \<Rightarrow> Map.empty)"
  have e: "entry_ok ld p content e" using ok by (auto simp: e_def split: option.splits)
  obtain v err where l: "ld key p content = (v, err)" by fastforce
  show ?thesis
  proof (cases "e key")
    case (Some v')
    then have "ld key p content = (v', None)" using e by (simp add: entry_ok_def)
    then show ?thesis using Some e
      by (intro that [of "(v', True, None)" e]) (simp_all add: loadOrStore_def e_def answer_of_def Let_def)
  next
    case None
    show ?thesis
    proof (cases err)
      case n: None
      have "entry_ok ld p content (e(key \<mapsto> v))" using e l n by (simp add: entry_ok_def)
      then show ?thesis using None l n
        by (intro that [of "(v, False, None)" "e(key \<mapsto> v)"])
          (simp_all add: loadOrStore_def entry_loadOrStore_def e_def answer_of_def Let_def)
    next
      case s: (Some er)
      then show ?thesis using None l e
        by (intro that [of "(v, False, Some er)" e]) (simp_all add: loadOrStore_def e_def answer_of_def Let_def)
    qed
  qed
qed

lemma delete_all_apply: "delete_all ps m p = (if p \<in> set ps then None else m p)"
  by (induction ps arbitrary: m) simp_all

lemma consistent_put:
  assumes "consistent hash C ld m hashes" and "entry_ok ld p content e" and "content \<in> C"
  shows "consistent hash C ld (m(p \<mapsto> e)) (hashes(p \<mapsto> hash content))"
  using assms by (auto simp: consistent_def)

lemma checked_entry:
  assumes inj: "inj_on hash C" and cons: "consistent hash C ld (fc_entries c) (dc_contentHashes c)"
    and content: "content \<in> C"
    and e: "fc_entries (store_hash p (hash content) (check_hash p (hash content) c)) p = Some e"
  shows "entry_ok ld p content e"
proof -
  have "fc_entries c p = Some e" "dc_contentHashes c p = Some h \<Longrightarrow> h = hash content" for h
    using e by (auto simp: store_hash_def check_hash_def fc_Invalidate_def split: option.splits if_splits)
  then show ?thesis using cons inj content unfolding consistent_def by (metis inj_onD option.inject)
qed

text \<open>One load through the disk cache.\<close>

lemma disk_load_spec:
  fixes c :: "('v, 'z) disk_cache_scheme"
  assumes inj: "inj_on hash C" and fs: "files_in C fs"
    and cons: "consistent hash C ld (fc_entries c) (dc_contentHashes c)"
    and run: "disk_LoadOrStoreFile hash fs root p key (ld key) c = (r, c')"
  shows "answer_of r = direct fs root ld p key \<and> consistent hash C ld (fc_entries c') (dc_contentHashes c') \<and>
    (\<forall>q. q \<noteq> p \<longrightarrow> fc_entries c' q = fc_entries c q) \<and> disk_cache.more c' = disk_cache.more c \<and>
    (c' = c \<and> (\<exists>err. fs (path_join [root, p]) = Inl err) \<or>
     (\<exists>content e. fs (path_join [root, p]) = Inr content \<and> fc_entries c' p = Some e \<and> entry_ok ld p content e))"
proof (cases "fs (path_join [root, p])")
  case (Inl err)
  with run cons show ?thesis by (auto simp: disk_LoadOrStoreFile_def direct_eq answer_of_def)
next
  case (Inr content)
  then have content: "content \<in> C" using fs by (simp add: files_in_def)
  define c1 where "c1 = store_hash p (hash content) (check_hash p (hash content) c)"
  have c1: "dc_contentHashes c1 = (dc_contentHashes c)(p \<mapsto> hash content)"
    "fc_entries c1 q = fc_entries c q \<or> q = p" "disk_cache.more c1 = disk_cache.more c" for q
    by (auto simp: c1_def store_hash_def check_hash_def fc_Invalidate_def split: option.splits)
  obtain e' r' where l: "loadOrStore p key content (ld key) c1 = (r', c1\<lparr>fc_entries := (fc_entries c1)(p \<mapsto> e')\<rparr>)"
    "entry_ok ld p content e'" "answer_of r' = ld key p content"
    using loadOrStore_spec [of c1 p ld content key] checked_entry [OF inj cons content] unfolding c1_def by metis
  have "consistent hash C ld ((fc_entries c1)(p \<mapsto> e')) (dc_contentHashes c1)"
    using cons l(2) c1(1,2) content unfolding consistent_def by (metis fun_upd_apply option.inject)
  moreover have "r = r'" "c' = c1\<lparr>fc_entries := (fc_entries c1)(p \<mapsto> e')\<rparr>"
    using run l(1) Inr by (simp_all add: disk_LoadOrStoreFile_def c1_def)
  ultimately show ?thesis
    using l c1 Inr by (auto simp: direct_eq)
qed

lemma consistent_empty [simp]: "consistent hash C ld Map.empty hashes"
  by (simp add: consistent_def)

lemma consistent_drop:
  "consistent hash C ld m hashes \<Longrightarrow> consistent hash C ld (delete_all ps m) hashes"
  "consistent hash C ld m hashes \<Longrightarrow> consistent hash C ld (delete_all ps m) (delete_all ps hashes)"
  by (auto simp: consistent_def delete_all_apply)

lemma disk_read_consistent:
  assumes "file_consistent hash C ld f" "fc_entries c = Map.empty" "dc_contentHashes c = Map.empty"
  shows "consistent hash C ld (fc_entries (disk_read b f c)) (dc_contentHashes (disk_read b f c))"
  using assms by (auto simp: disk_read_def LoadEntries_def file_consistent_def split: option.split cache_state.split prod.split)

lemma disk_write_consistent:
  "consistent hash C ld (fc_entries c) (dc_contentHashes c) \<Longrightarrow> file_consistent hash C ld (disk_write b c)"
  by (simp add: disk_write_def WriteCacheFile_def file_consistent_def SnapshotEntries_def)

text \<open>A cache together with its file on disk.\<close>

type_synonym 'v disk_host = "'v disk_cache \<times> 'v cache_file"

definition disk_load ::
  "(content \<Rightarrow> string) \<Rightarrow> string \<Rightarrow> (string \<Rightarrow> 'v loader) \<Rightarrow> files \<Rightarrow> string \<Rightarrow> string \<Rightarrow> 'v disk_host \<Rightarrow>
   'v load_result \<times> 'v disk_host" where
  "disk_load hash root ld fs p key h =
     (case disk_LoadOrStoreFile hash fs root p key (ld key) (fst h) of (r, c) \<Rightarrow> (r, (c, snd h)))"

definition disk_save :: "build_info \<Rightarrow> 'v disk_host \<Rightarrow> 'v disk_host" where
  "disk_save b h = (fst h, disk_write b (fst h))"

definition disk_restart :: "string \<Rightarrow> build_info \<Rightarrow> 'v disk_host \<Rightarrow> 'v disk_host" where
  "disk_restart path b h = (NewDiskCache b path (snd h), snd h)"

interpretation disk_host: checking_cache root ld "disk_load hash root ld" "\<lambda>ps. apfst (fc_Invalidate ps)"
  "apfst fc_InvalidateAll" disk_save "disk_restart path" "disk_inv hash C ld" "\<lambda>fs p h. True" "{}" C
  for root hash ld path C
proof
  fix h :: "'a disk_host" and fs p k
  assume h: "disk_inv hash C ld h" and fs: "files_in C fs"
  obtain r c' where run: "disk_LoadOrStoreFile hash fs root p k (ld k) (fst h) = (r, c')" by (rule prod.exhaust)
  note spec = disk_load_spec [of hash C fs ld "fst h" root p k r c', OF _ fs _ run]
  show "answer_of (fst (disk_load hash root ld fs p k h)) = direct fs root ld p k"
    using spec h by (simp add: disk_load_def disk_inv_def run)
  show "disk_inv hash C ld (snd (disk_load hash root ld fs p k h))"
    using spec h by (simp add: disk_load_def disk_inv_def run)
qed (auto simp: disk_inv_def fc_Invalidate_def fc_InvalidateAll_def consistent_drop disk_save_def disk_restart_def
      NewDiskCache_def disk_write_consistent disk_read_consistent)

type_synonym 'v watch_host = "'v watch_cache \<times> 'v cache_file"

definition watch_load ::
  "(content \<Rightarrow> string) \<Rightarrow> string \<Rightarrow> (string \<Rightarrow> 'v loader) \<Rightarrow> files \<Rightarrow> string \<Rightarrow> string \<Rightarrow> 'v watch_host \<Rightarrow>
   'v load_result \<times> 'v watch_host" where
  "watch_load hash root ld fs p key h =
     (case watch_LoadOrStoreFile hash fs root p key (ld key) (fst h) of (r, c) \<Rightarrow> (r, (c, snd h)))"

definition watch_save :: "build_info \<Rightarrow> 'v watch_host \<Rightarrow> 'v watch_host" where
  "watch_save b h = (fst h, disk_write b (fst h))"

definition watch_restart :: "string \<Rightarrow> build_info \<Rightarrow> 'v watch_host \<Rightarrow> 'v watch_host" where
  "watch_restart path b h = (snd (watch_NewCache b path (snd h) (False, NewWatchCache)), snd h)"

text \<open>What a session has verified still holds.\<close>

definition verified_agree :: "string \<Rightarrow> (string \<Rightarrow> 'v loader) \<Rightarrow> files \<Rightarrow> string \<Rightarrow> 'v watch_host \<Rightarrow> bool" where
  "verified_agree root ld fs p h \<longleftrightarrow>
     (p \<in> wc_verified (fst h) \<longrightarrow> entries_agree root ld fs p (fc_entries (fst h)))"

lemma entries_agree_cong:
  "m p = m' p \<Longrightarrow> entries_agree root ld fs p m = entries_agree root ld fs p m'"
  by (simp add: entries_agree_def cached_def)

lemma entries_agree_ok:
  "m p = Some e \<Longrightarrow> fs (path_join [root, p]) = Inr content \<Longrightarrow> entry_ok ld p content e \<Longrightarrow>
   entries_agree root ld fs p m"
  by (simp add: entries_agree_def cached_def entry_ok_def)

lemma entries_agree_edit:
  "entries_agree root ld fs p m \<Longrightarrow> path_join [root, p] \<noteq> q \<Longrightarrow> entries_agree root ld (fs(q := x)) p m"
  by (simp add: entries_agree_def)

lemma watch_load_spec:
  assumes inv: "disk_inv hash C ld h" and fs: "files_in C fs" and ok: "verified_agree root ld fs p h"
    and run: "watch_load hash root ld fs p key h = (r, h')"
  shows "answer_of r = direct fs root ld p key \<and> disk_inv hash C ld h' \<and>
    (\<forall>q. verified_agree root ld fs q h \<longrightarrow> verified_agree root ld fs q h')"
proof (cases "if p \<in> wc_verified (fst h) then cached p key (fc_entries (fst h)) else None")
  case (Some v)
  with ok obtain content where "fs (path_join [root, p]) = Inr content" "ld key p content = (v, None)"
    by (auto simp: verified_agree_def entries_agree_def split: if_splits)
  with Some run inv show ?thesis
    by (auto simp: watch_load_def watch_LoadOrStoreFile_def answer_of_def direct_eq)
next
  case None
  obtain x c' where x: "disk_LoadOrStoreFile hash fs root p key (ld key) (fst h) = (x, c')" by (rule prod.exhaust)
  obtain v found err where d: "disk_LoadOrStoreFile hash fs root p key (ld key) (fst h) = ((v, found, err), c')"
    using x by (cases x) simp
  define c2 where "c2 = (if err = None then c'\<lparr>wc_verified := insert p (wc_verified c')\<rparr> else c')"
  have h': "h' = (c2, snd h)" and r: "r = (v, found, err)"
    using run None d by (simp_all add: watch_load_def watch_LoadOrStoreFile_def c2_def)
  have spec: "answer_of (v, found, err) = direct fs root ld p key"
      "consistent hash C ld (fc_entries c') (dc_contentHashes c')"
      "\<And>q. q \<noteq> p \<Longrightarrow> fc_entries c' q = fc_entries (fst h) q"
      "disk_cache.more c' = disk_cache.more (fst h)"
    and cases: "c' = fst h \<and> (\<exists>er. fs (path_join [root, p]) = Inl er) \<or>
      (\<exists>content e. fs (path_join [root, p]) = Inr content \<and> fc_entries c' p = Some e \<and> entry_ok ld p content e)"
    using disk_load_spec [of hash C fs ld "fst h" root p key "(v, found, err)" c', OF _ fs _ d] inv
    by (simp_all add: disk_inv_def)
  have ver: "wc_verified c' = wc_verified (fst h)" using spec(4) by (cases c'; cases "fst h") simp
  have same: "fc_entries c2 = fc_entries c'" "dc_contentHashes c2 = dc_contentHashes c'" by (simp_all add: c2_def)
  have "verified_agree root ld fs q h'" if q: "verified_agree root ld fs q h" for q
  proof (cases "q = p")
    case False
    then show ?thesis
      using q spec(3) [OF False] ver same entries_agree_cong [of "fc_entries c'" q "fc_entries (fst h)"]
      by (auto simp: verified_agree_def h' c2_def)
  next
    case True
    from cases show ?thesis
    proof
      assume c: "c' = fst h \<and> (\<exists>er. fs (path_join [root, p]) = Inl er)"
      then have "err \<noteq> None" using spec(1) by (auto simp: direct_eq answer_of_def)
      with c q show ?thesis by (auto simp: h' c2_def)
    next
      assume "\<exists>content e. fs (path_join [root, p]) = Inr content \<and> fc_entries c' p = Some e \<and> entry_ok ld p content e"
      then show ?thesis using entries_agree_ok True same by (metis fst_conv h' verified_agree_def)
    qed
  qed
  with spec inv same show ?thesis by (simp add: r h' disk_inv_def)
qed

interpretation watch_host: compute_cache root ld "watch_load hash root ld" "\<lambda>ps. apfst (watch_Invalidate ps)"
  "apfst watch_InvalidateAll" watch_save "watch_restart path" "disk_inv hash C ld" "verified_agree root ld" "{}" C
  for root hash ld path C
proof
  fix h :: "'a watch_host" and fs p q k
  assume h: "disk_inv hash C ld h" and ok: "verified_agree root ld fs p h" and fs: "files_in C fs"
  obtain r h' where run: "watch_load hash root ld fs p k h = (r, h')" by (rule prod.exhaust)
  note spec = watch_load_spec [OF h fs ok run]
  show "answer_of (fst (watch_load hash root ld fs p k h)) = direct fs root ld p k"
    using spec run by simp
  show "disk_inv hash C ld (snd (watch_load hash root ld fs p k h))" using spec run by simp
  show "verified_agree root ld fs q (snd (watch_load hash root ld fs p k h))" if "verified_agree root ld fs q h"
    using spec run that by simp
next
  fix h :: "'a watch_host" and fs p ps
  assume "p \<in> set ps \<or> verified_agree root ld fs p h"
  then show "verified_agree root ld fs p (apfst (watch_Invalidate ps) h)"
    using entries_agree_cong [of "delete_all ps (fc_entries (fst h))" p "fc_entries (fst h)"]
    by (cases "p \<in> set ps")
      (auto simp: verified_agree_def watch_Invalidate_def fc_Invalidate_def delete_all_apply Let_def)
qed (auto simp: verified_agree_def disk_inv_def watch_Invalidate_def fc_Invalidate_def watch_InvalidateAll_def
      fc_InvalidateAll_def consistent_drop watch_save_def watch_restart_def watch_NewCache_def NewWatchCache_def
      disk_write_consistent file_consistent_def entries_agree_edit Let_def disk_read_def LoadEntries_def disk_write_def
      WriteCacheFile_def SnapshotEntries_def
      split: option.splits cache_state.splits)

type_synonym 'v path_host = "'v file_compute_cache \<times> 'v cache_file"

definition fc_load ::
  "string \<Rightarrow> (string \<Rightarrow> 'v loader) \<Rightarrow> files \<Rightarrow> string \<Rightarrow> string \<Rightarrow> 'v path_host \<Rightarrow> 'v load_result \<times> 'v path_host" where
  "fc_load root ld fs p key h =
     (case fc_LoadOrStoreFile fs root p key (ld key) (fst h) of (r, c) \<Rightarrow> (r, (c, snd h)))"

definition fc_save :: "build_info \<Rightarrow> 'v path_host \<Rightarrow> 'v path_host" where
  "fc_save b h = (fst h, fc_write b (fst h))"

definition fc_restart :: "string \<Rightarrow> build_info \<Rightarrow> 'v path_host \<Rightarrow> 'v path_host" where
  "fc_restart path b h = (snd (fc_NewCache b path (snd h) (False, NewFileComputeCache)), snd h)"

text \<open>A load by path: the answer is right, and only the entry of the path can change, for a file that is there.\<close>

lemma fc_LoadOrStoreFile_spec:
  assumes ok: "entries_agree root ld fs p (fc_entries c)"
    and run: "fc_LoadOrStoreFile fs root p key (ld key) c = (r, c')"
  obtains m where "c' = c\<lparr>fc_entries := m\<rparr>" and "answer_of r = direct fs root ld p key"
    and "\<And>q. q \<noteq> p \<Longrightarrow> m q = fc_entries c q" and "entries_agree root ld fs p m"
    and "m p = fc_entries c p \<or> (\<exists>content. fs (path_join [root, p]) = Inr content)"
proof (cases "cached p key (fc_entries c)")
  case (Some v)
  with ok obtain content where "fs (path_join [root, p]) = Inr content" "ld key p content = (v, None)"
    by (auto simp: entries_agree_def)
  with Some run ok show ?thesis
    by (intro that [of "fc_entries c"]) (auto simp: fc_LoadOrStoreFile_def answer_of_def direct_eq)
next
  case None
  show ?thesis
  proof (cases "fs (path_join [root, p])")
    case (Inl err)
    with None run ok show ?thesis
      by (intro that [of "fc_entries c"]) (auto simp: fc_LoadOrStoreFile_def answer_of_def direct_eq)
  next
    case (Inr content)
    have "entry_ok ld p content e" if "fc_entries c p = Some e" for e
      using ok that Inr by (auto simp: entries_agree_def entry_ok_def cached_def)
    then obtain e' r' where l: "loadOrStore p key content (ld key) c =
        (r', c\<lparr>fc_entries := (fc_entries c)(p \<mapsto> e')\<rparr>)"
      "entry_ok ld p content e'" "answer_of r' = ld key p content"
      using loadOrStore_spec [of c p ld content key] by metis
    have "entries_agree root ld fs p ((fc_entries c)(p \<mapsto> e'))"
      using entries_agree_ok [of "(fc_entries c)(p \<mapsto> e')" p e' fs root content] l(2) Inr by simp
    with None Inr run l show ?thesis
      by (intro that [of "(fc_entries c)(p \<mapsto> e')"]) (auto simp: fc_LoadOrStoreFile_def direct_eq)
  qed
qed

lemma fc_load_spec:
  assumes ok: "entries_agree root ld fs p (fc_entries (fst h))"
    and run: "fc_load root ld fs p key h = (r, h')"
  shows "answer_of r = direct fs root ld p key \<and>
    (\<forall>q. entries_agree root ld fs q (fc_entries (fst h)) \<longrightarrow> entries_agree root ld fs q (fc_entries (fst h')))"
proof -
  obtain c' where c': "fc_LoadOrStoreFile fs root p key (ld key) (fst h) = (r, c')" "fst h' = c'"
    using run by (auto simp: fc_load_def split: prod.splits)
  obtain m where m: "c' = (fst h)\<lparr>fc_entries := m\<rparr>" "answer_of r = direct fs root ld p key"
      "\<And>q. q \<noteq> p \<Longrightarrow> m q = fc_entries (fst h) q" "entries_agree root ld fs p m"
    by (rule fc_LoadOrStoreFile_spec [OF ok c'(1)]) blast
  have "entries_agree root ld fs q m" if "entries_agree root ld fs q (fc_entries (fst h))" for q
    using m(3,4) that entries_agree_cong [of m q "fc_entries (fst h)"] by (cases "q = p") simp_all
  with m c'(2) show ?thesis by simp
qed

interpretation path_host: compute_cache root ld "fc_load root ld" "\<lambda>ps. apfst (fc_Invalidate ps)"
  "apfst fc_InvalidateAll" fc_save "fc_restart path" "\<lambda>h. True"
  "\<lambda>fs p h. entries_agree root ld fs p (fc_entries (fst h))" UNIV UNIV
  for root ld path
proof
  fix h :: "'a path_host" and fs p q k
  assume ok: "entries_agree root ld fs p (fc_entries (fst h))"
  obtain r h' where run: "fc_load root ld fs p k h = (r, h')" by (rule prod.exhaust)
  note spec = fc_load_spec [OF ok run]
  show "answer_of (fst (fc_load root ld fs p k h)) = direct fs root ld p k" using spec run by simp
  show "entries_agree root ld fs q (fc_entries (fst (snd (fc_load root ld fs p k h))))"
    if "entries_agree root ld fs q (fc_entries (fst h))"
    using spec run that by simp
next
  fix h :: "'a path_host" and fs p ps
  assume "p \<in> set ps \<or> entries_agree root ld fs p (fc_entries (fst h))"
  then show "entries_agree root ld fs p (fc_entries (fst (apfst (fc_Invalidate ps) h)))"
    using entries_agree_cong [of "delete_all ps (fc_entries (fst h))" p "fc_entries (fst h)"]
    by (cases "p \<in> set ps") (auto simp: fc_Invalidate_def delete_all_apply entries_agree_def cached_def)
qed (auto simp: fc_InvalidateAll_def fc_save_def entries_agree_edit, simp add: entries_agree_def cached_def)

text \<open>
  Two loads of one path that are not atomic: the file changes between their reads, and the second
  load checks and records its hash before the first one stores its value. The second load, and
  every later one, gets the value of the old content.
\<close>

lemma interleaved_loads_stale:
  fixes key :: string
  assumes "fc_entries c p = None" "dc_contentHashes c p = None" "hash old \<noteq> hash new"
    and "loader p old = (v, None)"
  defines "c1 \<equiv> store_hash p (hash old) (check_hash p (hash old) c)"
  defines "c2 \<equiv> store_hash p (hash new) (check_hash p (hash new) c1)"
  defines "c3 \<equiv> snd (loadOrStore p key old loader c2)"
  shows "fst (loadOrStore p key new loader c3) = (v, True, None)"
    and "fs (path_join [root, p]) = Inr new \<Longrightarrow> fst (disk_LoadOrStoreFile hash fs root p key loader c3) = (v, True, None)"
  using assms(1-4)
  by (simp_all add: c1_def c2_def c3_def store_hash_def check_hash_def fc_Invalidate_def loadOrStore_def
      entry_loadOrStore_def disk_LoadOrStoreFile_def Let_def)

text \<open>
  C4 (refinement). A cache is invisible: for any sequence of loads, changes of files, invalidations,
  persists and restarts with any build, a host that starts with an empty disk cache gets the same
  values and errors as without a cache, provided that no two contents that occur have the same
  hash. A watch cache gives them to a host that drops the changed paths before it loads them
  again, and so does a cache by path when the host also drops everything after a restart.
\<close>

theorem caches_invisible:
  assumes "inj_on hash C" "files_in C fs" "edits_in C ops"
  shows "cache_answers (disk_load hash root ld) (\<lambda>ps. apfst (fc_Invalidate ps)) (apfst fc_InvalidateAll) disk_save
           (disk_restart path) ops fs (NewDiskCache b path None, None) = direct_answers root ld ops fs \<and>
    (announced root {} ops {} \<longrightarrow>
       cache_answers (watch_load hash root ld) (\<lambda>ps. apfst (watch_Invalidate ps)) (apfst watch_InvalidateAll) watch_save
         (watch_restart path) ops fs (NewWatchCache, None) = direct_answers root ld ops fs) \<and>
    (announced root UNIV ops {} \<longrightarrow>
       cache_answers (fc_load root ld) (\<lambda>ps. apfst (fc_Invalidate ps)) (apfst fc_InvalidateAll) fc_save
         (fc_restart path) ops fs (NewFileComputeCache, None) = direct_answers root ld ops fs)"
proof (intro conjI impI)
  have none: "file_consistent hash C ld None" by (simp add: file_consistent_def)
  show "cache_answers (disk_load hash root ld) (\<lambda>ps. apfst (fc_Invalidate ps)) (apfst fc_InvalidateAll) disk_save
           (disk_restart path) ops fs (NewDiskCache b path None, None) = direct_answers root ld ops fs"
    by (rule disk_host.answers_always [OF _ assms(2,3)])
      (simp add: disk_inv_def assms(1) none NewDiskCache_def disk_read_def)
  show "cache_answers (watch_load hash root ld) (\<lambda>ps. apfst (watch_Invalidate ps)) (apfst watch_InvalidateAll) watch_save
         (watch_restart path) ops fs (NewWatchCache, None) = direct_answers root ld ops fs"
    if "announced root {} ops {}"
    by (rule watch_host.answers_direct [OF _ _ that assms(2,3)])
      (simp_all add: disk_inv_def assms(1) none NewWatchCache_def verified_agree_def)
  show "cache_answers (fc_load root ld) (\<lambda>ps. apfst (fc_Invalidate ps)) (apfst fc_InvalidateAll) fc_save
         (fc_restart path) ops fs (NewFileComputeCache, None) = direct_answers root ld ops fs"
    if "announced root UNIV ops {}"
    by (rule path_host.answers_direct [OF _ _ that])
      (simp_all add: NewFileComputeCache_def entries_agree_def cached_def files_in_def edits_in_def)
qed

theorem caches_invisible_witness:
  "cache_answers (watch_load id ''r'' (\<lambda>k p s. (Some (k @ s), None))) (\<lambda>ps. apfst (watch_Invalidate ps))
     (apfst watch_InvalidateAll) watch_save (watch_restart ''f'')
     [Load ''a'' ''k'', Edit ''r/a'' (Inr ''2''), Drop [''a''], Load ''a'' ''k''] (\<lambda>_. Inr ''1'') (NewWatchCache, None) =
   [(Some ''k1'', None), (Some ''k2'', None)]"
proof -
  have j: "path_join [''r'', ''a''] = ''r/a''" by code_simp
  have "announced ''r'' {} [Load ''a'' ''k'', Edit ''r/a'' (Inr ''2''), Drop [''a''], Load ''a'' ''k''] {}" by simp
  moreover have "direct_answers ''r'' (\<lambda>k p s. (Some (k @ s), None))
      [Load ''a'' ''k'', Edit ''r/a'' (Inr ''2''), Drop [''a''], Load ''a'' ''k''] (\<lambda>_. Inr ''1'') =
      [(Some ''k1'', None), (Some ''k2'', None)]"
    by (simp add: direct_eq j)
  ultimately show ?thesis
    using caches_invisible [of id UNIV "\<lambda>_. Inr ''1''"
        "[Load ''a'' ''k'', Edit ''r/a'' (Inr ''2''), Drop [''a''], Load ''a'' ''k'']"
        "''r''" "\<lambda>k p s. (Some (k @ s), None)" "''f''"]
    by (simp only: files_in_def edits_in_def inj_on_id UNIV_I simp_thms)
qed

end
