(* ===== verification/Kotlin.thy ===== *)
theory Kotlin
  imports Rules Errors Directives File_Cache
begin

text \<open>
  The Kotlin extension (\<open>language/kotlin\<close>): identifiers and the result of parsing a source file,
  the configuration tree, the library and binary rules of a directory, and the resolution of
  imports. The syntax tree and its query, the regular expression of identifiers, the Java and
  Maven configuration and resolver of rules_jvm, the rule index and the ordered sets are parameters.
\<close>

section \<open>Identifiers\<close>

text \<open>
  A simple identifier is its literal, an identifier the list of its parts; \<open>ident_ok\<close> is the match of
  \<open>kotlinUnquotedIdentifierRegexp\<close>.
\<close>

type_synonym kt_identifier = "string list"

definition Normalize :: "(string \<Rightarrow> bool) \<Rightarrow> string \<Rightarrow> string" where
  "Normalize ident_ok si =
     (if length si < 2 \<or> \<not> HasPrefix si [CHR 0x60] \<or> \<not> HasSuffix si [CHR 0x60] then si
      else
        let betweenQuoteMarks = take (length si - 2) (drop 1 si)
        in if ident_ok betweenQuoteMarks then betweenQuoteMarks else si)"

text \<open>The error is the value that is no identifier.\<close>

definition NewSimpleIdentifier :: "(string \<Rightarrow> bool) \<Rightarrow> string \<Rightarrow> string + string" where
  "NewSimpleIdentifier ident_ok value =
     (let normalized = Normalize ident_ok value in if ident_ok normalized then Inr normalized else Inl value)"

definition AsIdentifier :: "string \<Rightarrow> kt_identifier" where
  "AsIdentifier si = [si]"

definition Identifier_Parent :: "kt_identifier \<Rightarrow> kt_identifier" where
  "Identifier_Parent i = (if length i \<le> 1 then [] else butlast i)"

definition Identifier_Literal :: "kt_identifier \<Rightarrow> string" where
  "Identifier_Literal i = Join ''.'' i"

definition Identifier_Child :: "kt_identifier \<Rightarrow> string \<Rightarrow> kt_identifier" where
  "Identifier_Child i childComponent = i @ [childComponent]"

fun parse_parts :: "(string \<Rightarrow> bool) \<Rightarrow> string list \<Rightarrow> string + kt_identifier" where
  "parse_parts ident_ok [] = Inr []"
| "parse_parts ident_ok (p # ps) =
     (case NewSimpleIdentifier ident_ok p of
        Inl err \<Rightarrow> Inl err
      | Inr si \<Rightarrow> (case parse_parts ident_ok ps of Inl err \<Rightarrow> Inl err | Inr parts \<Rightarrow> Inr (si # parts)))"

definition ParseIdentifier :: "(string \<Rightarrow> bool) \<Rightarrow> string \<Rightarrow> string + kt_identifier" where
  "ParseIdentifier ident_ok literal = parse_parts ident_ok (Split (CHR ''.'') literal)"

section \<open>Parsing a file\<close>

record kt_import =
  ki_Identifier :: kt_identifier
  ki_IsStarImport :: bool
  ki_Alias :: string

definition kt_import_String :: "kt_import \<Rightarrow> string" where
  "kt_import_String i =
     (if ki_Alias i \<noteq> '''' then Identifier_Literal (ki_Identifier i) @ '' as '' @ ki_Alias i
      else if ki_IsStarImport i then Identifier_Literal (ki_Identifier i) @ ''.*''
      else Identifier_Literal (ki_Identifier i))"

datatype kt_parse_error = BadIdentifier string | QueryError string

record kt_parse_result =
  kp_File :: string
  kp_Imports :: "kt_import list"
  kp_Package :: kt_identifier
  kp_HasMain :: bool
  kp_TopLevelIdentifiers :: "string list"
  kp_Errors :: "kt_parse_error list"

text \<open>The captures of one match of the query.\<close>

type_synonym captures = "string \<rightharpoonup> string"

definition add_package :: "(string \<Rightarrow> bool) \<Rightarrow> captures \<Rightarrow> kt_parse_result \<Rightarrow> kt_parse_result" where
  "add_package ident_ok caps r =
     (case caps ''package'' of
        None \<Rightarrow> r
      | Some pkg \<Rightarrow>
        (case ParseIdentifier ident_ok pkg of
           Inl err \<Rightarrow> r\<lparr>kp_Errors := kp_Errors r @ [BadIdentifier err]\<rparr>
         | Inr i \<Rightarrow> r\<lparr>kp_Package := i\<rparr>))"

text \<open>The import of a match, and whether the match is skipped.\<close>

definition add_import :: "(string \<Rightarrow> bool) \<Rightarrow> captures \<Rightarrow> kt_parse_result \<Rightarrow> kt_parse_result \<times> bool" where
  "add_import ident_ok caps r =
     (case caps ''import_name'' of
        None \<Rightarrow> (r, False)
      | Some impName \<Rightarrow>
        (case ParseIdentifier ident_ok impName of
           Inl err \<Rightarrow> (r\<lparr>kp_Errors := kp_Errors r @ [BadIdentifier err]\<rparr>, True)
         | Inr i \<Rightarrow>
           (let star = (caps ''import_wildcard'' \<noteq> None);
                (alias, errs) = (case caps ''import_alias'' of
                    None \<Rightarrow> ('''', [])
                  | Some aliasName \<Rightarrow>
                    (case NewSimpleIdentifier ident_ok aliasName of
                       Inl err \<Rightarrow> ('''', [BadIdentifier err])
                     | Inr a \<Rightarrow> (a, [])))
            in (r\<lparr>kp_Errors := kp_Errors r @ errs,
                  kp_Imports := kp_Imports r @ [\<lparr>ki_Identifier = i, ki_IsStarImport = star, ki_Alias = alias\<rparr>]\<rparr>,
                False))))"

definition top_level_id :: "captures \<Rightarrow> string" where
  "top_level_id caps =
     (case first_some caps [''class_id'', ''property_id'', ''function_id'', ''type_alias_id'', ''object_id''] of
        Some i \<Rightarrow> i | None \<Rightarrow> '''')"

definition add_top_level :: "(string \<Rightarrow> bool) \<Rightarrow> captures \<Rightarrow> kt_parse_result \<Rightarrow> kt_parse_result" where
  "add_top_level ident_ok caps r =
     (let topLevelId = top_level_id caps
      in if topLevelId \<noteq> '''' \<and> topLevelId \<noteq> ''main'' then
           (case NewSimpleIdentifier ident_ok topLevelId of
              Inl err \<Rightarrow> r
            | Inr simpleId \<Rightarrow>
                if simpleId \<in> set (kp_TopLevelIdentifiers r) then r
                else r\<lparr>kp_TopLevelIdentifiers := kp_TopLevelIdentifiers r @ [simpleId]\<rparr>)
         else r)"

definition add_match :: "(string \<Rightarrow> bool) \<Rightarrow> kt_parse_result \<Rightarrow> captures \<Rightarrow> kt_parse_result" where
  "add_match ident_ok r caps =
     (case add_import ident_ok caps (add_package ident_ok caps r) of
        (r1, skipped) \<Rightarrow>
          if skipped then r1
          else
            let r2 = (if caps ''equals_main'' \<noteq> None then r1\<lparr>kp_HasMain := True\<rparr> else r1)
            in add_top_level ident_ok caps r2)"

definition empty_result :: "string \<Rightarrow> kt_parse_result" where
  "empty_result filePath =
     \<lparr>kp_File = filePath, kp_Imports = [], kp_Package = [], kp_HasMain = False, kp_TopLevelIdentifiers = [],
      kp_Errors = []\<rparr>"

text \<open>The tree of a file: the error of the parser, or the matches and the errors of the query.\<close>

type_synonym kt_tree = "string + (captures list \<times> string list)"

definition kt_Parse :: "(string \<Rightarrow> bool) \<Rightarrow> kt_tree \<Rightarrow> string \<Rightarrow> kt_parse_result \<times> string option" where
  "kt_Parse ident_ok tree filePath =
     (case tree of
        Inl err \<Rightarrow> (empty_result '''', Some err)
      | Inr (matches, queryErrors) \<Rightarrow>
          (let r = foldl (add_match ident_ok) (empty_result filePath) matches
           in (r\<lparr>kp_Errors := kp_Errors r @ map QueryError queryErrors\<rparr>, None)))"

section \<open>Configuration\<close>

text \<open>The Java configuration, its inheritance, install file and directive belong to rules_jvm.\<close>

record 'j kt_config =
  kc_java :: 'j
  kc_generationEnabled :: bool

record 'j java_api =
  ja_New :: "string \<Rightarrow> 'j"
  ja_NewChild :: "'j \<Rightarrow> 'j"
  ja_SetMavenInstallFile :: "string \<Rightarrow> 'j \<Rightarrow> 'j"
  ja_MavenInstallFile :: "'j \<Rightarrow> string"
  ja_Directive :: string

definition kt_New :: "'j java_api \<Rightarrow> string \<Rightarrow> 'j kt_config" where
  "kt_New ja repoRoot = \<lparr>kc_java = ja_New ja repoRoot, kc_generationEnabled = True\<rparr>"

definition kt_NewChild :: "'j java_api \<Rightarrow> 'j kt_config \<Rightarrow> 'j kt_config" where
  "kt_NewChild ja c = c\<lparr>kc_java := ja_NewChild ja (kc_java c)\<rparr>"

type_synonym 'j kt_configs = "string \<rightharpoonup> 'j kt_config"

definition ParentForPackage :: "'j kt_configs \<Rightarrow> string \<Rightarrow> 'j kt_config option" where
  "ParentForPackage c pkg =
     (let dir = path_Dir pkg in c (if dir = ''.'' then '''' else dir))"

definition kt_initRootConfig :: "'j java_api \<Rightarrow> string \<Rightarrow> 'j kt_configs option \<Rightarrow> 'j kt_configs" where
  "kt_initRootConfig ja repoRoot ext =
     (case ext of Some cfgs \<Rightarrow> cfgs | None \<Rightarrow> ['''' \<mapsto> kt_New ja repoRoot])"

definition kt_directive :: "'j java_api \<Rightarrow> 'j kt_config \<Rightarrow> directive \<Rightarrow> 'j kt_config loop_step outcome" where
  "kt_directive ja cfg d =
     (if d_key d = ''kotlin'' then
        (case ReadEnabled d of Inl e \<Rightarrow> Inl e | Inr b \<Rightarrow> Inr (Next (cfg\<lparr>kc_generationEnabled := b\<rparr>)))
      else if d_key d = ja_Directive ja then
        Inr (Next (cfg\<lparr>kc_java := ja_SetMavenInstallFile ja (d_value d) (kc_java cfg)\<rparr>))
      else Inr (Next cfg))"

text \<open>
  \<open>Configure\<close>: the configurations and the Maven resolver, which is made once; \<open>file\<close> are the
  directives of the build file, if there is one.
\<close>

definition kt_Configure ::
  "'j java_api \<Rightarrow> (string \<Rightarrow> string + 'm) \<Rightarrow> string \<Rightarrow> string \<Rightarrow> directive list option \<Rightarrow>
   'j kt_configs option \<times> 'm option \<Rightarrow> ('j kt_configs option \<times> 'm option) outcome" where
  "kt_Configure ja NewResolver repoRoot rel file st =
     (let cfgs = kt_initRootConfig ja repoRoot (fst st)
      in case (case cfgs rel of
                 Some c \<Rightarrow> Inr c
               | None \<Rightarrow> (case ParentForPackage cfgs rel of
                            None \<Rightarrow> Inl (Panic ''nil pointer'')
                          | Some parent \<Rightarrow> Inr (kt_NewChild ja parent))) of
           Inl e \<Rightarrow> Inl e
         | Inr cfg \<Rightarrow>
           (case read_all (kt_directive ja) cfg (case file of None \<Rightarrow> [] | Some ds \<Rightarrow> ds) of
              Inl e \<Rightarrow> Inl e
            | Inr done \<Rightarrow>
              (let cfg' = final_state done; cfgs' = cfgs(rel \<mapsto> cfg')
               in case snd st of
                    Some m \<Rightarrow> Inr (Some cfgs', Some m)
                  | None \<Rightarrow>
                    (case NewResolver (ja_MavenInstallFile ja (kc_java cfg')) of
                       Inl err \<Rightarrow> Inl (Fatal err)
                     | Inr m \<Rightarrow> Inr (Some cfgs', Some m)))))"

section \<open>The targets of a directory\<close>

text \<open>An import of a target: the imported name and the file it is in; ordered by the name.\<close>

record kt_import_statement =
  is_kt_Imp :: string
  is_kt_SourcePath :: string

definition kt_importStatementComparator :: "kt_import_statement \<Rightarrow> kt_import_statement \<Rightarrow> int" where
  "kt_importStatementComparator a b = Compare (is_kt_Imp a) (is_kt_Imp b)"

record KotlinLibTarget =
  kl_Imports :: "kt_import_statement list"
  kl_Packages :: "string list"
  kl_Files :: "string list"

record KotlinBinTarget =
  kb_Imports :: "kt_import_statement list"
  kb_File :: string
  kb_Package :: string

definition NewKotlinLibTarget :: KotlinLibTarget where
  "NewKotlinLibTarget = \<lparr>kl_Imports = [], kl_Packages = [], kl_Files = []\<rparr>"

definition NewKotlinBinTarget :: "string \<Rightarrow> string \<Rightarrow> KotlinBinTarget" where
  "NewKotlinBinTarget file_name pkg = \<lparr>kb_Imports = [], kb_File = file_name, kb_Package = pkg\<rparr>"

definition KtJvmLibrary :: string where "KtJvmLibrary = ''kt_jvm_library''"
definition KtJvmBinary :: string where "KtJvmBinary = ''kt_jvm_binary''"
definition kt_sourceRuleKinds :: "string list" where "kt_sourceRuleKinds = [KtJvmLibrary]"

text \<open>
  The parameters: insertion into the ordered sets, lower case, identifiers, the trees of the files
  by content, the content hash, the order in which the parallel results arrive, and error texts.
\<close>

record kt_env =
  ke_addString :: "string treeset_add"
  ke_addImport :: "kt_import_statement treeset_add"
  ke_ToLower :: "string \<Rightarrow> string"
  ke_ident_ok :: "string \<Rightarrow> bool"
  ke_tree :: "content \<Rightarrow> kt_tree"
  ke_hash :: "content \<Rightarrow> string"
  ke_sched :: "kt_parse_result option list \<Rightarrow> kt_parse_result option list"
  ke_collision :: "collision \<Rightarrow> string"

definition kt_isSourceFileType :: "string \<Rightarrow> bool" where
  "kt_isSourceFileType f = (path_Ext f = ''.kt'' \<or> path_Ext f = ''.kts'')"

definition kt_collectSourceFiles :: "string list \<Rightarrow> string list" where
  "kt_collectSourceFiles regularFiles = filter kt_isSourceFileType regularFiles"

text \<open>\<open>parseFile\<close>: through the cache; the result is there also when there is an error.\<close>

definition kt_parseFile ::
  "kt_env \<Rightarrow> files \<Rightarrow> string \<Rightarrow> string \<Rightarrow> string \<Rightarrow> kt_parse_result any_cache \<Rightarrow>
   (kt_parse_result option \<times> string option) \<times> kt_parse_result any_cache" where
  "kt_parseFile env fs rootDir rel sourcePath c =
     (case LoadOrStoreFile (ke_hash env) fs rootDir (path_join [rel, sourcePath]) ''kotlin.Parse''
             (\<lambda>_ content. case kt_Parse (ke_ident_ok env) (ke_tree env content) sourcePath of (r, err) \<Rightarrow> (Some r, err)) c of
        ((r, _, err), c') \<Rightarrow> ((r, err), c'))"

fun parse_sources ::
  "kt_env \<Rightarrow> files \<Rightarrow> string \<Rightarrow> string \<Rightarrow> string list \<Rightarrow> kt_parse_result any_cache \<Rightarrow>
   kt_parse_result option list \<times> kt_parse_result any_cache" where
  "parse_sources env fs rootDir rel [] c = ([], c)"
| "parse_sources env fs rootDir rel (f # sources) c =
     (case kt_parseFile env fs rootDir rel f c of
        ((r, _), c1) \<Rightarrow>
          (case parse_sources env fs rootDir rel sources c1 of (rs, c2) \<Rightarrow> (r # rs, c2)))"

definition kt_parseFiles ::
  "kt_env \<Rightarrow> files \<Rightarrow> string \<Rightarrow> string \<Rightarrow> string list \<Rightarrow> kt_parse_result any_cache \<Rightarrow>
   kt_parse_result option list \<times> kt_parse_result any_cache" where
  "kt_parseFiles env fs rootDir rel sources c = apfst (ke_sched env) (parse_sources env fs rootDir rel sources c)"

definition import_statements :: "kt_parse_result \<Rightarrow> kt_import_statement list" where
  "import_statements p =
     map (\<lambda>impt. \<lparr>is_kt_Imp = Identifier_Literal (ki_Identifier impt), is_kt_SourcePath = kp_File p\<rparr>) (kp_Imports p)"

definition bin_target :: "kt_env \<Rightarrow> kt_parse_result \<Rightarrow> KotlinBinTarget" where
  "bin_target env p =
     (NewKotlinBinTarget (kp_File p) (Identifier_Literal (kp_Package p)))
       \<lparr>kb_Imports := foldl (ke_addImport env) [] (import_statements p)\<rparr>"

definition add_to_lib :: "kt_env \<Rightarrow> kt_parse_result \<Rightarrow> KotlinLibTarget \<Rightarrow> KotlinLibTarget" where
  "add_to_lib env p lib =
     (let pkgName = Identifier_Literal (kp_Package p)
      in \<lparr>kl_Imports = foldl (ke_addImport env) (kl_Imports lib) (import_statements p),
          kl_Packages = (if pkgName \<noteq> '''' then ke_addString env (kl_Packages lib) pkgName else kl_Packages lib),
          kl_Files = ke_addString env (kl_Files lib) (kp_File p)\<rparr>)"

text \<open>Every result goes into the library or becomes a binary; the binaries are keyed by their file.\<close>

fun group_results ::
  "kt_env \<Rightarrow> kt_parse_result option list \<Rightarrow> KotlinLibTarget \<times> (string, KotlinBinTarget) gomap \<Rightarrow>
   KotlinLibTarget \<times> (string, KotlinBinTarget) gomap" where
  "group_results env [] st = st"
| "group_results env (None # rs) st = group_results env rs st"
| "group_results env (Some p # rs) (lib, bins) =
     group_results env rs
       (if kp_HasMain p then (lib, al_put bins (kp_File p) (bin_target env p)) else (add_to_lib env p lib, bins))"

text \<open>The values of the tree map, in the order of its keys.\<close>

definition bin_values :: "(string, KotlinBinTarget) gomap \<Rightarrow> KotlinBinTarget list" where
  "bin_values bins = map snd (SortFunc (\<lambda>a b. Compare (fst a) (fst b)) bins)"

section \<open>The rules of a directory\<close>

datatype kt_target = LibTarget KotlinLibTarget | BinTarget KotlinBinTarget

text \<open>The generated rules with their import data, and the empty rules.\<close>

record kt_rules =
  kr_Gen :: "(rule \<times> kt_target) list"
  kr_Empty :: "rule list"

definition kt_toDefaultTargetName :: "string \<Rightarrow> string \<Rightarrow> string \<Rightarrow> string \<Rightarrow> string" where
  "kt_toDefaultTargetName rel dir repoName defaultRootName =
     (if rel = '''' then (if repoName \<noteq> '''' then repoName else defaultRootName) else path_Base dir)"

definition toBinaryTargetName :: "kt_env \<Rightarrow> string \<Rightarrow> string" where
  "toBinaryTargetName env mainFile =
     ke_ToLower env (TrimSuffix (path_Base mainFile) (path_Ext mainFile)) @ ''_bin''"

definition addLibraryRule ::
  "string \<Rightarrow> KotlinLibTarget \<Rightarrow> rule_args \<Rightarrow> bool \<Rightarrow> kt_rules \<Rightarrow> collision option \<times> kt_rules" where
  "addLibraryRule targetName target args isTestRule result =
     (case CheckCollisionErrors targetName KtJvmLibrary kt_sourceRuleKinds args of
        Some colError \<Rightarrow> (Some colError, result)
      | None \<Rightarrow>
        if kl_Files target = [] then
          (case ra_File args of
             None \<Rightarrow> (None, result)
           | Some rules \<Rightarrow>
               if list_ex (\<lambda>r. ru_name r = targetName \<and> ru_kind r = KtJvmLibrary) rules
               then (None, result\<lparr>kr_Empty := kr_Empty result @ [NewRule KtJvmLibrary targetName]\<rparr>)
               else (None, result))
        else
          (let r1 = SetAttr ''srcs'' (VStrings (kl_Files target)) (NewRule KtJvmLibrary targetName);
               r2 = (if isTestRule then SetAttr ''testonly'' (VBool True) r1 else r1)
           in (None, result\<lparr>kr_Gen := kr_Gen result @ [(r2, LibTarget target)]\<rparr>)))"

definition main_class :: "KotlinBinTarget \<Rightarrow> string" where
  "main_class target =
     (let name = TrimSuffix (kb_File target) ''.kt''
      in if kb_Package target \<noteq> '''' then kb_Package target @ ''.'' @ name else name)"

definition addBinaryRule :: "string \<Rightarrow> KotlinBinTarget \<Rightarrow> kt_rules \<Rightarrow> kt_rules" where
  "addBinaryRule targetName target result =
     result\<lparr>kr_Gen := kr_Gen result @
       [(SetAttr ''main_class'' (VString (main_class target))
          (SetAttr ''srcs'' (VStrings [kb_File target]) (NewRule KtJvmBinary targetName)), BinTarget target)]\<rparr>"

text \<open>What a directory's generation is called with.\<close>

record kt_args =
  kg_rules :: rule_args
  kg_Dir :: string
  kg_RepoName :: string
  kg_RepoRoot :: string
  kg_RegularFiles :: "string list"

definition kt_GenerateRules ::
  "kt_env \<Rightarrow> files \<Rightarrow> kt_args \<Rightarrow> 'j kt_config \<Rightarrow> kt_parse_result any_cache \<times> exts \<Rightarrow>
   (kt_rules \<times> kt_parse_result any_cache \<times> exts) outcome" where
  "kt_GenerateRules env fs args cfg st =
     (let none = \<lparr>kr_Gen = [], kr_Empty = []\<rparr>; rel = ra_Rel (kg_rules args)
      in if \<not> kc_generationEnabled cfg then Inr (none, st)
         else
           (case kt_parseFiles env fs (kg_RepoRoot args) rel (kt_collectSourceFiles (kg_RegularFiles args)) (fst st) of
              (results, cache) \<Rightarrow>
                (case group_results env results (NewKotlinLibTarget, []) of
                   (lib, bins) \<Rightarrow>
                     (case addLibraryRule (kt_toDefaultTargetName rel (kg_Dir args) (kg_RepoName args) ''root'') lib
                             (kg_rules args) False none of
                        (err, result) \<Rightarrow>
                          (case (case err of None \<Rightarrow> Inr (snd st)
                                 | Some e \<Rightarrow> GenerationErrorf (snd st) (ke_collision env e)) of
                             Inl e \<Rightarrow> Inl e
                           | Inr x \<Rightarrow>
                               Inr (foldl (\<lambda>res b. addBinaryRule (toBinaryTargetName env (kb_File b)) b res)
                                      result (bin_values bins), cache, x))))))"

section \<open>Resolution\<close>

record kt_match =
  km_Label :: label
  km_Self :: bool

text \<open>
  The parameters: configured overrides, the rule index (a match knows whether it is an import of
  its own target), the Java standard library, the Maven resolver of the directory's
  configuration if there is one, label sets, and error texts.
\<close>

datatype kt_resolve_error =
    KtAmbiguous string string "label list"
  | KtUnknown "kt_import_statement list"

record kt_resolver =
  kv_override :: "string \<Rightarrow> label option"
  kv_find :: "string \<Rightarrow> kt_match list"
  kv_IsStdlib :: "string \<Rightarrow> bool"
  kv_maven :: "(string \<Rightarrow> label option) option"
  kv_labels :: label_api
  kv_report :: "kt_resolve_error \<Rightarrow> string"

datatype kt_resolution =
    KtResolution_None | KtResolution_NotFound | KtResolution_Label | KtResolution_NativeKotlin

definition kt_IsNativeImport :: "kt_resolver \<Rightarrow> string \<Rightarrow> bool" where
  "kt_IsNativeImport rv impt \<longleftrightarrow>
     HasPrefix impt ''kotlin.'' \<or> HasPrefix impt ''kotlinx.'' \<or> kv_IsStdlib rv impt"

text \<open>The fully qualified name of an import, and its parent.\<close>

definition packageFullyQualifiedName :: "string \<Rightarrow> string list" where
  "packageFullyQualifiedName imp = Split (CHR ''.'') imp"

definition java_name_Parent :: "string list \<Rightarrow> string list option" where
  "java_name_Parent parts = (if length parts \<le> 1 then None else Some (butlast parts))"

definition java_name_String :: "string list \<Rightarrow> string" where
  "java_name_String parts = Join ''.'' parts"

definition import_parent :: "string \<Rightarrow> string option" where
  "import_parent imp = map_option java_name_String (java_name_Parent (packageFullyQualifiedName imp))"

text \<open>What is decided for a name itself, before its parents are tried.\<close>

definition resolve_name ::
  "kt_resolver \<Rightarrow> kt_import_statement \<Rightarrow> (kt_resolve_error + kt_resolution \<times> label option) option" where
  "resolve_name rv impt =
     (let imp = is_kt_Imp impt
      in case kv_override rv imp of
           Some l \<Rightarrow> Some (Inr (KtResolution_Label, Some l))
         | None \<Rightarrow>
           if kv_find rv imp \<noteq> [] then
             (case map km_Label (filter (\<lambda>m. \<not> km_Self m) (kv_find rv imp)) of
                [] \<Rightarrow> Some (Inr (KtResolution_None, None))
              | [l] \<Rightarrow> Some (Inr (KtResolution_Label, Some l))
              | ls \<Rightarrow> Some (Inl (KtAmbiguous imp (is_kt_SourcePath impt) ls)))
           else if kt_IsNativeImport rv imp then Some (Inr (KtResolution_NativeKotlin, None))
           else
             (case kv_maven rv of
                None \<Rightarrow> None
              | Some maven \<Rightarrow> map_option (\<lambda>l. Inr (KtResolution_Label, Some l)) (maven imp)))"

lemma length_Join_butlast: "1 < length ws \<Longrightarrow> length (Join ''.'' (butlast ws)) < length (Join ''.'' ws)"
proof -
  assume l: "1 < length ws"
  then have ws: "ws \<noteq> []" "butlast ws \<noteq> []" by (auto simp flip: length_greater_0_conv)
  have "Join ''.'' ws = Join ''.'' (butlast ws @ [last ws])" using ws by simp
  also have "\<dots> = Join ''.'' (butlast ws) @ ''.'' @ last ws"
    using Join_append [OF ws(2), of "[last ws]" "''.''"] by simp
  finally show ?thesis by simp
qed

lemma import_parent_length: "import_parent imp = Some q \<Longrightarrow> length q < length imp"
proof -
  assume p: "import_parent imp = Some q"
  then have "q = Join ''.'' (butlast (Split (CHR ''.'') imp))" "1 < length (Split (CHR ''.'') imp)"
    by (auto simp: import_parent_def java_name_Parent_def java_name_String_def packageFullyQualifiedName_def
        split: if_splits)
  then show ?thesis
    using length_Join_butlast [of "Split (CHR ''.'') imp"] by (metis Join_Split)
qed

function kt_resolveImport ::
  "kt_resolver \<Rightarrow> kt_import_statement \<Rightarrow> kt_resolve_error + kt_resolution \<times> label option" where
  "kt_resolveImport rv impt =
     (case resolve_name rv impt of
        Some r \<Rightarrow> r
      | None \<Rightarrow>
        (case import_parent (is_kt_Imp impt) of
           None \<Rightarrow> Inr (KtResolution_NotFound, None)
         | Some importParent \<Rightarrow> kt_resolveImport rv (impt\<lparr>is_kt_Imp := importParent\<rparr>)))"
  by pat_completeness auto
termination
  by (relation "measure (\<lambda>(rv, impt). length (is_kt_Imp impt))") (auto dest: import_parent_length)

declare kt_resolveImport.simps [simp del]

text \<open>The labels of the imports and the unknown ones; an ambiguous import stops the loop.\<close>

fun kt_resolve_loop ::
  "kt_resolver \<Rightarrow> kt_import_statement list \<Rightarrow> label_set \<times> kt_import_statement list \<Rightarrow>
   kt_resolve_error + label_set \<times> kt_import_statement list" where
  "kt_resolve_loop rv [] st = Inr st"
| "kt_resolve_loop rv (m # mods) (deps, errs) =
     (case kt_resolveImport rv m of
        Inl err \<Rightarrow> Inl err
      | Inr (res, dep) \<Rightarrow>
          kt_resolve_loop rv mods
            (if res = KtResolution_NotFound then (deps, errs @ [m])
             else if res = KtResolution_NativeKotlin \<or> res = KtResolution_None then (deps, errs)
             else (case dep of Some l \<Rightarrow> (LabelSet_Add (kv_labels rv) deps l, errs) | None \<Rightarrow> (deps, errs))))"

definition kt_resolveImports ::
  "kt_resolver \<Rightarrow> kt_import_statement list \<Rightarrow> label \<Rightarrow> label_set option \<times> kt_resolve_error option" where
  "kt_resolveImports rv imports from_label =
     (case kt_resolve_loop rv imports (NewLabelSet from_label, []) of
        Inl err \<Rightarrow> (None, Some err)
      | Inr (deps, errs) \<Rightarrow> (Some deps, if errs = [] then None else Some (KtUnknown errs)))"

definition kt_target_imports :: "kt_target \<Rightarrow> kt_import_statement list" where
  "kt_target_imports t = (case t of LibTarget l \<Rightarrow> kl_Imports l | BinTarget b \<Rightarrow> kb_Imports b)"

text \<open>\<open>Resolve\<close>; the kind of the rule and of its import data agree, else the conversion panics.\<close>

definition kt_Resolve ::
  "kt_resolver \<Rightarrow> kt_target \<Rightarrow> label \<Rightarrow> rule \<Rightarrow> exts \<Rightarrow> (rule \<times> exts) outcome" where
  "kt_Resolve rv importData from_label r x =
     (if ru_kind r = KtJvmLibrary \<or> ru_kind r = KtJvmBinary then
        (case (ru_kind r = KtJvmLibrary, importData) of
           (True, BinTarget _) \<Rightarrow> Inl (Panic ''interface conversion'')
         | (False, LibTarget _) \<Rightarrow> Inl (Panic ''interface conversion'')
         | _ \<Rightarrow>
           (case kt_resolveImports rv (kt_target_imports importData) from_label of
              (_, Some err) \<Rightarrow>
                (case ImportErrorf x (kv_report rv err) of Inl e \<Rightarrow> Inl e | Inr x' \<Rightarrow> Inr (r, x'))
            | (Some deps, None) \<Rightarrow>
                Inr (if \<not> LabelSet_Empty deps then SetAttr ''deps'' (VLabels (LabelSet_Labels deps)) r else r, x)
            | (None, None) \<Rightarrow> Inl (Panic ''nil pointer'')))
      else Inr (r, x))"

text \<open>\<open>Imports\<close>: a library provides its packages; other rules nothing.\<close>

definition kt_Imports :: "kt_target option \<Rightarrow> string list option" where
  "kt_Imports privateAttr =
     (case privateAttr of
        Some (LibTarget t) \<Rightarrow> (if kl_Packages t \<noteq> [] then Some (kl_Packages t) else None)
      | _ \<Rightarrow> None)"

section \<open>An import resolves at its longest known prefix\<close>

text \<open>The name and its parents, the longest first.\<close>

definition names_up :: "string \<Rightarrow> string list" where
  "names_up imp =
     (let parts = Split (CHR ''.'') imp in map (\<lambda>n. Join ''.'' (take n parts)) (rev [1..<Suc (length parts)]))"

definition decision :: "kt_resolver \<Rightarrow> kt_import_statement \<Rightarrow> kt_resolve_error + kt_resolution \<times> label option" where
  "decision rv m =
     (case first_some (\<lambda>q. resolve_name rv (m\<lparr>is_kt_Imp := q\<rparr>)) (names_up (is_kt_Imp m)) of
        Some r \<Rightarrow> r | None \<Rightarrow> Inr (KtResolution_NotFound, None))"

lemma Split_Join_take:
  "0 < n \<Longrightarrow> n \<le> length (Split c s) \<Longrightarrow> Split c (Join [c] (take n (Split c s))) = take n (Split c s)"
  by (rule Split_Join) (auto dest: in_set_takeD Split_no_sep simp flip: length_greater_0_conv)

lemma names_up_unfold:
  "names_up imp = imp # (case import_parent imp of None \<Rightarrow> [] | Some q \<Rightarrow> names_up q)"
proof -
  define ps where "ps = Split (CHR ''.'') imp"
  have ne: "ps \<noteq> []" by (simp add: ps_def)
  have imp: "Join ''.'' ps = imp" by (simp add: ps_def)
  have par: "import_parent imp = (if length ps \<le> 1 then None else Some (Join ''.'' (butlast ps)))"
    by (simp add: import_parent_def java_name_Parent_def java_name_String_def packageFullyQualifiedName_def ps_def)
  show ?thesis
  proof (cases "length ps \<le> 1")
    case True
    then have "length ps = 1" using ne by (simp add: Suc_leI order_antisym)
    with par imp show ?thesis by (simp add: names_up_def flip: ps_def)
  next
    case False
    define q where "q = Join ''.'' (butlast ps)"
    have sq: "Split (CHR ''.'') q = butlast ps"
      using Split_Join_take [of "length ps - 1" "CHR ''.''" imp] False
      by (simp add: q_def butlast_conv_take flip: ps_def)
    have "length ps = Suc (length (butlast ps))" using ne by simp
    then have "names_up imp = imp # map (\<lambda>n. Join ''.'' (take n ps)) (rev [1..<Suc (length (butlast ps))])"
      using imp by (simp add: names_up_def flip: ps_def)
    also have "map (\<lambda>n. Join ''.'' (take n ps)) (rev [1..<Suc (length (butlast ps))]) = names_up q"
      unfolding names_up_def sq Let_def
    proof (rule map_cong)
      fix n assume "n \<in> set (rev [1..<Suc (length (butlast ps))])"
      then have "n \<le> length ps - 1" by auto
      then show "Join ''.'' (take n ps) = Join ''.'' (take n (butlast ps))"
        by (simp add: butlast_conv_take min_absorb1)
    qed simp
    finally show ?thesis using par False by (simp add: q_def)
  qed
qed

lemma kt_resolveImport_decision: "kt_resolveImport rv m = decision rv m"
proof (induction rv m rule: kt_resolveImport.induct)
  case (1 rv m)
  have same: "m\<lparr>is_kt_Imp := is_kt_Imp m\<rparr> = m" by simp
  show ?case
  proof (cases "resolve_name rv m")
    case (Some r)
    then show ?thesis
      by (subst kt_resolveImport.simps) (simp add: decision_def names_up_unfold [of "is_kt_Imp m"] same)
  next
    case None
    show ?thesis
    proof (cases "import_parent (is_kt_Imp m)")
      case n: None
      with None show ?thesis
        by (subst kt_resolveImport.simps) (simp add: decision_def names_up_unfold [of "is_kt_Imp m"] same)
    next
      case (Some q)
      have "kt_resolveImport rv m = decision rv (m\<lparr>is_kt_Imp := q\<rparr>)"
        using 1 [OF None Some] None Some by (subst kt_resolveImport.simps) simp
      also have "\<dots> = decision rv m"
        using None Some by (simp add: decision_def names_up_unfold [of "is_kt_Imp m"] same)
      finally show ?thesis .
    qed
  qed
qed

section \<open>The dependencies of a rule\<close>

definition ambiguous :: "kt_resolver \<Rightarrow> kt_import_statement \<Rightarrow> bool" where
  "ambiguous rv m \<longleftrightarrow> (\<exists>err. decision rv m = Inl err)"

definition unknown_import_of :: "kt_resolver \<Rightarrow> kt_import_statement \<Rightarrow> bool" where
  "unknown_import_of rv m \<longleftrightarrow> (\<exists>dep. decision rv m = Inr (KtResolution_NotFound, dep))"

definition decided_labels :: "kt_resolver \<Rightarrow> kt_import_statement \<Rightarrow> label list" where
  "decided_labels rv m =
     (case decision rv m of Inr (KtResolution_Label, Some l) \<Rightarrow> [l] | _ \<Rightarrow> [])"

lemma resolve_name_label:
  "resolve_name rv m = Some (Inr (res, dep)) \<Longrightarrow>
     (res = KtResolution_Label \<longleftrightarrow> dep \<noteq> None) \<and> res \<noteq> KtResolution_NotFound"
  by (cases "kv_override rv (is_kt_Imp m)")
    (auto simp: resolve_name_def Let_def split: option.splits if_splits list.splits, metis)

lemma decision_label: "decision rv m = Inr (res, dep) \<Longrightarrow> (res = KtResolution_Label \<longleftrightarrow> dep \<noteq> None)"
  using resolve_name_label
  by (auto simp: decision_def first_some_Some_iff split: option.splits) blast+

lemma kt_resolve_loop_ok:
  "\<forall>m \<in> set ms. \<not> ambiguous rv m \<Longrightarrow>
   kt_resolve_loop rv ms (deps, errs) =
     Inr (foldl (LabelSet_Add (kv_labels rv)) deps (concat (map (decided_labels rv) ms)),
          errs @ filter (unknown_import_of rv) ms)"
proof (induction ms arbitrary: deps errs)
  case (Cons m ms)
  obtain res dep where d: "decision rv m = Inr (res, dep)"
    using Cons.prems by (cases "decision rv m") (auto simp: ambiguous_def)
  note IH = Cons.IH
  from decision_label [OF d] d Cons.prems show ?case
    by (cases res; cases dep)
      (auto simp: IH kt_resolveImport_decision decided_labels_def unknown_import_of_def)
qed simp

lemma kt_resolve_loop_ambiguous:
  "\<exists>m \<in> set ms. ambiguous rv m \<Longrightarrow>
   \<exists>us m vs err. ms = us @ m # vs \<and> (\<forall>u \<in> set us. \<not> ambiguous rv u) \<and> decision rv m = Inl err \<and>
     kt_resolve_loop rv ms st = Inl err"
proof (induction ms arbitrary: st)
  case (Cons m ms)
  obtain deps errs where st: "st = (deps, errs)" by (cases st)
  show ?case
  proof (cases "decision rv m")
    case (Inl err)
    then show ?thesis
      by (intro exI [of _ "[]"] exI [of _ m] exI [of _ ms] exI [of _ err])
        (simp add: st kt_resolveImport_decision)
  next
    case (Inr r)
    obtain res dep where r: "r = (res, dep)" by (cases r)
    have na: "\<not> ambiguous rv m" using Inr by (simp add: ambiguous_def)
    then have "\<exists>x \<in> set ms. ambiguous rv x" using Cons.prems by auto
    moreover obtain st' where "kt_resolve_loop rv (m # ms) st = kt_resolve_loop rv ms st'"
      using Inr r by (simp add: st kt_resolveImport_decision)
    ultimately obtain us m' vs err where "ms = us @ m' # vs" "\<forall>u \<in> set us. \<not> ambiguous rv u"
      "decision rv m' = Inl err" "kt_resolve_loop rv (m # ms) st = Inl err"
      using Cons.IH [of st'] by auto
    then show ?thesis
      using na by (intro exI [of _ "m # us"] exI [of _ m'] exI [of _ vs] exI [of _ err]) auto
  qed
qed simp

definition kind_fits :: "rule \<Rightarrow> kt_target \<Rightarrow> bool" where
  "kind_fits r d \<longleftrightarrow>
     (case d of LibTarget _ \<Rightarrow> ru_kind r = KtJvmLibrary | BinTarget _ \<Rightarrow> ru_kind r = KtJvmBinary)"

definition reported_as :: "kt_resolver \<Rightarrow> exts \<Rightarrow> kt_resolve_error \<Rightarrow> rule \<Rightarrow> (rule \<times> exts) outcome" where
  "reported_as rv x err r = map_sum id (Pair r) (ImportErrorf x (kv_report rv err))"

lemma kt_Resolve_fits:
  "kind_fits r d \<Longrightarrow> kt_Resolve rv d from_label r x =
     (case kt_resolveImports rv (kt_target_imports d) from_label of
        (_, Some err) \<Rightarrow> reported_as rv x err r
      | (Some deps, None) \<Rightarrow>
          Inr (if LabelSet_Empty deps then r else SetAttr ''deps'' (VLabels (LabelSet_Labels deps)) r, x)
      | (None, None) \<Rightarrow> Inl (Panic ''nil pointer''))"
  by (cases d)
    (auto simp: kt_Resolve_def kind_fits_def reported_as_def KtJvmLibrary_def KtJvmBinary_def
      split: option.splits sum.splits prod.splits)

text \<open>
  C19 (functional). Each Kotlin import is decided at its longest dotted prefix that is configured,
  provided by a rule, native or known to Maven. When none of the imports is ambiguous or
  unknown, the rule gets as dependencies exactly the decided labels, sorted and without its own;
  otherwise it stays as it is, and what is reported is the first ambiguous import, or else all
  unknown ones.
\<close>

theorem kotlin_dependencies:
  assumes "treeset_law LabelComparator (label_add (kv_labels rv))" and "kind_fits r d"
  shows "(\<forall>m \<in> set (kt_target_imports d). kt_resolveImport rv m = decision rv m) \<and>
    (if \<exists>m \<in> set (kt_target_imports d). ambiguous rv m then
       \<exists>us m vs err. kt_target_imports d = us @ m # vs \<and> (\<forall>u \<in> set us. \<not> ambiguous rv u) \<and>
         decision rv m = Inl err \<and> kt_Resolve rv d from_label r x = reported_as rv x err r
     else if \<exists>m \<in> set (kt_target_imports d). unknown_import_of rv m then
       kt_Resolve rv d from_label r x =
         reported_as rv x (KtUnknown (filter (unknown_import_of rv) (kt_target_imports d))) r
     else
       \<exists>ls. sorted_wrt (<) ls \<and>
         set ls = labels_of (kv_labels rv) from_label
           {l. \<exists>m \<in> set (kt_target_imports d). decision rv m = Inr (KtResolution_Label, Some l)} \<and>
         kt_Resolve rv d from_label r x = Inr (if ls = [] then r else SetAttr ''deps'' (VLabels ls) r, x))"
proof -
  let ?ms = "kt_target_imports d"
  let ?ds = "foldl (LabelSet_Add (kv_labels rv)) (NewLabelSet from_label) (concat (map (decided_labels rv) ?ms))"
  have new: "sorted_wrt (<) (ls_labels (NewLabelSet from_label))" by (simp add: NewLabelSet_def)
  have dec: "set (concat (map (decided_labels rv) ?ms)) =
      {l. \<exists>m \<in> set ?ms. decision rv m = Inr (KtResolution_Label, Some l)}"
    by (auto simp: decided_labels_def split: sum.splits kt_resolution.splits option.splits)
  have ls: "sorted_wrt (<) (LabelSet_Labels ?ds)"
    "set (LabelSet_Labels ?ds) = labels_of (kv_labels rv) from_label
       {l. \<exists>m \<in> set ?ms. decision rv m = Inr (KtResolution_Label, Some l)}"
    using foldl_Add_labels [OF assms(1) new, of "concat (map (decided_labels rv) ?ms)"]
    unfolding dec by (simp_all add: LabelSet_Labels_def NewLabelSet_def)
  show ?thesis
  proof (cases "\<exists>m \<in> set ?ms. ambiguous rv m")
    case True
    from kt_resolve_loop_ambiguous [OF this, of "(NewLabelSet from_label, [])"]
    obtain us m vs err where w: "?ms = us @ m # vs" "\<forall>u \<in> set us. \<not> ambiguous rv u" "decision rv m = Inl err"
      and loop: "kt_resolve_loop rv ?ms (NewLabelSet from_label, []) = Inl err" by blast
    have "kt_Resolve rv d from_label r x = reported_as rv x err r"
      by (simp add: kt_Resolve_fits [OF assms(2)] kt_resolveImports_def loop)
    with w True show ?thesis by (auto simp only: kt_resolveImport_decision if_True)
  next
    case False
    then have run: "kt_resolveImports rv ?ms from_label =
        (Some ?ds, if filter (unknown_import_of rv) ?ms = [] then None
                   else Some (KtUnknown (filter (unknown_import_of rv) ?ms)))"
      by (simp add: kt_resolveImports_def kt_resolve_loop_ok)
    show ?thesis
    proof (cases "filter (unknown_import_of rv) ?ms = []")
      case n: True
      then have "kt_Resolve rv d from_label r x =
          Inr (if LabelSet_Labels ?ds = [] then r else SetAttr ''deps'' (VLabels (LabelSet_Labels ?ds)) r, x)"
        by (simp add: kt_Resolve_fits [OF assms(2)] run LabelSet_Empty_def LabelSet_Labels_def)
      moreover have "\<not> (\<exists>m \<in> set ?ms. unknown_import_of rv m)" using n by (simp add: filter_empty_conv)
      ultimately show ?thesis using False ls by (auto simp: kt_resolveImport_decision)
    next
      case u: False
      then have "\<exists>m \<in> set ?ms. unknown_import_of rv m" by (simp add: filter_empty_conv)
      with False u show ?thesis
        by (simp add: kt_resolveImport_decision kt_Resolve_fits [OF assms(2)] run)
    qed
  qed
qed

definition sample_kt_resolver :: kt_resolver where
  "sample_kt_resolver =
     \<lparr>kv_override = Map.empty,
      kv_find = (\<lambda>i. if i = ''a.b'' then [\<lparr>km_Label = Label '''' ''p'' ''lib'' False, km_Self = False\<rparr>] else []),
      kv_IsStdlib = (\<lambda>i. HasPrefix i ''java.''), kv_maven = None, kv_labels = sample_api, kv_report = (\<lambda>_. ''e'')\<rparr>"

theorem kotlin_dependencies_witness:
  "kt_Resolve sample_kt_resolver
     (LibTarget \<lparr>kl_Imports = [\<lparr>is_kt_Imp = ''c.D'', is_kt_SourcePath = ''A.kt''\<rparr>], kl_Packages = [], kl_Files = [''A.kt'']\<rparr>)
     (Label '''' ''q'' ''t'' False) (NewRule KtJvmLibrary ''t'') None =
   reported_as sample_kt_resolver None (KtUnknown [\<lparr>is_kt_Imp = ''c.D'', is_kt_SourcePath = ''A.kt''\<rparr>])
     (NewRule KtJvmLibrary ''t'')"
proof -
  let ?m = "\<lparr>is_kt_Imp = ''c.D'', is_kt_SourcePath = ''A.kt''\<rparr>"
  let ?d = "LibTarget \<lparr>kl_Imports = [?m], kl_Packages = [], kl_Files = [''A.kt'']\<rparr>"
  have law: "treeset_law LabelComparator (label_add (kv_labels sample_kt_resolver))"
    using sample_api_law by (simp add: sample_kt_resolver_def)
  have fits: "kind_fits (NewRule KtJvmLibrary ''t'') ?d" by (simp add: kind_fits_def)
  have up: "names_up ''c.D'' = [''c.D'', ''c'']" by code_simp
  have dec: "decision sample_kt_resolver ?m = Inr (KtResolution_NotFound, None)"
    by (simp add: decision_def up resolve_name_def sample_kt_resolver_def kt_IsNativeImport_def)
  have imps: "kt_target_imports ?d = [?m]" by (simp add: kt_target_imports_def)
  have na: "\<not> ambiguous sample_kt_resolver ?m" and nu: "unknown_import_of sample_kt_resolver ?m"
    by (simp_all add: ambiguous_def unknown_import_of_def dec)
  show ?thesis
    using kotlin_dependencies [OF law fits, of "Label '''' ''q'' ''t'' False" None, THEN conjunct2] na nu
    unfolding imps by simp

qed

end
