(* ===== verification/Kinds.thy ===== *)
theory Kinds
  imports Js_Config Kotlin
begin

text \<open>
  The kinds of rules of the two extensions, with what merging does to their attributes, and the
  files they are loaded from (\<open>language/js/kinds.go\<close>, \<open>language/kotlin/language.go\<close>).
\<close>

record kind_info =
  ki_MatchAny :: bool
  ki_MatchAttrs :: "string list"
  ki_NonEmptyAttrs :: "string list"
  ki_SubstituteAttrs :: "string list"
  ki_MergeableAttrs :: "string list"
  ki_ResolveAttrs :: "string list"

definition no_info :: kind_info where
  "no_info = \<lparr>ki_MatchAny = False, ki_MatchAttrs = [], ki_NonEmptyAttrs = [], ki_SubstituteAttrs = [],
     ki_MergeableAttrs = [], ki_ResolveAttrs = []\<rparr>"

definition ts_project_info :: kind_info where
  "ts_project_info = no_info\<lparr>ki_NonEmptyAttrs := [''srcs''], ki_SubstituteAttrs := [''tsconfig''],
     ki_MergeableAttrs := [''srcs'', ''assets'', ''isolated_typecheck'', ''tsconfig'', ''allow_js'', ''composite'',
       ''declaration'', ''declaration_dir'', ''declaration_map'', ''emit_declaration_only'', ''source_map'',
       ''incremental'', ''ts_build_info_file'', ''resolve_json_module'', ''preserve_jsx'', ''out_dir'', ''root_dir''],
     ki_ResolveAttrs := [''deps'']\<rparr>"

definition tsKinds :: "(string, kind_info) gomap" where
  "tsKinds =
     [(''ts_project'', ts_project_info),
      (''js_library'', no_info\<lparr>ki_NonEmptyAttrs := [''srcs''], ki_MergeableAttrs := [''srcs''],
         ki_ResolveAttrs := [''deps'']\<rparr>),
      (''js_binary'', no_info\<lparr>ki_NonEmptyAttrs := [''entry_point''], ki_ResolveAttrs := [''data'']\<rparr>),
      (''js_run_binary'', no_info\<lparr>ki_NonEmptyAttrs := [''tool''], ki_ResolveAttrs := [''srcs'', ''tool'']\<rparr>),
      (''ts_config'', no_info\<lparr>ki_MatchAttrs := [''src''], ki_NonEmptyAttrs := [''src''], ki_ResolveAttrs := [''deps'']\<rparr>),
      (''ts_proto_library'', no_info\<lparr>ki_NonEmptyAttrs := [''proto''], ki_ResolveAttrs := [''deps'', ''proto'']\<rparr>),
      (''npm_link_all_packages'', no_info\<lparr>ki_MatchAny := True\<rparr>),
      (''npm_package'', no_info\<lparr>ki_NonEmptyAttrs := [''srcs''], ki_MergeableAttrs := [''srcs''],
         ki_ResolveAttrs := [''srcs'']\<rparr>)]"

record load_info =
  li_Name :: string
  li_Symbols :: "string list"

definition js_ApparentLoads :: "(string \<Rightarrow> string) \<Rightarrow> load_info list" where
  "js_ApparentLoads moduleToApparentName =
     (let ts = moduleToApparentName ''aspect_rules_ts''; js = moduleToApparentName ''aspect_rules_js'';
          tsModName = (if ts = '''' then ''aspect_rules_ts'' else ts);
          jsModName = (if js = '''' then ''aspect_rules_js'' else js)
      in [\<lparr>li_Name = ''@'' @ tsModName @ ''//ts:defs.bzl'', li_Symbols = [''ts_project'', ''ts_config'']\<rparr>,
          \<lparr>li_Name = ''@'' @ tsModName @ ''//ts:proto.bzl'', li_Symbols = [''ts_proto_library'']\<rparr>,
          \<lparr>li_Name = ''@'' @ jsModName @ ''//npm:defs.bzl'', li_Symbols = [''npm_package'']\<rparr>,
          \<lparr>li_Name = ''@'' @ jsModName @ ''//js:defs.bzl'', li_Symbols = [''js_library'', ''js_binary'', ''js_run_binary'']\<rparr>,
          \<lparr>li_Name = ''@npm//:defs.bzl'', li_Symbols = [''npm_link_all_packages'']\<rparr>])"

definition kotlinKinds :: "(string, kind_info) gomap" where
  "kotlinKinds =
     [(KtJvmLibrary, no_info\<lparr>ki_NonEmptyAttrs := [''srcs''], ki_MergeableAttrs := [''srcs''], ki_ResolveAttrs := [''deps'']\<rparr>),
      (KtJvmBinary, no_info\<lparr>ki_NonEmptyAttrs := [''srcs'', ''main_class'']\<rparr>)]"

definition kt_ApparentLoads :: "(string \<Rightarrow> string) \<Rightarrow> load_info list" where
  "kt_ApparentLoads moduleToApparentName =
     (let m = moduleToApparentName ''rules_kotlin''; modName = (if m = '''' then ''io_bazel_rules_kotlin'' else m)
      in [\<lparr>li_Name = ''@'' @ modName @ ''//kotlin:jvm.bzl'', li_Symbols = [KtJvmLibrary, KtJvmBinary]\<rparr>])"

text \<open>Every kind is loaded from exactly one file.\<close>

lemma js_kinds_loaded_once:
  "mset (concat (map li_Symbols (js_ApparentLoads f))) = mset (map fst tsKinds)"
  by (simp add: js_ApparentLoads_def tsKinds_def Let_def add_mset_commute)

lemma kt_kinds_loaded_once:
  "mset (concat (map li_Symbols (kt_ApparentLoads f))) = mset (map fst kotlinKinds)"
  by (simp add: kt_ApparentLoads_def kotlinKinds_def Let_def)

text \<open>
  Of the attributes that reflect a tsconfig all but one are updated when a rule is merged with
  the one in the build file.
\<close>

lemma reflected_not_merged:
  "filter (\<lambda>a. a \<notin> set (ki_MergeableAttrs ts_project_info)) tsProjectReflectedConfigAttributes = [''no_emit'']"
  by (simp add: ts_project_info_def no_info_def tsProjectReflectedConfigAttributes_def)

text \<open>The dependencies that resolution sets on a Kotlin binary are not among the resolved attributes of its kind.\<close>

lemma binary_deps_not_resolved:
  "map_of kotlinKinds KtJvmBinary = Some i \<Longrightarrow> ''deps'' \<notin> set (ki_ResolveAttrs i)"
  by (auto simp: kotlinKinds_def KtJvmLibrary_def KtJvmBinary_def no_info_def)

end
