(* ===== verification/Watchman.thy ===== *)
theory Watchman
  imports File_Cache "HOL-Library.Word"
begin

text \<open>
  Caching with a file watcher: \<open>.bazelignore\<close> (\<open>common/bazel/bazelignore.go\<close>), the watchman client
  (\<open>runner/pkg/watchman/watch.go\<close>) and the cache that drops what the watcher reports as changed
  (\<open>cache.go\<close>). The daemon is a parameter: what it answers to a request over the control socket, and
  the messages a subscription receives. The file system is a parameter too.
\<close>

section \<open>The file \<open>.bazelignore\<close>\<close>

text \<open>Opening and reading it: not there, an error, or a content and an error of reading on.\<close>

datatype ignore_file =
    NoIgnoreFile
  | IgnoreOpenError string
  | IgnoreFile string "string option"

definition newline :: char where "newline = CHR 0x0A"

definition dropCR :: "string \<Rightarrow> string" where
  "dropCR l = TrimSuffix l [CHR 0x0D]"

text \<open>\<open>bufio.ScanLines\<close>: the text after the last newline is a line unless it is empty.\<close>

definition raw_lines :: "string \<Rightarrow> string list" where
  "raw_lines s = (let ls = Split newline s in if last ls = '''' then butlast ls else ls)"

definition MaxScanTokenSize :: nat where
  "MaxScanTokenSize = 64 * 1024"

fun ignore_dirs_of :: "string list \<Rightarrow> string list" where
  "ignore_dirs_of [] = []"
| "ignore_dirs_of (l # ls) =
     (let ignored = TrimSpace (dropCR l)
      in if ignored = '''' \<or> hd ignored = CHR ''#'' then ignore_dirs_of ls
         else if ContainsAny ignored ''*?['' then ignore_dirs_of ls
         else Clean ignored # ignore_dirs_of ls)"

text \<open>The result is a nil slice when there is no file.\<close>

definition loadBazelIgnore :: "ignore_file \<Rightarrow> string + string list option" where
  "loadBazelIgnore f =
     (case f of
        NoIgnoreFile \<Rightarrow> Inr None
      | IgnoreOpenError err \<Rightarrow> Inl err
      | IgnoreFile content readError \<Rightarrow>
          if \<exists>l \<in> set (raw_lines content). MaxScanTokenSize \<le> length l
          then Inl ''bufio.Scanner: token too long''
          else (case readError of
                  Some err \<Rightarrow> Inl err
                | None \<Rightarrow> Inr (Some (ignore_dirs_of (raw_lines content)))))"

text \<open>Loaded once per root; errors are not kept.\<close>

definition LoadBazelIgnore ::
  "(string \<Rightarrow> ignore_file) \<Rightarrow> string \<Rightarrow> (string \<rightharpoonup> string list option) \<Rightarrow>
   (string + string list option) \<times> (string \<rightharpoonup> string list option)" where
  "LoadBazelIgnore fs repoRoot ignores =
     (case ignores repoRoot of
        Some v \<Rightarrow> (Inr v, ignores)
      | None \<Rightarrow>
        (case loadBazelIgnore (fs (path_join [repoRoot, ''.bazelignore''])) of
           Inl err \<Rightarrow> (Inl err, ignores)
         | Inr loaded \<Rightarrow> (Inr loaded, ignores(repoRoot \<mapsto> loaded))))"

section \<open>Requests and answers\<close>

datatype wm_expr =
    TypeIs string
  | Dirname string
  | AnyOf "wm_expr list"
  | NotExpr wm_expr

record query_params =
  qp_fields :: "string list"
  qp_empty_on_fresh_instance :: bool
  qp_relative_root :: string
  qp_expression :: wm_expr
  qp_ignore_dirs :: "string list option"
  qp_since :: "string option"
  qp_drop :: "string list option"
  qp_defer :: "string list option"

datatype wm_request =
    WatchProject string
  | ClockOf string
  | Query string query_params
  | WatchDelete string
  | EnterState string string
  | LeaveState string string

record control_response =
  cr_Error :: string
  cr_Watch :: string
  cr_RelativePath :: string
  cr_Clock :: string
  cr_Files :: "string list option"
  cr_IsFreshInstance :: bool
  cr_WatchDel :: "bool option"
  cr_StateEnter :: "string option"
  cr_StateLeave :: "string option"

record change_set =
  cs_Paths :: "string list"
  cs_Root :: string
  cs_ClockSpec :: string
  cs_IsFreshInstance :: bool

text \<open>What an exchange over the socket gives: sending or receiving fails, or there is an answer.\<close>

datatype wm_failure =
    SendFails string
  | RecvFails string

type_synonym wm_daemon = "wm_request \<Rightarrow> wm_failure + control_response"

datatype wm_error =
    WSocketClosed
  | WConnect string
  | WExchange string wm_failure
  | WErrorResponse string string
  | WNoClock
  | WUnknownResponse string
  | WWrongState string string

section \<open>The watcher\<close>

record watchman_watcher =
  workspaceDir :: string
  wm_socket :: bool
  wm_lastClockSpec :: string
  subscriberId :: "64 word"
  watchedRoot :: string
  watchedRelPath :: string

definition NewWatchman :: "string \<Rightarrow> watchman_watcher" where
  "NewWatchman dir =
     \<lparr>workspaceDir = dir, wm_socket = False, wm_lastClockSpec = '''', subscriberId = 0, watchedRoot = '''',
      watchedRelPath = ''''\<rparr>"

text \<open>
  An error of \<open>LoadBazelIgnore\<close> is printed and nothing is ignored. \<open>ignored\<close> is its result for the
  workspace.
\<close>

definition makeQueryParams ::
  "watchman_watcher \<Rightarrow> string + string list option \<Rightarrow> string \<Rightarrow> bool \<Rightarrow> query_params" where
  "makeQueryParams w ignored clockspec includeHash =
     (let bazelignoreDirs = (case ignored of Inl _ \<Rightarrow> None | Inr dirs \<Rightarrow> dirs);
          dirnames = map Dirname (case bazelignoreDirs of None \<Rightarrow> [] | Some dirs \<Rightarrow> dirs)
      in \<lparr>qp_fields = (if includeHash then [''name'', ''content.sha1hex''] else [''name'']),
          qp_empty_on_fresh_instance = True,
          qp_relative_root = watchedRelPath w,
          qp_expression = NotExpr (AnyOf (TypeIs ''d'' # dirnames)),
          qp_ignore_dirs = bazelignoreDirs,
          qp_since = (if clockspec \<noteq> '''' then Some clockspec else None),
          qp_drop = None, qp_defer = None\<rparr>)"

text \<open>\<open>send\<close> and \<open>recv\<close> in turn.\<close>

definition exchange ::
  "wm_daemon \<Rightarrow> watchman_watcher \<Rightarrow> string \<Rightarrow> wm_request \<Rightarrow> wm_error + control_response" where
  "exchange ask w what rq =
     (if \<not> wm_socket w then Inl WSocketClosed
      else case ask rq of Inl e \<Rightarrow> Inl (WExchange what e) | Inr r \<Rightarrow> Inr r)"

definition GetDiff ::
  "wm_daemon \<Rightarrow> string + string list option \<Rightarrow> string \<Rightarrow> watchman_watcher \<Rightarrow>
   (wm_error + change_set) \<times> watchman_watcher" where
  "GetDiff ask ignored clockspec w =
     (if \<not> wm_socket w then (Inl WSocketClosed, w)
      else
        let since = (if clockspec = '''' then wm_lastClockSpec w else clockspec)
        in case exchange ask w ''query'' (Query (watchedRoot w) (makeQueryParams w ignored since False)) of
             Inl e \<Rightarrow> (Inl e, w)
           | Inr resp \<Rightarrow>
             if cr_Error resp \<noteq> '''' then (Inl (WErrorResponse ''query'' (cr_Error resp)), w)
             else
               let paths = (case cr_Files resp of None \<Rightarrow> [] | Some fs \<Rightarrow> fs);
                   w' = w\<lparr>wm_lastClockSpec := cr_Clock resp\<rparr>
               in (Inr \<lparr>cs_Paths = paths, cs_Root = workspaceDir w, cs_ClockSpec = wm_lastClockSpec w',
                        cs_IsFreshInstance = cr_IsFreshInstance resp\<rparr>, w'))"

text \<open>\<open>connected\<close> is the result of connecting. What has been set before an error stays set.\<close>

definition Start :: "wm_daemon \<Rightarrow> string + unit \<Rightarrow> watchman_watcher \<Rightarrow> wm_error option \<times> watchman_watcher" where
  "Start ask connected w =
     (if wm_socket w then (None, w)
      else case connected of
        Inl err \<Rightarrow> (Some (WConnect err), w)
      | Inr _ \<Rightarrow>
        let w1 = w\<lparr>wm_socket := True\<rparr>
        in case exchange ask w1 ''watch-project'' (WatchProject (workspaceDir w1)) of
             Inl e \<Rightarrow> (Some e, w1)
           | Inr resp \<Rightarrow>
             if cr_Error resp \<noteq> '''' then (Some (WErrorResponse ''watch-project'' (cr_Error resp)), w1)
             else
               let w2 = w1\<lparr>watchedRoot := cr_Watch resp, watchedRelPath := cr_RelativePath resp\<rparr>
               in case exchange ask w2 ''clock'' (ClockOf (watchedRoot w2)) of
                    Inl e \<Rightarrow> (Some e, w2)
                  | Inr resp \<Rightarrow>
                    if cr_Clock resp = '''' then (Some WNoClock, w2)
                    else (None, w2\<lparr>wm_lastClockSpec := cr_Clock resp\<rparr>))"

definition Stop :: "wm_daemon \<Rightarrow> watchman_watcher \<Rightarrow> wm_error option \<times> watchman_watcher" where
  "Stop ask w =
     (let w' = w\<lparr>wm_lastClockSpec := ''''\<rparr>
      in case exchange ask w' ''watch-del'' (WatchDelete (watchedRoot w')) of
           Inl e \<Rightarrow> (Some e, w')
         | Inr rsp \<Rightarrow> (if cr_WatchDel rsp = Some True then None else Some (WUnknownResponse ''watch-del''), w'))"

text \<open>\<open>err\<close> is what closing the socket gives.\<close>

definition wm_Close :: "string option \<Rightarrow> watchman_watcher \<Rightarrow> string option \<times> watchman_watcher" where
  "wm_Close err w = (if \<not> wm_socket w then (None, w) else (err, w\<lparr>wm_socket := False\<rparr>))"

definition state_answer :: "string \<Rightarrow> string \<Rightarrow> string option \<Rightarrow> wm_error option" where
  "state_answer what name answered =
     (case answered of
        None \<Rightarrow> Some (WUnknownResponse what)
      | Some n \<Rightarrow> if n \<noteq> name then Some (WWrongState name n) else None)"

definition StateEnter :: "wm_daemon \<Rightarrow> watchman_watcher \<Rightarrow> string \<Rightarrow> wm_error option" where
  "StateEnter ask w name =
     (case exchange ask w ''state-enter'' (EnterState (watchedRoot w) name) of
        Inl e \<Rightarrow> Some e | Inr resp \<Rightarrow> state_answer ''state-enter'' name (cr_StateEnter resp))"

definition StateLeave :: "wm_daemon \<Rightarrow> watchman_watcher \<Rightarrow> string \<Rightarrow> wm_error option" where
  "StateLeave ask w name =
     (case exchange ask w ''state-leave'' (LeaveState (watchedRoot w) name) of
        Inl e \<Rightarrow> Some e | Inr resp \<Rightarrow> state_answer ''state-leave'' name (cr_StateLeave resp))"

text \<open>A \<open>Start\<close> that failed after connecting is not repeated by the next one, which succeeds without a clock.\<close>

lemma failed_Start_retried:
  assumes "exchange ask (w\<lparr>wm_socket := True\<rparr>) ''watch-project'' (WatchProject (workspaceDir w)) = Inl e"
    and "\<not> wm_socket w" "wm_lastClockSpec w = ''''"
  shows "fst (Start ask (Inr ()) w) = Some e"
    and "fst (Start ask' conn (snd (Start ask (Inr ()) w))) = None"
    and "wm_lastClockSpec (snd (Start ask' conn (snd (Start ask (Inr ()) w)))) = ''''"
  using assms by (simp_all add: Start_def Let_def)

section \<open>Subscriptions\<close>

text \<open>\<open>content.sha1hex\<close> is kept as raw JSON: a quoted string, an error object, or nothing.\<close>

record subscribe_file_entry =
  sf_Name :: string
  sf_Sha1Hex :: string

record subscribe_response =
  sr_Error :: string
  sr_Subscribe :: string
  sr_Clock :: string
  sr_Root :: string
  sr_Files :: "subscribe_file_entry list option"
  sr_IsFreshInstance :: bool
  sr_Unsubscribe :: "bool option"
  sr_Canceled :: "bool option"
  sr_StateEnter :: "string option"
  sr_StateLeave :: "string option"

datatype subscribe_option =
    DropState string
  | DeferState string

fun apply_option :: "subscribe_option \<Rightarrow> query_params \<Rightarrow> query_params" where
  "apply_option (DropState s) q = q\<lparr>qp_drop := Some [s]\<rparr>"
| "apply_option (DeferState s) q = q\<lparr>qp_defer := Some [s]\<rparr>"

text \<open>The hash of a file, or the clock when it is not known.\<close>

definition file_hash :: "string \<Rightarrow> subscribe_file_entry \<Rightarrow> string" where
  "file_hash clockSpec f =
     (if 2 < length (sf_Sha1Hex f) \<and> hd (sf_Sha1Hex f) = CHR 0x22 then butlast (tl (sf_Sha1Hex f))
      else clockSpec)"

definition diff_hashes :: "string \<Rightarrow> subscribe_file_entry list \<Rightarrow> (string, string) gomap" where
  "diff_hashes clockSpec fs = foldl (\<lambda>m f. al_put m (sf_Name f) (file_hash clockSpec f)) [] fs"

text \<open>\<open>maps.Equal\<close>; a nil map has no entries.\<close>

definition maps_Equal :: "(string, string) gomap \<Rightarrow> (string, string) gomap \<Rightarrow> bool" where
  "maps_Equal m m' \<longleftrightarrow> length m = length m' \<and> (\<forall>(k, v) \<in> set m. map_of m' k = Some v)"

datatype sub_event =
    Yields change_set
  | YieldsError wm_error
  | Ends
  | Skips

text \<open>What one message of the stream leads to; \<open>prev\<close> are the hashes of the last message with files.\<close>

definition sub_step ::
  "watchman_watcher \<Rightarrow> (string, string) gomap \<Rightarrow> string + subscribe_response \<Rightarrow>
   sub_event \<times> (string, string) gomap" where
  "sub_step w prev msg =
     (case msg of
        Inl err \<Rightarrow> (YieldsError (WExchange ''watchman'' (RecvFails err)), prev)
      | Inr resp \<Rightarrow>
        if sr_Error resp \<noteq> '''' then (YieldsError (WErrorResponse ''watchman'' (sr_Error resp)), prev)
        else if sr_Unsubscribe resp \<noteq> None \<or> sr_Canceled resp \<noteq> None then (Ends, prev)
        else if sr_StateEnter resp \<noteq> None \<or> sr_StateLeave resp \<noteq> None then (Skips, prev)
        else
          let cs = (\<lambda>paths. \<lparr>cs_Paths = paths, cs_Root = path_join [sr_Root resp, watchedRelPath w],
                             cs_ClockSpec = sr_Clock resp, cs_IsFreshInstance = sr_IsFreshInstance resp\<rparr>)
          in case sr_Files resp of
               None \<Rightarrow> (Yields (cs []), prev)
             | Some fs \<Rightarrow>
               let diffHashes = diff_hashes (sr_Clock resp) fs
               in if maps_Equal diffHashes prev then (Skips, prev)
                  else (Yields (cs (map sf_Name fs)), diffHashes))"

text \<open>
  What is yielded for the messages received so far; a consumer that stops after \<open>n\<close> of them sees
  the first \<open>n\<close>.
\<close>

fun sub_loop ::
  "watchman_watcher \<Rightarrow> (string, string) gomap \<Rightarrow> (string + subscribe_response) list \<Rightarrow>
   (wm_error + change_set) list" where
  "sub_loop w prev [] = []"
| "sub_loop w prev (msg # msgs) =
     (case sub_step w prev msg of
        (Yields cs, prev') \<Rightarrow> Inr cs # sub_loop w prev' msgs
      | (YieldsError e, _) \<Rightarrow> [Inl e]
      | (Ends, _) \<Rightarrow> []
      | (Skips, prev') \<Rightarrow> sub_loop w prev' msgs)"

definition subscription_name :: "nat \<Rightarrow> 64 word \<Rightarrow> string" where
  "subscription_name pid n = ''aspect-cli-'' @ decimal pid @ ''.'' @ decimal (unat n)"

text \<open>
  \<open>connected\<close> and \<open>sent\<close> are the results of connecting and of sending the request, \<open>msgs\<close> what the
  subscription's own socket receives. The result is the request, what is yielded, and the watcher.
\<close>

definition Subscribe ::
  "string + unit \<Rightarrow> string option \<Rightarrow> nat \<Rightarrow> string + string list option \<Rightarrow> subscribe_option list \<Rightarrow>
   (string + subscribe_response) list \<Rightarrow> watchman_watcher \<Rightarrow>
   (string \<times> string \<times> query_params) option \<times> (wm_error + change_set) list \<times> watchman_watcher" where
  "Subscribe connected sent pid ignored options msgs w =
     (if \<not> wm_socket w then (None, [Inl WSocketClosed], w)
      else case connected of
        Inl err \<Rightarrow> (None, [Inl (WConnect err)], w)
      | Inr _ \<Rightarrow>
        let w' = w\<lparr>subscriberId := subscriberId w + 1\<rparr>;
            name = subscription_name pid (subscriberId w');
            q = foldl (\<lambda>q opt. apply_option opt q) (makeQueryParams w' ignored (wm_lastClockSpec w') True) options;
            rq = Some (watchedRoot w', name, q)
        in case sent of
             Some err \<Rightarrow> (rq, [Inl (WExchange ''subscribe'' (SendFails err))], w')
           | None \<Rightarrow>
             (case msgs of
                [] \<Rightarrow> (rq, [], w')
              | Inl err # _ \<Rightarrow> (rq, [Inl (WExchange ''subscribe'' (RecvFails err))], w')
              | Inr resp # rest \<Rightarrow>
                if sr_Error resp \<noteq> '''' then (rq, [Inl (WErrorResponse ''subscribe'' (sr_Error resp))], w')
                else if sr_Subscribe resp \<noteq> name then (rq, [Inl (WWrongState name (sr_Subscribe resp))], w')
                else (rq, sub_loop w' [] rest, w')))"

text \<open>
  Two maps are equal for \<open>maps.Equal\<close> when they have the same lookups.
\<close>

lemma al_wf_diff_hashes: "al_wf (diff_hashes c fs)"
proof -
  have "al_wf m \<Longrightarrow> al_wf (foldl (\<lambda>m f. al_put m (sf_Name f) (file_hash c f)) m fs)" for m
    by (induction fs arbitrary: m) simp_all
  then show ?thesis by (simp add: diff_hashes_def)
qed

lemma maps_Equal_iff:
  assumes "al_wf m" "al_wf m'"
  shows "maps_Equal m m' \<longleftrightarrow> map_of m = map_of m'"
proof
  assume eq: "maps_Equal m m'"
  then have sub: "set m \<subseteq> set m'" by (auto simp: maps_Equal_def dest: map_of_SomeD)
  have "distinct m" "distinct m'" using assms by (auto simp: al_wf_def distinct_map)
  with eq have "card (set m) = card (set m')" by (simp add: maps_Equal_def distinct_card)
  with sub have "set m = set m'" by (simp add: card_subset_eq)
  with assms show "map_of m = map_of m'" by (intro same_map_map_of) (simp add: same_map_def)
next
  assume eq: "map_of m = map_of m'"
  have "set m = set m'"
    using assms eq map_of_inject_set [of m m'] by (simp add: al_wf_def)
  moreover have "distinct m" "distinct m'" using assms by (auto simp: al_wf_def distinct_map)
  ultimately have "length m = length m'" by (metis distinct_card)
  moreover have "\<forall>(k, v) \<in> set m. map_of m' k = Some v"
    using al_wf_map_of [OF assms(1)] by (auto simp flip: eq)
  ultimately show "maps_Equal m m'" by (simp add: maps_Equal_def)
qed

text \<open>The messages that announce changes.\<close>

definition is_notification :: "string + subscribe_response \<Rightarrow> bool" where
  "is_notification msg =
     (case msg of
        Inl _ \<Rightarrow> False
      | Inr r \<Rightarrow> sr_Error r = '''' \<and> sr_Unsubscribe r = None \<and> sr_Canceled r = None \<and>
          sr_StateEnter r = None \<and> sr_StateLeave r = None)"

text \<open>The hashes of the last message with files.\<close>

fun last_hashes :: "(string, string) gomap \<Rightarrow> (string + subscribe_response) list \<Rightarrow> (string, string) gomap" where
  "last_hashes prev [] = prev"
| "last_hashes prev (m # ms) =
     last_hashes (case m of Inr r \<Rightarrow> (case sr_Files r of Some fs \<Rightarrow> diff_hashes (sr_Clock r) fs | None \<Rightarrow> prev)
                  | Inl _ \<Rightarrow> prev) ms"

definition set_of_changes :: "watchman_watcher \<Rightarrow> subscribe_response \<Rightarrow> change_set" where
  "set_of_changes w r =
     \<lparr>cs_Paths = (case sr_Files r of None \<Rightarrow> [] | Some fs \<Rightarrow> map sf_Name fs),
      cs_Root = path_join [sr_Root r, watchedRelPath w], cs_ClockSpec = sr_Clock r,
      cs_IsFreshInstance = sr_IsFreshInstance r\<rparr>"

text \<open>A notification is news when it has no files, or other hashes than the one with files before it.\<close>

definition is_news :: "(string, string) gomap \<Rightarrow> subscribe_response \<Rightarrow> bool" where
  "is_news prev r =
     (case sr_Files r of
        None \<Rightarrow> True
      | Some fs \<Rightarrow> map_of (diff_hashes (sr_Clock r) fs) \<noteq> map_of prev)"

lemma sub_step_notification:
  assumes "is_notification (Inr r)" "al_wf prev"
  shows "sub_step w prev (Inr r) =
    (if is_news prev r
     then (Yields (set_of_changes w r), last_hashes prev [Inr r]) else (Skips, prev))"
proof (cases "sr_Files r")
  case None
  with assms(1) show ?thesis by (simp add: sub_step_def is_notification_def is_news_def set_of_changes_def)
next
  case (Some fs)
  have "maps_Equal (diff_hashes (sr_Clock r) fs) prev \<longleftrightarrow> map_of (diff_hashes (sr_Clock r) fs) = map_of prev"
    by (rule maps_Equal_iff [OF al_wf_diff_hashes assms(2)])
  with assms(1) Some show ?thesis
    by (simp add: sub_step_def is_notification_def is_news_def set_of_changes_def Let_def)
qed

lemma is_news_cong: "map_of prev = map_of prev' \<Longrightarrow> is_news prev r = is_news prev' r"
  by (simp add: is_news_def split: option.splits)

lemma last_hashes_cong:
  "map_of prev = map_of prev' \<Longrightarrow> map_of (last_hashes prev ms) = map_of (last_hashes prev' ms)"
proof (induction ms arbitrary: prev prev')
  case (Cons m ms)
  show ?case
    unfolding last_hashes.simps
    by (rule Cons.IH) (simp add: Cons.prems split: sum.splits option.splits)
qed simp

lemma al_wf_last_hashes: "al_wf prev \<Longrightarrow> al_wf (last_hashes prev ms)"
proof (induction ms arbitrary: prev)
  case (Cons m ms)
  show ?case
    unfolding last_hashes.simps
    by (rule Cons.IH) (simp add: Cons.prems al_wf_diff_hashes split: sum.splits option.splits)
qed simp

text \<open>
  What is yielded of a series of notifications: exactly the news, where each is compared with the
  last notification with files before it, yielded or not.
\<close>

fun news_of :: "watchman_watcher \<Rightarrow> (string, string) gomap \<Rightarrow> subscribe_response list \<Rightarrow>
    subscribe_response list \<Rightarrow> change_set list" where
  "news_of w prev before [] = []"
| "news_of w prev before (r # rs) =
     (if is_news (last_hashes prev (map Inr before)) r then [set_of_changes w r] else [])
     @ news_of w prev (before @ [r]) rs"

lemma last_hashes_append: "last_hashes prev (as @ bs) = last_hashes (last_hashes prev as) bs"
  by (induction as arbitrary: prev) simp_all

lemma sub_loop_news:
  assumes "al_wf prev" "al_wf first" "map_of prev = map_of (last_hashes first (map Inr before))"
    and "\<forall>r \<in> set rs. is_notification (Inr r)"
  shows "sub_loop w prev (map Inr rs) = map Inr (news_of w first before rs)"
  using assms
proof (induction rs arbitrary: prev before)
  case (Cons r rs)
  note agree = Cons.prems(3)
  have after: "last_hashes first (map Inr (before @ [r])) = last_hashes (last_hashes first (map Inr before)) [Inr r]"
    by (simp add: last_hashes_append)
  have news: "is_news prev r = is_news (last_hashes first (map Inr before)) r"
    using Cons.prems(3) by (rule is_news_cong)
  show ?case
  proof (cases "is_news prev r")
    case True
    have "sub_loop w (last_hashes prev [Inr r]) (map Inr rs) = map Inr (news_of w first (before @ [r]) rs)"
      using Cons.prems last_hashes_cong [OF agree, of "[Inr r]"] unfolding after [symmetric]
      by (intro Cons.IH al_wf_last_hashes) simp_all
    with True Cons.prems news show ?thesis by (simp add: sub_step_notification del: last_hashes.simps)
  next
    case False
    then obtain fs where "sr_Files r = Some fs" "map_of (diff_hashes (sr_Clock r) fs) = map_of prev"
      by (auto simp: is_news_def split: option.splits)
    then have "map_of prev = map_of (last_hashes first (map Inr (before @ [r])))"
      unfolding after by simp
    with Cons.prems have "sub_loop w prev (map Inr rs) = map Inr (news_of w first (before @ [r]) rs)"
      by (intro Cons.IH) auto
    with False Cons.prems news show ?thesis by (simp add: sub_step_notification)
  qed
qed simp

text \<open>
  A message with an empty list of files at the beginning is not news: the announcement of a fresh
  instance, which comes with no files as the query asks for, is lost.
\<close>

lemma fresh_instance_lost:
  assumes "is_notification (Inr r)" "sr_Files r = Some []" "sr_IsFreshInstance r"
  shows "sub_loop w [] (Inr r # msgs) = sub_loop w [] msgs"
  using assms by (simp add: sub_step_notification is_news_def diff_hashes_def al_wf_Nil)

section \<open>The cache\<close>

text \<open>
  The walk cache of gazelle: what it keeps of each directory. \<open>None\<close> is a nil pointer. The global
  \<open>previousWalkCache\<close> is part of the state.
\<close>

type_synonym 'd walk_cache = "string \<rightharpoonup> 'd"

record ('v, 'd) watchman_cache = "'v file_compute_cache" +
  wc_w :: watchman_watcher
  wc_file :: string
  wc_symlinks :: "string \<rightharpoonup> string"
  wc_lastClockSpec :: string
  wc_walkCache :: "'d walk_cache option"

text \<open>A directory or one below it.\<close>

definition under_dir :: "string \<Rightarrow> string \<Rightarrow> bool" where
  "under_dir staleD d \<longleftrightarrow>
     staleD = d \<or> (length staleD < length d \<and> HasPrefix d staleD \<and> d ! length staleD = slash)"

definition invalidateWalkCache :: "string \<Rightarrow> 'd walk_cache \<Rightarrow> 'd walk_cache" where
  "invalidateWalkCache staleD m =
     (if staleD = ''.'' \<or> staleD = '''' then Map.empty
      else (\<lambda>d. if under_dir staleD d then None else m d))"

text \<open>The hook of \<open>populateWalkCache\<close>, called with the new cache of a walk.\<close>

definition loadWalkCache :: "('v, 'd) watchman_cache \<Rightarrow> 'd walk_cache \<Rightarrow> 'd walk_cache" where
  "loadWalkCache c newWalkCache =
     (case wc_walkCache c of None \<Rightarrow> newWalkCache | Some m \<Rightarrow> newWalkCache ++ m)"

text \<open>What is dropped for the changed paths.\<close>

fun drop_changed ::
  "string list \<Rightarrow> 'v entries \<times> 'd walk_cache option \<Rightarrow> 'v entries \<times> 'd walk_cache option" where
  "drop_changed [] st = st"
| "drop_changed (p # ps) (m, walks) =
     drop_changed ps (m(p := None), map_option (invalidateWalkCache (path_Dir p)) walks)"

definition keep_symlinks :: "'v entries \<Rightarrow> (string \<rightharpoonup> string) \<Rightarrow> (string \<rightharpoonup> string)" where
  "keep_symlinks m links = (\<lambda>k. if links k = None \<and> m k \<noteq> None then Some k else links k)"

text \<open>
  \<open>read\<close>: the result of opening the file is \<open>None\<close> when it fails, else what can be decoded of it.
\<close>

definition wc_read ::
  "wm_daemon \<Rightarrow> string + string list option \<Rightarrow> build_info \<Rightarrow> 'v cache_file option \<Rightarrow>
   ('v, 'd) watchman_cache \<times> 'd walk_cache option \<Rightarrow> ('v, 'd) watchman_cache \<times> 'd walk_cache option" where
  "wc_read ask ignored b f st =
     (case st of (c, previousWalkCache) \<Rightarrow>
        case f of
          None \<Rightarrow> (c, previousWalkCache)
        | Some decoded \<Rightarrow>
          (case decoded of
             Some (pi, WatchmanState clock entries) \<Rightarrow>
               if \<not> VerifyCacheVersion b ''watchman'' pi then (c, None)
               else
                 (case GetDiff ask ignored clock (wc_w c) of
                    (Inl err, w) \<Rightarrow> (c\<lparr>wc_w := w\<rparr>, None)
                  | (Inr cs, w) \<Rightarrow>
                      if cs_IsFreshInstance cs then (c\<lparr>wc_w := w, wc_lastClockSpec := cs_ClockSpec cs\<rparr>, None)
                      else
                        (case drop_changed (cs_Paths cs) (entries, previousWalkCache) of
                           (m, walks) \<Rightarrow>
                             ((LoadEntries m (c\<lparr>wc_w := w\<rparr>))
                                \<lparr>wc_lastClockSpec := cs_ClockSpec cs, wc_walkCache := walks,
                                 wc_symlinks := keep_symlinks m (wc_symlinks c)\<rparr>, None)))
           | _ \<Rightarrow> (c, None)))"

definition newWatchmanCache ::
  "wm_daemon \<Rightarrow> string + string list option \<Rightarrow> build_info \<Rightarrow> 'v cache_file option \<Rightarrow> watchman_watcher \<Rightarrow>
   string \<Rightarrow> 'd walk_cache option \<Rightarrow> ('v, 'd) watchman_cache \<times> 'd walk_cache option" where
  "newWatchmanCache ask ignored b f w diskCachePath previousWalkCache =
     wc_read ask ignored b f
       (\<lparr>fc_entries = Map.empty, fc_file = '''', wc_w = w, wc_file = diskCachePath, wc_symlinks = Map.empty,
         wc_lastClockSpec = '''', wc_walkCache = None\<rparr>, previousWalkCache)"

text \<open>\<open>NewWatchmanCache\<close>; \<open>None\<close> is the end of the process when the watcher does not start.\<close>

definition NewWatchmanCache ::
  "wm_daemon \<Rightarrow> string + unit \<Rightarrow> string + string list option \<Rightarrow> build_info \<Rightarrow> 'v cache_file option \<Rightarrow> string \<Rightarrow>
   string \<Rightarrow> 'd walk_cache option \<Rightarrow> (('v, 'd) watchman_cache \<times> 'd walk_cache option) option" where
  "NewWatchmanCache ask connected ignored b f repoRoot filePath previousWalkCache =
     (case Start ask connected (NewWatchman repoRoot) of
        (Some err, _) \<Rightarrow> None
      | (None, w) \<Rightarrow> Some (newWatchmanCache ask ignored b f w filePath previousWalkCache))"

text \<open>\<open>write\<close> and \<open>Persist\<close>: the file that is left, unless writing fails.\<close>

definition wc_write :: "build_info \<Rightarrow> ('v, 'd) watchman_cache \<Rightarrow> 'v cache_file option" where
  "wc_write b c = Some (WriteCacheFile b ''watchman'' (WatchmanState (wc_lastClockSpec c) (SnapshotEntries c)))"

text \<open>
  Symbolic links: \<open>lstat\<close> tells whether a path is one, \<open>evalSymlinks\<close> follows it. The result is the
  real path, and the links that are known afterwards.
\<close>

record links_fs =
  lf_Lstat :: "string \<Rightarrow> string + bool"
  lf_EvalSymlinks :: "string \<Rightarrow> string option"

definition follow_link :: "links_fs \<Rightarrow> string \<Rightarrow> string \<Rightarrow> bool \<Rightarrow> string" where
  "follow_link l root p isLink =
     (if isLink
      then (case lf_EvalSymlinks l (path_join [root, p]) of
              None \<Rightarrow> p
            | Some evalPath \<Rightarrow> (case filepath_Rel root evalPath of None \<Rightarrow> p | Some relPath \<Rightarrow> relPath))
      else p)"

definition links_LoadOrStore :: "string \<Rightarrow> string \<Rightarrow> (string \<rightharpoonup> string) \<Rightarrow> string \<times> (string \<rightharpoonup> string)" where
  "links_LoadOrStore k v m = (case m k of Some v' \<Rightarrow> (v', m) | None \<Rightarrow> (v, m(k \<mapsto> v)))"

definition resolveSymlink ::
  "links_fs \<Rightarrow> string \<Rightarrow> string \<Rightarrow> (string \<rightharpoonup> string) \<Rightarrow> (string + string) \<times> (string \<rightharpoonup> string)" where
  "resolveSymlink l root p links =
     (case links p of
        Some realP \<Rightarrow> (Inr realP, links)
      | None \<Rightarrow>
        (case lf_Lstat l (path_join [root, p]) of
           Inl err \<Rightarrow> (Inl err, links)
         | Inr isLink \<Rightarrow>
           (case links_LoadOrStore p (follow_link l root p isLink) links of
              (realP, links1) \<Rightarrow>
                if p \<noteq> realP
                then (case links_LoadOrStore realP realP links1 of (realP', links2) \<Rightarrow> (Inr realP', links2))
                else (Inr realP, links1))))"

definition wc_LoadOrStoreFile ::
  "links_fs \<Rightarrow> files \<Rightarrow> string \<Rightarrow> string \<Rightarrow> string \<Rightarrow> 'v loader \<Rightarrow> ('v, 'd) watchman_cache \<Rightarrow>
   'v load_result \<times> ('v, 'd) watchman_cache" where
  "wc_LoadOrStoreFile l fs root p key loader c =
     (case resolveSymlink l root p (wc_symlinks c) of
        (Inl err, links) \<Rightarrow> ((None, False, Some err), c\<lparr>wc_symlinks := links\<rparr>)
      | (Inr realP, links) \<Rightarrow> fc_LoadOrStoreFile fs root realP key loader (c\<lparr>wc_symlinks := links\<rparr>))"

section \<open>Runs\<close>

text \<open>The file system of a run: contents, links, and the types of paths relative to the root.\<close>

record world =
  wd_files :: files
  wd_links :: links_fs
  wd_type :: "string \<Rightarrow> string"

text \<open>
  A run of gazelle: it starts the watcher, makes the cache from the file that was left, loads files
  and leaves its file. \<open>ld\<close> are the loaders by key.
\<close>

record wm_session =
  ws_world :: world
  ws_daemon :: wm_daemon
  ws_build :: build_info
  ws_loads :: "(string \<times> string) list"

type_synonym 'v answers = "('v option \<times> string option) list"

fun wc_loads ::
  "world \<Rightarrow> string \<Rightarrow> (string \<Rightarrow> 'v loader) \<Rightarrow> (string \<times> string) list \<Rightarrow> ('v, 'd) watchman_cache \<Rightarrow>
   'v answers \<times> ('v, 'd) watchman_cache" where
  "wc_loads wd root ld [] c = ([], c)"
| "wc_loads wd root ld ((p, key) # ps) c =
     (case wc_LoadOrStoreFile (wd_links wd) (wd_files wd) root p key (ld key) c of
        (r, c') \<Rightarrow> (case wc_loads wd root ld ps c' of (rs, c'') \<Rightarrow> (answer_of r # rs, c'')))"

definition run_session ::
  "string \<Rightarrow> string + string list option \<Rightarrow> (string \<Rightarrow> 'v loader) \<Rightarrow> wm_session \<Rightarrow> 'v cache_file option \<Rightarrow>
   ('v answers \<times> 'v cache_file option) option" where
  "run_session root ignored ld s f =
     (case NewWatchmanCache (ws_daemon s) (Inr ()) ignored (ws_build s) f root '''' (None :: unit walk_cache option) of
        None \<Rightarrow> None
      | Some (c, _) \<Rightarrow>
        (case wc_loads (ws_world s) root ld (ws_loads s) c of (rs, c') \<Rightarrow> Some (rs, wc_write (ws_build s) c')))"

fun run_sessions ::
  "string \<Rightarrow> string + string list option \<Rightarrow> (string \<Rightarrow> 'v loader) \<Rightarrow> wm_session list \<Rightarrow> 'v cache_file option \<Rightarrow>
   'v answers list option" where
  "run_sessions root ignored ld [] f = Some []"
| "run_sessions root ignored ld (s # ss) f =
     (case run_session root ignored ld s f of
        None \<Rightarrow> None
      | Some (rs, f') \<Rightarrow> map_option ((#) rs) (run_sessions root ignored ld ss f'))"

text \<open>Without a cache: the real path is loaded.\<close>

definition real_path :: "world \<Rightarrow> string \<Rightarrow> string \<Rightarrow> string + string" where
  "real_path wd root p =
     (case lf_Lstat (wd_links wd) (path_join [root, p]) of
        Inl err \<Rightarrow> Inl err
      | Inr isLink \<Rightarrow> Inr (follow_link (wd_links wd) root p isLink))"

definition uncached :: "world \<Rightarrow> string \<Rightarrow> (string \<Rightarrow> 'v loader) \<Rightarrow> string \<times> string \<Rightarrow> 'v option \<times> string option" where
  "uncached wd root ld pk =
     (case real_path wd root (fst pk) of
        Inl err \<Rightarrow> (None, Some err)
      | Inr realP \<Rightarrow> direct (wd_files wd) root ld realP (snd pk))"

subsection \<open>What the daemon and the file system promise\<close>

text \<open>Whether a query selects a path: the documented meaning of the terms used.\<close>

fun wm_matches :: "(string \<Rightarrow> string) \<Rightarrow> string \<Rightarrow> wm_expr \<Rightarrow> bool" where
  "wm_matches typ p (TypeIs t) = (typ p = t)"
| "wm_matches typ p (Dirname d) = under_dir d (path_Dir p)"
| "wm_matches typ p (AnyOf es) = (\<exists>e \<in> set es. wm_matches typ p e)"
| "wm_matches typ p (NotExpr e) = (\<not> wm_matches typ p e)"

definition same_path :: "string \<Rightarrow> world \<Rightarrow> world \<Rightarrow> string \<Rightarrow> bool" where
  "same_path root wd wd' p \<longleftrightarrow>
     wd_files wd (path_join [root, p]) = wd_files wd' (path_join [root, p]) \<and>
     lf_Lstat (wd_links wd) (path_join [root, p]) = lf_Lstat (wd_links wd') (path_join [root, p])"

text \<open>
  \<open>at\<close> gives the file system a clock stands for. The clock of an answer stands for the present one,
  and the answer to a query of the watcher since a clock, unless the instance is fresh, has every
  selected path that is not as it was at the clock. Paths are given in their clean form.
\<close>

definition watches ::
  "(string \<Rightarrow> world) \<Rightarrow> string \<Rightarrow> string + string list option \<Rightarrow> wm_daemon \<Rightarrow> world \<Rightarrow> bool" where
  "watches at root ignored ask now \<longleftrightarrow>
     (\<forall>rq r. ask rq = Inr r \<longrightarrow> cr_Clock r \<noteq> '''' \<longrightarrow> at (cr_Clock r) = now) \<and>
     (\<forall>watched w c r p.
        ask (Query watched (makeQueryParams w ignored c False)) = Inr r \<longrightarrow> c \<noteq> '''' \<longrightarrow>
        cr_Error r = '''' \<longrightarrow> \<not> cr_IsFreshInstance r \<longrightarrow>
        Clean p = p \<longrightarrow> wm_matches (wd_type now) p (qp_expression (makeQueryParams w ignored c False)) \<longrightarrow> \<not> same_path root (at c) now p \<longrightarrow>
        p \<in> set (case cr_Files r of None \<Rightarrow> [] | Some fs \<Rightarrow> fs))"

text \<open>Following a link gives a clean absolute path that is no link; what cannot be followed cannot be read.\<close>

definition links_ok :: "world \<Rightarrow> bool" where
  "links_ok wd \<longleftrightarrow>
     (\<forall>q. case lf_EvalSymlinks (wd_links wd) q of
            None \<Rightarrow> lf_Lstat (wd_links wd) q = Inr True \<longrightarrow> (\<exists>err. wd_files wd q = Inl err)
          | Some e \<Rightarrow> IsAbs e \<and> Clean e = e \<and> lf_Lstat (wd_links wd) e = Inr False)"

text \<open>
  A run in the scope of the watcher: it starts, and what is loaded is in \<open>W\<close>, paths that the queries
  select.
\<close>

definition session_ok ::
  "(string \<Rightarrow> world) \<Rightarrow> string \<Rightarrow> string + string list option \<Rightarrow> string set \<Rightarrow> wm_session \<Rightarrow> bool" where
  "session_ok at root ignored W s \<longleftrightarrow>
     fst (Start (ws_daemon s) (Inr ()) (NewWatchman root)) = None \<and>
     watches at root ignored (ws_daemon s) (ws_world s) \<and> links_ok (ws_world s) \<and>
     (\<forall>p \<in> W. Clean p = p \<and> wm_matches (wd_type (ws_world s)) p
        (qp_expression (makeQueryParams (NewWatchman root) ignored '''' False))) \<and>
     (\<forall>(p, key) \<in> set (ws_loads s). \<forall>r. real_path (ws_world s) root p = Inr r \<longrightarrow> r \<in> W)"

text \<open>A cache file without a clock.\<close>

fun unclocked :: "'v cache_file option \<Rightarrow> bool" where
  "unclocked (Some (Some (pi, WatchmanState clock m))) = (clock = '''')"
| "unclocked _ = False"

text \<open>Nothing changes between a run that leaves a cache file without a clock and the next one.\<close>

fun steady ::
  "string \<Rightarrow> string + string list option \<Rightarrow> (string \<Rightarrow> 'v loader) \<Rightarrow> world \<Rightarrow> wm_session list \<Rightarrow>
   'v cache_file option \<Rightarrow> bool" where
  "steady root ignored ld before [] f = True"
| "steady root ignored ld before (s # ss) f =
     ((unclocked f \<longrightarrow> ws_world s = before) \<and>
      (case run_session root ignored ld s f of
         None \<Rightarrow> True
       | Some (_, f') \<Rightarrow> steady root ignored ld (ws_world s) ss f'))"

subsection \<open>Links\<close>

definition plain :: "world \<Rightarrow> string \<Rightarrow> string \<Rightarrow> bool" where
  "plain wd root p \<longleftrightarrow> lf_Lstat (wd_links wd) (path_join [root, p]) = Inr False"

lemma plain_real_path: "plain wd root p \<Longrightarrow> real_path wd root p = Inr p"
  by (simp add: plain_def real_path_def follow_link_def)

lemma filepath_Rel_abs:
  assumes "IsAbs base" "IsAbs targ"
  shows "filepath_Rel base targ \<noteq> None"
proof (cases "strip_common (clean_elems base) (clean_elems targ)")
  case (Pair b t)
  then obtain pre where pre: "clean_elems base = pre @ b" using strip_common_prefix by blast
  have "''..'' \<notin> set (rev (clean_elems base))"
    using clean_elems_normal [of base] assms(1) by (intro normal_stack_tail_dots) simp_all
  with pre have "''..'' \<notin> set b" by simp
  with Pair assms show ?thesis by (simp add: filepath_Rel_def)
qed

text \<open>A real path is its own real path, and no link when it can be read or is another path.\<close>

lemma real_path_cases:
  assumes links: "links_ok wd" and root: "IsAbs root" and real: "real_path wd root p = Inr r"
  shows "(r = p \<and> (\<exists>b. lf_Lstat (wd_links wd) (path_join [root, p]) = Inr b \<and>
      (b \<longrightarrow> (\<exists>err. wd_files wd (path_join [root, p]) = Inl err)))) \<or> plain wd root r"
proof -
  obtain b where b: "lf_Lstat (wd_links wd) (path_join [root, p]) = Inr b" "r = follow_link (wd_links wd) root p b"
    using real by (auto simp: real_path_def split: sum.splits)
  show ?thesis
  proof (cases "b \<and> lf_EvalSymlinks (wd_links wd) (path_join [root, p]) \<noteq> None")
    case False
    then have "r = p" using b by (auto simp: follow_link_def split: if_splits)
    moreover have "\<exists>err. wd_files wd (path_join [root, p]) = Inl err" if b
      using links [unfolded links_ok_def, rule_format, of "path_join [root, p]"] that False b
      by (simp split: option.splits)
    ultimately show ?thesis using b by blast
  next
    case True
    then obtain e where e: "lf_EvalSymlinks (wd_links wd) (path_join [root, p]) = Some e" by blast
    then have abs: "IsAbs e" "Clean e = e" "lf_Lstat (wd_links wd) e = Inr False"
      using links [unfolded links_ok_def, rule_format, of "path_join [root, p]"] by simp_all
    then obtain rel where rel: "filepath_Rel root e = Some rel" using filepath_Rel_abs [OF root] by blast
    have "root \<noteq> ''''" using root by (auto simp: IsAbs_def)
    with rel abs(2) have "path_join [root, rel] = e" using filepath_Rel_join by fastforce
    moreover have "r = rel" using b True e rel by (simp add: follow_link_def)
    ultimately show ?thesis using abs(3) by (simp add: plain_def)
  qed
qed

lemma real_path_idem:
  "links_ok wd \<Longrightarrow> IsAbs root \<Longrightarrow> real_path wd root p = Inr r \<Longrightarrow> real_path wd root r = Inr r"
  using real_path_cases plain_real_path by blast

lemma real_path_readable:
  "links_ok wd \<Longrightarrow> IsAbs root \<Longrightarrow> real_path wd root p = Inr r \<Longrightarrow>
   wd_files wd (path_join [root, r]) = Inr content \<Longrightarrow> plain wd root r"
  using real_path_cases [of wd root p r] by (auto simp: plain_def)

definition links_agree :: "world \<Rightarrow> string \<Rightarrow> (string \<rightharpoonup> string) \<Rightarrow> bool" where
  "links_agree wd root links \<longleftrightarrow> (\<forall>p r. links p = Some r \<longrightarrow> real_path wd root p = Inr r)"

lemma links_agree_update:
  "links_agree wd root links \<Longrightarrow> real_path wd root p = Inr r \<Longrightarrow> links_agree wd root (links(p \<mapsto> r))"
  by (simp add: links_agree_def)

lemma links_LoadOrStore_agree:
  assumes "links_agree wd root links" "real_path wd root p = Inr r"
  obtains links' where "links_LoadOrStore p r links = (r, links')" and "links_agree wd root links'"
  using assms links_agree_update [OF assms]
  by (cases "links p") (auto simp: links_LoadOrStore_def links_agree_def)

lemma resolveSymlink_spec:
  assumes ok: "links_ok wd" "IsAbs root" and agree: "links_agree wd root links"
  obtains links' where "resolveSymlink (wd_links wd) root p links = (real_path wd root p, links')"
    and "links_agree wd root links'"
proof (cases "links p")
  case (Some r)
  with agree show ?thesis by (intro that [of links]) (simp_all add: resolveSymlink_def links_agree_def)
next
  case None
  show ?thesis
  proof (cases "real_path wd root p")
    case (Inl err)
    with None agree show ?thesis
      by (intro that [of links]) (auto simp: resolveSymlink_def real_path_def split: sum.splits)
  next
    case (Inr r)
    then obtain b where b: "lf_Lstat (wd_links wd) (path_join [root, p]) = Inr b"
        "follow_link (wd_links wd) root p b = r"
      by (auto simp: real_path_def split: sum.splits)
    obtain links1 where l1: "links_LoadOrStore p r links = (r, links1)" "links_agree wd root links1"
      using links_LoadOrStore_agree [OF agree Inr] .
    obtain links2 where l2: "links_LoadOrStore r r links1 = (r, links2)" "links_agree wd root links2"
      using links_LoadOrStore_agree [OF l1(2) real_path_idem [OF ok Inr]] .
    show ?thesis
    proof (cases "p = r")
      case True
      with None Inr b l1 show ?thesis by (intro that [of links1]) (simp_all add: resolveSymlink_def)
    next
      case False
      with None Inr b l1 l2 show ?thesis by (intro that [of links2]) (simp_all add: resolveSymlink_def)
    qed
  qed
qed

subsection \<open>A run keeps the promise\<close>

text \<open>What is cached holds in a file system: it is in scope, of files that are no links, and up to date.\<close>

definition entries_hold :: "world \<Rightarrow> string \<Rightarrow> (string \<Rightarrow> 'v loader) \<Rightarrow> string set \<Rightarrow> 'v entries \<Rightarrow> bool" where
  "entries_hold wd root ld W m \<longleftrightarrow>
     (\<forall>k. m k \<noteq> None \<longrightarrow> k \<in> W \<and> plain wd root k \<and> entries_agree root ld (wd_files wd) k m)"

definition wc_inv ::
  "world \<Rightarrow> string \<Rightarrow> (string \<Rightarrow> 'v loader) \<Rightarrow> string set \<Rightarrow> ('v, 'd) watchman_cache \<Rightarrow> bool" where
  "wc_inv wd root ld W c \<longleftrightarrow>
     entries_hold wd root ld W (fc_entries c) \<and> links_agree wd root (wc_symlinks c)"

lemma entries_agree_absent: "m k = None \<Longrightarrow> entries_agree root ld fs k m"
  by (simp add: entries_agree_def cached_def)

lemma wc_load_spec:
  assumes ok: "links_ok wd" "IsAbs root" and inv: "wc_inv wd root ld W c"
    and scope: "\<And>r. real_path wd root p = Inr r \<Longrightarrow> r \<in> W"
    and run: "wc_LoadOrStoreFile (wd_links wd) (wd_files wd) root p key (ld key) c = (r, c')"
  shows "answer_of r = uncached wd root ld (p, key)" and "wc_inv wd root ld W c'"
    and "wc_lastClockSpec c' = wc_lastClockSpec c"
proof -
  have agree: "links_agree wd root (wc_symlinks c)" using inv by (simp add: wc_inv_def)
  obtain links where links:
      "resolveSymlink (wd_links wd) root p (wc_symlinks c) = (real_path wd root p, links)"
      "links_agree wd root links"
    using resolveSymlink_spec [OF ok agree] .
  have "answer_of r = uncached wd root ld (p, key) \<and> wc_inv wd root ld W c' \<and>
      wc_lastClockSpec c' = wc_lastClockSpec c"
  proof (cases "real_path wd root p")
    case (Inl err)
    with run links have "r = (None, False, Some err)" "c' = c\<lparr>wc_symlinks := links\<rparr>"
      by (simp_all add: wc_LoadOrStoreFile_def)
    with inv links Inl show ?thesis by (simp add: wc_inv_def uncached_def answer_of_def)
  next
    case (Inr q)
    let ?c = "c\<lparr>wc_symlinks := links\<rparr>"
    have hold: "entries_hold wd root ld W (fc_entries ?c)" using inv by (simp add: wc_inv_def)
    have "entries_agree root ld (wd_files wd) q (fc_entries ?c)"
      using hold entries_agree_absent by (cases "fc_entries ?c q = None") (simp_all add: entries_hold_def)
    moreover have "fc_LoadOrStoreFile (wd_files wd) root q key (ld key) ?c = (r, c')"
      using run links Inr by (simp add: wc_LoadOrStoreFile_def)
    ultimately obtain m where m: "c' = ?c\<lparr>fc_entries := m\<rparr>"
        "answer_of r = direct (wd_files wd) root ld q key"
        "\<And>k. k \<noteq> q \<Longrightarrow> m k = fc_entries ?c k" "entries_agree root ld (wd_files wd) q m"
        "m q = fc_entries ?c q \<or> (\<exists>content. wd_files wd (path_join [root, q]) = Inr content)"
      by (rule fc_LoadOrStoreFile_spec) (rule that)
    have "k \<in> W \<and> plain wd root k \<and> entries_agree root ld (wd_files wd) k m" if "m k \<noteq> None" for k
    proof (cases "k = q")
      case False
      with m(3) that hold show ?thesis
        using entries_agree_cong [of m k "fc_entries ?c"] by (simp add: entries_hold_def)
    next
      case True
      have "plain wd root q"
      proof (cases "m q = fc_entries ?c q")
        case True
        with that \<open>k = q\<close> hold show ?thesis by (simp add: entries_hold_def)
      next
        case False
        with m(5) Inr show ?thesis using real_path_readable [OF ok] by blast
      qed
      with True m(4) scope [OF Inr] show ?thesis by simp
    qed
    with m links Inr show ?thesis by (simp add: wc_inv_def entries_hold_def uncached_def)
  qed
  then show "answer_of r = uncached wd root ld (p, key)" "wc_inv wd root ld W c'"
    "wc_lastClockSpec c' = wc_lastClockSpec c" by simp_all
qed

lemma wc_loads_spec:
  assumes ok: "links_ok wd" "IsAbs root"
  shows "wc_inv wd root ld W c \<Longrightarrow> \<forall>(p, key) \<in> set ps. \<forall>r. real_path wd root p = Inr r \<longrightarrow> r \<in> W \<Longrightarrow>
    wc_loads wd root ld ps c = (rs, c') \<Longrightarrow>
    rs = map (uncached wd root ld) ps \<and> wc_inv wd root ld W c' \<and> wc_lastClockSpec c' = wc_lastClockSpec c"
proof (induction ps arbitrary: c rs c')
  case (Cons pk ps)
  obtain p key where pk: "pk = (p, key)" by (rule prod.exhaust)
  obtain r c1 where l: "wc_LoadOrStoreFile (wd_links wd) (wd_files wd) root p key (ld key) c = (r, c1)"
    by (rule prod.exhaust)
  obtain rs' c2 where ls: "wc_loads wd root ld ps c1 = (rs', c2)" by (rule prod.exhaust)
  have p: "real_path wd root p = Inr q \<Longrightarrow> q \<in> W" for q using Cons.prems(2) by (simp add: pk)
  have one: "answer_of r = uncached wd root ld (p, key)" "wc_inv wd root ld W c1"
      "wc_lastClockSpec c1 = wc_lastClockSpec c"
    using p by (auto intro!: wc_load_spec [OF ok Cons.prems(1) _ l])
  have "rs' = map (uncached wd root ld) ps \<and> wc_inv wd root ld W c2 \<and> wc_lastClockSpec c2 = wc_lastClockSpec c1"
    using Cons.IH [OF one(2) _ ls] Cons.prems(2) by simp
  with one l ls Cons.prems(3) show ?case by (simp add: pk)
qed simp

lemma drop_changed_eq:
  "drop_changed ps (m, walks) =
     (delete_all ps m, foldl (\<lambda>w p. map_option (invalidateWalkCache (path_Dir p)) w) walks ps)"
  by (induction ps arbitrary: m walks) simp_all

lemma entries_hold_empty [simp]: "entries_hold wd root ld W Map.empty"
  by (simp add: entries_hold_def)

lemma links_agree_empty [simp]: "links_agree wd root Map.empty"
  by (simp add: links_agree_def)

lemma links_agree_keep:
  "entries_hold wd root ld W m \<Longrightarrow> links_agree wd root links \<Longrightarrow> links_agree wd root (keep_symlinks m links)"
  using plain_real_path by (auto simp: links_agree_def keep_symlinks_def entries_hold_def split: if_splits)

lemma qp_expression_any: "qp_expression (makeQueryParams w ignored c h) = qp_expression (makeQueryParams w' ignored c' h')"
  by (simp add: makeQueryParams_def Let_def)

text \<open>What holds at the clock holds now, without the paths that are reported.\<close>

lemma entries_hold_diff:
  assumes "entries_hold wd root ld W m" and "\<And>p. p \<in> W \<Longrightarrow> \<not> same_path root wd now p \<Longrightarrow> p \<in> set ps"
  shows "entries_hold now root ld W (delete_all ps m)"
proof -
  have "k \<in> W \<and> plain now root k \<and> entries_agree root ld (wd_files now) k (delete_all ps m)"
    if "delete_all ps m k \<noteq> None" for k
  proof -
    from that have k: "k \<notin> set ps" "m k \<noteq> None" by (auto simp: delete_all_apply split: if_splits)
    with assms(1) have h: "k \<in> W" "plain wd root k" "entries_agree root ld (wd_files wd) k m"
      by (simp_all add: entries_hold_def)
    with k assms(2) have "same_path root wd now k" by blast
    with h k show ?thesis
      using entries_agree_cong [of "delete_all ps m" k m]
      by (simp add: same_path_def plain_def entries_agree_def delete_all_apply)
  qed
  then show ?thesis by (simp add: entries_hold_def)
qed

definition clock_world :: "(string \<Rightarrow> world) \<Rightarrow> world \<Rightarrow> string \<Rightarrow> world" where
  "clock_world at before c = (if c = '''' then before else at c)"

text \<open>A cache file holds at its clock; without a clock, in the file system of the run that left it.\<close>

definition file_holds ::
  "(string \<Rightarrow> world) \<Rightarrow> world \<Rightarrow> string \<Rightarrow> (string \<Rightarrow> 'v loader) \<Rightarrow> string set \<Rightarrow> 'v cache_file option \<Rightarrow> bool" where
  "file_holds at before root ld W f \<longleftrightarrow>
     (\<forall>pi c m. f = Some (Some (pi, WatchmanState c m)) \<longrightarrow> entries_hold (clock_world at before c) root ld W m)"

lemma Start_spec:
  assumes start: "fst (Start ask (Inr ()) (NewWatchman root)) = None" and watch: "watches at root ignored ask now"
  obtains w where "Start ask (Inr ()) (NewWatchman root) = (None, w)" and "wm_socket w"
    and "wm_lastClockSpec w \<noteq> ''''" and "at (wm_lastClockSpec w) = now"
proof -
  obtain r1 r2 where r: "ask (WatchProject root) = Inr r1" "cr_Error r1 = ''''"
      "ask (ClockOf (cr_Watch r1)) = Inr r2" "cr_Clock r2 \<noteq> ''''"
    using start by (auto simp: Start_def NewWatchman_def exchange_def Let_def split: sum.splits if_splits)
  then have "at (cr_Clock r2) = now" using watch by (auto simp: watches_def)
  moreover have "Start ask (Inr ()) (NewWatchman root) =
      (None, \<lparr>workspaceDir = root, wm_socket = True, wm_lastClockSpec = cr_Clock r2, subscriberId = 0,
              watchedRoot = cr_Watch r1, watchedRelPath = cr_RelativePath r1\<rparr>)"
    using r by (simp add: Start_def NewWatchman_def exchange_def Let_def)
  ultimately show ?thesis using r(4) that by simp
qed

lemma GetDiff_spec:
  assumes watch: "watches at root ignored ask now" and w: "wm_lastClockSpec w \<noteq> ''''" "wm_socket w"
    and sel: "\<forall>p \<in> W. Clean p = p \<and> wm_matches (wd_type now) p (qp_expression (makeQueryParams w0 ignored '''' False))"
    and diff: "GetDiff ask ignored c w = (Inr cs, w')"
  shows "cs_ClockSpec cs \<noteq> '''' \<Longrightarrow> at (cs_ClockSpec cs) = now"
    and "\<not> cs_IsFreshInstance cs \<Longrightarrow> p \<in> W \<Longrightarrow>
      \<not> same_path root (at (if c = '''' then wm_lastClockSpec w else c)) now p \<Longrightarrow> p \<in> set (cs_Paths cs)"
proof -
  let ?c = "if c = '''' then wm_lastClockSpec w else c"
  let ?q = "makeQueryParams w ignored ?c False"
  obtain r where r: "ask (Query (watchedRoot w) ?q) = Inr r" "cr_Error r = ''''"
      "cs_Paths cs = (case cr_Files r of None \<Rightarrow> [] | Some fs \<Rightarrow> fs)" "cs_ClockSpec cs = cr_Clock r"
      "cs_IsFreshInstance cs = cr_IsFreshInstance r"
    using diff w(2) by (auto simp: GetDiff_def exchange_def Let_def split: sum.splits if_splits)
  then show "cs_ClockSpec cs \<noteq> '''' \<Longrightarrow> at (cs_ClockSpec cs) = now"
    using watch by (auto simp: watches_def)
  have since: "?c \<noteq> ''''" using w(1) by simp
  show "p \<in> set (cs_Paths cs)"
    if "\<not> cs_IsFreshInstance cs" "p \<in> W" "\<not> same_path root (at ?c) now p"
    using watch [unfolded watches_def, THEN conjunct2, rule_format, OF r(1) since r(2), of p] that(1,2,3) r sel
    by (simp add: qp_expression_any [of w ignored ?c False w0 "''''" False])
qed

lemma newWatchmanCache_spec:
  assumes watch: "watches at root ignored ask now" and w: "wm_lastClockSpec w \<noteq> ''''" "wm_socket w" "at (wm_lastClockSpec w) = now"
    and sel: "\<forall>p \<in> W. Clean p = p \<and> wm_matches (wd_type now) p (qp_expression (makeQueryParams w0 ignored '''' False))"
    and f: "file_holds at before root ld W f" "unclocked f \<Longrightarrow> now = before"
    and new: "newWatchmanCache ask ignored b f w path walks = (c, walks')"
  shows "wc_inv now root ld W c" and "wc_lastClockSpec c \<noteq> '''' \<Longrightarrow> at (wc_lastClockSpec c) = now"
proof -
  let ?c = "\<lparr>fc_entries = Map.empty, fc_file = '''', wc_w = w, wc_file = path, wc_symlinks = Map.empty,
         wc_lastClockSpec = '''', wc_walkCache = None\<rparr>"
  have "wc_inv now root ld W c \<and> (wc_lastClockSpec c \<noteq> '''' \<longrightarrow> at (wc_lastClockSpec c) = now)"
  proof (cases "\<exists>pi clock m. f = Some (Some (pi, WatchmanState clock m)) \<and> VerifyCacheVersion b ''watchman'' pi")
    case False
    then have "c = ?c"
      using new by (auto simp: newWatchmanCache_def wc_read_def split: option.splits prod.splits cache_state.splits)
    then show ?thesis by (simp add: wc_inv_def)
  next
    case True
    then obtain pi clock m where fm: "f = Some (Some (pi, WatchmanState clock m))"
        "VerifyCacheVersion b ''watchman'' pi" by blast
    have hold: "entries_hold (clock_world at before clock) root ld W m" using f(1) fm(1) by (simp add: file_holds_def)
    obtain res w' where d: "GetDiff ask ignored clock w = (res, w')" by (rule prod.exhaust)
    show ?thesis
    proof (cases res)
      case (Inl err)
      with new fm d have "c = ?c\<lparr>wc_w := w'\<rparr>" by (simp add: newWatchmanCache_def wc_read_def)
      then show ?thesis by (simp add: wc_inv_def)
    next
      case (Inr cs)
      note diff = GetDiff_spec [OF watch w(1,2) sel d [unfolded Inr]]
      show ?thesis
      proof (cases "cs_IsFreshInstance cs")
        case True
        with new fm d Inr have "c = ?c\<lparr>wc_w := w', wc_lastClockSpec := cs_ClockSpec cs\<rparr>"
          by (simp add: newWatchmanCache_def wc_read_def)
        with diff(1) show ?thesis by (simp add: wc_inv_def)
      next
        case fresh: False
        let ?m = "delete_all (cs_Paths cs) m"
        have c: "fc_entries c = ?m" "wc_symlinks c = keep_symlinks ?m Map.empty"
            "wc_lastClockSpec c = cs_ClockSpec cs"
          using new fm d Inr fresh
          by (auto simp: newWatchmanCache_def wc_read_def drop_changed_eq LoadEntries_def)
        have "clock_world at before clock = at (if clock = '''' then wm_lastClockSpec w else clock)"
          using f(2) fm(1) w(3) by (simp add: clock_world_def)
        then have "entries_hold now root ld W ?m"
          using entries_hold_diff [OF hold] diff(2) [OF fresh] by simp
        with c diff(1) show ?thesis using links_agree_keep [of now root ld W ?m Map.empty]
          by (simp add: wc_inv_def)
      qed
    qed
  qed
  then show "wc_inv now root ld W c" "wc_lastClockSpec c \<noteq> '''' \<Longrightarrow> at (wc_lastClockSpec c) = now" by simp_all
qed

lemma run_session_spec:
  assumes root: "IsAbs root" and ok: "session_ok at root ignored W s"
    and f: "file_holds at before root ld W f" "unclocked f \<Longrightarrow> ws_world s = before"
  obtains f' where "run_session root ignored ld s f = Some (map (uncached (ws_world s) root ld) (ws_loads s), f')"
    and "file_holds at (ws_world s) root ld W f'"
proof -
  note s = ok [unfolded session_ok_def]
  obtain w where w: "Start (ws_daemon s) (Inr ()) (NewWatchman root) = (None, w)" "wm_socket w"
      "wm_lastClockSpec w \<noteq> ''''" "at (wm_lastClockSpec w) = ws_world s"
    using Start_spec s by blast
  obtain c walks where new: "newWatchmanCache (ws_daemon s) ignored (ws_build s) f w ''''
      (None :: unit walk_cache option) = (c, walks)" by (rule prod.exhaust)
  have c: "wc_inv (ws_world s) root ld W c" "wc_lastClockSpec c \<noteq> '''' \<Longrightarrow> at (wc_lastClockSpec c) = ws_world s"
    using newWatchmanCache_spec [OF _ w(3,2,4) _ f new] s by blast+
  obtain rs c' where run: "wc_loads (ws_world s) root ld (ws_loads s) c = (rs, c')" by (rule prod.exhaust)
  have loaded: "rs = map (uncached (ws_world s) root ld) (ws_loads s)" "wc_inv (ws_world s) root ld W c'"
      "wc_lastClockSpec c' = wc_lastClockSpec c"
    using wc_loads_spec [OF _ root c(1) _ run] s by simp_all
  have "clock_world at (ws_world s) (wc_lastClockSpec c') = ws_world s"
    using c(2) loaded(3) by (simp add: clock_world_def)
  with loaded(2) have "file_holds at (ws_world s) root ld W (wc_write (ws_build s) c')"
    by (simp add: file_holds_def wc_write_def WriteCacheFile_def wc_inv_def SnapshotEntries_def)
  moreover have "run_session root ignored ld s f = Some (rs, wc_write (ws_build s) c')"
    by (simp add: run_session_def NewWatchmanCache_def w(1) new run)
  ultimately show ?thesis using loaded(1) by (intro that) simp_all
qed

text \<open>
  A run without a usable cache file leaves one without a clock.
\<close>

lemma cold_run_unclocked:
  assumes "run_session root ignored ld s None = Some (rs, f)" "IsAbs root" "session_ok at root ignored W s"
  shows "unclocked f"
proof -
  note s = assms(3) [unfolded session_ok_def]
  have "fst (Start (ws_daemon s) (Inr ()) (NewWatchman root)) = None" using s by simp
  then obtain w where w: "Start (ws_daemon s) (Inr ()) (NewWatchman root) = (None, w)"
    by (metis prod.collapse)
  let ?c = "\<lparr>fc_entries = Map.empty, fc_file = '''', wc_w = w, wc_file = '''', wc_symlinks = Map.empty,
         wc_lastClockSpec = '''', wc_walkCache = None :: unit walk_cache option\<rparr>"
  obtain rs' c' where run: "wc_loads (ws_world s) root ld (ws_loads s) ?c = (rs', c')" by (rule prod.exhaust)
  have "wc_lastClockSpec c' = ''''"
    using wc_loads_spec [OF _ assms(2), of "ws_world s" ld W ?c "ws_loads s" rs' c'] run s
    by (simp add: wc_inv_def)
  with assms(1) run w show ?thesis
    by (auto simp: run_session_def NewWatchmanCache_def newWatchmanCache_def wc_read_def wc_write_def WriteCacheFile_def)
qed

lemma run_sessions_spec:
  assumes root: "IsAbs root"
  shows "\<forall>s \<in> set ss. session_ok at root ignored W s \<Longrightarrow> file_holds at before root ld W f \<Longrightarrow>
    steady root ignored ld before ss f \<Longrightarrow>
    run_sessions root ignored ld ss f = Some (map (\<lambda>s. map (uncached (ws_world s) root ld) (ws_loads s)) ss)"
proof (induction ss arbitrary: before f)
  case (Cons s ss)
  have ok: "session_ok at root ignored W s" and same: "unclocked f \<Longrightarrow> ws_world s = before"
    using Cons.prems by simp_all
  obtain f' where f': "run_session root ignored ld s f = Some (map (uncached (ws_world s) root ld) (ws_loads s), f')"
      "file_holds at (ws_world s) root ld W f'"
    using run_session_spec [OF root ok Cons.prems(2) same] .
  with Cons show ?case by simp
qed simp

subsection \<open>A sample daemon\<close>

definition sample_answer :: control_response where
  "sample_answer =
     \<lparr>cr_Error = '''', cr_Watch = ''/r'', cr_RelativePath = '''', cr_Clock = '''', cr_Files = None,
      cr_IsFreshInstance = False, cr_WatchDel = None, cr_StateEnter = None, cr_StateLeave = None\<rparr>"

text \<open>It answers at \<open>clock\<close>, and reports \<open>changed\<close> since any other clock.\<close>

definition sample_daemon :: "string \<Rightarrow> string list \<Rightarrow> wm_daemon" where
  "sample_daemon clock changed rq =
     (case rq of
        WatchProject _ \<Rightarrow> Inr sample_answer
      | ClockOf _ \<Rightarrow> Inr (sample_answer\<lparr>cr_Clock := clock\<rparr>)
      | Query _ q \<Rightarrow>
          Inr (sample_answer\<lparr>cr_Clock := clock, cr_Files := Some (if qp_since q = Some clock then [] else changed)\<rparr>)
      | _ \<Rightarrow> Inl (SendFails ''no''))"

definition sample_world :: "string \<Rightarrow> world" where
  "sample_world content =
     \<lparr>wd_files = (\<lambda>_. Inr content), wd_links = \<lparr>lf_Lstat = (\<lambda>_. Inr False), lf_EvalSymlinks = (\<lambda>_. None)\<rparr>,
      wd_type = (\<lambda>p. if p = ''a'' then ''f'' else ''d'')\<rparr>"

definition sample_run :: "string \<Rightarrow> string \<Rightarrow> wm_session" where
  "sample_run clock content =
     \<lparr>ws_world = sample_world content, ws_daemon = sample_daemon clock [''a''],
      ws_build = \<lparr>bi_GitCommit = '''', bi_IsStamped = False\<rparr>, ws_loads = [(''a'', ''k'')]\<rparr>"

lemma sample_watches:
  assumes "at clock = sample_world content" "clock \<noteq> ''''"
  shows "watches at ''/r'' (Inr None) (sample_daemon clock [''a'']) (sample_world content)"
proof -
  have "at (cr_Clock r) = sample_world content"
    if "sample_daemon clock [''a''] rq = Inr r" "cr_Clock r \<noteq> ''''" for rq r
    using that assms(1) by (cases rq) (auto simp: sample_daemon_def sample_answer_def)
  moreover have "p \<in> set (case cr_Files r of None \<Rightarrow> [] | Some fs \<Rightarrow> fs)"
    if "sample_daemon clock [''a''] (Query watched (makeQueryParams w (Inr None) c False)) = Inr r" "c \<noteq> ''''"
      "wm_matches (wd_type (sample_world content)) p (qp_expression (makeQueryParams w (Inr None) c False))"
      "\<not> same_path ''/r'' (at c) (sample_world content) p" for watched w c r p
    using that assms
    by (cases "c = clock"; cases "p = ''a''")
      (auto simp: sample_daemon_def same_path_def makeQueryParams_def sample_world_def Let_def)
  ultimately show ?thesis
    unfolding watches_def by blast
qed

text \<open>
  The first run has no cache file and leaves one without a clock. When a file changes before the
  second run, that run asks for the changes since its own start, gets none, and answers with what
  the first run has computed.
\<close>

lemma cold_start_stale:
  "run_sessions ''/r'' (Inr None) (\<lambda>k p s. (Some s, None)) [sample_run ''c1'' ''1'', sample_run ''c2'' ''2''] None =
     Some [[(Some ''1'', None)], [(Some ''1'', None)]] \<and>
   uncached (sample_world ''2'') ''/r'' (\<lambda>k p s. (Some s, None)) (''a'', ''k'') = (Some ''2'', None)"
  by code_simp

text \<open>
  C17 (refinement). The cache of the watcher is invisible over any series of runs: every load, of a
  file or through a symbolic link, gives the value and the error of loading the real path, provided
  that the watcher reports what changed since a clock, the loaded files are in the scope of its
  queries, and nothing changes between a run that leaves a cache file without a clock and the next
  one. The last condition is needed: a first run leaves such a file (\<open>cold_run_unclocked\<close>,
  \<open>cold_start_stale\<close>).
\<close>

theorem watchman_cache_invisible:
  assumes "IsAbs root" "\<forall>s \<in> set ss. session_ok at root ignored W s"
    and "file_holds at before root ld W f" "steady root ignored ld before ss f"
  shows "run_sessions root ignored ld ss f =
    Some (map (\<lambda>s. map (uncached (ws_world s) root ld) (ws_loads s)) ss)"
  using run_sessions_spec assms by blast

theorem watchman_cache_invisible_witness:
  "run_sessions ''/r'' (Inr None) (\<lambda>k p s. (Some s, None)) [sample_run ''c2'' ''2'']
     (Some (Some (\<lparr>ci_Type = ''watchman'', ci_Version = ''''\<rparr>,
        WatchmanState ''c1'' [''a'' \<mapsto> [''k'' \<mapsto> Some ''1'']]))) =
   Some [[(Some ''2'', None)]]"
proof -
  let ?at = "\<lambda>c. if c = ''c1'' then sample_world ''1'' else sample_world ''2''"
  let ?ld = "\<lambda>k p s. (Some s, None)"
  let ?f = "Some (Some (\<lparr>ci_Type = ''watchman'', ci_Version = ''''\<rparr>,
        WatchmanState ''c1'' [''a'' \<mapsto> [''k'' \<mapsto> Some ''1''] :: string \<rightharpoonup> string option]))"
  have clean: "Clean ''a'' = ''a''" by code_simp
  have start: "fst (Start (sample_daemon ''c2'' [''a'']) (Inr ()) (NewWatchman ''/r'')) = None" by code_simp
  have "watches ?at ''/r'' (Inr None) (sample_daemon ''c2'' [''a'']) (sample_world ''2'')"
    by (rule sample_watches) simp_all
  with clean start have "session_ok ?at ''/r'' (Inr None) {''a''} (sample_run ''c2'' ''2'')"
    by (simp add: session_ok_def sample_run_def sample_world_def links_ok_def makeQueryParams_def real_path_def
        follow_link_def Let_def)
  moreover have "file_holds ?at (sample_world ''1'') ''/r'' ?ld {''a''} ?f"
    by (simp add: file_holds_def clock_world_def entries_hold_def plain_def entries_agree_def cached_def
        sample_world_def)
  moreover have "steady ''/r'' (Inr None) ?ld (sample_world ''1'') [sample_run ''c2'' ''2''] ?f"
    by (simp split: option.splits prod.splits)
  moreover have "uncached (sample_world ''2'') ''/r'' ?ld (''a'', ''k'') = (Some ''2'', None)" by code_simp
  ultimately show ?thesis
    using watchman_cache_invisible [of "''/r''" "[sample_run ''c2'' ''2'']" ?at "Inr None" "{''a''}"
        "sample_world ''1''" ?ld ?f]
    by (simp add: IsAbs_def sample_run_def)
qed

end
