(* ===== verification/Star_Values.thy ===== *)
theory Star_Values
  imports Prelude "HOL-Library.Word"
begin

text \<open>
  Values between Starlark and Go (\<open>language/orion/starlark/utils/util.go\<close>). Values of the host, as
  labels and imports are, are Starlark values and Go values alike; their type is a parameter, and
  so is the type of floating-point numbers. A Starlark dictionary is a list of its entries in
  order, with distinct keys. A Go map is an association list; the order in which the runtime
  iterates over it is a parameter of writing.
\<close>

section \<open>Values\<close>

text \<open>
  \<open>SIterable\<close> are the other values with elements: tuples, sets, ranges, sequences of the host.
\<close>

datatype ('f, 'x) star =
    SNone
  | SBool bool
  | SString string
  | SInt int
  | SFloat 'f
  | SBytes string
  | SList "('f, 'x) star list"
  | SDict "(('f, 'x) star \<times> ('f, 'x) star) list"
  | SIterable string "('f, 'x) star list"
  | SHost 'x

text \<open>\<open>GInt\<close> is an \<open>int\<close>, \<open>GInt64\<close> an \<open>int64\<close>; both have 64 bits. \<open>GOther\<close> is a value of another type.\<close>

datatype ('f, 'x) gval =
    GNil
  | GBool bool
  | GString string
  | GInt "64 word"
  | GInt64 "64 word"
  | GFloat 'f
  | GBytes string
  | GStrings "string list"
  | GList "('f, 'x) gval list"
  | GMap "(string, ('f, 'x) gval) gomap"
  | GHost 'x
  | GOther string

section \<open>Writing\<close>

text \<open>
  \<open>ord\<close> is the order in which the runtime happens to iterate over a map, as a rearrangement of the
  entries written: \<open>WriteMap\<close> ranges over a Go map, so the dictionary it makes has them in any order.
  A value that cannot be written ends the process with the same message whatever the order is.
\<close>

type_synonym ('f, 'x) entries = "(('f, 'x) star \<times> ('f, 'x) star) list"

type_synonym ('f, 'x) map_order = "('f, 'x) entries \<Rightarrow> ('f, 'x) entries"

definition rearranges :: "('f, 'x) map_order \<Rightarrow> bool" where
  "rearranges ord = (\<forall>d. mset (ord d) = mset d)"

fun Write :: "('f, 'x) map_order \<Rightarrow> ('f, 'x) gval \<Rightarrow> ('f, 'x) star outcome"
  and WriteList :: "('f, 'x) map_order \<Rightarrow> ('f, 'x) gval list \<Rightarrow> ('f, 'x) star list outcome"
  and WriteMap :: "('f, 'x) map_order \<Rightarrow> (string, ('f, 'x) gval) gomap \<Rightarrow> ('f, 'x) entries outcome" where
  "Write ord (GHost x) = Inr (SHost x)"
| "Write ord GNil = Inr SNone"
| "Write ord (GBool b) = Inr (SBool b)"
| "Write ord (GString s) = Inr (SString s)"
| "Write ord (GInt w) = Inr (SInt (sint w))"
| "Write ord (GInt64 w) = Inr (SInt (sint w))"
| "Write ord (GFloat f) = Inr (SFloat f)"
| "Write ord (GBytes s) = Inr (SBytes s)"
| "Write ord (GStrings ss) = Inr (SList (map SString ss))"
| "Write ord (GList vs) = (case WriteList ord vs of Inl e \<Rightarrow> Inl e | Inr l \<Rightarrow> Inr (SList l))"
| "Write ord (GMap m) = (case WriteMap ord m of Inl e \<Rightarrow> Inl e | Inr d \<Rightarrow> Inr (SDict (ord d)))"
| "Write ord (GOther t) = Inl (Fatal ''Failed to write value'')"
| "WriteList ord [] = Inr []"
| "WriteList ord (v # vs) =
     (case Write ord v of
        Inl e \<Rightarrow> Inl e
      | Inr s \<Rightarrow> (case WriteList ord vs of Inl e \<Rightarrow> Inl e | Inr l \<Rightarrow> Inr (s # l)))"
| "WriteMap ord [] = Inr []"
| "WriteMap ord ((k, v) # m) =
     (case Write ord v of
        Inl e \<Rightarrow> Inl e
      | Inr s \<Rightarrow> (case WriteMap ord m of Inl e \<Rightarrow> Inl e | Inr d \<Rightarrow> Inr ((SString k, s) # d)))"

section \<open>Reading\<close>

datatype read_error =
    ExpectedBool
  | ExpectedString
  | ExpectedList
  | ExpectedDict
  | IntTooBig int
  | NotReadable

definition ReadBool :: "('f, 'x) star \<Rightarrow> read_error + bool" where
  "ReadBool v = (case v of SBool b \<Rightarrow> Inr b | _ \<Rightarrow> Inl ExpectedBool)"

definition ReadString :: "('f, 'x) star \<Rightarrow> read_error + string" where
  "ReadString v = (case v of SString s \<Rightarrow> Inr s | _ \<Rightarrow> Inl ExpectedString)"

text \<open>Reading each element, up to the first error.\<close>

fun read_all :: "('a \<Rightarrow> read_error + 'b) \<Rightarrow> 'a list \<Rightarrow> read_error + 'b list" where
  "read_all f [] = Inr []"
| "read_all f (v # vs) =
     (case f v of
        Inl e \<Rightarrow> Inl e
      | Inr x \<Rightarrow> (case read_all f vs of Inl e \<Rightarrow> Inl e | Inr xs \<Rightarrow> Inr (x # xs)))"

definition ReadList :: "('f, 'x) star \<Rightarrow> (('f, 'x) star \<Rightarrow> read_error + 'b) \<Rightarrow> read_error + 'b list" where
  "ReadList v f = (case v of SList l \<Rightarrow> read_all f l | _ \<Rightarrow> Inl ExpectedList)"

definition ReadStringList :: "('f, 'x) star \<Rightarrow> read_error + string list" where
  "ReadStringList l = ReadList l ReadString"

text \<open>The entries of a dictionary put into a map in their order.\<close>

fun read_entries ::
  "(string \<Rightarrow> ('f, 'x) star \<Rightarrow> read_error + 'b) \<Rightarrow> (('f, 'x) star \<times> ('f, 'x) star) list \<Rightarrow>
   (string, 'b) gomap \<Rightarrow> read_error + (string, 'b) gomap" where
  "read_entries f [] m = Inr m"
| "read_entries f ((kv, v) # d) m =
     (case ReadString kv of
        Inl e \<Rightarrow> Inl e
      | Inr k \<Rightarrow> (case f k v of Inl e \<Rightarrow> Inl e | Inr mv \<Rightarrow> read_entries f d (al_put m k mv)))"

definition ReadMap ::
  "('f, 'x) star \<Rightarrow> (string \<Rightarrow> ('f, 'x) star \<Rightarrow> read_error + 'b) \<Rightarrow> read_error + (string, 'b) gomap" where
  "ReadMap v f = (case v of SDict d \<Rightarrow> read_entries f d [] | _ \<Rightarrow> Inl ExpectedDict)"

definition ReadMapEntry ::
  "('f, 'x) star \<Rightarrow> string \<Rightarrow> (('f, 'x) star \<Rightarrow> read_error + 'b) \<Rightarrow> 'b \<Rightarrow> 'b \<times> read_error option" where
  "ReadMapEntry v key f dflt =
     (case v of
        SDict d \<Rightarrow>
          (case map_of d (SString key) of
             None \<Rightarrow> (dflt, None)
           | Some val \<Rightarrow> (case f val of Inl e \<Rightarrow> (dflt, Some e) | Inr x \<Rightarrow> (x, None)))
      | _ \<Rightarrow> (dflt, Some ExpectedDict))"

definition int64_max :: int where
  "int64_max = 2 ^ 63"

text \<open>\<open>ReadRecurse\<close> with a reader that passes some values of the host through.\<close>

fun ReadRecurse :: "('x \<Rightarrow> bool) \<Rightarrow> ('f, 'x) star \<Rightarrow> read_error + ('f, 'x) gval"
  and read_values :: "('x \<Rightarrow> bool) \<Rightarrow> ('f, 'x) star list \<Rightarrow> read_error + ('f, 'x) gval list"
  and ReadMap2 ::
    "('x \<Rightarrow> bool) \<Rightarrow> (('f, 'x) star \<times> ('f, 'x) star) list \<Rightarrow> (string, ('f, 'x) gval) gomap \<Rightarrow>
     read_error + (string, ('f, 'x) gval) gomap" where
  "ReadRecurse pass SNone = Inr GNil"
| "ReadRecurse pass (SBool b) = Inr (GBool b)"
| "ReadRecurse pass (SString s) = Inr (GString s)"
| "ReadRecurse pass (SInt i) =
     (if - int64_max \<le> i \<and> i < int64_max then Inr (GInt64 (word_of_int i)) else Inl (IntTooBig i))"
| "ReadRecurse pass (SFloat f) = Inr (GFloat f)"
| "ReadRecurse pass (SBytes s) = Inr (GBytes s)"
| "ReadRecurse pass (SList l) = (case read_values pass l of Inl e \<Rightarrow> Inl e | Inr vs \<Rightarrow> Inr (GList vs))"
| "ReadRecurse pass (SDict d) = (case ReadMap2 pass d [] of Inl e \<Rightarrow> Inl e | Inr m \<Rightarrow> Inr (GMap m))"
| "ReadRecurse pass (SIterable t l) = (case read_values pass l of Inl e \<Rightarrow> Inl e | Inr vs \<Rightarrow> Inr (GList vs))"
| "ReadRecurse pass (SHost x) = (if pass x then Inr (GHost x) else Inl NotReadable)"
| "read_values pass [] = Inr []"
| "read_values pass (v # vs) =
     (case ReadRecurse pass v of
        Inl e \<Rightarrow> Inl e
      | Inr x \<Rightarrow> (case read_values pass vs of Inl e \<Rightarrow> Inl e | Inr xs \<Rightarrow> Inr (x # xs)))"
| "ReadMap2 pass [] m = Inr m"
| "ReadMap2 pass ((kv, v) # d) m =
     (case ReadString kv of
        Inl e \<Rightarrow> Inl e
      | Inr k \<Rightarrow> (case ReadRecurse pass v of Inl e \<Rightarrow> Inl e | Inr mv \<Rightarrow> ReadMap2 pass d (al_put m k mv)))"

text \<open>\<open>Read\<close> passes none through.\<close>

definition Read :: "('f, 'x) star \<Rightarrow> read_error + ('f, 'x) gval" where
  "Read v = ReadRecurse (\<lambda>_. False) v"

section \<open>Round trips\<close>

text \<open>
  Equality of Starlark values, which ignores the order of the entries of dictionaries; and the
  value Starlark code sees after one has been kept as a Go value: tuples, sets and the other
  values with elements come back as lists.
\<close>

fun star_eq :: "('f, 'x) star \<Rightarrow> ('f, 'x) star \<Rightarrow> bool" where
  "star_eq (SList l) r = (case r of SList l' \<Rightarrow> list_all2 star_eq l l' | _ \<Rightarrow> False)"
| "star_eq (SDict d) r =
     (case r of
        SDict d' \<Rightarrow> length d = length d' \<and>
          (\<forall>(k, v) \<in> set d. case map_of d' k of None \<Rightarrow> False | Some v' \<Rightarrow> star_eq v v')
      | _ \<Rightarrow> False)"
| "star_eq l r = (l = r)"

fun kept :: "('f, 'x) star \<Rightarrow> ('f, 'x) star" where
  "kept (SList l) = SList (map kept l)"
| "kept (SDict d) = SDict (map (\<lambda>(k, v). (k, kept v)) d)"
| "kept (SIterable t l) = SList (map kept l)"
| "kept v = v"

text \<open>The keys of every dictionary are distinct, as Starlark has them.\<close>

fun dicts_ok :: "('f, 'x) star \<Rightarrow> bool" where
  "dicts_ok (SList l) = (\<forall>v \<in> set l. dicts_ok v)"
| "dicts_ok (SDict d) = (distinct (map fst d) \<and> (\<forall>(k, v) \<in> set d. dicts_ok v))"
| "dicts_ok (SIterable t l) = (\<forall>v \<in> set l. dicts_ok v)"
| "dicts_ok v = True"

lemma sint_word_of_int_64:
  assumes "- int64_max \<le> i" "i < int64_max"
  shows "sint (word_of_int i :: 64 word) = i"
proof -
  have "signed_take_bit 63 i = i"
    using assms by (intro signed_take_bit_int_eq_self) (simp_all add: int64_max_def)
  then show ?thesis by (simp add: sint_sbintrunc')
qed

text \<open>The entries of a map written, and the entries of the dictionary it was read from.\<close>

definition same_entries :: "('f, 'x) entries \<Rightarrow> ('f, 'x) entries \<Rightarrow> bool" where
  "same_entries w d = list_all2 (\<lambda>(k, s) (k', v). k = k' \<and> star_eq s (kept v)) w d"

lemma same_entries_keys: "same_entries w d \<Longrightarrow> map fst w = map fst d"
  unfolding same_entries_def by (induction rule: list_all2_induct) auto

lemma same_entries_find:
  "same_entries w d \<Longrightarrow> distinct (map fst d) \<Longrightarrow> (k, s) \<in> set w \<Longrightarrow>
   \<exists>v. map_of d k = Some v \<and> star_eq s (kept v)"
  unfolding same_entries_def
proof (induction rule: list_all2_induct)
  case (Cons x xs y ys)
  show ?case
  proof (cases "(k, s) = x")
    case True
    with Cons.hyps show ?thesis by (cases y) auto
  next
    case False
    with Cons.prems obtain v where v: "map_of ys k = Some v" "star_eq s (kept v)"
      using Cons.IH by auto
    then have "k \<noteq> fst y" using Cons.prems(1) by (auto dest!: map_of_SomeD intro: rev_image_eqI)
    with v show ?thesis by simp
  qed
qed simp

lemma map_of_kept: "map_of (map (\<lambda>(k, v). (k, kept v)) d) k = map_option kept (map_of d k)"
  by (induction d) auto

lemma same_entries_dict:
  assumes "same_entries w d" "distinct (map fst d)" "rearranges ord"
  shows "star_eq (SDict (ord w)) (kept (SDict d))"
proof -
  have m: "mset (ord w) = mset w" using assms(3) by (simp add: rearranges_def)
  then have "set (ord w) = set w" "length (ord w) = length w"
    by (metis set_mset_mset, metis size_mset)
  moreover have "length w = length d" using assms(1) by (auto simp: same_entries_def dest: list_all2_lengthD)
  moreover have "\<exists>v. map_of d k = Some v \<and> star_eq s (kept v)" if "(k, s) \<in> set w" for k s
    by (rule same_entries_find [OF assms(1,2) that])
  ultimately show ?thesis by (fastforce simp: map_of_kept split: option.splits)
qed

lemma read_write_all:
  fixes v :: "('f, 'x) star" and l :: "('f, 'x) star list" and d :: "('f, 'x) entries"
    and m :: "(string, ('f, 'x) gval) gomap" and pass :: "'x \<Rightarrow> bool"
  assumes "rearranges ord"
  shows "ReadRecurse pass v = Inr g \<Longrightarrow> dicts_ok v \<Longrightarrow> \<exists>s. Write ord g = Inr s \<and> star_eq s (kept v)"
  and "read_values pass l = Inr gs \<Longrightarrow> \<forall>v \<in> set l. dicts_ok v \<Longrightarrow>
   \<exists>ss. WriteList ord gs = Inr ss \<and> list_all2 star_eq ss (map kept l)"
  and "ReadMap2 pass d m = Inr m' \<Longrightarrow> dicts_ok (SDict d) \<Longrightarrow>
   \<forall>kv \<in> set d. \<forall>s. fst kv = SString s \<longrightarrow> s \<notin> fst ` set m \<Longrightarrow>
   \<exists>gs w. m' = m @ gs \<and> WriteMap ord gs = Inr w \<and> same_entries w d"
proof (induction pass v and pass l and pass d m arbitrary: g and gs and m' rule: ReadRecurse_read_values_ReadMap2.induct)
  case (4 pass i)
  then show ?case by (auto simp: sint_word_of_int_64 split: if_splits)
next
  case (7 pass l)
  then show ?case by (fastforce split: sum.splits)
next
  case (8 pass d)
  then obtain gs where gs: "ReadMap2 pass d [] = Inr gs" "g = GMap gs" by (auto split: sum.splits)
  with "8.IH" [OF gs(1) "8.prems"(2)] obtain w where "WriteMap ord gs = Inr w" "same_entries w d" by auto
  with same_entries_dict [OF this(2) _ assms] "8.prems"(2) gs show ?case by (auto simp del: star_eq.simps kept.simps)
next
  case (9 pass t l)
  then show ?case by (fastforce split: sum.splits)
next
  case (12 pass v vs)
  then obtain x xs where x: "ReadRecurse pass v = Inr x" "read_values pass vs = Inr xs" "gs = x # xs"
    by (auto split: sum.splits)
  from "12.IH"(1) [OF x(1)] "12.IH"(2) [OF x(1,2)] "12.prems"(2) x(3) show ?case by auto
next
  case (13 pass m)
  then show ?case by (auto simp: same_entries_def)
next
  case (14 pass kv v d m)
  from "14.prems"(1) obtain k where k: "kv = SString k"
    by (cases kv) (auto simp: ReadString_def)
  with "14.prems"(1) obtain x where x: "ReadRecurse pass v = Inr x" "ReadMap2 pass d (al_put m k x) = Inr m'"
    by (auto simp: ReadString_def split: sum.splits)
  have new: "k \<notin> fst ` set m" using "14.prems"(3) k by auto
  from "14.IH"(1) [of k, OF _ x(1)] "14.prems"(2) k obtain s where s: "Write ord x = Inr s" "star_eq s (kept v)"
    by (auto simp: ReadString_def)
  have "\<exists>gs w. m' = al_put m k x @ gs \<and> WriteMap ord gs = Inr w \<and> same_entries w d"
    using "14.prems" k x by (intro "14.IH"(2) [of k x]) (auto simp: ReadString_def fst_set_al_put intro: rev_image_eqI)
  then obtain gs w where "m' = al_put m k x @ gs" "WriteMap ord gs = Inr w" "same_entries w d" by blast
  with k s new show ?case by (intro exI [of _ "(k, x) # gs"]) (simp add: same_entries_def al_put_new)
qed (auto split: if_splits)

text \<open>A value that was read is written back equal to what was kept.\<close>

lemma read_write:
  "rearranges ord \<Longrightarrow> dicts_ok v \<Longrightarrow> Read v = Inr g \<Longrightarrow> \<exists>s. Write ord g = Inr s \<and> star_eq s (kept v)"
  unfolding Read_def using read_write_all(1) by blast

end
