(* ===== verification/Orion_Plugin.thy ===== *)
theory Orion_Plugin
  imports Star_Values Glob Errors
begin

text \<open>
  What plugins of the orion extension and their host exchange (\<open>language/orion/plugin\<close>) and how
  Starlark code makes it (\<open>language/orion/starzelle/sdk.go\<close>, after the third-party unpacking of
  arguments): properties, plugin data, source filters, queries, symbols, imports, targets. A
  plugin's own code is a parameter.
\<close>

section \<open>Symbols, imports and targets\<close>

record symbol =
  sy_Id :: string
  sy_Provider :: string

record target_import = symbol +
  ti_Multiple :: bool
  ti_Optional :: bool
  ti_Ancestor :: bool
  ti_From :: string

record plugin_label =
  pl_Repo :: string
  pl_Pkg :: string
  pl_Name :: string

text \<open>Values of the host that an attribute can have, and the others.\<close>

datatype host_value =
    HLabel plugin_label
  | HImport target_import
  | HSource string
  | HObject string

type_synonym 'f oval = "('f, host_value) gval"

type_synonym 'f ostar = "('f, host_value) star"

type_synonym 'f omap_order = "('f, host_value) map_order"

definition is_target_value :: "host_value \<Rightarrow> bool" where
  "is_target_value x = (case x of HObject _ \<Rightarrow> False | _ \<Rightarrow> True)"

definition readTargetAttributeValue :: "'f ostar \<Rightarrow> read_error + 'f oval" where
  "readTargetAttributeValue v = ReadRecurse is_target_value v"

record 'f target_declaration =
  td_Name :: string
  td_Kind :: string
  td_Attrs :: "(string, 'f oval) gomap"
  td_Symbols :: "symbol list"

datatype 'f target_action =
    AddTargetAction "'f target_declaration"
  | RemoveTargetAction string string

text \<open>The actions a plugin collects, and \<open>add\<close> and \<open>remove\<close> as its code calls them.\<close>

definition actions_Add :: "'f target_declaration \<Rightarrow> 'f target_action list \<Rightarrow> 'f target_action list" where
  "actions_Add t actions = actions @ [AddTargetAction t]"

definition actions_Remove :: "string \<Rightarrow> string \<Rightarrow> 'f target_action list \<Rightarrow> 'f target_action list" where
  "actions_Remove name kind actions = actions @ [RemoveTargetAction name kind]"

definition addTarget ::
  "string \<Rightarrow> string \<Rightarrow> 'f ostar option \<Rightarrow> symbol list \<Rightarrow> 'f target_action list \<Rightarrow>
   read_error + 'f target_action list" where
  "addTarget name kind starAttrs symbols actions =
     (case (case starAttrs of
              None \<Rightarrow> Inr []
            | Some (SDict d) \<Rightarrow> ReadMap2 is_target_value d []
            | Some _ \<Rightarrow> Inl ExpectedDict) of
        Inl e \<Rightarrow> Inl e
      | Inr attrs \<Rightarrow>
          Inr (actions_Add \<lparr>td_Name = name, td_Kind = kind, td_Attrs = attrs, td_Symbols = symbols\<rparr> actions))"

datatype import_error = EmptyImport | AncestorAndMultiple

definition newImport ::
  "string \<Rightarrow> string \<Rightarrow> string \<Rightarrow> bool \<Rightarrow> bool \<Rightarrow> bool \<Rightarrow> import_error + target_import" where
  "newImport iid provider from optional ancestor multiple =
     (if iid = '''' \<or> provider = '''' then Inl EmptyImport
      else if ancestor \<and> multiple then Inl AncestorAndMultiple
      else Inr \<lparr>sy_Id = iid, sy_Provider = provider, ti_Multiple = multiple, ti_Optional = optional,
                ti_Ancestor = ancestor, ti_From = from\<rparr>)"

section \<open>The symbol database\<close>

record target_symbol = symbol +
  ts_Label :: plugin_label

text \<open>A nil map has no symbols.\<close>

type_synonym database = "(string, target_symbol list) gomap"

definition AddSymbol :: "plugin_label \<Rightarrow> symbol \<Rightarrow> database \<Rightarrow> database" where
  "AddSymbol lbl s db =
     al_append db (sy_Id s) \<lparr>sy_Id = sy_Id s, sy_Provider = sy_Provider s, ts_Label = lbl\<rparr>"

definition LookupSymbols :: "database \<Rightarrow> string \<Rightarrow> target_symbol list" where
  "LookupSymbols db i = (case map_of db i of None \<Rightarrow> [] | Some ss \<Rightarrow> ss)"

definition add_symbols :: "(plugin_label \<times> symbol) list \<Rightarrow> database \<Rightarrow> database" where
  "add_symbols ss db = foldl (\<lambda>db (l, s). AddSymbol l s db) db ss"

lemma LookupSymbols_add:
  "LookupSymbols (AddSymbol l s db) i =
     LookupSymbols db i @
       (if i = sy_Id s then [\<lparr>sy_Id = sy_Id s, sy_Provider = sy_Provider s, ts_Label = l\<rparr>] else [])"
  by (simp add: LookupSymbols_def AddSymbol_def al_append_def split: option.splits)

text \<open>What is found for an id are the symbols added with it, in order.\<close>

lemma LookupSymbols_add_symbols:
  "LookupSymbols (add_symbols ss db) i =
     LookupSymbols db i @
       map (\<lambda>(l, s). \<lparr>sy_Id = sy_Id s, sy_Provider = sy_Provider s, ts_Label = l\<rparr>) (filter (\<lambda>(l, s). sy_Id s = i) ss)"
proof (induction ss arbitrary: db)
  case (Cons x ss)
  then show ?case by (cases x) (simp add: add_symbols_def LookupSymbols_add)
qed (simp add: add_symbols_def)

section \<open>Properties\<close>

record 'f property =
  pr_Name :: string
  pr_Type :: string
  pr_Default :: "'f oval"

definition newProperty :: "string \<Rightarrow> 'f ostar \<Rightarrow> read_error + 'f property" where
  "newProperty propType propDefault =
     (case Read propDefault of
        Inl e \<Rightarrow> Inl e
      | Inr v \<Rightarrow> Inr \<lparr>pr_Name = '''', pr_Type = propType, pr_Default = v\<rparr>)"

text \<open>A property takes the key it is declared under; another name is only logged.\<close>

definition readProperty :: "string \<Rightarrow> 'f property option \<Rightarrow> string + 'f property" where
  "readProperty k v = (case v of None \<Rightarrow> Inl k | Some p \<Rightarrow> Inr (p\<lparr>pr_Name := k\<rparr>))"

record 'f property_values =
  pv_defs :: "string \<rightharpoonup> 'f property"
  pv_values :: "string \<rightharpoonup> 'f oval"
  pv_localKeys :: "string set"

definition NewPropertyValues :: "(string, 'f property) gomap \<Rightarrow> 'f property_values" where
  "NewPropertyValues defs = \<lparr>pv_defs = map_of defs, pv_values = Map.empty, pv_localKeys = {}\<rparr>"

definition pv_Add :: "string \<Rightarrow> 'f oval \<Rightarrow> bool \<Rightarrow> 'f property_values \<Rightarrow> 'f property_values" where
  "pv_Add name v local pv =
     (let pv' = pv\<lparr>pv_values := (pv_values pv)(name \<mapsto> v)\<rparr>
      in if local then pv'\<lparr>pv_localKeys := insert name (pv_localKeys pv')\<rparr> else pv')"

definition pv_IsLocal :: "'f property_values \<Rightarrow> string \<Rightarrow> bool" where
  "pv_IsLocal pv name = (name \<in> pv_localKeys pv)"

text \<open>Reading a property from Starlark; writing the value can end the process.\<close>

datatype key_error = KeyNotString | NoProperty string | ReadOnly | KeyRead read_error

definition pv_Get :: "'f omap_order \<Rightarrow> 'f property_values \<Rightarrow> 'f ostar \<Rightarrow> (key_error + 'f ostar) outcome" where
  "pv_Get ord pv k =
     (case ReadString k of
        Inl _ \<Rightarrow> Inr (Inl KeyNotString)
      | Inr key \<Rightarrow>
        (case pv_values pv key of
           Some r \<Rightarrow> map_sum id Inr (Write ord r)
         | None \<Rightarrow>
           (case pv_defs pv key of
              Some def \<Rightarrow> map_sum id Inr (Write ord (pr_Default def))
            | None \<Rightarrow> Inr (Inl (NoProperty key)))))"

definition is_local :: "'f property_values \<Rightarrow> string \<Rightarrow> key_error + bool" where
  "is_local pv name = (if pv_defs pv name = None then Inl (NoProperty name) else Inr (pv_IsLocal pv name))"

section \<open>Plugin data\<close>

record 'f plugin_data =
  pd_local :: "(string \<rightharpoonup> 'f oval) option"
  pd_inherit :: "string \<Rightarrow> 'f oval option"
  pd_writable :: bool

definition NewPluginData :: "(string \<Rightarrow> 'f oval option) \<Rightarrow> 'f plugin_data" where
  "NewPluginData inherit = \<lparr>pd_local = None, pd_inherit = inherit, pd_writable = True\<rparr>"

definition Seal :: "'f plugin_data \<Rightarrow> 'f plugin_data" where
  "Seal d = d\<lparr>pd_writable := False\<rparr>"

definition pd_lookup :: "'f plugin_data \<Rightarrow> string \<Rightarrow> 'f oval option" where
  "pd_lookup d key =
     (case Option.bind (pd_local d) (\<lambda>m. m key) of Some v \<Rightarrow> Some v | None \<Rightarrow> pd_inherit d key)"

text \<open>\<open>d[k] = v\<close> and \<open>d[k]\<close>, \<open>d.get(k, fallback)\<close> in Starlark.\<close>

definition SetKey :: "'f plugin_data \<Rightarrow> 'f ostar \<Rightarrow> 'f ostar \<Rightarrow> key_error + 'f plugin_data" where
  "SetKey d k v =
     (if \<not> pd_writable d then Inl ReadOnly
      else case ReadString k of
        Inl _ \<Rightarrow> Inl KeyNotString
      | Inr key \<Rightarrow>
        (case Read v of
           Inl e \<Rightarrow> Inl (KeyRead e)
         | Inr goVal \<Rightarrow>
             Inr (d\<lparr>pd_local := Some ((case pd_local d of None \<Rightarrow> Map.empty | Some m \<Rightarrow> m)(key \<mapsto> goVal))\<rparr>)))"

definition pd_Get :: "'f omap_order \<Rightarrow> 'f plugin_data \<Rightarrow> 'f ostar \<Rightarrow> (key_error + 'f ostar option) outcome" where
  "pd_Get ord d k =
     (case ReadString k of
        Inl _ \<Rightarrow> Inr (Inl KeyNotString)
      | Inr key \<Rightarrow>
        (case pd_lookup d key of
           Some v \<Rightarrow> map_sum id (Inr \<circ> Some) (Write ord v)
         | None \<Rightarrow> Inr (Inr None)))"

definition pluginDataGet :: "'f omap_order \<Rightarrow> 'f plugin_data \<Rightarrow> string \<Rightarrow> 'f ostar \<Rightarrow> 'f ostar outcome" where
  "pluginDataGet ord d key fallback = (case pd_lookup d key of Some v \<Rightarrow> Write ord v | None \<Rightarrow> Inr fallback)"

section \<open>Source filters\<close>

text \<open>A compiled glob is the predicate it stands for.\<close>

datatype source_filter =
    SourceGlobFilter "string list" "string list" glob_expr
  | SourceExtensionsFilter "string list"
  | SourceFileFilter "string list"

fun filter_Match :: "source_filter \<Rightarrow> string \<Rightarrow> bool" where
  "filter_Match (SourceGlobFilter incs excludes e) p = e p"
| "filter_Match (SourceExtensionsFilter exts) p = (\<exists>ext \<in> set exts. HasSuffix p ext)"
| "filter_Match (SourceFileFilter files) p = (p \<in> set files)"

text \<open>The global cache of globs is threaded through; \<open>dsvalid\<close> and \<open>dsmatch\<close> are the doublestar package.\<close>

datatype filter_error = NoInclude | ExcludeGlob glob_error | IncludeGlob glob_error

definition NewSourceGlobFilter ::
  "(string \<Rightarrow> bool) \<Rightarrow> (string \<Rightarrow> string \<Rightarrow> bool) \<Rightarrow> string list \<Rightarrow> string list \<Rightarrow> glob_cache \<Rightarrow>
   (filter_error + source_filter) \<times> glob_cache" where
  "NewSourceGlobFilter dsvalid dsmatch includes excludes cache =
     (if includes = [] then (Inl NoInclude, cache)
      else
        case (if excludes \<noteq> [] then apfst (map_sum id (\<lambda>_. ())) (ParseGlobExpressions dsvalid dsmatch cache excludes)
              else (Inr (), cache)) of
          (Inl e, cache') \<Rightarrow> (Inl (ExcludeGlob e), cache')
        | (Inr _, cache') \<Rightarrow>
          (case ParseGlobExpressionsWithExcludes dsvalid dsmatch cache' includes excludes of
             (Inl e, cache'') \<Rightarrow> (Inl (IncludeGlob e), cache'')
           | (Inr e, cache'') \<Rightarrow> (Inr (SourceGlobFilter includes excludes e), cache'')))"

text \<open>
  \<open>SourceGlobs\<close>: the patterns are the arguments or the one list given, \<open>exclude\<close> is the only keyword.
\<close>

datatype globs_error = GlobArgument read_error | BadKeyword string | BadFilter filter_error

fun glob_keywords :: "('f ostar \<times> 'f ostar) list \<Rightarrow> string list \<Rightarrow> globs_error + string list" where
  "glob_keywords [] excludes = Inr excludes"
| "glob_keywords ((k, v) # kwargs) excludes =
     (case ReadString k of
        Inl e \<Rightarrow> Inl (GlobArgument e)
      | Inr name \<Rightarrow>
        if name = ''exclude'' then
          (case ReadStringList v of Inl e \<Rightarrow> Inl (GlobArgument e) | Inr ex \<Rightarrow> glob_keywords kwargs ex)
        else Inl (BadKeyword name))"

definition glob_arguments :: "'f ostar list \<Rightarrow> read_error + string list" where
  "glob_arguments args =
     (case args of
        [SList l] \<Rightarrow> ReadStringList (SList l)
      | _ \<Rightarrow> read_all ReadString args)"

definition newSourceGlobs ::
  "(string \<Rightarrow> bool) \<Rightarrow> (string \<Rightarrow> string \<Rightarrow> bool) \<Rightarrow> 'f ostar list \<Rightarrow> ('f ostar \<times> 'f ostar) list \<Rightarrow> glob_cache \<Rightarrow>
   (globs_error + source_filter) \<times> glob_cache" where
  "newSourceGlobs dsvalid dsmatch args kwargs cache =
     (case glob_arguments args of
        Inl e \<Rightarrow> (Inl (GlobArgument e), cache)
      | Inr incs \<Rightarrow>
        (case glob_keywords kwargs [] of
           Inl e \<Rightarrow> (Inl e, cache)
         | Inr excludes \<Rightarrow>
           (case NewSourceGlobFilter dsvalid dsmatch incs excludes cache of
              (Inl e, cache') \<Rightarrow> (Inl (BadFilter e), cache')
            | (Inr f, cache') \<Rightarrow> (Inr f, cache'))))"

section \<open>Queries\<close>

datatype query_type =
    QueryTypeAst
  | QueryTypeRegex
  | QueryTypeJson
  | QueryTypeYaml
  | QueryTypeToml
  | QueryTypeRaw

text \<open>The text of a query is \<open>Query\<close> or \<open>Expression\<close>; a raw query has none.\<close>

record query =
  q_Type :: query_type
  q_Text :: string
  q_Grammar :: string
  q_Filter :: "string list"
  q_FilterExpr :: glob_expr
  q_ContentFilter :: string
  q_ContentFilterExpr :: "(string \<Rightarrow> bool) option"

definition MatchPath :: "query \<Rightarrow> string \<Rightarrow> bool" where
  "MatchPath q f = q_FilterExpr q f"

definition MatchContent :: "query \<Rightarrow> string \<Rightarrow> bool" where
  "MatchContent q src = (case q_ContentFilterExpr q of None \<Rightarrow> True | Some e \<Rightarrow> e src)"

text \<open>
  \<open>readQueryBase\<close>: no filter, one pattern or a list of them. \<open>None\<close> is a value that is not given.
\<close>

datatype query_error = QueryFilter read_error | QueryGlob glob_error | BadRegex string

definition readQueryBase ::
  "(string \<Rightarrow> bool) \<Rightarrow> (string \<Rightarrow> string \<Rightarrow> bool) \<Rightarrow> 'f ostar option \<Rightarrow> glob_cache \<Rightarrow>
   (query_error + string list \<times> glob_expr) \<times> glob_cache" where
  "readQueryBase dsvalid dsmatch v cache =
     (case v of
        None \<Rightarrow> (Inr ([], \<lambda>_. True), cache)
      | Some (SString s) \<Rightarrow>
          apfst (map_sum QueryGlob (\<lambda>e. ([s], e))) (ParseGlobExpression dsvalid dsmatch cache s)
      | Some v \<Rightarrow>
          (case ReadStringList v of
             Inl e \<Rightarrow> (Inl (QueryFilter e), cache)
           | Inr ss \<Rightarrow> apfst (map_sum QueryGlob (\<lambda>e. (ss, e))) (ParseGlobExpressions dsvalid dsmatch cache ss)))"

text \<open>
  Matchers of content (\<open>common/regex.go\<close>): a text without meta characters is searched for, else it
  is a regular expression. \<open>quoteMeta\<close> and \<open>compile\<close> are Go's \<open>regexp\<close>; the compiled expression is
  represented by its match predicate. Both caches are threaded through.
\<close>

type_synonym matcher = "string \<Rightarrow> bool"

record regex_caches =
  rc_regex :: "string \<rightharpoonup> matcher"
  rc_matcher :: "string \<rightharpoonup> matcher"

definition ParseRegex ::
  "(string \<Rightarrow> string + matcher) \<Rightarrow> string \<Rightarrow> regex_caches \<Rightarrow> (string + matcher) \<times> regex_caches" where
  "ParseRegex compile s c =
     (case rc_regex c s of
        Some re \<Rightarrow> (Inr re, c)
      | None \<Rightarrow>
        (case compile s of
           Inl err \<Rightarrow> (Inl err, c)
         | Inr re \<Rightarrow> (Inr re, c\<lparr>rc_regex := (rc_regex c)(s \<mapsto> re)\<rparr>)))"

definition ParseMatcher ::
  "(string \<Rightarrow> string + matcher) \<Rightarrow> (string \<Rightarrow> string) \<Rightarrow> string \<Rightarrow> regex_caches \<Rightarrow>
   (string + matcher) \<times> regex_caches" where
  "ParseMatcher compile quoteMeta s c =
     (case rc_matcher c s of
        Some m \<Rightarrow> (Inr m, c)
      | None \<Rightarrow>
        (case (if quoteMeta s = s then (Inr (\<lambda>b. str_contains b s), c) else ParseRegex compile s c) of
           (Inl err, c') \<Rightarrow> (Inl err, c')
         | (Inr m, c') \<Rightarrow> (Inr m, c'\<lparr>rc_matcher := (rc_matcher c')(s \<mapsto> m)\<rparr>)))"

definition readContentFilter ::
  "(string \<Rightarrow> string + matcher) \<Rightarrow> (string \<Rightarrow> string) \<Rightarrow> string \<Rightarrow> regex_caches \<Rightarrow>
   (query_error + string \<times> matcher) \<times> regex_caches" where
  "readContentFilter compile quoteMeta s c =
     apfst (map_sum BadRegex (\<lambda>m. (s, m))) (ParseMatcher compile quoteMeta s c)"

text \<open>The constructors of queries; a regular expression must compile.\<close>

record sdk_env =
  se_valid :: "string \<Rightarrow> bool"
  se_match :: "string \<Rightarrow> string \<Rightarrow> bool"
  se_compile :: "string \<Rightarrow> string + matcher"
  se_quoteMeta :: "string \<Rightarrow> string"

definition newQuery ::
  "sdk_env \<Rightarrow> query_type \<Rightarrow> string \<Rightarrow> string \<Rightarrow> 'f ostar option \<Rightarrow> string \<Rightarrow> glob_cache \<times> regex_caches \<Rightarrow>
   (query_error + query) \<times> glob_cache \<times> regex_caches" where
  "newQuery env t txt grammar filterValue contentFilter st =
     (case readQueryBase (se_valid env) (se_match env) filterValue (fst st) of
        (Inl e, gc) \<Rightarrow> (Inl e, gc, snd st)
      | (Inr (flt, fexpr), gc) \<Rightarrow>
        (case readContentFilter (se_compile env) (se_quoteMeta env) contentFilter (snd st) of
           (Inl e, rc) \<Rightarrow> (Inl e, gc, rc)
         | (Inr (cf, cexpr), rc) \<Rightarrow>
           (case (if t = QueryTypeRegex then apfst (map_sum BadRegex (\<lambda>_. ())) (ParseRegex (se_compile env) txt rc)
                  else (Inr (), rc)) of
              (Inl e, rc') \<Rightarrow> (Inl e, gc, rc')
            | (Inr _, rc') \<Rightarrow>
                (Inr \<lparr>q_Type = t, q_Text = txt, q_Grammar = grammar, q_Filter = flt, q_FilterExpr = fexpr,
                      q_ContentFilter = cf, q_ContentFilterExpr = Some cexpr\<rparr>, gc, rc'))))"

text \<open>A matcher that is kept is what a fresh parse gives.\<close>

definition regex_coherent :: "(string \<Rightarrow> string + matcher) \<Rightarrow> (string \<Rightarrow> string) \<Rightarrow> regex_caches \<Rightarrow> bool" where
  "regex_coherent compile quoteMeta c \<longleftrightarrow>
     (\<forall>s m. rc_regex c s = Some m \<longrightarrow> compile s = Inr m) \<and>
     (\<forall>s m. rc_matcher c s = Some m \<longrightarrow>
        (if quoteMeta s = s then m = (\<lambda>b. str_contains b s) else compile s = Inr m))"

lemma ParseMatcher_coherent:
  assumes "regex_coherent compile quoteMeta c"
  shows "fst (ParseMatcher compile quoteMeta s c) =
      (if quoteMeta s = s then Inr (\<lambda>b. str_contains b s) else compile s)"
    and "regex_coherent compile quoteMeta (snd (ParseMatcher compile quoteMeta s c))"
  using assms
  by (auto simp: ParseMatcher_def ParseRegex_def regex_coherent_def split: option.splits sum.splits if_splits)

section \<open>Results of queries\<close>

text \<open>
  A match has captures and, for a regular expression, the bytes matched. The results are the text
  of the file, values of a document, or matches; a map has them by query.
\<close>

record query_match =
  qm_Captures :: "(string, string) gomap"
  qm_Result :: "string option"

datatype 'f query_result =
    RawResult string
  | ValueResults "'f oval list"
  | MatchResults "query_match list"

type_synonym 'f query_results = "(string, 'f query_result) gomap"

section \<open>Results of \<open>prepare\<close>\<close>

record prepare_result =
  ps_Sources :: "(string, source_filter list) gomap"
  ps_Queries :: "(string, query) gomap"

definition EmptyPrepareResult :: prepare_result where
  "EmptyPrepareResult = \<lparr>ps_Sources = [], ps_Queries = []\<rparr>"

definition DefaultGroup :: string where
  "DefaultGroup = ''default''"

text \<open>
  The \<open>sources\<close> of a result: a filter, a list of them, or a dictionary of those by group.
  \<open>Inl\<close> is a value that is no filter.
\<close>

datatype sources_value =
    OneSource "string + source_filter"
  | SourceList "(string + source_filter) list"
  | SourceGroups "(string \<times> sources_value) list"

fun all_filters :: "(string + source_filter) list \<Rightarrow> string + source_filter list" where
  "all_filters [] = Inr []"
| "all_filters (Inl e # vs) = Inl e"
| "all_filters (Inr f # vs) = map_sum id ((#) f) (all_filters vs)"

fun readSourceFilterEntry :: "sources_value \<Rightarrow> string + source_filter list" where
  "readSourceFilterEntry (OneSource (Inl e)) = Inl e"
| "readSourceFilterEntry (OneSource (Inr f)) = Inr [f]"
| "readSourceFilterEntry (SourceList l) = all_filters l"
| "readSourceFilterEntry (SourceGroups g) = Inl ''dict''"

fun source_groups ::
  "(string \<times> sources_value) list \<Rightarrow> (string, source_filter list) gomap \<Rightarrow>
   string + (string, source_filter list) gomap" where
  "source_groups [] m = Inr m"
| "source_groups ((k, v) # d) m =
     (case readSourceFilterEntry v of Inl e \<Rightarrow> Inl e | Inr fs \<Rightarrow> source_groups d (al_put m k fs))"

definition newPrepareResult :: "(string, query) gomap \<Rightarrow> sources_value \<Rightarrow> string + prepare_result" where
  "newPrepareResult queries v =
     (case (case v of
              SourceGroups d \<Rightarrow> source_groups d []
            | _ \<Rightarrow> map_sum id (\<lambda>g. [(DefaultGroup, g)]) (readSourceFilterEntry v)) of
        Inl e \<Rightarrow> Inl e
      | Inr sources \<Rightarrow> Inr \<lparr>ps_Sources = sources, ps_Queries = queries\<rparr>)"

end
