(* ===== verification/Orion_Config.thy ===== *)
theory Orion_Config
  imports Orion_Plugin
begin

text \<open>
  The configuration of the orion host (\<open>language/orion/config.go\<close>, \<open>configure.go\<close>) and its calls of
  plugins (\<open>starzelle/plugin.go\<close>). A configuration is the list of the directory's own part and
  those of its ancestors, the innermost first. Plugins are prepared one by one; each one only
  changes its own entries.
\<close>

section \<open>Plugins\<close>

record 'f prepare_context =
  pc_RepoName :: string
  pc_Rel :: string
  pc_Properties :: "'f property_values"
  pc_Data :: "'f plugin_data option"
  pc_HasFile :: "string \<Rightarrow> bool"

record 'f target_source =
  src_Path :: string
  src_QueryResults :: "'f query_results"

text \<open>What calling a Starlark function gives; an error is fatal when it is an evaluation error.\<close>

datatype call_result =
    CallFails string bool
  | CallNone
  | CallPrepared prepare_result
  | CallOther

text \<open>
  The functions of a plugin. \<open>prepare\<close> also writes to its data, in the given order; \<open>analyze\<close> and
  \<open>declare\<close> add symbols.
\<close>

type_synonym 'f data_writes = "('f ostar \<times> 'f ostar) list"

type_synonym symbol_adds = "(plugin_label \<times> symbol) list"

record 'f plugin =
  gp_name :: string
  gp_properties :: "(string, 'f property) gomap"
  gp_prepare :: "('f prepare_context \<Rightarrow> call_result \<times> 'f data_writes) option"
  gp_analyze :: "('f prepare_context \<Rightarrow> 'f target_source \<Rightarrow> (string \<times> bool) option \<times> symbol_adds) option"
  gp_declare :: "('f prepare_context \<Rightarrow> (string, 'f target_source list) gomap \<Rightarrow>
    (string \<times> bool) option \<times> 'f target_action list \<times> symbol_adds) option"

text \<open>A write to the data that is refused is an evaluation error of the plugin.\<close>

fun write_data :: "'f data_writes \<Rightarrow> 'f plugin_data \<Rightarrow> 'f plugin_data outcome" where
  "write_data [] d = Inr d"
| "write_data ((k, v) # ws) d =
     (case SetKey d k v of Inl _ \<Rightarrow> Inl (Fatal ''Failed to invoke Prepare()'') | Inr d' \<Rightarrow> write_data ws d')"

text \<open>Without data \<open>ctx.data\<close> is an evaluation error too.\<close>

definition write_context_data ::
  "'f data_writes \<Rightarrow> 'f plugin_data option \<Rightarrow> 'f plugin_data option outcome" where
  "write_context_data ws d =
     (case d of
        Some d' \<Rightarrow> map_sum id Some (write_data ws d')
      | None \<Rightarrow> if ws = [] then Inr None else Inl (Fatal ''Failed to invoke Prepare()''))"

definition call_prepared :: "call_result \<Rightarrow> prepare_result outcome" where
  "call_prepared r =
     (case r of
        CallFails err fatal \<Rightarrow> if fatal then Inl (Fatal err) else Inr EmptyPrepareResult
      | CallNone \<Rightarrow> Inr EmptyPrepareResult
      | CallPrepared pr \<Rightarrow> Inr pr
      | CallOther \<Rightarrow> Inr EmptyPrepareResult)"

text \<open>The result, and the data with what was written.\<close>

definition Prepare ::
  "'f plugin \<Rightarrow> 'f prepare_context \<Rightarrow> (prepare_result \<times> 'f plugin_data option) outcome" where
  "Prepare p ctx =
     (case gp_prepare p of
        None \<Rightarrow> Inr (EmptyPrepareResult, pc_Data ctx)
      | Some f \<Rightarrow>
        (case f ctx of (r, ws) \<Rightarrow>
          (case write_context_data ws (pc_Data ctx) of
             Inl e \<Rightarrow> Inl e
           | Inr d \<Rightarrow> map_sum id (\<lambda>pr. (pr, d)) (call_prepared r))))"

definition Analyze :: "'f plugin \<Rightarrow> 'f prepare_context \<Rightarrow> 'f target_source \<Rightarrow> database \<Rightarrow> database outcome" where
  "Analyze p ctx src db =
     (case gp_analyze p of
        None \<Rightarrow> Inr db
      | Some f \<Rightarrow>
        (case f ctx src of (err, ss) \<Rightarrow>
          (case err of
             Some (e, True) \<Rightarrow> Inl (Fatal e)
           | _ \<Rightarrow> Inr (add_symbols ss db))))"

text \<open>After an error that is not fatal there are no actions.\<close>

definition DeclareTargets ::
  "'f plugin \<Rightarrow> 'f prepare_context \<Rightarrow> (string, 'f target_source list) gomap \<Rightarrow> database \<Rightarrow>
   ('f target_action list \<times> database) outcome" where
  "DeclareTargets p ctx sources db =
     (case gp_declare p of
        None \<Rightarrow> Inr ([], db)
      | Some f \<Rightarrow>
        (case f ctx sources of (err, actions, ss) \<Rightarrow>
          (case err of
             Some (e, True) \<Rightarrow> Inl (Fatal e)
           | Some (e, False) \<Rightarrow> Inr ([], add_symbols ss db)
           | None \<Rightarrow> Inr (actions, add_symbols ss db))))"

section \<open>Configurations\<close>

record 'f plugin_config =
  gc_context :: "'f prepare_context"
  gc_result :: prepare_result
  gc_queriesHash :: string

record 'f build_config =
  bc_repoName :: string
  bc_rel :: string
  bc_generated :: bool
  bc_directives :: "(string, string list) gomap"
  bc_prepared :: "(string, 'f plugin_config) gomap"
  bc_data :: "string \<rightharpoonup> (string \<rightharpoonup> 'f oval)"

type_synonym 'f configs = "'f build_config list"

definition NewRootConfig :: "string \<Rightarrow> 'f configs" where
  "NewRootConfig repoName =
     [\<lparr>bc_repoName = repoName, bc_rel = '''', bc_generated = False, bc_directives = [], bc_prepared = [],
       bc_data = Map.empty\<rparr>]"

definition NewChildConfig :: "string \<Rightarrow> 'f configs \<Rightarrow> 'f configs" where
  "NewChildConfig rel cs =
     \<lparr>bc_repoName = bc_repoName (hd cs), bc_rel = rel, bc_generated = False, bc_directives = [], bc_prepared = [],
      bc_data = Map.empty\<rparr> # cs"

definition appendDirectiveValue :: "string \<Rightarrow> string \<Rightarrow> 'f build_config \<Rightarrow> 'f build_config" where
  "appendDirectiveValue key v c = c\<lparr>bc_directives := al_append (bc_directives c) key v\<rparr>"

text \<open>The value and whether it is the directory's own; \<open>None\<close> is not found.\<close>

fun getRawValue :: "'f configs \<Rightarrow> string \<Rightarrow> (string list \<times> bool) option" where
  "getRawValue [] key = None"
| "getRawValue (c # cs) key =
     (case map_of (bc_directives c) key of
        Some v \<Rightarrow> Some (v, True)
      | None \<Rightarrow> (case getRawValue cs key of Some (v, _) \<Rightarrow> Some (v, False) | None \<Rightarrow> None))"

text \<open>The values of a directive are never an empty list, see \<open>directives_not_Nil\<close>.\<close>

definition IsPluginEnabled :: "'f configs \<Rightarrow> string \<Rightarrow> bool" where
  "IsPluginEnabled cs pluginId =
     (case getRawValue cs pluginId of Some (val, _) \<Rightarrow> last val = ''enabled'' | None \<Rightarrow> True)"

definition setPluginDataMap :: "string \<Rightarrow> (string \<rightharpoonup> 'f oval) \<Rightarrow> 'f build_config \<Rightarrow> 'f build_config" where
  "setPluginDataMap pluginId data c = c\<lparr>bc_data := (bc_data c)(pluginId \<mapsto> data)\<rparr>"

fun getPluginData :: "'f configs \<Rightarrow> string \<Rightarrow> string \<Rightarrow> 'f oval option" where
  "getPluginData [] pluginId key = None"
| "getPluginData (c # cs) pluginId key =
     (case Option.bind (bc_data c pluginId) (\<lambda>d. d key) of
        Some v \<Rightarrow> Some v
      | None \<Rightarrow> getPluginData cs pluginId key)"

section \<open>Property values\<close>

text \<open>\<open>strconv.ParseInt\<close> in base 10 and of the size of an \<open>int\<close>.\<close>

fun parse_digits :: "string \<Rightarrow> nat \<Rightarrow> nat option" where
  "parse_digits [] n = Some n"
| "parse_digits (c # s) n =
     (if CHR ''0'' \<le> c \<and> c \<le> CHR ''9''
      then parse_digits s (10 * n + (of_char c - of_char (CHR ''0''))) else None)"

datatype number_error = NumberSyntax string | NumberRange string

definition ParseInt10 :: "string \<Rightarrow> number_error + 64 word" where
  "ParseInt10 s =
     (let neg = HasPrefix s ''-'';
          ds = (if neg \<or> HasPrefix s ''+'' then tl s else s)
      in if ds = [] then Inl (NumberSyntax s)
         else case parse_digits ds 0 of
           None \<Rightarrow> Inl (NumberSyntax s)
         | Some n \<Rightarrow>
             if (if neg then n \<le> 2 ^ 63 else n < 2 ^ 63)
             then Inr (word_of_int (if neg then - int n else int n))
             else Inl (NumberRange s))"

definition onlyValue :: "string list \<Rightarrow> string outcome" where
  "onlyValue vs = (if vs = [] then Inl (Fatal ''expected exactly one value, got none'') else Inr (last vs))"

definition parsePropertyValue :: "'f property \<Rightarrow> string list \<Rightarrow> (number_error + 'f oval) outcome" where
  "parsePropertyValue p vs =
     (if pr_Type p = ''string'' then map_sum id (Inr \<circ> GString) (onlyValue vs)
      else if pr_Type p = ''[]string'' then Inr (Inr (GStrings vs))
      else if pr_Type p = ''bool'' then map_sum id (\<lambda>v. Inr (GBool (v = ''true''))) (onlyValue vs)
      else if pr_Type p = ''number'' then map_sum id (\<lambda>v. map_sum id GInt64 (ParseInt10 v)) (onlyValue vs)
      else Inl (Panic ''unhandled property type''))"

text \<open>A value that cannot be parsed is logged and the default taken, as set here.\<close>

fun add_properties ::
  "'f configs \<Rightarrow> (string, 'f property) gomap \<Rightarrow> 'f property_values \<Rightarrow> 'f property_values outcome" where
  "add_properties cs [] pv = Inr pv"
| "add_properties cs ((k, p) # props) pv =
     (case getRawValue cs (pr_Name p) of
        None \<Rightarrow> add_properties cs props pv
      | Some (v, local) \<Rightarrow>
        (case parsePropertyValue p v of
           Inl e \<Rightarrow> Inl e
         | Inr parsed \<Rightarrow>
             add_properties cs props
               (pv_Add k (case parsed of Inl _ \<Rightarrow> pr_Default p | Inr value \<Rightarrow> value) local pv)))"

definition configToPrepareContext ::
  "(string \<Rightarrow> bool) \<Rightarrow> (string \<Rightarrow> 'f oval option) \<Rightarrow> 'f plugin \<Rightarrow> 'f configs \<Rightarrow> 'f prepare_context outcome" where
  "configToPrepareContext hasFile inherit p cs =
     map_sum id
       (\<lambda>props. \<lparr>pc_RepoName = bc_repoName (hd cs), pc_Rel = bc_rel (hd cs), pc_Properties = props,
                 pc_Data = Some (NewPluginData inherit), pc_HasFile = hasFile\<rparr>)
       (add_properties cs (gp_properties p) (NewPropertyValues (gp_properties p)))"

section \<open>Configuring a directory\<close>

text \<open>
  The part of the goroutine of one plugin; \<open>qhash\<close> is \<open>computeQueriesCacheKey\<close>.
\<close>

definition prepare_plugin ::
  "((string, query) gomap \<Rightarrow> string) \<Rightarrow> (string \<Rightarrow> bool) \<Rightarrow> string \<times> 'f plugin \<Rightarrow> 'f configs \<Rightarrow>
   'f configs outcome" where
  "prepare_plugin qhash hasFile kp cs =
     (case kp of (k, p) \<Rightarrow>
        case configToPrepareContext hasFile (\<lambda>key. getPluginData (tl cs) k key) p cs of
          Inl e \<Rightarrow> Inl e
        | Inr ctx \<Rightarrow>
          (case Prepare p ctx of
             Inl e \<Rightarrow> Inl e
           | Inr (result, None) \<Rightarrow> Inl (Panic ''nil pointer dereference'')
           | Inr (result, Some d) \<Rightarrow>
               let sealed = Seal d;
                   c = hd cs;
                   c1 = (case pd_local sealed of None \<Rightarrow> c | Some m \<Rightarrow> setPluginDataMap k m c);
                   pc = \<lparr>gc_context = ctx\<lparr>pc_Data := Some sealed\<rparr>, gc_result = result,
                         gc_queriesHash = qhash (ps_Queries result)\<rparr>
               in Inr (c1\<lparr>bc_prepared := al_put (bc_prepared c1) k pc\<rparr> # tl cs)))"

fun prepare_plugins ::
  "((string, query) gomap \<Rightarrow> string) \<Rightarrow> (string \<Rightarrow> bool) \<Rightarrow> (string, 'f plugin) gomap \<Rightarrow> 'f configs \<Rightarrow>
   'f configs outcome" where
  "prepare_plugins qhash hasFile [] cs = Inr cs"
| "prepare_plugins qhash hasFile ((k, p) # plugins) cs =
     (if \<not> IsPluginEnabled cs k then prepare_plugins qhash hasFile plugins cs
      else case prepare_plugin qhash hasFile (k, p) cs of
        Inl e \<Rightarrow> Inl e
      | Inr cs' \<Rightarrow> prepare_plugins qhash hasFile plugins cs')"

text \<open>\<open>parent\<close> is the configuration of the parent directory; the directives are those of the BUILD file.\<close>

definition Configure ::
  "((string, query) gomap \<Rightarrow> string) \<Rightarrow> (string \<Rightarrow> string \<Rightarrow> bool) \<Rightarrow> (string, 'f plugin) gomap \<Rightarrow> string \<Rightarrow>
   'f configs \<Rightarrow> string \<Rightarrow> (string \<times> string) list option \<Rightarrow> 'f configs outcome" where
  "Configure qhash walkHasPath plugins repoName parent rel directives =
     (let cs = (if rel = '''' then NewRootConfig repoName else NewChildConfig rel parent);
          c = (case directives of
                 None \<Rightarrow> hd cs
               | Some ds \<Rightarrow> foldl (\<lambda>c (key, v). appendDirectiveValue key v c) (hd cs) ds)
      in prepare_plugins qhash (walkHasPath rel) plugins (c # tl cs))"

definition getBUILDConfig :: "'f configs option \<Rightarrow> string \<Rightarrow> 'f configs outcome" where
  "getBUILDConfig cfg rel =
     (case cfg of
        None \<Rightarrow> Inl (Fatal ''Expected BUILDConfig'')
      | Some cs \<Rightarrow> if cs = [] then Inl (Fatal ''Expected BUILDConfig'')
          else if bc_rel (hd cs) \<noteq> rel then Inl (Fatal ''Mismatched BUILDConfig'') else Inr cs)"

definition getQueriesForFile :: "'f plugin_config \<Rightarrow> string \<Rightarrow> (string, query) gomap" where
  "getQueriesForFile c f = filter (\<lambda>(n, q). MatchPath q f) (ps_Queries (gc_result c))"

section \<open>Nearest directives\<close>

definition declared :: "(string \<times> string) list option \<Rightarrow> string \<Rightarrow> string list" where
  "declared ds key = (case ds of None \<Rightarrow> [] | Some ds \<Rightarrow> map snd (filter (\<lambda>(k, v). k = key) ds))"

text \<open>The directives of a chain of directories, the innermost first.\<close>

fun nearest :: "(string \<times> string) list option list \<Rightarrow> string \<Rightarrow> (string list \<times> bool) option" where
  "nearest [] key = None"
| "nearest (ds # dss) key =
     (if declared ds key \<noteq> [] then Some (declared ds key, True) else map_option (apsnd (\<lambda>_. False)) (nearest dss key))"

definition has_directives :: "(string \<times> string) list option \<Rightarrow> 'f build_config \<Rightarrow> bool" where
  "has_directives ds c \<longleftrightarrow>
     (\<forall>key. map_of (bc_directives c) key = (if declared ds key = [] then None else Some (declared ds key)))"

lemma append_directives:
  "map_of (bc_directives (foldl (\<lambda>c (key, v). appendDirectiveValue key v c) c ds)) key =
     (case map_of (bc_directives c) key of
        None \<Rightarrow> if declared (Some ds) key = [] then None else Some (declared (Some ds) key)
      | Some vs \<Rightarrow> Some (vs @ declared (Some ds) key))"
proof (induction ds arbitrary: c)
  case (Cons d ds)
  obtain k v where d: "d = (k, v)" by (rule prod.exhaust)
  show ?case
    unfolding d foldl_Cons prod.case Cons.IH
    by (simp add: appendDirectiveValue_def al_append_def declared_def split: option.splits)
qed (simp add: declared_def split: option.splits)

lemma appendDirectives_same:
  fixes c :: "'f build_config"
  defines "c' ds \<equiv> foldl (\<lambda>c (key, v). appendDirectiveValue key v c) c ds"
  shows "bc_rel (c' ds) = bc_rel c" "bc_repoName (c' ds) = bc_repoName c" "bc_prepared (c' ds) = bc_prepared c"
    "bc_data (c' ds) = bc_data c"
proof -
  have "bc_rel (c' ds) = bc_rel c \<and> bc_repoName (c' ds) = bc_repoName c \<and> bc_prepared (c' ds) = bc_prepared c \<and>
      bc_data (c' ds) = bc_data c"
    unfolding c'_def
  proof (induction ds arbitrary: c)
    case (Cons d ds)
    then show ?case by (cases d) (simp add: appendDirectiveValue_def)
  qed simp
  then show "bc_rel (c' ds) = bc_rel c" "bc_repoName (c' ds) = bc_repoName c" "bc_prepared (c' ds) = bc_prepared c"
    "bc_data (c' ds) = bc_data c" by simp_all
qed

lemma getRawValue_nearest:
  "list_all2 has_directives dss cs \<Longrightarrow> getRawValue cs key = nearest dss key"
proof (induction dss cs rule: list_all2_induct)
  case (Cons ds dss c cs)
  then show ?case by (auto simp: has_directives_def split: option.splits)
qed simp

lemma nearest_not_Nil: "nearest dss key = Some (v, b) \<Longrightarrow> v \<noteq> []"
  by (induction dss key arbitrary: v b rule: nearest.induct) (auto split: if_splits)

text \<open>What \<open>IsPluginEnabled\<close> relies on.\<close>

lemma directives_not_Nil:
  "list_all2 has_directives dss cs \<Longrightarrow> getRawValue cs key = Some (v, b) \<Longrightarrow> v \<noteq> []"
  using getRawValue_nearest nearest_not_Nil by metis

section \<open>Preparing plugins\<close>

text \<open>What preparing leaves as it is.\<close>

definition same_directives :: "'f configs \<Rightarrow> 'f configs \<Rightarrow> bool" where
  "same_directives cs cs' \<longleftrightarrow> cs \<noteq> [] \<and> cs' \<noteq> [] \<and> tl cs' = tl cs \<and> bc_directives (hd cs') = bc_directives (hd cs) \<and>
     bc_rel (hd cs') = bc_rel (hd cs) \<and> bc_repoName (hd cs') = bc_repoName (hd cs)"

lemma same_directives_refl: "cs \<noteq> [] \<Longrightarrow> same_directives cs cs"
  by (simp add: same_directives_def)

lemma same_directives_trans:
  "same_directives cs cs' \<Longrightarrow> same_directives cs' cs'' \<Longrightarrow> same_directives cs cs''"
  by (simp add: same_directives_def)

lemma same_directives_getRawValue: "same_directives cs cs' \<Longrightarrow> getRawValue cs' key = getRawValue cs key"
  by (cases cs; cases cs') (simp_all add: same_directives_def)

lemma same_directives_enabled: "same_directives cs cs' \<Longrightarrow> IsPluginEnabled cs' k = IsPluginEnabled cs k"
  by (simp add: IsPluginEnabled_def same_directives_getRawValue)

lemma add_properties_cong:
  "(\<And>key. getRawValue cs' key = getRawValue cs key) \<Longrightarrow> add_properties cs' props pv = add_properties cs props pv"
  by (induction cs props pv rule: add_properties.induct) (auto split: option.splits sum.splits)

lemma configToPrepareContext_cong:
  assumes "same_directives cs cs'"
  shows "configToPrepareContext hasFile inherit p cs' = configToPrepareContext hasFile inherit p cs"
  using assms add_properties_cong [OF same_directives_getRawValue [OF assms]]
  by (simp add: configToPrepareContext_def same_directives_def)

lemma prepare_plugin_spec:
  assumes "prepare_plugin qhash hasFile (k, p) cs = Inr cs'" "cs \<noteq> []"
  obtains ctx result d where
    "configToPrepareContext hasFile (\<lambda>key. getPluginData (tl cs) k key) p cs = Inr ctx"
    and "Prepare p ctx = Inr (result, Some d)"
    and "same_directives cs cs'"
    and "map_of (bc_prepared (hd cs')) = (map_of (bc_prepared (hd cs)))
      (k \<mapsto> \<lparr>gc_context = ctx\<lparr>pc_Data := Some (Seal d)\<rparr>, gc_result = result, gc_queriesHash = qhash (ps_Queries result)\<rparr>)"
    and "bc_data (hd cs') = (case pd_local d of None \<Rightarrow> bc_data (hd cs) | Some m \<Rightarrow> (bc_data (hd cs))(k \<mapsto> m))"
proof -
  obtain ctx where ctx: "configToPrepareContext hasFile (\<lambda>key. getPluginData (tl cs) k key) p cs = Inr ctx"
    using assms(1) by (auto simp: prepare_plugin_def split: sum.splits)
  obtain result d where pr: "Prepare p ctx = Inr (result, Some d)"
    using assms(1) ctx by (auto simp: prepare_plugin_def split: sum.splits option.splits)
  have cs': "cs' = (case pd_local d of None \<Rightarrow> hd cs | Some m \<Rightarrow> setPluginDataMap k m (hd cs))
      \<lparr>bc_prepared := al_put (bc_prepared (hd cs)) k
         \<lparr>gc_context = ctx\<lparr>pc_Data := Some (Seal d)\<rparr>, gc_result = result, gc_queriesHash = qhash (ps_Queries result)\<rparr>\<rparr> # tl cs"
    using assms(1) ctx pr by (auto simp: prepare_plugin_def Let_def Seal_def setPluginDataMap_def split: option.splits)
  show ?thesis
    using that [OF ctx pr] assms(2) unfolding cs'
    by (simp add: same_directives_def setPluginDataMap_def split: option.splits)
qed

text \<open>
  The entries of a plugin after all are prepared: its own preparation decides, which sees the
  directives as they are and nothing of the others.
\<close>

lemma prepare_plugins_other:
  "prepare_plugins qhash hasFile plugins cs = Inr cs' \<Longrightarrow> cs \<noteq> [] \<Longrightarrow>
   same_directives cs cs' \<and>
   (\<forall>k. k \<notin> fst ` set plugins \<or> \<not> IsPluginEnabled cs k \<longrightarrow>
      map_of (bc_prepared (hd cs')) k = map_of (bc_prepared (hd cs)) k \<and> bc_data (hd cs') k = bc_data (hd cs) k)"
proof (induction plugins arbitrary: cs)
  case (Cons kp plugins)
  obtain k p where kp: "kp = (k, p)" by (rule prod.exhaust)
  show ?case
  proof (cases "IsPluginEnabled cs k")
    case False
    with Cons kp show ?thesis by auto
  next
    case True
    then obtain cs1 where one: "prepare_plugin qhash hasFile (k, p) cs = Inr cs1"
        "prepare_plugins qhash hasFile plugins cs1 = Inr cs'"
      using Cons.prems(1) kp by (auto split: sum.splits)
    obtain ctx result d where
        same: "same_directives cs cs1"
        and prep: "map_of (bc_prepared (hd cs1)) = (map_of (bc_prepared (hd cs)))
          (k \<mapsto> \<lparr>gc_context = ctx\<lparr>pc_Data := Some (Seal d)\<rparr>, gc_result = result, gc_queriesHash = qhash (ps_Queries result)\<rparr>)"
        and data: "bc_data (hd cs1) = (case pd_local d of None \<Rightarrow> bc_data (hd cs) | Some m \<Rightarrow> (bc_data (hd cs))(k \<mapsto> m))"
      using prepare_plugin_spec [OF one(1) Cons.prems(2)] by metis
    have "cs1 \<noteq> []" using same by (simp add: same_directives_def)
    note rest = Cons.IH [OF one(2) this]
    have "map_of (bc_prepared (hd cs')) k' = map_of (bc_prepared (hd cs)) k' \<and> bc_data (hd cs') k' = bc_data (hd cs) k'"
      if "k' \<notin> fst ` set (kp # plugins) \<or> \<not> IsPluginEnabled cs k'" for k'
    proof -
      have "k' \<noteq> k" using that True kp by auto
      moreover have "k' \<notin> fst ` set plugins \<or> \<not> IsPluginEnabled cs1 k'"
        using that same_directives_enabled [OF same] by auto
      ultimately show ?thesis using rest prep data by (simp split: option.splits)
    qed
    with rest same same_directives_trans show ?thesis by blast
  qed
qed (simp add: same_directives_refl)

definition prepared_as ::
  "((string, query) gomap \<Rightarrow> string) \<Rightarrow> (string \<Rightarrow> bool) \<Rightarrow> string \<Rightarrow> 'f plugin \<Rightarrow> 'f configs \<Rightarrow> 'f configs \<Rightarrow> bool" where
  "prepared_as qhash hasFile k p cs cs' \<longleftrightarrow>
     (\<exists>ctx result d.
        configToPrepareContext hasFile (\<lambda>key. getPluginData (tl cs) k key) p cs = Inr ctx \<and>
        Prepare p ctx = Inr (result, Some d) \<and>
        map_of (bc_prepared (hd cs')) k =
          Some \<lparr>gc_context = ctx\<lparr>pc_Data := Some (Seal d)\<rparr>, gc_result = result, gc_queriesHash = qhash (ps_Queries result)\<rparr> \<and>
        bc_data (hd cs') k = (case pd_local d of None \<Rightarrow> bc_data (hd cs) k | Some m \<Rightarrow> Some m))"

lemma prepared_as_cong:
  assumes "same_directives cs cs1" "bc_data (hd cs1) k = bc_data (hd cs) k"
  shows "prepared_as qhash hasFile k p cs1 cs' = prepared_as qhash hasFile k p cs cs'"
proof -
  have "tl cs1 = tl cs" using assms(1) by (simp add: same_directives_def)
  with assms(2) show ?thesis
    by (simp only: prepared_as_def configToPrepareContext_cong [OF assms(1)])
qed

lemma prepare_plugins_own:
  "prepare_plugins qhash hasFile plugins cs = Inr cs' \<Longrightarrow> cs \<noteq> [] \<Longrightarrow> al_wf plugins \<Longrightarrow>
   map_of plugins k = Some p \<Longrightarrow> IsPluginEnabled cs k \<Longrightarrow> prepared_as qhash hasFile k p cs cs'"
proof (induction plugins arbitrary: cs)
  case (Cons kp plugins)
  obtain k1 p1 where kp: "kp = (k1, p1)" by (rule prod.exhaust)
  have wf: "al_wf plugins" "k1 \<notin> fst ` set plugins" using Cons.prems(3) kp by (simp_all add: al_wf_def)
  show ?case
  proof (cases "IsPluginEnabled cs k1")
    case False
    then have k: "k1 \<noteq> k" using Cons.prems(5) by auto
    have run: "prepare_plugins qhash hasFile plugins cs = Inr cs'" using Cons.prems(1) kp False by simp
    have "map_of plugins k = Some p" using Cons.prems(4) kp k by simp
    with Cons.IH [OF run Cons.prems(2) wf(1)] Cons.prems(5) show ?thesis by blast
  next
    case True
    then obtain cs1 where one: "prepare_plugin qhash hasFile (k1, p1) cs = Inr cs1"
        "prepare_plugins qhash hasFile plugins cs1 = Inr cs'"
      using Cons.prems(1) kp by (auto split: sum.splits)
    obtain ctx result d where
        ctx: "configToPrepareContext hasFile (\<lambda>key. getPluginData (tl cs) k1 key) p1 cs = Inr ctx"
        and pr: "Prepare p1 ctx = Inr (result, Some d)"
        and same: "same_directives cs cs1"
        and prep: "map_of (bc_prepared (hd cs1)) = (map_of (bc_prepared (hd cs)))
          (k1 \<mapsto> \<lparr>gc_context = ctx\<lparr>pc_Data := Some (Seal d)\<rparr>, gc_result = result, gc_queriesHash = qhash (ps_Queries result)\<rparr>)"
        and data: "bc_data (hd cs1) = (case pd_local d of None \<Rightarrow> bc_data (hd cs) | Some m \<Rightarrow> (bc_data (hd cs))(k1 \<mapsto> m))"
      by (rule prepare_plugin_spec [OF one(1) Cons.prems(2)])
    have ne: "cs1 \<noteq> []" using same by (simp add: same_directives_def)
    show ?thesis
    proof (cases "k1 = k")
      case True
      then have p: "p1 = p" using Cons.prems(4) kp by simp
      have "map_of (bc_prepared (hd cs')) k = map_of (bc_prepared (hd cs1)) k" "bc_data (hd cs') k = bc_data (hd cs1) k"
        using prepare_plugins_other [OF one(2) ne] wf(2) True by simp_all
      then have "map_of (bc_prepared (hd cs')) k = Some \<lparr>gc_context = ctx\<lparr>pc_Data := Some (Seal d)\<rparr>, gc_result = result,
            gc_queriesHash = qhash (ps_Queries result)\<rparr>"
          "bc_data (hd cs') k = (case pd_local d of None \<Rightarrow> bc_data (hd cs) k | Some m \<Rightarrow> Some m)"
        using prep data True by (simp_all split: option.splits)
      with ctx pr True p show ?thesis unfolding prepared_as_def by blast
    next
      case False
      have run: "map_of plugins k = Some p" using Cons.prems(4) kp False by simp
      have enabled: "IsPluginEnabled cs1 k" using Cons.prems(5) same_directives_enabled [OF same] by simp
      have "bc_data (hd cs1) k = bc_data (hd cs) k" using data False by (simp split: option.splits)
      with prepared_as_cong [OF same] Cons.IH [OF one(2) ne wf(1) run enabled] show ?thesis by blast
    qed
  qed
qed simp

section \<open>Chains of directories\<close>

text \<open>Configuring the directories on the way from the root, with the directives of their BUILD files.\<close>

fun configure_chain ::
  "((string, query) gomap \<Rightarrow> string) \<Rightarrow> (string \<Rightarrow> string \<Rightarrow> bool) \<Rightarrow> (string, 'f plugin) gomap \<Rightarrow> string \<Rightarrow>
   (string \<times> (string \<times> string) list option) list \<Rightarrow> 'f configs \<Rightarrow> 'f configs outcome" where
  "configure_chain qhash walk plugins repoName [] cs = Inr cs"
| "configure_chain qhash walk plugins repoName ((rel, ds) # dirs) cs =
     (case Configure qhash walk plugins repoName cs rel ds of
        Inl e \<Rightarrow> Inl e
      | Inr cs' \<Rightarrow> configure_chain qhash walk plugins repoName dirs cs')"

text \<open>The configuration of a directory before its plugins are prepared.\<close>

definition unprepared :: "string \<Rightarrow> 'f configs \<Rightarrow> string \<Rightarrow> (string \<times> string) list option \<Rightarrow> 'f configs" where
  "unprepared repoName parent rel directives =
     (let cs = (if rel = '''' then NewRootConfig repoName else NewChildConfig rel parent)
      in (case directives of
            None \<Rightarrow> hd cs
          | Some ds \<Rightarrow> foldl (\<lambda>c (key, v). appendDirectiveValue key v c) (hd cs) ds) # tl cs)"

lemma Configure_unprepared:
  "Configure qhash walk plugins repoName parent rel ds =
     prepare_plugins qhash (walk rel) plugins (unprepared repoName parent rel ds)"
  by (simp add: Configure_def unprepared_def Let_def)

lemma unprepared_simps:
  "unprepared repoName parent rel ds \<noteq> []"
  "tl (unprepared repoName parent rel ds) = (if rel = '''' then [] else parent)"
  "has_directives ds (hd (unprepared repoName parent rel ds))"
  "bc_prepared (hd (unprepared repoName parent rel ds)) = []"
  "bc_data (hd (unprepared repoName parent rel ds)) = Map.empty"
proof -
  show "has_directives ds (hd (unprepared repoName parent rel ds))"
    by (simp add: has_directives_def unprepared_def Let_def append_directives NewRootConfig_def NewChildConfig_def
        declared_def split: option.splits)
  show "unprepared repoName parent rel ds \<noteq> []"
    "tl (unprepared repoName parent rel ds) = (if rel = '''' then [] else parent)"
    by (simp_all add: unprepared_def Let_def NewRootConfig_def NewChildConfig_def)
  show "bc_prepared (hd (unprepared repoName parent rel ds)) = []"
    "bc_data (hd (unprepared repoName parent rel ds)) = Map.empty"
    by (simp_all add: unprepared_def Let_def appendDirectives_same NewRootConfig_def NewChildConfig_def
        split: option.splits)
qed

lemma Configure_spec:
  assumes "Configure qhash walk plugins repoName parent rel ds = Inr cs"
  shows "same_directives (unprepared repoName parent rel ds) cs"
    and "map_of plugins k = None \<or> \<not> IsPluginEnabled cs k \<Longrightarrow> map_of (bc_prepared (hd cs)) k = None"
    and "al_wf plugins \<Longrightarrow> map_of plugins k = Some p \<Longrightarrow> IsPluginEnabled cs k \<Longrightarrow>
      prepared_as qhash (walk rel) k p (unprepared repoName parent rel ds) cs"
proof -
  note run = assms [unfolded Configure_unprepared]
  note other = prepare_plugins_other [OF run unprepared_simps(1)]
  then show same: "same_directives (unprepared repoName parent rel ds) cs" by simp
  show "map_of (bc_prepared (hd cs)) k = None" if "map_of plugins k = None \<or> \<not> IsPluginEnabled cs k"
    using that other same_directives_enabled [OF same] by (auto simp: unprepared_simps map_of_eq_None_iff)
  show "prepared_as qhash (walk rel) k p (unprepared repoName parent rel ds) cs"
    if "al_wf plugins" "map_of plugins k = Some p" "IsPluginEnabled cs k"
    using prepare_plugins_own [OF run unprepared_simps(1) that(1,2)] that(3) same_directives_enabled [OF same] by simp
qed

lemma configured_directives:
  assumes "same_directives (unprepared repoName parent rel ds) cs"
    and "list_all2 has_directives dss (if rel = '''' then [] else parent)"
  shows "list_all2 has_directives (ds # dss) cs"
proof -
  obtain c cs1 where cs: "cs = c # cs1" using assms(1) by (cases cs) (simp_all add: same_directives_def)
  have "cs1 = (if rel = '''' then [] else parent)"
    "bc_directives c = bc_directives (hd (unprepared repoName parent rel ds))"
    using assms(1) by (simp_all add: same_directives_def cs unprepared_simps)
  with assms(2) unprepared_simps(3) [of ds repoName parent rel] show ?thesis
    by (simp add: cs has_directives_def)
qed

lemma configure_chain_append:
  "configure_chain qhash walk plugins repoName (ds1 @ ds2) cs =
     (case configure_chain qhash walk plugins repoName ds1 cs of
        Inl e \<Rightarrow> Inl e | Inr cs' \<Rightarrow> configure_chain qhash walk plugins repoName ds2 cs')"
proof (induction ds1 arbitrary: cs)
  case (Cons d ds1)
  then show ?case by (cases d) (auto split: sum.splits)
qed simp

lemma configure_chain_directives:
  "configure_chain qhash walk plugins repoName dirs cs = Inr cs' \<Longrightarrow> list_all2 has_directives dss cs \<Longrightarrow>
   \<forall>(rel, ds) \<in> set dirs. rel \<noteq> '''' \<Longrightarrow> list_all2 has_directives (rev (map snd dirs) @ dss) cs'"
proof (induction dirs arbitrary: cs dss)
  case (Cons d dirs)
  obtain rel ds where d: "d = (rel, ds)" by (rule prod.exhaust)
  obtain cs1 where one: "Configure qhash walk plugins repoName cs rel ds = Inr cs1"
      "configure_chain qhash walk plugins repoName dirs cs1 = Inr cs'"
    using Cons.prems(1) d by (auto split: sum.splits)
  have "list_all2 has_directives (ds # dss) cs1"
    using configured_directives [OF Configure_spec(1) [OF one(1)]] Cons.prems(2,3) d by simp
  with Cons.IH [OF one(2)] Cons.prems(3) show ?case by (simp add: d)
qed simp

text \<open>A chain from the root.\<close>

definition rooted_chain :: "(string \<times> (string \<times> string) list option) list \<Rightarrow> bool" where
  "rooted_chain dirs \<longleftrightarrow> dirs \<noteq> [] \<and> fst (hd dirs) = '''' \<and> (\<forall>(rel, ds) \<in> set (tl dirs). rel \<noteq> '''')"

lemma rooted_chain_directives:
  assumes "configure_chain qhash walk plugins repoName dirs [] = Inr cs" "rooted_chain dirs"
  shows "list_all2 has_directives (rev (map snd dirs)) cs"
proof -
  obtain ds rest where dirs: "dirs = ('''', ds) # rest"
    using assms(2) by (cases dirs) (auto simp: rooted_chain_def)
  obtain cs1 where one: "Configure qhash walk plugins repoName [] '''' ds = Inr cs1"
      "configure_chain qhash walk plugins repoName rest cs1 = Inr cs"
    using assms(1) dirs by (auto split: sum.splits)
  have "list_all2 has_directives [ds] cs1"
    using configured_directives [OF Configure_spec(1) [OF one(1)], of "[]"] by simp
  from configure_chain_directives [OF one(2) this] assms(2) show ?thesis by (simp add: dirs rooted_chain_def)
qed

section \<open>Properties in a directory\<close>

text \<open>The value of a property, given the nearest values of its directive.\<close>

definition property_at :: "'f property \<Rightarrow> (string list \<times> bool) option \<Rightarrow> 'f oval" where
  "property_at p near =
     (case near of
        None \<Rightarrow> pr_Default p
      | Some (v, _) \<Rightarrow> (case parsePropertyValue p v of Inr (Inr x) \<Rightarrow> x | _ \<Rightarrow> pr_Default p))"

definition named :: "(string, 'f property) gomap \<Rightarrow> bool" where
  "named props \<longleftrightarrow> al_wf props \<and> (\<forall>(k, p) \<in> set props. pr_Name p = k)"

lemma named_Cons: "named ((k, p) # props) \<longleftrightarrow> named props \<and> pr_Name p = k \<and> k \<notin> fst ` set props"
  by (auto simp: named_def al_wf_def)

lemma pv_Add_simps [simp]:
  "pv_defs (pv_Add k v local pv) = pv_defs pv"
  "pv_values (pv_Add k v local pv) = (pv_values pv)(k \<mapsto> v)"
  "pv_localKeys (pv_Add k v local pv) = (if local then insert k (pv_localKeys pv) else pv_localKeys pv)"
  by (simp_all add: pv_Add_def Let_def)

lemma add_properties_Cons:
  assumes "add_properties cs ((k, p) # props) pv = Inr pv'" "pr_Name p = k" "getRawValue cs k = Some (v, local)"
  shows "add_properties cs props (pv_Add k (property_at p (Some (v, local))) local pv) = Inr pv'"
  using assms by (auto simp: property_at_def split: sum.splits)

definition properties_of ::
  "'f configs \<Rightarrow> (string, 'f property) gomap \<Rightarrow> 'f property_values \<Rightarrow> 'f property_values \<Rightarrow> string \<Rightarrow> bool" where
  "properties_of cs props pv pv' key \<longleftrightarrow>
     pv_defs pv' = pv_defs pv \<and>
     pv_values pv' key =
       (if map_of props key = None \<or> getRawValue cs key = None then pv_values pv key
        else Some (property_at (the (map_of props key)) (getRawValue cs key))) \<and>
     (key \<in> pv_localKeys pv' \<longleftrightarrow>
        key \<in> pv_localKeys pv \<or> (map_of props key \<noteq> None \<and> (\<exists>v. getRawValue cs key = Some (v, True))))"

lemma add_properties_spec:
  "add_properties cs props pv = Inr pv' \<Longrightarrow> named props \<Longrightarrow> properties_of cs props pv pv' key"
proof (induction props arbitrary: pv)
  case (Cons kp props)
  obtain k p where kp: "kp = (k, p)" by (rule prod.exhaust)
  have k: "pr_Name p = k" "map_of props k = None" "named props"
    using Cons.prems(2) kp by (auto simp: named_Cons map_of_eq_None_iff)
  show ?case
  proof (cases "getRawValue cs k")
    case None
    then have "add_properties cs props pv = Inr pv'" using Cons.prems(1) kp k by simp
    from Cons.IH [OF this k(3)] None show ?thesis by (cases "key = k") (simp_all add: properties_of_def kp)
  next
    case (Some near)
    obtain v local where near: "near = (v, local)" by (rule prod.exhaust)
    have "add_properties cs props (pv_Add k (property_at p (Some (v, local))) local pv) = Inr pv'"
      using add_properties_Cons [of cs k p props pv pv' v local] Cons.prems(1) kp k(1) Some near by simp
    note IH = Cons.IH [OF this k(3)]
    show ?thesis
    proof (cases "key = k")
      case True
      with IH Some near k(2) show ?thesis by (simp add: properties_of_def kp)
    next
      case False
      with IH show ?thesis by (simp add: properties_of_def kp)
    qed
  qed
qed (simp add: properties_of_def)

lemma rooted_chain_last:
  assumes "configure_chain qhash walk plugins repoName (dirs @ [(rel, ds)]) [] = Inr cs"
  obtains parent where "Configure qhash walk plugins repoName parent rel ds = Inr cs"
  using assms by (auto simp: configure_chain_append split: sum.splits)

text \<open>
  C25 (functional). After configuring the directories from the root to one, exactly the plugins
  that the nearest directory with a directive of that name enables, or none disables, are prepared
  there; each reads as a property the parsed value of the nearest directory that sets it, the last
  value if it is a single one, or the default if none is set or it cannot be parsed, and sees it as
  local exactly when the directory's own BUILD file sets it.
\<close>

theorem orion_property_value:
  assumes "configure_chain qhash walk plugins repoName (dirs @ [(rel, ds)]) [] = Inr cs"
    and "rooted_chain (dirs @ [(rel, ds)])" "al_wf plugins"
    and "map_of plugins k = Some p" "named (gp_properties p)" "map_of (gp_properties p) key = Some decl"
  defines "near \<equiv> nearest (rev (map snd (dirs @ [(rel, ds)])))"
  shows "(map_of (bc_prepared (hd cs)) k \<noteq> None \<longleftrightarrow>
      (\<forall>v local. near k = Some (v, local) \<longrightarrow> last v = ''enabled'')) \<and>
    (\<forall>pc. map_of (bc_prepared (hd cs)) k = Some pc \<longrightarrow>
      pv_Get ord (pc_Properties (gc_context pc)) (SString key) = map_sum id Inr (Write ord (property_at decl (near key))) \<and>
      is_local (pc_Properties (gc_context pc)) key = Inr (declared ds key \<noteq> []))"
proof -
  obtain parent where conf: "Configure qhash walk plugins repoName parent rel ds = Inr cs"
    using rooted_chain_last [OF assms(1)] .
  note conf_spec = Configure_spec [OF conf]
  let ?u = "unprepared repoName parent rel ds"
  have near: "getRawValue cs x = near x" for x
    using getRawValue_nearest [OF rooted_chain_directives [OF assms(1,2)]] by (simp add: near_def)
  have enabled: "IsPluginEnabled cs k \<longleftrightarrow> (\<forall>v local. near k = Some (v, local) \<longrightarrow> last v = ''enabled'')"
    by (auto simp: IsPluginEnabled_def near split: option.splits)
  show ?thesis
  proof (cases "IsPluginEnabled cs k")
    case False
    with conf_spec(2) enabled show ?thesis by simp
  next
    case True
    then obtain ctx result d where
        ctx: "configToPrepareContext (walk rel) (\<lambda>key. getPluginData (tl ?u) k key) p ?u = Inr ctx"
        and pc: "map_of (bc_prepared (hd cs)) k = Some \<lparr>gc_context = ctx\<lparr>pc_Data := Some (Seal d)\<rparr>, gc_result = result,
          gc_queriesHash = qhash (ps_Queries result)\<rparr>"
      using conf_spec(3) [OF assms(3,4)] unfolding prepared_as_def by blast
    have u: "getRawValue ?u x = near x" for x
      using near same_directives_getRawValue [OF conf_spec(1)] by simp
    obtain pv where pv: "add_properties ?u (gp_properties p) (NewPropertyValues (gp_properties p)) = Inr pv"
        "pc_Properties ctx = pv"
      using ctx by (cases "add_properties ?u (gp_properties p) (NewPropertyValues (gp_properties p))")
        (auto simp: configToPrepareContext_def)
    have "properties_of ?u (gp_properties p) (NewPropertyValues (gp_properties p)) pv key"
      by (rule add_properties_spec [OF pv(1) assms(5)])
    then have props: "pv_defs pv key = Some decl"
        "pv_values pv key = (if near key = None then None else Some (property_at decl (near key)))"
        "key \<in> pv_localKeys pv \<longleftrightarrow> (\<exists>v. near key = Some (v, True))"
      by (simp_all add: properties_of_def u assms(6) NewPropertyValues_def)
    have own: "(\<exists>v. near key = Some (v, True)) \<longleftrightarrow> declared ds key \<noteq> []"
      by (auto simp: near_def)
    have get: "pv_Get ord pv (SString key) = map_sum id Inr (Write ord (property_at decl (near key)))"
      using props by (simp add: pv_Get_def ReadString_def property_at_def)
    have loc: "is_local pv key = Inr (declared ds key \<noteq> [])"
      using props own by (simp add: is_local_def pv_IsLocal_def)
    from True enabled pc get loc pv(2) show ?thesis by simp
  qed
qed

definition sample_plugin :: "string plugin" where
  "sample_plugin =
     \<lparr>gp_name = ''p'', gp_properties = [(''n'', \<lparr>pr_Name = ''n'', pr_Type = ''[]string'', pr_Default = GStrings []\<rparr>)],
      gp_prepare = Some (\<lambda>ctx. (CallNone, [(SString ''d'', SInt 5)])), gp_analyze = None, gp_declare = None\<rparr>"

theorem orion_property_value_witness:
  "\<exists>cs pc. configure_chain (\<lambda>_. ''h'') (\<lambda>_ _. False) [(''p'', sample_plugin)] ''r''
      ([('''', Some [(''n'', ''1'')])] @ [(''a'', Some [(''n'', ''12''), (''n'', ''-7'')])]) [] = Inr cs \<and>
    map_of (bc_prepared (hd cs)) ''p'' = Some pc \<and>
    pv_Get id (pc_Properties (gc_context pc)) (SString ''n'') = Inr (Inr (SList [SString ''12'', SString ''-7'']))"
proof -
  let ?decl = "\<lparr>pr_Name = ''n'', pr_Type = ''[]string'', pr_Default = GStrings []\<rparr> :: string property"
  let ?run = "configure_chain (\<lambda>_. ''h'') (\<lambda>_ _. False) [(''p'', sample_plugin)] ''r''
      ([('''', Some [(''n'', ''1'')])] @ [(''a'', Some [(''n'', ''12''), (''n'', ''-7'')])]) []"
  have "is_ok ?run" by code_simp
  then obtain cs where cs: "?run = Inr cs" by (auto simp: is_ok_iff)
  have near: "nearest (rev (map snd ([('''', Some [(''n'', ''1'')])] @ [(''a'', Some [(''n'', ''12''), (''n'', ''-7'')])]))) ''p'' = None"
    "property_at ?decl (nearest (rev (map snd ([('''', Some [(''n'', ''1'')])] @
      [(''a'', Some [(''n'', ''12''), (''n'', ''-7'')])]))) ''n'') = GStrings [''12'', ''-7'']"
    by (code_simp, code_simp)
  have "rooted_chain ([('''', Some [(''n'', ''1'')])] @ [(''a'', Some [(''n'', ''12''), (''n'', ''-7'')])])"
    by (simp add: rooted_chain_def)
  moreover have "al_wf [(''p'', sample_plugin)]" "map_of [(''p'', sample_plugin)] ''p'' = Some sample_plugin"
    by (simp_all add: al_wf_def)
  moreover have "named (gp_properties sample_plugin)" "map_of (gp_properties sample_plugin) ''n'' = Some ?decl"
    by (simp_all add: named_def al_wf_def sample_plugin_def)
  ultimately have
    "map_of (bc_prepared (hd cs)) ''p'' \<noteq> None \<and> (\<forall>pc. map_of (bc_prepared (hd cs)) ''p'' = Some pc \<longrightarrow>
      pv_Get id (pc_Properties (gc_context pc)) (SString ''n'') = map_sum id Inr (Write id (GStrings [''12'', ''-7''])))"
    using orion_property_value [OF cs, of "''p''" sample_plugin "''n''" ?decl]
    unfolding near by (simp only: option.simps) blast
  then obtain pc where pc: "map_of (bc_prepared (hd cs)) ''p'' = Some pc"
      "pv_Get id (pc_Properties (gc_context pc)) (SString ''n'') = map_sum id Inr (Write id (GStrings [''12'', ''-7'']))"
    by blast
  have "map_sum id Inr (Write id (GStrings [''12'', ''-7''] :: string oval)) =
    Inr (Inr (SList [SString ''12'', SString ''-7'']))" by simp
  then show ?thesis using cs pc(1) pc(2) [THEN trans] by (intro exI conjI)
qed

section \<open>Data that plugins keep\<close>

definition pd_own :: "'f plugin_data \<Rightarrow> string \<Rightarrow> 'f oval option" where
  "pd_own d key = Option.bind (pd_local d) (\<lambda>m. m key)"

lemma Seal_simps [simp]:
  "pd_local (Seal d) = pd_local d" "pd_inherit (Seal d) = pd_inherit d" "\<not> pd_writable (Seal d)"
  by (simp_all add: Seal_def)

lemma SetKey_kept:
  assumes "SetKey d k v = Inr d'" "dicts_ok v" "rearranges ord"
  obtains g s where "Write ord g = Inr s" "star_eq s (kept v)"
    "pd_inherit d' = pd_inherit d" "pd_writable d' = pd_writable d"
    "pd_own d' key = (if k = SString key then Some g else pd_own d key)"
proof -
  obtain name where k: "k = SString name" "ReadString k = Inr name"
    using assms(1) by (cases k) (auto simp: SetKey_def ReadString_def split: if_splits)
  obtain g where g: "Read v = Inr g"
    and d': "d' = d\<lparr>pd_local := Some ((case pd_local d of None \<Rightarrow> Map.empty | Some m \<Rightarrow> m)(name \<mapsto> g))\<rparr>"
    using assms(1) k by (auto simp: SetKey_def split: if_splits sum.splits)
  obtain s where "Write ord g = Inr s" "star_eq s (kept v)"
    using read_write [OF assms(3,2) g] by blast
  then show ?thesis by (rule that) (use k(1) in \<open>auto simp: d' pd_own_def split: option.splits\<close>)
qed

text \<open>What reading a key of the data's own gives.\<close>

definition own_reads :: "'f omap_order \<Rightarrow> 'f plugin_data \<Rightarrow> string \<Rightarrow> 'f ostar \<Rightarrow> bool" where
  "own_reads ord d key v = (\<exists>g s. pd_own d key = Some g \<and> Write ord g = Inr s \<and> star_eq s (kept v))"

lemma write_data_kept:
  "write_data ws d = Inr d' \<Longrightarrow> \<forall>(k, v) \<in> set ws. dicts_ok v \<Longrightarrow> rearranges ord \<Longrightarrow>
   pd_inherit d' = pd_inherit d \<and>
   (case map_of (rev ws) (SString key) of
      None \<Rightarrow> pd_own d' key = pd_own d key
    | Some v \<Rightarrow> own_reads ord d' key v)"
proof (induction ws arbitrary: d)
  case (Cons w ws)
  obtain k v where w: "w = (k, v)" by (rule prod.exhaust)
  obtain d1 where d1: "SetKey d k v = Inr d1" "write_data ws d1 = Inr d'"
    using Cons.prems(1) w by (auto split: sum.splits)
  obtain g s where g: "Write ord g = Inr s" "star_eq s (kept v)" "pd_inherit d1 = pd_inherit d"
      "pd_writable d1 = pd_writable d" "pd_own d1 key = (if k = SString key then Some g else pd_own d key)"
    by (rule SetKey_kept [OF d1(1) _ Cons.prems(3), of key]) (use Cons.prems(2) w in simp)
  have "pd_inherit d' = pd_inherit d1 \<and>
      (case map_of (rev ws) (SString key) of
         None \<Rightarrow> pd_own d' key = pd_own d1 key
       | Some v \<Rightarrow> own_reads ord d' key v)"
    by (rule Cons.IH [OF d1(2) _ Cons.prems(3)]) (use Cons.prems(2) in simp)
  with g w show ?case by (cases "map_of (rev ws) (SString key)") (simp_all add: map_add_def own_reads_def)
qed simp

lemma Prepare_data:
  assumes "Prepare p ctx = Inr (result, Some d)" "gp_prepare p = Some f" "pc_Data ctx = Some d0"
  shows "write_data (snd (f ctx)) d0 = Inr d"
proof -
  obtain r ws where f: "f ctx = (r, ws)" by (rule prod.exhaust)
  show ?thesis
  proof (cases "write_data ws d0")
    case (Inr d1)
    with assms f show ?thesis by (cases "call_prepared r") (simp_all add: Prepare_def write_context_data_def)
  qed (use assms f in \<open>simp add: Prepare_def write_context_data_def\<close>)
qed

text \<open>
  C31 (roundtrip). What a plugin wrote into its data while a directory was prepared is what its
  later functions read there, although it was kept as a Go value: of any value the data accepted,
  the last one written under the key, Starlark code reads an equal one, with lists for tuples, sets
  and the other values with elements, and with the entries of dictionaries in any order the runtime
  iterates over a Go map; a key it did not write has the value of the nearest directory above. The
  directories below inherit exactly what it reads, and after its preparation no write is accepted.
  (Only the keys of a Starlark dictionary being distinct is used of the values.)
\<close>

theorem orion_data_roundtrip:
  assumes "Configure qhash walk plugins repoName parent rel ds = Inr cs" "al_wf plugins"
    and "map_of plugins k = Some p" "IsPluginEnabled cs k" "gp_prepare p = Some f"
    and "\<forall>ctx. \<forall>(k, v) \<in> set (snd (f ctx)). dicts_ok v" "rearranges ord"
  shows "\<exists>pc ctx data. map_of (bc_prepared (hd cs)) k = Some pc \<and>
    ctx = (gc_context pc)\<lparr>pc_Data := Some (NewPluginData (getPluginData (if rel = '''' then [] else parent) k))\<rparr> \<and>
    pc_Data (gc_context pc) = Some data \<and>
    (case map_of (rev (snd (f ctx))) (SString key) of
       Some v \<Rightarrow> (\<exists>s. pd_Get ord data (SString key) = Inr (Inr (Some s)) \<and> star_eq s (kept v))
     | None \<Rightarrow> pd_lookup data key = getPluginData (if rel = '''' then [] else parent) k key) \<and>
    getPluginData cs k key = pd_lookup data key \<and>
    SetKey data kv v = Inl ReadOnly"
proof -
  let ?u = "unprepared repoName parent rel ds"
  let ?up = "getPluginData (if rel = '''' then [] else parent) k"
  obtain ctx result d where
      ctx: "configToPrepareContext (walk rel) (\<lambda>key. getPluginData (tl ?u) k key) p ?u = Inr ctx"
      and pr: "Prepare p ctx = Inr (result, Some d)"
      and pc: "map_of (bc_prepared (hd cs)) k = Some \<lparr>gc_context = ctx\<lparr>pc_Data := Some (Seal d)\<rparr>, gc_result = result,
        gc_queriesHash = qhash (ps_Queries result)\<rparr>"
      and data: "bc_data (hd cs) k = (case pd_local d of None \<Rightarrow> bc_data (hd ?u) k | Some m \<Rightarrow> Some m)"
    using Configure_spec(3) [OF assms(1-4)] unfolding prepared_as_def by blast
  have tl: "tl cs = tl ?u" "cs \<noteq> []"
    using Configure_spec(1) [OF assms(1)] by (simp_all add: same_directives_def)
  have up: "getPluginData (tl ?u) k = ?up" by (simp add: unprepared_simps)
  have new: "pc_Data ctx = Some (NewPluginData ?up)"
    using ctx up by (cases "add_properties ?u (gp_properties p) (NewPropertyValues (gp_properties p))")
      (auto simp: configToPrepareContext_def)
  have "pd_inherit d = ?up \<and>
      (case map_of (rev (snd (f ctx))) (SString key) of
         None \<Rightarrow> pd_own d key = None
       | Some v \<Rightarrow> own_reads ord d key v)"
    using write_data_kept [OF Prepare_data [OF pr assms(5) new], of ord key] assms(6,7)
    by (simp add: NewPluginData_def pd_own_def split: option.splits)
  then have written: "pd_inherit d key = ?up key"
      "case map_of (rev (snd (f ctx))) (SString key) of
         None \<Rightarrow> pd_own d key = None
       | Some v \<Rightarrow> own_reads ord d key v"
    by simp_all
  have look: "pd_lookup (Seal d) key = (case pd_own d key of Some v \<Rightarrow> Some v | None \<Rightarrow> pd_inherit d key)"
    by (simp only: pd_lookup_def pd_own_def Seal_simps)
  have own: "Option.bind (bc_data (hd cs) k) (\<lambda>d. d key) = pd_own d key"
    using data by (simp add: pd_own_def unprepared_simps split: option.splits)
  have "getPluginData cs k key = pd_lookup (Seal d) key"
    using tl written(1) own look up by (cases cs) (simp_all split: option.splits)
  moreover have "case map_of (rev (snd (f ctx))) (SString key) of
         Some v \<Rightarrow> (\<exists>s. pd_Get ord (Seal d) (SString key) = Inr (Inr (Some s)) \<and> star_eq s (kept v))
       | None \<Rightarrow> pd_lookup (Seal d) key = ?up key"
    using written look by (auto simp: pd_Get_def ReadString_def own_reads_def split: option.splits)
  moreover have "SetKey (Seal d) kv v = Inl ReadOnly" by (simp add: SetKey_def Seal_def)
  moreover have "ctx = (ctx\<lparr>pc_Data := Some (Seal d)\<rparr>)\<lparr>pc_Data := Some (NewPluginData ?up)\<rparr>"
    using new by simp
  ultimately show ?thesis
    using pc by (intro exI [of _ "\<lparr>gc_context = ctx\<lparr>pc_Data := Some (Seal d)\<rparr>, gc_result = result,
        gc_queriesHash = qhash (ps_Queries result)\<rparr>"] exI [of _ ctx] exI [of _ "Seal d"]) simp
qed

theorem orion_data_roundtrip_witness:
  "\<exists>cs pc data s. Configure (\<lambda>_. ''h'') (\<lambda>_ _. False) [(''p'', sample_plugin)] ''r'' [] '''' None = Inr cs \<and>
    map_of (bc_prepared (hd cs)) ''p'' = Some pc \<and> pc_Data (gc_context pc) = Some data \<and>
    pd_Get id data (SString ''d'') = Inr (Inr (Some s)) \<and> star_eq s (SInt 5)"
proof -
  let ?run = "Configure (\<lambda>_. ''h'') (\<lambda>_ _. False) [(''p'', sample_plugin)] ''r'' [] '''' None"
  have "is_ok ?run" by code_simp
  then obtain cs where cs: "?run = Inr cs" by (auto simp: is_ok_iff)
  have "getRawValue cs ''p'' = None"
    using same_directives_getRawValue [OF Configure_spec(1) [OF cs], of "''p''"]
    by (simp add: unprepared_def Let_def NewRootConfig_def)
  then have enabled: "IsPluginEnabled cs ''p''" by (simp add: IsPluginEnabled_def)
  have plugins: "al_wf [(''p'', sample_plugin)]" "map_of [(''p'', sample_plugin)] ''p'' = Some sample_plugin"
    by (simp_all add: al_wf_def)
  let ?f = "\<lambda>ctx :: string prepare_context. (CallNone, [(SString ''d'', SInt 5 :: string ostar)])"
  have prep: "gp_prepare sample_plugin = Some ?f" by (simp add: sample_plugin_def)
  have plain: "\<forall>ctx. \<forall>(k, v) \<in> set (snd (?f ctx)). dicts_ok v" by simp
  have last: "map_of (rev (snd (?f ctx))) (SString ''d'') = Some (SInt 5)" for ctx by simp
  have ord: "rearranges id" by (simp add: rearranges_def)
  obtain pc data s where "map_of (bc_prepared (hd cs)) ''p'' = Some pc" "pc_Data (gc_context pc) = Some data"
      "pd_Get id data (SString ''d'') = Inr (Inr (Some s))" "star_eq s (SInt 5)"
    using orion_data_roundtrip [OF cs plugins enabled prep plain ord, of "''d''"]
    unfolding last option.case kept.simps by blast
  with cs show ?thesis by (intro exI conjI)
qed

end
