(* ===== verification/Orion_Host.thy ===== *)
theory Orion_Host
  imports Orion_Config Labels Go_Path
begin

text \<open>
  The host of orion plugins (\<open>language/orion/host.go\<close>, \<open>builtin.go\<close>) and the registration of kinds
  and plugins by Starlark code (\<open>starzelle/plugin.go\<close>). Evaluating a file is a parameter that gives
  the calls the file makes, in order. \<open>label.Parse\<close> and \<open>Label.String\<close> are third-party.
\<close>

section \<open>The host\<close>

record rule_kind =
  rk_Name :: string
  rk_From :: string
  rk_MatchAny :: bool
  rk_MatchAttrs :: "string list"
  rk_NonEmptyAttrs :: "string list"
  rk_MergeableAttrs :: "string list"
  rk_ResolveAttrs :: "string list"
  rk_RegisteredFrom :: string

text \<open>What the extension tells of its kinds and of the files they are loaded from.\<close>

record host_kind =
  hk_MatchAny :: bool
  hk_MatchAttrs :: "string list"
  hk_NonEmptyAttrs :: "string set"
  hk_MergeableAttrs :: "string set"
  hk_ResolveAttrs :: "string set"

record host_load =
  hl_Name :: string
  hl_Symbols :: "string list"

record 'f host =
  gh_database :: database
  gh_pluginIds :: "string list"
  gh_plugins :: "(string, 'f plugin) gomap"
  gh_kinds :: "(string, rule_kind) gomap"
  gh_sourceRuleKinds :: "string list"
  gh_loadInfo :: "host_load list option"
  gh_kindInfo :: "(string, host_kind) gomap option"

definition builtinKinds :: "rule_kind list" where
  "builtinKinds =
     [\<lparr>rk_Name = ''copy_to_bin'', rk_From = ''@bazel_lib//lib:copy_to_bin.bzl'', rk_MatchAny = False, rk_MatchAttrs = [],
       rk_NonEmptyAttrs = [''srcs''], rk_MergeableAttrs = [''srcs''], rk_ResolveAttrs = [], rk_RegisteredFrom = ''''\<rparr>]"

definition AddPlugin :: "'f plugin \<Rightarrow> 'f host \<Rightarrow> 'f host" where
  "AddPlugin p h =
     h\<lparr>gh_pluginIds := gh_pluginIds h @ [gp_name p], gh_plugins := al_put (gh_plugins h) (gp_name p) p\<rparr>"

definition AddKind :: "rule_kind \<Rightarrow> 'f host \<Rightarrow> 'f host" where
  "AddKind k h =
     h\<lparr>gh_kinds := al_put (gh_kinds h) (rk_Name k) k, gh_kindInfo := None, gh_loadInfo := None\<rparr>"

definition host_kind_of :: "rule_kind \<Rightarrow> host_kind" where
  "host_kind_of k =
     \<lparr>hk_MatchAny = rk_MatchAny k, hk_MatchAttrs = rk_MatchAttrs k, hk_NonEmptyAttrs = set (rk_NonEmptyAttrs k),
      hk_MergeableAttrs = set (rk_MergeableAttrs k), hk_ResolveAttrs = set (rk_ResolveAttrs k)\<rparr>"

text \<open>The generated kinds are kept in a sorted set of the third-party package \<open>gods\<close>.\<close>

definition Kinds :: "string treeset_add \<Rightarrow> 'f host \<Rightarrow> (string, host_kind) gomap \<times> 'f host" where
  "Kinds add h =
     (case gh_kindInfo h of
        Some m \<Rightarrow> (m, h)
      | None \<Rightarrow>
          let m = map (\<lambda>(n, k). (n, host_kind_of k)) (gh_kinds h)
          in (m, h\<lparr>gh_kindInfo := Some m, gh_sourceRuleKinds := foldl add (gh_sourceRuleKinds h) (map fst (gh_kinds h))\<rparr>))"

record label_text =
  lt_parse :: "string \<Rightarrow> label option"
  lt_string :: "label \<Rightarrow> string"

text \<open>The file a kind is loaded from; none is a kind without one, or with one that is no label.\<close>

definition load_file :: "label_text \<Rightarrow> (string \<Rightarrow> string) \<Rightarrow> rule_kind \<Rightarrow> string option" where
  "load_file lt moduleToApparentName r =
     (if rk_From r = '''' then None
      else case lt_parse lt (rk_From r) of
        None \<Rightarrow> None
      | Some from \<Rightarrow>
          let apparentName = moduleToApparentName (Repo from)
          in Some (lt_string lt
               (if Repo from \<noteq> '''' \<and> apparentName \<noteq> '''' then Label apparentName (Pkg from) (Name from) (Relative from)
                else from)))"

fun collect_loads ::
  "label_text \<Rightarrow> (string \<Rightarrow> string) \<Rightarrow> (string, rule_kind) gomap \<Rightarrow> (string, string list) gomap \<Rightarrow>
   (string, string list) gomap" where
  "collect_loads lt f [] loads = loads"
| "collect_loads lt f ((name, r) # kinds) loads =
     (case load_file lt f r of
        None \<Rightarrow> collect_loads lt f kinds loads
      | Some from \<Rightarrow> collect_loads lt f kinds (al_append loads from name))"

definition loads_of :: "label_text \<Rightarrow> (string \<Rightarrow> string) \<Rightarrow> (string, rule_kind) gomap \<Rightarrow> host_load list" where
  "loads_of lt f kinds =
     map (\<lambda>(from, symbols). \<lparr>hl_Name = from, hl_Symbols = symbols\<rparr>) (collect_loads lt f kinds [])"

definition ApparentLoads :: "label_text \<Rightarrow> (string \<Rightarrow> string) \<Rightarrow> 'f host \<Rightarrow> host_load list \<times> 'f host" where
  "ApparentLoads lt f h =
     (case gh_loadInfo h of
        Some l \<Rightarrow> (l, h)
      | None \<Rightarrow> let l = loads_of lt f (gh_kinds h) in (l, h\<lparr>gh_loadInfo := Some l\<rparr>))"

definition PluginRegisteredKinds :: "'f host \<Rightarrow> (string, rule_kind) gomap" where
  "PluginRegisteredKinds h = filter (\<lambda>(n, _). n \<notin> rk_Name ` set builtinKinds) (gh_kinds h)"

section \<open>Loading plugins\<close>

text \<open>
  The attributes of a kind are a dictionary, or none was given: reading an entry of no dictionary
  is a nil dereference. The errors of the entries are joined.
\<close>

definition readRuleKind :: "string \<Rightarrow> 'f ostar option \<Rightarrow> (read_error list + rule_kind) outcome" where
  "readRuleKind n v =
     (case v of
        None \<Rightarrow> Inl (Panic ''nil dereference'')
      | Some v \<Rightarrow>
          let from = ReadMapEntry v ''From'' ReadString '''';
              matchAny = ReadMapEntry v ''MatchAny'' ReadBool False;
              matchAttrs = ReadMapEntry v ''MatchAttrs'' ReadStringList [];
              nonEmptyAttrs = ReadMapEntry v ''NonEmptyAttrs'' ReadStringList [];
              mergeableAttrs = ReadMapEntry v ''MergeableAttrs'' ReadStringList [];
              resolveAttrs = ReadMapEntry v ''ResolveAttrs'' ReadStringList [];
              errs = List.map_filter id [snd from, snd matchAny, snd matchAttrs, snd nonEmptyAttrs, snd mergeableAttrs,
                snd resolveAttrs]
          in Inr (if errs \<noteq> [] then Inl errs
                  else Inr \<lparr>rk_Name = n, rk_From = fst from, rk_MatchAny = fst matchAny,
                         rk_MatchAttrs = fst matchAttrs, rk_NonEmptyAttrs = fst nonEmptyAttrs,
                         rk_MergeableAttrs = fst mergeableAttrs, rk_ResolveAttrs = fst resolveAttrs,
                         rk_RegisteredFrom = ''''\<rparr>))"

definition host_addKind :: "string \<Rightarrow> string \<Rightarrow> 'f ostar option \<Rightarrow> 'f host \<Rightarrow> (string + 'f host) outcome" where
  "host_addKind pluginPath name attributes h =
     (case readRuleKind name attributes of
        Inl e \<Rightarrow> Inl e
      | Inr (Inl _) \<Rightarrow> Inr (Inl (''failed to read rule kind '' @ name))
      | Inr (Inr k) \<Rightarrow> Inr (Inr (AddKind (k\<lparr>rk_RegisteredFrom := pluginPath\<rparr>) h)))"

text \<open>The properties given, a value that is none is \<open>None\<close>.\<close>

fun read_properties ::
  "('f ostar \<times> 'f property option) list \<Rightarrow> (string, 'f property) gomap \<Rightarrow> string + (string, 'f property) gomap" where
  "read_properties [] m = Inr m"
| "read_properties ((kv, v) # d) m =
     (case ReadString kv of
        Inl _ \<Rightarrow> Inl ''expected a string key''
      | Inr k \<Rightarrow> (case readProperty k v of Inl e \<Rightarrow> Inl e | Inr p \<Rightarrow> read_properties d (al_put m k p)))"

definition host_addPlugin ::
  "'f plugin \<Rightarrow> ('f ostar \<times> 'f property option) list option \<Rightarrow> 'f host \<Rightarrow> string + 'f host" where
  "host_addPlugin p properties h =
     (case (case properties of None \<Rightarrow> Inr [] | Some d \<Rightarrow> read_properties d []) of
        Inl e \<Rightarrow> Inl (''failed to read plugin properties for '' @ gp_name p)
      | Inr props \<Rightarrow> Inr (AddPlugin (p\<lparr>gp_properties := props\<rparr>) h))"

text \<open>
  A call of plugin code to the host, with the functions given in a plugin. A call that fails ends the
  evaluation of the file.
\<close>

datatype 'f host_call =
    CallKind string "'f ostar option"
  | CallPlugin "'f plugin" "('f ostar \<times> 'f property option) list option"

fun eval_calls :: "string \<Rightarrow> 'f host_call list \<Rightarrow> 'f host \<Rightarrow> 'f host outcome" where
  "eval_calls path [] h = Inr h"
| "eval_calls path (CallKind name attributes # calls) h =
     (case host_addKind path name attributes h of
        Inl e \<Rightarrow> Inl e | Inr (Inl _) \<Rightarrow> Inr h | Inr (Inr h') \<Rightarrow> eval_calls path calls h')"
| "eval_calls path (CallPlugin p properties # calls) h =
     (case host_addPlugin p properties h of Inl _ \<Rightarrow> Inr h | Inr h' \<Rightarrow> eval_calls path calls h')"

text \<open>An error of the evaluation is only printed.\<close>

definition LoadPlugin :: "(string \<Rightarrow> string \<Rightarrow> 'f host_call list) \<Rightarrow> string \<Rightarrow> string \<Rightarrow> 'f host \<Rightarrow> 'f host outcome" where
  "LoadPlugin code pluginDir pluginPath h =
     (if gh_kindInfo h \<noteq> None \<or> gh_loadInfo h \<noteq> None
      then Inl (Fatal ''Cannot add plugin after configuration has started'')
      else eval_calls pluginPath (code pluginDir pluginPath) h)"

fun load_all ::
  "(string \<Rightarrow> string \<Rightarrow> 'f host_call list) \<Rightarrow> string \<Rightarrow> string list \<Rightarrow> 'f host \<Rightarrow> 'f host outcome" where
  "load_all code dir [] h = Inr h"
| "load_all code dir (p # ps) h =
     (case LoadPlugin code dir p h of Inl e \<Rightarrow> Inl e | Inr h' \<Rightarrow> load_all code dir ps h')"

record host_system =
  hs_cwd :: "string option"
  hs_workspace :: "string \<Rightarrow> string option"
  hs_env :: "string \<Rightarrow> string"
  hs_glob :: "string \<Rightarrow> string list option"

definition loadStarzellePlugins ::
  "host_system \<Rightarrow> (string \<Rightarrow> string \<Rightarrow> 'f host_call list) \<Rightarrow> string list \<Rightarrow> 'f host \<Rightarrow> 'f host outcome" where
  "loadStarzellePlugins sys code plugins h =
     (if plugins = [] then Inr h
      else case hs_cwd sys of
        None \<Rightarrow> Inl (Fatal ''Failed to find CWD'')
      | Some wd \<Rightarrow>
        (case hs_workspace sys wd of
           None \<Rightarrow> Inl (Fatal ''Failed to find bazel workspace'')
         | Some wr \<Rightarrow> load_all code wr plugins h))"

text \<open>The directory of plugins given by the environment, and its plugins; \<open>Getwd\<close>'s error is ignored.\<close>

definition builtinPluginDir :: "host_system \<Rightarrow> string" where
  "builtinPluginDir sys =
     (if hs_env sys ''BAZEL_TEST'' \<noteq> '''' then path_join [hs_env sys ''RUNFILES_DIR'', hs_env sys ''TEST_WORKSPACE'']
      else if hs_env sys ''BUILD_WORKSPACE_DIRECTORY'' \<noteq> '''' then hs_env sys ''BUILD_WORKSPACE_DIRECTORY''
      else case hs_cwd sys of None \<Rightarrow> '''' | Some wd \<Rightarrow> wd)"

definition env_plugins :: "host_system \<Rightarrow> string list outcome" where
  "env_plugins sys =
     (let dir = builtinPluginDir sys;
          listed = hs_env sys ''ORION_EXTENSIONS'';
          subdir = hs_env sys ''ORION_EXTENSIONS_DIR'';
          named = (if listed \<noteq> '''' then Split (CHR '','') listed else [])
      in if subdir = '''' then Inr named
         else case hs_glob sys (path_join [if IsAbs subdir then subdir else path_join [dir, subdir], ''*.axl'']) of
           None \<Rightarrow> Inl (Fatal ''Failed to find builtin plugins'')
         | Some found \<Rightarrow> Inr (named @ SortStrings found))"

definition loadEnvStarzellePlugins ::
  "host_system \<Rightarrow> (string \<Rightarrow> string \<Rightarrow> 'f host_call list) \<Rightarrow> 'f host \<Rightarrow> 'f host outcome" where
  "loadEnvStarzellePlugins sys code h =
     (case env_plugins sys of
        Inl e \<Rightarrow> Inl e
      | Inr plugins \<Rightarrow>
          let dir = builtinPluginDir sys
          in load_all code dir (map (\<lambda>p. case filepath_Rel dir p of Some rel \<Rightarrow> rel | None \<Rightarrow> p) plugins) h)"

definition empty_host :: "'f host" where
  "empty_host =
     \<lparr>gh_database = [], gh_pluginIds = [], gh_plugins = [],
      gh_kinds = foldl (\<lambda>m k. al_put m (rk_Name k) k) [] builtinKinds,
      gh_sourceRuleKinds = [], gh_loadInfo = None, gh_kindInfo = None\<rparr>"

definition NewLanguage ::
  "host_system \<Rightarrow> (string \<Rightarrow> string \<Rightarrow> 'f host_call list) \<Rightarrow> string list \<Rightarrow> 'f host outcome" where
  "NewLanguage sys code plugins =
     (case loadStarzellePlugins sys code plugins empty_host of
        Inl e \<Rightarrow> Inl e
      | Inr h \<Rightarrow> loadEnvStarzellePlugins sys code h)"

section \<open>Uses of the host\<close>

text \<open>What gazelle and the runner do with the host, in any order, and what they are told.\<close>

datatype host_use = UseLoad string string | UseKinds | UseLoads

datatype host_answer = KindsAnswer "(string, host_kind) gomap" | LoadsAnswer "host_load list"

fun use_host ::
  "string treeset_add \<Rightarrow> label_text \<Rightarrow> (string \<Rightarrow> string) \<Rightarrow> (string \<Rightarrow> string \<Rightarrow> 'f host_call list) \<Rightarrow>
   host_use list \<Rightarrow> 'f host \<Rightarrow> (host_answer list \<times> 'f host) outcome" where
  "use_host add lt f code [] h = Inr ([], h)"
| "use_host add lt f code (UseLoad dir path # us) h =
     (case LoadPlugin code dir path h of Inl e \<Rightarrow> Inl e | Inr h' \<Rightarrow> use_host add lt f code us h')"
| "use_host add lt f code (UseKinds # us) h =
     (case Kinds add h of (m, h') \<Rightarrow>
        map_sum id (\<lambda>(as, h''). (KindsAnswer m # as, h'')) (use_host add lt f code us h'))"
| "use_host add lt f code (UseLoads # us) h =
     (case ApparentLoads lt f h of (l, h') \<Rightarrow>
        map_sum id (\<lambda>(as, h''). (LoadsAnswer l # as, h'')) (use_host add lt f code us h'))"

definition kinds_told :: "(string, rule_kind) gomap \<Rightarrow> (string, host_kind) gomap" where
  "kinds_told kinds = map (\<lambda>(n, k). (n, host_kind_of k)) kinds"

text \<open>What is kept agrees with the kinds.\<close>

definition host_inv :: "label_text \<Rightarrow> (string \<Rightarrow> string) \<Rightarrow> 'f host \<Rightarrow> bool" where
  "host_inv lt f h \<longleftrightarrow>
     (\<forall>m. gh_kindInfo h = Some m \<longrightarrow> m = kinds_told (gh_kinds h)) \<and>
     (\<forall>l. gh_loadInfo h = Some l \<longrightarrow> l = loads_of lt f (gh_kinds h))"

definition started :: "'f host \<Rightarrow> bool" where
  "started h \<longleftrightarrow> gh_kindInfo h \<noteq> None \<or> gh_loadInfo h \<noteq> None"

lemma eval_calls_not_started: "eval_calls path calls h = Inr h' \<Longrightarrow> \<not> started h \<Longrightarrow> \<not> started h'"
  by (induction path calls h rule: eval_calls.induct)
    (auto simp: host_addKind_def host_addPlugin_def AddKind_def AddPlugin_def started_def split: sum.splits)

lemma not_started_inv: "\<not> started h \<Longrightarrow> host_inv lt f h"
  by (simp add: started_def host_inv_def)

lemma use_host_spec:
  "use_host add lt f code us h = Inr (as, h') \<Longrightarrow> host_inv lt f h \<Longrightarrow>
   host_inv lt f h' \<and> (started h \<or> as \<noteq> [] \<longrightarrow> started h') \<and>
   (started h \<longrightarrow> gh_kinds h' = gh_kinds h \<and> gh_plugins h' = gh_plugins h) \<and>
   (\<forall>a \<in> set as. a = KindsAnswer (kinds_told (gh_kinds h')) \<or> a = LoadsAnswer (loads_of lt f (gh_kinds h')))"
proof (induction add lt f code us h arbitrary: as rule: use_host.induct)
  case (2 add lt f code dir path us h)
  obtain h1 where h1: "LoadPlugin code dir path h = Inr h1" "use_host add lt f code us h1 = Inr (as, h')"
    using "2.prems"(1) by (auto split: sum.splits)
  have new: "\<not> started h" "eval_calls path (code dir path) h = Inr h1"
    using h1(1) by (auto simp: LoadPlugin_def started_def split: if_splits)
  have "host_inv lt f h1" by (rule not_started_inv [OF eval_calls_not_started [OF new(2,1)]])
  from "2.IH" [OF h1 this] new(1) show ?case by simp
next
  case (3 add lt f code us h)
  obtain m h1 where m: "Kinds add h = (m, h1)" by (rule prod.exhaust)
  then obtain as1 where as1: "use_host add lt f code us h1 = Inr (as1, h')" "as = KindsAnswer m # as1"
    using "3.prems"(1) by (cases "use_host add lt f code us h1") auto
  have h1: "host_inv lt f h1" "started h1" "m = kinds_told (gh_kinds h1)" "gh_kinds h1 = gh_kinds h"
      "gh_plugins h1 = gh_plugins h"
    using m "3.prems"(2)
    by (auto simp: Kinds_def host_inv_def started_def kinds_told_def Let_def split: option.splits)
  with "3.IH" [OF m [symmetric] as1(1) h1(1)] as1(2) show ?case by auto
next
  case (4 add lt f code us h)
  obtain l h1 where l: "ApparentLoads lt f h = (l, h1)" by (rule prod.exhaust)
  then obtain as1 where as1: "use_host add lt f code us h1 = Inr (as1, h')" "as = LoadsAnswer l # as1"
    using "4.prems"(1) by (cases "use_host add lt f code us h1") auto
  have h1: "host_inv lt f h1" "started h1" "l = loads_of lt f (gh_kinds h1)" "gh_kinds h1 = gh_kinds h"
      "gh_plugins h1 = gh_plugins h"
    using l "4.prems"(2)
    by (auto simp: ApparentLoads_def host_inv_def started_def Let_def split: option.splits)
  with "4.IH" [OF l [symmetric] as1(1) h1(1)] as1(2) show ?case by auto
qed simp

lemma load_all_not_started: "load_all code dir ps h = Inr h' \<Longrightarrow> \<not> started h \<Longrightarrow> \<not> started h'"
  by (induction code dir ps h rule: load_all.induct)
    (auto simp: LoadPlugin_def dest: eval_calls_not_started split: sum.splits if_splits)

lemma NewLanguage_not_started:
  assumes "NewLanguage sys code plugins = Inr h"
  shows "\<not> started h"
proof -
  obtain h1 where h1: "loadStarzellePlugins sys code plugins empty_host = Inr h1"
      "loadEnvStarzellePlugins sys code h1 = Inr h"
    using assms by (auto simp: NewLanguage_def split: sum.splits)
  have "\<not> started (empty_host :: 'f host)" by (simp add: started_def empty_host_def)
  then have "\<not> started h1"
    using h1(1) by (auto simp: loadStarzellePlugins_def dest: load_all_not_started split: if_splits option.splits)
  with h1(2) show ?thesis
    by (auto simp: loadEnvStarzellePlugins_def Let_def dest: load_all_not_started split: sum.splits)
qed

text \<open>The loads of the kinds: each file once, with the kinds from it in their order.\<close>

lemma collect_loads_map_of:
  "map_of (collect_loads lt f kinds loads) from =
     (let ns = map fst (filter (\<lambda>(n, k). load_file lt f k = Some from) kinds)
      in case map_of loads from of
        None \<Rightarrow> if ns = [] then None else Some ns
      | Some ns0 \<Rightarrow> Some (ns0 @ ns))"
proof (induction lt f kinds loads rule: collect_loads.induct)
  case (2 lt f name r kinds loads)
  then show ?case
    by (cases "load_file lt f r") (auto simp: Let_def al_append_def split: option.splits)
qed (simp split: option.splits)

lemma collect_loads_wf: "al_wf loads \<Longrightarrow> al_wf (collect_loads lt f kinds loads)"
  by (induction lt f kinds loads rule: collect_loads.induct) (auto simp: al_append_def split: option.splits)

definition loads_spec ::
  "label_text \<Rightarrow> (string \<Rightarrow> string) \<Rightarrow> (string, rule_kind) gomap \<Rightarrow> host_load list \<Rightarrow> bool" where
  "loads_spec lt f kinds l \<longleftrightarrow>
     distinct (map hl_Name l) \<and>
     hl_Name ` set l = {from. \<exists>(n, k) \<in> set kinds. load_file lt f k = Some from} \<and>
     (\<forall>ld \<in> set l. hl_Symbols ld = map fst (filter (\<lambda>(n, k). load_file lt f k = Some (hl_Name ld)) kinds))"

lemma loads_of_spec: "loads_spec lt f kinds (loads_of lt f kinds)"
proof -
  let ?c = "collect_loads lt f kinds []"
  have wf: "al_wf ?c" by (rule collect_loads_wf) simp
  have "map_of ?c fr = (let ns = map fst (filter (\<lambda>(n, k). load_file lt f k = Some fr) kinds)
      in if ns = [] then None else Some ns)" for fr
    by (simp add: collect_loads_map_of Let_def)
  then have look: "map_of ?c fr = Some ns \<longleftrightarrow>
      ns \<noteq> [] \<and> ns = map fst (filter (\<lambda>(n, k). load_file lt f k = Some fr) kinds)" for fr ns
    by (auto simp: Let_def split: if_splits)
  have entry: "(fr, ns) \<in> set ?c \<longleftrightarrow>
      ns \<noteq> [] \<and> ns = map fst (filter (\<lambda>(n, k). load_file lt f k = Some fr) kinds)" for fr ns
    using wf look by (simp add: al_wf_def)
  have "hl_Name ` set (loads_of lt f kinds) = fst ` set ?c"
    by (auto simp: loads_of_def image_image case_prod_unfold)
  also have "\<dots> = {fr. \<exists>ns. (fr, ns) \<in> set ?c}" by force
  also have "\<dots> = {fr. \<exists>(n, k) \<in> set kinds. load_file lt f k = Some fr}"
    unfolding entry by (auto simp: filter_empty_conv)
  finally show ?thesis
    using wf entry by (auto simp: loads_spec_def loads_of_def al_wf_def comp_def case_prod_unfold)
qed

text \<open>
  C33 (invariant). What the host tells of its rule kinds and of the files they are loaded from never
  becomes out of date: however gazelle interleaves its questions and plugins are loaded, every answer
  is about the kinds registered in the end, a file is named once for all its kinds, and after the first
  answer loading another plugin stops the process.
\<close>

theorem orion_kinds_final:
  assumes "NewLanguage sys code plugins = Inr h0" "use_host add lt f code us h0 = Inr (as, h)"
  shows "(\<forall>m. KindsAnswer m \<in> set as \<longrightarrow> m = kinds_told (gh_kinds h)) \<and>
    (\<forall>l. LoadsAnswer l \<in> set as \<longrightarrow> loads_spec lt f (gh_kinds h) l) \<and>
    (as \<noteq> [] \<longrightarrow>
      LoadPlugin code dir path h = Inl (Fatal ''Cannot add plugin after configuration has started''))"
proof -
  have "host_inv lt f h0" using NewLanguage_not_started [OF assms(1)] by (rule not_started_inv)
  from use_host_spec [OF assms(2) this]
  have spec: "as \<noteq> [] \<longrightarrow> started h"
      "\<forall>a \<in> set as. a = KindsAnswer (kinds_told (gh_kinds h)) \<or> a = LoadsAnswer (loads_of lt f (gh_kinds h))"
    by blast+
  then show ?thesis
    using loads_of_spec [of lt f "gh_kinds h"] by (auto simp: LoadPlugin_def started_def)
qed

definition sample_system :: host_system where
  "sample_system =
     \<lparr>hs_cwd = Some ''/w'', hs_workspace = Some, hs_env = (\<lambda>_. ''''), hs_glob = (\<lambda>_. None)\<rparr>"

definition sample_code :: "string \<Rightarrow> string \<Rightarrow> string host_call list" where
  "sample_code dir path = [CallKind ''k'' (Some (SDict [(SString ''From'', SString ''f'')]))]"

definition sample_text :: label_text where
  "sample_text = \<lparr>lt_parse = (\<lambda>s. Some (Label '''' '''' s False)), lt_string = Name\<rparr>"

theorem orion_kinds_final_witness:
  "\<exists>h0 as h. NewLanguage sample_system sample_code [''p.axl''] = Inr h0 \<and>
    use_host (\<lambda>l s. l) sample_text (\<lambda>_. '''') sample_code [UseKinds, UseLoads] h0 = Inr (as, h) \<and> as \<noteq> [] \<and>
    LoadPlugin sample_code ''/w'' ''q.axl'' h = Inl (Fatal ''Cannot add plugin after configuration has started'')"
proof -
  let ?new = "NewLanguage sample_system sample_code [''p.axl'']"
  let ?use = "use_host (\<lambda>l s. l) sample_text (\<lambda>_. '''') sample_code [UseKinds, UseLoads]"
  have "is_ok ?new" by code_simp
  then obtain h0 where h0: "?new = Inr h0" by (auto simp: is_ok_iff)
  obtain m h1 where m: "Kinds (\<lambda>l s. l) h0 = (m, h1)" by (rule prod.exhaust)
  obtain l h2 where l: "ApparentLoads sample_text (\<lambda>_. '''') h1 = (l, h2)" by (rule prod.exhaust)
  have used: "?use h0 = Inr ([KindsAnswer m, LoadsAnswer l], h2)" by (simp add: m l)
  have "LoadPlugin sample_code ''/w'' ''q.axl'' h2 = Inl (Fatal ''Cannot add plugin after configuration has started'')"
    using orion_kinds_final [OF h0 used] by blast
  with h0 used show ?thesis by blast
qed

end
