(* ===== verification/Orion_Queries.thy ===== *)
theory Orion_Queries
  imports Orion_Plugin Go_Path
begin

text \<open>
  Running the queries of plugins on a source file (\<open>language/orion/queries\<close>): the content gate, the
  batches by type, and the handler of each type. Third-party parsers and query engines are
  parameters: tree-sitter, \<open>regexp\<close>, JSON decoding, jq, YAML and TOML decoding, yq.
\<close>

section \<open>Grammars\<close>

text \<open>\<open>common/treesitter/parser.go\<close>: the grammar of a file by its extension.\<close>

definition grammars :: "string list" where
  "grammars =
     [''kotlin'', ''starlark'', ''typescript'', ''tsx'', ''json'', ''java'', ''go'', ''rust'', ''ruby'', ''hcl'', ''python'']"

definition extLanguages :: "(string \<times> string) list" where
  "extLanguages =
     [(''go'', ''go''), (''rs'', ''rust''), (''kt'', ''kotlin''), (''ktm'', ''kotlin''), (''kts'', ''kotlin''),
      (''bzl'', ''starlark''),
      (''ts'', ''typescript''), (''cts'', ''typescript''), (''mts'', ''typescript''), (''js'', ''typescript''),
      (''mjs'', ''typescript''), (''cjs'', ''typescript''), (''tsx'', ''tsx''), (''jsx'', ''tsx''),
      (''java'', ''java''), (''jav'', ''java''), (''jsh'', ''java''), (''json'', ''json''),
      (''hcl'', ''hcl''), (''nomad'', ''hcl''), (''tf'', ''hcl''), (''tfvars'', ''hcl''), (''tofu'', ''hcl''),
      (''rb'', ''ruby''), (''rake'', ''ruby''), (''gemspec'', ''ruby''), (''podspec'', ''ruby''), (''thor'', ''ruby''),
      (''jbuilder'', ''ruby''), (''rabl'', ''ruby''), (''py'', ''python''), (''pyw'', ''python''), (''pyi'', ''python'')]"

definition lookupPathLanguage :: "string \<Rightarrow> string option" where
  "lookupPathLanguage p = map_of extLanguages (TrimPrefix (path_Ext p) ''.'')"

definition PathToLanguage :: "string \<Rightarrow> string outcome" where
  "PathToLanguage p =
     (case lookupPathLanguage p of
        None \<Rightarrow> Inl (Fatal (''Unknown source file extension '' @ path_Ext p))
      | Some lang \<Rightarrow> Inr lang)"

section \<open>Parameters\<close>

text \<open>
  A parsed tree answers a query with the captures of its matches. A document that cannot be decoded,
  and one that is null, are \<open>None\<close>. The values of a jq program are a finite sequence here: one that never
  ends would not return. A node of yq carries what \<open>GetValueRep\<close> gives for a scalar.
\<close>

datatype 'f jq_item = JqValue "'f oval" | JqHalt | JqError string

datatype 'f yq_node =
    MappingNode "'f yq_node list"
  | SequenceNode "'f yq_node list"
  | AliasNode "'f yq_node"
  | ScalarNode string "'f oval option"
  | OtherNode

record 'f query_env =
  qe_tree :: "string \<Rightarrow> string \<Rightarrow> string \<Rightarrow> string + (string \<Rightarrow> string + (string, string) gomap list)"
  qe_findAll :: "string \<Rightarrow> string \<Rightarrow> string list list"
  qe_names :: "string \<Rightarrow> string list"
  qe_json :: "string \<Rightarrow> 'f oval option"
  qe_jq :: "string \<Rightarrow> string + ('f oval \<Rightarrow> 'f jq_item list)"
  qe_yaml :: "string \<Rightarrow> string + 'f yq_node"
  qe_toml :: "string \<Rightarrow> string + 'f yq_node"
  qe_yq :: "string \<Rightarrow> 'f yq_node \<Rightarrow> string + 'f yq_node list"
  qe_sprint :: "'f oval \<Rightarrow> string"

text \<open>A result of Go code that can end the process, or fail with an error, or succeed.\<close>

type_synonym 'a result = "(string + 'a) outcome"

type_synonym queries = "(string, query) gomap"

text \<open>Answering each query of a map, up to the first error.\<close>

fun answer_all ::
  "(query \<Rightarrow> 'f query_result result) \<Rightarrow> queries \<Rightarrow> 'f query_results \<Rightarrow> 'f query_results result" where
  "answer_all f [] results = Inr (Inr results)"
| "answer_all f ((key, q) # qs) results =
     (case f q of
        Inl e \<Rightarrow> Inl e
      | Inr (Inl e) \<Rightarrow> Inr (Inl e)
      | Inr (Inr r) \<Rightarrow> answer_all f qs (al_put results key r))"

section \<open>Syntax trees\<close>

definition toTreeGrammar :: "string \<Rightarrow> queries \<Rightarrow> string outcome" where
  "toTreeGrammar fileName qs =
     (case find (\<lambda>(_, q). q_Grammar q \<noteq> '''') qs of
        Some (_, q) \<Rightarrow> Inr (q_Grammar q)
      | None \<Rightarrow> PathToLanguage fileName)"

definition toTreeLanguage :: "string \<Rightarrow> queries \<Rightarrow> string outcome" where
  "toTreeLanguage fileName qs =
     (case toTreeGrammar fileName qs of
        Inl e \<Rightarrow> Inl e
      | Inr lang \<Rightarrow>
          if lang \<in> set grammars then Inr lang else Inl (Fatal (''Unknown LanguageGrammar '' @ lang)))"

definition runPluginTreeQueries ::
  "'f query_env \<Rightarrow> string \<Rightarrow> string \<Rightarrow> queries \<Rightarrow> 'f query_results result" where
  "runPluginTreeQueries env fileName src qs =
     (case toTreeLanguage fileName qs of
        Inl e \<Rightarrow> Inl e
      | Inr lang \<Rightarrow>
        (case qe_tree env lang fileName src of
           Inl e \<Rightarrow> Inr (Inl e)
         | Inr ast \<Rightarrow>
             answer_all
               (\<lambda>q. Inr (map_sum id (\<lambda>ms. MatchResults (map (\<lambda>c. \<lparr>qm_Captures = c, qm_Result = None\<rparr>) ms)) (ast (q_Text q))))
               qs []))"

section \<open>Regular expressions\<close>

text \<open>The captures of a match; the name 0 stands for all of it, and unnamed groups have an empty name.\<close>

fun put_captures :: "nat \<Rightarrow> string list \<Rightarrow> string list \<Rightarrow> (string, string) gomap \<Rightarrow> (string, string) gomap outcome" where
  "put_captures i [] m captures = Inr captures"
| "put_captures i (name # names) m captures =
     (if 0 < i \<and> i \<le> length m then
        (if i < length m then put_captures (Suc i) names m (al_put captures name (m ! i))
         else Inl (Panic ''index out of range''))
      else put_captures (Suc i) names m captures)"

fun regex_matches :: "string list \<Rightarrow> string list list \<Rightarrow> query_match list outcome" where
  "regex_matches names [] = Inr []"
| "regex_matches names (m # ms) =
     (case put_captures 0 names m [] of
        Inl e \<Rightarrow> Inl e
      | Inr captures \<Rightarrow>
          if m = [] then Inl (Panic ''index out of range'')
          else map_sum id ((#) \<lparr>qm_Captures = captures, qm_Result = Some (hd m)\<rparr>) (regex_matches names ms))"

definition runRegexQuery :: "'f query_env \<Rightarrow> string \<Rightarrow> string \<Rightarrow> query_match list outcome" where
  "runRegexQuery env src expr = regex_matches (qe_names env expr) (qe_findAll env expr src)"

definition runRegexQueries :: "'f query_env \<Rightarrow> string \<Rightarrow> queries \<Rightarrow> 'f query_results result" where
  "runRegexQueries env src qs =
     answer_all (\<lambda>q. map_sum id (Inr \<circ> MatchResults) (runRegexQuery env src (q_Text q))) qs []"

section \<open>Documents\<close>

fun jq_collect :: "'f jq_item list \<Rightarrow> string + 'f oval list" where
  "jq_collect [] = Inr []"
| "jq_collect (JqHalt # items) = Inr []"
| "jq_collect (JqError e # items) = Inl e"
| "jq_collect (JqValue v # items) = map_sum id ((#) v) (jq_collect items)"

definition runJsonQuery :: "'f query_env \<Rightarrow> 'f oval \<Rightarrow> string \<Rightarrow> string + 'f query_result" where
  "runJsonQuery env doc q =
     (case qe_jq env q of Inl e \<Rightarrow> Inl e | Inr code \<Rightarrow> map_sum id ValueResults (jq_collect (code doc)))"

definition runJsonQueries :: "'f query_env \<Rightarrow> string \<Rightarrow> queries \<Rightarrow> 'f query_results result" where
  "runJsonQueries env src qs =
     (case qe_json env src of
        None \<Rightarrow> answer_all (\<lambda>_. Inr (Inr (ValueResults []))) qs []
      | Some doc \<Rightarrow> answer_all (\<lambda>q. Inr (runJsonQuery env doc (q_Text q))) qs [])"

text \<open>A mapping's nodes are its keys and values in turn.\<close>

fun convertYqNodeToValue :: "('f oval \<Rightarrow> string) \<Rightarrow> 'f yq_node \<Rightarrow> 'f oval outcome"
  and convert_pairs ::
    "('f oval \<Rightarrow> string) \<Rightarrow> 'f yq_node list \<Rightarrow> (string, 'f oval) gomap \<Rightarrow> (string, 'f oval) gomap outcome"
  and convert_nodes :: "('f oval \<Rightarrow> string) \<Rightarrow> 'f yq_node list \<Rightarrow> 'f oval list outcome" where
  "convertYqNodeToValue sprint (MappingNode ns) = map_sum id GMap (convert_pairs sprint ns [])"
| "convertYqNodeToValue sprint (SequenceNode ns) = map_sum id GList (convert_nodes sprint ns)"
| "convertYqNodeToValue sprint (AliasNode n) = convertYqNodeToValue sprint n"
| "convertYqNodeToValue sprint (ScalarNode text rep) = Inr (case rep of None \<Rightarrow> GString text | Some v \<Rightarrow> v)"
| "convertYqNodeToValue sprint OtherNode = Inl (Fatal ''Unknown yq node kind'')"
| "convert_pairs sprint [] m = Inr m"
| "convert_pairs sprint [k] m =
     (case convertYqNodeToValue sprint k of Inl e \<Rightarrow> Inl e | Inr _ \<Rightarrow> Inl (Panic ''index out of range''))"
| "convert_pairs sprint (k # v # ns) m =
     (case convertYqNodeToValue sprint k of
        Inl e \<Rightarrow> Inl e
      | Inr key \<Rightarrow>
        (case convertYqNodeToValue sprint v of
           Inl e \<Rightarrow> Inl e
         | Inr val \<Rightarrow>
             convert_pairs sprint ns (al_put m (case key of GString s \<Rightarrow> s | _ \<Rightarrow> sprint key) val)))"
| "convert_nodes sprint [] = Inr []"
| "convert_nodes sprint (n # ns) =
     (case convertYqNodeToValue sprint n of
        Inl e \<Rightarrow> Inl e
      | Inr v \<Rightarrow> map_sum id ((#) v) (convert_nodes sprint ns))"

definition runYamlQuery :: "'f query_env \<Rightarrow> 'f yq_node \<Rightarrow> string \<Rightarrow> 'f query_result result" where
  "runYamlQuery env node q =
     (case qe_yq env q node of
        Inl e \<Rightarrow> Inr (Inl e)
      | Inr nodes \<Rightarrow> map_sum id (Inr \<circ> ValueResults) (convert_nodes (qe_sprint env) nodes))"

definition run_yq_queries ::
  "'f query_env \<Rightarrow> string + 'f yq_node \<Rightarrow> queries \<Rightarrow> 'f query_results result" where
  "run_yq_queries env doc qs =
     (case doc of
        Inl e \<Rightarrow> Inr (Inl e)
      | Inr node \<Rightarrow> answer_all (\<lambda>q. runYamlQuery env node (q_Text q)) qs [])"

definition runYamlQueries :: "'f query_env \<Rightarrow> string \<Rightarrow> queries \<Rightarrow> 'f query_results result" where
  "runYamlQueries env src qs = run_yq_queries env (qe_yaml env src) qs"

definition runTomlQueries :: "'f query_env \<Rightarrow> string \<Rightarrow> queries \<Rightarrow> 'f query_results result" where
  "runTomlQueries env src qs = run_yq_queries env (qe_toml env src) qs"

section \<open>All queries of a file\<close>

definition runRawQueries :: "string \<Rightarrow> queries \<Rightarrow> 'f query_results result" where
  "runRawQueries src qs = answer_all (\<lambda>_. Inr (Inr (RawResult src))) qs []"

definition runQueryBatch ::
  "'f query_env \<Rightarrow> query_type \<Rightarrow> string \<Rightarrow> string \<Rightarrow> queries \<Rightarrow> 'f query_results result" where
  "runQueryBatch env t fileName src active =
     (case t of
        QueryTypeAst \<Rightarrow> runPluginTreeQueries env fileName src active
      | QueryTypeRegex \<Rightarrow> runRegexQueries env src active
      | QueryTypeJson \<Rightarrow> runJsonQueries env src active
      | QueryTypeYaml \<Rightarrow> runYamlQueries env src active
      | QueryTypeToml \<Rightarrow> runTomlQueries env src active
      | QueryTypeRaw \<Rightarrow> runRawQueries src active)"

definition emptyResult :: "query_type \<Rightarrow> 'f query_result" where
  "emptyResult t =
     (case t of
        QueryTypeRaw \<Rightarrow> RawResult ''''
      | QueryTypeJson \<Rightarrow> ValueResults []
      | QueryTypeYaml \<Rightarrow> ValueResults []
      | QueryTypeToml \<Rightarrow> ValueResults []
      | _ \<Rightarrow> MatchResults [])"

text \<open>The queries that the content gates out, and the others by type.\<close>

fun gate :: "string \<Rightarrow> queries \<Rightarrow> 'f query_results \<Rightarrow> (query_type, queries) gomap \<Rightarrow>
    'f query_results \<times> (query_type, queries) gomap" where
  "gate src [] gated active = (gated, active)"
| "gate src ((key, q) # qs) gated active =
     (if \<not> MatchContent q src then gate src qs (al_put gated key (emptyResult (q_Type q))) active
      else gate src qs gated
        (al_put active (q_Type q) (al_put (case map_of active (q_Type q) of None \<Rightarrow> [] | Some m \<Rightarrow> m) key q)))"

definition maps_Copy :: "('k \<times> 'v) list \<Rightarrow> ('k \<times> 'v) list \<Rightarrow> ('k \<times> 'v) list" where
  "maps_Copy dst src = foldl (\<lambda>m (k, v). al_put m k v) dst src"

fun run_batches ::
  "'f query_env \<Rightarrow> string \<Rightarrow> string \<Rightarrow> (query_type, queries) gomap \<Rightarrow> 'f query_results \<Rightarrow> 'f query_results result" where
  "run_batches env fileName src [] results = Inr (Inr results)"
| "run_batches env fileName src ((t, active) # types) results =
     (case runQueryBatch env t fileName src active of
        Inl e \<Rightarrow> Inl e
      | Inr (Inl e) \<Rightarrow> Inr (Inl e)
      | Inr (Inr batch) \<Rightarrow> run_batches env fileName src types (maps_Copy results batch))"

definition RunQueries :: "'f query_env \<Rightarrow> string \<Rightarrow> string \<Rightarrow> queries \<Rightarrow> 'f query_results result" where
  "RunQueries env fileName src qs =
     (case gate src qs [] [] of
        (gated, active) \<Rightarrow> map_sum id (map_sum id (\<lambda>results. maps_Copy results gated)) (run_batches env fileName src active []))"

section \<open>What a run of queries gives\<close>

lemma map_sum_Inr: "map_sum id f x = Inr y \<longleftrightarrow> (\<exists>z. x = Inr z \<and> y = f z)"
  and Inr_map_sum: "Inr y = map_sum id f x \<longleftrightarrow> (\<exists>z. x = Inr z \<and> y = f z)"
  by (cases x; auto)+

lemma answer_all_keys:
  "answer_all f qs m = Inr (Inr r) \<Longrightarrow>
   fst ` set r = fst ` set m \<union> fst ` set qs \<and>
   (\<forall>k. k \<notin> fst ` set qs \<longrightarrow> map_of r k = map_of m k)"
proof (induction f qs m rule: answer_all.induct)
  case (2 f key q qs results)
  obtain v where v: "f q = Inr (Inr v)" "answer_all f qs (al_put results key v) = Inr (Inr r)"
    using "2.prems" by (auto split: sum.splits)
  from "2.IH" [OF v(1) refl v(2)] show ?case by (auto simp: fst_set_al_put)
qed simp

lemma answer_all_value:
  "answer_all f qs m = Inr (Inr r) \<Longrightarrow> al_wf qs \<Longrightarrow> (key, q) \<in> set qs \<Longrightarrow>
   \<exists>v. f q = Inr (Inr v) \<and> map_of r key = Some v"
proof (induction f qs m rule: answer_all.induct)
  case (2 f key' q' qs results)
  obtain v where v: "f q' = Inr (Inr v)" "answer_all f qs (al_put results key' v) = Inr (Inr r)"
    using "2.prems"(1) by (auto split: sum.splits)
  show ?case
  proof (cases "key = key'")
    case True
    then have "q = q'" "key \<notin> fst ` set qs" using "2.prems"(2,3) by (auto simp: al_wf_def intro: rev_image_eqI)
    with answer_all_keys [OF v(2)] v(1) True show ?thesis by simp
  next
    case False
    with "2.IH" [OF v(1) refl v(2)] "2.prems"(2,3) show ?thesis by (simp add: al_wf_def)
  qed
qed simp

lemma batch_is_answers:
  assumes "runQueryBatch env t fileName src qs = Inr (Inr b)"
  shows "\<exists>f. answer_all f qs [] = Inr (Inr b)"
proof -
  have yq: "\<exists>f. answer_all f qs [] = Inr (Inr b)" if "run_yq_queries env doc qs = Inr (Inr b)" for doc
    using that by (cases doc) (auto simp: run_yq_queries_def)
  have tree: "\<exists>f. answer_all f qs [] = Inr (Inr b)" if "runPluginTreeQueries env fileName src qs = Inr (Inr b)"
  proof (cases "toTreeLanguage fileName qs")
    case (Inr lang)
    with that show ?thesis by (cases "qe_tree env lang fileName src") (auto simp: runPluginTreeQueries_def)
  qed (use that in \<open>simp add: runPluginTreeQueries_def\<close>)
  have json: "\<exists>f. answer_all f qs [] = Inr (Inr b)" if "runJsonQueries env src qs = Inr (Inr b)"
    using that by (cases "qe_json env src") (auto simp: runJsonQueries_def)
  show ?thesis
  proof (cases t)
    case QueryTypeRegex
    with assms show ?thesis by (auto simp: runQueryBatch_def runRegexQueries_def)
  next
    case QueryTypeRaw
    with assms show ?thesis by (auto simp: runQueryBatch_def runRawQueries_def)
  qed (use assms yq tree json in \<open>simp_all add: runQueryBatch_def runYamlQueries_def runTomlQueries_def\<close>)
qed

lemma batch_keys:
  assumes "runQueryBatch env t fileName src qs = Inr (Inr b)"
  shows "fst ` set b = fst ` set qs"
proof -
  obtain f where "answer_all f qs [] = Inr (Inr b)" using batch_is_answers [OF assms] by blast
  from answer_all_keys [OF this] show ?thesis by simp
qed

text \<open>The queries that run, and their batches.\<close>

definition runs_on :: "string \<Rightarrow> query_type \<Rightarrow> queries \<Rightarrow> queries" where
  "runs_on src t qs = filter (\<lambda>(_, q). MatchContent q src \<and> q_Type q = t) qs"

definition fresh_key :: "'f query_results \<Rightarrow> (query_type, queries) gomap \<Rightarrow> string \<Rightarrow> bool" where
  "fresh_key gated active k \<longleftrightarrow> k \<notin> fst ` set gated \<and> (\<forall>(t, m) \<in> set active. k \<notin> fst ` set m)"

lemma fresh_key_active:
  assumes "fresh_key gated active k"
  shows "k \<notin> fst ` set (case map_of active t of None \<Rightarrow> [] | Some m \<Rightarrow> m)"
proof (cases "map_of active t")
  case (Some m)
  with assms show ?thesis using map_of_SomeD [OF Some] by (auto simp: fresh_key_def)
qed simp

lemma fresh_key_gated: "fresh_key gated active k \<Longrightarrow> k \<noteq> key \<Longrightarrow> fresh_key (al_put gated key v) active k"
  by (simp add: fresh_key_def fst_set_al_put)

lemma fresh_key_put:
  assumes "fresh_key gated active k" "k \<notin> fst ` set m"
  shows "fresh_key gated (al_put active t m) k"
  using assms set_al_put [of active t m] unfolding fresh_key_def by fast

lemma gate_spec:
  "gate src qs gated active = (gated', active') \<Longrightarrow> al_wf qs \<Longrightarrow> al_wf active \<Longrightarrow>
   \<forall>k \<in> fst ` set qs. fresh_key gated active k \<Longrightarrow>
   gated' = gated @ map (\<lambda>(k, q). (k, emptyResult (q_Type q))) (filter (\<lambda>(_, q). \<not> MatchContent q src) qs) \<and>
   al_wf active' \<and>
   (\<forall>t. map_of active' t =
      (if runs_on src t qs = [] then map_of active t
       else Some ((case map_of active t of None \<Rightarrow> [] | Some m \<Rightarrow> m) @ runs_on src t qs)))"
proof (induction src qs gated active rule: gate.induct)
  case (2 src key q qs gated active)
  have wf: "al_wf qs" "key \<notin> fst ` set qs" using "2.prems"(2) by (simp_all add: al_wf_def)
  have key: "fresh_key gated active key" and rest: "\<forall>k \<in> fst ` set qs. fresh_key gated active k"
    using "2.prems"(4) by simp_all
  show ?case
  proof (cases "MatchContent q src")
    case False
    have run: "gate src qs (al_put gated key (emptyResult (q_Type q))) active = (gated', active')"
      using "2.prems"(1) False by simp
    have new: "al_put gated key (emptyResult (q_Type q)) = gated @ [(key, emptyResult (q_Type q))]"
      using key by (intro al_put_new) (simp add: fresh_key_def)
    have "\<forall>k \<in> fst ` set qs. fresh_key (al_put gated key (emptyResult (q_Type q))) active k"
      using rest wf(2) by (blast intro: fresh_key_gated)
    from "2.IH"(1) [OF False run wf(1) "2.prems"(3) this] False new show ?thesis by (simp add: runs_on_def)
  next
    case True
    define m where "m = (case map_of active (q_Type q) of None \<Rightarrow> [] | Some m \<Rightarrow> m)"
    have m: "key \<notin> fst ` set m" unfolding m_def by (rule fresh_key_active [OF key])
    have run: "gate src qs gated (al_put active (q_Type q) (al_put m key q)) = (gated', active')"
      using "2.prems"(1) True by (simp add: m_def)
    have fresh: "\<forall>k \<in> fst ` set qs. fresh_key gated (al_put active (q_Type q) (al_put m key q)) k"
    proof
      fix k assume k: "k \<in> fst ` set qs"
      then have old: "fresh_key gated active k" and "k \<noteq> key" using rest wf(2) by auto
      then have "k \<notin> fst ` set (al_put m key q)"
        using fresh_key_active [OF old] by (simp add: fst_set_al_put m_def)
      with old show "fresh_key gated (al_put active (q_Type q) (al_put m key q)) k" by (rule fresh_key_put)
    qed
    have "\<not> \<not> MatchContent q src" using True by simp
    note IH = "2.IH"(2) [OF this, folded m_def, OF run wf(1) al_wf_put [OF "2.prems"(3)] fresh]
    have "runs_on src t ((key, q) # qs) = (if t = q_Type q then [(key, q)] else []) @ runs_on src t qs" for t
      using True by (simp add: runs_on_def)
    with IH True m show ?thesis by (simp add: al_put_new m_def)
  qed
qed (simp add: runs_on_def)

lemma map_of_maps_Copy:
  "al_wf src \<Longrightarrow> map_of (maps_Copy dst src) k = (case map_of src k of None \<Rightarrow> map_of dst k | Some v \<Rightarrow> Some v)"
proof (induction src arbitrary: dst)
  case (Cons kv src)
  obtain k' v where kv: "kv = (k', v)" by (rule prod.exhaust)
  have wf: "al_wf src" "map_of src k' = None"
    using Cons.prems kv by (auto simp: al_wf_def map_of_eq_None_iff)
  have "maps_Copy dst (kv # src) = maps_Copy (al_put dst k' v) src" by (simp add: maps_Copy_def kv)
  with Cons.IH [OF wf(1)] wf(2) kv show ?case by (auto split: option.splits)
qed (simp add: maps_Copy_def)

lemma fst_set_maps_Copy: "fst ` set (maps_Copy dst src) = fst ` set dst \<union> fst ` set src"
proof (induction src arbitrary: dst)
  case (Cons kv src)
  obtain k v where kv: "kv = (k, v)" by (rule prod.exhaust)
  have "maps_Copy dst (kv # src) = maps_Copy (al_put dst k v) src" by (simp add: maps_Copy_def kv)
  with Cons.IH kv show ?case by (auto simp: fst_set_al_put)
qed (simp add: maps_Copy_def)

lemma batch_wf:
  assumes "runQueryBatch env t fileName src qs = Inr (Inr b)"
  shows "al_wf b"
proof -
  have "answer_all f qs m = Inr (Inr r) \<Longrightarrow> al_wf m \<Longrightarrow> al_wf r" for f qs m r
    by (induction f qs m rule: answer_all.induct) (auto split: sum.splits)
  with batch_is_answers [OF assms] show ?thesis by fastforce
qed

lemma run_batches_ok:
  "(\<exists>r. run_batches env fileName src types res = Inr (Inr r)) \<longleftrightarrow>
     (\<forall>(t, a) \<in> set types. \<exists>b. runQueryBatch env t fileName src a = Inr (Inr b))"
proof (induction types arbitrary: res)
  case (Cons ta types)
  obtain t a where ta: "ta = (t, a)" by (rule prod.exhaust)
  show ?case
  proof (cases "\<exists>b. runQueryBatch env t fileName src a = Inr (Inr b)")
    case True
    then obtain b where "runQueryBatch env t fileName src a = Inr (Inr b)" by blast
    with Cons.IH ta show ?thesis by simp
  next
    case False
    then show ?thesis by (auto simp: ta split: sum.splits)
  qed
qed simp

lemma run_batches_Cons:
  assumes "run_batches env fileName src ((t, a) # types) res = Inr (Inr res')"
  obtains b where "runQueryBatch env t fileName src a = Inr (Inr b)"
    "run_batches env fileName src types (maps_Copy res b) = Inr (Inr res')"
  using assms by (auto split: sum.splits)

lemma run_batches_keys:
  "run_batches env fileName src types res = Inr (Inr res') \<Longrightarrow>
   fst ` set res' = fst ` set res \<union> (\<Union>(t, a) \<in> set types. fst ` set a) \<and>
   (\<forall>k. (\<forall>(t, a) \<in> set types. k \<notin> fst ` set a) \<longrightarrow> map_of res' k = map_of res k)"
proof (induction types arbitrary: res)
  case (Cons ta types)
  obtain t a where ta: "ta = (t, a)" by (rule prod.exhaust)
  obtain b where b: "runQueryBatch env t fileName src a = Inr (Inr b)"
      "run_batches env fileName src types (maps_Copy res b) = Inr (Inr res')"
    by (rule run_batches_Cons [OF Cons.prems [unfolded ta]])
  have none: "map_of b k = None" if "k \<notin> fst ` set a" for k
    using batch_keys [OF b(1)] that by (simp add: map_of_eq_None_iff)
  from Cons.IH [OF b(2)] show ?case
    by (auto simp: ta fst_set_maps_Copy batch_keys [OF b(1)] map_of_maps_Copy [OF batch_wf [OF b(1)]] none)
qed simp

lemma run_batches_value:
  "run_batches env fileName src types res = Inr (Inr res') \<Longrightarrow> al_wf types \<Longrightarrow> (t, a) \<in> set types \<Longrightarrow>
   k \<in> fst ` set a \<Longrightarrow> \<forall>(t', a') \<in> set types. t' \<noteq> t \<longrightarrow> k \<notin> fst ` set a' \<Longrightarrow>
   \<exists>b. runQueryBatch env t fileName src a = Inr (Inr b) \<and> map_of res' k = map_of b k"
proof (induction types arbitrary: res)
  case (Cons ta types)
  obtain t1 a1 where ta: "ta = (t1, a1)" by (rule prod.exhaust)
  obtain b where b: "runQueryBatch env t1 fileName src a1 = Inr (Inr b)"
      "run_batches env fileName src types (maps_Copy res b) = Inr (Inr res')"
    by (rule run_batches_Cons [OF Cons.prems(1) [unfolded ta]])
  have wf: "al_wf types" "\<forall>(t', a') \<in> set types. t' \<noteq> t1"
    using Cons.prems(2) ta by (auto simp: al_wf_def image_iff)
  show ?case
  proof (cases "t1 = t")
    case True
    then have a: "a1 = a" using Cons.prems(3) wf(2) ta by auto
    have "\<forall>(t', a') \<in> set types. k \<notin> fst ` set a'" using Cons.prems(5) wf(2) True by auto
    with run_batches_keys [OF b(2)] have "map_of res' k = map_of (maps_Copy res b) k" by blast
    moreover have "map_of b k \<noteq> None"
      using batch_keys [OF b(1)] Cons.prems(4) a by (simp add: map_of_eq_None_iff)
    ultimately show ?thesis using b(1) a True map_of_maps_Copy [OF batch_wf [OF b(1)], of res k] by auto
  next
    case False
    then have "(t, a) \<in> set types" using Cons.prems(3) ta by auto
    moreover have "\<forall>(t', a') \<in> set types. t' \<noteq> t \<longrightarrow> k \<notin> fst ` set a'" using Cons.prems(5) by simp
    ultimately show ?thesis using Cons.IH [OF b(2) wf(1)] Cons.prems(4) by blast
  qed
qed simp

text \<open>The gate of all queries of a file.\<close>

lemma gate_all:
  assumes "al_wf qs"
  obtains active where "gate src qs ([] :: 'f query_results) [] =
      (map (\<lambda>(k, q). (k, emptyResult (q_Type q))) (filter (\<lambda>(_, q). \<not> MatchContent q src) qs), active)"
    "al_wf active" "\<And>t a. (t, a) \<in> set active \<longleftrightarrow> runs_on src t qs \<noteq> [] \<and> a = runs_on src t qs"
proof -
  obtain gated active where g: "gate src qs ([] :: 'f query_results) [] = (gated, active)" by (rule prod.exhaust)
  have "gated = [] @ map (\<lambda>(k, q). (k, emptyResult (q_Type q))) (filter (\<lambda>(_, q). \<not> MatchContent q src) qs) \<and>
      al_wf active \<and>
      (\<forall>t. map_of active t = (if runs_on src t qs = [] then map_of [] t
         else Some ((case map_of [] t of None \<Rightarrow> [] | Some m \<Rightarrow> m) @ runs_on src t qs)))"
    by (rule gate_spec [OF g assms]) (simp_all add: fresh_key_def)
  then have spec: "gated = map (\<lambda>(k, q). (k, emptyResult (q_Type q))) (filter (\<lambda>(_, q). \<not> MatchContent q src) qs)"
      "al_wf active" "map_of active t = (if runs_on src t qs = [] then None else Some (runs_on src t qs))" for t
    by simp_all
  have "(t, a) \<in> set active \<longleftrightarrow> runs_on src t qs \<noteq> [] \<and> a = runs_on src t qs" for t a
  proof -
    have "(t, a) \<in> set active \<longleftrightarrow> map_of active t = Some a" using spec(2) by (simp add: al_wf_def)
    also have "\<dots> \<longleftrightarrow> runs_on src t qs \<noteq> [] \<and> a = runs_on src t qs" by (subst spec(3)) auto
    finally show ?thesis .
  qed
  then show thesis using g unfolding spec(1) by (intro that [of active] spec(2))
qed

lemma RunQueries_spec:
  fixes env :: "'f query_env"
  assumes "al_wf qs"
  shows "((\<exists>r. RunQueries env fileName src qs = Inr (Inr r)) \<longleftrightarrow>
      (\<forall>t. runs_on src t qs = [] \<or> (\<exists>b. runQueryBatch env t fileName src (runs_on src t qs) = Inr (Inr b)))) \<and>
    (\<forall>r. RunQueries env fileName src qs = Inr (Inr r) \<longrightarrow>
      fst ` set r = fst ` set qs \<and>
      (\<forall>(key, q) \<in> set qs.
        if \<not> MatchContent q src then map_of r key = Some (emptyResult (q_Type q))
        else \<exists>b. runQueryBatch env (q_Type q) fileName src (runs_on src (q_Type q) qs) = Inr (Inr b) \<and>
          map_of r key = map_of b key))"
proof -
  let ?gated = "map (\<lambda>(k, q). (k, emptyResult (q_Type q) :: 'f query_result)) (filter (\<lambda>(_, q). \<not> MatchContent q src) qs)"
  obtain active where act: "gate src qs ([] :: 'f query_results) [] = (?gated, active)" "al_wf active"
      "\<And>t a. (t, a) \<in> set active \<longleftrightarrow> runs_on src t qs \<noteq> [] \<and> a = runs_on src t qs"
    by (rule gate_all [OF assms, of src]) (rule that)
  have run: "RunQueries env fileName src qs =
      map_sum id (map_sum id (\<lambda>results. maps_Copy results ?gated)) (run_batches env fileName src active [])"
    by (simp add: RunQueries_def act(1))
  have wf: "al_wf ?gated" and keys: "fst ` set ?gated = fst ` {(k, q) \<in> set qs. \<not> MatchContent q src}"
    using assms by (auto simp: al_wf_def case_prod_unfold comp_def distinct_map_filter image_image)
  have ok: "(\<exists>r. RunQueries env fileName src qs = Inr (Inr r)) \<longleftrightarrow>
      (\<exists>r. run_batches env fileName src active [] = Inr (Inr r))"
    unfolding run by (auto simp: map_sum_Inr Inr_map_sum)
  have "fst ` set r = fst ` set qs \<and>
      (\<forall>(key, q) \<in> set qs.
        if \<not> MatchContent q src then map_of r key = Some (emptyResult (q_Type q))
        else \<exists>b. runQueryBatch env (q_Type q) fileName src (runs_on src (q_Type q) qs) = Inr (Inr b) \<and>
          map_of r key = map_of b key)"
    if result: "RunQueries env fileName src qs = Inr (Inr r)" for r
  proof -
    obtain r1 where r1: "run_batches env fileName src active [] = Inr (Inr r1)" "r = maps_Copy r1 ?gated"
      using result unfolding run by (auto simp: map_sum_Inr Inr_map_sum)
    have "(\<Union>(t, a) \<in> set active. fst ` set a) = fst ` {(k, q) \<in> set qs. MatchContent q src}"
    proof (rule set_eqI)
      fix k
      have "k \<in> (\<Union>(t, a) \<in> set active. fst ` set a) \<longleftrightarrow> (\<exists>t a. (t, a) \<in> set active \<and> k \<in> fst ` set a)"
        by blast
      also have "\<dots> \<longleftrightarrow> (\<exists>t. k \<in> fst ` set (runs_on src t qs))"
        unfolding act(3) by (metis empty_iff image_empty list.set(1))
      also have "\<dots> \<longleftrightarrow> k \<in> fst ` {(k, q) \<in> set qs. MatchContent q src}"
        by (auto simp: runs_on_def image_iff)
      finally show "k \<in> (\<Union>(t, a) \<in> set active. fst ` set a) \<longleftrightarrow> k \<in> fst ` {(k, q) \<in> set qs. MatchContent q src}" .
    qed
    with run_batches_keys [OF r1(1)] have "fst ` set r1 = fst ` {(k, q) \<in> set qs. MatchContent q src}" by simp
    with keys r1(2) have all: "fst ` set r = fst ` set qs" by (auto simp: fst_set_maps_Copy intro: rev_image_eqI)
    have "if \<not> MatchContent q src then map_of r key = Some (emptyResult (q_Type q))
        else \<exists>b. runQueryBatch env (q_Type q) fileName src (runs_on src (q_Type q) qs) = Inr (Inr b) \<and>
          map_of r key = map_of b key" if kq: "(key, q) \<in> set qs" for key q
    proof (cases "MatchContent q src")
      case False
      then have "(key, emptyResult (q_Type q)) \<in> set ?gated" using kq by force
      then have "map_of ?gated key = Some (emptyResult (q_Type q))" using wf by (rule al_wf_map_of [rotated])
      with False r1(2) map_of_maps_Copy [OF wf] show ?thesis by simp
    next
      case True
      have only: "q' = q" if "(key, q') \<in> set qs" for q'
        using assms that kq by (simp add: al_wf_def) (metis map_of_is_SomeI option.inject)
      then have "map_of ?gated key = None" using True by (auto simp: map_of_eq_None_iff)
      then have r: "map_of r key = map_of r1 key" using r1(2) map_of_maps_Copy [OF wf] by simp
      have mem: "(key, q) \<in> set (runs_on src (q_Type q) qs)" using True kq by (simp add: runs_on_def)
      have "\<exists>b. runQueryBatch env (q_Type q) fileName src (runs_on src (q_Type q) qs) = Inr (Inr b) \<and>
          map_of r1 key = map_of b key"
      proof (rule run_batches_value [OF r1(1) act(2)])
        show "(q_Type q, runs_on src (q_Type q) qs) \<in> set active" using mem act(3) by auto
        show "key \<in> fst ` set (runs_on src (q_Type q) qs)" using mem by (rule rev_image_eqI) simp
        show "\<forall>(t', a') \<in> set active. t' \<noteq> q_Type q \<longrightarrow> key \<notin> fst ` set a'"
          using act(3) only by (auto simp: runs_on_def)
      qed
      with True r show ?thesis by simp
    qed
    with all show ?thesis by blast
  qed
  moreover have "(\<exists>r. run_batches env fileName src active [] = Inr (Inr r)) \<longleftrightarrow>
      (\<forall>t. runs_on src t qs = [] \<or> (\<exists>b. runQueryBatch env t fileName src (runs_on src t qs) = Inr (Inr b)))"
  proof -
    have "(\<forall>(t, a) \<in> set active. \<exists>b. runQueryBatch env t fileName src a = Inr (Inr b)) \<longleftrightarrow>
        (\<forall>t a. (t, a) \<in> set active \<longrightarrow> (\<exists>b. runQueryBatch env t fileName src a = Inr (Inr b)))"
      by blast
    then show ?thesis unfolding run_batches_ok act(3) by blast
  qed
  ultimately show ?thesis using ok by simp
qed

text \<open>The result of a run is a map.\<close>

lemma al_wf_maps_Copy: "al_wf dst \<Longrightarrow> al_wf (maps_Copy dst src)"
proof (induction src arbitrary: dst)
  case (Cons kv src)
  obtain k v where kv: "kv = (k, v)" by (rule prod.exhaust)
  have "maps_Copy dst (kv # src) = maps_Copy (al_put dst k v) src" by (simp add: maps_Copy_def kv)
  with Cons.IH [OF al_wf_put [OF Cons.prems]] show ?case by simp
qed (simp add: maps_Copy_def)

lemma RunQueries_wf:
  fixes env :: "'f query_env"
  assumes "RunQueries env fileName src qs = Inr (Inr r)"
  shows "al_wf r"
proof -
  have batches: "run_batches env fileName src types res = Inr (Inr res') \<Longrightarrow> al_wf res \<Longrightarrow> al_wf res'"
    for types res res'
    by (induction env fileName src types res rule: run_batches.induct)
      (auto simp: al_wf_maps_Copy split: sum.splits)
  obtain gated :: "'f query_results" and active where "gate src qs [] [] = (gated, active)" by (rule prod.exhaust)
  with assms obtain r1 where "run_batches env fileName src active [] = Inr (Inr r1)" "r = maps_Copy r1 gated"
    by (auto simp: RunQueries_def map_sum_Inr Inr_map_sum)
  with batches [OF this(1)] show ?thesis by (simp add: al_wf_maps_Copy)
qed

text \<open>
  C32 (functional). A run of queries on a file succeeds exactly when the handler of each type that
  has a query let through by its content gate succeeds on those queries; a type with none is never
  run, so its parser cannot fail. Then there is one result for each query: the empty result of its
  type if the gate stopped it, and else what the handler of its type gives for it.
\<close>

theorem run_queries_by_type:
  fixes env :: "'f query_env"
  assumes "al_wf qs"
  shows "((\<exists>r. RunQueries env fileName src qs = Inr (Inr r)) \<longleftrightarrow>
      (\<forall>t. runs_on src t qs = [] \<or> (\<exists>b. runQueryBatch env t fileName src (runs_on src t qs) = Inr (Inr b)))) \<and>
    (\<forall>r. RunQueries env fileName src qs = Inr (Inr r) \<longrightarrow>
      fst ` set r = fst ` set qs \<and>
      (\<forall>(key, q) \<in> set qs.
        if \<not> MatchContent q src then map_of r key = Some (emptyResult (q_Type q))
        else \<exists>b. runQueryBatch env (q_Type q) fileName src (runs_on src (q_Type q) qs) = Inr (Inr b) \<and>
          map_of r key = map_of b key))"
  using assms by (rule RunQueries_spec)

definition sample_query :: "query_type \<Rightarrow> (string \<Rightarrow> bool) option \<Rightarrow> query" where
  "sample_query t content =
     \<lparr>q_Type = t, q_Text = '''', q_Grammar = '''', q_Filter = [], q_FilterExpr = (\<lambda>_. True), q_ContentFilter = '''',
       q_ContentFilterExpr = content\<rparr>"

definition sample_env :: "string query_env" where
  "sample_env =
     \<lparr>qe_tree = (\<lambda>_ _ _. Inl ''no parser''), qe_findAll = (\<lambda>_ _. []), qe_names = (\<lambda>_. []), qe_json = (\<lambda>_. None),
       qe_jq = Inl, qe_yaml = Inl, qe_toml = Inl, qe_yq = (\<lambda>q _. Inl q), qe_sprint = (\<lambda>_. '''')\<rparr>"

theorem run_queries_by_type_witness:
  "\<exists>r. RunQueries sample_env ''f'' ''text''
      [(''a'', sample_query QueryTypeRaw None), (''b'', sample_query QueryTypeAst (Some (\<lambda>_. False)))] = Inr (Inr r) \<and>
    fst ` set r = {''a'', ''b''} \<and> map_of r ''b'' = Some (MatchResults [])"
proof -
  let ?qs = "[(''a'', sample_query QueryTypeRaw None), (''b'', sample_query QueryTypeAst (Some (\<lambda>_. False)))]"
  have wf: "al_wf ?qs" by (simp add: al_wf_def)
  note spec = run_queries_by_type [OF wf, of sample_env "''f''" "''text''"]
  have "runs_on ''text'' t ?qs = [] \<or>
      (\<exists>b. runQueryBatch sample_env t ''f'' ''text'' (runs_on ''text'' t ?qs) = Inr (Inr b))" for t
    by (cases t) (simp_all add: runs_on_def MatchContent_def sample_query_def runQueryBatch_def runRawQueries_def)
  with spec obtain r where r: "RunQueries sample_env ''f'' ''text'' ?qs = Inr (Inr r)" by blast
  have "(''b'', sample_query QueryTypeAst (Some (\<lambda>_. False))) \<in> set ?qs" by simp
  with spec [THEN conjunct2, rule_format, OF r] have
    "if \<not> MatchContent (sample_query QueryTypeAst (Some (\<lambda>_. False))) ''text''
     then map_of r ''b'' = Some (emptyResult (q_Type (sample_query QueryTypeAst (Some (\<lambda>_. False))))) else True"
    by (auto split: if_splits)
  then have "map_of r ''b'' = Some (MatchResults [])"
    by (simp add: MatchContent_def sample_query_def emptyResult_def)
  moreover have "fst ` set r = fst ` set ?qs" using spec [THEN conjunct2, rule_format, OF r] by blast
  ultimately show ?thesis using r by (simp only: list.set image_insert fst_conv image_empty) blast
qed

end
