(* ===== verification/Orion_Generate.thy ===== *)
theory Orion_Generate
  imports Orion_Host Orion_Queries Rules
begin

text \<open>
  Generation of rules by the plugins of the orion host (\<open>language/orion/generate.go\<close>): the source
  files of each plugin and group, the queries on them, analysis, declaration of targets, and the
  conversion of the declared targets into rules. The goroutines of a stage work on different files or
  plugins and are run one after another here, in the order of the maps; \<open>Label.Rel\<close>, \<open>label.New\<close> and
  \<open>IsValidBuildFileName\<close> are third-party.
\<close>

section \<open>Source files of plugins\<close>

definition al_get :: "('k, 'v list) gomap \<Rightarrow> 'k \<Rightarrow> 'v list" where
  "al_get m k = (case map_of m k of None \<Rightarrow> [] | Some vs \<Rightarrow> vs)"

type_synonym 'f prepared = "(string, 'f plugin_config) gomap"

text \<open>The files of each plugin, the plugins of each file, and the files of each group of a plugin.\<close>

record collected =
  co_sources :: "(string, string list) gomap"
  co_plugins :: "(string, string list) gomap"
  co_groups :: "(string, (string, string list) gomap) gomap"

definition matching_groups :: "(string, source_filter list) gomap \<Rightarrow> string \<Rightarrow> string list" where
  "matching_groups sources f = map fst (filter (\<lambda>(_, fs). list_ex (\<lambda>x. filter_Match x f) fs) sources)"

definition collect_plugin :: "string \<Rightarrow> string \<times> 'f plugin_config \<Rightarrow> collected \<Rightarrow> collected" where
  "collect_plugin f kp co =
     (case kp of (pluginId, p) \<Rightarrow>
        let groups = matching_groups (ps_Sources (gc_result p)) f
        in if groups = [] then co
           else \<lparr>co_sources = al_append (co_sources co) pluginId f,
                 co_plugins = al_append (co_plugins co) f pluginId,
                 co_groups = al_put (co_groups co) pluginId
                   (foldl (\<lambda>m g. al_append m g f) (al_get (co_groups co) pluginId) groups)\<rparr>)"

definition collectSourceFilesByPlugin :: "'f prepared \<Rightarrow> (string \<Rightarrow> bool) \<Rightarrow> string list \<Rightarrow> collected" where
  "collectSourceFilesByPlugin prepared isBuildFile files =
     foldl (\<lambda>co f. if isBuildFile f then co else foldl (\<lambda>co p. collect_plugin f p co) co prepared)
       \<lparr>co_sources = [], co_plugins = [], co_groups = []\<rparr> files"

section \<open>Queries\<close>

definition joinPkg :: "string \<Rightarrow> string \<Rightarrow> string" where
  "joinPkg pkg rel = (if pkg = '''' then rel else pkg @ ''/'' @ rel)"

text \<open>The queries of all plugins of a file under keys with the plugin's id, and the plugins' hashes.\<close>

definition query_key :: "string \<Rightarrow> string \<Rightarrow> string" where
  "query_key pluginId queryId = pluginId @ ''|'' @ queryId"

definition add_queries :: "string \<Rightarrow> queries \<Rightarrow> queries \<Rightarrow> queries" where
  "add_queries pluginId qs queries = foldl (\<lambda>m (q, d). al_put m (query_key pluginId q) d) queries qs"

fun file_queries :: "'f prepared \<Rightarrow> string \<Rightarrow> string list \<Rightarrow> queries \<Rightarrow> string list \<Rightarrow> queries \<times> string list" where
  "file_queries prepared f [] queries hashes = (queries, hashes)"
| "file_queries prepared f (k # ks) queries hashes =
     (case map_of prepared k of
        None \<Rightarrow> file_queries prepared f ks queries hashes
      | Some prep \<Rightarrow>
          let qs = getQueriesForFile prep f
          in file_queries prepared f ks (add_queries k qs queries)
               (if qs = [] then hashes else hashes @ [gc_queriesHash prep]))"

text \<open>
  The compute cache, by path, key and loader; its state is of any type. A file's loader runs all its
  queries. \<open>oe_values\<close> is the order in which the runtime gives the values of a map of sources.
\<close>

record ('f, 'c) orion_env =
  oe_query :: "'f query_env"
  oe_load :: "string \<Rightarrow> string \<Rightarrow> (string \<Rightarrow> 'f query_results result) \<Rightarrow> 'c \<Rightarrow> 'f query_results result \<times> 'c"
  oe_values :: "'f target_source list \<Rightarrow> 'f target_source list"
  oe_labelRel :: "label \<Rightarrow> string \<Rightarrow> string \<Rightarrow> label"
  oe_labelNew :: "string \<Rightarrow> string \<Rightarrow> string \<Rightarrow> label"

definition runSourceQueries ::
  "('f, 'c) orion_env \<Rightarrow> queries \<Rightarrow> string \<Rightarrow> string \<Rightarrow> 'c \<Rightarrow> 'f query_results result \<times> 'c" where
  "runSourceQueries env qs queriesHash p c = oe_load env p queriesHash (\<lambda>src. RunQueries (oe_query env) p src qs) c"

text \<open>
  All files: a file's error does not keep the others from being queried, the first one is the result.
\<close>

fun query_files ::
  "('f, 'c) orion_env \<Rightarrow> 'f prepared \<Rightarrow> string \<Rightarrow> (string, string list) gomap \<Rightarrow> 'c \<Rightarrow>
   ((string + (string, 'f query_results) gomap) \<times> 'c) outcome" where
  "query_files env prepared rel [] c = Inr (Inr [], c)"
| "query_files env prepared rel ((f, ks) # files) c =
     (case file_queries prepared f ks [] [] of (qs, hashes) \<Rightarrow>
        if qs = [] then query_files env prepared rel files c
        else case runSourceQueries env qs (Join ''|'' (SortStrings hashes)) (joinPkg rel f) c of (r, c') \<Rightarrow>
          (case r of
             Inl e \<Rightarrow> Inl e
           | Inr r \<Rightarrow>
             (case query_files env prepared rel files c' of
                Inl e \<Rightarrow> Inl e
              | Inr (rest, c'') \<Rightarrow>
                  Inr (case r of Inl e \<Rightarrow> Inl e | Inr results \<Rightarrow> map_sum id ((#) (f, results)) rest, c''))))"

section \<open>Target sources\<close>

type_synonym 'f plugin_sources = "(string, (string, 'f target_source) gomap) gomap"

definition new_sources :: "string list \<Rightarrow> (string, 'f target_source) gomap" where
  "new_sources files = foldl (\<lambda>m f. al_put m f \<lparr>src_Path = f, src_QueryResults = []\<rparr>) [] files"

definition plugin_target_sources :: "'f prepared \<Rightarrow> collected \<Rightarrow> 'f plugin_sources" where
  "plugin_target_sources prepared co = map (\<lambda>(k, _). (k, new_sources (al_get (co_sources co) k))) prepared"

text \<open>A result goes to the plugin and the query that its key names; neither is checked to exist.\<close>

definition assign_result :: "string \<Rightarrow> string \<times> 'f query_result \<Rightarrow> 'f plugin_sources \<Rightarrow> 'f plugin_sources outcome" where
  "assign_result f kr pts =
     (case kr of (key, r) \<Rightarrow>
        case CutByte key (CHR ''|'') of (pluginId, queryId, _) \<Rightarrow>
          (case map_of pts pluginId of
             None \<Rightarrow> Inl (Panic ''assignment to entry in nil map'')
           | Some m \<Rightarrow>
             (case map_of m f of
                None \<Rightarrow> Inl (Panic ''assignment to entry in nil map'')
              | Some src \<Rightarrow>
                  Inr (al_put pts pluginId
                    (al_put m f (src\<lparr>src_QueryResults := al_put (src_QueryResults src) queryId r\<rparr>))))))"

fun assign_file :: "string \<Rightarrow> 'f query_results \<Rightarrow> 'f plugin_sources \<Rightarrow> 'f plugin_sources outcome" where
  "assign_file f [] pts = Inr pts"
| "assign_file f (kr # krs) pts =
     (case assign_result f kr pts of Inl e \<Rightarrow> Inl e | Inr pts' \<Rightarrow> assign_file f krs pts')"

fun assign_results :: "(string, 'f query_results) gomap \<Rightarrow> 'f plugin_sources \<Rightarrow> 'f plugin_sources outcome" where
  "assign_results [] pts = Inr pts"
| "assign_results ((f, results) # rest) pts =
     (case assign_file f results pts of Inl e \<Rightarrow> Inl e | Inr pts' \<Rightarrow> assign_results rest pts')"

section \<open>Analysis and declaration\<close>

definition nil_plugin :: "'a outcome" where
  "nil_plugin = Inl (Panic ''nil plugin'')"

fun analyze_sources ::
  "'f plugin \<Rightarrow> 'f prepare_context \<Rightarrow> 'f target_source list \<Rightarrow> database \<Rightarrow> database outcome" where
  "analyze_sources p ctx [] db = Inr db"
| "analyze_sources p ctx (src # srcs) db =
     (case Analyze p ctx src db of Inl e \<Rightarrow> Inl e | Inr db' \<Rightarrow> analyze_sources p ctx srcs db')"

fun analyze_all :: "'f host \<Rightarrow> 'f plugin_sources \<Rightarrow> 'f prepared \<Rightarrow> database \<Rightarrow> database outcome" where
  "analyze_all h pts [] db = Inr db"
| "analyze_all h pts ((k, prep) # ps) db =
     (let srcs = map snd (al_get pts k)
      in if srcs = [] then analyze_all h pts ps db
         else case map_of (gh_plugins h) k of
           None \<Rightarrow> nil_plugin
         | Some p \<Rightarrow>
           (case analyze_sources p (gc_context prep) srcs db of Inl e \<Rightarrow> Inl e | Inr db' \<Rightarrow> analyze_all h pts ps db'))"

text \<open>A missing entry of a map of sources is an empty source.\<close>

definition source_at :: "(string, 'f target_source) gomap \<Rightarrow> string \<Rightarrow> 'f target_source" where
  "source_at m f = (case map_of m f of None \<Rightarrow> \<lparr>src_Path = '''', src_QueryResults = []\<rparr> | Some s \<Rightarrow> s)"

definition target_groups ::
  "('f target_source list \<Rightarrow> 'f target_source list) \<Rightarrow> prepare_result \<Rightarrow> (string, string list) gomap \<Rightarrow> (string, 'f target_source) gomap \<Rightarrow>
   (string, 'f target_source list) gomap" where
  "target_groups order pr groupFiles srcs =
     (let groups = foldl (\<lambda>m (g, _). al_put m g (map (source_at srcs) (al_get groupFiles g))) [] (ps_Sources pr)
      in if map_of groups DefaultGroup = None then al_put groups DefaultGroup (order (map snd srcs)) else groups)"

fun declare_all ::
  "('f target_source list \<Rightarrow> 'f target_source list) \<Rightarrow> 'f host \<Rightarrow> collected \<Rightarrow> 'f plugin_sources \<Rightarrow> 'f prepared \<Rightarrow> database \<Rightarrow>
   ((string, 'f target_action list) gomap \<times> database) outcome" where
  "declare_all order h co pts [] db = Inr ([], db)"
| "declare_all order h co pts ((k, prep) # ps) db =
     (case map_of (gh_plugins h) k of
        None \<Rightarrow> nil_plugin
      | Some p \<Rightarrow>
        (case DeclareTargets p (gc_context prep)
                (target_groups order (gc_result prep) (al_get (co_groups co) k) (al_get pts k)) db of
           Inl e \<Rightarrow> Inl e
         | Inr (actions, db') \<Rightarrow>
             map_sum id (\<lambda>(as, db''). ((k, actions) # as, db'')) (declare_all order h co pts ps db')))"

section \<open>Rules from targets\<close>

text \<open>The elements of an attribute: gazelle labels, and values as they are.\<close>

datatype 'f elem = ELabel label | EVal "'f oval"

text \<open>The elements, the imports, and whether it is a list; lists in lists are flattened.\<close>

fun convertPluginAttribute ::
  "('f, 'c) orion_env \<Rightarrow> string \<Rightarrow> 'f oval \<Rightarrow> 'f elem list \<times> target_import list \<times> bool" where
  "convertPluginAttribute env pkg (GList vs) =
     (concat (map (\<lambda>v. fst (convertPluginAttribute env pkg v)) vs),
      concat (map (\<lambda>v. fst (snd (convertPluginAttribute env pkg v))) vs), True)"
| "convertPluginAttribute env pkg (GHost (HImport i)) = ([], [i], False)"
| "convertPluginAttribute env pkg (GHost (HLabel l)) =
     ([ELabel (oe_labelRel env (oe_labelNew env (pl_Repo l) (pl_Pkg l) (pl_Name l)) '''' pkg)], [], False)"
| "convertPluginAttribute env pkg v = ([EVal v], [], False)"

record 'f attribute_value =
  av_singleton :: bool
  av_values :: "'f elem list"
  av_imports :: "target_import list"

datatype 'f attr_setting = AttrList "'f elem list" | AttrOne "'f elem"

type_synonym 'f import_data = "(string, 'f attribute_value) gomap"

text \<open>A rule with what the extension attaches to it; another language's rule has none of it.\<close>

record 'f orion_rule =
  or_kind :: string
  or_name :: string
  or_attrs :: "string \<rightharpoonup> 'f attr_setting"
  or_declaration :: "'f target_declaration option"
  or_plugin :: "string option"
  or_attrValues :: "'f import_data option"

definition or_SetAttr :: "string \<Rightarrow> 'f attr_setting \<Rightarrow> 'f orion_rule \<Rightarrow> 'f orion_rule" where
  "or_SetAttr a v r = r\<lparr>or_attrs := (or_attrs r)(a \<mapsto> v)\<rparr>"

definition or_DelAttr :: "string \<Rightarrow> 'f orion_rule \<Rightarrow> 'f orion_rule" where
  "or_DelAttr a r = r\<lparr>or_attrs := (or_attrs r)(a := None)\<rparr>"

definition set_plain :: "string \<Rightarrow> 'f elem list \<Rightarrow> bool \<Rightarrow> 'f orion_rule \<Rightarrow> 'f orion_rule" where
  "set_plain a vs isArray r =
     (case vs of
        [] \<Rightarrow> r
      | v # _ \<Rightarrow>
          if isArray then or_SetAttr a (AttrList vs) r
          else if v = EVal GNil then or_DelAttr a r
          else or_SetAttr a (AttrOne v) r)"

fun convert_attrs ::
  "('f, 'c) orion_env \<Rightarrow> string \<Rightarrow> (string, 'f oval) gomap \<Rightarrow> 'f orion_rule \<Rightarrow> 'f import_data \<Rightarrow>
   'f orion_rule \<times> 'f import_data" where
  "convert_attrs env pkg [] r m = (r, m)"
| "convert_attrs env pkg ((a, v) # attrs) r m =
     (case convertPluginAttribute env pkg v of (vs, is, isArray) \<Rightarrow>
        convert_attrs env pkg attrs (set_plain a vs isArray r)
          (al_put m a \<lparr>av_singleton = \<not> isArray, av_values = vs, av_imports = is\<rparr>))"

text \<open>The rule keeps a reference to its import data.\<close>

definition convertPluginTargetDeclaration ::
  "('f, 'c) orion_env \<Rightarrow> string \<Rightarrow> string \<Rightarrow> 'f target_declaration \<Rightarrow> 'f orion_rule \<times> 'f import_data" where
  "convertPluginTargetDeclaration env pkg pluginId t =
     (case convert_attrs env pkg (td_Attrs t)
             \<lparr>or_kind = td_Kind t, or_name = td_Name t, or_attrs = Map.empty, or_declaration = Some t,
              or_plugin = Some pluginId, or_attrValues = None\<rparr> [] of
        (r, attrs) \<Rightarrow> (r\<lparr>or_attrValues := Some attrs\<rparr>, attrs))"

definition targetAttributesToRelsToImport :: "'f import_data \<Rightarrow> string list" where
  "targetAttributesToRelsToImport attrs =
     concat (map (\<lambda>(_, v). map (\<lambda>i. Trim (sy_Id i) ''/'') (av_imports v)) attrs)"

section \<open>Applying actions\<close>

record 'f gen_result =
  gr_Gen :: "'f orion_rule list"
  gr_Imports :: "'f import_data list"
  gr_Empty :: "rule list"
  gr_RelsToIndex :: "string list"

definition no_result :: "'f gen_result" where
  "no_result = \<lparr>gr_Gen = [], gr_Imports = [], gr_Empty = [], gr_RelsToIndex = []\<rparr>"

definition applyRemoveAction :: "rule_args \<Rightarrow> string \<Rightarrow> string \<Rightarrow> 'f gen_result \<Rightarrow> 'f gen_result" where
  "applyRemoveAction args name kind result =
     (case ra_File args of
        None \<Rightarrow> result
      | Some rules \<Rightarrow>
        (case find (\<lambda>r. ru_name r = name) rules of
           None \<Rightarrow> result
         | Some r \<Rightarrow>
             result\<lparr>gr_Empty := gr_Empty result @ [NewRule (if kind = '''' then ru_kind r else kind) (ru_name r)]\<rparr>))"

definition collision_text :: "collision \<Rightarrow> string" where
  "collision_text c = (case c of Collision rel name expected actual \<Rightarrow> name @ '' '' @ expected @ '' '' @ actual)"

definition applyPluginAction ::
  "('f, 'c) orion_env \<Rightarrow> string list \<Rightarrow> rule_args \<Rightarrow> string \<Rightarrow> 'f target_action \<Rightarrow> 'f gen_result \<times> exts \<Rightarrow>
   ('f gen_result \<times> exts) outcome" where
  "applyPluginAction env sourceRuleKinds args pluginId action st =
     (case st of (result, ex) \<Rightarrow>
        case action of
          RemoveTargetAction name kind \<Rightarrow> Inr (applyRemoveAction args name kind result, ex)
        | AddTargetAction t \<Rightarrow>
          (case CheckCollisionErrors (td_Name t) (td_Kind t) sourceRuleKinds args of
             Some c \<Rightarrow>
               map_sum id (\<lambda>ex'. (result, ex')) (GenerationErrorf ex (''Source rule generation error: '' @ collision_text c))
           | None \<Rightarrow>
             (case convertPluginTargetDeclaration env (ra_Rel args) pluginId t of (r, attrs) \<Rightarrow>
                Inr (\<lparr>gr_Gen = gr_Gen result @ [r], gr_Imports = gr_Imports result @ [attrs],
                      gr_Empty = gr_Empty result,
                      gr_RelsToIndex = gr_RelsToIndex result @ targetAttributesToRelsToImport attrs\<rparr>, ex))))"

fun apply_actions ::
  "('f, 'c) orion_env \<Rightarrow> string list \<Rightarrow> rule_args \<Rightarrow> (string \<times> 'f target_action) list \<Rightarrow> 'f gen_result \<times> exts \<Rightarrow>
   ('f gen_result \<times> exts) outcome" where
  "apply_actions env kinds args [] st = Inr st"
| "apply_actions env kinds args ((k, a) # as) st =
     (case applyPluginAction env kinds args k a st of Inl e \<Rightarrow> Inl e | Inr st' \<Rightarrow> apply_actions env kinds args as st')"

definition convertPlugActionsToGenerateResult ::
  "('f, 'c) orion_env \<Rightarrow> 'f host \<Rightarrow> rule_args \<Rightarrow> (string, 'f target_action list) gomap \<Rightarrow> exts \<Rightarrow>
   ('f gen_result \<times> exts) outcome" where
  "convertPlugActionsToGenerateResult env h args pluginActions ex =
     apply_actions env (gh_sourceRuleKinds h) args
       (concat (map (\<lambda>k. map (Pair k) (al_get pluginActions k)) (gh_pluginIds h))) (no_result, ex)"

section \<open>All stages\<close>

record gen_input =
  gi_args :: rule_args
  gi_RegularFiles :: "string list"
  gi_isBuildFile :: "string \<Rightarrow> bool"

text \<open>The sources with their query results, or the error of a query.\<close>

definition queried_sources ::
  "('f, 'c) orion_env \<Rightarrow> 'f prepared \<Rightarrow> gen_input \<Rightarrow> 'c \<Rightarrow>
   ((string + collected \<times> 'f plugin_sources) \<times> 'c) outcome" where
  "queried_sources env prepared inp c =
     (let co = collectSourceFilesByPlugin prepared (gi_isBuildFile inp) (gi_RegularFiles inp)
      in case query_files env prepared (ra_Rel (gi_args inp)) (co_plugins co) c of
           Inl e \<Rightarrow> Inl e
         | Inr (Inl e, c') \<Rightarrow> Inr (Inl e, c')
         | Inr (Inr results, c') \<Rightarrow>
           (case assign_results results (plugin_target_sources prepared co) of
              Inl e \<Rightarrow> Inl e
            | Inr pts \<Rightarrow> Inr (Inr (co, pts), c')))"

definition generateRules ::
  "('f, 'c) orion_env \<Rightarrow> 'f build_config \<Rightarrow> gen_input \<Rightarrow> 'f host \<Rightarrow> 'c \<Rightarrow> exts \<Rightarrow>
   ('f gen_result \<times> 'f host \<times> 'c \<times> exts) outcome" where
  "generateRules env cfg inp h c ex =
     (case queried_sources env (bc_prepared cfg) inp c of
        Inl e \<Rightarrow> Inl e
      | Inr (Inl err, c') \<Rightarrow>
          map_sum id (\<lambda>ex'. (no_result, h, c', ex')) (GenerationErrorf ex (''Plugin source query error: '' @ err))
      | Inr (Inr (co, pts), c') \<Rightarrow>
        (case analyze_all h pts (bc_prepared cfg) (gh_database h) of
           Inl e \<Rightarrow> Inl e
         | Inr db \<Rightarrow>
           (case declare_all (oe_values env) h co pts (bc_prepared cfg) db of
              Inl e \<Rightarrow> Inl e
            | Inr (actions, db') \<Rightarrow>
                map_sum id (\<lambda>(result, ex'). (result, h\<lparr>gh_database := db'\<rparr>, c', ex'))
                  (convertPlugActionsToGenerateResult env h (gi_args inp) actions ex))))"

text \<open>The configuration is marked as generated.\<close>

definition GenerateRules ::
  "('f, 'c) orion_env \<Rightarrow> 'f configs option \<Rightarrow> gen_input \<Rightarrow> 'f host \<Rightarrow> 'c \<Rightarrow> exts \<Rightarrow>
   ('f configs \<times> 'f gen_result \<times> 'f host \<times> 'c \<times> exts) outcome" where
  "GenerateRules env cfg inp h c ex =
     (case getBUILDConfig cfg (ra_Rel (gi_args inp)) of
        Inl e \<Rightarrow> Inl e
      | Inr cs \<Rightarrow>
          let b = (hd cs)\<lparr>bc_generated := True\<rparr>
          in map_sum id (\<lambda>r. (b # tl cs, r)) (generateRules env b inp h c ex))"

section \<open>Lemmas on collecting\<close>

lemma al_get_append [simp]: "al_get (al_append m k v) k' = al_get m k' @ (if k' = k then [v] else [])"
  by (simp add: al_get_def al_append_def split: option.splits)

lemma al_get_put [simp]: "al_get (al_put m k v) k' = (if k' = k then v else al_get m k')"
  by (simp add: al_get_def)

lemma al_get_Nil [simp]: "al_get [] k = []"
  by (simp add: al_get_def)

lemma al_wf_append [simp]: "al_wf m \<Longrightarrow> al_wf (al_append m k v)"
  by (simp add: al_append_def)

definition groups_of :: "'f plugin_config \<Rightarrow> string \<Rightarrow> string list" where
  "groups_of p f = matching_groups (ps_Sources (gc_result p)) f"

lemma distinct_groups_of: "al_wf (ps_Sources (gc_result p)) \<Longrightarrow> distinct (groups_of p f)"
  unfolding groups_of_def matching_groups_def al_wf_def by (rule distinct_map_filter)

lemma al_get_groups:
  "distinct gs \<Longrightarrow>
   al_get (foldl (\<lambda>m g. al_append m g f) m gs) g = al_get m g @ (if g \<in> set gs then [f] else [])"
  by (induction gs arbitrary: m) auto

text \<open>What one file adds for each plugin.\<close>

definition added :: "'f prepared \<Rightarrow> string \<Rightarrow> collected \<Rightarrow> collected \<Rightarrow> bool" where
  "added ps f co co' \<longleftrightarrow>
     (\<forall>k. al_get (co_sources co') k = al_get (co_sources co) k @
        (case map_of ps k of None \<Rightarrow> [] | Some p \<Rightarrow> if groups_of p f = [] then [] else [f])) \<and>
     (\<forall>k g. al_get (al_get (co_groups co') k) g = al_get (al_get (co_groups co) k) g @
        (case map_of ps k of None \<Rightarrow> [] | Some p \<Rightarrow> if g \<in> set (groups_of p f) then [f] else [])) \<and>
     (\<forall>f'. al_get (co_plugins co') f' = al_get (co_plugins co) f' @
        (if f' = f then map fst (filter (\<lambda>(_, p). groups_of p f \<noteq> []) ps) else [])) \<and>
     (al_wf (co_plugins co) \<longrightarrow> al_wf (co_plugins co'))"

lemma collect_plugin_added:
  assumes "al_wf (ps_Sources (gc_result p))"
  shows "added [(k, p)] f co (collect_plugin f (k, p) co)"
  using distinct_groups_of [OF assms, of f]
  by (simp add: added_def collect_plugin_def groups_of_def [symmetric] Let_def al_get_groups)

lemma added_Cons:
  assumes "added [(k, p)] f co co1" "added ps f co1 co2" "map_of ps k = None"
  shows "added ((k, p) # ps) f co co2"
  using assms by (auto simp: added_def split: option.splits)

lemma collect_file_added:
  "al_wf ps \<Longrightarrow> \<forall>(k, p) \<in> set ps. al_wf (ps_Sources (gc_result p)) \<Longrightarrow>
   added ps f co (foldl (\<lambda>co p. collect_plugin f p co) co ps)"
proof (induction ps arbitrary: co)
  case (Cons kp ps)
  obtain k p where kp: "kp = (k, p)" by (rule prod.exhaust)
  have wf: "al_wf ps" "map_of ps k = None" "al_wf (ps_Sources (gc_result p))"
    "\<forall>(k, p) \<in> set ps. al_wf (ps_Sources (gc_result p))"
    using Cons.prems kp by (auto simp: al_wf_def map_of_eq_None_iff)
  from added_Cons [OF collect_plugin_added [OF wf(3)] Cons.IH [OF wf(1,4)] wf(2)] show ?case
    by (simp add: kp)
qed (simp add: added_def)

definition collected_as :: "'f prepared \<Rightarrow> string list \<Rightarrow> collected \<Rightarrow> bool" where
  "collected_as ps files co \<longleftrightarrow>
     (\<forall>k. al_get (co_sources co) k =
        (case map_of ps k of None \<Rightarrow> [] | Some p \<Rightarrow> filter (\<lambda>f. groups_of p f \<noteq> []) files)) \<and>
     (\<forall>k g. al_get (al_get (co_groups co) k) g =
        (case map_of ps k of None \<Rightarrow> [] | Some p \<Rightarrow> filter (\<lambda>f. g \<in> set (groups_of p f)) files)) \<and>
     (\<forall>f. f \<in> set files \<longrightarrow> distinct files \<longrightarrow>
        al_get (co_plugins co) f = map fst (filter (\<lambda>(_, p). groups_of p f \<noteq> []) ps)) \<and>
     (\<forall>f. f \<notin> set files \<longrightarrow> al_get (co_plugins co) f = []) \<and>
     al_wf (co_plugins co)"

lemma collect_files:
  assumes "al_wf ps" "\<forall>(k, p) \<in> set ps. al_wf (ps_Sources (gc_result p))"
  shows "collected_as ps (filter (\<lambda>f. \<not> isBuildFile f) files) (collectSourceFilesByPlugin ps isBuildFile files)"
proof (induction files rule: rev_induct)
  case Nil
  show ?case
    by (auto simp: collected_as_def collectSourceFilesByPlugin_def al_get_def split: option.splits)
next
  case (snoc f files)
  show ?case
  proof (cases "isBuildFile f")
    case True
    with snoc show ?thesis by (simp add: collectSourceFilesByPlugin_def)
  next
    case False
    let ?co = "collectSourceFilesByPlugin ps isBuildFile files"
    have "collectSourceFilesByPlugin ps isBuildFile (files @ [f]) = foldl (\<lambda>co p. collect_plugin f p co) ?co ps"
      using False by (simp add: collectSourceFilesByPlugin_def)
    with collect_file_added [OF assms, of f ?co] have
      "added ps f ?co (collectSourceFilesByPlugin ps isBuildFile (files @ [f]))" by simp
    with snoc False show ?thesis
      by (auto simp: collected_as_def added_def split: option.splits)
  qed
qed

section \<open>Lemmas on queries\<close>

lemma query_key_same [simp]: "query_key k q = query_key k q' \<longleftrightarrow> q = q'"
  by (simp add: query_key_def)

lemma find_map_of: "find (\<lambda>(q', d). q = q') qs = map_option (Pair q) (map_of qs q)"
  by (induction qs) auto

lemma add_queries_map_of:
  "al_wf qs \<Longrightarrow> map_of (add_queries k qs m) x =
     (case find (\<lambda>(q, d). x = query_key k q) qs of Some (_, d) \<Rightarrow> Some d | None \<Rightarrow> map_of m x)"
proof (induction qs arbitrary: m)
  case (Cons qd qs)
  obtain q d where qd: "qd = (q, d)" by (rule prod.exhaust)
  have wf: "al_wf qs" "q \<notin> fst ` set qs" using Cons.prems qd by (simp_all add: al_wf_def)
  have "add_queries k (qd # qs) m = add_queries k qs (al_put m (query_key k q) d)"
    by (simp add: add_queries_def qd)
  moreover have "find (\<lambda>(q', d). query_key k q = query_key k q') qs = None"
    using wf(2) by (simp add: find_map_of map_of_eq_None_iff)
  ultimately show ?case using Cons.IH [OF wf(1)] by (auto simp: qd split: option.splits)
qed (simp add: add_queries_def)

lemma query_key_Cut: "CHR ''|'' \<notin> set k \<Longrightarrow> CutByte (query_key k q) (CHR ''|'') = (k, q, True)"
  using CutByte_append [of "CHR ''|''" k q] by (simp add: query_key_def)

lemma key_inj:
  assumes "CHR ''|'' \<notin> set k" "CHR ''|'' \<notin> set k'" "query_key k q = query_key k' q'"
  shows "k = k' \<and> q = q'"
  using query_key_Cut [OF assms(1), of q] query_key_Cut [OF assms(2), of q'] unfolding assms(3) by simp

text \<open>Under a key with a plugin's id are the plugin's queries.\<close>

definition plain_ids :: "'f prepared \<Rightarrow> bool" where
  "plain_ids ps \<longleftrightarrow> (\<forall>(k, p) \<in> set ps. CHR ''|'' \<notin> set k \<and> al_wf (ps_Queries (gc_result p)))"

lemma getQueriesForFile_wf: "al_wf (ps_Queries (gc_result p)) \<Longrightarrow> al_wf (getQueriesForFile p f)"
  unfolding getQueriesForFile_def al_wf_def by (rule distinct_map_filter)

lemma file_queries_keys:
  "plain_ids ps \<Longrightarrow> al_wf ps \<Longrightarrow> set ks \<subseteq> fst ` set ps \<Longrightarrow> al_wf m \<Longrightarrow>
   al_wf (fst (file_queries ps f ks m hs)) \<and>
   (\<forall>x. map_of (fst (file_queries ps f ks m hs)) x \<noteq> None \<longleftrightarrow>
      map_of m x \<noteq> None \<or> (\<exists>k \<in> set ks. \<exists>q. x = query_key k q \<and> map_of (getQueriesForFile (the (map_of ps k)) f) q \<noteq> None)) \<and>
   (\<forall>k q. CHR ''|'' \<notin> set k \<longrightarrow> map_of (fst (file_queries ps f ks m hs)) (query_key k q) =
      (if k \<in> set ks \<and> map_of (getQueriesForFile (the (map_of ps k)) f) q \<noteq> None
       then map_of (getQueriesForFile (the (map_of ps k)) f) q else map_of m (query_key k q)))"
proof (induction ps f ks m hs rule: file_queries.induct)
  case (2 ps f k ks m hs)
  obtain p where p: "map_of ps k = Some p" using "2.prems"(3) by (fastforce dest: weak_map_of_SomeI)
  have plain: "CHR ''|'' \<notin> set k" "al_wf (ps_Queries (gc_result p))"
    using "2.prems"(1) map_of_SomeD [OF p] by (auto simp: plain_ids_def)
  let ?qs = "getQueriesForFile p f"
  have wf: "al_wf ?qs" by (rule getQueriesForFile_wf [OF plain(2)])
  have wf_add: "al_wf m \<Longrightarrow> al_wf (add_queries k qs m)" for qs m
    by (induction qs arbitrary: m) (auto simp: add_queries_def)
  have own: "map_of (add_queries k ?qs m) (query_key k q) =
      (if map_of ?qs q \<noteq> None then map_of ?qs q else map_of m (query_key k q))" for q
    by (simp add: add_queries_map_of [OF wf] find_map_of split: option.splits)
  have other: "map_of (add_queries k ?qs m) x = map_of m x" if "\<forall>q. x = query_key k q \<longrightarrow> map_of ?qs q = None" for x
  proof -
    have "find (\<lambda>(q, d). x = query_key k q) ?qs = None"
    proof (rule ccontr)
      assume "find (\<lambda>(q, d). x = query_key k q) ?qs \<noteq> None"
      then obtain q d where "(q, d) \<in> set ?qs" "x = query_key k q" by (auto simp: find_None_iff)
      with that have "map_of ?qs q = None" "q \<in> fst ` set ?qs" by (blast, force)
      then show False by (simp add: map_of_eq_None_iff)
    qed
    then show ?thesis by (simp add: add_queries_map_of [OF wf])
  qed
  have sub: "set ks \<subseteq> fst ` set ps" using "2.prems"(3) by simp
  note IH = "2.IH"(2) [OF p refl "2.prems"(1,2) sub wf_add [OF "2.prems"(4)]]
  have step: "fst (file_queries ps f (k # ks) m hs) = fst (file_queries ps f ks (add_queries k ?qs m)
      (if ?qs = [] then hs else hs @ [gc_queriesHash p]))"
    by (simp add: p Let_def)
  have some: "map_of (add_queries k ?qs m) x \<noteq> None \<longleftrightarrow>
      map_of m x \<noteq> None \<or> (\<exists>q. x = query_key k q \<and> map_of ?qs q \<noteq> None)" for x
    using own other [of x] by (cases "\<exists>q. x = query_key k q \<and> map_of ?qs q \<noteq> None") auto
  have key: "map_of (add_queries k ?qs m) (query_key k' q) =
      (if k' = k \<and> map_of ?qs q \<noteq> None then map_of ?qs q else map_of m (query_key k' q))"
    if "CHR ''|'' \<notin> set k'" for k' q
  proof (cases "k' = k")
    case True
    then show ?thesis using own by simp
  next
    case False
    then show ?thesis using other [of "query_key k' q"] key_inj [OF that plain(1)] by auto
  qed
  show ?case unfolding step
  proof (intro conjI allI impI)
    show "al_wf (fst (file_queries ps f ks (add_queries k ?qs m) (if ?qs = [] then hs else hs @ [gc_queriesHash p])))"
      using IH by blast
  next
    fix x
    show "map_of (fst (file_queries ps f ks (add_queries k ?qs m) (if ?qs = [] then hs else hs @ [gc_queriesHash p]))) x \<noteq> None \<longleftrightarrow>
      map_of m x \<noteq> None \<or>
      (\<exists>k \<in> set (k # ks). \<exists>q. x = query_key k q \<and> map_of (getQueriesForFile (the (map_of ps k)) f) q \<noteq> None)"
      using IH some [of x] p by auto
  next
    fix k' q
    assume "CHR ''|'' \<notin> set k'"
    then show "map_of (fst (file_queries ps f ks (add_queries k ?qs m)
          (if ?qs = [] then hs else hs @ [gc_queriesHash p]))) (query_key k' q) =
        (if k' \<in> set (k # ks) \<and> map_of (getQueriesForFile (the (map_of ps k')) f) q \<noteq> None
         then map_of (getQueriesForFile (the (map_of ps k')) f) q else map_of m (query_key k' q))"
      using IH key [of k' q] p by auto
  qed
qed simp

section \<open>Lemmas on target sources\<close>

lemma al_put_keys: "k \<in> fst ` set m \<Longrightarrow> map fst (al_put m k v) = map fst m"
  by (induction m k v rule: al_put.induct) auto

definition results_at :: "'f plugin_sources \<Rightarrow> string \<Rightarrow> string \<Rightarrow> 'f query_results" where
  "results_at pts k f = src_QueryResults (source_at (al_get pts k) f)"

text \<open>Only query results differ.\<close>

definition same_sources :: "'f plugin_sources \<Rightarrow> 'f plugin_sources \<Rightarrow> bool" where
  "same_sources pts pts' \<longleftrightarrow>
     (\<forall>k. (map_of pts' k = None) = (map_of pts k = None) \<and> map fst (al_get pts' k) = map fst (al_get pts k)) \<and>
     (\<forall>k f. src_Path (source_at (al_get pts' k) f) = src_Path (source_at (al_get pts k) f))"

lemma same_sources_refl: "same_sources pts pts"
  by (simp add: same_sources_def)

lemma same_sources_trans: "same_sources a b \<Longrightarrow> same_sources b c \<Longrightarrow> same_sources a c"
  by (simp add: same_sources_def)

definition has_source :: "'f plugin_sources \<Rightarrow> string \<Rightarrow> string \<Rightarrow> bool" where
  "has_source pts k f \<longleftrightarrow> map_of pts k \<noteq> None \<and> f \<in> set (map fst (al_get pts k))"

lemma has_source_same: "same_sources pts pts' \<Longrightarrow> has_source pts' k f = has_source pts k f"
  unfolding has_source_def same_sources_def by presburger

lemma assign_result_ok:
  assumes "CHR ''|'' \<notin> set k" "has_source pts k f"
  obtains pts' where "assign_result f (query_key k q, r) pts = Inr pts'" "same_sources pts pts'"
    "\<And>k' f' q'. map_of (results_at pts' k' f') q' =
       (if k' = k \<and> f' = f \<and> q' = q then Some r else map_of (results_at pts k' f') q')"
proof -
  obtain m where "map_of pts k = Some m" using assms(2) by (auto simp: has_source_def)
  then have m: "map_of pts k = Some m" "al_get pts k = m" "f \<in> fst ` set m"
    using assms(2) by (simp_all add: has_source_def al_get_def)
  then obtain src where src: "map_of m f = Some src" by (cases "map_of m f") (auto simp: map_of_eq_None_iff)
  let ?src = "src\<lparr>src_QueryResults := al_put (src_QueryResults src) q r\<rparr>"
  let ?pts = "al_put pts k (al_put m f ?src)"
  have run: "assign_result f (query_key k q, r) pts = Inr ?pts"
    by (simp add: assign_result_def query_key_Cut [OF assms(1)] m(1) src)
  have look: "source_at (al_get ?pts k') f' = (if k' = k \<and> f' = f then ?src else source_at (al_get pts k') f')" for k' f'
    using m(2) by (simp add: source_at_def)
  have old: "source_at (al_get pts k) f = src" using m(2) src by (simp add: source_at_def)
  have same: "same_sources pts ?pts"
    unfolding same_sources_def look
    using al_put_keys [OF m(3), of ?src] m(1,2) old by (simp del: al_get_put) (simp add: al_get_def)
  have "map_of (results_at ?pts k' f') q' =
      (if k' = k \<and> f' = f \<and> q' = q then Some r else map_of (results_at pts k' f') q')" for k' f' q'
    unfolding results_at_def look using old by simp
  with run same show ?thesis by (rule that)
qed

text \<open>All keys of a file's results name a plugin and one of its sources.\<close>

definition keys_ok :: "'f plugin_sources \<Rightarrow> string \<Rightarrow> 'f query_results \<Rightarrow> bool" where
  "keys_ok pts f rs \<longleftrightarrow>
     al_wf rs \<and> (\<forall>(key, r) \<in> set rs. \<exists>k q. key = query_key k q \<and> CHR ''|'' \<notin> set k \<and> has_source pts k f)"

lemma keys_ok_same: "same_sources pts pts' \<Longrightarrow> keys_ok pts' f rs = keys_ok pts f rs"
  by (simp add: keys_ok_def has_source_same)

definition pick :: "'a option \<Rightarrow> 'a option \<Rightarrow> 'a option" where
  "pick a b = (case a of Some x \<Rightarrow> Some x | None \<Rightarrow> b)"

lemma pick_simps [simp]: "pick None b = b" "pick (Some x) b = Some x"
  by (simp_all add: pick_def)

definition assigned :: "'f plugin_sources \<Rightarrow> (string \<Rightarrow> 'f query_results option) \<Rightarrow> 'f plugin_sources \<Rightarrow> bool" where
  "assigned pts rs pts' \<longleftrightarrow> same_sources pts pts' \<and>
     (\<forall>k f q. CHR ''|'' \<notin> set k \<longrightarrow>
        map_of (results_at pts' k f) q =
          pick (Option.bind (rs f) (\<lambda>m. map_of m (query_key k q))) (map_of (results_at pts k f) q))"

lemma assign_file_ok:
  "keys_ok pts f rs \<Longrightarrow> \<exists>pts'. assign_file f rs pts = Inr pts' \<and> assigned pts [f \<mapsto> rs] pts'"
proof (induction rs arbitrary: pts)
  case (Cons kr rs)
  obtain key r where kr: "kr = (key, r)" by (rule prod.exhaust)
  obtain k q where key: "key = query_key k q" "CHR ''|'' \<notin> set k" "has_source pts k f"
    using Cons.prems kr by (auto simp: keys_ok_def)
  obtain pts1 where p1: "assign_result f (query_key k q, r) pts = Inr pts1" "same_sources pts pts1"
    "\<And>k' f' q'. map_of (results_at pts1 k' f') q' =
       (if k' = k \<and> f' = f \<and> q' = q then Some r else map_of (results_at pts k' f') q')"
    by (rule assign_result_ok [OF key(2,3), of q r]) (rule that)
  have "keys_ok pts1 f rs"
    using Cons.prems unfolding keys_ok_same [OF p1(2)] by (auto simp: keys_ok_def al_wf_def)
  from Cons.IH [OF this] obtain pts2 where p2: "assign_file f rs pts1 = Inr pts2" "assigned pts1 [f \<mapsto> rs] pts2"
    by blast
  have new: "map_of rs (query_key k q) = None"
    using Cons.prems kr key(1) by (simp add: keys_ok_def al_wf_def map_of_eq_None_iff)
  have "map_of (results_at pts2 k' f') q' =
      pick (Option.bind ([f \<mapsto> kr # rs] f') (\<lambda>m. map_of m (query_key k' q'))) (map_of (results_at pts k' f') q')"
    if k': "CHR ''|'' \<notin> set k'" for k' f' q'
  proof -
    have two: "map_of (results_at pts2 k' f') q' =
        pick (Option.bind ([f \<mapsto> rs] f') (\<lambda>m. map_of m (query_key k' q'))) (map_of (results_at pts1 k' f') q')"
      using p2(2) k' by (simp add: assigned_def)
    show ?thesis
    proof (cases "k' = k \<and> f' = f \<and> q' = q")
      case True
      with two new show ?thesis by (simp add: kr key(1) p1(3))
    next
      case False
      then have "f' = f \<Longrightarrow> query_key k' q' \<noteq> query_key k q" using key_inj [OF k' key(2)] by blast
      with two False show ?thesis by (cases "f' = f") (auto simp: kr key(1) p1(3))
    qed
  qed
  moreover have "same_sources pts pts2" using p1(2) p2(2) by (auto simp: assigned_def intro: same_sources_trans)
  ultimately have "assigned pts [f \<mapsto> kr # rs] pts2" unfolding assigned_def by blast
  moreover have "assign_file f (kr # rs) pts = Inr pts2" using p1(1) p2(1) by (simp add: kr key(1))
  ultimately show ?case by blast
qed (simp add: assigned_def same_sources_refl)

lemma assigned_trans:
  assumes "assigned a [f \<mapsto> r] b" "assigned b (map_of rs) c" "map_of rs f = None"
  shows "assigned a (map_of ((f, r) # rs)) c"
proof -
  have "map_of (results_at c k f') q =
      pick (Option.bind (map_of ((f, r) # rs) f') (\<lambda>m. map_of m (query_key k q))) (map_of (results_at a k f') q)"
    if "CHR ''|'' \<notin> set k" for k f' q
    using assms that by (cases "f' = f") (simp_all add: assigned_def)
  moreover have "same_sources a c" using assms by (auto simp: assigned_def intro: same_sources_trans)
  ultimately show ?thesis unfolding assigned_def by blast
qed

lemma assign_results_ok:
  "al_wf rs \<Longrightarrow> \<forall>(f, r) \<in> set rs. keys_ok pts f r \<Longrightarrow>
   \<exists>pts'. assign_results rs pts = Inr pts' \<and> assigned pts (map_of rs) pts'"
proof (induction rs arbitrary: pts)
  case (Cons fr rs)
  obtain f r where fr: "fr = (f, r)" by (rule prod.exhaust)
  have wf: "al_wf rs" "map_of rs f = None"
    using Cons.prems(1) fr by (auto simp: al_wf_def map_of_eq_None_iff)
  have "keys_ok pts f r" using Cons.prems(2) fr by simp
  from assign_file_ok [OF this] obtain pts1 where p1: "assign_file f r pts = Inr pts1" "assigned pts [f \<mapsto> r] pts1"
    by blast
  then have "same_sources pts pts1" by (simp add: assigned_def)
  then have "\<forall>(f, r) \<in> set rs. keys_ok pts1 f r" using Cons.prems(2) by (auto simp: keys_ok_same)
  from Cons.IH [OF wf(1) this] obtain pts2 where p2: "assign_results rs pts1 = Inr pts2" "assigned pts1 (map_of rs) pts2"
    by blast
  from assigned_trans [OF p1(2) p2(2) wf(2)] show ?case
    by (intro exI [of _ pts2]) (simp add: fr p1(1) p2(1) del: map_of.simps)
qed (simp add: assigned_def same_sources_refl)

lemma new_sources_distinct:
  "distinct files \<Longrightarrow> new_sources files = map (\<lambda>f. (f, \<lparr>src_Path = f, src_QueryResults = []\<rparr>)) files"
  unfolding new_sources_def by (induction files rule: rev_induct) (simp_all add: al_put_new image_image)

lemma map_of_foldl_put:
  "map_of (foldl (\<lambda>m (g, _). al_put m g (h g)) m xs) g = (if g \<in> fst ` set xs then Some (h g) else map_of m g)"
  by (induction xs arbitrary: m) auto

section \<open>What plugins are given\<close>

text \<open>The plugins of a file, and all their queries on it.\<close>

definition runs_for :: "'f prepared \<Rightarrow> string \<Rightarrow> string list" where
  "runs_for ps f = map fst (filter (\<lambda>(_, p). groups_of p f \<noteq> []) ps)"

definition file_runs :: "'f prepared \<Rightarrow> string \<Rightarrow> queries \<times> string list" where
  "file_runs ps f = file_queries ps f (runs_for ps f) [] []"

lemma query_files_ok:
  assumes "\<And>f ks c. (f, ks) \<in> set files \<Longrightarrow> fst (file_queries ps f ks [] []) \<noteq> [] \<Longrightarrow>
    fst (runSourceQueries env (fst (file_queries ps f ks [] []))
      (Join ''|'' (SortStrings (snd (file_queries ps f ks [] [])))) (joinPkg rel f) c) = Inr (Inr (res f))"
  shows "\<exists>c'. query_files env ps rel files c =
    Inr (Inr (map (\<lambda>(f, _). (f, res f)) (filter (\<lambda>(f, ks). fst (file_queries ps f ks [] []) \<noteq> []) files)), c')"
  using assms
proof (induction files arbitrary: c)
  case (Cons fk files)
  obtain f ks where fk: "fk = (f, ks)" by (rule prod.exhaust)
  obtain qs hs where q: "file_queries ps f ks [] [] = (qs, hs)" by (rule prod.exhaust)
  have IH: "\<exists>c'. query_files env ps rel files c =
      Inr (Inr (map (\<lambda>(f, _). (f, res f)) (filter (\<lambda>(f, ks). fst (file_queries ps f ks [] []) \<noteq> []) files)), c')" for c
    by (rule Cons.IH) (use Cons.prems in simp)
  show ?case
  proof (cases "qs = []")
    case True
    with IH [of c] show ?thesis by (simp add: fk q)
  next
    case False
    obtain r c1 where r: "runSourceQueries env qs (Join ''|'' (SortStrings hs)) (joinPkg rel f) c = (r, c1)"
      by (rule prod.exhaust)
    have "r = Inr (Inr (res f))" using Cons.prems [of f ks c] False by (simp add: fk q r)
    with IH [of c1] False show ?thesis by (auto simp: fk q r)
  qed
qed simp

lemma file_runs_keys:
  assumes "al_wf ps" "plain_ids ps"
  shows "al_wf (fst (file_runs ps f))"
    and "map_of (fst (file_runs ps f)) x \<noteq> None \<Longrightarrow>
      \<exists>k p q. x = query_key k q \<and> map_of ps k = Some p \<and> CHR ''|'' \<notin> set k \<and> groups_of p f \<noteq> []"
    and "map_of ps k = Some p \<Longrightarrow> groups_of p f \<noteq> [] \<Longrightarrow>
      map_of (fst (file_runs ps f)) (query_key k q) = map_of (getQueriesForFile p f) q"
proof -
  have sub: "set (runs_for ps f) \<subseteq> fst ` set ps" by (auto simp: runs_for_def)
  have mem: "k \<in> set (runs_for ps f) \<longleftrightarrow> (\<exists>p. map_of ps k = Some p \<and> groups_of p f \<noteq> [])" for k
    using assms(1) by (force simp: runs_for_def al_wf_def)
  have plain: "CHR ''|'' \<notin> set k" if "map_of ps k = Some p" for k p
    using assms(2) map_of_SomeD [OF that] by (auto simp: plain_ids_def)
  note spec = file_queries_keys [OF assms(2,1) sub al_wf_Nil, of f "[]", folded file_runs_def]
  show "al_wf (fst (file_runs ps f))" using spec by blast
  show "\<exists>k p q. x = query_key k q \<and> map_of ps k = Some p \<and> CHR ''|'' \<notin> set k \<and> groups_of p f \<noteq> []"
    if some: "map_of (fst (file_runs ps f)) x \<noteq> None"
  proof -
    have "\<exists>k \<in> set (runs_for ps f). \<exists>q. x = query_key k q"
      using spec [THEN conjunct2, THEN conjunct1, rule_format, THEN iffD1, OF some] by auto
    with mem plain show ?thesis by blast
  qed
  show "map_of (fst (file_runs ps f)) (query_key k q) = map_of (getQueriesForFile p f) q"
    if "map_of ps k = Some p" "groups_of p f \<noteq> []"
    using spec mem [of k] plain [OF that(1)] that by (auto split: if_splits)
qed

text \<open>All the files with queries, and the results for each.\<close>

lemma queried_files:
  fixes res :: "string \<Rightarrow> 'f query_results"
  assumes "al_wf ps" "collected_as ps files co" "distinct files"
  defines "rs \<equiv> map (\<lambda>(f, _). (f, res f)) (filter (\<lambda>(f, ks). fst (file_queries ps f ks [] []) \<noteq> []) (co_plugins co))"
  shows "al_wf rs" "map_of rs f = (if f \<in> set files \<and> fst (file_runs ps f) \<noteq> [] then Some (res f) else None)"
    and "(f, ks) \<in> set (co_plugins co) \<Longrightarrow> fst (file_queries ps f ks [] []) \<noteq> [] \<Longrightarrow>
      f \<in> set files \<and> file_queries ps f ks [] [] = file_runs ps f"
proof -
  have wf: "al_wf (co_plugins co)" using assms(2) by (simp add: collected_as_def)
  have ks: "ks = (if f \<in> set files then runs_for ps f else [])" if "(f, ks) \<in> set (co_plugins co)" for f ks
  proof -
    have "al_get (co_plugins co) f = ks" using al_wf_map_of [OF wf that] by (simp add: al_get_def)
    then show ?thesis using assms(2,3) by (auto simp: collected_as_def runs_for_def)
  qed
  show used: "f \<in> set files \<and> file_queries ps f ks [] [] = file_runs ps f"
    if "(f, ks) \<in> set (co_plugins co)" "fst (file_queries ps f ks [] []) \<noteq> []" for f ks
    using ks [OF that(1)] that(2) by (auto simp: file_runs_def split: if_splits)
  show wf_rs: "al_wf rs"
    using wf unfolding rs_def al_wf_def by (simp add: comp_def case_prod_unfold distinct_map_filter)
  have "(f, r) \<in> set rs \<longleftrightarrow> f \<in> set files \<and> fst (file_runs ps f) \<noteq> [] \<and> r = res f" for r
  proof
    assume "(f, r) \<in> set rs"
    then obtain ks where "(f, ks) \<in> set (co_plugins co)" "fst (file_queries ps f ks [] []) \<noteq> []" "r = res f"
      by (auto simp: rs_def)
    with used [OF this(1,2)] show "f \<in> set files \<and> fst (file_runs ps f) \<noteq> [] \<and> r = res f" by simp
  next
    assume h: "f \<in> set files \<and> fst (file_runs ps f) \<noteq> [] \<and> r = res f"
    then have "runs_for ps f \<noteq> []" by (auto simp: file_runs_def)
    then have "al_get (co_plugins co) f \<noteq> []" using assms(2,3) h by (simp add: collected_as_def runs_for_def)
    then obtain ks where "map_of (co_plugins co) f = Some ks" by (auto simp: al_get_def split: option.splits)
    then have mem: "(f, ks) \<in> set (co_plugins co)" by (rule map_of_SomeD)
    with ks [OF mem] h have "fst (file_queries ps f ks [] []) \<noteq> []" by (simp add: file_runs_def)
    with mem h show "(f, r) \<in> set rs" by (force simp: rs_def)
  qed
  then have entry: "map_of rs f = Some r \<longleftrightarrow> f \<in> set files \<and> fst (file_runs ps f) \<noteq> [] \<and> r = res f" for r
    using wf_rs by (simp add: al_wf_def)
  show "map_of rs f = (if f \<in> set files \<and> fst (file_runs ps f) \<noteq> [] then Some (res f) else None)"
  proof (cases "map_of rs f")
    case None
    with entry [of "res f"] show ?thesis by simp
  next
    case (Some r)
    with entry [of r] show ?thesis by simp
  qed
qed

text \<open>What a plugin must be given for its files.\<close>

definition sources_as :: "gen_input \<Rightarrow> 'f prepared \<Rightarrow> (string \<Rightarrow> 'f query_results) \<Rightarrow> string \<Rightarrow> 'f plugin_config \<Rightarrow>
    (string, 'f target_source) gomap \<Rightarrow> bool" where
  "sources_as inp ps res k p srcs \<longleftrightarrow>
     distinct (map fst srcs) \<and>
     set (map fst srcs) = {f \<in> set (gi_RegularFiles inp). \<not> gi_isBuildFile inp f \<and> groups_of p f \<noteq> []} \<and>
     (\<forall>f \<in> set (map fst srcs). src_Path (source_at srcs f) = f \<and>
        (\<forall>q. map_of (fst (file_runs ps f)) (query_key k q) = map_of (getQueriesForFile p f) q \<and>
             map_of (src_QueryResults (source_at srcs f)) q =
               (if map_of (getQueriesForFile p f) q = None then None else map_of (res f) (query_key k q))))"

definition groups_as :: "gen_input \<Rightarrow> 'f plugin_config \<Rightarrow> (string, 'f target_source) gomap \<Rightarrow>
    (string, 'f target_source list) gomap \<Rightarrow> bool" where
  "groups_as inp p srcs groups \<longleftrightarrow>
     (\<forall>g \<in> fst ` set (ps_Sources (gc_result p)).
        map_of groups g = Some (map (source_at srcs)
          (filter (\<lambda>f. \<not> gi_isBuildFile inp f \<and> g \<in> set (groups_of p f)) (gi_RegularFiles inp)))) \<and>
     (DefaultGroup \<notin> fst ` set (ps_Sources (gc_result p)) \<longrightarrow> (\<exists>vs. map_of groups DefaultGroup = Some vs \<and> mset vs = mset (map snd srcs)))"

lemma target_groups_as:
  assumes "collected_as ps (filter (\<lambda>f. \<not> gi_isBuildFile inp f) (gi_RegularFiles inp)) co" "map_of ps k = Some p"
    and "\<And>vs. mset (order vs) = mset vs"
  shows "groups_as inp p srcs (target_groups order (gc_result p) (al_get (co_groups co) k) srcs)"
proof -
  have files: "al_get (al_get (co_groups co) k) g =
      filter (\<lambda>f. \<not> gi_isBuildFile inp f \<and> g \<in> set (groups_of p f)) (gi_RegularFiles inp)" for g
  proof -
    have "al_get (al_get (co_groups co) k) g = filter (\<lambda>f. g \<in> set (groups_of p f))
        (filter (\<lambda>f. \<not> gi_isBuildFile inp f) (gi_RegularFiles inp))"
      using assms by (simp add: collected_as_def)
    then show ?thesis by (simp add: conj_commute)
  qed
  show ?thesis
  proof -
    have tg: "map_of (target_groups order (gc_result p) (al_get (co_groups co) k) srcs) g =
        (if g \<in> fst ` set (ps_Sources (gc_result p)) then Some (map (source_at srcs)
           (filter (\<lambda>f. \<not> gi_isBuildFile inp f \<and> g \<in> set (groups_of p f)) (gi_RegularFiles inp)))
         else if g = DefaultGroup then Some (order (map snd srcs)) else None)" for g
      by (cases "DefaultGroup \<in> fst ` set (ps_Sources (gc_result p))")
        (simp_all add: target_groups_def Let_def map_of_foldl_put files)
    show ?thesis unfolding groups_as_def tg using assms(3) by (intro conjI ballI impI) simp_all
  qed
qed

lemma queried_sources_ok:
  assumes ps: "al_wf ps" "plain_ids ps" "\<forall>(k, p) \<in> set ps. al_wf (ps_Sources (gc_result p))"
    and files: "distinct (gi_RegularFiles inp)"
    and answers: "\<And>f. f \<in> set (gi_RegularFiles inp) \<Longrightarrow> fst (file_runs ps f) \<noteq> [] \<Longrightarrow>
      RunQueries (oe_query env) (joinPkg (ra_Rel (gi_args inp)) f) (content f) (fst (file_runs ps f)) = Inr (Inr (res f))"
    and cache: "\<And>f c. f \<in> set (gi_RegularFiles inp) \<Longrightarrow> fst (file_runs ps f) \<noteq> [] \<Longrightarrow>
      fst (runSourceQueries env (fst (file_runs ps f)) (Join ''|'' (SortStrings (snd (file_runs ps f))))
        (joinPkg (ra_Rel (gi_args inp)) f) c) =
      RunQueries (oe_query env) (joinPkg (ra_Rel (gi_args inp)) f) (content f) (fst (file_runs ps f))"
    and order: "\<And>vs. mset (oe_values env vs) = mset vs"
  shows "\<exists>co pts c'. queried_sources env ps inp c = Inr (Inr (co, pts), c') \<and>
    (\<forall>k p. map_of ps k = Some p \<longrightarrow> sources_as inp ps res k p (al_get pts k) \<and>
      groups_as inp p (al_get pts k) (target_groups (oe_values env) (gc_result p) (al_get (co_groups co) k) (al_get pts k)))"
proof -
  let ?rel = "ra_Rel (gi_args inp)"
  let ?files = "filter (\<lambda>f. \<not> gi_isBuildFile inp f) (gi_RegularFiles inp)"
  define co where "co = collectSourceFilesByPlugin ps (gi_isBuildFile inp) (gi_RegularFiles inp)"
  have co: "collected_as ps ?files co" unfolding co_def by (rule collect_files [OF ps(1,3)])
  have dist: "distinct ?files" using files by simp
  note qf = queried_files(1,2) [OF ps(1) co dist, where res = res] queried_files(3) [OF ps(1) co dist]
  let ?rs = "map (\<lambda>(f, _). (f, res f)) (filter (\<lambda>(f, ks). fst (file_queries ps f ks [] []) \<noteq> []) (co_plugins co))"
  have "\<exists>c'. query_files env ps ?rel (co_plugins co) c = Inr (Inr ?rs, c')"
  proof (rule query_files_ok)
    fix f ks c
    assume "(f, ks) \<in> set (co_plugins co)" "fst (file_queries ps f ks [] []) \<noteq> []"
    from qf(3) [OF this] this have "f \<in> set (gi_RegularFiles inp)" "file_queries ps f ks [] [] = file_runs ps f"
      "fst (file_runs ps f) \<noteq> []" by auto
    with cache [OF this(1,3)] answers [OF this(1,3)] show
      "fst (runSourceQueries env (fst (file_queries ps f ks [] []))
        (Join ''|'' (SortStrings (snd (file_queries ps f ks [] [])))) (joinPkg ?rel f) c) = Inr (Inr (res f))"
      by simp
  qed
  then obtain c' where run: "query_files env ps ?rel (co_plugins co) c = Inr (Inr ?rs, c')" by blast
  let ?pts = "plugin_target_sources ps co"
  have pts: "map_of ?pts k = map_option (\<lambda>p. map (\<lambda>f. (f, \<lparr>src_Path = f, src_QueryResults = []\<rparr>))
      (filter (\<lambda>f. groups_of p f \<noteq> []) ?files)) (map_of ps k)" for k
  proof -
    have "map_of ?pts k = map_option (\<lambda>_. new_sources (al_get (co_sources co) k)) (map_of ps k)"
      unfolding plugin_target_sources_def by (induction ps) auto
    also have "\<dots> = map_option (\<lambda>p. new_sources (filter (\<lambda>f. groups_of p f \<noteq> []) ?files)) (map_of ps k)"
      using co by (cases "map_of ps k") (simp_all add: collected_as_def)
    also have "\<dots> = map_option (\<lambda>p. map (\<lambda>f. (f, \<lparr>src_Path = f, src_QueryResults = []\<rparr>))
        (filter (\<lambda>f. groups_of p f \<noteq> []) ?files)) (map_of ps k)"
      by (simp only: new_sources_distinct [OF distinct_filter [OF dist]])
    finally show ?thesis .
  qed
  have "keys_ok ?pts f r" if "(f, r) \<in> set ?rs" for f r
  proof -
    have f: "f \<in> set ?files" "fst (file_runs ps f) \<noteq> []" "r = res f"
      using al_wf_map_of [OF qf(1) that] qf(2) [of f] by (simp_all split: if_splits)
    then have "f \<in> set (gi_RegularFiles inp)" by simp
    note res = answers [OF this f(2)]
    have keys: "fst ` set (res f) = fst ` set (fst (file_runs ps f))"
      using RunQueries_spec [OF file_runs_keys(1) [OF ps(1,2)]] res by blast
    have "\<exists>k q. key = query_key k q \<and> CHR ''|'' \<notin> set k \<and> has_source ?pts k f" if "key \<in> fst ` set (res f)" for key
    proof -
      have "map_of (fst (file_runs ps f)) key \<noteq> None" using that keys by (simp add: map_of_eq_None_iff)
      from file_runs_keys(2) [OF ps(1,2) this] obtain k p q where kq: "key = query_key k q" "map_of ps k = Some p"
          "CHR ''|'' \<notin> set k" "groups_of p f \<noteq> []" by blast
      have "has_source ?pts k f" using pts [of k] kq(2,4) f(1) by (auto simp: has_source_def al_get_def)
      with kq show ?thesis by blast
    qed
    then show ?thesis using RunQueries_wf [OF res] f(3) by (force simp: keys_ok_def)
  qed
  then have "\<forall>(f, r) \<in> set ?rs. keys_ok ?pts f r" by blast
  from assign_results_ok [OF qf(1) this] obtain pts' where
      asg: "assign_results ?rs ?pts = Inr pts'" "assigned ?pts (map_of ?rs) pts'" by blast
  have result: "queried_sources env ps inp c = Inr (Inr (co, pts'), c')"
    using run asg(1) by (simp add: queried_sources_def co_def [symmetric])
  have "sources_as inp ps res k p (al_get pts' k)" if k: "map_of ps k = Some p" for k p
  proof -
    have plain: "CHR ''|'' \<notin> set k" using ps(2) map_of_SomeD [OF k] by (auto simp: plain_ids_def)
    have old: "al_get ?pts k = map (\<lambda>f. (f, \<lparr>src_Path = f, src_QueryResults = []\<rparr>))
        (filter (\<lambda>f. groups_of p f \<noteq> []) ?files)"
      using pts [of k] k by (simp add: al_get_def)
    have same: "map fst (al_get pts' k) = filter (\<lambda>f. groups_of p f \<noteq> []) ?files"
      "src_Path (source_at (al_get pts' k) f) = src_Path (source_at (al_get ?pts k) f)" for f
      using asg(2) old by (simp_all add: assigned_def same_sources_def comp_def)
    have entry: "source_at (al_get ?pts k) f = \<lparr>src_Path = f, src_QueryResults = []\<rparr>"
      if "f \<in> set (map fst (al_get pts' k))" for f
      using that unfolding same(1) old by (simp add: source_at_def map_of_map_restrict restrict_map_def)
    have at: "map_of (fst (file_runs ps f)) (query_key k q) = map_of (getQueriesForFile p f) q \<and>
        map_of (src_QueryResults (source_at (al_get pts' k) f)) q =
          (if map_of (getQueriesForFile p f) q = None then None else map_of (res f) (query_key k q))"
      if f: "f \<in> set (map fst (al_get pts' k))" for f q
    proof -
      have mem: "f \<in> set ?files" "groups_of p f \<noteq> []" using f unfolding same(1) by auto
      then have reg: "f \<in> set (gi_RegularFiles inp)" by simp
      note query = file_runs_keys(3) [OF ps(1,2) k mem(2), of q]
      have "map_of (results_at pts' k f) q =
          pick (Option.bind (map_of ?rs f) (\<lambda>m. map_of m (query_key k q))) (map_of (results_at ?pts k f) q)"
        using asg(2) plain by (simp add: assigned_def)
      then have res: "map_of (src_QueryResults (source_at (al_get pts' k) f)) q =
          Option.bind (map_of ?rs f) (\<lambda>m. map_of m (query_key k q))"
        using entry [OF f]
        by (cases "Option.bind (map_of ?rs f) (\<lambda>m. map_of m (query_key k q))") (simp_all add: results_at_def)
      show ?thesis
      proof (cases "fst (file_runs ps f) = []")
        case True
        with qf(2) [of f] res query show ?thesis by simp
      next
        case False
        then have "map_of ?rs f = Some (res f)" using qf(2) [of f] mem(1) by simp
        moreover have "map_of (res f) (query_key k q) = None" if "map_of (getQueriesForFile p f) q = None"
        proof -
          have "fst ` set (res f) = fst ` set (fst (file_runs ps f))"
            using RunQueries_spec [OF file_runs_keys(1) [OF ps(1,2)]] answers [OF reg False] by blast
          with query that show ?thesis by (simp add: map_of_eq_None_iff)
        qed
        ultimately show ?thesis using res query by simp
      qed
    qed
    have "map fst (al_get pts' k) =
        filter (\<lambda>f. \<not> gi_isBuildFile inp f \<and> groups_of p f \<noteq> []) (gi_RegularFiles inp)"
      using same(1) by (simp add: conj_commute)
    then have "distinct (map fst (al_get pts' k))"
      "set (map fst (al_get pts' k)) =
        {f \<in> set (gi_RegularFiles inp). \<not> gi_isBuildFile inp f \<and> groups_of p f \<noteq> []}"
      using files by (simp_all only: distinct_filter set_filter)
    moreover have "src_Path (source_at (al_get pts' k) f) = f" if "f \<in> set (map fst (al_get pts' k))" for f
      using same(2) [of f] entry [OF that] by simp
    ultimately show ?thesis unfolding sources_as_def using at by blast
  qed
  with result target_groups_as [OF co _ order] show ?thesis by blast
qed

text \<open>
  C8 (functional). Generation in a directory gives each prepared plugin exactly its own files and
  answers, when no plugin id contains a bar, all queries on the directory's files succeed, and the
  cache of query results answers each of them as running the queries would. Then the stages up to the
  assignment of results succeed; a plugin's sources are the files other than BUILD files that one of
  its filters matches, each once; each source carries the result of each of the plugin's queries that
  match the file's path and of no other query, although the queries of all plugins run together under
  joined keys; and each group is given the sources its filters match, in the order of the directory,
  with a default group of all sources, in any order, if the plugin declared none.
\<close>

theorem orion_target_sources:
  assumes "al_wf ps" "plain_ids ps" "\<forall>(k, p) \<in> set ps. al_wf (ps_Sources (gc_result p))"
    and "distinct (gi_RegularFiles inp)"
    and "\<And>f. f \<in> set (gi_RegularFiles inp) \<Longrightarrow> fst (file_runs ps f) \<noteq> [] \<Longrightarrow>
      RunQueries (oe_query env) (joinPkg (ra_Rel (gi_args inp)) f) (content f) (fst (file_runs ps f)) = Inr (Inr (res f))"
    and "\<And>f c. f \<in> set (gi_RegularFiles inp) \<Longrightarrow> fst (file_runs ps f) \<noteq> [] \<Longrightarrow>
      fst (runSourceQueries env (fst (file_runs ps f)) (Join ''|'' (SortStrings (snd (file_runs ps f))))
        (joinPkg (ra_Rel (gi_args inp)) f) c) =
      RunQueries (oe_query env) (joinPkg (ra_Rel (gi_args inp)) f) (content f) (fst (file_runs ps f))"
    and "\<And>vs. mset (oe_values env vs) = mset vs"
  shows "\<exists>co pts c'. queried_sources env ps inp c = Inr (Inr (co, pts), c') \<and>
    (\<forall>k p. map_of ps k = Some p \<longrightarrow> sources_as inp ps res k p (al_get pts k) \<and>
      groups_as inp p (al_get pts k) (target_groups (oe_values env) (gc_result p) (al_get (co_groups co) k) (al_get pts k)))"
  by (rule queried_sources_ok [OF assms])

definition sample_config :: "string plugin_config" where
  "sample_config =
     \<lparr>gc_context = \<lparr>pc_RepoName = '''', pc_Rel = '''', pc_Properties = NewPropertyValues [],
        pc_Data = Some (NewPluginData (\<lambda>_. None)), pc_HasFile = (\<lambda>_. False)\<rparr>,
      gc_result = \<lparr>ps_Sources = [(''g'', [SourceExtensionsFilter [''.x'']])],
        ps_Queries = [(''q'', sample_query QueryTypeRaw None)]\<rparr>,
      gc_queriesHash = ''h''\<rparr>"

definition sample_orion :: "(string, unit) orion_env" where
  "sample_orion =
     \<lparr>oe_query = sample_env, oe_load = (\<lambda>p key ld c. (ld ''text'', c)), oe_values = rev, oe_labelRel = (\<lambda>l _ _. l),
      oe_labelNew = (\<lambda>r p n. Label r p n False)\<rparr>"

definition sample_input :: gen_input where
  "sample_input =
     \<lparr>gi_args = \<lparr>ra_Rel = '''', ra_File = None, ra_KindMap = (\<lambda>_. '''')\<rparr>,
      gi_RegularFiles = [''BUILD'', ''a.x'', ''b.y''], gi_isBuildFile = (\<lambda>f. f = ''BUILD'')\<rparr>"

theorem orion_target_sources_witness:
  "\<exists>co pts c'. queried_sources sample_orion [(''p'', sample_config)] sample_input () = Inr (Inr (co, pts), c') \<and>
    map fst (al_get pts ''p'') = [''a.x''] \<and>
    map_of (src_QueryResults (source_at (al_get pts ''p'') ''a.x'')) ''q'' = Some (RawResult ''text'')"
proof -
  have singleton_list: "xs = [a]" if "distinct xs" "set xs = {a}" for xs and a :: string
    using that by (cases xs; cases "tl xs") auto
  let ?ps = "[(''p'', sample_config)]"
  let ?res = "\<lambda>f :: string. [(query_key ''p'' ''q'', RawResult ''text'' :: string query_result)]"
  have wf: "al_wf ?ps" by (simp add: al_wf_def)
  have plain: "plain_ids ?ps" by (simp add: plain_ids_def al_wf_def sample_config_def)
  have srcs: "\<forall>(k, p) \<in> set ?ps. al_wf (ps_Sources (gc_result p))" by (simp add: al_wf_def sample_config_def)
  have files: "distinct (gi_RegularFiles sample_input)" by (simp add: sample_input_def)
  have groups: "groups_of sample_config f = (if HasSuffix f ''.x'' then [''g''] else [])" for f
    by (simp add: groups_of_def matching_groups_def sample_config_def)
  have qs: "getQueriesForFile sample_config f = [(''q'', sample_query QueryTypeRaw None)]" for f
    by (simp add: getQueriesForFile_def sample_config_def MatchPath_def sample_query_def)
  have runs: "fst (file_runs ?ps f) = (if HasSuffix f ''.x'' then [(query_key ''p'' ''q'', sample_query QueryTypeRaw None)] else [])"
    for f by (simp add: file_runs_def runs_for_def groups qs Let_def add_queries_def)
  have answers: "RunQueries (oe_query sample_orion) (joinPkg (ra_Rel (gi_args sample_input)) f) ''text''
      (fst (file_runs ?ps f)) = Inr (Inr (?res f))" if "fst (file_runs ?ps f) \<noteq> []" for f
    using that by (simp add: runs RunQueries_def MatchContent_def sample_query_def runQueryBatch_def runRawQueries_def
        maps_Copy_def split: if_splits)
  have cache: "fst (runSourceQueries sample_orion qs h p c) = RunQueries (oe_query sample_orion) p ''text'' qs"
    for qs h p c by (simp add: runSourceQueries_def sample_orion_def)
  have "\<exists>co pts c'. queried_sources sample_orion ?ps sample_input () = Inr (Inr (co, pts), c') \<and>
    (\<forall>k p. map_of ?ps k = Some p \<longrightarrow> sources_as sample_input ?ps ?res k p (al_get pts k) \<and>
      groups_as sample_input p (al_get pts k) (target_groups (oe_values sample_orion) (gc_result p) (al_get (co_groups co) k) (al_get pts k)))"
    by (rule orion_target_sources [OF wf plain srcs files, where content = "\<lambda>_. ''text''"])
      (erule answers, rule cache, simp add: sample_orion_def)
  then obtain co pts c' where run: "queried_sources sample_orion ?ps sample_input () = Inr (Inr (co, pts), c')"
      and given: "sources_as sample_input ?ps ?res ''p'' sample_config (al_get pts ''p'')" by auto
  have suffixes: "HasSuffix ''a.x'' ''.x''" "\<not> HasSuffix ''b.y'' ''.x''" by (code_simp, code_simp)
  have "distinct (map fst (al_get pts ''p''))" "set (map fst (al_get pts ''p'')) =
      {f \<in> set (gi_RegularFiles sample_input). \<not> gi_isBuildFile sample_input f \<and>
        (if HasSuffix f ''.x'' then [''g''] else []) \<noteq> []}"
    using given unfolding sources_as_def groups by blast+
  moreover have "{f \<in> set (gi_RegularFiles sample_input). \<not> gi_isBuildFile sample_input f \<and>
      (if HasSuffix f ''.x'' then [''g''] else []) \<noteq> []} = {''a.x''}"
    using suffixes by (auto simp: sample_input_def)
  ultimately have d: "distinct (map fst (al_get pts ''p''))" "set (map fst (al_get pts ''p'')) = {''a.x''}" by blast+
  then have keys: "map fst (al_get pts ''p'') = [''a.x'']"
    using singleton_list by blast
  have "''a.x'' \<in> set (map fst (al_get pts ''p''))" unfolding keys by simp
  with given have "map_of (src_QueryResults (source_at (al_get pts ''p'') ''a.x'')) ''q'' =
      (if map_of [(''q'', sample_query QueryTypeRaw None)] ''q'' = None then None
       else map_of (?res ''a.x'') (query_key ''p'' ''q''))"
    unfolding sources_as_def qs by blast
  then have "map_of (src_QueryResults (source_at (al_get pts ''p'') ''a.x'')) ''q'' = Some (RawResult ''text'')"
    by simp
  with run keys show ?thesis by (intro exI conjI)
qed

section \<open>Lemmas on rules\<close>

text \<open>What an attribute is set to when a target is declared; imports are resolved later.\<close>

definition plain_setting :: "'f elem list \<Rightarrow> bool \<Rightarrow> 'f attr_setting option" where
  "plain_setting vs isArray =
     (case vs of
        [] \<Rightarrow> None
      | v # _ \<Rightarrow> if isArray then Some (AttrList vs) else if v = EVal GNil then None else Some (AttrOne v))"

definition import_value :: "('f, 'c) orion_env \<Rightarrow> string \<Rightarrow> 'f oval \<Rightarrow> 'f attribute_value" where
  "import_value env pkg v =
     (case convertPluginAttribute env pkg v of (vs, is, isArray) \<Rightarrow>
        \<lparr>av_singleton = \<not> isArray, av_values = vs, av_imports = is\<rparr>)"

definition declared_setting :: "('f, 'c) orion_env \<Rightarrow> string \<Rightarrow> 'f oval \<Rightarrow> 'f attr_setting option" where
  "declared_setting env pkg v =
     (let a = import_value env pkg v in plain_setting (av_values a) (\<not> av_singleton a))"

lemma set_plain_fields [simp]:
  "or_kind (set_plain a vs arr r) = or_kind r" "or_name (set_plain a vs arr r) = or_name r"
  "or_declaration (set_plain a vs arr r) = or_declaration r" "or_plugin (set_plain a vs arr r) = or_plugin r"
  by (simp_all add: set_plain_def or_SetAttr_def or_DelAttr_def split: list.splits)

lemma set_plain_attrs:
  "or_attrs r a = None \<Longrightarrow> or_attrs (set_plain a vs arr r) = (or_attrs r)(a := plain_setting vs arr)"
  by (auto simp: set_plain_def plain_setting_def or_SetAttr_def or_DelAttr_def split: list.splits)

lemma convert_attrs_spec:
  "convert_attrs env pkg attrs r m = (r', m') \<Longrightarrow> al_wf attrs \<Longrightarrow> \<forall>(a, v) \<in> set attrs. or_attrs r a = None \<Longrightarrow>
   or_kind r' = or_kind r \<and> or_name r' = or_name r \<and> or_declaration r' = or_declaration r \<and>
   or_plugin r' = or_plugin r \<and>
   (\<forall>a. or_attrs r' a = (case map_of attrs a of None \<Rightarrow> or_attrs r a | Some v \<Rightarrow> declared_setting env pkg v)) \<and>
   (\<forall>a. map_of m' a = (case map_of attrs a of None \<Rightarrow> map_of m a | Some v \<Rightarrow> Some (import_value env pkg v)))"
proof (induction attrs arbitrary: r m)
  case (Cons av attrs)
  obtain a v where av: "av = (a, v)" by (rule prod.exhaust)
  obtain vs imps arr where conv: "convertPluginAttribute env pkg v = (vs, imps, arr)" by (metis prod.exhaust)
  let ?r = "set_plain a vs arr r"
  have run: "convert_attrs env pkg attrs ?r (al_put m a (import_value env pkg v)) = (r', m')"
    using Cons.prems(1) by (simp add: av conv import_value_def)
  have wf: "al_wf attrs" "map_of attrs a = None" "\<forall>(a', v') \<in> set attrs. a' \<noteq> a"
    using Cons.prems(2) av by (auto simp: al_wf_def map_of_eq_None_iff image_iff)
  have free: "or_attrs r a = None" using Cons.prems(3) av by simp
  have attrs: "or_attrs ?r = (or_attrs r)(a := declared_setting env pkg v)"
    using set_plain_attrs [OF free, of vs arr] by (simp add: declared_setting_def import_value_def conv)
  have "\<forall>(a, v) \<in> set attrs. or_attrs ?r a = None"
    using Cons.prems(3) wf(3) by (auto simp: attrs)
  from Cons.IH [OF run wf(1) this] wf(2) show ?case by (auto simp: av attrs split: option.splits)
qed simp

lemma convertPluginTargetDeclaration_spec:
  assumes "convertPluginTargetDeclaration env pkg k t = (r, attrs)" "al_wf (td_Attrs t)"
  shows "or_kind r = td_Kind t" "or_name r = td_Name t" "or_declaration r = Some t" "or_plugin r = Some k"
    "or_attrValues r = Some attrs"
    "or_attrs r a = Option.bind (map_of (td_Attrs t) a) (declared_setting env pkg)"
    "map_of attrs a = map_option (import_value env pkg) (map_of (td_Attrs t) a)"
proof -
  let ?r = "\<lparr>or_kind = td_Kind t, or_name = td_Name t, or_attrs = Map.empty, or_declaration = Some t,
    or_plugin = Some k, or_attrValues = None\<rparr>"
  obtain r1 where r1: "convert_attrs env pkg (td_Attrs t) ?r [] = (r1, attrs)" "r = r1\<lparr>or_attrValues := Some attrs\<rparr>"
    using assms(1) by (auto simp: convertPluginTargetDeclaration_def split: prod.splits)
  note spec = convert_attrs_spec [OF r1(1) assms(2)]
  show "or_kind r = td_Kind t" "or_name r = td_Name t" "or_declaration r = Some t" "or_plugin r = Some k"
    "or_attrValues r = Some attrs"
    "or_attrs r a = Option.bind (map_of (td_Attrs t) a) (declared_setting env pkg)"
    "map_of attrs a = map_option (import_value env pkg) (map_of (td_Attrs t) a)"
    using spec by (simp_all add: r1(2) split: option.splits)
qed

text \<open>The targets that become rules, in the order of the registered plugins.\<close>

definition accepted :: "string list \<Rightarrow> rule_args \<Rightarrow> (string \<times> 'f target_action) list \<Rightarrow>
    (string \<times> 'f target_declaration) list" where
  "accepted kinds args todo =
     concat (map (\<lambda>(k, a). case a of
       AddTargetAction t \<Rightarrow> if CheckCollisionErrors (td_Name t) (td_Kind t) kinds args = None then [(k, t)] else []
     | RemoveTargetAction _ _ \<Rightarrow> []) todo)"

definition rejected :: "string list \<Rightarrow> rule_args \<Rightarrow> (string \<times> 'f target_action) list \<Rightarrow> collision list" where
  "rejected kinds args todo =
     concat (map (\<lambda>(k, a). case a of
       AddTargetAction t \<Rightarrow> (case CheckCollisionErrors (td_Name t) (td_Kind t) kinds args of None \<Rightarrow> [] | Some c \<Rightarrow> [c])
     | RemoveTargetAction _ _ \<Rightarrow> []) todo)"

definition removed :: "rule_args \<Rightarrow> (string \<times> 'f target_action) list \<Rightarrow> rule list" where
  "removed args todo =
     concat (map (\<lambda>(k, a). case a of
       AddTargetAction t \<Rightarrow> []
     | RemoveTargetAction name kind \<Rightarrow>
       (case GetFileRuleByName args name of
          None \<Rightarrow> [] | Some r \<Rightarrow> [NewRule (if kind = '''' then ru_kind r else kind) (ru_name r)])) todo)"

definition result_of :: "('f, 'c) orion_env \<Rightarrow> string list \<Rightarrow> rule_args \<Rightarrow> (string \<times> 'f target_action) list \<Rightarrow>
    'f gen_result \<Rightarrow> 'f gen_result" where
  "result_of env kinds args todo res =
     (let new = map (\<lambda>(k, t). convertPluginTargetDeclaration env (ra_Rel args) k t) (accepted kinds args todo)
      in \<lparr>gr_Gen = gr_Gen res @ map fst new, gr_Imports = gr_Imports res @ map snd new,
          gr_Empty = gr_Empty res @ removed args todo,
          gr_RelsToIndex = gr_RelsToIndex res @ concat (map (targetAttributesToRelsToImport \<circ> snd) new)\<rparr>)"

definition reported :: "string list \<Rightarrow> exts \<Rightarrow> exts \<Rightarrow> bool" where
  "reported msgs ex ex' \<longleftrightarrow>
     (msgs = [] \<longrightarrow> ex' = ex) \<and>
     (msgs \<noteq> [] \<longrightarrow> (\<exists>a a'. ex = Some a \<and> ex' = Some a' \<and> acc_errs a' = acc_errs a @ msgs \<and> ctx_cancelled a'))"

lemma reported_Cons:
  assumes "GenerationErrorf ex msg = Inr ex1" "reported msgs ex1 ex'"
  shows "reported (msg # msgs) ex ex'"
  using assms by (cases ex) (auto simp: GenerationErrorf_def cancelOrFatal_def reported_def acc_add_def)

lemma removed_one:
  "gr_Empty (applyRemoveAction args name kind res) = gr_Empty res @ removed args [(k, RemoveTargetAction name kind)]"
  "gr_Gen (applyRemoveAction args name kind res) = gr_Gen res"
  "gr_Imports (applyRemoveAction args name kind res) = gr_Imports res"
  "gr_RelsToIndex (applyRemoveAction args name kind res) = gr_RelsToIndex res"
  by (simp_all add: applyRemoveAction_def removed_def GetFileRuleByName_def split: option.splits)

lemma apply_actions_spec:
  "apply_actions env kinds args todo (res, ex) = Inr (res', ex') \<Longrightarrow>
   res' = result_of env kinds args todo res \<and>
   reported (map (\<lambda>c. ''Source rule generation error: '' @ collision_text c) (rejected kinds args todo)) ex ex'"
proof (induction todo arbitrary: res ex)
  case (Cons ka todo)
  obtain k a where ka: "ka = (k, a)" by (rule prod.exhaust)
  obtain res1 ex1 where one: "applyPluginAction env kinds args k a (res, ex) = Inr (res1, ex1)"
      "apply_actions env kinds args todo (res1, ex1) = Inr (res', ex')"
    using Cons.prems ka by (auto split: sum.splits)
  note IH = Cons.IH [OF one(2)]
  show ?case
  proof (cases a)
    case (RemoveTargetAction name kind)
    then have "res1 = applyRemoveAction args name kind res" "ex1 = ex"
      using one(1) by (simp_all add: applyPluginAction_def)
    with IH removed_one(1) [of args name kind res k] removed_one(2-) [of args name kind res] RemoveTargetAction
    show ?thesis
      by (simp add: ka result_of_def accepted_def rejected_def removed_def Let_def)
  next
    case (AddTargetAction t)
    show ?thesis
    proof (cases "CheckCollisionErrors (td_Name t) (td_Kind t) kinds args")
      case None
      then have "res1 = result_of env kinds args [(k, a)] res" "ex1 = ex"
        using one(1) AddTargetAction
        by (simp_all add: applyPluginAction_def result_of_def accepted_def removed_def split: prod.splits)
      with IH None AddTargetAction show ?thesis
        by (simp add: ka result_of_def accepted_def rejected_def removed_def Let_def)
    next
      case (Some c)
      then have r: "res1 = res" "GenerationErrorf ex (''Source rule generation error: '' @ collision_text c) = Inr ex1"
        using one(1) AddTargetAction by (auto simp: applyPluginAction_def map_sum_Inr Inr_map_sum)
      from IH Some AddTargetAction reported_Cons [OF r(2)] r(1) show ?thesis
        by (simp add: ka result_of_def accepted_def rejected_def removed_def Let_def)
    qed
  qed
qed (simp add: result_of_def accepted_def removed_def rejected_def reported_def)

text \<open>
  C26 (functional). The targets that plugins declare become rules in the order the plugins were
  registered: one rule for each added target, with the target's kind and name, its plugin, and the plain
  values of its attributes, paired with the import data to resolve; except that a target whose name an
  unmanaged rule of the build file has is reported instead, which stops the process without a
  cancellable context. A removal only gives an empty rule for a name that the build file has.
\<close>

theorem orion_declared_rules:
  assumes "convertPlugActionsToGenerateResult env h args actions ex = Inr (result, ex')"
    and "\<forall>(k, as) \<in> set actions. \<forall>t. AddTargetAction t \<in> set as \<longrightarrow> al_wf (td_Attrs t)"
  defines "todo \<equiv> concat (map (\<lambda>k. map (Pair k) (al_get actions k)) (gh_pluginIds h))"
  shows "list_all2 (\<lambda>(k, t) (r, attrs).
      or_kind r = td_Kind t \<and> or_name r = td_Name t \<and> or_plugin r = Some k \<and> or_declaration r = Some t \<and>
      or_attrValues r = Some attrs \<and>
      (\<forall>a. or_attrs r a = Option.bind (map_of (td_Attrs t) a) (declared_setting env (ra_Rel args))) \<and>
      (\<forall>a. map_of attrs a = map_option (import_value env (ra_Rel args)) (map_of (td_Attrs t) a)))
      (accepted (gh_sourceRuleKinds h) args todo) (zip (gr_Gen result) (gr_Imports result)) \<and>
    length (gr_Imports result) = length (gr_Gen result) \<and>
    gr_Empty result = removed args todo \<and>
    reported (map (\<lambda>c. ''Source rule generation error: '' @ collision_text c)
      (rejected (gh_sourceRuleKinds h) args todo)) ex ex'"
proof -
  let ?acc = "accepted (gh_sourceRuleKinds h) args todo"
  let ?conv = "\<lambda>(k, t). convertPluginTargetDeclaration env (ra_Rel args) k t"
  have run: "apply_actions env (gh_sourceRuleKinds h) args todo (no_result, ex) = Inr (result, ex')"
    using assms(1) by (simp add: convertPlugActionsToGenerateResult_def todo_def)
  note spec = apply_actions_spec [OF run]
  then have res: "gr_Gen result = map (fst \<circ> ?conv) ?acc" "gr_Imports result = map (snd \<circ> ?conv) ?acc"
      "gr_Empty result = removed args todo"
    by (simp_all add: result_of_def no_result_def Let_def)
  have wf: "al_wf (td_Attrs t)" if "(k, t) \<in> set ?acc" for k t
  proof -
    have "(k, AddTargetAction t) \<in> set todo"
      using that by (auto simp: accepted_def split: target_action.splits if_splits)
    then have "AddTargetAction t \<in> set (al_get actions k)" by (auto simp: todo_def)
    then obtain as where "map_of actions k = Some as" "AddTargetAction t \<in> set as"
      by (cases "map_of actions k") (simp_all add: al_get_def)
    with assms(2) map_of_SomeD [OF this(1)] show ?thesis by blast
  qed
  have "zip (gr_Gen result) (gr_Imports result) = map ?conv ?acc"
    unfolding res by (simp add: zip_map_map zip_same_conv_map)
  moreover have "list_all2 (\<lambda>(k, t) (r, attrs).
      or_kind r = td_Kind t \<and> or_name r = td_Name t \<and> or_plugin r = Some k \<and> or_declaration r = Some t \<and>
      or_attrValues r = Some attrs \<and>
      (\<forall>a. or_attrs r a = Option.bind (map_of (td_Attrs t) a) (declared_setting env (ra_Rel args))) \<and>
      (\<forall>a. map_of attrs a = map_option (import_value env (ra_Rel args)) (map_of (td_Attrs t) a)))
      ?acc (map ?conv ?acc)"
    unfolding list_all2_map2
  proof (rule list_all2_same [THEN iffD2], clarify)
    fix k t r attrs
    assume "(k, t) \<in> set ?acc" "convertPluginTargetDeclaration env (ra_Rel args) k t = (r, attrs)"
    from convertPluginTargetDeclaration_spec [OF this(2) wf [OF this(1)]]
    show "or_kind r = td_Kind t \<and> or_name r = td_Name t \<and> or_plugin r = Some k \<and> or_declaration r = Some t \<and>
      or_attrValues r = Some attrs \<and>
      (\<forall>a. or_attrs r a = Option.bind (map_of (td_Attrs t) a) (declared_setting env (ra_Rel args))) \<and>
      (\<forall>a. map_of attrs a = map_option (import_value env (ra_Rel args)) (map_of (td_Attrs t) a))"
      by blast
  qed
  ultimately show ?thesis using spec res by simp
qed

definition sample_target :: "string target_declaration" where
  "sample_target =
     \<lparr>td_Name = ''t'', td_Kind = ''k'', td_Attrs = [(''srcs'', GList [GString ''a.x''])], td_Symbols = []\<rparr>"

theorem orion_declared_rules_witness:
  "\<exists>result. convertPlugActionsToGenerateResult sample_orion ((empty_host :: string host)\<lparr>gh_pluginIds := [''p'']\<rparr>)
      (gi_args sample_input) [(''p'', [AddTargetAction sample_target, RemoveTargetAction ''u'' ''''])] None = Inr (result, None) \<and>
    map or_name (gr_Gen result) = [''t''] \<and> gr_Empty result = [] \<and>
    or_attrs (hd (gr_Gen result)) ''srcs'' = Some (AttrList [EVal (GString ''a.x'')])"
proof -
  let ?h = "(empty_host :: string host)\<lparr>gh_pluginIds := [''p'']\<rparr>"
  let ?actions = "[(''p'', [AddTargetAction sample_target, RemoveTargetAction ''u'' ''''])]"
  let ?todo = "concat (map (\<lambda>k. map (Pair k) (al_get ?actions k)) (gh_pluginIds ?h))"
  have none: "CheckCollisionErrors n k kinds (gi_args sample_input) = None" "GetFileRuleByName (gi_args sample_input) n = None"
    for n k kinds by (simp_all add: CheckCollisionErrors_def GetFileRuleByName_def sample_input_def)
  have todo: "?todo = [(''p'', AddTargetAction sample_target), (''p'', RemoveTargetAction ''u'' '''')]"
    by (simp add: al_get_def)
  have acc: "accepted kinds (gi_args sample_input) ?todo = [(''p'', sample_target)]"
      "removed (gi_args sample_input) ?todo = []" "rejected kinds (gi_args sample_input) ?todo = []" for kinds
    unfolding todo by (simp_all add: accepted_def removed_def rejected_def none)
  have "is_ok (convertPlugActionsToGenerateResult sample_orion ?h (gi_args sample_input) ?actions None)"
    by code_simp
  then obtain result ex' where run: "convertPlugActionsToGenerateResult sample_orion ?h (gi_args sample_input) ?actions None =
      Inr (result, ex')"
    by (auto simp: is_ok_iff)
  have wf: "\<forall>(k, as) \<in> set ?actions. \<forall>t. AddTargetAction t \<in> set as \<longrightarrow> al_wf (td_Attrs t)"
    by (simp add: sample_target_def al_wf_def)
  note spec = orion_declared_rules [OF run wf, unfolded acc]
  then have lengths: "length (gr_Gen result) = 1" "length (gr_Imports result) = 1" "ex' = None" "gr_Empty result = []"
    by (auto simp: reported_def dest: list_all2_lengthD)
  then obtain r attrs where one: "gr_Gen result = [r]" "gr_Imports result = [attrs]"
    by (auto simp: length_Suc_conv)
  have "or_name r = ''t''" "or_attrs r ''srcs'' = Option.bind (map_of (td_Attrs sample_target) ''srcs'')
      (declared_setting sample_orion (ra_Rel (gi_args sample_input)))"
    using spec by (simp_all add: one) (simp add: sample_target_def)
  with run lengths one show ?thesis
    by (simp add: sample_target_def declared_setting_def import_value_def plain_setting_def)
qed

text \<open>A plugin that is added twice under one name is only logged: its actions are applied twice.\<close>

lemma duplicate_plugin_twice:
  "concat (map (\<lambda>k. map (Pair k) (al_get actions k)) (gh_pluginIds (AddPlugin p (AddPlugin p h)))) =
     concat (map (\<lambda>k. map (Pair k) (al_get actions k)) (gh_pluginIds h)) @
       (let as = map (Pair (gp_name p)) (al_get actions (gp_name p)) in as @ as)"
  by (simp add: AddPlugin_def Let_def)

text \<open>
  The hashes that key cached results do not name the plugins: results that were kept for one plugin are
  found again for another with the same queries, and assigning them fails.
\<close>

lemma foreign_results_panic:
  assumes "CHR ''|'' \<notin> set k" "map_of pts k = None"
  shows "assign_file f ((query_key k q, r) # rs) pts = Inl (Panic ''assignment to entry in nil map'')"
  by (simp add: assign_result_def query_key_Cut [OF assms(1)] assms(2))

lemma hash_without_plugin:
  assumes "getQueriesForFile p f = getQueriesForFile p' f" "gc_queriesHash p = gc_queriesHash p'"
  shows "snd (file_queries [(k, p)] f [k] [] []) = snd (file_queries [(k', p')] f [k'] [] [])"
  using assms by (simp add: Let_def)

end
