(* ===== verification/Orion_Resolve.thy ===== *)
theory Orion_Resolve
  imports Orion_Generate
begin

text \<open>
  Resolving the imports of rules of the orion host (\<open>language/orion/resolver.go\<close>): what generated rules
  can be imported as, the lookup of one import in the overrides, the rule index and the symbols of all
  plugins, and the attributes that result. The rule index, overrides and \<open>IsSelfImport\<close> are third-party.
\<close>

section \<open>Parameters\<close>

type_synonym orion_spec = "string \<times> string"

record orion_match =
  om_Label :: label
  om_Embeds :: "label list"

record orion_index =
  oi_override :: "orion_spec \<Rightarrow> string \<Rightarrow> label option"
  oi_find :: "orion_spec \<Rightarrow> string \<Rightarrow> orion_match list"
  oi_lookup :: "(orion_spec \<Rightarrow> orion_match list) \<Rightarrow> orion_spec \<Rightarrow> orion_match list"
  oi_self :: "orion_match \<Rightarrow> label \<Rightarrow> bool"
  oi_labels :: label_api

definition GazelleLanguageName :: string where
  "GazelleLanguageName = ''orion''"

text \<open>Other extensions find the symbols of plugins through the index; the host itself does not ask here.\<close>

definition orion_CrossResolve :: "orion_index \<Rightarrow> orion_spec \<Rightarrow> string \<Rightarrow> orion_match list" where
  "orion_CrossResolve ix imp lang = (if lang = GazelleLanguageName then [] else oi_find ix imp GazelleLanguageName)"

definition find_imports :: "orion_index \<Rightarrow> orion_spec \<Rightarrow> orion_match list" where
  "find_imports ix spec = oi_lookup ix (\<lambda>s. orion_CrossResolve ix s GazelleLanguageName) spec"

section \<open>What a rule is imported as\<close>

definition symbolToImportSpec :: "symbol \<Rightarrow> orion_spec" where
  "symbolToImportSpec s = (sy_Provider s, sy_Id s)"

definition symbolToImportSpecList :: "symbol list \<Rightarrow> orion_spec list" where
  "symbolToImportSpecList ss = map symbolToImportSpec ss"

text \<open>The rules generated for a package only to know their imports; kept with the directory's configuration.\<close>

type_synonym 'f generated = "(string \<times> 'f gen_result) option"

text \<open>The state of generation: the configuration, what is kept, the host, the cache and reports.\<close>

record ('f, 'c) gen_state =
  st_cfg :: "'f configs option"
  st_generated :: "'f generated"
  st_host :: "'f host"
  st_cache :: 'c
  st_exts :: exts

definition importsGenerateRules ::
  "('f, 'c) orion_env \<Rightarrow> (string \<Rightarrow> string + string list) \<Rightarrow> 'f build_config \<Rightarrow> gen_input \<Rightarrow>
   ('f, 'c) gen_state \<Rightarrow> ('f gen_result \<times> ('f, 'c) gen_state) outcome" where
  "importsGenerateRules env regularFiles cfg f s =
     (case regularFiles (ra_Rel (gi_args f)) of
        Inl e \<Rightarrow> Inl (Fatal (''Error getting regular files for '' @ ra_Rel (gi_args f)))
      | Inr files \<Rightarrow>
          map_sum id (\<lambda>(result, h, c, ex). (result, s\<lparr>st_host := h, st_cache := c, st_exts := ex\<rparr>))
            (generateRules env cfg (f\<lparr>gi_RegularFiles := files\<rparr>) (st_host s) (st_cache s) (st_exts s)))"

definition declared_imports :: "'f orion_rule \<Rightarrow> 'f orion_rule list \<Rightarrow> orion_spec list" where
  "declared_imports r gen =
     (case find (\<lambda>g. or_kind g = or_kind r \<and> or_name g = or_name r) gen of
        None \<Rightarrow> []
      | Some g \<Rightarrow> (case or_declaration g of None \<Rightarrow> [] | Some d \<Rightarrow> symbolToImportSpecList (td_Symbols d)))"

text \<open>\<open>f\<close> is the BUILD file of the rule: its package and rules, and the names of such files.\<close>

definition Imports ::
  "('f, 'c) orion_env \<Rightarrow> (string \<Rightarrow> string + string list) \<Rightarrow> 'f orion_rule \<Rightarrow> gen_input \<Rightarrow> ('f, 'c) gen_state \<Rightarrow>
   (orion_spec list \<times> ('f, 'c) gen_state) outcome" where
  "Imports env regularFiles r f s =
     (case or_declaration r of
        Some d \<Rightarrow> Inr (symbolToImportSpecList (td_Symbols d), s)
      | None \<Rightarrow>
        (case getBUILDConfig (st_cfg s) (ra_Rel (gi_args f)) of
           Inl e \<Rightarrow> Inl e
         | Inr cs \<Rightarrow>
             if bc_generated (hd cs) then Inr ([], s)
             else case (case st_generated s of
                          Some (pkg, result) \<Rightarrow>
                            if pkg = ra_Rel (gi_args f) then Inr (result, s)
                            else importsGenerateRules env regularFiles (hd cs) f s
                        | None \<Rightarrow> importsGenerateRules env regularFiles (hd cs) f s) of
                    Inl e \<Rightarrow> Inl e
                  | Inr (result, s') \<Rightarrow>
                      Inr (declared_imports r (gr_Gen result), s'\<lparr>st_generated := Some (ra_Rel (gi_args f), result)\<rparr>)))"

definition Embeds :: "label list" where
  "Embeds = []"

section \<open>One import\<close>

text \<open>The package above, none above a top package.\<close>

definition parent_pkg :: "string \<Rightarrow> string" where
  "parent_pkg rel = butlast (upto_last (CHR ''/'') rel)"

lemma parent_pkg_shorter: "rel \<noteq> '''' \<Longrightarrow> length (parent_pkg rel) < length rel"
  using length_upto_last [of "CHR ''/''" rel] by (cases "upto_last (CHR ''/'') rel") (auto simp: parent_pkg_def)

function pkg_chain :: "string \<Rightarrow> string list" where
  "pkg_chain rel = (if rel = '''' then [] else rel # pkg_chain (parent_pkg rel))"
  by auto
termination by (relation "measure length") (simp_all add: parent_pkg_shorter)

declare pkg_chain.simps [simp del]

lemma pkg_chain_Nil [simp]: "pkg_chain [] = []"
  by (simp add: pkg_chain.simps)

definition importSpecsToTry :: "target_import \<Rightarrow> string \<Rightarrow> orion_spec list" where
  "importSpecsToTry impt fromPkg =
     (if ti_Ancestor impt then map (\<lambda>rel. (sy_Provider impt, rel @ ''/'' @ sy_Id impt)) (pkg_chain fromPkg) else []) @
     [(sy_Provider impt, sy_Id impt)]"

text \<open>\<open>isPkgAncestor\<close> and \<open>nearestSymbol\<close>: the first symbol of the deepest enclosing package.\<close>

definition isPkgAncestor :: "string \<Rightarrow> string \<Rightarrow> bool" where
  "isPkgAncestor anc pkg \<longleftrightarrow> anc = '''' \<or> anc = pkg \<or> HasPrefix pkg (anc @ ''/'')"

fun nearest_from :: "label \<Rightarrow> target_symbol list \<Rightarrow> target_symbol \<Rightarrow> int \<Rightarrow> target_symbol" where
  "nearest_from from [] best bestDepth = best"
| "nearest_from from (s # ss) best bestDepth =
     (if pl_Repo (ts_Label s) \<noteq> Repo from \<or> \<not> isPkgAncestor (pl_Pkg (ts_Label s)) (Pkg from)
      then nearest_from from ss best bestDepth
      else let depth = int (length (pl_Pkg (ts_Label s)))
           in if depth > bestDepth then nearest_from from ss s depth else nearest_from from ss best bestDepth)"

definition nearestSymbol :: "target_symbol list \<Rightarrow> label \<Rightarrow> target_symbol" where
  "nearestSymbol matched from = nearest_from from matched (hd matched) (- 1)"

definition symbolLabel :: "target_symbol \<Rightarrow> label" where
  "symbolLabel s = Label (pl_Repo (ts_Label s)) (pl_Pkg (ts_Label s)) (pl_Name (ts_Label s)) False"

datatype orion_resolution = ResNone | ResNotFound | ResLabel

datatype orion_error = ResolvedToMultiple string string string "label list" | UnknownDependency string string string

text \<open>
  The specs in order: an answer, or what a \<open>multiple\<close> import has collected and whether it matched only
  its own rule.
\<close>

datatype spec_answer =
    SpecAnswer "orion_error + orion_resolution \<times> label list"
  | SpecsDone "label list" bool

definition spec_override :: "orion_index \<Rightarrow> target_import \<Rightarrow> orion_spec \<Rightarrow> label option" where
  "spec_override ix impt spec =
     (case oi_override ix spec GazelleLanguageName of
        Some l \<Rightarrow> Some l
      | None \<Rightarrow> if sy_Provider impt \<noteq> GazelleLanguageName then oi_override ix spec (sy_Provider impt) else None)"

definition usable :: "orion_index \<Rightarrow> label \<Rightarrow> orion_spec \<Rightarrow> label list" where
  "usable ix from spec = map om_Label (filter (\<lambda>m. \<not> oi_self ix m from) (find_imports ix spec))"

fun try_specs :: "orion_index \<Rightarrow> string \<Rightarrow> target_import \<Rightarrow> label \<Rightarrow> orion_spec list \<Rightarrow> spec_answer" where
  "try_specs ix pluginId impt from [] = SpecsDone [] False"
| "try_specs ix pluginId impt from (spec # specs) =
     (case spec_override ix impt spec of
        Some l \<Rightarrow> SpecAnswer (Inr (ResLabel, [l]))
      | None \<Rightarrow>
          let matches = find_imports ix spec; filtered = usable ix from spec
          in if matches = [] then try_specs ix pluginId impt from specs
             else if ti_Multiple impt then SpecsDone filtered (filtered = [])
             else if length filtered > 1 then
               SpecAnswer (Inl (ResolvedToMultiple (sy_Id impt) (ti_From impt) pluginId (map om_Label matches)))
             else if length filtered = 1 then SpecAnswer (Inr (ResLabel, filtered))
             else if \<not> ti_Ancestor impt then SpecAnswer (Inr (ResNone, []))
             else try_specs ix pluginId impt from specs)"

definition resolveImport ::
  "orion_index \<Rightarrow> database \<Rightarrow> string \<Rightarrow> target_import \<Rightarrow> label \<Rightarrow> orion_error + orion_resolution \<times> label list" where
  "resolveImport ix db pluginId impt from =
     (case try_specs ix pluginId impt from (importSpecsToTry impt (Pkg from)) of
        SpecAnswer r \<Rightarrow> r
      | SpecsDone collected matchedSelfOnly \<Rightarrow>
          let symbols = LookupSymbols db (sy_Id impt);
              matched = filter (\<lambda>s. sy_Provider s = sy_Provider impt) symbols
          in if symbols \<noteq> [] \<and> \<not> ti_Multiple impt then
               Inr (ResLabel, [symbolLabel (nearestSymbol (if matched = [] then symbols else matched) from)])
             else
               let collected' = collected @ (if symbols \<noteq> [] then map symbolLabel matched else [])
               in if collected' \<noteq> [] then Inr (ResLabel, collected')
                  else if matchedSelfOnly then Inr (ResNone, [])
                  else Inr (ResNotFound, []))"

section \<open>The imports of an attribute\<close>

text \<open>An ambiguous import stops at once, unknown ones are collected.\<close>

fun resolve_each ::
  "orion_index \<Rightarrow> database \<Rightarrow> string \<Rightarrow> label \<Rightarrow> target_import list \<Rightarrow> label_set \<Rightarrow> orion_error list \<Rightarrow>
   orion_error list + label_set" where
  "resolve_each ix db pluginId from [] deps errs = (if errs = [] then Inr deps else Inl errs)"
| "resolve_each ix db pluginId from (imp # imps) deps errs =
     (case resolveImport ix db pluginId imp from of
        Inl e \<Rightarrow> Inl [e]
      | Inr (t, resolved) \<Rightarrow>
          if t = ResNotFound \<and> \<not> ti_Optional imp then
            resolve_each ix db pluginId from imps deps
              (errs @ [UnknownDependency (sy_Id imp) (sy_Provider imp) (ti_From imp)])
          else if t = ResNone then resolve_each ix db pluginId from imps deps errs
          else resolve_each ix db pluginId from imps (foldl (LabelSet_Add (oi_labels ix)) deps resolved) errs)"

definition resolveImports ::
  "orion_index \<Rightarrow> database \<Rightarrow> string \<Rightarrow> target_import list \<Rightarrow> label \<Rightarrow> orion_error list + label_set" where
  "resolveImports ix db pluginId imports from = resolve_each ix db pluginId from imports (NewLabelSet from) []"

section \<open>The attributes of a rule\<close>

definition error_text :: "orion_error \<Rightarrow> string" where
  "error_text e =
     (case e of
        ResolvedToMultiple i from plugin ls \<Rightarrow> ''Import '' @ i @ '' resolved to multiple targets''
      | UnknownDependency i provider from \<Rightarrow> ''Import '' @ i @ '' is an unknown dependency'')"

definition set_resolved :: "string \<Rightarrow> 'f attribute_value \<Rightarrow> label list \<Rightarrow> 'f orion_rule \<Rightarrow> exts \<Rightarrow>
    ('f orion_rule \<times> exts) outcome" where
  "set_resolved a v labels r ex =
     (if av_singleton v then
        (case labels of
           [] \<Rightarrow> Inr (or_DelAttr a r, ex)
         | [l] \<Rightarrow> Inr (or_SetAttr a (AttrOne (ELabel l)) r, ex)
         | _ \<Rightarrow> map_sum id (\<lambda>ex'. (r, ex')) (GenerationErrorf ex (''Attribute '' @ a @ '' has resolved to multiple values'')))
      else
        let vs = av_values v @ map ELabel labels
        in Inr (if vs \<noteq> [] then or_SetAttr a (AttrList vs) r else or_DelAttr a r, ex))"

fun resolve_attrs ::
  "orion_index \<Rightarrow> database \<Rightarrow> string \<Rightarrow> label \<Rightarrow> 'f import_data \<Rightarrow> 'f orion_rule \<Rightarrow> exts \<Rightarrow>
   ('f orion_rule \<times> exts) outcome" where
  "resolve_attrs ix db pluginId from [] r ex = Inr (r, ex)"
| "resolve_attrs ix db pluginId from ((a, v) # attrs) r ex =
     (if av_imports v = [] then resolve_attrs ix db pluginId from attrs r ex
      else case (case resolveImports ix db pluginId (av_imports v) from of
                   Inl errs \<Rightarrow>
                     map_sum id (\<lambda>ex'. (r, ex')) (ImportErrorf ex (''Resolution Error: '' @ Join [CHR 0x0A] (map error_text errs)))
                 | Inr labels \<Rightarrow> set_resolved a v (LabelSet_Labels labels) r ex) of
             Inl e \<Rightarrow> Inl e
           | Inr (r', ex') \<Rightarrow> resolve_attrs ix db pluginId from attrs r' ex')"

text \<open>A rule that is not of this extension's generation is left alone.\<close>

definition Resolve ::
  "orion_index \<Rightarrow> database \<Rightarrow> 'f orion_rule \<Rightarrow> 'f import_data \<Rightarrow> label \<Rightarrow> exts \<Rightarrow> ('f orion_rule \<times> exts) outcome" where
  "Resolve ix db r importData from ex =
     (case or_plugin r of
        None \<Rightarrow> Inr (r, ex)
      | Some pluginId \<Rightarrow> resolve_attrs ix db pluginId from importData r ex)"

section \<open>Enclosing packages\<close>

lemma isPkgAncestor_iff: "isPkgAncestor a p \<longleftrightarrow> a = '''' \<or> a = p \<or> (\<exists>t. p = a @ CHR ''/'' # t)"
  by (auto simp: isPkgAncestor_def prefix_def)

lemma parent_pkg_cases:
  obtains "CHR ''/'' \<notin> set p" "parent_pkg p = ''''"
  | t where "p = parent_pkg p @ CHR ''/'' # t" "CHR ''/'' \<notin> set t"
proof (cases "upto_last (CHR ''/'') p = []")
  case True
  then have "p = after_last (CHR ''/'') p" using upto_after_last [of "CHR ''/''" p] by simp
  then have "CHR ''/'' \<notin> set p" using after_last_notin [of "CHR ''/''" p] by simp
  with True show ?thesis by (auto simp: parent_pkg_def intro: that(1))
next
  case False
  then obtain d where "upto_last (CHR ''/'') p = d @ [CHR ''/'']" using upto_last_cases by blast
  then have "p = parent_pkg p @ CHR ''/'' # after_last (CHR ''/'') p"
    using upto_after_last [of "CHR ''/''" p] by (simp add: parent_pkg_def)
  then show ?thesis by (rule that(2)) simp
qed

lemma slash_split:
  assumes "CHR ''/'' \<notin> set t"
  shows "(\<exists>u. d @ CHR ''/'' # t = a @ CHR ''/'' # u) \<longleftrightarrow> a = d \<or> (\<exists>u. d = a @ CHR ''/'' # u)"
proof
  assume "\<exists>u. d @ CHR ''/'' # t = a @ CHR ''/'' # u"
  then obtain u where u: "d @ CHR ''/'' # t = a @ CHR ''/'' # u" by blast
  then consider (longer) us where "d = a @ us" "us @ CHR ''/'' # t = CHR ''/'' # u"
    | (shorter) us where "a = d @ us" "CHR ''/'' # t = us @ CHR ''/'' # u"
    by (auto simp: append_eq_append_conv2)
  then show "a = d \<or> (\<exists>u. d = a @ CHR ''/'' # u)"
  proof cases
    case longer
    then show ?thesis by (cases us) auto
  next
    case shorter
    then show ?thesis using assms by (cases us) auto
  qed
qed auto

lemma set_pkg_chain: "set (pkg_chain p) = {a. a \<noteq> '''' \<and> isPkgAncestor a p}"
proof (induction p rule: pkg_chain.induct)
  case (1 p)
  show ?case
  proof (cases "p = ''''")
    case True
    then show ?thesis by (simp add: pkg_chain.simps [of p] isPkgAncestor_iff)
  next
    case False
    have "a \<in> set (pkg_chain p) \<longleftrightarrow> a \<noteq> '''' \<and> isPkgAncestor a p" for a
    proof -
      have "a \<in> set (pkg_chain p) \<longleftrightarrow> a = p \<or> (a \<noteq> '''' \<and> isPkgAncestor a (parent_pkg p))"
        using False 1 [OF False] by (simp add: pkg_chain.simps [of p])
      also have "\<dots> \<longleftrightarrow> a \<noteq> '''' \<and> isPkgAncestor a p"
      proof (cases rule: parent_pkg_cases [of p])
        case 1
        then show ?thesis using False by (auto simp: isPkgAncestor_iff)
      next
        case (2 t)
        from slash_split [OF 2(2), of "parent_pkg p" a] 2(1) False show ?thesis by (auto simp: isPkgAncestor_iff)
      qed
      finally show ?thesis .
    qed
    then show ?thesis by blast
  qed
qed

lemma sorted_pkg_chain: "sorted_wrt (\<lambda>a b. length b < length a) (pkg_chain p) \<and> (\<forall>a \<in> set (pkg_chain p). length a \<le> length p)"
proof (induction p rule: pkg_chain.induct)
  case (1 p)
  show ?case
  proof (cases "p = ''''")
    case False
    with 1 [OF False] parent_pkg_shorter [OF False] show ?thesis by (fastforce simp: pkg_chain.simps [of p])
  qed (simp add: pkg_chain.simps [of p])
qed

text \<open>All enclosing packages, the deepest first.\<close>

definition enclosing :: "string \<Rightarrow> string list" where
  "enclosing p = pkg_chain p @ ['''']"

lemma set_enclosing: "a \<in> set (enclosing p) \<longleftrightarrow> isPkgAncestor a p"
  by (auto simp: enclosing_def set_pkg_chain isPkgAncestor_def)

lemma sorted_enclosing: "sorted_wrt (\<lambda>a b. length b < length a) (enclosing p)"
  using sorted_pkg_chain [of p] by (auto simp: enclosing_def sorted_wrt_append set_pkg_chain)

lemma find_deepest:
  assumes "sorted_wrt (\<lambda>a b. length b < length a) xs" "a \<in> set xs" "P a"
    "\<forall>b \<in> set xs. length a < length b \<longrightarrow> \<not> P b"
  shows "find P xs = Some a"
  using assms by (induction xs) auto

lemma find_of_map: "find P (map f xs) = map_option f (find (\<lambda>x. P (f x)) xs)"
  by (induction xs) auto

definition in_pkg :: "target_import \<Rightarrow> string \<Rightarrow> orion_spec" where
  "in_pkg impt a = (sy_Provider impt, if a = '''' then sy_Id impt else a @ ''/'' @ sy_Id impt)"

lemma importSpecsToTry_enclosing:
  "ti_Ancestor impt \<Longrightarrow> importSpecsToTry impt p = map (in_pkg impt) (enclosing p)"
  using set_pkg_chain [of p] by (auto simp: importSpecsToTry_def enclosing_def in_pkg_def)

section \<open>The nearest symbol\<close>

definition in_scope :: "label \<Rightarrow> target_symbol \<Rightarrow> bool" where
  "in_scope from s \<longleftrightarrow> pl_Repo (ts_Label s) = Repo from \<and> isPkgAncestor (pl_Pkg (ts_Label s)) (Pkg from)"

definition sym_depth :: "target_symbol \<Rightarrow> int" where
  "sym_depth s = int (length (pl_Pkg (ts_Label s)))"

lemma nearest_from_spec:
  "(\<forall>s \<in> set ss. in_scope fr s \<longrightarrow> sym_depth s \<le> d) \<and> nearest_from fr ss best d = best \<or>
   (\<exists>us s vs. ss = us @ s # vs \<and> nearest_from fr ss best d = s \<and> in_scope fr s \<and> d < sym_depth s \<and>
      (\<forall>u \<in> set us. in_scope fr u \<longrightarrow> sym_depth u < sym_depth s) \<and>
      (\<forall>v \<in> set vs. in_scope fr v \<longrightarrow> sym_depth v \<le> sym_depth s))"
proof (induction fr ss best d rule: nearest_from.induct)
  case (2 fr s ss best d)
  show ?case
  proof (cases "in_scope fr s \<and> d < sym_depth s")
    case True
    then have step: "nearest_from fr (s # ss) best d = nearest_from fr ss s (sym_depth s)"
      by (simp add: in_scope_def sym_depth_def Let_def)
    have "(\<forall>s' \<in> set ss. in_scope fr s' \<longrightarrow> sym_depth s' \<le> sym_depth s) \<and> nearest_from fr ss s (sym_depth s) = s \<or>
      (\<exists>us s' vs. ss = us @ s' # vs \<and> nearest_from fr ss s (sym_depth s) = s' \<and> in_scope fr s' \<and>
        sym_depth s < sym_depth s' \<and> (\<forall>u \<in> set us. in_scope fr u \<longrightarrow> sym_depth u < sym_depth s') \<and>
        (\<forall>v \<in> set vs. in_scope fr v \<longrightarrow> sym_depth v \<le> sym_depth s'))"
      using "2.IH"(2) True by (simp add: in_scope_def sym_depth_def Let_def)
    then show ?thesis
    proof
      assume "(\<forall>s' \<in> set ss. in_scope fr s' \<longrightarrow> sym_depth s' \<le> sym_depth s) \<and> nearest_from fr ss s (sym_depth s) = s"
      with True step show ?thesis by (intro disjI2 exI [of _ "[]"] exI [of _ s] exI [of _ ss]) simp
    next
      assume "\<exists>us s' vs. ss = us @ s' # vs \<and> nearest_from fr ss s (sym_depth s) = s' \<and> in_scope fr s' \<and>
        sym_depth s < sym_depth s' \<and> (\<forall>u \<in> set us. in_scope fr u \<longrightarrow> sym_depth u < sym_depth s') \<and>
        (\<forall>v \<in> set vs. in_scope fr v \<longrightarrow> sym_depth v \<le> sym_depth s')"
      then obtain us s' vs where h: "ss = us @ s' # vs" "nearest_from fr ss s (sym_depth s) = s'" "in_scope fr s'"
        "sym_depth s < sym_depth s'" "\<forall>u \<in> set us. in_scope fr u \<longrightarrow> sym_depth u < sym_depth s'"
        "\<forall>v \<in> set vs. in_scope fr v \<longrightarrow> sym_depth v \<le> sym_depth s'" by blast
      with True step show ?thesis
        by (intro disjI2 exI [of _ "s # us"] exI [of _ s'] exI [of _ vs]) auto
    qed
  next
    case False
    then have step: "nearest_from fr (s # ss) best d = nearest_from fr ss best d"
      by (auto simp: in_scope_def sym_depth_def Let_def)
    have "(\<forall>s' \<in> set ss. in_scope fr s' \<longrightarrow> sym_depth s' \<le> d) \<and> nearest_from fr ss best d = best \<or>
      (\<exists>us s' vs. ss = us @ s' # vs \<and> nearest_from fr ss best d = s' \<and> in_scope fr s' \<and> d < sym_depth s' \<and>
        (\<forall>u \<in> set us. in_scope fr u \<longrightarrow> sym_depth u < sym_depth s') \<and>
        (\<forall>v \<in> set vs. in_scope fr v \<longrightarrow> sym_depth v \<le> sym_depth s'))"
      using "2.IH"(1,3) False by (auto simp: in_scope_def sym_depth_def Let_def)
    then show ?thesis
    proof
      assume "(\<forall>s' \<in> set ss. in_scope fr s' \<longrightarrow> sym_depth s' \<le> d) \<and> nearest_from fr ss best d = best"
      with False step show ?thesis by auto
    next
      assume "\<exists>us s' vs. ss = us @ s' # vs \<and> nearest_from fr ss best d = s' \<and> in_scope fr s' \<and> d < sym_depth s' \<and>
        (\<forall>u \<in> set us. in_scope fr u \<longrightarrow> sym_depth u < sym_depth s') \<and>
        (\<forall>v \<in> set vs. in_scope fr v \<longrightarrow> sym_depth v \<le> sym_depth s')"
      then obtain us s' vs where h: "ss = us @ s' # vs" "nearest_from fr ss best d = s'" "in_scope fr s'"
        "d < sym_depth s'" "\<forall>u \<in> set us. in_scope fr u \<longrightarrow> sym_depth u < sym_depth s'"
        "\<forall>v \<in> set vs. in_scope fr v \<longrightarrow> sym_depth v \<le> sym_depth s'" by blast
      with False step show ?thesis
        by (intro disjI2 exI [of _ "s # us"] exI [of _ s'] exI [of _ vs]) auto
    qed
  qed
qed simp

lemma nearestSymbol_spec:
  assumes "ss \<noteq> []"
  shows "(\<forall>s \<in> set ss. \<not> in_scope fr s) \<and> nearestSymbol ss fr = hd ss \<or>
    (\<exists>us s vs. ss = us @ s # vs \<and> nearestSymbol ss fr = s \<and> in_scope fr s \<and>
      (\<forall>u \<in> set us. in_scope fr u \<longrightarrow> sym_depth u < sym_depth s) \<and>
      (\<forall>v \<in> set vs. in_scope fr v \<longrightarrow> sym_depth v \<le> sym_depth s))"
proof -
  have "\<not> sym_depth s \<le> - 1" for s by (simp add: sym_depth_def)
  with nearest_from_spec [of ss fr "- 1" "hd ss"] show ?thesis
    unfolding nearestSymbol_def by blast
qed

section \<open>Imports of an enclosing package\<close>

lemma try_specs_ancestor:
  "ti_Ancestor impt \<Longrightarrow> \<not> ti_Multiple impt \<Longrightarrow>
   try_specs ix k impt fr specs =
     (case find (\<lambda>spec. spec_override ix impt spec \<noteq> None \<or> usable ix fr spec \<noteq> []) specs of
        None \<Rightarrow> SpecsDone [] False
      | Some spec \<Rightarrow> SpecAnswer
          (case spec_override ix impt spec of
             Some l \<Rightarrow> Inr (ResLabel, [l])
           | None \<Rightarrow>
               if length (usable ix fr spec) = 1 then Inr (ResLabel, usable ix fr spec)
               else Inl (ResolvedToMultiple (sy_Id impt) (ti_From impt) k (map om_Label (find_imports ix spec)))))"
proof (induction specs)
  case (Cons spec specs)
  note IH = Cons.IH [OF Cons.prems]
  show ?case
  proof (cases "spec_override ix impt spec")
    case None
    show ?thesis
    proof (cases "usable ix fr spec = []")
      case True
      then have "try_specs ix k impt fr (spec # specs) = try_specs ix k impt fr specs"
        using Cons.prems None by (simp add: Let_def)
      with IH True None show ?thesis by simp
    next
      case False
      then have "find_imports ix spec \<noteq> []" by (auto simp: usable_def)
      moreover have "length (usable ix fr spec) > 1 \<longleftrightarrow> length (usable ix fr spec) \<noteq> 1"
        using False by (cases "usable ix fr spec") auto
      ultimately show ?thesis using Cons.prems False None by (simp add: Let_def)
    qed
  qed simp
qed simp

text \<open>A package has an answer when an override or a rule other than the importing one provides the import there.\<close>

definition answers_in :: "orion_index \<Rightarrow> target_import \<Rightarrow> label \<Rightarrow> string \<Rightarrow> bool" where
  "answers_in ix impt fr a \<longleftrightarrow>
     spec_override ix impt (in_pkg impt a) \<noteq> None \<or> usable ix fr (in_pkg impt a) \<noteq> []"

text \<open>
  C20 (functional). An import of an enclosing package is decided by the deepest package above the
  importing rule in which an override or a rule other than the importing one provides it: the
  override is the answer if there is one, else a single rule is, and several are an error. When no
  enclosing package has any, the symbols of all plugins decide: of those of the imported provider, or
  of all if there is none, the first of the deepest enclosing package is taken, or else the first; and
  with no symbol the import is not found.
\<close>

theorem orion_ancestor_closest:
  assumes "ti_Ancestor impt" "\<not> ti_Multiple impt"
  shows "(\<forall>a. isPkgAncestor a (Pkg fr) \<and> answers_in ix impt fr a \<and>
      (\<forall>b. isPkgAncestor b (Pkg fr) \<and> length a < length b \<longrightarrow> \<not> answers_in ix impt fr b) \<longrightarrow>
      resolveImport ix db k impt fr =
        (case spec_override ix impt (in_pkg impt a) of
           Some l \<Rightarrow> Inr (ResLabel, [l])
         | None \<Rightarrow>
             if length (usable ix fr (in_pkg impt a)) = 1 then Inr (ResLabel, usable ix fr (in_pkg impt a))
             else Inl (ResolvedToMultiple (sy_Id impt) (ti_From impt) k (map om_Label (find_imports ix (in_pkg impt a)))))) \<and>
    ((\<forall>a. isPkgAncestor a (Pkg fr) \<longrightarrow> \<not> answers_in ix impt fr a) \<longrightarrow>
      (LookupSymbols db (sy_Id impt) = [] \<longrightarrow> resolveImport ix db k impt fr = Inr (ResNotFound, [])) \<and>
      (LookupSymbols db (sy_Id impt) \<noteq> [] \<longrightarrow>
        (\<exists>ss s. ss = (if \<exists>s \<in> set (LookupSymbols db (sy_Id impt)). sy_Provider s = sy_Provider impt
                     then filter (\<lambda>s. sy_Provider s = sy_Provider impt) (LookupSymbols db (sy_Id impt))
                     else LookupSymbols db (sy_Id impt)) \<and>
          resolveImport ix db k impt fr = Inr (ResLabel, [symbolLabel s]) \<and>
          ((\<forall>s \<in> set ss. \<not> in_scope fr s) \<and> s = hd ss \<or>
           (\<exists>us vs. ss = us @ s # vs \<and> in_scope fr s \<and>
              (\<forall>u \<in> set us. in_scope fr u \<longrightarrow> sym_depth u < sym_depth s) \<and>
              (\<forall>v \<in> set vs. in_scope fr v \<longrightarrow> sym_depth v \<le> sym_depth s))))))"
proof -
  let ?specs = "importSpecsToTry impt (Pkg fr)"
  have specs: "?specs = map (in_pkg impt) (enclosing (Pkg fr))" by (rule importSpecsToTry_enclosing [OF assms(1)])
  note tried = try_specs_ancestor [OF assms, of ix k fr ?specs]
  have found: "find (\<lambda>spec. spec_override ix impt spec \<noteq> None \<or> usable ix fr spec \<noteq> []) ?specs =
      map_option (in_pkg impt) (find (answers_in ix impt fr) (enclosing (Pkg fr)))"
    unfolding specs find_of_map by (simp add: answers_in_def [abs_def])
  have "resolveImport ix db k impt fr =
      (case spec_override ix impt (in_pkg impt a) of
         Some l \<Rightarrow> Inr (ResLabel, [l])
       | None \<Rightarrow>
           if length (usable ix fr (in_pkg impt a)) = 1 then Inr (ResLabel, usable ix fr (in_pkg impt a))
           else Inl (ResolvedToMultiple (sy_Id impt) (ti_From impt) k (map om_Label (find_imports ix (in_pkg impt a)))))"
    if a: "isPkgAncestor a (Pkg fr)" "answers_in ix impt fr a"
      "\<forall>b. isPkgAncestor b (Pkg fr) \<and> length a < length b \<longrightarrow> \<not> answers_in ix impt fr b" for a
  proof -
    have "find (answers_in ix impt fr) (enclosing (Pkg fr)) = Some a"
      by (rule find_deepest [OF sorted_enclosing]) (use a in \<open>simp_all add: set_enclosing\<close>)
    with tried found show ?thesis by (simp add: resolveImport_def)
  qed
  moreover have "(LookupSymbols db (sy_Id impt) = [] \<longrightarrow> resolveImport ix db k impt fr = Inr (ResNotFound, [])) \<and>
      (LookupSymbols db (sy_Id impt) \<noteq> [] \<longrightarrow>
        (\<exists>ss s. ss = (if \<exists>s \<in> set (LookupSymbols db (sy_Id impt)). sy_Provider s = sy_Provider impt
                     then filter (\<lambda>s. sy_Provider s = sy_Provider impt) (LookupSymbols db (sy_Id impt))
                     else LookupSymbols db (sy_Id impt)) \<and>
          resolveImport ix db k impt fr = Inr (ResLabel, [symbolLabel s]) \<and>
          ((\<forall>s \<in> set ss. \<not> in_scope fr s) \<and> s = hd ss \<or>
           (\<exists>us vs. ss = us @ s # vs \<and> in_scope fr s \<and>
              (\<forall>u \<in> set us. in_scope fr u \<longrightarrow> sym_depth u < sym_depth s) \<and>
              (\<forall>v \<in> set vs. in_scope fr v \<longrightarrow> sym_depth v \<le> sym_depth s)))))"
    if none: "\<forall>a. isPkgAncestor a (Pkg fr) \<longrightarrow> \<not> answers_in ix impt fr a"
  proof -
    have "find (answers_in ix impt fr) (enclosing (Pkg fr)) = None"
      using none by (simp add: find_None_iff set_enclosing)
    with tried found have done1: "try_specs ix k impt fr ?specs = SpecsDone [] False" by simp
    let ?all = "LookupSymbols db (sy_Id impt)" and ?own = "filter (\<lambda>s. sy_Provider s = sy_Provider impt) (LookupSymbols db (sy_Id impt))"
    let ?ss = "if \<exists>s \<in> set ?all. sy_Provider s = sy_Provider impt then ?own else ?all"
    have ss: "(if ?own = [] then ?all else ?own) = ?ss" by (auto simp: filter_empty_conv)
    show ?thesis
    proof (cases "?all = []")
      case True
      with done1 show ?thesis by (simp add: resolveImport_def)
    next
      case False
      then have ne: "?ss \<noteq> []" by (auto simp: filter_empty_conv)
      have "resolveImport ix db k impt fr = Inr (ResLabel, [symbolLabel (nearestSymbol ?ss fr)])"
        using done1 False assms(2) by (simp add: resolveImport_def Let_def ss [symmetric])
      with nearestSymbol_spec [OF ne, of fr] False show ?thesis by blast
    qed
  qed
  ultimately show ?thesis by blast
qed

definition sample_import :: target_import where
  "sample_import =
     \<lparr>sy_Id = ''cfg'', sy_Provider = ''x'', ti_Multiple = False, ti_Optional = False, ti_Ancestor = True, ti_From = ''f''\<rparr>"

definition sample_index :: orion_index where
  "sample_index =
     \<lparr>oi_override = (\<lambda>_ _. None), oi_find = (\<lambda>_ _. []),
      oi_lookup = (\<lambda>_ spec. if spec = (''x'', ''a/cfg'') \<or> spec = (''x'', ''cfg'')
        then [\<lparr>om_Label = Label '''' ''a'' (snd spec) False, om_Embeds = []\<rparr>] else []),
      oi_self = (\<lambda>_ _. False), oi_labels = sample_api\<rparr>"

theorem orion_ancestor_closest_witness:
  "resolveImport sample_index [] ''p'' sample_import (Label '''' ''a/b'' ''t'' False) =
     Inr (ResLabel, [Label '''' ''a'' ''a/cfg'' False])"
proof -
  let ?fr = "Label '''' ''a/b'' ''t'' False"
  have use: "usable sample_index ?fr (in_pkg sample_import a) =
      (if a = ''a'' then [Label '''' ''a'' ''a/cfg'' False] else if a = '''' then [Label '''' ''a'' ''cfg'' False] else [])" for a
    by (auto simp: usable_def find_imports_def sample_index_def in_pkg_def sample_import_def
        split: if_splits)
  have none: "spec_override sample_index sample_import spec = None" for spec
    by (simp add: spec_override_def sample_index_def)
  have imp: "ti_Ancestor sample_import" "\<not> ti_Multiple sample_import" by (simp_all add: sample_import_def)
  have a: "isPkgAncestor ''a'' (Pkg ?fr)" "answers_in sample_index sample_import ?fr ''a''"
    by (simp_all add: isPkgAncestor_def answers_in_def none use)
  have deeper: "\<forall>b. isPkgAncestor b (Pkg ?fr) \<and> length ''a'' < length b \<longrightarrow> \<not> answers_in sample_index sample_import ?fr b"
    by (auto simp: answers_in_def none use)
  have "resolveImport sample_index [] ''p'' sample_import ?fr =
      (case spec_override sample_index sample_import (in_pkg sample_import ''a'') of
         Some l \<Rightarrow> Inr (ResLabel, [l])
       | None \<Rightarrow>
           if length (usable sample_index ?fr (in_pkg sample_import ''a'')) = 1
           then Inr (ResLabel, usable sample_index ?fr (in_pkg sample_import ''a''))
           else Inl (ResolvedToMultiple (sy_Id sample_import) (ti_From sample_import) ''p''
             (map om_Label (find_imports sample_index (in_pkg sample_import ''a'')))))"
    using orion_ancestor_closest [OF imp, of ?fr sample_index "[]" "''p''"] a deeper by blast
  then show ?thesis by (simp add: use none)
qed

section \<open>Resolved attributes\<close>

text \<open>What an import adds to the dependencies.\<close>

definition import_found :: "orion_index \<Rightarrow> database \<Rightarrow> string \<Rightarrow> label \<Rightarrow> target_import \<Rightarrow> bool" where
  "import_found ix db k fr imp \<longleftrightarrow>
     (\<exists>t ls. resolveImport ix db k imp fr = Inr (t, ls) \<and> (t = ResNotFound \<longrightarrow> ti_Optional imp))"

definition import_labels :: "orion_index \<Rightarrow> database \<Rightarrow> string \<Rightarrow> label \<Rightarrow> target_import \<Rightarrow> label list" where
  "import_labels ix db k fr imp = (case resolveImport ix db k imp fr of Inr (t, ls) \<Rightarrow> ls | Inl _ \<Rightarrow> [])"

lemma try_specs_answer:
  "try_specs ix k impt fr specs = SpecAnswer (Inr (t, ls)) \<Longrightarrow> t \<noteq> ResNotFound \<and> (t = ResNone \<longrightarrow> ls = [])"
  by (induction ix k impt fr specs rule: try_specs.induct) (auto simp: Let_def split: option.splits if_splits)

lemma resolveImport_empty:
  assumes "resolveImport ix db k imp fr = Inr (t, ls)" "t \<noteq> ResLabel"
  shows "ls = []"
proof (cases "try_specs ix k imp fr (importSpecsToTry imp (Pkg fr))")
  case (SpecAnswer r)
  with assms try_specs_answer [of ix k imp fr "importSpecsToTry imp (Pkg fr)" t ls] show ?thesis
    by (cases t) (simp_all add: resolveImport_def)
next
  case (SpecsDone c b)
  with assms show ?thesis by (auto simp: resolveImport_def Let_def split: if_splits)
qed

text \<open>
  The errors of the imports of an attribute: the first ambiguous import alone, or all those that were
  not found and are not optional.
\<close>

definition ambiguous :: "orion_index \<Rightarrow> database \<Rightarrow> string \<Rightarrow> label \<Rightarrow> target_import \<Rightarrow> orion_error option" where
  "ambiguous ix db k fr imp = (case resolveImport ix db k imp fr of Inl e \<Rightarrow> Some e | Inr _ \<Rightarrow> None)"

definition import_errors :: "orion_index \<Rightarrow> database \<Rightarrow> string \<Rightarrow> label \<Rightarrow> target_import list \<Rightarrow> orion_error list" where
  "import_errors ix db k fr imps =
     (case List.map_filter (ambiguous ix db k fr) imps of
        e # _ \<Rightarrow> [e]
      | [] \<Rightarrow> map (\<lambda>imp. UnknownDependency (sy_Id imp) (sy_Provider imp) (ti_From imp))
                (filter (\<lambda>imp. \<not> import_found ix db k fr imp) imps))"

lemma import_errors_none: "import_errors ix db k fr imps = [] \<longleftrightarrow> (\<forall>imp \<in> set imps. import_found ix db k fr imp)"
proof -
  have "List.map_filter (ambiguous ix db k fr) imps = [] \<longleftrightarrow> (\<forall>imp \<in> set imps. ambiguous ix db k fr imp = None)"
    by (induction imps) (auto simp: List.map_filter_simps split: option.splits)
  moreover have "import_found ix db k fr imp \<Longrightarrow> ambiguous ix db k fr imp = None" for imp
    by (auto simp: import_found_def ambiguous_def)
  ultimately show ?thesis
    by (cases "List.map_filter (ambiguous ix db k fr) imps") (auto simp: import_errors_def filter_empty_conv, metis option.discI)
qed

lemma resolve_each_eq:
  "resolve_each ix db k fr imps deps errs =
     (let all = (case List.map_filter (ambiguous ix db k fr) imps of
                   e # _ \<Rightarrow> [e]
                 | [] \<Rightarrow> errs @ import_errors ix db k fr imps)
      in if all = [] then Inr (foldl (LabelSet_Add (oi_labels ix)) deps (concat (map (import_labels ix db k fr) imps)))
         else Inl all)"
proof (induction imps arbitrary: deps errs)
  case (Cons imp imps)
  show ?case
  proof (cases "resolveImport ix db k imp fr")
    case (Inl e)
    then show ?thesis by (simp add: ambiguous_def List.map_filter_simps)
  next
    case (Inr r)
    obtain t ls where r: "r = (t, ls)" by (rule prod.exhaust)
    have amb: "List.map_filter (ambiguous ix db k fr) (imp # imps) = List.map_filter (ambiguous ix db k fr) imps"
      using Inr by (simp add: ambiguous_def List.map_filter_simps)
    have more: "List.map_filter (ambiguous ix db k fr) imps = [] \<Longrightarrow>
        import_errors ix db k fr (imp # imps) =
          (if t = ResNotFound \<and> \<not> ti_Optional imp
           then [UnknownDependency (sy_Id imp) (sy_Provider imp) (ti_From imp)] else []) @ import_errors ix db k fr imps"
      using Inr r amb by (auto simp: import_errors_def import_found_def)
    have empty: "t \<noteq> ResLabel \<Longrightarrow> import_labels ix db k fr imp = []"
      using resolveImport_empty [of ix db k imp fr t ls] Inr r by (simp add: import_labels_def)
    show ?thesis
    proof (cases "List.map_filter (ambiguous ix db k fr) imps")
      case Nil
      with Cons.IH Inr r amb more empty show ?thesis
        by (cases t) (auto simp: import_labels_def Let_def)
    next
      case (Cons e es)
      with Cons.IH Inr r amb show ?thesis by (auto simp: Let_def)
    qed
  qed
qed (simp add: import_errors_def List.map_filter_simps)

lemma resolveImports_eq:
  "resolveImports ix db k imps fr =
     (if import_errors ix db k fr imps = []
      then Inr (foldl (LabelSet_Add (oi_labels ix)) (NewLabelSet fr) (concat (map (import_labels ix db k fr) imps)))
      else Inl (import_errors ix db k fr imps))"
  unfolding resolveImports_def resolve_each_eq
  by (cases "List.map_filter (ambiguous ix db k fr) imps") (simp_all add: Let_def import_errors_def)

text \<open>The labels of an attribute's imports, in the order of labels.\<close>

definition labels_for :: "orion_index \<Rightarrow> database \<Rightarrow> string \<Rightarrow> label \<Rightarrow> target_import list \<Rightarrow> label list \<Rightarrow> bool" where
  "labels_for ix db k fr imps ls \<longleftrightarrow>
     sorted_wrt (<) ls \<and>
     set ls = (\<lambda>l. label_rel (oi_labels ix) (qualify fr l) (Repo fr) (Pkg fr)) `
       {l \<in> (\<Union>imp \<in> set imps. set (import_labels ix db k fr imp)). \<not> label_equal (oi_labels ix) fr (qualify fr l)}"

lemma labels_for_unique: "labels_for ix db k fr imps ls \<Longrightarrow> labels_for ix db k fr imps ls' \<Longrightarrow> ls' = ls"
  unfolding labels_for_def by (metis strict_sorted_equal)

lemma resolveImports_labels:
  assumes "treeset_law LabelComparator (label_add (oi_labels ix))" "resolveImports ix db k imps fr = Inr s"
  shows "labels_for ix db k fr imps (LabelSet_Labels s)"
proof -
  from assms(2) have
    s: "s = foldl (LabelSet_Add (oi_labels ix)) (NewLabelSet fr) (concat (map (import_labels ix db k fr) imps))"
    by (simp add: resolveImports_eq split: if_splits)
  have "sorted_wrt (<) (ls_labels (NewLabelSet fr))" by (simp add: NewLabelSet_def)
  from foldl_Add_labels [OF assms(1) this] show ?thesis
    by (simp add: labels_for_def s LabelSet_Labels_def labels_of_def NewLabelSet_def)
qed

text \<open>
  The report about an attribute, if there is one: some of its imports are ambiguous or unknown, or it
  is a single value with several labels.
\<close>

definition attr_message ::
  "orion_index \<Rightarrow> database \<Rightarrow> string \<Rightarrow> label \<Rightarrow> string \<times> 'f attribute_value \<Rightarrow> string option" where
  "attr_message ix db k fr av =
     (case av of (a, v) \<Rightarrow>
        let errs = import_errors ix db k fr (av_imports v) in
        if av_imports v = [] then None
        else if errs \<noteq> [] then Some (''Resolution Error: '' @ Join [CHR 0x0A] (map error_text errs))
        else if av_singleton v \<and> (\<exists>ls. labels_for ix db k fr (av_imports v) ls \<and> length ls > 1)
        then Some (''Attribute '' @ a @ '' has resolved to multiple values'')
        else None)"

text \<open>The value of an attribute after resolution: as declared without imports or with a report, else set.\<close>

definition resolved_as ::
  "orion_index \<Rightarrow> database \<Rightarrow> string \<Rightarrow> label \<Rightarrow> string \<times> 'f attribute_value \<Rightarrow> 'f attr_setting option \<Rightarrow>
   'f attr_setting option \<Rightarrow> bool" where
  "resolved_as ix db k fr av before after \<longleftrightarrow>
     (if av_imports (snd av) = [] \<or> attr_message ix db k fr av \<noteq> None then after = before
      else \<exists>ls. labels_for ix db k fr (av_imports (snd av)) ls \<and>
        (if av_singleton (snd av)
         then after = map_option (AttrOne \<circ> ELabel) (case ls of [] \<Rightarrow> None | l # _ \<Rightarrow> Some l)
         else after = (let vs = av_values (snd av) @ map ELabel ls in if vs = [] then None else Some (AttrList vs))))"

definition attr_step ::
  "orion_index \<Rightarrow> database \<Rightarrow> string \<Rightarrow> label \<Rightarrow> string \<times> 'f attribute_value \<Rightarrow> 'f orion_rule \<Rightarrow> exts \<Rightarrow>
   ('f orion_rule \<times> exts) outcome" where
  "attr_step ix db k fr av r ex =
     (case av of (a, v) \<Rightarrow>
        if av_imports v = [] then Inr (r, ex)
        else case resolveImports ix db k (av_imports v) fr of
               Inl errs \<Rightarrow>
                 map_sum id (\<lambda>ex'. (r, ex')) (ImportErrorf ex (''Resolution Error: '' @ Join [CHR 0x0A] (map error_text errs)))
             | Inr labels \<Rightarrow> set_resolved a v (LabelSet_Labels labels) r ex)"

lemma resolve_attrs_step:
  "resolve_attrs ix db k fr (av # attrs) r ex =
     (case attr_step ix db k fr av r ex of Inl e \<Rightarrow> Inl e | Inr (r', ex') \<Rightarrow> resolve_attrs ix db k fr attrs r' ex')"
  by (cases av) (simp add: attr_step_def)

text \<open>Only the attribute of the step changes.\<close>

definition same_but :: "string \<Rightarrow> 'f orion_rule \<Rightarrow> 'f orion_rule \<Rightarrow> bool" where
  "same_but a r r' \<longleftrightarrow> (\<forall>b. b \<noteq> a \<longrightarrow> or_attrs r' b = or_attrs r b)"

lemma attr_step_spec:
  assumes law: "treeset_law LabelComparator (label_add (oi_labels ix))"
  shows "(case attr_message ix db k fr (a, v) of
      Some msg \<Rightarrow> attr_step ix db k fr (a, v) r ex = map_sum id (\<lambda>ex'. (r, ex')) (GenerationErrorf ex msg)
    | None \<Rightarrow> (\<exists>r'. attr_step ix db k fr (a, v) r ex = Inr (r', ex) \<and> same_but a r r' \<and>
        resolved_as ix db k fr (a, v) (or_attrs r a) (or_attrs r' a)))"
proof (cases "av_imports v = []")
  case True
  then show ?thesis by (simp add: attr_message_def attr_step_def resolved_as_def same_but_def)
next
  case imps: False
  show ?thesis
  proof (cases "import_errors ix db k fr (av_imports v) = []")
    case False
    with imps show ?thesis
      by (simp add: attr_message_def attr_step_def resolveImports_eq ImportErrorf_def GenerationErrorf_def)
  next
    case True
    then obtain s where s: "resolveImports ix db k (av_imports v) fr = Inr s" by (simp add: resolveImports_eq)
    let ?ls = "LabelSet_Labels s"
    have ls: "labels_for ix db k fr (av_imports v) ?ls" by (rule resolveImports_labels [OF law s])
    have step: "attr_step ix db k fr (a, v) r ex = set_resolved a v ?ls r ex"
      using imps s by (simp add: attr_step_def)
    have several: "(\<exists>ls. labels_for ix db k fr (av_imports v) ls \<and> length ls > 1) \<longleftrightarrow> length ?ls > 1"
      using ls labels_for_unique by blast
    have msg: "attr_message ix db k fr (a, v) =
        (if av_singleton v \<and> length ?ls > 1 then Some (''Attribute '' @ a @ '' has resolved to multiple values'') else None)"
      using imps True several by (simp add: attr_message_def)
    show ?thesis
    proof (cases "av_singleton v")
      case False
      with ls imps msg show ?thesis
        unfolding step by (auto simp: set_resolved_def Let_def same_but_def resolved_as_def or_SetAttr_def or_DelAttr_def
            intro!: exI [of _ ?ls])
    next
      case True
      consider (none) "?ls = []" | (one) l where "?ls = [l]" | (many) l l' ls where "?ls = l # l' # ls"
        by (metis list.exhaust)
      then show ?thesis
      proof cases
        case none
        with ls imps msg True show ?thesis
          unfolding step by (auto simp: set_resolved_def same_but_def resolved_as_def or_DelAttr_def intro!: exI [of _ "[]"])
      next
        case (one l)
        with ls imps msg True show ?thesis
          unfolding step by (auto simp: set_resolved_def same_but_def resolved_as_def or_SetAttr_def intro!: exI [of _ "[l]"])
      next
        case (many l l' ls)
        with msg True show ?thesis unfolding step by (simp add: set_resolved_def)
      qed
    qed
  qed
qed

lemma resolved_as_reported:
  "attr_message ix db k fr av = Some msg \<Longrightarrow> resolved_as ix db k fr av before before"
  by (simp add: resolved_as_def)

definition attr_messages ::
  "orion_index \<Rightarrow> database \<Rightarrow> string \<Rightarrow> label \<Rightarrow> (string \<times> 'f attribute_value) list \<Rightarrow> string list" where
  "attr_messages ix db k fr attrs = List.map_filter (attr_message ix db k fr) attrs"

lemma attr_messages_Cons:
  "attr_messages ix db k fr (av # attrs) =
     (case attr_message ix db k fr av of None \<Rightarrow> [] | Some m \<Rightarrow> [m]) @ attr_messages ix db k fr attrs"
  by (simp add: attr_messages_def List.map_filter_simps split: option.splits)

lemma resolve_attrs_fatal:
  assumes "treeset_law LabelComparator (label_add (oi_labels ix))"
  shows "resolve_attrs ix db k fr attrs r ex = Inl e \<longleftrightarrow>
    ex = None \<and> attr_messages ix db k fr attrs \<noteq> [] \<and> e = Fatal (hd (attr_messages ix db k fr attrs))"
proof (induction attrs arbitrary: r ex)
  case Nil
  then show ?case by (simp add: attr_messages_def List.map_filter_simps)
next
  case (Cons av attrs)
  obtain a v where av: "av = (a, v)" by (rule prod.exhaust)
  show ?case
  proof (cases "attr_message ix db k fr av")
    case None
    with attr_step_spec [OF assms, of db k fr a v r ex] av obtain r' where
      "attr_step ix db k fr av r ex = Inr (r', ex)" by auto
    with Cons.IH [of r' ex] None show ?thesis by (simp add: resolve_attrs_step attr_messages_Cons)
  next
    case (Some msg)
    with attr_step_spec [OF assms, of db k fr a v r ex] av have
      step: "attr_step ix db k fr av r ex = map_sum id (\<lambda>ex'. (r, ex')) (GenerationErrorf ex msg)" by simp
    show ?thesis
    proof (cases ex)
      case None
      with step Some show ?thesis
        by (auto simp: resolve_attrs_step attr_messages_Cons GenerationErrorf_def cancelOrFatal_def)
    next
      case (Some x)
      with step Cons.IH show ?thesis
        by (simp add: resolve_attrs_step GenerationErrorf_def cancelOrFatal_def)
    qed
  qed
qed

lemma resolve_attrs_spec:
  "resolve_attrs ix db k fr attrs r ex = Inr (r', ex') \<Longrightarrow> distinct (map fst attrs) \<Longrightarrow>
   treeset_law LabelComparator (label_add (oi_labels ix)) \<Longrightarrow>
   (\<forall>(a, v) \<in> set attrs. resolved_as ix db k fr (a, v) (or_attrs r a) (or_attrs r' a)) \<and>
   (\<forall>a. a \<notin> fst ` set attrs \<longrightarrow> or_attrs r' a = or_attrs r a) \<and>
   reported (attr_messages ix db k fr attrs) ex ex'"
proof (induction attrs arbitrary: r ex)
  case Nil
  then show ?case by (simp add: attr_messages_def List.map_filter_simps reported_def)
next
  case (Cons av attrs)
  obtain a v where av: "av = (a, v)" by (rule prod.exhaust)
  have new: "a \<notin> fst ` set attrs" "distinct (map fst attrs)" using Cons.prems(2) av by auto
  obtain r1 ex1 where step: "attr_step ix db k fr av r ex = Inr (r1, ex1)"
      and rest: "resolve_attrs ix db k fr attrs r1 ex1 = Inr (r', ex')"
    using Cons.prems(1) by (auto simp: resolve_attrs_step split: sum.splits)
  note IH = Cons.IH [OF rest new(2) Cons.prems(3)]
  have one: "same_but a r r1" "resolved_as ix db k fr av (or_attrs r a) (or_attrs r1 a)"
    and rep: "reported (attr_messages ix db k fr attrs) ex1 ex' \<Longrightarrow> reported (attr_messages ix db k fr (av # attrs)) ex ex'"
  proof -
    show "same_but a r r1" "resolved_as ix db k fr av (or_attrs r a) (or_attrs r1 a)"
      using attr_step_spec [OF Cons.prems(3), of db k fr a v r ex] step av
      by (auto simp: same_but_def map_sum_Inr resolved_as_reported split: option.splits)
    assume r: "reported (attr_messages ix db k fr attrs) ex1 ex'"
    show "reported (attr_messages ix db k fr (av # attrs)) ex ex'"
    proof (cases "attr_message ix db k fr av")
      case None
      with attr_step_spec [OF Cons.prems(3), of db k fr a v r ex] step av r show ?thesis
        by (simp add: attr_messages_Cons)
    next
      case (Some msg)
      with attr_step_spec [OF Cons.prems(3), of db k fr a v r ex] step av have "GenerationErrorf ex msg = Inr ex1"
        by (cases "GenerationErrorf ex msg") simp_all
      from reported_Cons [OF this r] Some show ?thesis by (simp add: attr_messages_Cons)
    qed
  qed
  have here: "or_attrs r' a = or_attrs r1 a" using IH new(1) by blast
  have others: "or_attrs r1 b = or_attrs r b" if "b \<noteq> a" for b using one(1) that by (simp add: same_but_def)
  have "resolved_as ix db k fr (b, w) (or_attrs r b) (or_attrs r' b)" if bw: "(b, w) \<in> set (av # attrs)" for b w
  proof (cases "(b, w) = av")
    case True
    with one(2) here av show ?thesis by simp
  next
    case False
    with bw have m: "(b, w) \<in> set attrs" by simp
    then have "b \<noteq> a" using new(1) by (auto intro: rev_image_eqI)
    from IH m have "resolved_as ix db k fr (b, w) (or_attrs r1 b) (or_attrs r' b)" by blast
    with others [OF \<open>b \<noteq> a\<close>] show ?thesis by simp
  qed
  moreover have "or_attrs r' b = or_attrs r b" if "b \<notin> fst ` set (av # attrs)" for b
    using that av IH others [of b] by simp
  ultimately show ?case using IH rep by blast
qed

lemma convert_attrs_wf: "convert_attrs env pkg attrs r m = (r', m') \<Longrightarrow> al_wf m \<Longrightarrow> al_wf m'"
  by (induction env pkg attrs r m rule: convert_attrs.induct) (auto split: prod.splits)

text \<open>
  C16 (refinement). Declaring a target and resolving its rule give each attribute the value it stands
  for, whatever the order is in which the attributes are visited. An attribute without imports keeps its
  plain values. One with imports is left as declared exactly when it is reported: for its first ambiguous
  import, else for all imports that are unknown and not optional, else because a single value has several
  labels. Otherwise its value is: for a single value the label found, or no attribute if there is none;
  for a list the plain values followed by the labels found, made relative to the rule's package, without
  the rule itself, and in ascending order. All these reports and no others are made, one for each such
  attribute; without a context to report to, the first of them ends the process, and nothing else does.
\<close>

theorem orion_resolved_attribute:
  assumes "convertPluginTargetDeclaration env pkg k t = (r, importData)" "al_wf (td_Attrs t)"
    and "treeset_law LabelComparator (label_add (oi_labels ix))"
    and "mset visited = mset importData"
  shows "set visited = (\<lambda>(a, v). (a, import_value env pkg v)) ` set (td_Attrs t) \<and>
    (\<forall>e. Resolve ix db r visited fr ex = Inl e \<longleftrightarrow>
       ex = None \<and> attr_messages ix db k fr visited \<noteq> [] \<and> e = Fatal (hd (attr_messages ix db k fr visited))) \<and>
    (\<forall>r' ex'. Resolve ix db r visited fr ex = Inr (r', ex') \<longrightarrow>
       reported (attr_messages ix db k fr visited) ex ex' \<and>
       (\<forall>(a, v) \<in> set (td_Attrs t).
          resolved_as ix db k fr (a, import_value env pkg v) (declared_setting env pkg v) (or_attrs r' a)))"
proof -
  note conv = convertPluginTargetDeclaration_spec [OF assms(1,2)]
  obtain r1 where "convert_attrs env pkg (td_Attrs t)
      \<lparr>or_kind = td_Kind t, or_name = td_Name t, or_attrs = Map.empty, or_declaration = Some t,
       or_plugin = Some k, or_attrValues = None\<rparr> [] = (r1, importData)"
    using assms(1) by (auto simp: convertPluginTargetDeclaration_def split: prod.splits)
  then have wf: "al_wf importData" by (rule convert_attrs_wf) simp
  have same: "set visited = set importData" using assms(4) by (metis set_mset_mset)
  have dist: "distinct (map fst visited)"
    using wf assms(4) by (metis al_wf_def mset_map mset_eq_imp_distinct_iff)
  have look: "(a, w) \<in> set importData \<longleftrightarrow> (\<exists>v. (a, v) \<in> set (td_Attrs t) \<and> w = import_value env pkg v)" for a w
  proof -
    have "(a, w) \<in> set importData \<longleftrightarrow> map_of importData a = Some w" using wf by (simp add: al_wf_def)
    also have "\<dots> \<longleftrightarrow> (\<exists>v. map_of (td_Attrs t) a = Some v \<and> w = import_value env pkg v)"
      by (auto simp: conv(7))
    also have "\<dots> \<longleftrightarrow> (\<exists>v. (a, v) \<in> set (td_Attrs t) \<and> w = import_value env pkg v)"
      using assms(2) by (simp add: al_wf_def)
    finally show ?thesis .
  qed
  have run: "Resolve ix db r visited fr ex = resolve_attrs ix db k fr visited r ex"
    using conv(4) by (simp add: Resolve_def)
  have "reported (attr_messages ix db k fr visited) ex ex' \<and>
      (\<forall>(a, v) \<in> set (td_Attrs t).
         resolved_as ix db k fr (a, import_value env pkg v) (declared_setting env pkg v) (or_attrs r' a))"
    if "Resolve ix db r visited fr ex = Inr (r', ex')" for r' ex'
  proof -
    note spec = resolve_attrs_spec [OF that [unfolded run] dist assms(3)]
    have "resolved_as ix db k fr (a, import_value env pkg v) (declared_setting env pkg v) (or_attrs r' a)"
      if "(a, v) \<in> set (td_Attrs t)" for a v
    proof -
      have "(a, import_value env pkg v) \<in> set visited" using that look same by blast
      moreover have "or_attrs r a = declared_setting env pkg v"
        using that assms(2) by (simp add: conv(6) al_wf_def)
      ultimately show ?thesis using spec by fastforce
    qed
    with spec show ?thesis by blast
  qed
  moreover have "set visited = (\<lambda>(a, v). (a, import_value env pkg v)) ` set (td_Attrs t)"
  proof (rule set_eqI)
    fix x
    show "x \<in> set visited \<longleftrightarrow> x \<in> (\<lambda>(a, v). (a, import_value env pkg v)) ` set (td_Attrs t)"
      using look same by (cases x) (force simp: image_iff)
  qed
  ultimately show ?thesis using resolve_attrs_fatal [OF assms(3), of db k fr visited r ex] run by simp
qed

definition sample_importing :: "string target_declaration" where
  "sample_importing =
     \<lparr>td_Name = ''t'', td_Kind = ''k'',
      td_Attrs = [(''deps'', GList [GString '':x'', GHost (HImport sample_import)])], td_Symbols = []\<rparr>"

theorem orion_resolved_attribute_witness:
  "\<exists>r importData r' ls. convertPluginTargetDeclaration sample_orion ''a/b'' ''p'' sample_importing = (r, importData) \<and>
    Resolve sample_index [] r importData (Label '''' ''a/b'' ''t'' False) None = Inr (r', None) \<and>
    or_attrs r' ''deps'' = Some (AttrList (EVal (GString '':x'') # map ELabel ls)) \<and>
    labels_for sample_index [] ''p'' (Label '''' ''a/b'' ''t'' False) [sample_import] ls"
proof -
  let ?fr = "Label '''' ''a/b'' ''t'' False" and ?v = "GList [GString '':x'', GHost (HImport sample_import)] :: string oval"
  obtain r importData where conv: "convertPluginTargetDeclaration sample_orion ''a/b'' ''p'' sample_importing = (r, importData)"
    by (rule prod.exhaust)
  have "is_ok (Resolve sample_index [] (fst (convertPluginTargetDeclaration sample_orion ''a/b'' ''p'' sample_importing))
      (snd (convertPluginTargetDeclaration sample_orion ''a/b'' ''p'' sample_importing)) ?fr None)"
    by code_simp
  then obtain r' ex' where res: "Resolve sample_index [] r importData ?fr None = Inr (r', ex')"
    using conv by (auto simp: is_ok_iff)
  have law: "treeset_law LabelComparator (label_add (oi_labels sample_index))"
    using sample_api_law by (simp add: sample_index_def)
  have wf: "al_wf (td_Attrs sample_importing)"
    and attrs: "(''deps'', ?v) \<in> set (td_Attrs sample_importing)"
    by (simp_all add: al_wf_def sample_importing_def)
  have iv: "import_value sample_orion ''a/b'' ?v =
      \<lparr>av_singleton = False, av_values = [EVal (GString '':x'')], av_imports = [sample_import]\<rparr>"
    by (simp add: import_value_def)
  note spec = orion_resolved_attribute [OF conv wf law refl, of "[]" ?fr None]
  have rep: "reported (attr_messages sample_index [] ''p'' ?fr importData) None ex'"
    and val: "resolved_as sample_index [] ''p'' ?fr (''deps'', import_value sample_orion ''a/b'' ?v)
      (declared_setting sample_orion ''a/b'' ?v) (or_attrs r' ''deps'')"
    using spec res attrs by blast+
  from rep have ex: "ex' = None" "attr_messages sample_index [] ''p'' ?fr importData = []"
    by (auto simp: reported_def)
  have "(''deps'', import_value sample_orion ''a/b'' ?v) \<in> set importData"
    using spec attrs by force
  with ex(2) have "attr_message sample_index [] ''p'' ?fr (''deps'', import_value sample_orion ''a/b'' ?v) = None"
    by (auto simp: attr_messages_def List.map_filter_def filter_empty_conv)
  with val obtain ls where "labels_for sample_index [] ''p'' ?fr [sample_import] ls"
      "or_attrs r' ''deps'' = Some (AttrList (EVal (GString '':x'') # map ELabel ls))"
    unfolding resolved_as_def iv by (auto simp: Let_def)
  with conv res ex(1) show ?thesis by blast
qed

end
