(* ===== verification/Path_Up.thy ===== *)
theory Path_Up
  imports Go_Path
begin

text \<open>
  Going up from a directory by \<open>path.Dir\<close> until it is its own parent: this ends, as a parent that is not
  \<open>.\<close> or \<open>/\<close> is a shorter string. The directories on the way, the innermost one with a property, and the
  same for a directory given by the names of its path.
\<close>

section \<open>The parent of a directory is shorter\<close>

definition weight :: "string list \<Rightarrow> nat" where
  "weight es = sum_list (map (\<lambda>e. Suc (length e)) es)"

lemma weight_simps [simp]: "weight [] = 0" "weight (e # es) = Suc (length e) + weight es"
    "weight (es @ fs) = weight es + weight fs" "weight (rev es) = weight es"
  by (simp_all add: weight_def flip: rev_map)

lemma weight_Split: "weight (Split c s) = Suc (length s)"
proof (induction s)
  case (Cons x s)
  then show ?case by (cases "Split c s") auto
qed simp

lemma weight_Join: "es \<noteq> [] \<Longrightarrow> Suc (length (Join [c] es)) = weight es"
proof (induction es)
  case (Cons e es)
  then show ?case by (cases es) (simp_all add: Join_Cons)
qed simp

lemma weight_clean_step: "weight (clean_step r st e) \<le> weight st + (if e = '''' then 0 else Suc (length e))"
  by (cases st) (auto simp: clean_step_def)

lemma weight_clean_stack:
  "weight (clean_stack r st es) \<le> weight st + weight (filter (\<lambda>e. e \<noteq> '''') es)"
proof (induction es arbitrary: st)
  case (Cons e es)
  from Cons.IH [of "clean_step r st e"] weight_clean_step [of r st e] show ?case
    by (auto split: if_splits)
qed simp

lemma weight_nonempty: "weight (filter (\<lambda>e. e \<noteq> '''') (Split slash p)) \<le> (if IsAbs p then length p else Suc (length p))"
proof -
  have le: "weight (filter P es) \<le> weight es" for P es by (induction es) auto
  show ?thesis
  proof (cases "IsAbs p")
    case True
    then obtain q where "p = slash # q" by (cases p) (auto simp: IsAbs_def)
    with le [of _ "Split slash q"] True show ?thesis by (simp add: weight_Split)
  next
    case False
    with le [of _ "Split slash p"] show ?thesis by (simp add: weight_Split)
  qed
qed

lemma length_Clean_slash:
  assumes "Clean (t @ [slash]) \<noteq> ''.''" "Clean (t @ [slash]) \<noteq> ''/''"
  shows "length (Clean (t @ [slash])) \<le> length t"
proof (cases "t = ''''")
  case True
  moreover have "Clean ''/'' = ''/''" by code_simp
  ultimately show ?thesis using assms(2) by simp
next
  case False
  then have abs: "IsAbs (t @ [slash]) = IsAbs t" by (rule IsAbs_append)
  let ?st = "clean_stack (IsAbs t) [] (Split slash t)"
  have st: "clean_elems (t @ [slash]) = rev ?st"
    by (simp add: clean_elems_def abs Split_append_sep clean_stack_append clean_step_def)
  have w: "weight ?st \<le> (if IsAbs t then length t else Suc (length t))"
    using weight_clean_stack [of "IsAbs t" "[]" "Split slash t"] weight_nonempty [of t] by simp
  show ?thesis
  proof (cases "rev ?st = []")
    case True
    then show ?thesis using assms by (simp add: Clean_def abs st render_def split: if_splits)
  next
    case False
    then have "Suc (length (Join [slash] (rev ?st))) = weight ?st"
      using weight_Join [OF False, of slash] by simp
    with w False show ?thesis by (auto simp: Clean_def abs st render_def split: if_splits)
  qed
qed

lemma length_path_Dir:
  assumes "path_Dir d \<noteq> ''.''" "path_Dir d \<noteq> ''/''"
  shows "length (path_Dir d) < length d"
proof (cases "upto_last slash d = ''''")
  case True
  moreover have "Clean '''' = ''.''" by code_simp
  ultimately show ?thesis using assms(1) by (simp add: path_Dir_def)
next
  case False
  then obtain t where t: "upto_last slash d = t @ [slash]" using upto_last_cases by blast
  moreover have "length (t @ [slash]) \<le> length d" using length_upto_last [of slash d] t by simp
  ultimately show ?thesis using length_Clean_slash [of t] assms by (simp add: path_Dir_def)
qed

text \<open>The directories \<open>.\<close> and \<open>/\<close> are their own parents.\<close>

definition dir_rank :: "string \<Rightarrow> nat" where
  "dir_rank d = (if d = ''.'' \<or> d = ''/'' then 0 else Suc (length d))"

lemma path_Dir_top [simp]: "path_Dir ''.'' = ''.''" "path_Dir ''/'' = ''/''"
  by code_simp+

lemma dir_rank_path_Dir: "path_Dir d = d \<and> (d = ''.'' \<or> d = ''/'') \<or> dir_rank (path_Dir d) < dir_rank d"
proof (cases "d = ''.'' \<or> d = ''/''")
  case False
  then show ?thesis using length_path_Dir [of d] by (auto simp: dir_rank_def)
qed auto

section \<open>The directories above\<close>

text \<open>A directory and those above it, up to one that is its own parent; the innermost with a BUILD file.\<close>

function up_dirs :: "string \<Rightarrow> string list" where
  "up_dirs d = d # (if path_Dir d = d then [] else up_dirs (path_Dir d))"
  by auto
termination
proof (relation "measure dir_rank")
  fix d assume "path_Dir d \<noteq> d"
  then show "(path_Dir d, d) \<in> measure dir_rank" using dir_rank_path_Dir [of d] by auto
qed simp

declare up_dirs.simps [simp del]

definition innermost :: "(string \<Rightarrow> bool) \<Rightarrow> string \<Rightarrow> string option" where
  "innermost has d = find has (up_dirs d)"

lemma innermost_unfold:
  "innermost has d = (if has d then Some d else if path_Dir d = d then None else innermost has (path_Dir d))"
  by (simp add: innermost_def up_dirs.simps [of d])

text \<open>For a relative path of proper names these are the paths of its first names.\<close>

definition dir_names_ok :: "string list \<Rightarrow> bool" where
  "dir_names_ok es \<longleftrightarrow> (\<forall>e \<in> set es. proper e \<and> e \<noteq> ''..'')"

lemma names_normal: "dir_names_ok es \<Longrightarrow> normal_stack r (rev es)"
  unfolding dir_names_ok_def
proof (induction es rule: rev_induct)
  case (snoc e es)
  then show ?case by auto
qed simp

lemma path_Dir_names:
  assumes "dir_names_ok (es @ [e])"
  shows "path_Dir (render r (es @ [e])) = render r es"
proof (cases "es = []")
  case True
  have "slash \<notin> set e" using assms by (simp add: dir_names_ok_def proper_def)
  moreover have "Clean '''' = ''.''" "Clean ''/'' = ''/''" by code_simp+
  ultimately show ?thesis
    using True last_split_eq [of slash e "[]"] by (cases r) (simp_all add: render_def path_Dir_def last_split_none)
next
  case False
  let ?p = "render r es"
  have es: "dir_names_ok es" using assms by (simp add: dir_names_ok_def)
  have "slash \<notin> set e" using assms by (simp add: dir_names_ok_def proper_def)
  then have "upto_last slash (?p @ slash # e) = ?p @ [slash]" using last_split_eq by blast
  moreover have "render r (es @ [e]) = ?p @ slash # e"
    using False by (simp add: render_def Join_append)
  moreover have "Clean (?p @ [slash]) = ?p"
  proof -
    have el: "clean_elems ?p = es" using clean_elems_render [OF names_normal [OF es]] .
    have rel: "IsAbs ?p = r"
      using IsAbs_render_unrooted [of es] es by (cases r) (auto simp: dir_names_ok_def)
    have "?p \<noteq> ''''" using el False by (auto simp: clean_elems_def IsAbs_def clean_step_def)
    then have abs: "IsAbs (?p @ [slash]) = IsAbs ?p" by (rule IsAbs_append)
    have "clean_elems (?p @ [slash]) = clean_elems ?p"
      by (simp add: clean_elems_def abs Split_append_sep clean_stack_append clean_step_def)
    with abs rel el show ?thesis by (simp add: Clean_def)
  qed
  ultimately show ?thesis by (simp add: path_Dir_def)
qed

lemma render_shorter:
  assumes "dir_names_ok (es @ [e])"
  shows "path_Dir (render r (es @ [e])) \<noteq> render r (es @ [e])"
proof -
  have es: "dir_names_ok es" using assms by (simp add: dir_names_ok_def)
  have "clean_elems (render r (es @ [e])) \<noteq> clean_elems (render r es)"
    using clean_elems_render [OF names_normal [OF es], of r] clean_elems_render [OF names_normal [OF assms], of r] by simp
  then show ?thesis using path_Dir_names [OF assms, of r] by metis
qed

lemma up_dirs_names:
  "dir_names_ok es \<Longrightarrow> up_dirs (render r es) = map (\<lambda>n. render r (take n es)) (rev [0..<Suc (length es)])"
proof (induction es rule: rev_induct)
  case Nil
  then show ?case by (cases r) (simp_all add: render_def up_dirs.simps [of "''.''"] up_dirs.simps [of "''/''"])
next
  case (snoc e es)
  have ok: "dir_names_ok es" using snoc.prems by (simp add: dir_names_ok_def)
  show ?case
    using snoc.IH [OF ok] path_Dir_names [OF snoc.prems, of r] render_shorter [OF snoc.prems, of r]
    by (simp add: up_dirs.simps [of "render r (es @ [e])"] cong: map_cong)
qed

end
