(* ===== verification/Runner.thy ===== *)
theory Runner
  imports Ibp Watchman Orion_Host Path_Up
begin

text \<open>
  The runner (\<open>runner/runner.go\<close>): the languages it enables, the guard against kinds that two of them own,
  the arguments of a run of gazelle, and the sessions of \<open>--watch\<close>: which directories a change makes
  gazelle update, what is dropped of the caches before a run, and the cycles of the incremental build
  protocol. A run of gazelle itself (\<open>runner/vendored\<close>) is a parameter: the files it loads through the
  cache, the walk cache it leaves, and its result.
\<close>

section \<open>Languages\<close>

definition known_languages :: "string list" where
  "known_languages =
     [''js'', ''kotlin'', ''orion'', ''buf'', ''go'', ''visibility_extension'', ''proto'', ''starlark'', ''python'', ''cc'']"

record gazelle_runner =
  gr_workspaceDir :: string
  gr_interactive :: bool
  gr_showProgress :: bool
  gr_languageKeys :: "string list"

text \<open>\<open>New\<close>: interactive on a terminal outside of CI and of bazel tests.\<close>

definition New_runner :: "bool \<Rightarrow> (string \<Rightarrow> string) \<Rightarrow> string \<Rightarrow> bool \<Rightarrow> gazelle_runner" where
  "New_runner terminal env dir showProgress =
     \<lparr>gr_workspaceDir = dir, gr_interactive = (terminal \<and> env ''CI'' = '''' \<and> env ''BAZEL_TEST'' = ''''),
      gr_showProgress = showProgress, gr_languageKeys = []\<rparr>"

text \<open>The factory of a language is found by its key.\<close>

definition AddLanguageFactory :: "string \<Rightarrow> gazelle_runner \<Rightarrow> gazelle_runner" where
  "AddLanguageFactory lang r = r\<lparr>gr_languageKeys := gr_languageKeys r @ [lang]\<rparr>"

definition AddLanguage :: "string \<Rightarrow> gazelle_runner \<Rightarrow> gazelle_runner outcome" where
  "AddLanguage lang r =
     (if lang \<in> set known_languages then Inr (AddLanguageFactory lang r) else Inl (Fatal ''ERROR: unknown language''))"

text \<open>An instance: the host of orion, or another language by its name and its kinds.\<close>

datatype 'f instance_lang =
    OrionLang "'f host"
  | OtherLang string "string list"

fun find_orion :: "'f instance_lang list \<Rightarrow> 'f host option" where
  "find_orion [] = None"
| "find_orion (OrionLang h # ls) = Some h"
| "find_orion (OtherLang n ks # ls) = find_orion ls"

fun overlap_in :: "(string, rule_kind) gomap \<Rightarrow> string list \<Rightarrow> string option" where
  "overlap_in pks [] = None"
| "overlap_in pks (k # ks) = (if k \<in> fst ` set pks then Some k else overlap_in pks ks)"

fun check_overlaps :: "(string, rule_kind) gomap \<Rightarrow> 'f instance_lang list \<Rightarrow> unit outcome" where
  "check_overlaps pks [] = Inr ()"
| "check_overlaps pks (OrionLang h # ls) = check_overlaps pks ls"
| "check_overlaps pks (OtherLang n ks # ls) =
     (case overlap_in pks ks of
        Some k \<Rightarrow> Inl (Fatal ''ERROR: orion plugin registered a rule kind which is already provided by a gazelle language'')
      | None \<Rightarrow> check_overlaps pks ls)"

definition failOnOrionKindOverlaps :: "'f instance_lang list \<Rightarrow> unit outcome" where
  "failOnOrionKindOverlaps ls =
     (case find_orion ls of
        None \<Rightarrow> Inr ()
      | Some h \<Rightarrow>
          let pks = PluginRegisteredKinds h
          in if pks = [] then Inr () else check_overlaps pks ls)"

fun make_all :: "(string \<Rightarrow> 'f instance_lang outcome) \<Rightarrow> string list \<Rightarrow> 'f instance_lang list outcome" where
  "make_all factory [] = Inr []"
| "make_all factory (k # ks) =
     (case factory k of
        Inl e \<Rightarrow> Inl e
      | Inr l \<Rightarrow> map_sum id ((#) l) (make_all factory ks))"

definition instantiateLanguages ::
  "(string \<Rightarrow> 'f instance_lang outcome) \<Rightarrow> 'f instance_lang \<Rightarrow> gazelle_runner \<Rightarrow> 'f instance_lang list outcome" where
  "instantiateLanguages factory progress r =
     (case make_all factory (gr_languageKeys r) of
        Inl e \<Rightarrow> Inl e
      | Inr ls \<Rightarrow>
          let languages = (if gr_interactive r \<and> gr_showProgress r then [progress] else []) @ ls
          in case failOnOrionKindOverlaps languages of Inl e \<Rightarrow> Inl e | Inr _ \<Rightarrow> Inr languages)"

definition prepareGazelleArgs :: "string \<Rightarrow> string list \<Rightarrow> string list" where
  "prepareGazelleArgs mode args = (''--mode='' @ mode) # args"

section \<open>Changed directories\<close>

text \<open>\<open>names\<close> are gazelle's names of BUILD files; \<open>stat\<close> tells that a path can be read.\<close>

definition hasBuildFile :: "string list \<Rightarrow> (string \<Rightarrow> bool) \<Rightarrow> string \<Rightarrow> string \<Rightarrow> bool" where
  "hasBuildFile names stat rootDir rel \<longleftrightarrow> (\<exists>f \<in> set names. stat (path_join [rootDir, rel, f]))"

subsection \<open>Walking up\<close>

function dir_loop ::
  "(string \<Rightarrow> bool) \<Rightarrow> string \<Rightarrow> string list \<times> string set \<Rightarrow> string list \<times> string set" where
  "dir_loop has dir (changedDirs, processedDirs) =
     (if dir \<in> processedDirs then (changedDirs, processedDirs)
      else if has dir then (changedDirs @ [dir], insert dir processedDirs)
      else dir_loop has (path_Dir dir) (changedDirs, insert dir processedDirs))"
  by pat_completeness auto
termination
proof (relation "measure (\<lambda>(has, dir, c, p). 2 * dir_rank dir + (if dir \<in> p then 0 else 1))")
  fix has :: "string \<Rightarrow> bool" and dir and c :: "string list" and p
  assume "dir \<notin> p" "\<not> has dir"
  with dir_rank_path_Dir [of dir]
  show "((has, path_Dir dir, c, insert dir p), has, dir, c, p)
      \<in> measure (\<lambda>(has, dir, c, p). 2 * dir_rank dir + (if dir \<in> p then 0 else 1))"
    by (auto simp: less_eq_Suc_le)
qed simp

declare dir_loop.simps [simp del]

text \<open>The changed files come in some order of the map.\<close>

definition computeUpdatedDirs :: "(string \<Rightarrow> bool) \<Rightarrow> string list \<Rightarrow> string list" where
  "computeUpdatedDirs has changedFiles = fst (foldl (\<lambda>st f. dir_loop has (path_Dir f) st) ([], {}) changedFiles)"

text \<open>
  Of a directory that has been processed the innermost one is among the changed directories, or it is
  that of the directory reached, which is further up.
\<close>

definition settled_dirs :: "(string \<Rightarrow> bool) \<Rightarrow> string \<Rightarrow> string list \<times> string set \<Rightarrow> bool" where
  "settled_dirs has dir st \<longleftrightarrow>
     (\<forall>q \<in> snd st. (\<forall>x. innermost has q = Some x \<longrightarrow> x \<in> set (fst st)) \<or>
        (innermost has q = innermost has dir \<and> (dir_rank dir < dir_rank q \<or> q = dir \<and> innermost has dir = None)))"

definition dirs_inv :: "(string \<Rightarrow> bool) \<Rightarrow> string list \<times> string set \<Rightarrow> bool" where
  "dirs_inv has st \<longleftrightarrow> distinct (fst st) \<and> set (fst st) \<subseteq> snd st \<and>
     (\<forall>q \<in> snd st. \<forall>x. innermost has q = Some x \<longrightarrow> x \<in> set (fst st))"

lemma dir_loop_spec:
  assumes "distinct (fst st)" "set (fst st) \<subseteq> snd st" "settled_dirs has dir st"
  shows "dirs_inv has (dir_loop has dir st)" (is ?inv)
    and "dir \<in> snd (dir_loop has dir st)" (is ?visited)
    and "set (fst (dir_loop has dir st)) \<subseteq> set (fst st) \<union> set_option (innermost has dir)" (is ?only)
    and "snd st \<subseteq> snd (dir_loop has dir st)" (is ?grows)
proof -
  have "?inv \<and> ?visited \<and> ?only \<and> ?grows"
    using assms
  proof (induction has dir st rule: dir_loop.induct)
    case (1 has dir c p)
    note dist = 1(2) [simplified] and sub = 1(3) [simplified] and pend = 1(4)
    show ?case
    proof (cases "dir \<in> p")
      case True
      moreover from this have "x \<in> set c" if "innermost has q = Some x" "q \<in> p" for q x
        using pend that unfolding settled_dirs_def fst_conv snd_conv
        by (metis less_irrefl option.distinct(1))
      ultimately have "dirs_inv has (c, p)" using dist sub by (simp add: dirs_inv_def)
      with True show ?thesis by (auto simp: dir_loop.simps [of has dir])
    next
      case new: False
      show ?thesis
      proof (cases "has dir")
        case True
        then have "innermost has dir = Some dir" by (simp add: innermost_unfold)
        with True new dist sub pend show ?thesis
          by (auto simp: dir_loop.simps [of has dir] dirs_inv_def settled_dirs_def)
      next
        case False
        then have up: "innermost has dir = (if path_Dir dir = dir then None else innermost has (path_Dir dir))"
          by (simp add: innermost_unfold [of has dir])
        have "settled_dirs has (path_Dir dir) (c, insert dir p)"
          using pend up dir_rank_path_Dir [of dir] new
          by (auto simp: settled_dirs_def)
        then have "dirs_inv has (dir_loop has (path_Dir dir) (c, insert dir p)) \<and>
            path_Dir dir \<in> snd (dir_loop has (path_Dir dir) (c, insert dir p)) \<and>
            set (fst (dir_loop has (path_Dir dir) (c, insert dir p))) \<subseteq> set c \<union> set_option (innermost has (path_Dir dir)) \<and>
            insert dir p \<subseteq> snd (dir_loop has (path_Dir dir) (c, insert dir p))"
          using 1(1) new False dist sub by (simp add: subset_insertI2)
        with new False up show ?thesis
          by (auto simp: dir_loop.simps [of has dir] split: if_splits)
      qed
    qed
  qed
  then show ?inv ?visited ?only ?grows by blast+
qed

lemma updated_dirs_inv:
  fixes files :: "string list" and has :: "string \<Rightarrow> bool"
  defines "st \<equiv> foldl (\<lambda>st f. dir_loop has (path_Dir f) st) ([], {}) files"
  shows "dirs_inv has st" and "path_Dir ` set files \<subseteq> snd st"
    and "set (fst st) \<subseteq> (\<Union>f \<in> set files. set_option (innermost has (path_Dir f)))"
  unfolding st_def
proof (induction files rule: rev_induct)
  case Nil
  { case 1 show ?case by (simp add: dirs_inv_def) next case 2 show ?case by simp next case 3 show ?case by simp }
next
  case (snoc f files)
  let ?st = "foldl (\<lambda>st f. dir_loop has (path_Dir f) st) ([], {}) files"
  have pre: "distinct (fst ?st)" "set (fst ?st) \<subseteq> snd ?st" "settled_dirs has (path_Dir f) ?st"
    using snoc(1) by (auto simp: dirs_inv_def settled_dirs_def)
  note spec = dir_loop_spec [OF pre]
  { case 1 show ?case using spec(1) by simp
  next case 2 show ?case using spec(2,4) snoc(2) by auto
  next case 3 show ?case using spec(3) snoc(3) by auto }
qed

text \<open>
  C2 (safety). The directories gazelle is told to update are, each once and whatever the order of the changed
  files, exactly the innermost directories with a BUILD file at or above a changed file; none is lost
  because a directory on the way was already visited. The search ends for any file name. For a file
  given by the names of its path they are looked for from its own directory up to the root.
\<close>

theorem updated_dirs_cover:
  "distinct (computeUpdatedDirs has files) \<and>
   set (computeUpdatedDirs has files) = {d. \<exists>f \<in> set files. innermost has (path_Dir f) = Some d} \<and>
   (\<forall>es name. dir_names_ok (es @ [name]) \<longrightarrow>
      innermost has (path_Dir (render False (es @ [name]))) =
        find has (map (\<lambda>n. render False (take n es)) (rev [0..<Suc (length es)])))"
proof (intro conjI allI impI)
  note inv = updated_dirs_inv [where has = has and files = files]
  show "distinct (computeUpdatedDirs has files)" using inv(1) by (simp add: dirs_inv_def computeUpdatedDirs_def)
  show "set (computeUpdatedDirs has files) = {d. \<exists>f \<in> set files. innermost has (path_Dir f) = Some d}"
    using inv by (fastforce simp: dirs_inv_def computeUpdatedDirs_def)
  show "innermost has (path_Dir (render False (es @ [name]))) =
      find has (map (\<lambda>n. render False (take n es)) (rev [0..<Suc (length es)]))"
    if "dir_names_ok (es @ [name])" for es name
    using that up_dirs_names [of es] by (simp add: path_Dir_names innermost_def dir_names_ok_def)
qed

text \<open>Sources in a package below one without a BUILD file, and beside it.\<close>

theorem updated_dirs_cover_witness:
  "computeUpdatedDirs (\<lambda>d. d \<in> {''a'', ''a/b/c''}) [''a/b/x'', ''a/b/c/y'', ''a/z'', ''t''] = [''a'', ''a/b/c''] \<and>
   innermost (\<lambda>d. d = ''a'') (path_Dir (render False ([''a'', ''b''] @ [''x'']))) = Some ''a''"
proof -
  have "dir_names_ok ([''a'', ''b''] @ [''x''])" by code_simp
  then have "innermost (\<lambda>d. d = ''a'') (path_Dir (render False ([''a'', ''b''] @ [''x'']))) =
      find (\<lambda>d. d = ''a'') (map (\<lambda>n. render False (take n [''a'', ''b''])) (rev [0..<Suc (length [''a'', ''b''])]))"
    using updated_dirs_cover by blast
  also have "\<dots> = Some ''a''" by code_simp
  finally show ?thesis by (intro conjI) code_simp
qed

section \<open>Guard against overlapping kinds\<close>

definition lang_kinds :: "'f instance_lang list \<Rightarrow> string set" where
  "lang_kinds ls = {k. \<exists>n ks. OtherLang n ks \<in> set ls \<and> k \<in> set ks}"

lemma overlap_in_None: "overlap_in pks ks = None \<longleftrightarrow> set ks \<inter> fst ` set pks = {}"
  by (induction ks) auto

lemma check_overlaps_ok: "is_ok (check_overlaps pks ls) \<longleftrightarrow> lang_kinds ls \<inter> fst ` set pks = {}"
proof (induction pks ls rule: check_overlaps.induct)
  case (2 pks h ls)
  then show ?case by (simp add: lang_kinds_def)
next
  case (3 pks n ks ls)
  have "lang_kinds (OtherLang n ks # ls) = set ks \<union> lang_kinds ls" by (auto simp: lang_kinds_def)
  then have split: "lang_kinds (OtherLang n ks # ls) \<inter> fst ` set pks = {} \<longleftrightarrow>
      set ks \<inter> fst ` set pks = {} \<and> lang_kinds ls \<inter> fst ` set pks = {}" by blast
  show ?case
  proof (cases "overlap_in pks ks")
    case None
    with 3 split overlap_in_None [of pks ks] show ?thesis by simp
  next
    case (Some k)
    with split overlap_in_None [of pks ks] show ?thesis by simp
  qed
qed (simp add: lang_kinds_def)

text \<open>The runner goes on exactly when no other language owns a kind that a plugin registered.\<close>

lemma failOnOrionKindOverlaps_ok:
  "is_ok (failOnOrionKindOverlaps ls) \<longleftrightarrow>
     (\<forall>h. find_orion ls = Some h \<longrightarrow> lang_kinds ls \<inter> fst ` set (PluginRegisteredKinds h) = {})"
  by (auto simp: failOnOrionKindOverlaps_def check_overlaps_ok Let_def split: option.splits)

text \<open>
  A plugin that registers a kind under the name of a builtin one is not looked at, although it replaces
  the builtin kind in what gazelle is told.
\<close>

lemma filter_al_put: "\<not> P (k, v) \<Longrightarrow> (\<And>v'. \<not> P (k, v')) \<Longrightarrow> filter P (al_put m k v) = filter P m"
  by (induction m k v rule: al_put.induct) auto

lemma builtin_override_unguarded:
  assumes "rk_Name k \<in> rk_Name ` set builtinKinds"
  shows "PluginRegisteredKinds (AddKind k h) = PluginRegisteredKinds h"
  using assms unfolding PluginRegisteredKinds_def AddKind_def by (simp add: filter_al_put)

section \<open>Sessions of \<open>--watch\<close>\<close>

text \<open>\<open>walkCacheEntryInvalidated\<close> and the hook on the walk cache of gazelle, by directory.\<close>

fun walkCacheEntryInvalidated :: "string \<Rightarrow> string list \<Rightarrow> bool" where
  "walkCacheEntryInvalidated rel [] = False"
| "walkCacheEntryInvalidated rel (d # ds) =
     (if d = ''.'' \<or> d = '''' then True
      else if rel = d then True
      else if length rel > length d \<and> rel ! length d = slash \<and> HasPrefix rel d then True
      else walkCacheEntryInvalidated rel ds)"

record 'd walk_invalidator =
  wi_dirs :: "string list"
  wi_wipe :: bool
  wi_previousWalkCache :: "'d walk_cache option"

text \<open>What a run finds in its new, empty walk cache; \<open>enabled\<close> is that the environment asks for it.\<close>

definition load_walks :: "bool \<Rightarrow> 'd walk_invalidator \<Rightarrow> 'd walk_cache" where
  "load_walks enabled i =
     (case wi_previousWalkCache i of
        Some prev \<Rightarrow>
          if enabled \<and> \<not> wi_wipe i
          then (\<lambda>rel. if walkCacheEntryInvalidated rel (wi_dirs i) then None else prev rel) else Map.empty
      | None \<Rightarrow> Map.empty)"

text \<open>The new cache is kept by reference: it is what the run leaves.\<close>

definition keep_walks :: "bool \<Rightarrow> 'd walk_cache \<Rightarrow> 'd walk_invalidator \<Rightarrow> 'd walk_invalidator" where
  "keep_walks enabled walks i = (if enabled then i\<lparr>wi_previousWalkCache := Some walks\<rparr> else i)"

text \<open>
  A run of gazelle: the files its languages load through the cache, whether it gets to persisting it,
  the walk cache, and how many BUILD files it visited and updated or its error. The world at the time
  of a run: the files there are, their contents, the languages, and what gazelle does.
\<close>

record 'd gazelle_run =
  gz_loads :: "(string \<times> string) list"
  gz_persists :: bool
  gz_walks :: "'d walk_cache"
  gz_counts :: "nat \<times> nat"
  gz_error :: "string option"

record ('f, 'd) moment =
  mo_stat :: "string \<Rightarrow> bool"
  mo_files :: files
  mo_factory :: "string \<Rightarrow> 'f instance_lang outcome"
  mo_gazelle :: "string list \<Rightarrow> 'd walk_cache \<Rightarrow> 'd gazelle_run"

record ('v, 'f) watch_env =
  we_hash :: "content \<Rightarrow> string"
  we_loader :: "string \<Rightarrow> 'v loader"
  we_build :: build_info
  we_cachePath :: string
  we_walkCache :: bool
  we_buildNames :: "string list"
  we_progress :: "'f instance_lang"

record ('v, 'd) watch_state =
  st_opened :: bool
  st_host :: "'v watch_host"
  st_inv :: "'d walk_invalidator"

record ('v, 'd) run_trace =
  rt_args :: "string list"
  rt_walks :: "'d walk_cache"
  rt_left :: "'d walk_cache"
  rt_loads :: "(string \<times> string) list"
  rt_answers :: "('v option \<times> string option) list"
  rt_error :: "string option"

fun run_loads ::
  "(content \<Rightarrow> string) \<Rightarrow> string \<Rightarrow> (string \<Rightarrow> 'v loader) \<Rightarrow> files \<Rightarrow> (string \<times> string) list \<Rightarrow> 'v watch_host \<Rightarrow>
   ('v option \<times> string option) list \<times> 'v watch_host" where
  "run_loads hash dir ld fs [] h = ([], h)"
| "run_loads hash dir ld fs ((p, key) # ls) h =
     (case watch_load hash dir ld fs p key h of
        (r, h') \<Rightarrow> apfst ((#) (answer_of r)) (run_loads hash dir ld fs ls h'))"

text \<open>
  A run with the watch cache: \<open>NewCache\<close> of \<open>CheckFlags\<close>, which reads the cache file once per process,
  the loads, and \<open>Persist\<close> of \<open>DoneGeneratingRules\<close>.
\<close>

definition RunGazelle ::
  "('v, 'f) watch_env \<Rightarrow> gazelle_runner \<Rightarrow> ('f, 'd) moment \<Rightarrow> string list \<Rightarrow> ('v, 'd) watch_state \<Rightarrow>
   ('v, 'd) run_trace \<times> ('v, 'd) watch_state" where
  "RunGazelle env r m args st =
     (let (opened, c) = watch_NewCache (we_build env) (we_cachePath env) (snd (st_host st)) (st_opened st, fst (st_host st));
          start = load_walks (we_walkCache env) (st_inv st);
          run = mo_gazelle m args start;
          (answers, h) = run_loads (we_hash env) (gr_workspaceDir r) (we_loader env) (mo_files m) (gz_loads run)
            (c, snd (st_host st));
          h' = (if gz_persists run then watch_save (we_build env) h else h)
      in (\<lparr>rt_args = args, rt_walks = start, rt_left = gz_walks run, rt_loads = gz_loads run, rt_answers = answers,
            rt_error = gz_error run\<rparr>,
          st\<lparr>st_opened := opened, st_host := h', st_inv := keep_walks (we_walkCache env) (gz_walks run) (st_inv st)\<rparr>))"

text \<open>The paths a cycle reports as changed.\<close>

definition event_paths :: "cycle_event \<Rightarrow> string list" where
  "event_paths ev = (case ce_sources ev of None \<Rightarrow> [] | Some s \<Rightarrow> map fst s)"

text \<open>
  What a cycle drops before the run, and the arguments of the run. Any other kind of message is an error.
\<close>

definition begin_cycle ::
  "('v, 'f) watch_env \<Rightarrow> gazelle_runner \<Rightarrow> ('f, 'd) moment \<Rightarrow> cycle_event \<Rightarrow> string list \<Rightarrow> ('v, 'd) watch_state \<Rightarrow>
   (string + string list) \<times> ('v, 'd) watch_state" where
  "begin_cycle env r m ev fixArgs st =
     (let st0 = st\<lparr>st_inv := (st_inv st)\<lparr>wi_dirs := [], wi_wipe := False\<rparr>\<rparr>
      in if ce_kind ev = ''CYCLE'' then
           let paths = event_paths ev;
               changed = computeUpdatedDirs (hasBuildFile (we_buildNames env) (mo_stat m) (gr_workspaceDir r)) paths
           in (Inr (fixArgs @ changed),
               st0\<lparr>st_host := apfst (watch_Invalidate paths) (st_host st0),
                   st_inv := (st_inv st0)\<lparr>wi_dirs := map path_Dir paths\<rparr>\<rparr>)
         else if ce_kind ev = ''CYCLE_RESET'' then
           (Inr fixArgs,
            st0\<lparr>st_host := apfst watch_InvalidateAll (st_host st0), st_inv := (st_inv st0)\<lparr>wi_wipe := True\<rparr>\<rparr>)
         else (Inl ''unexpected cycle event'', st0))"

datatype watch_end = WatchExits | WatchError string | WatchDies stop

definition run_failed :: "('v, 'd) run_trace \<Rightarrow> watch_end option" where
  "run_failed t = map_option WatchError (rt_error t)"

definition runWatchCycle ::
  "('v, 'f) watch_env \<Rightarrow> gazelle_runner \<Rightarrow> ('f, 'd) moment \<Rightarrow> cycle_event \<Rightarrow> string list \<Rightarrow> ('v, 'd) watch_state \<Rightarrow>
   (watch_end + ('v, 'd) run_trace) \<times> ('v, 'd) watch_state" where
  "runWatchCycle env r m ev fixArgs st =
     (case begin_cycle env r m ev fixArgs st of
        (Inl err, st') \<Rightarrow> (Inl (WatchError err), st')
      | (Inr runArgs, st') \<Rightarrow>
        (case instantiateLanguages (mo_factory m) (we_progress env) r of
           Inl e \<Rightarrow> (Inl (WatchDies e), st')
         | Inr _ \<Rightarrow> map_prod Inr id (RunGazelle env r m runArgs st')))"

text \<open>The messages of the protocol, or its error, each with the world when it is handled.\<close>

fun watch_loop ::
  "('v, 'f) watch_env \<Rightarrow> gazelle_runner \<Rightarrow> string list \<Rightarrow> ((string + cycle_event) \<times> ('f, 'd) moment) list \<Rightarrow>
   ('v, 'd) watch_state \<Rightarrow> ('v, 'd) run_trace list \<times> watch_end" where
  "watch_loop env r fixArgs [] st = ([], WatchExits)"
| "watch_loop env r fixArgs ((Inl err, m) # es) st = ([], WatchError err)"
| "watch_loop env r fixArgs ((Inr ev, m) # es) st =
     (case runWatchCycle env r m ev fixArgs st of
        (Inl e, st') \<Rightarrow> ([], e)
      | (Inr t, st') \<Rightarrow>
        (case run_failed t of
           Some e \<Rightarrow> ([t], e)
         | None \<Rightarrow> apfst ((#) t) (watch_loop env r fixArgs es st')))"

definition watch_start :: "'v cache_file \<Rightarrow> ('v, 'd) watch_state" where
  "watch_start f =
     \<lparr>st_opened = False, st_host = (NewWatchCache, f),
      st_inv = \<lparr>wi_dirs = [], wi_wipe = False, wi_previousWalkCache = None\<rparr>\<rparr>"

text \<open>\<open>conn\<close> is what connecting to the host gives; \<open>f\<close> is the cache file of an earlier process.\<close>

definition Watch ::
  "('v, 'f) watch_env \<Rightarrow> gazelle_runner \<Rightarrow> string + unit \<Rightarrow> string \<Rightarrow> string list \<Rightarrow> 'v cache_file \<Rightarrow> ('f, 'd) moment \<Rightarrow>
   ((string + cycle_event) \<times> ('f, 'd) moment) list \<Rightarrow> ('v, 'd) run_trace list \<times> watch_end" where
  "Watch env r conn mode args f m es =
     (case conn of
        Inl err \<Rightarrow> ([], WatchError err)
      | Inr _ \<Rightarrow>
        let fixArgs = prepareGazelleArgs mode args
        in case instantiateLanguages (mo_factory m) (we_progress env) r of
             Inl e \<Rightarrow> ([], WatchDies e)
           | Inr _ \<Rightarrow>
             (case RunGazelle env r m fixArgs (watch_start f) of
                (t, st) \<Rightarrow>
                  (case run_failed t of
                     Some e \<Rightarrow> ([t], e)
                   | None \<Rightarrow> apfst ((#) t) (watch_loop env r fixArgs es st))))"

text \<open>\<open>Generate\<close>, outside of watch mode: whether a BUILD file was updated, and the error.\<close>

definition Generate ::
  "(string \<Rightarrow> 'f instance_lang outcome) \<Rightarrow> 'f instance_lang \<Rightarrow> (string list \<Rightarrow> 'd gazelle_run) \<Rightarrow> gazelle_runner \<Rightarrow>
   string \<Rightarrow> string list \<Rightarrow> (bool \<times> string option) outcome" where
  "Generate factory progress gazelle r mode args =
     (case instantiateLanguages factory progress r of
        Inl e \<Rightarrow> Inl e
      | Inr _ \<Rightarrow>
          let run = gazelle (prepareGazelleArgs mode args)
          in Inr (snd (gz_counts run) > 0, gz_error run))"

section \<open>What a session sees\<close>

definition at_or_below :: "string \<Rightarrow> string \<Rightarrow> bool" where
  "at_or_below d rel \<longleftrightarrow> d = ''.'' \<or> d = '''' \<or> under_dir d rel"

lemma walkCacheEntryInvalidated_iff: "walkCacheEntryInvalidated rel ds \<longleftrightarrow> (\<exists>d \<in> set ds. at_or_below d rel)"
  by (induction rel ds rule: walkCacheEntryInvalidated.induct) (auto simp: at_or_below_def under_dir_def)

text \<open>
  \<open>W\<close> are the paths that are loaded. A message tells of the changes when it is a reset or has the
  loaded files that changed since the message before, and possibly others.
\<close>

definition told :: "string \<Rightarrow> string set \<Rightarrow> ('f, 'd) moment \<Rightarrow> ('f, 'd) moment \<Rightarrow> cycle_event \<Rightarrow> bool" where
  "told base W m m' ev \<longleftrightarrow> ce_kind ev = ''CYCLE_RESET'' \<or>
     (\<forall>p \<in> W. mo_files m (path_join [base, p]) \<noteq> mo_files m' (path_join [base, p]) \<longrightarrow> p \<in> set (event_paths ev))"

fun told_all ::
  "string \<Rightarrow> string set \<Rightarrow> ('f, 'd) moment \<Rightarrow> ((string + cycle_event) \<times> ('f, 'd) moment) list \<Rightarrow> bool" where
  "told_all base W m [] = True"
| "told_all base W m ((Inl err, m') # es) = True"
| "told_all base W m ((Inr ev, m') # es) = (told base W m m' ev \<and> told_all base W m' es)"

definition loads_in :: "content set \<Rightarrow> string set \<Rightarrow> ('f, 'd) moment \<Rightarrow> bool" where
  "loads_in C W m \<longleftrightarrow> files_in C (mo_files m) \<and> (\<forall>args w. fst ` set (gz_loads (mo_gazelle m args w)) \<subseteq> W)"

text \<open>
  Every load of a run answers what computing it from the file at that time gives.
\<close>

definition loads_fresh :: "string \<Rightarrow> (string \<Rightarrow> 'v loader) \<Rightarrow> ('f, 'd) moment \<Rightarrow> ('v, 'd) run_trace \<Rightarrow> bool" where
  "loads_fresh base ld m t \<longleftrightarrow> rt_answers t = map (\<lambda>(p, key). direct (mo_files m) base ld p key) (rt_loads t)"

text \<open>
  The run of a cycle after the run \<open>prev\<close>: for the changed paths it is given the directories to update
  and the walk cache that \<open>prev\<close> left, without the entries of a directory that has a changed path
  or is below one that has; for a reset, everything and an empty one.
\<close>

definition runs_after ::
  "('v, 'f) watch_env \<Rightarrow> gazelle_runner \<Rightarrow> string list \<Rightarrow> ('v, 'd) run_trace \<Rightarrow> cycle_event \<Rightarrow> ('f, 'd) moment \<Rightarrow>
   ('v, 'd) run_trace \<Rightarrow> bool" where
  "runs_after env r fixArgs prev ev m t \<longleftrightarrow>
     (if ce_kind ev = ''CYCLE'' then
        rt_args t = fixArgs @
          computeUpdatedDirs (hasBuildFile (we_buildNames env) (mo_stat m) (gr_workspaceDir r)) (event_paths ev) \<and>
        rt_walks t = (\<lambda>d. if we_walkCache env \<and> \<not> (\<exists>p \<in> set (event_paths ev). at_or_below (path_Dir p) d)
                          then rt_left prev d else None)
      else ce_kind ev = ''CYCLE_RESET'' \<and> rt_args t = fixArgs \<and> rt_walks t = Map.empty)"

fun cycles_fresh ::
  "('v, 'f) watch_env \<Rightarrow> gazelle_runner \<Rightarrow> string list \<Rightarrow> ('v, 'd) run_trace \<Rightarrow>
   ((string + cycle_event) \<times> ('f, 'd) moment) list \<Rightarrow> ('v, 'd) run_trace list \<Rightarrow> bool" where
  "cycles_fresh env r fixArgs prev es [] = True"
| "cycles_fresh env r fixArgs prev ((Inr ev, m) # es) (t # ts) =
     (loads_fresh (gr_workspaceDir r) (we_loader env) m t \<and> runs_after env r fixArgs prev ev m t \<and>
      cycles_fresh env r fixArgs t es ts)"
| "cycles_fresh env r fixArgs prev ((Inl err, m) # es) (t # ts) = False"
| "cycles_fresh env r fixArgs prev [] (t # ts) = False"

definition host_holds ::
  "(content \<Rightarrow> string) \<Rightarrow> content set \<Rightarrow> string \<Rightarrow> (string \<Rightarrow> 'v loader) \<Rightarrow> string set \<Rightarrow> files \<Rightarrow> 'v watch_host \<Rightarrow> bool" where
  "host_holds hash C base ld W fs h \<longleftrightarrow> disk_inv hash C ld h \<and> (\<forall>p \<in> W. verified_agree base ld fs p h)"

lemma run_loads_spec:
  assumes "host_holds hash C base ld W fs h" "files_in C fs" "fst ` set ls \<subseteq> W"
    and "run_loads hash base ld fs ls h = (answers, h')"
  shows "answers = map (\<lambda>(p, key). direct fs base ld p key) ls \<and> host_holds hash C base ld W fs h'"
  using assms
proof (induction ls arbitrary: h answers)
  case (Cons l ls)
  obtain p key where l: "l = (p, key)" by (rule prod.exhaust)
  obtain r h1 where r: "watch_load hash base ld fs p key h = (r, h1)" by (rule prod.exhaust)
  obtain as where as: "run_loads hash base ld fs ls h1 = (as, h')" "answers = answer_of r # as"
    using Cons.prems(4) by (simp add: l r) (metis apfst_conv prod.collapse snd_apfst snd_conv fst_apfst fst_conv)
  have spec: "answer_of r = direct fs base ld p key" "disk_inv hash C ld h1"
      "\<forall>q. verified_agree base ld fs q h \<longrightarrow> verified_agree base ld fs q h1"
    using watch_load_spec [OF _ Cons.prems(2) _ r] Cons.prems(1,3) by (auto simp: host_holds_def l)
  then have "host_holds hash C base ld W fs h1" using Cons.prems(1) by (simp add: host_holds_def)
  with Cons.IH [OF this Cons.prems(2) _ as(1)] Cons.prems(3) spec(1) as(2) show ?case by (simp add: l)
qed simp

lemma verified_agree_same:
  assumes "fs (path_join [base, p]) = fs' (path_join [base, p])"
  shows "verified_agree base ld fs p h = verified_agree base ld fs' p h"
  using assms by (simp add: verified_agree_def entries_agree_def)

lemma host_holds_save: "host_holds hash C base ld W fs h \<Longrightarrow> host_holds hash C base ld W fs (watch_save b h)"
  unfolding host_holds_def by (intro conjI ballI watch_host.save_inv watch_host.save_agrees) auto

lemma host_holds_dropped:
  assumes "host_holds hash C base ld W fs h"
    and "\<forall>p \<in> W. fs (path_join [base, p]) \<noteq> fs' (path_join [base, p]) \<longrightarrow> p \<in> set ps"
  shows "host_holds hash C base ld W fs' (apfst (watch_Invalidate ps) h)"
  unfolding host_holds_def
proof
  show "disk_inv hash C ld (apfst (watch_Invalidate ps) h)"
    using assms(1) by (intro watch_host.drop_inv) (simp add: host_holds_def)
  show "\<forall>p \<in> W. verified_agree base ld fs' p (apfst (watch_Invalidate ps) h)"
  proof
    fix p assume p: "p \<in> W"
    have "p \<in> set ps \<or> verified_agree base ld fs' p h"
      using assms p verified_agree_same unfolding host_holds_def by metis
    then show "verified_agree base ld fs' p (apfst (watch_Invalidate ps) h)" by (rule watch_host.drop_agrees)
  qed
qed

lemma host_holds_drop_all:
  "host_holds hash C base ld W fs h \<Longrightarrow> host_holds hash C base ld W fs' (apfst watch_InvalidateAll h)"
  unfolding host_holds_def by (intro conjI ballI watch_host.drop_all_inv watch_host.drop_all_agrees) auto

text \<open>
  A path in a directory below one does not drop the entry of that one, which has the list of its
  subdirectories: a session is not told so when a file is the first of a new directory.
\<close>

lemma new_directory_parent_kept:
  "load_walks True \<lparr>wi_dirs = [path_Dir ''a/new/x''], wi_wipe = False, wi_previousWalkCache = Some [''a'' \<mapsto> subdirs]\<rparr> ''a''
     = Some subdirs"
proof -
  have "path_Dir ''a/new/x'' = ''a/new''" by code_simp
  then show ?thesis by (simp add: load_walks_def)
qed

text \<open>Between two runs, and before one.\<close>

definition state_holds ::
  "('v, 'f) watch_env \<Rightarrow> content set \<Rightarrow> string \<Rightarrow> string set \<Rightarrow> ('f, 'd) moment \<Rightarrow> ('v, 'd) run_trace \<Rightarrow>
   ('v, 'd) watch_state \<Rightarrow> bool" where
  "state_holds env C base W m prev st \<longleftrightarrow>
     st_opened st \<and> host_holds (we_hash env) C base (we_loader env) W (mo_files m) (st_host st) \<and>
     (if we_walkCache env then wi_previousWalkCache (st_inv st) = Some (rt_left prev)
      else wi_previousWalkCache (st_inv st) = None)"

definition ready_to_run ::
  "('v, 'f) watch_env \<Rightarrow> content set \<Rightarrow> string \<Rightarrow> string set \<Rightarrow> ('f, 'd) moment \<Rightarrow> ('v, 'd) watch_state \<Rightarrow> bool" where
  "ready_to_run env C base W m st \<longleftrightarrow>
     (let oc = watch_NewCache (we_build env) (we_cachePath env) (snd (st_host st)) (st_opened st, fst (st_host st))
      in fst oc \<and> host_holds (we_hash env) C base (we_loader env) W (mo_files m) (snd oc, snd (st_host st))) \<and>
     (we_walkCache env \<or> wi_previousWalkCache (st_inv st) = None)"

lemma watch_NewCache_opened: "watch_NewCache b path f (True, c) = (True, c)"
  by (simp add: watch_NewCache_def)

lemma RunGazelle_fresh:
  assumes "ready_to_run env C (gr_workspaceDir r) W m st" "loads_in C W m"
    and run: "RunGazelle env r m args st = (t, st')"
  shows "loads_fresh (gr_workspaceDir r) (we_loader env) m t"
    and "state_holds env C (gr_workspaceDir r) W m t st'"
    and "rt_args t = args" "rt_walks t = load_walks (we_walkCache env) (st_inv st)"
proof -
  let ?base = "gr_workspaceDir r" and ?ld = "we_loader env" and ?start = "load_walks (we_walkCache env) (st_inv st)"
  obtain opened c where oc: "watch_NewCache (we_build env) (we_cachePath env) (snd (st_host st)) (st_opened st, fst (st_host st)) =
      (opened, c)" by (rule prod.exhaust)
  define g where "g = mo_gazelle m args ?start"
  obtain answers h where loads: "run_loads (we_hash env) ?base ?ld (mo_files m) (gz_loads g) (c, snd (st_host st)) = (answers, h)"
    by (rule prod.exhaust)
  have t: "t = \<lparr>rt_args = args, rt_walks = ?start, rt_left = gz_walks g, rt_loads = gz_loads g, rt_answers = answers,
        rt_error = gz_error g\<rparr>"
    and st': "st' = st\<lparr>st_opened := opened, st_host := (if gz_persists g then watch_save (we_build env) h else h),
        st_inv := keep_walks (we_walkCache env) (gz_walks g) (st_inv st)\<rparr>"
    using run by (simp_all add: RunGazelle_def oc Let_def loads [unfolded g_def] g_def)
  have pre: opened "host_holds (we_hash env) C ?base ?ld W (mo_files m) (c, snd (st_host st))"
      "we_walkCache env \<or> wi_previousWalkCache (st_inv st) = None"
    using assms(1) by (simp_all add: ready_to_run_def oc)
  have g: "files_in C (mo_files m)" "fst ` set (gz_loads g) \<subseteq> W"
    using assms(2) by (simp_all add: loads_in_def g_def)
  note spec = run_loads_spec [OF pre(2) g loads]
  then show "loads_fresh ?base ?ld m t" by (simp add: loads_fresh_def t)
  have "host_holds (we_hash env) C ?base ?ld W (mo_files m) (if gz_persists g then watch_save (we_build env) h else h)"
    using spec by (auto intro: host_holds_save)
  then show "state_holds env C ?base W m t st'"
    using pre(1,3) by (auto simp: state_holds_def st' t keep_walks_def)
  show "rt_args t = args" "rt_walks t = ?start" by (simp_all add: t)
qed

lemma begin_cycle_ready:
  assumes "state_holds env C (gr_workspaceDir r) W m prev st" "told (gr_workspaceDir r) W m m' ev"
    and begun: "begin_cycle env r m' ev fixArgs st = (Inr args, st')"
  shows "ready_to_run env C (gr_workspaceDir r) W m' st'"
    and "rt_args t = args \<Longrightarrow> rt_walks t = load_walks (we_walkCache env) (st_inv st') \<Longrightarrow>
      runs_after env r fixArgs prev ev m' t"
proof -
  let ?base = "gr_workspaceDir r"
  note st = assms(1) [unfolded state_holds_def]
  consider (sources) "ce_kind ev = ''CYCLE''" | (reset) "ce_kind ev = ''CYCLE_RESET''"
    using begun by (auto simp: begin_cycle_def Let_def split: if_splits)
  then have "ready_to_run env C ?base W m' st' \<and>
      (rt_args t = args \<longrightarrow> rt_walks t = load_walks (we_walkCache env) (st_inv st') \<longrightarrow>
       runs_after env r fixArgs prev ev m' t)"
  proof cases
    case sources
    let ?ps = "event_paths ev"
    have st': "st_opened st' = st_opened st" "st_host st' = apfst (watch_Invalidate ?ps) (st_host st)"
        "st_inv st' = \<lparr>wi_dirs = map path_Dir ?ps, wi_wipe = False, wi_previousWalkCache = wi_previousWalkCache (st_inv st)\<rparr>"
        "args = fixArgs @ computeUpdatedDirs (hasBuildFile (we_buildNames env) (mo_stat m') ?base) ?ps"
      using begun sources by (auto simp: begin_cycle_def Let_def)
    have "\<forall>p \<in> W. mo_files m (path_join [?base, p]) \<noteq> mo_files m' (path_join [?base, p]) \<longrightarrow> p \<in> set ?ps"
      using assms(2) sources by (auto simp: told_def)
    from host_holds_dropped [OF _ this] st
    have "host_holds (we_hash env) C ?base (we_loader env) W (mo_files m') (st_host st')"
      unfolding st'(2) by blast
    moreover have "load_walks (we_walkCache env) (st_inv st') =
        (\<lambda>d. if we_walkCache env \<and> \<not> (\<exists>p \<in> set ?ps. at_or_below (path_Dir p) d) then rt_left prev d else None)"
      using st by (cases "we_walkCache env")
        (auto simp: load_walks_def st'(3) walkCacheEntryInvalidated_iff split: option.splits)
    ultimately show ?thesis
      using st sources
      by (simp add: ready_to_run_def runs_after_def st'(1,4) watch_NewCache_opened) (simp add: st'(3) split: if_splits)
  next
    case reset
    have st': "st_opened st' = st_opened st" "st_host st' = apfst watch_InvalidateAll (st_host st)"
        "st_inv st' = \<lparr>wi_dirs = [], wi_wipe = True, wi_previousWalkCache = wi_previousWalkCache (st_inv st)\<rparr>"
        "args = fixArgs"
      using begun reset by (auto simp: begin_cycle_def Let_def)
    have "host_holds (we_hash env) C ?base (we_loader env) W (mo_files m') (st_host st')"
      unfolding st'(2) using host_holds_drop_all st by blast
    moreover have "load_walks (we_walkCache env) (st_inv st') = Map.empty"
      by (simp add: load_walks_def st'(3) split: option.splits)
    ultimately show ?thesis
      using st reset
      by (simp add: ready_to_run_def runs_after_def st'(1,4) watch_NewCache_opened) (simp add: st'(3) split: if_splits)
  qed
  then show "ready_to_run env C ?base W m' st'"
    and "rt_args t = args \<Longrightarrow> rt_walks t = load_walks (we_walkCache env) (st_inv st') \<Longrightarrow>
      runs_after env r fixArgs prev ev m' t" by blast+
qed

lemma watch_loop_fresh:
  assumes "state_holds env C (gr_workspaceDir r) W m prev st" "told_all (gr_workspaceDir r) W m es"
    and "\<forall>m' \<in> snd ` set es. loads_in C W m'" "watch_loop env r fixArgs es st = (ts, e)"
  shows "cycles_fresh env r fixArgs prev es ts"
  using assms
proof (induction es arbitrary: m prev st ts)
  case (Cons x es)
  obtain msg m' where x: "x = (msg, m')" by (rule prod.exhaust)
  show ?case
  proof (cases msg)
    case (Inl err)
    with Cons.prems(4) show ?thesis by (simp add: x)
  next
    case ev: (Inr ev)
    have told: "told (gr_workspaceDir r) W m m' ev" "told_all (gr_workspaceDir r) W m' es"
      using Cons.prems(2) by (simp_all add: x ev)
    obtain res st1 where cyc: "runWatchCycle env r m' ev fixArgs st = (res, st1)" by (rule prod.exhaust)
    show ?thesis
    proof (cases res)
      case (Inl e')
      with Cons.prems(4) show ?thesis by (simp add: x ev cyc)
    next
      case res: (Inr t)
      then obtain args st2 where b: "begin_cycle env r m' ev fixArgs st = (Inr args, st2)"
          "RunGazelle env r m' args st2 = (t, st1)"
        using cyc by (auto simp: runWatchCycle_def map_prod_def split: prod.splits sum.splits)
      have ok: "loads_in C W m'" using Cons.prems(3) by (simp add: x)
      note begun = begin_cycle_ready [OF Cons.prems(1) told(1) b(1)]
      note spec = RunGazelle_fresh [OF begun(1) ok b(2)]
      note after = begun(2) [OF spec(3,4)]
      show ?thesis
      proof (cases "run_failed t")
        case (Some e')
        with Cons.prems(4) have "ts = [t]" by (simp add: x ev cyc res)
        with spec(1) after show ?thesis by (simp add: x ev)
      next
        case None
        obtain ts' where ts': "watch_loop env r fixArgs es st1 = (ts', e)" "ts = t # ts'"
          using Cons.prems(4) None
          by (cases "watch_loop env r fixArgs es st1") (auto simp: x ev cyc res)
        with Cons.IH [OF spec(2) told(2) _ ts'(1)] Cons.prems(3) spec(1) after show ?thesis by (simp add: x ev)
      qed
    qed
  qed
qed simp

lemma watch_loop_complete: "watch_loop env r fixArgs es st = (ts, WatchExits) \<Longrightarrow> length ts = length es"
proof (induction env r fixArgs es st arbitrary: ts rule: watch_loop.induct)
  case (3 env r fixArgs ev m es st)
  obtain res st' where cyc: "runWatchCycle env r m ev fixArgs st = (res, st')" by (rule prod.exhaust)
  show ?case
  proof (cases res)
    case (Inl e)
    with 3(2) have "e = WatchExits" by (simp add: cyc)
    with cyc Inl show ?thesis
      by (auto simp: runWatchCycle_def map_prod_def split: prod.splits sum.splits)
  next
    case (Inr t)
    with 3(2) have none: "run_failed t = None"
      by (auto simp: cyc run_failed_def split: option.splits)
    with 3(2) Inr obtain ts' where "watch_loop env r fixArgs es st' = (ts', WatchExits)" "ts = t # ts'"
      by (cases "watch_loop env r fixArgs es st'") (auto simp: cyc)
    with 3(1) [OF cyc [symmetric] Inr none] show ?thesis by simp
  qed
qed simp_all

lemma watch_start_ready:
  assumes "inj_on (we_hash env) C" "file_consistent (we_hash env) C (we_loader env) f"
  shows "ready_to_run env C base W m (watch_start f)"
proof -
  let ?h = "watch_restart (we_cachePath env) (we_build env) (NewWatchCache, f)"
  have "disk_inv (we_hash env) C (we_loader env) (NewWatchCache, f)"
    using assms by (simp add: disk_inv_def NewWatchCache_def)
  then have "host_holds (we_hash env) C base (we_loader env) W (mo_files m) ?h"
    unfolding host_holds_def by (intro conjI ballI watch_host.restart_inv watch_host.restart_agrees) auto
  moreover have "fst (watch_NewCache (we_build env) (we_cachePath env) f (False, NewWatchCache))"
    by (simp add: watch_NewCache_def)
  ultimately show ?thesis by (simp add: ready_to_run_def watch_start_def watch_restart_def)
qed

text \<open>
  C1 (refinement). In a session of \<open>--watch\<close> no run works on outdated files: in the first run and in the
  run of every cycle, each load of a file through the cache gives the value and the error of computing
  it from the file as it is at that time, for any cache file an earlier process left, if each message
  is a reset or has the loaded files that changed since the one before. The first run updates
  everything and walks everything; that of a cycle with changed paths updates exactly the directories
  computed for them and, with the walk cache enabled, takes over from the walk of the run before exactly
  the directories that neither have a changed path nor are below one that has; that of a reset takes
  over nothing. A session that exits has run once for each message. (Whether a directory taken over is
  as a walk would find it is not claimed: its list of subdirectories may be outdated.)
\<close>

theorem watch_session_fresh:
  assumes "inj_on (we_hash env) C" "file_consistent (we_hash env) C (we_loader env) f"
    and "told_all (gr_workspaceDir r) W m es" "\<forall>m' \<in> insert m (snd ` set es). loads_in C W m'"
    and "Watch env r conn mode args f m es = (ts, e)"
  shows "(case ts of
      [] \<Rightarrow> \<not> is_ok conn \<or> \<not> is_ok (instantiateLanguages (mo_factory m) (we_progress env) r)
    | t # ts' \<Rightarrow>
        loads_fresh (gr_workspaceDir r) (we_loader env) m t \<and>
        rt_args t = prepareGazelleArgs mode args \<and> rt_walks t = Map.empty \<and>
        cycles_fresh env r (prepareGazelleArgs mode args) t es ts') \<and>
    (e = WatchExits \<longrightarrow> length ts = Suc (length es))"
proof (cases conn)
  case (Inl err)
  with assms(5) show ?thesis by (auto simp: Watch_def)
next
  case (Inr u)
  show ?thesis
  proof (cases "instantiateLanguages (mo_factory m) (we_progress env) r")
    case (Inl e')
    with Inr assms(5) show ?thesis by (auto simp: Watch_def Let_def)
  next
    case langs: (Inr ls)
    obtain t st where run: "RunGazelle env r m (prepareGazelleArgs mode args) (watch_start f) = (t, st)"
      by (rule prod.exhaust)
    have ok: "loads_in C W m" using assms(4) by simp
    note spec = RunGazelle_fresh [OF watch_start_ready [OF assms(1,2)] ok run]
    have walks: "rt_walks t = Map.empty" by (simp add: spec(4) load_walks_def watch_start_def)
    show ?thesis
    proof (cases "run_failed t")
      case (Some e')
      then have "e' \<noteq> WatchExits" by (auto simp: run_failed_def)
      moreover have "ts = [t]" "e = e'" using assms(5) Inr langs run Some by (simp_all add: Watch_def)
      ultimately show ?thesis using spec(1,3) walks by simp
    next
      case None
      obtain ts' where ts': "watch_loop env r (prepareGazelleArgs mode args) es st = (ts', e)" "ts = t # ts'"
        using assms(5) Inr langs run None
        by (cases "watch_loop env r (prepareGazelleArgs mode args) es st") (auto simp: Watch_def)
      note loop = watch_loop_fresh [OF spec(2) assms(3) _ ts'(1)]
      show ?thesis using loop assms(4) spec(1,3) walks ts' watch_loop_complete by fastforce
    qed
  qed
qed

text \<open>A session with one file, which changes once.\<close>

definition sample_moment :: "string \<Rightarrow> (unit, string + content) moment" where
  "sample_moment content =
     \<lparr>mo_stat = (\<lambda>p. p = ''/r/BUILD''), mo_files = (\<lambda>_. Inr content), mo_factory = (\<lambda>_. Inr (OtherLang ''go'' [])),
      mo_gazelle = (\<lambda>args w. \<lparr>gz_loads = [(''a'', ''k'')], gz_persists = True, gz_walks = w('''' \<mapsto> Inr content),
        gz_counts = (1, 0), gz_error = None\<rparr>)\<rparr>"

definition sample_watch_env :: "(string, unit) watch_env" where
  "sample_watch_env =
     \<lparr>we_hash = id, we_loader = (\<lambda>k p s. (Some (k @ s), None)),
      we_build = \<lparr>bi_GitCommit = '''', bi_IsStamped = False\<rparr>, we_cachePath = ''f'', we_walkCache = True,
      we_buildNames = [''BUILD''], we_progress = OtherLang ''progress'' []\<rparr>"

definition sample_runner :: gazelle_runner where
  "sample_runner = \<lparr>gr_workspaceDir = ''/r'', gr_interactive = True, gr_showProgress = True, gr_languageKeys = [''go'']\<rparr>"

definition sample_event :: cycle_event where
  "sample_event = \<lparr>ce_kind = ''CYCLE'', ce_trace = ('''', ''''), ce_id = 1, ce_scope = ''sources'', ce_sources = Some [(''a'', None)]\<rparr>"

theorem watch_session_fresh_witness:
  "map rt_answers (fst (Watch sample_watch_env sample_runner (Inr ()) ''fix'' [] None (sample_moment ''1'')
      [(Inr sample_event, sample_moment ''2'')])) = [[(Some ''k1'', None)], [(Some ''k2'', None)]]"
proof -
  let ?es = "[(Inr sample_event, sample_moment ''2'')]"
  let ?run = "Watch sample_watch_env sample_runner (Inr ()) ''fix'' [] None (sample_moment ''1'') ?es"
  have join: "path_join [''/r'', ''a''] = ''/r/a''" by code_simp
  have told: "told_all (gr_workspaceDir sample_runner) {''a''} (sample_moment ''1'') ?es"
    by (simp add: told_def event_paths_def sample_event_def)
  have ok: "\<forall>m' \<in> insert (sample_moment ''1'') (snd ` set ?es). loads_in UNIV {''a''} m'"
    by (auto simp: loads_in_def sample_moment_def files_in_def)
  have "snd ?run = WatchExits" by code_simp
  then obtain ts where ts: "?run = (ts, WatchExits)" by (metis prod.collapse)
  have env: "inj_on (we_hash sample_watch_env) UNIV"
      "file_consistent (we_hash sample_watch_env) UNIV (we_loader sample_watch_env) None"
    by (simp_all add: sample_watch_env_def file_consistent_def)
  note fresh = watch_session_fresh [OF env told ok ts]
  from fresh have "length ts = 2" by simp
  then obtain t1 t2 where t: "ts = [t1, t2]" by (auto simp: length_Suc_conv numeral_2_eq_2)
  with fresh have "loads_fresh (gr_workspaceDir sample_runner) (we_loader sample_watch_env) (sample_moment ''1'') t1"
      "loads_fresh (gr_workspaceDir sample_runner) (we_loader sample_watch_env) (sample_moment ''2'') t2"
    by simp_all
  moreover have "map rt_loads (fst ?run) = [[(''a'', ''k'')], [(''a'', ''k'')]]" by code_simp
  ultimately show ?thesis using t ts
    by (simp add: loads_fresh_def direct_eq sample_runner_def join) (simp add: sample_moment_def sample_watch_env_def)
qed

end
