(* ===== verification/Star_Objects.thy ===== *)
theory Star_Objects
  imports Orion_Config
begin

text \<open>
  The objects of the host as plugin code sees them in Starlark (\<open>plugin/plugin.star.go\<close>,
  \<open>plugin/target.star.go\<close>, \<open>plugin/queries.star.go\<close>): the attributes of each type and the names it lists,
  lookup by key, length, index and iteration, truth and the refusal to hash. Methods are answered as such;
  what they do is in \<open>Orion_Plugin\<close>. The texts of objects are not modelled.
\<close>

section \<open>Objects\<close>

datatype 'f hobject =
    PropertyValuesObj "'f property_values"
  | PluginDataObj "'f plugin_data"
  | PrepareContextObj "'f prepare_context"
  | AnalyzeContextObj "'f prepare_context" "'f target_source"
  | DeclareContextObj "'f prepare_context" "(string, 'f target_source list) gomap" "'f target_action list"
  | SourceListObj "'f target_source list"
  | SourcesObj "(string, 'f target_source list) gomap"
  | ActionsObj "'f target_action list"
  | SourceObj "'f target_source"
  | PropertyObj "'f property"
  | PrepareResultObj prepare_result
  | FilterObj source_filter
  | LabelObj plugin_label
  | SymbolObj symbol
  | ImportObj target_import
  | TargetSymbolObj target_symbol
  | CaptureObj "(string, string) gomap"
  | MatchObj query_match
  | MatchesObj "query_match list"
  | QueryObj query
  | QueriesObj "(string, query) gomap"
  | ResultsObj "'f query_results"

datatype 'f answer = AStar "'f ostar" | AObject "'f hobject" | AMethod string

text \<open>An attribute or key that is not there, a key that is no string, and data the host never set.\<close>

datatype lookup_error = NoAttribute string | NoKey string | NotStringKey | DataUnavailable

fun Type_of :: "'f hobject \<Rightarrow> string" where
  "Type_of (PropertyValuesObj _) = ''PropertyValues''"
| "Type_of (PluginDataObj _) = ''PluginData''"
| "Type_of (PrepareContextObj _) = ''PrepareContext''"
| "Type_of (AnalyzeContextObj _ _) = ''AnalyzeContext''"
| "Type_of (DeclareContextObj _ _ _) = ''DeclareTargetsContext''"
| "Type_of (SourceListObj _) = ''TargetSourceList''"
| "Type_of (SourcesObj _) = ''DeclareTargetsContext.Sources''"
| "Type_of (ActionsObj _) = ''declareTargetActionsImpl''"
| "Type_of (SourceObj _) = ''TargetSource''"
| "Type_of (PropertyObj _) = ''Property''"
| "Type_of (PrepareResultObj _) = ''PrepareResult''"
| "Type_of (FilterObj f) =
     (case f of SourceGlobFilter _ _ _ \<Rightarrow> ''SourceGlobFilter'' | SourceExtensionsFilter _ \<Rightarrow> ''SourceExtensionsFilter''
      | SourceFileFilter _ \<Rightarrow> ''SourceFileFilter'')"
| "Type_of (LabelObj _) = ''Label''"
| "Type_of (SymbolObj _) = ''Symbol''"
| "Type_of (ImportObj _) = ''TargetImport''"
| "Type_of (TargetSymbolObj _) = ''TargetSymbol''"
| "Type_of (CaptureObj _) = ''QueryCapture''"
| "Type_of (MatchObj _) = ''QueryMatch''"
| "Type_of (MatchesObj _) = ''QueryMatches''"
| "Type_of (QueryObj q) =
     (case q_Type q of QueryTypeAst \<Rightarrow> ''AstQuery'' | QueryTypeRegex \<Rightarrow> ''RegexQuery'' | QueryTypeJson \<Rightarrow> ''JsonQuery''
      | QueryTypeYaml \<Rightarrow> ''YamlQuery'' | QueryTypeToml \<Rightarrow> ''TomlQuery'' | QueryTypeRaw \<Rightarrow> ''RawQuery'')"
| "Type_of (QueriesObj _) = ''NamedQueries''"
| "Type_of (ResultsObj _) = ''QueryResults''"

text \<open>No object can be hashed; the context of \<open>declare\<close> has the method of its embedded one.\<close>

definition Hash_error :: "'f hobject \<Rightarrow> string" where
  "Hash_error o1 =
     ''unhashable: '' @ (case o1 of DeclareContextObj _ _ _ \<Rightarrow> ''PrepareContext'' | _ \<Rightarrow> Type_of o1)"

definition Truth_of :: "'f hobject \<Rightarrow> bool" where
  "Truth_of o1 =
     (case o1 of
        SourceListObj l \<Rightarrow> length l > 0
      | SourcesObj c \<Rightarrow> (\<exists>(g, l) \<in> set c. length l > 0)
      | _ \<Rightarrow> True)"

section \<open>Attributes\<close>

fun QueryBase_Attr :: "'f omap_order \<Rightarrow> query \<Rightarrow> string \<Rightarrow> (lookup_error + 'f answer) outcome" where
  "QueryBase_Attr ord q name =
     (if name = ''filter'' then map_sum id (Inr \<circ> AStar) (Write ord (GStrings (q_Filter q)))
      else if name = ''content_filter'' then map_sum id (Inr \<circ> AStar) (Write ord (GString (q_ContentFilter q)))
      else Inr (Inl (NoAttribute name)))"

definition PrepareContext_Attr :: "'f prepare_context \<Rightarrow> string \<Rightarrow> (lookup_error + 'f answer) outcome" where
  "PrepareContext_Attr ctx name =
     (if name = ''repo_name'' then Inr (Inr (AStar (SString (pc_RepoName ctx))))
      else if name = ''rel'' then Inr (Inr (AStar (SString (pc_Rel ctx))))
      else if name = ''properties'' then Inr (Inr (AObject (PropertyValuesObj (pc_Properties ctx))))
      else if name = ''data'' then
        (case pc_Data ctx of
           None \<Rightarrow> Inr (Inl DataUnavailable)
         | Some d \<Rightarrow> Inr (Inr (AObject (PluginDataObj d))))
      else if name = ''has_file'' then Inr (Inr (AMethod ''has_file''))
      else Inr (Inl (NoAttribute name)))"

definition PrepareContext_AttrNames :: "string list" where
  "PrepareContext_AttrNames = [''repo_name'', ''rel'', ''properties'', ''data'', ''has_file'']"

definition PropertyValues_Attr :: "'f property_values \<Rightarrow> string \<Rightarrow> (lookup_error + 'f answer) outcome" where
  "PropertyValues_Attr p name =
     (if name = ''is_local'' then Inr (Inr (AMethod ''is_local''))
      else Inr (Inl (NoAttribute name)))"

definition PropertyValues_AttrNames :: "string list" where
  "PropertyValues_AttrNames = [''is_local'']"

definition PluginData_Attr :: "'f plugin_data \<Rightarrow> string \<Rightarrow> (lookup_error + 'f answer) outcome" where
  "PluginData_Attr d name =
     (if name = ''get'' then Inr (Inr (AMethod ''get''))
      else Inr (Inl (NoAttribute name)))"

definition PluginData_AttrNames :: "string list" where
  "PluginData_AttrNames = [''get'']"

definition AnalyzeContext_Attr :: "'f prepare_context \<Rightarrow> 'f target_source \<Rightarrow> string \<Rightarrow> (lookup_error + 'f answer) outcome" where
  "AnalyzeContext_Attr ctx src name =
     (if name = ''source'' then Inr (Inr (AObject (SourceObj src)))
      else if name = ''add_symbol'' then Inr (Inr (AMethod ''add_symbol''))
      else PrepareContext_Attr ctx name)"

definition AnalyzeContext_AttrNames :: "string list" where
  "AnalyzeContext_AttrNames = PrepareContext_AttrNames @ [''source'', ''add_symbol'']"

definition DeclareTargetsContext_Attr :: "'f prepare_context \<Rightarrow> (string, 'f target_source list) gomap \<Rightarrow> 'f target_action list \<Rightarrow> string \<Rightarrow> (lookup_error + 'f answer) outcome" where
  "DeclareTargetsContext_Attr ctx srcs acts name =
     (if name = ''sources'' then Inr (Inr (AObject (SourcesObj srcs)))
      else if name = ''targets'' then Inr (Inr (AObject (ActionsObj acts)))
      else if name = ''add_symbol'' then Inr (Inr (AMethod ''add_symbol''))
      else PrepareContext_Attr ctx name)"

definition DeclareTargetsContext_AttrNames :: "string list" where
  "DeclareTargetsContext_AttrNames = PrepareContext_AttrNames @ [''sources'', ''targets'', ''add_symbol'']"

definition TargetSources_Attr :: "(string, 'f target_source list) gomap \<Rightarrow> string \<Rightarrow> (lookup_error + 'f answer) outcome" where
  "TargetSources_Attr c name =
     (case map_of c name of Some l \<Rightarrow> Inr (Inr (AObject (SourceListObj l))) | None \<Rightarrow> Inr (Inl (NoAttribute name)))"

definition TargetSources_AttrNames :: "(string, 'f target_source list) gomap \<Rightarrow> string list" where
  "TargetSources_AttrNames c = map fst c"

definition declareTargetActionsImpl_Attr :: "'f target_action list \<Rightarrow> string \<Rightarrow> (lookup_error + 'f answer) outcome" where
  "declareTargetActionsImpl_Attr acts name =
     (if name = ''add'' then Inr (Inr (AMethod ''add''))
      else if name = ''remove'' then Inr (Inr (AMethod ''remove''))
      else Inr (Inl (NoAttribute name)))"

definition declareTargetActionsImpl_AttrNames :: "string list" where
  "declareTargetActionsImpl_AttrNames = [''add'', ''remove'']"

definition TargetSource_Attr :: "'f target_source \<Rightarrow> string \<Rightarrow> (lookup_error + 'f answer) outcome" where
  "TargetSource_Attr s name =
     (if name = ''path'' then Inr (Inr (AStar (SString (src_Path s))))
      else if name = ''query_results'' then Inr (Inr (AObject (ResultsObj (src_QueryResults s))))
      else Inr (Inl (NoAttribute name)))"

definition TargetSource_AttrNames :: "string list" where
  "TargetSource_AttrNames = [''path'', ''query_results'']"

definition Property_Attr :: "'f omap_order \<Rightarrow> 'f property \<Rightarrow> string \<Rightarrow> (lookup_error + 'f answer) outcome" where
  "Property_Attr ord p name =
     (if name = ''name'' then map_sum id (Inr \<circ> AStar) (Write ord (GString (pr_Name p)))
      else if name = ''type'' then map_sum id (Inr \<circ> AStar) (Write ord (GString (pr_Type p)))
      else if name = ''default'' then map_sum id (Inr \<circ> AStar) (Write ord (pr_Default p))
      else Inr (Inl (NoAttribute name)))"

definition Property_AttrNames :: "string list" where
  "Property_AttrNames = [''name'', ''type'', ''default'']"

text \<open>The sources of a result of \<open>prepare\<close> are no value that can be written.\<close>

definition PrepareResult_Attr :: "'f omap_order \<Rightarrow> prepare_result \<Rightarrow> string \<Rightarrow> (lookup_error + 'f answer) outcome" where
  "PrepareResult_Attr ord r name =
     (if name = ''sources'' then map_sum id (Inr \<circ> AStar) (Write ord (GOther ''map[string][]plugin.SourceFilter''))
      else if name = ''queries'' then Inr (Inr (AObject (QueriesObj (ps_Queries r))))
      else Inr (Inl (NoAttribute name)))"

definition PrepareResult_AttrNames :: "string list" where
  "PrepareResult_AttrNames = [''sources'', ''queries'']"

definition SourceExtensionsFilter_Attr :: "'f omap_order \<Rightarrow> string list \<Rightarrow> string \<Rightarrow> (lookup_error + 'f answer) outcome" where
  "SourceExtensionsFilter_Attr ord exts name =
     (if name = ''extensions'' then map_sum id (Inr \<circ> AStar) (Write ord (GStrings exts))
      else Inr (Inl (NoAttribute name)))"

definition SourceExtensionsFilter_AttrNames :: "string list" where
  "SourceExtensionsFilter_AttrNames = [''extensions'']"

definition SourceGlobFilter_Attr :: "'f omap_order \<Rightarrow> string list \<Rightarrow> string list \<Rightarrow> string \<Rightarrow> (lookup_error + 'f answer) outcome" where
  "SourceGlobFilter_Attr ord incs excludes name =
     (if name = ''globs'' then map_sum id (Inr \<circ> AStar) (Write ord (GStrings incs))
      else if name = ''exclude'' then map_sum id (Inr \<circ> AStar) (Write ord (GStrings excludes))
      else Inr (Inl (NoAttribute name)))"

definition SourceGlobFilter_AttrNames :: "string list" where
  "SourceGlobFilter_AttrNames = [''globs'', ''exclude'']"

definition SourceFileFilter_Attr :: "'f omap_order \<Rightarrow> string list \<Rightarrow> string \<Rightarrow> (lookup_error + 'f answer) outcome" where
  "SourceFileFilter_Attr ord files name =
     (if name = ''files'' then map_sum id (Inr \<circ> AStar) (Write ord (GStrings files))
      else Inr (Inl (NoAttribute name)))"

definition SourceFileFilter_AttrNames :: "string list" where
  "SourceFileFilter_AttrNames = [''files'']"

definition Label_Attr :: "plugin_label \<Rightarrow> string \<Rightarrow> (lookup_error + 'f answer) outcome" where
  "Label_Attr l name =
     (if name = ''repo'' then Inr (Inr (AStar (SString (pl_Repo l))))
      else if name = ''pkg'' then Inr (Inr (AStar (SString (pl_Pkg l))))
      else if name = ''name'' then Inr (Inr (AStar (SString (pl_Name l))))
      else Inr (Inl (NoAttribute name)))"

definition Label_AttrNames :: "string list" where
  "Label_AttrNames = [''repo'', ''pkg'', ''name'']"

definition Symbol_Attr :: "symbol \<Rightarrow> string \<Rightarrow> (lookup_error + 'f answer) outcome" where
  "Symbol_Attr s name =
     (if name = ''id'' then Inr (Inr (AStar (SString (sy_Id s))))
      else if name = ''provider'' then Inr (Inr (AStar (SString (sy_Provider s))))
      else Inr (Inl (NoAttribute name)))"

definition Symbol_AttrNames :: "string list" where
  "Symbol_AttrNames = [''id'', ''provider'']"

definition TargetImport_Attr :: "target_import \<Rightarrow> string \<Rightarrow> (lookup_error + 'f answer) outcome" where
  "TargetImport_Attr i name =
     (if name = ''id'' then Inr (Inr (AStar (SString (sy_Id i))))
      else if name = ''provider'' then Inr (Inr (AStar (SString (sy_Provider i))))
      else if name = ''from'' then Inr (Inr (AStar (SString (ti_From i))))
      else if name = ''optional'' then Inr (Inr (AStar (SBool (ti_Optional i))))
      else if name = ''ancestor'' then Inr (Inr (AStar (SBool (ti_Ancestor i))))
      else if name = ''multiple'' then Inr (Inr (AStar (SBool (ti_Multiple i))))
      else Inr (Inl (NoAttribute name)))"

definition TargetImport_AttrNames :: "string list" where
  "TargetImport_AttrNames = [''id'', ''provider'', ''from'', ''optional'', ''ancestor'', ''multiple'']"

definition TargetSymbol_Attr :: "target_symbol \<Rightarrow> string \<Rightarrow> (lookup_error + 'f answer) outcome" where
  "TargetSymbol_Attr t name =
     (if name = ''id'' then Inr (Inr (AStar (SString (sy_Id t))))
      else if name = ''provider'' then Inr (Inr (AStar (SString (sy_Provider t))))
      else if name = ''label'' then Inr (Inr (AObject (LabelObj (ts_Label t))))
      else Inr (Inl (NoAttribute name)))"

definition TargetSymbol_AttrNames :: "string list" where
  "TargetSymbol_AttrNames = [''id'', ''provider'', ''label'']"

definition QueryMatch_Attr :: "'f omap_order \<Rightarrow> query_match \<Rightarrow> string \<Rightarrow> (lookup_error + 'f answer) outcome" where
  "QueryMatch_Attr ord m name =
     (if name = ''result'' then map_sum id (Inr \<circ> AStar) (Write ord (case qm_Result m of None \<Rightarrow> GNil | Some bytes \<Rightarrow> GBytes bytes))
      else if name = ''captures'' then Inr (Inr (AObject (CaptureObj (qm_Captures m))))
      else Inr (Inl (NoAttribute name)))"

definition QueryMatch_AttrNames :: "string list" where
  "QueryMatch_AttrNames = [''result'', ''captures'']"

definition QueryBase_AttrNames :: "string list" where
  "QueryBase_AttrNames = [''content_filter'', ''filter'']"

definition AstQuery_Attr :: "'f omap_order \<Rightarrow> query \<Rightarrow> string \<Rightarrow> (lookup_error + 'f answer) outcome" where
  "AstQuery_Attr ord q name =
     (if name = ''grammar'' then Inr (Inr (AStar (SString (q_Grammar q))))
      else if name = ''query'' then Inr (Inr (AStar (SString (q_Text q))))
      else QueryBase_Attr ord q name)"

definition AstQuery_AttrNames :: "string list" where
  "AstQuery_AttrNames = [''content_filter'', ''filter'', ''grammar'', ''query'']"

definition RegexQuery_Attr :: "'f omap_order \<Rightarrow> query \<Rightarrow> string \<Rightarrow> (lookup_error + 'f answer) outcome" where
  "RegexQuery_Attr ord q name =
     (if name = ''expression'' then Inr (Inr (AStar (SString (q_Text q))))
      else QueryBase_Attr ord q name)"

definition RegexQuery_AttrNames :: "string list" where
  "RegexQuery_AttrNames = [''content_filter'', ''expression'', ''filter'']"

definition JsonQuery_Attr :: "'f omap_order \<Rightarrow> query \<Rightarrow> string \<Rightarrow> (lookup_error + 'f answer) outcome" where
  "JsonQuery_Attr ord q name =
     (if name = ''query'' then Inr (Inr (AStar (SString (q_Text q))))
      else QueryBase_Attr ord q name)"

definition JsonQuery_AttrNames :: "string list" where
  "JsonQuery_AttrNames = [''content_filter'', ''filter'', ''query'']"

definition YamlQuery_Attr :: "'f omap_order \<Rightarrow> query \<Rightarrow> string \<Rightarrow> (lookup_error + 'f answer) outcome" where
  "YamlQuery_Attr ord q name =
     (if name = ''query'' then Inr (Inr (AStar (SString (q_Text q))))
      else QueryBase_Attr ord q name)"

definition YamlQuery_AttrNames :: "string list" where
  "YamlQuery_AttrNames = [''content_filter'', ''filter'', ''query'']"

definition TomlQuery_Attr :: "'f omap_order \<Rightarrow> query \<Rightarrow> string \<Rightarrow> (lookup_error + 'f answer) outcome" where
  "TomlQuery_Attr ord q name =
     (if name = ''query'' then Inr (Inr (AStar (SString (q_Text q))))
      else QueryBase_Attr ord q name)"

definition TomlQuery_AttrNames :: "string list" where
  "TomlQuery_AttrNames = [''content_filter'', ''filter'', ''query'']"

text \<open>The method of the type of an object; lists and mappings have no attributes.\<close>

fun Attr :: "'f omap_order \<Rightarrow> 'f hobject \<Rightarrow> string \<Rightarrow> (lookup_error + 'f answer) outcome" where
  "Attr ord (PrepareContextObj ctx) name = PrepareContext_Attr ctx name"
| "Attr ord (SourcesObj c) name = TargetSources_Attr c name"
| "Attr ord (PropertyValuesObj p) name = PropertyValues_Attr p name"
| "Attr ord (PluginDataObj d) name = PluginData_Attr d name"
| "Attr ord (AnalyzeContextObj ctx src) name = AnalyzeContext_Attr ctx src name"
| "Attr ord (DeclareContextObj ctx srcs acts) name = DeclareTargetsContext_Attr ctx srcs acts name"
| "Attr ord (ActionsObj acts) name = declareTargetActionsImpl_Attr acts name"
| "Attr ord (SourceObj s) name = TargetSource_Attr s name"
| "Attr ord (PropertyObj p) name = Property_Attr ord p name"
| "Attr ord (PrepareResultObj r) name = PrepareResult_Attr ord r name"
| "Attr ord (LabelObj l) name = Label_Attr l name"
| "Attr ord (SymbolObj s) name = Symbol_Attr s name"
| "Attr ord (ImportObj i) name = TargetImport_Attr i name"
| "Attr ord (TargetSymbolObj t) name = TargetSymbol_Attr t name"
| "Attr ord (MatchObj m) name = QueryMatch_Attr ord m name"
| "Attr ord (FilterObj f) name =
     (case f of
        SourceGlobFilter incs excludes e \<Rightarrow> SourceGlobFilter_Attr ord incs excludes name
      | SourceExtensionsFilter exts \<Rightarrow> SourceExtensionsFilter_Attr ord exts name
      | SourceFileFilter files \<Rightarrow> SourceFileFilter_Attr ord files name)"
| "Attr ord (QueryObj q) name =
     (case q_Type q of
        QueryTypeAst \<Rightarrow> AstQuery_Attr ord q name
      | QueryTypeRegex \<Rightarrow> RegexQuery_Attr ord q name
      | QueryTypeJson \<Rightarrow> JsonQuery_Attr ord q name
      | QueryTypeYaml \<Rightarrow> YamlQuery_Attr ord q name
      | QueryTypeToml \<Rightarrow> TomlQuery_Attr ord q name
      | QueryTypeRaw \<Rightarrow> QueryBase_Attr ord q name)"
| "Attr ord (SourceListObj _) name = Inr (Inl (NoAttribute name))"
| "Attr ord (CaptureObj _) name = Inr (Inl (NoAttribute name))"
| "Attr ord (MatchesObj _) name = Inr (Inl (NoAttribute name))"
| "Attr ord (QueriesObj _) name = Inr (Inl (NoAttribute name))"
| "Attr ord (ResultsObj _) name = Inr (Inl (NoAttribute name))"

fun AttrNames :: "'f hobject \<Rightarrow> string list" where
  "AttrNames (PrepareContextObj _) = PrepareContext_AttrNames"
| "AttrNames (SourcesObj c) = TargetSources_AttrNames c"
| "AttrNames (PropertyValuesObj _) = PropertyValues_AttrNames"
| "AttrNames (PluginDataObj _) = PluginData_AttrNames"
| "AttrNames (AnalyzeContextObj _ _) = AnalyzeContext_AttrNames"
| "AttrNames (DeclareContextObj _ _ _) = DeclareTargetsContext_AttrNames"
| "AttrNames (ActionsObj _) = declareTargetActionsImpl_AttrNames"
| "AttrNames (SourceObj _) = TargetSource_AttrNames"
| "AttrNames (PropertyObj _) = Property_AttrNames"
| "AttrNames (PrepareResultObj _) = PrepareResult_AttrNames"
| "AttrNames (LabelObj _) = Label_AttrNames"
| "AttrNames (SymbolObj _) = Symbol_AttrNames"
| "AttrNames (ImportObj _) = TargetImport_AttrNames"
| "AttrNames (TargetSymbolObj _) = TargetSymbol_AttrNames"
| "AttrNames (MatchObj _) = QueryMatch_AttrNames"
| "AttrNames (FilterObj f) =
     (case f of SourceGlobFilter _ _ _ \<Rightarrow> SourceGlobFilter_AttrNames
      | SourceExtensionsFilter _ \<Rightarrow> SourceExtensionsFilter_AttrNames
      | SourceFileFilter _ \<Rightarrow> SourceFileFilter_AttrNames)"
| "AttrNames (QueryObj q) =
     (case q_Type q of
        QueryTypeAst \<Rightarrow> AstQuery_AttrNames
      | QueryTypeRegex \<Rightarrow> RegexQuery_AttrNames
      | QueryTypeJson \<Rightarrow> JsonQuery_AttrNames
      | QueryTypeYaml \<Rightarrow> YamlQuery_AttrNames
      | QueryTypeToml \<Rightarrow> TomlQuery_AttrNames
      | QueryTypeRaw \<Rightarrow> QueryBase_AttrNames)"
| "AttrNames _ = []"

lemmas attr_defs =
  PrepareContext_AttrNames_def PrepareContext_Attr_def
  QueryBase_AttrNames_def
  TargetSources_AttrNames_def TargetSources_Attr_def
  PropertyValues_AttrNames_def PropertyValues_Attr_def
  PluginData_AttrNames_def PluginData_Attr_def
  AnalyzeContext_AttrNames_def AnalyzeContext_Attr_def
  DeclareTargetsContext_AttrNames_def DeclareTargetsContext_Attr_def
  declareTargetActionsImpl_AttrNames_def declareTargetActionsImpl_Attr_def
  TargetSource_AttrNames_def TargetSource_Attr_def
  Property_AttrNames_def Property_Attr_def
  PrepareResult_AttrNames_def PrepareResult_Attr_def
  SourceExtensionsFilter_AttrNames_def SourceExtensionsFilter_Attr_def
  SourceGlobFilter_AttrNames_def SourceGlobFilter_Attr_def
  SourceFileFilter_AttrNames_def SourceFileFilter_Attr_def
  Label_AttrNames_def Label_Attr_def
  Symbol_AttrNames_def Symbol_Attr_def
  TargetImport_AttrNames_def TargetImport_Attr_def
  TargetSymbol_AttrNames_def TargetSymbol_Attr_def
  QueryMatch_AttrNames_def QueryMatch_Attr_def
  AstQuery_AttrNames_def AstQuery_Attr_def
  RegexQuery_AttrNames_def RegexQuery_Attr_def
  JsonQuery_AttrNames_def JsonQuery_Attr_def
  YamlQuery_AttrNames_def YamlQuery_Attr_def
  TomlQuery_AttrNames_def TomlQuery_Attr_def

section \<open>Keys\<close>

definition string_key :: "'f ostar \<Rightarrow> (string \<Rightarrow> (lookup_error + 'f answer) outcome) \<Rightarrow> (lookup_error + 'f answer) outcome" where
  "string_key k f = (case k of SString key \<Rightarrow> f key | _ \<Rightarrow> Inr (Inl NotStringKey))"

definition QueryCapture_Get :: "(string, string) gomap \<Rightarrow> 'f ostar \<Rightarrow> (lookup_error + 'f answer) outcome" where
  "QueryCapture_Get q k =
     string_key k (\<lambda>key. case map_of q key of Some r \<Rightarrow> Inr (Inr (AStar (SString r))) | None \<Rightarrow> Inr (Inl (NoKey key)))"

definition NamedQueries_Get :: "(string, query) gomap \<Rightarrow> 'f ostar \<Rightarrow> (lookup_error + 'f answer) outcome" where
  "NamedQueries_Get nq k =
     string_key k (\<lambda>key. case map_of nq key of Some r \<Rightarrow> Inr (Inr (AObject (QueryObj r))) | None \<Rightarrow> Inr (Inl (NoKey key)))"

definition write_result :: "'f omap_order \<Rightarrow> 'f query_result \<Rightarrow> (lookup_error + 'f answer) outcome" where
  "write_result ord r =
     (case r of
        RawResult s \<Rightarrow> map_sum id (Inr \<circ> AStar) (Write ord (GString s))
      | ValueResults vs \<Rightarrow> map_sum id (Inr \<circ> AStar) (Write ord (GList vs))
      | MatchResults ms \<Rightarrow> Inr (Inr (AObject (MatchesObj ms))))"

definition QueryResults_Get :: "'f omap_order \<Rightarrow> 'f query_results \<Rightarrow> 'f ostar \<Rightarrow> (lookup_error + 'f answer) outcome" where
  "QueryResults_Get ord qr k =
     string_key k (\<lambda>key. case map_of qr key of Some r \<Rightarrow> write_result ord r | None \<Rightarrow> Inr (Inl (NoKey key)))"

section \<open>Sequences\<close>

text \<open>The elements of a sequence; the sources by group stand for their default group, an empty one if there is none.\<close>

fun elements :: "'f hobject \<Rightarrow> 'f hobject list option" where
  "elements (SourceListObj l) = Some (map SourceObj l)"
| "elements (SourcesObj c) = Some (map SourceObj (case map_of c DefaultGroup of None \<Rightarrow> [] | Some l \<Rightarrow> l))"
| "elements (MatchesObj ms) = Some (map MatchObj ms)"
| "elements _ = None"

definition Len :: "'f hobject list \<Rightarrow> nat" where
  "Len t = length t"

definition Index :: "'f hobject list \<Rightarrow> nat \<Rightarrow> 'f hobject outcome" where
  "Index t i = (if i < length t then Inr (t ! i) else Inl (Panic ''index out of range''))"

text \<open>An iterator: the sequence and the place.\<close>

type_synonym 'f iterator = "'f hobject list \<times> nat"

definition Iterate :: "'f hobject list \<Rightarrow> 'f iterator" where
  "Iterate t = (t, 0)"

definition Next :: "'f iterator \<Rightarrow> ('f hobject \<times> 'f iterator) option" where
  "Next it = (if snd it \<ge> length (fst it) then None else Some (fst it ! snd it, (fst it, Suc (snd it))))"

text \<open>Ending an iteration over matches makes it start again.\<close>

definition Done :: "bool \<Rightarrow> 'f iterator \<Rightarrow> 'f iterator" where
  "Done matches it = (if matches then (fst it, 0) else it)"

text \<open>What a loop of plugin code sees.\<close>

function drain :: "'f iterator \<Rightarrow> 'f hobject list" where
  "drain it = (case Next it of None \<Rightarrow> [] | Some (x, it') \<Rightarrow> x # drain it')"
  by auto
termination
  by (relation "measure (\<lambda>it. length (fst it) - snd it)") (auto simp: Next_def split: if_splits)

declare drain.simps [simp del]

section \<open>What plugin code can rely on\<close>

lemma drain_from: "drain (t, i) = drop i t"
proof (induction "(t, i)" arbitrary: i rule: drain.induct)
  case 1
  then show ?case
    by (cases "i < length t") (auto simp: drain.simps [of "(t, i)"] Next_def Cons_nth_drop_Suc)
qed

text \<open>A loop over a sequence sees every element once, in the order of the indices; a later loop sees them again.\<close>

lemma sequence_loop:
  "drain (Iterate t) = t" "i < Len t \<Longrightarrow> Index t i = Inr (drain (Iterate t) ! i)"
  "drain (Done True it) = fst it"
  by (cases it; simp add: Iterate_def drain_from Index_def Len_def Done_def)+

lemma map_sum_shapes [simp]:
  "map_sum id (Inr \<circ> f) r \<noteq> Inr (Inl e)"
  "map_sum id (Inr \<circ> f) r = Inl s \<longleftrightarrow> r = Inl s"
  by (cases r; simp)+

text \<open>The preparation context behind an object, if it is a context.\<close>

fun context_of :: "'f hobject \<Rightarrow> 'f prepare_context option" where
  "context_of (PrepareContextObj ctx) = Some ctx"
| "context_of (AnalyzeContextObj ctx _) = Some ctx"
| "context_of (DeclareContextObj ctx _ _) = Some ctx"
| "context_of _ = None"

text \<open>
  C40 (equivalence). The objects of the host keep the protocol of Starlark's \<open>dir\<close> and \<open>hasattr\<close>: an
  object reports that it has no attribute of a name exactly when it does not list the name. Reading a
  listed one answers, with one exception that is an error and two that end the process: the data of a
  context for which the host set none, the sources of a result of \<open>prepare\<close>, and the default of a
  property that cannot be written.
\<close>

theorem host_attrs_listed:
  "(n \<in> set (AttrNames o1) \<longleftrightarrow> Attr ord o1 n \<noteq> Inr (Inl (NoAttribute n))) \<and>
   (Attr ord o1 n = Inr (Inl (NoAttribute n)) \<or> (\<exists>a. Attr ord o1 n = Inr (Inr a)) \<or>
    (\<exists>ctx. context_of o1 = Some ctx \<and> n = ''data'' \<and> pc_Data ctx = None \<and> Attr ord o1 n = Inr (Inl DataUnavailable)) \<or>
    (\<exists>s. Attr ord o1 n = Inl s)) \<and>
   (Attr ord o1 n = Inr (Inl DataUnavailable) \<longleftrightarrow>
      (\<exists>ctx. context_of o1 = Some ctx \<and> n = ''data'' \<and> pc_Data ctx = None)) \<and>
   ((\<exists>s. Attr ord o1 n = Inl s) \<longleftrightarrow>
      (\<exists>r. o1 = PrepareResultObj r \<and> n = ''sources'') \<or>
      (\<exists>p s. o1 = PropertyObj p \<and> n = ''default'' \<and> Write ord (pr_Default p) = Inl s))"
proof (cases o1)
  case (QueryObj q)
  then show ?thesis by (cases "q_Type q") (auto simp: attr_defs)
next
  case (SourcesObj c)
  moreover have "n \<in> set (map fst c) \<longleftrightarrow> map_of c n \<noteq> None" by (simp add: map_of_eq_None_iff)
  ultimately show ?thesis by (cases "map_of c n") (auto simp: attr_defs)
next
  case (FilterObj f)
  then show ?thesis by (cases f) (auto simp: attr_defs)
next
  case (PropertyObj p)
  then show ?thesis by (cases "Write ord (pr_Default p)") (auto simp: attr_defs)
qed (auto simp: attr_defs split: option.splits)

end
