(* ===== verification/Workspace.thy ===== *)
theory Workspace
  imports Path_Up
begin

text \<open>
  Finding the root of a workspace (\<open>common/bazel/workspace/finder.go\<close>): from a directory upwards, the first
  that has a boundary file. What \<open>os.Stat\<close> gives for a path is a parameter.
\<close>

datatype stat_result = NotExist | StatError string | StatDir | StatFile

definition validWorkspaceBoundaries :: "string list" where
  "validWorkspaceBoundaries = [''MODULE.bazel'', ''REPO.bazel'', ''WORKSPACE.bazel'', ''WORKSPACE'']"

datatype find_error = NotFoundError string | FindStat string

text \<open>A directory of that name is no boundary; another error than that there is no file ends the search.\<close>

fun find_boundary :: "(string \<Rightarrow> stat_result) \<Rightarrow> string \<Rightarrow> string list \<Rightarrow> (find_error + string) option" where
  "find_boundary osStat maybeDir [] = None"
| "find_boundary osStat maybeDir (bf # bfs) =
     (let maybeWorkspaceFile = path_join [maybeDir, bf]
      in case osStat maybeWorkspaceFile of
           NotExist \<Rightarrow> find_boundary osStat maybeDir bfs
         | StatError err \<Rightarrow> Some (Inl (FindStat err))
         | StatDir \<Rightarrow> find_boundary osStat maybeDir bfs
         | StatFile \<Rightarrow> Some (Inr (path_Dir maybeWorkspaceFile)))"

function find_up :: "(string \<Rightarrow> stat_result) \<Rightarrow> string \<Rightarrow> string \<Rightarrow> find_error + string" where
  "find_up osStat startDir maybeDir =
     (if maybeDir \<noteq> ''.'' \<and> maybeDir \<noteq> path_Dir maybeDir then
        (case find_boundary osStat maybeDir validWorkspaceBoundaries of
           Some r \<Rightarrow> r
         | None \<Rightarrow> find_up osStat startDir (path_Dir maybeDir))
      else Inl (NotFoundError startDir))"
  by pat_completeness auto
termination
proof (relation "measure (\<lambda>(_, _, d). dir_rank d)")
  fix osStat :: "string \<Rightarrow> stat_result" and s d
  assume "d \<noteq> ''.'' \<and> d \<noteq> path_Dir d"
  then show "((osStat, s, path_Dir d), osStat, s, d) \<in> measure (\<lambda>(_, _, d). dir_rank d)"
    using dir_rank_path_Dir [of d] by auto
qed simp

declare find_up.simps [simp del]

definition Find :: "(string \<Rightarrow> stat_result) \<Rightarrow> string \<Rightarrow> find_error + string" where
  "Find osStat startDir = find_up osStat startDir startDir"

section \<open>The nearest boundary\<close>

lemma path_join_names:
  assumes "dir_names_ok (es @ [e])"
  shows "path_join [render True es, e] = render True (es @ [e])"
proof -
  have ok: "dir_names_ok es" using assms by (simp add: dir_names_ok_def)
  have ne: "render True es \<noteq> ''''" by (simp add: render_def)
  then have "path_join [render True es, e] = Clean (render True es @ slash # e)" by (rule path_join_pair)
  moreover have "clean_elems (render True es @ slash # e) = es @ [e]"
  proof -
    have abs: "IsAbs (render True es @ slash # e)" using IsAbs_append [OF ne] by simp
    have "Split slash e = [e]" using assms Split_word [of slash e] by (simp add: dir_names_ok_def proper_def)
    moreover have "clean_elems (render True es) = es" by (rule clean_elems_render [OF names_normal [OF ok]])
    ultimately show ?thesis
      using abs assms by (simp add: clean_elems_def Split_append_sep clean_stack_append clean_step_def dir_names_ok_def proper_def)
  qed
  ultimately show ?thesis using IsAbs_append [OF ne, of "slash # e"] by (simp add: Clean_def)
qed

lemma boundary_names: "bf \<in> set validWorkspaceBoundaries \<Longrightarrow> proper bf \<and> bf \<noteq> ''..''"
  by (auto simp: validWorkspaceBoundaries_def proper_def)

lemma find_boundary_dir:
  assumes "dir_names_ok es" "\<forall>bf \<in> set bfs. proper bf \<and> bf \<noteq> ''..''"
    and "find_boundary osStat (render True es) bfs = Some (Inr r)"
  shows "r = render True es \<and> (\<exists>bf \<in> set bfs. osStat (render True (es @ [bf])) = StatFile)"
  using assms(2,3)
proof (induction bfs)
  case (Cons bf bfs)
  have ok: "dir_names_ok (es @ [bf])" using assms(1) Cons.prems(1) by (simp add: dir_names_ok_def)
  from Cons.prems(2) Cons show ?case
    by (auto simp: Let_def path_join_names [OF ok] path_Dir_names [OF ok] split: stat_result.splits)
qed simp

text \<open>
  The workspace of a directory given by its names is the nearest directory at or above it that has a
  boundary file, the root of the file system left out, unless the files of a nearer one cannot be
  read.
\<close>

lemma Find_nearest:
  assumes "dir_names_ok es"
  shows "Find osStat (render True es) =
    (case first_some (\<lambda>n. find_boundary osStat (render True (take n es)) validWorkspaceBoundaries)
            (rev [1..<Suc (length es)]) of
       Some r \<Rightarrow> r | None \<Rightarrow> Inl (NotFoundError (render True es)))"
proof -
  have "find_up osStat s (render True es) =
      (case first_some (\<lambda>n. find_boundary osStat (render True (take n es)) validWorkspaceBoundaries)
            (rev [1..<Suc (length es)]) of Some r \<Rightarrow> r | None \<Rightarrow> Inl (NotFoundError s))" for s
    using assms
  proof (induction es rule: rev_induct)
    case Nil
    then show ?case by (simp add: render_def find_up.simps)
  next
    case (snoc e es)
    have ok: "dir_names_ok es" using snoc.prems by (simp add: dir_names_ok_def)
    have ne: "render True (es @ [e]) \<noteq> ''.''" by (simp add: render_def)
    have same: "first_some (\<lambda>n. find_boundary osStat (render True (take n (es @ [e]))) validWorkspaceBoundaries)
          (rev [1..<Suc (length es)]) =
        first_some (\<lambda>n. find_boundary osStat (render True (take n es)) validWorkspaceBoundaries) (rev [1..<Suc (length es)])"
      by (rule first_some_cong) auto
    have rng: "rev [1..<Suc (length (es @ [e]))] = Suc (length es) # rev [1..<Suc (length es)]" by simp
    have own: "render True (take (Suc (length es)) (es @ [e])) = render True (es @ [e])" by simp
    have step: "find_up osStat s (render True (es @ [e])) =
        (case find_boundary osStat (render True (es @ [e])) validWorkspaceBoundaries of
           Some r \<Rightarrow> r | None \<Rightarrow> find_up osStat s (render True es))"
      using path_Dir_names [OF snoc.prems, of True] render_shorter [OF snoc.prems, of True] ne
      by (subst find_up.simps) (simp split: option.splits)
    show ?case unfolding step rng first_some.simps own same snoc.IH [OF ok] by (simp split: option.splits)
  qed
  then show ?thesis by (simp add: Find_def)
qed

end
