(* ===== verification/Source_Walk.thy ===== *)
theory Source_Walk
  imports Js_Configure
begin

text \<open>
  The source files of a package (\<open>GetSourceRegularFiles\<close> of \<open>common/walk.go\<close>): its own and those of the
  directories below it that have no BUILD file of their own. The walker is a parameter, as for \<open>WalkHasPath\<close>
  in \<open>Js_Configure\<close>. The goroutines deliver their files in any order, they are sorted afterwards;
  fuel bounds the depth of the directories, and any depth they really have is enough.
\<close>

text \<open>An error below the first directory is ignored: there is nothing there.\<close>

definition info_of :: "dirs \<Rightarrow> string \<Rightarrow> dir_info" where
  "info_of dirs r =
     (case dirs r of Inr d \<Rightarrow> d | Inl _ \<Rightarrow> \<lparr>di_Subdirs = [], di_RegularFiles = [], di_hasFile = False\<rparr>)"

fun collectSourceRegularSubFiles :: "nat \<Rightarrow> dirs \<Rightarrow> string \<Rightarrow> string \<Rightarrow> string list \<Rightarrow> string list option" where
  "collectSourceRegularSubFiles n dirs start rel [] = Some []"
| "collectSourceRegularSubFiles 0 dirs start rel (sd # sds) = None"
| "collectSourceRegularSubFiles (Suc n) dirs start rel (sd # sds) =
     (let sdRel = below rel sd; sdInfo = info_of dirs (start @ sdRel)
      in case collectSourceRegularSubFiles (Suc n) dirs start rel sds of
           None \<Rightarrow> None
         | Some others \<Rightarrow>
           if di_hasFile sdInfo then Some others
           else (case collectSourceRegularSubFiles n dirs start sdRel (di_Subdirs sdInfo) of
                   None \<Rightarrow> None
                 | Some sub \<Rightarrow> Some (map (\<lambda>f. sdRel @ ''/'' @ f) (di_RegularFiles sdInfo) @ sub @ others)))"

definition GetSourceRegularFiles :: "nat \<Rightarrow> dirs \<Rightarrow> string \<Rightarrow> (string + string list) option" where
  "GetSourceRegularFiles n dirs rel =
     (case dirs rel of
        Inl e \<Rightarrow> Some (Inl e)
      | Inr d \<Rightarrow>
        if di_Subdirs d = [] then Some (Inr (di_RegularFiles d))
        else map_option (\<lambda>fs. Inr (SortStrings (di_RegularFiles d @ fs)))
          (collectSourceRegularSubFiles n dirs (if rel \<noteq> '''' then rel @ ''/'' else '''') '''' (di_Subdirs d)))"

section \<open>The files of a package\<close>

text \<open>A path of names leads to a file of the package; directories with a BUILD file are not entered.\<close>

fun in_package :: "dirs \<Rightarrow> string \<Rightarrow> string \<Rightarrow> dir_info \<Rightarrow> string list \<Rightarrow> bool" where
  "in_package dirs start rel d [] = False"
| "in_package dirs start rel d [f] = (f \<in> set (di_RegularFiles d))"
| "in_package dirs start rel d (s # p # ps) =
     (s \<in> set (di_Subdirs d) \<and>
      (let d' = info_of dirs (start @ below rel s)
       in \<not> di_hasFile d' \<and> in_package dirs start (below rel s) d' (p # ps)))"

fun shallow :: "nat \<Rightarrow> dirs \<Rightarrow> string \<Rightarrow> string \<Rightarrow> dir_info \<Rightarrow> bool" where
  "shallow 0 dirs start rel d = (di_Subdirs d = [])"
| "shallow (Suc n) dirs start rel d =
     (\<forall>s \<in> set (di_Subdirs d). let d' = info_of dirs (start @ below rel s)
        in di_hasFile d' \<or> shallow n dirs start (below rel s) d')"

text \<open>No directory has an empty name.\<close>

definition named_dirs :: "dirs \<Rightarrow> bool" where
  "named_dirs dirs \<longleftrightarrow> (\<forall>r. '''' \<notin> set (di_Subdirs (info_of dirs r)))"

lemma below_Join: "s \<noteq> '''' \<Longrightarrow> ps \<noteq> [] \<Longrightarrow> below (below rel s) (Join [slash] ps) = below rel (Join [slash] (s # ps))"
  by (simp add: below_def Join_Cons)

definition sub_files :: "dirs \<Rightarrow> string \<Rightarrow> string \<Rightarrow> string list \<Rightarrow> string set" where
  "sub_files dirs start rel sds =
     {below rel (Join [slash] (s # ps)) |s ps. s \<in> set sds \<and> ps \<noteq> [] \<and> \<not> di_hasFile (info_of dirs (start @ below rel s)) \<and>
        in_package dirs start (below rel s) (info_of dirs (start @ below rel s)) ps}"

lemma sub_files_Cons: "sub_files dirs start rel (s # sds) = sub_files dirs start rel [s] \<union> sub_files dirs start rel sds"
  by (auto simp: sub_files_def)

lemma in_package_split:
  "in_package dirs start rel d ps \<longleftrightarrow>
     (\<exists>f. ps = [f] \<and> f \<in> set (di_RegularFiles d)) \<or>
     (\<exists>s qs. ps = s # qs \<and> qs \<noteq> [] \<and> s \<in> set (di_Subdirs d) \<and> \<not> di_hasFile (info_of dirs (start @ below rel s)) \<and>
        in_package dirs start (below rel s) (info_of dirs (start @ below rel s)) qs)"
  by (cases "(dirs, start, rel, d, ps)" rule: in_package.cases) (auto simp: Let_def)

lemma in_package_paths:
  "(\<exists>ps. P ps \<and> in_package dirs start rel d ps) \<longleftrightarrow>
     (\<exists>f. P [f] \<and> in_package dirs start rel d [f]) \<or>
     (\<exists>q qs. P (q # qs) \<and> qs \<noteq> [] \<and> in_package dirs start rel d (q # qs))"
proof -
  have "ps \<noteq> []" if "in_package dirs start rel d ps" for ps
    using that by (cases ps) auto
  then show ?thesis by (metis neq_Nil_conv)
qed

lemma sub_files_one:
  assumes "s \<noteq> ''''" "\<not> di_hasFile (info_of dirs (start @ below rel s))"
  shows "sub_files dirs start rel [s] =
    (\<lambda>f. below rel s @ ''/'' @ f) ` set (di_RegularFiles (info_of dirs (start @ below rel s))) \<union>
    sub_files dirs start (below rel s) (di_Subdirs (info_of dirs (start @ below rel s)))" (is "?l = ?f \<union> ?r")
proof -
  let ?d = "info_of dirs (start @ below rel s)"
  have one: "below rel (Join [slash] [s, f]) = below rel s @ ''/'' @ f" for f
    by (simp add: below_def)
  have deep: "below rel (Join [slash] (s # q # qs)) = below (below rel s) (Join [slash] (q # qs))" for q qs
    using below_Join [OF assms(1), of "q # qs" rel] by simp
  have "x \<in> ?l \<longleftrightarrow> (\<exists>ps. x = below rel (Join [slash] (s # ps)) \<and> in_package dirs start (below rel s) ?d ps)" for x
    using assms(2) by (auto simp: sub_files_def)
  moreover have "x \<in> ?r \<longleftrightarrow> (\<exists>q qs. x = below rel (Join [slash] (s # q # qs)) \<and> qs \<noteq> [] \<and>
      in_package dirs start (below rel s) ?d (q # qs))" for x
    unfolding deep by (auto simp: sub_files_def in_package_split [of dirs start "below rel s" ?d "_ # _"])
  moreover have "x \<in> ?f \<longleftrightarrow> (\<exists>f. x = below rel (Join [slash] [s, f]) \<and> in_package dirs start (below rel s) ?d [f])" for x
    unfolding one by auto
  moreover have "(\<exists>ps. P ps \<and> in_package dirs start (below rel s) ?d ps) \<longleftrightarrow>
      (\<exists>f. P [f] \<and> in_package dirs start (below rel s) ?d [f]) \<or>
      (\<exists>q qs. P (q # qs) \<and> qs \<noteq> [] \<and> in_package dirs start (below rel s) ?d (q # qs))" for P
    by (rule in_package_paths)
  ultimately show ?thesis by (intro set_eqI) (simp only: Un_iff)
qed

lemma collect_found:
  assumes "named_dirs dirs" "'''' \<notin> set sds"
    and "\<forall>s \<in> set sds. di_hasFile (info_of dirs (start @ below rel s)) \<or>
      shallow n dirs start (below rel s) (info_of dirs (start @ below rel s))"
  shows "\<exists>fs. collectSourceRegularSubFiles (Suc n) dirs start rel sds = Some fs \<and> set fs = sub_files dirs start rel sds"
  using assms(2,3)
proof (induction n arbitrary: rel sds)
  case n: 0
  then show ?case
  proof (induction sds)
    case Nil
    then show ?case by (simp add: sub_files_def)
  next
    case (Cons s sds)
    then obtain fs where fs: "collectSourceRegularSubFiles (Suc 0) dirs start rel sds = Some fs"
        "set fs = sub_files dirs start rel sds" by auto
    show ?case
    proof (cases "di_hasFile (info_of dirs (start @ below rel s))")
      case True
      then have "sub_files dirs start rel [s] = {}" by (simp add: sub_files_def)
      with True fs show ?thesis by (simp add: sub_files_Cons [of dirs start rel s sds] Let_def)
    next
      case False
      have "s \<noteq> ''''" using Cons.prems by auto
      note one = sub_files_one [OF this False]
      have "di_Subdirs (info_of dirs (start @ below rel s)) = []" using False Cons.prems by auto
      then have "sub_files dirs start (below rel s) (di_Subdirs (info_of dirs (start @ below rel s))) = {}"
        "di_Subdirs (info_of dirs (start @ below rel s)) = []"
        by (simp_all add: sub_files_def)
      with False fs one show ?thesis by (simp add: sub_files_Cons [of dirs start rel s sds] Let_def)
    qed
  qed
next
  case (Suc n)
  from Suc.prems show ?case
  proof (induction sds)
    case Nil
    then show ?case by (simp add: sub_files_def)
  next
    case (Cons s sds)
    then obtain fs where fs: "collectSourceRegularSubFiles (Suc (Suc n)) dirs start rel sds = Some fs"
        "set fs = sub_files dirs start rel sds" by auto
    let ?d = "info_of dirs (start @ below rel s)"
    show ?case
    proof (cases "di_hasFile ?d")
      case True
      then have "sub_files dirs start rel [s] = {}" by (simp add: sub_files_def)
      with True fs show ?thesis by (simp add: sub_files_Cons [of dirs start rel s sds] Let_def)
    next
      case False
      have "s \<noteq> ''''" using Cons.prems by auto
      note one = sub_files_one [OF this False]
      have "'''' \<notin> set (di_Subdirs ?d)" using assms(1) by (simp add: named_dirs_def)
      moreover have "shallow (Suc n) dirs start (below rel s) ?d" using False Cons.prems(2) by auto
      ultimately obtain sub where "collectSourceRegularSubFiles (Suc n) dirs start (below rel s) (di_Subdirs ?d) = Some sub"
          "set sub = sub_files dirs start (below rel s) (di_Subdirs ?d)"
        using Suc.IH [of "di_Subdirs ?d" "below rel s"] by (auto simp: Let_def)
      with False fs one show ?thesis
        by (simp add: sub_files_Cons [of dirs start rel s sds] Let_def Un_assoc)
    qed
  qed
qed

text \<open>
  The source files of a directory are exactly the files reached from it through directories without a
  BUILD file, sorted when there are such directories, for any fuel that is not less than their depth.
\<close>

lemma source_files_found:
  assumes "named_dirs dirs" "dirs rel = Inr d"
    and "shallow (Suc n) dirs (if rel \<noteq> '''' then rel @ ''/'' else '''') '''' d"
  shows "\<exists>fs. GetSourceRegularFiles (Suc n) dirs rel = Some (Inr fs) \<and>
    set fs = {Join [slash] ps |ps. in_package dirs (if rel \<noteq> '''' then rel @ ''/'' else '''') '''' d ps} \<and>
    (di_Subdirs d \<noteq> [] \<longrightarrow> fs = SortStrings fs)"
proof -
  let ?start = "if rel \<noteq> '''' then rel @ ''/'' else ''''"
  have d: "info_of dirs rel = d" using assms(2) by (simp add: info_of_def)
  have "'''' \<notin> set (di_Subdirs d)" using assms(1) d unfolding named_dirs_def by metis
  then obtain fs where fs: "collectSourceRegularSubFiles (Suc n) dirs ?start '''' (di_Subdirs d) = Some fs"
      "set fs = sub_files dirs ?start '''' (di_Subdirs d)"
    using collect_found [OF assms(1), of "di_Subdirs d" ?start "''''" n] assms(3) by (auto simp: Let_def)
  have all: "{Join [slash] ps |ps. in_package dirs ?start '''' d ps} =
      set (di_RegularFiles d) \<union> sub_files dirs ?start '''' (di_Subdirs d)" (is "?l = ?r")
  proof (intro set_eqI iffI)
    fix x assume "x \<in> ?l"
    then obtain ps where x: "x = Join [slash] ps" and "in_package dirs ?start '''' d ps" by blast
    then consider (one) f where "ps = [f]" "f \<in> set (di_RegularFiles d)"
      | (more) s qs where "ps = s # qs" "qs \<noteq> []" "s \<in> set (di_Subdirs d)"
        "\<not> di_hasFile (info_of dirs (?start @ below '''' s))"
        "in_package dirs ?start (below '''' s) (info_of dirs (?start @ below '''' s)) qs"
      unfolding in_package_split [of dirs ?start "''''" d] by blast
    then show "x \<in> ?r"
    proof cases
      case one
      with x show ?thesis by simp
    next
      case more
      have "x = below '''' (Join [slash] (s # qs))" using x more(1) by (simp add: below_def)
      with more(2-) have "x \<in> sub_files dirs ?start '''' (di_Subdirs d)" unfolding sub_files_def by blast
      then show ?thesis ..
    qed
  next
    fix x assume "x \<in> ?r"
    then consider (reg) "x \<in> set (di_RegularFiles d)" | (deep) "x \<in> sub_files dirs ?start '''' (di_Subdirs d)" by blast
    then show "x \<in> ?l"
    proof cases
      case reg
      then have "x = Join [slash] [x] \<and> in_package dirs ?start '''' d [x]" by simp
      then show ?thesis by blast
    next
      case deep
      then obtain s qs where "x = Join [slash] (s # qs)" "in_package dirs ?start '''' d (s # qs)"
        by (auto simp: sub_files_def below_def in_package_split [of dirs ?start "''''" d])
      then show ?thesis by blast
    qed
  qed
  show ?thesis
  proof (cases "di_Subdirs d = []")
    case True
    then have "sub_files dirs ?start '''' (di_Subdirs d) = {}" by (simp add: sub_files_def)
    with True all assms(2) show ?thesis by (simp add: GetSourceRegularFiles_def)
  next
    case False
    have "GetSourceRegularFiles (Suc n) dirs rel = Some (Inr (SortStrings (di_RegularFiles d @ fs)))"
      using False fs(1) assms(2) by (simp add: GetSourceRegularFiles_def)
    moreover have "set (SortStrings (di_RegularFiles d @ fs)) = set (di_RegularFiles d) \<union> set fs"
      by (simp add: SortStrings_def)
    ultimately show ?thesis unfolding all fs(2) [symmetric] by simp
  qed
qed

end
