(* ===== verification/Js_Parser.thy ===== *)
theory Js_Parser
  imports Prelude "HOL-Library.Word"
begin

text \<open>
  The results of the parser of JavaScript (\<open>language/js/parser/parser.go\<close>): decoding the buffer that the
  parser, a library in Rust (\<open>language/js/crates/js-parser/src/lib.rs\<close>), returns, and how that library
  encodes it. Here the parser is a parameter that gives a buffer for a path and a source, or none.
\<close>

unbundle bit_operations_syntax

section \<open>The reader\<close>

record byteReader =
  br_b :: string
  br_off :: nat

datatype read_error = EndOfUint32 nat | EndOfString "32 word" nat

definition Uint32 :: "string \<Rightarrow> 32 word" where
  "Uint32 b =
     of_char (b ! 0) OR push_bit 8 (of_char (b ! 1)) OR push_bit 16 (of_char (b ! 2)) OR push_bit 24 (of_char (b ! 3))"

definition u32 :: "byteReader \<Rightarrow> read_error + (32 word \<times> byteReader)" where
  "u32 r =
     (if br_off r + 4 > length (br_b r) then Inl (EndOfUint32 (br_off r))
      else Inr (Uint32 (drop (br_off r) (br_b r)), r\<lparr>br_off := br_off r + 4\<rparr>))"

text \<open>The loop of \<open>stringList\<close>, with the number of strings to come.\<close>

fun read_strings :: "nat \<Rightarrow> byteReader \<Rightarrow> read_error + (string list \<times> byteReader)" where
  "read_strings 0 r = Inr ([], r)"
| "read_strings (Suc k) r =
     (case u32 r of
        Inl err \<Rightarrow> Inl err
      | Inr (n, r1) \<Rightarrow>
          if br_off r1 + unat n > length (br_b r1) then Inl (EndOfString n (br_off r1))
          else
            (let x = take (unat n) (drop (br_off r1) (br_b r1))
             in case read_strings k (r1\<lparr>br_off := br_off r1 + unat n\<rparr>) of
                  Inl err \<Rightarrow> Inl err
                | Inr (out, r2) \<Rightarrow> Inr (x # out, r2)))"

definition stringList :: "byteReader \<Rightarrow> read_error + (string list \<times> byteReader)" where
  "stringList r =
     (case u32 r of
        Inl err \<Rightarrow> Inl err
      | Inr (n, r1) \<Rightarrow> if n = 0 then Inr ([], r1) else read_strings (unat n) r1)"

section \<open>Results\<close>

record ParseResult =
  prs_Imports :: "string list"
  prs_JSXImports :: "string list"
  prs_URLImports :: "string list"
  prs_Modules :: "string list"
  prs_Errors :: "string list"

datatype decode_error = InList string read_error | TrailingBytes nat nat

definition labelled :: "string \<Rightarrow> byteReader \<Rightarrow> decode_error + (string list \<times> byteReader)" where
  "labelled what r = (case stringList r of Inl err \<Rightarrow> Inl (InList what err) | Inr x \<Rightarrow> Inr x)"

definition decodeParseResult :: "string \<Rightarrow> decode_error + ParseResult" where
  "decodeParseResult b =
     (case labelled ''imports'' \<lparr>br_b = b, br_off = 0\<rparr> of Inl err \<Rightarrow> Inl err | Inr (is, r1) \<Rightarrow>
      case labelled ''jsx imports'' r1 of Inl err \<Rightarrow> Inl err | Inr (js, r2) \<Rightarrow>
      case labelled ''url imports'' r2 of Inl err \<Rightarrow> Inl err | Inr (us, r3) \<Rightarrow>
      case labelled ''modules'' r3 of Inl err \<Rightarrow> Inl err | Inr (ms, r4) \<Rightarrow>
      case labelled ''errors'' r4 of Inl err \<Rightarrow> Inl err | Inr (es, r5) \<Rightarrow>
        if br_off r5 \<noteq> length (br_b r5) then Inl (TrailingBytes (br_off r5) (length (br_b r5)))
        else Inr \<lparr>prs_Imports = is, prs_JSXImports = js, prs_URLImports = us, prs_Modules = ms, prs_Errors = es\<rparr>)"

datatype parse_error = ReturnedNull string | DecodingResult string decode_error

text \<open>
  \<open>C.GoBytes\<close> copies as many bytes of the buffer as its second argument says; the length of the buffer, a
  \<open>size_t\<close>, is narrowed to a C \<open>int\<close> of 32 bits for it, and a negative number panics.
\<close>

definition C_int :: "nat \<Rightarrow> int" where
  "C_int n = sint (word_of_nat n :: 32 word)"

definition GoBytes :: "string \<Rightarrow> int \<Rightarrow> string outcome" where
  "GoBytes buf n =
     (if n < 0 then Inl (Panic ''gobytes: length out of range'') else Inr (take (nat n) buf))"

definition ParseSource ::
  "(string \<Rightarrow> string \<Rightarrow> string option) \<Rightarrow> string \<Rightarrow> string \<Rightarrow> (parse_error + ParseResult) outcome" where
  "ParseSource js_parser_parse filePath sourceCode =
     (case js_parser_parse filePath sourceCode of
        None \<Rightarrow> Inr (Inl (ReturnedNull filePath))
      | Some buf \<Rightarrow>
          (case GoBytes buf (C_int (length buf)) of
             Inl e \<Rightarrow> Inl e
           | Inr encoded \<Rightarrow>
             (case decodeParseResult encoded of
                Inl err \<Rightarrow> Inr (Inl (DecodingResult filePath err))
              | Inr result \<Rightarrow> Inr (Inr result))))"

lemma C_int_eq: "C_int n = (int n + 2 ^ 31) mod 2 ^ 32 - 2 ^ 31"
proof -
  have "C_int n = sint (word_of_int (int n) :: 32 word)" by (simp add: C_int_def)
  then have "C_int n = signed_take_bit 31 (int n)" by (simp only: sint_sbintrunc') simp
  then show ?thesis by (simp add: signed_take_bit_eq_take_bit_shift take_bit_eq_mod)
qed

lemma C_int_small: "n < 2 ^ 31 \<Longrightarrow> C_int n = int n"
  by (simp add: C_int_eq)

lemma GoBytes_all: "length buf < 2 ^ 31 \<Longrightarrow> GoBytes buf (C_int (length buf)) = Inr buf"
  by (simp only: C_int_small GoBytes_def) simp

text \<open>A buffer of two gibibytes or more, up to four, is not copied but panics.\<close>

lemma GoBytes_panics:
  assumes "2 ^ 31 \<le> length buf" "length buf < 2 ^ 32"
  shows "GoBytes buf (C_int (length buf)) = Inl (Panic ''gobytes: length out of range'')"
proof -
  have "(int (length buf) + 2 ^ 31) mod 2 ^ 32 = int (length buf) + 2 ^ 31 - 2 ^ 32"
    using assms by (simp add: mod_pos_geq)
  with assms(2) show ?thesis by (simp add: GoBytes_def C_int_eq)
qed

section \<open>The encoding\<close>

text \<open>\<open>encode\<close> of the library: a number is its four lowest bytes, the lowest first; a string its length and its bytes; a list its length and its strings.\<close>

definition enc_u32 :: "nat \<Rightarrow> string" where
  "enc_u32 n = [char_of n, char_of (n div 2 ^ 8), char_of (n div 2 ^ 16), char_of (n div 2 ^ 24)]"

definition enc_string :: "string \<Rightarrow> string" where
  "enc_string s = enc_u32 (length s) @ s"

definition enc_list :: "string list \<Rightarrow> string" where
  "enc_list xs = enc_u32 (length xs) @ concat (map enc_string xs)"

definition encodeParseResult :: "ParseResult \<Rightarrow> string" where
  "encodeParseResult p =
     enc_list (prs_Imports p) @ enc_list (prs_JSXImports p) @ enc_list (prs_URLImports p) @
     enc_list (prs_Modules p) @ enc_list (prs_Errors p)"

text \<open>What 32 bits can count.\<close>

definition list_fits :: "string list \<Rightarrow> bool" where
  "list_fits xs \<longleftrightarrow> length xs < 2 ^ 32 \<and> (\<forall>x \<in> set xs. length x < 2 ^ 32)"

definition result_fits :: "ParseResult \<Rightarrow> bool" where
  "result_fits p \<longleftrightarrow>
     list_fits (prs_Imports p) \<and> list_fits (prs_JSXImports p) \<and> list_fits (prs_URLImports p) \<and>
     list_fits (prs_Modules p) \<and> list_fits (prs_Errors p)"

section \<open>Reading what was written\<close>

lemma length_enc_u32 [simp]: "length (enc_u32 n) = 4"
  by (simp add: enc_u32_def)

lemma or_push: "x < 2 ^ k \<Longrightarrow> x OR push_bit k y = x + 2 ^ k * (y :: nat)"
proof -
  assume "x < 2 ^ k"
  then have x: "take_bit k x = x" by (simp add: take_bit_nat_eq_self_iff)
  have "x AND push_bit k y = 0" by (subst x [symmetric]) (auto simp: bit_eq_iff bit_simps)
  then have "x OR push_bit k y = x + push_bit k y" by (simp add: disjunctive_add_eq_or)
  then show ?thesis by (simp add: push_bit_eq_mult mult.commute)
qed

lemma unat_of_char [simp]: "unat (of_char c :: 32 word) = of_char c"
proof -
  have "(of_char c :: 32 word) = word_of_nat (of_char c)" by (simp only: of_nat_of_char)
  moreover have "(of_char c :: nat) < 2 ^ 32" by (rule less_trans [of _ 256]) simp_all
  ultimately show ?thesis by (simp only: unsigned_of_nat) (simp add: take_bit_nat_eq_self_iff)
qed

lemma Uint32_value:
  "unat (Uint32 (a # b # c # d # s)) = of_char a + 256 * (of_char b + 256 * (of_char c + 256 * of_char d))"
proof -
  have byte: "(of_char x :: nat) < 2 ^ 8" for x by simp
  have low: "take_bit 32 (push_bit k (of_char x :: nat)) = push_bit k (of_char x)" if "k \<le> 24" for k x
  proof -
    have "(of_char x :: nat) * 2 ^ k \<le> of_char x * 2 ^ 24" using that by (intro mult_left_mono power_increasing) auto
    also have "\<dots> < 2 ^ 8 * 2 ^ 24" using byte by (intro mult_strict_right_mono) auto
    finally show ?thesis by (simp add: take_bit_nat_eq_self_iff push_bit_eq_mult)
  qed
  have "unat (Uint32 (a # b # c # d # s)) =
      of_char a OR push_bit 8 (of_char b) OR push_bit 16 (of_char c) OR push_bit 24 (of_char d)"
    by (simp add: Uint32_def unsigned_or_eq unsigned_push_bit_eq low)
  also have "\<dots> = of_char a OR push_bit 8 (of_char b OR push_bit 8 (of_char c OR push_bit 8 (of_char d)))"
    by (simp add: push_bit_or or.assoc)
  finally show ?thesis by (simp only: or_push [OF byte]) simp
qed

lemma digit_split: "(a :: nat) < 256 \<Longrightarrow> a + 256 * m = n \<longleftrightarrow> a = n mod 256 \<and> m = n div 256"
  by auto

lemma last_digit: "(a :: nat) < 256 \<Longrightarrow> a = k \<longleftrightarrow> a = k mod 256 \<and> k < 256"
  by auto

lemma Uint32_iff: "unat (Uint32 (a # b # c # d # s)) = n \<longleftrightarrow> [a, b, c, d] = enc_u32 n \<and> n < 2 ^ 32"
proof -
  have same: "x = char_of k \<longleftrightarrow> of_char x = k mod (256 :: nat)" for x k
    using char_of_eq_iff [of k x] by (auto simp: take_bit_eq_mod)
  have lt: "(of_char x :: nat) < 256" for x by simp
  have "unat (Uint32 (a # b # c # d # s)) = n \<longleftrightarrow>
      of_char a = n mod 256 \<and> of_char b = n div 256 mod 256 \<and> of_char c = n div 256 div 256 mod 256 \<and>
      of_char d = n div 256 div 256 div 256 mod 256 \<and> n div 256 div 256 div 256 < 256"
    by (simp only: Uint32_value digit_split [OF lt] last_digit [OF lt, of d "n div 256 div 256 div 256"])
  moreover have "n div 256 div 256 div 256 < 256 \<longleftrightarrow> n < 2 ^ 32"
    by (simp add: div_less_iff_less_mult flip: div_mult2_eq)
  ultimately show ?thesis
    by (auto simp add: enc_u32_def same div_mult2_eq [symmetric])
qed

section \<open>What a read consumes\<close>

definition consumes :: "byteReader \<Rightarrow> string \<Rightarrow> byteReader \<Rightarrow> bool" where
  "consumes r c r' \<longleftrightarrow> br_off r \<le> length (br_b r) \<and>
     (\<exists>s. drop (br_off r) (br_b r) = c @ s) \<and> r' = r\<lparr>br_off := br_off r + length c\<rparr>"

lemma consumes_Nil: "consumes r [] r' \<longleftrightarrow> br_off r \<le> length (br_b r) \<and> r' = r"
  by (auto simp: consumes_def)

lemma consumes_off: "consumes r c r' \<Longrightarrow> br_b r' = br_b r \<and> br_off r' \<le> length (br_b r')"
proof -
  assume "consumes r c r'"
  then obtain s where h: "br_off r \<le> length (br_b r)" "drop (br_off r) (br_b r) = c @ s"
    "r' = r\<lparr>br_off := br_off r + length c\<rparr>" by (auto simp: consumes_def)
  from h(2) have "length (br_b r) - br_off r = length c + length s" by (metis length_append length_drop)
  with h(1,3) show ?thesis by simp
qed

lemma consumes_within: "consumes r c r' \<Longrightarrow> br_off r' \<le> length (br_b r')"
  by (drule consumes_off) blast

lemma consumes_append: "consumes r (c @ d) r'' \<longleftrightarrow> (\<exists>r'. consumes r c r' \<and> consumes r' d r'')"
proof
  assume "consumes r (c @ d) r''"
  then obtain s where h: "br_off r \<le> length (br_b r)" "drop (br_off r) (br_b r) = c @ d @ s"
    "r'' = r\<lparr>br_off := br_off r + length (c @ d)\<rparr>" by (auto simp: consumes_def)
  let ?r = "r\<lparr>br_off := br_off r + length c\<rparr>"
  have first: "consumes r c ?r" using h by (auto simp: consumes_def)
  have "drop (br_off r + length c) (br_b r) = d @ s"
    using h(2) by (metis add.commute append_eq_conv_conj drop_drop)
  then have "consumes ?r d r''" using h(3) consumes_off [OF first] by (auto simp: consumes_def add.assoc)
  with first show "\<exists>r'. consumes r c r' \<and> consumes r' d r''" by blast
next
  assume "\<exists>r'. consumes r c r' \<and> consumes r' d r''"
  then obtain s t where h: "br_off r \<le> length (br_b r)" "drop (br_off r) (br_b r) = c @ s"
    "drop (br_off r + length c) (br_b r) = d @ t" "r'' = r\<lparr>br_off := br_off r + length c + length d\<rparr>"
    by (auto simp: consumes_def)
  then have "s = d @ t" by (metis add.commute append_eq_conv_conj drop_drop)
  with h show "consumes r (c @ d) r''" by (auto simp: consumes_def add.assoc)
qed

lemma four_bytes: "4 \<le> length s \<Longrightarrow> \<exists>a b c d t. s = a # b # c # d # t"
  by (auto simp: numeral_eq_Suc Suc_le_length_iff)

lemma u32_iff:
  assumes "br_off r \<le> length (br_b r)"
  shows "u32 r = Inr (w, r') \<longleftrightarrow> consumes r (enc_u32 (unat w)) r'"
proof (cases "br_off r + 4 \<le> length (br_b r)")
  case True
  then have "4 \<le> length (drop (br_off r) (br_b r))" by simp
  then obtain a b c d t where s: "drop (br_off r) (br_b r) = a # b # c # d # t" using four_bytes by blast
  have bound: "unat w < 2 ^ 32" using unsigned_less [of w] by simp
  have "w = Uint32 (a # b # c # d # t) \<longleftrightarrow> [a, b, c, d] = enc_u32 (unat w)"
    using Uint32_iff [of a b c d t "unat w"] bound by (metis unsigned_word_eqI)
  moreover have "(\<exists>s. a # b # c # d # t = enc_u32 (unat w) @ s) \<longleftrightarrow> [a, b, c, d] = enc_u32 (unat w)"
    by (auto simp: enc_u32_def)
  ultimately show ?thesis using True assms s by (auto simp: u32_def consumes_def)
next
  case False
  have "\<not> consumes r (enc_u32 (unat w)) r'"
  proof
    assume h: "consumes r (enc_u32 (unat w)) r'"
    then have "br_off r' = br_off r + 4" by (auto simp: consumes_def)
    with consumes_off [OF h] False show False by (elim conjE) simp
  qed
  with False show ?thesis by (simp add: u32_def)
qed

lemma read_strings_iff:
  assumes "br_off r \<le> length (br_b r)"
  shows "read_strings k r = Inr (xs, r') \<longleftrightarrow>
    length xs = k \<and> (\<forall>x \<in> set xs. length x < 2 ^ 32) \<and> consumes r (concat (map enc_string xs)) r'"
  using assms
proof (induction k arbitrary: r xs)
  case 0
  then show ?case by (auto simp: consumes_Nil)
next
  case (Suc k)
  show ?case
  proof
    assume h: "read_strings (Suc k) r = Inr (xs, r')"
    then obtain n r1 where r1: "u32 r = Inr (n, r1)" by (auto split: sum.splits)
    let ?x = "take (unat n) (drop (br_off r1) (br_b r1))"
    let ?r2 = "r1\<lparr>br_off := br_off r1 + unat n\<rparr>"
    have c1: "consumes r (enc_u32 (unat n)) r1" using r1 Suc.prems by (simp add: u32_iff)
    from h r1 obtain out where le: "br_off r1 + unat n \<le> length (br_b r1)"
      and out: "read_strings k ?r2 = Inr (out, r')" "xs = ?x # out"
      by (auto simp: Let_def split: if_splits sum.splits)
    have len: "length ?x = unat n" using le by simp
    have "drop (br_off r1) (br_b r1) = ?x @ drop (unat n) (drop (br_off r1) (br_b r1))"
      by (simp only: append_take_drop_id)
    then have c2: "consumes r1 ?x ?r2" unfolding consumes_def using consumes_off [OF c1] len by metis
    have "length ?x < 2 ^ 32" using len unsigned_less [of n] by simp
    moreover have IH: "length out = k \<and> (\<forall>x \<in> set out. length x < 2 ^ 32) \<and> consumes ?r2 (concat (map enc_string out)) r'"
      using Suc.IH [of ?r2 out] out(1) le by simp
    moreover have "consumes r (enc_u32 (unat n) @ ?x @ concat (map enc_string out)) r'"
      unfolding consumes_append using c1 c2 IH by blast
    then have "consumes r (concat (map enc_string xs)) r'"
      by (simp only: out(2) list.map concat.simps enc_string_def [of ?x] len append_assoc)
    ultimately show "length xs = Suc k \<and> (\<forall>x \<in> set xs. length x < 2 ^ 32) \<and> consumes r (concat (map enc_string xs)) r'"
      using out(2) by simp
  next
    assume h: "length xs = Suc k \<and> (\<forall>x \<in> set xs. length x < 2 ^ 32) \<and> consumes r (concat (map enc_string xs)) r'"
    then obtain x out where xs: "xs = x # out" by (cases xs) auto
    with h obtain r1 r2 where c: "consumes r (enc_u32 (length x)) r1" "consumes r1 x r2"
      "consumes r2 (concat (map enc_string out)) r'"
      by (auto simp: enc_string_def consumes_append)
    have n: "unat (word_of_nat (length x) :: 32 word) = length x"
      using h xs by (simp add: unsigned_of_nat take_bit_nat_eq_self_iff)
    then have u: "u32 r = Inr (word_of_nat (length x), r1)" using c(1) Suc.prems by (simp add: u32_iff)
    from c(2) have "take (length x) (drop (br_off r1) (br_b r1)) = x" "r2 = r1\<lparr>br_off := br_off r1 + length x\<rparr>"
      by (auto simp: consumes_def)
    moreover have "br_off r1 + length x \<le> length (br_b r1)"
      using consumes_off [OF c(2)] calculation(2) by simp
    moreover have "read_strings k r2 = Inr (out, r')"
      using Suc.IH [of r2 out] consumes_off [OF c(2)] c(3) h xs by auto
    ultimately show "read_strings (Suc k) r = Inr (xs, r')" using u n xs by (simp add: Let_def)
  qed
qed

lemma stringList_iff:
  assumes "br_off r \<le> length (br_b r)"
  shows "stringList r = Inr (xs, r') \<longleftrightarrow> list_fits xs \<and> consumes r (enc_list xs) r'"
proof -
  have all: "stringList r = (case u32 r of Inl err \<Rightarrow> Inl err | Inr (n, r1) \<Rightarrow> read_strings (unat n) r1)"
    by (auto simp: stringList_def split: sum.splits)
  show ?thesis
  proof
    assume "stringList r = Inr (xs, r')"
    then obtain n r1 where h: "u32 r = Inr (n, r1)" "read_strings (unat n) r1 = Inr (xs, r')"
      unfolding all by (auto split: sum.splits)
    have c: "consumes r (enc_u32 (unat n)) r1" using h(1) assms by (simp add: u32_iff)
    with h(2) read_strings_iff [of r1 "unat n" xs r'] consumes_off [OF c] unsigned_less [of n]
    show "list_fits xs \<and> consumes r (enc_list xs) r'" by (auto simp: list_fits_def enc_list_def consumes_append)
  next
    assume h: "list_fits xs \<and> consumes r (enc_list xs) r'"
    then obtain r1 where c: "consumes r (enc_u32 (length xs)) r1" "consumes r1 (concat (map enc_string xs)) r'"
      by (auto simp: enc_list_def consumes_append)
    have n: "unat (word_of_nat (length xs) :: 32 word) = length xs"
      using h by (simp add: list_fits_def unsigned_of_nat take_bit_nat_eq_self_iff)
    then have "u32 r = Inr (word_of_nat (length xs), r1)" using c(1) assms by (simp add: u32_iff)
    moreover have "read_strings (length xs) r1 = Inr (xs, r')"
      using read_strings_iff [of r1 "length xs" xs r'] consumes_off [OF c(1)] c(2) h by (auto simp: list_fits_def)
    ultimately show "stringList r = Inr (xs, r')" unfolding all by (simp add: n)
  qed
qed

lemma labelled_iff:
  "br_off r \<le> length (br_b r) \<Longrightarrow> labelled what r = Inr (xs, r') \<longleftrightarrow> list_fits xs \<and> consumes r (enc_list xs) r'"
  using stringList_iff [of r xs r'] by (auto simp: labelled_def split: sum.splits)

lemma bind_Inr:
  "(case m of Inl e \<Rightarrow> Inl e | Inr (x, y) \<Rightarrow> f x y) = Inr z \<longleftrightarrow> (\<exists>x y. m = Inr (x, y) \<and> f x y = Inr z)"
  by (cases m) auto

lemma accept_Inr: "(if c then Inl e else Inr x) = Inr z \<longleftrightarrow> \<not> c \<and> x = z"
  by auto

lemma decode_iff:
  "decodeParseResult b = Inr p \<longleftrightarrow> b = encodeParseResult p \<and> result_fits p"
proof -
  let ?r = "\<lparr>br_b = b, br_off = 0\<rparr>"
  have start: "br_off ?r \<le> length (br_b ?r)" by simp
  have whole: "b = c \<longleftrightarrow> (\<exists>r'. consumes ?r c r' \<and> br_off r' = length (br_b r'))" for c
    by (auto simp: consumes_def)
  have "decodeParseResult b = Inr p \<longleftrightarrow>
    (\<exists>r1. labelled ''imports'' ?r = Inr (prs_Imports p, r1) \<and>
      (\<exists>r2. labelled ''jsx imports'' r1 = Inr (prs_JSXImports p, r2) \<and>
        (\<exists>r3. labelled ''url imports'' r2 = Inr (prs_URLImports p, r3) \<and>
          (\<exists>r4. labelled ''modules'' r3 = Inr (prs_Modules p, r4) \<and>
            (\<exists>r5. labelled ''errors'' r4 = Inr (prs_Errors p, r5) \<and> br_off r5 = length (br_b r5))))))"
    by (cases p) (auto simp: decodeParseResult_def bind_Inr accept_Inr)
  also have "\<dots> \<longleftrightarrow> result_fits p \<and> (\<exists>r5. consumes ?r (encodeParseResult p) r5 \<and> br_off r5 = length (br_b r5))"
    unfolding encodeParseResult_def result_fits_def consumes_append
    by (simp add: labelled_iff consumes_within cong: conj_cong) blast
  finally show ?thesis unfolding whole by blast
qed

text \<open>
  C9 (roundtrip). The decoder accepts exactly the documented encodings: a buffer decodes to a result when,
  and only when, it is the encoding of that result, with lists and strings that 32 bits can count. So every
  result sent is received as it was, no other buffer, however it is cut or extended, is accepted, and no
  result has two encodings.
\<close>

theorem parse_result_roundtrip:
  "decodeParseResult b = Inr p \<longleftrightarrow> b = encodeParseResult p \<and> result_fits p"
  by (rule decode_iff)

end
