(* ===== verification/Star_Load.thy ===== *)
theory Star_Load
  imports Orion_Host
begin

text \<open>
  Evaluating a plugin file and the modules it loads (\<open>language/orion/starlark/eval.go\<close>). The interpreter,
  a third-party library, is a parameter: what executing a file does, as far as this code sees it, is a tree
  of the modules it loads and the calls it makes to the host. Each loader is the function the code makes;
  nested loads are bounded by fuel.
\<close>

section \<open>Programs\<close>

datatype ('c, 'g) star_program =
    Globals 'g
  | Fails string
  | LoadThen string "'g \<Rightarrow> ('c, 'g) star_program"
  | CallThen 'c "('c, 'g) star_program"

datatype load_error =
    InvalidLabel string
  | RepositoryLoad string
  | CycleInLoadGraph
  | ExecFails string
  | CannotLoad string load_error

record ('g, 'h) eval_state =
  ev_cache :: "string \<rightharpoonup> (load_error + 'g) option"
  ev_host :: 'h
  ev_ran :: "string list"

text \<open>
  \<open>ev_cache\<close> has no value for a module whose loading is in progress. \<open>ev_ran\<close> is no part of the
  program: it lists the modules executed.

  A failed load or call ends the execution. A call can also stop the process.
\<close>

primrec run_program ::
  "(string \<Rightarrow> 's \<Rightarrow> ((load_error + 'g) \<times> 's) outcome) \<Rightarrow> ('c \<Rightarrow> 's \<Rightarrow> (string + 's) outcome) \<Rightarrow>
   ('c, 'g) star_program \<Rightarrow> 's \<Rightarrow> ((load_error + 'g) \<times> 's) outcome" where
  "run_program loader call (Globals g) s = Inr (Inr g, s)"
| "run_program loader call (Fails err) s = Inr (Inl (ExecFails err), s)"
| "run_program loader call (LoadThen module k) s =
     (case loader module s of
        Inl e \<Rightarrow> Inl e
      | Inr (Inl err, s') \<Rightarrow> Inr (Inl (CannotLoad module err), s')
      | Inr (Inr g, s') \<Rightarrow> run_program loader call (k g) s')"
| "run_program loader call (CallThen c k) s =
     (case call c s of
        Inl e \<Rightarrow> Inl e
      | Inr (Inl err) \<Rightarrow> Inr (Inl (ExecFails err), s)
      | Inr (Inr s') \<Rightarrow> run_program loader call k s')"

section \<open>Loaders\<close>

text \<open>
  The thread of a module has no locals: a call to the host looks for the state of the plugin there, finds
  nil and panics on its type.
\<close>

definition module_call :: "'c \<Rightarrow> 's \<Rightarrow> (string + 's) outcome" where
  "module_call c s = Inl (Panic ''interface conversion: interface is nil'')"

text \<open>\<open>makeLoadOptions\<close>; the loader given is the one of the thread.\<close>

definition makeLoadOptions ::
  "(string \<Rightarrow> ('c, 'g) star_program) \<Rightarrow> (string \<Rightarrow> ('g, 'h) eval_state \<Rightarrow> ((load_error + 'g) \<times> ('g, 'h) eval_state) outcome) \<Rightarrow>
   string \<Rightarrow> ('g, 'h) eval_state \<Rightarrow> ((load_error + 'g) \<times> ('g, 'h) eval_state) outcome" where
  "makeLoadOptions execFile threadLoad module s =
     (case ev_cache s module of
        Some None \<Rightarrow> Inr (Inl CycleInLoadGraph, s)
      | Some (Some e) \<Rightarrow> Inr (e, s)
      | None \<Rightarrow>
          (case run_program threadLoad module_call (execFile module)
                  (s\<lparr>ev_cache := (ev_cache s)(module \<mapsto> None), ev_ran := ev_ran s @ [module]\<rparr>) of
             Inl e \<Rightarrow> Inl e
           | Inr (e, s') \<Rightarrow> Inr (e, s'\<lparr>ev_cache := (ev_cache s')(module \<mapsto> Some e)\<rparr>)))"

text \<open>\<open>label.Parse\<close> is a parameter.\<close>

definition resolve_module :: "(string \<Rightarrow> label option) \<Rightarrow> string \<Rightarrow> string \<Rightarrow> load_error + string" where
  "resolve_module parse rootDir module =
     (case parse module of
        None \<Rightarrow> Inl (InvalidLabel module)
      | Some moduleLabel \<Rightarrow>
          if Repo moduleLabel \<noteq> '''' then Inl (RepositoryLoad module)
          else Inr (path_join [rootDir, Pkg moduleLabel, Name moduleLabel]))"

definition createRepoLoader ::
  "(string \<Rightarrow> label option) \<Rightarrow> string \<Rightarrow> (string \<Rightarrow> 's \<Rightarrow> ((load_error + 'g) \<times> 's) outcome) \<Rightarrow>
   string \<Rightarrow> 's \<Rightarrow> ((load_error + 'g) \<times> 's) outcome" where
  "createRepoLoader parse rootDir loader module s =
     (case resolve_module parse rootDir module of
        Inl err \<Rightarrow> Inr (Inl err, s)
      | Inr modulePath \<Rightarrow> loader modulePath s)"

text \<open>The loader of all threads, for so many nested loads.\<close>

primrec thread_loader ::
  "nat \<Rightarrow> (string \<Rightarrow> label option) \<Rightarrow> string \<Rightarrow> (string \<Rightarrow> ('c, 'g) star_program) \<Rightarrow> string \<Rightarrow>
   ('g, 'h) eval_state \<Rightarrow> ((load_error + 'g) \<times> ('g, 'h) eval_state) outcome" where
  "thread_loader 0 parse rootDir execFile = createRepoLoader parse rootDir (\<lambda>module s. Inl OutOfFuel)"
| "thread_loader (Suc n) parse rootDir execFile =
     createRepoLoader parse rootDir (makeLoadOptions execFile (thread_loader n parse rootDir execFile))"

text \<open>The names a file can use besides the language: a library replaces one of the same name.\<close>

definition predeclared :: "'v \<Rightarrow> 'v \<Rightarrow> (string \<rightharpoonup> 'v) \<Rightarrow> string \<rightharpoonup> 'v" where
  "predeclared pathModule jsonModule libs = [''path'' \<mapsto> pathModule, ''json'' \<mapsto> jsonModule] ++ libs"

definition Eval ::
  "nat \<Rightarrow> (string \<Rightarrow> label option) \<Rightarrow> ((string \<rightharpoonup> 'v) \<Rightarrow> string \<Rightarrow> ('c, 'g) star_program) \<Rightarrow> 'v \<Rightarrow> 'v \<Rightarrow> ('c \<Rightarrow> 'h \<Rightarrow> (string + 'h) outcome) \<Rightarrow>
   string \<Rightarrow> string \<Rightarrow> (string \<rightharpoonup> 'v) \<Rightarrow> 'h \<Rightarrow> ((load_error + 'g) \<times> ('g, 'h) eval_state) outcome" where
  "Eval n parse execFile pathModule jsonModule call rootDir starpath libs h =
     (let run = execFile (predeclared pathModule jsonModule libs)
      in run_program (thread_loader n parse rootDir run)
           (\<lambda>c s. map_sum id (map_sum id (\<lambda>h'. s\<lparr>ev_host := h'\<rparr>)) (call c (ev_host s)))
           (run (path_join [rootDir, starpath]))
           \<lparr>ev_cache = Map.empty, ev_host = h, ev_ran = []\<rparr>)"

text \<open>The calls of a plugin file (\<open>LoadProxy\<close>): registering a kind or a plugin with the host.\<close>

definition proxy_call :: "string \<Rightarrow> 'f host_call \<Rightarrow> 'f host \<Rightarrow> (string + 'f host) outcome" where
  "proxy_call pluginPath c h =
     (case c of
        CallKind name attributes \<Rightarrow> host_addKind pluginPath name attributes h
      | CallPlugin p properties \<Rightarrow> Inr (host_addPlugin p properties h))"

text \<open>A file that only makes calls does to the host what its list of calls does.\<close>

lemma eval_calls_program:
  "map_sum id (\<lambda>(r, s). ev_host s)
     (run_program ld (\<lambda>c s. map_sum id (map_sum id (\<lambda>h'. s\<lparr>ev_host := h'\<rparr>)) (proxy_call path c (ev_host s)))
        (foldr CallThen calls (Globals g)) s) = eval_calls path calls (ev_host s)"
proof (induction path calls "ev_host s" arbitrary: s rule: eval_calls.induct)
  case (2 path name attributes calls)
  then show ?case by (auto simp: proxy_call_def split: sum.splits)
next
  case (3 path p properties calls)
  then show ?case by (auto simp: proxy_call_def split: sum.splits)
qed simp

section \<open>Every module once\<close>

text \<open>What a computation keeps: it does not run out of fuel, and its state satisfies the invariant.\<close>

definition ends_in :: "('s \<Rightarrow> bool) \<Rightarrow> ('r \<times> 's) outcome \<Rightarrow> bool" where
  "ends_in I r \<longleftrightarrow> r \<noteq> Inl OutOfFuel \<and> (\<forall>x s. r = Inr (x, s) \<longrightarrow> I s)"

lemma ends_in_simps [simp]:
  "ends_in I (Inl e) \<longleftrightarrow> e \<noteq> OutOfFuel" "ends_in I (Inr (x, s)) \<longleftrightarrow> I s"
  by (auto simp: ends_in_def)

definition call_keeps :: "('s \<Rightarrow> bool) \<Rightarrow> ('c \<Rightarrow> 's \<Rightarrow> (string + 's) outcome) \<Rightarrow> bool" where
  "call_keeps I call \<longleftrightarrow> (\<forall>c s. I s \<longrightarrow> call c s \<noteq> Inl OutOfFuel \<and> (\<forall>s'. call c s = Inr (Inr s') \<longrightarrow> I s'))"

lemma run_program_inv:
  assumes "\<And>m s. I s \<Longrightarrow> ends_in I (loader m s)" "call_keeps I call" "I s"
  shows "ends_in I (run_program loader call p s)"
  using assms(3)
proof (induction p arbitrary: s)
  case (LoadThen m k)
  from assms(1) [OF LoadThen.prems, of m] LoadThen.IH [OF rangeI] show ?case
    by (auto split: sum.splits prod.splits)
next
  case (CallThen c p)
  with assms(2) show ?case by (auto simp: call_keeps_def split: sum.splits)
qed auto

definition extends :: "('g, 'h) eval_state \<Rightarrow> ('g, 'h) eval_state \<Rightarrow> bool" where
  "extends s s' \<longleftrightarrow> (\<exists>new. ev_ran s' = ev_ran s @ new \<and> distinct new \<and> set new \<inter> dom (ev_cache s) = {} \<and>
     dom (ev_cache s') = dom (ev_cache s) \<union> set new \<and> (\<forall>p \<in> set new. ev_cache s' p \<noteq> Some None) \<and>
     (\<forall>p \<in> dom (ev_cache s). ev_cache s' p = ev_cache s p))"

lemma extends_refl: "extends s s"
  by (auto simp: extends_def)

lemma extends_trans: "extends s s' \<Longrightarrow> extends s' s'' \<Longrightarrow> extends s s''"
proof -
  assume "extends s s'"
  then obtain n1 where n1: "ev_ran s' = ev_ran s @ n1" "distinct n1" "set n1 \<inter> dom (ev_cache s) = {}"
    "dom (ev_cache s') = dom (ev_cache s) \<union> set n1" "\<forall>p \<in> set n1. ev_cache s' p \<noteq> Some None"
    "\<forall>p \<in> dom (ev_cache s). ev_cache s' p = ev_cache s p" unfolding extends_def by blast
  assume "extends s' s''"
  then obtain n2 where n2: "ev_ran s'' = ev_ran s' @ n2" "distinct n2" "set n2 \<inter> dom (ev_cache s') = {}"
    "dom (ev_cache s'') = dom (ev_cache s') \<union> set n2" "\<forall>p \<in> set n2. ev_cache s'' p \<noteq> Some None"
    "\<forall>p \<in> dom (ev_cache s'). ev_cache s'' p = ev_cache s' p" unfolding extends_def by blast
  show ?thesis unfolding extends_def
    by (intro exI [of _ "n1 @ n2"] conjI) (use n1 n2 in \<open>auto\<close>)
qed

lemma extends_module:
  assumes "extends (s\<lparr>ev_cache := (ev_cache s)(p \<mapsto> None), ev_ran := ev_ran s @ [p]\<rparr>) s'" "ev_cache s p = None"
  shows "extends s (s'\<lparr>ev_cache := (ev_cache s')(p \<mapsto> Some e)\<rparr>)"
proof -
  from assms(1) obtain new where new: "ev_ran s' = (ev_ran s @ [p]) @ new" "distinct new"
    "set new \<inter> insert p (dom (ev_cache s)) = {}" "dom (ev_cache s') = insert p (dom (ev_cache s)) \<union> set new"
    "\<forall>q \<in> set new. ev_cache s' q \<noteq> Some None"
    "\<forall>q \<in> insert p (dom (ev_cache s)). ev_cache s' q = ((ev_cache s)(p \<mapsto> None)) q"
    unfolding extends_def by (simp add: Un_assoc) blast
  have "p \<notin> dom (ev_cache s)" using assms(2) by auto
  then show ?thesis unfolding extends_def
    by (intro exI [of _ "p # new"] conjI) (use new in \<open>auto split: if_splits\<close>)
qed

lemma module_call_keeps: "call_keeps I module_call"
  by (simp add: call_keeps_def module_call_def)

lemma host_call_keeps:
  assumes "\<forall>c h. call c h \<noteq> Inl OutOfFuel"
  shows "call_keeps (extends s0) (\<lambda>c s. map_sum id (map_sum id (\<lambda>h'. s\<lparr>ev_host := h'\<rparr>)) (call c (ev_host s)))"
proof -
  have "map_sum id (map_sum id (\<lambda>h'. s\<lparr>ev_host := h'\<rparr>)) (call c (ev_host s)) \<noteq> Inl OutOfFuel" for c s
    using assms [rule_format, of c "ev_host s"] by (cases "call c (ev_host s)") auto
  moreover have "extends s0 s'"
    if ext: "extends s0 s" and res: "map_sum id (map_sum id (\<lambda>h'. s\<lparr>ev_host := h'\<rparr>)) (call c (ev_host s)) = Inr (Inr s')" for c s s'
  proof -
    obtain h' where "s' = s\<lparr>ev_host := h'\<rparr>"
      using res by (cases "call c (ev_host s)"; cases "projr (call c (ev_host s))") auto
    with ext show ?thesis by (simp add: extends_def)
  qed
  ultimately show ?thesis unfolding call_keeps_def by blast
qed

lemma thread_loader_ends:
  assumes "finite F" "\<forall>p. p \<notin> F \<longrightarrow> (\<exists>e. run p = Fails e)" "card (F - dom (ev_cache s)) < n"
  shows "ends_in (extends s) (thread_loader n parse rootDir run m s)"
  using assms(3)
proof (induction n arbitrary: m s)
  case (Suc n)
  show ?case
  proof (cases "resolve_module parse rootDir m")
    case (Inr p)
    let ?s = "s\<lparr>ev_cache := (ev_cache s)(p \<mapsto> None), ev_ran := ev_ran s @ [p]\<rparr>"
    let ?r = "run_program (thread_loader n parse rootDir run) module_call (run p) ?s"
    have "ends_in (extends ?s) ?r" if "ev_cache s p = None"
    proof (cases "p \<in> F")
      case True
      have keep: "ends_in (extends ?s) (thread_loader n parse rootDir run m s')" if "extends ?s s'" for m s'
      proof -
        have "F - dom (ev_cache s') \<subset> F - dom (ev_cache s)"
          using True \<open>ev_cache s p = None\<close> \<open>extends ?s s'\<close> unfolding extends_def by auto
        then have "card (F - dom (ev_cache s')) < card (F - dom (ev_cache s))"
          using assms(1) by (intro psubset_card_mono) auto
        with Suc.prems have "ends_in (extends s') (thread_loader n parse rootDir run m s')" by (intro Suc.IH) simp
        with that show ?thesis by (auto simp: ends_in_def intro: extends_trans)
      qed
      show ?thesis by (rule run_program_inv [OF keep module_call_keeps extends_refl])
    next
      case False
      then obtain e where "run p = Fails e" using assms(2) by blast
      then show ?thesis by (simp add: extends_refl)
    qed
    then have "ends_in (extends s) (makeLoadOptions run (thread_loader n parse rootDir run) p s)"
      by (auto simp: makeLoadOptions_def extends_refl extends_module split: option.splits sum.splits)
    with Inr show ?thesis by (simp add: createRepoLoader_def)
  qed (simp add: createRepoLoader_def extends_refl)
qed simp

text \<open>
  C12 (termination). Evaluating a plugin file ends, whatever it and the modules load: when the files that can
  be executed are the finitely many of F, as many nested loads as there are files are enough. No module is
  executed twice, all that were are in the cache with their results, and none is left in progress.
\<close>

theorem evaluation_ends:
  assumes "finite F" "\<forall>p. p \<notin> F \<longrightarrow> (\<exists>e. execFile (predeclared pathModule jsonModule libs) p = Fails e)" "card F < n"
    and "\<forall>c h. call c h \<noteq> Inl OutOfFuel"
  shows "Eval n parse execFile pathModule jsonModule call rootDir starpath libs h \<noteq> Inl OutOfFuel \<and>
    (\<forall>r s. Eval n parse execFile pathModule jsonModule call rootDir starpath libs h = Inr (r, s) \<longrightarrow>
       distinct (ev_ran s) \<and> dom (ev_cache s) = set (ev_ran s) \<and> (\<forall>p. ev_cache s p \<noteq> Some None))"
proof -
  let ?run = "execFile (predeclared pathModule jsonModule libs)"
  let ?s = "\<lparr>ev_cache = Map.empty, ev_host = h, ev_ran = []\<rparr>"
  let ?call = "\<lambda>c s. map_sum id (map_sum id (\<lambda>h'. s\<lparr>ev_host := h'\<rparr>)) (call c (ev_host s))"
  have keep: "ends_in (extends ?s) (thread_loader n parse rootDir ?run m s)" if "extends ?s s" for m s
  proof -
    have "card (F - dom (ev_cache s)) < n" using assms(1,3) by (meson card_mono Diff_subset le_less_trans)
    from thread_loader_ends [OF assms(1,2) this] that show ?thesis
      by (auto simp: ends_in_def intro: extends_trans)
  qed
  from run_program_inv [OF keep host_call_keeps [OF assms(4)] extends_refl]
  have "ends_in (extends ?s) (Eval n parse execFile pathModule jsonModule call rootDir starpath libs h)"
    by (simp add: Eval_def Let_def)
  then show ?thesis by (auto simp: ends_in_def extends_def)
qed

definition example_files :: "(string \<rightharpoonup> unit) \<Rightarrow> string \<Rightarrow> (string, nat) star_program" where
  "example_files env p =
     (if p = ''/r/p.axl'' then LoadThen ''//lib:a'' (\<lambda>x. LoadThen ''//lib:b'' (\<lambda>y. CallThen ''kind'' (Globals (x + y))))
      else if p = ''/r/lib/a'' then LoadThen ''//lib:b'' (\<lambda>y. Globals (y + 10))
      else if p = ''/r/lib/b'' then Globals 1
      else Fails ''no such file'')"

definition example_parse :: "string \<Rightarrow> label option" where
  "example_parse m =
     (if m = ''//lib:a'' then Some (Label '''' ''lib'' ''a'' False)
      else if m = ''//lib:b'' then Some (Label '''' ''lib'' ''b'' False) else None)"

lemma example_paths:
  "path_join [''/r'', ''lib'', ''a''] = ''/r/lib/a''" "path_join [''/r'', ''lib'', ''b''] = ''/r/lib/b''"
  "path_join [''/r'', ''p.axl''] = ''/r/p.axl''"
  by code_simp+

lemma example_run:
  "Eval 4 example_parse example_files () () (\<lambda>c h. Inr (Inr (h @ [c]))) ''/r'' ''p.axl'' Map.empty [] =
     Inr (Inr 12, \<lparr>ev_cache = [''/r/lib/a'' \<mapsto> Some (Inr 11), ''/r/lib/b'' \<mapsto> Some (Inr 1)], ev_host = [''kind''],
                    ev_ran = [''/r/lib/a'', ''/r/lib/b'']\<rparr>)"
  by (simp add: Eval_def Let_def example_files_def example_parse_def example_paths createRepoLoader_def resolve_module_def
      makeLoadOptions_def numeral_eq_Suc fun_upd_twist)

theorem evaluation_ends_witness:
  "\<exists>r s. Eval 4 example_parse example_files () () (\<lambda>c h. Inr (Inr (h @ [c]))) ''/r'' ''p.axl'' Map.empty [] = Inr (r, s) \<and>
     distinct (ev_ran s) \<and> dom (ev_cache s) = set (ev_ran s) \<and> length (ev_ran s) = 2"
  using evaluation_ends [of "{''/r/p.axl'', ''/r/lib/a'', ''/r/lib/b''}" example_files "()" "()" Map.empty 4
      "\<lambda>c h. Inr (Inr (h @ [c]))" example_parse "''/r''" "''p.axl''" "[]"] example_run
  by (auto simp: example_files_def)

section \<open>The cache is invisible\<close>

text \<open>The modules a program can load.\<close>

primrec loads :: "('c, 'g) star_program \<Rightarrow> string set" where
  "loads (Globals g) = {}"
| "loads (Fails err) = {}"
| "loads (LoadThen m k) = insert m (\<Union>g. loads (k g))"
| "loads (CallThen c k) = loads k"

text \<open>Loading with no cache: every load executes the module.\<close>

definition plain :: "(string \<Rightarrow> (load_error + 'g) outcome) \<Rightarrow> string \<Rightarrow> 's \<Rightarrow> ((load_error + 'g) \<times> 's) outcome" where
  "plain ld m h = map_sum id (\<lambda>r. (r, h)) (ld m)"

primrec uncached ::
  "nat \<Rightarrow> (string \<Rightarrow> load_error + string) \<Rightarrow> (string \<Rightarrow> ('c, 'g) star_program) \<Rightarrow> string \<Rightarrow> (load_error + 'g) outcome" where
  "uncached 0 res run m = (case res m of Inl err \<Rightarrow> Inr (Inl err) | Inr p \<Rightarrow> Inl OutOfFuel)"
| "uncached (Suc n) res run m =
     (case res m of
        Inl err \<Rightarrow> Inr (Inl err)
      | Inr p \<Rightarrow> map_sum id fst (run_program (plain (uncached n res run)) module_call (run p) ()))"

text \<open>No module loads itself, directly or not: what it loads has a smaller rank.\<close>

definition ranked :: "(string \<Rightarrow> load_error + string) \<Rightarrow> (string \<Rightarrow> ('c, 'g) star_program) \<Rightarrow> (string \<Rightarrow> nat) \<Rightarrow> bool" where
  "ranked res run rank \<longleftrightarrow> (\<forall>p. \<forall>m \<in> loads (run p). \<forall>q. res m = Inr q \<longrightarrow> rank q < rank p)"

lemma run_program_cong: "\<forall>m \<in> loads p. loader m = loader' m \<Longrightarrow> run_program loader call p s = run_program loader' call p s"
proof (induction p arbitrary: s)
  case (LoadThen m k)
  then have "run_program loader call (k g) s = run_program loader' call (k g) s" for g s by auto
  with LoadThen.prems show ?case by (auto split: sum.splits)
qed (auto split: sum.splits)

lemma plain_simps:
  "ld m = Inl e \<Longrightarrow> plain ld m h = Inl e" "ld m = Inr r \<Longrightarrow> plain ld m h = Inr (r, h)"
  by (simp_all add: plain_def)

lemma plain_run: "run_program (plain ld) module_call p h = map_sum id (\<lambda>(r, _). (r, h)) (run_program (plain ld) module_call p ())"
proof (induction p)
  case (LoadThen m k)
  have "run_program (plain ld) module_call (k g) h = map_sum id (\<lambda>(r, _). (r, h)) (run_program (plain ld) module_call (k g) ())" for g
    using LoadThen [OF rangeI] .
  then show ?case by (cases "ld m"; cases "projr (ld m)") (auto simp: plain_simps id_def)
qed (auto simp: module_call_def)

lemma uncached_fuel:
  assumes "ranked res run rank" "\<And>q. res m = Inr q \<Longrightarrow> rank q < n \<and> rank q < n'"
  shows "uncached n res run m = uncached n' res run m"
  using assms(2)
proof (induction n arbitrary: n' m)
  case 0
  then show ?case by (cases n'; cases "res m") auto
next
  case (Suc n)
  show ?case
  proof (cases "res m")
    case (Inl e)
    then show ?thesis by (cases n') auto
  next
    case (Inr q)
    with Suc.prems obtain k where k: "n' = Suc k" "rank q \<le> n" "rank q \<le> k" by (cases n') fastforce+
    have "uncached n res run l = uncached k res run l" if "l \<in> loads (run q)" for l
    proof (rule Suc.IH)
      fix q' assume "res l = Inr q'"
      with assms(1) that have "rank q' < rank q" unfolding ranked_def by blast
      with k show "rank q' < n \<and> rank q' < k" by simp
    qed
    then have "run_program (plain (uncached n res run)) module_call (run q) () =
        run_program (plain (uncached k res run)) module_call (run q) ()"
      by (intro run_program_cong) (simp add: plain_def fun_eq_iff)
    with Inr k show ?thesis by simp
  qed
qed

definition module_result ::
  "nat \<Rightarrow> (string \<Rightarrow> load_error + string) \<Rightarrow> (string \<Rightarrow> ('c, 'g) star_program) \<Rightarrow> string \<Rightarrow> (load_error + 'g) outcome" where
  "module_result n res run p = map_sum id fst (run_program (plain (uncached n res run)) module_call (run p) ())"

lemma module_result_fuel:
  assumes "ranked res run rank" "rank p \<le> n" "rank p \<le> n'"
  shows "module_result n res run p = module_result n' res run p"
proof -
  have "uncached n res run m = uncached n' res run m" if "m \<in> loads (run p)" for m
    by (rule uncached_fuel [OF assms(1)]) (use assms that in \<open>fastforce simp: ranked_def\<close>)
  then have "run_program (plain (uncached n res run)) module_call (run p) () =
      run_program (plain (uncached n' res run)) module_call (run p) ()"
    by (intro run_program_cong) (simp add: plain_def fun_eq_iff)
  then show ?thesis by (simp add: module_result_def)
qed

text \<open>The results in the cache are those of executing the modules again.\<close>

definition cache_right ::
  "(string \<Rightarrow> load_error + string) \<Rightarrow> (string \<Rightarrow> ('c, 'g) star_program) \<Rightarrow> (string \<Rightarrow> nat) \<Rightarrow> ('g, 'h) eval_state \<Rightarrow> bool" where
  "cache_right res run rank s \<longleftrightarrow>
     (\<forall>p e k. ev_cache s p = Some (Some e) \<longrightarrow> rank p \<le> k \<longrightarrow> module_result k res run p = Inr e)"

definition same_pending :: "('g, 'h) eval_state \<Rightarrow> ('g, 'h) eval_state \<Rightarrow> bool" where
  "same_pending s s' \<longleftrightarrow> (\<forall>p. ev_cache s' p = Some None \<longleftrightarrow> ev_cache s p = Some None)"

definition agrees ::
  "(('g, 'h) eval_state \<Rightarrow> bool) \<Rightarrow> ('r \<times> ('g, 'h) eval_state) outcome \<Rightarrow> ('r \<times> 'h) outcome \<Rightarrow> bool" where
  "agrees I r r' \<longleftrightarrow> (case r' of Inl e \<Rightarrow> r = Inl e | Inr (x, h) \<Rightarrow> \<exists>s. r = Inr (x, s) \<and> ev_host s = h \<and> I s)"

definition on_host :: "('c \<Rightarrow> 'h \<Rightarrow> (string + 'h) outcome) \<Rightarrow> 'c \<Rightarrow> ('g, 'h) eval_state \<Rightarrow> (string + ('g, 'h) eval_state) outcome" where
  "on_host call c s = map_sum id (map_sum id (\<lambda>h'. s\<lparr>ev_host := h'\<rparr>)) (call c (ev_host s))"

lemma on_host_module_call: "on_host module_call = module_call"
  by (intro ext) (simp add: on_host_def module_call_def)

lemma program_agrees:
  assumes "\<And>m s. m \<in> loads p \<Longrightarrow> I s \<Longrightarrow> agrees I (loader m s) (plain ld m (ev_host s))"
    and "\<And>s h. I s \<Longrightarrow> I (s\<lparr>ev_host := h\<rparr>)" "I s"
  shows "agrees I (run_program loader (on_host call) p s) (run_program (plain ld) call p (ev_host s))"
  using assms(1,3)
proof (induction p arbitrary: s)
  case (LoadThen m k)
  have load: "agrees I (loader m s) (plain ld m (ev_host s))" using LoadThen.prems by auto
  have rest: "agrees I (run_program loader (on_host call) (k g) s') (run_program (plain ld) call (k g) (ev_host s'))"
    if "I s'" for g s'
    using LoadThen.IH [OF rangeI _ that] LoadThen.prems(1) by auto
  show ?case
  proof (cases "ld m")
    case (Inl e)
    with load show ?thesis by (simp add: agrees_def plain_simps)
  next
    case (Inr r)
    with load obtain s' where "loader m s = Inr (r, s')" "ev_host s' = ev_host s" "I s'"
      by (auto simp: agrees_def plain_simps)
    with Inr rest [of s'] show ?thesis by (cases r) (auto simp: agrees_def plain_simps)
  qed
next
  case (CallThen c p)
  show ?case
  proof (cases "call c (ev_host s)")
    case (Inr r)
    with CallThen.IH [of "s\<lparr>ev_host := h\<rparr>" for h] CallThen.prems assms(2) show ?thesis
      by (cases r) (auto simp: on_host_def agrees_def)
  qed (simp add: on_host_def agrees_def)
qed (auto simp: agrees_def)

lemma loader_agrees:
  assumes ranked: "ranked (resolve_module parse rootDir) run rank"
    and "cache_right (resolve_module parse rootDir) run rank s"
    and "\<And>q. resolve_module parse rootDir m = Inr q \<Longrightarrow> rank q < n \<and> (\<forall>p. ev_cache s p = Some None \<longrightarrow> rank q < rank p)"
  shows "agrees (\<lambda>s'. cache_right (resolve_module parse rootDir) run rank s' \<and> same_pending s s')
    (thread_loader n parse rootDir run m s) (plain (uncached n (resolve_module parse rootDir) run) m (ev_host s))"
  using assms(2,3)
proof (induction n arbitrary: m s)
  case 0
  then show ?case
    by (cases "resolve_module parse rootDir m") (auto simp: createRepoLoader_def agrees_def plain_def same_pending_def)
next
  case (Suc n)
  let ?res = "resolve_module parse rootDir"
  let ?right = "cache_right ?res run rank"
  show ?case
  proof (cases "?res m")
    case (Inl e)
    with Suc.prems(1) show ?thesis by (auto simp: createRepoLoader_def agrees_def plain_def same_pending_def)
  next
    case (Inr q)
    have unc: "uncached (Suc n) ?res run m = module_result n ?res run q" using Inr by (simp add: module_result_def)
    have q: "rank q \<le> n" using Suc.prems(2) [OF Inr] by simp
    consider (pending) "ev_cache s q = Some None" | (cached) e where "ev_cache s q = Some (Some e)" | (new) "ev_cache s q = None"
      by (metis option.exhaust)
    then show ?thesis
    proof cases
      case pending
      with Suc.prems(2) [OF Inr] show ?thesis by blast
    next
      case cached
      then have "module_result n ?res run q = Inr e" using Suc.prems(1) q by (auto simp: cache_right_def)
      with cached Inr Suc.prems(1) unc show ?thesis
        by (simp add: createRepoLoader_def makeLoadOptions_def agrees_def plain_def same_pending_def)
    next
      case new
      let ?s = "s\<lparr>ev_cache := (ev_cache s)(q \<mapsto> None), ev_ran := ev_ran s @ [q]\<rparr>"
      let ?I = "\<lambda>s'. ?right s' \<and> same_pending ?s s'"
      have deeper: "agrees ?I (thread_loader n parse rootDir run l s') (plain (uncached n ?res run) l (ev_host s'))"
        if l: "l \<in> loads (run q)" and s': "?I s'" for l s'
      proof -
        have "agrees (\<lambda>s''. ?right s'' \<and> same_pending s' s'') (thread_loader n parse rootDir run l s')
            (plain (uncached n ?res run) l (ev_host s'))"
        proof (rule Suc.IH)
          fix q' assume "?res l = Inr q'"
          with ranked l have less: "rank q' < rank q" by (auto simp: ranked_def)
          have "rank q' < rank p" if "ev_cache s' p = Some None" for p
            using that s' Suc.prems(2) [OF Inr] less by (auto simp: same_pending_def split: if_splits)
          with less q show "rank q' < n \<and> (\<forall>p. ev_cache s' p = Some None \<longrightarrow> rank q' < rank p)" by auto
        qed (use s' in simp)
        then show ?thesis using s' unfolding agrees_def same_pending_def by (auto split: sum.splits)
      qed
      have "?I ?s" using Suc.prems(1) by (auto simp: cache_right_def same_pending_def)
      then have "agrees ?I (run_program (thread_loader n parse rootDir run) (on_host module_call) (run q) ?s)
          (run_program (plain (uncached n ?res run)) module_call (run q) (ev_host ?s))"
        by (intro program_agrees deeper) (auto simp: cache_right_def same_pending_def)
      moreover have "run_program (plain (uncached n ?res run)) module_call (run q) (ev_host s) =
          plain (\<lambda>_. module_result n ?res run q) m (ev_host s)"
        unfolding plain_run [of "uncached n ?res run" "run q" "ev_host s"] module_result_def plain_def
        by (cases "run_program (\<lambda>m h. map_sum id (\<lambda>r. (r, h)) (uncached n ?res run m)) module_call (run q) ()") auto
      ultimately have run: "agrees ?I (run_program (thread_loader n parse rootDir run) module_call (run q) ?s)
          (plain (\<lambda>_. module_result n ?res run q) m (ev_host s))"
        by (simp add: on_host_module_call)
      show ?thesis
      proof (cases "module_result n ?res run q")
        case (Inl e)
        with run new Inr unc show ?thesis
          by (simp add: agrees_def plain_simps createRepoLoader_def makeLoadOptions_def)
      next
        case res: (Inr e)
        with run obtain s2 where s2: "run_program (thread_loader n parse rootDir run) module_call (run q) ?s = Inr (e, s2)"
          "ev_host s2 = ev_host s" "?right s2" "same_pending ?s s2" by (auto simp: agrees_def plain_simps)
        have "?right (s2\<lparr>ev_cache := (ev_cache s2)(q \<mapsto> Some e)\<rparr>)"
          using s2(3) module_result_fuel [OF ranked _ q] res by (auto simp: cache_right_def)
        moreover have "same_pending s (s2\<lparr>ev_cache := (ev_cache s2)(q \<mapsto> Some e)\<rparr>)"
          using s2(4) new by (auto simp: same_pending_def split: if_splits)
        ultimately show ?thesis using s2 new Inr unc res
          by (simp add: agrees_def plain_def createRepoLoader_def makeLoadOptions_def)
      qed
    qed
  qed
qed

lemma file_agrees:
  assumes ranked: "ranked (resolve_module parse rootDir) run rank" and p: "rank p \<le> n"
    and "cache_right (resolve_module parse rootDir) run rank s" and idle: "\<forall>p. ev_cache s p \<noteq> Some None"
  shows "agrees (\<lambda>s'. cache_right (resolve_module parse rootDir) run rank s' \<and> same_pending s s')
    (run_program (thread_loader n parse rootDir run) (on_host call) (run p) s)
    (run_program (plain (uncached n (resolve_module parse rootDir) run)) call (run p) (ev_host s))"
proof (rule program_agrees)
  fix m s'
  assume m: "m \<in> loads (run p)" and s': "cache_right (resolve_module parse rootDir) run rank s' \<and> same_pending s s'"
  have less: "rank q < n" if "resolve_module parse rootDir m = Inr q" for q
    using ranked m that p by (fastforce simp: ranked_def)
  have "agrees (\<lambda>s''. cache_right (resolve_module parse rootDir) run rank s'' \<and> same_pending s' s'')
      (thread_loader n parse rootDir run m s') (plain (uncached n (resolve_module parse rootDir) run) m (ev_host s'))"
    by (intro loader_agrees [OF ranked]) (use s' idle less in \<open>auto simp: same_pending_def\<close>)
  then show "agrees (\<lambda>s'. cache_right (resolve_module parse rootDir) run rank s' \<and> same_pending s s')
      (thread_loader n parse rootDir run m s') (plain (uncached n (resolve_module parse rootDir) run) m (ev_host s'))"
    using s' unfolding agrees_def same_pending_def by (auto split: sum.splits)
qed (use assms in \<open>auto simp: cache_right_def same_pending_def\<close>)


text \<open>Evaluating a file with no cache of modules.\<close>

definition Eval_uncached ::
  "nat \<Rightarrow> (string \<Rightarrow> label option) \<Rightarrow> ((string \<rightharpoonup> 'v) \<Rightarrow> string \<Rightarrow> ('c, 'g) star_program) \<Rightarrow> 'v \<Rightarrow> 'v \<Rightarrow> ('c \<Rightarrow> 'h \<Rightarrow> (string + 'h) outcome) \<Rightarrow>
   string \<Rightarrow> string \<Rightarrow> (string \<rightharpoonup> 'v) \<Rightarrow> 'h \<Rightarrow> ((load_error + 'g) \<times> 'h) outcome" where
  "Eval_uncached n parse execFile pathModule jsonModule call rootDir starpath libs h =
     (let run = execFile (predeclared pathModule jsonModule libs)
      in run_program (plain (uncached n (resolve_module parse rootDir) run)) call (run (path_join [rootDir, starpath])) h)"

text \<open>
  C11 (refinement). When no file loads itself, directly or through others, the cache of modules and the
  detection of cycles cannot be noticed: evaluating a plugin file gives the result, the error or the end of
  the process, and leaves the host as it is left, when every load executes its module anew.
\<close>

theorem modules_as_uncached:
  assumes "ranked (resolve_module parse rootDir) (execFile (predeclared pathModule jsonModule libs)) rank"
    and "rank (path_join [rootDir, starpath]) \<le> n"
  shows "map_sum id (\<lambda>(r, s). (r, ev_host s)) (Eval n parse execFile pathModule jsonModule call rootDir starpath libs h) =
    Eval_uncached n parse execFile pathModule jsonModule call rootDir starpath libs h"
proof -
  have "agrees (\<lambda>s'. cache_right (resolve_module parse rootDir) (execFile (predeclared pathModule jsonModule libs)) rank s' \<and>
        same_pending \<lparr>ev_cache = Map.empty, ev_host = h, ev_ran = []\<rparr> s')
      (Eval n parse execFile pathModule jsonModule call rootDir starpath libs h)
      (Eval_uncached n parse execFile pathModule jsonModule call rootDir starpath libs h)"
    using file_agrees [OF assms, of "\<lparr>ev_cache = Map.empty, ev_host = h, ev_ran = []\<rparr>" call]
    by (simp add: Eval_def Eval_uncached_def Let_def on_host_def [abs_def] cache_right_def)
  then show ?thesis by (auto simp: agrees_def split: sum.splits)
qed

theorem modules_as_uncached_witness:
  "map_sum id (\<lambda>(r, s). (r, ev_host s))
     (Eval 4 example_parse example_files () () (\<lambda>c h. Inr (Inr (h @ [c]))) ''/r'' ''p.axl'' Map.empty []) = Inr (Inr 12, [''kind'']) \<and>
   Eval_uncached 4 example_parse example_files () () (\<lambda>c h. Inr (Inr (h @ [c]))) ''/r'' ''p.axl'' Map.empty [] = Inr (Inr 12, [''kind''])"
proof -
  let ?rank = "\<lambda>p. if p = ''/r/p.axl'' then 2 else if p = ''/r/lib/a'' then 1 else (0 :: nat)"
  have "ranked (resolve_module example_parse ''/r'') (example_files (predeclared () () Map.empty)) ?rank"
    by (auto simp: ranked_def example_files_def resolve_module_def example_parse_def example_paths split: if_splits)
  from modules_as_uncached [of example_parse "''/r''" example_files "()" "()" Map.empty ?rank "''p.axl''" 4
      "\<lambda>c h. Inr (Inr (h @ [c]))" "[]", OF this] example_run
  show ?thesis by (simp add: example_paths)
qed

text \<open>
  The file evaluated is not in the cache itself: a module that loads it executes it again, and only that
  second execution is told of the cycle.
\<close>

lemma root_runs_again:
  "Eval 5 (\<lambda>m. Some (Label '''' '''' m False)) (\<lambda>env p. LoadThen (if p = ''/r/p'' then ''a'' else ''p'') Globals) () ()
     (\<lambda>c h. Inr (Inr (c :: unit))) ''/r'' ''p'' Map.empty () =
   Inr (Inl (CannotLoad ''a'' (CannotLoad ''p'' (CannotLoad ''a'' CycleInLoadGraph))),
     \<lparr>ev_cache = [''/r/a'' \<mapsto> Some (Inl (CannotLoad ''p'' (CannotLoad ''a'' CycleInLoadGraph))),
                  ''/r/p'' \<mapsto> Some (Inl (CannotLoad ''a'' (CycleInLoadGraph)))],
      ev_host = (), ev_ran = [''/r/a'', ''/r/p'']\<rparr>)"
proof -
  have "path_join [''/r'', '''', ''a''] = ''/r/a''" "path_join [''/r'', '''', ''p''] = ''/r/p''" "path_join [''/r'', ''p''] = ''/r/p''"
    by code_simp+
  then show ?thesis
    by (simp add: Eval_def Let_def createRepoLoader_def resolve_module_def makeLoadOptions_def numeral_eq_Suc fun_upd_twist)
qed

text \<open>A module of a package that names its neighbour by a relative label loads a file of the root instead.\<close>

lemma relative_load_at_root:
  "parse m = Some (Label '''' '''' f True) \<Longrightarrow> resolve_module parse rootDir m = Inr (path_join [rootDir, '''', f])"
  by (simp add: resolve_module_def)

text \<open>A module that registers a kind or a plugin ends the process.\<close>

lemma registration_in_module_panics:
  assumes "resolve_module parse rootDir m = Inr p" "ev_cache s p = None" "run p = CallThen c k"
  shows "thread_loader (Suc n) parse rootDir run m s = Inl (Panic ''interface conversion: interface is nil'')"
  using assms by (simp add: createRepoLoader_def makeLoadOptions_def module_call_def)

section \<open>The module path\<close>

text \<open>
  The functions of the module given to plugin code (\<open>starlark/stdlib/path.go\<close>). Each takes its arguments and
  the named ones. One that takes a path takes one argument, of any type, and panics on what is no string.
\<close>

datatype path_error = GotNamed | GotArguments nat | JoinError read_error

definition one_path ::
  "(string \<Rightarrow> string) \<Rightarrow> ('f, 'x) star list \<Rightarrow> (string \<times> ('f, 'x) star) list \<Rightarrow> (path_error + ('f, 'x) star) outcome" where
  "one_path f args kwargs =
     (if kwargs \<noteq> [] then Inr (Inl GotNamed)
      else case args of
        [SString s] \<Rightarrow> Inr (Inr (SString (f s)))
      | [_] \<Rightarrow> Inl (Panic ''interface conversion'')
      | _ \<Rightarrow> Inr (Inl (GotArguments (length args))))"

definition path_base :: "('f, 'x) star list \<Rightarrow> (string \<times> ('f, 'x) star) list \<Rightarrow> (path_error + ('f, 'x) star) outcome" where
  "path_base = one_path path_Base"

definition path_dirname :: "('f, 'x) star list \<Rightarrow> (string \<times> ('f, 'x) star) list \<Rightarrow> (path_error + ('f, 'x) star) outcome" where
  "path_dirname = one_path path_Dir"

definition path_ext :: "('f, 'x) star list \<Rightarrow> (string \<times> ('f, 'x) star) list \<Rightarrow> (path_error + ('f, 'x) star) outcome" where
  "path_ext = one_path path_Ext"

text \<open>Joining takes any number of strings; named arguments are ignored.\<close>

definition star_path_join ::
  "('f, 'x) star list \<Rightarrow> (string \<times> ('f, 'x) star) list \<Rightarrow> (path_error + ('f, 'x) star) outcome" where
  "star_path_join args kwargs =
     (case read_all ReadString args of
        Inl err \<Rightarrow> Inr (Inl (JoinError err))
      | Inr parts \<Rightarrow> Inr (Inr (SString (path_join parts))))"

text \<open>A module: its functions, named after it, and its properties, which replace functions of their name.\<close>

datatype ('fn, 'v) member = Function string 'fn | Property_value 'v

definition CreateModule :: "string \<Rightarrow> (string, 'fn) gomap \<Rightarrow> (string, 'v) gomap \<Rightarrow> string \<rightharpoonup> ('fn, 'v) member" where
  "CreateModule name funcs props =
     map_of (map (\<lambda>(k, f). (k, Function (name @ ''.'' @ k) f)) funcs) ++ map_of (map (\<lambda>(k, v). (k, Property_value v)) props)"

definition Path ::
  "string \<rightharpoonup> (('f, 'x) star list \<Rightarrow> (string \<times> ('f, 'x) star) list \<Rightarrow> (path_error + ('f, 'x) star) outcome, 'v) member" where
  "Path = CreateModule ''path''
     [(''base'', path_base), (''dirname'', path_dirname), (''ext'', path_ext), (''join'', star_path_join)] []"

lemma Path_members: "dom Path = {''base'', ''dirname'', ''ext'', ''join''}"
  by (auto simp: Path_def CreateModule_def split: if_splits)

text \<open>A function of a path panics on exactly one argument that is no string, such as none at all.\<close>

lemma one_path_panics:
  "one_path f args kwargs = Inl e \<longleftrightarrow>
     kwargs = [] \<and> e = Panic ''interface conversion'' \<and> (\<exists>v. args = [v] \<and> (\<forall>s. v \<noteq> SString s))"
  by (auto simp: one_path_def split: list.splits star.splits)

end
