(* ===== verification/Tree_Queries.thy ===== *)
theory Tree_Queries
  imports Orion_Plugin "HOL-Library.Word"
begin

text \<open>
  Queries of syntax trees (\<open>common/treesitter/query.go\<close>, \<open>filters.go\<close>, \<open>queries.go\<close>): what is kept of a
  compiled query, its predicates on the matches, the captures given to the callers, the cache of queries,
  and the reports of syntax errors. tree-sitter is third-party: compiling a query and the matches of a
  query in a tree are parameters.
\<close>

section \<open>Compiled queries\<close>

datatype step_type = StepDone | StepCapture | StepString

record query_step =
  st_Type :: step_type
  st_ValueId :: nat

text \<open>What tree-sitter tells of a query: the names of its captures, its strings, the predicates of each pattern.\<close>

record third_query =
  tq_captures :: "string list"
  tq_strings :: "string list"
  tq_patterns :: "query_step list list list"

record sitterQuery =
  sq_stringValues :: "string list"
  sq_captureNames :: "string list"
  sq_predicatePatterns :: "query_step list list list"
  sq_matchers :: "matcher option list"

text \<open>An element of a slice.\<close>

definition at_index :: "'a list \<Rightarrow> nat \<Rightarrow> 'a outcome" where
  "at_index xs i = (if i < length xs then Inr (xs ! i) else Inl (Panic ''index out of range''))"

definition andThen :: "'a outcome \<Rightarrow> ('a \<Rightarrow> 'b outcome) \<Rightarrow> 'b outcome" where
  "andThen r f = (case r of Inl e \<Rightarrow> Inl e | Inr x \<Rightarrow> f x)"

definition StringValueForId :: "sitterQuery \<Rightarrow> nat \<Rightarrow> string outcome" where
  "StringValueForId q n = at_index (sq_stringValues q) n"

definition CaptureNameForId :: "sitterQuery \<Rightarrow> nat \<Rightarrow> string outcome" where
  "CaptureNameForId q n = at_index (sq_captureNames q) n"

definition PredicatesForPattern :: "sitterQuery \<Rightarrow> nat \<Rightarrow> query_step list list outcome" where
  "PredicatesForPattern q n = at_index (sq_predicatePatterns q) n"

definition MatcherForId :: "sitterQuery \<Rightarrow> nat \<Rightarrow> matcher option outcome" where
  "MatcherForId q n = at_index (sq_matchers q) n"

record matcher_env =
  me_compile :: "string \<Rightarrow> string + matcher"
  me_quoteMeta :: "string \<Rightarrow> string"

text \<open>The loop over the predicates of all patterns, with the matchers so far and the caches of expressions.\<close>

fun parse_matchers ::
  "matcher_env \<Rightarrow> string list \<Rightarrow> query_step list list \<Rightarrow> matcher option list \<Rightarrow> regex_caches \<Rightarrow>
   ((string + matcher option list) \<times> regex_caches) outcome" where
  "parse_matchers env strs [] ms rc = Inr (Inr ms, rc)"
| "parse_matchers env strs (steps # preds) ms rc =
     andThen (at_index steps 0) (\<lambda>s0. andThen (at_index strs (st_ValueId s0)) (\<lambda>operator.
       if operator = ''match?'' \<or> operator = ''not-match?'' then
         andThen (at_index steps 2) (\<lambda>s2. andThen (at_index strs (st_ValueId s2)) (\<lambda>expr.
           case ParseMatcher (me_compile env) (me_quoteMeta env) expr rc of
             (Inl err, rc') \<Rightarrow> Inr (Inl (''invalid '' @ operator @ '' predicate expression''), rc')
           | (Inr m, rc') \<Rightarrow> parse_matchers env strs preds (ms[st_ValueId s2 := Some m]) rc'))
       else parse_matchers env strs preds ms rc))"

definition newSitterQuery ::
  "matcher_env \<Rightarrow> (string \<Rightarrow> string + third_query) \<Rightarrow> string \<Rightarrow> regex_caches \<Rightarrow> ((string + sitterQuery) \<times> regex_caches) outcome" where
  "newSitterQuery env sitterNewQuery query rc =
     (case sitterNewQuery query of
        Inl err \<Rightarrow> Inr (Inl err, rc)
      | Inr q \<Rightarrow>
          andThen (parse_matchers env (tq_strings q) (concat (tq_patterns q)) (replicate (length (tq_strings q)) None) rc)
            (\<lambda>(r, rc'). case r of
               Inl err \<Rightarrow> Inr (Inl err, rc')
             | Inr ms \<Rightarrow>
                 Inr (Inr \<lparr>sq_stringValues = tq_strings q, sq_captureNames = tq_captures q,
                           sq_predicatePatterns = tq_patterns q, sq_matchers = ms\<rparr>, rc')))"

text \<open>The queries compiled, by the name of the grammar and the text.\<close>

type_synonym query_cache = "string \<rightharpoonup> sitterQuery"

definition GetQuery ::
  "matcher_env \<Rightarrow> (string \<Rightarrow> string \<Rightarrow> string + third_query) \<Rightarrow> string \<Rightarrow> string \<Rightarrow> query_cache \<times> regex_caches \<Rightarrow>
   ((string + sitterQuery) \<times> query_cache \<times> regex_caches) outcome" where
  "GetQuery env sitterNewQuery grammar queryStr st =
     (case st of (cache, rc) \<Rightarrow>
        let key = grammar @ '':'' @ queryStr
        in case cache key of
             Some q \<Rightarrow> Inr (Inr q, cache, rc)
           | None \<Rightarrow>
               andThen (newSitterQuery env (sitterNewQuery grammar) queryStr rc) (\<lambda>(r, rc').
                 case r of
                   Inl err \<Rightarrow> Inr (Inl err, cache, rc')
                 | Inr sq \<Rightarrow> Inr (Inr sq, cache(key \<mapsto> sq), rc')))"

section \<open>Predicates\<close>

text \<open>A node by its bytes, with the row and column where it starts.\<close>

record tree_node =
  tn_start :: nat
  tn_end :: nat
  tn_row :: "32 word"
  tn_col :: "32 word"

record query_capture =
  cp_Index :: nat
  cp_Node :: tree_node

record third_match =
  tm_PatternIndex :: nat
  tm_Captures :: "query_capture list"

text \<open>
  The bytes of a node. A slice out of the range of the source panics, as in Go; a source has no bytes beyond
  its length.
\<close>

definition node_text :: "string \<Rightarrow> tree_node \<Rightarrow> string" where
  "node_text input n = take (tn_end n - tn_start n) (drop (tn_start n) input)"

definition Content :: "string \<Rightarrow> tree_node \<Rightarrow> string outcome" where
  "Content input n =
     (if tn_start n \<le> tn_end n \<and> tn_end n \<le> length input then Inr (node_text input n)
      else Inl (Panic ''slice bounds out of range''))"

text \<open>The contents of the captures of two names, with those so far.\<close>

definition add_content :: "string \<Rightarrow> query_capture \<Rightarrow> bool \<Rightarrow> string list \<Rightarrow> string list outcome" where
  "add_content input c wanted contents =
     (if wanted then andThen (Content input (cp_Node c)) (\<lambda>x. Inr (contents @ [x])) else Inr contents)"

fun contents_of ::
  "sitterQuery \<Rightarrow> string \<Rightarrow> string \<Rightarrow> string \<Rightarrow> query_capture list \<Rightarrow> string list \<Rightarrow> string list \<Rightarrow>
   (string list \<times> string list) outcome" where
  "contents_of q input left right [] ls rs = Inr (ls, rs)"
| "contents_of q input left right (c # cs) ls rs =
     andThen (CaptureNameForId q (cp_Index c)) (\<lambda>captureName.
       andThen (add_content input c (captureName = left) ls) (\<lambda>ls'.
         andThen (add_content input c (captureName = right) rs) (\<lambda>rs'.
           contents_of q input left right cs ls' rs')))"

fun pairs_match :: "bool \<Rightarrow> string list \<Rightarrow> string list \<Rightarrow> bool" where
  "pairs_match isPositive (l # ls) (r # rs) = (if (l = r) \<noteq> isPositive then False else pairs_match isPositive ls rs)"
| "pairs_match isPositive _ _ = True"

text \<open>The captures of a name, up to the first whose test has the wrong result.\<close>

fun captures_match ::
  "sitterQuery \<Rightarrow> string \<Rightarrow> string \<Rightarrow> (string \<Rightarrow> bool outcome) \<Rightarrow> bool \<Rightarrow> query_capture list \<Rightarrow> bool outcome" where
  "captures_match q input expected test isPositive [] = Inr True"
| "captures_match q input expected test isPositive (c # cs) =
     andThen (CaptureNameForId q (cp_Index c)) (\<lambda>captureName.
       if expected \<noteq> captureName then captures_match q input expected test isPositive cs
       else andThen (Content input (cp_Node c)) (\<lambda>x. andThen (test x) (\<lambda>b.
         if b \<noteq> isPositive then Inr False
         else captures_match q input expected test isPositive cs)))"

definition eq_predicate :: "sitterQuery \<Rightarrow> third_match \<Rightarrow> string \<Rightarrow> query_step list \<Rightarrow> bool \<Rightarrow> bool outcome" where
  "eq_predicate q m input steps isPositive =
     andThen (at_index steps 1) (\<lambda>s1. andThen (CaptureNameForId q (st_ValueId s1)) (\<lambda>left.
       andThen (at_index steps 2) (\<lambda>s2.
         if st_Type s2 = StepCapture then
           andThen (CaptureNameForId q (st_ValueId s2)) (\<lambda>right.
             andThen (contents_of q input left right (tm_Captures m) [] []) (\<lambda>(leftContents, rightContents).
               Inr (if length leftContents \<noteq> length rightContents then False
                    else pairs_match isPositive leftContents rightContents)))
         else
           andThen (StringValueForId q (st_ValueId s2)) (\<lambda>right.
             captures_match q input left (\<lambda>x. Inr (x = right)) isPositive (tm_Captures m)))))"

text \<open>A missing matcher is only noticed when it is called.\<close>

definition match_predicate :: "sitterQuery \<Rightarrow> third_match \<Rightarrow> string \<Rightarrow> query_step list \<Rightarrow> bool \<Rightarrow> bool outcome" where
  "match_predicate q m input steps isPositive =
     andThen (at_index steps 1) (\<lambda>s1. andThen (CaptureNameForId q (st_ValueId s1)) (\<lambda>expected.
       andThen (at_index steps 2) (\<lambda>s2. andThen (MatcherForId q (st_ValueId s2)) (\<lambda>matcher.
         captures_match q input expected
           (case matcher of Some f \<Rightarrow> (\<lambda>x. Inr (f x)) | None \<Rightarrow> (\<lambda>x. Inl (Panic ''nil function'')))
           isPositive (tm_Captures m)))))"

fun predicates_hold :: "sitterQuery \<Rightarrow> third_match \<Rightarrow> string \<Rightarrow> query_step list list \<Rightarrow> bool outcome" where
  "predicates_hold q m input [] = Inr True"
| "predicates_hold q m input (steps # preds) =
     andThen (at_index steps 0) (\<lambda>s0. andThen (StringValueForId q (st_ValueId s0)) (\<lambda>operator.
       andThen
         (if operator = ''eq?'' \<or> operator = ''not-eq?'' then eq_predicate q m input steps (operator = ''eq?'')
          else if operator = ''match?'' \<or> operator = ''not-match?'' then
            match_predicate q m input steps (operator = ''match?'')
          else Inr True)
         (\<lambda>ok. if ok then predicates_hold q m input preds else Inr False)))"

definition matchesAllPredicates :: "sitterQuery \<Rightarrow> third_match \<Rightarrow> string \<Rightarrow> bool outcome" where
  "matchesAllPredicates q m input =
     andThen (PredicatesForPattern q (tm_PatternIndex m)) (predicates_hold q m input)"

section \<open>Results\<close>

fun put_captures :: "sitterQuery \<Rightarrow> string \<Rightarrow> query_capture list \<Rightarrow> (string, string) gomap \<Rightarrow> (string, string) gomap outcome" where
  "put_captures q input [] captures = Inr captures"
| "put_captures q input (c # cs) captures =
     andThen (CaptureNameForId q (cp_Index c)) (\<lambda>name.
       andThen (Content input (cp_Node c)) (\<lambda>x. put_captures q input cs (al_put captures name x)))"

definition mapQueryMatchCaptures :: "sitterQuery \<Rightarrow> string \<Rightarrow> third_match \<Rightarrow> (string, string) gomap outcome" where
  "mapQueryMatchCaptures q input m = put_captures q input (tm_Captures m) []"

text \<open>The captures of the matches that pass the predicates, in the order of the cursor.\<close>

fun query_matches :: "sitterQuery \<Rightarrow> string \<Rightarrow> third_match list \<Rightarrow> (string, string) gomap list outcome" where
  "query_matches q input [] = Inr []"
| "query_matches q input (m # ms) =
     andThen (matchesAllPredicates q m input) (\<lambda>ok.
       if \<not> ok then query_matches q input ms
       else andThen (mapQueryMatchCaptures q input m) (\<lambda>captures.
         andThen (query_matches q input ms) (\<lambda>rest. Inr (captures # rest))))"

section \<open>Reports of syntax errors\<close>

text \<open>The line of an error and a caret below it; a slice out of range panics.\<close>

definition queryErrorAt :: "string \<Rightarrow> 32 word \<Rightarrow> 32 word \<Rightarrow> 32 word \<Rightarrow> string outcome" where
  "queryErrorAt source row col startByte =
     (let lineStart = unat (startByte - col)
      in if unat startByte > length source then Inl (Panic ''slice bounds out of range'')
         else
           (let lineEnd = (case IndexByte (drop (unat startByte) source) newline of
                             Some i \<Rightarrow> unat startByte + i
                           | None \<Rightarrow> length source);
                pre = ''     '' @ decimal (unat (row + 1)) @ '': '';
                arw = replicate (length pre + unat col) (CHR '' '') @ ''^''
            in if lineStart > lineEnd then Inl (Panic ''slice bounds out of range'')
               else Inr (pre @ take (lineEnd - lineStart) (drop lineStart source) @ [newline] @ arw)))"

fun errors_at :: "string \<Rightarrow> query_capture list \<Rightarrow> string list outcome" where
  "errors_at source [] = Inr []"
| "errors_at source (c # cs) =
     andThen (queryErrorAt source (tn_row (cp_Node c)) (tn_col (cp_Node c)) (word_of_nat (tn_start (cp_Node c)))) (\<lambda>e.
       andThen (errors_at source cs) (\<lambda>es. Inr (e # es)))"

fun match_errors :: "sitterQuery \<Rightarrow> string \<Rightarrow> third_match list \<Rightarrow> string list outcome" where
  "match_errors q source [] = Inr []"
| "match_errors q source (m # ms) =
     andThen (matchesAllPredicates q m source) (\<lambda>ok.
       if \<not> ok then match_errors q source ms
       else andThen (errors_at source (tm_Captures m)) (\<lambda>es.
         andThen (match_errors q source ms) (\<lambda>rest. Inr (es @ rest))))"

definition ErrorsQuery :: string where
  "ErrorsQuery = ''(ERROR) @error''"

text \<open>A parsed source: its grammar, its text, whether its root has errors, and the matches of a query in it.\<close>

record treeAst =
  ast_grammar :: string
  ast_source :: string
  ast_hasError :: bool
  ast_matches :: "sitterQuery \<Rightarrow> third_match list"

definition Query :: "treeAst \<Rightarrow> sitterQuery \<Rightarrow> (string, string) gomap list outcome" where
  "Query tree q = query_matches q (ast_source tree) (ast_matches tree q)"

definition QueryErrors ::
  "matcher_env \<Rightarrow> (string \<Rightarrow> string \<Rightarrow> string + third_query) \<Rightarrow> treeAst \<Rightarrow> query_cache \<times> regex_caches \<Rightarrow>
   (string list \<times> query_cache \<times> regex_caches) outcome" where
  "QueryErrors env sitterNewQuery tree st =
     (if \<not> ast_hasError tree then Inr ([], st)
      else andThen (GetQuery env sitterNewQuery (ast_grammar tree) ErrorsQuery st) (\<lambda>(r, st').
        case r of
          Inl err \<Rightarrow> Inl (Fatal ''Failed to create util ErrorsQuery'')
        | Inr q \<Rightarrow> andThen (match_errors q (ast_source tree) (ast_matches tree q)) (\<lambda>es. Inr (es, st'))))"

section \<open>The meaning of predicates\<close>

lemma andThen_simps [simp]: "andThen (Inr x) f = f x" "andThen (Inl e) f = Inl e"
  by (simp_all add: andThen_def)

lemma at_index_ok [simp]: "i < length xs \<Longrightarrow> at_index xs i = Inr (xs ! i)"
  by (simp add: at_index_def)

text \<open>What an expression of \<open>match?\<close> stands for: its text if nothing in it is special, else its compilation.\<close>

definition meaning :: "matcher_env \<Rightarrow> string \<Rightarrow> string + matcher" where
  "meaning env expr = (if me_quoteMeta env expr = expr then Inr (\<lambda>b. str_contains b expr) else me_compile env expr)"

text \<open>
  What tree-sitter checks when it compiles a query, and gives as matches: predicates have their arguments,
  identifiers are in range, and nodes are of the source.
\<close>

definition operator_of :: "string list \<Rightarrow> query_step list \<Rightarrow> string" where
  "operator_of strs steps = strs ! st_ValueId (steps ! 0)"

definition is_matcher :: "string list \<Rightarrow> query_step list \<Rightarrow> bool" where
  "is_matcher strs steps \<longleftrightarrow> operator_of strs steps \<in> {''match?'', ''not-match?''}"

definition step_checked :: "third_query \<Rightarrow> query_step list \<Rightarrow> bool" where
  "step_checked tq steps \<longleftrightarrow> steps \<noteq> [] \<and> st_ValueId (steps ! 0) < length (tq_strings tq) \<and>
     (operator_of (tq_strings tq) steps \<in> {''eq?'', ''not-eq?'', ''match?'', ''not-match?''} \<longrightarrow>
        2 < length steps \<and> st_ValueId (steps ! 1) < length (tq_captures tq) \<and>
        (if st_Type (steps ! 2) = StepCapture \<and> \<not> is_matcher (tq_strings tq) steps
         then st_ValueId (steps ! 2) < length (tq_captures tq) else st_ValueId (steps ! 2) < length (tq_strings tq)))"

definition query_checked :: "third_query \<Rightarrow> bool" where
  "query_checked tq \<longleftrightarrow> (\<forall>preds \<in> set (tq_patterns tq). \<forall>steps \<in> set preds. step_checked tq steps)"

definition named :: "third_query \<Rightarrow> string \<Rightarrow> third_match \<Rightarrow> nat \<Rightarrow> string list" where
  "named tq input m n =
     map (\<lambda>c. node_text input (cp_Node c)) (filter (\<lambda>c. tq_captures tq ! cp_Index c = tq_captures tq ! n) (tm_Captures m))"

definition predicate_holds :: "matcher_env \<Rightarrow> third_query \<Rightarrow> string \<Rightarrow> third_match \<Rightarrow> query_step list \<Rightarrow> bool" where
  "predicate_holds env tq input m steps =
     (let op = operator_of (tq_strings tq) steps; left = named tq input m (st_ValueId (steps ! 1)); arg = steps ! 2;
          txt = tq_strings tq ! st_ValueId arg
      in if op \<in> {''eq?'', ''not-eq?''} then
           (if st_Type arg = StepCapture then
              (let right = named tq input m (st_ValueId arg)
               in length left = length right \<and> (\<forall>i < length left. (left ! i = right ! i) = (op = ''eq?'')))
            else \<forall>x \<in> set left. (x = txt) = (op = ''eq?''))
         else if op \<in> {''match?'', ''not-match?''} then
           \<forall>x \<in> set left. projr (meaning env txt) x = (op = ''match?'')
         else True)"

text \<open>A compiled query: the parts of tree-sitter's, with the matchers of all expressions.\<close>

definition compiled :: "matcher_env \<Rightarrow> third_query \<Rightarrow> sitterQuery \<Rightarrow> bool" where
  "compiled env tq q \<longleftrightarrow> sq_stringValues q = tq_strings tq \<and> sq_captureNames q = tq_captures tq \<and>
     sq_predicatePatterns q = tq_patterns tq \<and> length (sq_matchers q) = length (tq_strings tq) \<and>
     (\<forall>preds \<in> set (tq_patterns tq). \<forall>steps \<in> set preds. is_matcher (tq_strings tq) steps \<longrightarrow>
        (\<exists>f. sq_matchers q ! st_ValueId (steps ! 2) = Some f \<and> meaning env (tq_strings tq ! st_ValueId (steps ! 2)) = Inr f))"

lemma parse_matchers_spec:
  assumes "parse_matchers env strs preds ms rc = Inr (r, rc')" "regex_coherent (me_compile env) (me_quoteMeta env) rc"
    and "\<forall>steps \<in> set preds. steps \<noteq> [] \<and> st_ValueId (steps ! 0) < length strs \<and>
      (is_matcher strs steps \<longrightarrow> 2 < length steps \<and> st_ValueId (steps ! 2) < length strs)"
    and "length ms = length strs" "\<forall>i f. i < length strs \<longrightarrow> ms ! i = Some f \<longrightarrow> meaning env (strs ! i) = Inr f"
  shows "regex_coherent (me_compile env) (me_quoteMeta env) rc' \<and>
    (\<forall>ms'. r = Inr ms' \<longrightarrow> length ms' = length strs \<and>
       (\<forall>i f. i < length strs \<longrightarrow> ms' ! i = Some f \<longrightarrow> meaning env (strs ! i) = Inr f) \<and>
       (\<forall>i < length strs. ms ! i \<noteq> None \<longrightarrow> ms' ! i \<noteq> None) \<and>
       (\<forall>steps \<in> set preds. is_matcher strs steps \<longrightarrow> ms' ! st_ValueId (steps ! 2) \<noteq> None))"
  using assms
proof (induction env strs preds ms rc rule: parse_matchers.induct)
  case (1 env strs ms rc)
  then show ?case by auto
next
  case (2 env strs steps preds ms rc)
  have s0: "steps \<noteq> []" "st_ValueId (steps ! 0) < length strs" using "2.prems"(3) by auto
  show ?case
  proof (cases "is_matcher strs steps")
    case False
    then show ?thesis
      using "2.IH"(2) [of "operator_of strs steps"] "2.prems" s0
      by (auto simp: is_matcher_def operator_of_def)
  next
    case True
    let ?i = "st_ValueId (steps ! 2)"
    have i: "2 < length steps" "?i < length strs" using True "2.prems"(3) by auto
    obtain pm rc1 where pm: "ParseMatcher (me_compile env) (me_quoteMeta env) (strs ! ?i) rc = (pm, rc1)" by (rule prod.exhaust)
    have coh: "pm = meaning env (strs ! ?i)" "regex_coherent (me_compile env) (me_quoteMeta env) rc1"
      using ParseMatcher_coherent [OF "2.prems"(2), of "strs ! ?i"] pm by (auto simp: meaning_def)
    have op: "operator_of strs steps = ''match?'' \<or> operator_of strs steps = ''not-match?''"
      using True by (auto simp: is_matcher_def)
    show ?thesis
    proof (cases pm)
      case (Inl err)
      have "r = Inl (''invalid '' @ operator_of strs steps @ '' predicate expression'') \<and> rc' = rc1"
        using "2.prems"(1) s0 i pm [unfolded Inl] op by (auto simp: operator_of_def)
      with coh(2) show ?thesis by simp
    next
      case (Inr f)
      then have rest: "parse_matchers env strs preds (ms[?i := Some f]) rc1 = Inr (r, rc')"
        using "2.prems"(1) s0 i pm [unfolded Inr] op by (auto simp: operator_of_def)
      have right: "\<forall>j g. j < length strs \<longrightarrow> ms[?i := Some f] ! j = Some g \<longrightarrow> meaning env (strs ! j) = Inr g"
      proof (intro allI impI)
        fix j g assume "j < length strs" "ms[?i := Some f] ! j = Some g"
        then show "meaning env (strs ! j) = Inr g"
          using "2.prems"(4,5) coh(1) Inr by (cases "j = ?i") simp_all
      qed
      have IH: "regex_coherent (me_compile env) (me_quoteMeta env) rc' \<and>
        (\<forall>ms'. r = Inr ms' \<longrightarrow> length ms' = length strs \<and>
           (\<forall>i f. i < length strs \<longrightarrow> ms' ! i = Some f \<longrightarrow> meaning env (strs ! i) = Inr f) \<and>
           (\<forall>j < length strs. ms[?i := Some f] ! j \<noteq> None \<longrightarrow> ms' ! j \<noteq> None) \<and>
           (\<forall>steps \<in> set preds. is_matcher strs steps \<longrightarrow> ms' ! st_ValueId (steps ! 2) \<noteq> None))"
        using "2.IH"(1) [of "operator_of strs steps" pm rc1 "strs ! ?i" f "steps ! 2"]
          op rest coh(2) right "2.prems"(3,4) pm Inr by simp
      show ?thesis using IH i "2.prems"(4) by (auto simp: nth_list_update)
    qed
  qed
qed

lemma newSitterQuery_compiled:
  assumes "newSitterQuery env sitterNewQuery query rc = Inr (r, rc')" "regex_coherent (me_compile env) (me_quoteMeta env) rc"
    and "\<forall>tq. sitterNewQuery query = Inr tq \<longrightarrow> query_checked tq"
  shows "regex_coherent (me_compile env) (me_quoteMeta env) rc' \<and>
    (\<forall>q. r = Inr q \<longrightarrow> (\<exists>tq. sitterNewQuery query = Inr tq \<and> compiled env tq q))"
proof (cases "sitterNewQuery query")
  case (Inl err)
  with assms show ?thesis by (auto simp: newSitterQuery_def)
next
  case (Inr tq)
  let ?strs = "tq_strings tq" and ?preds = "concat (tq_patterns tq)"
  obtain pr rc1 where pm: "parse_matchers env ?strs ?preds (replicate (length ?strs) None) rc = Inr (pr, rc1)"
    using assms(1) Inr by (cases "parse_matchers env ?strs ?preds (replicate (length ?strs) None) rc")
      (auto simp: newSitterQuery_def)
  have ok: "\<forall>steps \<in> set ?preds. steps \<noteq> [] \<and> st_ValueId (steps ! 0) < length ?strs \<and>
      (is_matcher ?strs steps \<longrightarrow> 2 < length steps \<and> st_ValueId (steps ! 2) < length ?strs)"
    using assms(3) Inr unfolding query_checked_def step_checked_def is_matcher_def by fastforce
  have spec: "regex_coherent (me_compile env) (me_quoteMeta env) rc1 \<and>
    (\<forall>ms'. pr = Inr ms' \<longrightarrow> length ms' = length ?strs \<and>
       (\<forall>i f. i < length ?strs \<longrightarrow> ms' ! i = Some f \<longrightarrow> meaning env (?strs ! i) = Inr f) \<and>
       (\<forall>steps \<in> set ?preds. is_matcher ?strs steps \<longrightarrow> ms' ! st_ValueId (steps ! 2) \<noteq> None))"
    using parse_matchers_spec [OF pm assms(2) ok] by simp
  have res: "rc' = rc1" "r = (case pr of Inl err \<Rightarrow> Inl err | Inr ms \<Rightarrow>
      Inr \<lparr>sq_stringValues = ?strs, sq_captureNames = tq_captures tq, sq_predicatePatterns = tq_patterns tq, sq_matchers = ms\<rparr>)"
    using assms(1) Inr pm by (auto simp: newSitterQuery_def split: sum.splits)
  have "compiled env tq q" if req: "r = Inr q" for q
  proof -
    obtain ms where ms: "pr = Inr ms" "sq_matchers q = ms" "sq_stringValues q = ?strs" "sq_captureNames q = tq_captures tq"
      "sq_predicatePatterns q = tq_patterns tq"
      using req res(2) by (auto split: sum.splits)
    have "\<exists>f. ms ! st_ValueId (steps ! 2) = Some f \<and> meaning env (?strs ! st_ValueId (steps ! 2)) = Inr f"
      if st: "steps \<in> set ?preds" "is_matcher ?strs steps" for steps
    proof -
      have "st_ValueId (steps ! 2) < length ?strs" using ok st by blast
      moreover have "ms ! st_ValueId (steps ! 2) \<noteq> None" using spec ms(1) st by blast
      ultimately show ?thesis using spec ms(1) by (cases "ms ! st_ValueId (steps ! 2)") auto
    qed
    with spec ms show ?thesis by (auto simp: compiled_def)
  qed
  with spec res(1) Inr show ?thesis by blast
qed

text \<open>The kept queries are compiled from the texts of their keys; no grammar has a colon in its name.\<close>

definition cache_sound :: "matcher_env \<Rightarrow> (string \<Rightarrow> string \<Rightarrow> string + third_query) \<Rightarrow> query_cache \<Rightarrow> bool" where
  "cache_sound env sitterNewQuery cache \<longleftrightarrow>
     (\<forall>g s q. CHR '':'' \<notin> set g \<longrightarrow> cache (g @ '':'' @ s) = Some q \<longrightarrow>
        (\<exists>tq. sitterNewQuery g s = Inr tq \<and> compiled env tq q))"

lemma key_split:
  assumes "CHR '':'' \<notin> set g" "CHR '':'' \<notin> set g'" "g @ '':'' @ s = g' @ '':'' @ s'"
  shows "g = g' \<and> s = s'"
  using assms
proof (induction g arbitrary: g')
  case Nil
  then show ?case by (cases g') auto
next
  case (Cons c g)
  then show ?case by (cases g') auto
qed

lemma GetQuery_sound:
  assumes "GetQuery env sitterNewQuery g s (cache, rc) = Inr (r, cache', rc')" "cache_sound env sitterNewQuery cache"
    and "regex_coherent (me_compile env) (me_quoteMeta env) rc" "CHR '':'' \<notin> set g"
    and "\<forall>tq. sitterNewQuery g s = Inr tq \<longrightarrow> query_checked tq"
  shows "cache_sound env sitterNewQuery cache' \<and> regex_coherent (me_compile env) (me_quoteMeta env) rc' \<and>
    (\<forall>q. r = Inr q \<longrightarrow> (\<exists>tq. sitterNewQuery g s = Inr tq \<and> compiled env tq q))"
proof (cases "cache (g @ '':'' @ s)")
  case (Some q)
  with assms show ?thesis by (auto simp: GetQuery_def Let_def cache_sound_def)
next
  case None
  obtain r1 rc1 where n: "newSitterQuery env (sitterNewQuery g) s rc = Inr (r1, rc1)"
    using assms(1) None by (cases "newSitterQuery env (sitterNewQuery g) s rc") (auto simp: GetQuery_def Let_def)
  note c = newSitterQuery_compiled [OF n assms(3,5)]
  show ?thesis
  proof (cases r1)
    case (Inl err)
    with assms None n c show ?thesis by (auto simp: GetQuery_def Let_def)
  next
    case (Inr q)
    have res: "r = Inr q" "cache' = cache(g @ '':'' @ s \<mapsto> q)" "rc' = rc1"
      using assms(1) None n Inr by (simp_all add: GetQuery_def Let_def)
    have "cache_sound env sitterNewQuery cache'"
      unfolding cache_sound_def
    proof (intro allI impI)
      fix g' s' q' assume g': "CHR '':'' \<notin> set g'" "cache' (g' @ '':'' @ s') = Some q'"
      show "\<exists>tq. sitterNewQuery g' s' = Inr tq \<and> compiled env tq q'"
      proof (cases "g' @ '':'' @ s' = g @ '':'' @ s")
        case True
        with key_split [OF g'(1) assms(4)] g'(2) res(2) c Inr show ?thesis by auto
      next
        case False
        with g' res(2) assms(2) show ?thesis by (auto simp: cache_sound_def)
      qed
    qed
    with c res Inr show ?thesis by simp
  qed
qed

section \<open>The results of a query\<close>

lemma Content_ok: "tn_start n \<le> tn_end n \<Longrightarrow> tn_end n \<le> length input \<Longrightarrow> Content input n = Inr (node_text input n)"
  by (simp add: Content_def)

definition captures_checked :: "third_query \<Rightarrow> string \<Rightarrow> query_capture list \<Rightarrow> bool" where
  "captures_checked tq input caps \<longleftrightarrow>
     (\<forall>c \<in> set caps. cp_Index c < length (tq_captures tq) \<and> tn_start (cp_Node c) \<le> tn_end (cp_Node c) \<and>
        tn_end (cp_Node c) \<le> length input)"

definition match_checked :: "third_query \<Rightarrow> string \<Rightarrow> third_match \<Rightarrow> bool" where
  "match_checked tq input m \<longleftrightarrow>
     tm_PatternIndex m < length (tq_patterns tq) \<and> captures_checked tq input (tm_Captures m)"

lemma contents_of_named:
  assumes "sq_captureNames q = tq_captures tq" "captures_checked tq input caps"
  shows "contents_of q input l r caps ls rs =
    Inr (ls @ map (\<lambda>c. node_text input (cp_Node c)) (filter (\<lambda>c. tq_captures tq ! cp_Index c = l) caps),
         rs @ map (\<lambda>c. node_text input (cp_Node c)) (filter (\<lambda>c. tq_captures tq ! cp_Index c = r) caps))"
  using assms(2)
  by (induction caps arbitrary: ls rs)
     (auto simp: CaptureNameForId_def assms(1) captures_checked_def add_content_def Content_ok)

lemma captures_match_named:
  assumes "sq_captureNames q = tq_captures tq" "captures_checked tq input caps"
  shows "captures_match q input e (\<lambda>x. Inr (test x)) b caps =
    Inr (\<forall>x \<in> set (map (\<lambda>c. node_text input (cp_Node c)) (filter (\<lambda>c. tq_captures tq ! cp_Index c = e) caps)). test x = b)"
  using assms(2)
  by (induction caps) (auto simp: CaptureNameForId_def assms(1) captures_checked_def Content_ok)

lemma pairs_match_iff:
  "length ls = length rs \<Longrightarrow> pairs_match b ls rs \<longleftrightarrow> (\<forall>i < length ls. (ls ! i = rs ! i) = b)"
  by (induction b ls rs rule: pairs_match.induct) (auto simp: less_Suc_eq_0_disj)

lemma predicate_result:
  assumes "compiled env tq q" "preds \<in> set (tq_patterns tq)" "steps \<in> set preds" "step_checked tq steps"
    and "match_checked tq input m"
  shows "(if operator_of (tq_strings tq) steps = ''eq?'' \<or> operator_of (tq_strings tq) steps = ''not-eq?''
          then eq_predicate q m input steps (operator_of (tq_strings tq) steps = ''eq?'')
          else if operator_of (tq_strings tq) steps = ''match?'' \<or> operator_of (tq_strings tq) steps = ''not-match?''
          then match_predicate q m input steps (operator_of (tq_strings tq) steps = ''match?'')
          else Inr True) = Inr (predicate_holds env tq input m steps)"
proof -
  have q: "sq_captureNames q = tq_captures tq" "sq_stringValues q = tq_strings tq"
    "length (sq_matchers q) = length (tq_strings tq)"
    using assms(1) by (auto simp: compiled_def)
  have caps: "captures_checked tq input (tm_Captures m)"
    using assms(5) by (simp add: match_checked_def)
  note found = contents_of_named [OF q(1) caps] captures_match_named [OF q(1) caps]
  consider (eq) "operator_of (tq_strings tq) steps \<in> {''eq?'', ''not-eq?''}"
    | (match) "operator_of (tq_strings tq) steps \<in> {''match?'', ''not-match?''}"
    | (other) "operator_of (tq_strings tq) steps \<notin> {''eq?'', ''not-eq?'', ''match?'', ''not-match?''}" by blast
  then show ?thesis
  proof cases
    case eq
    then have no: "\<not> is_matcher (tq_strings tq) steps" by (auto simp: is_matcher_def)
    with eq assms(4) have ids: "2 < length steps" "st_ValueId (steps ! 1) < length (tq_captures tq)"
      "if st_Type (steps ! 2) = StepCapture then st_ValueId (steps ! 2) < length (tq_captures tq)
       else st_ValueId (steps ! 2) < length (tq_strings tq)"
      by (auto simp: step_checked_def split: if_splits)
    with eq q show ?thesis
      by (auto simp: eq_predicate_def predicate_holds_def Let_def CaptureNameForId_def StringValueForId_def found named_def
          pairs_match_iff split: if_splits)
  next
    case match
    then have im: "is_matcher (tq_strings tq) steps" by (simp add: is_matcher_def)
    with match assms(4) have ids: "2 < length steps" "st_ValueId (steps ! 1) < length (tq_captures tq)"
      "st_ValueId (steps ! 2) < length (tq_strings tq)"
      by (auto simp: step_checked_def)
    obtain f where "sq_matchers q ! st_ValueId (steps ! 2) = Some f"
      "meaning env (tq_strings tq ! st_ValueId (steps ! 2)) = Inr f"
      using im assms(1-3) by (auto simp: compiled_def)
    with match q ids show ?thesis
      by (auto simp: match_predicate_def predicate_holds_def Let_def CaptureNameForId_def MatcherForId_def found named_def)
  next
    case other
    then show ?thesis by (simp add: predicate_holds_def Let_def)
  qed
qed

lemma matchesAllPredicates_result:
  assumes "compiled env tq q" "query_checked tq" "match_checked tq input m"
  shows "matchesAllPredicates q m input =
    Inr (\<forall>steps \<in> set (tq_patterns tq ! tm_PatternIndex m). predicate_holds env tq input m steps)"
proof -
  have q: "sq_predicatePatterns q = tq_patterns tq" "sq_stringValues q = tq_strings tq"
    using assms(1) by (auto simp: compiled_def)
  have p: "tm_PatternIndex m < length (tq_patterns tq)" using assms(3) by (simp add: match_checked_def)
  then have mem: "tq_patterns tq ! tm_PatternIndex m \<in> set (tq_patterns tq)" by simp
  have "predicates_hold q m input preds = Inr (\<forall>steps \<in> set preds. predicate_holds env tq input m steps)"
    if "set preds \<subseteq> set (tq_patterns tq ! tm_PatternIndex m)" for preds
    using that
  proof (induction preds)
    case (Cons steps preds)
    then have st: "steps \<in> set (tq_patterns tq ! tm_PatternIndex m)" by simp
    with assms(2) mem have ok: "step_checked tq steps" by (auto simp: query_checked_def)
    note res = predicate_result [OF assms(1) mem st ok assms(3)]
    from ok have "steps \<noteq> []" "st_ValueId (steps ! 0) < length (tq_strings tq)" by (auto simp: step_checked_def)
    then show ?case using res Cons q by (simp add: StringValueForId_def flip: operator_of_def)
  qed simp
  with p q(1) show ?thesis by (simp add: matchesAllPredicates_def PredicatesForPattern_def)
qed

definition captures_of :: "third_query \<Rightarrow> string \<Rightarrow> third_match \<Rightarrow> (string, string) gomap" where
  "captures_of tq input m =
     foldl (\<lambda>cs c. al_put cs (tq_captures tq ! cp_Index c) (node_text input (cp_Node c))) [] (tm_Captures m)"

lemma mapQueryMatchCaptures_result:
  assumes "compiled env tq q" "match_checked tq input m"
  shows "mapQueryMatchCaptures q input m = Inr (captures_of tq input m)"
proof -
  have q: "sq_captureNames q = tq_captures tq" using assms(1) by (simp add: compiled_def)
  have "put_captures q input caps cs =
      Inr (foldl (\<lambda>cs c. al_put cs (tq_captures tq ! cp_Index c) (node_text input (cp_Node c))) cs caps)"
    if "captures_checked tq input caps" for caps cs
    using that by (induction caps arbitrary: cs) (simp_all add: CaptureNameForId_def q captures_checked_def Content_ok)
  with assms(2) show ?thesis by (simp add: mapQueryMatchCaptures_def captures_of_def match_checked_def)
qed

text \<open>The predicates of the pattern of a match.\<close>

definition satisfied :: "matcher_env \<Rightarrow> third_query \<Rightarrow> string \<Rightarrow> third_match \<Rightarrow> bool" where
  "satisfied env tq input m \<longleftrightarrow>
     (\<forall>steps \<in> set (tq_patterns tq ! tm_PatternIndex m). predicate_holds env tq input m steps)"

text \<open>
  C15 (functional). A query of a tree gives, in the order of tree-sitter, the captures of exactly the matches
  that satisfy every predicate of their pattern: \<open>eq?\<close> of all contents of a capture with a text or pairwise
  with those of another capture, \<open>match?\<close> of all contents with the meaning of the expression, and their
  negations. It does so whatever queries and expressions are in the caches, and never panics on a query
  that tree-sitter has checked and on matches whose identifiers are of the query and whose nodes lie within
  the source.
\<close>

theorem tree_query_results:
  assumes "GetQuery env sitterNewQuery (ast_grammar tree) queryStr (cache, rc) = Inr (Inr q, st')"
    and "cache_sound env sitterNewQuery cache" "regex_coherent (me_compile env) (me_quoteMeta env) rc"
    and "CHR '':'' \<notin> set (ast_grammar tree)" "sitterNewQuery (ast_grammar tree) queryStr = Inr tq" "query_checked tq"
    and "\<forall>m \<in> set (ast_matches tree q). match_checked tq (ast_source tree) m"
  shows "Query tree q =
    Inr (map (captures_of tq (ast_source tree)) (filter (satisfied env tq (ast_source tree)) (ast_matches tree q)))"
proof -
  obtain cache' rc' where st': "st' = (cache', rc')" by (rule prod.exhaust)
  have comp: "compiled env tq q"
    using GetQuery_sound [OF assms(1) [unfolded st'] assms(2-4)] assms(5,6) by auto
  have "query_matches q input ms = Inr (map (captures_of tq input) (filter (satisfied env tq input) ms))"
    if "\<forall>m \<in> set ms. match_checked tq input m" for ms input
    using that
    by (induction ms) (simp_all add: matchesAllPredicates_result [OF comp assms(6)] mapQueryMatchCaptures_result [OF comp] satisfied_def)
  with assms(7) show ?thesis by (simp add: Query_def)
qed

definition example_query :: third_query where
  "example_query =
     \<lparr>tq_captures = [''name'', ''other''], tq_strings = [''eq?'', ''x'', ''match?'', ''y''],
      tq_patterns = [[[\<lparr>st_Type = StepString, st_ValueId = 0\<rparr>, \<lparr>st_Type = StepCapture, st_ValueId = 0\<rparr>, \<lparr>st_Type = StepString, st_ValueId = 1\<rparr>],
                      [\<lparr>st_Type = StepString, st_ValueId = 2\<rparr>, \<lparr>st_Type = StepCapture, st_ValueId = 1\<rparr>, \<lparr>st_Type = StepString, st_ValueId = 3\<rparr>]]]\<rparr>"

definition example_match :: "nat \<Rightarrow> nat \<Rightarrow> third_match" where
  "example_match a b =
     \<lparr>tm_PatternIndex = 0,
      tm_Captures = [\<lparr>cp_Index = 0, cp_Node = \<lparr>tn_start = a, tn_end = a + 1, tn_row = 0, tn_col = 0\<rparr>\<rparr>,
                     \<lparr>cp_Index = 1, cp_Node = \<lparr>tn_start = b, tn_end = b + 1, tn_row = 0, tn_col = 0\<rparr>\<rparr>]\<rparr>"

definition example_tree :: treeAst where
  "example_tree =
     \<lparr>ast_grammar = ''go'', ast_source = ''xyz'', ast_hasError = False,
      ast_matches = \<lambda>q. [example_match 0 1, example_match 1 1, example_match 0 2]\<rparr>"

definition example_env :: matcher_env where
  "example_env = \<lparr>me_compile = \<lambda>s. Inl ''no'', me_quoteMeta = id\<rparr>"

theorem tree_query_results_witness:
  "\<exists>q st'. GetQuery example_env (\<lambda>g s. Inr example_query) ''go'' ''q'' (Map.empty, \<lparr>rc_regex = Map.empty, rc_matcher = Map.empty\<rparr>) = Inr (Inr q, st') \<and>
     Query example_tree q = Inr [[(''name'', ''x''), (''other'', ''y'')]]"
proof -
  let ?rc = "\<lparr>rc_regex = Map.empty, rc_matcher = Map.empty\<rparr>"
  obtain q st' where q: "GetQuery example_env (\<lambda>g s. Inr example_query) (ast_grammar example_tree) ''q'' (Map.empty, ?rc) = Inr (Inr q, st')"
    by (simp add: GetQuery_def newSitterQuery_def example_query_def example_env_def example_tree_def ParseMatcher_def Let_def)
  have checks: "cache_sound example_env (\<lambda>g s. Inr example_query) Map.empty"
    "regex_coherent (me_compile example_env) (me_quoteMeta example_env) ?rc"
    "CHR '':'' \<notin> set (ast_grammar example_tree)" "query_checked example_query"
    "\<forall>m \<in> set (ast_matches example_tree q). match_checked example_query (ast_source example_tree) m"
    by (simp_all add: cache_sound_def regex_coherent_def example_tree_def query_checked_def example_query_def step_checked_def
        operator_of_def is_matcher_def match_checked_def captures_checked_def example_match_def)
  have "filter (satisfied example_env example_query ''xyz'') [example_match 0 1, example_match 1 1, example_match 0 2] =
      [example_match 0 1]"
    by (simp add: satisfied_def predicate_holds_def example_query_def example_match_def operator_of_def named_def node_text_def
        meaning_def example_env_def Let_def)
  moreover have "captures_of example_query ''xyz'' (example_match 0 1) = [(''name'', ''x''), (''other'', ''y'')]"
    by (simp add: captures_of_def example_query_def example_match_def node_text_def)
  ultimately have "Query example_tree q = Inr [[(''name'', ''x''), (''other'', ''y'')]]"
    using tree_query_results [OF q checks(1-3) _ checks(4,5)] by (simp add: example_tree_def)
  with q show ?thesis by (auto simp: example_tree_def)
qed

text \<open>
  The report of an error in a line of a source: the line after its number, and below it a caret at the
  column, for sources whose bytes 32 bits can count.
\<close>

lemma error_line:
  assumes "source = before @ line @ after" "newline \<notin> set line" "after = [] \<or> hd after = newline" "c \<le> length line"
    and "length source < 2 ^ 32"
  shows "queryErrorAt source row (word_of_nat c) (word_of_nat (length before + c)) =
    Inr (''     '' @ decimal (unat (row + 1)) @ '': '' @ line @ [newline] @
      replicate (length (''     '' @ decimal (unat (row + 1)) @ '': '') + c) (CHR '' '') @ ''^'')"
proof -
  have small: "length before + c < 2 ^ 32" "c < 2 ^ 32" "length before < 2 ^ 32" using assms(1,4,5) by auto
  have diff: "(word_of_nat (length before + c) - word_of_nat c :: 32 word) = word_of_nat (length before)" by simp
  have vals: "unat (word_of_nat (length before + c) :: 32 word) = length before + c"
    "unat (word_of_nat c :: 32 word) = c" "unat (word_of_nat (length before) :: 32 word) = length before"
    using small by (simp_all only: unsigned_of_nat) (simp_all add: take_bit_nat_eq_self_iff)
  have rest: "drop (length before + c) source = drop c line @ after" using assms(1,4) by simp
  have none: "newline \<notin> set (drop c line)" using assms(2) by (meson in_set_dropD)
  have "IndexByte (drop c line @ after) newline = (if after = [] then None else Some (length line - c))"
  proof -
    have "IndexByte (xs @ after) newline = (if after = [] then None else Some (length xs))" if "newline \<notin> set xs" for xs
      using that assms(3) by (induction xs) (cases after; auto)+
    from this [OF none] show ?thesis by simp
  qed
  then show ?thesis
    using assms(1,4) unfolding queryErrorAt_def Let_def diff vals rest by auto
qed

end
