(* ===== verification/Git_Ignore.thy ===== *)
theory Git_Ignore
  imports Watchman Path_Up
begin

text \<open>
  The \<open>.gitignore\<close> files of a walk (\<open>runner/pkg/git/gitignore.go\<close>, \<open>configurer.go\<close>, and the change of the
  walk in \<open>gazelle-gitignore.patch\<close>): reading their patterns, the patterns of names that the program
  matches itself, and which entries a walk leaves out. \<open>filepath.Match\<close>, the other patterns and the matcher
  of go-git are parameters.
\<close>

section \<open>Patterns\<close>

datatype match_result = NoMatch | Exclude | Include

type_synonym match_fun = "string list \<Rightarrow> bool \<Rightarrow> match_result"

record simplePattern =
  sp_domain :: "string list"
  sp_glob :: string
  sp_inclusion :: bool
  sp_dirOnly :: bool

definition newSimplePattern :: "string \<Rightarrow> string list \<Rightarrow> simplePattern option" where
  "newSimplePattern raw domain =
     (let inclusion = HasPrefix raw ''!'';
          s1 = (if inclusion then drop 1 raw else raw);
          s2 = (if \<not> HasSuffix s1 [CHR 0x5C, CHR '' ''] then TrimRight s1 '' '' else s1);
          dirOnly = HasSuffix s2 ''/'';
          s3 = (if dirOnly then take (length s2 - 1) s2 else s2)
      in if str_contains s3 ''/'' then None
         else Some \<lparr>sp_domain = domain, sp_glob = s3, sp_inclusion = inclusion, sp_dirOnly = dirOnly\<rparr>)"

text \<open>\<open>globMatch\<close> is \<open>filepath.Match\<close>, false on a malformed glob.\<close>

definition Match :: "(string \<Rightarrow> string \<Rightarrow> bool) \<Rightarrow> simplePattern \<Rightarrow> match_fun" where
  "Match globMatch p path isDir =
     (if length path \<le> length (sp_domain p) then NoMatch
      else if list_ex (\<lambda>(x, d). x \<noteq> d) (zip path (sp_domain p)) then NoMatch
      else if sp_dirOnly p \<and> \<not> isDir then NoMatch
      else if \<not> globMatch (sp_glob p) (last path) then NoMatch
      else if sp_inclusion p then Include else Exclude)"

text \<open>A pattern: one of the program's own, or one that go-git parsed, by its text and its domain.\<close>

datatype pattern = Simple simplePattern | Parsed string "string list"

definition parsePattern :: "string \<Rightarrow> string list \<Rightarrow> pattern" where
  "parsePattern p domain =
     (case newSimplePattern p domain of Some sp \<Rightarrow> Simple sp | None \<Rightarrow> Parsed p domain)"

fun parse_lines :: "string list \<Rightarrow> string list \<Rightarrow> pattern list" where
  "parse_lines domain [] = []"
| "parse_lines domain (l # ls) =
     (let p = TrimLeft l [CHR '' '', CHR 0x09]
      in if p = '''' \<or> HasPrefix p ''#'' then parse_lines domain ls
         else parsePattern p domain # parse_lines domain ls)"

text \<open>The lines \<open>bufio.Scanner\<close> gives: those before one that is too long.\<close>

definition scanned :: "string \<Rightarrow> string list" where
  "scanned content = map dropCR (takeWhile (\<lambda>l. length l < MaxScanTokenSize) (raw_lines content))"

definition ignore_domain :: "string \<Rightarrow> string list" where
  "ignore_domain rel = (if rel \<noteq> '''' \<and> rel \<noteq> ''.'' then Split slash (Clean rel) else [])"

definition parseIgnore :: "string \<Rightarrow> string \<Rightarrow> pattern list" where
  "parseIgnore rel content = parse_lines (ignore_domain rel) (scanned content)"

section \<open>The walk\<close>

text \<open>What go-git does: parsing a pattern, and matching a path with the patterns in force.\<close>

record go_git =
  gg_pattern :: "string \<Rightarrow> string list \<Rightarrow> match_fun"
  gg_matcher :: "match_fun list \<Rightarrow> string list \<Rightarrow> bool \<Rightarrow> bool"
  gg_glob :: "string \<Rightarrow> string \<Rightarrow> bool"

definition match_pattern :: "go_git \<Rightarrow> pattern \<Rightarrow> match_fun" where
  "match_pattern gg p = (case p of Simple sp \<Rightarrow> Match (gg_glob gg) sp | Parsed raw domain \<Rightarrow> gg_pattern gg raw domain)"

definition createMatcherFunc :: "go_git \<Rightarrow> pattern list \<Rightarrow> string list \<Rightarrow> bool \<Rightarrow> bool" where
  "createMatcherFunc gg ps = gg_matcher gg (map (match_pattern gg) ps)"

text \<open>
  The data are the patterns of the parent, with those of the file if it can be opened; a failure is
  printed. \<open>open\<close> gives the content of a file. Without patterns there is no matcher.
\<close>

definition processGitignoreFile ::
  "go_git \<Rightarrow> (string \<Rightarrow> string option) \<Rightarrow> string \<Rightarrow> string \<Rightarrow> pattern list option \<Rightarrow>
   (string list \<Rightarrow> bool \<Rightarrow> bool) option \<times> pattern list option" where
  "processGitignoreFile gg openFile rootDir gitignorePath d =
     (let inherited = (case d of None \<Rightarrow> [] | Some ps \<Rightarrow> ps);
          ignorePatterns = (case openFile (path_join [rootDir, gitignorePath]) of
                              Some content \<Rightarrow> inherited @ parseIgnore (path_Dir gitignorePath) content
                            | None \<Rightarrow> inherited)
      in if ignorePatterns = [] then (None, None)
         else (Some (createMatcherFunc gg ignorePatterns), Some ignorePatterns))"

text \<open>The configuration of a directory of the walk: the matcher and the patterns.\<close>

record walk_config =
  wc_isGitIgnored :: "(string list \<Rightarrow> bool \<Rightarrow> bool) option"
  wc_gitIgnoreData :: "pattern list option"

text \<open>\<open>loadDirInfo\<close>: a directory that lists a \<open>.gitignore\<close> has it processed; it starts with its parent's configuration.\<close>

definition enter_dir ::
  "go_git \<Rightarrow> (string \<Rightarrow> string option) \<Rightarrow> (string \<Rightarrow> (string \<times> bool) list) \<Rightarrow> string \<Rightarrow> string \<Rightarrow> walk_config \<Rightarrow> walk_config" where
  "enter_dir gg openFile readDir repoRoot rel parent =
     (if list_ex (\<lambda>(n, _). n = ''.gitignore'') (readDir rel) then
        (let gitignorePath = (if rel \<noteq> '''' then rel @ ''/'' else '''') @ ''.gitignore'';
             (m, d) = processGitignoreFile gg openFile repoRoot gitignorePath (wc_gitIgnoreData parent)
         in parent\<lparr>wc_isGitIgnored := m, wc_gitIgnoreData := d\<rparr>)
      else parent)"

text \<open>The entries of a directory that are left, each a name and whether it is a directory.\<close>

definition kept_entries ::
  "(string \<Rightarrow> (string \<times> bool) list) \<Rightarrow> string \<Rightarrow> walk_config \<Rightarrow> (string \<times> bool) list" where
  "kept_entries readDir rel c =
     (case wc_isGitIgnored c of
        None \<Rightarrow> readDir rel
      | Some ignored \<Rightarrow>
          filter (\<lambda>(n, isDir). \<not> ignored ((if rel \<noteq> '''' then Split slash rel else []) @ [n]) isDir) (readDir rel))"

text \<open>The configuration of a directory given by its names, from the root down.\<close>

definition below_dir :: "string \<Rightarrow> string \<Rightarrow> string" where
  "below_dir rel n = (if rel = '''' then n else rel @ ''/'' @ n)"

fun walk_down ::
  "go_git \<Rightarrow> (string \<Rightarrow> string option) \<Rightarrow> (string \<Rightarrow> (string \<times> bool) list) \<Rightarrow> string \<Rightarrow> string \<Rightarrow> walk_config \<Rightarrow> string list \<Rightarrow> bool \<Rightarrow> bool" where
  "walk_down gg openFile readDir repoRoot rel parent [] isDir = True"
| "walk_down gg openFile readDir repoRoot rel parent (n # ns) isDir =
     (let c = enter_dir gg openFile readDir repoRoot rel parent
      in (n, ns \<noteq> [] \<or> isDir) \<in> set (kept_entries readDir rel c) \<and>
         walk_down gg openFile readDir repoRoot (below_dir rel n) c ns isDir)"

text \<open>An entry is found by the walk.\<close>

definition walked :: "go_git \<Rightarrow> (string \<Rightarrow> string option) \<Rightarrow> (string \<Rightarrow> (string \<times> bool) list) \<Rightarrow> string \<Rightarrow> string list \<Rightarrow> bool \<Rightarrow> bool" where
  "walked gg openFile readDir repoRoot path isDir =
     walk_down gg openFile readDir repoRoot '''' \<lparr>wc_isGitIgnored = None, wc_gitIgnoreData = None\<rparr> path isDir"

section \<open>Flags and directives\<close>

text \<open>The processor is registered unless the flag turns it off; the directive of old ends the process.\<close>

definition CheckFlags :: "bool \<Rightarrow> (string \<rightharpoonup> 'x) \<Rightarrow> 'x \<Rightarrow> string \<rightharpoonup> 'x" where
  "CheckFlags enabled exts processor =
     (if enabled then exts(''__aspect:gitignoreProcessor'' \<mapsto> processor) else exts)"

fun git_Configure :: "(string \<times> string) list option \<Rightarrow> unit outcome" where
  "git_Configure None = Inr ()"
| "git_Configure (Some []) = Inr ()"
| "git_Configure (Some ((key, v) # ds)) =
     (if key = ''gitignore'' then Inl (Fatal ''the # gazelle:gitignore directive has been removed'')
      else git_Configure (Some ds))"

section \<open>Which entries a walk finds\<close>

text \<open>The matcher of go-git, as documented: the last pattern that matches a path decides.\<close>

definition last_decides :: "match_result list \<Rightarrow> bool" where
  "last_decides rs = (case filter (\<lambda>r. r \<noteq> NoMatch) (rev rs) of [] \<Rightarrow> False | r # _ \<Rightarrow> r = Exclude)"

definition matcher_law :: "go_git \<Rightarrow> bool" where
  "matcher_law gg \<longleftrightarrow> (\<forall>ps path isDir. gg_matcher gg ps path isDir = last_decides (map (\<lambda>p. p path isDir) ps))"

definition rel_of :: "string list \<Rightarrow> string" where
  "rel_of ns = Join [slash] ns"

text \<open>The patterns of the \<open>.gitignore\<close> of a directory.\<close>

definition dir_patterns ::
  "(string \<Rightarrow> string option) \<Rightarrow> (string \<Rightarrow> (string \<times> bool) list) \<Rightarrow> string \<Rightarrow> string list \<Rightarrow> pattern list" where
  "dir_patterns openFile readDir repoRoot ns =
     (if \<exists>d. (''.gitignore'', d) \<in> set (readDir (rel_of ns)) then
        (case openFile (path_join [repoRoot, rel_of (ns @ [''.gitignore''])]) of
           None \<Rightarrow> []
         | Some content \<Rightarrow> parse_lines ns (scanned content))
      else [])"

definition represents :: "go_git \<Rightarrow> walk_config \<Rightarrow> pattern list \<Rightarrow> bool" where
  "represents gg c ps \<longleftrightarrow>
     wc_gitIgnoreData c = (if ps = [] then None else Some ps) \<and>
     wc_isGitIgnored c = (if ps = [] then None else Some (createMatcherFunc gg ps))"

lemma rel_of_names: "ns \<noteq> [] \<Longrightarrow> rel_of ns = render False ns"
  by (simp add: rel_of_def render_def)

lemma rel_of_empty: "dir_names_ok ns \<Longrightarrow> rel_of ns = '''' \<longleftrightarrow> ns = []"
  by (cases ns rule: rev_cases; cases "butlast ns")
    (auto simp: rel_of_def dir_names_ok_def proper_def Join_append Join_Cons)

lemma rel_of_snoc: "dir_names_ok ns \<Longrightarrow> rel_of (ns @ [n]) = (if rel_of ns = '''' then n else rel_of ns @ ''/'' @ n)"
  using rel_of_empty [of ns] by (cases "ns = []") (simp_all add: rel_of_def Join_append)

lemma Split_rel_of: "dir_names_ok ns \<Longrightarrow> (if rel_of ns \<noteq> '''' then Split slash (rel_of ns) else []) = ns"
  using rel_of_empty [of ns] Split_Join [of ns slash]
  by (auto simp: rel_of_def dir_names_ok_def proper_def)

lemma ignore_domain_names:
  assumes "dir_names_ok ns"
  shows "ignore_domain (path_Dir (rel_of (ns @ [''.gitignore'']))) = ns"
proof -
  have ok: "dir_names_ok (ns @ [''.gitignore''])" using assms by (auto simp: dir_names_ok_def proper_def)
  have dir: "path_Dir (rel_of (ns @ [''.gitignore''])) = render False ns"
    using path_Dir_names [OF ok, of False] by (simp add: rel_of_names)
  show ?thesis
  proof (cases "ns = []")
    case True
    with dir show ?thesis by (simp add: ignore_domain_def render_def)
  next
    case False
    have r: "render False ns = rel_of ns" using False by (simp add: rel_of_names)
    have ne: "rel_of ns \<noteq> ''''" using rel_of_empty [OF assms] False by simp
    have slash: "\<forall>w \<in> set ns. slash \<notin> set w" using assms by (simp add: dir_names_ok_def proper_def)
    have split: "Split slash (rel_of ns) = ns" using Split_rel_of [OF assms] ne by simp
    have "rel_of ns \<noteq> ''.''"
    proof
      assume "rel_of ns = ''.''"
      with split have "ns = [''.'']" by simp
      with assms show False by (simp add: dir_names_ok_def proper_def)
    qed
    moreover have "Clean (rel_of ns) = rel_of ns"
    proof -
      have "clean_elems (rel_of ns) = ns" using clean_elems_render [OF names_normal [OF assms, of False]] r by simp
      moreover have "\<not> IsAbs (rel_of ns)"
      proof
        assume "IsAbs (rel_of ns)"
        then obtain s where "rel_of ns = slash # s" by (cases "rel_of ns") (auto simp: IsAbs_def)
        with split have "hd ns = ''''" by auto
        with assms False show False by (cases ns) (auto simp: dir_names_ok_def proper_def)
      qed
      ultimately show ?thesis using r by (simp add: Clean_def)
    qed
    ultimately show ?thesis using dir r ne split by (simp add: ignore_domain_def)
  qed
qed

lemma enter_dir_represents:
  assumes "dir_names_ok ns" "represents gg c ps"
  shows "represents gg (enter_dir gg openFile readDir repoRoot (rel_of ns) c) (ps @ dir_patterns openFile readDir repoRoot ns)"
proof -
  have path: "(if rel_of ns \<noteq> '''' then rel_of ns @ ''/'' else '''') @ ''.gitignore'' = rel_of (ns @ [''.gitignore''])"
    using rel_of_snoc [OF assms(1), of "''.gitignore''"] by simp
  have listed: "list_ex (\<lambda>(n, _). n = ''.gitignore'') (readDir (rel_of ns)) \<longleftrightarrow> (\<exists>d. (''.gitignore'', d) \<in> set (readDir (rel_of ns)))"
    by (auto simp: list_ex_iff)
  show ?thesis
  proof (cases "openFile (path_join [repoRoot, rel_of (ns @ [''.gitignore''])])")
    case None
    with assms(2) show ?thesis
      unfolding enter_dir_def path listed dir_patterns_def by (auto simp: processGitignoreFile_def represents_def Let_def)
  next
    case (Some content)
    with assms(2) show ?thesis
      unfolding enter_dir_def path listed dir_patterns_def
      by (auto simp: processGitignoreFile_def represents_def Let_def parseIgnore_def ignore_domain_names [OF assms(1)])
  qed
qed

lemma kept_represents:
  assumes "dir_names_ok ns" "represents gg c ps" "matcher_law gg"
  shows "(n, d) \<in> set (kept_entries readDir (rel_of ns) c) \<longleftrightarrow>
    (n, d) \<in> set (readDir (rel_of ns)) \<and> \<not> last_decides (map (\<lambda>p. match_pattern gg p (ns @ [n]) d) ps)"
proof -
  have "createMatcherFunc gg ps path isDir = last_decides (map (\<lambda>p. match_pattern gg p path isDir) ps)" for path isDir
    using assms(3) by (simp add: createMatcherFunc_def matcher_law_def o_def)
  then show ?thesis
    using assms(2) unfolding kept_entries_def represents_def Split_rel_of [OF assms(1)]
    by (auto simp: last_decides_def split: option.splits if_splits)
qed

definition entry_kind :: "string list \<Rightarrow> bool \<Rightarrow> nat \<Rightarrow> bool" where
  "entry_kind path isDir k \<longleftrightarrow> Suc k < length path \<or> isDir"

lemma walk_down_spec:
  assumes "dir_names_ok (ns @ rest)" "represents gg c ps" "matcher_law gg"
  shows "walk_down gg openFile readDir repoRoot (rel_of ns) c rest isDir \<longleftrightarrow>
    (\<forall>k < length rest. (rest ! k, entry_kind rest isDir k) \<in> set (readDir (rel_of (ns @ take k rest))) \<and>
       \<not> last_decides (map (\<lambda>p. match_pattern gg p (ns @ take (Suc k) rest) (entry_kind rest isDir k))
            (ps @ concat (map (\<lambda>j. dir_patterns openFile readDir repoRoot (ns @ take j rest)) [0..<Suc k]))))"
  using assms(1,2)
proof (induction rest arbitrary: ns c ps)
  case (Cons n rest)
  have ok: "dir_names_ok ns" using Cons.prems(1) by (simp add: dir_names_ok_def)
  let ?dp = "dir_patterns openFile readDir repoRoot"
  let ?c = "enter_dir gg openFile readDir repoRoot (rel_of ns) c"
  note here = enter_dir_represents [OF ok Cons.prems(2), of openFile readDir repoRoot]
  have below: "below_dir (rel_of ns) n = rel_of (ns @ [n])" using rel_of_snoc [OF ok, of n] by (simp add: below_dir_def)
  have IH: "walk_down gg openFile readDir repoRoot (rel_of (ns @ [n])) ?c rest isDir \<longleftrightarrow>
    (\<forall>k < length rest. (rest ! k, entry_kind rest isDir k) \<in> set (readDir (rel_of ((ns @ [n]) @ take k rest))) \<and>
       \<not> last_decides (map (\<lambda>p. match_pattern gg p ((ns @ [n]) @ take (Suc k) rest) (entry_kind rest isDir k))
            ((ps @ ?dp ns) @ concat (map (\<lambda>j. ?dp ((ns @ [n]) @ take j rest)) [0..<Suc k]))))"
    by (rule Cons.IH [OF _ here]) (use Cons.prems(1) in simp)
  have kinds: "entry_kind (n # rest) isDir 0 \<longleftrightarrow> rest \<noteq> [] \<or> isDir" "entry_kind (n # rest) isDir (Suc k) \<longleftrightarrow> entry_kind rest isDir k" for k
    by (auto simp: entry_kind_def)
  have above: "concat (map (\<lambda>j. ?dp (ns @ take j (n # rest))) [0..<Suc (Suc k)]) =
      ?dp ns @ concat (map (\<lambda>j. ?dp ((ns @ [n]) @ take j rest)) [0..<Suc k])" for k
  proof -
    have "map (\<lambda>j. ?dp (ns @ take j (n # rest))) [0..<Suc (Suc k)] =
        ?dp (ns @ take 0 (n # rest)) # map (\<lambda>j. ?dp (ns @ take (Suc j) (n # rest))) [0..<Suc k]"
      by (simp only: upt_conv_Cons [of 0 "Suc (Suc k)"] map_Suc_upt [symmetric] list.map map_map o_def zero_less_Suc simp_thms)
    then show ?thesis by (simp del: upt_Suc)
  qed
  have first: "concat (map (\<lambda>j. ?dp (ns @ take j (n # rest))) [0..<Suc 0]) = ?dp ns" by simp
  show ?case
    unfolding walk_down.simps Let_def below IH kept_represents [OF ok here assms(3)] length_Cons All_less_Suc2
      kinds above first
    by simp
qed simp

text \<open>A walk finds an entry when it and the directories above are listed and not decided against by the patterns in force.\<close>

lemma walked_spec:
  assumes "dir_names_ok path" "matcher_law gg"
  shows "walked gg openFile readDir repoRoot path isDir \<longleftrightarrow>
    (\<forall>k < length path. (path ! k, entry_kind path isDir k) \<in> set (readDir (rel_of (take k path))) \<and>
       \<not> last_decides (map (\<lambda>p. match_pattern gg p (take (Suc k) path) (entry_kind path isDir k))
            (concat (map (\<lambda>j. dir_patterns openFile readDir repoRoot (take j path)) [0..<Suc k]))))"
proof -
  have "represents gg \<lparr>wc_isGitIgnored = None, wc_gitIgnoreData = None\<rparr> []" by (simp add: represents_def)
  from walk_down_spec [OF _ this assms(2), of "[]" path openFile readDir repoRoot isDir] assms(1)
  show ?thesis by (simp add: walked_def rel_of_def)
qed

section \<open>Names are matched once\<close>

lemma same_start: "length d \<le> length p \<Longrightarrow> \<not> list_ex (\<lambda>(x, y). x \<noteq> y) (zip p d) \<longleftrightarrow> prefix d p"
proof (induction p arbitrary: d)
  case (Cons x p)
  then show ?case by (cases d) auto
qed simp

lemma Match_Exclude:
  "Match globMatch p path isDir = Exclude \<longleftrightarrow>
     length (sp_domain p) < length path \<and> prefix (sp_domain p) path \<and> (sp_dirOnly p \<longrightarrow> isDir) \<and>
     globMatch (sp_glob p) (last path) \<and> \<not> sp_inclusion p"
  using same_start [of "sp_domain p" path] by (auto simp: Match_def)

lemma Match_Include: "Match globMatch p path isDir = Include \<Longrightarrow> sp_inclusion p"
  by (auto simp: Match_def split: if_splits)

text \<open>
  What a pattern means: a name excludes the paths below its domain that have it as a component, a name for
  directories those that have it as a directory.
\<close>

definition pattern_excludes :: "go_git \<Rightarrow> pattern \<Rightarrow> string list \<Rightarrow> bool \<Rightarrow> bool" where
  "pattern_excludes gg p path isDir =
     (case p of
        Simple sp \<Rightarrow> prefix (sp_domain sp) path \<and>
          (\<exists>i < length path. length (sp_domain sp) \<le> i \<and> gg_glob gg (sp_glob sp) (path ! i) \<and>
             (sp_dirOnly sp \<longrightarrow> Suc i < length path \<or> isDir))
      | Parsed raw domain \<Rightarrow> gg_pattern gg raw domain path isDir = Exclude)"

definition only_excludes :: "(string \<Rightarrow> string option) \<Rightarrow> bool" where
  "only_excludes openFile \<longleftrightarrow> (\<forall>f content. openFile f = Some content \<longrightarrow>
     (\<forall>l \<in> set (scanned content). \<not> HasPrefix (TrimLeft l [CHR '' '', CHR 0x09]) ''!''))"

definition pattern_law :: "go_git \<Rightarrow> bool" where
  "pattern_law gg \<longleftrightarrow> (\<forall>raw domain path isDir. \<not> HasPrefix raw ''!'' \<longrightarrow> gg_pattern gg raw domain path isDir \<noteq> Include)"

lemma newSimplePattern_fields:
  "newSimplePattern raw domain = Some sp \<Longrightarrow> sp_domain sp = domain \<and> (sp_inclusion sp \<longleftrightarrow> HasPrefix raw ''!'')"
  by (auto simp: newSimplePattern_def Let_def split: if_splits)

lemma parse_lines_patterns:
  "p \<in> set (parse_lines domain ls) \<Longrightarrow> \<exists>l \<in> set ls. p = parsePattern (TrimLeft l [CHR '' '', CHR 0x09]) domain"
  by (induction domain ls rule: parse_lines.induct) (auto simp: Let_def split: if_splits)

lemma dir_patterns_cases:
  assumes "p \<in> set (dir_patterns openFile readDir repoRoot ns)" "only_excludes openFile"
  shows "(\<exists>sp. p = Simple sp \<and> sp_domain sp = ns \<and> \<not> sp_inclusion sp) \<or> (\<exists>raw. p = Parsed raw ns \<and> \<not> HasPrefix raw ''!'')"
proof -
  let ?f = "openFile (path_join [repoRoot, rel_of (ns @ [''.gitignore''])])"
  have "p \<in> set (case ?f of None \<Rightarrow> [] | Some content \<Rightarrow> parse_lines ns (scanned content))"
    using assms(1) unfolding dir_patterns_def
    by (cases "\<exists>d. (''.gitignore'', d) \<in> set (readDir (rel_of ns))") (simp_all only: if_True if_False list.set empty_iff simp_thms)
  then obtain content where opened: "?f = Some content" "p \<in> set (parse_lines ns (scanned content))"
    by (cases ?f) (simp_all only: option.case list.set empty_iff)
  then obtain l where l: "l \<in> set (scanned content)" "p = parsePattern (TrimLeft l [CHR '' '', CHR 0x09]) ns"
    using parse_lines_patterns by blast
  let ?raw = "TrimLeft l [CHR '' '', CHR 0x09]"
  have no: "\<not> HasPrefix ?raw ''!''" using opened(1) assms(2) l(1) unfolding only_excludes_def by blast
  show ?thesis
  proof (cases "newSimplePattern ?raw ns")
    case None
    with l(2) no show ?thesis by (simp add: parsePattern_def)
  next
    case (Some sp)
    with newSimplePattern_fields [OF Some] l(2) no show ?thesis by (simp add: parsePattern_def)
  qed
qed

lemma excludes_never_include:
  assumes "p \<in> set (dir_patterns openFile readDir repoRoot ns)" "only_excludes openFile" "pattern_law gg"
  shows "match_pattern gg p path isDir \<noteq> Include"
  using dir_patterns_cases [OF assms(1,2)]
proof (elim disjE exE conjE)
  fix sp assume "p = Simple sp" "\<not> sp_inclusion sp"
  then show ?thesis using Match_Include [of "gg_glob gg" sp path isDir] by (auto simp: match_pattern_def)
next
  fix raw assume "p = Parsed raw ns" "\<not> HasPrefix raw ''!''"
  with assms(3) show ?thesis by (simp add: match_pattern_def pattern_law_def)
qed

lemma last_decides_excludes: "Include \<notin> set rs \<Longrightarrow> last_decides rs \<longleftrightarrow> Exclude \<in> set rs"
proof -
  assume no: "Include \<notin> set rs"
  have "set (filter (\<lambda>r. r \<noteq> NoMatch) (rev rs)) \<subseteq> {Exclude}" using no match_result.exhaust by auto
  then have "last_decides rs \<longleftrightarrow> Exclude \<in> set (filter (\<lambda>r. r \<noteq> NoMatch) (rev rs))"
    by (cases "filter (\<lambda>r. r \<noteq> NoMatch) (rev rs)") (auto simp: last_decides_def)
  then show ?thesis by simp
qed

lemma Match_excludes:
  "Match (gg_glob gg) sp path isDir = Exclude \<Longrightarrow> pattern_excludes gg (Simple sp) path isDir"
  by (cases path rule: rev_cases) (auto simp: Match_Exclude pattern_excludes_def intro!: exI [of _ "length path - 1"])

lemma excluded_component:
  assumes "pattern_excludes gg (Simple sp) (take (Suc k) path) d" "k < length path" "\<not> sp_inclusion sp"
    and "d = entry_kind path isDir k"
  shows "\<exists>i \<le> k. length (sp_domain sp) \<le> i \<and> Match (gg_glob gg) sp (take (Suc i) path) (entry_kind path isDir i) = Exclude"
proof -
  from assms(1) obtain i where i: "i < length (take (Suc k) path)" "length (sp_domain sp) \<le> i"
    "gg_glob gg (sp_glob sp) (take (Suc k) path ! i)" "sp_dirOnly sp \<longrightarrow> Suc i < length (take (Suc k) path) \<or> d"
    "prefix (sp_domain sp) (take (Suc k) path)"
    by (simp only: pattern_excludes_def pattern.case) blast
  have ik: "i \<le> k" "i < length path" using i(1) assms(2) by auto
  have "prefix (sp_domain sp) path" using i(5) by (metis take_is_prefix prefix_order.trans)
  moreover have "prefix (take (Suc i) path) path" by (rule take_is_prefix)
  ultimately have "prefix (sp_domain sp) (take (Suc i) path)"
    by (rule prefix_length_prefix) (use i(2) ik in simp)
  moreover have "last (take (Suc i) path) = path ! i" using ik by (simp add: take_Suc_conv_app_nth)
  moreover have "sp_dirOnly sp \<longrightarrow> entry_kind path isDir i"
    using i(4) assms(2,4) ik by (cases "i = k") (auto simp: entry_kind_def)
  ultimately have "Match (gg_glob gg) sp (take (Suc i) path) (entry_kind path isDir i) = Exclude"
    using i(2,3) ik assms(3) by (simp add: Match_Exclude)
  with ik i(2) show ?thesis by blast
qed

lemma mem_map: "y \<in> set (map f xs) \<longleftrightarrow> (\<exists>x \<in> set xs. f x = y)"
  by auto

lemma set_concat_upto: "set (concat (map g [0..<Suc k])) = (\<Union>j \<le> k. set (g j))"
  by (simp only: set_concat set_map set_upt image_image) (auto simp: less_Suc_eq_le)

text \<open>
  C6 (equivalence). A walk finds an entry exactly when it and the directories above it are listed and no
  \<open>.gitignore\<close> at or above excludes it or a directory above it, where a pattern that is a name excludes every
  path below its directory that has the name as a component. So matching names with the last component
  only, as the program does for speed, loses nothing, when no pattern includes again.
\<close>

theorem walk_ignores:
  assumes "dir_names_ok path" "matcher_law gg" "pattern_law gg" "only_excludes openFile"
  shows "walked gg openFile readDir repoRoot path isDir \<longleftrightarrow>
    (\<forall>k < length path. (path ! k, entry_kind path isDir k) \<in> set (readDir (rel_of (take k path)))) \<and>
    \<not> (\<exists>k < length path. \<exists>j \<le> k. \<exists>p \<in> set (dir_patterns openFile readDir repoRoot (take j path)).
        pattern_excludes gg p (take (Suc k) path) (entry_kind path isDir k))"
proof -
  let ?dp = "\<lambda>j. dir_patterns openFile readDir repoRoot (take j path)"
  let ?m = "\<lambda>k p. match_pattern gg p (take (Suc k) path) (entry_kind path isDir k)"
  note cases = dir_patterns_cases [OF _ assms(4), of _ readDir repoRoot]
  have no: "Include \<notin> set (map (?m k) (concat (map ?dp [0..<Suc k])))" for k
    by (auto simp del: upt_Suc) (metis excludes_never_include [OF _ assms(4,3)])
  have decided: "last_decides (map (?m k) (concat (map ?dp [0..<Suc k]))) \<longleftrightarrow> (\<exists>j \<le> k. \<exists>p \<in> set (?dp j). ?m k p = Exclude)" for k
    unfolding last_decides_excludes [OF no] mem_map set_concat_upto by blast
  have spec: "walked gg openFile readDir repoRoot path isDir \<longleftrightarrow>
    (\<forall>k < length path. (path ! k, entry_kind path isDir k) \<in> set (readDir (rel_of (take k path)))) \<and>
    \<not> (\<exists>k < length path. \<exists>j \<le> k. \<exists>p \<in> set (?dp j). ?m k p = Exclude)"
    unfolding walked_spec [OF assms(1,2)] decided by blast
  have "(\<exists>k < length path. \<exists>j \<le> k. \<exists>p \<in> set (?dp j). ?m k p = Exclude) \<longleftrightarrow>
    (\<exists>k < length path. \<exists>j \<le> k. \<exists>p \<in> set (?dp j). pattern_excludes gg p (take (Suc k) path) (entry_kind path isDir k))"
  proof
    assume "\<exists>k < length path. \<exists>j \<le> k. \<exists>p \<in> set (?dp j). ?m k p = Exclude"
    then obtain k j p where k: "k < length path" "j \<le> k" "p \<in> set (?dp j)" "?m k p = Exclude" by blast
    then have "pattern_excludes gg p (take (Suc k) path) (entry_kind path isDir k)"
      by (cases p) (auto simp: match_pattern_def Match_excludes, simp add: pattern_excludes_def)
    with k show "\<exists>k < length path. \<exists>j \<le> k. \<exists>p \<in> set (?dp j).
        pattern_excludes gg p (take (Suc k) path) (entry_kind path isDir k)" by blast
  next
    assume "\<exists>k < length path. \<exists>j \<le> k. \<exists>p \<in> set (?dp j).
        pattern_excludes gg p (take (Suc k) path) (entry_kind path isDir k)"
    then obtain k j p where k: "k < length path" "j \<le> k" "p \<in> set (?dp j)"
      "pattern_excludes gg p (take (Suc k) path) (entry_kind path isDir k)" by blast
    from cases [OF k(3)] show "\<exists>k < length path. \<exists>j \<le> k. \<exists>p \<in> set (?dp j). ?m k p = Exclude"
    proof (elim disjE exE conjE)
      fix sp assume sp: "p = Simple sp" "sp_domain sp = take j path" "\<not> sp_inclusion sp"
      obtain i where "i \<le> k" "length (sp_domain sp) \<le> i"
        "Match (gg_glob gg) sp (take (Suc i) path) (entry_kind path isDir i) = Exclude"
        using excluded_component [OF k(4) [unfolded sp(1)] k(1) sp(3) refl] by blast
      moreover have "length (sp_domain sp) = j" using sp(2) k(1,2) by simp
      ultimately have "i < length path" "j \<le> i" "?m i p = Exclude"
        using k(1) sp(1) by (simp_all add: match_pattern_def)
      with k(3) show ?thesis by blast
    next
      fix raw assume "p = Parsed raw (take j path)"
      then have "?m k p = Exclude" using k(4) by (simp add: match_pattern_def pattern_excludes_def)
      with k show ?thesis by blast
    qed
  qed
  with spec show ?thesis by simp
qed

definition example_git :: go_git where
  "example_git =
     \<lparr>gg_pattern = \<lambda>raw domain path isDir. if path = domain @ Split slash raw then Exclude else NoMatch,
      gg_matcher = \<lambda>ps path isDir. last_decides (map (\<lambda>p. p path isDir) ps), gg_glob = \<lambda>g n. g = n\<rparr>"

definition example_dirs :: "string \<Rightarrow> (string \<times> bool) list" where
  "example_dirs d =
     (if d = '''' then [(''.gitignore'', False), (''a'', True), (''out'', True)]
      else if d = ''a'' then [(''x'', False), (''out'', True)] else if d = ''a/out'' then [(''y'', False)] else [])"

definition example_ignore :: string where
  "example_ignore = ''# kept out'' @ [newline] @ ''out/'' @ [newline] @ ''a/z'' @ [newline]"

definition example_open :: "string \<Rightarrow> string option" where
  "example_open f = (if f = ''/r/.gitignore'' then Some example_ignore else None)"

theorem walk_ignores_witness:
  "walked example_git example_open example_dirs ''/r'' [''a'', ''x''] False \<and>
   \<not> walked example_git example_open example_dirs ''/r'' [''a'', ''out'', ''y''] False"
proof -
  have lines: "scanned example_ignore = [''# kept out'', ''out/'', ''a/z'']"
    by (simp add: example_ignore_def scanned_def raw_lines_def Let_def MaxScanTokenSize_def dropCR_def TrimSuffix_def
        newline_def suffix_def)
  have laws: "matcher_law example_git" "pattern_law example_git" "dir_names_ok [''a'', ''x'']" "dir_names_ok [''a'', ''out'', ''y'']"
    by (simp_all add: matcher_law_def pattern_law_def example_git_def dir_names_ok_def proper_def)
  have "\<not> HasPrefix (TrimLeft l [CHR '' '', CHR 0x09]) ''!''" if "l \<in> {''# kept out'', ''out/'', ''a/z''}" for l
    using that by (auto simp: TrimLeft_def)
  then have ex: "only_excludes example_open"
    unfolding only_excludes_def example_open_def by (simp add: lines)
  have root: "dir_patterns example_open example_dirs ''/r'' [] =
      [Simple \<lparr>sp_domain = [], sp_glob = ''out'', sp_inclusion = False, sp_dirOnly = True\<rparr>, Parsed ''a/z'' []]"
  proof -
    have "path_join [''/r'', rel_of ([] @ [''.gitignore''])] = ''/r/.gitignore''" by code_simp
    then have "dir_patterns example_open example_dirs ''/r'' [] = parse_lines [] (scanned example_ignore)"
      by (simp add: dir_patterns_def example_dirs_def rel_of_def example_open_def) (auto intro: exI [of _ False])
    also have "\<dots> = [Simple \<lparr>sp_domain = [], sp_glob = ''out'', sp_inclusion = False, sp_dirOnly = True\<rparr>, Parsed ''a/z'' []]"
      unfolding lines by code_simp
    finally show ?thesis .
  qed
  have others: "dir_patterns example_open example_dirs ''/r'' [''a''] = []" "dir_patterns example_open example_dirs ''/r'' [''a'', ''out''] = []"
    by (simp_all add: dir_patterns_def example_dirs_def rel_of_def)
  have "walked example_git example_open example_dirs ''/r'' [''a'', ''x''] False"
    using walk_ignores [OF laws(3,1,2) ex, of example_dirs "''/r''" False] root others
    by (auto simp: less_Suc_eq le_Suc_eq entry_kind_def example_dirs_def rel_of_def pattern_excludes_def example_git_def numeral_2_eq_2)
  moreover have "\<not> walked example_git example_open example_dirs ''/r'' [''a'', ''out'', ''y''] False"
  proof -
    have "pattern_excludes example_git (Simple \<lparr>sp_domain = [], sp_glob = ''out'', sp_inclusion = False, sp_dirOnly = True\<rparr>)
        (take (Suc 1) [''a'', ''out'', ''y'']) (entry_kind [''a'', ''out'', ''y''] False 1)"
      by (auto simp: pattern_excludes_def example_git_def entry_kind_def intro!: exI [of _ 1])
    moreover have "Simple \<lparr>sp_domain = [], sp_glob = ''out'', sp_inclusion = False, sp_dirOnly = True\<rparr>
        \<in> set (dir_patterns example_open example_dirs ''/r'' (take 0 [''a'', ''out'', ''y'']))"
      using root by simp
    moreover have "(1 :: nat) < length [''a'', ''out'', ''y'']" "(0 :: nat) \<le> 1" by simp_all
    ultimately show ?thesis
      using walk_ignores [OF laws(4,1,2) ex, of example_dirs "''/r''" False] by blast
  qed
  ultimately show ?thesis by blast
qed

text \<open>
  With patterns that include again the two readings differ: an included directory includes what is in it
  when every component is matched, and only itself here, as git has it.
\<close>

lemma included_directory:
  "Match globMatch \<lparr>sp_domain = [], sp_glob = g, sp_inclusion = True, sp_dirOnly = False\<rparr> [d, f] isDir = NoMatch \<longleftrightarrow> \<not> globMatch g f"
  by (simp add: Match_def)

end
