(* ===== verification/Parallel.thy ===== *)
theory Parallel
  imports Prelude
begin

text \<open>
  Parallel work (\<open>common/worker.go\<close>): the goroutines of \<open>Parallelize\<close> and its two buffered channels as a
  step relation, one step for each operation of a channel, with the caller that receives the results.
  Processing a value is done with receiving it. The scheduler is the choice of the steps.
\<close>

section \<open>States and steps\<close>

definition MaxWorkerCount :: nat where
  "MaxWorkerCount = 12"

definition workerCount :: "'v list \<Rightarrow> nat" where
  "workerCount values = min MaxWorkerCount (1 + length values div 2)"

text \<open>A worker waits for a value, holds a result to send, or has left its loop.\<close>

datatype 'r worker = Waiting | Holding 'r | Finished

record ('v, 'r) pool =
  pl_unsent :: "'v list"
  pl_valuesCh :: "'v list"
  pl_valuesClosed :: bool
  pl_workers :: "'r worker list"
  pl_resultsCh :: "'r list"
  pl_resultsClosed :: bool
  pl_received :: "'r list"
  pl_ended :: bool

definition Parallelize :: "'v list \<Rightarrow> ('v, 'r) pool" where
  "Parallelize values =
     \<lparr>pl_unsent = values, pl_valuesCh = [], pl_valuesClosed = False, pl_workers = replicate (workerCount values) Waiting,
      pl_resultsCh = [], pl_resultsClosed = False, pl_received = [], pl_ended = False\<rparr>"

text \<open>Both channels have room for as many elements as there are workers.\<close>

inductive pool_step :: "('v \<Rightarrow> 'r) \<Rightarrow> ('v, 'r) pool \<Rightarrow> ('v, 'r) pool \<Rightarrow> bool" for process where
  send: "pl_unsent s = v # vs \<Longrightarrow> length (pl_valuesCh s) < length (pl_workers s) \<Longrightarrow>
    pool_step process s (s\<lparr>pl_unsent := vs, pl_valuesCh := pl_valuesCh s @ [v]\<rparr>)"
| close_values: "pl_unsent s = [] \<Longrightarrow> \<not> pl_valuesClosed s \<Longrightarrow> pool_step process s (s\<lparr>pl_valuesClosed := True\<rparr>)"
| take: "i < length (pl_workers s) \<Longrightarrow> pl_workers s ! i = Waiting \<Longrightarrow> pl_valuesCh s = v # vs \<Longrightarrow>
    pool_step process s (s\<lparr>pl_valuesCh := vs, pl_workers := (pl_workers s)[i := Holding (process v)]\<rparr>)"
| leave: "i < length (pl_workers s) \<Longrightarrow> pl_workers s ! i = Waiting \<Longrightarrow> pl_valuesCh s = [] \<Longrightarrow> pl_valuesClosed s \<Longrightarrow>
    pool_step process s (s\<lparr>pl_workers := (pl_workers s)[i := Finished]\<rparr>)"
| put: "i < length (pl_workers s) \<Longrightarrow> pl_workers s ! i = Holding r \<Longrightarrow> length (pl_resultsCh s) < length (pl_workers s) \<Longrightarrow>
    pool_step process s (s\<lparr>pl_workers := (pl_workers s)[i := Waiting], pl_resultsCh := pl_resultsCh s @ [r]\<rparr>)"
| close_results: "\<forall>w \<in> set (pl_workers s). w = Finished \<Longrightarrow> \<not> pl_resultsClosed s \<Longrightarrow>
    pool_step process s (s\<lparr>pl_resultsClosed := True\<rparr>)"
| receive: "pl_resultsCh s = r # rs \<Longrightarrow> pool_step process s (s\<lparr>pl_resultsCh := rs, pl_received := pl_received s @ [r]\<rparr>)"
| end_loop: "pl_resultsCh s = [] \<Longrightarrow> pl_resultsClosed s \<Longrightarrow> \<not> pl_ended s \<Longrightarrow> pool_step process s (s\<lparr>pl_ended := True\<rparr>)"

inductive_cases pool_stepE: "pool_step process s s'"

section \<open>Nothing is lost\<close>

fun held :: "'r worker \<Rightarrow> 'r multiset" where
  "held (Holding r) = {#r#}"
| "held _ = {#}"

definition results_due :: "('v \<Rightarrow> 'r) \<Rightarrow> ('v, 'r) pool \<Rightarrow> 'r multiset" where
  "results_due process s =
     image_mset process (mset (pl_unsent s)) + image_mset process (mset (pl_valuesCh s)) +
     \<Sum>\<^sub># (mset (map held (pl_workers s))) + mset (pl_resultsCh s) + mset (pl_received s)"

lemma held_update:
  assumes "i < length ws"
  shows "\<Sum>\<^sub># (mset (map held (ws[i := w]))) + held (ws ! i) = \<Sum>\<^sub># (mset (map held ws)) + held w"
  using assms
proof (induction ws arbitrary: i)
  case (Cons x ws)
  show ?case
  proof (cases i)
    case (Suc j)
    with Cons.IH [of j] Cons.prems show ?thesis by (simp add: add_ac)
  qed (simp add: add_ac)
qed simp

lemma held_none: "\<forall>w \<in> set ws. w = Finished \<Longrightarrow> \<Sum>\<^sub># (mset (map held ws)) = {#}"
  by (induction ws) auto

lemma step_results_due: "pool_step process s s' \<Longrightarrow> results_due process s' = results_due process s"
proof (induction rule: pool_step.induct)
  case (take i s v vs)
  then show ?case using held_update [of i "pl_workers s" "Holding (process v)"] by (simp add: results_due_def add_ac)
next
  case (leave i s)
  then show ?case using held_update [of i "pl_workers s" Finished] by (simp add: results_due_def)
next
  case (put i s r)
  then show ?case using held_update [of i "pl_workers s" Waiting] by (simp add: results_due_def add_ac)
qed (auto simp: results_due_def)

section \<open>The pool ends\<close>

definition pool_inv :: "('v, 'r) pool \<Rightarrow> bool" where
  "pool_inv s \<longleftrightarrow> pl_workers s \<noteq> [] \<and>
     (pl_valuesClosed s \<longrightarrow> pl_unsent s = []) \<and>
     (Finished \<in> set (pl_workers s) \<longrightarrow> pl_valuesClosed s \<and> pl_valuesCh s = []) \<and>
     (pl_resultsClosed s \<longrightarrow> (\<forall>w \<in> set (pl_workers s). w = Finished)) \<and>
     (pl_ended s \<longrightarrow> pl_resultsClosed s \<and> pl_resultsCh s = [])"

lemma Parallelize_inv: "pool_inv (Parallelize values)"
  by (simp add: pool_inv_def Parallelize_def workerCount_def MaxWorkerCount_def)

lemma step_inv: "pool_step process s s' \<Longrightarrow> pool_inv s \<Longrightarrow> pool_inv s'"
proof (induction rule: pool_step.induct)
  case (take i s v vs)
  then have "Waiting \<in> set (pl_workers s)" by (metis nth_mem)
  with take have "Finished \<notin> set (pl_workers s)" "\<not> pl_resultsClosed s" by (auto simp: pool_inv_def)
  with take show ?case by (auto simp: pool_inv_def dest!: subsetD [OF set_update_subset_insert])
next
  case (leave i s)
  then have "Waiting \<in> set (pl_workers s)" by (metis nth_mem)
  with leave have "\<not> pl_resultsClosed s" by (auto simp: pool_inv_def)
  with leave show ?case by (auto simp: pool_inv_def)
next
  case (put i s r)
  then have "Holding r \<in> set (pl_workers s)" by (metis nth_mem)
  with put have "\<not> pl_resultsClosed s" by (auto simp: pool_inv_def)
  with put show ?case by (auto simp: pool_inv_def dest!: subsetD [OF set_update_subset_insert])
qed (auto simp: pool_inv_def)

fun worker_work :: "'r worker \<Rightarrow> nat" where
  "worker_work Waiting = 1"
| "worker_work (Holding r) = 3"
| "worker_work Finished = 0"

text \<open>How many steps are left at most.\<close>

definition work_left :: "('v, 'r) pool \<Rightarrow> nat" where
  "work_left s =
     5 * length (pl_unsent s) + 4 * length (pl_valuesCh s) + sum_list (map worker_work (pl_workers s)) + length (pl_resultsCh s) +
     (if pl_valuesClosed s then 0 else 1) + (if pl_resultsClosed s then 0 else 1) + (if pl_ended s then 0 else 1)"

lemma worker_work_update:
  "i < length ws \<Longrightarrow> sum_list (map worker_work (ws[i := w])) + worker_work (ws ! i) = sum_list (map worker_work ws) + worker_work w"
proof (induction ws arbitrary: i)
  case (Cons x ws)
  show ?case
  proof (cases i)
    case (Suc j)
    with Cons.IH [of j] Cons.prems show ?thesis by simp
  qed simp
qed simp

lemma step_work: "pool_step process s s' \<Longrightarrow> work_left s' < work_left s"
proof (induction rule: pool_step.induct)
  case (take i s v vs)
  then show ?case using worker_work_update [of i "pl_workers s" "Holding (process v)"] by (simp add: work_left_def)
next
  case (leave i s)
  then show ?case using worker_work_update [of i "pl_workers s" Finished] by (simp add: work_left_def)
next
  case (put i s r)
  then show ?case using worker_work_update [of i "pl_workers s" Waiting] by (simp add: work_left_def)
qed (auto simp: work_left_def)

lemma no_deadlock:
  assumes "pool_inv s" "\<not> pl_ended s"
  shows "\<exists>s'. pool_step process s s'"
proof (cases "pl_resultsCh s")
  case (Cons r rs)
  then show ?thesis by (blast intro: receive)
next
  case Nil
  show ?thesis
  proof (cases "pl_resultsClosed s")
    case True
    with Nil assms(2) show ?thesis by (blast intro: end_loop)
  next
    case open_results: False
    have room: "length (pl_resultsCh s) < length (pl_workers s)" using assms(1) Nil by (simp add: pool_inv_def)
    consider (all) "\<forall>w \<in> set (pl_workers s). w = Finished" | (holding) r where "Holding r \<in> set (pl_workers s)"
      | (waiting) "Waiting \<in> set (pl_workers s)"
      by (metis worker.exhaust)
    then show ?thesis
    proof cases
      case all
      with open_results show ?thesis by (blast intro: close_results)
    next
      case holding
      then obtain i where "i < length (pl_workers s)" "pl_workers s ! i = Holding r" by (auto simp: in_set_conv_nth)
      with room show ?thesis by (blast intro: put)
    next
      case waiting
      then obtain i where i: "i < length (pl_workers s)" "pl_workers s ! i = Waiting" by (auto simp: in_set_conv_nth)
      show ?thesis
      proof (cases "pl_valuesCh s")
        case (Cons v vs)
        with i show ?thesis by (blast intro: take)
      next
        case no_values: Nil
        show ?thesis
        proof (cases "pl_valuesClosed s")
          case True
          with i no_values show ?thesis by (blast intro: leave)
        next
          case False
          have "length (pl_valuesCh s) < length (pl_workers s)" using i(1) no_values by auto
          with False show ?thesis by (cases "pl_unsent s") (blast intro: send close_values)+
        qed
      qed
    qed
  qed
qed

lemma ended_stops: "pool_inv s \<Longrightarrow> pl_ended s \<Longrightarrow> \<not> pool_step process s s'"
proof
  assume h: "pool_inv s" "pl_ended s" "pool_step process s s'"
  then have all: "\<forall>w \<in> set (pl_workers s). w = Finished" "pl_workers s \<noteq> []" by (auto simp: pool_inv_def)
  then have "Finished \<in> set (pl_workers s)" by (cases "pl_workers s") auto
  with h(1,2) have closed: "pl_valuesClosed s" "pl_unsent s = []" "pl_resultsClosed s" "pl_resultsCh s = []"
    by (auto simp: pool_inv_def)
  from h(3) show False by (cases rule: pool_stepE) (use all closed h(2) nth_mem in \<open>force\<close>)+
qed

lemma reachable_pool:
  assumes "(pool_step process)\<^sup>*\<^sup>* (Parallelize values) s"
  shows "pool_inv s \<and> results_due process s = image_mset process (mset values)"
  using assms
proof (induction rule: rtranclp_induct)
  case base
  have "results_due process (Parallelize values) = image_mset process (mset values)"
    by (simp add: results_due_def Parallelize_def)
  with Parallelize_inv show ?case by blast
next
  case (step s s')
  then show ?case using step_inv step_results_due by metis
qed

text \<open>Two values and two workers: the second worker is the first to send its result.\<close>

lemma two_values_run:
  "(pool_step Suc ^^ 13) (Parallelize [3, 4])
     \<lparr>pl_unsent = [], pl_valuesCh = [], pl_valuesClosed = True, pl_workers = [Finished, Finished],
      pl_resultsCh = [], pl_resultsClosed = True, pl_received = [5, 4], pl_ended = True\<rparr>"
proof -
  let ?st = "\<lambda>u c vc ws rc rd got e.
     \<lparr>pl_unsent = u, pl_valuesCh = c, pl_valuesClosed = vc, pl_workers = ws, pl_resultsCh = rc, pl_resultsClosed = rd,
      pl_received = got, pl_ended = e\<rparr> :: (nat, nat) pool"
  note step = relpowp_Suc_I2 [of "pool_step Suc"]
  have start: "Parallelize [3, 4] = ?st [3, 4] [] False [Waiting, Waiting] [] False [] False"
    by (simp add: Parallelize_def workerCount_def MaxWorkerCount_def)
  have 1: "pool_step Suc (?st (v # vs) c vc [w, w'] rc rd got e) (?st vs (c @ [v]) vc [w, w'] rc rd got e)" if "length c < 2"
    for v vs c vc w w' rc rd got e
    using pool_step.send [of "?st (v # vs) c vc [w, w'] rc rd got e" v vs Suc] that by simp
  have 2: "pool_step Suc (?st [] c False ws rc rd got e) (?st [] c True ws rc rd got e)" for c ws rc rd got e
    using pool_step.close_values [of "?st [] c False ws rc rd got e" Suc] by simp
  have 3: "pool_step Suc (?st u (v # vs) vc ws rc rd got e) (?st u vs vc (ws[i := Holding (Suc v)]) rc rd got e)"
    if "i < length ws" "ws ! i = Waiting" for u v vs vc ws rc rd got e i
    using pool_step.take [of i "?st u (v # vs) vc ws rc rd got e" v vs Suc] that by simp
  have 4: "pool_step Suc (?st u [] True ws rc rd got e) (?st u [] True (ws[i := Finished]) rc rd got e)"
    if "i < length ws" "ws ! i = Waiting" for u ws rc rd got e i
    using pool_step.leave [of i "?st u [] True ws rc rd got e" Suc] that by simp
  have 5: "pool_step Suc (?st u c vc ws rc rd got e) (?st u c vc (ws[i := Waiting]) (rc @ [r]) rd got e)"
    if "i < length ws" "ws ! i = Holding r" "length rc < length ws" for u c vc ws rc rd got e i r
    using pool_step.put [of i "?st u c vc ws rc rd got e" r Suc] that by simp
  have 6: "pool_step Suc (?st u c vc ws (r # rc) rd got e) (?st u c vc ws rc rd (got @ [r]) e)" for u c vc ws rc rd got e r
    using pool_step.receive [of "?st u c vc ws (r # rc) rd got e" r rc Suc] by simp
  have 7: "pool_step Suc (?st u c vc [Finished, Finished] rc False got e) (?st u c vc [Finished, Finished] rc True got e)"
    for u c vc rc got e
    using pool_step.close_results [of "?st u c vc [Finished, Finished] rc False got e" Suc] by simp
  have 8: "pool_step Suc (?st u c vc ws [] True got False) (?st u c vc ws [] True got True)" for u c vc ws got
    using pool_step.end_loop [of "?st u c vc ws [] True got False" Suc] by simp
  have thirteen: "(13::nat) = Suc (Suc (Suc (Suc (Suc (Suc (Suc (Suc (Suc (Suc (Suc (Suc (Suc 0))))))))))))" by simp
  show ?thesis unfolding thirteen start
    apply (rule step, rule 1, simp)
    apply (rule step, rule 1, simp)
    apply (rule step, rule 2)
    apply (rule step, simp, rule 3 [where i = 0], simp, simp)
    apply (rule step, simp, rule 3 [where i = 1], simp, simp)
    apply (rule step, simp, rule 5 [where i = 1], simp, simp, simp)
    apply (rule step, simp, rule 5 [where i = 0], simp, simp, simp)
    apply (rule step, simp, rule 6)
    apply (rule step, simp, rule 6)
    apply (rule step, simp, rule 4 [where i = 0], simp, simp)
    apply (rule step, simp, rule 4 [where i = 1], simp, simp)
    apply (rule step, simp, rule 7)
    apply (rule step, rule 8)
    apply simp
    done
qed

text \<open>
  C5 (liveness). However its goroutines are scheduled, \<open>Parallelize\<close> neither deadlocks nor runs on: every
  schedule is bounded, one that can go on does so until the loop of the caller ends, and at that time
  the results received are the results of all values, each as often as the value occurs.
\<close>

theorem parallel_results:
  fixes process :: "'v \<Rightarrow> 'r"
  shows "(pool_step process ^^ k) (Parallelize values) s \<longrightarrow>
     k \<le> work_left (Parallelize values :: ('v, 'r) pool) \<and> (pl_ended s \<longleftrightarrow> \<not> (\<exists>s'. pool_step process s s')) \<and>
     (pl_ended s \<longrightarrow> mset (pl_received s) = mset (map process values))"
proof
  assume run: "(pool_step process ^^ k) (Parallelize values) s"
  have "k + work_left s \<le> work_left (Parallelize values :: ('v, 'r) pool)" using run
  proof (induction k arbitrary: s)
    case (Suc k)
    then obtain s1 where "(pool_step process ^^ k) (Parallelize values) s1" "pool_step process s1 s" by auto
    with Suc.IH [of s1] step_work [of process s1 s] show ?case by simp
  qed auto
  moreover have reach: "pool_inv s" "results_due process s = image_mset process (mset values)"
    using reachable_pool relpowp_imp_rtranclp [OF run] by auto
  moreover have "mset (pl_received s) = mset (map process values)" if "pl_ended s"
  proof -
    have all: "\<forall>w \<in> set (pl_workers s). w = Finished" "pl_workers s \<noteq> []" "pl_resultsCh s = []"
      using that reach(1) by (auto simp: pool_inv_def)
    then have fin: "Finished \<in> set (pl_workers s)" by (cases "pl_workers s") auto
    then have "pl_unsent s = []" "pl_valuesCh s = []" using reach(1) by (auto simp: pool_inv_def)
    moreover have "\<Sum>\<^sub># (mset (map held (pl_workers s))) = {#}"
      using all(1) by (rule held_none)
    ultimately have "results_due process s = mset (pl_received s)"
      using all(3) unfolding results_due_def by (simp only: mset.simps image_mset_empty add_0 add_0_right)
    with reach(2) show ?thesis by simp
  qed
  ultimately show "k \<le> work_left (Parallelize values :: ('v, 'r) pool) \<and> (pl_ended s \<longleftrightarrow> \<not> (\<exists>s'. pool_step process s s')) \<and>
      (pl_ended s \<longrightarrow> mset (pl_received s) = mset (map process values))"
    using no_deadlock [of s process] ended_stops [of s process] by auto
qed

theorem parallel_results_witness:
  "let s = \<lparr>pl_unsent = [], pl_valuesCh = [], pl_valuesClosed = True, pl_workers = [Finished, Finished],
       pl_resultsCh = [], pl_resultsClosed = True, pl_received = [5, 4], pl_ended = True\<rparr> :: (nat, nat) pool
   in \<not> (\<exists>s'. pool_step Suc s s') \<and> mset (pl_received s) = mset (map Suc [3, 4])"
  using parallel_results [THEN mp, OF two_values_run] by (simp add: Let_def)

end
