(* ===== verification/Runner_Main.thy ===== *)
theory Runner_Main
  imports Runner Workspace
begin

text \<open>
  The programs (\<open>runner/bin/gazelle\<close>: \<open>args.go\<close>, \<open>languages.go\<close>, \<open>main.go\<close>; the configuration file of
  \<open>runner/bin/cli/main.go\<close>): the arguments that are not passed on to gazelle, the languages, the workspace
  directory (\<open>common/bazel\<close>) and how a run ends.
\<close>

section \<open>Arguments\<close>

text \<open>\<open>slices.IndexFunc\<close> and \<open>slices.Delete\<close>.\<close>

fun IndexFunc :: "('a \<Rightarrow> bool) \<Rightarrow> 'a list \<Rightarrow> nat option" where
  "IndexFunc P [] = None"
| "IndexFunc P (x # xs) = (if P x then Some 0 else map_option Suc (IndexFunc P xs))"

definition slices_Delete :: "'a list \<Rightarrow> nat \<Rightarrow> nat \<Rightarrow> 'a list" where
  "slices_Delete xs i j = take i xs @ drop j xs"

definition extractFlag :: "string \<Rightarrow> bool \<Rightarrow> string list \<Rightarrow> bool \<times> string list" where
  "extractFlag flag defaultValue args =
     (case IndexFunc (\<lambda>s. s = ''--'' @ flag) args of
        Some i \<Rightarrow> (True, slices_Delete args i (i + 1))
      | None \<Rightarrow>
          (case IndexFunc (\<lambda>s. s = ''-'' @ flag) args of
             Some i \<Rightarrow> (True, slices_Delete args i (i + 1))
           | None \<Rightarrow> (defaultValue, args)))"

definition is_flag :: "string \<Rightarrow> string \<Rightarrow> bool" where
  "is_flag flag s \<longleftrightarrow>
     s = ''-'' @ flag \<or> s = ''--'' @ flag \<or> HasPrefix s ((''-'' @ flag) @ ''='') \<or> HasPrefix s ((''--'' @ flag) @ ''='')"

definition extractArg :: "string \<Rightarrow> string \<Rightarrow> string list \<Rightarrow> (string \<times> string list) outcome" where
  "extractArg flag defaultValue args =
     (case IndexFunc (is_flag flag) args of
        None \<Rightarrow> Inr (defaultValue, args)
      | Some i \<Rightarrow>
          (case CutByte (args ! i) (CHR ''='') of
             (usedFlag, v, hasEqual) \<Rightarrow>
               if \<not> hasEqual then
                 (if length args \<le> i + 1 then Inl (Fatal ''ERROR: flag requires an argument'')
                  else Inr (args ! (i + 1), slices_Delete args i (i + 2)))
               else Inr (v, slices_Delete args i (i + 1))))"

definition extractOptionalArg :: "string \<Rightarrow> string \<Rightarrow> string list \<Rightarrow> string \<times> string list" where
  "extractOptionalArg flag defaultBare args =
     (case IndexFunc (is_flag flag) args of
        None \<Rightarrow> ('''', args)
      | Some i \<Rightarrow>
          (case CutByte (args ! i) (CHR ''='') of
             (_, v, _) \<Rightarrow> (if v = '''' then defaultBare else v, slices_Delete args i (i + 1))))"

definition cacheTypes :: "string list" where
  "cacheTypes = ['''', ''disk'', ''watchman'']"

definition parseArgs :: "string list \<Rightarrow> (string \<times> string \<times> bool \<times> string \<times> string list) outcome" where
  "parseArgs args0 =
     (let (cmd, args) =
        (case args0 of
           a # as \<Rightarrow> if a = ''update'' \<or> a = ''fix'' then (a, as) else (''update'', args0)
         | [] \<Rightarrow> (''update'', args0))
      in case extractArg ''mode'' ''fix'' args of
           Inl e \<Rightarrow> Inl e
         | Inr (mode, args1) \<Rightarrow>
             (let (progress, args2) = extractFlag ''progress'' False args1;
                  (ct, args3) = extractOptionalArg ''cache'' ''disk'' args2
              in if ct \<in> set cacheTypes then Inr (cmd, mode, progress, ct, args3)
                 else Inl (Fatal ''ERROR: invalid --cache value'')))"

section \<open>Languages\<close>

definition envLanguages :: "string list" where
  "envLanguages = [''visibility_extension'', ''proto'', ''go'', ''starlark'', ''python'', ''js'']"

definition resolveLanguages :: "string list \<Rightarrow> string \<Rightarrow> string \<Rightarrow> string \<Rightarrow> string list" where
  "resolveLanguages defaults enableLangs orionExt orionExtDir =
     (let result = (if enableLangs = '''' then defaults else Split (CHR '','') enableLangs)
      in if (orionExt \<noteq> '''' \<or> orionExtDir \<noteq> '''') \<and> ''orion'' \<notin> set result then result @ [''orion''] else result)"

fun add_languages :: "string list \<Rightarrow> gazelle_runner \<Rightarrow> gazelle_runner outcome" where
  "add_languages [] r = Inr r"
| "add_languages (l # ls) r = (case AddLanguage l r of Inl e \<Rightarrow> Inl e | Inr r' \<Rightarrow> add_languages ls r')"

section \<open>The workspace directory\<close>

text \<open>What the package is initialised with; \<open>getwd\<close> is the working directory of the process or an error.\<close>

definition wkspDirectory :: "(string \<Rightarrow> string) \<Rightarrow> string + string \<Rightarrow> (string \<Rightarrow> stat_result) \<Rightarrow> string outcome" where
  "wkspDirectory env getwd stat =
     (if env ''BUILD_WORKSPACE_DIRECTORY'' \<noteq> '''' then Inr (env ''BUILD_WORKSPACE_DIRECTORY'')
      else
        (let found = (\<lambda>wd. case Find stat wd of Inl _ \<Rightarrow> '''' | Inr wr \<Rightarrow> wr)
         in if env ''BUILD_WORKING_DIRECTORY'' \<noteq> '''' then Inr (found (env ''BUILD_WORKING_DIRECTORY''))
            else case getwd of Inl err \<Rightarrow> Inl (Panic err) | Inr wd \<Rightarrow> Inr (found wd)))"

definition FindWorkspaceDirectory :: "string \<Rightarrow> string outcome" where
  "FindWorkspaceDirectory dir = (if dir = '''' then Inl (Panic ''workspace directory not initialized'') else Inr dir)"

section \<open>The program\<close>

text \<open>The factory that \<open>--cache\<close> sets before a run outside of watch mode.\<close>

datatype cache_choice = InitialCache | DiskCache | WatchmanCache

definition chosen_cache :: "string \<Rightarrow> cache_choice" where
  "chosen_cache ct = (if ct = ''disk'' then DiskCache else if ct = ''watchman'' then WatchmanCache else InitialCache)"

text \<open>The end of a run: an update outside of mode \<open>fix\<close> is the exit code 1.\<close>

definition generate_end :: "string \<Rightarrow> (bool \<times> string option) outcome \<Rightarrow> unit outcome" where
  "generate_end mode res =
     (case res of
        Inl e \<Rightarrow> Inl e
      | Inr (hasChanges, Some err) \<Rightarrow> Inl (Fatal (''Error running gazelle: '' @ err))
      | Inr (hasChanges, None) \<Rightarrow> if hasChanges \<and> mode \<noteq> ''fix'' then Inl OsExit else Inr ())"

definition watch_session_end :: "watch_end \<Rightarrow> unit outcome" where
  "watch_session_end e =
     (case e of
        WatchExits \<Rightarrow> Inr ()
      | WatchError err \<Rightarrow> Inl (Fatal (''Error running gazelle watcher: '' @ err))
      | WatchDies s \<Rightarrow> Inl s)"

text \<open>
  \<open>watch\<close> and \<open>generate\<close> are the two modes of the runner, applied to the command, the mode and the arguments:
  \<open>Watch\<close> for the address of the host, and \<open>Generate\<close> with the cache that was chosen.
\<close>

definition gazelle_main ::
  "bool \<Rightarrow> (string \<Rightarrow> string) \<Rightarrow> string outcome \<Rightarrow> string list \<Rightarrow>
   (string \<Rightarrow> gazelle_runner \<Rightarrow> string \<Rightarrow> string \<Rightarrow> string list \<Rightarrow> watch_end) \<Rightarrow>
   (cache_choice \<Rightarrow> gazelle_runner \<Rightarrow> string \<Rightarrow> string \<Rightarrow> string list \<Rightarrow> (bool \<times> string option) outcome) \<Rightarrow> unit outcome" where
  "gazelle_main terminal env dir args watch generate =
     (case dir of Inl e \<Rightarrow> Inl e | Inr d \<Rightarrow>
      case FindWorkspaceDirectory d of Inl e \<Rightarrow> Inl e | Inr wd \<Rightarrow>
      case parseArgs args of Inl e \<Rightarrow> Inl e | Inr (cmd, mode, progress, ct, rest) \<Rightarrow>
      case add_languages
             (resolveLanguages envLanguages (env ''ENABLE_LANGUAGES'') (env ''ORION_EXTENSIONS'') (env ''ORION_EXTENSIONS_DIR''))
             (New_runner terminal env wd progress) of Inl e \<Rightarrow> Inl e | Inr r \<Rightarrow>
      if env ''ABAZEL_WATCH_SOCKET_FILE'' \<noteq> '''' then watch_session_end (watch (env ''ABAZEL_WATCH_SOCKET_FILE'') r cmd mode rest)
      else generate_end mode (generate (chosen_cache ct) r cmd mode rest))"

section \<open>The configuration file of the Aspect CLI\<close>

text \<open>
  The nodes of a YAML mapping are its keys and values in turn, each a tag and a text. The code goes over all
  of them and takes every string for a language, with the next node as its value.
\<close>

fun enabled_languages :: "(string \<times> string) list \<Rightarrow> string list outcome" where
  "enabled_languages [] = Inr []"
| "enabled_languages ((tag, lang) # nodes) =
     (if tag \<noteq> ''!!str'' then enabled_languages nodes
      else
        (case nodes of
           [] \<Rightarrow> Inl (Panic ''index out of range'')
         | (_, v) # _ \<Rightarrow> map_sum id (\<lambda>ls. if v = ''true'' then lang # ls else ls) (enabled_languages nodes)))"

text \<open>\<open>decode\<close> reads the file and decodes it to the nodes of its languages and its plugins.\<close>

definition readConfigFile ::
  "(string \<Rightarrow> string + (string \<times> string) list \<times> string list) \<Rightarrow> string + string \<Rightarrow> string \<Rightarrow>
   (string + string list \<times> string list) outcome" where
  "readConfigFile decode getwd configFile =
     (case getwd of Inl err \<Rightarrow> Inr (Inl err) | Inr wd \<Rightarrow>
      case decode (path_join [wd, configFile]) of Inl err \<Rightarrow> Inr (Inl err) | Inr (content, plugins) \<Rightarrow>
      case enabled_languages content of Inl e \<Rightarrow> Inl e | Inr languages \<Rightarrow> Inr (Inr (languages, plugins)))"

section \<open>Flags may stand anywhere\<close>

text \<open>
  A flag of the program is written with one dash (\<open>False\<close>) or two, its value after \<open>=\<close> or, for the mode, as the
  next argument.
\<close>

datatype arg_token =
    Plain string
  | ModeEq bool string
  | ModeNext bool string
  | ProgressFlag bool
  | CacheBare bool
  | CacheEq bool string

definition dashes :: "bool \<Rightarrow> string" where
  "dashes two = (if two then ''--'' else ''-'')"

fun arg_words :: "arg_token \<Rightarrow> string list" where
  "arg_words (Plain s) = [s]"
| "arg_words (ModeEq d v) = [dashes d @ ''mode='' @ v]"
| "arg_words (ModeNext d v) = [dashes d @ ''mode'', v]"
| "arg_words (ProgressFlag d) = [dashes d @ ''progress'']"
| "arg_words (CacheBare d) = [dashes d @ ''cache'']"
| "arg_words (CacheEq d v) = [dashes d @ ''cache='' @ v]"

definition words_of :: "arg_token list \<Rightarrow> string list" where
  "words_of ts = concat (map arg_words ts)"

fun mode_arg :: "arg_token \<Rightarrow> string option" where
  "mode_arg (ModeEq d v) = Some v"
| "mode_arg (ModeNext d v) = Some v"
| "mode_arg _ = None"

fun progress_arg :: "arg_token \<Rightarrow> unit option" where
  "progress_arg (ProgressFlag d) = Some ()"
| "progress_arg _ = None"

fun cache_arg :: "arg_token \<Rightarrow> string option" where
  "cache_arg (CacheBare d) = Some ''disk''"
| "cache_arg (CacheEq d v) = Some (if v = '''' then ''disk'' else v)"
| "cache_arg _ = None"

fun plain_arg :: "arg_token \<Rightarrow> bool" where
  "plain_arg (Plain s) \<longleftrightarrow>
     \<not> is_flag ''mode'' s \<and> \<not> is_flag ''cache'' s \<and> s \<noteq> ''--progress'' \<and> s \<noteq> ''-progress''"
| "plain_arg _ \<longleftrightarrow> False"

text \<open>At most one token of a kind.\<close>

definition one_of :: "('t \<Rightarrow> 'v option) \<Rightarrow> 't list \<Rightarrow> bool" where
  "one_of f ts \<longleftrightarrow> length (filter (\<lambda>t. f t \<noteq> None) ts) \<le> 1"

fun well_written :: "arg_token \<Rightarrow> bool" where
  "well_written (Plain s) \<longleftrightarrow> plain_arg (Plain s)"
| "well_written _ \<longleftrightarrow> True"

lemma words_of_simps [simp]: "words_of [] = []" "words_of (t # ts) = arg_words t @ words_of ts"
    "words_of (ts @ us) = words_of ts @ words_of us"
  by (simp_all add: words_of_def)

lemma IndexFunc_found: "\<forall>x \<in> set xs. \<not> P x \<Longrightarrow> P y \<Longrightarrow> IndexFunc P (xs @ y # ys) = Some (length xs)"
  by (induction xs) auto

lemma IndexFunc_none: "\<forall>x \<in> set xs. \<not> P x \<Longrightarrow> IndexFunc P xs = None"
  by (induction xs) auto

lemma slices_Delete_at: "slices_Delete (xs @ ys @ zs) (length xs) (length xs + length ys) = xs @ zs"
  by (simp add: slices_Delete_def)

lemmas Delete_one = slices_Delete_at [of _ "[y]" for y, simplified]
lemmas Delete_two = slices_Delete_at [of _ "[y, z]" for y z, simplified]

lemma one_of_split:
  assumes "one_of f ts"
  shows "(\<forall>t \<in> set ts. f t = None) \<or>
    (\<exists>us t vs v. ts = us @ t # vs \<and> f t = Some v \<and> (\<forall>u \<in> set us \<union> set vs. f u = None))"
proof (cases "\<forall>t \<in> set ts. f t = None")
  case False
  then obtain t where "t \<in> set ts" "f t \<noteq> None" by blast
  then obtain us vs where ts: "ts = us @ t # vs" by (meson split_list)
  have "filter (\<lambda>t. f t \<noteq> None) us = []" "filter (\<lambda>t. f t \<noteq> None) vs = []"
    using assms \<open>f t \<noteq> None\<close> by (auto simp: one_of_def ts)
  then have "\<forall>u \<in> set us \<union> set vs. f u = None" by (auto simp: filter_empty_conv)
  with ts \<open>f t \<noteq> None\<close> show ?thesis by blast
qed simp

lemma no_mode_words: "well_written t \<Longrightarrow> mode_arg t = None \<Longrightarrow> \<forall>w \<in> set (arg_words t). \<not> is_flag ''mode'' w"
  by (cases t) (auto simp: is_flag_def dashes_def)

lemma no_cache_words:
  "well_written t \<Longrightarrow> mode_arg t = None \<Longrightarrow> cache_arg t = None \<Longrightarrow> \<forall>w \<in> set (arg_words t). \<not> is_flag ''cache'' w"
  by (cases t) (auto simp: is_flag_def dashes_def)

lemma no_progress_words:
  "well_written t \<Longrightarrow> mode_arg t = None \<Longrightarrow> progress_arg t = None \<Longrightarrow>
     \<forall>w \<in> set (arg_words t). w \<noteq> ''--progress'' \<and> w \<noteq> ''-progress''"
  by (cases t) (auto simp: dashes_def)

lemma words_without: "(\<And>t. t \<in> set ts \<Longrightarrow> \<forall>w \<in> set (arg_words t). P w) \<Longrightarrow> \<forall>w \<in> set (words_of ts). P w"
  by (auto simp: words_of_def)

lemma words_within:
  assumes "\<forall>u \<in> set us \<union> set vs. \<forall>w \<in> set (arg_words u). P w"
  shows "\<forall>w \<in> set (words_of us). P w" "\<forall>w \<in> set (words_of vs). P w"
  using assms by (auto simp: words_of_def)

definition arg_or :: "('t \<Rightarrow> 'v option) \<Rightarrow> 'v \<Rightarrow> 't list \<Rightarrow> 'v" where
  "arg_or f v ts = (case first_some f ts of None \<Rightarrow> v | Some v' \<Rightarrow> v')"

definition without :: "('t \<Rightarrow> 'v option) \<Rightarrow> 't list \<Rightarrow> 't list" where
  "without f ts = filter (\<lambda>t. f t = None) ts"

lemma arg_none:
  assumes "\<forall>t \<in> set ts. f t = None"
  shows "arg_or f v ts = v" "without f ts = ts"
  using assms by (auto simp: arg_or_def without_def first_some_None_iff [THEN iffD2] filter_id_conv)

lemma arg_some:
  assumes "f t = Some v" "\<forall>u \<in> set us \<union> set vs. f u = None"
  shows "arg_or f v0 (us @ t # vs) = v" "without f (us @ t # vs) = us @ vs"
proof -
  have "first_some f us = None" using assms(2) by (simp add: first_some_None_iff)
  then show "arg_or f v0 (us @ t # vs) = v" using assms(1) by (simp add: arg_or_def first_some_append)
  show "without f (us @ t # vs) = us @ vs" using assms by (auto simp: without_def filter_id_conv)
qed

lemma extractArg_mode:
  assumes "\<forall>t \<in> set ts. well_written t" "one_of mode_arg ts"
  shows "extractArg ''mode'' dflt (words_of ts) = Inr (arg_or mode_arg dflt ts, words_of (without mode_arg ts))"
  using one_of_split [OF assms(2)]
proof (elim disjE exE conjE)
  assume none: "\<forall>t \<in> set ts. mode_arg t = None"
  then have "\<forall>w \<in> set (words_of ts). \<not> is_flag ''mode'' w" using assms(1) no_mode_words by (intro words_without) blast
  with arg_none [OF none] show ?thesis by (simp add: extractArg_def IndexFunc_none)
next
  fix us t vs v
  assume ts: "ts = us @ t # vs" and t: "mode_arg t = Some v" and rest: "\<forall>u \<in> set us \<union> set vs. mode_arg u = None"
  then have us: "\<forall>w \<in> set (words_of us). \<not> is_flag ''mode'' w" using assms(1) no_mode_words by (intro words_without) auto
  note found = IndexFunc_found [OF us]
  show ?thesis
  proof (cases t)
    case (ModeEq d x)
    have cut: "CutByte (dashes d @ ''mode='' @ x) CHR ''='' = (dashes d @ ''mode'', x, True)"
      using CutByte_append [of "CHR ''=''" "dashes d @ ''mode''" x] by (simp add: dashes_def)
    have "is_flag ''mode'' (dashes d @ ''mode='' @ x)" by (simp add: is_flag_def dashes_def)
    with found [OF this] cut arg_some [OF t rest] ModeEq t show ?thesis
      by (simp add: extractArg_def ts nth_append Delete_one)
  next
    case (ModeNext d x)
    have cut: "CutByte (dashes d @ ''mode'') CHR ''='' = (dashes d @ ''mode'', [], False)"
      by (rule CutByte_not_found) (simp add: dashes_def)
    have "is_flag ''mode'' (dashes d @ ''mode'')" by (simp add: is_flag_def dashes_def)
    with found [OF this] cut arg_some [OF t rest] ModeNext t show ?thesis
      by (simp add: extractArg_def ts nth_append Delete_two)
  qed (use t in simp_all)
qed

lemma extractFlag_progress:
  assumes "\<forall>t \<in> set ts. well_written t \<and> mode_arg t = None" "one_of progress_arg ts"
  shows "extractFlag ''progress'' False (words_of ts) =
    (\<exists>t \<in> set ts. progress_arg t \<noteq> None, words_of (without progress_arg ts))"
  using one_of_split [OF assms(2)]
proof (elim disjE exE conjE)
  assume none: "\<forall>t \<in> set ts. progress_arg t = None"
  then have "\<forall>w \<in> set (words_of ts). w \<noteq> ''--progress'' \<and> w \<noteq> ''-progress''"
    using assms(1) no_progress_words by (intro words_without) blast
  with arg_none [OF none] none show ?thesis by (simp add: extractFlag_def IndexFunc_none)
next
  fix us t vs v
  assume ts: "ts = us @ t # vs" and t: "progress_arg t = Some v" and rest: "\<forall>u \<in> set us \<union> set vs. progress_arg u = None"
  have "\<forall>u \<in> set us \<union> set vs. \<forall>w \<in> set (arg_words u). w \<noteq> ''--progress'' \<and> w \<noteq> ''-progress''"
    using assms(1) no_progress_words rest ts by (intro ballI) (metis Un_iff list.set_intros(2) set_append)
  note no = words_within [OF this]
  from no have us: "\<forall>w \<in> set (words_of us). w \<noteq> ''--progress''" "\<forall>w \<in> set (words_of us). w \<noteq> ''-progress''"
    and vs: "\<forall>w \<in> set (words_of vs). w \<noteq> ''--progress''"
    by auto
  from t obtain d where d: "t = ProgressFlag d" by (cases t) auto
  show ?thesis
  proof (cases d)
    case True
    then have "IndexFunc (\<lambda>s. s = ''--progress'') (words_of ts) = Some (length (words_of us))"
      using IndexFunc_found [of "words_of us" "\<lambda>s. s = ''--progress''" "''--progress''" "words_of vs"] us d
      by (simp add: ts dashes_def)
    with arg_some [OF t rest] t d True show ?thesis by (simp add: extractFlag_def ts Delete_one)
  next
    case False
    then have "IndexFunc (\<lambda>s. s = ''--progress'') (words_of ts) = None" using us vs d
      by (intro IndexFunc_none) (auto simp: ts dashes_def)
    moreover have "IndexFunc (\<lambda>s. s = ''-progress'') (words_of ts) = Some (length (words_of us))"
      using IndexFunc_found [of "words_of us" "\<lambda>s. s = ''-progress''" "''-progress''" "words_of vs"] us d False
      by (simp add: ts dashes_def)
    ultimately show ?thesis using arg_some [OF t rest] t d False by (simp add: extractFlag_def ts Delete_one)
  qed
qed

lemma extractOptionalArg_cache:
  assumes "\<forall>t \<in> set ts. well_written t \<and> mode_arg t = None" "one_of cache_arg ts"
  shows "extractOptionalArg ''cache'' ''disk'' (words_of ts) = (arg_or cache_arg '''' ts, words_of (without cache_arg ts))"
  using one_of_split [OF assms(2)]
proof (elim disjE exE conjE)
  assume none: "\<forall>t \<in> set ts. cache_arg t = None"
  then have "\<forall>w \<in> set (words_of ts). \<not> is_flag ''cache'' w" using assms(1) no_cache_words by (intro words_without) blast
  with arg_none [OF none] show ?thesis by (simp add: extractOptionalArg_def IndexFunc_none)
next
  fix us t vs v
  assume ts: "ts = us @ t # vs" and t: "cache_arg t = Some v" and rest: "\<forall>u \<in> set us \<union> set vs. cache_arg u = None"
  then have "\<forall>u \<in> set us \<union> set vs. \<forall>w \<in> set (arg_words u). \<not> is_flag ''cache'' w"
    using assms(1) no_cache_words by (intro ballI) (metis Un_iff list.set_intros(2) set_append)
  note us = words_within(1) [OF this]
  note found = IndexFunc_found [OF us]
  show ?thesis
  proof (cases t)
    case (CacheBare d)
    have cut: "CutByte (dashes d @ ''cache'') CHR ''='' = (dashes d @ ''cache'', [], False)"
      by (rule CutByte_not_found) (simp add: dashes_def)
    have "is_flag ''cache'' (dashes d @ ''cache'')" by (simp add: is_flag_def dashes_def)
    with found [OF this] cut arg_some [OF t rest] CacheBare t show ?thesis
      by (simp add: extractOptionalArg_def ts nth_append Delete_one)
  next
    case (CacheEq d x)
    have cut: "CutByte (dashes d @ ''cache='' @ x) CHR ''='' = (dashes d @ ''cache'', x, True)"
      using CutByte_append [of "CHR ''=''" "dashes d @ ''cache''" x] by (simp add: dashes_def)
    have "is_flag ''cache'' (dashes d @ ''cache='' @ x)" by (simp add: is_flag_def dashes_def)
    with found [OF this] cut arg_some [OF t rest] CacheEq t show ?thesis
      by (auto simp add: extractOptionalArg_def ts nth_append Delete_one)
  qed (use t in simp_all)
qed

definition valid_cache :: "string \<Rightarrow> bool" where
  "valid_cache ct \<longleftrightarrow> ct = '''' \<or> ct = ''disk'' \<or> ct = ''watchman''"

lemma one_of_without: "one_of f ts \<Longrightarrow> one_of f (without g ts)"
proof -
  assume "one_of f ts"
  moreover have "length (filter (\<lambda>t. f t \<noteq> None) (filter (\<lambda>t. g t = None) ts)) \<le> length (filter (\<lambda>t. f t \<noteq> None) ts)"
    by (induction ts) auto
  ultimately show ?thesis unfolding one_of_def without_def by (meson le_trans)
qed

lemma arg_or_without:
  assumes "\<And>t. f t \<noteq> None \<Longrightarrow> g t = None"
  shows "arg_or f v (without g ts) = arg_or f v ts"
proof -
  have "first_some f (filter (\<lambda>t. g t = None) ts) = first_some f ts"
    using assms by (induction ts) (auto split: option.splits)
  then show ?thesis by (simp add: arg_or_def without_def)
qed

text \<open>
  C27 (roundtrip). Whatever arguments for gazelle there are, and wherever among them the flags of the program
  are put, with one dash or two, the values parsed are those given, or the defaults, and gazelle gets its
  own arguments, all and in order. Another kind of cache ends the process.
\<close>

theorem parsed_anywhere:
  assumes "\<forall>t \<in> set ts. well_written t" "one_of mode_arg ts" "one_of progress_arg ts" "one_of cache_arg ts"
    and "cmd = None \<longrightarrow> (case words_of ts of [] \<Rightarrow> True | w # ws \<Rightarrow> w \<noteq> ''update'' \<and> w \<noteq> ''fix'')"
    and "\<forall>c. cmd = Some c \<longrightarrow> c = ''update'' \<or> c = ''fix''"
  shows "parseArgs ((case cmd of None \<Rightarrow> [] | Some c \<Rightarrow> [c]) @ words_of ts) =
    (if valid_cache (arg_or cache_arg '''' ts)
     then Inr (case cmd of None \<Rightarrow> ''update'' | Some c \<Rightarrow> c, arg_or mode_arg ''fix'' ts, \<exists>t \<in> set ts. progress_arg t \<noteq> None,
               arg_or cache_arg '''' ts, words_of (filter plain_arg ts))
     else Inl (Fatal ''ERROR: invalid --cache value''))"
proof -
  let ?ts1 = "without mode_arg ts" and ?ts2 = "without progress_arg (without mode_arg ts)"
  have ok: "\<forall>t \<in> set ?ts1. well_written t \<and> mode_arg t = None" "\<forall>t \<in> set ?ts2. well_written t \<and> mode_arg t = None"
    using assms(1) by (auto simp: without_def)
  have cache: "arg_or cache_arg '''' ?ts2 = arg_or cache_arg '''' ts"
  proof -
    have "progress_arg t = None" "mode_arg t = None" if "cache_arg t \<noteq> None" for t using that by (cases t; simp)+
    then show ?thesis using arg_or_without [of cache_arg progress_arg] arg_or_without [of cache_arg mode_arg] by metis
  qed
  have progress: "(\<exists>t \<in> set ?ts1. progress_arg t \<noteq> None) \<longleftrightarrow> (\<exists>t \<in> set ts. progress_arg t \<noteq> None)"
  proof -
    have "mode_arg t = None" if "progress_arg t \<noteq> None" for t using that by (cases t; simp)
    then show ?thesis by (auto simp: without_def)
  qed
  have "plain_arg t \<longleftrightarrow> mode_arg t = None \<and> progress_arg t = None \<and> cache_arg t = None" if "t \<in> set ts" for t
    using assms(1) that by (cases t) auto
  then have plain: "without cache_arg ?ts2 = filter plain_arg ts"
    by (auto simp: without_def intro!: filter_cong)
  have valid: "ct \<in> set cacheTypes \<longleftrightarrow> valid_cache ct" for ct by (auto simp: cacheTypes_def valid_cache_def)
  have "parseArgs ((case cmd of None \<Rightarrow> [] | Some c \<Rightarrow> [c]) @ words_of ts) =
      (case extractArg ''mode'' ''fix'' (words_of ts) of
         Inl e \<Rightarrow> Inl e
       | Inr (mode, args1) \<Rightarrow>
           (let (progress, args2) = extractFlag ''progress'' False args1;
                (ct, args3) = extractOptionalArg ''cache'' ''disk'' args2
            in if ct \<in> set cacheTypes then Inr (c, mode, progress, ct, args3)
               else Inl (Fatal ''ERROR: invalid --cache value'')))"
    if "c = (case cmd of None \<Rightarrow> ''update'' | Some c \<Rightarrow> c)" for c
    using assms(5,6) that by (cases cmd; cases "words_of ts") (auto simp: parseArgs_def Let_def)
  from this [OF refl] show ?thesis
    using extractArg_mode [OF assms(1,2)] extractFlag_progress [OF ok(1) one_of_without [OF assms(3)], unfolded progress]
      extractOptionalArg_cache [OF ok(2) one_of_without [OF one_of_without [OF assms(4)]]]
    by (simp add: cache plain valid)
qed

theorem parsed_anywhere_witness:
  "parseArgs ([''fix''] @ words_of [Plain ''a'', ModeNext True ''diff'', Plain ''-index'', CacheBare False, ProgressFlag True, Plain ''b'']) =
     Inr (''fix'', ''diff'', True, ''disk'', [''a'', ''-index'', ''b''])"
  using parsed_anywhere
    [of "[Plain ''a'', ModeNext True ''diff'', Plain ''-index'', CacheBare False, ProgressFlag True, Plain ''b'']" "Some ''fix''"]
  by (simp add: one_of_def is_flag_def arg_or_def valid_cache_def)

text \<open>A repeated flag is passed on, and gazelle, whose last flag counts, gets the mode that was not taken.\<close>

lemma second_mode_passed_on:
  "parseArgs [''--mode=diff'', ''--mode=print''] = Inr (''update'', ''diff'', False, '''', [''--mode=print''])"
  by code_simp

text \<open>A flag with a value is not known as the flag of \<open>--progress\<close>.\<close>

lemma progress_value_passed_on: "parseArgs [''--progress=true''] = Inr (''update'', ''fix'', False, '''', [''--progress=true''])"
  by code_simp

section \<open>Languages and exit\<close>

text \<open>Known languages are added in the order given, others end the process.\<close>

lemma add_languages_ok:
  "is_ok (add_languages ls r) \<longleftrightarrow> set ls \<subseteq> set known_languages"
  by (induction ls arbitrary: r) (auto simp: AddLanguage_def)

lemma add_languages_keys:
  "add_languages ls r = Inr r' \<Longrightarrow> gr_languageKeys r' = gr_languageKeys r @ ls"
  by (induction ls arbitrary: r) (auto simp: AddLanguage_def AddLanguageFactory_def split: if_splits)

text \<open>
  The keys of a YAML mapping whose values are booleans, in order. A quoted value at the end is taken for a
  language and ends the process.
\<close>

lemma enabled_languages_booleans:
  "enabled_languages (concat (map (\<lambda>(l, b). [(''!!str'', l), (''!!bool'', if b then ''true'' else ''false'')]) ls)) =
     Inr (map fst (filter snd ls))"
proof (induction ls)
  case (Cons x ls)
  then show ?case by (cases x) simp
qed simp

lemma quoted_value_panics: "enabled_languages (nodes @ [(''!!str'', v)]) = Inl (Panic ''index out of range'')"
proof (induction nodes)
  case (Cons n nodes)
  then show ?case by (cases n; cases "nodes @ [(''!!str'', v)]") auto
qed simp

end
