(* ===== verification/Js_Index.thy ===== *)
theory Js_Index
  imports Js_Resolve Source_Walk
begin

text \<open>
  What the rules of JavaScript tell the rule index of gazelle (\<open>Imports\<close> and \<open>Embeds\<close> of
  \<open>language/js/resolve.go\<close>): the imports of a rule, generated by this run or found in a build file, and the
  labels it embeds. Reading attributes of a rule is a parameter (a third-party type).
\<close>

section \<open>Imports of a rule\<close>

text \<open>The string, the list of strings and the expression of an attribute, when it has one.\<close>

record rule_reader =
  rd_string :: "rule \<Rightarrow> string \<Rightarrow> string"
  rd_strings :: "rule \<Rightarrow> string \<Rightarrow> string list option"
  rd_expr :: "rule \<Rightarrow> string \<Rightarrow> bzl_expr option"

text \<open>
  The sources: those of the project that was generated, else the \<open>srcs\<close> of the rule over the files of the
  package. An absent attribute is no glob call and an error, too. The fuel is that of the files.
\<close>

definition rule_sources ::
  "rule_reader \<Rightarrow> bzl_api \<Rightarrow> nat \<Rightarrow> dirs \<Rightarrow> TsProjectInfo option \<Rightarrow> string \<Rightarrow> rule \<Rightarrow> string list option outcome" where
  "rule_sources rd api n dirs info pkg r =
     (case info of
        Some i \<Rightarrow> Inr (Some (pi_sources i))
      | None \<Rightarrow>
          (case GetSourceRegularFiles n dirs pkg of
             None \<Rightarrow> Inl OutOfFuel
           | Some res \<Rightarrow>
               let sourceFiles = (case res of Inl _ \<Rightarrow> [] | Inr fs \<Rightarrow> fs)
               in Inr (case rd_expr rd r ''srcs'' of
                         None \<Rightarrow> None
                       | Some e \<Rightarrow> (case ExpandSrcs api sourceFiles e of Inl _ \<Rightarrow> None | Inr srcs \<Rightarrow> Some srcs))))"

text \<open>A rule that provides nothing has nil for its imports and is not indexed.\<close>

definition sourceFileImports ::
  "rule_reader \<Rightarrow> bzl_api \<Rightarrow> nat \<Rightarrow> dirs \<Rightarrow> TsProjectInfo option \<Rightarrow> string \<Rightarrow> rule \<Rightarrow> import_spec list option outcome" where
  "sourceFileImports rd api n dirs info pkg r =
     (case rule_sources rd api n dirs info pkg r of
        Inl e \<Rightarrow> Inl e
      | Inr None \<Rightarrow> Inr (Some [])
      | Inr (Some srcs) \<Rightarrow>
          let provides = source_imports pkg (rd_string rd r ''out_dir'')
                (if rd_expr rd r ''declaration_dir'' \<noteq> None then Some (rd_string rd r ''declaration_dir'') else None)
                (rd_string rd r ''root_dir'') srcs
          in Inr (if provides = [] then None else Some (map js_spec provides)))"

definition tsconfigImports :: "rule_reader \<Rightarrow> string \<Rightarrow> rule \<Rightarrow> import_spec list" where
  "tsconfigImports rd pkg r = [js_spec (path_join [pkg, rd_string rd r ''src''])]"

text \<open>\<open>protoAttrs\<close> reads the attributes of a rule that decide the outputs of its protos.\<close>

definition js_Imports ::
  "rule_reader \<Rightarrow> (rule \<Rightarrow> ts_proto_attrs) \<Rightarrow> bzl_api \<Rightarrow> nat \<Rightarrow> dirs \<Rightarrow> TsProjectInfo option \<Rightarrow> string \<Rightarrow> rule \<Rightarrow>
   import_spec list option outcome" where
  "js_Imports rd protoAttrs api n dirs info pkg r =
     (if ru_kind r = ''ts_proto_library'' then
        (case rd_strings rd r ''proto_srcs'' of
           None \<Rightarrow> Inr None
         | Some srcs \<Rightarrow>
             let provides = protoLibraryImports pkg (protoAttrs r) (Some srcs)
             in Inr (if provides = [] then None else Some (map js_spec provides)))
      else if ru_kind r = ''ts_config'' then Inr (Some (tsconfigImports rd pkg r))
      else if ru_kind r = ''ts_project'' \<or> ru_kind r = ''js_library'' then sourceFileImports rd api n dirs info pkg r
      else Inr None)"

definition js_Embeds :: "rule_reader \<Rightarrow> rule \<Rightarrow> label \<Rightarrow> label list" where
  "js_Embeds rd r from =
     (if ru_kind r = ''ts_project'' then
        map (\<lambda>n. Label (Repo from) (Pkg from) n False)
          (ts_embeds (case rd_strings rd r ''srcs'' of None \<Rightarrow> [] | Some srcs \<Rightarrow> srcs))
      else [])"

section \<open>Imports reach the index\<close>

lemma provided_own: "joinPkg pkg src \<in> set (provided_paths pkg outDir declarationDir rootDir src)"
  by (simp add: provided_paths_def Let_def)

lemma source_imports_own:
  "src \<in> set srcs \<Longrightarrow> i \<in> set (toImportPaths (joinPkg pkg src)) \<Longrightarrow> i \<in> set (source_imports pkg od dd rd srcs)"
  using provided_own unfolding source_imports_def Let_def by fastforce

text \<open>
  An import \<open>./n\<close> in any file of a package is looked up under a name that the rule of each source which can be
  imported as \<open>n\<close> is indexed under, wherever the outputs of the rule are put.
\<close>

lemma relative_import_indexed:
  assumes "ru_kind r = ''ts_project'' \<or> ru_kind r = ''js_library''"
    and "rule_sources rd api k dirs info rel r = Inr (Some srcs)" "f \<in> set srcs"
    and "joinPkg rel n \<in> set (toImportPaths (joinPkg rel f))"
    and "slash \<notin> set g" "list_all (\<lambda>c. c \<notin> set ''?#'') n" "\<not> str_contains n ''://''"
    and "Clean (joinPkg rel n) = joinPkg rel n" "\<not> IsAbs n"
  shows "\<exists>specs. js_Imports rd protoAttrs api k dirs info rel r = Inr (Some specs) \<and>
    js_spec (toImportSpecPath '''' (joinPkg rel g) (''./'' @ n)) \<in> set specs"
proof -
  let ?provides = "source_imports rel (rd_string rd r ''out_dir'')
      (if rd_expr rd r ''declaration_dir'' \<noteq> None then Some (rd_string rd r ''declaration_dir'') else None)
      (rd_string rd r ''root_dir'') srcs"
  have own: "joinPkg rel n \<in> set ?provides" by (rule source_imports_own [OF assms(3,4)])
  then have "?provides \<noteq> []" by auto
  with assms(1,2) have "js_Imports rd protoAttrs api k dirs info rel r = Inr (Some (map js_spec ?provides))"
    by (auto simp: js_Imports_def sourceFileImports_def Let_def)
  with own relative_spec_path [OF assms(5-9)] show ?thesis by auto
qed

text \<open>The configuration file of a \<open>ts_config\<close> is found by the path it is extended with.\<close>

lemma tsconfig_indexed:
  assumes "ru_kind r = ''ts_config''" "rd_string rd r ''src'' = src"
  shows "js_Imports rd protoAttrs api k dirs info rel r = Inr (Some [js_spec (path_join [rel, src])])"
  using assms by (simp add: js_Imports_def tsconfigImports_def)

end
