(* ===== verification/Read_Buffers.thy ===== *)
theory Read_Buffers
  imports Prelude
begin

text \<open>
  The shared buffers that files are read into (\<open>common/cache/readfile.go\<close>): the pool, the readers that
  hold a buffer between reading and releasing it, and the arrays behind them, as a step relation over any
  number of concurrent readers.
\<close>

section \<open>Pool and readers\<close>

text \<open>
  A cell is a pointer of the pool, with the array of the slice it points to; the length of an array is its
  capacity. A reader has taken a cell, has a buffer and the number of bytes of its file in it, and, once the
  file was read, what it returned. Cells and arrays are numbered in the order they are made.
\<close>

record reading =
  rg_cell :: nat
  rg_array :: nat
  rg_size :: nat
  rg_content :: "string option"

record 'r buffers =
  bf_cells :: "nat list"
  bf_arrays :: "string list"
  bf_pool :: "nat list"
  bf_readers :: "('r \<times> reading) list"

definition maxPooledBuffer :: nat where
  "maxPooledBuffer = 2 ^ 20"

definition no_buffers :: "'r buffers" where
  "no_buffers = \<lparr>bf_cells = [], bf_arrays = [], bf_pool = [], bf_readers = []\<rparr>"

definition NUL :: char where
  "NUL = CHR 0x00"

text \<open>\<open>Get\<close>: a cell of the pool, at any place, or a new one with an empty slice.\<close>

definition Get_pooled :: "nat \<Rightarrow> 'r buffers \<Rightarrow> nat \<times> 'r buffers" where
  "Get_pooled i s = (bf_pool s ! i, s\<lparr>bf_pool := take i (bf_pool s) @ drop (Suc i) (bf_pool s)\<rparr>)"

definition Get_new :: "'r buffers \<Rightarrow> nat \<times> 'r buffers" where
  "Get_new s =
     (length (bf_cells s), s\<lparr>bf_cells := bf_cells s @ [length (bf_arrays s)], bf_arrays := bf_arrays s @ [[]]\<rparr>)"

text \<open>The slice of the cell, or a new array if that is too small.\<close>

definition size_buffer :: "'r \<Rightarrow> nat \<Rightarrow> nat \<times> 'r buffers \<Rightarrow> 'r buffers" where
  "size_buffer r n g =
     (case g of (c, s) \<Rightarrow>
        let buf = bf_cells s ! c
        in if length (bf_arrays s ! buf) < n then
             s\<lparr>bf_arrays := bf_arrays s @ [replicate n NUL],
               bf_readers := bf_readers s @ [(r, \<lparr>rg_cell = c, rg_array = length (bf_arrays s), rg_size = n, rg_content = None\<rparr>)]\<rparr>
           else
             s\<lparr>bf_readers := bf_readers s @ [(r, \<lparr>rg_cell = c, rg_array = buf, rg_size = n, rg_content = None\<rparr>)]\<rparr>)"

text \<open>\<open>ReadFull\<close>: the bytes go to the front of the buffer of a reader; with too few bytes it fails.\<close>

definition fill :: "nat \<Rightarrow> string \<Rightarrow> 'r buffers \<Rightarrow> 'r buffers" where
  "fill k bytes s =
     (let (r, g) = bf_readers s ! k
      in s\<lparr>bf_arrays := (bf_arrays s)[rg_array g := bytes @ drop (length bytes) (bf_arrays s ! rg_array g)],
           bf_readers := (bf_readers s)[k := (r, if length bytes = rg_size g then g\<lparr>rg_content := Some bytes\<rparr> else g)]\<rparr>)"

text \<open>\<open>release\<close>: back to the pool with the buffer, unless that grew too large.\<close>

definition release :: "nat \<Rightarrow> 'r buffers \<Rightarrow> 'r buffers" where
  "release k s =
     (let g = snd (bf_readers s ! k);
          s' = s\<lparr>bf_readers := take k (bf_readers s) @ drop (Suc k) (bf_readers s)\<rparr>
      in if length (bf_arrays s ! rg_array g) \<le> maxPooledBuffer
         then s'\<lparr>bf_cells := (bf_cells s)[rg_cell g := rg_array g], bf_pool := bf_pool s @ [rg_cell g]\<rparr>
         else s')"

text \<open>
  The steps of all readers, in any order. A pool may also drop what it has. A reader whose \<open>ReadFull\<close> fails
  releases its buffer and returns an error; the others release theirs when the caller is done.
\<close>

inductive buffer_step :: "'r buffers \<Rightarrow> 'r buffers \<Rightarrow> bool" where
  pooled: "i < length (bf_pool s) \<Longrightarrow> buffer_step s (size_buffer r n (Get_pooled i s))"
| fresh: "buffer_step s (size_buffer r n (Get_new s))"
| read: "k < length (bf_readers s) \<Longrightarrow> rg_content (snd (bf_readers s ! k)) = None \<Longrightarrow>
    length bytes \<le> rg_size (snd (bf_readers s ! k)) \<Longrightarrow> buffer_step s (fill k bytes s)"
| released: "k < length (bf_readers s) \<Longrightarrow> buffer_step s (release k s)"
| dropped: "i < length (bf_pool s) \<Longrightarrow> buffer_step s (snd (Get_pooled i s))"

section \<open>Buffers have one owner\<close>

definition owned_cells :: "'r buffers \<Rightarrow> nat list" where
  "owned_cells s = bf_pool s @ map (rg_cell \<circ> snd) (bf_readers s)"

definition owned_arrays :: "'r buffers \<Rightarrow> nat list" where
  "owned_arrays s = map ((!) (bf_cells s)) (bf_pool s) @ map (rg_array \<circ> snd) (bf_readers s)"

definition content_kept :: "string list \<Rightarrow> reading \<Rightarrow> bool" where
  "content_kept arrays g \<longleftrightarrow> rg_size g \<le> length (arrays ! rg_array g) \<and>
     (\<forall>x. rg_content g = Some x \<longrightarrow> length x = rg_size g \<and> take (rg_size g) (arrays ! rg_array g) = x)"

definition buffers_inv :: "'r buffers \<Rightarrow> bool" where
  "buffers_inv s \<longleftrightarrow>
     distinct (owned_cells s) \<and> (\<forall>c \<in> set (owned_cells s). c < length (bf_cells s)) \<and>
     distinct (owned_arrays s) \<and> (\<forall>a \<in> set (owned_arrays s). a < length (bf_arrays s)) \<and>
     (\<forall>c \<in> set (bf_cells s). c < length (bf_arrays s)) \<and>
     (\<forall>(r, g) \<in> set (bf_readers s). content_kept (bf_arrays s) g)"

lemma content_kept_append: "rg_array g < length as \<Longrightarrow> content_kept (as @ bs) g = content_kept as g"
  by (simp add: content_kept_def nth_append)

lemma content_kept_update: "rg_array g \<noteq> a \<Longrightarrow> content_kept (as[a := x]) g = content_kept as g"
  by (simp add: content_kept_def)

lemma map_nth_update: "c \<notin> set xs \<Longrightarrow> map ((!) (cs[c := a])) xs = map ((!) cs) xs"
  by (induction xs) auto

text \<open>A cell taken: nobody else has it or its array.\<close>

definition taken :: "nat \<Rightarrow> 'r buffers \<Rightarrow> bool" where
  "taken c s \<longleftrightarrow> buffers_inv s \<and> c < length (bf_cells s) \<and> c \<notin> set (owned_cells s) \<and> bf_cells s ! c \<notin> set (owned_arrays s)"

lemma Get_pooled_taken:
  assumes "buffers_inv s" "i < length (bf_pool s)"
  shows "taken (fst (Get_pooled i s)) (snd (Get_pooled i s))"
proof -
  define xs ys c where "xs = take i (bf_pool s)" and "ys = drop (Suc i) (bf_pool s)" and "c = bf_pool s ! i"
  have pool: "bf_pool s = xs @ c # ys" using assms(2) by (simp add: xs_def ys_def c_def id_take_nth_drop [symmetric])
  have g: "Get_pooled i s = (c, s\<lparr>bf_pool := xs @ ys\<rparr>)" by (simp add: Get_pooled_def xs_def ys_def c_def)
  show ?thesis
    using assms(1) unfolding g taken_def buffers_inv_def owned_cells_def owned_arrays_def fst_conv snd_conv
    by (simp add: pool)
qed

lemma owned_bounds:
  assumes "buffers_inv s"
  shows "\<forall>c \<in> set (bf_pool s). c < length (bf_cells s)" "\<forall>c \<in> set (owned_cells s). c < length (bf_cells s)"
    "\<forall>a \<in> set (owned_arrays s). a < length (bf_arrays s)" "\<forall>(r, g) \<in> set (bf_readers s). rg_array g < length (bf_arrays s)"
    "\<forall>(r, g) \<in> set (bf_readers s). rg_cell g < length (bf_cells s)"
proof -
  show cells: "\<forall>c \<in> set (owned_cells s). c < length (bf_cells s)"
    and arrays: "\<forall>a \<in> set (owned_arrays s). a < length (bf_arrays s)"
    using assms by (simp_all add: buffers_inv_def)
  from cells show "\<forall>c \<in> set (bf_pool s). c < length (bf_cells s)" by (simp add: owned_cells_def)
  have "rg_array g \<in> set (owned_arrays s)" "rg_cell g \<in> set (owned_cells s)" if "(r, g) \<in> set (bf_readers s)" for r g
    using that by (force simp: owned_cells_def owned_arrays_def)+
  with cells arrays show "\<forall>(r, g) \<in> set (bf_readers s). rg_array g < length (bf_arrays s)"
    "\<forall>(r, g) \<in> set (bf_readers s). rg_cell g < length (bf_cells s)"
    by blast+
qed

lemma Get_new_taken:
  assumes "buffers_inv s"
  shows "taken (fst (Get_new s)) (snd (Get_new s))"
proof -
  note lt = owned_bounds [OF assms]
  have same: "map ((!) (bf_cells s @ [length (bf_arrays s)])) (bf_pool s) = map ((!) (bf_cells s)) (bf_pool s)"
    using lt(1) by (auto simp: nth_append)
  have cells: "owned_cells (snd (Get_new s)) = owned_cells s" by (simp add: Get_new_def owned_cells_def)
  have arrays: "owned_arrays (snd (Get_new s)) = owned_arrays s" by (simp add: Get_new_def owned_arrays_def same)
  have kept: "\<forall>(r, g) \<in> set (bf_readers s). content_kept (bf_arrays s @ [[]]) g"
    using assms lt(4) unfolding buffers_inv_def by (auto simp: content_kept_append split: prod.splits dest!: bspec)
  have "length (bf_cells s) \<notin> set (owned_cells s)" "length (bf_arrays s) \<notin> set (owned_arrays s)" using lt(2,3) by auto
  moreover have "buffers_inv (snd (Get_new s))"
    using assms kept lt(2,3) unfolding buffers_inv_def cells arrays by (auto simp: Get_new_def less_Suc_eq)
  ultimately show ?thesis unfolding taken_def cells arrays by (simp add: Get_new_def)
qed

text \<open>Giving a buffer of so many bytes, that nobody has, to a new reader.\<close>

lemma new_reader_inv:
  assumes "buffers_inv s" "c < length (bf_cells s)" "c \<notin> set (owned_cells s)"
    and "a \<notin> set (owned_arrays s)" "a < length (bf_arrays s @ new)" "n \<le> length ((bf_arrays s @ new) ! a)"
  shows "buffers_inv (s\<lparr>bf_arrays := bf_arrays s @ new,
    bf_readers := bf_readers s @ [(r, \<lparr>rg_cell = c, rg_array = a, rg_size = n, rg_content = None\<rparr>)]\<rparr>)" (is "buffers_inv ?t")
proof -
  note lt = owned_bounds [OF assms(1)]
  have owned: "owned_cells ?t = owned_cells s @ [c]" "owned_arrays ?t = owned_arrays s @ [a]"
    by (simp_all add: owned_cells_def owned_arrays_def)
  have kept: "\<forall>(r, g) \<in> set (bf_readers s). content_kept (bf_arrays s @ new) g"
    using assms(1) lt(4) unfolding buffers_inv_def by (auto simp: content_kept_append split: prod.splits dest!: bspec)
  have "content_kept (bf_arrays s @ new) \<lparr>rg_cell = c, rg_array = a, rg_size = n, rg_content = None\<rparr>"
    using assms(6) by (simp add: content_kept_def)
  moreover have "\<forall>x \<in> set (bf_cells s). x < length (bf_arrays s) + length new" "\<forall>x \<in> set (owned_arrays s). x < length (bf_arrays s) + length new"
    using assms(1) by (auto simp: buffers_inv_def intro: trans_less_add1)
  ultimately show ?thesis
    using assms kept unfolding buffers_inv_def owned by simp
qed

lemma size_buffer_inv:
  assumes "taken c s"
  shows "buffers_inv (size_buffer r n (c, s))"
proof -
  have inv: "buffers_inv s" and c: "c < length (bf_cells s)" "c \<notin> set (owned_cells s)" "bf_cells s ! c \<notin> set (owned_arrays s)"
    using assms by (auto simp: taken_def)
  note lt = owned_bounds [OF inv]
  have buf: "bf_cells s ! c < length (bf_arrays s)" using inv c(1) by (simp add: buffers_inv_def)
  show ?thesis
  proof (cases "length (bf_arrays s ! (bf_cells s ! c)) < n")
    case True
    have "length (bf_arrays s) \<notin> set (owned_arrays s)" using lt(3) by auto
    with True new_reader_inv [OF inv c(1,2), where a = "length (bf_arrays s)" and new = "[replicate n NUL]" and n = n and r = r]
    show ?thesis by (simp add: size_buffer_def Let_def)
  next
    case False
    with buf new_reader_inv [OF inv c(1,2,3), where new = "[]" and n = n and r = r]
    show ?thesis by (simp add: size_buffer_def Let_def)
  qed
qed

lemma fill_inv:
  assumes "buffers_inv s" "k < length (bf_readers s)" "rg_content (snd (bf_readers s ! k)) = None"
    and "length bytes \<le> rg_size (snd (bf_readers s ! k))"
  shows "buffers_inv (fill k bytes s)"
proof -
  obtain r g where k: "bf_readers s ! k = (r, g)" by fastforce
  define as' g' where "as' = (bf_arrays s)[rg_array g := bytes @ drop (length bytes) (bf_arrays s ! rg_array g)]"
    and "g' = (if length bytes = rg_size g then g\<lparr>rg_content := Some bytes\<rparr> else g)"
  have t: "fill k bytes s = s\<lparr>bf_arrays := as', bf_readers := (bf_readers s)[k := (r, g')]\<rparr>"
    by (simp add: fill_def k as'_def g'_def)
  have mem: "(r, g) \<in> set (bf_readers s)" using assms(2) k by (metis nth_mem)
  have g: "rg_cell g' = rg_cell g" "rg_array g' = rg_array g" "rg_size g' = rg_size g" by (simp_all add: g'_def)
  have fields: "map (rg_cell \<circ> snd) ((bf_readers s)[k := (r, g')]) = map (rg_cell \<circ> snd) (bf_readers s)"
    "map (rg_array \<circ> snd) ((bf_readers s)[k := (r, g')]) = map (rg_array \<circ> snd) (bf_readers s)"
    using assms(2) k g by (simp_all add: map_update list_update_same_conv)
  have owned: "owned_cells (fill k bytes s) = owned_cells s" "owned_arrays (fill k bytes s) = owned_arrays s"
    by (simp_all add: t owned_cells_def owned_arrays_def fields)
  have old: "content_kept (bf_arrays s) g" using assms(1) mem by (auto simp: buffers_inv_def)
  have a: "rg_array g < length (bf_arrays s)" using owned_bounds(4) [OF assms(1)] mem by auto
  have new: "content_kept as' g'"
    using old assms(3,4) a k by (auto simp: content_kept_def as'_def g'_def)
  have others: "content_kept as' (snd (bf_readers s ! j))" if "j < length (bf_readers s)" "j \<noteq> k" for j
  proof -
    have "distinct (map (rg_array \<circ> snd) (bf_readers s))" using assms(1) by (simp add: buffers_inv_def owned_arrays_def)
    then have "rg_array (snd (bf_readers s ! j)) \<noteq> rg_array g"
      using that assms(2) k unfolding distinct_conv_nth by (metis comp_apply length_map nth_map snd_conv)
    moreover have "content_kept (bf_arrays s) (snd (bf_readers s ! j))"
      using assms(1) that(1) nth_mem unfolding buffers_inv_def by (metis (no_types, lifting) case_prod_beta)
    ultimately show ?thesis by (simp add: as'_def content_kept_update)
  qed
  have "\<forall>(r, g) \<in> set (bf_readers (fill k bytes s)). content_kept (bf_arrays (fill k bytes s)) g"
  proof
    fix x assume "x \<in> set (bf_readers (fill k bytes s))"
    then obtain j where "j < length (bf_readers s)" "x = (bf_readers s)[k := (r, g')] ! j" by (auto simp: t in_set_conv_nth)
    with new others [of j] show "case x of (r, g) \<Rightarrow> content_kept (bf_arrays (fill k bytes s)) g"
      by (cases "j = k") (auto simp: t split: prod.splits)
  qed
  with assms(1) show ?thesis unfolding buffers_inv_def owned by (simp add: t as'_def)
qed

lemma release_inv:
  assumes "buffers_inv s" "k < length (bf_readers s)"
  shows "buffers_inv (release k s)"
proof -
  define xs ys where "xs = take k (bf_readers s)" and "ys = drop (Suc k) (bf_readers s)"
  obtain r g where k: "bf_readers s ! k = (r, g)" by fastforce
  have rs: "bf_readers s = xs @ (r, g) # ys" using assms(2) k id_take_nth_drop [of k "bf_readers s"] by (simp add: xs_def ys_def)
  have c: "rg_cell g < length (bf_cells s)" "rg_cell g \<notin> set (bf_pool s)"
    using assms(1) by (auto simp: buffers_inv_def owned_cells_def rs)
  have same: "map ((!) ((bf_cells s)[rg_cell g := rg_array g])) (bf_pool s) = map ((!) (bf_cells s)) (bf_pool s)"
    using c(2) by (rule map_nth_update)
  have cells: "\<forall>x \<in> set ((bf_cells s)[rg_cell g := rg_array g]). x < length (bf_arrays s)"
    using assms(1) set_update_subset_insert [of "bf_cells s" "rg_cell g" "rg_array g"]
    by (auto simp: buffers_inv_def owned_arrays_def rs)
  show ?thesis
  proof (cases "length (bf_arrays s ! rg_array g) \<le> maxPooledBuffer")
    case True
    then have t: "release k s = s\<lparr>bf_readers := xs @ ys, bf_cells := (bf_cells s)[rg_cell g := rg_array g], bf_pool := bf_pool s @ [rg_cell g]\<rparr>"
      by (simp add: release_def k xs_def ys_def)
    show ?thesis
      using assms(1) cells c unfolding t buffers_inv_def owned_cells_def owned_arrays_def by (simp add: rs same)
  next
    case False
    then have t: "release k s = s\<lparr>bf_readers := xs @ ys\<rparr>" by (simp add: release_def k xs_def ys_def)
    show ?thesis
      using assms(1) unfolding t buffers_inv_def owned_cells_def owned_arrays_def by (simp add: rs)
  qed
qed

lemma buffer_step_inv: "buffer_step s s' \<Longrightarrow> buffers_inv s \<Longrightarrow> buffers_inv s'"
proof (induction rule: buffer_step.induct)
  case (pooled i s r n)
  then show ?case using Get_pooled_taken [of s i] size_buffer_inv by (metis prod.collapse)
next
  case (fresh s r n)
  then show ?case using Get_new_taken [of s] size_buffer_inv by (metis prod.collapse)
next
  case (read k s bytes)
  then show ?case using fill_inv by blast
next
  case (released k s)
  then show ?case using release_inv by blast
next
  case (dropped i s)
  then show ?case using Get_pooled_taken [of s i] by (simp add: taken_def)
qed

lemma reachable_buffers: "buffer_step\<^sup>*\<^sup>* no_buffers s \<Longrightarrow> buffers_inv s"
proof (induction rule: rtranclp_induct)
  case base
  show ?case by (simp add: buffers_inv_def no_buffers_def owned_cells_def owned_arrays_def)
next
  case (step s s')
  then show ?case using buffer_step_inv by blast
qed

text \<open>
  C14 (safety). Whatever readers do at the same time, nobody else has the array of a reader, neither the pool nor
  another reader, and what was read from the file stays in it until the reader releases it.
\<close>

theorem buffers_kept:
  assumes "buffer_step\<^sup>*\<^sup>* no_buffers s"
  shows "distinct (owned_arrays s) \<and>
    (\<forall>(r, g) \<in> set (bf_readers s). \<forall>x. rg_content g = Some x \<longrightarrow> take (rg_size g) (bf_arrays s ! rg_array g) = x)"
  using reachable_buffers [OF assms] by (auto simp: buffers_inv_def content_kept_def)

text \<open>A buffer that was released is taken by another reader; a third one gets a new buffer.\<close>

theorem buffers_kept_witness:
  "\<exists>s :: nat buffers. buffer_step\<^sup>*\<^sup>* no_buffers s \<and> bf_readers s =
     [(2, \<lparr>rg_cell = 0, rg_array = 1, rg_size = 1, rg_content = Some ''z''\<rparr>),
      (3, \<lparr>rg_cell = 1, rg_array = 3, rg_size = 3, rg_content = None\<rparr>)] \<and>
     take 1 (bf_arrays s ! 1) = ''z'' \<and> distinct (owned_arrays s)"
proof -
  let ?s1 = "size_buffer 1 2 (Get_new no_buffers) :: nat buffers"
  let ?s2 = "fill 0 ''xy'' ?s1"
  let ?s3 = "release 0 ?s2"
  let ?s4 = "size_buffer 2 1 (Get_pooled 0 ?s3)"
  let ?s5 = "size_buffer 3 3 (Get_new ?s4)"
  let ?s6 = "fill 0 ''z'' ?s5"
  have s2: "?s2 = \<lparr>bf_cells = [0], bf_arrays = [[], ''xy''], bf_pool = [],
      bf_readers = [(1, \<lparr>rg_cell = 0, rg_array = 1, rg_size = 2, rg_content = Some ''xy''\<rparr>)]\<rparr>"
    by (simp add: fill_def size_buffer_def Get_new_def no_buffers_def Let_def numeral_2_eq_2)
  have s3: "?s3 = \<lparr>bf_cells = [1], bf_arrays = [[], ''xy''], bf_pool = [0], bf_readers = []\<rparr>"
    unfolding s2 by (simp add: release_def Let_def maxPooledBuffer_def)
  have s5: "?s5 = \<lparr>bf_cells = [1, 2], bf_arrays = [[], ''xy'', [], [NUL, NUL, NUL]], bf_pool = [],
      bf_readers = [(2, \<lparr>rg_cell = 0, rg_array = 1, rg_size = 1, rg_content = None\<rparr>),
        (3, \<lparr>rg_cell = 1, rg_array = 3, rg_size = 3, rg_content = None\<rparr>)]\<rparr>"
    unfolding s3 by (simp add: size_buffer_def Get_new_def Get_pooled_def Let_def numeral_3_eq_3)
  have s6: "?s6 = \<lparr>bf_cells = [1, 2], bf_arrays = [[], ''zy'', [], [NUL, NUL, NUL]], bf_pool = [],
      bf_readers = [(2, \<lparr>rg_cell = 0, rg_array = 1, rg_size = 1, rg_content = Some ''z''\<rparr>),
        (3, \<lparr>rg_cell = 1, rg_array = 3, rg_size = 3, rg_content = None\<rparr>)]\<rparr>"
    unfolding s5 by (simp add: fill_def Let_def)
  have "buffer_step no_buffers ?s1" by (rule fresh)
  moreover have "buffer_step ?s1 ?s2"
    by (rule read) (simp_all add: size_buffer_def Get_new_def no_buffers_def Let_def)
  moreover have "buffer_step ?s2 ?s3" by (rule released) (unfold s2, simp)
  moreover have "buffer_step ?s3 ?s4" by (rule pooled) (unfold s3, simp)
  moreover have "buffer_step ?s4 ?s5" by (rule fresh)
  moreover have "buffer_step ?s5 ?s6" by (rule read) (unfold s5, simp_all)
  ultimately have run: "buffer_step\<^sup>*\<^sup>* no_buffers ?s6" by (meson converse_rtranclp_into_rtranclp rtranclp.rtrancl_refl)
  from buffers_kept [OF this] have "distinct (owned_arrays ?s6)" "take 1 (bf_arrays ?s6 ! 1) = ''z''"
    unfolding s6 by auto
  with run s6 show ?thesis by (intro exI [of _ ?s6]) simp
qed

end
