(* ===== verification/Js_Extract.thy ===== *)
theory Js_Extract
  imports Js_Parser Go_Strings
begin

text \<open>
  What the parser of JavaScript extracts from a source file (\<open>language/js/crates/js-parser/src/lib.rs\<close>, a
  library in Rust): the references found on the way through the syntax tree, the reference directives in
  comments, and the result given across the language boundary. The syntax tree is that of a third-party parser: a tree
  of the nodes that matter and others, in the order they are walked.
\<close>

section \<open>The visitor\<close>

text \<open>
  The arguments of a call: a string literal, a member of an object by its name with whether the object is
  a meta property, or another. A callee, tag or attribute has a name when it is a plain identifier; an
  attribute has a text when its value is a string literal.
\<close>

datatype js_arg = StringArg string | MemberArg string bool | OtherArg

datatype js_kind =
    ImportDeclaration string
  | ExportNamedDeclaration "string option"
  | ExportAllDeclaration string
  | CallExpression "string option" "js_arg list"
  | ImportExpression js_arg
  | TSImportEqualsDeclaration "string option"
  | TSImportType string
  | NewExpression "string option" "js_arg list"
  | TSModuleDeclaration "string option"
  | JSXOpeningElement "string option" "(string option \<times> string option) list"
  | OtherNode

datatype js_node = JsNode js_kind "js_node list"

definition is_asset_tag :: "string \<Rightarrow> bool" where
  "is_asset_tag name \<longleftrightarrow> name \<in> {''img'', ''video'', ''source'', ''audio'', ''track''}"

fun arg_string :: "js_arg \<Rightarrow> string option" where
  "arg_string (StringArg s) = Some s"
| "arg_string _ = None"

fun is_import_meta_url :: "js_arg \<Rightarrow> bool" where
  "is_import_meta_url (MemberArg property meta) \<longleftrightarrow> property = ''url'' \<and> meta"
| "is_import_meta_url _ \<longleftrightarrow> False"

definition push_import :: "string \<Rightarrow> ParseResult \<Rightarrow> ParseResult" where
  "push_import s r = r\<lparr>prs_Imports := prs_Imports r @ [s]\<rparr>"

text \<open>The attributes of an asset element, one after another.\<close>

fun push_assets :: "(string option \<times> string option) list \<Rightarrow> ParseResult \<Rightarrow> ParseResult" where
  "push_assets [] r = r"
| "push_assets ((name, v) # attrs) r =
     push_assets attrs
       (case (name, v) of
          (Some n, Some s) \<Rightarrow> if n = ''src'' \<or> n = ''poster'' then r\<lparr>prs_JSXImports := prs_JSXImports r @ [s]\<rparr> else r
        | _ \<Rightarrow> r)"

text \<open>What visiting a node adds before its children are walked.\<close>

fun visit_kind :: "js_kind \<Rightarrow> ParseResult \<Rightarrow> ParseResult" where
  "visit_kind (ImportDeclaration source) r = push_import source r"
| "visit_kind (ExportNamedDeclaration source) r = (case source of None \<Rightarrow> r | Some s \<Rightarrow> push_import s r)"
| "visit_kind (ExportAllDeclaration source) r = push_import source r"
| "visit_kind (CallExpression callee args) r =
     (if callee = Some ''require'' then
        (case args of [] \<Rightarrow> r | a # _ \<Rightarrow> (case arg_string a of None \<Rightarrow> r | Some s \<Rightarrow> push_import s r))
      else r)"
| "visit_kind (ImportExpression source) r = (case arg_string source of None \<Rightarrow> r | Some s \<Rightarrow> push_import s r)"
| "visit_kind (TSImportEqualsDeclaration ext) r = (case ext of None \<Rightarrow> r | Some s \<Rightarrow> push_import s r)"
| "visit_kind (TSImportType source) r = push_import source r"
| "visit_kind (NewExpression callee args) r =
     (if callee = Some ''URL'' \<and> length args \<ge> 2 then
        (case arg_string (args ! 0) of
           Some s \<Rightarrow> if is_import_meta_url (args ! 1) then r\<lparr>prs_URLImports := prs_URLImports r @ [s]\<rparr> else r
         | None \<Rightarrow> r)
      else r)"
| "visit_kind (TSModuleDeclaration name) r =
     (case name of None \<Rightarrow> r | Some s \<Rightarrow> r\<lparr>prs_Modules := prs_Modules r @ [s]\<rparr>)"
| "visit_kind (JSXOpeningElement tag attrs) r =
     (case tag of None \<Rightarrow> r | Some t \<Rightarrow> if is_asset_tag t then push_assets attrs r else r)"
| "visit_kind OtherNode r = r"

fun visit :: "js_node \<Rightarrow> ParseResult \<Rightarrow> ParseResult"
  and visit_all :: "js_node list \<Rightarrow> ParseResult \<Rightarrow> ParseResult" where
  "visit (JsNode k children) r = visit_all children (visit_kind k r)"
| "visit_all [] r = r"
| "visit_all (n # ns) r = visit_all ns (visit n r)"

section \<open>Reference directives\<close>

text \<open>
  The regular expression of \<open>triple_slash_lib\<close>: three slashes, \<open><reference\<close>, \<open>path\<close> or \<open>types\<close>, and a text in
  double quotes. White space is that of Unicode, as for \<open>TrimSpace\<close> in Go.
\<close>

definition quoted_text :: "string \<Rightarrow> string option" where
  "quoted_text s =
     (case s of
        [] \<Rightarrow> None
      | c # t \<Rightarrow>
          let v = takeWhile (\<lambda>x. x \<noteq> CHR 0x22) t
          in if c = CHR 0x22 \<and> v \<noteq> [] \<and> length v < length t then Some v else None)"

definition triple_slash_lib :: "string \<Rightarrow> string option" where
  "triple_slash_lib text =
     (if \<not> HasPrefix text ''///'' then None
      else let s1 = trim_front white_space (drop 3 text) in
      if \<not> HasPrefix s1 ''<reference'' then None
      else let s2 = drop 10 s1; s3 = trim_front white_space s2 in
      if s3 = s2 \<or> \<not> (HasPrefix s3 ''path'' \<or> HasPrefix s3 ''types'') then None
      else let s4 = trim_front white_space (drop (if HasPrefix s3 ''path'' then 4 else 5) s3) in
      if \<not> HasPrefix s4 ''='' then None
      else quoted_text (trim_front white_space (drop 1 s4)))"

section \<open>A file\<close>

text \<open>
  What the third-party parser gives: the statements with the span of each, the comments with their starts, and its
  diagnostics.
\<close>

record oxc_program =
  ox_body :: "(js_node \<times> nat \<times> nat) list"
  ox_comments :: "(nat \<times> string) list"
  ox_errors :: "string list"

definition no_references :: ParseResult where
  "no_references = \<lparr>prs_Imports = [], prs_JSXImports = [], prs_URLImports = [], prs_Modules = [], prs_Errors = []\<rparr>"

definition nested_comment :: "oxc_program \<Rightarrow> nat \<Rightarrow> bool" where
  "nested_comment p start \<longleftrightarrow> list_ex (\<lambda>(_, lo, hi). lo \<le> start \<and> start < hi) (ox_body p)"

fun push_comments :: "oxc_program \<Rightarrow> (nat \<times> string) list \<Rightarrow> ParseResult \<Rightarrow> ParseResult" where
  "push_comments p [] r = r"
| "push_comments p ((start, text) # cs) r =
     push_comments p cs
       (if nested_comment p start then r
        else (case triple_slash_lib text of None \<Rightarrow> r | Some lib \<Rightarrow> push_import lib r))"

definition extract_imports :: "(string \<Rightarrow> string \<Rightarrow> oxc_program option) \<Rightarrow> string \<Rightarrow> string \<Rightarrow> ParseResult option" where
  "extract_imports oxc path source =
     (case oxc path source of
        None \<Rightarrow> None
      | Some p \<Rightarrow> Some ((push_comments p (ox_comments p) (visit_all (map fst (ox_body p)) no_references))\<lparr>prs_Errors := ox_errors p\<rparr>))"

text \<open>A panic of the parser (\<open>None\<close>) is a diagnostic.\<close>

definition catch_parse :: "ParseResult option \<Rightarrow> ParseResult" where
  "catch_parse parsed =
     (case parsed of None \<Rightarrow> no_references\<lparr>prs_Errors := [''internal error: the js parser panicked'']\<rparr> | Some r \<Rightarrow> r)"

definition as_str :: "(string \<Rightarrow> string) \<Rightarrow> string \<Rightarrow> string" where
  "as_str lossy bytes = (if bytes = [] then [] else lossy bytes)"

text \<open>\<open>lossy\<close> makes the bytes valid UTF-8. The buffer is never null.\<close>

definition js_parser_parse ::
  "(string \<Rightarrow> string) \<Rightarrow> (string \<Rightarrow> string \<Rightarrow> oxc_program option) \<Rightarrow> string \<Rightarrow> string \<Rightarrow> string option" where
  "js_parser_parse lossy oxc path src =
     Some (encodeParseResult (catch_parse (extract_imports oxc (as_str lossy path) (as_str lossy src))))"

section \<open>What arrives\<close>

text \<open>All nodes of a tree, a node before its children.\<close>

fun node_kinds :: "js_node \<Rightarrow> js_kind list"
  and nodes_kinds :: "js_node list \<Rightarrow> js_kind list" where
  "node_kinds (JsNode k children) = k # nodes_kinds children"
| "nodes_kinds [] = []"
| "nodes_kinds (n # ns) = node_kinds n @ nodes_kinds ns"

fun imported :: "js_kind \<Rightarrow> string list" where
  "imported (ImportDeclaration s) = [s]"
| "imported (ExportNamedDeclaration s) = (case s of None \<Rightarrow> [] | Some s \<Rightarrow> [s])"
| "imported (ExportAllDeclaration s) = [s]"
| "imported (CallExpression (Some f) (StringArg s # _)) = (if f = ''require'' then [s] else [])"
| "imported (ImportExpression (StringArg s)) = [s]"
| "imported (TSImportEqualsDeclaration s) = (case s of None \<Rightarrow> [] | Some s \<Rightarrow> [s])"
| "imported (TSImportType s) = [s]"
| "imported _ = []"

fun asset_sources :: "js_kind \<Rightarrow> string list" where
  "asset_sources (JSXOpeningElement (Some t) attrs) =
     (if is_asset_tag t then concat (map (\<lambda>a. case a of (Some n, Some s) \<Rightarrow> if n \<in> {''src'', ''poster''} then [s] else [] | _ \<Rightarrow> []) attrs)
      else [])"
| "asset_sources _ = []"

fun url_sources :: "js_kind \<Rightarrow> string list" where
  "url_sources (NewExpression (Some c) (StringArg s # MemberArg p meta # _)) =
     (if c = ''URL'' \<and> p = ''url'' \<and> meta then [s] else [])"
| "url_sources _ = []"

fun declared_modules :: "js_kind \<Rightarrow> string list" where
  "declared_modules (TSModuleDeclaration (Some s)) = [s]"
| "declared_modules _ = []"

definition added :: "js_kind list \<Rightarrow> ParseResult \<Rightarrow> ParseResult" where
  "added ks r =
     r\<lparr>prs_Imports := prs_Imports r @ concat (map imported ks), prs_JSXImports := prs_JSXImports r @ concat (map asset_sources ks),
       prs_URLImports := prs_URLImports r @ concat (map url_sources ks), prs_Modules := prs_Modules r @ concat (map declared_modules ks)\<rparr>"

lemma push_assets_eq:
  "push_assets attrs r = r\<lparr>prs_JSXImports := prs_JSXImports r @
     concat (map (\<lambda>a. case a of (Some n, Some s) \<Rightarrow> if n \<in> {''src'', ''poster''} then [s] else [] | _ \<Rightarrow> []) attrs)\<rparr>"
  by (induction attrs r rule: push_assets.induct) (auto split: option.splits)

lemma visit_kind_added: "visit_kind k r = added [k] r"
proof (cases k)
  case (CallExpression callee args)
  then show ?thesis
    by (cases callee; cases args; cases "hd args") (auto simp: added_def push_import_def)
next
  case (ImportExpression source)
  then show ?thesis by (cases source) (auto simp: added_def push_import_def)
next
  case (NewExpression callee args)
  show ?thesis
  proof (cases "\<exists>c a b rest. callee = Some c \<and> args = a # b # rest")
    case True
    then obtain c a b rest where "callee = Some c" "args = a # b # rest" by blast
    then show ?thesis unfolding NewExpression by (cases a; cases b) (auto simp: added_def)
  next
    case False
    then have "callee = None \<or> args = [] \<or> (\<exists>a. args = [a])" by (metis list.exhaust option.exhaust)
    then show ?thesis unfolding NewExpression by (auto simp: added_def)
  qed
next
  case (TSModuleDeclaration name)
  then show ?thesis by (cases name) (auto simp: added_def)
next
  case (JSXOpeningElement tag attrs)
  then show ?thesis by (cases tag) (auto simp: added_def push_assets_eq)
qed (auto simp: added_def push_import_def split: option.splits)

lemma added_append: "added ls (added ks r) = added (ks @ ls) r"
  by (simp add: added_def)

lemma visit_added: "visit n r = added (node_kinds n) r" "visit_all ns r = added (nodes_kinds ns) r"
proof (induction n r and ns r rule: visit_visit_all.induct)
  case (2 r)
  then show ?case by (simp add: added_def)
qed (simp_all add: visit_kind_added added_append)

text \<open>The directives of comments that are in no statement.\<close>

definition comment_references :: "oxc_program \<Rightarrow> string list" where
  "comment_references p =
     concat (map (\<lambda>(start, text). if nested_comment p start then [] else case triple_slash_lib text of None \<Rightarrow> [] | Some l \<Rightarrow> [l]) (ox_comments p))"

lemma push_comments_eq:
  "push_comments p cs r = r\<lparr>prs_Imports := prs_Imports r @
     concat (map (\<lambda>(start, text). if nested_comment p start then [] else case triple_slash_lib text of None \<Rightarrow> [] | Some l \<Rightarrow> [l]) cs)\<rparr>"
  by (induction p cs r rule: push_comments.induct) (auto simp: push_import_def split: option.splits)

definition references :: "oxc_program \<Rightarrow> ParseResult" where
  "references p =
     (let ks = nodes_kinds (map fst (ox_body p))
      in \<lparr>prs_Imports = concat (map imported ks) @ comment_references p, prs_JSXImports = concat (map asset_sources ks),
          prs_URLImports = concat (map url_sources ks), prs_Modules = concat (map declared_modules ks), prs_Errors = ox_errors p\<rparr>)"

lemma extract_imports_eq: "extract_imports oxc path source = map_option references (oxc path source)"
  by (cases "oxc path source")
    (simp_all add: extract_imports_def visit_added push_comments_eq references_def comment_references_def added_def no_references_def Let_def)

text \<open>
  C10 (functional). What the extension in Go is given of a file is exactly what its syntax tree and comments
  refer to, in the order of the tree, through the encoding of one language and the decoding of the other: the sources of
  imports and re-exports of every form wherever they are nested, the assets of elements, the URLs and the
  modules declared, the directives of comments outside of statements, and the diagnostics; and one
  diagnostic when the parser panics. Nothing is lost as long as 32 bits can count it and the encoding is
  shorter than two gibibytes, which a C \<open>int\<close> can count.
\<close>

theorem references_arrive:
  defines "given \<equiv> \<lambda>parsed. case parsed of
      None \<Rightarrow> no_references\<lparr>prs_Errors := [''internal error: the js parser panicked'']\<rparr> | Some p \<Rightarrow> references p"
  assumes "result_fits (given (oxc (as_str lossy path) (as_str lossy src)))"
    and "length (encodeParseResult (given (oxc (as_str lossy path) (as_str lossy src)))) < 2 ^ 31"
  shows "ParseSource (js_parser_parse lossy oxc) path src =
    Inr (Inr (given (oxc (as_str lossy path) (as_str lossy src))))"
proof -
  have parsed: "catch_parse (extract_imports oxc path src) = given (oxc path src)" for path src
    by (simp add: extract_imports_eq catch_parse_def given_def split: option.splits)
  have "decodeParseResult (encodeParseResult p) = Inr p" if "result_fits p" for p
    using that by (simp add: decode_iff)
  from this [OF assms(2)] GoBytes_all [OF assms(3)] show ?thesis
    by (simp add: ParseSource_def js_parser_parse_def parsed)
qed

text \<open>A call in a function, an export, an asset and two directives, one of them inside of the function.\<close>

definition example_program :: oxc_program where
  "example_program =
     \<lparr>ox_body =
        [(JsNode OtherNode [JsNode (CallExpression (Some ''require'') [StringArg ''a'']) [],
            JsNode (CallExpression (Some ''f'') [StringArg ''b'']) []], 30, 60),
         (JsNode (ExportNamedDeclaration (Some ''./c'')) [], 61, 80),
         (JsNode (JSXOpeningElement (Some ''img'') [(Some ''alt'', Some ''x''), (Some ''src'', Some ''d.png'')]) [], 81, 99)],
      ox_comments = [(0, ''/// <reference types = \"node\" />''), (40, ''/// <reference types=\"jest\" />'')], ox_errors = []\<rparr>"

lemma example_references:
  "references example_program =
     \<lparr>prs_Imports = [''a'', ''./c'', ''node''], prs_JSXImports = [''d.png''], prs_URLImports = [], prs_Modules = [], prs_Errors = []\<rparr>"
  by code_simp

theorem references_arrive_witness:
  "ParseSource (js_parser_parse id (\<lambda>path src. Some example_program)) ''x.tsx'' ''...'' =
     Inr (Inr \<lparr>prs_Imports = [''a'', ''./c'', ''node''], prs_JSXImports = [''d.png''], prs_URLImports = [], prs_Modules = [], prs_Errors = []\<rparr>)"
proof -
  have "result_fits (references example_program)" unfolding example_references by (simp add: result_fits_def list_fits_def)
  moreover have "length (encodeParseResult (references example_program)) < 2 ^ 31"
    unfolding example_references by (simp add: encodeParseResult_def enc_list_def enc_string_def enc_u32_def)
  ultimately show ?thesis
    using references_arrive [of "\<lambda>path src. Some example_program" id "''x.tsx''" "''...''"] by (simp add: example_references)
qed

text \<open>Single quotes, which the language allows in a directive, are not recognised.\<close>

lemma single_quoted_directive_lost: "triple_slash_lib ''/// <reference path='x.d.ts' />'' = None"
  by code_simp

end
