(* ===== verification/Spec2Isabelle.thy ===== *)
theory Spec2Isabelle
  imports Glob Labels Node_Package Js_Configure Js_Resolve Ibp Kinds Watchman Orion_Resolve Runner Star_Objects Workspace Source_Walk Js_Parser Star_Load Tree_Queries Git_Ignore Parallel Runner_Main Js_Index Read_Buffers Js_Extract
begin

text \<open>
  \<^bold>\<open>What this is.\<close> A model of the Go code of this repository, Aspect's distribution of the BUILD file
  generator gazelle, with the parser of JavaScript it calls in Rust, and proofs about it. Definitions have
  the names of the functions and types they stand for; the source files are given below by their path in
  the repository.

  \<^bold>\<open>The program.\<close> The runner (\<open>runner/\<close>) enables language extensions, watches a workspace or runs once, and
  calls gazelle. Gazelle walks the directories, lets each language configure itself from the
  directives of a BUILD file (\<open>Configure\<close>), generate rules from the files (\<open>GenerateRules\<close>), tell
  the rule index what its rules can be imported as (\<open>Imports\<close>), and set dependencies (\<open>Resolve\<close>). The
  extensions here are \<open>language/js\<close>, \<open>language/kotlin\<close> and \<open>language/orion\<close>, a host of plugins written in
  Starlark. They share \<open>common/\<close>: globs, labels, rules, directives, errors, caches of what is
  computed from files, tree-sitter queries, parallel work. State that Go keeps in objects is passed
  explicitly and returned updated. \<open>config.Exts\<close> appears as the one entry a component reads: the error
  accumulator of \<open>Errors\<close>, the caches of \<open>File_Cache\<close>.

  \<^bold>\<open>Conventions\<close> (\<open>Prelude\<close>). A Go string is a list of bytes. A result of type \<open>'a outcome\<close> is \<open>Inl\<close> when the
  process ends or panics: \<open>Fatal\<close>, \<open>Panic\<close>, \<open>OsExit\<close>, or \<open>OutOfFuel\<close>, which is no behaviour of the program. An error
  value of Go is the \<open>Inl\<close> of an inner sum, with one datatype of errors per component in place of the
  message texts. A Go map is a function to options where its order cannot be seen, otherwise an association list
  with distinct keys, or a set or list in an order that is a parameter. Integers are words of their width
  where they can wrap (cycle ids, lengths in the parser's buffer and the C \<open>int\<close> it is copied with, indices of tree-sitter,
  times of the daemon, numbers in Starlark).

  \<^bold>\<open>Foundations.\<close> \<open>Go_Strings\<close> and \<open>Go_Path\<close> are the parts of \<open>strings\<close>, \<open>slices\<close>, \<open>path\<close> and \<open>filepath.Rel\<close> that
  are used, from their documentation, with laws such as that cleaning is idempotent. \<open>Comparators\<close> has three-way
  comparison and sorting, as the locale \<open>comparator\<close>, and the law of an ordered set (\<open>treeset_law\<close>). \<open>Walks\<close> is the
  contract of searches upwards (\<open>dir_walk\<close>, \<open>path_walk\<close>); \<open>Path_Up\<close> the same by \<open>path.Dir\<close>, with the measure for
  which such a loop ends.

  \<^bold>\<open>Shared code\<close> (\<open>common/\<close>).
  \<^item> \<open>Glob\<close> (\<open>glob.go\<close>): five classes of patterns and their batched matching, which agrees with matching them one by one.
  \<^item> \<open>Labels\<close> (\<open>set.go\<close>), \<open>Rules\<close> (\<open>rule/\<close>), \<open>Directives\<close> (\<open>directives.go\<close>; the locale \<open>directive_reader\<close> of a
    loop that may stop early), \<open>Workspace\<close> (\<open>bazel/workspace/finder.go\<close>), \<open>Source_Walk\<close> (\<open>walk.go\<close>).
  \<^item> \<open>Errors\<close> (\<open>error.go\<close>): the accumulator that a context carries, by its address and its contents: an error
    once answered is the object that later reports change.
  \<^item> \<open>Parallel\<close> (\<open>worker.go\<close>): the goroutines and the two channels of \<open>Parallelize\<close> as a step relation; in
    every schedule it ends, without deadlock, with each result once.
  \<^item> \<open>File_Cache\<close> (\<open>cache/\<close>): the caches by path, by content and for watch sessions, with the file they are kept
    in. The locales \<open>compute_cache\<close> and \<open>checking_cache\<close> state what a cache owes its users and carry
    the proof that it is never seen, for each interpretation. \<open>Read_Buffers\<close> (\<open>cache/readfile.go\<close>) has the pool of buffers
    under interleaved readers.
  \<^item> \<open>Tree_Queries\<close> (\<open>treesitter/\<close>): compiling queries, predicates, captures, with the panics of indices
    and slices out of range.

  \<^bold>\<open>The JavaScript extension\<close> (\<open>language/js/\<close>).
  \<^item> \<open>Node_Paths\<close>, \<open>Node_Package\<close> (\<open>node/\<close>): import paths; exports and imports of a \<open>package.json\<close> and the
    choice of the best key. \<open>Pnpm\<close> (\<open>pnpm/\<close>): lockfiles, the map of projects, and the innermost project of a path.
  \<^item> \<open>Tsconfig\<close>, \<open>Ts_Workspace\<close> (\<open>typescript/\<close>): reading, inheriting and merging configurations through the shared
    cache, path expansion, and the search for the governing file. The loader is compared with one that has no cache
    (\<open>config_of\<close>); the locales \<open>config_loader\<close> and \<open>config_lookup\<close> are the contracts between the layers.
  \<^item> \<open>Js_Config\<close>, \<open>Js_Configure\<close> (\<open>config.go\<close>, \<open>configure.go\<close>): the configuration of a directory as a chain of parents,
    and its directives. \<open>Kinds\<close> (\<open>kinds.go\<close>).
  \<^item> \<open>Js_Imports\<close>, \<open>Js_Sources\<close>, \<open>Js_Project\<close>, \<open>Js_Generate\<close> (\<open>generate.go\<close>, \<open>target.go\<close>, \<open>proto/\<close>): what an import means,
    the group of each file, the rule of a group, all rules of a directory.
  \<^item> \<open>Js_Index\<close>, \<open>Js_Resolve\<close> (\<open>resolve.go\<close>): what rules can be imported as, and their dependencies.
  \<^item> \<open>Js_Extract\<close> (\<open>crates/js-parser/src/lib.rs\<close>) and \<open>Js_Parser\<close> (\<open>parser/parser.go\<close>): what is extracted from a syntax
    tree, encoded in Rust and decoded in Go.

  \<^bold>\<open>The Kotlin extension\<close> (\<open>language/kotlin/\<close>) is \<open>Kotlin\<close>: parse results, the rules of a directory, resolution of imports.

  \<^bold>\<open>The orion host\<close> (\<open>language/orion/\<close>).
  \<^item> \<open>Star_Values\<close> (\<open>starlark/utils\<close>): values between Go and Starlark. \<open>Star_Load\<close> (\<open>starlark/eval.go\<close>): evaluation of plugin
    files and of the modules they load. \<open>Star_Objects\<close> (\<open>plugin/*.star.go\<close>): the host's objects as plugin code sees them.
  \<^item> \<open>Orion_Plugin\<close> (\<open>plugin/\<close>), \<open>Orion_Host\<close> (\<open>host.go\<close>, \<open>builtin.go\<close>), \<open>Orion_Config\<close> (\<open>config.go\<close>, \<open>configure.go\<close>,
    \<open>starzelle/plugin.go\<close>), \<open>Orion_Queries\<close> (\<open>queries/\<close>), \<open>Orion_Generate\<close> (\<open>generate.go\<close>), \<open>Orion_Resolve\<close> (\<open>resolver.go\<close>): the
    stages of a directory, in this order: prepare, query, analyze, declare, resolve.

  \<^bold>\<open>The runner\<close> (\<open>runner/\<close>).
  \<^item> \<open>Ibp\<close> (\<open>pkg/ibp\<close>): both ends of the incremental build protocol as state machines connected by two queues.
  \<^item> \<open>Watchman\<close> (\<open>pkg/watchman\<close>, with \<open>common/bazel/bazelignore.go\<close>): the client of the daemon and the cache that its answers keep valid.
  \<^item> \<open>Git_Ignore\<close> (\<open>pkg/git\<close>, with the patch of gazelle's walk). \<open>Runner\<close> (\<open>runner.go\<close>): languages, changed directories and watch
    sessions. \<open>Runner_Main\<close> (\<open>bin/\<close>): arguments, languages and the main functions.

  \<^bold>\<open>What is shown.\<close> The properties are the theorems with a number C1 to C40; the text before each says in
  words what it states and under which conditions. By kind:
  \<^item> caches and sessions are not seen by their users: C1, C4, C11, C17, C24;
  \<^item> state machines and schedules, for every interleaving: C3, C5, C14, C38, C39;
  \<^item> termination, with a bound where there is fuel: C3, C5, C12, C21, C24;
  \<^item> the exact result of a stage: C2, C8, C15, C16, C19, C20, C23, C25, C26, C28, C30, C32, C33;
  \<^item> an optimised or staged routine against a direct specification: C6, C13, C18, C22, C40;
  \<^item> encodings and round trips: C9, C10, C27, C31;
  \<^item> errors, panics and nothing lost: C7, C29, C34, C36, C37; invariants of state: C35.

  The theorems named \<open>\<dots>_witness\<close> apply a property to concrete values that satisfy its conditions. The lemmas about
  single operations before them (preservation of an invariant, the result on each branch) are shared by the
  proofs. Lemmas without a number also state what the code does where it is not what its comments say,
  for example \<open>new_directory_parent_kept\<close>, \<open>root_extends_itself_diverges\<close>, \<open>null_exports_ignored\<close>, \<open>foreign_results_panic\<close>.

  \<^bold>\<open>Fuel.\<close> Three recursions need a bound. Loading a tsconfig recurses through \<open>extends\<close>: one more than the number of files
  that can be opened and have no slot in the cache is enough (C21), and without cycles one more than
  the height of the file (C24); extending oneself above the root of the file system has no
  bound (\<open>root_extends_itself_diverges\<close>). \<open>GetSourceRegularFiles\<close> recurses into subdirectories: their depth is enough
  (\<open>source_files_found\<close>). Loads of plugin modules are nested at most as deep as there are modules
  (C12). All other loops are structural or have a measure: directories get shorter, or closer to the root.

  \<^bold>\<open>Parameters.\<close> Code of other repositories is an argument of the definitions that call it, and what is assumed of
  it is a hypothesis of the theorem: gazelle itself (its runs, its walk, the rule index, the overrides and the
  label parser), the doublestar, regexp and \<open>filepath.Match\<close> matchers, go-git's ignore patterns, tree-sitter, gojq and yq, the
  Starlark interpreter (the execution of a module is the tree of its loads and calls), the oxc parser (the syntax tree
  in walking order), the JSON, YAML and gob decoders, hashing, semver, rules_jvm's Maven and Java packages, the watchman daemon,
  the ordered sets of gods, and the orders in which Go iterates over maps and goroutines deliver. Contents of files and the results of opening
  them are functions that may differ from one moment of a session to the next.

  \<^bold>\<open>Not modelled.\<close> The copies of third-party code in \<open>runner/vendored\<close>, the sockets that carry JSON texts,
  progress display, logging, tracing and build stamps, texts of errors and printed messages, bindings of tree-sitter grammars,
  closing of sessions and cancellation of contexts while a call is running, \<open>BzlExpr\<close> and the typed attribute readers, which only convert syntax
  trees of another package, languages for tests and lint configuration. Reads and writes of the two caches of the runner are
  atomic, except in the lemma on interleaved loads of \<open>File_Cache\<close>; the goroutines of a stage run in one order where the stage
  sorts or merges their results. Data races and memory are not modelled, apart from the buffers of \<open>Read_Buffers\<close>.
\<close>

end
